(* ===== verification/Prelude.thy ===== *)
theory Prelude
  imports Main "HOL-Library.Word"
begin

text \<open>
  Shared vocabulary of the development: machine integers and byte strings, the outcome of a
  Rust function (\<open>Ok\<close>, \<open>Err\<close> or a panic), slices and \<open>copy_from_slice\<close> on fixed
  buffers, and the generic list facts the components use.
  A Rust \<open>[T; N]\<close> or \<open>&[T]\<close> is a list; \<open>usize\<close> values that are lengths of or
  offsets into in-memory buffers are \<open>nat\<close> (they are bounded by the buffer's length, far
  below the width); integers whose wrap-around or truncation matters are words.
\<close>

section \<open>Types\<close>

type_synonym u8 = "8 word"
type_synonym u16 = "16 word"
type_synonym u32 = "32 word"
type_synonym u64 = "64 word"
type_synonym bytes = "8 word list"

named_theorems res_simps \<open>rewrite rules for the outcome type\<close>
named_theorems blit_simps \<open>rewrite rules for writes into fixed buffers\<close>

text \<open>ASCII text as bytes: \<open>b"..."\<close> and \<open>str::as_bytes\<close>.\<close>

definition ascii :: "string \<Rightarrow> bytes" where
  "ascii s = map (\<lambda>c. word_of_nat (of_char c)) s"

section \<open>Outcomes of Rust functions\<close>

text \<open>
  \<open>Ok\<close> and \<open>Err\<close> are the constructors of \<open>Result\<close>; \<open>Panic\<close> stands for a failed
  assertion, an index or slice out of range, or a write through a pointer that leaves the
  buffer (undefined behaviour in the source, so every theorem that excludes \<open>Panic\<close>
  excludes it too).
\<close>

datatype ('a, 'e) res = Ok 'a | Err 'e | Panic

fun res_bind :: "('a, 'e) res \<Rightarrow> ('a \<Rightarrow> ('b, 'e) res) \<Rightarrow> ('b, 'e) res" where
  "res_bind (Ok x) f = f x"
| "res_bind (Err e) f = Err e"
| "res_bind Panic f = Panic"

fun ok_or :: "'a option \<Rightarrow> 'e \<Rightarrow> ('a, 'e) res" where
  "ok_or (Some x) e = Ok x"
| "ok_or None e = Err e"

fun map_err :: "('e \<Rightarrow> 'f) \<Rightarrow> ('a, 'e) res \<Rightarrow> ('a, 'f) res" where
  "map_err f (Ok x) = Ok x"
| "map_err f (Err e) = Err (f e)"
| "map_err f Panic = Panic"

lemma res_bind_Ok_iff [res_simps]:
  "res_bind m f = Ok y \<longleftrightarrow> (\<exists>x. m = Ok x \<and> f x = Ok y)"
  by (cases m) auto

lemma res_bind_Panic_iff [res_simps]:
  "res_bind m f = Panic \<longleftrightarrow> m = Panic \<or> (\<exists>x. m = Ok x \<and> f x = Panic)"
  by (cases m) auto

lemma res_bind_Err_iff [res_simps]:
  "res_bind m f = Err e \<longleftrightarrow> m = Err e \<or> (\<exists>x. m = Ok x \<and> f x = Err e)"
  by (cases m) auto

lemma res_bind_Ok_right [simp]: "res_bind m Ok = m"
  by (cases m) auto

lemma ok_or_Ok_iff [simp]: "ok_or m e = Ok x \<longleftrightarrow> m = Some x"
  by (cases m) auto

lemma ok_or_not_Panic [simp]: "ok_or m e \<noteq> Panic"
  by (cases m) auto

lemma ok_or_Err_iff [simp]: "ok_or m e = Err e' \<longleftrightarrow> m = None \<and> e' = e"
  by (cases m) auto

lemma map_err_Ok_iff [simp]: "map_err f m = Ok x \<longleftrightarrow> m = Ok x"
  by (cases m) auto

lemma map_err_Panic_iff [simp]: "map_err f m = Panic \<longleftrightarrow> m = Panic"
  by (cases m) auto

lemma res_bind_cong [fundef_cong]:
  "m = m' \<Longrightarrow> (\<And>x. m' = Ok x \<Longrightarrow> f x = f' x) \<Longrightarrow> res_bind m f = res_bind m' f'"
  by (cases m') auto

section \<open>Indexing and slices\<close>

text \<open>\<open>xs[i]\<close>: panics out of range.\<close>

definition index :: "'a list \<Rightarrow> nat \<Rightarrow> ('a, 'e) res" where
  "index xs i = (if i < length xs then Ok (xs ! i) else Panic)"

text \<open>\<open>&xs[a..b]\<close>: panics when \<open>a > b\<close> or \<open>b > xs.len()\<close>.\<close>

definition slice :: "'a list \<Rightarrow> nat \<Rightarrow> nat \<Rightarrow> ('a list, 'e) res" where
  "slice xs a b = (if a \<le> b \<and> b \<le> length xs then Ok (take (b - a) (drop a xs)) else Panic)"

lemma index_Ok_iff [res_simps]: "index xs i = Ok y \<longleftrightarrow> i < length xs \<and> y = xs ! i"
  by (auto simp: index_def)

lemma index_Panic_iff [res_simps]: "index xs i = Panic \<longleftrightarrow> length xs \<le> i"
  by (auto simp: index_def)

lemma index_not_Err [simp]: "index xs i \<noteq> Err e"
  by (auto simp: index_def)

lemma slice_Ok_iff [res_simps]:
  "slice xs a b = Ok ys \<longleftrightarrow> a \<le> b \<and> b \<le> length xs \<and> ys = take (b - a) (drop a xs)"
  by (auto simp: slice_def)

lemma slice_not_Err [simp]: "slice xs a b \<noteq> Err e"
  by (auto simp: slice_def)

section \<open>Writes into fixed buffers\<close>

text \<open>\<open>blit buf off xs\<close> is the buffer after \<open>xs\<close> is copied to offset \<open>off\<close>.\<close>

definition blit :: "'a list \<Rightarrow> nat \<Rightarrow> 'a list \<Rightarrow> 'a list" where
  "blit buf off xs = take off buf @ xs @ drop (off + length xs) buf"

text \<open>
  \<open>buf[off..off + n].copy_from_slice(xs)\<close> panics when the range leaves the buffer or
  \<open>xs.len() != n\<close>.
\<close>

definition copy_from_slice :: "'a list \<Rightarrow> nat \<Rightarrow> nat \<Rightarrow> 'a list \<Rightarrow> ('a list, 'e) res" where
  "copy_from_slice buf a b xs =
     (if a \<le> b \<and> b \<le> length buf \<and> length xs = b - a then Ok (blit buf a xs) else Panic)"

lemma length_blit [simp]:
  "off + length xs \<le> length buf \<Longrightarrow> length (blit buf off xs) = length buf"
  by (simp add: blit_def)

lemma blit_nth:
  assumes "off + length xs \<le> length buf" and "i < length buf"
  shows "blit buf off xs ! i =
    (if i < off then buf ! i else if i < off + length xs then xs ! (i - off) else buf ! i)"
  using assms by (auto simp: blit_def nth_append)

lemma take_blit_before [blit_simps]:
  "n \<le> off \<Longrightarrow> off \<le> length buf \<Longrightarrow> take n (blit buf off xs) = take n buf"
  by (simp add: blit_def min_def)

lemma drop_blit_after [blit_simps]:
  "off + length xs \<le> n \<Longrightarrow> off + length xs \<le> length buf \<Longrightarrow>
   drop n (blit buf off xs) = drop n buf"
  by (simp add: blit_def)

lemma take_drop_blit [blit_simps]:
  "off + length xs \<le> length buf \<Longrightarrow>
   take (length xs) (drop off (blit buf off xs)) = xs"
  by (simp add: blit_def)

lemma blit_at_end:
  "length ys \<le> k \<Longrightarrow>
   blit (xs @ replicate k a) (length xs) ys = xs @ ys @ replicate (k - length ys) a"
  by (simp add: blit_def)

lemma take_blit:
  assumes "off + length xs \<le> n" and "n \<le> length buf"
  shows "take n (blit buf off xs) = blit (take n buf) off xs"
proof -
  have "min n off = off" "min (length buf) off = off" "length xs \<le> n - off"
    "n - off - length xs = n - (off + length xs)" using assms by auto
  then show ?thesis by (simp add: blit_def drop_take)
qed

lemma blit_single: "off < length buf \<Longrightarrow> blit buf off [x] = buf[off := x]"
  by (simp add: blit_def upd_conv_take_nth_drop)

lemma copy_from_slice_Ok_iff [res_simps]:
  "copy_from_slice buf a b xs = Ok buf' \<longleftrightarrow>
   a \<le> b \<and> b \<le> length buf \<and> length xs = b - a \<and> buf' = blit buf a xs"
  by (auto simp: copy_from_slice_def)

section \<open>Lists\<close>

lemma take_drop_Suc_snoc:
  "n < length xs \<Longrightarrow> take (Suc n) xs = take n xs @ [xs ! n]"
  by (rule take_Suc_conv_app_nth)

lemma map_upt_cong_lt: "(\<And>i. i < n \<Longrightarrow> f i = g i) \<Longrightarrow> map f [0..<n] = map g [0..<n]"
  by simp

text \<open>Slices as maps over index ranges, the form in which loops over indices produce them.\<close>

lemma map_nth_range:
  "a + n \<le> length xs \<Longrightarrow> map (\<lambda>i. xs ! i) [a..<a + n] = take n (drop a xs)"
  by (rule nth_equalityI) auto

text \<open>A \<open>find\<close> over an index range returns the first match.\<close>

lemma find_upt_Some:
  "find P [0..<n] = Some i \<longleftrightarrow> i < n \<and> P i \<and> (\<forall>j < i. \<not> P j)"
proof
  assume "find P [0..<n] = Some i"
  then obtain k where k: "k < n" "P ([0..<n] ! k)" "i = [0..<n] ! k" "\<forall>j<k. \<not> P ([0..<n] ! j)"
    by (auto simp: find_Some_iff)
  then show "i < n \<and> P i \<and> (\<forall>j < i. \<not> P j)" by auto
next
  assume "i < n \<and> P i \<and> (\<forall>j < i. \<not> P j)"
  then show "find P [0..<n] = Some i"
    by (auto simp: find_Some_iff intro!: exI [of _ i])
qed

lemma find_upt_None: "find P [0..<n] = None \<longleftrightarrow> (\<forall>i < n. \<not> P i)"
  by (auto simp: find_None_iff)

text \<open>Position of the first occurrence of an element.\<close>

fun position :: "'a \<Rightarrow> 'a list \<Rightarrow> nat" where
  "position x [] = 0"
| "position x (y # ys) = (if x = y then 0 else Suc (position x ys))"

lemma position_nth: "x \<in> set xs \<Longrightarrow> position x xs < length xs \<and> xs ! position x xs = x"
  by (induction xs) auto

lemma position_eqI:
  assumes "distinct xs" and "i < length xs"
  shows "position (xs ! i) xs = i"
proof -
  have "xs ! position (xs ! i) xs = xs ! i" "position (xs ! i) xs < length xs"
    using position_nth [of "xs ! i" xs] assms by auto
  with assms show ?thesis by (simp add: nth_eq_iff_index_eq)
qed

text \<open>Elements of a concatenation of lists of one length.\<close>

lemma nth_concat_fixed:
  "list_all (\<lambda>s. length s = w) xs \<Longrightarrow> i < length xs \<Longrightarrow> take w (drop (w * i) (concat xs)) = xs ! i"
proof (induction xs arbitrary: i)
  case (Cons x xs)
  then show ?case by (cases i) (auto simp: drop_append)
qed simp

end
