(* ===== verification/Txn_Builder.thy ===== *)
theory Txn_Builder
  imports Prelude
begin

text \<open>
  The transaction builder of \<open>crates/ballet/txn/fd_txn/src/builder.rs\<close>: its state, the
  account table, and the operations that fill it (\<open>version\<close>, \<open>fee_payer\<close>,
  \<open>recent_blockhash\<close>, \<open>add_signer\<close>, \<open>add_instruction\<close>).
  The builder's limits and the two C functions it calls come from the generated bindings, so
  they are the fields of \<open>txn_sys\<close>, an argument of every definition that uses them.
  An operation on \<open>&mut self\<close> returns its outcome and the state it leaves behind, on the
  error paths too.
\<close>

unbundle bit_operations_syntax

section \<open>Data\<close>

type_synonym pubkey = bytes

datatype transaction_version = Legacy | V0

text \<open>What the bindings of Firedancer provide (\<open>sys::FD_TXN_*\<close>, \<open>sys::fd_*\<close>).\<close>

record txn_sys =
  ACCT_MAX :: nat
  INSTR_MAX :: nat
  MTU :: nat
  SIG_MAX :: nat
  SIG_SZ :: nat
  fd_cu16_enc :: "u16 \<Rightarrow> bytes"
  fd_txn_parse_core :: "bytes \<Rightarrow> nat"

definition ACCT_F_SIGNER :: u8 where "ACCT_F_SIGNER = 0x01"
definition ACCT_F_WRITABLE :: u8 where "ACCT_F_WRITABLE = 0x02"

definition ZERO_KEY :: pubkey where "ZERO_KEY = replicate 32 0"

record account_meta =
  meta_pubkey :: pubkey
  is_signer :: bool
  is_writable :: bool

record instruction_buf =
  program_id :: pubkey
  accounts :: "account_meta list"
  ix_data :: bytes

datatype build_error =
    NoFeePayer | NoBlockhash | NoInstructions | TooManyAccounts | TooManyInstructions
  | TooManySigners | DataTooLarge | TransactionTooLarge | ValidationFailed

record instr_entry =
  program_idx :: u8
  acct_off :: u16
  acct_cnt :: u16
  data_off :: u16
  data_len :: u16

definition ZERO_INSTR :: instr_entry where
  "ZERO_INSTR = \<lparr>program_idx = 0, acct_off = 0, acct_cnt = 0, data_off = 0, data_len = 0\<rparr>"

record builder =
  acct_keys :: "pubkey list"
  acct_flags :: "u8 list"
  acct_count :: nat
  instrs :: "instr_entry list"
  instr_count :: nat
  instr_acct_buf :: bytes
  instr_acct_len :: nat
  instr_data_buf :: bytes
  instr_data_len :: nat
  fee_payer :: "pubkey option"
  blockhash :: "bytes option"
  txn_version :: transaction_version

section \<open>Operations\<close>

definition builder_new :: "txn_sys \<Rightarrow> builder" where
  "builder_new sys =
     \<lparr>acct_keys = replicate (ACCT_MAX sys) ZERO_KEY,
      acct_flags = replicate (ACCT_MAX sys) 0,
      acct_count = 0,
      instrs = replicate (INSTR_MAX sys) ZERO_INSTR,
      instr_count = 0,
      instr_acct_buf = replicate (MTU sys) 0,
      instr_acct_len = 0,
      instr_data_buf = replicate (MTU sys) 0,
      instr_data_len = 0,
      fee_payer = None,
      blockhash = None,
      txn_version = Legacy\<rparr>"

definition builder_version :: "transaction_version \<Rightarrow> builder \<Rightarrow> builder" where
  "builder_version v b = b\<lparr>txn_version := v\<rparr>"

definition builder_recent_blockhash :: "bytes \<Rightarrow> builder \<Rightarrow> builder" where
  "builder_recent_blockhash h b = b\<lparr>blockhash := Some h\<rparr>"

definition find_account :: "builder \<Rightarrow> pubkey \<Rightarrow> nat option" where
  "find_account b pk = find (\<lambda>i. acct_keys b ! i = pk) [0..<acct_count b]"

text \<open>The three assignments that append a key to the account table.\<close>

definition insert_account :: "pubkey \<Rightarrow> builder \<Rightarrow> builder" where
  "insert_account pk b =
     b\<lparr>acct_keys := (acct_keys b)[acct_count b := pk],
       acct_flags := (acct_flags b)[acct_count b := 0],
       acct_count := acct_count b + 1\<rparr>"

text \<open>\<open>self.acct_flags[idx] |= f\<close>\<close>

definition or_flags :: "nat \<Rightarrow> u8 \<Rightarrow> builder \<Rightarrow> builder" where
  "or_flags i f b = b\<lparr>acct_flags := (acct_flags b)[i := acct_flags b ! i OR f]\<rparr>"

definition find_or_insert ::
  "txn_sys \<Rightarrow> pubkey \<Rightarrow> builder \<Rightarrow> (nat, build_error) res \<times> builder" where
  "find_or_insert sys pk b =
     (case find_account b pk of
        Some i \<Rightarrow> (Ok i, b)
      | None \<Rightarrow>
          if acct_count b \<ge> ACCT_MAX sys then (Err TooManyAccounts, b)
          else (Ok (acct_count b), insert_account pk b))"

text \<open>\<open>fee_payer\<close> asserts that the table is not full.\<close>

definition builder_fee_payer ::
  "txn_sys \<Rightarrow> pubkey \<Rightarrow> builder \<Rightarrow> (unit, build_error) res \<times> builder" where
  "builder_fee_payer sys pk b =
     (case find_account b pk of
        Some i \<Rightarrow>
          (Ok (), (or_flags i (ACCT_F_SIGNER OR ACCT_F_WRITABLE) b)\<lparr>fee_payer := Some pk\<rparr>)
      | None \<Rightarrow>
          if acct_count b < ACCT_MAX sys
          then (Ok (), (or_flags (acct_count b) (ACCT_F_SIGNER OR ACCT_F_WRITABLE)
                          (insert_account pk b))\<lparr>fee_payer := Some pk\<rparr>)
          else (Panic, b))"

definition builder_add_signer ::
  "txn_sys \<Rightarrow> pubkey \<Rightarrow> builder \<Rightarrow> (unit, build_error) res \<times> builder" where
  "builder_add_signer sys pk b =
     (case find_or_insert sys pk b of
        (Ok i, b') \<Rightarrow> (Ok (), or_flags i ACCT_F_SIGNER b')
      | (Err e, b') \<Rightarrow> (Err e, b')
      | (Panic, b') \<Rightarrow> (Panic, b'))"

text \<open>The flag updates of one account reference.\<close>

definition mark_meta :: "account_meta \<Rightarrow> nat \<Rightarrow> builder \<Rightarrow> builder" where
  "mark_meta m i b =
     (let b1 = (if is_signer m then or_flags i ACCT_F_SIGNER b else b)
      in if is_writable m then or_flags i ACCT_F_WRITABLE b1 else b1)"

text \<open>\<open>self.instr_acct_buf[self.instr_acct_len] = idx as u8; self.instr_acct_len += 1\<close>\<close>

definition push_acct_index :: "nat \<Rightarrow> builder \<Rightarrow> builder" where
  "push_acct_index i b =
     b\<lparr>instr_acct_buf := (instr_acct_buf b)[instr_acct_len b := word_of_nat i],
       instr_acct_len := instr_acct_len b + 1\<rparr>"

text \<open>The loop \<open>for meta in ix.accounts\<close>.\<close>

fun add_metas ::
  "txn_sys \<Rightarrow> account_meta list \<Rightarrow> builder \<Rightarrow> (unit, build_error) res \<times> builder" where
  "add_metas sys [] b = (Ok (), b)"
| "add_metas sys (m # ms) b =
     (case find_or_insert sys (meta_pubkey m) b of
        (Ok i, b1) \<Rightarrow>
          (let b2 = mark_meta m i b1
           in if instr_acct_len b2 \<ge> MTU sys then (Err DataTooLarge, b2)
              else add_metas sys ms (push_acct_index i b2))
      | (Err e, b1) \<Rightarrow> (Err e, b1)
      | (Panic, b1) \<Rightarrow> (Panic, b1))"

text \<open>The data copy and the new instruction entry, after the two guards.\<close>

definition push_instr :: "instruction_buf \<Rightarrow> nat \<Rightarrow> nat \<Rightarrow> builder \<Rightarrow> builder" where
  "push_instr ix prog acct_start b =
     b\<lparr>instr_data_buf := blit (instr_data_buf b) (instr_data_len b) (ix_data ix),
       instr_data_len := instr_data_len b + length (ix_data ix),
       instrs := (instrs b)[instr_count b :=
         \<lparr>program_idx = word_of_nat prog,
          acct_off = word_of_nat acct_start,
          acct_cnt = word_of_nat (length (accounts ix)),
          data_off = word_of_nat (instr_data_len b),
          data_len = word_of_nat (length (ix_data ix))\<rparr>],
       instr_count := instr_count b + 1\<rparr>"

definition builder_add_instruction ::
  "txn_sys \<Rightarrow> instruction_buf \<Rightarrow> builder \<Rightarrow> (unit, build_error) res \<times> builder" where
  "builder_add_instruction sys ix b =
     (if instr_count b \<ge> INSTR_MAX sys then (Err TooManyInstructions, b)
      else case find_or_insert sys (program_id ix) b of
        (Ok prog, b1) \<Rightarrow>
          (let acct_start = instr_acct_len b1
           in case add_metas sys (accounts ix) b1 of
                (Ok u, b2) \<Rightarrow>
                  if instr_data_len b2 + length (ix_data ix) > MTU sys
                  then (Err DataTooLarge, b2)
                  else (Ok (), push_instr ix prog acct_start b2)
              | (Err e, b2) \<Rightarrow> (Err e, b2)
              | (Panic, b2) \<Rightarrow> (Panic, b2))
      | (Err e, b1) \<Rightarrow> (Err e, b1)
      | (Panic, b1) \<Rightarrow> (Panic, b1))"

section \<open>Well-formed builders\<close>

text \<open>
  The limits are C constants; the code stores account indices in \<open>u8\<close>, offsets and counts
  in \<open>u16\<close>, and counts signers in a \<open>u8\<close>.
\<close>

definition limits_ok :: "txn_sys \<Rightarrow> bool" where
  "limits_ok sys \<longleftrightarrow> ACCT_MAX sys < 256 \<and> INSTR_MAX sys < 65536 \<and> MTU sys < 65536"

definition signer_flag :: "u8 \<Rightarrow> bool" where
  "signer_flag f \<longleftrightarrow> f AND ACCT_F_SIGNER \<noteq> 0"

definition writable_flag :: "u8 \<Rightarrow> bool" where
  "writable_flag f \<longleftrightarrow> f AND ACCT_F_WRITABLE \<noteq> 0"

definition table_keys :: "builder \<Rightarrow> pubkey list" where
  "table_keys b = take (acct_count b) (acct_keys b)"

definition table_wf :: "txn_sys \<Rightarrow> builder \<Rightarrow> bool" where
  "table_wf sys b \<longleftrightarrow>
     length (acct_keys b) = ACCT_MAX sys \<and> length (acct_flags b) = ACCT_MAX sys \<and>
     acct_count b \<le> ACCT_MAX sys \<and> distinct (table_keys b)"

definition buffers_wf :: "txn_sys \<Rightarrow> builder \<Rightarrow> bool" where
  "buffers_wf sys b \<longleftrightarrow>
     length (instrs b) = INSTR_MAX sys \<and> instr_count b \<le> INSTR_MAX sys \<and>
     length (instr_acct_buf b) = MTU sys \<and> instr_acct_len b \<le> MTU sys \<and>
     length (instr_data_buf b) = MTU sys \<and> instr_data_len b \<le> MTU sys"

definition entry_wf :: "builder \<Rightarrow> instr_entry \<Rightarrow> bool" where
  "entry_wf b e \<longleftrightarrow>
     unat (program_idx e) < acct_count b \<and>
     unat (acct_off e) + unat (acct_cnt e) \<le> instr_acct_len b \<and>
     unat (data_off e) + unat (data_len e) \<le> instr_data_len b"

definition refs_wf :: "builder \<Rightarrow> bool" where
  "refs_wf b \<longleftrightarrow>
     (\<forall>x \<in> set (take (instr_acct_len b) (instr_acct_buf b)). unat x < acct_count b) \<and>
     (\<forall>e \<in> set (take (instr_count b) (instrs b)). entry_wf b e)"

definition payer_wf :: "builder \<Rightarrow> bool" where
  "payer_wf b \<longleftrightarrow>
     (case fee_payer b of
        None \<Rightarrow> True
      | Some pk \<Rightarrow> \<exists>i < acct_count b. acct_keys b ! i = pk \<and>
          signer_flag (acct_flags b ! i) \<and> writable_flag (acct_flags b ! i))"

definition builder_wf :: "txn_sys \<Rightarrow> builder \<Rightarrow> bool" where
  "builder_wf sys b \<longleftrightarrow> table_wf sys b \<and> buffers_wf sys b \<and> refs_wf b \<and> payer_wf b"

lemmas builder_wf_defs = builder_wf_def table_wf_def buffers_wf_def refs_wf_def

lemma length_table_keys [simp]: "table_wf sys b \<Longrightarrow> length (table_keys b) = acct_count b"
  by (simp add: table_wf_def table_keys_def)

lemma builder_wf_length: "builder_wf sys b \<Longrightarrow> length (table_keys b) = acct_count b"
  by (auto simp: builder_wf_def)

lemma table_keys_nth: "i < acct_count b \<Longrightarrow> table_keys b ! i = acct_keys b ! i"
  by (simp add: table_keys_def)

subsection \<open>Flags\<close>

lemma signer_flag_or [simp]:
  "signer_flag (f OR g) \<longleftrightarrow> signer_flag f \<or> signer_flag g"
  by (auto simp: signer_flag_def bit.conj_disj_distrib2 or_eq_0_iff)

lemma writable_flag_or [simp]:
  "writable_flag (f OR g) \<longleftrightarrow> writable_flag f \<or> writable_flag g"
  by (auto simp: writable_flag_def bit.conj_disj_distrib2 or_eq_0_iff)

lemma flag_constants [simp]:
  "signer_flag ACCT_F_SIGNER" "\<not> writable_flag ACCT_F_SIGNER"
  "\<not> signer_flag ACCT_F_WRITABLE" "writable_flag ACCT_F_WRITABLE"
  "\<not> signer_flag 0" "\<not> writable_flag 0"
  by (simp_all add: signer_flag_def writable_flag_def ACCT_F_SIGNER_def ACCT_F_WRITABLE_def)

subsection \<open>The account table as an interning table\<close>

text \<open>
  What the clients of the table rely on: interning a key returns the index at which the key is
  stored, keys are only appended, a key that is present is found again without a change, and a
  failure leaves the table as it was.
\<close>

locale interning_table =
  fixes invar :: "'t \<Rightarrow> bool"
    and keys :: "'t \<Rightarrow> 'k list"
    and intern :: "'k \<Rightarrow> 't \<Rightarrow> (nat, 'e) res \<times> 't"
  assumes distinct_keys: "invar t \<Longrightarrow> distinct (keys t)"
    and intern_invar: "invar t \<Longrightarrow> intern k t = (r, t') \<Longrightarrow> invar t'"
    and intern_new: "invar t \<Longrightarrow> k \<notin> set (keys t) \<Longrightarrow> intern k t = (Ok i, t') \<Longrightarrow>
      keys t' = keys t @ [k] \<and> i = length (keys t)"
    and intern_present: "invar t \<Longrightarrow> k \<in> set (keys t) \<Longrightarrow>
      intern k t = (Ok (position k (keys t)), t)"
    and intern_fail: "invar t \<Longrightarrow> intern k t = (Err e, t') \<Longrightarrow> t' = t"
    and intern_no_panic: "invar t \<Longrightarrow> fst (intern k t) \<noteq> Panic"
begin

lemma intern_keys:
  assumes "invar t" and "intern k t = (Ok i, t')"
  shows "keys t' = (if k \<in> set (keys t) then keys t else keys t @ [k])"
  using assms intern_new intern_present by (metis Pair_inject)

lemma intern_index:
  assumes "invar t" and "intern k t = (Ok i, t')"
  shows "i < length (keys t') \<and> keys t' ! i = k"
proof (cases "k \<in> set (keys t)")
  case True
  with assms intern_present [OF assms(1) True] have "i = position k (keys t)" "t' = t" by auto
  with position_nth [OF True] show ?thesis by simp
next
  case False
  with assms intern_new show ?thesis by fastforce
qed

lemma intern_grows:
  assumes "invar t" and "intern k t = (Ok i, t')"
  shows "\<exists>ks. keys t' = keys t @ ks"
  using intern_keys [OF assms] by auto

lemma intern_again:
  assumes "invar t" and "intern k t = (Ok i, t')"
  shows "intern k t' = (Ok i, t')"
proof -
  have inv': "invar t'" using assms intern_invar by blast
  have i: "i < length (keys t')" "keys t' ! i = k" using intern_index [OF assms] by auto
  then have "k \<in> set (keys t')" by (metis nth_mem)
  then have "intern k t' = (Ok (position k (keys t')), t')" by (rule intern_present [OF inv'])
  moreover have "position k (keys t') = i"
    using position_eqI [OF distinct_keys [OF inv'] i(1)] i(2) by simp
  ultimately show ?thesis by simp
qed

lemma intern_injective:
  assumes "invar t" and "intern k t = (Ok i, t')" and "intern k' t' = (Ok j, t'')"
  shows "i = j \<longleftrightarrow> k = k'"
proof
  assume "i = j"
  have inv': "invar t'" using assms intern_invar by blast
  obtain ks where "keys t'' = keys t' @ ks" using intern_grows [OF inv' assms(3)] by auto
  then have "keys t'' ! i = k" using intern_index [OF assms(1,2)] by (simp add: nth_append)
  then show "k = k'" using intern_index [OF inv' assms(3)] \<open>i = j\<close> by simp
next
  assume "k = k'"
  with assms intern_again [OF assms(1,2)] show "i = j" by simp
qed

end

lemma find_account_Some:
  assumes "table_wf sys b"
  shows "find_account b pk = Some i \<longleftrightarrow> i < acct_count b \<and> acct_keys b ! i = pk"
proof
  assume "find_account b pk = Some i"
  then show "i < acct_count b \<and> acct_keys b ! i = pk"
    by (simp add: find_account_def find_upt_Some)
next
  assume i: "i < acct_count b \<and> acct_keys b ! i = pk"
  have "acct_keys b ! j \<noteq> pk" if "j < i" for j
  proof -
    have "distinct (table_keys b)" "j < length (table_keys b)" "i < length (table_keys b)"
      using assms that i by (auto simp: table_wf_def)
    then have "table_keys b ! j \<noteq> table_keys b ! i"
      using that by (simp add: nth_eq_iff_index_eq)
    then show ?thesis using that i by (simp add: table_keys_nth)
  qed
  then show "find_account b pk = Some i"
    using i by (simp add: find_account_def find_upt_Some)
qed

lemma find_account_None:
  assumes "table_wf sys b"
  shows "find_account b pk = None \<longleftrightarrow> pk \<notin> set (table_keys b)"
  using assms
  by (auto simp: find_account_def find_upt_None table_keys_def table_wf_def in_set_conv_nth)

lemma find_account_position:
  assumes "table_wf sys b" and "pk \<in> set (table_keys b)"
  shows "find_account b pk = Some (position pk (table_keys b))"
proof -
  have "position pk (table_keys b) < acct_count b"
    and "table_keys b ! position pk (table_keys b) = pk"
    using position_nth [OF assms(2)] assms(1) by auto
  then show ?thesis by (simp add: find_account_Some [OF assms(1)] table_keys_nth)
qed

subsection \<open>Every field an operation does not touch\<close>

lemma insert_account_frame [simp]:
  "instrs (insert_account pk b) = instrs b"
  "instr_count (insert_account pk b) = instr_count b"
  "instr_acct_buf (insert_account pk b) = instr_acct_buf b"
  "instr_acct_len (insert_account pk b) = instr_acct_len b"
  "instr_data_buf (insert_account pk b) = instr_data_buf b"
  "instr_data_len (insert_account pk b) = instr_data_len b"
  "fee_payer (insert_account pk b) = fee_payer b"
  "blockhash (insert_account pk b) = blockhash b"
  "txn_version (insert_account pk b) = txn_version b"
  "acct_count (insert_account pk b) = Suc (acct_count b)"
  by (simp_all add: insert_account_def)

lemma or_flags_frame [simp]:
  "acct_keys (or_flags i f b) = acct_keys b"
  "acct_count (or_flags i f b) = acct_count b"
  "instrs (or_flags i f b) = instrs b"
  "instr_count (or_flags i f b) = instr_count b"
  "instr_acct_buf (or_flags i f b) = instr_acct_buf b"
  "instr_acct_len (or_flags i f b) = instr_acct_len b"
  "instr_data_buf (or_flags i f b) = instr_data_buf b"
  "instr_data_len (or_flags i f b) = instr_data_len b"
  "fee_payer (or_flags i f b) = fee_payer b"
  "blockhash (or_flags i f b) = blockhash b"
  "txn_version (or_flags i f b) = txn_version b"
  "table_keys (or_flags i f b) = table_keys b"
  "length (acct_flags (or_flags i f b)) = length (acct_flags b)"
  by (simp_all add: or_flags_def table_keys_def)

lemma mark_meta_frame [simp]:
  "acct_keys (mark_meta m i b) = acct_keys b"
  "acct_count (mark_meta m i b) = acct_count b"
  "instrs (mark_meta m i b) = instrs b"
  "instr_count (mark_meta m i b) = instr_count b"
  "instr_acct_buf (mark_meta m i b) = instr_acct_buf b"
  "instr_acct_len (mark_meta m i b) = instr_acct_len b"
  "instr_data_buf (mark_meta m i b) = instr_data_buf b"
  "instr_data_len (mark_meta m i b) = instr_data_len b"
  "fee_payer (mark_meta m i b) = fee_payer b"
  "blockhash (mark_meta m i b) = blockhash b"
  "txn_version (mark_meta m i b) = txn_version b"
  "table_keys (mark_meta m i b) = table_keys b"
  by (simp_all add: mark_meta_def Let_def)

lemma push_acct_index_frame [simp]:
  "acct_keys (push_acct_index i b) = acct_keys b"
  "acct_flags (push_acct_index i b) = acct_flags b"
  "acct_count (push_acct_index i b) = acct_count b"
  "instrs (push_acct_index i b) = instrs b"
  "instr_count (push_acct_index i b) = instr_count b"
  "instr_data_buf (push_acct_index i b) = instr_data_buf b"
  "instr_data_len (push_acct_index i b) = instr_data_len b"
  "fee_payer (push_acct_index i b) = fee_payer b"
  "blockhash (push_acct_index i b) = blockhash b"
  "txn_version (push_acct_index i b) = txn_version b"
  "table_keys (push_acct_index i b) = table_keys b"
  "instr_acct_len (push_acct_index i b) = Suc (instr_acct_len b)"
  by (simp_all add: push_acct_index_def table_keys_def)

lemma table_keys_insert_account:
  assumes "table_wf sys b" and "acct_count b < ACCT_MAX sys"
  shows "table_keys (insert_account pk b) = table_keys b @ [pk]"
  using assms by (simp add: table_keys_def insert_account_def table_wf_def take_drop_Suc_snoc)

lemma payer_wf_mono:
  assumes "payer_wf b" and "fee_payer b' = fee_payer b" and "acct_count b \<le> acct_count b'"
    and "\<And>i. i < acct_count b \<Longrightarrow> acct_keys b' ! i = acct_keys b ! i"
    and "\<And>i. i < acct_count b \<Longrightarrow> signer_flag (acct_flags b ! i) \<Longrightarrow>
      signer_flag (acct_flags b' ! i)"
    and "\<And>i. i < acct_count b \<Longrightarrow> writable_flag (acct_flags b ! i) \<Longrightarrow>
      writable_flag (acct_flags b' ! i)"
  shows "payer_wf b'"
proof (cases "fee_payer b")
  case None
  then show ?thesis using assms(2) by (simp add: payer_wf_def)
next
  case (Some pk)
  with assms(1) obtain i where "i < acct_count b" "acct_keys b ! i = pk"
    "signer_flag (acct_flags b ! i)" "writable_flag (acct_flags b ! i)"
    by (auto simp: payer_wf_def)
  then have "i < acct_count b'" "acct_keys b' ! i = pk"
    "signer_flag (acct_flags b' ! i)" "writable_flag (acct_flags b' ! i)"
    using assms(3-6) by auto
  then show ?thesis using Some assms(2) by (auto simp: payer_wf_def)
qed

lemma insert_account_wf:
  assumes wf: "builder_wf sys b" and room: "acct_count b < ACCT_MAX sys"
    and new: "pk \<notin> set (table_keys b)"
  shows "builder_wf sys (insert_account pk b)"
proof -
  have t: "table_wf sys b" using wf by (simp add: builder_wf_def)
  have "table_wf sys (insert_account pk b)"
    using t room new table_keys_insert_account [OF t room, of pk]
    by (simp add: table_wf_def) (simp add: insert_account_def)
  moreover have "payer_wf (insert_account pk b)"
    by (rule payer_wf_mono [of b]) (use wf in \<open>auto simp: builder_wf_def insert_account_def\<close>)
  moreover have "refs_wf (insert_account pk b)"
    using wf by (fastforce simp: builder_wf_def refs_wf_def entry_wf_def)
  ultimately show ?thesis using wf by (simp add: builder_wf_def buffers_wf_def)
qed

lemma or_flags_wf:
  assumes "builder_wf sys b" and "i < acct_count b"
  shows "builder_wf sys (or_flags i f b)"
proof -
  have "payer_wf (or_flags i f b)"
    by (rule payer_wf_mono [of b])
      (use assms in \<open>auto simp: builder_wf_def table_wf_def or_flags_def nth_list_update\<close>)
  moreover have "refs_wf (or_flags i f b)"
    using assms by (simp add: builder_wf_def refs_wf_def entry_wf_def)
  ultimately show ?thesis using assms by (simp add: builder_wf_def table_wf_def buffers_wf_def)
qed

lemma mark_meta_wf:
  "builder_wf sys b \<Longrightarrow> i < acct_count b \<Longrightarrow> builder_wf sys (mark_meta m i b)"
  by (simp add: mark_meta_def Let_def or_flags_wf)

lemma find_or_insert_wf:
  assumes "builder_wf sys b" and "find_or_insert sys pk b = (r, b')"
  shows "builder_wf sys b'"
proof (cases "find_account b pk")
  case None
  then have "pk \<notin> set (table_keys b)"
    using assms(1) find_account_None by (auto simp: builder_wf_def)
  then show ?thesis
    using assms None insert_account_wf by (auto simp: find_or_insert_def split: if_splits)
next
  case (Some i)
  then show ?thesis using assms by (simp add: find_or_insert_def)
qed

interpretation acct: interning_table "builder_wf sys" table_keys "find_or_insert sys" for sys
proof unfold_locales
  fix t k r t' i and e :: build_error
  assume wf: "builder_wf sys t"
  then have t: "table_wf sys t" by (simp add: builder_wf_def)
  show "distinct (table_keys t)" using t by (simp add: table_wf_def)
  show "fst (find_or_insert sys k t) \<noteq> Panic"
    by (auto simp: find_or_insert_def split: option.splits)
  show "builder_wf sys t'" if "find_or_insert sys k t = (r, t')"
    using find_or_insert_wf [OF wf that] .
  show "t' = t" if "find_or_insert sys k t = (Err e, t')"
    using that by (auto simp: find_or_insert_def split: option.splits if_splits)
  show "find_or_insert sys k t = (Ok (position k (table_keys t)), t)" if "k \<in> set (table_keys t)"
    using find_account_position [OF t that] by (simp add: find_or_insert_def)
  show "table_keys t' = table_keys t @ [k] \<and> i = length (table_keys t)"
    if "k \<notin> set (table_keys t)" and "find_or_insert sys k t = (Ok i, t')"
    using that t find_account_None [OF t, of k] table_keys_insert_account [OF t]
    by (auto simp: find_or_insert_def split: if_splits)
qed

lemma find_or_insert_frame:
  assumes "find_or_insert sys pk b = (r, b')"
  shows "instrs b' = instrs b" "instr_count b' = instr_count b"
    "instr_acct_buf b' = instr_acct_buf b" "instr_acct_len b' = instr_acct_len b"
    "instr_data_buf b' = instr_data_buf b" "instr_data_len b' = instr_data_len b"
    "fee_payer b' = fee_payer b" "blockhash b' = blockhash b" "txn_version b' = txn_version b"
  using assms by (auto simp: find_or_insert_def split: option.splits if_splits)

lemma find_or_insert_index:
  assumes "builder_wf sys b" and "find_or_insert sys pk b = (Ok i, b')"
  shows "i < acct_count b'" and "acct_keys b' ! i = pk"
proof -
  have "table_wf sys b'"
    using acct.intern_invar [OF assms] by (simp add: builder_wf_def)
  then show "i < acct_count b'" using acct.intern_index [OF assms] by simp
  then show "acct_keys b' ! i = pk"
    using acct.intern_index [OF assms] by (simp add: table_keys_nth)
qed

lemma acct_index_u8:
  assumes "limits_ok sys" and "builder_wf sys b" and "i < acct_count b"
  shows "unat (word_of_nat i :: u8) = i"
  using assms by (simp add: limits_ok_def builder_wf_def table_wf_def unat_of_nat take_bit_nat_eq_self)

lemma take_push_acct_index:
  assumes "buffers_wf sys b" and "instr_acct_len b < MTU sys"
  shows "take (instr_acct_len (push_acct_index i b)) (instr_acct_buf (push_acct_index i b)) =
    take (instr_acct_len b) (instr_acct_buf b) @ [word_of_nat i]"
  using assms by (simp add: push_acct_index_def buffers_wf_def take_drop_Suc_snoc)

lemma push_acct_index_wf:
  assumes lim: "limits_ok sys" and wf: "builder_wf sys b"
    and i: "i < acct_count b" and room: "instr_acct_len b < MTU sys"
  shows "builder_wf sys (push_acct_index i b)"
proof -
  have "refs_wf (push_acct_index i b)"
    using wf i acct_index_u8 [OF lim wf i] take_push_acct_index [of sys b i] room
    by (auto simp: builder_wf_def refs_wf_def entry_wf_def)
  moreover have "buffers_wf sys (push_acct_index i b)"
    using wf room by (simp add: builder_wf_def buffers_wf_def) (simp add: push_acct_index_def)
  moreover have "payer_wf (push_acct_index i b)"
    by (rule payer_wf_mono [of b]) (use wf in \<open>auto simp: builder_wf_def\<close>)
  ultimately show ?thesis using wf by (simp add: builder_wf_def table_wf_def)
qed

subsection \<open>The account loop\<close>

lemma add_metas_frame:
  assumes "add_metas sys ms b = (r, b')"
  shows "instrs b' = instrs b" and "instr_count b' = instr_count b"
    and "instr_data_buf b' = instr_data_buf b" and "instr_data_len b' = instr_data_len b"
    and "fee_payer b' = fee_payer b" and "blockhash b' = blockhash b"
    and "txn_version b' = txn_version b"
  using assms
  by (induction ms arbitrary: b)
    (auto simp: Let_def find_or_insert_frame split: prod.splits res.splits if_splits)

lemma add_metas_wf:
  assumes lim: "limits_ok sys" and "builder_wf sys b" and "add_metas sys ms b = (r, b')"
  shows "builder_wf sys b'"
  using assms(2,3)
proof (induction ms arbitrary: b)
  case Nil
  then show ?case by simp
next
  case (Cons m ms)
  obtain r1 b1 where foi: "find_or_insert sys (meta_pubkey m) b = (r1, b1)" by fastforce
  have wf1: "builder_wf sys b1" using acct.intern_invar [OF Cons.prems(1) foi] .
  show ?case
  proof (cases r1)
    case (Ok i)
    have i: "i < acct_count b1"
      using find_or_insert_index [OF Cons.prems(1)] foi Ok by blast
    let ?b2 = "mark_meta m i b1"
    have wf2: "builder_wf sys ?b2" using mark_meta_wf [OF wf1 i] .
    show ?thesis
    proof (cases "instr_acct_len b1 \<ge> MTU sys")
      case True
      then show ?thesis using Cons.prems(2) foi Ok wf2 by (simp add: Let_def)
    next
      case False
      have "builder_wf sys (push_acct_index i ?b2)"
        by (rule push_acct_index_wf [OF lim wf2]) (use i False in auto)
      then show ?thesis
        using Cons.IH Cons.prems(2) foi Ok False by (simp add: Let_def)
    qed
  qed (use Cons.prems(2) foi wf1 in auto)
qed

text \<open>
  A completed loop has appended one index per account reference, and each index denotes the
  referenced key in the resulting table.
\<close>

lemma add_metas_Ok:
  assumes lim: "limits_ok sys" and "builder_wf sys b" and "add_metas sys ms b = (Ok u, b')"
  shows "\<exists>idxs ks. table_keys b' = table_keys b @ ks \<and>
    instr_acct_len b' = instr_acct_len b + length ms \<and>
    take (instr_acct_len b') (instr_acct_buf b') =
      take (instr_acct_len b) (instr_acct_buf b) @ idxs \<and>
    map (\<lambda>x. table_keys b' ! unat x) idxs = map meta_pubkey ms \<and>
    (\<forall>x \<in> set idxs. unat x < acct_count b')"
  using assms(2,3)
proof (induction ms arbitrary: b)
  case Nil
  then show ?case by simp
next
  case (Cons m ms)
  from Cons.prems(2) obtain i b1 where
    foi: "find_or_insert sys (meta_pubkey m) b = (Ok i, b1)"
    and room: "instr_acct_len b1 < MTU sys"
    and rest: "add_metas sys ms (push_acct_index i (mark_meta m i b1)) = (Ok u, b')"
    by (auto simp: Let_def split: prod.splits res.splits if_splits)
  let ?b3 = "push_acct_index i (mark_meta m i b1)"
  have wf1: "builder_wf sys b1" using acct.intern_invar [OF Cons.prems(1) foi] .
  have i: "i < acct_count b1" "acct_keys b1 ! i = meta_pubkey m"
    using find_or_insert_index [OF Cons.prems(1) foi] by auto
  have wf2: "builder_wf sys (mark_meta m i b1)" using mark_meta_wf [OF wf1 i(1)] .
  have wf3: "builder_wf sys ?b3"
    by (rule push_acct_index_wf [OF lim wf2]) (use i room in auto)
  obtain idxs ks where IH: "table_keys b' = table_keys ?b3 @ ks"
    "instr_acct_len b' = instr_acct_len ?b3 + length ms"
    "take (instr_acct_len b') (instr_acct_buf b') =
      take (instr_acct_len ?b3) (instr_acct_buf ?b3) @ idxs"
    "map (\<lambda>x. table_keys b' ! unat x) idxs = map meta_pubkey ms"
    "\<forall>x \<in> set idxs. unat x < acct_count b'"
    using Cons.IH [OF wf3 rest] by blast
  obtain ks1 where ks1: "table_keys b1 = table_keys b @ ks1"
    using acct.intern_grows [OF Cons.prems(1) foi] by blast
  have u8: "unat (word_of_nat i :: u8) = i" using acct_index_u8 [OF lim wf1 i(1)] .
  have len1: "length (table_keys b1) = acct_count b1" using wf1 by (rule builder_wf_length)
  have wf': "builder_wf sys b'" using add_metas_wf [OF lim wf3 rest] .
  then have len': "length (table_keys b') = acct_count b'" by (rule builder_wf_length)
  have "take (instr_acct_len ?b3) (instr_acct_buf ?b3) =
    take (instr_acct_len b) (instr_acct_buf b) @ [word_of_nat i]"
    using take_push_acct_index [of sys "mark_meta m i b1" i] wf2 room
      find_or_insert_frame(3,4) [OF foi]
    by (simp add: builder_wf_def)
  moreover have "table_keys b' ! i = meta_pubkey m"
    using IH(1) i len1 by (simp add: nth_append table_keys_nth)
  moreover have "i < acct_count b'" using IH(1) len1 len' i(1) by simp
  ultimately show ?case
    using IH ks1 u8 find_or_insert_frame(4) [OF foi]
    by (intro exI [of _ "word_of_nat i # idxs"] exI [of _ "ks1 @ ks"]) simp
qed

lemma add_metas_no_panic:
  assumes "limits_ok sys" and "builder_wf sys b"
  shows "fst (add_metas sys ms b) \<noteq> Panic"
  using assms(2)
proof (induction ms arbitrary: b)
  case Nil
  then show ?case by simp
next
  case (Cons m ms)
  obtain r1 b1 where foi: "find_or_insert sys (meta_pubkey m) b = (r1, b1)" by fastforce
  have wf1: "builder_wf sys b1" using acct.intern_invar [OF Cons.prems foi] .
  show ?case
  proof (cases r1)
    case (Ok i)
    then have i: "i < acct_count b1" using find_or_insert_index [OF Cons.prems] foi by blast
    have "builder_wf sys (push_acct_index i (mark_meta m i b1))"
      if "instr_acct_len b1 < MTU sys"
      by (rule push_acct_index_wf [OF assms(1) mark_meta_wf [OF wf1 i]]) (use i that in auto)
    then show ?thesis using Cons.IH foi Ok by (auto simp: Let_def)
  next
    case Panic
    then show ?thesis using acct.intern_no_panic [OF Cons.prems, of "meta_pubkey m"] foi by simp
  qed (use foi in simp)
qed

subsection \<open>Adding an instruction\<close>

lemma push_instr_frame [simp]:
  "acct_keys (push_instr ix p a b) = acct_keys b"
  "acct_flags (push_instr ix p a b) = acct_flags b"
  "acct_count (push_instr ix p a b) = acct_count b"
  "instr_acct_buf (push_instr ix p a b) = instr_acct_buf b"
  "instr_acct_len (push_instr ix p a b) = instr_acct_len b"
  "fee_payer (push_instr ix p a b) = fee_payer b"
  "blockhash (push_instr ix p a b) = blockhash b"
  "txn_version (push_instr ix p a b) = txn_version b"
  "table_keys (push_instr ix p a b) = table_keys b"
  "instr_count (push_instr ix p a b) = Suc (instr_count b)"
  "instr_data_len (push_instr ix p a b) = instr_data_len b + length (ix_data ix)"
  by (simp_all add: push_instr_def table_keys_def)

definition new_entry :: "instruction_buf \<Rightarrow> nat \<Rightarrow> nat \<Rightarrow> nat \<Rightarrow> instr_entry" where
  "new_entry ix prog acct_start data_start =
     \<lparr>program_idx = word_of_nat prog,
      acct_off = word_of_nat acct_start,
      acct_cnt = word_of_nat (length (accounts ix)),
      data_off = word_of_nat data_start,
      data_len = word_of_nat (length (ix_data ix))\<rparr>"

lemma take_push_instr:
  assumes "buffers_wf sys b" and "instr_count b < INSTR_MAX sys"
  shows "take (Suc (instr_count b)) (instrs (push_instr ix p a b)) =
    take (instr_count b) (instrs b) @ [new_entry ix p a (instr_data_len b)]"
  using assms by (simp add: push_instr_def new_entry_def buffers_wf_def take_drop_Suc_snoc)

lemma u16_small: "n < 65536 \<Longrightarrow> unat (word_of_nat n :: u16) = n"
  by (simp add: unat_of_nat take_bit_nat_eq_self)

lemma new_entry_fields:
  assumes lim: "limits_ok sys" and wf: "builder_wf sys b" and p: "p < acct_count b"
    and a: "a + length (accounts ix) \<le> instr_acct_len b"
    and d: "instr_data_len b + length (ix_data ix) \<le> MTU sys"
  defines "e \<equiv> new_entry ix p a (instr_data_len b)"
  shows "unat (program_idx e) = p" and "unat (acct_off e) = a"
    and "unat (acct_cnt e) = length (accounts ix)" and "unat (data_off e) = instr_data_len b"
    and "unat (data_len e) = length (ix_data ix)"
proof -
  have mtu: "MTU sys < 65536" "instr_acct_len b \<le> MTU sys"
    using lim wf by (auto simp: limits_ok_def builder_wf_def buffers_wf_def)
  show "unat (program_idx e) = p"
    unfolding e_def new_entry_def using acct_index_u8 [OF lim wf p] by simp
  show "unat (acct_off e) = a" "unat (acct_cnt e) = length (accounts ix)"
    "unat (data_off e) = instr_data_len b" "unat (data_len e) = length (ix_data ix)"
    unfolding e_def new_entry_def using a d mtu by (simp_all add: u16_small)
qed

lemma push_instr_wf:
  assumes lim: "limits_ok sys" and wf: "builder_wf sys b" and p: "p < acct_count b"
    and a: "a + length (accounts ix) \<le> instr_acct_len b"
    and d: "instr_data_len b + length (ix_data ix) \<le> MTU sys"
    and room: "instr_count b < INSTR_MAX sys"
  shows "builder_wf sys (push_instr ix p a b)"
proof -
  let ?b = "push_instr ix p a b"
  have "buffers_wf sys ?b"
    using wf d room by (simp add: builder_wf_def buffers_wf_def) (simp add: push_instr_def)
  moreover have "refs_wf ?b"
    using wf take_push_instr [of sys b ix p a] room p a d new_entry_fields [OF lim wf p a d]
    by (fastforce simp: builder_wf_def refs_wf_def entry_wf_def)
  moreover have "payer_wf ?b"
    by (rule payer_wf_mono [of b]) (use wf in \<open>auto simp: builder_wf_def\<close>)
  ultimately show ?thesis using wf by (simp add: builder_wf_def table_wf_def)
qed

text \<open>What a successful \<open>add_instruction\<close> went through.\<close>

lemma add_instruction_OkE:
  assumes "limits_ok sys" and "builder_wf sys b"
    and "builder_add_instruction sys ix b = (Ok u, b')"
  obtains p b1 b2 where "find_or_insert sys (program_id ix) b = (Ok p, b1)"
    and "builder_wf sys b1"
    and "add_metas sys (accounts ix) b1 = (Ok (), b2)" and "builder_wf sys b2"
    and "instr_count b2 < INSTR_MAX sys" and "p < acct_count b2"
    and "instr_acct_len b1 + length (accounts ix) \<le> instr_acct_len b2"
    and "instr_data_len b2 + length (ix_data ix) \<le> MTU sys"
    and "b' = push_instr ix p (instr_acct_len b1) b2"
proof -
  from assms(3) obtain p b1 b2 where
    foi: "find_or_insert sys (program_id ix) b = (Ok p, b1)"
    and metas: "add_metas sys (accounts ix) b1 = (Ok (), b2)"
    and room: "instr_count b < INSTR_MAX sys"
    and d: "instr_data_len b2 + length (ix_data ix) \<le> MTU sys"
    and b': "b' = push_instr ix p (instr_acct_len b1) b2"
    by (auto simp: builder_add_instruction_def Let_def split: prod.splits res.splits if_splits)
  have wf1: "builder_wf sys b1" using acct.intern_invar [OF assms(2) foi] .
  have wf2: "builder_wf sys b2" using add_metas_wf [OF assms(1) wf1 metas] .
  obtain ks where ks: "table_keys b2 = table_keys b1 @ ks"
    and len: "instr_acct_len b2 = instr_acct_len b1 + length (accounts ix)"
    using add_metas_Ok [OF assms(1) wf1 metas] by blast
  have "p < acct_count b1" using find_or_insert_index [OF assms(2) foi] by blast
  then have "p < acct_count b2"
    using arg_cong [OF ks, of length] builder_wf_length [OF wf1] builder_wf_length [OF wf2] by simp
  moreover have "instr_count b2 < INSTR_MAX sys"
    using room add_metas_frame(2) [OF metas] find_or_insert_frame(2) [OF foi] by simp
  ultimately show ?thesis using that foi wf1 metas wf2 len d b' by auto
qed

lemma add_instruction_wf:
  assumes lim: "limits_ok sys" and wf: "builder_wf sys b"
    and run: "builder_add_instruction sys ix b = (r, b')"
  shows "builder_wf sys b'"
proof (cases "\<exists>u. r = Ok u")
  case True
  with run obtain u where "builder_add_instruction sys ix b = (Ok u, b')" by blast
  then show ?thesis
    by (rule add_instruction_OkE [OF lim wf]) (use push_instr_wf [OF lim] in blast)
next
  case False
  obtain r1 b1 where foi: "find_or_insert sys (program_id ix) b = (r1, b1)" by fastforce
  have wf1: "builder_wf sys b1" using acct.intern_invar [OF wf foi] .
  obtain r2 b2 where metas: "add_metas sys (accounts ix) b1 = (r2, b2)" by fastforce
  have wf2: "builder_wf sys b2" using add_metas_wf [OF lim wf1 metas] .
  show ?thesis
    using run False wf wf1 wf2 foi metas
    by (auto simp: builder_add_instruction_def Let_def split: res.splits if_splits)
qed

lemma add_instruction_no_panic:
  assumes "limits_ok sys" and "builder_wf sys b"
  shows "fst (builder_add_instruction sys ix b) \<noteq> Panic"
proof -
  obtain r1 b1 where foi: "find_or_insert sys (program_id ix) b = (r1, b1)" by fastforce
  have "fst (add_metas sys (accounts ix) b1) \<noteq> Panic"
    using add_metas_no_panic [OF assms(1) acct.intern_invar [OF assms(2) foi]] .
  then show ?thesis
    using acct.intern_no_panic [OF assms(2), of "program_id ix"] foi
    by (auto simp: builder_add_instruction_def Let_def split: prod.splits res.splits)
qed

subsection \<open>The other operations\<close>

lemma builder_new_wf: "builder_wf sys (builder_new sys)"
  by (simp add: builder_wf_defs payer_wf_def builder_new_def table_keys_def)

lemma builder_version_wf: "builder_wf sys b \<Longrightarrow> builder_wf sys (builder_version v b)"
  by (simp add: builder_wf_defs entry_wf_def payer_wf_def table_keys_def builder_version_def
      split: option.splits)

lemma builder_recent_blockhash_wf:
  "builder_wf sys b \<Longrightarrow> builder_wf sys (builder_recent_blockhash h b)"
  by (simp add: builder_wf_defs entry_wf_def payer_wf_def table_keys_def
      builder_recent_blockhash_def split: option.splits)

lemma wf_set_fee_payer:
  assumes wf: "builder_wf sys b" and i: "i < acct_count b" "acct_keys b ! i = pk"
    and f: "signer_flag (acct_flags b ! i)" "writable_flag (acct_flags b ! i)"
  shows "builder_wf sys (b\<lparr>fee_payer := Some pk\<rparr>)"
proof -
  have "payer_wf (b\<lparr>fee_payer := Some pk\<rparr>)" using i f by (auto simp: payer_wf_def)
  then show ?thesis
    using wf by (simp add: builder_wf_defs entry_wf_def table_keys_def)
qed

lemma or_flags_nth:
  assumes "builder_wf sys b" and "i < acct_count b"
  shows "acct_flags (or_flags i f b) ! i = acct_flags b ! i OR f"
  using assms by (simp add: or_flags_def builder_wf_def table_wf_def)

lemma builder_fee_payer_wf:
  assumes wf: "builder_wf sys b" and run: "builder_fee_payer sys pk b = (r, b')"
  shows "builder_wf sys b'"
proof (cases "\<exists>i b1. find_or_insert sys pk b = (Ok i, b1)")
  case True
  then obtain i b1 where foi: "find_or_insert sys pk b = (Ok i, b1)" by blast
  let ?b2 = "or_flags i (ACCT_F_SIGNER OR ACCT_F_WRITABLE) b1"
  have wf1: "builder_wf sys b1" using acct.intern_invar [OF wf foi] .
  have i: "i < acct_count b1" "acct_keys b1 ! i = pk" using find_or_insert_index [OF wf foi] .
  have "b' = ?b2\<lparr>fee_payer := Some pk\<rparr>"
    using run foi
    by (auto simp: builder_fee_payer_def find_or_insert_def split: option.splits if_splits)
  moreover have "builder_wf sys (?b2\<lparr>fee_payer := Some pk\<rparr>)"
    by (rule wf_set_fee_payer [where i = i])
      (use or_flags_wf [OF wf1 i(1)] i or_flags_nth [OF wf1 i(1)] in auto)
  ultimately show ?thesis by simp
next
  case False
  then have "b' = b"
    using run
    by (auto simp: builder_fee_payer_def find_or_insert_def split: option.splits if_splits)
  then show ?thesis using wf by simp
qed

lemma builder_add_signer_wf:
  assumes wf: "builder_wf sys b" and run: "builder_add_signer sys pk b = (r, b')"
  shows "builder_wf sys b'"
proof -
  obtain r1 b1 where foi: "find_or_insert sys pk b = (r1, b1)" by fastforce
  have wf1: "builder_wf sys b1" using acct.intern_invar [OF wf foi] .
  have "builder_wf sys (or_flags i ACCT_F_SIGNER b1)" if "r1 = Ok i" for i
    using that or_flags_wf [OF wf1] find_or_insert_index(1) [OF wf] foi by blast
  then show ?thesis
    using run wf1 foi by (auto simp: builder_add_signer_def split: res.splits)
qed

section \<open>Reachable builders\<close>

text \<open>Every sequence of public calls on a fresh builder, failed calls included.\<close>

inductive builder_reachable :: "txn_sys \<Rightarrow> builder \<Rightarrow> bool" for sys :: txn_sys where
  reach_new: "builder_reachable sys (builder_new sys)"
| reach_version: "builder_reachable sys b \<Longrightarrow> builder_reachable sys (builder_version v b)"
| reach_blockhash: "builder_reachable sys b \<Longrightarrow>
    builder_reachable sys (builder_recent_blockhash h b)"
| reach_fee_payer: "builder_reachable sys b \<Longrightarrow> builder_fee_payer sys pk b = (r, b') \<Longrightarrow>
    builder_reachable sys b'"
| reach_add_signer: "builder_reachable sys b \<Longrightarrow> builder_add_signer sys pk b = (r, b') \<Longrightarrow>
    builder_reachable sys b'"
| reach_add_instruction: "builder_reachable sys b \<Longrightarrow>
    builder_add_instruction sys ix b = (r, b') \<Longrightarrow> builder_reachable sys b'"

lemma reachable_wf:
  assumes lim: "limits_ok sys" and "builder_reachable sys b"
  shows "builder_wf sys b"
  using assms(2)
proof (induction rule: builder_reachable.induct)
  case reach_new
  show ?case by (rule builder_new_wf)
next
  case (reach_version b v)
  then show ?case by (simp add: builder_version_wf)
next
  case (reach_blockhash b h)
  then show ?case by (simp add: builder_recent_blockhash_wf)
next
  case (reach_fee_payer b pk r b')
  then show ?case by (blast intro: builder_fee_payer_wf)
next
  case (reach_add_signer b pk r b')
  then show ?case by (blast intro: builder_add_signer_wf)
next
  case (reach_add_instruction b ix r b')
  then show ?case by (blast intro: add_instruction_wf [OF lim])
qed

end
