(* ===== verification/Compact_U16.thy ===== *)
theory Compact_U16
  imports Prelude
begin

text \<open>
  The compact-u16 helpers: \<open>fd_txn/src/lib.rs\<close>, module \<open>compact_u16\<close>, over the wrappers
  \<open>fd_cu16_encode_safe\<close> and \<open>fd_cu16_decode_safe\<close> of \<open>fd_txn_sys/src/lib.rs\<close>. The C
  routines \<open>fd_cu16_enc\<close> and \<open>fd_cu16_dec\<close> are parameters; their contract is the locale
  \<open>cu16_lib\<close>. The format the module documents (1 byte below 0x80, 2 bytes below 0x4000,
  3 bytes otherwise, minimal encodings only) is defined and shown to satisfy the contract.
\<close>

section \<open>The wrappers\<close>

datatype parse_error =
    TooShort | TooLong | InvalidStructure | InvalidSignatures | InvalidAccounts
  | InvalidInstructions | UnsupportedVersion | InvalidCompactU16 | BufferTooSmall

text \<open>
  The encoder writes its bytes to a 3-byte array and returns their number, so \<open>enc v\<close> is
  the prefix it wrote, and the slice of an array that is too short for it panics; the decoder
  returns the value it stored and the bytes it consumed.
\<close>

definition fd_cu16_encode_safe :: "(u16 \<Rightarrow> bytes) \<Rightarrow> u16 \<Rightarrow> (bytes, parse_error) res" where
  "fd_cu16_encode_safe enc val =
     (if length (enc val) > 3 then Panic else slice (blit (replicate 3 0) 0 (enc val)) 0 (length (enc val)))"

definition fd_cu16_decode_safe :: "(bytes \<Rightarrow> u16 \<times> nat) \<Rightarrow> bytes \<Rightarrow> (u16 \<times> nat) option" where
  "fd_cu16_decode_safe dec buf =
     (if buf = [] then None
      else let (result, consumed) = dec buf
           in if consumed > 0 then Some (result, consumed) else None)"

definition cu16_encode :: "(u16 \<Rightarrow> bytes) \<Rightarrow> u16 \<Rightarrow> (bytes, parse_error) res" where
  "cu16_encode enc value = fd_cu16_encode_safe enc value"

definition cu16_decode ::
  "(bytes \<Rightarrow> u16 \<times> nat) \<Rightarrow> bytes \<Rightarrow> (u16 \<times> nat, parse_error) res" where
  "cu16_decode dec data = ok_or (fd_cu16_decode_safe dec data) InvalidCompactU16"

definition encoded_size_cu16 :: "(bytes \<Rightarrow> u16 \<times> nat) \<Rightarrow> bytes \<Rightarrow> nat option" where
  "encoded_size_cu16 dec data =
     (case cu16_decode dec data of Ok (v, sz) \<Rightarrow> Some sz | _ \<Rightarrow> None)"

section \<open>The contract of the C routines\<close>

definition cu16_laws :: "(u16 \<Rightarrow> bytes) \<Rightarrow> (bytes \<Rightarrow> u16 \<times> nat) \<Rightarrow> bool" where
  "cu16_laws enc dec \<longleftrightarrow>
     (\<forall>v. 1 \<le> length (enc v) \<and> length (enc v) \<le> 3) \<and>
     (\<forall>v rest. dec (enc v @ rest) = (v, length (enc v))) \<and>
     (\<forall>buf v n. dec buf = (v, n) \<and> 0 < n \<longrightarrow> n \<le> length buf \<and> take n buf = enc v)"

locale cu16_lib =
  fixes enc :: "u16 \<Rightarrow> bytes"
    and dec :: "bytes \<Rightarrow> u16 \<times> nat"
  assumes laws: "cu16_laws enc dec"
begin

lemma enc_length: "1 \<le> length (enc v)" "length (enc v) \<le> 3"
  using laws by (auto simp: cu16_laws_def)

lemma dec_enc: "dec (enc v @ rest) = (v, length (enc v))"
  using laws by (simp add: cu16_laws_def)

lemma dec_minimal: "dec buf = (v, n) \<Longrightarrow> 0 < n \<Longrightarrow> n \<le> length buf \<and> take n buf = enc v"
  using laws unfolding cu16_laws_def by blast

lemma encode_Ok: "cu16_encode enc v = Ok (enc v)"
  using enc_length(2) [of v] by (simp add: cu16_encode_def fd_cu16_encode_safe_def blit_def slice_def)

lemma decode_encode: "cu16_decode dec (enc v @ rest) = Ok (v, length (enc v))"
proof -
  have ne: "enc v @ rest \<noteq> []" "0 < length (enc v)" using enc_length(1) [of v] by auto
  show ?thesis
    unfolding cu16_decode_def fd_cu16_decode_safe_def dec_enc
    using ne by (simp only: if_False if_True Let_def prod.case ok_or.simps)
qed

lemma decode_Ok:
  assumes "cu16_decode dec buf = Ok (v, n)"
  shows "0 < n \<and> n \<le> length buf \<and> cu16_encode enc v = Ok (take n buf)"
proof -
  have "dec buf = (v, n)" "0 < n"
    using assms
    by (auto simp: cu16_decode_def fd_cu16_decode_safe_def split: if_splits prod.splits)
  then show ?thesis using dec_minimal by (simp add: encode_Ok)
qed

end

section \<open>The documented format\<close>

definition cu16_format :: "u16 \<Rightarrow> bytes" where
  "cu16_format v =
     (let n = unat v
      in if n < 0x80 then [word_of_nat n]
         else if n < 0x4000 then [word_of_nat (n mod 128 + 128), word_of_nat (n div 128)]
         else [word_of_nat (n mod 128 + 128), word_of_nat (n div 128 mod 128 + 128),
               word_of_nat (n div 16384)])"

text \<open>The matching reader: only minimal encodings of 16-bit values; \<open>0\<close> bytes consumed
  otherwise.\<close>

fun cu16_read :: "bytes \<Rightarrow> u16 \<times> nat" where
  "cu16_read [] = (0, 0)"
| "cu16_read (a # rest) =
     (if unat a < 128 then (word_of_nat (unat a), 1)
      else case rest of
        [] \<Rightarrow> (0, 0)
      | b # rest2 \<Rightarrow>
          if unat b < 128 then
            (if unat b = 0 then (0, 0) else (word_of_nat (unat a mod 128 + 128 * unat b), 2))
          else case rest2 of
            [] \<Rightarrow> (0, 0)
          | c # rest3 \<Rightarrow>
              if 0 < unat c \<and> unat c < 4
              then (word_of_nat (unat a mod 128 + 128 * (unat b mod 128) + 16384 * unat c), 3)
              else (0, 0))"

lemma u8_small: "n < 256 \<Longrightarrow> unat (word_of_nat n :: u8) = n"
  by (simp add: unat_of_nat take_bit_nat_eq_self)

lemma unat_u16_bound: "unat (v :: u16) < 65536"
  using unsigned_less [of v, where 'a = nat] by simp

lemma unat_u8_bound: "unat (x :: u8) < 256"
  using unsigned_less [of x, where 'a = nat] by simp

lemma cu16_format_of_nat:
  "m < 65536 \<Longrightarrow> cu16_format (word_of_nat m) =
    (if m < 0x80 then [word_of_nat m]
     else if m < 0x4000 then [word_of_nat (m mod 128 + 128), word_of_nat (m div 128)]
     else [word_of_nat (m mod 128 + 128), word_of_nat (m div 128 mod 128 + 128),
           word_of_nat (m div 16384)])"
  by (simp add: cu16_format_def unat_of_nat take_bit_nat_eq_self)

lemma split_16384: "n div 128 mod 128 * 128 + n div 16384 * 16384 + n mod 128 = (n :: nat)"
proof -
  have "n div 16384 = n div 128 div 128" by (simp add: div_mult2_eq)
  then show ?thesis
    using div_mult_mod_eq [of n 128] div_mult_mod_eq [of "n div 128" 128] by linarith
qed

lemma cu16_read_format: "cu16_read (cu16_format v @ rest) = (v, length (cu16_format v))"
proof -
  define n where "n = unat v"
  have v: "v = word_of_nat n" and n: "n < 65536"
    using unat_u16_bound [of v] by (auto simp: n_def)
  have b: "n mod 128 + 128 < 256" "n div 128 mod 128 + 128 < 256" "n div 16384 < 4" using n by auto
  have three: "n mod 128 + 128 * (n div 128 mod 128) + 16384 * (n div 16384) = n"
    using split_16384 [of n] by simp
  consider "n < 128" | "128 \<le> n" "n < 16384" | "16384 \<le> n" by linarith
  then show ?thesis
  proof cases
    case 1
    then show ?thesis unfolding v cu16_format_of_nat [OF n] by (simp add: u8_small)
  next
    case 2
    then have "n div 128 < 128" "0 < n div 128" by auto
    then show ?thesis
      using 2 b unfolding v cu16_format_of_nat [OF n]
      by (simp add: u8_small del: of_nat_add of_nat_mult)
  next
    case 3
    then have "0 < n div 16384" by auto
    then show ?thesis
      using 3 b unfolding v cu16_format_of_nat [OF n]
      by (simp add: u8_small three del: of_nat_add of_nat_mult)
  qed
qed

lemma high_bit_mod: "128 \<le> n \<Longrightarrow> n < 256 \<Longrightarrow> n mod 128 + 128 = (n :: nat)"
  by (simp add: le_mod_geq)

lemma cu16_format_read:
  assumes read: "cu16_read buf = (v, n)" and pos: "0 < n"
  shows "n \<le> length buf \<and> take n buf = cu16_format v"
proof -
  from pos read obtain a rest where buf: "buf = a # rest" by (cases buf) auto
  have a: "unat a < 256" by (rule unat_u8_bound)
  have wb: "word_of_nat (unat x) = x" for x :: u8 by simp
  consider (one) "unat a < 128" "v = word_of_nat (unat a)" "n = 1"
    | (two) b rest2 where "rest = b # rest2" "128 \<le> unat a" "unat b < 128" "0 < unat b"
        "v = word_of_nat (unat a mod 128 + 128 * unat b)" "n = 2"
    | (three) b c rest3 where "rest = b # c # rest3" "128 \<le> unat a" "128 \<le> unat b" "0 < unat c"
        "unat c < 4" "n = 3"
        "v = word_of_nat (unat a mod 128 + 128 * (unat b mod 128) + 16384 * unat c)"
    using read pos unfolding buf by (auto simp del: of_nat_add of_nat_mult split: if_splits list.splits)
  then show ?thesis
  proof cases
    case one
    then show ?thesis using cu16_format_of_nat [of "unat a"] a wb by (simp add: buf)
  next
    case two
    let ?m = "unat a mod 128 + 128 * unat b"
    have "?m < 16384" "\<not> ?m < 128" "?m mod 128 + 128 = unat a" "?m div 128 = unat b"
      using two high_bit_mod [OF two(2) a] by auto
    then have "cu16_format v = [a, b]"
      using two(5) cu16_format_of_nat [of ?m] wb by (simp del: of_nat_add of_nat_mult)
    then show ?thesis using two by (simp add: buf)
  next
    case three
    let ?m = "unat a mod 128 + 128 * (unat b mod 128) + 16384 * unat c"
    have b: "unat b < 256" by (rule unat_u8_bound)
    have m1: "?m < 65536" using three(5) mod_less_divisor [of 128 "unat a"]
        mod_less_divisor [of 128 "unat b"] by linarith
    have m2: "\<not> ?m < 16384" using three(4) by linarith
    have d1: "?m mod 128 = unat a mod 128" by (simp add: mod_add_eq [symmetric] mod_mult_left_eq)
    have d2: "?m div 128 = unat b mod 128 + 128 * unat c" by simp
    have m3: "?m mod 128 + 128 = unat a" using high_bit_mod [OF three(2) a] d1 by linarith
    have m4: "?m div 128 mod 128 + 128 = unat b"
      using high_bit_mod [OF three(3) b] unfolding d2 by simp
    have m5: "?m div 16384 = unat c" by simp
    note m1 m2 m3 m4 m5
    then have "cu16_format v = [a, b, c]"
      using three(7) cu16_format_of_nat [of ?m] wb by (simp del: of_nat_add of_nat_mult)
    then show ?thesis using three by (simp add: buf)
  qed
qed

lemma cu16_format_length: "1 \<le> length (cu16_format v)" "length (cu16_format v) \<le> 3"
  by (simp_all add: cu16_format_def Let_def)

interpretation doc_cu16: cu16_lib cu16_format cu16_read
  using cu16_format_length cu16_read_format cu16_format_read
  by unfold_locales (auto simp: cu16_laws_def)

end
