(* ===== verification/Txn_Parse.thy ===== *)
theory Txn_Parse
  imports Txn_Builder Compact_U16
begin

text \<open>
  The parsed transaction of \<open>fd_txn/src/lib.rs\<close>: \<open>Transaction::parse\<close>, its accessors and the
  two iterators, and the small constructors of \<open>builder.rs\<close>. The C parser, the descriptor it fills
  (\<open>fd_txn_t\<close>, \<open>fd_txn_instr_t\<close>) and the functions that read it come from the generated
  bindings: they are the parameter \<open>txn_lib\<close>. A pointer into the transaction's bytes is an
  offset; reading past their end is \<open>Panic\<close>.
\<close>

section \<open>Versions and constructors\<close>

definition FD_TXN_VLEGACY :: u8 where "FD_TXN_VLEGACY = 0xFF"
definition FD_TXN_V0 :: u8 where "FD_TXN_V0 = 0x00"

definition version_from_raw :: "u8 \<Rightarrow> transaction_version option" where
  "version_from_raw raw =
     (if raw = FD_TXN_VLEGACY then Some Legacy else if raw = FD_TXN_V0 then Some V0 else None)"

definition version_to_raw :: "transaction_version \<Rightarrow> u8" where
  "version_to_raw v = (case v of Legacy \<Rightarrow> FD_TXN_VLEGACY | V0 \<Rightarrow> FD_TXN_V0)"

definition meta_new :: "pubkey \<Rightarrow> bool \<Rightarrow> bool \<Rightarrow> account_meta" where
  "meta_new pk s w = \<lparr>meta_pubkey = pk, is_signer = s, is_writable = w\<rparr>"

definition meta_readonly :: "pubkey \<Rightarrow> account_meta" where
  "meta_readonly pk = \<lparr>meta_pubkey = pk, is_signer = False, is_writable = False\<rparr>"

definition meta_writable :: "pubkey \<Rightarrow> account_meta" where
  "meta_writable pk = \<lparr>meta_pubkey = pk, is_signer = False, is_writable = True\<rparr>"

definition meta_signer :: "pubkey \<Rightarrow> account_meta" where
  "meta_signer pk = \<lparr>meta_pubkey = pk, is_signer = True, is_writable = False\<rparr>"

definition meta_writable_signer :: "pubkey \<Rightarrow> account_meta" where
  "meta_writable_signer pk = \<lparr>meta_pubkey = pk, is_signer = True, is_writable = True\<rparr>"

definition meta_readonly_signer :: "pubkey \<Rightarrow> account_meta" where
  "meta_readonly_signer pk = \<lparr>meta_pubkey = pk, is_signer = True, is_writable = False\<rparr>"

record owned_instruction =
  oi_program_id :: pubkey
  oi_accounts :: "account_meta list"
  oi_data :: bytes

definition owned_instruction_new :: "pubkey \<Rightarrow> account_meta list \<Rightarrow> bytes \<Rightarrow> owned_instruction" where
  "owned_instruction_new pid accts d = \<lparr>oi_program_id = pid, oi_accounts = accts, oi_data = d\<rparr>"

definition instruction_of_owned :: "owned_instruction \<Rightarrow> instruction_buf" where
  "instruction_of_owned ix =
     \<lparr>program_id = oi_program_id ix, accounts = oi_accounts ix, ix_data = oi_data ix\<rparr>"

section \<open>The C interface\<close>

record ('t, 'i, 'c) txn_lib =
  tl_mtu :: nat
  tl_parse :: "bytes \<Rightarrow> 't option"
  tl_version :: "'t \<Rightarrow> u8"
  tl_signature_cnt :: "'t \<Rightarrow> u8"
  tl_instr_cnt :: "'t \<Rightarrow> u16"
  tl_acct_addr_cnt :: "'t \<Rightarrow> u16"
  tl_addr_table_adtl_cnt :: "'t \<Rightarrow> u16"
  tl_instr :: "'t \<Rightarrow> nat \<Rightarrow> 'i"
  tl_acct_addrs :: "'t \<Rightarrow> nat"
  tl_recent_blockhash :: "'t \<Rightarrow> nat"
  tl_is_writable :: "'t \<Rightarrow> u16 \<Rightarrow> bool"
  tl_is_signer :: "'t \<Rightarrow> int \<Rightarrow> bool"
  tl_account_cnt :: "'t \<Rightarrow> int \<Rightarrow> nat"
  tl_acct_iter_init :: "'t \<Rightarrow> int \<Rightarrow> 'c"
  tl_acct_iter_end :: 'c
  tl_acct_iter_idx :: "'c \<Rightarrow> nat"
  tl_acct_iter_next :: "'c \<Rightarrow> 'c"
  tl_is_simple_vote :: "'t \<Rightarrow> bytes \<Rightarrow> bool"
  tl_program_id :: "'i \<Rightarrow> u8"
  tl_acct_cnt :: "'i \<Rightarrow> u16"
  tl_data_sz :: "'i \<Rightarrow> u16"
  tl_instr_accts :: "'i \<Rightarrow> nat"
  tl_instr_data :: "'i \<Rightarrow> nat"

section \<open>Transactions\<close>

record 't transaction =
  tx_data :: bytes
  tx_desc :: 't

definition transaction_parse ::
  "('t, 'i, 'c) txn_lib \<Rightarrow> bytes \<Rightarrow> ('t transaction, parse_error) res" where
  "transaction_parse lib data =
     (if data = [] then Err TooShort
      else if length data > tl_mtu lib then Err TooLong
      else case tl_parse lib data of
        None \<Rightarrow> Err InvalidStructure
      | Some t \<Rightarrow> Ok \<lparr>tx_data = data, tx_desc = t\<rparr>)"

definition tx_version :: "('t, 'i, 'c) txn_lib \<Rightarrow> 't transaction \<Rightarrow> transaction_version" where
  "tx_version lib tx =
     (case version_from_raw (tl_version lib (tx_desc tx)) of Some v \<Rightarrow> v | None \<Rightarrow> Legacy)"

definition tx_signature_count :: "('t, 'i, 'c) txn_lib \<Rightarrow> 't transaction \<Rightarrow> nat" where
  "tx_signature_count lib tx = unat (tl_signature_cnt lib (tx_desc tx))"

definition tx_instruction_count :: "('t, 'i, 'c) txn_lib \<Rightarrow> 't transaction \<Rightarrow> nat" where
  "tx_instruction_count lib tx = unat (tl_instr_cnt lib (tx_desc tx))"

definition tx_account_count :: "('t, 'i, 'c) txn_lib \<Rightarrow> 't transaction \<Rightarrow> nat" where
  "tx_account_count lib tx = unat (tl_acct_addr_cnt lib (tx_desc tx))"

definition tx_total_account_count :: "('t, 'i, 'c) txn_lib \<Rightarrow> 't transaction \<Rightarrow> nat" where
  "tx_total_account_count lib tx =
     unat (tl_acct_addr_cnt lib (tx_desc tx)) + unat (tl_addr_table_adtl_cnt lib (tx_desc tx))"

text \<open>\<open>slice::from_raw_parts\<close> with elements of 32 bytes.\<close>

definition key_slice :: "bytes \<Rightarrow> nat \<Rightarrow> nat \<Rightarrow> (pubkey list, 'x) res" where
  "key_slice data off n =
     (if off + 32 * n \<le> length data
      then Ok (map (\<lambda>i. take 32 (drop (off + 32 * i) data)) [0..<n]) else Panic)"

definition tx_accounts :: "('t, 'i, 'c) txn_lib \<Rightarrow> 't transaction \<Rightarrow> (pubkey list, 'x) res" where
  "tx_accounts lib tx =
     key_slice (tx_data tx) (tl_acct_addrs lib (tx_desc tx)) (unat (tl_acct_addr_cnt lib (tx_desc tx)))"

definition tx_fee_payer :: "('t, 'i, 'c) txn_lib \<Rightarrow> 't transaction \<Rightarrow> (pubkey, 'x) res" where
  "tx_fee_payer lib tx = res_bind (tx_accounts lib tx) (\<lambda>accts. index accts 0)"

definition tx_recent_blockhash :: "('t, 'i, 'c) txn_lib \<Rightarrow> 't transaction \<Rightarrow> (bytes, 'x) res" where
  "tx_recent_blockhash lib tx =
     (let off = tl_recent_blockhash lib (tx_desc tx) in slice (tx_data tx) off (off + 32))"

definition tx_is_account_writable :: "('t, 'i, 'c) txn_lib \<Rightarrow> 't transaction \<Rightarrow> u16 \<Rightarrow> bool" where
  "tx_is_account_writable lib tx i = tl_is_writable lib (tx_desc tx) i"

definition tx_is_account_signer :: "('t, 'i, 'c) txn_lib \<Rightarrow> 't transaction \<Rightarrow> u16 \<Rightarrow> bool" where
  "tx_is_account_signer lib tx i = tl_is_signer lib (tx_desc tx) (uint i)"

definition tx_account_count_by_category :: "('t, 'i, 'c) txn_lib \<Rightarrow> 't transaction \<Rightarrow> int \<Rightarrow> nat" where
  "tx_account_count_by_category lib tx cat = tl_account_cnt lib (tx_desc tx) cat"

definition tx_is_simple_vote_transaction :: "('t, 'i, 'c) txn_lib \<Rightarrow> 't transaction \<Rightarrow> bool" where
  "tx_is_simple_vote_transaction lib tx = tl_is_simple_vote lib (tx_desc tx) (tx_data tx)"

definition tx_raw_data :: "'t transaction \<Rightarrow> bytes" where
  "tx_raw_data tx = tx_data tx"

section \<open>Account iterator\<close>

record 'c account_iter =
  ai_current :: 'c
  ai_accounts :: "pubkey list"

definition tx_accounts_by_category ::
  "('t, 'i, 'c) txn_lib \<Rightarrow> 't transaction \<Rightarrow> int \<Rightarrow> ('c account_iter, 'x) res" where
  "tx_accounts_by_category lib tx cat =
     (let iter = tl_acct_iter_init lib (tx_desc tx) cat
      in res_bind (tx_accounts lib tx) (\<lambda>accts. Ok \<lparr>ai_current = iter, ai_accounts = accts\<rparr>))"

definition account_iter_next ::
  "('t, 'i, 'c) txn_lib \<Rightarrow> 'c account_iter \<Rightarrow> (nat \<times> pubkey) option \<times> 'c account_iter" where
  "account_iter_next lib it =
     (if ai_current it = tl_acct_iter_end lib then (None, it)
      else let idx = tl_acct_iter_idx lib (ai_current it)
      in if idx < length (ai_accounts it)
         then (Some (idx, ai_accounts it ! idx), it\<lparr>ai_current := tl_acct_iter_next lib (ai_current it)\<rparr>)
         else (None, it))"

section \<open>Instructions\<close>

definition tx_instruction :: "('t, 'i, 'c) txn_lib \<Rightarrow> 't transaction \<Rightarrow> nat \<Rightarrow> 'i option" where
  "tx_instruction lib tx i =
     (if i \<ge> tx_instruction_count lib tx then None else Some (tl_instr lib (tx_desc tx) i))"

text \<open>\<open>InstructionIter\<close>: the position is its state.\<close>

definition instruction_iter_next ::
  "('t, 'i, 'c) txn_lib \<Rightarrow> 't transaction \<Rightarrow> nat \<Rightarrow> 'i option \<times> nat" where
  "instruction_iter_next lib tx i =
     (if i \<ge> tx_instruction_count lib tx then (None, i)
      else case tx_instruction lib tx i of None \<Rightarrow> (None, i) | Some ix \<Rightarrow> (Some ix, i + 1))"

definition ix_program_id :: "('t, 'i, 'c) txn_lib \<Rightarrow> 'i \<Rightarrow> u8" where
  "ix_program_id lib ix = tl_program_id lib ix"

definition ix_program_id_address ::
  "('t, 'i, 'c) txn_lib \<Rightarrow> 't transaction \<Rightarrow> 'i \<Rightarrow> (pubkey, 'x) res" where
  "ix_program_id_address lib tx ix =
     (let idx = unat (ix_program_id lib ix) in res_bind (tx_accounts lib tx) (\<lambda>accts. index accts idx))"

definition ix_account_count :: "('t, 'i, 'c) txn_lib \<Rightarrow> 'i \<Rightarrow> nat" where
  "ix_account_count lib ix = unat (tl_acct_cnt lib ix)"

definition ix_account_indices ::
  "('t, 'i, 'c) txn_lib \<Rightarrow> 't transaction \<Rightarrow> 'i \<Rightarrow> (bytes, 'x) res" where
  "ix_account_indices lib tx ix =
     (let off = tl_instr_accts lib ix in slice (tx_data tx) off (off + ix_account_count lib ix))"

text \<open>\<open>map(|&idx| self.txn.accounts()[idx as usize]).collect()\<close>\<close>

fun resolve_indices :: "pubkey list \<Rightarrow> bytes \<Rightarrow> (pubkey list, 'x) res" where
  "resolve_indices accts [] = Ok []"
| "resolve_indices accts (i # is) =
     res_bind (index accts (unat i)) (\<lambda>a. res_bind (resolve_indices accts is) (\<lambda>as. Ok (a # as)))"

definition ix_account_addresses ::
  "('t, 'i, 'c) txn_lib \<Rightarrow> 't transaction \<Rightarrow> 'i \<Rightarrow> (pubkey list, 'x) res" where
  "ix_account_addresses lib tx ix =
     res_bind (ix_account_indices lib tx ix) (\<lambda>is.
     if is = [] then Ok [] else res_bind (tx_accounts lib tx) (\<lambda>accts. resolve_indices accts is))"

definition ix_data_bytes :: "('t, 'i, 'c) txn_lib \<Rightarrow> 't transaction \<Rightarrow> 'i \<Rightarrow> (bytes, 'x) res" where
  "ix_data_bytes lib tx ix =
     (let off = tl_instr_data lib ix in slice (tx_data tx) off (off + unat (tl_data_sz lib ix)))"

end
