(* ===== verification/Txn_Refine.thy ===== *)
theory Txn_Refine
  imports Txn_Builder
begin

text \<open>
  What a transaction builder promises, without its arrays: an abstract account list with
  privileges in first-use order and a list of instructions over keys. The operations of the
  builder refine the operations on this specification, and the privileges of an account are
  exactly those some call asked for.
\<close>

section \<open>Abstract specification\<close>

type_synonym spec_acct = "pubkey \<times> bool \<times> bool"

record txn_spec =
  sp_accts :: "spec_acct list"
  sp_ixs :: "(pubkey \<times> pubkey list \<times> bytes) list"
  sp_fee_payer :: "pubkey option"
  sp_blockhash :: "bytes option"
  sp_version :: transaction_version

definition spec_empty :: txn_spec where
  "spec_empty = \<lparr>sp_accts = [], sp_ixs = [], sp_fee_payer = None, sp_blockhash = None,
     sp_version = Legacy\<rparr>"

text \<open>A key is referenced with the given privileges: they are added to those it has.\<close>

definition touch :: "pubkey \<Rightarrow> bool \<Rightarrow> bool \<Rightarrow> spec_acct list \<Rightarrow> spec_acct list" where
  "touch pk s w xs =
     (if pk \<in> fst ` set xs
      then map (\<lambda>(k, s', w'). if k = pk then (k, s' \<or> s, w' \<or> w) else (k, s', w')) xs
      else xs @ [(pk, s, w)])"

datatype builder_op =
    OpVersion transaction_version
  | OpFeePayer pubkey
  | OpBlockhash bytes
  | OpAddSigner pubkey
  | OpAddInstruction instruction_buf

fun spec_step :: "builder_op \<Rightarrow> txn_spec \<Rightarrow> txn_spec" where
  "spec_step (OpVersion v) s = s\<lparr>sp_version := v\<rparr>"
| "spec_step (OpFeePayer pk) s =
     s\<lparr>sp_accts := touch pk True True (sp_accts s), sp_fee_payer := Some pk\<rparr>"
| "spec_step (OpBlockhash h) s = s\<lparr>sp_blockhash := Some h\<rparr>"
| "spec_step (OpAddSigner pk) s = s\<lparr>sp_accts := touch pk True False (sp_accts s)\<rparr>"
| "spec_step (OpAddInstruction ix) s =
     s\<lparr>sp_accts := fold (\<lambda>m. touch (meta_pubkey m) (is_signer m) (is_writable m)) (accounts ix)
                    (touch (program_id ix) False False (sp_accts s)),
       sp_ixs := sp_ixs s @ [(program_id ix, map meta_pubkey (accounts ix), ix_data ix)]\<rparr>"

text \<open>A sequence of calls on the builder that stops at the first failure.\<close>

fun builder_step :: "txn_sys \<Rightarrow> builder_op \<Rightarrow> builder \<Rightarrow> (unit, build_error) res \<times> builder" where
  "builder_step sys (OpVersion v) b = (Ok (), builder_version v b)"
| "builder_step sys (OpFeePayer pk) b = builder_fee_payer sys pk b"
| "builder_step sys (OpBlockhash h) b = (Ok (), builder_recent_blockhash h b)"
| "builder_step sys (OpAddSigner pk) b = builder_add_signer sys pk b"
| "builder_step sys (OpAddInstruction ix) b = builder_add_instruction sys ix b"

fun run_ops :: "txn_sys \<Rightarrow> builder_op list \<Rightarrow> builder \<Rightarrow> (unit, build_error) res \<times> builder" where
  "run_ops sys [] b = (Ok (), b)"
| "run_ops sys (x # xs) b =
     (case builder_step sys x b of
        (Ok u, b') \<Rightarrow> run_ops sys xs b'
      | (Err e, b') \<Rightarrow> (Err e, b')
      | (Panic, b') \<Rightarrow> (Panic, b'))"

section \<open>Abstraction\<close>

definition abs_acct :: "builder \<Rightarrow> nat \<Rightarrow> spec_acct" where
  "abs_acct b i =
     (acct_keys b ! i, signer_flag (acct_flags b ! i), writable_flag (acct_flags b ! i))"

definition abs_accts :: "builder \<Rightarrow> spec_acct list" where
  "abs_accts b = map (abs_acct b) [0..<acct_count b]"

definition abs_entry :: "builder \<Rightarrow> instr_entry \<Rightarrow> pubkey \<times> pubkey list \<times> bytes" where
  "abs_entry b e =
     (table_keys b ! unat (program_idx e),
      map (\<lambda>x. table_keys b ! unat x)
        (take (unat (acct_cnt e)) (drop (unat (acct_off e)) (instr_acct_buf b))),
      take (unat (data_len e)) (drop (unat (data_off e)) (instr_data_buf b)))"

definition builder_abs :: "builder \<Rightarrow> txn_spec" where
  "builder_abs b =
     \<lparr>sp_accts = abs_accts b,
      sp_ixs = map (abs_entry b) (take (instr_count b) (instrs b)),
      sp_fee_payer = fee_payer b, sp_blockhash = blockhash b, sp_version = txn_version b\<rparr>"

subsection \<open>Privileges\<close>

lemma map_fst_touch:
  "map fst (touch pk s w xs) = (if pk \<in> fst ` set xs then map fst xs else map fst xs @ [pk])"
  by (auto simp: touch_def)

lemma touch_touch: "touch k s w (touch k s' w' xs) = touch k (s' \<or> s) (w' \<or> w) xs"
proof -
  have present: "k \<in> fst ` set (touch k s' w' xs)"
    using arg_cong [OF map_fst_touch [of k s' w' xs], of set] by (auto split: if_splits)
  show ?thesis
  proof (cases "k \<in> fst ` set xs")
    case True
    then show ?thesis
      using present by (auto simp: touch_def [of k s w] touch_def [of k s' w']
          touch_def [of k "s' \<or> s"])
  next
    case False
    then have "map (\<lambda>(k', a, b). if k' = k then (k', a \<or> s, b \<or> w) else (k', a, b)) xs = xs"
      by (intro map_idI) (auto simp: image_iff)
    then show ?thesis
      using False present by (simp add: touch_def [of k s w] touch_def [of k s' w']
          touch_def [of k "s' \<or> s"])
  qed
qed

lemma fst_abs_accts: "table_wf sys b \<Longrightarrow> map fst (abs_accts b) = table_keys b"
  by (rule nth_equalityI) (auto simp: abs_accts_def abs_acct_def table_keys_nth)

lemma touch_abs_accts:
  assumes wf: "table_wf sys b" and i: "i < acct_count b"
  shows "touch (acct_keys b ! i) s w (abs_accts b) =
    map (\<lambda>j. if j = i then (acct_keys b ! i, signer_flag (acct_flags b ! i) \<or> s,
                            writable_flag (acct_flags b ! i) \<or> w)
             else abs_acct b j) [0..<acct_count b]"
proof -
  have inj: "acct_keys b ! j = acct_keys b ! i \<longleftrightarrow> j = i" if "j < acct_count b" for j
  proof -
    have "distinct (table_keys b)" using wf by (simp add: table_wf_def)
    then have "table_keys b ! j = table_keys b ! i \<longleftrightarrow> j = i"
      using wf that i by (simp add: nth_eq_iff_index_eq)
    then show ?thesis using that i by (simp add: table_keys_nth)
  qed
  have "acct_keys b ! i \<in> fst ` set (abs_accts b)"
    using i by (force simp: abs_accts_def abs_acct_def)
  then show ?thesis
    using inj by (auto simp: touch_def abs_accts_def abs_acct_def)
qed

lemma abs_accts_or_flags:
  assumes wf: "builder_wf sys b" and i: "i < acct_count b"
  shows "abs_accts (or_flags i f b) =
    touch (acct_keys b ! i) (signer_flag f) (writable_flag f) (abs_accts b)"
proof -
  have t: "table_wf sys b" using wf by (simp add: builder_wf_def)
  have "i < length (acct_flags b)" using t i by (simp add: table_wf_def)
  then show ?thesis
    unfolding touch_abs_accts [OF t i]
    by (auto simp: abs_accts_def abs_acct_def or_flags_def nth_list_update)
qed

lemma abs_accts_mark_meta:
  assumes wf: "builder_wf sys b" and i: "i < acct_count b"
  shows "abs_accts (mark_meta m i b) =
    touch (acct_keys b ! i) (is_signer m) (is_writable m) (abs_accts b)"
proof -
  have "touch (acct_keys b ! i) False False (abs_accts b) = abs_accts b"
    using abs_accts_or_flags [OF assms, of 0] or_flags_def [of i 0 b]
    by (simp add: abs_accts_def abs_acct_def)
  then show ?thesis
    using assms or_flags_wf [OF assms, of ACCT_F_SIGNER]
    by (auto simp: mark_meta_def Let_def abs_accts_or_flags touch_touch)
qed

lemma abs_accts_find_or_insert:
  assumes wf: "builder_wf sys b" and run: "find_or_insert sys pk b = (Ok i, b')"
  shows "abs_accts b' = touch pk False False (abs_accts b)"
proof (cases "pk \<in> set (table_keys b)")
  case True
  then have b': "b' = b" and i: "i < acct_count b" "acct_keys b ! i = pk"
    using acct.intern_present [OF wf True] run find_or_insert_index [OF wf run] by auto
  have "abs_accts b = touch pk False False (abs_accts b)"
    using abs_accts_or_flags [OF wf i(1), of 0] i(2)
    by (simp add: abs_accts_def abs_acct_def or_flags_def)
  then show ?thesis using b' by simp
next
  case False
  have t: "table_wf sys b" using wf by (simp add: builder_wf_def)
  have b': "b' = insert_account pk b" and room: "acct_count b < ACCT_MAX sys"
    using run False find_account_None [OF t, of pk]
    by (auto simp: find_or_insert_def split: if_splits)
  have "pk \<notin> fst ` set (abs_accts b)"
    using False arg_cong [OF fst_abs_accts [OF t], of set] by simp
  then show ?thesis
    using room t unfolding b' touch_def
    by (auto simp: abs_accts_def abs_acct_def insert_account_def table_wf_def)
qed

lemma abs_accts_add_metas:
  assumes lim: "limits_ok sys" and "builder_wf sys b" and "add_metas sys ms b = (Ok u, b')"
  shows "abs_accts b' =
    fold (\<lambda>m. touch (meta_pubkey m) (is_signer m) (is_writable m)) ms (abs_accts b)"
  using assms(2,3)
proof (induction ms arbitrary: b)
  case Nil
  then show ?case by simp
next
  case (Cons m ms)
  from Cons.prems(2) obtain i b1 where
    foi: "find_or_insert sys (meta_pubkey m) b = (Ok i, b1)"
    and room: "instr_acct_len b1 < MTU sys"
    and rest: "add_metas sys ms (push_acct_index i (mark_meta m i b1)) = (Ok u, b')"
    by (auto simp: Let_def split: prod.splits res.splits if_splits)
  have wf1: "builder_wf sys b1" using acct.intern_invar [OF Cons.prems(1) foi] .
  have i: "i < acct_count b1" "acct_keys b1 ! i = meta_pubkey m"
    using find_or_insert_index [OF Cons.prems(1) foi] by auto
  have wf3: "builder_wf sys (push_acct_index i (mark_meta m i b1))"
    by (rule push_acct_index_wf [OF lim mark_meta_wf [OF wf1 i(1)]]) (use i room in auto)
  have "abs_accts (push_acct_index i (mark_meta m i b1)) = abs_accts (mark_meta m i b1)"
    by (simp add: abs_accts_def abs_acct_def)
  also have "\<dots> = touch (meta_pubkey m) (is_signer m) (is_writable m) (abs_accts b1)"
    using abs_accts_mark_meta [OF wf1 i(1)] i(2) by simp
  also have "\<dots> = touch (meta_pubkey m) (is_signer m) (is_writable m) (abs_accts b)"
    by (simp add: abs_accts_find_or_insert [OF Cons.prems(1) foi] touch_touch)
  finally show ?case using Cons.IH [OF wf3 rest] by simp
qed

subsection \<open>Instructions\<close>

text \<open>Growing the tables does not change what an existing entry denotes.\<close>

lemma abs_entry_stable:
  assumes wf: "builder_wf sys b" and e: "entry_wf b e"
    and keys: "table_keys b' = table_keys b @ ks"
    and accts: "take (instr_acct_len b) (instr_acct_buf b') =
      take (instr_acct_len b) (instr_acct_buf b)"
    and data: "take (instr_data_len b) (instr_data_buf b') =
      take (instr_data_len b) (instr_data_buf b)"
  shows "abs_entry b' e = abs_entry b e"
proof -
  let ?n = "instr_acct_len b" and ?a = "unat (acct_off e)" and ?c = "unat (acct_cnt e)"
  let ?m = "instr_data_len b" and ?d = "unat (data_off e)" and ?l = "unat (data_len e)"
  have len: "length (table_keys b) = acct_count b" using builder_wf_length [OF wf] .
  have cut: "take c (drop a xs) = take c (drop a (take n xs))" if "a + c \<le> n"
    for a c n and xs :: bytes
    using that by (simp add: drop_take)
  have eb: "?a + ?c \<le> ?n" "?d + ?l \<le> ?m" "unat (program_idx e) < acct_count b"
    using e by (auto simp: entry_wf_def)
  have A: "take ?c (drop ?a (instr_acct_buf b')) = take ?c (drop ?a (instr_acct_buf b))"
    using cut [OF eb(1)] accts by metis
  have D: "take ?l (drop ?d (instr_data_buf b')) = take ?l (drop ?d (instr_data_buf b))"
    using cut [OF eb(2)] data by metis
  have "unat x < acct_count b" if "x \<in> set (take ?c (drop ?a (instr_acct_buf b)))" for x
  proof -
    have "x \<in> set (take ?n (instr_acct_buf b))"
      using that cut [OF eb(1), of "instr_acct_buf b"] by (metis in_set_dropD in_set_takeD)
    then show ?thesis using wf by (auto simp: builder_wf_def refs_wf_def)
  qed
  then show ?thesis
    using A D eb(3) by (simp add: abs_entry_def keys nth_append len)
qed

lemma abs_entries_stable:
  assumes "builder_wf sys b" and "table_keys b' = table_keys b @ ks"
    and "take (instr_acct_len b) (instr_acct_buf b') =
      take (instr_acct_len b) (instr_acct_buf b)"
    and "take (instr_data_len b) (instr_data_buf b') =
      take (instr_data_len b) (instr_data_buf b)"
  shows "map (abs_entry b') (take (instr_count b) (instrs b)) =
    map (abs_entry b) (take (instr_count b) (instrs b))"
proof (rule map_cong [OF refl])
  fix e assume "e \<in> set (take (instr_count b) (instrs b))"
  then have "entry_wf b e" using assms(1) by (auto simp: builder_wf_def refs_wf_def)
  then show "abs_entry b' e = abs_entry b e"
    using abs_entry_stable [OF assms(1) _ assms(2-4)] by blast
qed

lemma abs_new_entry:
  assumes lim: "limits_ok sys" and wf: "builder_wf sys b" and p: "p < acct_count b"
    and key: "table_keys b ! p = program_id ix"
    and a: "a + length (accounts ix) = instr_acct_len b"
    and idxs: "take (instr_acct_len b) (instr_acct_buf b) = pre @ idxs" "length pre = a"
    and refs: "map (\<lambda>x. table_keys b ! unat x) idxs = map meta_pubkey (accounts ix)"
    and d: "instr_data_len b + length (ix_data ix) \<le> MTU sys"
  shows "abs_entry (push_instr ix p a b) (new_entry ix p a (instr_data_len b)) =
    (program_id ix, map meta_pubkey (accounts ix), ix_data ix)"
proof -
  have f: "unat (program_idx (new_entry ix p a (instr_data_len b))) = p"
    "unat (acct_off (new_entry ix p a (instr_data_len b))) = a"
    "unat (acct_cnt (new_entry ix p a (instr_data_len b))) = length (accounts ix)"
    "unat (data_off (new_entry ix p a (instr_data_len b))) = instr_data_len b"
    "unat (data_len (new_entry ix p a (instr_data_len b))) = length (ix_data ix)"
    using new_entry_fields [OF lim wf p _ d] a by auto
  have "length (accounts ix) = length idxs" using arg_cong [OF refs, of length] by simp
  moreover have "instr_acct_buf b = (pre @ idxs) @ drop (instr_acct_len b) (instr_acct_buf b)"
    using idxs(1) by (metis append_take_drop_id)
  ultimately have "take (length (accounts ix)) (drop a (instr_acct_buf b)) = idxs"
    using idxs(2) by (metis append_eq_conv_conj append_assoc)
  moreover have "take (length (ix_data ix)) (drop (instr_data_len b)
      (instr_data_buf (push_instr ix p a b))) = ix_data ix"
    using wf d by (simp add: push_instr_def builder_wf_def buffers_wf_def take_drop_blit)
  ultimately show ?thesis
    using f key refs by (simp add: abs_entry_def)
qed

section \<open>Refinement\<close>

lemma abs_add_instruction:
  assumes lim: "limits_ok sys" and wf: "builder_wf sys b"
    and run: "builder_add_instruction sys ix b = (Ok u, b')"
  shows "builder_abs b' = spec_step (OpAddInstruction ix) (builder_abs b)"
proof -
  obtain p b1 b2 where foi: "find_or_insert sys (program_id ix) b = (Ok p, b1)"
    and wf1: "builder_wf sys b1" and metas: "add_metas sys (accounts ix) b1 = (Ok (), b2)"
    and wf2: "builder_wf sys b2" and room: "instr_count b2 < INSTR_MAX sys"
    and p: "p < acct_count b2"
    and d: "instr_data_len b2 + length (ix_data ix) \<le> MTU sys"
    and b': "b' = push_instr ix p (instr_acct_len b1) b2"
    using add_instruction_OkE [OF lim wf run] by metis
  note fr1 = find_or_insert_frame [OF foi] and fr2 = add_metas_frame [OF metas]
  obtain ks1 where ks1: "table_keys b1 = table_keys b @ ks1"
    using acct.intern_grows [OF wf foi] by blast
  obtain idxs ks2 where ks2: "table_keys b2 = table_keys b1 @ ks2"
    and len2: "instr_acct_len b2 = instr_acct_len b1 + length (accounts ix)"
    and buf2: "take (instr_acct_len b2) (instr_acct_buf b2) =
      take (instr_acct_len b1) (instr_acct_buf b1) @ idxs"
    and refs: "map (\<lambda>x. table_keys b2 ! unat x) idxs = map meta_pubkey (accounts ix)"
    using add_metas_Ok [OF lim wf1 metas] by blast
  have prog: "table_keys b2 ! p = program_id ix"
    using find_or_insert_index [OF wf foi] builder_wf_length [OF wf1]
    by (simp add: ks2 nth_append table_keys_nth)
  have pre: "length (take (instr_acct_len b1) (instr_acct_buf b1)) = instr_acct_len b1"
    using wf1 by (simp add: builder_wf_def buffers_wf_def)
  have new: "abs_entry b' (new_entry ix p (instr_acct_len b1) (instr_data_len b2)) =
    (program_id ix, map meta_pubkey (accounts ix), ix_data ix)"
    unfolding b' by (rule abs_new_entry [OF lim wf2 p prog _ buf2 pre refs d]) (use len2 in simp)
  have "take (instr_acct_len b) (instr_acct_buf b') = take (instr_acct_len b) (instr_acct_buf b)"
    using arg_cong [OF buf2, of "take (instr_acct_len b1)"] pre len2 fr1(3,4) b' by simp
  moreover have "take (instr_data_len b) (instr_data_buf b') =
      take (instr_data_len b) (instr_data_buf b)"
    using fr1(5,6) fr2(3,4) wf2 unfolding b'
    by (simp add: push_instr_def builder_wf_def buffers_wf_def take_blit_before)
  moreover have "table_keys b' = table_keys b @ (ks1 @ ks2)" using ks1 ks2 b' by simp
  ultimately have old: "map (abs_entry b') (take (instr_count b) (instrs b)) =
      map (abs_entry b) (take (instr_count b) (instrs b))"
    using abs_entries_stable [OF wf] by blast
  have entries: "take (instr_count b') (instrs b') =
      take (instr_count b) (instrs b) @ [new_entry ix p (instr_acct_len b1) (instr_data_len b2)]"
    using take_push_instr [of sys b2 ix p "instr_acct_len b1"] wf2 room fr1(1,2) fr2(1,2) b'
    by (simp add: builder_wf_def)
  have "abs_accts b' = abs_accts b2" unfolding b' by (simp add: abs_accts_def abs_acct_def)
  then have accts: "abs_accts b' =
      fold (\<lambda>m. touch (meta_pubkey m) (is_signer m) (is_writable m)) (accounts ix)
        (touch (program_id ix) False False (abs_accts b))"
    by (simp add: abs_accts_add_metas [OF lim wf1 metas] abs_accts_find_or_insert [OF wf foi])
  show ?thesis
    using accts entries old new fr1(7-9) fr2(5-7) b' by (simp add: builder_abs_def)
qed

lemma find_or_insert_abs_ixs:
  assumes wf: "builder_wf sys b" and run: "find_or_insert sys pk b = (Ok i, b')"
  shows "map (abs_entry b') (take (instr_count b') (instrs b')) =
    map (abs_entry b) (take (instr_count b) (instrs b))"
proof -
  obtain ks where "table_keys b' = table_keys b @ ks"
    using acct.intern_grows [OF wf run] by blast
  then have "map (abs_entry b') (take (instr_count b) (instrs b)) =
    map (abs_entry b) (take (instr_count b) (instrs b))"
    by (rule abs_entries_stable [OF wf]) (simp_all add: find_or_insert_frame(3-6) [OF run])
  then show ?thesis by (simp add: find_or_insert_frame(1,2) [OF run])
qed

lemma abs_entry_or_flags [simp]: "abs_entry (or_flags i f b) e = abs_entry b e"
  by (simp add: abs_entry_def)

lemma abs_touch:
  assumes wf: "builder_wf sys b" and run: "find_or_insert sys pk b = (Ok i, b1)"
  shows "builder_abs (or_flags i f b1) =
    (builder_abs b)\<lparr>sp_accts := touch pk (signer_flag f) (writable_flag f) (abs_accts b)\<rparr>"
proof -
  have wf1: "builder_wf sys b1" using acct.intern_invar [OF wf run] .
  have i: "i < acct_count b1" "acct_keys b1 ! i = pk" using find_or_insert_index [OF wf run] .
  have "abs_accts (or_flags i f b1) = touch pk (signer_flag f) (writable_flag f) (abs_accts b)"
    using abs_accts_or_flags [OF wf1 i(1), of f] i(2)
    by (simp add: abs_accts_find_or_insert [OF wf run] touch_touch)
  then show ?thesis
    using find_or_insert_abs_ixs [OF wf run] find_or_insert_frame [OF run]
    by (simp add: builder_abs_def)
qed

lemma abs_fee_payer_eq:
  "builder_abs (b\<lparr>fee_payer := p\<rparr>) = (builder_abs b)\<lparr>sp_fee_payer := p\<rparr>"
  by (simp add: builder_abs_def abs_accts_def abs_acct_def [abs_def] abs_entry_def [abs_def]
      table_keys_def)

lemma abs_step:
  assumes lim: "limits_ok sys" and wf: "builder_wf sys b"
    and run: "builder_step sys x b = (Ok u, b')"
  shows "builder_abs b' = spec_step x (builder_abs b)"
proof (cases x)
  case (OpFeePayer pk)
  with run obtain i b1 where foi: "find_or_insert sys pk b = (Ok i, b1)"
    and b': "b' = (or_flags i (ACCT_F_SIGNER OR ACCT_F_WRITABLE) b1)\<lparr>fee_payer := Some pk\<rparr>"
    by (auto simp: builder_fee_payer_def find_or_insert_def split: option.splits if_splits)
  show ?thesis
    using OpFeePayer abs_touch [OF wf foi] b'
    by (simp add: abs_fee_payer_eq) (simp add: builder_abs_def)
next
  case (OpAddSigner pk)
  with run obtain i b1 where foi: "find_or_insert sys pk b = (Ok i, b1)"
    and b': "b' = or_flags i ACCT_F_SIGNER b1"
    by (auto simp: builder_add_signer_def split: prod.splits res.splits)
  show ?thesis
    using OpAddSigner abs_touch [OF wf foi] b' by simp (simp add: builder_abs_def)
next
  case (OpAddInstruction ix)
  then show ?thesis using abs_add_instruction [OF lim wf] run by simp
qed (use run in \<open>auto simp: builder_abs_def abs_accts_def abs_acct_def [abs_def]
      abs_entry_def [abs_def] table_keys_def builder_version_def builder_recent_blockhash_def\<close>)

lemma builder_step_wf:
  assumes "limits_ok sys" and "builder_wf sys b" and "builder_step sys x b = (r, b')"
  shows "builder_wf sys b'"
  using assms
  by (cases x) (auto intro: builder_fee_payer_wf builder_add_signer_wf add_instruction_wf
      builder_version_wf builder_recent_blockhash_wf)

lemma run_ops_wf:
  assumes "limits_ok sys" and "builder_wf sys b" and "run_ops sys xs b = (r, b')"
  shows "builder_wf sys b'"
  using assms(2,3)
proof (induction xs arbitrary: b)
  case (Cons x xs)
  obtain r1 b1 where step: "builder_step sys x b = (r1, b1)" by fastforce
  have "builder_wf sys b1" using builder_step_wf [OF assms(1) Cons.prems(1) step] .
  then show ?case using Cons.IH Cons.prems(2) step by (auto split: res.splits)
qed simp

lemma run_ops_refines:
  assumes lim: "limits_ok sys" and "builder_wf sys b" and "run_ops sys xs b = (Ok u, b')"
  shows "builder_abs b' = fold spec_step xs (builder_abs b)"
  using assms(2,3)
proof (induction xs arbitrary: b)
  case (Cons x xs)
  from Cons.prems(2) obtain b1 where step: "builder_step sys x b = (Ok (), b1)"
    and rest: "run_ops sys xs b1 = (Ok u, b')"
    by (auto split: prod.splits res.splits)
  show ?case
    using Cons.IH [OF builder_step_wf [OF lim Cons.prems(1) step] rest]
      abs_step [OF lim Cons.prems(1) step] by simp
qed simp

lemma abs_new: "builder_abs (builder_new sys) = spec_empty"
  by (simp add: builder_abs_def builder_new_def spec_empty_def abs_accts_def)

section \<open>Privileges asked for\<close>

fun asks_signer :: "pubkey \<Rightarrow> builder_op \<Rightarrow> bool" where
  "asks_signer pk (OpFeePayer k) \<longleftrightarrow> k = pk"
| "asks_signer pk (OpAddSigner k) \<longleftrightarrow> k = pk"
| "asks_signer pk (OpAddInstruction ix) \<longleftrightarrow>
     (\<exists>m \<in> set (accounts ix). meta_pubkey m = pk \<and> is_signer m)"
| "asks_signer pk _ \<longleftrightarrow> False"

fun asks_writable :: "pubkey \<Rightarrow> builder_op \<Rightarrow> bool" where
  "asks_writable pk (OpFeePayer k) \<longleftrightarrow> k = pk"
| "asks_writable pk (OpAddInstruction ix) \<longleftrightarrow>
     (\<exists>m \<in> set (accounts ix). meta_pubkey m = pk \<and> is_writable m)"
| "asks_writable pk _ \<longleftrightarrow> False"

text \<open>The privileges of a key in an account list; an absent key has none.\<close>

definition priv :: "spec_acct list \<Rightarrow> pubkey \<Rightarrow> bool \<times> bool" where
  "priv xs pk = (case map_of xs pk of None \<Rightarrow> (False, False) | Some p \<Rightarrow> p)"

lemma priv_touch:
  "priv (touch k s w xs) pk =
    (fst (priv xs pk) \<or> (k = pk \<and> s), snd (priv xs pk) \<or> (k = pk \<and> w))"
proof -
  have upd: "map_of (map (\<lambda>(k', a, b). if k' = k then (k', a \<or> s, b \<or> w) else (k', a, b)) ys) pk
    = map_option (\<lambda>(a, b). if k = pk then (a \<or> s, b \<or> w) else (a, b)) (map_of ys pk)"
    for ys :: "spec_acct list"
    by (induction ys) (auto split: if_split_asm)
  show ?thesis
  proof (cases "k \<in> fst ` set xs")
    case True
    then have "map_of xs k \<noteq> None" by (simp add: map_of_eq_None_iff)
    then show ?thesis
      using True upd [of xs] by (auto simp: priv_def touch_def split: option.splits prod.splits)
  next
    case False
    then have "map_of xs k = None" by (simp add: map_of_eq_None_iff)
    then show ?thesis
      using False by (auto simp: priv_def touch_def map_add_def split: option.splits)
  qed
qed

lemma priv_touch_metas:
  "priv (fold (\<lambda>m. touch (meta_pubkey m) (is_signer m) (is_writable m)) ms xs) pk =
    (fst (priv xs pk) \<or> (\<exists>m \<in> set ms. meta_pubkey m = pk \<and> is_signer m),
     snd (priv xs pk) \<or> (\<exists>m \<in> set ms. meta_pubkey m = pk \<and> is_writable m))"
  by (induction ms arbitrary: xs) (auto simp: priv_touch)

lemma priv_step:
  "priv (sp_accts (spec_step x s)) pk =
    (fst (priv (sp_accts s) pk) \<or> asks_signer pk x,
     snd (priv (sp_accts s) pk) \<or> asks_writable pk x)"
  by (cases x) (auto simp: priv_touch priv_touch_metas)

lemma priv_run:
  "priv (sp_accts (fold spec_step xs s)) pk =
    (fst (priv (sp_accts s) pk) \<or> (\<exists>x \<in> set xs. asks_signer pk x),
     snd (priv (sp_accts s) pk) \<or> (\<exists>x \<in> set xs. asks_writable pk x))"
  by (induction xs arbitrary: s) (auto simp: priv_step)

end
