(* ===== verification/Emit.thy ===== *)
theory Emit
  imports Prelude
begin

text \<open>
  Serialisers in this repository write successive pieces into a buffer of fixed capacity and
  give up with one error when a piece does not fit. This theory states that contract once:
  \<open>emits\<close> relates a step to the bytes it appends, steps compose, and the locale
  \<open>emitter\<close> carries the lemma for a whole list of pieces. The transaction builder and
  \<open>BufWriter\<close> interpret it.
\<close>

text \<open>
  \<open>emits state cap slack full m out bs\<close>: run after the bytes \<open>out\<close> were written, step
  \<open>m\<close> either appends exactly \<open>bs\<close> within the capacity or fails with \<open>full\<close>; it
  fails only when fewer than \<open>slack\<close> bytes would be left. \<open>state out\<close> is the writer
  after \<open>out\<close>.
\<close>

definition emits ::
  "(bytes \<Rightarrow> 's) \<Rightarrow> nat \<Rightarrow> nat \<Rightarrow> 'e \<Rightarrow> ('s, 'e) res \<Rightarrow> bytes \<Rightarrow> bytes \<Rightarrow> bool" where
  "emits state cap slack full m out bs \<longleftrightarrow>
     m = Ok (state (out @ bs)) \<and> length (out @ bs) \<le> cap \<or>
     m = Err full \<and> cap < length (out @ bs) + slack"

lemma emits_Ok:
  "emits state cap slack full m out bs \<Longrightarrow> m = Ok st \<Longrightarrow>
   st = state (out @ bs) \<and> length (out @ bs) \<le> cap"
  by (auto simp: emits_def)

lemma emits_fits:
  "emits state cap slack full m out bs \<Longrightarrow> length (out @ bs) + slack \<le> cap \<Longrightarrow>
   m = Ok (state (out @ bs))"
  by (auto simp: emits_def)

lemma emits_no_panic: "emits state cap slack full m out bs \<Longrightarrow> m \<noteq> Panic"
  by (auto simp: emits_def)

lemma emits_Err: "emits state cap slack full m out bs \<Longrightarrow> m = Err e \<Longrightarrow> e = full"
  by (auto simp: emits_def)

lemma emits_return: "length out \<le> cap \<Longrightarrow> emits state cap slack full (Ok (state out)) out []"
  by (simp add: emits_def)

lemma emits_bind:
  assumes "emits state cap slack full m out bs"
    and "length (out @ bs) \<le> cap \<Longrightarrow>
      emits state cap slack full (f (state (out @ bs))) (out @ bs) bs'"
  shows "emits state cap slack full (res_bind m f) out (bs @ bs')"
  using assms by (auto simp: emits_def)

lemma emits_slack_mono:
  "emits state cap slack full m out bs \<Longrightarrow> slack \<le> slack' \<Longrightarrow>
   emits state cap slack' full m out bs"
  by (auto simp: emits_def)

fun put_all :: "('s \<Rightarrow> bytes \<Rightarrow> ('s, 'e) res) \<Rightarrow> 's \<Rightarrow> bytes list \<Rightarrow> ('s, 'e) res" where
  "put_all put st [] = Ok st"
| "put_all put st (b # bs) = res_bind (put st b) (\<lambda>st'. put_all put st' bs)"

locale emitter =
  fixes put :: "'s \<Rightarrow> bytes \<Rightarrow> ('s, 'e) res"
    and state :: "bytes \<Rightarrow> 's"
    and cap :: nat
    and slack :: nat
    and full :: 'e
  assumes put_emits: "length out \<le> cap \<Longrightarrow> emits state cap slack full (put (state out) bs) out bs"
begin

lemma put_all_emits:
  "length out \<le> cap \<Longrightarrow>
   emits state cap slack full (put_all put (state out) bss) out (concat bss)"
proof (induction bss arbitrary: out)
  case Nil
  then show ?case by (simp add: emits_return)
next
  case (Cons b bss)
  have "emits state cap slack full (res_bind (put (state out) b) (\<lambda>st'. put_all put st' bss))
    out (b @ concat bss)"
    by (rule emits_bind [OF put_emits [OF Cons.prems]]) (rule Cons.IH)
  then show ?case by simp
qed

lemma put_all_Ok:
  "length out \<le> cap \<Longrightarrow> put_all put (state out) bss = Ok st \<Longrightarrow>
   st = state (out @ concat bss) \<and> length (out @ concat bss) \<le> cap"
  by (rule emits_Ok [OF put_all_emits])

lemma put_all_fits:
  "length (out @ concat bss) + slack \<le> cap \<Longrightarrow>
   put_all put (state out) bss = Ok (state (out @ concat bss))"
  by (rule emits_fits [OF put_all_emits]) auto

end

text \<open>
  The state of a writer over an array: the array with its first bytes overwritten, and the
  write position.
\<close>

definition buf_state :: "bytes \<Rightarrow> bytes \<Rightarrow> bytes \<times> nat" where
  "buf_state buf0 out = (out @ drop (length out) buf0, length out)"

lemma buf_state_empty [simp]: "buf_state buf0 [] = (buf0, 0)"
  by (simp add: buf_state_def)

lemma copy_into_buf_state:
  assumes "length out + length bs \<le> length buf0"
  shows "copy_from_slice (out @ drop (length out) buf0) (length out) (length out + length bs) bs =
    Ok (out @ bs @ drop (length out + length bs) buf0)"
  using assms by (simp add: copy_from_slice_def blit_def add.commute)

lemma take_buf_state: "take (length out) (fst (buf_state buf0 out)) = out"
  by (simp add: buf_state_def)

end
