(* ===== verification/Txn_Build.thy ===== *)
theory Txn_Build
  imports Txn_Refine Emit "HOL-Library.Multiset" "HOL-Library.Product_Lexorder"
begin

text \<open>
  \<open>TransactionBuilder::build\<close>: account ordering, index remapping, the message header and
  the serialisation into an MTU-sized buffer, with every bounds check and every slice of the
  source; and \<open>UnsignedTransaction\<close>. The lemmas show that a built transaction is the wire
  form of the builder's specification (\<open>Txn_Refine\<close>), that the account order is the one the
  header's counts describe, that build never panics, and which transactions are refused as too
  large.
\<close>

unbundle bit_operations_syntax

section \<open>Definitions\<close>

record unsigned_transaction =
  ut_buf :: bytes
  ut_len :: nat
  ut_sig_count :: u8
  ut_sig_off :: nat
  ut_message_off :: nat

definition acct_sort_key :: "u8 \<Rightarrow> u8" where
  "acct_sort_key flags =
     (case (flags AND ACCT_F_SIGNER \<noteq> 0, flags AND ACCT_F_WRITABLE \<noteq> 0) of
        (True, True) \<Rightarrow> 0
      | (True, False) \<Rightarrow> 1
      | (False, True) \<Rightarrow> 2
      | (False, False) \<Rightarrow> 3)"

text \<open>
  \<open>sorted.sort_by\<close>: the comparison is lexicographic, fee payer first (the flags are compared
  in descending order), then the sort key, then the index; the three components order the
  triples of \<open>sort_rank\<close> ascending.
\<close>

definition sort_rank :: "nat \<Rightarrow> u8 list \<Rightarrow> nat \<Rightarrow> bool \<times> u8 \<times> nat" where
  "sort_rank fp_idx flags a = (a \<noteq> fp_idx, acct_sort_key (flags ! a), a)"

definition sort_accounts :: "nat \<Rightarrow> u8 list \<Rightarrow> nat \<Rightarrow> nat list" where
  "sort_accounts fp_idx flags n = sort_key (sort_rank fp_idx flags) [0..<n]"

text \<open>\<open>for (new_idx, &old_idx) in sorted.iter().enumerate() { remap[old_idx] = new_idx as u8 }\<close>\<close>

fun fill_remap :: "nat \<Rightarrow> nat list \<Rightarrow> u8 list \<Rightarrow> u8 list" where
  "fill_remap new [] remap = remap"
| "fill_remap new (old # olds) remap = fill_remap (Suc new) olds (remap[old := word_of_nat new])"

text \<open>The counting loop: \<open>(sig_count, readonly_signed, readonly_unsigned)\<close>.\<close>

fun count_header :: "u8 list \<Rightarrow> nat list \<Rightarrow> u8 \<times> u8 \<times> u8 \<Rightarrow> u8 \<times> u8 \<times> u8" where
  "count_header flags [] c = c"
| "count_header flags (old # olds) (sig, ros, rou) =
     (let f = flags ! old;
          signer = (f AND ACCT_F_SIGNER \<noteq> 0);
          writable = (f AND ACCT_F_WRITABLE \<noteq> 0)
      in count_header flags olds
           (if signer then (sig + 1, if \<not> writable then ros + 1 else ros, rou)
            else if \<not> writable then (sig, ros, rou + 1)
            else (sig, ros, rou)))"

definition write_cu16 ::
  "txn_sys \<Rightarrow> bytes \<times> nat \<Rightarrow> u16 \<Rightarrow> (bytes \<times> nat, build_error) res" where
  "write_cu16 sys st val =
     (let (buf, off) = st
      in if off + 3 > MTU sys then Err TransactionTooLarge
         else let enc = fd_cu16_enc sys val
              in res_bind (copy_from_slice buf off (off + length enc) enc)
                   (\<lambda>buf'. Ok (buf', off + length enc)))"

text \<open>
  \<open>if off + n > MTU { return Err(TransactionTooLarge) }\<close> followed by a copy of \<open>n\<close> bytes
  to \<open>off\<close> and \<open>off += n\<close>: the version byte, the header, a key, the blockhash, a program
  index and the instruction data are all written this way.
\<close>

definition put_bytes ::
  "txn_sys \<Rightarrow> bytes \<times> nat \<Rightarrow> bytes \<Rightarrow> (bytes \<times> nat, build_error) res" where
  "put_bytes sys st bs =
     (let (buf, off) = st
      in if off + length bs > MTU sys then Err TransactionTooLarge
         else res_bind (copy_from_slice buf off (off + length bs) bs)
                (\<lambda>buf'. Ok (buf', off + length bs)))"

fun put_keys ::
  "txn_sys \<Rightarrow> pubkey list \<Rightarrow> nat list \<Rightarrow> bytes \<times> nat \<Rightarrow> (bytes \<times> nat, build_error) res" where
  "put_keys sys keys [] st = Ok st"
| "put_keys sys keys (old # olds) st =
     res_bind (index keys old) (\<lambda>k.
     res_bind (put_bytes sys st k) (put_keys sys keys olds))"

text \<open>\<open>buf[off] = remap[self.instr_acct_buf[j] as usize]; off += 1\<close> for each \<open>j\<close>.\<close>

fun put_acct_refs ::
  "u8 list \<Rightarrow> bytes \<Rightarrow> nat list \<Rightarrow> bytes \<times> nat \<Rightarrow> (bytes \<times> nat, build_error) res" where
  "put_acct_refs remap abuf [] st = Ok st"
| "put_acct_refs remap abuf (j # js) (buf, off) =
     res_bind (index abuf j) (\<lambda>x.
     res_bind (index remap (unat x)) (\<lambda>r.
     res_bind (copy_from_slice buf off (off + 1) [r]) (\<lambda>buf'.
     put_acct_refs remap abuf js (buf', off + 1))))"

text \<open>The account-reference part and the data part of one instruction.\<close>

definition put_instr_accts ::
  "txn_sys \<Rightarrow> builder \<Rightarrow> u8 list \<Rightarrow> instr_entry \<Rightarrow> bytes \<times> nat \<Rightarrow>
   (bytes \<times> nat, build_error) res" where
  "put_instr_accts sys b remap entry st =
     res_bind (write_cu16 sys st (acct_cnt entry)) (\<lambda>st1.
     let acct_start = unat (acct_off entry);
         acct_end = acct_start + unat (acct_cnt entry)
     in if snd st1 + unat (acct_cnt entry) > MTU sys then Err TransactionTooLarge
        else put_acct_refs remap (instr_acct_buf b) [acct_start..<acct_end] st1)"

definition put_instr_data ::
  "txn_sys \<Rightarrow> builder \<Rightarrow> instr_entry \<Rightarrow> bytes \<times> nat \<Rightarrow> (bytes \<times> nat, build_error) res" where
  "put_instr_data sys b entry st =
     res_bind (write_cu16 sys st (data_len entry)) (\<lambda>st1.
     let data_start = unat (data_off entry);
         data_end = data_start + unat (data_len entry)
     in if snd st1 + unat (data_len entry) > MTU sys then Err TransactionTooLarge
        else res_bind (slice (instr_data_buf b) data_start data_end) (put_bytes sys st1))"

definition put_instr ::
  "txn_sys \<Rightarrow> builder \<Rightarrow> u8 list \<Rightarrow> instr_entry \<Rightarrow> bytes \<times> nat \<Rightarrow>
   (bytes \<times> nat, build_error) res" where
  "put_instr sys b remap entry st =
     (if snd st \<ge> MTU sys then Err TransactionTooLarge else
      res_bind (index remap (unat (program_idx entry))) (\<lambda>prog.
      res_bind (put_bytes sys st [prog]) (\<lambda>st1.
      res_bind (put_instr_accts sys b remap entry st1) (put_instr_data sys b entry))))"

fun put_instrs ::
  "txn_sys \<Rightarrow> builder \<Rightarrow> u8 list \<Rightarrow> nat list \<Rightarrow> bytes \<times> nat \<Rightarrow> (bytes \<times> nat, build_error) res" where
  "put_instrs sys b remap [] st = Ok st"
| "put_instrs sys b remap (i # is) st =
     res_bind (index (instrs b) i) (\<lambda>entry.
     res_bind (put_instr sys b remap entry st) (put_instrs sys b remap is))"

definition validate :: "txn_sys \<Rightarrow> bytes \<Rightarrow> nat \<Rightarrow> (unit, build_error) res" where
  "validate sys buf len =
     (if fd_txn_parse_core sys (take len buf) = 0 then Err ValidationFailed else Ok ())"

text \<open>The message part of \<open>build\<close>: from the version byte to the empty lookup-table list.\<close>

definition put_message ::
  "txn_sys \<Rightarrow> builder \<Rightarrow> bytes \<Rightarrow> nat list \<Rightarrow> u8 \<times> u8 \<times> u8 \<Rightarrow> bytes \<times> nat \<Rightarrow>
   (bytes \<times> nat, build_error) res" where
  "put_message sys b bh idxs counts st1 =
     (let remap = fill_remap 0 idxs (replicate (ACCT_MAX sys) 0);
          (sig_count, ro_signed, ro_unsigned) = counts
      in
      res_bind (if txn_version b = V0 then put_bytes sys st1 [0x80] else Ok st1) (\<lambda>st2.
      res_bind (put_bytes sys st2 [sig_count, ro_signed, ro_unsigned]) (\<lambda>st3.
      res_bind (write_cu16 sys st3 (word_of_nat (acct_count b))) (\<lambda>st4.
      res_bind (put_keys sys (acct_keys b) idxs st4) (\<lambda>st5.
      res_bind (put_bytes sys st5 bh) (\<lambda>st6.
      res_bind (write_cu16 sys st6 (word_of_nat (instr_count b))) (\<lambda>st7.
      res_bind (put_instrs sys b remap [0..<instr_count b] st7) (\<lambda>st8.
      if txn_version b = V0 then write_cu16 sys st8 0 else Ok st8))))))))"

text \<open>After the signature count: the signature slots, the message, the validation.\<close>

definition finish_build ::
  "txn_sys \<Rightarrow> builder \<Rightarrow> bytes \<Rightarrow> nat list \<Rightarrow> u8 \<times> u8 \<times> u8 \<Rightarrow> bytes \<times> nat \<Rightarrow>
   (unsigned_transaction, build_error) res" where
  "finish_build sys b bh idxs counts st =
     (let (buf1, sig_off) = st;
          sig_count = fst counts;
          sigs_end = sig_off + unat sig_count * SIG_SZ sys
      in if sigs_end > MTU sys then Err TransactionTooLarge else
      res_bind (put_message sys b bh idxs counts (buf1, sigs_end)) (\<lambda>(buf, len).
      res_bind (validate sys buf len) (\<lambda>_.
      Ok \<lparr>ut_buf = buf, ut_len = len, ut_sig_count = sig_count, ut_sig_off = sig_off,
          ut_message_off = sigs_end\<rparr>)))"

definition builder_build :: "txn_sys \<Rightarrow> builder \<Rightarrow> (unsigned_transaction, build_error) res" where
  "builder_build sys b =
     res_bind (ok_or (fee_payer b) NoFeePayer) (\<lambda>fp.
     res_bind (ok_or (blockhash b) NoBlockhash) (\<lambda>bh.
     if instr_count b = 0 then Err NoInstructions else
     res_bind (ok_or (find_account b fp) NoFeePayer) (\<lambda>fp_idx.
     let idxs = sort_accounts fp_idx (acct_flags b) (acct_count b);
         counts = count_header (acct_flags b) idxs (0, 0, 0);
         sig_count = fst counts
     in if sig_count = 0 \<or> unat sig_count > SIG_MAX sys then Err TooManySigners else
     res_bind (write_cu16 sys (replicate (MTU sys) 0, 0) (ucast sig_count))
       (finish_build sys b bh idxs counts))))"

text \<open>\<open>UnsignedTransaction\<close>; \<open>set_signature\<close> asserts that the index is in range.\<close>

definition set_signature ::
  "txn_sys \<Rightarrow> nat \<Rightarrow> bytes \<Rightarrow> unsigned_transaction \<Rightarrow> (unsigned_transaction, build_error) res" where
  "set_signature sys i sig u =
     (if i < unat (ut_sig_count u) then
        (let start = ut_sig_off u + i * SIG_SZ sys
         in res_bind (copy_from_slice (ut_buf u) start (start + SIG_SZ sys) sig)
              (\<lambda>buf'. Ok (u\<lparr>ut_buf := buf'\<rparr>)))
      else Panic)"

definition as_bytes :: "unsigned_transaction \<Rightarrow> bytes" where
  "as_bytes u = take (ut_len u) (ut_buf u)"

definition message_bytes :: "unsigned_transaction \<Rightarrow> bytes" where
  "message_bytes u = take (ut_len u - ut_message_off u) (drop (ut_message_off u) (ut_buf u))"

definition signature_count :: "unsigned_transaction \<Rightarrow> nat" where
  "signature_count u = unat (ut_sig_count u)"

section \<open>Account order\<close>

text \<open>
  The order a message needs: the fee payer, then writable signers, read-only signers, writable
  non-signers and read-only non-signers, each group in first-use order.
\<close>

definition compile_order :: "pubkey \<Rightarrow> spec_acct list \<Rightarrow> spec_acct list" where
  "compile_order fp xs =
     filter (\<lambda>(k, s, w). k = fp) xs @
     concat (map (\<lambda>(s', w'). filter (\<lambda>(k, s, w). k \<noteq> fp \<and> s = s' \<and> w = w') xs)
       [(True, True), (True, False), (False, True), (False, False)])"

lemma acct_sort_key_cases:
  "acct_sort_key f =
    (if signer_flag f then if writable_flag f then 0 else 1
     else if writable_flag f then 2 else 3)"
  by (auto simp: acct_sort_key_def signer_flag_def writable_flag_def)

definition group_idxs :: "nat \<Rightarrow> u8 list \<Rightarrow> nat \<Rightarrow> bool \<Rightarrow> bool \<Rightarrow> nat list" where
  "group_idxs fp flags n s w =
     filter (\<lambda>a. a \<noteq> fp \<and> signer_flag (flags ! a) = s \<and> writable_flag (flags ! a) = w) [0..<n]"

lemma group_rank:
  "a \<in> set (group_idxs fp flags n s w) \<Longrightarrow>
   sort_rank fp flags a = (True, (if s then if w then 0 else 1 else if w then 2 else 3), a)"
  by (auto simp: group_idxs_def sort_rank_def acct_sort_key_cases)

lemma sorted_group_idxs: "sorted (map (sort_rank fp flags) (group_idxs fp flags n s w))"
proof -
  have "sorted (map (\<lambda>a. (True, (if s then if w then 0 else 1 else if w then 2 else 3) :: u8, a))
      (group_idxs fp flags n s w))"
    unfolding sorted_map by (simp add: group_idxs_def sorted_wrt_filter)
  then show ?thesis by (simp add: group_rank cong: map_cong)
qed

lemma sort_accounts_groups:
  assumes "fp < n"
  shows "sort_accounts fp flags n =
    fp # group_idxs fp flags n True True @ group_idxs fp flags n True False @
      group_idxs fp flags n False True @ group_idxs fp flags n False False"
    (is "_ = ?ys")
proof -
  let ?f = "sort_rank fp flags"
  have dist: "distinct ?ys" by (auto simp: group_idxs_def)
  have set: "set ?ys = set [0..<n]" using assms by (auto simp: group_idxs_def)
  have "mset ?ys = mset [0..<n]"
    using dist set distinct_upt set_eq_iff_mset_eq_distinct by blast
  moreover have "inj_on ?f (set [0..<n])" by (auto simp: inj_on_def sort_rank_def)
  moreover have "sorted (map ?f ?ys)"
    by (auto simp: sorted_append sorted_group_idxs sort_rank_def [of fp flags fp]
        dest!: group_rank)
  ultimately show ?thesis
    unfolding sort_accounts_def by (metis sort_key_inj_key_eq)
qed

lemma sort_accounts_perm:
  "set (sort_accounts fp flags n) = {0..<n}" "distinct (sort_accounts fp flags n)"
  "length (sort_accounts fp flags n) = n"
  by (simp_all add: sort_accounts_def)

lemma table_keys_inj: "table_wf sys b \<Longrightarrow> inj_on (\<lambda>i. acct_keys b ! i) {0..<acct_count b}"
proof (rule inj_onI)
  fix x y assume wf: "table_wf sys b" and xy: "x \<in> {0..<acct_count b}" "y \<in> {0..<acct_count b}"
    "acct_keys b ! x = acct_keys b ! y"
  show "x = y"
    using xy find_account_Some [OF wf, of "acct_keys b ! x" x]
      find_account_Some [OF wf, of "acct_keys b ! x" y] by simp
qed

lemma table_key_eq_iff:
  "table_wf sys b \<Longrightarrow> a < acct_count b \<Longrightarrow> c < acct_count b \<Longrightarrow>
   acct_keys b ! a = acct_keys b ! c \<longleftrightarrow> a = c"
  using table_keys_inj [of sys b] by (auto simp: inj_on_def)

lemma filter_fp_unique:
  assumes wf: "table_wf sys b" and fp: "fp < acct_count b"
  shows "filter (\<lambda>a. acct_keys b ! a = acct_keys b ! fp) [0..<acct_count b] = [fp]"
proof -
  note inj = table_key_eq_iff [OF wf _ fp]
  have "filter (\<lambda>a. acct_keys b ! a = acct_keys b ! fp) [0..<acct_count b] =
      filter (\<lambda>a. a = fp) [0..<acct_count b]"
    by (rule filter_cong) (auto simp: inj)
  also have "\<dots> = [fp]"
  proof -
    have "[0..<acct_count b] = [0..<fp] @ fp # [Suc fp..<acct_count b]"
      using upt_add_eq_append [of 0 fp "acct_count b - fp"] fp by (simp add: upt_conv_Cons)
    moreover have "filter (\<lambda>a. a = fp) [0..<fp] = []" "filter (\<lambda>a. a = fp) [Suc fp..<acct_count b] = []"
      by (auto simp: filter_empty_conv)
    ultimately show ?thesis by simp
  qed
  finally show ?thesis .
qed

lemma group_idxs_abs:
  assumes wf: "table_wf sys b" and fp: "fp < acct_count b"
  shows "map (abs_acct b) (group_idxs fp (acct_flags b) (acct_count b) s w) =
    filter (\<lambda>(k, s', w'). k \<noteq> acct_keys b ! fp \<and> s' = s \<and> w' = w) (abs_accts b)"
proof -
  note inj = table_key_eq_iff [OF wf _ fp]
  have "filter (\<lambda>(k, s', w'). k \<noteq> acct_keys b ! fp \<and> s' = s \<and> w' = w) (abs_accts b) =
    map (abs_acct b) (filter (\<lambda>a. acct_keys b ! a \<noteq> acct_keys b ! fp \<and>
      signer_flag (acct_flags b ! a) = s \<and> writable_flag (acct_flags b ! a) = w)
      [0..<acct_count b])"
    by (simp add: abs_accts_def filter_map comp_def abs_acct_def)
  also have "\<dots> = map (abs_acct b) (group_idxs fp (acct_flags b) (acct_count b) s w)"
    unfolding group_idxs_def by (rule arg_cong [OF filter_cong]) (auto simp: inj)
  finally show ?thesis by simp
qed

lemma sort_accounts_abs:
  assumes wf: "table_wf sys b" and fp: "fp < acct_count b"
  shows "map (abs_acct b) (sort_accounts fp (acct_flags b) (acct_count b)) =
    compile_order (acct_keys b ! fp) (abs_accts b)"
proof -
  have "filter (\<lambda>(k, s, w). k = acct_keys b ! fp) (abs_accts b) = [abs_acct b fp]"
    using filter_fp_unique [OF assms]
    by (simp add: abs_accts_def filter_map comp_def abs_acct_def)
  then show ?thesis
    by (simp add: sort_accounts_groups [OF fp] compile_order_def group_idxs_abs [OF assms])
qed

subsection \<open>Header counts\<close>

definition n_signers :: "spec_acct list \<Rightarrow> nat" where
  "n_signers xs = length (filter (\<lambda>(k, s, w). s) xs)"

definition n_ro_signed :: "spec_acct list \<Rightarrow> nat" where
  "n_ro_signed xs = length (filter (\<lambda>(k, s, w). s \<and> \<not> w) xs)"

definition n_ro_unsigned :: "spec_acct list \<Rightarrow> nat" where
  "n_ro_unsigned xs = length (filter (\<lambda>(k, s, w). \<not> s \<and> \<not> w) xs)"

lemma count_header_eq:
  "count_header (acct_flags b) idxs (s, r, u) =
    (s + word_of_nat (n_signers (map (abs_acct b) idxs)),
     r + word_of_nat (n_ro_signed (map (abs_acct b) idxs)),
     u + word_of_nat (n_ro_unsigned (map (abs_acct b) idxs)))"
  by (induction idxs arbitrary: s r u)
    (auto simp: Let_def n_signers_def n_ro_signed_def n_ro_unsigned_def abs_acct_def
      signer_flag_def writable_flag_def)

lemma count_perm:
  "mset xs = mset ys \<Longrightarrow> length (filter P xs) = length (filter P ys)"
  by (metis mset_filter size_mset)

lemma mset_sort_accounts: "mset (sort_accounts fp flags n) = mset [0..<n]"
  by (simp add: sort_accounts_def)

lemma counts_sort_accounts:
  "n_signers (map (abs_acct b) (sort_accounts fp flags (acct_count b))) = n_signers (abs_accts b)"
  "n_ro_signed (map (abs_acct b) (sort_accounts fp flags (acct_count b))) = n_ro_signed (abs_accts b)"
  "n_ro_unsigned (map (abs_acct b) (sort_accounts fp flags (acct_count b))) =
    n_ro_unsigned (abs_accts b)"
proof -
  have "mset (map (abs_acct b) (sort_accounts fp flags (acct_count b))) = mset (abs_accts b)"
    by (simp add: abs_accts_def mset_sort_accounts)
  from count_perm [OF this] show
    "n_signers (map (abs_acct b) (sort_accounts fp flags (acct_count b))) = n_signers (abs_accts b)"
    "n_ro_signed (map (abs_acct b) (sort_accounts fp flags (acct_count b))) = n_ro_signed (abs_accts b)"
    "n_ro_unsigned (map (abs_acct b) (sort_accounts fp flags (acct_count b))) =
      n_ro_unsigned (abs_accts b)"
    unfolding n_signers_def n_ro_signed_def n_ro_unsigned_def by blast+
qed

section \<open>Serialisation\<close>

subsection \<open>Index remapping\<close>

lemma length_fill_remap [simp]: "length (fill_remap n idxs remap) = length remap"
  by (induction n idxs remap rule: fill_remap.induct) auto

lemma fill_remap_other: "i \<notin> set idxs \<Longrightarrow> fill_remap n idxs remap ! i = remap ! i"
  by (induction n idxs remap rule: fill_remap.induct) auto

lemma fill_remap_nth:
  "distinct idxs \<Longrightarrow> (\<forall>i \<in> set idxs. i < length remap) \<Longrightarrow> j < length idxs \<Longrightarrow>
   fill_remap n idxs remap ! (idxs ! j) = word_of_nat (n + j)"
proof (induction n idxs remap arbitrary: j rule: fill_remap.induct)
  case (2 n old olds remap)
  then show ?case by (cases j) (auto simp: fill_remap_other)
qed simp

text \<open>The index the message uses for an account is the position of its key in the order.\<close>

definition order_keys :: "builder \<Rightarrow> nat \<Rightarrow> pubkey list" where
  "order_keys b fp = map (\<lambda>i. acct_keys b ! i) (sort_accounts fp (acct_flags b) (acct_count b))"

definition remap_of :: "txn_sys \<Rightarrow> builder \<Rightarrow> nat \<Rightarrow> u8 list" where
  "remap_of sys b fp =
     fill_remap 0 (sort_accounts fp (acct_flags b) (acct_count b)) (replicate (ACCT_MAX sys) 0)"

lemma distinct_order_keys: "table_wf sys b \<Longrightarrow> distinct (order_keys b fp)"
  by (simp add: order_keys_def distinct_map sort_accounts_perm table_keys_inj)

lemma remap_position:
  assumes wf: "table_wf sys b" and i: "i < acct_count b"
  shows "remap_of sys b fp ! i = word_of_nat (position (acct_keys b ! i) (order_keys b fp))"
proof -
  let ?idxs = "sort_accounts fp (acct_flags b) (acct_count b)"
  have "i \<in> set ?idxs" using i by (simp add: sort_accounts_perm)
  then obtain j where j: "j < length ?idxs" "?idxs ! j = i" by (auto simp: in_set_conv_nth)
  have "remap_of sys b fp ! i = word_of_nat j"
    using fill_remap_nth [of ?idxs "replicate (ACCT_MAX sys) 0" j 0] j wf
    by (auto simp: remap_of_def sort_accounts_perm table_wf_def)
  moreover have "position (acct_keys b ! i) (order_keys b fp) = j"
    using position_eqI [OF distinct_order_keys [OF wf], of j fp] j
    by (simp add: order_keys_def)
  ultimately show ?thesis by simp
qed

subsection \<open>The steps of the serialiser\<close>

definition cu16_ok :: "txn_sys \<Rightarrow> bool" where
  "cu16_ok sys \<longleftrightarrow> (\<forall>v. 1 \<le> length (fd_cu16_enc sys v) \<and> length (fd_cu16_enc sys v) \<le> 3)"

abbreviation txn_state :: "txn_sys \<Rightarrow> bytes \<Rightarrow> bytes \<times> nat" where
  "txn_state sys \<equiv> buf_state (replicate (MTU sys) 0)"

abbreviation txn_emits ::
  "txn_sys \<Rightarrow> (bytes \<times> nat, build_error) res \<Rightarrow> bytes \<Rightarrow> bytes \<Rightarrow> bool" where
  "txn_emits sys \<equiv> emits (txn_state sys) (MTU sys) 2 TransactionTooLarge"

interpretation txn_out: emitter "put_bytes sys" "txn_state sys" "MTU sys" 0 TransactionTooLarge
  for sys
proof unfold_locales
  fix out bs :: bytes
  assume "length out \<le> MTU sys"
  then show "emits (txn_state sys) (MTU sys) 0 TransactionTooLarge
      (put_bytes sys (txn_state sys out) bs) out bs"
    by (auto simp: emits_def put_bytes_def buf_state_def copy_from_slice_def blit_def)
qed

lemma put_bytes_emits:
  "length out \<le> MTU sys \<Longrightarrow> txn_emits sys (put_bytes sys (txn_state sys out) bs) out bs"
  by (rule emits_slack_mono [OF txn_out.put_emits]) auto

lemma write_cu16_emits:
  assumes "cu16_ok sys" and "length out \<le> MTU sys"
  shows "txn_emits sys (write_cu16 sys (txn_state sys out) v) out (fd_cu16_enc sys v)"
proof -
  have "1 \<le> length (fd_cu16_enc sys v)" "length (fd_cu16_enc sys v) \<le> 3"
    using assms(1) by (auto simp: cu16_ok_def)
  then show ?thesis
    using assms(2)
    by (auto simp: emits_def write_cu16_def buf_state_def copy_from_slice_def blit_def Let_def)
qed

lemma put_keys_emits:
  assumes "\<forall>i \<in> set idxs. i < length keys" and "length out \<le> MTU sys"
  shows "txn_emits sys (put_keys sys keys idxs (txn_state sys out)) out
    (concat (map (\<lambda>i. keys ! i) idxs))"
  using assms
proof (induction idxs arbitrary: out)
  case Nil
  then show ?case by (simp add: emits_return)
next
  case (Cons i idxs)
  have "txn_emits sys (res_bind (put_bytes sys (txn_state sys out) (keys ! i))
      (put_keys sys keys idxs)) out (keys ! i @ concat (map (\<lambda>i. keys ! i) idxs))"
    by (rule emits_bind [OF put_bytes_emits]) (use Cons in auto)
  then show ?case using Cons.prems by (simp add: index_def)
qed

lemma put_acct_refs_eq:
  assumes "\<forall>j \<in> set js. j < length abuf \<and> unat (abuf ! j) < length remap"
    and "length out + length js \<le> MTU sys"
  shows "put_acct_refs remap abuf js (txn_state sys out) =
    Ok (txn_state sys (out @ map (\<lambda>j. remap ! unat (abuf ! j)) js))"
  using assms
proof (induction js arbitrary: out)
  case Nil
  then show ?case by simp
next
  case (Cons j js)
  have "put_acct_refs remap abuf js (txn_state sys (out @ [remap ! unat (abuf ! j)])) =
    Ok (txn_state sys ((out @ [remap ! unat (abuf ! j)]) @ map (\<lambda>j. remap ! unat (abuf ! j)) js))"
    by (rule Cons.IH) (use Cons.prems in auto)
  then show ?case
    using Cons.prems by (simp add: buf_state_def index_def copy_from_slice_def blit_def)
qed

subsection \<open>Instructions\<close>

definition wire_ix :: "(u16 \<Rightarrow> bytes) \<Rightarrow> pubkey list \<Rightarrow> pubkey \<times> pubkey list \<times> bytes \<Rightarrow> bytes" where
  "wire_ix enc keys = (\<lambda>(prog, accts, d).
     [word_of_nat (position prog keys)] @
     enc (word_of_nat (length accts)) @ map (\<lambda>a. word_of_nat (position a keys)) accts @
     enc (word_of_nat (length d)) @ d)"

text \<open>The three parts of an instruction entry, as indices and slices of the builder's buffers.\<close>

definition entry_refs :: "builder \<Rightarrow> instr_entry \<Rightarrow> bytes" where
  "entry_refs b e = take (unat (acct_cnt e)) (drop (unat (acct_off e)) (instr_acct_buf b))"

definition entry_data :: "builder \<Rightarrow> instr_entry \<Rightarrow> bytes" where
  "entry_data b e = take (unat (data_len e)) (drop (unat (data_off e)) (instr_data_buf b))"

lemma entry_bounds:
  assumes "builder_wf sys b" and "entry_wf b e"
  shows "unat (acct_off e) + unat (acct_cnt e) \<le> length (instr_acct_buf b)"
    and "unat (data_off e) + unat (data_len e) \<le> length (instr_data_buf b)"
    and "length (entry_refs b e) = unat (acct_cnt e)"
    and "length (entry_data b e) = unat (data_len e)"
    and "unat (program_idx e) < acct_count b"
  using assms by (auto simp: entry_wf_def builder_wf_defs entry_refs_def entry_data_def)

lemma entry_refs_bound:
  assumes wf: "builder_wf sys b" and e: "entry_wf b e" and x: "x \<in> set (entry_refs b e)"
  shows "unat x < acct_count b"
proof -
  have "entry_refs b e = take (unat (acct_cnt e)) (drop (unat (acct_off e))
      (take (instr_acct_len b) (instr_acct_buf b)))"
    using e by (auto simp: entry_refs_def entry_wf_def drop_take min_def)
  then have "x \<in> set (take (instr_acct_len b) (instr_acct_buf b))"
    using x by (metis in_set_dropD in_set_takeD)
  then show ?thesis using wf by (auto simp: builder_wf_def refs_wf_def)
qed

lemma entry_refs_map:
  assumes "builder_wf sys b" and "entry_wf b e"
  shows "map (\<lambda>j. instr_acct_buf b ! j)
    [unat (acct_off e)..<unat (acct_off e) + unat (acct_cnt e)] = entry_refs b e"
  unfolding entry_refs_def by (rule map_nth_range [OF entry_bounds(1) [OF assms]])

lemma put_instr_data_emits:
  assumes cu: "cu16_ok sys" and wf: "builder_wf sys b" and e: "entry_wf b e"
    and out: "length out \<le> MTU sys"
  shows "txn_emits sys (put_instr_data sys b e (txn_state sys out)) out
    (fd_cu16_enc sys (data_len e) @ entry_data b e)"
  unfolding put_instr_data_def
proof (rule emits_bind [OF write_cu16_emits [OF cu out]])
  let ?o = "out @ fd_cu16_enc sys (data_len e)"
  assume "length ?o \<le> MTU sys"
  from put_bytes_emits [OF this, of "entry_data b e"] show "txn_emits sys
      (let data_start = unat (data_off e); data_end = data_start + unat (data_len e)
       in if MTU sys < snd (txn_state sys ?o) + unat (data_len e) then Err TransactionTooLarge
          else res_bind (slice (instr_data_buf b) data_start data_end)
            (put_bytes sys (txn_state sys ?o))) ?o (entry_data b e)"
    using entry_bounds [OF wf e]
    by (auto simp: Let_def slice_def entry_data_def [symmetric] emits_def buf_state_def)
qed

lemma put_instr_accts_emits:
  assumes cu: "cu16_ok sys" and wf: "builder_wf sys b" and e: "entry_wf b e"
    and out: "length out \<le> MTU sys" and remap: "length remap = ACCT_MAX sys"
  shows "txn_emits sys (put_instr_accts sys b remap e (txn_state sys out)) out
    (fd_cu16_enc sys (acct_cnt e) @ map (\<lambda>x. remap ! unat x) (entry_refs b e))"
  unfolding put_instr_accts_def
proof (rule emits_bind [OF write_cu16_emits [OF cu out]])
  let ?o = "out @ fd_cu16_enc sys (acct_cnt e)"
  let ?js = "[unat (acct_off e)..<unat (acct_off e) + unat (acct_cnt e)]"
  have refs: "map (\<lambda>x. remap ! unat x) (entry_refs b e) =
      map (\<lambda>j. remap ! unat (instr_acct_buf b ! j)) ?js"
    using arg_cong [OF entry_refs_map [OF wf e], of "map (\<lambda>x. remap ! unat x)"] by (simp add: comp_def)
  have "instr_acct_buf b ! j \<in> set (entry_refs b e)" if "j \<in> set ?js" for j
    using that entry_refs_map [OF wf e] by (metis image_eqI list.set_map)
  moreover have "acct_count b \<le> ACCT_MAX sys" using wf by (simp add: builder_wf_defs)
  ultimately have "\<forall>j \<in> set ?js. j < length (instr_acct_buf b) \<and>
      unat (instr_acct_buf b ! j) < length remap"
    using entry_refs_bound [OF wf e] entry_bounds(1) [OF wf e] remap by fastforce
  from put_acct_refs_eq [OF this, of ?o sys] refs show "txn_emits sys
      (let acct_start = unat (acct_off e); acct_end = acct_start + unat (acct_cnt e)
       in if MTU sys < snd (txn_state sys ?o) + unat (acct_cnt e) then Err TransactionTooLarge
          else put_acct_refs remap (instr_acct_buf b) [acct_start..<acct_end] (txn_state sys ?o))
      ?o (map (\<lambda>x. remap ! unat x) (entry_refs b e))"
    by (auto simp: Let_def emits_def buf_state_def)
qed

lemma wire_ix_entry:
  assumes wf: "builder_wf sys b" and e: "entry_wf b e"
  shows "wire_ix enc (order_keys b fp) (abs_entry b e) =
    [remap_of sys b fp ! unat (program_idx e)] @
    (enc (acct_cnt e) @ map (\<lambda>x. remap_of sys b fp ! unat x) (entry_refs b e)) @
    (enc (data_len e) @ entry_data b e)"
proof -
  have t: "table_wf sys b" using wf by (simp add: builder_wf_def)
  have pos: "remap_of sys b fp ! unat x =
      word_of_nat (position (table_keys b ! unat x) (order_keys b fp))"
    if "unat x < acct_count b" for x :: u8
    using remap_position [OF t that] that by (simp add: table_keys_nth)
  have "abs_entry b e = (table_keys b ! unat (program_idx e),
      map (\<lambda>x. table_keys b ! unat x) (entry_refs b e), entry_data b e)"
    by (simp add: abs_entry_def entry_refs_def entry_data_def)
  then show ?thesis
    using entry_bounds(3-5) [OF wf e] entry_refs_bound [OF wf e]
    by (simp add: wire_ix_def pos)
qed

lemma put_instr_emits:
  assumes cu: "cu16_ok sys" and wf: "builder_wf sys b" and e: "entry_wf b e"
    and out: "length out \<le> MTU sys"
  shows "txn_emits sys (put_instr sys b (remap_of sys b fp) e (txn_state sys out)) out
    (wire_ix (fd_cu16_enc sys) (order_keys b fp) (abs_entry b e))"
proof -
  let ?remap = "remap_of sys b fp"
  have len: "length ?remap = ACCT_MAX sys" by (simp add: remap_of_def)
  have "unat (program_idx e) < length ?remap"
    using entry_bounds(5) [OF wf e] wf len by (simp add: builder_wf_defs)
  then have eq: "put_instr sys b ?remap e (txn_state sys out) =
      res_bind (put_bytes sys (txn_state sys out) [?remap ! unat (program_idx e)]) (\<lambda>st1.
      res_bind (put_instr_accts sys b ?remap e st1) (put_instr_data sys b e))"
    if "length out < MTU sys"
    using that by (simp add: put_instr_def index_def buf_state_def)
  show ?thesis
  proof (cases "length out < MTU sys")
    case True
    show ?thesis
      unfolding eq [OF True] wire_ix_entry [OF wf e]
      by (intro emits_bind [OF put_bytes_emits] emits_bind [OF put_instr_accts_emits [OF cu wf e]]
          put_instr_data_emits [OF cu wf e]) (use out len in auto)
  next
    case False
    then show ?thesis
      by (simp add: put_instr_def emits_def buf_state_def wire_ix_entry [OF wf e])
  qed
qed

lemma put_instrs_emits:
  assumes cu: "cu16_ok sys" and wf: "builder_wf sys b"
    and "\<forall>i \<in> set is. i < instr_count b" and "length out \<le> MTU sys"
  shows "txn_emits sys (put_instrs sys b (remap_of sys b fp) is (txn_state sys out)) out
    (concat (map (\<lambda>i. wire_ix (fd_cu16_enc sys) (order_keys b fp) (abs_entry b (instrs b ! i))) is))"
  using assms(3,4)
proof (induction "is" arbitrary: out)
  case Nil
  then show ?case by (simp add: emits_return)
next
  case (Cons i "is")
  have len: "instr_count b \<le> length (instrs b)" using wf by (simp add: builder_wf_defs)
  then have "instrs b ! i \<in> set (take (instr_count b) (instrs b))"
    using Cons.prems by (auto simp: in_set_conv_nth intro!: exI [of _ i])
  then have e: "entry_wf b (instrs b ! i)" using wf by (auto simp: builder_wf_def refs_wf_def)
  have "txn_emits sys (res_bind (put_instr sys b (remap_of sys b fp) (instrs b ! i)
      (txn_state sys out)) (put_instrs sys b (remap_of sys b fp) is)) out
    (wire_ix (fd_cu16_enc sys) (order_keys b fp) (abs_entry b (instrs b ! i)) @
     concat (map (\<lambda>i. wire_ix (fd_cu16_enc sys) (order_keys b fp) (abs_entry b (instrs b ! i))) is))"
    by (rule emits_bind [OF put_instr_emits [OF cu wf e]]) (use Cons in auto)
  then show ?case using Cons.prems len by (simp add: index_def)
qed

subsection \<open>The message\<close>

definition wire_message :: "(u16 \<Rightarrow> bytes) \<Rightarrow> pubkey \<Rightarrow> bytes \<Rightarrow> txn_spec \<Rightarrow> bytes" where
  "wire_message enc fp bh s =
     (let order = compile_order fp (sp_accts s); keys = map fst order
      in (if sp_version s = V0 then [0x80] else []) @
         [word_of_nat (n_signers order), word_of_nat (n_ro_signed order),
          word_of_nat (n_ro_unsigned order)] @
         enc (word_of_nat (length order)) @ concat keys @ bh @
         enc (word_of_nat (length (sp_ixs s))) @ concat (map (wire_ix enc keys) (sp_ixs s)) @
         (if sp_version s = V0 then enc 0 else []))"

text \<open>A transaction whose signatures are still zero: their count, their slots, the message.\<close>

definition wire_txn :: "(u16 \<Rightarrow> bytes) \<Rightarrow> nat \<Rightarrow> pubkey \<Rightarrow> bytes \<Rightarrow> txn_spec \<Rightarrow> bytes" where
  "wire_txn enc sig_sz fp bh s =
     enc (word_of_nat (n_signers (sp_accts s))) @
     replicate (n_signers (sp_accts s) * sig_sz) 0 @ wire_message enc fp bh s"

lemma fst_abs_acct [simp]: "fst (abs_acct b i) = acct_keys b ! i"
  by (simp add: abs_acct_def)

lemma put_message_emits:
  assumes cu: "cu16_ok sys" and wf: "builder_wf sys b" and fp: "fp < acct_count b"
    and out: "length out \<le> MTU sys"
  defines "idxs \<equiv> sort_accounts fp (acct_flags b) (acct_count b)"
  shows "txn_emits sys
    (put_message sys b bh idxs (count_header (acct_flags b) idxs (0, 0, 0)) (txn_state sys out)) out
    (wire_message (fd_cu16_enc sys) (acct_keys b ! fp) bh (builder_abs b))"
proof -
  let ?enc = "fd_cu16_enc sys" and ?order = "compile_order (acct_keys b ! fp) (abs_accts b)"
  have t: "table_wf sys b" using wf by (simp add: builder_wf_def)
  have order: "map (abs_acct b) idxs = ?order"
    unfolding idxs_def by (rule sort_accounts_abs [OF t fp])
  then have keys: "map fst ?order = order_keys b fp"
    by (metis (no_types, lifting) comp_def fst_abs_acct idxs_def list.map_comp map_cong
        order_keys_def)
  have lo: "length ?order = acct_count b"
    using arg_cong [OF order, of length] by (simp add: idxs_def sort_accounts_perm)
  have counts: "count_header (acct_flags b) idxs (0, 0, 0) =
      (word_of_nat (n_signers ?order), word_of_nat (n_ro_signed ?order),
       word_of_nat (n_ro_unsigned ?order))"
    by (simp add: count_header_eq order)
  have remap: "fill_remap 0 idxs (replicate (ACCT_MAX sys) 0) = remap_of sys b fp"
    by (simp add: remap_of_def idxs_def)
  have bnd: "\<forall>i \<in> set idxs. i < length (acct_keys b)"
    using t by (auto simp: idxs_def sort_accounts_perm table_wf_def)
  have ks: "concat (map (\<lambda>i. acct_keys b ! i) idxs) = concat (order_keys b fp)"
    by (simp add: order_keys_def idxs_def)
  have ic: "instr_count b \<le> length (instrs b)" using wf by (simp add: builder_wf_defs)
  have ixs: "map (\<lambda>i. wire_ix ?enc (order_keys b fp) (abs_entry b (instrs b ! i)))
      [0..<instr_count b] = map (wire_ix ?enc (order_keys b fp)) (sp_ixs (builder_abs b))"
    using ic by (auto simp: builder_abs_def intro!: nth_equalityI)
  have li: "length (sp_ixs (builder_abs b)) = instr_count b"
    using ic by (simp add: builder_abs_def)
  have flag: "txn_emits sys (if txn_version b = V0 then put_bytes sys (txn_state sys out) [0x80]
      else Ok (txn_state sys out)) out (if txn_version b = V0 then [0x80] else [])"
    using out by (simp add: put_bytes_emits emits_return)
  have last: "txn_emits sys (if txn_version b = V0 then write_cu16 sys (txn_state sys o1) 0
      else Ok (txn_state sys o1)) o1 (if txn_version b = V0 then ?enc 0 else [])"
    if "length o1 \<le> MTU sys" for o1
    using that by (simp add: write_cu16_emits [OF cu] emits_return)
  have wire: "wire_message ?enc (acct_keys b ! fp) bh (builder_abs b) =
      (if txn_version b = V0 then [0x80] else []) @
      [word_of_nat (n_signers ?order), word_of_nat (n_ro_signed ?order),
       word_of_nat (n_ro_unsigned ?order)] @
      ?enc (word_of_nat (acct_count b)) @ concat (map (\<lambda>i. acct_keys b ! i) idxs) @ bh @
      ?enc (word_of_nat (instr_count b)) @
      concat (map (\<lambda>i. wire_ix ?enc (order_keys b fp) (abs_entry b (instrs b ! i)))
        [0..<instr_count b]) @
      (if txn_version b = V0 then ?enc 0 else [])"
    unfolding wire_message_def Let_def li ixs ks
    by (simp add: builder_abs_def lo keys)
  show ?thesis
    unfolding wire counts put_message_def Let_def remap prod.case
    by (intro emits_bind [OF flag] emits_bind [OF put_bytes_emits]
        emits_bind [OF write_cu16_emits [OF cu]] emits_bind [OF put_keys_emits [OF bnd]]
        emits_bind [OF put_instrs_emits [OF cu wf]] last) auto
qed

lemma n_signers_bound: "n_signers xs \<le> length xs"
  by (simp add: n_signers_def)

lemma length_abs_accts [simp]: "length (abs_accts b) = acct_count b"
  by (simp add: abs_accts_def)

lemma buf_state_skip:
  "length out + k \<le> M \<Longrightarrow>
   (fst (buf_state (replicate M 0) out), length out + k) =
     buf_state (replicate M 0) (out @ replicate k 0)"
  by (simp add: buf_state_def flip: replicate_add)

lemma snd_buf_state [simp]: "snd (buf_state buf0 out) = length out"
  by (simp add: buf_state_def)

section \<open>What build returns\<close>

text \<open>The unsigned transaction whose bytes are \<open>w\<close>.\<close>

definition unsigned_of :: "txn_sys \<Rightarrow> nat \<Rightarrow> bytes \<Rightarrow> unsigned_transaction" where
  "unsigned_of sys n w =
     (let sig_off = length (fd_cu16_enc sys (word_of_nat n))
      in \<lparr>ut_buf = w @ replicate (MTU sys - length w) 0, ut_len = length w,
          ut_sig_count = word_of_nat n, ut_sig_off = sig_off,
          ut_message_off = sig_off + n * SIG_SZ sys\<rparr>)"

lemma payer_in_table:
  assumes wf: "builder_wf sys b" and fp: "fee_payer b = Some k"
  obtains i where "find_account b k = Some i" and "i < acct_count b" and "acct_keys b ! i = k"
    and "signer_flag (acct_flags b ! i)" and "writable_flag (acct_flags b ! i)"
proof -
  have t: "table_wf sys b" using wf by (simp add: builder_wf_def)
  from wf fp obtain i where "i < acct_count b" "acct_keys b ! i = k"
    "signer_flag (acct_flags b ! i)" "writable_flag (acct_flags b ! i)"
    by (auto simp: builder_wf_def payer_wf_def)
  then show ?thesis using that find_account_Some [OF t, of k i] by blast
qed

lemma n_signers_pos:
  assumes "i < acct_count b" and "signer_flag (acct_flags b ! i)"
  shows "0 < n_signers (abs_accts b)"
proof -
  have "abs_acct b i \<in> set (filter (\<lambda>(k, s, w). s) (abs_accts b))"
    using assms by (auto simp: abs_accts_def abs_acct_def)
  then show ?thesis unfolding n_signers_def by (rule length_pos_if_in_set)
qed

lemma finish_build_cases:
  fixes h :: bytes
  assumes cu: "cu16_ok sys" and wf: "builder_wf sys b" and i: "i < acct_count b"
    and n: "n < 256" and "length enc \<le> MTU sys"
    and sig: "fst (count_header (acct_flags b) (sort_accounts i (acct_flags b) (acct_count b))
      (0, 0, 0)) = word_of_nat n"
    and enc: "enc = fd_cu16_enc sys (word_of_nat n)"
  defines "w \<equiv> (enc @ replicate (n * SIG_SZ sys) 0) @
      wire_message (fd_cu16_enc sys) (acct_keys b ! i) h (builder_abs b)"
    and "r \<equiv> finish_build sys b h (sort_accounts i (acct_flags b) (acct_count b))
      (count_header (acct_flags b) (sort_accounts i (acct_flags b) (acct_count b)) (0, 0, 0))
      (txn_state sys enc)"
  shows "r = (if fd_txn_parse_core sys w = 0 then Err ValidationFailed
              else Ok (unsigned_of sys n w)) \<and> length w \<le> MTU sys \<or>
    r = Err TransactionTooLarge \<and> MTU sys < length w + 2"
proof -
  let ?idxs = "sort_accounts i (acct_flags b) (acct_count b)"
  let ?counts = "count_header (acct_flags b) ?idxs (0, 0, 0)"
  let ?o = "enc @ replicate (n * SIG_SZ sys) 0"
  have u: "unat (word_of_nat n :: u8) = n" using n by (simp add: unat_of_nat take_bit_nat_eq_self)
  show ?thesis
  proof (cases "length ?o \<le> MTU sys")
    case True
    have r: "r = res_bind (put_message sys b h ?idxs ?counts (txn_state sys ?o)) (\<lambda>(buf, len).
          res_bind (validate sys buf len) (\<lambda>_.
          Ok \<lparr>ut_buf = buf, ut_len = len, ut_sig_count = word_of_nat n,
              ut_sig_off = length enc, ut_message_off = length enc + n * SIG_SZ sys\<rparr>))"
      using True buf_state_skip [of enc "n * SIG_SZ sys" "MTU sys"]
      by (simp add: r_def finish_build_def sig u buf_state_def Let_def)
    consider "put_message sys b h ?idxs ?counts (txn_state sys ?o) = Ok (txn_state sys w)"
        "length w \<le> MTU sys"
      | "put_message sys b h ?idxs ?counts (txn_state sys ?o) = Err TransactionTooLarge"
        "MTU sys < length w + 2"
      using put_message_emits [OF cu wf i True, of h] unfolding emits_def w_def by blast
    then show ?thesis
      by cases (simp_all add: r buf_state_def validate_def unsigned_of_def Let_def enc)
  next
    case False
    then show ?thesis by (simp add: r_def finish_build_def sig u buf_state_def w_def)
  qed
qed

lemma build_cases:
  assumes lim: "limits_ok sys" and cu: "cu16_ok sys" and wf: "builder_wf sys b"
    and fp: "fee_payer b = Some k" and bh: "blockhash b = Some h" and ic: "instr_count b \<noteq> 0"
  defines "n \<equiv> n_signers (abs_accts b)"
    and "w \<equiv> wire_txn (fd_cu16_enc sys) (SIG_SZ sys) k h (builder_abs b)"
  shows "builder_build sys b =
      (if n > SIG_MAX sys then Err TooManySigners
       else if fd_txn_parse_core sys w = 0 then Err ValidationFailed
       else Ok (unsigned_of sys n w)) \<and> (n \<le> SIG_MAX sys \<longrightarrow> length w \<le> MTU sys) \<or>
    builder_build sys b = Err TransactionTooLarge \<and> n \<le> SIG_MAX sys \<and> MTU sys < length w + 2"
proof -
  obtain i where i: "find_account b k = Some i" "i < acct_count b" "acct_keys b ! i = k"
    "signer_flag (acct_flags b ! i)" using payer_in_table [OF wf fp] by metis
  let ?idxs = "sort_accounts i (acct_flags b) (acct_count b)"
  let ?counts = "count_header (acct_flags b) ?idxs (0, 0, 0)"
  let ?enc = "fd_cu16_enc sys (word_of_nat n)"
  have n: "0 < n" "n < 256"
    using n_signers_pos [OF i(2,4)] n_signers_bound [of "abs_accts b"] lim wf
    by (auto simp: n_def limits_ok_def builder_wf_defs)
  have sig: "fst ?counts = (word_of_nat n :: u8)"
    by (simp add: count_header_eq counts_sort_accounts n_def)
  have u: "unat (word_of_nat n :: u8) = n" using n(2)
    by (simp add: unat_of_nat take_bit_nat_eq_self)
  have nz: "(word_of_nat n :: u8) \<noteq> 0" using u n(1) by force
  have uc: "ucast (word_of_nat n :: u8) = (word_of_nat n :: u16)"
    using n(2) by (simp add: unsigned_of_nat take_bit_nat_eq_self)
  have w: "w = (?enc @ replicate (n * SIG_SZ sys) 0) @
      wire_message (fd_cu16_enc sys) (acct_keys b ! i) h (builder_abs b)"
    by (simp add: w_def wire_txn_def n_def builder_abs_def i(3))
  have bld: "builder_build sys b = (if n > SIG_MAX sys then Err TooManySigners else
      res_bind (write_cu16 sys (txn_state sys []) (word_of_nat n))
        (finish_build sys b h ?idxs ?counts))"
    using fp bh ic i(1) nz by (simp add: builder_build_def Let_def sig u uc)
  have "emits (txn_state sys) (MTU sys) 2 TransactionTooLarge
      (write_cu16 sys (txn_state sys []) (word_of_nat n)) [] ?enc"
    by (rule write_cu16_emits [OF cu]) simp
  then show ?thesis
    using finish_build_cases [OF cu wf i(2) n(2) _ sig refl, of h]
    by (auto simp: emits_def bld w)
qed

subsection \<open>The header describes the order\<close>

text \<open>
  How a reader of the message tells privileges from positions: the first \<open>sig\<close> accounts
  sign, the last \<open>ros\<close> of these and the last \<open>rou\<close> of all are read-only.
\<close>

definition header_signer :: "nat \<Rightarrow> nat \<Rightarrow> bool" where
  "header_signer sig i \<longleftrightarrow> i < sig"

definition header_writable :: "nat \<Rightarrow> nat \<Rightarrow> nat \<Rightarrow> nat \<Rightarrow> nat \<Rightarrow> bool" where
  "header_writable sig ros rou n i \<longleftrightarrow> i < sig - ros \<or> sig \<le> i \<and> i < n - rou"

lemma grouped_header:
  fixes A B C D :: "spec_acct list"
  assumes "\<forall>x \<in> set A. fst (snd x) \<and> snd (snd x)" and "\<forall>x \<in> set B. fst (snd x) \<and> \<not> snd (snd x)"
    and "\<forall>x \<in> set C. \<not> fst (snd x) \<and> snd (snd x)" and "\<forall>x \<in> set D. \<not> fst (snd x) \<and> \<not> snd (snd x)"
    and i: "i < length (A @ B @ C @ D)"
  defines "xs \<equiv> A @ B @ C @ D"
  shows "fst (snd (xs ! i)) = header_signer (n_signers xs) i"
    and "snd (snd (xs ! i)) =
      header_writable (n_signers xs) (n_ro_signed xs) (n_ro_unsigned xs) (length xs) i"
proof -
  have none: "filter P ys = []" if "\<forall>x \<in> set ys. \<not> P x" for P and ys :: "spec_acct list"
    using that by (simp add: filter_empty_conv)
  have cnt: "n_signers xs = length A + length B" "n_ro_signed xs = length B"
    "n_ro_unsigned xs = length D"
    using assms(1-4)
    by (auto simp: xs_def n_signers_def n_ro_signed_def n_ro_unsigned_def case_prod_beta
        intro!: none)
  show "fst (snd (xs ! i)) = header_signer (n_signers xs) i"
    "snd (snd (xs ! i)) =
      header_writable (n_signers xs) (n_ro_signed xs) (n_ro_unsigned xs) (length xs) i"
    unfolding header_signer_def header_writable_def cnt
    using assms(1-4) i by (auto simp: xs_def nth_append)
qed

end
