(* ===== verification/Txn_Properties.thy ===== *)
theory Txn_Properties
  imports Txn_Build Compact_U16
begin

text \<open>
  The properties of the transaction builder, with a concrete instance of the bindings
  (\<open>sample_sys\<close>: the documented compact-u16 format, limits of a few accounts) on which
  their hypotheses hold.
\<close>

section \<open>A concrete instance\<close>

definition sample_sys :: txn_sys where
  "sample_sys = \<lparr>ACCT_MAX = 4, INSTR_MAX = 2, MTU = 240, SIG_MAX = 1, SIG_SZ = 64,
     fd_cu16_enc = cu16_format, fd_txn_parse_core = length\<rparr>"

definition key1 :: pubkey where "key1 = replicate 32 1"
definition key2 :: pubkey where "key2 = replicate 32 2"
definition key3 :: pubkey where "key3 = replicate 32 3"

definition sample_ix :: instruction_buf where
  "sample_ix = \<lparr>program_id = key3,
     accounts = [\<lparr>meta_pubkey = key2, is_signer = False, is_writable = True\<rparr>],
     ix_data = [7, 8]\<rparr>"

definition sample_ops :: "builder_op list" where
  "sample_ops = [OpAddInstruction sample_ix, OpFeePayer key1, OpBlockhash (replicate 32 9)]"

definition sample_builder :: builder where
  "sample_builder = snd (run_ops sample_sys sample_ops (builder_new sample_sys))"

lemma sample_sys_fields:
  "fd_cu16_enc sample_sys = cu16_format" "SIG_SZ sample_sys = 64" "MTU sample_sys = 240"
  "fd_txn_parse_core sample_sys = length"
  by (simp_all add: sample_sys_def)

lemma sample_limits: "limits_ok sample_sys"
  by (simp add: limits_ok_def sample_sys_def)

lemma sample_cu16: "cu16_ok sample_sys"
  using cu16_format_length by (simp add: cu16_ok_def sample_sys_def)

lemma sample_run: "run_ops sample_sys sample_ops (builder_new sample_sys) = (Ok (), sample_builder)"
proof -
  have "fst (run_ops sample_sys sample_ops (builder_new sample_sys)) = Ok ()" by code_simp
  then show ?thesis by (simp add: sample_builder_def prod_eq_iff)
qed

lemma run_ops_reachable:
  "builder_reachable sys b \<Longrightarrow> run_ops sys xs b = (r, b') \<Longrightarrow> builder_reachable sys b'"
proof (induction xs arbitrary: b)
  case (Cons x xs)
  obtain r1 b1 where step: "builder_step sys x b = (r1, b1)" by fastforce
  then have "builder_reachable sys b1"
    using Cons.prems(1) by (cases x) (auto intro: builder_reachable.intros)
  then show ?case using Cons.IH Cons.prems(2) step by (auto split: res.splits)
qed simp

lemma sample_reachable: "builder_reachable sample_sys sample_builder"
  by (rule run_ops_reachable [OF reach_new sample_run])

definition sample_spec :: txn_spec where
  "sample_spec = fold spec_step sample_ops spec_empty"

definition sample_wire :: bytes where
  "sample_wire = wire_txn cu16_format 64 key1 (replicate 32 9) sample_spec"

lemma sample_wire_length: "length sample_wire = 204"
  by code_simp

section \<open>Facts about the specification\<close>

lemma run_new_refines:
  assumes "limits_ok sys" and "run_ops sys xs (builder_new sys) = (Ok u, b)"
  shows "builder_wf sys b" and "builder_abs b = fold spec_step xs spec_empty"
  using assms run_ops_wf [OF assms(1) builder_new_wf] run_ops_refines [OF assms(1) builder_new_wf]
  by (auto simp: abs_new)

lemma abs_wf_accts:
  assumes "builder_wf sys b"
  shows "distinct (map fst (sp_accts (builder_abs b)))"
  using assms by (auto simp: builder_abs_def builder_wf_def table_wf_def fst_abs_accts)

lemma builder_abs_simps [simp]:
  "sp_accts (builder_abs b) = abs_accts b" "sp_fee_payer (builder_abs b) = fee_payer b"
  "sp_blockhash (builder_abs b) = blockhash b" "sp_version (builder_abs b) = txn_version b"
  "length (sp_ixs (builder_abs b)) = min (length (instrs b)) (instr_count b)"
  by (auto simp: builder_abs_def)

text \<open>The bytes and the message of the transaction \<open>build\<close> returns.\<close>

lemma unsigned_of_bytes:
  assumes "length w \<le> MTU sys" and "n < 256"
    and w: "w = fd_cu16_enc sys (word_of_nat n) @ replicate (n * SIG_SZ sys) 0 @ m"
  shows "as_bytes (unsigned_of sys n w) = w" and "message_bytes (unsigned_of sys n w) = m"
    and "signature_count (unsigned_of sys n w) = n"
  using assms(1,2)
  by (simp_all add: unsigned_of_def as_bytes_def message_bytes_def signature_count_def Let_def w
      unat_of_nat take_bit_nat_eq_self)

lemma build_OkE:
  assumes lim: "limits_ok sys" and cu: "cu16_ok sys" and wf: "builder_wf sys b"
    and ok: "builder_build sys b = Ok u"
  obtains k h where "fee_payer b = Some k" and "blockhash b = Some h" and "instr_count b \<noteq> 0"
    and "u = unsigned_of sys (n_signers (abs_accts b))
      (wire_txn (fd_cu16_enc sys) (SIG_SZ sys) k h (builder_abs b))"
    and "n_signers (abs_accts b) \<le> SIG_MAX sys" and "n_signers (abs_accts b) < 256"
    and "length (wire_txn (fd_cu16_enc sys) (SIG_SZ sys) k h (builder_abs b)) \<le> MTU sys"
    and "fd_txn_parse_core sys
      (wire_txn (fd_cu16_enc sys) (SIG_SZ sys) k h (builder_abs b)) \<noteq> 0"
proof -
  from ok obtain k h where k: "fee_payer b = Some k" and h: "blockhash b = Some h"
    and ic: "instr_count b \<noteq> 0"
    by (auto simp: builder_build_def res_simps split: if_splits)
  have "n_signers (abs_accts b) < 256"
    using n_signers_bound [of "abs_accts b"] lim wf by (auto simp: limits_ok_def builder_wf_defs)
  then show ?thesis
    using that [OF k h ic] build_cases [OF lim cu wf k h ic] ok by (auto split: if_splits)
qed

lemma payer_in_spec:
  assumes "builder_wf sys b" and "fee_payer b = Some k"
  shows "(k, True, True) \<in> set (sp_accts (builder_abs b))"
proof -
  obtain i where "i < acct_count b" "acct_keys b ! i = k"
    "signer_flag (acct_flags b ! i)" "writable_flag (acct_flags b ! i)"
    by (rule payer_in_table [OF assms])
  then show ?thesis by (auto simp: abs_accts_def abs_acct_def intro!: image_eqI [of _ _ i])
qed

lemma filter_key_unique:
  "distinct (map fst xs) \<Longrightarrow> (k, p) \<in> set xs \<Longrightarrow> filter (\<lambda>(k', s, w). k' = k) xs = [(k, p)]"
proof (induction xs)
  case (Cons x xs)
  then show ?case
    by (cases "x = (k, p)") (auto simp: filter_empty_conv rev_image_eqI split: prod.splits)
qed simp

lemma compile_order_mset: "mset (compile_order k xs) = mset xs"
  by (induction xs) (auto simp: compile_order_def)

text \<open>The order lists each key once, starts with the payer, and its header counts describe it.\<close>

lemma compile_order_facts:
  assumes dist: "distinct (map fst xs)" and payer: "(k, True, True) \<in> set xs"
  defines "order \<equiv> compile_order k xs"
  shows "distinct (map fst order)" and "mset order = mset xs" and "fst (order ! 0) = k"
    and "i < length order \<Longrightarrow> header_signer (n_signers order) i = fst (snd (order ! i))"
    and "i < length order \<Longrightarrow> header_writable (n_signers order) (n_ro_signed order)
      (n_ro_unsigned order) (length order) i = snd (snd (order ! i))"
proof -
  let ?g = "\<lambda>s' w'. filter (\<lambda>(k', s, w). k' \<noteq> k \<and> s = s' \<and> w = w') xs"
  have eq: "order = ((k, True, True) # ?g True True) @ ?g True False @ ?g False True @ ?g False False"
    using filter_key_unique [OF dist payer] by (simp add: order_def compile_order_def)
  show ms: "mset order = mset xs" by (simp add: order_def compile_order_mset)
  then have "mset (map fst order) = mset (map fst xs)" by simp
  then show "distinct (map fst order)" using dist by (metis mset_eq_imp_distinct_iff)
  show "fst (order ! 0) = k" by (simp add: eq)
  have "fst (snd (order ! i)) = header_signer (n_signers order) i \<and> snd (snd (order ! i)) =
      header_writable (n_signers order) (n_ro_signed order) (n_ro_unsigned order) (length order) i"
    if "i < length order"
    using grouped_header [of "(k, True, True) # ?g True True" "?g True False" "?g False True"
        "?g False False" i] that unfolding eq by auto
  then show "i < length order \<Longrightarrow> header_signer (n_signers order) i = fst (snd (order ! i))"
    "i < length order \<Longrightarrow> header_writable (n_signers order) (n_ro_signed order)
      (n_ro_unsigned order) (length order) i = snd (snd (order ! i))" by auto
qed

lemma table_keys_or_flags [simp]: "table_keys (or_flags i f b) = table_keys b"
  by (simp add: table_keys_def)

lemma table_keys_mark_meta [simp]: "table_keys (mark_meta m i b) = table_keys b"
  by (simp add: mark_meta_def Let_def)

lemma table_keys_push_acct_index [simp]: "table_keys (push_acct_index i b) = table_keys b"
  by (simp add: table_keys_def)

text \<open>The account loop, whatever its result: keys are only appended, and the account
  indices of the earlier instructions stay.\<close>

lemma find_or_insert_grows:
  assumes "builder_wf sys b" and "find_or_insert sys pk b = (r, b')"
  shows "\<exists>ks. table_keys b' = table_keys b @ ks"
proof (cases r)
  case (Ok i)
  then show ?thesis using acct.intern_grows [OF assms(1)] assms(2) by blast
qed (use assms(2) in \<open>auto simp: find_or_insert_def split: option.splits if_splits\<close>)

lemma add_metas_grows:
  assumes lim: "limits_ok sys" and "builder_wf sys b" and "add_metas sys ms b = (r, b')"
  shows "(\<exists>ks. table_keys b' = table_keys b @ ks) \<and> instr_acct_len b \<le> instr_acct_len b' \<and>
    take (instr_acct_len b) (instr_acct_buf b') = take (instr_acct_len b) (instr_acct_buf b)"
  using assms(2,3)
proof (induction ms arbitrary: b)
  case (Cons m ms)
  obtain r1 b1 where foi: "find_or_insert sys (meta_pubkey m) b = (r1, b1)" by fastforce
  note fr = find_or_insert_frame [OF foi]
  obtain ks where ks: "table_keys b1 = table_keys b @ ks"
    using find_or_insert_grows [OF Cons.prems(1) foi] by blast
  have wf1: "builder_wf sys b1" using acct.intern_invar [OF Cons.prems(1) foi] .
  show ?case
  proof (cases r1)
    case (Ok i)
    let ?b2 = "mark_meta m i b1"
    have i: "i < acct_count b1" using find_or_insert_index [OF Cons.prems(1)] foi Ok by blast
    show ?thesis
    proof (cases "instr_acct_len ?b2 \<ge> MTU sys")
      case True
      then show ?thesis using Cons.prems(2) foi Ok ks fr by auto
    next
      case False
      let ?b3 = "push_acct_index i ?b2"
      have wf2: "builder_wf sys ?b2" using mark_meta_wf wf1 i by blast
      have wf3: "builder_wf sys ?b3" using push_acct_index_wf [OF lim wf2] i False by auto
      have "add_metas sys ms ?b3 = (r, b')" using Cons.prems(2) foi Ok False by (simp add: Let_def)
      note ih = Cons.IH [OF wf3 this]
      have p: "take (instr_acct_len b) (instr_acct_buf ?b3) =
          take (instr_acct_len b) (instr_acct_buf b)"
        using fr by (simp add: push_acct_index_def)
      have l: "instr_acct_len ?b3 = Suc (instr_acct_len b)"
        using fr by (simp add: push_acct_index_def)
      have "take (instr_acct_len b) (instr_acct_buf b') =
          take (instr_acct_len b) (take (instr_acct_len ?b3) (instr_acct_buf b'))"
        using l by (simp add: min_def)
      also have "\<dots> = take (instr_acct_len b) (instr_acct_buf ?b3)"
        using ih l by (simp add: min_def)
      finally show ?thesis using ih l p ks by auto
    qed
  qed (use Cons.prems(2) foi ks fr in auto)
qed simp

text \<open>Every instruction of a well-formed builder refers to keys of the table, and its
  account list and data have 16-bit lengths.\<close>

lemma abs_entry_in_table:
  assumes wf: "builder_wf sys b" and e: "entry_wf b e"
    and ix: "abs_entry b e = (prog, accts, d)"
  shows "prog \<in> set (table_keys b)" and "set accts \<subseteq> set (table_keys b)"
    and "length accts < 65536" and "length d < 65536"
proof -
  have len: "length (table_keys b) = acct_count b" using builder_wf_length [OF wf] .
  note eb = entry_bounds [OF wf e]
  have eq: "prog = table_keys b ! unat (program_idx e)"
    "accts = map (\<lambda>x. table_keys b ! unat x) (entry_refs b e)" "d = entry_data b e"
    using ix by (auto simp: abs_entry_def entry_refs_def entry_data_def)
  show "prog \<in> set (table_keys b)" using eq(1) eb(5) len by simp
  show "set accts \<subseteq> set (table_keys b)"
    using eq(2) entry_refs_bound [OF wf e] len by auto
  show "length accts < 65536" "length d < 65536"
    using eq eb(3,4) unat_u16_bound by auto
qed

lemma position_u8:
  assumes "x \<in> set keys" and "length keys < 256"
  shows "unat (word_of_nat (position x keys) :: u8) < length keys"
    and "keys ! unat (word_of_nat (position x keys) :: u8) = x"
proof -
  have p: "position x keys < length keys" "keys ! position x keys = x"
    using position_nth [OF assms(1)] by auto
  then have "unat (word_of_nat (position x keys) :: u8) = position x keys"
    using assms(2) by (simp add: u8_small)
  then show "unat (word_of_nat (position x keys) :: u8) < length keys"
    "keys ! unat (word_of_nat (position x keys) :: u8) = x" using p by simp_all
qed

text \<open>The keys and counts of an added instruction, in the order of the message.\<close>

lemma ixs_in_keys:
  fixes k :: pubkey
  assumes "limits_ok sys" and "run_ops sys ops (builder_new sys) = (Ok r, b)"
  defines "s \<equiv> fold spec_step ops spec_empty"
  assumes "(prog, accts, d) \<in> set (sp_ixs s)"
  defines "keys \<equiv> map fst (compile_order k (sp_accts s))"
  shows "prog \<in> set keys" and "set accts \<subseteq> set keys" and "length accts < 65536" and "length d < 65536"
    and "length keys < 256"
proof -
  note run = run_new_refines [OF assms(1,2)]
  have abs: "builder_abs b = s" unfolding s_def by (rule run(2))
  obtain e where e: "entry_wf b e" "abs_entry b e = (prog, accts, d)"
    using assms(4) run(1) unfolding abs [symmetric]
    by (auto simp: builder_abs_def builder_wf_def refs_wf_def)
  note tab = abs_entry_in_table [OF run(1) e]
  have t: "table_wf sys b" using run(1) by (simp add: builder_wf_def)
  have "mset keys = mset (map fst (sp_accts s))" by (simp add: keys_def compile_order_mset)
  also have "map fst (sp_accts s) = table_keys b"
    using fst_abs_accts [OF t] by (simp add: abs [symmetric])
  finally have k: "set keys = set (table_keys b)" "length keys = length (table_keys b)"
    by (auto dest: mset_eq_setD mset_eq_length)
  show "prog \<in> set keys" "set accts \<subseteq> set keys" "length accts < 65536" "length d < 65536"
    using tab by (simp_all add: k)
  show "length keys < 256"
    using k(2) length_table_keys [OF t] t assms(1) by (simp add: table_wf_def limits_ok_def)
qed

lemma set_signature_range:
  assumes "i < n" and "start + n * sz \<le> mo" and "mo \<le> (m :: nat)"
  shows "start + i * sz + sz \<le> mo" and "start + i * sz + sz \<le> m"
proof -
  have "(i + 1) * sz \<le> n * sz" using assms(1) by (intro mult_le_mono1) simp
  then show "start + i * sz + sz \<le> mo" "start + i * sz + sz \<le> m" using assms(2,3) by auto
qed

section \<open>Properties\<close>

text \<open>C1: what \<open>build\<close> returns is the transaction that was asked for. After any
  sequence of successful calls on a new builder, a successful \<open>build\<close> returns the wire format
  of the transaction those calls describe: the signature count, zeroed signature slots, the
  message with the header, the ordered account keys, the blockhash and every instruction with its
  accounts re-indexed; it fits the MTU and the parser accepted it.\<close>

theorem build_refines_spec:
  assumes "limits_ok sys" and "cu16_ok sys"
    and "run_ops sys ops (builder_new sys) = (Ok r, b)" and "builder_build sys b = Ok u"
  defines "s \<equiv> fold spec_step ops spec_empty"
  shows "\<exists>k h. sp_fee_payer s = Some k \<and> sp_blockhash s = Some h \<and> sp_ixs s \<noteq> [] \<and>
    as_bytes u = wire_txn (fd_cu16_enc sys) (SIG_SZ sys) k h s \<and>
    message_bytes u = wire_message (fd_cu16_enc sys) k h s \<and>
    signature_count u = n_signers (sp_accts s) \<and> signature_count u \<le> SIG_MAX sys \<and>
    length (as_bytes u) \<le> MTU sys \<and> fd_txn_parse_core sys (as_bytes u) \<noteq> 0"
proof -
  note run = run_new_refines [OF assms(1,3)]
  obtain k h where u: "fee_payer b = Some k" "blockhash b = Some h" "instr_count b \<noteq> 0"
    "u = unsigned_of sys (n_signers (abs_accts b))
      (wire_txn (fd_cu16_enc sys) (SIG_SZ sys) k h (builder_abs b))"
    "n_signers (abs_accts b) \<le> SIG_MAX sys" "n_signers (abs_accts b) < 256"
    "length (wire_txn (fd_cu16_enc sys) (SIG_SZ sys) k h (builder_abs b)) \<le> MTU sys"
    "fd_txn_parse_core sys (wire_txn (fd_cu16_enc sys) (SIG_SZ sys) k h (builder_abs b)) \<noteq> 0"
    by (rule build_OkE [OF assms(1,2) run(1) assms(4)])
  have abs: "builder_abs b = s" unfolding s_def by (rule run(2))
  have ixs: "sp_ixs s \<noteq> []"
    using u(3) run(1) unfolding abs [symmetric]
    by (auto simp: builder_abs_def builder_wf_defs)
  have w: "wire_txn (fd_cu16_enc sys) (SIG_SZ sys) k h s =
      fd_cu16_enc sys (word_of_nat (n_signers (abs_accts b))) @
      replicate (n_signers (abs_accts b) * SIG_SZ sys) 0 @ wire_message (fd_cu16_enc sys) k h s"
    by (simp add: wire_txn_def abs [symmetric])
  have acc: "abs_accts b = sp_accts s" by (simp add: abs [symmetric])
  show ?thesis
    using u ixs unsigned_of_bytes [OF u(7,6), of "wire_message (fd_cu16_enc sys) k h s"] w
    unfolding abs acc by (auto simp flip: abs)
qed

theorem build_refines_spec_witness:
  "\<exists>u k h. builder_build sample_sys sample_builder = Ok u \<and>
    sp_fee_payer sample_spec = Some k \<and> sp_blockhash sample_spec = Some h \<and>
    as_bytes u = wire_txn cu16_format 64 k h sample_spec"
proof -
  have "\<exists>u. builder_build sample_sys sample_builder = Ok u"
  proof -
    have "(case builder_build sample_sys sample_builder of Ok u \<Rightarrow> True | _ \<Rightarrow> False)" by code_simp
    then show ?thesis by (auto split: res.splits)
  qed
  then obtain u where u: "builder_build sample_sys sample_builder = Ok u" by blast
  show ?thesis
    using build_refines_spec [OF sample_limits sample_cu16 sample_run u] u
    by (auto simp: sample_spec_def sample_sys_def)
qed

text \<open>C10: \<open>build\<close> neither panics nor writes outside its buffer, on any builder that
  public calls can produce (failed calls included), and its error is exactly the first check
  that applies; \<open>TransactionTooLarge\<close> is returned only for a transaction that leaves at most
  one byte of the MTU free.\<close>

theorem build_outcome:
  assumes "limits_ok sys" and "cu16_ok sys" and "builder_reachable sys b"
  defines "n \<equiv> n_signers (abs_accts b)"
  shows "case fee_payer b of
      None \<Rightarrow> builder_build sys b = Err NoFeePayer
    | Some k \<Rightarrow> (case blockhash b of
        None \<Rightarrow> builder_build sys b = Err NoBlockhash
      | Some h \<Rightarrow>
          (let w = wire_txn (fd_cu16_enc sys) (SIG_SZ sys) k h (builder_abs b)
           in if instr_count b = 0 then builder_build sys b = Err NoInstructions
              else if n > SIG_MAX sys then builder_build sys b = Err TooManySigners
              else builder_build sys b = Err TransactionTooLarge \<and> MTU sys < length w + 2 \<or>
                builder_build sys b =
                  (if fd_txn_parse_core sys w = 0 then Err ValidationFailed
                   else Ok (unsigned_of sys n w)) \<and> length w \<le> MTU sys))"
proof -
  have wf: "builder_wf sys b" by (rule reachable_wf [OF assms(1,3)])
  show ?thesis
  proof (cases "fee_payer b")
    case None
    then show ?thesis by (simp add: builder_build_def)
  next
    case k: (Some k)
    show ?thesis
    proof (cases "blockhash b")
      case None
      then show ?thesis using k by (simp add: builder_build_def)
    next
      case h: (Some h)
      show ?thesis
      proof (cases "instr_count b = 0")
        case True
        then show ?thesis using k h by (simp add: builder_build_def)
      next
        case False
        show ?thesis
          using build_cases [OF assms(1,2) wf k h False] k h False
          by (auto simp: n_def Let_def)
      qed
    qed
  qed
qed

theorem build_outcome_witness:
  "builder_reachable sample_sys sample_builder \<and> fee_payer sample_builder = Some key1 \<and>
   (builder_build sample_sys sample_builder = Err ValidationFailed \<or>
    (\<exists>u. builder_build sample_sys sample_builder = Ok u))"
proof -
  have s: "fee_payer sample_builder = Some key1" "blockhash sample_builder = Some (replicate 32 9)"
    "instr_count sample_builder = 1" "n_signers (abs_accts sample_builder) \<le> SIG_MAX sample_sys"
    by code_simp+
  have "builder_abs sample_builder = sample_spec"
    unfolding sample_spec_def by (rule run_new_refines(2) [OF sample_limits sample_run])
  then have w: "length (wire_txn (fd_cu16_enc sample_sys) (SIG_SZ sample_sys) key1 (replicate 32 9)
      (builder_abs sample_builder)) + 2 \<le> MTU sample_sys"
    using sample_wire_length by (simp add: sample_wire_def sample_sys_def)
  show ?thesis
    using build_outcome [OF sample_limits sample_cu16 sample_reachable] s w sample_reachable
    by (auto simp: Let_def split: if_splits)
qed

text \<open>C9: completeness of \<open>build\<close>. A transaction with a fee payer, a blockhash, at least
  one instruction and at most \<open>SIG_MAX\<close> signers, whose wire format leaves two bytes of the
  MTU free and is accepted by the parser, is built.\<close>

theorem build_complete:
  assumes "limits_ok sys" and "cu16_ok sys"
    and "run_ops sys ops (builder_new sys) = (Ok r, b)"
  defines "s \<equiv> fold spec_step ops spec_empty"
  assumes "sp_fee_payer s = Some k" and "sp_blockhash s = Some h" and "sp_ixs s \<noteq> []"
    and "n_signers (sp_accts s) \<le> SIG_MAX sys"
    and "length (wire_txn (fd_cu16_enc sys) (SIG_SZ sys) k h s) + 2 \<le> MTU sys"
    and "fd_txn_parse_core sys (wire_txn (fd_cu16_enc sys) (SIG_SZ sys) k h s) \<noteq> 0"
  shows "\<exists>u. builder_build sys b = Ok u \<and>
    as_bytes u = wire_txn (fd_cu16_enc sys) (SIG_SZ sys) k h s"
proof -
  note run = run_new_refines [OF assms(1,3)]
  have abs: "builder_abs b = s" unfolding s_def by (rule run(2))
  have fp: "fee_payer b = Some k" "blockhash b = Some h"
    using assms(5,6) abs builder_abs_simps(2,3) [of b] by auto
  have ic: "instr_count b \<noteq> 0" using assms(7) builder_abs_simps(5) [of b] unfolding abs
    by (cases "instr_count b = 0") auto
  have n: "n_signers (abs_accts b) \<le> SIG_MAX sys"
    using assms(8) builder_abs_simps(1) [of b] unfolding abs by simp
  show ?thesis
    using build_cases [OF assms(1,2) run(1) fp ic] assms(9,10) n unfolding abs
    by (auto simp: unsigned_of_def as_bytes_def Let_def)
qed

theorem build_complete_witness:
  "\<exists>u. builder_build sample_sys sample_builder = Ok u \<and> as_bytes u = sample_wire"
proof -
  have s: "sp_fee_payer sample_spec = Some key1" "sp_blockhash sample_spec = Some (replicate 32 9)"
    "sp_ixs sample_spec \<noteq> []" "n_signers (sp_accts sample_spec) \<le> SIG_MAX sample_sys"
    by code_simp+
  show ?thesis
    unfolding sample_wire_def sample_spec_def
    using build_complete [OF sample_limits sample_cu16 sample_run s [unfolded sample_spec_def]]
      sample_wire_length [unfolded sample_wire_def sample_spec_def]
      sample_sys_fields by fastforce
qed

text \<open>C11: the builder's invariant. In every state that public calls can produce, failed calls
  included, the account keys are distinct and within the table, the instruction and data
  buffers are within their bounds, every stored account index is below the account count, every
  instruction's offsets lie in the written part of the buffers, and the fee payer is a writable
  signer of the table.\<close>

theorem builder_invariant:
  assumes "limits_ok sys" and "builder_reachable sys b"
  shows "builder_wf sys b"
  using assms by (rule reachable_wf)

theorem builder_invariant_witness:
  "builder_reachable sample_sys sample_builder \<and> builder_wf sample_sys sample_builder"
  using builder_invariant [OF sample_limits sample_reachable] sample_reachable by simp

text \<open>A failed \<open>add_instruction\<close> keeps the transaction's instructions. When
  \<open>add_instruction\<close> returns an error, on any builder that public calls can produce, the instructions described so far, their data, the fee payer, the blockhash and the
  version are unchanged, and the account table is only extended.\<close>

theorem add_instruction_error_keeps:
  assumes "limits_ok sys" and "builder_reachable sys b"
    and "builder_add_instruction sys ix b = (Err e, b')"
  shows "sp_ixs (builder_abs b') = sp_ixs (builder_abs b) \<and> fee_payer b' = fee_payer b \<and>
    blockhash b' = blockhash b \<and> txn_version b' = txn_version b \<and>
    instr_data_len b' = instr_data_len b \<and> (\<exists>ks. table_keys b' = table_keys b @ ks) \<and>
    builder_wf sys b'"
proof -
  have wf: "builder_wf sys b" by (rule reachable_wf [OF assms(1,2)])
  have wf': "builder_wf sys b'" using add_instruction_wf [OF assms(1) wf assms(3)] .
  obtain r1 b1 where foi: "find_or_insert sys (program_id ix) b = (r1, b1)" by fastforce
  note fr1 = find_or_insert_frame [OF foi]
  have wf1: "builder_wf sys b1" using acct.intern_invar [OF wf foi] .
  obtain ks where ks: "table_keys b1 = table_keys b @ ks"
    using find_or_insert_grows [OF wf foi] by blast
  consider "b' = b" | "b' = b1" | r2 where "add_metas sys (accounts ix) b1 = (r2, b')"
    using assms(3) foi
    by (auto simp: builder_add_instruction_def Let_def split: if_splits res.splits prod.splits)
  then have fr: "instrs b' = instrs b \<and> instr_count b' = instr_count b \<and>
      instr_data_buf b' = instr_data_buf b \<and> instr_data_len b' = instr_data_len b \<and>
      fee_payer b' = fee_payer b \<and> blockhash b' = blockhash b \<and> txn_version b' = txn_version b \<and>
      (\<exists>ks. table_keys b' = table_keys b @ ks) \<and>
      take (instr_acct_len b) (instr_acct_buf b') = take (instr_acct_len b) (instr_acct_buf b)"
  proof cases
    case 3
    then show ?thesis
      using add_metas_frame [OF 3] add_metas_grows [OF assms(1) wf1 3] fr1 ks by auto
  qed (use fr1 ks in auto)
  then obtain ks' where ks': "table_keys b' = table_keys b @ ks'" by blast
  have "map (abs_entry b') (take (instr_count b) (instrs b)) =
      map (abs_entry b) (take (instr_count b) (instrs b))"
    using fr by (intro abs_entries_stable [OF wf ks']) auto
  then show ?thesis using fr wf' by (simp add: builder_abs_def)
qed

definition oversized_ix :: instruction_buf where
  "oversized_ix = sample_ix\<lparr>ix_data := replicate 241 0\<rparr>"

theorem add_instruction_error_keeps_witness:
  "\<exists>e b'. builder_add_instruction sample_sys oversized_ix (builder_new sample_sys) = (Err e, b') \<and>
    sp_ixs (builder_abs b') = sp_ixs (builder_abs (builder_new sample_sys))"
proof -
  have "fst (builder_add_instruction sample_sys oversized_ix (builder_new sample_sys)) =
      Err DataTooLarge" by code_simp
  then obtain b' where "builder_add_instruction sample_sys oversized_ix (builder_new sample_sys) =
      (Err DataTooLarge, b')" by (metis prod.collapse)
  then show ?thesis
    using add_instruction_error_keeps [OF sample_limits reach_new] by blast
qed

text \<open>A failed \<open>add_instruction\<close> is not undone. There is a builder on which an
  instruction rejected for its size leaves its program and its account, with the privileges it
  asked for, in the account table, so that they become part of a transaction built later.\<close>

theorem add_instruction_not_atomic:
  "(let (r, b') = builder_add_instruction sample_sys oversized_ix (builder_new sample_sys)
    in r = Err DataTooLarge \<and> abs_accts b' = [(key3, False, False), (key2, False, True)] \<and>
       abs_accts (builder_new sample_sys) = [] \<and> instr_acct_len b' = 1)"
  by code_simp

text \<open>The account indices written into the message resolve. For every instruction added by
  the calls, the bytes written for it are its program index, the count and the indices of its
  accounts, the length and the bytes of its data; each index is below the number of keys and
  points, in the order the message lists the keys, at the key the caller named; the counts fit 16
  bits.\<close>

theorem instruction_indices_resolve:
  fixes k :: pubkey
  assumes "limits_ok sys" and "run_ops sys ops (builder_new sys) = (Ok r, b)"
  defines "s \<equiv> fold spec_step ops spec_empty"
  defines "keys \<equiv> map fst (compile_order k (sp_accts s))"
  assumes "(prog, accts, d) \<in> set (sp_ixs s)"
  shows "\<exists>p refs. wire_ix enc keys (prog, accts, d) =
      [p] @ enc (word_of_nat (length refs)) @ refs @ enc (word_of_nat (length d)) @ d \<and>
    unat p < length keys \<and> keys ! unat p = prog \<and>
    (\<forall>x \<in> set refs. unat x < length keys) \<and> map (\<lambda>x. keys ! unat x) refs = accts \<and>
    length refs < 65536 \<and> length d < 65536"
proof -
  have ks: "prog \<in> set keys" "set accts \<subseteq> set keys" "length accts < 65536" "length d < 65536"
    "length keys < 256"
    using ixs_in_keys [OF assms(1,2), folded s_def, OF assms(5)] unfolding keys_def by blast+
  let ?refs = "map (\<lambda>a. word_of_nat (position a keys) :: u8) accts"
  have "map (\<lambda>x. keys ! unat x) ?refs = accts"
    using ks(2) position_u8(2) [OF _ ks(5)] by (auto intro!: map_idI)
  moreover have "\<forall>x \<in> set ?refs. unat x < length keys"
    using ks(2) position_u8(1) [OF _ ks(5)] by auto
  ultimately show ?thesis
    using ks(1,3,4) position_u8 [OF _ ks(5), of prog]
    by (intro exI [of _ "word_of_nat (position prog keys)"] exI [of _ ?refs])
      (auto simp: wire_ix_def)
qed

theorem instruction_indices_resolve_witness:
  "\<exists>p x. wire_ix cu16_format (map fst (compile_order key1 (sp_accts sample_spec)))
      (key3, [key2], [7, 8]) = [p, 1, x, 2, 7, 8] \<and>
    map fst (compile_order key1 (sp_accts sample_spec)) ! unat p = key3 \<and>
    map fst (compile_order key1 (sp_accts sample_spec)) ! unat x = key2"
proof -
  let ?keys = "map fst (compile_order key1 (sp_accts (fold spec_step sample_ops spec_empty)))"
  have ix: "(key3, [key2], [7, 8]) \<in> set (sp_ixs (fold spec_step sample_ops spec_empty))"
    by code_simp
  have enc: "cu16_format (word_of_nat (length [7, 8 :: u8])) = [2]"
    "cu16_format (word_of_nat (length [x :: u8])) = [1]" for x
    by (simp_all add: cu16_format_def)
  obtain p refs where w: "wire_ix cu16_format ?keys (key3, [key2], [7, 8]) =
      [p] @ cu16_format (word_of_nat (length refs)) @ refs @ [2] @ [7, 8]"
    "?keys ! unat p = key3" "map (\<lambda>x. ?keys ! unat x) refs = [key2]"
    using instruction_indices_resolve [OF sample_limits sample_run ix, of cu16_format key1]
    unfolding enc by meson
  from w(3) obtain x where x: "refs = [x]" "?keys ! unat x = key2" by auto
  have "wire_ix cu16_format ?keys (key3, [key2], [7, 8]) = [p, 1, x, 2, 7, 8]"
    using w(1) unfolding x(1) enc(2) by simp
  then show ?thesis unfolding sample_spec_def using w(2) x(2) by blast
qed

text \<open>\<open>set_signature\<close> writes one signature slot and nothing else. On a built transaction
  an index below the signature count puts the signature into that slot, keeps every other
  slot, the signature count and the message, so that what was signed is what is sent; an index
  out of range panics.\<close>

theorem set_signature_frame:
  assumes "limits_ok sys" and "cu16_ok sys" and "builder_reachable sys b"
    and "builder_build sys b = Ok u" and "length sig = SIG_SZ sys"
  shows "if i < signature_count u
    then \<exists>u'. set_signature sys i sig u = Ok u' \<and> message_bytes u' = message_bytes u \<and>
      length (as_bytes u') = length (as_bytes u) \<and> signature_count u' = signature_count u \<and>
      take (SIG_SZ sys) (drop (ut_sig_off u + i * SIG_SZ sys) (as_bytes u')) = sig \<and>
      take (ut_sig_off u + i * SIG_SZ sys) (as_bytes u') =
        take (ut_sig_off u + i * SIG_SZ sys) (as_bytes u) \<and>
      drop (ut_sig_off u + (i + 1) * SIG_SZ sys) (as_bytes u') =
        drop (ut_sig_off u + (i + 1) * SIG_SZ sys) (as_bytes u)
    else set_signature sys i sig u = Panic"
proof -
  have wf: "builder_wf sys b" by (rule reachable_wf [OF assms(1,3)])
  obtain k h where u: "u = unsigned_of sys (n_signers (abs_accts b))
      (wire_txn (fd_cu16_enc sys) (SIG_SZ sys) k h (builder_abs b))"
    and n: "n_signers (abs_accts b) < 256"
    and w: "length (wire_txn (fd_cu16_enc sys) (SIG_SZ sys) k h (builder_abs b)) \<le> MTU sys"
    by (rule build_OkE [OF assms(1,2) wf assms(4)])
  let ?n = "n_signers (abs_accts b)"
  have f: "signature_count u = ?n" "ut_message_off u = ut_sig_off u + ?n * SIG_SZ sys"
    "ut_message_off u \<le> ut_len u" "ut_len u \<le> length (ut_buf u)" "unat (ut_sig_count u) = ?n"
    using n w by (simp_all add: u unsigned_of_def signature_count_def Let_def wire_txn_def u8_small)
  show ?thesis
  proof (cases "i < ?n")
    case True
    let ?st = "ut_sig_off u + i * SIG_SZ sys"
    have r: "?st + SIG_SZ sys \<le> ut_message_off u" "?st + SIG_SZ sys \<le> ut_len u"
      using set_signature_range [OF True, of "ut_sig_off u" "SIG_SZ sys" "ut_message_off u"
          "ut_len u"] f(2,3) by auto
    have ok: "set_signature sys i sig u = Ok (u\<lparr>ut_buf := blit (ut_buf u) ?st sig\<rparr>)"
      using True f r assms(5) by (simp add: set_signature_def Let_def copy_from_slice_def)
    have tk: "take (ut_len u) (blit (ut_buf u) ?st sig) = blit (take (ut_len u) (ut_buf u)) ?st sig"
      using r f assms(5) by (intro take_blit) auto
    have sg: "take (SIG_SZ sys) (drop ?st (blit (take (ut_len u) (ut_buf u)) ?st sig)) = sig"
      using take_drop_blit [of ?st sig "take (ut_len u) (ut_buf u)"] r f assms(5) by simp
    show ?thesis
      using True f r ok assms(5) sg
      by (simp add: message_bytes_def as_bytes_def signature_count_def tk blit_simps add.commute
          add.left_commute)
  next
    case False
    then show ?thesis using f by (simp add: set_signature_def)
  qed
qed

theorem set_signature_frame_witness:
  "\<exists>u u'. builder_build sample_sys sample_builder = Ok u \<and>
    set_signature sample_sys 0 (replicate 64 5) u = Ok u' \<and> message_bytes u' = message_bytes u"
proof -
  have "(case builder_build sample_sys sample_builder of Ok u \<Rightarrow> signature_count u = 1 | _ \<Rightarrow> False)"
    by code_simp
  then obtain u where u: "builder_build sample_sys sample_builder = Ok u" "signature_count u = 1"
    by (auto split: res.splits)
  have "length (replicate 64 (5 :: u8)) = SIG_SZ sample_sys" by (simp add: sample_sys_def)
  then show ?thesis
    using set_signature_frame [OF sample_limits sample_cu16 sample_reachable u(1), of
        "replicate 64 5" 0] u by auto
qed

end
