(* ===== verification/Txn_Parse_Props.thy ===== *)
theory Txn_Parse_Props
  imports Txn_Parse Txn_Properties "HOL-Library.Monad_Syntax"
begin

text \<open>
  Reading back what was built. The wire format is a record of its parts (\<open>txn_layout\<close>); the locale
  \<open>txn_parser\<close> says that the descriptor of the C parser gives their counts and offsets. It is
  interpreted on an executable parser for the documented format.
\<close>

section \<open>Layout of a transaction\<close>

record txn_layout =
  ly_version :: transaction_version
  ly_nsig :: nat
  ly_sigs :: bytes
  ly_ro_signed :: nat
  ly_ro_unsigned :: nat
  ly_keys :: "pubkey list"
  ly_hash :: bytes
  ly_ixs :: "(u8 \<times> bytes \<times> bytes) list"

definition layout_ok :: "nat \<Rightarrow> txn_layout \<Rightarrow> bool" where
  "layout_ok sz l \<longleftrightarrow>
     ly_nsig l < 128 \<and> length (ly_sigs l) = ly_nsig l * sz \<and>
     ly_ro_signed l < 256 \<and> ly_ro_unsigned l < 256 \<and>
     list_all (\<lambda>k. length k = 32) (ly_keys l) \<and> length (ly_keys l) < 65536 \<and>
     length (ly_hash l) = 32 \<and> length (ly_ixs l) < 65536 \<and>
     list_all (\<lambda>(p, refs, d). length refs < 65536 \<and> length d < 65536) (ly_ixs l)"

definition ix_bytes :: "(u16 \<Rightarrow> bytes) \<Rightarrow> u8 \<times> bytes \<times> bytes \<Rightarrow> bytes" where
  "ix_bytes enc = (\<lambda>(p, refs, d).
     [p] @ enc (word_of_nat (length refs)) @ refs @ enc (word_of_nat (length d)) @ d)"

text \<open>The parts before the keys, the parts before the instructions, and the whole.\<close>

definition layout_head :: "(u16 \<Rightarrow> bytes) \<Rightarrow> txn_layout \<Rightarrow> bytes" where
  "layout_head enc l =
     enc (word_of_nat (ly_nsig l)) @ ly_sigs l @ (if ly_version l = V0 then [0x80] else []) @
     [word_of_nat (ly_nsig l), word_of_nat (ly_ro_signed l), word_of_nat (ly_ro_unsigned l)] @
     enc (word_of_nat (length (ly_keys l)))"

definition layout_front :: "(u16 \<Rightarrow> bytes) \<Rightarrow> txn_layout \<Rightarrow> bytes" where
  "layout_front enc l =
     layout_head enc l @ concat (ly_keys l) @ ly_hash l @ enc (word_of_nat (length (ly_ixs l)))"

definition layout_bytes :: "(u16 \<Rightarrow> bytes) \<Rightarrow> txn_layout \<Rightarrow> bytes" where
  "layout_bytes enc l =
     layout_front enc l @ concat (map (ix_bytes enc) (ly_ixs l)) @
     (if ly_version l = V0 then enc 0 else [])"

definition ix_off :: "(u16 \<Rightarrow> bytes) \<Rightarrow> txn_layout \<Rightarrow> nat \<Rightarrow> nat" where
  "ix_off enc l i = length (layout_front enc l) + length (concat (map (ix_bytes enc) (take i (ly_ixs l))))"

lemma length_concat_fixed: "list_all (\<lambda>k. length k = w) xs \<Longrightarrow> length (concat xs) = w * length xs"
  by (induction xs) auto

lemma unat_u16_small: "n < 65536 \<Longrightarrow> unat (word_of_nat n :: u16) = n"
  by (simp add: unat_of_nat take_bit_nat_eq_self)

lemma uint_u16_small: "n < 65536 \<Longrightarrow> uint (word_of_nat n :: u16) = int n"
  using unat_u16_small [of n] by (metis of_nat_unat)

lemma slice_part: "xs = a @ b @ c \<Longrightarrow> i = length a \<Longrightarrow> j = i + length b \<Longrightarrow> slice xs i j = Ok b"
  by (simp add: slice_def)

lemma ix_split:
  assumes "i < length (ly_ixs l)"
  obtains pre post where "layout_bytes enc l = pre @ ix_bytes enc (ly_ixs l ! i) @ post"
    "length pre = ix_off enc l i"
proof
  let ?f = "\<lambda>xs. concat (map (ix_bytes enc) xs)"
  have "ly_ixs l = take i (ly_ixs l) @ ly_ixs l ! i # drop (Suc i) (ly_ixs l)"
    using assms by (rule id_take_nth_drop)
  then have "?f (ly_ixs l) = ?f (take i (ly_ixs l)) @ ix_bytes enc (ly_ixs l ! i) @ ?f (drop (Suc i) (ly_ixs l))"
    by (metis concat.simps(2) concat_append list.simps(9) map_append)
  then show "layout_bytes enc l =
      (layout_front enc l @ ?f (take i (ly_ixs l))) @ ix_bytes enc (ly_ixs l ! i) @
      (?f (drop (Suc i) (ly_ixs l)) @ (if ly_version l = V0 then enc 0 else []))"
    by (simp add: layout_bytes_def)
  show "length (layout_front enc l @ ?f (take i (ly_ixs l))) = ix_off enc l i"
    by (simp add: ix_off_def)
qed

section \<open>The contract of the parser\<close>

text \<open>A descriptor of an instruction that starts at offset \<open>off\<close>.\<close>

definition describes_ix ::
  "('t, 'i, 'c) txn_lib \<Rightarrow> (u16 \<Rightarrow> bytes) \<Rightarrow> nat \<Rightarrow> u8 \<times> bytes \<times> bytes \<Rightarrow> 'i \<Rightarrow> bool" where
  "describes_ix lib enc off = (\<lambda>(p, refs, d) ix.
     let a = off + 1 + length (enc (word_of_nat (length refs)))
     in tl_program_id lib ix = p \<and> tl_acct_cnt lib ix = word_of_nat (length refs) \<and>
        tl_data_sz lib ix = word_of_nat (length d) \<and> tl_instr_accts lib ix = a \<and>
        tl_instr_data lib ix = a + length refs + length (enc (word_of_nat (length d))))"

definition describes ::
  "('t, 'i, 'c) txn_lib \<Rightarrow> (u16 \<Rightarrow> bytes) \<Rightarrow> txn_layout \<Rightarrow> 't \<Rightarrow> bool" where
  "describes lib enc l t \<longleftrightarrow>
     tl_version lib t = version_to_raw (ly_version l) \<and>
     tl_signature_cnt lib t = word_of_nat (ly_nsig l) \<and>
     tl_acct_addr_cnt lib t = word_of_nat (length (ly_keys l)) \<and>
     tl_acct_addrs lib t = length (layout_head enc l) \<and>
     tl_recent_blockhash lib t = length (layout_head enc l) + 32 * length (ly_keys l) \<and>
     tl_instr_cnt lib t = word_of_nat (length (ly_ixs l)) \<and>
     (\<forall>i < length (ly_ixs l). describes_ix lib enc (ix_off enc l i) (ly_ixs l ! i) (tl_instr lib t i)) \<and>
     (\<forall>i < length (ly_keys l).
        tl_is_signer lib t (int i) = header_signer (ly_nsig l) i \<and>
        tl_is_writable lib t (word_of_nat i) =
          header_writable (ly_nsig l) (ly_ro_signed l) (ly_ro_unsigned l) (length (ly_keys l)) i)"

locale txn_parser =
  fixes lib :: "('t, 'i, 'c) txn_lib"
    and enc :: "u16 \<Rightarrow> bytes"
    and sz :: nat
  assumes parse_describes:
    "layout_ok sz l \<Longrightarrow> tl_parse lib (layout_bytes enc l) = Some t \<Longrightarrow> describes lib enc l t"
begin

text \<open>The accessors on an accepted layout.\<close>

lemma accounts_read:
  assumes "layout_ok sz l" and "tl_parse lib (layout_bytes enc l) = Some t"
  shows "tx_accounts lib \<lparr>tx_data = layout_bytes enc l, tx_desc = t\<rparr> = Ok (ly_keys l)"
proof -
  let ?ks = "ly_keys l" and ?h = "layout_head enc l"
  obtain rest where d: "layout_bytes enc l = ?h @ concat ?ks @ rest"
    by (auto simp: layout_bytes_def layout_front_def)
  have ks: "list_all (\<lambda>k. length k = 32) ?ks" "length ?ks < 65536"
    using assms(1) by (simp_all add: layout_ok_def)
  note len = length_concat_fixed [OF ks(1)]
  have "take 32 (drop (length ?h + 32 * i) (layout_bytes enc l)) = ?ks ! i" if "i < length ?ks" for i
  proof -
    have "32 * i + 32 \<le> length (concat ?ks)" using that by (simp add: len)
    then show ?thesis using nth_concat_fixed [OF ks(1) that] by (simp add: d)
  qed
  then have "map (\<lambda>i. take 32 (drop (length ?h + 32 * i) (layout_bytes enc l))) [0..<length ?ks] = ?ks"
    by (intro nth_equalityI) auto
  moreover have "length ?h + 32 * length ?ks \<le> length (layout_bytes enc l)" by (simp add: d len)
  ultimately show ?thesis
    using parse_describes [OF assms] ks(2)
    by (simp add: tx_accounts_def key_slice_def describes_def unat_u16_small)
qed

lemma blockhash_read:
  assumes "layout_ok sz l" and "tl_parse lib (layout_bytes enc l) = Some t"
  shows "tx_recent_blockhash lib \<lparr>tx_data = layout_bytes enc l, tx_desc = t\<rparr> = Ok (ly_hash l)"
proof -
  obtain rest where d: "layout_bytes enc l = layout_head enc l @ concat (ly_keys l) @ ly_hash l @ rest"
    by (auto simp: layout_bytes_def layout_front_def)
  have "length (concat (ly_keys l)) = 32 * length (ly_keys l)" "length (ly_hash l) = 32"
    using assms(1) length_concat_fixed by (auto simp: layout_ok_def)
  then show ?thesis
    using parse_describes [OF assms] by (simp add: tx_recent_blockhash_def describes_def slice_def d)
qed

lemma instruction_read:
  assumes l: "layout_ok sz l" and t: "tl_parse lib (layout_bytes enc l) = Some t"
    and i: "i < length (ly_ixs l)" "ly_ixs l ! i = (p, refs, d)"
  defines "tx \<equiv> \<lparr>tx_data = layout_bytes enc l, tx_desc = t\<rparr>"
  shows "\<exists>ix. tx_instruction lib tx i = Some ix \<and> ix_program_id lib ix = p \<and>
    ix_account_indices lib tx ix = Ok refs \<and> ix_data_bytes lib tx ix = Ok d"
proof -
  let ?ix = "tl_instr lib t i" and ?a = "ix_off enc l i + 1 + length (enc (word_of_nat (length refs)))"
  note ds = parse_describes [OF l t, unfolded describes_def]
  have "describes_ix lib enc (ix_off enc l i) (p, refs, d) (tl_instr lib t i)" using ds i by auto
  then have ix: "tl_program_id lib ?ix = p" "tl_acct_cnt lib ?ix = word_of_nat (length refs)"
    "tl_data_sz lib ?ix = word_of_nat (length d)" "tl_instr_accts lib ?ix = ?a"
    "tl_instr_data lib ?ix = ?a + length refs + length (enc (word_of_nat (length d)))"
    by (simp_all add: describes_ix_def Let_def)
  have small: "length refs < 65536" "length d < 65536" "length (ly_ixs l) < 65536"
    using l i by (auto simp: layout_ok_def list_all_length)
  obtain pre post where w: "layout_bytes enc l = pre @ ix_bytes enc (p, refs, d) @ post"
    "length pre = ix_off enc l i"
    by (rule ix_split [OF i(1)]) (simp add: i(2))
  have "slice (layout_bytes enc l) ?a (?a + length refs) = Ok refs"
    by (rule slice_part [where a = "pre @ [p] @ enc (word_of_nat (length refs))"
          and c = "enc (word_of_nat (length d)) @ d @ post"])
      (simp_all add: w ix_bytes_def)
  moreover have "slice (layout_bytes enc l) (?a + length refs + length (enc (word_of_nat (length d))))
      (?a + length refs + length (enc (word_of_nat (length d))) + length d) = Ok d"
    by (rule slice_part [where c = post
          and a = "pre @ [p] @ enc (word_of_nat (length refs)) @ refs @ enc (word_of_nat (length d))"])
      (simp_all add: w ix_bytes_def)
  ultimately show ?thesis
    using ds i(1) small ix
    by (simp add: tx_def tx_instruction_def tx_instruction_count_def ix_program_id_def
        ix_account_indices_def ix_account_count_def ix_data_bytes_def unat_u16_small Let_def)
qed

end

section \<open>A parser for the documented format\<close>

text \<open>The rest of the input and its offset are the state.\<close>

record ref_ix =
  ri_program :: u8
  ri_accts :: nat
  ri_acct_cnt :: nat
  ri_data :: nat
  ri_data_sz :: nat

record ref_txn =
  rt_version :: transaction_version
  rt_nsig :: nat
  rt_ro_signed :: nat
  rt_ro_unsigned :: nat
  rt_keys :: nat
  rt_key_cnt :: nat
  rt_hash :: nat
  rt_ixs :: "ref_ix list"

definition ref_cu16 :: "bytes \<times> nat \<Rightarrow> (nat \<times> bytes \<times> nat) option" where
  "ref_cu16 st =
     (case cu16_read (fst st) of (v, n) \<Rightarrow>
        if n = 0 then None else Some (unat v, drop n (fst st), snd st + n))"

definition ref_skip :: "nat \<Rightarrow> bytes \<times> nat \<Rightarrow> (bytes \<times> nat) option" where
  "ref_skip n st = (if n \<le> length (fst st) then Some (drop n (fst st), snd st + n) else None)"

fun ref_byte :: "bytes \<times> nat \<Rightarrow> (u8 \<times> bytes \<times> nat) option" where
  "ref_byte ([], n) = None"
| "ref_byte (b # r, n) = Some (b, r, Suc n)"

definition ref_version :: "bytes \<times> nat \<Rightarrow> (transaction_version \<times> bytes \<times> nat) option" where
  "ref_version st =
     (case ref_byte st of
        None \<Rightarrow> None
      | Some (b, st') \<Rightarrow> if b = 0x80 then Some (V0, st') else if unat b < 128 then Some (Legacy, st) else None)"

definition ref_parse_ix :: "bytes \<times> nat \<Rightarrow> (ref_ix \<times> bytes \<times> nat) option" where
  "ref_parse_ix st = do {
     (p, st) \<leftarrow> ref_byte st;
     (na, st) \<leftarrow> ref_cu16 st;
     let a = snd st;
     st \<leftarrow> ref_skip na st;
     (nd, st) \<leftarrow> ref_cu16 st;
     let d = snd st;
     st \<leftarrow> ref_skip nd st;
     Some (\<lparr>ri_program = p, ri_accts = a, ri_acct_cnt = na, ri_data = d, ri_data_sz = nd\<rparr>, st)
   }"

fun ref_parse_ixs :: "nat \<Rightarrow> bytes \<times> nat \<Rightarrow> (ref_ix list \<times> bytes \<times> nat) option" where
  "ref_parse_ixs 0 st = Some ([], st)"
| "ref_parse_ixs (Suc n) st = do {
     (ix, st) \<leftarrow> ref_parse_ix st;
     (ixs, st) \<leftarrow> ref_parse_ixs n st;
     Some (ix # ixs, st)
   }"

definition ref_parse :: "bytes \<Rightarrow> ref_txn option" where
  "ref_parse data = do {
     (ns, st) \<leftarrow> ref_cu16 (data, 0);
     st \<leftarrow> ref_skip (ns * 64) st;
     (v, st) \<leftarrow> ref_version st;
     (ns', st) \<leftarrow> ref_byte st;
     (ros, st) \<leftarrow> ref_byte st;
     (rou, st) \<leftarrow> ref_byte st;
     (nk, st) \<leftarrow> ref_cu16 st;
     let ko = snd st;
     st \<leftarrow> ref_skip (32 * nk) st;
     let ho = snd st;
     st \<leftarrow> ref_skip 32 st;
     (ni, st) \<leftarrow> ref_cu16 st;
     (ixs, st) \<leftarrow> ref_parse_ixs ni st;
     (na, st) \<leftarrow> (if v = V0 then ref_cu16 st else Some (0, st));
     if fst st = [] \<and> unat ns' = ns \<and> na = 0
     then Some \<lparr>rt_version = v, rt_nsig = ns, rt_ro_signed = unat ros, rt_ro_unsigned = unat rou,
                rt_keys = ko, rt_key_cnt = nk, rt_hash = ho, rt_ixs = ixs\<rparr>
     else None
   }"

definition ref_lib :: "nat \<Rightarrow> (ref_txn, ref_ix, nat) txn_lib" where
  "ref_lib mtu =
     \<lparr>tl_mtu = mtu, tl_parse = ref_parse, tl_version = (\<lambda>t. version_to_raw (rt_version t)),
      tl_signature_cnt = (\<lambda>t. word_of_nat (rt_nsig t)),
      tl_instr_cnt = (\<lambda>t. word_of_nat (length (rt_ixs t))),
      tl_acct_addr_cnt = (\<lambda>t. word_of_nat (rt_key_cnt t)), tl_addr_table_adtl_cnt = (\<lambda>t. 0),
      tl_instr = (\<lambda>t i. rt_ixs t ! i), tl_acct_addrs = rt_keys, tl_recent_blockhash = rt_hash,
      tl_is_writable = (\<lambda>t i.
        header_writable (rt_nsig t) (rt_ro_signed t) (rt_ro_unsigned t) (rt_key_cnt t) (unat i)),
      tl_is_signer = (\<lambda>t i. header_signer (rt_nsig t) (nat i)), tl_account_cnt = (\<lambda>t cat. rt_key_cnt t),
      tl_acct_iter_init = (\<lambda>t cat. 0), tl_acct_iter_end = 0, tl_acct_iter_idx = (\<lambda>c. c),
      tl_acct_iter_next = (\<lambda>c. c), tl_is_simple_vote = (\<lambda>t data. False),
      tl_program_id = ri_program, tl_acct_cnt = (\<lambda>ix. word_of_nat (ri_acct_cnt ix)),
      tl_data_sz = (\<lambda>ix. word_of_nat (ri_data_sz ix)), tl_instr_accts = ri_accts, tl_instr_data = ri_data\<rparr>"

text \<open>What the parser makes of each part.\<close>

abbreviation cu16_len :: "nat \<Rightarrow> nat" where
  "cu16_len n \<equiv> length (cu16_format (word_of_nat n))"

lemma ref_cu16_format:
  "n < 65536 \<Longrightarrow> ref_cu16 (cu16_format (word_of_nat n) @ r, off) = Some (n, r, off + cu16_len n)"
  using cu16_format_length(1) [of "word_of_nat n"]
  by (auto simp: ref_cu16_def cu16_read_format unat_u16_small)

lemma ref_skip_append: "length x = n \<Longrightarrow> ref_skip n (x @ r, off) = Some (r, off + n)"
  by (auto simp: ref_skip_def)

definition ref_ix_of :: "nat \<Rightarrow> u8 \<times> bytes \<times> bytes \<Rightarrow> ref_ix" where
  "ref_ix_of off = (\<lambda>(p, refs, d).
     let a = off + 1 + cu16_len (length refs)
     in \<lparr>ri_program = p, ri_accts = a, ri_acct_cnt = length refs,
         ri_data = a + length refs + cu16_len (length d), ri_data_sz = length d\<rparr>)"

lemma ref_parse_ix_bytes:
  assumes "length refs < 65536" and "length d < 65536"
  shows "ref_parse_ix (ix_bytes cu16_format (p, refs, d) @ r, off) =
    Some (ref_ix_of off (p, refs, d), r, off + length (ix_bytes cu16_format (p, refs, d)))"
  using assms
  by (simp add: ref_parse_ix_def ix_bytes_def ref_cu16_format ref_skip_append ref_ix_of_def Let_def ac_simps)

fun ref_ixs_of :: "nat \<Rightarrow> (u8 \<times> bytes \<times> bytes) list \<Rightarrow> ref_ix list" where
  "ref_ixs_of off [] = []"
| "ref_ixs_of off (x # xs) = ref_ix_of off x # ref_ixs_of (off + length (ix_bytes cu16_format x)) xs"

lemma ref_parse_ixs_bytes:
  "list_all (\<lambda>(p, refs, d). length refs < 65536 \<and> length d < 65536) xs \<Longrightarrow>
   ref_parse_ixs (length xs) (concat (map (ix_bytes cu16_format) xs) @ r, off) =
     Some (ref_ixs_of off xs, r, off + length (concat (map (ix_bytes cu16_format) xs)))"
proof (induction xs arbitrary: off)
  case (Cons x xs)
  obtain p refs d where x: "x = (p, refs, d)" by (cases x)
  show ?case using Cons ref_parse_ix_bytes [of refs d p] by (simp add: x ac_simps)
qed simp

lemma ref_ixs_of_nth:
  "i < length xs \<Longrightarrow>
   ref_ixs_of off xs ! i = ref_ix_of (off + length (concat (map (ix_bytes cu16_format) (take i xs)))) (xs ! i)"
proof (induction xs arbitrary: i off)
  case (Cons x xs)
  then show ?case by (cases i) (auto simp: ac_simps)
qed simp

lemma length_ref_ixs_of [simp]: "length (ref_ixs_of off xs) = length xs"
  by (induction xs arbitrary: off) auto

definition ref_of :: "txn_layout \<Rightarrow> ref_txn" where
  "ref_of l =
     \<lparr>rt_version = ly_version l, rt_nsig = ly_nsig l, rt_ro_signed = ly_ro_signed l,
      rt_ro_unsigned = ly_ro_unsigned l, rt_keys = length (layout_head cu16_format l),
      rt_key_cnt = length (ly_keys l),
      rt_hash = length (layout_head cu16_format l) + 32 * length (ly_keys l),
      rt_ixs = ref_ixs_of (length (layout_front cu16_format l)) (ly_ixs l)\<rparr>"

lemma ref_version_layout:
  assumes "n < 128"
  shows "ref_version ((if v = V0 then [0x80] else []) @ word_of_nat n # r, off) =
    Some (v, word_of_nat n # r, off + length (if v = V0 then [0x80 :: u8] else []))"
proof (cases v)
  case Legacy
  have "unat (word_of_nat n :: u8) = n" using assms by (simp add: unat_of_nat take_bit_nat_eq_self)
  then show ?thesis using assms Legacy by (auto simp: ref_version_def)
next
  case V0
  then show ?thesis by (simp add: ref_version_def)
qed

lemma ref_tail_layout:
  "(if v = V0 then ref_cu16 (if v = V0 then cu16_format 0 else [], off)
    else Some (0, if v = V0 then cu16_format 0 else [], off)) =
   Some (0, [], off + length (if v = V0 then cu16_format 0 else []))"
  using ref_cu16_format [of 0 "[]" off] by (cases v) auto

lemma ref_parse_layout:
  assumes l: "layout_ok 64 l"
  shows "ref_parse (layout_bytes cu16_format l) = Some (ref_of l)"
proof -
  have small: "ly_nsig l < 65536" "length (ly_keys l) < 65536" "length (ly_ixs l) < 65536"
    and ns: "ly_nsig l < 128" and sg: "length (ly_sigs l) = ly_nsig l * 64"
    and ks: "length (concat (ly_keys l)) = 32 * length (ly_keys l)" and h: "length (ly_hash l) = 32"
    and ix: "list_all (\<lambda>(p, refs, d). length refs < 65536 \<and> length d < 65536) (ly_ixs l)"
    using l length_concat_fixed by (auto simp: layout_ok_def)
  have b: "unat (word_of_nat (ly_nsig l) :: u8) = ly_nsig l"
    "unat (word_of_nat (ly_ro_signed l) :: u8) = ly_ro_signed l"
    "unat (word_of_nat (ly_ro_unsigned l) :: u8) = ly_ro_unsigned l"
    using l by (simp_all add: layout_ok_def unat_of_nat take_bit_nat_eq_self)
  show ?thesis
    unfolding ref_parse_def layout_bytes_def layout_front_def layout_head_def append_assoc
      append.simps Let_def
    by (simp add: ref_cu16_format small ref_skip_append sg ks h ref_version_layout ns
        ref_parse_ixs_bytes ix ref_tail_layout b ref_of_def layout_front_def layout_head_def ac_simps
        del: cu16_format_def if_split split del: if_split)
qed

lemma ref_describes:
  assumes "layout_ok 64 l"
  shows "describes (ref_lib mtu) cu16_format l (ref_of l)"
proof -
  have "unat (word_of_nat i :: u16) = i" if "i < length (ly_keys l)" for i
    using that assms by (simp add: layout_ok_def unat_u16_small)
  moreover have "describes_ix (ref_lib mtu) cu16_format off x (ref_ix_of off x)" for off x
    by (simp add: describes_ix_def ref_ix_of_def ref_lib_def Let_def split: prod.splits)
  ultimately show ?thesis
    by (simp add: describes_def ref_lib_def ref_of_def ref_ixs_of_nth ix_off_def)
qed

interpretation ref_parser: txn_parser "ref_lib mtu" cu16_format 64 for mtu
proof
  fix l t
  assume "layout_ok 64 l" and "tl_parse (ref_lib mtu) (layout_bytes cu16_format l) = Some t"
  then have "layout_ok 64 l" and "t = ref_of l" using ref_parse_layout by (simp_all add: ref_lib_def)
  then show "describes (ref_lib mtu) cu16_format l t" using ref_describes by blast
qed

section \<open>Built transactions\<close>

text \<open>The layout of the transaction that a sequence of builder calls describes.\<close>

definition layout_of :: "pubkey \<Rightarrow> bytes \<Rightarrow> txn_spec \<Rightarrow> bytes \<Rightarrow> txn_layout" where
  "layout_of k h s sigs =
     (let order = compile_order k (sp_accts s); keys = map fst order
      in \<lparr>ly_version = sp_version s, ly_nsig = n_signers order, ly_sigs = sigs,
          ly_ro_signed = n_ro_signed order, ly_ro_unsigned = n_ro_unsigned order,
          ly_keys = keys, ly_hash = h,
          ly_ixs = map (\<lambda>(prog, accts, d). (word_of_nat (position prog keys),
            map (\<lambda>a. word_of_nat (position a keys)) accts, d)) (sp_ixs s)\<rparr>)"

lemma n_signers_order: "n_signers (compile_order k xs) = n_signers xs"
  unfolding n_signers_def
  by (rule mset_eq_length) (simp add: compile_order_mset)

lemma layout_of_bytes:
  "layout_bytes enc (layout_of k h s sigs) =
     enc (word_of_nat (n_signers (sp_accts s))) @ sigs @ wire_message enc k h s"
proof -
  have "ix_bytes enc (case x of (prog, accts, d) \<Rightarrow> (word_of_nat (position prog keys),
      map (\<lambda>a. word_of_nat (position a keys)) accts, d)) = wire_ix enc keys x" for x keys
    by (simp add: ix_bytes_def wire_ix_def split: prod.splits)
  then show ?thesis
    by (simp add: layout_bytes_def layout_front_def layout_head_def layout_of_def wire_message_def
        Let_def n_signers_order comp_def)
qed

text \<open>Keys and blockhashes of 32 bytes, as the types of the calls say.\<close>

fun op_typed :: "builder_op \<Rightarrow> bool" where
  "op_typed (OpVersion v) \<longleftrightarrow> True"
| "op_typed (OpFeePayer k) \<longleftrightarrow> length k = 32"
| "op_typed (OpBlockhash h) \<longleftrightarrow> length h = 32"
| "op_typed (OpAddSigner k) \<longleftrightarrow> length k = 32"
| "op_typed (OpAddInstruction ix) \<longleftrightarrow>
     length (program_id ix) = 32 \<and> list_all (\<lambda>m. length (meta_pubkey m) = 32) (accounts ix)"

definition spec_typed :: "txn_spec \<Rightarrow> bool" where
  "spec_typed s \<longleftrightarrow>
     list_all (\<lambda>x. length (fst x) = 32) (sp_accts s) \<and> (\<forall>h. sp_blockhash s = Some h \<longrightarrow> length h = 32)"

lemma touch_typed:
  "length k = 32 \<Longrightarrow> list_all (\<lambda>x. length (fst x) = 32) xs \<Longrightarrow>
   list_all (\<lambda>x. length (fst x) = 32) (touch k s w xs)"
  by (auto simp: touch_def list_all_iff)

lemma touch_metas_typed:
  "list_all (\<lambda>m. length (meta_pubkey m) = 32) ms \<Longrightarrow> list_all (\<lambda>x. length (fst x) = 32) xs \<Longrightarrow>
   list_all (\<lambda>x. length (fst x) = 32)
     (fold (\<lambda>m. touch (meta_pubkey m) (is_signer m) (is_writable m)) ms xs)"
  by (induction ms arbitrary: xs) (auto simp: touch_typed)

lemma step_typed: "op_typed x \<Longrightarrow> spec_typed s \<Longrightarrow> spec_typed (spec_step x s)"
  by (cases x) (auto simp: spec_typed_def touch_typed touch_metas_typed)

lemma run_typed: "list_all op_typed xs \<Longrightarrow> spec_typed s \<Longrightarrow> spec_typed (fold spec_step xs s)"
  by (induction xs arbitrary: s) (auto simp: step_typed)

lemma layout_of_ok:
  assumes lim: "limits_ok sys" and run: "run_ops sys ops (builder_new sys) = (Ok r, b)"
    and typed: "list_all op_typed ops"
  defines "s \<equiv> fold spec_step ops spec_empty"
  assumes h: "sp_blockhash s = Some h" and sg: "n_signers (sp_accts s) < 128"
    and sigs: "length sigs = n_signers (sp_accts s) * sz"
  shows "layout_ok sz (layout_of k h s sigs)"
proof -
  note new = run_new_refines [OF lim run]
  have abs: "builder_abs b = s" unfolding s_def by (rule new(2))
  have "spec_typed s" unfolding s_def by (rule run_typed [OF typed]) (simp add: spec_typed_def spec_empty_def)
  then have t: "\<forall>x \<in> set (sp_accts s). length (fst x) = 32" "length h = 32"
    using h by (auto simp: spec_typed_def list_all_iff)
  let ?o = "compile_order k (sp_accts s)"
  have o: "set ?o = set (sp_accts s)" "length ?o = length (sp_accts s)"
    using compile_order_mset [of k "sp_accts s"] by (auto dest: mset_eq_setD mset_eq_length)
  have "length ?o < 256" "length (sp_ixs s) < 65536"
    using new(1) lim o(2) unfolding abs [symmetric]
    by (auto simp: builder_abs_def builder_wf_defs limits_ok_def)
  moreover have "n_ro_signed ?o \<le> length ?o" "n_ro_unsigned ?o \<le> length ?o"
    by (simp_all add: n_ro_signed_def n_ro_unsigned_def)
  moreover have "length accts < 65536 \<and> length d < 65536" if "(prog, accts, d) \<in> set (sp_ixs s)" for prog accts d
    using ixs_in_keys(3,4) [OF lim run, folded s_def, OF that] by simp
  ultimately show ?thesis
    using t sg sigs
    by (auto simp: layout_ok_def layout_of_def Let_def n_signers_order list_all_iff o)
qed

text \<open>A parsed transaction reads as the calls described it.\<close>

definition reads_back ::
  "('t, 'i, 'c) txn_lib \<Rightarrow> 't transaction \<Rightarrow> pubkey \<Rightarrow> bytes \<Rightarrow> txn_spec \<Rightarrow> bool" where
  "reads_back lib tx k h s \<longleftrightarrow>
     (let order = compile_order k (sp_accts s) in
      tx_version lib tx = sp_version s \<and>
      tx_signature_count lib tx = n_signers (sp_accts s) \<and>
      tx_accounts lib tx = (Ok (map fst order) :: (pubkey list, parse_error) res) \<and>
      tx_fee_payer lib tx = (Ok k :: (pubkey, parse_error) res) \<and>
      tx_recent_blockhash lib tx = (Ok h :: (bytes, parse_error) res) \<and>
      tx_instruction_count lib tx = length (sp_ixs s) \<and>
      (\<forall>i < length (sp_ixs s). case sp_ixs s ! i of (prog, accts, d) \<Rightarrow>
        \<exists>ix. tx_instruction lib tx i = Some ix \<and>
          ix_program_id_address lib tx ix = (Ok prog :: (pubkey, parse_error) res) \<and>
          ix_account_addresses lib tx ix = (Ok accts :: (pubkey list, parse_error) res) \<and>
          ix_data_bytes lib tx ix = (Ok d :: (bytes, parse_error) res)) \<and>
      (\<forall>i < length order.
        tx_is_account_signer lib tx (word_of_nat i) = fst (snd (order ! i)) \<and>
        tx_is_account_writable lib tx (word_of_nat i) = snd (snd (order ! i))))"

lemma resolve_positions:
  assumes "length keys < 256"
  shows "set accts \<subseteq> set keys \<Longrightarrow>
    resolve_indices keys (map (\<lambda>a. word_of_nat (position a keys)) accts) = Ok accts"
  by (induction accts) (auto simp: index_def position_u8 [OF _ assms])

lemma version_raw: "version_from_raw (version_to_raw v) = Some v"
  by (cases v) (simp_all add: version_from_raw_def version_to_raw_def FD_TXN_VLEGACY_def FD_TXN_V0_def)

text \<open>The order of the keys: the payer first, and the header gives each its privileges.\<close>

lemma order_of_run:
  assumes lim: "limits_ok sys" and run: "run_ops sys ops (builder_new sys) = (Ok r, b)"
  defines "s \<equiv> fold spec_step ops spec_empty"
  assumes k: "sp_fee_payer s = Some k"
  defines "order \<equiv> compile_order k (sp_accts s)"
  shows "order \<noteq> []" and "fst (order ! 0) = k"
    and "i < length order \<Longrightarrow> header_signer (n_signers order) i = fst (snd (order ! i))"
    and "i < length order \<Longrightarrow> header_writable (n_signers order) (n_ro_signed order)
      (n_ro_unsigned order) (length order) i = snd (snd (order ! i))"
proof -
  note new = run_new_refines [OF lim run]
  have abs: "builder_abs b = s" unfolding s_def by (rule new(2))
  have dist: "distinct (map fst (sp_accts s))" using abs_wf_accts [OF new(1)] unfolding abs .
  have "fee_payer b = Some k" using k builder_abs_simps(2) [of b] by (simp add: abs)
  then have payer: "(k, True, True) \<in> set (sp_accts s)"
    using payer_in_spec [OF new(1)] unfolding abs by blast
  note ord = compile_order_facts [OF dist payer, folded order_def]
  show "order \<noteq> []" using ord(2) payer by auto
  show "fst (order ! 0) = k" by (rule ord(3))
  show "i < length order \<Longrightarrow> header_signer (n_signers order) i = fst (snd (order ! i))"
    "i < length order \<Longrightarrow> header_writable (n_signers order) (n_ro_signed order)
      (n_ro_unsigned order) (length order) i = snd (snd (order ! i))" by (fact ord(4), fact ord(5))
qed

text \<open>One instruction of an accepted layout.\<close>

lemma instruction_resolved:
  assumes parser: "txn_parser lib enc sz" and ok: "layout_ok sz (layout_of k h s sigs)"
    and t: "tl_parse lib (layout_bytes enc (layout_of k h s sigs)) = Some t"
    and i: "i < length (sp_ixs s)" "sp_ixs s ! i = (prog, accts, d)"
  defines "keys \<equiv> map fst (compile_order k (sp_accts s))"
    and "tx \<equiv> \<lparr>tx_data = layout_bytes enc (layout_of k h s sigs), tx_desc = t\<rparr>"
  assumes keys: "prog \<in> set keys" "set accts \<subseteq> set keys" "length keys < 256"
  shows "\<exists>ix. tx_instruction lib tx i = Some ix \<and>
    ix_program_id_address lib tx ix = (Ok prog :: (pubkey, parse_error) res) \<and>
    ix_account_addresses lib tx ix = (Ok accts :: (pubkey list, parse_error) res) \<and>
    ix_data_bytes lib tx ix = (Ok d :: (bytes, parse_error) res)"
proof -
  let ?l = "layout_of k h s sigs" and ?refs = "map (\<lambda>a. word_of_nat (position a keys) :: u8) accts"
  have "i < length (ly_ixs ?l)" "ly_ixs ?l ! i = (word_of_nat (position prog keys), ?refs, d)"
    using i by (simp_all add: layout_of_def Let_def keys_def)
  from txn_parser.instruction_read [OF parser ok t this, folded tx_def]
  obtain ix where ix: "tx_instruction lib tx i = Some ix"
    "ix_program_id lib ix = word_of_nat (position prog keys)"
    "ix_account_indices lib tx ix = (Ok ?refs :: (bytes, parse_error) res)"
    "ix_data_bytes lib tx ix = (Ok d :: (bytes, parse_error) res)"
    by blast
  have acc: "tx_accounts lib tx = (Ok keys :: (pubkey list, parse_error) res)"
    using txn_parser.accounts_read [OF parser ok t] by (simp add: tx_def layout_of_def Let_def keys_def)
  show ?thesis
    using ix acc position_u8 [OF keys(1,3)] resolve_positions [OF keys(3,2)]
    by (auto simp: ix_program_id_address_def ix_account_addresses_def index_def)
qed

lemma reads_back_layout:
  assumes lim: "limits_ok sys" and run: "run_ops sys ops (builder_new sys) = (Ok r, b)"
    and typed: "list_all op_typed ops" and parser: "txn_parser lib enc sz"
  defines "s \<equiv> fold spec_step ops spec_empty"
  assumes k: "sp_fee_payer s = Some k" and h: "sp_blockhash s = Some h"
    and sg: "n_signers (sp_accts s) < 128" and sigs: "length sigs = n_signers (sp_accts s) * sz"
    and t: "tl_parse lib (layout_bytes enc (layout_of k h s sigs)) = Some t"
  shows "reads_back lib \<lparr>tx_data = layout_bytes enc (layout_of k h s sigs), tx_desc = t\<rparr> k h s"
proof -
  let ?l = "layout_of k h s sigs" and ?o = "compile_order k (sp_accts s)"
  let ?tx = "\<lparr>tx_data = layout_bytes enc ?l, tx_desc = t\<rparr>"
  have ok: "layout_ok sz ?l" by (rule layout_of_ok [OF lim run typed, folded s_def, OF h sg sigs])
  note ds = txn_parser.parse_describes [OF parser ok t, unfolded describes_def]
  have l: "ly_keys ?l = map fst ?o" "ly_hash ?l = h" "ly_version ?l = sp_version s"
    "ly_nsig ?l = n_signers ?o" "length (ly_ixs ?l) = length (sp_ixs s)"
    "ly_ro_signed ?l = n_ro_signed ?o" "ly_ro_unsigned ?l = n_ro_unsigned ?o"
    by (simp_all add: layout_of_def Let_def)
  have small: "length ?o < 65536" "length (sp_ixs s) < 65536" using ok l by (simp_all add: layout_ok_def)
  note ord = order_of_run [OF lim run, folded s_def, OF k]
  have "tx_is_account_signer lib ?tx (word_of_nat i) = fst (snd (?o ! i))"
    "tx_is_account_writable lib ?tx (word_of_nat i) = snd (snd (?o ! i))" if "i < length ?o" for i
    using ds l ord(3,4) [OF that] that small(1)
    by (simp_all add: tx_is_account_signer_def tx_is_account_writable_def uint_u16_small)
  moreover have "case sp_ixs s ! i of (prog, accts, d) \<Rightarrow> \<exists>ix. tx_instruction lib ?tx i = Some ix \<and>
      ix_program_id_address lib ?tx ix = (Ok prog :: (pubkey, parse_error) res) \<and>
      ix_account_addresses lib ?tx ix = (Ok accts :: (pubkey list, parse_error) res) \<and>
      ix_data_bytes lib ?tx ix = (Ok d :: (bytes, parse_error) res)" if i: "i < length (sp_ixs s)" for i
  proof -
    obtain prog accts d where ix: "sp_ixs s ! i = (prog, accts, d)" by (cases "sp_ixs s ! i")
    then have "(prog, accts, d) \<in> set (sp_ixs s)" using nth_mem [OF i] by simp
    note ks = ixs_in_keys [OF lim run, folded s_def, OF this]
    show ?thesis using instruction_resolved [OF parser ok t i ix ks(1,2,5)] by (simp add: ix)
  qed
  moreover have "unat (word_of_nat (n_signers ?o) :: u8) = n_signers ?o"
    using sg by (simp add: n_signers_order unat_of_nat take_bit_nat_eq_self)
  ultimately show ?thesis
    using txn_parser.accounts_read [OF parser ok t] txn_parser.blockhash_read [OF parser ok t] ds l ord(1,2) small
    by (auto simp: reads_back_def Let_def tx_version_def version_raw tx_signature_count_def n_signers_order
        tx_fee_payer_def index_def tx_instruction_count_def unat_u16_small)
qed

section \<open>Properties\<close>

lemma transaction_parse_Ok:
  "transaction_parse lib d = Ok tx \<longleftrightarrow>
     d \<noteq> [] \<and> length d \<le> tl_mtu lib \<and> (\<exists>t. tl_parse lib d = Some t \<and> tx = \<lparr>tx_data = d, tx_desc = t\<rparr>)"
  by (auto simp: transaction_parse_def split: option.splits)

text \<open>C2: what is built reads back as it was described. A transaction built after any sequence of
  successful calls is accepted by \<open>Transaction::parse\<close>, and its version, signature count, account
  keys, fee payer, blockhash, the program, accounts and data of every instruction and the
  privileges of every account are those the calls described; filling in the signatures does not
  change this.\<close>

theorem build_parse_round_trip:
  assumes lim: "limits_ok sys" and cu: "cu16_ok sys" and sig: "SIG_MAX sys < 128"
    and run: "run_ops sys ops (builder_new sys) = (Ok r, b)" and build: "builder_build sys b = Ok u"
    and typed: "list_all op_typed ops" and parser: "txn_parser lib (fd_cu16_enc sys) (SIG_SZ sys)"
    and mtu: "tl_mtu lib = MTU sys" and same: "\<And>d. fd_txn_parse_core sys d = 0 \<longleftrightarrow> tl_parse lib d = None"
  defines "s \<equiv> fold spec_step ops spec_empty"
  shows "\<exists>k h. sp_fee_payer s = Some k \<and> sp_blockhash s = Some h \<and>
    (\<exists>tx. transaction_parse lib (as_bytes u) = Ok tx \<and> reads_back lib tx k h s) \<and>
    (\<forall>sigs tx. length sigs = signature_count u * SIG_SZ sys \<longrightarrow>
       transaction_parse lib
         (fd_cu16_enc sys (word_of_nat (signature_count u)) @ sigs @ message_bytes u) = Ok tx \<longrightarrow>
       reads_back lib tx k h s)"
proof -
  let ?enc = "fd_cu16_enc sys" and ?n = "n_signers (sp_accts s)"
  note new = run_new_refines [OF lim run]
  have abs: "builder_abs b = s" unfolding s_def by (rule new(2))
  have acc: "abs_accts b = sp_accts s" using builder_abs_simps(1) [of b] by (simp add: abs)
  obtain k h where b: "fee_payer b = Some k" "blockhash b = Some h"
    and u: "u = unsigned_of sys ?n (wire_txn ?enc (SIG_SZ sys) k h s)" "?n \<le> SIG_MAX sys" "?n < 256"
    "length (wire_txn ?enc (SIG_SZ sys) k h s) \<le> MTU sys"
    "fd_txn_parse_core sys (wire_txn ?enc (SIG_SZ sys) k h s) \<noteq> 0"
    by (rule build_OkE [OF lim cu new(1) build, unfolded abs acc])
  have kh: "sp_fee_payer s = Some k" "sp_blockhash s = Some h"
    using b unfolding abs [symmetric] by (simp_all add: builder_abs_def)
  have bytes: "as_bytes u = ?enc (word_of_nat ?n) @ replicate (?n * SIG_SZ sys) 0 @ wire_message ?enc k h s"
    "message_bytes u = wire_message ?enc k h s" "signature_count u = ?n"
    using unsigned_of_bytes [OF u(4,3) wire_txn_def] by (simp_all add: u(1) wire_txn_def)
  have fits: "reads_back lib tx k h s" if "length sigs = ?n * SIG_SZ sys"
    and "transaction_parse lib (?enc (word_of_nat ?n) @ sigs @ wire_message ?enc k h s) = Ok tx" for sigs tx
    using reads_back_layout [OF lim run typed parser, folded s_def, OF kh _ that(1)] that(2) u(2) sig
    by (auto simp: transaction_parse_Ok layout_of_bytes)
  have "1 \<le> length (?enc (word_of_nat ?n))" using cu by (simp add: cu16_ok_def)
  then have "as_bytes u \<noteq> []" by (auto simp: bytes)
  moreover have "as_bytes u = wire_txn ?enc (SIG_SZ sys) k h s" by (simp add: bytes wire_txn_def)
  ultimately obtain tx where "transaction_parse lib (as_bytes u) = Ok tx"
    using u(4,5) mtu same by (auto simp: transaction_parse_Ok)
  moreover from this have "reads_back lib tx k h s"
    using fits [of "replicate (?n * SIG_SZ sys) 0" tx] by (simp add: bytes)
  ultimately show ?thesis using fits kh bytes(2,3) by auto
qed

text \<open>The keys a call mentions are the keys of the account list.\<close>

fun op_keys :: "builder_op \<Rightarrow> pubkey list" where
  "op_keys (OpFeePayer k) = [k]"
| "op_keys (OpAddSigner k) = [k]"
| "op_keys (OpAddInstruction ix) = program_id ix # map meta_pubkey (accounts ix)"
| "op_keys x = []"

lemma keys_touch: "fst ` set (touch k s w xs) = insert k (fst ` set xs)"
  using arg_cong [OF map_fst_touch [of k s w xs], of set] by auto

lemma keys_touch_metas:
  "fst ` set (fold (\<lambda>m. touch (meta_pubkey m) (is_signer m) (is_writable m)) ms xs) =
    meta_pubkey ` set ms \<union> fst ` set xs"
  by (induction ms arbitrary: xs) (auto simp: keys_touch)

lemma keys_step: "fst ` set (sp_accts (spec_step x s)) = set (op_keys x) \<union> fst ` set (sp_accts s)"
  by (cases x) (auto simp: keys_touch keys_touch_metas)

lemma keys_run: "fst ` set (sp_accts (fold spec_step xs s)) = (\<Union>x \<in> set xs. set (op_keys x)) \<union> fst ` set (sp_accts s)"
  by (induction xs arbitrary: s) (auto simp: keys_step)

lemma order_asks:
  assumes dist: "distinct (map fst (sp_accts s))" and s: "s = fold spec_step ops spec_empty"
    and x: "x \<in> set (sp_accts s)"
  shows "fst (snd x) = (\<exists>y \<in> set ops. asks_signer (fst x) y)" and "snd (snd x) = (\<exists>y \<in> set ops. asks_writable (fst x) y)"
proof -
  have "priv (sp_accts s) (fst x) = snd x"
    using dist x by (metis map_of_eq_Some_iff option.case(2) priv_def prod.collapse)
  then show "fst (snd x) = (\<exists>y \<in> set ops. asks_signer (fst x) y)" "snd (snd x) = (\<exists>y \<in> set ops. asks_writable (fst x) y)"
    using priv_run [of ops spec_empty "fst x"] by (auto simp: s spec_empty_def priv_def)
qed

text \<open>C8: the bytes of a built message give every account exactly the privileges the calls asked
  for. They are the version prefix, three header bytes, the number of keys and the keys
  themselves, each key that some call mentioned once, the fee payer first; and a reader who
  applies the three header bytes finds the key at a position to be a signer (writable) iff some
  call named it as one.\<close>

theorem message_privileges:
  assumes lim: "limits_ok sys" and cu: "cu16_ok sys"
    and run: "run_ops sys ops (builder_new sys) = (Ok r, b)" and build: "builder_build sys b = Ok u"
    and typed: "list_all op_typed ops"
  defines "s \<equiv> fold spec_step ops spec_empty"
  shows "\<exists>keys rest signers ro_signed ro_unsigned.
    message_bytes u = (if sp_version s = V0 then [0x80] else []) @ [signers, ro_signed, ro_unsigned] @
      fd_cu16_enc sys (word_of_nat (length keys)) @ concat keys @ rest \<and>
    list_all (\<lambda>k. length k = 32) keys \<and> distinct keys \<and> length keys < 256 \<and>
    set keys = (\<Union>x \<in> set ops. set (op_keys x)) \<and>
    keys \<noteq> [] \<and> sp_fee_payer s = Some (hd keys) \<and>
    (\<forall>i < length keys.
       header_signer (unat signers) i = (\<exists>x \<in> set ops. asks_signer (keys ! i) x) \<and>
       header_writable (unat signers) (unat ro_signed) (unat ro_unsigned) (length keys) i =
         (\<exists>x \<in> set ops. asks_writable (keys ! i) x))"
proof -
  note new = run_new_refines [OF lim run]
  have abs: "builder_abs b = s" unfolding s_def by (rule new(2))
  have acc: "abs_accts b = sp_accts s" using builder_abs_simps(1) [of b] by (simp add: abs)
  obtain k h where b: "fee_payer b = Some k" "blockhash b = Some h"
    and u: "u = unsigned_of sys (n_signers (sp_accts s)) (wire_txn (fd_cu16_enc sys) (SIG_SZ sys) k h s)"
    "n_signers (sp_accts s) < 256" "length (wire_txn (fd_cu16_enc sys) (SIG_SZ sys) k h s) \<le> MTU sys"
    by (rule build_OkE [OF lim cu new(1) build, unfolded abs acc])
  define order where "order = compile_order k (sp_accts s)"
  have k: "sp_fee_payer s = Some k" using b(1) unfolding abs [symmetric] by (simp add: builder_abs_def)
  note ord = order_of_run [OF lim run, folded s_def, OF k, folded order_def]
  have dist: "distinct (map fst (sp_accts s))" using abs_wf_accts [OF new(1)] unfolding abs .
  have ms: "mset order = mset (sp_accts s)" unfolding order_def by (rule compile_order_mset)
  then have set: "set order = set (sp_accts s)" "length order = length (sp_accts s)" "distinct (map fst order)"
    using dist by (auto dest: mset_eq_setD mset_eq_length) (metis mset_eq_imp_distinct_iff mset_map)
  have len: "length order < 256"
    using new(1) lim set(2) unfolding abs [symmetric]
    by (auto simp: builder_abs_def abs_accts_def builder_wf_defs limits_ok_def)
  then have le: "n_signers order < 256" "n_ro_signed order < 256" "n_ro_unsigned order < 256"
    by (auto simp: n_signers_def n_ro_signed_def n_ro_unsigned_def intro: le_less_trans [OF length_filter_le])
  have "spec_typed s" unfolding s_def by (rule run_typed [OF typed]) (simp add: spec_typed_def spec_empty_def)
  then have typed32: "list_all (\<lambda>k. length k = 32) (map fst order)" by (auto simp: spec_typed_def list_all_iff set)
  have "message_bytes u = wire_message (fd_cu16_enc sys) k h s"
    using unsigned_of_bytes [OF u(3,2) wire_txn_def] by (simp add: u(1) wire_txn_def)
  then obtain rest where bytes: "message_bytes u = (if sp_version s = V0 then [0x80] else []) @
      [word_of_nat (n_signers order), word_of_nat (n_ro_signed order), word_of_nat (n_ro_unsigned order)] @
      fd_cu16_enc sys (word_of_nat (length (map fst order))) @ concat (map fst order) @ rest"
    by (simp add: wire_message_def Let_def order_def)
  have asks: "fst (snd (order ! i)) = (\<exists>x \<in> set ops. asks_signer (fst (order ! i)) x)"
    "snd (snd (order ! i)) = (\<exists>x \<in> set ops. asks_writable (fst (order ! i)) x)" if "i < length order" for i
    using order_asks [OF dist s_def [THEN meta_eq_to_obj_eq], of "order ! i"] nth_mem [OF that] set(1) by simp_all
  have small: "unat (word_of_nat n :: u8) = n" if "n < 256" for n
    using that by (simp add: unat_of_nat take_bit_nat_eq_self)
  have "set (map fst order) = (\<Union>x \<in> set ops. set (op_keys x))"
    using keys_run [of ops spec_empty] by (simp add: set s_def) (simp add: spec_empty_def)
  then show ?thesis
    using bytes typed32 set(3) len k ord asks le
    by (intro exI [of _ "map fst order"] exI [of _ rest] exI [of _ "word_of_nat (n_signers order)"]
        exI [of _ "word_of_nat (n_ro_signed order)"] exI [of _ "word_of_nat (n_ro_unsigned order)"])
      (auto simp: small hd_conv_nth)
qed

text \<open>The fee payer signs and is writable, the account of the instruction is only writable, and
  the program is neither.\<close>

theorem message_privileges_witness:
  "\<exists>u keys rest. builder_build sample_sys sample_builder = Ok u \<and>
    message_bytes u = [1, 0, 1, 3] @ concat keys @ rest \<and> set keys = {key1, key2, key3} \<and>
    header_signer 1 0 \<and> hd keys = key1"
proof -
  have "(case builder_build sample_sys sample_builder of Ok u \<Rightarrow> take 4 (message_bytes u) = [1, 0, 1, 3] | _ \<Rightarrow> False)"
    by code_simp
  then obtain u where u: "builder_build sample_sys sample_builder = Ok u" "take 4 (message_bytes u) = [1, 0, 1, 3]"
    by (auto split: res.splits)
  have typed: "list_all op_typed sample_ops" by code_simp
  have keys: "(\<Union>x \<in> set sample_ops. set (op_keys x)) = {key1, key2, key3}" by (auto simp: sample_ops_def sample_ix_def)
  have s: "sp_version (fold spec_step sample_ops spec_empty) = Legacy"
    "sp_fee_payer (fold spec_step sample_ops spec_empty) = Some key1" by code_simp+
  have card: "distinct keys \<Longrightarrow> set keys = {key1, key2, key3} \<Longrightarrow> length keys = 3" for keys :: "pubkey list"
  proof -
    assume "distinct keys" "set keys = {key1, key2, key3}"
    moreover have "card {key1, key2, key3} = 3" by (simp add: key1_def key2_def key3_def numeral_eq_Suc)
    ultimately show ?thesis using distinct_card by fastforce
  qed
  have enc: "cu16_format 3 = [3]" by code_simp
  show ?thesis
    using message_privileges [OF sample_limits sample_cu16 sample_run u(1) typed] u s card
    by (fastforce simp: keys sample_sys_fields enc header_signer_def)
qed

definition parsing_sys :: txn_sys where
  "parsing_sys = sample_sys\<lparr>fd_txn_parse_core := (\<lambda>d. if ref_parse d = None then 0 else length d)\<rparr>"

theorem build_parse_round_trip_witness:
  "\<exists>u tx. builder_build parsing_sys (snd (run_ops parsing_sys sample_ops (builder_new parsing_sys))) = Ok u \<and>
     transaction_parse (ref_lib 240) (as_bytes u) = Ok tx \<and>
     reads_back (ref_lib 240) tx key1 (replicate 32 9) sample_spec"
proof -
  let ?b = "snd (run_ops parsing_sys sample_ops (builder_new parsing_sys))"
  have "(case builder_build parsing_sys ?b of Ok u \<Rightarrow> True | _ \<Rightarrow> False)" by code_simp
  then obtain u where u: "builder_build parsing_sys ?b = Ok u" by (auto split: res.splits)
  have "fst (run_ops parsing_sys sample_ops (builder_new parsing_sys)) = Ok ()" by code_simp
  then have run: "run_ops parsing_sys sample_ops (builder_new parsing_sys) = (Ok (), ?b)" by (simp add: prod_eq_iff)
  have sys: "limits_ok parsing_sys" "cu16_ok parsing_sys" "SIG_MAX parsing_sys < 128"
    "MTU parsing_sys = 240" "fd_cu16_enc parsing_sys = cu16_format" "SIG_SZ parsing_sys = 64"
    using sample_limits sample_cu16 by (simp_all add: parsing_sys_def sample_sys_def limits_ok_def cu16_ok_def)
  have core: "fd_txn_parse_core parsing_sys d = 0 \<longleftrightarrow> tl_parse (ref_lib 240) d = None" for d
    by (auto simp: parsing_sys_def ref_lib_def ref_parse_def ref_cu16_def)
  have "list_all op_typed sample_ops" by code_simp
  moreover have "sp_fee_payer sample_spec = Some key1" "sp_blockhash sample_spec = Some (replicate 32 9)"
    by code_simp+
  ultimately show ?thesis
    using build_parse_round_trip [OF sys(1-3) run u, of "ref_lib 240"] ref_parser.txn_parser_axioms [of 240] core u
    by (auto simp: sys sample_spec_def ref_lib_def)
qed

end
