(* ===== verification/Json_Scan.thy ===== *)
theory Json_Scan
  imports Prelude
begin

text \<open>
  The zero-allocation JSON scanner, \<open>fd_rpc/src/json_scan.rs\<close>. A \<open>JsonScan\<close> is the byte
  slice it looks at and a position; the methods that take \<open>&mut self\<close> return the new
  position with their result. A slice \<open>data[pos..]\<close> whose start is beyond the end panics.
\<close>

section \<open>Bytes\<close>

abbreviation b_quote :: u8 where "b_quote \<equiv> 34"
abbreviation b_backslash :: u8 where "b_backslash \<equiv> 92"
abbreviation b_lbrace :: u8 where "b_lbrace \<equiv> 123"
abbreviation b_rbrace :: u8 where "b_rbrace \<equiv> 125"
abbreviation b_lbracket :: u8 where "b_lbracket \<equiv> 91"
abbreviation b_rbracket :: u8 where "b_rbracket \<equiv> 93"
abbreviation b_colon :: u8 where "b_colon \<equiv> 58"
abbreviation b_comma :: u8 where "b_comma \<equiv> 44"
abbreviation b_minus :: u8 where "b_minus \<equiv> 45"
abbreviation b_plus :: u8 where "b_plus \<equiv> 43"
abbreviation b_dot :: u8 where "b_dot \<equiv> 46"

definition is_ws :: "u8 \<Rightarrow> bool" where
  "is_ws c \<longleftrightarrow> c = 32 \<or> c = 9 \<or> c = 10 \<or> c = 13"

definition is_ascii_digit :: "u8 \<Rightarrow> bool" where
  "is_ascii_digit c \<longleftrightarrow> 48 \<le> c \<and> c \<le> 57"

definition starts_with :: "bytes \<Rightarrow> bytes \<Rightarrow> bool" where
  "starts_with s lit \<longleftrightarrow> take (length lit) s = lit"

section \<open>Skipping\<close>

record json_scan =
  js_data :: bytes
  js_pos :: nat

type_synonym 'a scan_res = "('a, unit) res"

definition peek :: "bytes \<Rightarrow> nat \<Rightarrow> u8 option" where
  "peek data pos = (if pos < length data then Some (data ! pos) else None)"

function skip_ws :: "bytes \<Rightarrow> nat \<Rightarrow> nat" where
  "skip_ws data pos =
     (if pos < length data \<and> is_ws (data ! pos) then skip_ws data (pos + 1) else pos)"
  by pat_completeness auto
termination by (relation "measure (\<lambda>(data, pos). length data - pos)") auto

function skip_digits :: "bytes \<Rightarrow> nat \<Rightarrow> nat" where
  "skip_digits data pos =
     (if pos < length data \<and> is_ascii_digit (data ! pos) then skip_digits data (pos + 1) else pos)"
  by pat_completeness auto
termination by (relation "measure (\<lambda>(data, pos). length data - pos)") auto

text \<open>The loop of \<open>skip_string\<close>: an escape skips two bytes, possibly past the end.\<close>

function skip_string_loop :: "bytes \<Rightarrow> nat \<Rightarrow> bool \<times> nat" where
  "skip_string_loop data pos =
     (if pos \<ge> length data then (False, pos)
      else if data ! pos = b_backslash then skip_string_loop data (pos + 2)
      else if data ! pos = b_quote then (True, pos + 1)
      else skip_string_loop data (pos + 1))"
  by pat_completeness auto
termination by (relation "measure (\<lambda>(data, pos). length data - pos)") auto

definition skip_string :: "bytes \<Rightarrow> nat \<Rightarrow> bool \<times> nat" where
  "skip_string data pos =
     (if peek data pos \<noteq> Some b_quote then (False, pos) else skip_string_loop data (pos + 1))"

text \<open>The parts of \<open>skip_number\<close>: sign, then digits, fraction and exponent.\<close>

definition skip_sign :: "bytes \<Rightarrow> nat \<Rightarrow> nat" where
  "skip_sign data pos = (if pos < length data \<and> data ! pos = b_minus then pos + 1 else pos)"

definition skip_fraction :: "bytes \<Rightarrow> nat \<Rightarrow> nat" where
  "skip_fraction data pos =
     (if pos < length data \<and> data ! pos = b_dot then skip_digits data (pos + 1) else pos)"

definition skip_exponent :: "bytes \<Rightarrow> nat \<Rightarrow> nat" where
  "skip_exponent data pos =
     (if pos < length data \<and> (data ! pos = 101 \<or> data ! pos = 69)
      then let p = pos + 1;
               p' = (if p < length data \<and> (data ! p = b_plus \<or> data ! p = b_minus) then p + 1 else p)
           in skip_digits data p'
      else pos)"

definition skip_number :: "bytes \<Rightarrow> nat \<Rightarrow> bool \<times> nat" where
  "skip_number data start =
     (let pos = skip_sign data start
      in if pos \<ge> length data \<or> \<not> is_ascii_digit (data ! pos) then (False, start)
         else (True, skip_exponent data (skip_fraction data (skip_digits data pos))))"

definition skip_literal :: "bytes \<Rightarrow> bytes \<Rightarrow> nat \<Rightarrow> (bool \<times> nat) scan_res" where
  "skip_literal lit data pos =
     res_bind (slice data pos (length data)) (\<lambda>s.
     Ok (if starts_with s lit then (True, pos + length lit) else (False, pos)))"

section \<open>Monotonicity of the leaf scanners\<close>

declare skip_ws.simps [simp del] skip_digits.simps [simp del] skip_string_loop.simps [simp del]

lemma skip_ws_ge: "pos \<le> skip_ws data pos"
  by (induction data pos rule: skip_ws.induct) (subst skip_ws.simps, auto)

lemma skip_ws_le: "pos \<le> length data \<Longrightarrow> skip_ws data pos \<le> length data"
  by (induction data pos rule: skip_ws.induct) (subst skip_ws.simps, auto)

lemma skip_digits_ge: "pos \<le> skip_digits data pos"
  by (induction data pos rule: skip_digits.induct) (subst skip_digits.simps, auto)

lemma skip_digits_le: "pos \<le> length data \<Longrightarrow> skip_digits data pos \<le> length data"
  by (induction data pos rule: skip_digits.induct) (subst skip_digits.simps, auto)

lemma skip_string_loop_ge: "pos \<le> snd (skip_string_loop data pos)"
  by (induction data pos rule: skip_string_loop.induct) (subst skip_string_loop.simps, auto)

lemma skip_string_loop_True:
  "skip_string_loop data pos = (True, p) \<Longrightarrow> pos < p \<and> p \<le> length data"
proof (induction data pos rule: skip_string_loop.induct)
  case (1 data pos)
  from "1.prems" show ?case
    by (subst (asm) skip_string_loop.simps) (use "1.IH" in \<open>fastforce split: if_splits\<close>)
qed

lemma skip_string_ge: "pos \<le> snd (skip_string data pos)"
  using skip_string_loop_ge [of "pos + 1" data] by (simp add: skip_string_def)

lemma skip_string_True:
  "skip_string data pos = (True, p) \<Longrightarrow> pos + 1 < p \<and> p \<le> length data \<and> pos < length data"
  using skip_string_loop_True [of data "pos + 1" p]
  by (auto simp: skip_string_def peek_def split: if_splits)

lemma skip_number_ge: "pos \<le> snd (skip_number data pos)"
proof -
  have "pos \<le> skip_sign data pos" by (simp add: skip_sign_def)
  moreover have "p \<le> skip_fraction data p" for p
    using skip_digits_ge [of "p + 1" data] by (auto simp: skip_fraction_def)
  moreover have "p \<le> skip_exponent data p" for p
    using skip_digits_ge [of "p + 1" data] skip_digits_ge [of "p + 2" data]
    by (auto simp: skip_exponent_def Let_def)
  ultimately have "pos \<le> skip_exponent data (skip_fraction data
      (skip_digits data (skip_sign data pos)))"
    using skip_digits_ge [of "skip_sign data pos" data] by (meson le_trans)
  then show ?thesis by (simp add: skip_number_def Let_def)
qed

lemma skip_number_le:
  assumes "pos \<le> length data" shows "snd (skip_number data pos) \<le> length data"
proof -
  have "p \<le> length data \<Longrightarrow> skip_fraction data p \<le> length data" for p
    using skip_digits_le [of "p + 1" data] by (auto simp: skip_fraction_def)
  moreover have "p \<le> length data \<Longrightarrow> skip_exponent data p \<le> length data" for p
    using skip_digits_le [of "p + 1" data] skip_digits_le [of "p + 2" data]
    by (auto simp: skip_exponent_def Let_def)
  ultimately show ?thesis
    using assms skip_digits_le [of "skip_sign data pos" data]
    by (auto simp: skip_number_def skip_sign_def Let_def)
qed

lemma skip_literal_Ok:
  "pos \<le> length data \<Longrightarrow> skip_literal lit data pos =
    Ok (if starts_with (drop pos data) lit then (True, pos + length lit) else (False, pos))"
  by (simp add: skip_literal_def slice_def)

lemma skip_literal_ge: "skip_literal lit data pos = Ok (b, p) \<Longrightarrow> pos \<le> p"
  by (auto simp: skip_literal_def res_simps split: if_splits)

lemma skip_literal_le: "skip_literal lit data pos = Ok (True, p) \<Longrightarrow> p \<le> length data"
proof -
  assume "skip_literal lit data pos = Ok (True, p)"
  then have "take (length lit) (drop pos data) = lit" "p = pos + length lit" "pos \<le> length data"
    by (auto simp: skip_literal_def res_simps starts_with_def split: if_splits)
  moreover from this(1) have "length lit \<le> length data - pos"
    by (metis length_drop length_take min.cobounded1)
  ultimately show ?thesis by linarith
qed

lemma peek_Some [simp]: "peek data pos = Some c \<longleftrightarrow> pos < length data \<and> data ! pos = c"
  by (auto simp: peek_def)

section \<open>Values\<close>

text \<open>
  \<open>skip_value\<close>, \<open>skip_object\<close> and \<open>skip_array\<close> call each other; the bodies of the two
  \<open>loop\<close>s are \<open>skip_members\<close> and \<open>skip_elements\<close>.
\<close>

function skip_value :: "bytes \<Rightarrow> nat \<Rightarrow> (bool \<times> nat) scan_res"
  and skip_object :: "bytes \<Rightarrow> nat \<Rightarrow> (bool \<times> nat) scan_res"
  and skip_members :: "bytes \<Rightarrow> nat \<Rightarrow> (bool \<times> nat) scan_res"
  and skip_array :: "bytes \<Rightarrow> nat \<Rightarrow> (bool \<times> nat) scan_res"
  and skip_elements :: "bytes \<Rightarrow> nat \<Rightarrow> (bool \<times> nat) scan_res"
where
  "skip_value data pos0 =
     (let pos = skip_ws data pos0
      in case peek data pos of
           None \<Rightarrow> Ok (False, pos)
         | Some c \<Rightarrow>
             if c = b_quote then Ok (skip_string data pos)
             else if c = b_lbrace then skip_object data pos
             else if c = b_lbracket then skip_array data pos
             else if c = 116 then skip_literal (ascii ''true'') data pos
             else if c = 102 then skip_literal (ascii ''false'') data pos
             else if c = 110 then skip_literal (ascii ''null'') data pos
             else if c = b_minus \<or> is_ascii_digit c then Ok (skip_number data pos)
             else Ok (False, pos))"
| "skip_object data pos =
     (if peek data pos \<noteq> Some b_lbrace then Ok (False, pos)
      else let p = skip_ws data (pos + 1)
           in if peek data p = Some b_rbrace then Ok (True, p + 1) else skip_members data p)"
| "skip_members data pos =
     (let (str, p) = skip_string data (skip_ws data pos)
      in if \<not> str then Ok (False, p)
         else let q = skip_ws data p
         in if peek data q \<noteq> Some b_colon then Ok (False, q)
         else res_bind (skip_value data (q + 1)) (\<lambda>(ok, r).
           if \<not> ok then Ok (False, r)
           else let s = skip_ws data r
           in if peek data s = Some b_comma then skip_members data (s + 1)
              else if peek data s = Some b_rbrace then Ok (True, s + 1)
              else Ok (False, s)))"
| "skip_array data pos =
     (if peek data pos \<noteq> Some b_lbracket then Ok (False, pos)
      else let p = skip_ws data (pos + 1)
           in if peek data p = Some b_rbracket then Ok (True, p + 1) else skip_elements data p)"
| "skip_elements data pos =
     res_bind (skip_value data pos) (\<lambda>(ok, r).
       if \<not> ok then Ok (False, r)
       else let s = skip_ws data r
       in if peek data s = Some b_comma then skip_elements data (s + 1)
          else if peek data s = Some b_rbracket then Ok (True, s + 1)
          else Ok (False, s))"
  by pat_completeness auto

text \<open>No call moves backwards, which is what makes the loops end.\<close>

abbreviation forward :: "(bool \<times> nat) scan_res \<Rightarrow> nat \<Rightarrow> bool" where
  "forward m pos \<equiv> \<forall>b p. m = Ok (b, p) \<longrightarrow> pos \<le> p"

lemma skip_ws_trans: "pos \<le> p \<Longrightarrow> pos \<le> skip_ws data p"
  using skip_ws_ge le_trans by blast

lemma forward_dom:
  "skip_value_skip_object_skip_members_skip_array_skip_elements_dom (Inl (Inl (data, a))) \<Longrightarrow>
    forward (skip_value data a) a"
  "skip_value_skip_object_skip_members_skip_array_skip_elements_dom (Inl (Inr (data, b))) \<Longrightarrow>
    forward (skip_object data b) b"
  "skip_value_skip_object_skip_members_skip_array_skip_elements_dom (Inr (Inl (data, c))) \<Longrightarrow>
    forward (skip_members data c) c"
  "skip_value_skip_object_skip_members_skip_array_skip_elements_dom (Inr (Inr (Inl (data, d)))) \<Longrightarrow>
    forward (skip_array data d) d"
  "skip_value_skip_object_skip_members_skip_array_skip_elements_dom (Inr (Inr (Inr (data, e)))) \<Longrightarrow>
    forward (skip_elements data e) e"
proof (induction data a and data b and data c and data d and data e
    rule: skip_value_skip_object_skip_members_skip_array_skip_elements.pinduct)
  case (1 data pos)
  have "skip_ws data pos \<le> p" if "skip_value data pos = Ok (b, p)" for b p
    using that "1.IH" skip_string_ge [of "skip_ws data pos" data]
      skip_number_ge [of "skip_ws data pos" data]
    by (auto simp: skip_value.psimps [OF "1.hyps"] Let_def split: option.splits if_splits
        dest: skip_literal_ge)
  then show ?case using skip_ws_ge [of pos data] le_trans by blast
next
  case (2 data pos)
  then show ?case
    using skip_ws_ge [of "pos + 1" data]
    by (auto simp: skip_object.psimps [OF "2.hyps"] Let_def split: if_splits)
next
  case (3 data pos)
  obtain str p where str: "skip_string data (skip_ws data pos) = (str, p)" by fastforce
  have p: "pos \<le> p"
    using skip_ws_ge [of pos data] skip_string_ge [of "skip_ws data pos" data] str by simp
  let ?q = "skip_ws data p"
  have q: "pos \<le> ?q" by (rule skip_ws_trans [OF p])
  show ?case
  proof (cases "str \<and> peek data ?q = Some b_colon")
    case False
    then show ?thesis using p q by (auto simp: skip_members.psimps [OF "3.hyps"] Let_def str)
  next
    case True
    then have val: "forward (skip_value data (?q + 1)) (?q + 1)"
      using "3.IH"(1) [OF refl str [symmetric]] by simp
    have rest: "forward (skip_members data (skip_ws data r + 1)) (skip_ws data r + 1)"
      if "skip_value data (?q + 1) = Ok (True, r)" "peek data (skip_ws data r) = Some b_comma" for r
      using "3.IH"(2) [OF refl str [symmetric] _ refl _ that(1) refl _ refl that(2)] True by simp
    have r: "pos \<le> r \<and> pos \<le> skip_ws data r" if "skip_value data (?q + 1) = Ok (ok, r)" for ok r
      using val that q skip_ws_trans [of pos r data] by auto
    show ?thesis
      using True r rest
      by (auto simp: skip_members.psimps [OF "3.hyps"] Let_def str res_simps split: if_splits)
        fastforce
  qed
next
  case (4 data pos)
  then show ?case
    using skip_ws_ge [of "pos + 1" data]
    by (auto simp: skip_array.psimps [OF "4.hyps"] Let_def split: if_splits)
next
  case (5 data pos)
  have r: "pos \<le> r \<and> pos \<le> skip_ws data r" if "skip_value data pos = Ok (ok, r)" for ok r
    using "5.IH"(1) that skip_ws_trans [of pos r data] by auto
  have rest: "forward (skip_elements data (skip_ws data r + 1)) (skip_ws data r + 1)"
    if "skip_value data pos = Ok (True, r)" "peek data (skip_ws data r) = Some b_comma" for r
    using "5.IH"(2) [OF that(1) refl _ refl that(2)] by simp
  show ?case
    using r rest
    by (auto simp: skip_elements.psimps [OF "5.hyps"] Let_def res_simps split: if_splits) fastforce
qed


lemma ws_closer: "length d - skip_ws d p \<le> length d - p"
  using skip_ws_ge [of p d] by simp

lemma ws_Suc_closer: "p < length d \<Longrightarrow> length d - skip_ws d (Suc p) < length d - p"
  using skip_ws_ge [of "Suc p" d] by simp

lemma string_later: "(True, y) = skip_string d (skip_ws d p) \<Longrightarrow> p < y"
  using skip_string_True [of d "skip_ws d p" y] skip_ws_ge [of p d] by simp

lemma ws_later_closer:
  "p \<le> r \<Longrightarrow> skip_ws d r < length d \<Longrightarrow> length d - Suc (skip_ws d r) < length d - p"
  using skip_ws_ge [of r d] by simp

termination skip_value
proof (relation "measures [\<lambda>x. case x of Inl (Inl (d, p)) \<Rightarrow> length d - p | Inl (Inr (d, p)) \<Rightarrow> length d - p
      | Inr (Inl (d, p)) \<Rightarrow> length d - p | Inr (Inr (Inl (d, p))) \<Rightarrow> length d - p
      | Inr (Inr (Inr (d, p))) \<Rightarrow> length d - p,
    \<lambda>x. case x of Inl (Inl y) \<Rightarrow> 2 | Inl (Inr y) \<Rightarrow> 1 | Inr (Inl y) \<Rightarrow> 0 | Inr (Inr (Inl y)) \<Rightarrow> 1
      | Inr (Inr (Inr y)) \<Rightarrow> 3]", goal_cases)
  case (2 data pos0)
  then show ?case using ws_closer [of data pos0] by auto
next
  case (3 data pos0)
  then show ?case using ws_closer [of data pos0] by auto
next
  case (4 data pos)
  then show ?case using ws_Suc_closer [of pos data] by auto
next
  case (5 data pos x xa y)
  then show ?case using ws_later_closer [of pos y data] string_later [of y data pos] by auto
next
  case (6 data pos x xa y xb xc xd ya xe)
  have "pos < y" using 6 string_later [of y data pos] by auto
  moreover have "skip_ws data y + 1 \<le> ya"
    using forward_dom(1) [OF 6(11)] 6 by auto
  ultimately have "pos \<le> ya" using skip_ws_ge [of y data] by linarith
  then show ?case using 6 ws_later_closer [of pos ya data] by auto
next
  case (7 data pos)
  then show ?case using ws_Suc_closer [of pos data] by auto
next
  case (9 data pos x xa y xb)
  then have "pos \<le> y" using forward_dom(1) [OF 9(6)] by auto
  then show ?case using 9 ws_later_closer [of pos y data] by auto
qed auto

declare skip_value.simps [simp del] skip_object.simps [simp del] skip_members.simps [simp del]
  skip_array.simps [simp del] skip_elements.simps [simp del]

section \<open>Scanning stays in the data\<close>

text \<open>A scanner started inside the data does not panic, and when it succeeds it has moved
  forward and is still inside.\<close>

definition ok_scan :: "nat \<Rightarrow> nat \<Rightarrow> (bool \<times> nat) scan_res \<Rightarrow> bool" where
  "ok_scan len pos m \<longleftrightarrow> 
     (case m of Ok (b, p) \<Rightarrow> pos \<le> p \<and> (b \<longrightarrow> pos < p \<and> p \<le> len) | _ \<Rightarrow> False)"

lemma ok_scanE:
  assumes "ok_scan len pos m"
  obtains b p where "m = Ok (b, p)" "pos \<le> p" "b \<longrightarrow> pos < p \<and> p \<le> len"
  using assms by (auto simp: ok_scan_def split: res.splits)

lemma ok_scan_weaken: "ok_scan len p m \<Longrightarrow> pos \<le> p \<Longrightarrow> ok_scan len pos m"
  by (auto simp: ok_scan_def split: res.splits)

lemma ok_scan_False: "pos \<le> p \<Longrightarrow> ok_scan len pos (Ok (False, p))"
  by (simp add: ok_scan_def)

lemma ok_scan_string: "ok_scan (length data) pos (Ok (skip_string data pos))"
  using skip_string_ge [of pos data] skip_string_True [of data pos]
  by (cases "skip_string data pos") (auto simp: ok_scan_def)

lemma skip_number_True:
  assumes "skip_number data pos = (True, p)"
  shows "pos < p"
proof -
  let ?q = "skip_sign data pos"
  have q: "?q < length data" "is_ascii_digit (data ! ?q)" "pos \<le> ?q"
    and p: "p = skip_exponent data (skip_fraction data (skip_digits data ?q))"
    using assms by (auto simp: skip_number_def Let_def skip_sign_def split: if_splits)
  have "?q < skip_digits data ?q"
    using q skip_digits_ge [of "?q + 1" data] by (subst skip_digits.simps) auto
  moreover have "r \<le> skip_fraction data r" for r
    using skip_digits_ge [of "r + 1" data] by (auto simp: skip_fraction_def)
  moreover have "r \<le> skip_exponent data r" for r
    using skip_digits_ge [of "r + 1" data] skip_digits_ge [of "r + 2" data]
    by (auto simp: skip_exponent_def Let_def)
  ultimately show ?thesis unfolding p using q(3) by (meson le_trans less_le_trans le_less_trans)
qed

lemma ok_scan_number: "pos \<le> length data \<Longrightarrow> ok_scan (length data) pos (Ok (skip_number data pos))"
  using skip_number_ge [of pos data] skip_number_le [of pos data] skip_number_True [of data pos]
  by (cases "skip_number data pos") (auto simp: ok_scan_def)

lemma ok_scan_literal:
  "pos \<le> length data \<Longrightarrow> lit \<noteq> [] \<Longrightarrow> ok_scan (length data) pos (skip_literal lit data pos)"
  using skip_literal_le [of lit data pos]
  by (auto simp: skip_literal_Ok ok_scan_def split: if_splits)

lemma scan_ok:
  "a \<le> length data \<Longrightarrow> ok_scan (length data) a (skip_value data a)"
  "b \<le> length data \<Longrightarrow> ok_scan (length data) b (skip_object data b)"
  "c \<le> length data \<Longrightarrow> ok_scan (length data) c (skip_members data c)"
  "d \<le> length data \<Longrightarrow> ok_scan (length data) d (skip_array data d)"
  "e \<le> length data \<Longrightarrow> ok_scan (length data) e (skip_elements data e)"
proof (induction data a and data b and data c and data d and data e
    rule: skip_value_skip_object_skip_members_skip_array_skip_elements.induct)
  case (1 data pos)
  let ?p = "skip_ws data pos"
  have p: "pos \<le> ?p" "?p \<le> length data" using "1.prems" skip_ws_ge skip_ws_le by auto
  have "ok_scan (length data) ?p (skip_value data pos)"
    using "1.IH" p(2)
    by (subst skip_value.simps)
      (auto simp: Let_def ascii_def intro: ok_scan_False ok_scan_string ok_scan_number ok_scan_literal
        split: option.splits)
  then show ?case using p(1) by (rule ok_scan_weaken)
next
  case (2 data pos)
  then show ?case
    using skip_ws_ge [of "pos + 1" data] skip_ws_le [of "pos + 1" data]
    by (subst skip_object.simps)
      (auto simp: Let_def ok_scan_def intro: Suc_leD split: res.splits)
next
  case (3 data pos)
  obtain str p where str: "skip_string data (skip_ws data pos) = (str, p)" by fastforce
  have p: "pos \<le> p"
    using skip_ws_ge [of pos data] skip_string_ge [of "skip_ws data pos" data] str by simp
  let ?q = "skip_ws data p"
  have q: "pos \<le> ?q" by (rule skip_ws_trans [OF p])
  show ?case
  proof (cases "str \<and> peek data ?q = Some b_colon")
    case False
    then show ?thesis
      using p q by (subst skip_members.simps) (auto simp: Let_def str intro: ok_scan_False)
  next
    case True
    then have val: "ok_scan (length data) (?q + 1) (skip_value data (?q + 1))"
      using "3.IH"(1) [OF refl str [symmetric]] by simp
    have rest: "ok_scan (length data) (skip_ws data r + 1) (skip_members data (skip_ws data r + 1))"
      if "skip_value data (?q + 1) = Ok (True, r)" "peek data (skip_ws data r) = Some b_comma" for r
      using "3.IH"(2) [OF refl str [symmetric] _ refl _ that(1) refl _ refl that(2)] True that by simp
    obtain ok r where v: "skip_value data (?q + 1) = Ok (ok, r)" "?q + 1 \<le> r"
      "ok \<longrightarrow> r \<le> length data"
      using val by (auto elim: ok_scanE)
    have "pos \<le> skip_ws data r" using q v(2) skip_ws_trans [of pos r data] by simp
    then show ?thesis
      using True v q rest
      by (subst skip_members.simps)
        (auto simp: Let_def str ok_scan_def intro: order.trans split: res.splits)
  qed
next
  case (4 data pos)
  then show ?case
    using skip_ws_ge [of "pos + 1" data] skip_ws_le [of "pos + 1" data]
    by (subst skip_array.simps)
      (auto simp: Let_def ok_scan_def intro: Suc_leD split: res.splits)
next
  case (5 data pos)
  have val: "ok_scan (length data) pos (skip_value data pos)" using "5.IH"(1) "5.prems" by simp
  have rest: "ok_scan (length data) (skip_ws data r + 1) (skip_elements data (skip_ws data r + 1))"
    if "skip_value data pos = Ok (True, r)" "peek data (skip_ws data r) = Some b_comma" for r
    using "5.IH"(2) [OF that(1) refl _ refl that(2)] that by simp
  obtain ok r where v: "skip_value data pos = Ok (ok, r)" "pos \<le> r" "ok \<longrightarrow> r \<le> length data"
    using val by (auto elim: ok_scanE)
  have "pos \<le> skip_ws data r" using v(2) skip_ws_trans [of pos r data] by simp
  then show ?case
    using v rest
    by (subst skip_elements.simps)
      (auto simp: Let_def ok_scan_def intro: order.trans split: res.splits)
qed

end
