(* ===== verification/Json_Access.thy ===== *)
theory Json_Access
  imports Json_Scan
begin

text \<open>
  The public methods of the scanner (\<open>fd_rpc/src/json_scan.rs\<close>): member lookup, typed
  extraction and array iteration, with what they use of Rust's standard library:
  \<open>core::str::from_utf8\<close>, \<open>str::parse\<close> for \<open>i64\<close> and \<open>f64\<close>, and the saturating
  cast from \<open>f64\<close> to unsigned integers that the callers apply to every number.
\<close>

section \<open>Standard library\<close>

definition utf8_cont :: "u8 \<Rightarrow> bool" where
  "utf8_cont c \<longleftrightarrow> 0x80 \<le> unat c \<and> unat c \<le> 0xBF"

text \<open>Well-formed UTF-8: shortest forms only, no surrogates, at most U+10FFFF.\<close>

fun utf8_valid :: "bytes \<Rightarrow> bool" where
  "utf8_valid [] \<longleftrightarrow> True"
| "utf8_valid (a # s) \<longleftrightarrow>
     (let n = unat a
      in if n < 0x80 then utf8_valid s
         else if 0xC2 \<le> n \<and> n \<le> 0xDF then
           (case s of b # t \<Rightarrow> utf8_cont b \<and> utf8_valid t | _ \<Rightarrow> False)
         else if 0xE0 \<le> n \<and> n \<le> 0xEF then
           (case s of b # c # t \<Rightarrow>
              utf8_cont b \<and> utf8_cont c \<and> (n = 0xE0 \<longrightarrow> 0xA0 \<le> unat b) \<and>
              (n = 0xED \<longrightarrow> unat b \<le> 0x9F) \<and> utf8_valid t | _ \<Rightarrow> False)
         else if 0xF0 \<le> n \<and> n \<le> 0xF4 then
           (case s of b # c # d # t \<Rightarrow>
              utf8_cont b \<and> utf8_cont c \<and> utf8_cont d \<and> (n = 0xF0 \<longrightarrow> 0x90 \<le> unat b) \<and>
              (n = 0xF4 \<longrightarrow> unat b \<le> 0x8F) \<and> utf8_valid t | _ \<Rightarrow> False)
         else False)"

definition from_utf8 :: "bytes \<Rightarrow> bytes option" where
  "from_utf8 s = (if utf8_valid s then Some s else None)"

definition ascii_lower :: "u8 \<Rightarrow> u8" where
  "ascii_lower c = (if 65 \<le> unat c \<and> unat c \<le> 90 then c + 32 else c)"

text \<open>The value of a run of decimal digits.\<close>

definition digits_value :: "bytes \<Rightarrow> nat" where
  "digits_value ds = foldl (\<lambda>n c. n * 10 + (unat c - 48)) 0 ds"

text \<open>\<open>str::parse::<i64>\<close>: an optional sign, at least one digit, no overflow.\<close>

definition parse_i64 :: "bytes \<Rightarrow> int option" where
  "parse_i64 s =
     (let neg = (s \<noteq> [] \<and> hd s = b_minus);
          ds = (if s \<noteq> [] \<and> (hd s = b_minus \<or> hd s = b_plus) then tl s else s);
          v = (if neg then - int (digits_value ds) else int (digits_value ds))
      in if ds \<noteq> [] \<and> list_all is_ascii_digit ds \<and> - (2 ^ 63) \<le> v \<and> v < 2 ^ 63
         then Some v else None)"

text \<open>\<open>str::parse::<u64>\<close> (also \<open>usize\<close>): an optional plus sign.\<close>

definition parse_u64 :: "bytes \<Rightarrow> u64 option" where
  "parse_u64 s =
     (let ds = (if s \<noteq> [] \<and> hd s = b_plus then tl s else s)
      in if ds \<noteq> [] \<and> list_all is_ascii_digit ds \<and> digits_value ds < 2 ^ 64
         then Some (word_of_nat (digits_value ds)) else None)"

text \<open>\<open>str::parse::<u16>\<close>\<close>

definition parse_u16 :: "bytes \<Rightarrow> u16 option" where
  "parse_u16 s =
     (let ds = (if s \<noteq> [] \<and> hd s = b_plus then tl s else s)
      in if ds \<noteq> [] \<and> list_all is_ascii_digit ds \<and> digits_value ds < 2 ^ 16
         then Some (word_of_nat (digits_value ds)) else None)"

subsection \<open>Double precision\<close>

text \<open>
  \<open>F64 neg m e\<close> is \<open>(-1)^neg * m * 2^e\<close> with a significand of at most 53 bits; \<open>F64_Inf\<close>
  is an overflow. \<open>str::parse::<f64>\<close> rounds the decimal value to nearest, ties to even.
\<close>

datatype f64 = F64 bool nat int | F64_Inf bool

fun bit_len :: "nat \<Rightarrow> nat" where
  "bit_len n = (if n = 0 then 0 else Suc (bit_len (n div 2)))"

declare bit_len.simps [simp del]

definition round_half_even :: "nat \<Rightarrow> nat \<Rightarrow> nat" where
  "round_half_even num den =
     (let q = num div den; r = num mod den
      in if 2 * r < den then q else if den < 2 * r then q + 1 else if even q then q else q + 1)"

text \<open>The fraction \<open>num / den\<close> divided by \<open>2^e\<close>.\<close>

definition scale2 :: "nat \<Rightarrow> nat \<Rightarrow> int \<Rightarrow> nat \<times> nat" where
  "scale2 num den e = (if 0 \<le> e then (num, den * 2 ^ nat e) else (num * 2 ^ nat (- e), den))"

definition f64_exponent :: "nat \<Rightarrow> nat \<Rightarrow> int" where
  "f64_exponent num den =
     (let e0 = int (bit_len num) - int (bit_len den) - 53;
          (n, d) = scale2 num den e0
      in max (- 1074) (if d * 2 ^ 53 \<le> n then e0 + 1 else e0))"

definition round_f64 :: "bool \<Rightarrow> nat \<Rightarrow> nat \<Rightarrow> f64" where
  "round_f64 neg num den =
     (if num = 0 then F64 neg 0 0
      else let e = f64_exponent num den;
               (n, d) = scale2 num den e;
               m = round_half_even n d
           in if 0 \<le> e \<and> 2 ^ 1024 \<le> m * 2 ^ nat e then F64_Inf neg else F64 neg m e)"

text \<open>\<open>str::parse::<f64>\<close> on the number tokens of the scanner: digits, an optional
  fraction, an optional exponent, which needs a digit.\<close>

definition decimal_f64 :: "bool \<Rightarrow> bytes \<Rightarrow> bytes \<Rightarrow> int \<Rightarrow> f64" where
  "decimal_f64 neg ip fp ex =
     (let n = digits_value (ip @ fp); k = ex - int (length fp)
      in if 0 \<le> k then round_f64 neg (n * 10 ^ nat k) 1 else round_f64 neg n (10 ^ nat (- k)))"

definition parse_exponent :: "bytes \<Rightarrow> int option" where
  "parse_exponent s =
     (if s = [] then Some 0
      else if hd s = 101 \<or> hd s = 69 then
        (let t = tl s;
             neg = (t \<noteq> [] \<and> hd t = b_minus);
             ds = (if t \<noteq> [] \<and> (hd t = b_minus \<or> hd t = b_plus) then tl t else t)
         in if ds \<noteq> [] \<and> list_all is_ascii_digit ds
            then Some (if neg then - int (digits_value ds) else int (digits_value ds)) else None)
      else None)"

definition parse_f64 :: "bytes \<Rightarrow> f64 option" where
  "parse_f64 s =
     (let neg = (s \<noteq> [] \<and> hd s = b_minus);
          t = (if neg then tl s else s);
          ip = takeWhile is_ascii_digit t;
          u = dropWhile is_ascii_digit t;
          dot = (u \<noteq> [] \<and> hd u = b_dot);
          fp = (if dot then takeWhile is_ascii_digit (tl u) else []);
          w = (if dot then dropWhile is_ascii_digit (tl u) else u)
      in if ip = [] \<and> fp = [] then None
         else map_option (decimal_f64 neg ip fp) (parse_exponent w))"

text \<open>\<open>n as u64\<close> and \<open>n as u8\<close>: towards zero, saturating.\<close>

fun f64_trunc :: "f64 \<Rightarrow> nat option" where
  "f64_trunc (F64 neg m e) =
     (if neg then Some 0
      else Some (if 0 \<le> e then m * 2 ^ nat e else m div 2 ^ nat (- e)))"
| "f64_trunc (F64_Inf neg) = (if neg then Some 0 else None)"

definition f64_as_u64 :: "f64 \<Rightarrow> u64" where
  "f64_as_u64 x =
     (case f64_trunc x of Some n \<Rightarrow> if n < 2 ^ 64 then word_of_nat n else - 1 | None \<Rightarrow> - 1)"

definition f64_as_u8 :: "f64 \<Rightarrow> u8" where
  "f64_as_u8 x =
     (case f64_trunc x of Some n \<Rightarrow> if n < 2 ^ 8 then word_of_nat n else - 1 | None \<Rightarrow> - 1)"

section \<open>Public methods\<close>

definition json_new :: "bytes \<Rightarrow> json_scan" where
  "json_new data = \<lparr>js_data = data, js_pos = skip_ws data 0\<rparr>"

text \<open>The loop of \<open>field\<close>, from the key at \<open>pos\<close> on.\<close>

function field_loop :: "bytes \<Rightarrow> bytes \<Rightarrow> nat \<Rightarrow> json_scan option scan_res" where
  "field_loop target data pos0 =
     (let pos = skip_ws data pos0
      in if peek data pos \<noteq> Some b_quote then Ok None
         else let key_start = pos + 1; (str, p) = skip_string data pos
         in if \<not> str then Ok None
         else let key_end = p - 1; q = skip_ws data p
         in if peek data q \<noteq> Some b_colon then Ok None
         else let v = skip_ws data (q + 1)
         in res_bind (slice data key_start key_end) (\<lambda>key.
            if key = target then Ok (Some \<lparr>js_data = data, js_pos = v\<rparr>)
            else res_bind (skip_value data v) (\<lambda>(ok, r).
              if \<not> ok then Ok None
              else let s = skip_ws data r
                   in if peek data s = Some b_comma then field_loop target data (s + 1)
                      else Ok None)))"
  by pat_completeness auto

lemma field_loop_later:
  assumes "(True, p) = skip_string data (skip_ws data pos0)" and "peek data (skip_ws data p) = Some c"
    and "skip_value data (skip_ws data (skip_ws data p + 1)) = Ok (b, r)"
  shows "pos0 \<le> r"
proof -
  have "pos0 < p" by (rule string_later [OF assms(1)])
  also have "p \<le> skip_ws data (skip_ws data p + 1)"
    using skip_ws_ge [of p data] skip_ws_ge [of "skip_ws data p + 1" data] by linarith
  also have "skip_ws data (skip_ws data p + 1) \<le> r"
  proof -
    have "skip_ws data (skip_ws data p + 1) \<le> length data"
      using assms(2) skip_ws_le [of "skip_ws data p + 1" data] by simp
    then show ?thesis using scan_ok(1) assms(3) by (fastforce elim: ok_scanE)
  qed
  finally show ?thesis by simp
qed

termination field_loop
proof (relation "measure (\<lambda>(target, data, pos). length data - pos)", goal_cases)
  case (2 target data pos0)
  then show ?case
    using field_loop_later [of _ data pos0] ws_later_closer [of pos0 _ data] by auto
qed simp

declare field_loop.simps [simp del]

definition field :: "bytes \<Rightarrow> json_scan \<Rightarrow> json_scan option scan_res" where
  "field name s =
     (let data = js_data s; pos = skip_ws data (js_pos s)
      in if peek data pos \<noteq> Some b_lbrace then Ok None
         else let p = skip_ws data (pos + 1)
         in if peek data p = Some b_rbrace then Ok None
            else field_loop name data p)"

function as_str_loop :: "bytes \<Rightarrow> nat \<Rightarrow> nat \<Rightarrow> bytes option scan_res" where
  "as_str_loop data start pos =
     (if pos \<ge> length data then Ok None
      else if data ! pos = b_backslash then as_str_loop data start (pos + 2)
      else if data ! pos = b_quote then
        res_bind (slice data start pos) (\<lambda>s. Ok (from_utf8 s))
      else as_str_loop data start (pos + 1))"
  by pat_completeness auto
termination by (relation "measure (\<lambda>(data, start, pos). length data - pos)") auto

declare as_str_loop.simps [simp del]

definition as_str :: "json_scan \<Rightarrow> bytes option scan_res" where
  "as_str s =
     (if peek (js_data s) (js_pos s) \<noteq> Some b_quote then Ok None
      else as_str_loop (js_data s) (js_pos s + 1) (js_pos s + 1))"

definition as_f64 :: "json_scan \<Rightarrow> f64 option scan_res" where
  "as_f64 s =
     (let data = js_data s; start = skip_ws data (js_pos s); pos = snd (skip_number data start)
      in if pos = start then Ok None
         else res_bind (slice data start pos) (\<lambda>t.
              Ok (Option.bind (from_utf8 t) parse_f64)))"

definition as_i64 :: "json_scan \<Rightarrow> int option scan_res" where
  "as_i64 s =
     (let data = js_data s; start = skip_ws data (js_pos s);
          pos = skip_digits data (skip_sign data start)
      in if pos = start then Ok None
         else res_bind (slice data start pos) (\<lambda>t.
              Ok (Option.bind (from_utf8 t) parse_i64)))"

definition as_bool :: "json_scan \<Rightarrow> bool option scan_res" where
  "as_bool s =
     res_bind (slice (js_data s) (js_pos s) (length (js_data s))) (\<lambda>t.
     Ok (if starts_with t (ascii ''true'') then Some True
         else if starts_with t (ascii ''false'') then Some False
         else None))"

definition is_null :: "json_scan \<Rightarrow> bool scan_res" where
  "is_null s =
     res_bind (slice (js_data s) (js_pos s) (length (js_data s))) (\<lambda>t.
     Ok (starts_with t (ascii ''null'')))"

definition is_object :: "json_scan \<Rightarrow> bool" where
  "is_object s \<longleftrightarrow> peek (js_data s) (js_pos s) = Some b_lbrace"

definition is_string :: "json_scan \<Rightarrow> bool" where
  "is_string s \<longleftrightarrow> peek (js_data s) (js_pos s) = Some b_quote"

subsection \<open>Arrays\<close>

record json_array_iter =
  ai_data :: bytes
  ai_pos :: nat
  ai_done :: bool

definition array_iter :: "json_scan \<Rightarrow> json_array_iter option" where
  "array_iter s =
     (let data = js_data s; pos = skip_ws data (js_pos s)
      in if peek data pos \<noteq> Some b_lbracket then None
         else let p = skip_ws data (pos + 1)
         in Some \<lparr>ai_data = data, ai_pos = p, ai_done = (peek data p = Some b_rbracket)\<rparr>)"

definition iter_next ::
  "json_array_iter \<Rightarrow> (json_scan option \<times> json_array_iter) scan_res" where
  "iter_next it =
     (if ai_done it then Ok (None, it)
      else let data = ai_data it; pos = skip_ws data (ai_pos it); it1 = it\<lparr>ai_pos := pos\<rparr>
      in if pos \<ge> length data \<or> data ! pos = b_rbracket
         then Ok (None, it1\<lparr>ai_done := True\<rparr>)
         else let item = \<lparr>js_data = data, js_pos = pos\<rparr>
         in res_bind (skip_value data pos) (\<lambda>(ok, r).
            if \<not> ok then Ok (Some item, it1\<lparr>ai_done := True\<rparr>)
            else let s = skip_ws data r
                 in if peek data s = Some b_comma then Ok (Some item, it1\<lparr>ai_pos := s + 1\<rparr>)
                    else Ok (Some item, it1\<lparr>ai_done := True\<rparr>)))"

definition json_first :: "json_scan \<Rightarrow> json_scan option scan_res" where
  "json_first s =
     (case array_iter s of
        None \<Rightarrow> Ok None
      | Some it \<Rightarrow> res_bind (iter_next it) (\<lambda>(item, it'). Ok item))"

text \<open>\<open>Iterator::nth\<close>: \<open>n\<close> calls of \<open>next\<close> are dropped, stopping at the first \<open>None\<close>.\<close>

fun iter_nth :: "json_array_iter \<Rightarrow> nat \<Rightarrow> json_scan option scan_res" where
  "iter_nth it 0 = res_bind (iter_next it) (\<lambda>(item, it'). Ok item)"
| "iter_nth it (Suc n) =
     res_bind (iter_next it) (\<lambda>(item, it').
       case item of None \<Rightarrow> Ok None | Some i \<Rightarrow> iter_nth it' n)"

definition json_index :: "nat \<Rightarrow> json_scan \<Rightarrow> json_scan option scan_res" where
  "json_index idx s =
     (case array_iter s of None \<Rightarrow> Ok None | Some it \<Rightarrow> iter_nth it idx)"

end
