(* ===== verification/Json_Grammar.thy ===== *)
theory Json_Grammar
  imports Json_Access
begin

text \<open>
  The JSON grammar with its white space, as a syntax tree and its rendering, and the
  correctness of the scanner against it: on the rendering of any document the scanner
  finds the end of every value, the first member with a given key, and the \<open>i\<close>-th element of an
  array.
\<close>

section \<open>Documents\<close>

text \<open>
  A number is sign, integer digits, optional fraction digits and optional exponent (its letter,
  sign and digits). A string is its raw body, escapes not expanded. The white space
  before and after every token is part of the tree; non-empty arrays and objects are lists that
  end in a last element.
\<close>

datatype json =
    JNull
  | JBool bool
  | JNum bool bytes "bytes option" "(u8 \<times> bytes \<times> bytes) option"
  | JStr bytes
  | JArr0 bytes
  | JArr bytes elems
  | JObj0 bytes
  | JObj bytes members
and elems =
    ELast json bytes
  | ECons json bytes bytes elems
and members =
    MLast bytes bytes bytes json bytes
  | MCons bytes bytes bytes json bytes bytes members

definition render_frac :: "bytes option \<Rightarrow> bytes" where
  "render_frac fp = (case fp of None \<Rightarrow> [] | Some ds \<Rightarrow> b_dot # ds)"

definition render_exp :: "(u8 \<times> bytes \<times> bytes) option \<Rightarrow> bytes" where
  "render_exp ex = (case ex of None \<Rightarrow> [] | Some (l, sg, ds) \<Rightarrow> l # sg @ ds)"

definition render_key :: "bytes \<Rightarrow> bytes \<Rightarrow> bytes \<Rightarrow> bytes" where
  "render_key k b c = [b_quote] @ k @ [b_quote] @ b @ [b_colon] @ c"

primrec render :: "json \<Rightarrow> bytes" and render_elems :: "elems \<Rightarrow> bytes"
  and render_members :: "members \<Rightarrow> bytes"
where
  "render JNull = ascii ''null''"
| "render (JBool b) = (if b then ascii ''true'' else ascii ''false'')"
| "render (JNum neg ip fp ex) = (if neg then [b_minus] else []) @ ip @ render_frac fp @ render_exp ex"
| "render (JStr s) = [b_quote] @ s @ [b_quote]"
| "render (JArr0 w) = [b_lbracket] @ w @ [b_rbracket]"
| "render (JArr w es) = [b_lbracket] @ w @ render_elems es"
| "render (JObj0 w) = [b_lbrace] @ w @ [b_rbrace]"
| "render (JObj w ms) = [b_lbrace] @ w @ render_members ms"
| "render_elems (ELast v b) = render v @ b @ [b_rbracket]"
| "render_elems (ECons v b a es) = render v @ b @ [b_comma] @ a @ render_elems es"
| "render_members (MLast k b c v d) = render_key k b c @ render v @ d @ [b_rbrace]"
| "render_members (MCons k b c v d a ms) =
     render_key k b c @ render v @ d @ [b_comma] @ a @ render_members ms"

text \<open>Well-formed parts: white space, digits, and string bodies without a bare quote and
  without a dangling escape.\<close>

abbreviation all_ws :: "bytes \<Rightarrow> bool" where "all_ws \<equiv> list_all is_ws"
abbreviation all_digits :: "bytes \<Rightarrow> bool" where "all_digits \<equiv> list_all is_ascii_digit"

fun str_body :: "bytes \<Rightarrow> bool" where
  "str_body [] \<longleftrightarrow> True"
| "str_body [c] \<longleftrightarrow> c \<noteq> b_backslash \<and> c \<noteq> b_quote"
| "str_body (c # d # s) \<longleftrightarrow>
     (if c = b_backslash then str_body s else c \<noteq> b_quote \<and> str_body (d # s))"

definition exp_wf :: "(u8 \<times> bytes \<times> bytes) option \<Rightarrow> bool" where
  "exp_wf ex \<longleftrightarrow> (case ex of None \<Rightarrow> True | Some (l, sg, ds) \<Rightarrow>
     l \<in> {101, 69} \<and> sg \<in> {[], [b_plus], [b_minus]} \<and> all_digits ds)"

primrec wf_json :: "json \<Rightarrow> bool" and wf_elems :: "elems \<Rightarrow> bool" and wf_members :: "members \<Rightarrow> bool"
where
  "wf_json JNull \<longleftrightarrow> True"
| "wf_json (JBool b) \<longleftrightarrow> True"
| "wf_json (JNum neg ip fp ex) \<longleftrightarrow>
     ip \<noteq> [] \<and> all_digits ip \<and> (case fp of None \<Rightarrow> True | Some ds \<Rightarrow> all_digits ds) \<and> exp_wf ex"
| "wf_json (JStr s) \<longleftrightarrow> str_body s"
| "wf_json (JArr0 w) \<longleftrightarrow> all_ws w"
| "wf_json (JArr w es) \<longleftrightarrow> all_ws w \<and> wf_elems es"
| "wf_json (JObj0 w) \<longleftrightarrow> all_ws w"
| "wf_json (JObj w ms) \<longleftrightarrow> all_ws w \<and> wf_members ms"
| "wf_elems (ELast v b) \<longleftrightarrow> wf_json v \<and> all_ws b"
| "wf_elems (ECons v b a es) \<longleftrightarrow> wf_json v \<and> all_ws b \<and> all_ws a \<and> wf_elems es"
| "wf_members (MLast k b c v d) \<longleftrightarrow>
     str_body k \<and> all_ws b \<and> all_ws c \<and> wf_json v \<and> all_ws d"
| "wf_members (MCons k b c v d a ms) \<longleftrightarrow>
     str_body k \<and> all_ws b \<and> all_ws c \<and> wf_json v \<and> all_ws d \<and> all_ws a \<and> wf_members ms"

text \<open>What may follow a value: the end, white space or a separator.\<close>

definition ends_token :: "bytes \<Rightarrow> bool" where
  "ends_token s \<longleftrightarrow>
     (case s of [] \<Rightarrow> True | c # t \<Rightarrow> is_ws c \<or> c = b_comma \<or> c = b_rbracket \<or> c = b_rbrace)"

section \<open>Tokens\<close>

lemma drop_shift: "drop pos data = xs @ ys \<Longrightarrow> drop (pos + length xs) data = ys"
  by (metis add.commute append_eq_conv_conj drop_drop)

lemma drop_Suc_shift: "drop pos data = c # ys \<Longrightarrow> drop (pos + 1) data = ys"
  using drop_shift [of pos data "[c]" ys] by simp

lemma drop_in_range: "drop pos data = c # ys \<Longrightarrow> pos < length data"
  by (metis drop_all leI list.distinct(1))

lemma peek_drop: "drop pos data = c # ys \<Longrightarrow> peek data pos = Some c"
  using drop_in_range [of pos data c ys] by (simp add: nth_via_drop)

lemma peek_drop_Nil: "drop pos data = [] \<Longrightarrow> peek data pos = None"
  by (simp add: peek_def)

definition no_ws :: "bytes \<Rightarrow> bool" where
  "no_ws s \<longleftrightarrow> s = [] \<or> \<not> is_ws (hd s)"

lemma no_ws_simps [simp]: "no_ws []" "no_ws (c # s) \<longleftrightarrow> \<not> is_ws c"
  by (auto simp: no_ws_def)

lemma skip_ws_drop:
  "drop pos data = w @ s \<Longrightarrow> all_ws w \<Longrightarrow> no_ws s \<Longrightarrow> skip_ws data pos = pos + length w"
proof (induction w arbitrary: pos)
  case Nil
  then show ?case
    by (cases s) (auto simp: skip_ws.simps [of data pos] nth_via_drop)
next
  case (Cons c w)
  have d: "drop pos data = c # (w @ s)" using Cons.prems by simp
  have "skip_ws data pos = skip_ws data (pos + 1)"
    using Cons.prems(2) drop_in_range [OF d] nth_via_drop [OF d]
    by (subst skip_ws.simps) simp
  also have "\<dots> = pos + 1 + length w"
    by (rule Cons.IH [OF drop_Suc_shift [OF d]]) (use Cons.prems in auto)
  finally show ?case by simp
qed

definition no_digit :: "bytes \<Rightarrow> bool" where
  "no_digit s \<longleftrightarrow> s = [] \<or> \<not> is_ascii_digit (hd s)"

lemma no_digit_simps [simp]: "no_digit []" "no_digit (c # s) \<longleftrightarrow> \<not> is_ascii_digit c"
  by (auto simp: no_digit_def)

lemma skip_digits_drop:
  "drop pos data = w @ s \<Longrightarrow> all_digits w \<Longrightarrow> no_digit s \<Longrightarrow> skip_digits data pos = pos + length w"
proof (induction w arbitrary: pos)
  case Nil
  then show ?case
    by (cases s) (auto simp: skip_digits.simps [of data pos] nth_via_drop)
next
  case (Cons c w)
  have d: "drop pos data = c # (w @ s)" using Cons.prems by simp
  have "skip_digits data pos = skip_digits data (pos + 1)"
    using Cons.prems(2) drop_in_range [OF d] nth_via_drop [OF d]
    by (subst skip_digits.simps) simp
  also have "\<dots> = pos + 1 + length w"
    by (rule Cons.IH [OF drop_Suc_shift [OF d]]) (use Cons.prems in auto)
  finally show ?case by simp
qed

lemma skip_string_loop_drop:
  "drop pos data = s @ b_quote # rest \<Longrightarrow> str_body s \<Longrightarrow>
   skip_string_loop data pos = (True, pos + length s + 1)"
proof (induction s arbitrary: pos rule: str_body.induct)
  case 1
  then have d: "drop pos data = b_quote # rest" by simp
  then show ?case
    using drop_in_range [OF d] nth_via_drop [OF d] by (subst skip_string_loop.simps) simp
next
  case (2 c)
  then have d: "drop pos data = c # (b_quote # rest)" by simp
  have d2: "drop (pos + 1) data = b_quote # rest" by (rule drop_Suc_shift [OF d])
  have "skip_string_loop data (pos + 1) = (True, pos + 2)"
    using drop_in_range [OF d2] nth_via_drop [OF d2] by (subst skip_string_loop.simps) simp
  then show ?case
    using 2 drop_in_range [OF d] nth_via_drop [OF d] by (subst skip_string_loop.simps) simp
next
  case (3 c d s)
  then have d: "drop pos data = c # (d # s @ b_quote # rest)" by simp
  note d1 = drop_Suc_shift [OF d]
  have d2: "drop (pos + 2) data = s @ b_quote # rest" using drop_Suc_shift [OF d1] by simp
  show ?case
    using 3 d1 d2 drop_in_range [OF d] nth_via_drop [OF d]
    by (subst skip_string_loop.simps) (auto split: if_splits)
qed

lemma skip_string_drop:
  assumes d: "drop pos data = b_quote # s @ b_quote # rest" and "str_body s"
  shows "skip_string data pos = (True, pos + length s + 2)"
  using skip_string_loop_drop [OF drop_Suc_shift [OF d] assms(2)] peek_drop [OF d]
  by (simp add: skip_string_def)

lemma skip_literal_drop:
  "drop pos data = lit @ rest \<Longrightarrow> pos \<le> length data \<Longrightarrow>
   skip_literal lit data pos = Ok (True, pos + length lit)"
  by (simp add: skip_literal_Ok starts_with_def)

subsection \<open>Numbers\<close>

lemma ends_token_follow:
  assumes "ends_token rest"
  shows "no_digit rest" and "rest \<noteq> [] \<Longrightarrow> hd rest \<noteq> b_dot \<and> hd rest \<noteq> 101 \<and> hd rest \<noteq> 69"
  using assms
  by (auto simp: ends_token_def no_digit_def is_ws_def is_ascii_digit_def split: list.splits)

lemma skip_fraction_drop:
  assumes d: "drop pos data = render_frac fp @ s" and "\<forall>ds. fp = Some ds \<longrightarrow> all_digits ds"
    and "no_digit s" and "s \<noteq> [] \<longrightarrow> hd s \<noteq> b_dot"
  shows "skip_fraction data pos = pos + length (render_frac fp)"
proof (cases fp)
  case None
  then show ?thesis
    using assms by (cases s) (auto simp: skip_fraction_def render_frac_def nth_via_drop)
next
  case (Some ds)
  then have d': "drop pos data = b_dot # (ds @ s)" using d by (simp add: render_frac_def)
  have "skip_digits data (pos + 1) = pos + 1 + length ds"
    using skip_digits_drop [OF drop_Suc_shift [OF d']] assms(2,3) Some by simp
  then show ?thesis
    using drop_in_range [OF d'] nth_via_drop [OF d'] Some
    by (simp add: skip_fraction_def render_frac_def)
qed

lemma skip_exponent_drop:
  assumes d: "drop pos data = render_exp ex @ rest" and wf: "exp_wf ex" and "ends_token rest"
  shows "skip_exponent data pos = pos + length (render_exp ex)"
proof (cases ex)
  case None
  then show ?thesis
    using assms ends_token_follow [OF assms(3)]
    by (cases rest) (auto simp: skip_exponent_def render_exp_def nth_via_drop)
next
  case (Some x)
  then obtain l sg ds where x: "ex = Some (l, sg, ds)" by (cases x) auto
  have l: "l = 101 \<or> l = 69" "sg = [] \<or> sg = [b_plus] \<or> sg = [b_minus]" "all_digits ds"
    using wf x by (auto simp: exp_wf_def)
  have d0: "drop pos data = l # (sg @ ds @ rest)" using d x by (simp add: render_exp_def)
  note d1 = drop_Suc_shift [OF d0]
  let ?p = "if pos + 1 < length data \<and> (data ! (pos + 1) = b_plus \<or> data ! (pos + 1) = b_minus)
    then pos + 1 + 1 else pos + 1"
  have p: "?p = pos + 1 + length sg"
  proof (cases "sg = []")
    case True
    have nd: "\<not> (\<exists>t. ds @ rest = b_plus # t \<or> ds @ rest = b_minus # t)"
    proof (cases ds)
      case Nil
      then show ?thesis
        using assms(3) by (auto simp: ends_token_def is_ws_def)
    next
      case (Cons c t)
      then show ?thesis using l(3) by (auto simp: is_ascii_digit_def)
    qed
    have "\<not> (pos + 1 < length data \<and> (data ! (pos + 1) = b_plus \<or> data ! (pos + 1) = b_minus))"
      using nd d1 True Cons_nth_drop_Suc [of "pos + 1" data] by (metis append_Nil)
    then show ?thesis using True by simp
  next
    case False
    then obtain c where c: "sg = [c]" "c = b_plus \<or> c = b_minus" using l(2) by auto
    have "drop (pos + 1) data = c # (ds @ rest)" using d1 c by simp
    then show ?thesis using c drop_in_range nth_via_drop by fastforce
  qed
  have "drop (pos + 1 + length sg) data = ds @ rest" using drop_shift [OF d1] by simp
  then have "skip_digits data (pos + 1 + length sg) = pos + 1 + length sg + length ds"
    using skip_digits_drop l(3) ends_token_follow(1) [OF assms(3)] by blast
  then show ?thesis
    using drop_in_range [OF d0] nth_via_drop [OF d0] l(1) p x
    by (simp add: skip_exponent_def Let_def render_exp_def del: One_nat_def)
qed

lemma digit_facts:
  "is_ascii_digit c \<Longrightarrow> c \<noteq> b_minus" "is_ascii_digit c \<Longrightarrow> \<not> is_ws c"
  "is_ascii_digit c \<Longrightarrow> c \<noteq> b_quote \<and> c \<noteq> b_lbrace \<and> c \<noteq> b_lbracket \<and> c \<noteq> 116 \<and> c \<noteq> 102 \<and> c \<noteq> 110"
  by (auto simp: is_ascii_digit_def is_ws_def)

lemma skip_number_drop:
  assumes d: "drop pos data = render (JNum neg ip fp ex) @ rest"
    and wf: "wf_json (JNum neg ip fp ex)" and e: "ends_token rest"
  shows "skip_number data pos = (True, pos + length (render (JNum neg ip fp ex)))"
proof -
  let ?sg = "if neg then [b_minus] else []"
  let ?p = "pos + length ?sg"
  obtain c t where ip: "ip = c # t" "is_ascii_digit c" using wf by (cases ip) auto
  have d0: "drop pos data = ?sg @ (ip @ render_frac fp @ render_exp ex @ rest)" using d by simp
  have d1: "drop ?p data = ip @ (render_frac fp @ (render_exp ex @ rest))"
    by (rule drop_shift [OF d0])
  have sign: "skip_sign data pos = ?p"
  proof (cases neg)
    case True
    then have "drop pos data = b_minus # (ip @ render_frac fp @ render_exp ex @ rest)" using d0 by simp
    then show ?thesis using True drop_in_range nth_via_drop by (auto simp: skip_sign_def)
  next
    case False
    then have "drop pos data = c # (t @ render_frac fp @ render_exp ex @ rest)" using d0 ip by simp
    then show ?thesis using False ip(2) digit_facts(1) nth_via_drop by (fastforce simp: skip_sign_def)
  qed
  have c: "?p < length data" "data ! ?p = c"
    using d1 ip drop_in_range nth_via_drop by fastforce+
  have n3: "no_digit (render_exp ex @ rest) \<and>
      (render_exp ex @ rest \<noteq> [] \<longrightarrow> hd (render_exp ex @ rest) \<noteq> b_dot)"
    using wf ends_token_follow [OF e]
    by (cases ex) (auto simp: render_exp_def exp_wf_def is_ascii_digit_def)
  then have n2: "no_digit (render_frac fp @ (render_exp ex @ rest))"
    by (cases fp) (auto simp: render_frac_def is_ascii_digit_def)
  have digits: "skip_digits data ?p = ?p + length ip"
    using skip_digits_drop [OF d1 _ n2] wf by simp
  note d2 = drop_shift [OF d1]
  have frac: "skip_fraction data (?p + length ip) = ?p + length ip + length (render_frac fp)"
    by (rule skip_fraction_drop [OF d2]) (use wf n3 in auto)
  have exp: "skip_exponent data (?p + length ip + length (render_frac fp)) =
      ?p + length ip + length (render_frac fp) + length (render_exp ex)"
    by (rule skip_exponent_drop [OF drop_shift [OF d2] _ e]) (use wf in simp)
  show ?thesis
    using sign c ip(2) digits frac exp by (simp add: skip_number_def Let_def)
qed

section \<open>Values\<close>

lemma render_head:
  assumes "wf_json v" shows "\<exists>c t. render v = c # t \<and> \<not> is_ws c"
proof (cases v)
  case (JNum neg ip fp ex)
  then obtain c t where "ip = c # t" "is_ascii_digit c" using assms by (cases ip) auto
  then show ?thesis using JNum digit_facts(2) by (auto simp: is_ws_def)
qed (auto simp: ascii_def is_ws_def)

lemma head_not_close:
  assumes "wf_json v" shows "hd (render v) \<noteq> b_rbracket"
  using assms by (cases v) (auto simp: ascii_def is_ascii_digit_def neq_Nil_conv)

lemma no_ws_render: "wf_json v \<Longrightarrow> no_ws (render v @ s)"
  using render_head by fastforce

lemma skip_value_at:
  assumes "drop pos data = w @ c # t" and "all_ws w" and "\<not> is_ws c"
  defines "p \<equiv> pos + length w"
  shows "skip_value data pos =
    (if c = b_quote then Ok (skip_string data p)
     else if c = b_lbrace then skip_object data p
     else if c = b_lbracket then skip_array data p
     else if c = 116 then skip_literal (ascii ''true'') data p
     else if c = 102 then skip_literal (ascii ''false'') data p
     else if c = 110 then skip_literal (ascii ''null'') data p
     else if c = b_minus \<or> is_ascii_digit c then Ok (skip_number data p)
     else Ok (False, p))"
proof -
  have "skip_ws data pos = p" unfolding p_def by (rule skip_ws_drop [OF assms(1,2)]) (simp add: assms(3))
  moreover have "peek data p = Some c"
    unfolding p_def by (rule peek_drop [OF drop_shift [OF assms(1)]])
  ultimately show ?thesis by (subst skip_value.simps) (simp add: Let_def del: peek_Some)
qed

text \<open>What the induction shows of a value, an element list and a member list.\<close>

definition value_skipped :: "json \<Rightarrow> bool" where
  "value_skipped v \<longleftrightarrow> (\<forall>data pos w rest.
     drop pos data = w @ render v @ rest \<and> all_ws w \<and> ends_token rest \<longrightarrow>
     skip_value data pos = Ok (True, pos + length w + length (render v)))"

definition elems_skipped :: "elems \<Rightarrow> bool" where
  "elems_skipped es \<longleftrightarrow> (\<forall>data pos w rest. drop pos data = w @ render_elems es @ rest \<and> all_ws w \<longrightarrow>
     skip_elements data pos = Ok (True, pos + length w + length (render_elems es)))"

definition members_skipped :: "members \<Rightarrow> bool" where
  "members_skipped ms \<longleftrightarrow>
     (\<forall>data pos w rest. drop pos data = w @ render_members ms @ rest \<and> all_ws w \<longrightarrow>
     skip_members data pos = Ok (True, pos + length w + length (render_members ms)))"

lemma ends_token_ws: "all_ws w \<Longrightarrow> ends_token (c # s) \<Longrightarrow> ends_token (w @ c # s)"
  by (cases w) (auto simp: ends_token_def)

lemma sep_ends [simp]: "ends_token (b_comma # s)" "ends_token (b_rbracket # s)"
  "ends_token (b_rbrace # s)" "\<not> is_ws b_comma" "\<not> is_ws b_rbracket" "\<not> is_ws b_rbrace"
  "\<not> is_ws b_colon" "\<not> is_ws b_quote"
  by (auto simp: ends_token_def is_ws_def)

text \<open>A value with its white space, followed by a separator.\<close>

lemma value_then:
  assumes "value_skipped v" and d: "drop pos data = a @ render v @ b @ c # s"
    and ws: "all_ws a" "all_ws b" and c: "ends_token (c # s)" "\<not> is_ws c"
  defines "r \<equiv> pos + length a + length (render v)"
  shows "skip_value data pos = Ok (True, r)" and "skip_ws data r = r + length b"
    and "peek data (r + length b) = Some c" and "drop (r + length b + 1) data = s"
proof -
  show "skip_value data pos = Ok (True, r)"
    using assms(1) d ws ends_token_ws [OF ws(2) c(1)] unfolding value_skipped_def r_def by blast
  have "drop pos data = (a @ render v) @ b @ c # s" using d by simp
  then have dr: "drop r data = b @ c # s"
    using drop_shift [of pos data "a @ render v"] by (simp add: r_def add.assoc)
  show "skip_ws data r = r + length b" by (rule skip_ws_drop [OF dr ws(2)]) (simp add: c(2))
  note dc = drop_shift [OF dr]
  show "peek data (r + length b) = Some c" by (rule peek_drop [OF dc])
  show "drop (r + length b + 1) data = s" by (rule drop_Suc_shift [OF dc])
qed

lemma skip_key:
  assumes d: "drop pos data = a @ render_key k b c @ s"
    and ws: "all_ws a" "all_ws b" and k: "str_body k"
  defines "p \<equiv> pos + length a" and "q \<equiv> pos + length a + length k + 2 + length b"
  shows "skip_ws data pos = p" and "peek data p = Some b_quote"
    and "skip_string data p = (True, p + length k + 2)"
    and "skip_ws data (p + length k + 2) = q" and "peek data q = Some b_colon"
    and "drop (q + 1) data = c @ s" and "take (length k) (drop (p + 1) data) = k"
proof -
  have d0: "drop pos data = a @ b_quote # k @ b_quote # b @ b_colon # c @ s"
    using d by (simp add: render_key_def)
  show "skip_ws data pos = p" unfolding p_def by (rule skip_ws_drop [OF d0 ws(1)]) simp
  have d1: "drop p data = b_quote # k @ b_quote # (b @ b_colon # c @ s)"
    unfolding p_def by (rule drop_shift [OF d0])
  show "peek data p = Some b_quote" by (rule peek_drop [OF d1])
  show "skip_string data p = (True, p + length k + 2)" by (rule skip_string_drop [OF d1 k])
  have d2: "drop (p + length k + 2) data = b @ b_colon # c @ s"
    using drop_shift [of p data "b_quote # k @ [b_quote]"] d1 by simp
  have q: "q = p + length k + 2 + length b" by (simp add: q_def p_def)
  show "skip_ws data (p + length k + 2) = q"
    unfolding q by (rule skip_ws_drop [OF d2 ws(2)]) simp
  have d3: "drop q data = b_colon # c @ s" unfolding q by (rule drop_shift [OF d2])
  show "peek data q = Some b_colon" by (rule peek_drop [OF d3])
  show "drop (q + 1) data = c @ s" by (rule drop_Suc_shift [OF d3])
  show "take (length k) (drop (p + 1) data) = k" using drop_Suc_shift [OF d1] by simp
qed

lemma value_skippedI:
  assumes "\<And>data pos w rest. drop pos data = w @ render v @ rest \<Longrightarrow> all_ws w \<Longrightarrow>
    ends_token rest \<Longrightarrow> drop (pos + length w) data = render v @ rest \<Longrightarrow>
    pos + length w \<le> length data \<Longrightarrow>
    skip_value data pos = Ok (True, pos + length w + length (render v))" and "wf_json v"
  shows "value_skipped v"
  unfolding value_skipped_def
proof (intro allI impI)
  fix data pos w rest
  assume d: "drop pos data = w @ render v @ rest \<and> all_ws w \<and> ends_token rest"
  then have d1: "drop (pos + length w) data = render v @ rest" using drop_shift by blast
  obtain c t where "render v = c # t" using render_head [OF assms(2)] by blast
  then have "pos + length w < length data" using d1 drop_in_range by fastforce
  then show "skip_value data pos = Ok (True, pos + length w + length (render v))"
    using assms(1) d d1 by simp
qed

lemma literal_skipped: "value_skipped JNull" "value_skipped (JBool b)"
proof -
  show "value_skipped JNull"
  proof (rule value_skippedI)
    fix data pos w rest
    assume d: "drop pos data = w @ render JNull @ rest" "all_ws w"
      "drop (pos + length w) data = render JNull @ rest" "pos + length w \<le> length data"
    show "skip_value data pos = Ok (True, pos + length w + length (render JNull))"
      using d(1) skip_literal_drop [OF d(3) [simplified] d(4)]
        skip_value_at [OF _ d(2), of pos data "110" "[117, 108, 108] @ rest"]
      by (simp add: ascii_def is_ws_def)
  qed simp
  show "value_skipped (JBool b)"
  proof (rule value_skippedI)
    fix data pos w rest
    assume d: "drop pos data = w @ render (JBool b) @ rest" "all_ws w"
      "drop (pos + length w) data = render (JBool b) @ rest" "pos + length w \<le> length data"
    show "skip_value data pos = Ok (True, pos + length w + length (render (JBool b)))"
      using d(1) skip_literal_drop [OF d(3) [simplified] d(4)]
        skip_value_at [OF _ d(2), of pos data "116" "[114, 117, 101] @ rest"]
        skip_value_at [OF _ d(2), of pos data "102" "[97, 108, 115, 101] @ rest"]
      by (cases b) (simp_all add: ascii_def is_ws_def)
  qed simp
qed

lemma number_skipped:
  assumes wf: "wf_json (JNum neg ip fp ex)" shows "value_skipped (JNum neg ip fp ex)"
proof (rule value_skippedI [OF _ wf])
  fix data pos w rest
  assume d: "drop pos data = w @ render (JNum neg ip fp ex) @ rest" "all_ws w" "ends_token rest"
    "drop (pos + length w) data = render (JNum neg ip fp ex) @ rest"
  obtain c t where c: "render (JNum neg ip fp ex) = c # t" "c = b_minus \<or> is_ascii_digit c"
    using wf by (cases ip; cases neg) auto
  have "\<not> is_ws c" using c(2) digit_facts(2) by (auto simp: is_ws_def)
  then have "skip_value data pos = Ok (skip_number data (pos + length w))"
    using skip_value_at [of pos data w c "t @ rest"] d(1,2) c digit_facts(3) by auto
  then show "skip_value data pos = Ok (True, pos + length w + length (render (JNum neg ip fp ex)))"
    using skip_number_drop [OF d(4) wf d(3)] by simp
qed

lemma string_skipped:
  assumes "str_body s" shows "value_skipped (JStr s)"
proof (rule value_skippedI)
  fix data pos w rest
  assume d: "drop pos data = w @ render (JStr s) @ rest" "all_ws w"
    "drop (pos + length w) data = render (JStr s) @ rest"
  have "skip_string data (pos + length w) = (True, pos + length w + length s + 2)"
    by (rule skip_string_drop [OF _ assms]) (use d(3) in simp)
  then show "skip_value data pos = Ok (True, pos + length w + length (render (JStr s)))"
    using skip_value_at [OF _ d(2), of pos data b_quote "s @ b_quote # rest"] d(1) by simp
qed (use assms in simp)

lemma empty_skipped:
  assumes "all_ws u" shows "value_skipped (JArr0 u)" and "value_skipped (JObj0 u)"
proof -
  have ws: "\<not> is_ws b_lbracket" "\<not> is_ws b_lbrace" by (auto simp: is_ws_def)
  show "value_skipped (JArr0 u)"
  proof (rule value_skippedI)
    fix data pos w rest
    assume d: "drop pos data = w @ render (JArr0 u) @ rest" "all_ws w"
      "drop (pos + length w) data = render (JArr0 u) @ rest"
    let ?p = "pos + length w"
    have dp: "drop ?p data = b_lbracket # (u @ b_rbracket # rest)" using d(3) by simp
    note d1 = drop_Suc_shift [OF dp]
    have "skip_ws data (?p + 1) = ?p + 1 + length u" by (rule skip_ws_drop [OF d1 assms]) simp
    then have "skip_array data ?p = Ok (True, ?p + 1 + length u + 1)"
      using peek_drop [OF dp] peek_drop [OF drop_shift [OF d1]]
      by (subst skip_array.simps) (simp add: Let_def del: peek_Some)
    then show "skip_value data pos = Ok (True, pos + length w + length (render (JArr0 u)))"
      using skip_value_at [OF _ d(2) ws(1)] d(1) by simp
  qed (use assms in simp)
  show "value_skipped (JObj0 u)"
  proof (rule value_skippedI)
    fix data pos w rest
    assume d: "drop pos data = w @ render (JObj0 u) @ rest" "all_ws w"
      "drop (pos + length w) data = render (JObj0 u) @ rest"
    let ?p = "pos + length w"
    have dp: "drop ?p data = b_lbrace # (u @ b_rbrace # rest)" using d(3) by simp
    note d1 = drop_Suc_shift [OF dp]
    have "skip_ws data (?p + 1) = ?p + 1 + length u" by (rule skip_ws_drop [OF d1 assms]) simp
    then have "skip_object data ?p = Ok (True, ?p + 1 + length u + 1)"
      using peek_drop [OF dp] peek_drop [OF drop_shift [OF d1]]
      by (subst skip_object.simps) (simp add: Let_def del: peek_Some)
    then show "skip_value data pos = Ok (True, pos + length w + length (render (JObj0 u)))"
      using skip_value_at [OF _ d(2) ws(2)] d(1) by simp
  qed (use assms in simp)
qed

lemma elems_skipped_Last:
  assumes "value_skipped v" and "all_ws b" shows "elems_skipped (ELast v b)"
  unfolding elems_skipped_def
proof (intro allI impI)
  fix data pos w rest
  assume "drop pos data = w @ render_elems (ELast v b) @ rest \<and> all_ws w"
  then have d: "drop pos data = w @ render v @ b @ b_rbracket # rest" and w: "all_ws w" by auto
  show "skip_elements data pos = Ok (True, pos + length w + length (render_elems (ELast v b)))"
    using value_then [OF assms(1) d w assms(2)]
    by (subst skip_elements.simps) (simp add: Let_def del: peek_Some)
qed

lemma elems_skipped_Cons:
  assumes "value_skipped v" and "all_ws b" and "all_ws a" and "elems_skipped es"
  shows "elems_skipped (ECons v b a es)"
  unfolding elems_skipped_def
proof (intro allI impI)
  fix data pos w rest
  assume "drop pos data = w @ render_elems (ECons v b a es) @ rest \<and> all_ws w"
  then have d: "drop pos data = w @ render v @ b @ b_comma # (a @ render_elems es @ rest)"
    and w: "all_ws w" by auto
  note v = value_then [OF assms(1) d w assms(2), simplified sep_ends simp_thms]
  have "skip_elements data (pos + length w + length (render v) + length b + 1) =
      Ok (True, pos + length w + length (render v) + length b + 1 + length a +
        length (render_elems es))"
    using assms(3,4) v(4) unfolding elems_skipped_def by blast
  then show "skip_elements data pos =
      Ok (True, pos + length w + length (render_elems (ECons v b a es)))"
    using v by (subst skip_elements.simps) (simp add: Let_def del: peek_Some)
qed

lemma members_skipped_Last:
  assumes "value_skipped v" and k: "str_body k" and ws: "all_ws b" "all_ws c" "all_ws d"
  shows "members_skipped (MLast k b c v d)"
  unfolding members_skipped_def
proof (intro allI impI)
  fix data pos w rest
  assume "drop pos data = w @ render_members (MLast k b c v d) @ rest \<and> all_ws w"
  then have dr: "drop pos data = w @ render_key k b c @ (render v @ d @ b_rbrace # rest)"
    and w: "all_ws w" by auto
  note key = skip_key [OF dr w ws(1) k]
  note v = value_then [OF assms(1) key(6) ws(2,3), simplified sep_ends simp_thms]
  show "skip_members data pos = Ok (True, pos + length w + length (render_members (MLast k b c v d)))"
    using key(1-5) v
    by (subst skip_members.simps) (simp add: Let_def render_key_def del: peek_Some)
qed

lemma members_skipped_Cons:
  assumes "value_skipped v" and k: "str_body k" and ws: "all_ws b" "all_ws c" "all_ws d" "all_ws a"
    and ms: "members_skipped ms"
  shows "members_skipped (MCons k b c v d a ms)"
  unfolding members_skipped_def
proof (intro allI impI)
  fix data pos w rest
  assume "drop pos data = w @ render_members (MCons k b c v d a ms) @ rest \<and> all_ws w"
  then have dr: "drop pos data = w @ render_key k b c @
      (render v @ d @ b_comma # (a @ render_members ms @ rest))" and w: "all_ws w" by auto
  note key = skip_key [OF dr w ws(1) k]
  note v = value_then [OF assms(1) key(6) ws(2,3), simplified sep_ends simp_thms]
  let ?s = "pos + length w + length k + 2 + length b + 1 + length c + length (render v) + length d + 1"
  have "skip_members data ?s = Ok (True, ?s + length a + length (render_members ms))"
    using ms ws(4) v(4) unfolding members_skipped_def by blast
  then show "skip_members data pos =
      Ok (True, pos + length w + length (render_members (MCons k b c v d a ms)))"
    using key(1-5) v
    by (subst skip_members.simps) (simp add: Let_def render_key_def del: peek_Some)
qed

lemma array_skipped:
  assumes "elems_skipped es" and wf: "wf_json (JArr u es)" shows "value_skipped (JArr u es)"
proof (rule value_skippedI [OF _ wf])
  fix data pos w rest
  assume d: "drop pos data = w @ render (JArr u es) @ rest" "all_ws w"
    "drop (pos + length w) data = render (JArr u es) @ rest"
  let ?p = "pos + length w"
  obtain v t where v: "wf_json v" "render_elems es = render v @ t"
    using wf by (cases es) auto
  obtain c t' where c: "render v = c # t'" "\<not> is_ws c" "c \<noteq> b_rbracket"
    using render_head [OF v(1)] head_not_close [OF v(1)] by fastforce
  have dp: "drop ?p data = b_lbracket # (u @ render_elems es @ rest)" using d(3) by simp
  note d1 = drop_Suc_shift [OF dp]
  have ws: "skip_ws data (?p + 1) = ?p + 1 + length u"
    by (rule skip_ws_drop [OF d1]) (use wf v c in auto)
  have d2: "drop (?p + 1 + length u) data = render_elems es @ rest" by (rule drop_shift [OF d1])
  have "peek data (?p + 1 + length u) = Some c" by (rule peek_drop) (use d2 v c in simp)
  moreover have "skip_elements data (?p + 1 + length u) =
      Ok (True, ?p + 1 + length u + length (render_elems es))"
    using assms(1) [unfolded elems_skipped_def, rule_format, of _ data "[]" rest] d2 by simp
  ultimately have "skip_array data ?p = Ok (True, ?p + 1 + length u + length (render_elems es))"
    using peek_drop [OF dp] ws c(3) by (subst skip_array.simps) (simp add: Let_def del: peek_Some)
  then show "skip_value data pos = Ok (True, pos + length w + length (render (JArr u es)))"
    using skip_value_at [OF _ d(2), of pos data b_lbracket] d(1) by (simp add: is_ws_def)
qed

lemma object_skipped:
  assumes "members_skipped ms" and wf: "wf_json (JObj u ms)" shows "value_skipped (JObj u ms)"
proof (rule value_skippedI [OF _ wf])
  fix data pos w rest
  assume d: "drop pos data = w @ render (JObj u ms) @ rest" "all_ws w"
    "drop (pos + length w) data = render (JObj u ms) @ rest"
  let ?p = "pos + length w"
  obtain t where t: "render_members ms = b_quote # t" by (cases ms) (auto simp: render_key_def)
  have dp: "drop ?p data = b_lbrace # (u @ render_members ms @ rest)" using d(3) by simp
  note d1 = drop_Suc_shift [OF dp]
  have ws: "skip_ws data (?p + 1) = ?p + 1 + length u"
    by (rule skip_ws_drop [OF d1]) (use wf t in auto)
  have d2: "drop (?p + 1 + length u) data = render_members ms @ rest" by (rule drop_shift [OF d1])
  have "peek data (?p + 1 + length u) = Some b_quote" by (rule peek_drop) (use d2 t in simp)
  moreover have "skip_members data (?p + 1 + length u) =
      Ok (True, ?p + 1 + length u + length (render_members ms))"
    using assms(1) [unfolded members_skipped_def, rule_format, of _ data "[]" rest] d2 by simp
  ultimately have "skip_object data ?p = Ok (True, ?p + 1 + length u + length (render_members ms))"
    using peek_drop [OF dp] ws by (subst skip_object.simps) (simp add: Let_def del: peek_Some)
  then show "skip_value data pos = Ok (True, pos + length w + length (render (JObj u ms)))"
    using skip_value_at [OF _ d(2), of pos data b_lbrace] d(1) by (simp add: is_ws_def)
qed

lemma rendered_skipped:
  "wf_json v \<Longrightarrow> value_skipped v"
  "wf_elems es \<Longrightarrow> elems_skipped es"
  "wf_members ms \<Longrightarrow> members_skipped ms"
  by (induction v and es and ms)
    (simp_all add: literal_skipped number_skipped string_skipped empty_skipped array_skipped
      object_skipped elems_skipped_Last elems_skipped_Cons members_skipped_Last members_skipped_Cons)

end
