(* ===== verification/Json_Lookup.thy ===== *)
theory Json_Lookup
  imports Json_Grammar
begin

text \<open>
  Lookups on rendered documents. \<open>points_at s v\<close>: the scanner \<open>s\<close> stands at the first byte
  of a rendering of \<open>v\<close>. A scanner created on a document points at it, \<open>field\<close> and
  \<open>index\<close> keep the relation for the member or element the document has there, and the typed
  extractors return what the tree says.
\<close>

section \<open>Scanners that point at a value\<close>

definition points_at :: "json_scan \<Rightarrow> json \<Rightarrow> bool" where
  "points_at s v \<longleftrightarrow> (\<exists>rest. drop (js_pos s) (js_data s) = render v @ rest \<and> ends_token rest)"

primrec member_list :: "members \<Rightarrow> (bytes \<times> json) list" where
  "member_list (MLast k b c v d) = [(k, v)]"
| "member_list (MCons k b c v d a ms) = (k, v) # member_list ms"

primrec elem_list :: "elems \<Rightarrow> json list" where
  "elem_list (ELast v b) = [v]"
| "elem_list (ECons v b a es) = v # elem_list es"

fun obj_members :: "json \<Rightarrow> (bytes \<times> json) list" where
  "obj_members (JObj w ms) = member_list ms"
| "obj_members v = []"

fun arr_elems :: "json \<Rightarrow> json list" where
  "arr_elems (JArr w es) = elem_list es"
| "arr_elems v = []"

fun is_arr :: "json \<Rightarrow> bool" where
  "is_arr (JArr w es) \<longleftrightarrow> True"
| "is_arr (JArr0 w) \<longleftrightarrow> True"
| "is_arr v \<longleftrightarrow> False"

lemma skip_ws_none: "drop pos data = render v @ rest \<Longrightarrow> wf_json v \<Longrightarrow> skip_ws data pos = pos"
  using skip_ws_drop [of pos data "[]"] no_ws_render by simp

lemma json_new_points_at:
  assumes "all_ws w" and "all_ws w'" and "wf_json v"
  shows "points_at (json_new (w @ render v @ w')) v"
proof -
  have "ends_token w'" using assms(2) by (cases w') (auto simp: ends_token_def)
  moreover have "skip_ws (w @ render v @ w') 0 = length w"
    using skip_ws_drop [of 0 "w @ render v @ w'" w] assms no_ws_render by simp
  ultimately show ?thesis by (auto simp: points_at_def json_new_def)
qed

lemma render_hd_lbrace:
  assumes "wf_json v" and "hd (render v) = b_lbrace"
  shows "(\<exists>w. v = JObj0 w) \<or> (\<exists>w ms. v = JObj w ms)"
  using assms by (cases v) (auto simp: ascii_def is_ascii_digit_def neq_Nil_conv split: if_splits)

lemma render_hd_lbracket:
  assumes "wf_json v" and "hd (render v) = b_lbracket"
  shows "(\<exists>w. v = JArr0 w) \<or> (\<exists>w ms. v = JArr w ms)"
  using assms by (cases v) (auto simp: ascii_def is_ascii_digit_def neq_Nil_conv split: if_splits)

lemma points_at_peek:
  assumes "points_at s v" and "wf_json v"
  shows "peek (js_data s) (js_pos s) = Some (hd (render v))"
    and "skip_ws (js_data s) (js_pos s) = js_pos s"
proof -
  obtain c t where c: "render v = c # t" using render_head [OF assms(2)] by blast
  obtain rest where d: "drop (js_pos s) (js_data s) = render v @ rest"
    using assms(1) by (auto simp: points_at_def)
  then show "peek (js_data s) (js_pos s) = Some (hd (render v))"
    using peek_drop c by (metis append_Cons list.sel(1))
  show "skip_ws (js_data s) (js_pos s) = js_pos s" by (rule skip_ws_none [OF d assms(2)])
qed

section \<open>Member lookup\<close>

lemma members_ind [case_names MLast MCons]:
  assumes "\<And>k b c v d. P (MLast k b c v d)"
    and "\<And>k b c v d a ms. P ms \<Longrightarrow> P (MCons k b c v d a ms)"
  shows "P ms"
  by (rule members.induct [of "\<lambda>_. True" "\<lambda>_. True" P]) (use assms in auto)

lemma elems_ind [case_names ELast ECons]:
  assumes "\<And>v b. P (ELast v b)" and "\<And>v b a es. P es \<Longrightarrow> P (ECons v b a es)"
  shows "P es"
  by (rule elems.induct [of "\<lambda>_. True" P "\<lambda>_. True"]) (use assms in auto)

text \<open>The result of a lookup: a scanner at the first member with the key, or none.\<close>

definition lookup_result :: "bytes \<Rightarrow> (bytes \<times> json) list \<Rightarrow> bytes \<Rightarrow> json_scan option scan_res \<Rightarrow> bool"
where
  "lookup_result name kvs data m \<longleftrightarrow>
     (case map_of kvs name of
        None \<Rightarrow> m = Ok None
      | Some v \<Rightarrow> \<exists>s. m = Ok (Some s) \<and> js_data s = data \<and> points_at s v)"

lemma field_loop_found:
  assumes dr: "drop pos data = w @ render_key k b c @ (render v @ t)" and "ends_token t"
    and w: "all_ws w" and k: "str_body k" and ws: "all_ws b" "all_ws c" and wf: "wf_json v"
  defines "p \<equiv> pos + length w + length k + 2 + length b + 1 + length c"
  shows "field_loop k data pos = Ok (Some \<lparr>js_data = data, js_pos = p\<rparr>) \<and>
    points_at \<lparr>js_data = data, js_pos = p\<rparr> v"
    and "name \<noteq> k \<Longrightarrow> field_loop name data pos =
      res_bind (skip_value data p) (\<lambda>(ok, r).
        if \<not> ok then Ok None
        else let s = skip_ws data r
             in if peek data s = Some b_comma then field_loop name data (s + 1) else Ok None)"
proof -
  note key = skip_key [OF dr w ws(1) k]
  let ?q = "pos + length w + length k + 2 + length b"
  have v: "skip_ws data (?q + 1) = p"
    using skip_ws_drop [OF key(6) ws(2)] no_ws_render [OF wf] by (simp add: p_def)
  have len: "pos + length w + length k + 2 \<le> length data"
    using skip_string_True [OF key(3)] by simp
  have sl: "slice data (pos + length w + 1) (pos + length w + length k + 2 - 1) = (Ok k :: bytes scan_res)"
    using key(7) len by (simp add: slice_def)
  have dp: "drop p data = render v @ t"
    using drop_shift [OF key(6)] by (simp add: p_def)
  show "field_loop k data pos = Ok (Some \<lparr>js_data = data, js_pos = p\<rparr>) \<and>
    points_at \<lparr>js_data = data, js_pos = p\<rparr> v"
    using key(1-5) v sl dp assms(2)
    by (subst field_loop.simps) (auto simp: Let_def points_at_def simp del: peek_Some)
  show "field_loop name data pos =
      res_bind (skip_value data p) (\<lambda>(ok, r).
        if \<not> ok then Ok None
        else let s = skip_ws data r
             in if peek data s = Some b_comma then field_loop name data (s + 1) else Ok None)"
    if "name \<noteq> k"
    using key(1-5) v sl that
    by (subst field_loop.simps) (simp add: Let_def del: peek_Some)
qed

lemma field_loop_members:
  assumes "wf_members ms" and "drop pos data = w @ render_members ms @ rest" and "all_ws w"
  shows "lookup_result name (member_list ms) data (field_loop name data pos)"
  using assms
proof (induction ms arbitrary: pos w rule: members_ind)
  case (MLast k b c v d)
  then have dr: "drop pos data = w @ render_key k b c @ (render v @ d @ b_rbrace # rest)"
    and wf: "str_body k" "all_ws b" "all_ws c" "wf_json v" "all_ws d" by auto
  have e: "ends_token (d @ b_rbrace # rest)" using ends_token_ws [OF wf(5)] by simp
  note f = field_loop_found [OF dr e MLast.prems(3) wf(1-4)]
  let ?p = "pos + length w + length k + 2 + length b + 1 + length c"
  have dp: "drop ?p data = [] @ render v @ d @ b_rbrace # rest"
    using drop_shift [of pos data "w @ render_key k b c"] dr by (simp add: render_key_def add.assoc)
  note val = value_then [OF rendered_skipped(1) [OF wf(4)] dp _ wf(5), simplified]
  show ?case
    using f val by (cases "name = k") (auto simp: lookup_result_def Let_def)
next
  case (MCons k b c v d a ms)
  then have dr: "drop pos data = w @ render_key k b c @
      (render v @ d @ b_comma # (a @ render_members ms @ rest))"
    and wf: "str_body k" "all_ws b" "all_ws c" "wf_json v" "all_ws d" "all_ws a" "wf_members ms"
    by auto
  have e: "ends_token (d @ b_comma # (a @ render_members ms @ rest))"
    using ends_token_ws [OF wf(5)] by simp
  note f = field_loop_found [OF dr e MCons.prems(3) wf(1-4)]
  let ?p = "pos + length w + length k + 2 + length b + 1 + length c"
  have dp: "drop ?p data = [] @ render v @ d @ b_comma # (a @ render_members ms @ rest)"
    using drop_shift [of pos data "w @ render_key k b c"] dr by (simp add: render_key_def add.assoc)
  note val = value_then [OF rendered_skipped(1) [OF wf(4)] dp _ wf(5),
      simplified sep_ends list.pred_inject list.size simp_thms add_0_right]
  show ?case
  proof (cases "name = k")
    case True
    then show ?thesis using f(1) by (auto simp: lookup_result_def)
  next
    case False
    then have "field_loop name data pos =
        field_loop name data (?p + length (render v) + length d + 1)"
      using f(2) val by (simp add: Let_def del: peek_Some)
    then show ?thesis
      using MCons.IH [OF wf(7) val(4) wf(6)] False by (simp add: lookup_result_def)
  qed
qed

lemma field_points_at:
  assumes at: "points_at s v" and wf: "wf_json v"
  shows "lookup_result name (obj_members v) (js_data s) (field name s)"
proof -
  note pk = points_at_peek [OF assms]
  obtain rest where d: "drop (js_pos s) (js_data s) = render v @ rest"
    using at by (auto simp: points_at_def)
  show ?thesis
  proof (cases "hd (render v) = b_lbrace")
    case False
    then have "obj_members v = []" by (cases v) auto
    then show ?thesis using False pk by (simp add: field_def Let_def lookup_result_def del: peek_Some)
  next
    case True
    then consider (empty) w where "v = JObj0 w" | (obj) w ms where "v = JObj w ms"
      using render_hd_lbrace [OF wf] by blast
    then show ?thesis
    proof cases
      case empty
      then have dp: "drop (js_pos s) (js_data s) = b_lbrace # (w @ b_rbrace # rest)" using d by simp
      note d1 = drop_Suc_shift [OF dp]
      have "skip_ws (js_data s) (js_pos s + 1) = js_pos s + 1 + length w"
        by (rule skip_ws_drop [OF d1]) (use wf empty in auto)
      then show ?thesis
        using pk True peek_drop [OF drop_shift [OF d1]] empty
        by (simp add: field_def Let_def lookup_result_def del: peek_Some)
    next
      case obj
      obtain t where t: "render_members ms = b_quote # t" by (cases ms) (auto simp: render_key_def)
      have dp: "drop (js_pos s) (js_data s) = b_lbrace # (w @ render_members ms @ rest)"
        using d obj by simp
      note d1 = drop_Suc_shift [OF dp]
      have ws: "skip_ws (js_data s) (js_pos s + 1) = js_pos s + 1 + length w"
        by (rule skip_ws_drop [OF d1]) (use wf obj t in auto)
      have d2: "drop (js_pos s + 1 + length w) (js_data s) = [] @ render_members ms @ rest"
        using drop_shift [OF d1] by simp
      have "peek (js_data s) (js_pos s + 1 + length w) = Some b_quote"
        by (rule peek_drop) (use d2 t in simp)
      then have "field name s = field_loop name (js_data s) (js_pos s + 1 + length w)"
        using pk True ws by (simp add: field_def Let_def del: peek_Some)
      then show ?thesis
        using field_loop_members [OF _ d2] wf obj by simp
    qed
  qed
qed

section \<open>Array iteration\<close>

text \<open>The iterator stands before the elements \<open>vs\<close>.\<close>

definition iter_at :: "json_array_iter \<Rightarrow> json list \<Rightarrow> bool" where
  "iter_at it vs \<longleftrightarrow>
     (if vs = [] then ai_done it
      else \<not> ai_done it \<and> (\<exists>es w rest. vs = elem_list es \<and> wf_elems es \<and> all_ws w \<and>
        drop (ai_pos it) (ai_data it) = w @ render_elems es @ rest))"

lemma elem_list_not_Nil [simp]: "elem_list es \<noteq> []"
  by (cases es) auto

lemma iter_next_Nil: "iter_at it [] \<Longrightarrow> iter_next it = Ok (None, it)"
  by (simp add: iter_at_def iter_next_def)

lemma iter_next_Cons:
  assumes "iter_at it (v # vs)"
  shows "\<exists>s it'. iter_next it = Ok (Some s, it') \<and> js_data s = ai_data it \<and> points_at s v \<and>
    ai_data it' = ai_data it \<and> iter_at it' vs \<and> wf_json v"
proof -
  let ?data = "ai_data it"
  obtain es w rest where es: "v # vs = elem_list es" "wf_elems es" and w: "all_ws w"
    and d: "drop (ai_pos it) ?data = w @ render_elems es @ rest" and nd: "\<not> ai_done it"
    using assms by (auto simp: iter_at_def)
  let ?p = "ai_pos it + length w"
  have wf: "wf_json v" using es by (cases es) auto
  obtain t where t: "render_elems es = render v @ t" "ends_token (t @ rest)"
  proof (cases es)
    case (ELast x b)
    then show ?thesis using that es ends_token_ws [of b b_rbracket rest] by auto
  next
    case (ECons x b a es')
    then show ?thesis
      using that es ends_token_ws [of b b_comma "a @ render_elems es' @ rest"] by auto
  qed
  have d': "drop (ai_pos it) ?data = w @ render v @ t @ rest" using d t by simp
  have ws: "skip_ws ?data (ai_pos it) = ?p"
    by (rule skip_ws_drop [OF d' w no_ws_render [OF wf]])
  have dp: "drop ?p ?data = render v @ t @ rest" by (rule drop_shift [OF d'])
  obtain c u where c: "render v = c # u" "c \<noteq> b_rbracket"
    using render_head [OF wf] head_not_close [OF wf] by fastforce
  have at: "?p < length ?data" "?data ! ?p = c" using dp c drop_in_range nth_via_drop by fastforce+
  let ?it1 = "it\<lparr>ai_pos := ?p\<rparr>" and ?s = "\<lparr>js_data = ?data, js_pos = ?p\<rparr>"
  have pt: "points_at ?s v" using dp t(2) by (auto simp: points_at_def)
  have nxt: "iter_next it = res_bind (skip_value ?data ?p) (\<lambda>(ok, r).
      if \<not> ok then Ok (Some ?s, ?it1\<lparr>ai_done := True\<rparr>)
      else let q = skip_ws ?data r
           in if peek ?data q = Some b_comma then Ok (Some ?s, ?it1\<lparr>ai_pos := q + 1\<rparr>)
              else Ok (Some ?s, ?it1\<lparr>ai_done := True\<rparr>))"
    using nd at c(2) unfolding iter_next_def Let_def ws by simp
  show ?thesis
  proof (cases es)
    case (ELast x b)
    then have dv: "drop ?p ?data = [] @ render v @ b @ b_rbracket # rest" and b: "all_ws b"
      and vs: "vs = []" using es drop_shift [OF d] by auto
    note val = value_then [OF rendered_skipped(1) [OF wf] dv _ b, simplified sep_ends
        list.pred_inject list.size simp_thms add_0_right]
    show ?thesis using nxt val pt wf vs by (simp add: Let_def iter_at_def del: peek_Some)
  next
    case (ECons x b a es')
    then have dv: "drop ?p ?data = [] @ render v @ b @ b_comma # (a @ render_elems es' @ rest)"
      and b: "all_ws b" and a: "all_ws a" "wf_elems es'" and vs: "vs = elem_list es'"
      using es drop_shift [OF d] by auto
    note val = value_then [OF rendered_skipped(1) [OF wf] dv _ b, simplified sep_ends
        list.pred_inject list.size simp_thms add_0_right]
    let ?q = "?p + length (render v) + length b + 1"
    have "iter_at (?it1\<lparr>ai_pos := ?q\<rparr>) vs"
      using val(4) a vs nd by (auto simp: iter_at_def)
    then show ?thesis using nxt val pt wf by (simp add: Let_def del: peek_Some)
  qed
qed

lemma array_iter_points_at:
  assumes at: "points_at s v" and wf: "wf_json v"
  shows "if is_arr v then \<exists>it. array_iter s = Some it \<and> ai_data it = js_data s \<and>
      iter_at it (arr_elems v) else array_iter s = None"
proof -
  note pk = points_at_peek [OF assms]
  obtain rest where d: "drop (js_pos s) (js_data s) = render v @ rest"
    using at by (auto simp: points_at_def)
  consider (empty) w where "v = JArr0 w" | (arr) w es where "v = JArr w es" | (other) "\<not> is_arr v"
    by (cases v) auto
  then show ?thesis
  proof cases
    case other
    then have "hd (render v) \<noteq> b_lbracket" using render_hd_lbracket [OF wf] by auto
    then show ?thesis using other pk by (simp add: array_iter_def Let_def del: peek_Some)
  next
    case empty
    then have dp: "drop (js_pos s) (js_data s) = b_lbracket # (w @ b_rbracket # rest)" using d by simp
    note d1 = drop_Suc_shift [OF dp]
    have "skip_ws (js_data s) (js_pos s + 1) = js_pos s + 1 + length w"
      by (rule skip_ws_drop [OF d1]) (use wf empty in auto)
    then show ?thesis
      using pk peek_drop [OF drop_shift [OF d1]] empty
      by (simp add: array_iter_def Let_def iter_at_def del: peek_Some)
  next
    case arr
    obtain x t where x: "wf_json x" "render_elems es = render x @ t"
      using wf arr by (cases es) auto
    have dp: "drop (js_pos s) (js_data s) = b_lbracket # (w @ render_elems es @ rest)"
      using d arr by simp
    note d1 = drop_Suc_shift [OF dp]
    have nw: "no_ws (render_elems es @ rest)" using x no_ws_render by simp
    have ws: "skip_ws (js_data s) (js_pos s + 1) = js_pos s + 1 + length w"
      by (rule skip_ws_drop [OF d1 _ nw]) (use wf arr in auto)
    have d2: "drop (js_pos s + 1 + length w) (js_data s) = [] @ render_elems es @ rest"
      using drop_shift [OF d1] by simp
    obtain c u where c: "render x = c # u" "c \<noteq> b_rbracket"
      using render_head [OF x(1)] head_not_close [OF x(1)] by fastforce
    have "peek (js_data s) (js_pos s + 1 + length w) = Some c"
      by (rule peek_drop) (use d2 x c in simp)
    moreover have "\<exists>es' w' r. elem_list es = elem_list es' \<and> wf_elems es' \<and> all_ws w' \<and>
        drop (js_pos s + 1 + length w) (js_data s) = w' @ render_elems es' @ r"
      by (intro exI [of _ es] exI [of _ "[]"] exI [of _ rest]) (use d2 wf arr in auto)
    ultimately show ?thesis
      using pk ws c(2) arr by (simp add: array_iter_def Let_def iter_at_def del: peek_Some)
  qed
qed

lemma iter_nth_at:
  assumes "iter_at it vs"
  shows "if i < length vs then \<exists>s. iter_nth it i = Ok (Some s) \<and> js_data s = ai_data it \<and>
      points_at s (vs ! i) else iter_nth it i = Ok None"
  using assms
proof (induction i arbitrary: it vs)
  case 0
  show ?case
  proof (cases vs)
    case Nil
    then show ?thesis using iter_next_Nil 0 by simp
  next
    case (Cons v vs')
    then show ?thesis using iter_next_Cons [of it v vs'] 0 by auto
  qed
next
  case (Suc i)
  show ?case
  proof (cases vs)
    case Nil
    then show ?thesis using iter_next_Nil Suc by simp
  next
    case (Cons v vs')
    then obtain s it' where n: "iter_next it = Ok (Some s, it')" "ai_data it' = ai_data it"
      "iter_at it' vs'" using iter_next_Cons [of it v vs'] Suc.prems by auto
    then show ?thesis using Suc.IH [OF n(3)] Cons by auto
  qed
qed

lemma index_points_at:
  assumes "points_at s v" and "wf_json v"
  shows "if i < length (arr_elems v)
    then \<exists>s'. json_index i s = Ok (Some s') \<and> js_data s' = js_data s \<and> points_at s' (arr_elems v ! i)
    else json_index i s = Ok None"
proof (cases "is_arr v")
  case True
  then obtain it where "array_iter s = Some it" "ai_data it = js_data s" "iter_at it (arr_elems v)"
    using array_iter_points_at [OF assms] by auto
  then show ?thesis using iter_nth_at [of it "arr_elems v" i] by (auto simp: json_index_def split: if_splits)
next
  case False
  then have "arr_elems v = []" by (cases v) auto
  then show ?thesis using array_iter_points_at [OF assms] False by (simp add: json_index_def)
qed

end
