(* ===== verification/Json_Properties.thy ===== *)
theory Json_Properties
  imports Json_Lookup
begin

text \<open>
  What clients of the scanner rely on: on arbitrary bytes no method panics and every scanner
  stays in its data; on rendered documents the lookups and extractors return what the document
  says; integers survive the detour through double precision below \<open>2^53\<close>, and not above.
\<close>

section \<open>Arbitrary input\<close>

definition in_range :: "json_scan \<Rightarrow> bool" where
  "in_range s \<longleftrightarrow> js_pos s \<le> length (js_data s)"

definition iter_in_range :: "json_array_iter \<Rightarrow> bool" where
  "iter_in_range it \<longleftrightarrow> ai_pos it \<le> length (ai_data it)"

text \<open>An outcome that is no panic and whose scanner, if any, is in range.\<close>

definition safe_scan :: "json_scan option scan_res \<Rightarrow> bool" where
  "safe_scan m \<longleftrightarrow> (case m of Ok None \<Rightarrow> True | Ok (Some s) \<Rightarrow> in_range s | _ \<Rightarrow> False)"

lemma safe_scan_simps [simp]: "safe_scan (Ok None)" "safe_scan (Ok (Some s)) \<longleftrightarrow> in_range s"
  "\<not> safe_scan Panic" "\<not> safe_scan (Err e)"
  by (simp_all add: safe_scan_def)

lemma skip_value_Ok:
  assumes "pos \<le> length data"
  obtains ok r where "skip_value data pos = Ok (ok, r)" and "ok \<longrightarrow> r \<le> length data"
  using scan_ok(1) [OF assms] by (auto elim: ok_scanE)

lemma json_new_in_range: "in_range (json_new data)"
  using skip_ws_le [of 0 data] by (simp add: json_new_def in_range_def)

lemma field_loop_safe: "pos \<le> length data \<Longrightarrow> safe_scan (field_loop target data pos)"
proof (induction target data pos rule: field_loop.induct)
  case (1 target data pos0)
  let ?pos = "skip_ws data pos0"
  obtain str p where str: "skip_string data ?pos = (str, p)" by fastforce
  let ?q = "skip_ws data p" and ?v = "skip_ws data (skip_ws data p + 1)"
  show ?case
  proof (cases "peek data ?pos = Some b_quote \<and> str \<and> peek data ?q = Some b_colon")
    case False
    then show ?thesis by (subst field_loop.simps) (auto simp: Let_def str simp del: peek_Some)
  next
    case True
    then have t: "?pos + 1 < p" "p \<le> length data" using skip_string_True str by auto
    have v: "?v \<le> length data" using True skip_ws_le [of "?q + 1" data] by simp
    obtain ok r where sv: "skip_value data ?v = Ok (ok, r)" "ok \<longrightarrow> r \<le> length data"
      using skip_value_Ok [OF v] by blast
    have sl: "slice data (?pos + 1) (p - 1) = (Ok (take (p - 1 - (?pos + 1)) (drop (?pos + 1) data))
        :: bytes scan_res)" (is "_ = Ok ?key") using t by (auto simp: slice_def)
    show ?thesis
    proof (cases "?key = target \<or> \<not> ok \<or> peek data (skip_ws data r) \<noteq> Some b_comma")
      case stop: True
      then show ?thesis
        using True sl sv v
        by (subst field_loop.simps)
          (auto simp: Let_def str in_range_def simp del: peek_Some)
    next
      case go: False
      then have "field_loop target data pos0 = field_loop target data (skip_ws data r + 1)"
        using True sl sv by (subst field_loop.simps) (simp add: Let_def str del: peek_Some)
      moreover have "safe_scan (field_loop target data (skip_ws data r + 1))"
      proof (rule "1.IH" [OF refl _ refl refl str [symmetric] _ refl refl _ refl sl _ sv(1) refl _ refl])
      qed (use True go in auto)
      ultimately show ?thesis by simp
    qed
  qed
qed

lemma field_safe: "in_range s \<Longrightarrow> safe_scan (field name s)"
proof -
  assume "in_range s"
  let ?pos = "skip_ws (js_data s) (js_pos s)"
  have "skip_ws (js_data s) (?pos + 1) \<le> length (js_data s)" if "peek (js_data s) ?pos = Some c" for c
    using that skip_ws_le [of "?pos + 1" "js_data s"] by simp
  then show ?thesis using field_loop_safe by (auto simp: field_def Let_def simp del: peek_Some)
qed

lemma iter_next_safe:
  assumes "iter_in_range it"
  shows "\<exists>r it'. iter_next it = Ok (r, it') \<and> safe_scan (Ok r) \<and> iter_in_range it'"
proof -
  let ?pos = "skip_ws (ai_data it) (ai_pos it)"
  have p: "?pos \<le> length (ai_data it)"
    using assms skip_ws_le by (simp add: iter_in_range_def)
  obtain ok r where sv: "skip_value (ai_data it) ?pos = Ok (ok, r)"
    using skip_value_Ok [OF p] by blast
  have "Suc q \<le> length (ai_data it)" if "peek (ai_data it) q = Some c" for q c
    using that by simp
  then show ?thesis
    using assms p sv
    by (auto simp: iter_next_def Let_def iter_in_range_def in_range_def simp del: peek_Some)
qed

lemma array_iter_safe: "array_iter s = Some it \<Longrightarrow> iter_in_range it"
  using skip_ws_le [of "skip_ws (js_data s) (js_pos s) + 1" "js_data s"]
  by (auto simp: array_iter_def Let_def iter_in_range_def split: if_splits)

lemma iter_nth_safe: "iter_in_range it \<Longrightarrow> safe_scan (iter_nth it n)"
proof (induction n arbitrary: it)
  case 0
  then show ?case using iter_next_safe [of it] by auto
next
  case (Suc n)
  obtain r it' where "iter_next it = Ok (r, it')" "iter_in_range it'"
    using iter_next_safe [OF Suc.prems] by blast
  then show ?case using Suc.IH by (cases r) auto
qed

lemma index_safe: "safe_scan (json_index i s)"
  using array_iter_safe iter_nth_safe by (auto simp: json_index_def split: option.splits)

lemma first_safe: "safe_scan (json_first s)"
  using array_iter_safe iter_next_safe by (fastforce simp: json_first_def split: option.splits)

text \<open>\<open>as_str\<close> ends where \<open>skip_string\<close> does.\<close>

lemma as_str_loop_eq:
  "as_str_loop data start pos =
    (let (ok, p) = skip_string_loop data pos
     in if ok then res_bind (slice data start (p - 1)) (\<lambda>s. Ok (from_utf8 s)) else Ok None)"
proof (induction data start pos rule: as_str_loop.induct)
  case (1 data start pos)
  then show ?case
    by (subst as_str_loop.simps, subst skip_string_loop.simps) (auto split: prod.splits)
qed

lemma as_str_eq:
  "as_str s =
    (let (ok, p) = skip_string (js_data s) (js_pos s)
     in if ok then res_bind (slice (js_data s) (js_pos s + 1) (p - 1)) (\<lambda>t. Ok (from_utf8 t))
        else Ok None)"
  by (cases "skip_string_loop (js_data s) (js_pos s + 1)")
    (auto simp: as_str_def skip_string_def as_str_loop_eq simp del: peek_Some)

lemma as_str_safe: "as_str s \<noteq> Panic"
  using skip_string_True [of "js_data s" "js_pos s"]
  by (auto simp: as_str_eq Let_def slice_def split: prod.splits)

lemma as_f64_safe: "in_range s \<Longrightarrow> as_f64 s \<noteq> Panic"
  using skip_ws_le [of "js_pos s" "js_data s"] skip_number_ge [of "skip_ws (js_data s) (js_pos s)"
    "js_data s"] skip_number_le [of "skip_ws (js_data s) (js_pos s)" "js_data s"]
  by (auto simp: as_f64_def Let_def slice_def in_range_def split: prod.splits)

lemma as_i64_safe:
  assumes "in_range s" shows "as_i64 s \<noteq> Panic"
proof -
  let ?st = "skip_ws (js_data s) (js_pos s)"
  have "?st \<le> length (js_data s)" using assms skip_ws_le by (simp add: in_range_def)
  then have sg: "?st \<le> skip_sign (js_data s) ?st" "skip_sign (js_data s) ?st \<le> length (js_data s)"
    by (auto simp: skip_sign_def)
  then have "?st \<le> skip_digits (js_data s) (skip_sign (js_data s) ?st)"
    "skip_digits (js_data s) (skip_sign (js_data s) ?st) \<le> length (js_data s)"
    using skip_digits_ge [of "skip_sign (js_data s) ?st" "js_data s"] skip_digits_le by auto
  then show ?thesis by (auto simp: as_i64_def Let_def slice_def)
qed

text \<open>Every scanner a client can get.\<close>

inductive scan_reachable :: "json_scan \<Rightarrow> bool" where
  reach_new: "scan_reachable (json_new data)"
| reach_field: "scan_reachable s \<Longrightarrow> field name s = Ok (Some s') \<Longrightarrow> scan_reachable s'"
| reach_index: "scan_reachable s \<Longrightarrow> json_index i s = Ok (Some s') \<Longrightarrow> scan_reachable s'"
| reach_first: "scan_reachable s \<Longrightarrow> json_first s = Ok (Some s') \<Longrightarrow> scan_reachable s'"

lemma reachable_in_range: "scan_reachable s \<Longrightarrow> in_range s"
proof (induction rule: scan_reachable.induct)
  case (reach_field s name s')
  then show ?case using field_safe [of s name] by simp
next
  case (reach_index s i s')
  then show ?case using index_safe [of i s] by simp
next
  case (reach_first s s')
  then show ?case using first_safe [of s] by simp
qed (rule json_new_in_range)

section \<open>Scalars\<close>

lemma utf8_ascii: "list_all (\<lambda>c. unat c < 128) s \<Longrightarrow> utf8_valid s"
  by (induction s) auto

lemma ascii_byte: "c \<le> 127 \<Longrightarrow> unat (c :: u8) < 128"
  by (simp add: word_le_nat_alt)

lemma digits_ascii: "all_digits ds \<Longrightarrow> list_all (\<lambda>c. unat c < 128) ds"
  by (induction ds) (auto simp: is_ascii_digit_def word_le_nat_alt)

lemma num_ascii: "wf_json (JNum neg ip fp ex) \<Longrightarrow> utf8_valid (render (JNum neg ip fp ex))"
  by (rule utf8_ascii)
    (auto simp: digits_ascii render_frac_def render_exp_def exp_wf_def split: option.splits)

lemma slice_to_end: "pos \<le> length data \<Longrightarrow> slice data pos (length data) = Ok (drop pos data)"
  by (simp add: slice_def)

lemma slice_drop:
  "drop pos data = xs @ ys \<Longrightarrow> pos \<le> length data \<Longrightarrow> slice data pos (pos + length xs) = Ok xs"
proof -
  assume d: "drop pos data = xs @ ys" "pos \<le> length data"
  have "length xs + length ys = length data - pos" using arg_cong [OF d(1), of length] by simp
  then show ?thesis using d by (auto simp: slice_def)
qed

lemma points_at_range: "points_at s v \<Longrightarrow> wf_json v \<Longrightarrow> js_pos s < length (js_data s)"
  using points_at_peek(1) by fastforce

lemma as_str_points_at:
  assumes "points_at s (JStr t)" and "str_body t"
  shows "as_str s = Ok (from_utf8 t)"
proof -
  obtain rest where d: "drop (js_pos s) (js_data s) = b_quote # t @ b_quote # rest"
    using assms(1) by (auto simp: points_at_def)
  note d1 = drop_Suc_shift [OF d]
  have "slice (js_data s) (js_pos s + 1) (js_pos s + 1 + length t) = (Ok t :: bytes scan_res)"
    by (rule slice_drop [OF d1]) (use drop_in_range [OF d] in simp)
  then show ?thesis
    using skip_string_drop [OF d assms(2)] by (simp add: as_str_eq)
qed

lemma as_f64_points_at:
  assumes "points_at s (JNum neg ip fp ex)" and wf: "wf_json (JNum neg ip fp ex)"
  shows "as_f64 s = Ok (parse_f64 (render (JNum neg ip fp ex)))"
proof -
  let ?r = "render (JNum neg ip fp ex)"
  obtain rest where d: "drop (js_pos s) (js_data s) = ?r @ rest" and e: "ends_token rest"
    using assms(1) by (auto simp: points_at_def)
  note n = skip_number_drop [OF d wf e]
  have "?r \<noteq> []" using render_head [OF wf] by fastforce
  moreover have "slice (js_data s) (js_pos s) (js_pos s + length ?r) = (Ok ?r :: bytes scan_res)"
    by (rule slice_drop [OF d]) (use points_at_range [OF assms] in simp)
  ultimately show ?thesis
    using n points_at_peek(2) [OF assms] num_ascii [OF wf]
    by (simp add: as_f64_def Let_def from_utf8_def del: render.simps)
qed

lemma no_digit_append: "no_digit ys \<Longrightarrow> xs = [] \<or> no_digit xs \<Longrightarrow> no_digit (xs @ ys)"
  by (cases xs) (auto simp: no_digit_def)

lemma no_digit_tail:
  assumes "exp_wf ex" and "ends_token rest" shows "no_digit (render_frac fp @ render_exp ex @ rest)"
  using assms ends_token_follow(1) [OF assms(2)]
  by (intro no_digit_append)
    (auto simp: no_digit_def exp_wf_def render_frac_def render_exp_def is_ascii_digit_def split: option.splits)

text \<open>\<open>as_i64\<close> stops behind the integer part: a fraction or an exponent is not read.\<close>

lemma as_i64_number:
  assumes "points_at s (JNum neg ip fp ex)" and wf: "wf_json (JNum neg ip fp ex)"
  shows "as_i64 s = Ok (let v = (if neg then - int (digits_value ip) else int (digits_value ip))
    in if - (2 ^ 63) \<le> v \<and> v < 2 ^ 63 then Some v else None)"
proof -
  let ?sg = "if neg then [b_minus] else []"
  let ?r = "?sg @ ip"
  obtain c t where ip: "ip = c # t" "is_ascii_digit c" "all_digits t"
    using wf by (cases ip) auto
  obtain rest where d: "drop (js_pos s) (js_data s) = render (JNum neg ip fp ex) @ rest" and e: "ends_token rest"
    using assms(1) by (auto simp: points_at_def)
  have d0: "drop (js_pos s) (js_data s) = ?sg @ ip @ render_frac fp @ render_exp ex @ rest" using d by simp
  have dr: "drop (js_pos s) (js_data s) = ?r @ render_frac fp @ render_exp ex @ rest" using d0 by simp
  note d1 = drop_shift [OF d0]
  have sign: "skip_sign (js_data s) (js_pos s) = js_pos s + length ?sg"
    using d0 ip digit_facts(1) [OF ip(2)] drop_in_range [of "js_pos s" "js_data s"]
      nth_via_drop [of "js_pos s" "js_data s"]
    by (cases neg) (auto simp: skip_sign_def)
  have dg: "skip_digits (js_data s) (js_pos s + length ?sg) = js_pos s + length ?sg + length ip"
    using skip_digits_drop [OF d1] ip no_digit_tail [OF _ e] wf by simp
  have sl: "slice (js_data s) (js_pos s) (js_pos s + length ?r) = (Ok ?r :: bytes scan_res)"
    by (rule slice_drop [OF dr]) (use points_at_range [OF assms] in simp)
  have "skip_digits (js_data s) (skip_sign (js_data s) (js_pos s)) = js_pos s + length ?r"
    "0 < length ?r"
    using sign dg ip(1) by simp_all
  moreover have "utf8_valid ?r" using num_ascii [of neg ip None None] wf by (simp add: render_frac_def render_exp_def exp_wf_def)
  ultimately have "as_i64 s = Ok (parse_i64 ?r)"
    using sl points_at_peek(2) [OF assms] by (simp add: as_i64_def Let_def from_utf8_def)
  also have "parse_i64 ?r = (let v = (if neg then - int (digits_value ip) else int (digits_value ip))
    in if - (2 ^ 63) \<le> v \<and> v < 2 ^ 63 then Some v else None)"
    using ip digit_facts(1) [OF ip(2)]
    by (auto simp: parse_i64_def Let_def is_ascii_digit_def)
  finally show ?thesis .
qed

lemmas as_i64_points_at = as_i64_number [where fp = None and ex = None]

text \<open>A value that is no number begins with neither a sign nor a digit, and only a string
  begins with a quote.\<close>

lemma as_num_other:
  assumes "points_at s v" and wf: "wf_json v" and "\<And>neg ip fp ex. v \<noteq> JNum neg ip fp ex"
  shows "as_i64 s = Ok None" and "as_f64 s = Ok None"
proof -
  obtain c where c: "peek (js_data s) (js_pos s) = Some c" "c = hd (render v)"
    using points_at_peek(1) [OF assms(1,2)] by simp
  have "c \<noteq> b_minus \<and> \<not> is_ascii_digit c"
    using c(2) wf assms(3) by (cases v) (auto simp: is_ascii_digit_def ascii_def)
  moreover have "js_data s ! js_pos s = c" "js_pos s < length (js_data s)"
    using c(1) by (auto simp: peek_def split: if_splits)
  ultimately have "skip_sign (js_data s) (js_pos s) = js_pos s"
    "skip_digits (js_data s) (js_pos s) = js_pos s" "snd (skip_number (js_data s) (js_pos s)) = js_pos s"
    by (simp_all add: skip_sign_def skip_digits.simps [of "js_data s"] skip_number_def)
  then show "as_i64 s = Ok None" "as_f64 s = Ok None"
    using points_at_peek(2) [OF assms(1,2)] by (simp_all add: as_i64_def as_f64_def Let_def)
qed

lemma is_string_points_at:
  assumes "points_at s v" and "wf_json v"
  shows "is_string s \<longleftrightarrow> (\<exists>t. v = JStr t)" and "\<not> is_string s \<Longrightarrow> as_str s = Ok None"
proof -
  have "hd (render v) = b_quote \<longleftrightarrow> (\<exists>t. v = JStr t)"
    using assms(2) by (cases v) (auto simp: ascii_def is_ascii_digit_def neq_Nil_conv)
  then show "is_string s \<longleftrightarrow> (\<exists>t. v = JStr t)"
    using points_at_peek(1) [OF assms] by (simp add: is_string_def)
qed (simp add: as_str_def is_string_def)

lemma literal_points_at:
  assumes "points_at s v" and wf: "wf_json v"
  shows "as_bool s = Ok (case v of JBool b \<Rightarrow> Some b | _ \<Rightarrow> None)"
    and "is_null s = Ok (v = JNull)"
proof -
  obtain rest where d: "drop (js_pos s) (js_data s) = render v @ rest"
    using assms(1) by (auto simp: points_at_def)
  have sl: "slice (js_data s) (js_pos s) (length (js_data s)) = (Ok (render v @ rest) :: bytes scan_res)"
    using slice_to_end [of "js_pos s" "js_data s"] d points_at_range [OF assms] by simp
  obtain c t where c: "render v = c # t" using render_head [OF wf] by blast
  have hd: "c \<notin> {116, 102, 110} \<or> v = JNull \<or> (\<exists>b. v = JBool b)"
    using c wf by (cases v) (auto simp: is_ascii_digit_def neq_Nil_conv split: if_splits)
  have sl': "slice (js_data s) (js_pos s) (length (js_data s)) = (Ok (c # t @ rest) :: bytes scan_res)"
    using sl c by simp
  show "as_bool s = Ok (case v of JBool b \<Rightarrow> Some b | _ \<Rightarrow> None)"
  proof (cases "\<exists>b. v = JBool b")
    case True
    then show ?thesis using sl by (auto simp: as_bool_def starts_with_def ascii_def split: if_splits)
  next
    case False
    then have "c \<noteq> 116" "c \<noteq> 102" using hd c by (auto simp: ascii_def)
    then show ?thesis
      using False sl' by (cases v) (auto simp: as_bool_def starts_with_def ascii_def)
  qed
  show "is_null s = Ok (v = JNull)"
  proof (cases "v = JNull")
    case True
    then show ?thesis using sl by (simp add: is_null_def starts_with_def ascii_def)
  next
    case False
    then have "c \<noteq> 110" using hd c by (auto simp: ascii_def split: if_splits)
    then show ?thesis using False sl' by (simp add: is_null_def starts_with_def ascii_def)
  qed
qed

section \<open>Integers through double precision\<close>

lemma bit_len_bounds: "0 < n \<Longrightarrow> 0 < bit_len n \<and> 2 ^ (bit_len n - 1) \<le> n \<and> n < 2 ^ bit_len n"
proof (induction n rule: bit_len.induct)
  case (1 n)
  have bl: "bit_len n = Suc (bit_len (n div 2))" using 1(2) by (subst bit_len.simps) simp
  show ?case
  proof (cases "n div 2 = 0")
    case True
    then have "n = 1" "bit_len (n div 2) = 0" using 1(2) by (auto simp: bit_len.simps)
    then show ?thesis using bl by simp
  next
    case False
    then have ih: "0 < bit_len (n div 2)" "2 ^ (bit_len (n div 2) - 1) \<le> n div 2"
      "n div 2 < 2 ^ bit_len (n div 2)" using 1 by auto
    have "(2 :: nat) ^ bit_len (n div 2) = 2 * 2 ^ (bit_len (n div 2) - 1)"
      using ih(1) by (simp flip: power_Suc)
    then have "2 ^ bit_len (n div 2) \<le> n" "n < 2 * 2 ^ bit_len (n div 2)" using ih by linarith+
    then show ?thesis using bl by simp
  qed
qed

lemma bit_len_1: "bit_len (Suc 0) = 1"
  by (simp add: bit_len.simps)

lemma round_one [simp]: "round_half_even n 1 = n" "round_half_even n (Suc 0) = n"
  by (simp_all add: round_half_even_def)

lemma f64_exponent_int:
  assumes n: "0 < n" "n < 2 ^ 53"
  shows "f64_exponent n 1 = int (bit_len n) - 53" and "bit_len n \<le> 53"
proof -
  note b = bit_len_bounds [OF n(1)]
  show le: "bit_len n \<le> 53"
  proof (rule ccontr)
    assume "\<not> bit_len n \<le> 53"
    then have "(2 :: nat) ^ 53 \<le> 2 ^ (bit_len n - 1)" by (intro power_increasing) auto
    then show False using b n(2) by linarith
  qed
  have e0: "int (bit_len n) - int (bit_len 1) - 53 = - int (54 - bit_len n)"
    using le by (simp add: bit_len_1 of_nat_diff)
  have "(2 :: nat) ^ 53 = 2 ^ (bit_len n - 1) * 2 ^ (54 - bit_len n)"
    using b le by (simp flip: power_add)
  also have "\<dots> \<le> n * 2 ^ (54 - bit_len n)" using b by (intro mult_le_mono1) simp
  finally have "2 ^ 53 \<le> n * 2 ^ (54 - bit_len n)" .
  then have "f64_exponent n 1 = max (- 1074) (- int (54 - bit_len n) + 1)"
    unfolding f64_exponent_def Let_def e0 using le
    by (simp add: scale2_def nat_diff_distrib' flip: of_nat_diff)
  then show "f64_exponent n 1 = int (bit_len n) - 53" using le b by (simp add: of_nat_diff)
qed

lemma round_f64_exact:
  assumes "n < 2 ^ 53" shows "f64_trunc (round_f64 False n 1) = Some n"
proof (cases "n = 0")
  case True
  then show ?thesis by (simp add: round_f64_def)
next
  case False
  then have n: "0 < n" by simp
  note e = f64_exponent_int [OF n assms]
  show ?thesis
  proof (cases "bit_len n = 53")
    case True
    then show ?thesis using e n assms by (simp add: round_f64_def scale2_def Let_def)
  next
    case False
    then have neg: "\<not> 0 \<le> f64_exponent n 1" using e by simp
    then show ?thesis using n by (simp add: round_f64_def scale2_def Let_def)
  qed
qed

lemma digits_ip [simp]:
  "all_digits ip \<Longrightarrow> takeWhile is_ascii_digit ip = ip" "all_digits ip \<Longrightarrow> dropWhile is_ascii_digit ip = []"
  by (simp_all add: list_all_iff)

lemma parse_f64_int:
  assumes "ip \<noteq> []" and "all_digits ip"
  shows "parse_f64 ip = Some (round_f64 False (digits_value ip) 1)"
proof -
  obtain c t where "ip = c # t" "is_ascii_digit c" using assms by (cases ip) auto
  then have "hd ip \<noteq> b_minus" using digit_facts(1) by auto
  then show ?thesis
    using assms by (simp add: parse_f64_def Let_def parse_exponent_def decimal_f64_def)
qed

lemma f64_as_u64_exact:
  assumes "n < 2 ^ 53" shows "f64_as_u64 (round_f64 False n 1) = word_of_nat n"
  unfolding f64_as_u64_def round_f64_exact [OF assms] using assms by simp

section \<open>Properties\<close>

definition sample_doc :: json where
  "sample_doc = JObj [32] (MCons (ascii ''id'') [] [32] (JNum True [55] None None) [] [32]
     (MLast (ascii ''result'') [] [] (JArr [] (ECons (JBool True) [] [32] (ELast (JStr (ascii ''ok'')) [])))
       [10]))"

lemma sample_doc_wf: "wf_json sample_doc"
  by code_simp

lemma sample_points_at: "points_at (json_new ([] @ render sample_doc @ [])) sample_doc"
  by (rule json_new_points_at) (simp_all add: sample_doc_wf)

text \<open>C32: the scanner is total on arbitrary input. Whatever the bytes are, every scanner
  obtained from \<open>new\<close> by any sequence of \<open>field\<close>, \<open>index\<close> and \<open>first\<close> has its
  position inside the data, and every method called on it returns without a panic.\<close>

theorem scanner_never_panics:
  assumes "scan_reachable s"
  shows "in_range s \<and> safe_scan (field name s) \<and> safe_scan (json_index i s) \<and>
    safe_scan (json_first s) \<and> as_str s \<noteq> Panic \<and> as_f64 s \<noteq> Panic \<and> as_i64 s \<noteq> Panic \<and>
    as_bool s \<noteq> Panic \<and> is_null s \<noteq> Panic"
proof -
  have r: "in_range s" by (rule reachable_in_range [OF assms])
  then have "js_pos s \<le> length (js_data s)" by (simp add: in_range_def)
  then have "as_bool s \<noteq> Panic" "is_null s \<noteq> Panic"
    by (simp_all add: as_bool_def is_null_def slice_to_end)
  then show ?thesis
    using r field_safe index_safe first_safe as_str_safe as_f64_safe as_i64_safe by simp
qed

theorem scanner_never_panics_witness:
  "scan_reachable (json_new [b_lbrace, b_quote, b_backslash]) \<and>
   safe_scan (field (ascii ''x'') (json_new [b_lbrace, b_quote, b_backslash]))"
  using scanner_never_panics [OF reach_new] reach_new by blast

text \<open>C4: the scanner recognises every JSON value. A scanner created on a document, with any
  white space around and inside it, stands at the first byte of its value; skipping a
  value that is followed by the end, white space or a separator succeeds and stops exactly
  behind its last byte.\<close>

theorem skip_value_spans_value:
  assumes "wf_json v" and "all_ws w" and "all_ws w'" and "ends_token rest"
  shows "points_at (json_new (w @ render v @ w')) v \<and>
    skip_value (pre @ w @ render v @ rest) (length pre) =
      Ok (True, length pre + length w + length (render v))"
  using json_new_points_at [OF assms(2,3,1)] rendered_skipped(1) [OF assms(1)] assms(2,4)
  by (simp add: value_skipped_def)

theorem skip_value_spans_value_witness:
  "points_at (json_new ([] @ render sample_doc @ [])) sample_doc \<and>
   skip_value ([44] @ [32] @ render sample_doc @ [44]) 1 = Ok (True, length (render sample_doc) + 2)"
  using skip_value_spans_value [OF sample_doc_wf, of "[]" "[]" "[44]" "[44, 32]"]
    skip_value_spans_value [OF sample_doc_wf, of "[32]" "[]" "[44]" "[44]"]
  by (simp add: ends_token_def is_ws_def)

text \<open>C26: member lookup. On a scanner that stands at a value of a document, \<open>field\<close> finds
  the first member whose raw key equals the name and returns a scanner that stands at that
  member's value; it returns \<open>None\<close> when the value is no object or has no such member.\<close>

theorem field_finds_member:
  assumes "points_at s v" and "wf_json v"
  shows "case map_of (obj_members v) name of
      None \<Rightarrow> field name s = Ok None
    | Some m \<Rightarrow> \<exists>s'. field name s = Ok (Some s') \<and> js_data s' = js_data s \<and> points_at s' m"
  using field_points_at [OF assms, of name] by (simp add: lookup_result_def)

theorem field_finds_member_witness:
  "\<exists>s'. field (ascii ''id'') (json_new (render sample_doc)) = Ok (Some s') \<and>
    points_at s' (JNum True [55] None None)"
proof -
  have "map_of (obj_members sample_doc) (ascii ''id'') = Some (JNum True [55] None None)"
    by code_simp
  then show ?thesis
    using field_finds_member [OF sample_points_at sample_doc_wf, of "ascii ''id''"] by auto
qed

text \<open>C22: array access. On a scanner that stands at a value of a document, \<open>index\<close> returns a
  scanner that stands at the element with that index, and \<open>None\<close> when the value is no
  array or has too few elements.\<close>

theorem index_finds_element:
  assumes "points_at s v" and "wf_json v"
  shows "if i < length (arr_elems v)
    then \<exists>s'. json_index i s = Ok (Some s') \<and> js_data s' = js_data s \<and> points_at s' (arr_elems v ! i)
    else json_index i s = Ok None"
  by (rule index_points_at [OF assms])

definition sample_arr :: json where
  "sample_arr = JArr [] (ECons (JBool True) [] [32] (ELast (JStr (ascii ''ok'')) []))"

theorem index_finds_element_witness:
  "(\<exists>s'. json_index 1 (json_new (render sample_arr)) = Ok (Some s') \<and>
      points_at s' (JStr (ascii ''ok''))) \<and>
   json_index 2 (json_new (render sample_arr)) = Ok None"
proof -
  have wf: "wf_json sample_arr" by code_simp
  have at: "points_at (json_new ([] @ render sample_arr @ [])) sample_arr"
    by (rule json_new_points_at) (simp_all add: wf)
  have e: "arr_elems sample_arr = [JBool True, JStr (ascii ''ok'')]" by (simp add: sample_arr_def)
  show ?thesis
    using index_finds_element [OF at wf, of 1] index_finds_element [OF at wf, of 2]
    by (auto simp: e)
qed

text \<open>C27: typed extraction, on every value of a document. On a scanner that stands at a value,
  \<open>as_str\<close> returns the raw body of a string if it is UTF-8 and \<open>None\<close> on every other value;
  \<open>as_bool\<close>, \<open>is_null\<close>, \<open>is_object\<close> and \<open>is_string\<close> recognise exactly their values; \<open>as_f64\<close>
  returns the nearest double of the whole number token and \<open>None\<close> on every other value; and
  \<open>as_i64\<close> returns the integer part of a number token, which is the number itself only where the
  token has neither fraction nor exponent, \<open>None\<close> when that part does not fit 64 bits, and
  \<open>None\<close> on every other value.\<close>

theorem extractors_agree_with_document:
  assumes "points_at s v" and "wf_json v"
  shows "as_str s = Ok (case v of JStr t \<Rightarrow> from_utf8 t | _ \<Rightarrow> None) \<and>
    as_bool s = Ok (case v of JBool b \<Rightarrow> Some b | _ \<Rightarrow> None) \<and>
    is_null s = Ok (v = JNull) \<and>
    is_object s = (case v of JObj w ms \<Rightarrow> True | JObj0 w \<Rightarrow> True | _ \<Rightarrow> False) \<and>
    is_string s = (case v of JStr t \<Rightarrow> True | _ \<Rightarrow> False) \<and>
    as_f64 s = Ok (case v of JNum neg ip fp ex \<Rightarrow> parse_f64 (render v) | _ \<Rightarrow> None) \<and>
    as_i64 s = Ok (case v of JNum neg ip fp ex \<Rightarrow>
        (let n = (if neg then - int (digits_value ip) else int (digits_value ip))
         in if - (2 ^ 63) \<le> n \<and> n < 2 ^ 63 then Some n else None) | _ \<Rightarrow> None)"
proof -
  have "is_object s = (case v of JObj w ms \<Rightarrow> True | JObj0 w \<Rightarrow> True | _ \<Rightarrow> False)"
    using points_at_peek(1) [OF assms] render_hd_lbrace [OF assms(2)]
    by (cases v) (auto simp: is_object_def simp del: peek_Some)
  then show ?thesis
    using assms literal_points_at [OF assms] is_string_points_at [OF assms] as_num_other [OF assms]
      as_str_points_at as_i64_number as_f64_points_at by (cases v) (simp_all del: render.simps)
qed

text \<open>\<open>-42\<close>, and \<open>1.5\<close> and \<open>1e3\<close>, which \<open>as_i64\<close> both reads as 1.\<close>

theorem extractors_agree_with_document_witness:
  "as_i64 (json_new (render (JNum True [52, 50] None None))) = Ok (Some (- 42)) \<and>
   as_i64 (json_new (render (JNum False [49] (Some [53]) None))) = Ok (Some 1) \<and>
   as_i64 (json_new (render (JNum False [49] None (Some (101, [], [51]))))) = Ok (Some 1) \<and>
   as_str (json_new (render (JNum True [52, 50] None None))) = Ok None"
proof -
  have wf: "wf_json (JNum True [52, 50] None None)" "wf_json (JNum False [49] (Some [53]) None)"
    "wf_json (JNum False [49] None (Some (101, [], [51])))" by code_simp+
  have "points_at (json_new ([] @ render v @ [])) v" if "wf_json v" for v
    by (rule json_new_points_at) (simp_all add: that)
  then have "points_at (json_new (render v)) v" if "wf_json v" for v using that by simp
  note at = this [OF wf(1)] this [OF wf(2)] this [OF wf(3)]
  show ?thesis
    using extractors_agree_with_document [OF at(1) wf(1)] extractors_agree_with_document [OF at(2) wf(2)]
      extractors_agree_with_document [OF at(3) wf(3)]
    by (simp add: digits_value_def Let_def del: render.simps)
qed

end
