(* ===== verification/Rpc_Format.thy ===== *)
theory Rpc_Format
  imports Emit Json_Access
begin

text \<open>
  Request formatting of the RPC client: \<open>BufWriter\<close> and the integer formatters of
  \<open>fd_rpc/src/utils.rs\<close>, \<open>serialize_request\<close> of \<open>jsonrpc.rs\<close>, the parameter formatters and
  \<open>BatchEntry\<close> of \<open>solana.rs\<close>, and the request header of \<open>http.rs\<close>. The base58 encoder of
  \<open>fd_ed25519\<close> (a C routine) is a parameter.
\<close>

unbundle bit_operations_syntax

section \<open>BufWriter\<close>

record buf_writer =
  bw_buf :: bytes
  bw_pos :: nat

definition bufw_new :: "bytes \<Rightarrow> buf_writer" where
  "bufw_new buf = \<lparr>bw_buf = buf, bw_pos = 0\<rparr>"

definition bufw_write :: "bytes \<Rightarrow> buf_writer \<Rightarrow> bool \<times> buf_writer" where
  "bufw_write data w =
     (if bw_pos w + length data > length (bw_buf w) then (False, w)
      else (True, w\<lparr>bw_buf := blit (bw_buf w) (bw_pos w) data, bw_pos := bw_pos w + length data\<rparr>))"

text \<open>The \<open>push!\<close> macros: give up with an error when the piece does not fit.\<close>

definition push :: "'e \<Rightarrow> buf_writer \<Rightarrow> bytes \<Rightarrow> (buf_writer, 'e) res" where
  "push e w data = (let (ok, w') = bufw_write data w in if ok then Ok w' else Err e)"

text \<open>A call of \<open>write\<close> whose result is ignored.\<close>

definition write_ignoring :: "bytes \<Rightarrow> buf_writer \<Rightarrow> buf_writer" where
  "write_ignoring data w = snd (bufw_write data w)"

section \<open>Decimal formatting\<close>

text \<open>The \<open>while val > 0\<close> loop: digits are stored from the end of the buffer.\<close>

function fmt_loop :: "'a::len word \<Rightarrow> nat \<Rightarrow> bytes \<Rightarrow> (bytes \<times> nat) scan_res" where
  "fmt_loop val pos buf =
     (if unat val = 0 then Ok (buf, pos)
      else if pos = 0 then Panic
      else fmt_loop (word_of_nat (unat val div 10)) (pos - 1)
             (buf[pos - 1 := 48 + word_of_nat (unat val mod 10)]))"
  by pat_completeness auto

lemma unat_div_10 [simp]: "unat (word_of_nat (unat (v :: 'a::len word) div 10) :: 'a word) = unat v div 10"
proof -
  have "unat v div 10 < 2 ^ LENGTH('a)"
    using unsigned_less [of v, where 'a = nat] by (metis div_le_dividend le_less_trans)
  then show ?thesis by (simp add: unat_of_nat take_bit_nat_eq_self)
qed

termination fmt_loop by (relation "measure (\<lambda>(val, pos, buf). unat val)") simp_all

declare fmt_loop.simps [simp del]

definition fmt_word :: "'a::len word \<Rightarrow> bytes \<Rightarrow> bytes scan_res" where
  "fmt_word val buf =
     (if val = 0 then Ok (drop 19 (buf[19 := 48]))
      else res_bind (fmt_loop val 20 buf) (\<lambda>(b, pos). Ok (drop pos b)))"

definition fmt_u64 :: "u64 \<Rightarrow> bytes \<Rightarrow> bytes scan_res" where
  "fmt_u64 = fmt_word"

definition fmt_u32 :: "u32 \<Rightarrow> bytes \<Rightarrow> bytes scan_res" where
  "fmt_u32 = fmt_word"

definition fmt_usize :: "u64 \<Rightarrow> bytes \<Rightarrow> bytes scan_res" where
  "fmt_usize = fmt_word"

definition itoa_buf :: bytes where
  "itoa_buf = replicate 20 0"

section \<open>JSON-RPC requests\<close>

datatype json_rpc_error =
    SerializeTooLarge
  | ParseFailed
  | MissingField string
  | RpcErr int bytes

text \<open>A formatter's outcome with the caller's error type; formatters do not fail.\<close>

definition lift_fmt :: "'a scan_res \<Rightarrow> ('a, 'e) res" where
  "lift_fmt m = (case m of Ok x \<Rightarrow> Ok x | _ \<Rightarrow> Panic)"

definition serialize_request ::
  "bytes \<Rightarrow> bytes \<Rightarrow> bytes \<Rightarrow> u64 \<Rightarrow> (buf_writer, json_rpc_error) res" where
  "serialize_request buf method params rid =
     (let e = SerializeTooLarge; w = bufw_new buf in
      res_bind (push e w (ascii ''{\"jsonrpc\":\"2.0\",\"id\":'')) (\<lambda>w.
      res_bind (lift_fmt (fmt_u64 rid itoa_buf)) (\<lambda>n.
      res_bind (push e w n) (\<lambda>w.
      res_bind (push e w (ascii '',\"method\":\"'')) (\<lambda>w.
      res_bind (push e w method) (\<lambda>w.
      res_bind (push e w (ascii ''\",\"params\":'')) (\<lambda>w.
      res_bind (push e w params) (\<lambda>w.
      push e w (ascii ''}'')))))))))"

section \<open>Parameters\<close>

datatype commitment = Processed | Confirmed | Finalized

fun commitment_str :: "commitment \<Rightarrow> bytes" where
  "commitment_str Processed = ascii ''processed''"
| "commitment_str Confirmed = ascii ''confirmed''"
| "commitment_str Finalized = ascii ''finalized''"

record send_transaction_opts =
  skip_preflight :: bool
  preflight_commitment :: commitment
  max_retries :: "u32 option"

definition default_send_opts :: send_transaction_opts where
  "default_send_opts = \<lparr>skip_preflight = False, preflight_commitment = Finalized, max_retries = None\<rparr>"

text \<open>The formatters return the buffer and the number of bytes written.\<close>

definition fmt_commitment_params :: "bytes \<Rightarrow> commitment \<Rightarrow> bytes \<times> nat" where
  "fmt_commitment_params buf c =
     (let s = (case c of
          Processed \<Rightarrow> ascii ''[{\"commitment\":\"processed\"}]''
        | Confirmed \<Rightarrow> ascii ''[{\"commitment\":\"confirmed\"}]''
        | Finalized \<Rightarrow> ascii ''[{\"commitment\":\"finalized\"}]'');
          len = min (length s) (length buf)
      in (blit buf 0 (take len s), len))"

definition written :: "buf_writer \<Rightarrow> bytes \<times> nat" where
  "written w = (bw_buf w, bw_pos w)"

definition fmt_pubkey_commitment_params :: "bytes \<Rightarrow> bytes \<Rightarrow> commitment \<Rightarrow> bytes \<times> nat" where
  "fmt_pubkey_commitment_params buf pubkey c =
     (let w = bufw_new buf;
          w = write_ignoring (ascii ''[\"'') w;
          w = write_ignoring pubkey w;
          w = write_ignoring (ascii ''\",{\"commitment\":\"'') w;
          w = write_ignoring (commitment_str c) w;
          w = write_ignoring (ascii ''\"}]'') w
      in written w)"

definition fmt_account_info_params :: "bytes \<Rightarrow> bytes \<Rightarrow> commitment \<Rightarrow> bytes \<times> nat" where
  "fmt_account_info_params buf pubkey c =
     (let w = bufw_new buf;
          w = write_ignoring (ascii ''[\"'') w;
          w = write_ignoring pubkey w;
          w = write_ignoring (ascii ''\",{\"encoding\":\"base64\",\"commitment\":\"'') w;
          w = write_ignoring (commitment_str c) w;
          w = write_ignoring (ascii ''\"}]'') w
      in written w)"

text \<open>The loop over the keys; \<open>i\<close> is the index of the first one left.\<close>

fun write_pubkeys :: "nat \<Rightarrow> bytes list \<Rightarrow> buf_writer \<Rightarrow> buf_writer" where
  "write_pubkeys i [] w = w"
| "write_pubkeys i (pk # pks) w =
     (let w = (if i > 0 then write_ignoring (ascii '','') w else w);
          w = write_ignoring (ascii ''\"'') w;
          w = write_ignoring pk w;
          w = write_ignoring (ascii ''\"'') w
      in write_pubkeys (i + 1) pks w)"

definition fmt_multiple_accounts_params :: "bytes \<Rightarrow> bytes list \<Rightarrow> commitment \<Rightarrow> bytes \<times> nat" where
  "fmt_multiple_accounts_params buf pubkeys c =
     (let w = bufw_new buf;
          w = write_ignoring (ascii ''[['') w;
          w = write_pubkeys 0 pubkeys w;
          w = write_ignoring (ascii ''],{\"encoding\":\"base64\",\"commitment\":\"'') w;
          w = write_ignoring (commitment_str c) w;
          w = write_ignoring (ascii ''\"}]'') w
      in written w)"

definition fmt_send_tx_params ::
  "bytes \<Rightarrow> bytes \<Rightarrow> send_transaction_opts \<Rightarrow> (bytes \<times> nat) scan_res" where
  "fmt_send_tx_params buf encoded_tx opts =
     (let w = bufw_new buf;
          w = write_ignoring (ascii ''[\"'') w;
          w = write_ignoring encoded_tx w;
          w = write_ignoring (ascii ''\",{\"encoding\":\"base64\"'') w;
          w = (if skip_preflight opts then write_ignoring (ascii '',\"skipPreflight\":true'') w else w);
          w = write_ignoring (ascii '',\"preflightCommitment\":\"'') w;
          w = write_ignoring (commitment_str (preflight_commitment opts)) w;
          w = write_ignoring (ascii ''\"'') w
      in res_bind (case max_retries opts of
             None \<Rightarrow> Ok w
           | Some retries \<Rightarrow>
               (let w = write_ignoring (ascii '',\"maxRetries\":'') w
                in res_bind (fmt_u32 retries itoa_buf) (\<lambda>n. Ok (write_ignoring n w))))
           (\<lambda>w. Ok (written (write_ignoring (ascii ''}]'') w))))"

section \<open>Batches\<close>

record batch_entry =
  be_method :: bytes
  be_params :: bytes
  be_params_len :: nat

definition params_buf :: bytes where
  "params_buf = replicate 256 0"

definition entry_of :: "bytes \<Rightarrow> bytes \<times> nat \<Rightarrow> batch_entry" where
  "entry_of method p = \<lparr>be_method = method, be_params = fst p, be_params_len = snd p\<rparr>"

definition entry_raw :: "bytes \<Rightarrow> bytes \<Rightarrow> batch_entry" where
  "entry_raw method params =
     (let n = min (length params) 256
      in \<lparr>be_method = method, be_params = blit params_buf 0 (take n params), be_params_len = n\<rparr>)"

definition entry_get_slot :: "commitment \<Rightarrow> batch_entry" where
  "entry_get_slot c = entry_of (ascii ''getSlot'') (fmt_commitment_params params_buf c)"

definition entry_get_block_height :: "commitment \<Rightarrow> batch_entry" where
  "entry_get_block_height c = entry_of (ascii ''getBlockHeight'') (fmt_commitment_params params_buf c)"

definition entry_get_latest_blockhash :: "commitment \<Rightarrow> batch_entry" where
  "entry_get_latest_blockhash c =
     entry_of (ascii ''getLatestBlockhash'') (fmt_commitment_params params_buf c)"

definition entry_get_transaction_count :: "commitment \<Rightarrow> batch_entry" where
  "entry_get_transaction_count c =
     entry_of (ascii ''getTransactionCount'') (fmt_commitment_params params_buf c)"

definition entry_get_balance :: "(bytes \<Rightarrow> bytes) \<Rightarrow> bytes \<Rightarrow> commitment \<Rightarrow> batch_entry" where
  "entry_get_balance b58 pubkey c =
     entry_of (ascii ''getBalance'') (fmt_pubkey_commitment_params params_buf (b58 pubkey) c)"

definition entry_get_health :: batch_entry where
  "entry_get_health = \<lparr>be_method = ascii ''getHealth'', be_params = params_buf, be_params_len = 2\<rparr>"

definition entry_get_version :: batch_entry where
  "entry_get_version = \<lparr>be_method = ascii ''getVersion'', be_params = params_buf, be_params_len = 2\<rparr>"

definition entry_get_account_info :: "(bytes \<Rightarrow> bytes) \<Rightarrow> bytes \<Rightarrow> commitment \<Rightarrow> batch_entry" where
  "entry_get_account_info b58 pubkey c =
     entry_of (ascii ''getAccountInfo'') (fmt_account_info_params params_buf (b58 pubkey) c)"

definition entry_get_multiple_accounts ::
  "(bytes \<Rightarrow> bytes) \<Rightarrow> bytes list \<Rightarrow> commitment \<Rightarrow> batch_entry" where
  "entry_get_multiple_accounts b58 pubkeys c =
     entry_of (ascii ''getMultipleAccounts'')
       (fmt_multiple_accounts_params params_buf (map b58 pubkeys) c)"

definition entry_get_program_accounts :: "(bytes \<Rightarrow> bytes) \<Rightarrow> bytes \<Rightarrow> commitment \<Rightarrow> batch_entry" where
  "entry_get_program_accounts b58 program_id c =
     entry_of (ascii ''getProgramAccounts'') (fmt_account_info_params params_buf (b58 program_id) c)"

definition entry_get_token_account_balance ::
  "(bytes \<Rightarrow> bytes) \<Rightarrow> bytes \<Rightarrow> commitment \<Rightarrow> batch_entry" where
  "entry_get_token_account_balance b58 pubkey c =
     entry_of (ascii ''getTokenAccountBalance'')
       (fmt_pubkey_commitment_params params_buf (b58 pubkey) c)"

definition entry_params :: "batch_entry \<Rightarrow> bytes" where
  "entry_params be =
     (if be_method be = ascii ''getHealth'' \<or> be_method be = ascii ''getVersion'' then ascii ''[]''
      else take (be_params_len be) (be_params be))"

text \<open>\<open>next_id\<close> of the client: the id to use, and the counter for the next call.\<close>

definition next_id :: "u64 \<Rightarrow> u64 \<times> u64" where
  "next_id n = (n, n + 1)"

text \<open>One entry of a batch.\<close>

definition push_entry ::
  "batch_entry \<Rightarrow> u64 \<Rightarrow> buf_writer \<Rightarrow> (buf_writer, json_rpc_error) res" where
  "push_entry be rid w =
     (let e = SerializeTooLarge in
      res_bind (push e w (ascii ''{\"jsonrpc\":\"2.0\",\"id\":'')) (\<lambda>w.
      res_bind (lift_fmt (fmt_u64 rid itoa_buf)) (\<lambda>num.
      res_bind (push e w num) (\<lambda>w.
      res_bind (push e w (ascii '',\"method\":\"'')) (\<lambda>w.
      res_bind (push e w (be_method be)) (\<lambda>w.
      res_bind (push e w (ascii ''\",\"params\":'')) (\<lambda>w.
      res_bind (push e w (entry_params be)) (\<lambda>w.
      push e w (ascii ''}'')))))))))"

text \<open>The loop, with the counter: it is advanced even when the entry does not fit.\<close>

fun push_entries ::
  "nat \<Rightarrow> batch_entry list \<Rightarrow> u64 \<Rightarrow> buf_writer \<Rightarrow> (buf_writer, json_rpc_error) res \<times> u64" where
  "push_entries i [] n w = (Ok w, n)"
| "push_entries i (be # bes) n w =
     (case (if i > 0 then push SerializeTooLarge w (ascii '','') else Ok w) of
        Ok w1 \<Rightarrow>
          (let (rid, n') = next_id n
           in case push_entry be rid w1 of
                Ok w2 \<Rightarrow> push_entries (i + 1) bes n' w2
              | Err e \<Rightarrow> (Err e, n')
              | Panic \<Rightarrow> (Panic, n'))
      | Err e \<Rightarrow> (Err e, n)
      | Panic \<Rightarrow> (Panic, n))"

definition serialize_batch ::
  "bytes \<Rightarrow> batch_entry list \<Rightarrow> u64 \<Rightarrow> (buf_writer, json_rpc_error) res \<times> u64" where
  "serialize_batch buf entries n =
     (case push SerializeTooLarge (bufw_new buf) (ascii ''['') of
        Ok w \<Rightarrow>
          (let (r, n') = push_entries 0 entries n w
           in (res_bind r (\<lambda>w. push SerializeTooLarge w (ascii '']'')), n'))
      | Err e \<Rightarrow> (Err e, n)
      | Panic \<Rightarrow> (Panic, n))"

section \<open>HTTP request header\<close>

definition fmt_request_header ::
  "bytes \<Rightarrow> bytes \<Rightarrow> bytes \<Rightarrow> bytes \<Rightarrow> bytes \<Rightarrow> u64 \<Rightarrow> (buf_writer, unit) res" where
  "fmt_request_header buf method path host content_type body_len =
     (let e = (); w = bufw_new buf; crlf = [13, 10] in
      res_bind (push e w method) (\<lambda>w.
      res_bind (push e w (ascii '' '')) (\<lambda>w.
      res_bind (push e w path) (\<lambda>w.
      res_bind (push e w (ascii '' HTTP/1.1'' @ crlf @ ascii ''Host: '')) (\<lambda>w.
      res_bind (push e w host) (\<lambda>w.
      res_bind (push e w (crlf @ ascii ''Content-Type: '')) (\<lambda>w.
      res_bind (push e w content_type) (\<lambda>w.
      res_bind (push e w (crlf @ ascii ''Content-Length: '')) (\<lambda>w.
      res_bind (lift_fmt (fmt_usize body_len itoa_buf)) (\<lambda>n.
      res_bind (push e w n) (\<lambda>w.
      push e w (crlf @ ascii ''Connection: keep-alive'' @ crlf @ crlf))))))))))))"

end
