(* ===== verification/Rpc_Results.thy ===== *)
theory Rpc_Results
  imports Rpc_Format
begin

text \<open>
  Response parsing of the RPC client: \<open>JsonRpcResponse\<close> of \<open>fd_rpc/src/jsonrpc.rs\<close> and the
  \<open>parse_*_result\<close> functions and \<open>BatchResults\<close> of \<open>solana.rs\<close>. The base58 and base64
  decoders are C routines and parameters of the model.
\<close>

section \<open>Errors and results\<close>

datatype io_error =
    ConnectFailed int | AlreadyConnected | NotConnected | Closed | Ssl int | Os int

datatype http_error =
    RequestTooLarge | ResponseMalformed | ResponseTooLarge | ResponseIncomplete
  | ConnectionClosed | BadStatus u16 | WriteFailed

datatype rpc_error =
    Io io_error | Http http_error | JsonRpc json_rpc_error | BadResponse string
  | Base58DecodeFailed | ConnectionNotReady | Timeout

record blockhash_result =
  bh_hash :: bytes
  last_valid_block_height :: u64

record version_result =
  solana_core :: bytes
  solana_core_len :: nat
  feature_set :: u64

record account_info =
  lamports :: u64
  acc_owner :: bytes
  acc_data :: bytes
  executable :: bool
  rent_epoch :: u64

record token_balance =
  tb_amount :: u64
  tb_decimals :: u8
  ui_amount_string :: bytes
  ui_amount_string_len :: nat

record rpc_codecs =
  b58_decode_32 :: "bytes \<Rightarrow> bytes option"
  b64_decode :: "bytes \<Rightarrow> bytes option"

section \<open>Options of the scanner as results\<close>

text \<open>\<open>and_then\<close>, \<open>ok_or\<close> and \<open>unwrap_or\<close> on a scanner's optional result.\<close>

definition scan_then :: "'a option scan_res \<Rightarrow> ('a \<Rightarrow> 'b option scan_res) \<Rightarrow> 'b option scan_res" where
  "scan_then m f = (case m of Ok (Some x) \<Rightarrow> f x | Ok None \<Rightarrow> Ok None | Err e \<Rightarrow> Err e | Panic \<Rightarrow> Panic)"

definition scan_ok_or :: "'a option scan_res \<Rightarrow> 'e \<Rightarrow> ('a, 'e) res" where
  "scan_ok_or m e = (case m of Ok (Some x) \<Rightarrow> Ok x | Ok None \<Rightarrow> Err e | _ \<Rightarrow> Panic)"

definition scan_or :: "'a option scan_res \<Rightarrow> 'a \<Rightarrow> ('a, 'e) res" where
  "scan_or m d = (case m of Ok (Some x) \<Rightarrow> Ok x | Ok None \<Rightarrow> Ok d | _ \<Rightarrow> Panic)"

definition scan_lift :: "'a scan_res \<Rightarrow> ('a, 'e) res" where
  "scan_lift m = (case m of Ok x \<Rightarrow> Ok x | _ \<Rightarrow> Panic)"

definition as_u64 :: "json_scan \<Rightarrow> u64 option scan_res" where
  "as_u64 s = res_bind (as_f64 s) (\<lambda>x. Ok (map_option f64_as_u64 x))"

definition as_u8 :: "json_scan \<Rightarrow> u8 option scan_res" where
  "as_u8 s = res_bind (as_f64 s) (\<lambda>x. Ok (map_option f64_as_u8 x))"

section \<open>Responses\<close>

definition response_error :: "json_scan \<Rightarrow> ('a, json_rpc_error) res" where
  "response_error error_obj =
     res_bind (scan_or (scan_then (field (ascii ''code'') error_obj) as_i64) (- 1)) (\<lambda>code.
     res_bind (scan_or (scan_then (field (ascii ''message'') error_obj) as_str)
       (ascii ''unknown error'')) (\<lambda>message.
     Err (RpcErr code message)))"

definition response_of :: "json_scan \<Rightarrow> (json_scan, json_rpc_error) res" where
  "response_of scan =
     res_bind (scan_lift (field (ascii ''error'') scan)) (\<lambda>err.
     case err of
       Some error_obj \<Rightarrow>
         if is_object error_obj then response_error error_obj
         else scan_ok_or (field (ascii ''result'') scan) (MissingField ''result'')
     | None \<Rightarrow> scan_ok_or (field (ascii ''result'') scan) (MissingField ''result''))"

definition response_parse :: "bytes \<Rightarrow> (json_scan, json_rpc_error) res" where
  "response_parse body = response_of (json_new body)"

definition result_u64 :: "json_scan \<Rightarrow> (u64, json_rpc_error) res" where
  "result_u64 r = scan_ok_or (as_u64 r) (MissingField ''result (number)'')"

definition result_string :: "json_scan \<Rightarrow> (bytes, json_rpc_error) res" where
  "result_string r = scan_ok_or (as_str r) (MissingField ''result (string)'')"

section \<open>Results of the methods\<close>

definition parse_blockhash_result :: "rpc_codecs \<Rightarrow> json_scan \<Rightarrow> (blockhash_result, rpc_error) res" where
  "parse_blockhash_result cd result =
     res_bind (scan_ok_or (field (ascii ''value'') result) (BadResponse ''result.value missing'')) (\<lambda>value.
     res_bind (scan_ok_or (scan_then (field (ascii ''blockhash'') value) as_str)
       (BadResponse ''missing blockhash'')) (\<lambda>blockhash_str.
     res_bind (scan_ok_or (scan_then (field (ascii ''lastValidBlockHeight'') value) as_u64)
       (BadResponse ''missing lastValidBlockHeight'')) (\<lambda>last_valid.
     res_bind (ok_or (b58_decode_32 cd blockhash_str) Base58DecodeFailed) (\<lambda>hash.
     Ok \<lparr>bh_hash = hash, last_valid_block_height = last_valid\<rparr>))))"

definition parse_u64_result :: "json_scan \<Rightarrow> (u64, rpc_error) res" where
  "parse_u64_result result = scan_ok_or (as_u64 result) (BadResponse ''expected number'')"

definition parse_balance_result :: "json_scan \<Rightarrow> (u64, rpc_error) res" where
  "parse_balance_result result =
     (if is_object result
      then scan_ok_or (scan_then (field (ascii ''value'') result) as_u64) (BadResponse ''missing value'')
      else parse_u64_result result)"

definition parse_health_result :: "json_scan \<Rightarrow> (unit, rpc_error) res" where
  "parse_health_result result =
     res_bind (scan_ok_or (as_str result) (BadResponse ''expected string'')) (\<lambda>s. Ok ())"

definition parse_version_result :: "json_scan \<Rightarrow> (version_result, rpc_error) res" where
  "parse_version_result result =
     (if \<not> is_object result then Err (BadResponse ''result is not an object'')
      else
       res_bind (scan_or (scan_then (field (ascii ''solana-core'') result) as_str) (ascii ''unknown''))
         (\<lambda>core_str.
       res_bind (scan_or (scan_then (field (ascii ''feature-set'') result) as_u64) 0) (\<lambda>fs.
       let n = min (length core_str) 63
       in Ok \<lparr>solana_core = blit (replicate 64 0) 0 (take n core_str), solana_core_len = n,
              feature_set = fs\<rparr>)))"

text \<open>The account data: an array of the encoded bytes and their encoding.\<close>

definition parse_account_data :: "rpc_codecs \<Rightarrow> json_scan \<Rightarrow> (bytes, rpc_error) res" where
  "parse_account_data cd data =
     (case array_iter data of
        Some it \<Rightarrow>
          res_bind (scan_lift (iter_next it)) (\<lambda>(item, it').
          res_bind (scan_ok_or (scan_then (Ok item) as_str) (BadResponse ''data[0] is not a string''))
            (\<lambda>encoded.
          res_bind (scan_lift (iter_next it')) (\<lambda>(item2, it'').
          res_bind (scan_or (scan_then (Ok item2) as_str) (ascii ''base64'')) (\<lambda>encoding.
          if encoding = ascii ''base58''
          then Err (BadResponse ''base58 data encoding not supported; request base64'')
          else ok_or (b64_decode cd encoded) (BadResponse ''base64 decode failed'')))))
      | None \<Rightarrow> Ok [])"

definition parse_account_info :: "rpc_codecs \<Rightarrow> json_scan \<Rightarrow> (account_info, rpc_error) res" where
  "parse_account_info cd value =
     res_bind (scan_ok_or (scan_then (field (ascii ''lamports'') value) as_u64)
       (BadResponse ''missing lamports'')) (\<lambda>lam.
     res_bind (scan_ok_or (scan_then (field (ascii ''owner'') value) as_str)
       (BadResponse ''missing owner'')) (\<lambda>owner_str.
     res_bind (ok_or (b58_decode_32 cd owner_str) Base58DecodeFailed) (\<lambda>own.
     res_bind (scan_or (scan_then (field (ascii ''executable'') value) as_bool) False) (\<lambda>exe.
     res_bind (scan_or (scan_then (field (ascii ''rentEpoch'') value) as_u64) 0) (\<lambda>rent.
     res_bind (scan_ok_or (field (ascii ''data'') value) (BadResponse ''missing data'')) (\<lambda>data.
     res_bind (parse_account_data cd data) (\<lambda>bs.
     Ok \<lparr>lamports = lam, acc_owner = own, acc_data = bs, executable = exe, rent_epoch = rent\<rparr>)))))))"

definition parse_account_info_result ::
  "rpc_codecs \<Rightarrow> json_scan \<Rightarrow> (account_info option, rpc_error) res" where
  "parse_account_info_result cd result =
     res_bind (scan_ok_or (field (ascii ''value'') result) (BadResponse ''result.value missing'')) (\<lambda>value.
     res_bind (scan_lift (is_null value)) (\<lambda>null.
     if null then Ok None else res_bind (parse_account_info cd value) (\<lambda>a. Ok (Some a))))"

text \<open>
  \<open>for item in iter { out.push(f(item)?) }\<close>: every item makes the iterator stop or move on.
\<close>

definition iter_left :: "json_array_iter \<Rightarrow> nat" where
  "iter_left it = (if ai_done it then 0 else Suc (length (ai_data it) - ai_pos it))"

lemma iter_next_decreases:
  assumes "iter_next it = Ok (Some i, it')"
  shows "iter_left it' < iter_left it"
proof -
  let ?d = "ai_data it" and ?p = "skip_ws (ai_data it) (ai_pos it)"
  have nd: "\<not> ai_done it" and p: "?p < length ?d"
    using assms by (auto simp: iter_next_def Let_def split: if_splits)
  obtain ok r where sv: "skip_value ?d ?p = Ok (ok, r)" "?p \<le> r"
    using scan_ok(1) [of ?p ?d] p by (auto elim: ok_scanE)
  show ?thesis
  proof (cases "ok \<and> peek ?d (skip_ws ?d r) = Some b_comma")
    case True
    then have "it' = it\<lparr>ai_pos := skip_ws ?d r + 1\<rparr>"
      using assms sv nd p by (auto simp: iter_next_def Let_def split: if_splits)
    then show ?thesis
      using nd True sv(2) skip_ws_ge [of r ?d] skip_ws_ge [of "ai_pos it" ?d]
      by (auto simp: iter_left_def)
  next
    case False
    then have "ai_done it'"
      using assms sv nd p by (auto simp: iter_next_def Let_def split: if_splits)
    then show ?thesis using nd by (simp add: iter_left_def)
  qed
qed

function iter_map :: "(json_scan \<Rightarrow> ('b, 'e) res) \<Rightarrow> json_array_iter \<Rightarrow> ('b list, 'e) res" where
  "iter_map f it =
     (case iter_next it of
        Ok (item, it') \<Rightarrow>
          (case item of
             None \<Rightarrow> Ok []
           | Some i \<Rightarrow> res_bind (f i) (\<lambda>b. res_bind (iter_map f it') (\<lambda>bs. Ok (b # bs))))
      | _ \<Rightarrow> Panic)"
  by pat_completeness auto
termination
  by (relation "measure (\<lambda>(f, it). iter_left it)") (auto dest: iter_next_decreases)

declare iter_map.simps [simp del]

definition parse_multiple_accounts_result ::
  "rpc_codecs \<Rightarrow> json_scan \<Rightarrow> (account_info option list, rpc_error) res" where
  "parse_multiple_accounts_result cd result =
     res_bind (scan_ok_or (field (ascii ''value'') result) (BadResponse ''result.value missing'')) (\<lambda>values.
     res_bind (ok_or (array_iter values) (BadResponse ''result.value is not an array'')) (\<lambda>it.
     iter_map (\<lambda>item.
       res_bind (scan_lift (is_null item)) (\<lambda>null.
       if null then Ok None else res_bind (parse_account_info cd item) (\<lambda>a. Ok (Some a)))) it))"

definition parse_program_accounts_result ::
  "rpc_codecs \<Rightarrow> json_scan \<Rightarrow> ((bytes \<times> account_info) list, rpc_error) res" where
  "parse_program_accounts_result cd result =
     res_bind (ok_or (array_iter result) (BadResponse ''result is not an array'')) (\<lambda>it.
     iter_map (\<lambda>entry.
       res_bind (scan_ok_or (scan_then (field (ascii ''pubkey'') entry) as_str)
         (BadResponse ''missing pubkey in entry'')) (\<lambda>pubkey_str.
       res_bind (ok_or (b58_decode_32 cd pubkey_str) Base58DecodeFailed) (\<lambda>pubkey.
       res_bind (scan_ok_or (field (ascii ''account'') entry)
         (BadResponse ''missing account in entry'')) (\<lambda>account.
       res_bind (parse_account_info cd account) (\<lambda>info. Ok (pubkey, info)))))) it)"

definition parse_token_balance_result :: "json_scan \<Rightarrow> (token_balance, rpc_error) res" where
  "parse_token_balance_result result =
     res_bind (scan_ok_or (field (ascii ''value'') result) (BadResponse ''result.value missing'')) (\<lambda>value.
     res_bind (scan_ok_or (scan_then (field (ascii ''amount'') value) as_str)
       (BadResponse ''missing amount'')) (\<lambda>amount_str.
     res_bind (ok_or (parse_u64 amount_str) (BadResponse ''amount is not a u64'')) (\<lambda>amount.
     res_bind (scan_ok_or (scan_then (field (ascii ''decimals'') value) as_u8)
       (BadResponse ''missing decimals'')) (\<lambda>decimals.
     res_bind (scan_or (scan_then (field (ascii ''uiAmountString'') value) as_str) (ascii ''0'')) (\<lambda>ui.
     let n = min (length ui) 63
     in Ok \<lparr>tb_amount = amount, tb_decimals = decimals,
            ui_amount_string = blit (replicate 64 0) 0 (take n ui), ui_amount_string_len = n\<rparr>)))))"

section \<open>Batches\<close>

text \<open>\<open>parse_batch_item\<close> has the body of \<open>JsonRpcResponse::parse\<close>, on the item.\<close>

definition parse_batch_item :: "json_scan \<Rightarrow> (json_scan, json_rpc_error) res" where
  "parse_batch_item item = response_of item"

definition batch_get :: "bytes \<Rightarrow> nat \<Rightarrow> (json_scan, json_rpc_error) res" where
  "batch_get data i =
     res_bind (scan_ok_or (json_index i (json_new data)) (MissingField ''batch index'')) parse_batch_item"

definition batch_iter :: "bytes \<Rightarrow> (json_scan, json_rpc_error) res list scan_res" where
  "batch_iter data =
     (case array_iter (json_new data) of
        None \<Rightarrow> Ok []
      | Some it \<Rightarrow> iter_map (\<lambda>i. Ok (parse_batch_item i)) it)"

definition result_at :: "bytes \<Rightarrow> nat \<Rightarrow> (json_scan, rpc_error) res" where
  "result_at data i = map_err JsonRpc (batch_get data i)"

definition batch_get_blockhash :: "rpc_codecs \<Rightarrow> bytes \<Rightarrow> nat \<Rightarrow> (blockhash_result, rpc_error) res" where
  "batch_get_blockhash cd data i = res_bind (result_at data i) (parse_blockhash_result cd)"

definition batch_get_u64 :: "bytes \<Rightarrow> nat \<Rightarrow> (u64, rpc_error) res" where
  "batch_get_u64 data i = res_bind (result_at data i) parse_u64_result"

definition batch_get_balance :: "bytes \<Rightarrow> nat \<Rightarrow> (u64, rpc_error) res" where
  "batch_get_balance data i = res_bind (result_at data i) parse_balance_result"

definition batch_get_health :: "bytes \<Rightarrow> nat \<Rightarrow> (unit, rpc_error) res" where
  "batch_get_health data i = res_bind (result_at data i) parse_health_result"

definition batch_get_version :: "bytes \<Rightarrow> nat \<Rightarrow> (version_result, rpc_error) res" where
  "batch_get_version data i = res_bind (result_at data i) parse_version_result"

definition batch_get_account_info ::
  "rpc_codecs \<Rightarrow> bytes \<Rightarrow> nat \<Rightarrow> (account_info option, rpc_error) res" where
  "batch_get_account_info cd data i = res_bind (result_at data i) (parse_account_info_result cd)"

definition batch_get_multiple_accounts ::
  "rpc_codecs \<Rightarrow> bytes \<Rightarrow> nat \<Rightarrow> (account_info option list, rpc_error) res" where
  "batch_get_multiple_accounts cd data i =
     res_bind (result_at data i) (parse_multiple_accounts_result cd)"

definition batch_get_program_accounts ::
  "rpc_codecs \<Rightarrow> bytes \<Rightarrow> nat \<Rightarrow> ((bytes \<times> account_info) list, rpc_error) res" where
  "batch_get_program_accounts cd data i =
     res_bind (result_at data i) (parse_program_accounts_result cd)"

definition batch_get_token_balance :: "bytes \<Rightarrow> nat \<Rightarrow> (token_balance, rpc_error) res" where
  "batch_get_token_balance data i = res_bind (result_at data i) parse_token_balance_result"

end
