(* ===== verification/Rpc_Format_Props.thy ===== *)
theory Rpc_Format_Props
  imports Rpc_Format Json_Properties
begin

text \<open>
  Correctness of the request formatters: \<open>BufWriter\<close> is an \<open>emitter\<close>, the integer
  formatters print decimal numbers that parse back, and the requests, batches and
  parameters that fit their buffers are renderings of JSON documents.
\<close>

section \<open>BufWriter emits\<close>

definition bw_state :: "bytes \<Rightarrow> bytes \<Rightarrow> buf_writer" where
  "bw_state buf0 out = \<lparr>bw_buf = out @ drop (length out) buf0, bw_pos = length out\<rparr>"

lemma bw_state_new [simp]: "bufw_new buf = bw_state buf []"
  by (simp add: bufw_new_def bw_state_def)

lemma bufw_write_state:
  "length out \<le> length buf0 \<Longrightarrow> bufw_write bs (bw_state buf0 out) =
    (if length out + length bs \<le> length buf0 then (True, bw_state buf0 (out @ bs))
     else (False, bw_state buf0 out))"
  by (auto simp: bufw_write_def bw_state_def blit_def add.commute)

interpretation bufw: emitter "push e" "bw_state buf0" "length buf0" 0 e for e buf0
  by unfold_locales (auto simp: push_def bufw_write_state emits_def)

definition content :: "buf_writer \<Rightarrow> bytes" where
  "content w = take (bw_pos w) (bw_buf w)"

lemma content_state [simp]: "content (bw_state buf0 out) = out"
  by (simp add: content_def bw_state_def)

lemma pos_state [simp]: "bw_pos (bw_state buf0 out) = length out"
  by (simp add: bw_state_def)

text \<open>Writes whose result is ignored: while everything fits nothing is lost.\<close>

lemma write_ignoring_fits:
  "length out + length bs \<le> length buf0 \<Longrightarrow>
   write_ignoring bs (bw_state buf0 out) = bw_state buf0 (out @ bs)"
  by (simp add: write_ignoring_def bufw_write_state)

lemma written_state [simp]: "written (bw_state buf0 out) = (out @ drop (length out) buf0, length out)"
  by (simp add: written_def bw_state_def)

section \<open>Decimal numbers\<close>

fun dec :: "nat \<Rightarrow> bytes" where
  "dec n = (if n < 10 then [48 + word_of_nat n] else dec (n div 10) @ [48 + word_of_nat (n mod 10)])"

declare dec.simps [simp del]

lemma dec_not_Nil [simp]: "dec n \<noteq> []"
  by (subst dec.simps) auto

lemma dec_step: "10 \<le> n \<Longrightarrow> dec n = dec (n div 10) @ [48 + word_of_nat (n mod 10)]"
  by (subst dec.simps) simp

lemma dec_small: "n < 10 \<Longrightarrow> dec n = [48 + word_of_nat n]"
  by (subst dec.simps) simp

lemma dec_length: "n < 10 ^ k \<Longrightarrow> 0 < k \<Longrightarrow> length (dec n) \<le> k"
proof (induction k arbitrary: n)
  case (Suc k)
  show ?case
  proof (cases "n < 10")
    case False
    then have "0 < k" using Suc.prems by (cases k) auto
    moreover have "n div 10 < 10 ^ k" using Suc.prems(1) by (simp add: less_mult_imp_div_less)
    ultimately show ?thesis using Suc.IH False by (simp add: dec_step)
  qed (simp add: dec_small)
qed simp

lemma digit_byte: "d < 10 \<Longrightarrow> unat (48 + word_of_nat d :: u8) = 48 + d"
  by (simp add: unat_word_ariths unat_of_nat take_bit_nat_eq_self)

lemma digit_is_digit: "d < 10 \<Longrightarrow> is_ascii_digit (48 + word_of_nat d)"
  by (simp add: is_ascii_digit_def word_le_nat_alt digit_byte)

lemma dec_digits: "all_digits (dec n)"
proof (induction n rule: dec.induct)
  case (1 n)
  then show ?case
    by (cases "n < 10") (auto simp: dec_small dec_step digit_is_digit)
qed

lemma digits_value_snoc: "digits_value (ds @ [c]) = digits_value ds * 10 + (unat c - 48)"
  by (simp add: digits_value_def)

lemma dec_value: "digits_value (dec n) = n"
proof (induction n rule: dec.induct)
  case (1 n)
  show ?case
  proof (cases "n < 10")
    case True
    then show ?thesis by (simp add: dec_small digits_value_def digit_byte)
  next
    case False
    then show ?thesis using 1 by (simp add: dec_step digits_value_snoc digit_byte)
  qed
qed

lemma parse_u64_dec: "n < 2 ^ 64 \<Longrightarrow> parse_u64 (dec n) = Some (word_of_nat n)"
proof -
  assume n: "n < 2 ^ 64"
  obtain c t where c: "dec n = c # t" using dec_not_Nil by (meson neq_Nil_conv)
  have "is_ascii_digit c" using dec_digits [of n] c by simp
  then have "hd (dec n) \<noteq> b_plus" using c by (auto simp: is_ascii_digit_def)
  then show ?thesis using n dec_digits dec_value by (simp add: parse_u64_def)
qed

text \<open>The loop writes the digits in front of position \<open>pos\<close>.\<close>

lemma fmt_loop_dec:
  assumes "0 < unat val" and "length (dec (unat val)) \<le> pos" and "pos \<le> length buf"
  shows "\<exists>buf'. fmt_loop val pos buf = Ok (buf', pos - length (dec (unat val))) \<and>
    drop (pos - length (dec (unat val))) buf' = dec (unat val) @ drop pos buf"
  using assms
proof (induction val pos buf rule: fmt_loop.induct)
  case (1 val pos buf)
  let ?n = "unat val"
  let ?buf = "buf[pos - 1 := 48 + word_of_nat (?n mod 10)]"
  have pos: "0 < pos" using "1.prems"(2) by (metis dec_not_Nil le_0_eq length_0_conv neq0_conv)
  have step: "fmt_loop val pos buf = fmt_loop (word_of_nat (?n div 10) :: 'a word) (pos - 1) ?buf"
    using "1.prems"(1) pos by (subst fmt_loop.simps) simp
  have last: "drop (pos - 1) ?buf = (48 + word_of_nat (?n mod 10)) # drop pos buf"
    using pos "1.prems"(3) by (subst Cons_nth_drop_Suc [symmetric]) auto
  show ?case
  proof (cases "?n < 10")
    case True
    then show ?thesis
      using step last by (subst (asm) (2) fmt_loop.simps) (simp add: dec_small)
  next
    case False
    then have ih: "\<exists>buf'. fmt_loop (word_of_nat (?n div 10) :: 'a word) (pos - 1) ?buf =
        Ok (buf', pos - 1 - length (dec (?n div 10))) \<and>
        drop (pos - 1 - length (dec (?n div 10))) buf' = dec (?n div 10) @ drop (pos - 1) ?buf"
      using "1.IH" "1.prems" pos by (simp add: dec_step)
    then show ?thesis using step last False by (auto simp: dec_step)
  qed
qed

lemma fmt_word_dec:
  fixes val :: "'a::len word"
  assumes "2 ^ LENGTH('a) \<le> (10 :: nat) ^ 20" and "length buf = 20"
  shows "fmt_word val buf = Ok (dec (unat val))"
proof (cases "val = 0")
  case True
  have "drop 19 (buf[19 := 48]) = [48]"
    using assms(2) by (subst Cons_nth_drop_Suc [symmetric]) auto
  then show ?thesis using True by (simp add: fmt_word_def dec_small)
next
  case False
  have "unat val < 10 ^ 20"
    using assms(1) unsigned_less [of val, where 'a = nat] by linarith
  then have "length (dec (unat val)) \<le> 20" by (rule dec_length) simp
  then obtain b where "fmt_loop val 20 buf = Ok (b, 20 - length (dec (unat val)))"
    "drop (20 - length (dec (unat val))) b = dec (unat val)"
    using fmt_loop_dec [of val 20 buf] False assms(2) by (auto simp: unat_gt_0)
  then show ?thesis using False by (simp add: fmt_word_def)
qed

lemma fmt_dec:
  "fmt_u64 v itoa_buf = Ok (dec (unat v))" "fmt_u32 u itoa_buf = Ok (dec (unat u))"
  "fmt_usize v itoa_buf = Ok (dec (unat v))"
  by (simp_all add: fmt_u64_def fmt_u32_def fmt_usize_def itoa_buf_def fmt_word_dec)

lemma lift_fmt_Ok [simp]: "lift_fmt (Ok x) = Ok x"
  by (simp add: lift_fmt_def)

section \<open>Requests are JSON documents\<close>

abbreviation num :: "nat \<Rightarrow> json" where "num n \<equiv> JNum False (dec n) None None"

lemma render_num: "render (num n) = dec n"
  by (simp add: render_frac_def render_exp_def)

lemma wf_num: "wf_json (num n)"
  by (simp add: dec_digits exp_wf_def)

definition request_json :: "u64 \<Rightarrow> bytes \<Rightarrow> json \<Rightarrow> json" where
  "request_json rid method params =
     JObj [] (MCons (ascii ''jsonrpc'') [] [] (JStr (ascii ''2.0'')) [] []
       (MCons (ascii ''id'') [] [] (num (unat rid)) [] []
       (MCons (ascii ''method'') [] [] (JStr method) [] []
       (MLast (ascii ''params'') [] [] params []))))"

lemma ascii_append: "ascii (a @ b) = ascii a @ ascii b"
  by (simp add: ascii_def)

definition request_pieces :: "u64 \<Rightarrow> bytes \<Rightarrow> bytes \<Rightarrow> bytes list" where
  "request_pieces rid method params =
     [ascii ''{\"jsonrpc\":\"2.0\",\"id\":'', dec (unat rid), ascii '',\"method\":\"'', method,
      ascii ''\",\"params\":'', params, ascii ''}'']"

lemma request_render:
  "concat (request_pieces rid method (render p)) = render (request_json rid method p)"
  by (simp add: request_pieces_def request_json_def render_key_def ascii_def render_frac_def
      render_exp_def)

lemma request_wf: "str_body method \<Longrightarrow> wf_json p \<Longrightarrow> wf_json (request_json rid method p)"
  using wf_num [of "unat rid"] by (simp add: request_json_def ascii_def)

lemma serialize_request_put_all:
  "serialize_request buf method params rid =
    put_all (push SerializeTooLarge) (bw_state buf []) (request_pieces rid method params)"
  by (simp add: serialize_request_def request_pieces_def fmt_dec Let_def)

lemma push_entry_put_all:
  "push_entry be rid w =
    put_all (push SerializeTooLarge) w (request_pieces rid (be_method be) (entry_params be))"
  by (simp add: push_entry_def request_pieces_def fmt_dec Let_def)

lemma put_all_exact:
  assumes "length out \<le> length buf"
  shows "put_all (push e) (bw_state buf out) bss =
    (if length (out @ concat bss) \<le> length buf then Ok (bw_state buf (out @ concat bss)) else Err e)"
proof -
  have "emits (bw_state buf) (length buf) 0 e (put_all (push e) (bw_state buf out) bss) out (concat bss)"
    by (rule bufw.put_all_emits [OF assms])
  then show ?thesis by (auto simp: emits_def)
qed

section \<open>Batches\<close>

text \<open>The array of the requests, with consecutive ids.\<close>

fun batch_elems :: "u64 \<Rightarrow> (bytes \<times> json) list \<Rightarrow> elems" where
  "batch_elems n [] = ELast JNull []"
| "batch_elems n [(m, p)] = ELast (request_json n m p) []"
| "batch_elems n ((m, p) # r # rs) = ECons (request_json n m p) [] [] (batch_elems (n + 1) (r # rs))"

definition batch_json :: "u64 \<Rightarrow> (bytes \<times> json) list \<Rightarrow> json" where
  "batch_json n rs = (if rs = [] then JArr0 [] else JArr [] (batch_elems n rs))"

fun batch_text :: "nat \<Rightarrow> u64 \<Rightarrow> (bytes \<times> json) list \<Rightarrow> bytes" where
  "batch_text i n [] = []"
| "batch_text i n ((m, p) # rs) =
     (if i > 0 then ascii '','' else []) @ render (request_json n m p) @ batch_text (i + 1) (n + 1) rs"

lemma batch_text_more:
  "rs \<noteq> [] \<Longrightarrow> batch_text (Suc i) n rs @ ascii '']'' = b_comma # render_elems (batch_elems n rs)"
  by (induction n rs arbitrary: i rule: batch_elems.induct) (auto simp: ascii_def)

lemma batch_text_render:
  assumes "rs \<noteq> []" shows "batch_text 0 n rs @ ascii '']'' = render_elems (batch_elems n rs)"
proof (cases "tl rs")
  case Nil
  then obtain m p where "rs = [(m, p)]" using assms by (cases rs) auto
  then show ?thesis by (simp add: ascii_def)
next
  case (Cons r rs')
  then obtain m p where rs: "rs = (m, p) # r # rs'" using assms by (cases rs) auto
  then have "batch_text 0 n rs @ ascii '']'' =
      render (request_json n m p) @ batch_text (Suc 0) (n + 1) (r # rs') @ ascii '']''" by simp
  also have "\<dots> = render (request_json n m p) @ b_comma # render_elems (batch_elems (n + 1) (r # rs'))"
    using batch_text_more [of "r # rs'" 0 "n + 1"] by (simp only: list.distinct simp_thms)
  finally show ?thesis by (simp add: rs)
qed

lemma batch_json_render: "ascii ''['' @ batch_text 0 n rs @ ascii '']'' = render (batch_json n rs)"
  using batch_text_render [of rs n] by (cases "rs = []") (auto simp: batch_json_def ascii_def)

definition entry_json :: "batch_entry \<Rightarrow> bytes \<times> json \<Rightarrow> bool" where
  "entry_json be r \<longleftrightarrow> be_method be = fst r \<and> entry_params be = render (snd r)"

lemma push_entries_exact:
  assumes "list_all2 entry_json bes rs" and "length out \<le> length buf"
  shows "fst (push_entries i bes n (bw_state buf out)) =
    (if length (out @ batch_text i n rs) \<le> length buf then Ok (bw_state buf (out @ batch_text i n rs))
     else Err SerializeTooLarge) \<and>
    (length (out @ batch_text i n rs) \<le> length buf \<longrightarrow>
     snd (push_entries i bes n (bw_state buf out)) = n + word_of_nat (length bes))"
  using assms
proof (induction bes rs arbitrary: i n out rule: list_all2_induct)
  case (Cons be bes r rs)
  obtain m p where r: "r = (m, p)" by fastforce
  let ?sep = "if i > 0 then ascii '','' else []" and ?req = "render (request_json n m p)"
  have sep: "(if i > 0 then push SerializeTooLarge (bw_state buf out) (ascii '','')
      else Ok (bw_state buf out)) = (if length (out @ ?sep) \<le> length buf
        then Ok (bw_state buf (out @ ?sep)) else Err SerializeTooLarge)"
    using Cons.prems put_all_exact [OF Cons.prems, of SerializeTooLarge "[ascii '','']"]
    by (auto simp: res_simps split: if_splits)
  have ent: "push_entry be n (bw_state buf (out @ ?sep)) =
      (if length ((out @ ?sep) @ ?req) \<le> length buf then Ok (bw_state buf ((out @ ?sep) @ ?req))
       else Err SerializeTooLarge)" if "length (out @ ?sep) \<le> length buf"
  proof -
    have "be_method be = m" "entry_params be = render p" using Cons.hyps(1) r by (auto simp: entry_json_def)
    then show ?thesis
      unfolding push_entry_put_all put_all_exact [OF that] by (simp only: request_render)
  qed
  show ?case
  proof (cases "length ((out @ ?sep) @ ?req) \<le> length buf")
    case True
    then have len: "length (out @ ?sep) \<le> length buf" by simp
    have step: "push_entries i (be # bes) n (bw_state buf out) =
        push_entries (i + 1) bes (n + 1) (bw_state buf ((out @ ?sep) @ ?req))"
      using sep ent [OF len] True len by (simp add: next_id_def)
    have tx: "(out @ ?sep) @ ?req @ batch_text (i + 1) (n + 1) rs = out @ batch_text i n (r # rs)"
      by (simp add: r)
    show ?thesis
      using Cons.IH [OF True, of "i + 1" "n + 1"] unfolding step
      by (simp only: append_assoc flip: tx) (simp add: algebra_simps)
  next
    case False
    then have "fst (push_entries i (be # bes) n (bw_state buf out)) = Err SerializeTooLarge"
      using sep ent by (cases "length (out @ ?sep) \<le> length buf") (auto simp: next_id_def)
    then show ?thesis using False by (auto simp: r)
  qed
qed simp

section \<open>Parameters\<close>

definition commitment_obj :: "commitment \<Rightarrow> json" where
  "commitment_obj c = JObj [] (MLast (ascii ''commitment'') [] [] (JStr (commitment_str c)) [])"

definition encoding_obj :: "commitment \<Rightarrow> json" where
  "encoding_obj c =
     JObj [] (MCons (ascii ''encoding'') [] [] (JStr (ascii ''base64'')) [] []
       (MLast (ascii ''commitment'') [] [] (JStr (commitment_str c)) []))"

fun str_elems :: "bytes list \<Rightarrow> elems" where
  "str_elems [] = ELast JNull []"
| "str_elems [k] = ELast (JStr k) []"
| "str_elems (k # l # ks) = ECons (JStr k) [] [] (str_elems (l # ks))"

definition str_array :: "bytes list \<Rightarrow> json" where
  "str_array ks = (if ks = [] then JArr0 [] else JArr [] (str_elems ks))"

definition pair_json :: "json \<Rightarrow> json \<Rightarrow> json" where
  "pair_json a b = JArr [] (ECons a [] [] (ELast b []))"

definition send_opts_obj :: "send_transaction_opts \<Rightarrow> json" where
  "send_opts_obj opts =
     (let retries = (\<lambda>v d. case max_retries opts of
            None \<Rightarrow> MLast (ascii ''preflightCommitment'') [] [] v d
          | Some n \<Rightarrow> MCons (ascii ''preflightCommitment'') [] [] v d []
              (MLast (ascii ''maxRetries'') [] [] (num (unat n)) []));
          tail = retries (JStr (commitment_str (preflight_commitment opts))) []
      in JObj [] (MCons (ascii ''encoding'') [] [] (JStr (ascii ''base64'')) [] []
           (if skip_preflight opts then MCons (ascii ''skipPreflight'') [] [] (JBool True) [] [] tail
            else tail)))"

lemma fold_write_fits:
  "length (out @ concat bss) \<le> length buf \<Longrightarrow>
   fold write_ignoring bss (bw_state buf out) = bw_state buf (out @ concat bss)"
  by (induction bss arbitrary: out) (auto simp: write_ignoring_fits)

lemma written_content:
  assumes "length (concat bss) \<le> length buf"
  shows "written (fold write_ignoring bss (bw_state buf [])) =
    (concat bss @ drop (length (concat bss)) buf, length (concat bss))"
  using assms fold_write_fits [of "[]" bss buf] by simp

text \<open>\<open>is_params r v\<close>: the formatter's result \<open>r\<close> holds exactly the rendering of \<open>v\<close>.\<close>

definition is_params :: "bytes \<times> nat \<Rightarrow> json \<Rightarrow> bool" where
  "is_params r v \<longleftrightarrow> snd r \<le> length (fst r) \<and> take (snd r) (fst r) = render v"

lemma is_params_written:
  assumes "concat bss = render v" and "length (render v) \<le> length buf"
  shows "is_params (written (fold write_ignoring bss (bw_state buf []))) v"
  using assms written_content [of bss buf] by (simp add: is_params_def)

lemma commitment_params_json:
  assumes "28 \<le> length buf"
  shows "is_params (fmt_commitment_params buf c) (JArr [] (ELast (commitment_obj c) []))"
  using assms
  by (cases c) (auto simp: fmt_commitment_params_def is_params_def commitment_obj_def ascii_def
      render_key_def blit_def min_def)

lemma pubkey_params_json:
  assumes "length pk + 32 \<le> length buf"
  shows "is_params (fmt_pubkey_commitment_params buf pk c) (pair_json (JStr pk) (commitment_obj c))"
proof -
  let ?bss = "[ascii ''[\"'', pk, ascii ''\",{\"commitment\":\"'', commitment_str c, ascii ''\"}]'']"
  have "concat ?bss = render (pair_json (JStr pk) (commitment_obj c))"
    by (simp add: pair_json_def commitment_obj_def ascii_def render_key_def)
  moreover have "length (concat ?bss) \<le> length buf"
    using assms by (cases c) (simp_all add: ascii_def)
  moreover have "fmt_pubkey_commitment_params buf pk c =
      written (fold write_ignoring ?bss (bw_state buf []))"
    by (simp add: fmt_pubkey_commitment_params_def Let_def)
  ultimately show ?thesis using is_params_written by metis
qed

lemma account_info_params_json:
  assumes "length pk + 52 \<le> length buf"
  shows "is_params (fmt_account_info_params buf pk c) (pair_json (JStr pk) (encoding_obj c))"
proof -
  let ?bss = "[ascii ''[\"'', pk, ascii ''\",{\"encoding\":\"base64\",\"commitment\":\"'',
    commitment_str c, ascii ''\"}]'']"
  have "concat ?bss = render (pair_json (JStr pk) (encoding_obj c))"
    by (simp add: pair_json_def encoding_obj_def ascii_def render_key_def)
  moreover have "length (concat ?bss) \<le> length buf"
    using assms by (cases c) (simp_all add: ascii_def)
  moreover have "fmt_account_info_params buf pk c =
      written (fold write_ignoring ?bss (bw_state buf []))"
    by (simp add: fmt_account_info_params_def Let_def)
  ultimately show ?thesis using is_params_written by metis
qed

text \<open>The pieces the key loop writes.\<close>

fun pubkey_pieces :: "nat \<Rightarrow> bytes list \<Rightarrow> bytes list" where
  "pubkey_pieces i [] = []"
| "pubkey_pieces i (k # ks) =
     (if i > 0 then [ascii '',''] else []) @ [ascii ''\"'', k, ascii ''\"''] @ pubkey_pieces (i + 1) ks"

lemma write_pubkeys_fold: "write_pubkeys i ks w = fold write_ignoring (pubkey_pieces i ks) w"
  by (induction i ks w rule: write_pubkeys.induct) (auto simp: Let_def)

lemma pubkey_pieces_more:
  "ks \<noteq> [] \<Longrightarrow> concat (pubkey_pieces (Suc i) ks) @ [b_rbracket] = b_comma # render_elems (str_elems ks)"
  by (induction ks arbitrary: i rule: str_elems.induct) (auto simp: ascii_def)

lemma pubkey_pieces_render:
  "ascii ''['' @ concat (pubkey_pieces 0 ks) @ [b_rbracket] = render (str_array ks)"
proof (cases ks rule: str_elems.cases)
  case (3 k l ks')
  then show ?thesis
    using pubkey_pieces_more [of "l # ks'" 0] by (simp add: str_array_def ascii_def)
qed (simp_all add: str_array_def ascii_def)

lemma pubkey_pieces_length:
  "list_all (\<lambda>k. length k \<le> m) ks \<Longrightarrow> length (concat (pubkey_pieces i ks)) \<le> length ks * (m + 3)"
  by (induction ks arbitrary: i) (auto simp: ascii_def intro: add_mono le_SucI)

lemma multiple_accounts_params_json:
  assumes "list_all (\<lambda>k. length k \<le> m) ks" and "length ks * (m + 3) + 53 \<le> length buf"
  shows "is_params (fmt_multiple_accounts_params buf ks c) (pair_json (str_array ks) (encoding_obj c))"
proof -
  let ?p = "pubkey_pieces 0 ks"
  let ?bss = "[ascii ''[[''] @ ?p @ [ascii ''],{\"encoding\":\"base64\",\"commitment\":\"'',
    commitment_str c, ascii ''\"}]'']"
  have "concat ?bss = [b_lbracket] @ (ascii ''['' @ concat ?p @ [b_rbracket]) @
      [b_comma] @ render (encoding_obj c) @ [b_rbracket]"
    by (simp add: encoding_obj_def ascii_def render_key_def)
  also have "\<dots> = render (pair_json (str_array ks) (encoding_obj c))"
    unfolding pubkey_pieces_render by (simp add: pair_json_def)
  finally have "concat ?bss = render (pair_json (str_array ks) (encoding_obj c))" .
  moreover have "length (concat ?bss) \<le> length buf"
    using assms(2) pubkey_pieces_length [OF assms(1), of 0] by (cases c) (simp_all add: ascii_def)
  moreover have "fmt_multiple_accounts_params buf ks c =
      written (fold write_ignoring ?bss (bw_state buf []))"
    by (simp add: fmt_multiple_accounts_params_def write_pubkeys_fold Let_def)
  ultimately show ?thesis using is_params_written by metis
qed

text \<open>Parameters of \<open>sendTransaction\<close>.\<close>

definition send_tx_pieces :: "bytes \<Rightarrow> send_transaction_opts \<Rightarrow> bytes list" where
  "send_tx_pieces tx opts =
     [ascii ''[\"'', tx, ascii ''\",{\"encoding\":\"base64\"''] @
     (if skip_preflight opts then [ascii '',\"skipPreflight\":true''] else []) @
     [ascii '',\"preflightCommitment\":\"'', commitment_str (preflight_commitment opts), ascii ''\"''] @
     (case max_retries opts of None \<Rightarrow> []
      | Some n \<Rightarrow> [ascii '',\"maxRetries\":'', dec (unat n)]) @
     [ascii ''}]'']"

lemma send_tx_fold:
  "fmt_send_tx_params buf tx opts =
    Ok (written (fold write_ignoring (send_tx_pieces tx opts) (bw_state buf [])))"
  by (simp add: fmt_send_tx_params_def send_tx_pieces_def Let_def fmt_dec split: option.splits)

lemma send_tx_render:
  "concat (send_tx_pieces tx opts) = render (pair_json (JStr tx) (send_opts_obj opts))"
  by (simp add: send_tx_pieces_def send_opts_obj_def pair_json_def ascii_def render_key_def
      render_frac_def render_exp_def Let_def split: option.splits)

lemma send_tx_length: "length (render (pair_json (JStr tx) (send_opts_obj opts))) \<le> length tx + 112"
proof -
  have d: "length (dec (unat n)) \<le> 10" for n :: u32
    using dec_length [of "unat n" 10] unsigned_less [of n, where 'a = nat] by simp
  have "length (concat (send_tx_pieces tx opts)) \<le> length tx + 112"
    using d by (cases "preflight_commitment opts"; cases "max_retries opts")
      (auto simp: send_tx_pieces_def ascii_def intro: le_trans [OF d])
  then show ?thesis using send_tx_render [of tx opts] by simp
qed

lemma send_tx_params_json:
  assumes "length tx + 112 \<le> length buf"
  shows "\<exists>r. fmt_send_tx_params buf tx opts = Ok r \<and>
    is_params r (pair_json (JStr tx) (send_opts_obj opts))"
proof -
  have "length (render (pair_json (JStr tx) (send_opts_obj opts))) \<le> length buf"
    using assms send_tx_length [of tx opts] by simp
  then show ?thesis
    using is_params_written [OF send_tx_render] send_tx_fold by blast
qed

lemma commitment_body: "str_body (commitment_str c)"
  by (cases c) (simp_all add: ascii_def)

lemma params_wf:
  "wf_json (commitment_obj c)" "wf_json (encoding_obj c)" "wf_json (send_opts_obj opts)"
  "wf_json a \<Longrightarrow> wf_json b \<Longrightarrow> wf_json (pair_json a b)"
  "list_all str_body ks \<Longrightarrow> wf_json (str_array ks)"
proof -
  show "wf_json (commitment_obj c)" "wf_json (encoding_obj c)"
    by (simp_all add: commitment_obj_def encoding_obj_def commitment_body ascii_def)
  show "wf_json (send_opts_obj opts)"
    using commitment_body wf_num
    by (auto simp: send_opts_obj_def Let_def ascii_def exp_wf_def split: option.splits)
  show "wf_json a \<Longrightarrow> wf_json b \<Longrightarrow> wf_json (pair_json a b)" by (simp add: pair_json_def)
  have "ks \<noteq> [] \<Longrightarrow> list_all str_body ks \<Longrightarrow> wf_elems (str_elems ks)"
    by (induction ks rule: str_elems.induct) auto
  then show "list_all str_body ks \<Longrightarrow> wf_json (str_array ks)" by (simp add: str_array_def)
qed

section \<open>The request header\<close>

definition header_text :: "bytes \<Rightarrow> bytes \<Rightarrow> bytes \<Rightarrow> bytes \<Rightarrow> nat \<Rightarrow> bytes" where
  "header_text method path host content_type n =
     method @ ascii '' '' @ path @ ascii '' HTTP/1.1'' @ [13, 10] @
     ascii ''Host: '' @ host @ [13, 10] @ ascii ''Content-Type: '' @ content_type @ [13, 10] @
     ascii ''Content-Length: '' @ dec n @ [13, 10] @ ascii ''Connection: keep-alive'' @ [13, 10, 13, 10]"

lemma fmt_request_header_exact:
  "fmt_request_header buf method path host ct n =
    (let h = header_text method path host ct (unat n)
     in if length h \<le> length buf then Ok (bw_state buf h) else Err ())"
proof -
  let ?bss = "[method, ascii '' '', path, ascii '' HTTP/1.1'' @ [13, 10] @ ascii ''Host: '', host,
    [13, 10] @ ascii ''Content-Type: '', ct, [13, 10] @ ascii ''Content-Length: '', dec (unat n),
    [13, 10] @ ascii ''Connection: keep-alive'' @ [13, 10] @ [13, 10]]"
  have "concat ?bss = header_text method path host ct (unat n)"
    by (simp add: header_text_def)
  moreover have "fmt_request_header buf method path host ct n =
      put_all (push ()) (bw_state buf []) ?bss"
    by (simp add: fmt_request_header_def Let_def fmt_dec)
  ultimately show ?thesis using put_all_exact [of "[]" buf "()" ?bss] by (simp add: Let_def)
qed

section \<open>Properties\<close>

text \<open>The integer formatters. Every \<open>u64\<close> and \<open>u32\<close> is formatted into the 20-byte buffer
  without running off its front; the result is digits only, has no leading zero except for
  zero itself, and parses back to the value.\<close>

theorem fmt_integers_round_trip:
  "\<exists>ds es. fmt_u64 v itoa_buf = Ok ds \<and> parse_u64 ds = Some v \<and> all_digits ds \<and> length ds \<le> 20 \<and>
    (hd ds = 48 \<longleftrightarrow> v = 0) \<and> fmt_u32 u itoa_buf = Ok es \<and> parse_u64 es = Some (ucast u) \<and>
    length es \<le> 10"
proof -
  have v: "unat v < 2 ^ 64" and u: "unat u < 2 ^ 32"
    using unsigned_less [of v, where 'a = nat] unsigned_less [of u, where 'a = nat] by simp_all
  have hd: "hd (dec n) = 48 \<longleftrightarrow> n = 0" for n
  proof (induction n rule: dec.induct)
    case (1 n)
    show ?case
    proof (cases "n < 10")
      case True
      then have "(48 + word_of_nat n = (48 :: u8)) \<longleftrightarrow> n = 0"
        using digit_byte [OF True] digit_byte [of 0] by force
      then show ?thesis using True by (simp add: dec_small)
    next
      case False
      then show ?thesis using 1 by (simp add: dec_step)
    qed
  qed
  have l: "length (dec (unat v)) \<le> 20" "length (dec (unat u)) \<le> 10"
    by (rule dec_length; use u v in simp)+
  have pu: "parse_u64 (dec (unat u)) = Some (ucast u)"
    using parse_u64_dec [of "unat u"] u by simp
  show ?thesis
    using fmt_dec(1,2) parse_u64_dec [OF v] dec_digits hd l pu
    by (auto simp: unat_eq_0)
qed

text \<open>C31: requests are JSON. \<open>serialize_request\<close> writes exactly the JSON-RPC object with
  the version, the id in decimal, the method and the parameters, or fails with
  \<open>SerializeTooLarge\<close> precisely when that does not fit the buffer; with a method name free of
  quotes and escapes and parameters that are JSON, the text is JSON, and the scanner reads
  the method and the id back.\<close>

theorem serialize_request_is_json:
  fixes rid :: u64
  assumes "str_body method" and "utf8_valid method" and "wf_json p"
  defines "doc \<equiv> request_json rid method p"
  shows "wf_json doc \<and>
    serialize_request buf method (render p) rid =
      (if length (render doc) \<le> length buf then Ok (bw_state buf (render doc))
       else Err SerializeTooLarge) \<and>
    content (bw_state buf (render doc)) = render doc \<and>
    (\<exists>s. field (ascii ''method'') (json_new (render doc)) = Ok (Some s) \<and> as_str s = Ok (Some method)) \<and>
    (unat rid < 2 ^ 63 \<longrightarrow> (\<exists>s. field (ascii ''id'') (json_new (render doc)) = Ok (Some s) \<and>
       as_i64 s = Ok (Some (uint rid))))"
proof -
  have wf: "wf_json doc" unfolding doc_def by (rule request_wf [OF assms(1,3)])
  have at: "points_at (json_new (render doc)) doc"
    using json_new_points_at [of "[]" "[]", OF _ _ wf] by simp
  have mem: "map_of (obj_members doc) (ascii ''method'') = Some (JStr method)"
    "map_of (obj_members doc) (ascii ''id'') = Some (num (unat rid))"
    by (simp_all add: doc_def request_json_def ascii_def)
  have m: "\<exists>s. field (ascii ''method'') (json_new (render doc)) = Ok (Some s) \<and>
      as_str s = Ok (Some method)"
    using field_points_at [OF at wf, of "ascii ''method''"] mem(1) as_str_points_at [OF _ assms(1)]
      assms(2) by (auto simp: lookup_result_def from_utf8_def)
  have i: "\<exists>s. field (ascii ''id'') (json_new (render doc)) = Ok (Some s) \<and>
       as_i64 s = Ok (Some (uint rid))" if "unat rid < 2 ^ 63"
  proof -
    have "as_i64 s = Ok (Some (uint rid))" if "points_at s (num (unat rid))" for s
    proof -
      have "int (unat rid) < int (2 ^ 63)" using \<open>unat rid < 2 ^ 63\<close> by (simp only: of_nat_less_iff)
      moreover have "- (2 ^ 63) \<le> int (unat rid)" by (rule order.trans [of _ 0]) simp_all
      ultimately show ?thesis
        unfolding as_i64_points_at [OF that wf_num] dec_value Let_def by simp
    qed
    then show ?thesis
      using field_points_at [OF at wf, of "ascii ''id''"] mem(2) by (auto simp: lookup_result_def)
  qed
  have "concat (request_pieces rid method (render p)) = render doc"
    unfolding doc_def by (rule request_render)
  then show ?thesis
    using wf m i put_all_exact [of "[]" buf SerializeTooLarge "request_pieces rid method (render p)"]
    by (simp add: serialize_request_put_all)
qed

theorem serialize_request_is_json_witness:
  "\<exists>s. field (ascii ''method'') (json_new (render (request_json 7 (ascii ''getSlot'') (JArr0 [])))) =
     Ok (Some s) \<and> as_str s = Ok (Some (ascii ''getSlot''))"
proof -
  have "str_body (ascii ''getSlot'')" "utf8_valid (ascii ''getSlot'')" "wf_json (JArr0 [])"
    by code_simp+
  then show ?thesis using serialize_request_is_json [of "ascii ''getSlot''" "JArr0 []"] by blast
qed

text \<open>C29: batches are JSON. \<open>serialize_batch\<close> writes exactly the array of the requests with
  consecutive ids (wrapping at 64 bits) and advances the client's counter by the number of
  entries, or fails with \<open>SerializeTooLarge\<close> precisely when the array does not fit.\<close>

theorem serialize_batch_is_json:
  fixes n :: u64
  assumes "list_all2 entry_json bes rs"
  defines "doc \<equiv> batch_json n rs"
  shows "fst (serialize_batch buf bes n) =
      (if length (render doc) \<le> length buf then Ok (bw_state buf (render doc))
       else Err SerializeTooLarge) \<and>
    (length (render doc) \<le> length buf \<longrightarrow>
       snd (serialize_batch buf bes n) = n + word_of_nat (length bes))"
proof -
  have doc: "render doc = ascii ''['' @ batch_text 0 n rs @ ascii '']''"
    unfolding doc_def by (rule batch_json_render [symmetric])
  have first: "push SerializeTooLarge (bw_state buf []) (ascii ''['') =
      (if 1 \<le> length buf then Ok (bw_state buf (ascii ''['')) else Err SerializeTooLarge)"
    using put_all_exact [of "[]" buf SerializeTooLarge "[ascii ''['']"] by (simp add: ascii_def)
  show ?thesis
  proof (cases "1 \<le> length buf")
    case False
    then show ?thesis using first doc by (simp add: serialize_batch_def ascii_def)
  next
    case True
    then have o1: "length (ascii ''['') \<le> length buf" by (simp add: ascii_def)
    note ent = push_entries_exact [OF assms(1) o1, of 0 n]
    let ?o = "ascii ''['' @ batch_text 0 n rs"
    have last: "push SerializeTooLarge (bw_state buf ?o) (ascii '']'') =
        (if length (render doc) \<le> length buf then Ok (bw_state buf (render doc))
         else Err SerializeTooLarge)" if "length ?o \<le> length buf"
      using put_all_exact [OF that, of SerializeTooLarge "[ascii '']'']"] doc by simp
    show ?thesis
      using ent first True last doc
      by (auto simp: serialize_batch_def Let_def split: prod.splits if_splits)
  qed
qed

definition sample_batch :: "batch_entry list" where
  "sample_batch = [entry_get_health, entry_raw (ascii ''m'') (ascii ''[]'')]"

theorem serialize_batch_is_json_witness:
  "fst (serialize_batch (replicate 256 0) sample_batch 5) =
    Ok (bw_state (replicate 256 0)
      (render (batch_json 5 [(ascii ''getHealth'', JArr0 []), (ascii ''m'', JArr0 [])]))) \<and>
   snd (serialize_batch (replicate 256 0) sample_batch 5) = 7"
proof -
  have "list_all2 entry_json sample_batch [(ascii ''getHealth'', JArr0 []), (ascii ''m'', JArr0 [])]"
    by code_simp
  moreover have "length (render (batch_json 5 [(ascii ''getHealth'', JArr0 []), (ascii ''m'', JArr0 [])])) \<le> 256"
    by code_simp
  moreover have "length sample_batch = 2" by (simp add: sample_batch_def)
  ultimately show ?thesis
    using serialize_batch_is_json [of sample_batch _ "replicate 256 0" 5] by fastforce
qed

text \<open>The parameter formatters. Into a buffer with room, each formatter writes exactly the
  parameters the RPC method takes, as JSON: for keys of at most 44 characters (base58 of 32
  bytes) the client's fixed buffers of 128 and 256 bytes and its buffer of \<open>128 + 64 n\<close> bytes
  for \<open>n\<close> keys have that room.\<close>

theorem params_formatters_json:
  assumes "length pk \<le> 44" and "list_all (\<lambda>k. length k \<le> 44) ks"
    and "128 \<le> length small" and "256 \<le> length buf" and "128 + length ks * 64 \<le> length big"
    and "length tx + 112 \<le> length txbuf"
  shows "is_params (fmt_commitment_params small c) (JArr [] (ELast (commitment_obj c) [])) \<and>
    is_params (fmt_pubkey_commitment_params buf pk c) (pair_json (JStr pk) (commitment_obj c)) \<and>
    is_params (fmt_account_info_params buf pk c) (pair_json (JStr pk) (encoding_obj c)) \<and>
    is_params (fmt_multiple_accounts_params big ks c) (pair_json (str_array ks) (encoding_obj c)) \<and>
    (\<exists>r. fmt_send_tx_params txbuf tx opts = Ok r \<and>
       is_params r (pair_json (JStr tx) (send_opts_obj opts))) \<and>
    (str_body pk \<and> str_body tx \<and> list_all str_body ks \<longrightarrow>
       wf_json (pair_json (JStr pk) (encoding_obj c)) \<and>
       wf_json (pair_json (str_array ks) (encoding_obj c)) \<and>
       wf_json (pair_json (JStr tx) (send_opts_obj opts)))"
proof -
  have "length ks * (44 + 3) + 53 \<le> length big" using assms(5) by simp
  then have m: "is_params (fmt_multiple_accounts_params big ks c)
      (pair_json (str_array ks) (encoding_obj c))"
    by (rule multiple_accounts_params_json [OF assms(2)])
  have w: "str_body pk \<and> str_body tx \<and> list_all str_body ks \<longrightarrow>
       wf_json (pair_json (JStr pk) (encoding_obj c)) \<and>
       wf_json (pair_json (str_array ks) (encoding_obj c)) \<and>
       wf_json (pair_json (JStr tx) (send_opts_obj opts))"
    using params_wf by simp
  have "28 \<le> length small" "length pk + 32 \<le> length buf" "length pk + 52 \<le> length buf"
    using assms by auto
  then show ?thesis
    using m w commitment_params_json pubkey_params_json account_info_params_json
      send_tx_params_json [OF assms(6)] by blast
qed

theorem params_formatters_json_witness:
  "is_params (fmt_multiple_accounts_params (replicate 192 0) [ascii ''Key''] Confirmed)
     (pair_json (str_array [ascii ''Key'']) (encoding_obj Confirmed))"
  using params_formatters_json [of "ascii ''Key''" "[ascii ''Key'']" "replicate 128 0"
      "replicate 256 0" "replicate 192 0" "[]" "replicate 112 0" Confirmed default_send_opts]
  by (simp add: ascii_def)

text \<open>A transaction always fits its request. For any base64 encoder with the standard length,
  the \<open>sendTransaction\<close> parameters of a transaction of at most 1232 bytes fit the client's
  2048-byte parameter buffer, and the request with any id fits its 4096-byte request buffer.\<close>

theorem send_transaction_fits:
  fixes opts :: send_transaction_opts
  assumes "\<And>bs :: bytes. length (b64 bs) = 4 * ((length bs + 2) div 3)" and "length tx \<le> 1232"
  defines "p \<equiv> pair_json (JStr (b64 tx)) (send_opts_obj opts)"
  shows "(\<exists>r. fmt_send_tx_params (replicate 2048 0) (b64 tx) opts = Ok r \<and> is_params r p) \<and>
    (\<exists>w. serialize_request (replicate 4096 0) (ascii ''sendTransaction'') (render p) rid = Ok w \<and>
       content w = render (request_json rid (ascii ''sendTransaction'') p))"
proof -
  have "(length tx + 2) div 3 \<le> 411" using assms(2) by linarith
  then have b: "length (b64 tx) \<le> 1644" using assms(1) [of tx] by simp
  then have s: "length (b64 tx) + 112 \<le> length (replicate 2048 (0 :: u8))" by simp
  obtain r where r: "fmt_send_tx_params (replicate 2048 0) (b64 tx) opts = Ok r" "is_params r p"
    using send_tx_params_json [OF s, of opts] by (auto simp: p_def)
  have "length (render p) \<le> 2048" using b send_tx_length [of "b64 tx" opts] by (simp add: p_def)
  moreover have "length (dec (unat rid)) \<le> 20"
    using dec_length [of "unat rid" 20] unsigned_less [of rid, where 'a = nat] by simp
  ultimately have "length (concat (request_pieces rid (ascii ''sendTransaction'') (render p))) \<le> 4096"
    by (simp add: request_pieces_def ascii_def)
  then show ?thesis
    using r put_all_exact [of "[]" "replicate 4096 0" SerializeTooLarge
        "request_pieces rid (ascii ''sendTransaction'') (render p)"]
    by (simp add: serialize_request_put_all request_render)
qed

definition sample_b64 :: "bytes \<Rightarrow> bytes" where
  "sample_b64 bs = replicate (4 * ((length bs + 2) div 3)) 65"

theorem send_transaction_fits_witness:
  "\<exists>w. serialize_request (replicate 4096 0) (ascii ''sendTransaction'')
    (render (pair_json (JStr (sample_b64 [1, 2, 3])) (send_opts_obj default_send_opts))) 1 = Ok w"
  using send_transaction_fits [of sample_b64 "[1, 2, 3]" default_send_opts 1]
  by (auto simp: sample_b64_def)

end
