(* ===== verification/Rpc_Results_Props.thy ===== *)
theory Rpc_Results_Props
  imports Rpc_Results Json_Properties Rpc_Format_Props
begin

text \<open>
  Correctness of response parsing. The locale \<open>json_view\<close> is what the parsers use of the
  scanner: a relation between scanner states and values, member lookup and element access that
  respect it. Client facts are proved in the locale and used through its interpretation on
  \<open>points_at\<close>, \<open>field\<close> and \<open>json_index\<close>.
\<close>

section \<open>The interface of the scanner\<close>

locale json_view =
  fixes at :: "'s \<Rightarrow> json \<Rightarrow> bool"
    and get :: "bytes \<Rightarrow> 's \<Rightarrow> 's option scan_res"
    and elem :: "nat \<Rightarrow> 's \<Rightarrow> 's option scan_res"
  assumes get_law: "at s v \<Longrightarrow> wf_json v \<Longrightarrow>
      case map_of (obj_members v) k of
        None \<Rightarrow> get k s = Ok None
      | Some m \<Rightarrow> \<exists>s'. get k s = Ok (Some s') \<and> at s' m"
    and elem_law: "at s v \<Longrightarrow> wf_json v \<Longrightarrow>
      if i < length (arr_elems v) then \<exists>s'. elem i s = Ok (Some s') \<and> at s' (arr_elems v ! i)
      else elem i s = Ok None"
begin

lemma get_Some:
  assumes "at s v" and "wf_json v" and "map_of (obj_members v) k = Some m"
  obtains s' where "get k s = Ok (Some s')" and "at s' m"
  using get_law [OF assms(1,2), of k] assms(3) by auto

lemma get_None:
  "at s v \<Longrightarrow> wf_json v \<Longrightarrow> map_of (obj_members v) k = None \<Longrightarrow> get k s = Ok None"
  using get_law [of s v k] by auto

text \<open>A member that is read by an extractor.\<close>

lemma get_then:
  assumes "at s v" and "wf_json v" and "map_of (obj_members v) k = Some m"
    and "\<And>s'. at s' m \<Longrightarrow> f s' = Ok (Some r)"
  shows "scan_then (get k s) f = Ok (Some r)"
proof -
  obtain s' where "get k s = Ok (Some s')" "at s' m" by (rule get_Some [OF assms(1-3)])
  then show ?thesis using assms(4) by (simp add: scan_then_def)
qed

lemma elem_Some:
  assumes "at s v" and "wf_json v" and "i < length (arr_elems v)"
  obtains s' where "elem i s = Ok (Some s')" and "at s' (arr_elems v ! i)"
  using elem_law [OF assms(1,2), of i] assms(3) by auto

lemma elem_None:
  "at s v \<Longrightarrow> wf_json v \<Longrightarrow> length (arr_elems v) \<le> i \<Longrightarrow> elem i s = Ok None"
  using elem_law [of s v i] by auto

end

interpretation scan: json_view points_at field json_index
proof unfold_locales
  fix s v k assume "points_at s v" "wf_json v"
  then show "case map_of (obj_members v) k of None \<Rightarrow> field k s = Ok None
      | Some m \<Rightarrow> \<exists>s'. field k s = Ok (Some s') \<and> points_at s' m"
    using field_points_at [of s v k] by (auto simp: lookup_result_def split: option.splits)
next
  fix s v i assume "points_at s v" "wf_json v"
  then show "if i < length (arr_elems v)
      then \<exists>s'. json_index i s = Ok (Some s') \<and> points_at s' (arr_elems v ! i)
      else json_index i s = Ok None"
    using index_points_at [of s v i] by auto
qed

lemma member_wf:
  assumes "wf_json v" and "map_of (obj_members v) k = Some m"
  shows "wf_json m"
proof -
  have "wf_members ms \<Longrightarrow> (k, m) \<in> set (member_list ms) \<Longrightarrow> wf_json m" for ms
    by (induction ms rule: members_ind) auto
  then show ?thesis using assms by (cases v) (auto dest: map_of_SomeD)
qed

lemma elem_wf:
  assumes "wf_json v" and "i < length (arr_elems v)"
  shows "wf_json (arr_elems v ! i)"
proof -
  have "wf_elems es \<Longrightarrow> m \<in> set (elem_list es) \<Longrightarrow> wf_json m" for es m
    by (induction es rule: elems_ind) auto
  then show ?thesis using assms by (cases v) auto
qed

section \<open>Typed members\<close>

lemma scan_combinators [simp]:
  "scan_then (Ok (Some x)) f = f x" "scan_then (Ok None) f = Ok None"
  "scan_ok_or (Ok (Some x)) e = Ok x" "scan_ok_or (Ok None) e = Err e"
  "scan_or (Ok (Some x)) d = Ok x" "scan_or (Ok None) d = Ok d" "scan_lift (Ok y) = Ok y"
  by (simp_all add: scan_then_def scan_ok_or_def scan_or_def scan_lift_def)

lemma as_u64_points_at:
  assumes "points_at s (num n)" and "n < 2 ^ 53"
  shows "as_u64 s = Ok (Some (word_of_nat n))"
proof -
  have "as_f64 s = Ok (Some (round_f64 False n 1))"
    using as_f64_points_at [OF assms(1) wf_num] parse_f64_int [OF dec_not_Nil dec_digits]
    by (simp add: render_num dec_value del: render.simps)
  then show ?thesis using f64_as_u64_exact [OF assms(2)] by (simp add: as_u64_def)
qed

lemma member_u64:
  assumes "points_at s v" and "wf_json v" and "map_of (obj_members v) k = Some (num n)" and "n < 2 ^ 53"
  shows "scan_then (field k s) as_u64 = Ok (Some (word_of_nat n))"
  by (rule scan.get_then [OF assms(1-3)]) (rule as_u64_points_at [OF _ assms(4)])

lemma member_str:
  assumes "points_at s v" and "wf_json v" and m: "map_of (obj_members v) k = Some (JStr t)"
    and "utf8_valid t"
  shows "scan_then (field k s) as_str = Ok (Some t)"
proof -
  have "str_body t" using member_wf [OF assms(2) m] by simp
  then show ?thesis
    using as_str_points_at assms(4)
    by (intro scan.get_then [OF assms(1-3)]) (simp add: from_utf8_def)
qed


lemma member_int:
  assumes "points_at s v" and "wf_json v" and m: "map_of (obj_members v) k = Some (JNum neg ip None None)"
    and "digits_value ip < 2 ^ 63"
  shows "scan_then (field k s) as_i64 =
    Ok (Some (if neg then - int (digits_value ip) else int (digits_value ip)))"
proof -
  have wf: "wf_json (JNum neg ip None None)" using member_wf [OF assms(2) m] .
  have "int (digits_value ip) < int (2 ^ 63)" using assms(4) by (simp only: of_nat_less_iff)
  then show ?thesis
    using as_i64_points_at [OF _ wf]
    by (intro scan.get_then [OF assms(1-3)]) (auto simp: Let_def)
qed

lemma member_absent:
  assumes "points_at s v" and "wf_json v" and "map_of (obj_members v) k = None"
  shows "field k s = Ok None" and "scan_then (field k s) f = Ok None"
  using scan.get_None [OF assms] by simp_all

section \<open>Absence of panics\<close>

lemma no_panic_simps:
  "scan_ok_or m e = Panic \<longleftrightarrow> m = Panic \<or> (\<exists>x. m = Err x)"
  "scan_or m d = Panic \<longleftrightarrow> m = Panic \<or> (\<exists>x. m = Err x)"
  "scan_lift n = Panic \<longleftrightarrow> n = Panic \<or> (\<exists>x. n = Err x)"
  by (auto simp: scan_ok_or_def scan_or_def scan_lift_def split: res.splits option.splits)

text \<open>Outcomes of the scanner are never errors.\<close>

definition total :: "'a scan_res \<Rightarrow> bool" where
  "total m \<longleftrightarrow> (\<exists>x. m = Ok x)"

lemma total_Ok [simp]: "total (Ok x)" by (simp add: total_def)

lemma safe_scanD:
  assumes "safe_scan m" obtains r where "m = Ok r" and "\<And>s. r = Some s \<Longrightarrow> in_range s"
  using assms by (auto simp: safe_scan_def split: res.splits option.splits)

lemma total_combinators:
  "total m \<Longrightarrow> scan_ok_or m e \<noteq> Panic" "total m \<Longrightarrow> scan_or m d \<noteq> Panic"
  "total n \<Longrightarrow> scan_lift n \<noteq> Panic"
  by (auto simp: total_def scan_ok_or_def scan_or_def scan_lift_def split: option.splits)

lemma total_extract:
  assumes "in_range s"
  shows "total (as_str s)" "total (as_i64 s)" "total (as_f64 s)" "total (as_u64 s)" "total (as_u8 s)"
    "total (as_bool s)" "total (is_null s)"
proof -
  have noErr: "as_str s \<noteq> Err ()" "as_i64 s \<noteq> Err ()" "as_f64 s \<noteq> Err ()"
    by (auto simp: as_str_eq as_i64_def as_f64_def Let_def res_simps split: prod.splits if_splits)
  have ex: "m \<noteq> Panic \<Longrightarrow> m \<noteq> Err () \<Longrightarrow> total m" for m :: "'x scan_res"
    by (cases m) (auto simp: total_def)
  show "total (as_str s)" "total (as_i64 s)" "total (as_f64 s)"
    using noErr as_str_safe as_i64_safe [OF assms] as_f64_safe [OF assms] ex by blast+
  then show "total (as_u64 s)" "total (as_u8 s)" by (auto simp: total_def as_u64_def as_u8_def)
  show "total (as_bool s)" "total (is_null s)"
    using assms by (simp_all add: in_range_def as_bool_def is_null_def slice_to_end)
qed

lemma total_member:
  assumes "in_range s" and "\<And>s'. in_range s' \<Longrightarrow> total (f s')"
  shows "total (scan_then (field k s) f)"
  using field_safe [OF assms(1), of k] assms(2)
  by (auto elim!: safe_scanD simp: scan_then_def split: option.splits)

lemma bind_no_panic:
  "m \<noteq> Panic \<Longrightarrow> (\<And>x. m = Ok x \<Longrightarrow> f x \<noteq> Panic) \<Longrightarrow> res_bind m f \<noteq> Panic"
  by (cases m) auto

lemma member_in_range: "in_range s \<Longrightarrow> scan_ok_or (field k s) e = Ok s' \<Longrightarrow> in_range s'"
  using field_safe [of s k] by (auto elim!: safe_scanD simp: scan_ok_or_def split: option.splits)

lemma member_no_panic: "in_range s \<Longrightarrow> scan_ok_or (field k s) e \<noteq> Panic"
  using field_safe [of s k] by (auto elim!: safe_scanD simp: scan_ok_or_def split: option.splits)

lemmas no_panic_rules = bind_no_panic member_no_panic total_combinators total_member total_extract

lemma response_of_no_panic:
  assumes s: "in_range s"
  shows "response_of s \<noteq> Panic" and "response_of s = Ok r \<Longrightarrow> in_range r"
proof -
  have err: "response_error x \<noteq> Panic \<and> response_error x \<noteq> Ok (y :: json_scan)" if "in_range x" for x y
    unfolding response_error_def
    using that by (auto intro!: no_panic_rules simp: res_simps)
  obtain e where e: "field (ascii ''error'') s = Ok e" "\<And>x. e = Some x \<Longrightarrow> in_range x"
    using safe_scanD [OF field_safe [OF s, of "ascii ''error''"]] by metis
  show "response_of s \<noteq> Panic"
    using e err member_no_panic [OF s, of "ascii ''result''" "MissingField ''result''"]
    by (cases e) (auto simp: response_of_def)
  show "response_of s = Ok r \<Longrightarrow> in_range r"
    using e err member_in_range [OF s, of "ascii ''result''" "MissingField ''result''"]
    by (cases e) (auto simp: response_of_def split: if_splits)
qed

lemma item_in_range:
  assumes "iter_in_range it" and "iter_next it = Ok (item, it')"
  shows "iter_in_range it'" and "item = Some i \<Longrightarrow> in_range i"
  using iter_next_safe [OF assms(1)] assms(2) by auto

lemma account_data_no_panic: "in_range s \<Longrightarrow> parse_account_data cd s \<noteq> Panic"
proof (cases "array_iter s")
  case (Some it)
  then have it: "iter_in_range it" by (rule array_iter_safe)
  obtain i1 it1 where n1: "iter_next it = Ok (i1, it1)" "iter_in_range it1"
    "\<And>x. i1 = Some x \<Longrightarrow> in_range x"
    using iter_next_safe [OF it] by (metis safe_scan_simps(2))
  obtain i2 it2 where n2: "iter_next it1 = Ok (i2, it2)" "\<And>x. i2 = Some x \<Longrightarrow> in_range x"
    using iter_next_safe [OF n1(2)] by (metis safe_scan_simps(2))
  have t: "total (scan_then (Ok i) as_str)" if "\<And>x. i = Some x \<Longrightarrow> in_range x" for i
    using that total_extract(1) by (cases i) auto
  have eq: "parse_account_data cd s =
      res_bind (scan_ok_or (scan_then (Ok i1) as_str) (BadResponse ''data[0] is not a string''))
        (\<lambda>encoded. res_bind (scan_or (scan_then (Ok i2) as_str) (ascii ''base64'')) (\<lambda>encoding.
          if encoding = ascii ''base58''
          then Err (BadResponse ''base58 data encoding not supported; request base64'')
          else ok_or (b64_decode cd encoded) (BadResponse ''base64 decode failed'')))"
    using Some n1 n2 by (simp add: parse_account_data_def)
  show ?thesis
    unfolding eq by (intro bind_no_panic total_combinators t) (use n1(3) n2(2) in auto)
qed (simp add: parse_account_data_def)

lemma account_info_no_panic: "in_range s \<Longrightarrow> parse_account_info cd s \<noteq> Panic"
  unfolding parse_account_info_def
  by (intro no_panic_rules account_data_no_panic ok_or_not_Panic) (auto dest: member_in_range)

lemma iter_map_no_panic:
  "iter_in_range it \<Longrightarrow> (\<And>s. in_range s \<Longrightarrow> f s \<noteq> Panic) \<Longrightarrow> iter_map f it \<noteq> Panic"
proof (induction f it rule: iter_map.induct)
  case (1 f it)
  obtain item it' where n: "iter_next it = Ok (item, it')" "iter_in_range it'"
    "\<And>x. item = Some x \<Longrightarrow> in_range x"
    using iter_next_safe [OF "1.prems"(1)] by (metis safe_scan_simps(2))
  show ?case
  proof (cases item)
    case None
    then show ?thesis using n by (subst iter_map.simps) simp
  next
    case (Some i)
    have "iter_map f it' \<noteq> Panic" if "f i = Ok b" for b
      using "1.IH" [OF n(1) refl Some that] n(2) "1.prems"(2) by blast
    then show ?thesis
      using n Some "1.prems"(2) [of i] by (subst iter_map.simps) (auto simp: res_simps)
  qed
qed

lemma result_parsers_no_panic:
  assumes s: "in_range s"
  shows "parse_blockhash_result cd s \<noteq> Panic" and "parse_u64_result s \<noteq> Panic"
    and "parse_balance_result s \<noteq> Panic" and "parse_health_result s \<noteq> Panic"
    and "parse_version_result s \<noteq> Panic" and "parse_account_info_result cd s \<noteq> Panic"
    and "parse_multiple_accounts_result cd s \<noteq> Panic"
    and "parse_program_accounts_result cd s \<noteq> Panic" and "parse_token_balance_result s \<noteq> Panic"
proof -
  have acc: "res_bind (scan_lift (is_null x)) (\<lambda>null. if null then Ok None
      else res_bind (parse_account_info cd x) (\<lambda>a. Ok (Some a))) \<noteq> Panic" if "in_range x" for x
    using total_combinators(3) [OF total_extract(7) [OF that]] account_info_no_panic [OF that, of cd]
    by (auto simp: res_simps)
  show "parse_blockhash_result cd s \<noteq> Panic"
    unfolding parse_blockhash_result_def
    by (intro no_panic_rules ok_or_not_Panic s) (auto dest: member_in_range [OF s])
  show u: "parse_u64_result s \<noteq> Panic"
    unfolding parse_u64_result_def by (intro no_panic_rules s)
  show "parse_balance_result s \<noteq> Panic"
    using u unfolding parse_balance_result_def by (auto intro!: no_panic_rules s)
  show "parse_health_result s \<noteq> Panic"
    unfolding parse_health_result_def by (intro no_panic_rules s) simp
  show "parse_version_result s \<noteq> Panic"
    unfolding parse_version_result_def Let_def by (simp add: no_panic_rules s)
  show "parse_account_info_result cd s \<noteq> Panic"
    unfolding parse_account_info_result_def
    by (rule bind_no_panic [OF member_no_panic [OF s]]) (rule acc, rule member_in_range [OF s])
  show "parse_multiple_accounts_result cd s \<noteq> Panic"
    unfolding parse_multiple_accounts_result_def
    by (intro bind_no_panic member_no_panic s ok_or_not_Panic iter_map_no_panic acc)
      (auto dest: array_iter_safe)
  show "parse_program_accounts_result cd s \<noteq> Panic"
    unfolding parse_program_accounts_result_def
    by (intro no_panic_rules ok_or_not_Panic iter_map_no_panic account_info_no_panic)
      (auto dest: array_iter_safe member_in_range)
  show "parse_token_balance_result s \<noteq> Panic"
    unfolding parse_token_balance_result_def Let_def
    by (intro no_panic_rules ok_or_not_Panic s) (auto dest: member_in_range [OF s])
qed

section \<open>Documents\<close>

text \<open>What a response document means: its error, its result, or neither.\<close>

datatype rpc_outcome = OutError int bytes | OutResult json | OutMissing

definition is_obj :: "json \<Rightarrow> bool" where
  "is_obj v \<longleftrightarrow> (case v of JObj w ms \<Rightarrow> True | JObj0 w \<Rightarrow> True | _ \<Rightarrow> False)"

definition int_value :: "json \<Rightarrow> int option" where
  "int_value v = (case v of
     JNum neg ip None None \<Rightarrow>
       if digits_value ip < 2 ^ 63 then Some (if neg then - int (digits_value ip) else int (digits_value ip))
       else None
   | _ \<Rightarrow> None)"

definition str_value :: "json \<Rightarrow> bytes option" where
  "str_value v = (case v of JStr t \<Rightarrow> from_utf8 t | _ \<Rightarrow> None)"

text \<open>The error members an RPC server sends: an integer code and a text, or none.\<close>

definition error_members_ok :: "json \<Rightarrow> bool" where
  "error_members_ok e \<longleftrightarrow>
     (case map_of (obj_members e) (ascii ''code'') of None \<Rightarrow> True | Some c \<Rightarrow> int_value c \<noteq> None) \<and>
     (case map_of (obj_members e) (ascii ''message'') of None \<Rightarrow> True | Some m \<Rightarrow> str_value m \<noteq> None)"

definition error_of :: "json \<Rightarrow> rpc_outcome" where
  "error_of e = OutError
     (case map_of (obj_members e) (ascii ''code'') of None \<Rightarrow> - 1 | Some c \<Rightarrow> the (int_value c))
     (case map_of (obj_members e) (ascii ''message'') of None \<Rightarrow> ascii ''unknown error''
      | Some m \<Rightarrow> the (str_value m))"

definition outcome_of :: "json \<Rightarrow> rpc_outcome" where
  "outcome_of v =
     (case map_of (obj_members v) (ascii ''error'') of
        Some e \<Rightarrow> if is_obj e then error_of e
          else (case map_of (obj_members v) (ascii ''result'') of Some r \<Rightarrow> OutResult r | None \<Rightarrow> OutMissing)
      | None \<Rightarrow> (case map_of (obj_members v) (ascii ''result'') of Some r \<Rightarrow> OutResult r | None \<Rightarrow> OutMissing))"

definition outcome_matches :: "rpc_outcome \<Rightarrow> (json_scan, json_rpc_error) res \<Rightarrow> bool" where
  "outcome_matches out m \<longleftrightarrow>
     (case out of
        OutError c t \<Rightarrow> m = Err (RpcErr c t)
      | OutResult r \<Rightarrow> \<exists>s. m = Ok s \<and> points_at s r
      | OutMissing \<Rightarrow> m = Err (MissingField ''result''))"

lemma is_object_points_at: "points_at s v \<Longrightarrow> wf_json v \<Longrightarrow> is_object s = is_obj v"
  using points_at_peek(1) [of s v] render_hd_lbrace [of v]
  by (cases v) (auto simp: is_object_def is_obj_def simp del: peek_Some)

lemma response_error_points_at:
  assumes at: "points_at s e" and wf: "wf_json e" and ok: "error_members_ok e"
  shows "outcome_matches (error_of e) (response_error s)"
proof -
  have code: "scan_or (scan_then (field (ascii ''code'') s) as_i64) (- 1) =
      (Ok (case map_of (obj_members e) (ascii ''code'') of None \<Rightarrow> - 1 | Some c \<Rightarrow> the (int_value c))
       :: (int, json_rpc_error) res)"
  proof (cases "map_of (obj_members e) (ascii ''code'')")
    case (Some c)
    then obtain neg ip where c: "c = JNum neg ip None None" "digits_value ip < 2 ^ 63"
      using ok by (auto simp: error_members_ok_def int_value_def split: json.splits option.splits if_splits)
    then show ?thesis
      using member_int [OF at wf] Some by (simp add: int_value_def)
  qed (simp add: member_absent(2) [OF at wf])
  have msg: "scan_or (scan_then (field (ascii ''message'') s) as_str) (ascii ''unknown error'') =
      (Ok (case map_of (obj_members e) (ascii ''message'') of None \<Rightarrow> ascii ''unknown error''
      | Some m \<Rightarrow> the (str_value m)) :: (bytes, json_rpc_error) res)"
  proof (cases "map_of (obj_members e) (ascii ''message'')")
    case (Some m)
    then obtain t where t: "m = JStr t" "utf8_valid t"
      using ok by (auto simp: error_members_ok_def str_value_def from_utf8_def
          split: json.splits option.splits if_splits)
    then show ?thesis
      using member_str [OF at wf] Some by (simp add: str_value_def from_utf8_def)
  qed (simp add: member_absent(2) [OF at wf])
  show ?thesis
    by (simp add: outcome_matches_def error_of_def response_error_def code msg)
qed

lemma response_of_points_at:
  assumes at: "points_at s v" and wf: "wf_json v"
    and ok: "\<And>e. map_of (obj_members v) (ascii ''error'') = Some e \<Longrightarrow> is_obj e \<Longrightarrow> error_members_ok e"
  shows "outcome_matches (outcome_of v) (response_of s)"
proof -
  let ?res = "scan_ok_or (field (ascii ''result'') s) (MissingField ''result'')"
  have res: "outcome_matches (case map_of (obj_members v) (ascii ''result'') of
      Some r \<Rightarrow> OutResult r | None \<Rightarrow> OutMissing) ?res"
    using scan.get_law [OF at wf, of "ascii ''result''"]
    by (auto simp: outcome_matches_def split: option.splits)
  show ?thesis
  proof (cases "map_of (obj_members v) (ascii ''error'')")
    case None
    then show ?thesis
      using res member_absent(1) [OF at wf None] by (simp add: outcome_of_def response_of_def)
  next
    case (Some e)
    obtain se where se: "field (ascii ''error'') s = Ok (Some se)" "points_at se e"
      by (rule scan.get_Some [OF at wf Some])
    have we: "wf_json e" by (rule member_wf [OF wf Some])
    have obj: "is_object se = is_obj e" by (rule is_object_points_at [OF se(2) we])
    show ?thesis
      using res se obj Some response_error_points_at [OF se(2) we] ok [OF Some]
      by (simp add: outcome_of_def response_of_def)
  qed
qed


section \<open>Properties\<close>

text \<open>Response parsing is total. Whatever bytes a server sends, \<open>JsonRpcResponse::parse\<close>
  and the batch access return without a panic, and so does every typed result parser on what
  they return.\<close>

theorem response_parsing_never_panics:
  "response_parse body \<noteq> Panic \<and> batch_get body i \<noteq> Panic \<and>
   (\<forall>s. response_parse body = Ok s \<or> batch_get body i = Ok s \<longrightarrow>
      parse_blockhash_result cd s \<noteq> Panic \<and> parse_u64_result s \<noteq> Panic \<and>
      parse_balance_result s \<noteq> Panic \<and> parse_health_result s \<noteq> Panic \<and>
      parse_version_result s \<noteq> Panic \<and> parse_account_info_result cd s \<noteq> Panic \<and>
      parse_multiple_accounts_result cd s \<noteq> Panic \<and> parse_program_accounts_result cd s \<noteq> Panic \<and>
      parse_token_balance_result s \<noteq> Panic)"
proof -
  note new = response_of_no_panic [OF json_new_in_range [of body]]
  obtain r where r: "json_index i (json_new body) = Ok r" "\<And>x. r = Some x \<Longrightarrow> in_range x"
    using safe_scanD [OF index_safe [of i "json_new body"]] by metis
  have b: "batch_get body i \<noteq> Panic" "\<And>s. batch_get body i = Ok s \<Longrightarrow> in_range s"
    using r response_of_no_panic
    by (cases r; auto simp: batch_get_def parse_batch_item_def)+
  have "in_range s" if "response_parse body = Ok s \<or> batch_get body i = Ok s" for s
    using that new(2) b(2) by (auto simp: response_parse_def)
  then show ?thesis
    using new(1) b(1) result_parsers_no_panic by (simp add: response_parse_def)
qed

theorem response_parsing_never_panics_witness:
  "response_parse (ascii ''{\"result\":[1,'') \<noteq> Panic \<and>
   (\<exists>s. response_parse (ascii ''{\"result\":[1,'') = Ok s \<and> parse_u64_result s \<noteq> Panic)"
proof -
  have "\<exists>s. response_parse (ascii ''{\"result\":[1,'') = Ok s"
  proof -
    have "(case response_parse (ascii ''{\"result\":[1,'') of Ok s \<Rightarrow> True | _ \<Rightarrow> False)" by code_simp
    then show ?thesis by (auto split: res.splits)
  qed
  then show ?thesis using response_parsing_never_panics by metis
qed

text \<open>C25: response parsing is right on JSON documents. A response with an error object yields
  that error's code and message (with the defaults when absent), one with a result
  and no error object yields a scanner at the result, anything else the missing-field error;
  entry \<open>i\<close> of a batch response is parsed the same way, and an index past the end is an
  error.\<close>

theorem response_parse_correct:
  assumes "wf_json v" and "all_ws w" and "all_ws w'"
    and "\<And>e. map_of (obj_members v) (ascii ''error'') = Some e \<Longrightarrow> is_obj e \<Longrightarrow> error_members_ok e"
    and "wf_json arr" and "i < length (arr_elems arr) \<Longrightarrow> arr_elems arr ! i = v"
  shows "outcome_matches (outcome_of v) (response_parse (w @ render v @ w')) \<and>
    (if i < length (arr_elems arr)
     then outcome_matches (outcome_of v) (batch_get (w @ render arr @ w') i)
     else batch_get (w @ render arr @ w') i = Err (MissingField ''batch index''))"
proof -
  have at: "points_at (json_new (w @ render v @ w')) v"
    and arr: "points_at (json_new (w @ render arr @ w')) arr"
    using json_new_points_at assms by auto
  have r: "outcome_matches (outcome_of v) (response_parse (w @ render v @ w'))"
    unfolding response_parse_def by (rule response_of_points_at [OF at assms(1,4)])
  show ?thesis
  proof (cases "i < length (arr_elems arr)")
    case True
    obtain s where s: "json_index i (json_new (w @ render arr @ w')) = Ok (Some s)"
      "points_at s (arr_elems arr ! i)" by (rule scan.elem_Some [OF arr assms(5) True])
    then have "points_at s v" using assms(6) True by simp
    then show ?thesis
      using r True s(1) response_of_points_at [OF _ assms(1,4)]
      by (simp add: batch_get_def parse_batch_item_def)
  next
    case False
    then show ?thesis
      using r scan.elem_None [OF arr assms(5), of i] by (simp add: batch_get_def)
  qed
qed

definition sample_error :: json where
  "sample_error = JObj [] (MLast (ascii ''error'') [] []
     (JObj [] (MCons (ascii ''code'') [] [] (JNum True [51, 50] None None) [] []
       (MLast (ascii ''message'') [] [] (JStr (ascii ''bad'')) []))) [])"

theorem response_parse_correct_witness:
  "response_parse (render sample_error) = Err (RpcErr (- 32) (ascii ''bad'')) \<and>
   batch_get (render (JArr [] (ELast sample_error []))) 0 = Err (RpcErr (- 32) (ascii ''bad''))"
proof -
  have wf: "wf_json sample_error" "wf_json (JArr [] (ELast sample_error []))" by code_simp+
  note eval = sample_error_def ascii_def is_obj_def error_of_def int_value_def str_value_def
    digits_value_def from_utf8_def
  have out: "outcome_of sample_error = OutError (- 32) (ascii ''bad'')"
    by (simp add: outcome_of_def eval)
  have ok: "map_of (obj_members sample_error) (ascii ''error'') = Some e \<Longrightarrow> error_members_ok e" for e
    by (auto simp: error_members_ok_def eval)
  show ?thesis
    using response_parse_correct [OF wf(1), of "[]" "[]" "JArr [] (ELast sample_error [])" 0]
      wf(2) ok out by (auto simp: outcome_matches_def)
qed





text \<open>Integers below \<open>2^53\<close> are exact. A JSON integer below \<open>2^53\<close> passes through the
  client's \<open>f64\<close> conversion unchanged: \<open>parse_u64_result\<close>, \<open>parse_balance_result\<close> (bare or as
  \<open>value\<close>) and \<open>result_u64\<close> return it.\<close>

theorem u64_results_exact:
  assumes "points_at s (num n)" and "n < 2 ^ 53"
    and "points_at t v" and "wf_json v" and "map_of (obj_members v) (ascii ''value'') = Some (num n)"
  shows "parse_u64_result s = Ok (word_of_nat n) \<and> parse_balance_result s = Ok (word_of_nat n) \<and>
    result_u64 s = Ok (word_of_nat n) \<and> parse_balance_result t = Ok (word_of_nat n)"
proof -
  have u: "as_u64 s = Ok (Some (word_of_nat n))" by (rule as_u64_points_at [OF assms(1,2)])
  have "\<not> is_object s" using is_object_points_at [OF assms(1) wf_num] by (simp add: is_obj_def)
  moreover have "is_object t"
    using is_object_points_at [OF assms(3,4)] assms(5) by (cases v) (auto simp: is_obj_def)
  ultimately show ?thesis
    using u member_u64 [OF assms(3-5,2)]
    by (simp add: parse_u64_result_def parse_balance_result_def result_u64_def)
qed

theorem u64_results_exact_witness:
  "parse_u64_result (json_new (render (num 12))) = Ok 12"
proof -
  have at: "points_at (json_new (render (num 12))) (num 12)"
    using json_new_points_at [of "[]" "[]", OF _ _ wf_num [of 12]] by simp
  let ?v = "JObj [] (MLast (ascii ''value'') [] [] (num 12) [])"
  have wf: "wf_json ?v" using wf_num [of 12] by (simp add: ascii_def)
  have t: "points_at (json_new (render ?v)) ?v"
    using json_new_points_at [of "[]" "[]", OF _ _ wf] by simp
  show ?thesis using u64_results_exact [OF at _ t wf] by simp
qed

end
