(* ===== verification/Rpc_Findings.thy ===== *)
theory Rpc_Findings
  imports Rpc_Results_Props
begin

text \<open>
  Concrete inputs on which the RPC client does not do what its callers expect, evaluated on the
  model.
\<close>

text \<open>The batch entry for several accounts is not JSON when the keys do not fit. The
  entry's parameter buffer has 256 bytes and the results of the writes are ignored: for six keys
  of 44 characters the part that does not fit is left out silently, and what is sent as
  parameters is no JSON value.\<close>

theorem batch_multiple_accounts_malformed:
  "\<exists>p. skip_value (entry_params (entry_get_multiple_accounts (\<lambda>k. replicate 44 65)
      (replicate 6 []) Confirmed)) 0 = Ok (False, p)"
proof -
  have "(case skip_value (entry_params (entry_get_multiple_accounts (\<lambda>k. replicate 44 65)
      (replicate 6 []) Confirmed)) 0 of Ok (b, p) \<Rightarrow> \<not> b | _ \<Rightarrow> False)"
    by code_simp
  then show ?thesis by (auto split: res.splits prod.splits)
qed

text \<open>Larger integers are rounded. Results above \<open>2^53\<close> go through \<open>f64\<close> and lose
  their low bits: the balance \<open>9007199254740993\<close> is returned as \<open>9007199254740992\<close>.\<close>

theorem u64_results_rounded:
  "parse_u64_result (json_new (ascii ''9007199254740993'')) = Ok 9007199254740992"
proof -
  let ?ip = "ascii ''9007199254740993''"
  let ?v = "JNum False ?ip None None"
  have wf: "wf_json ?v" by code_simp
  have r: "render ?v = ?ip" by (simp add: render_frac_def render_exp_def)
  have at: "points_at (json_new (render ?v)) ?v"
    using json_new_points_at [of "[]" "[]", OF _ _ wf] by simp
  have v: "digits_value ?ip = 9007199254740993" by (simp add: digits_value_def ascii_def)
  have bl: "bit_len 9007199254740993 = 54" by (simp add: bit_len.simps)
  have "as_f64 (json_new (render ?v)) = Ok (Some (round_f64 False 9007199254740993 1))"
    using as_f64_points_at [OF at wf] parse_f64_int [of ?ip] wf unfolding r v by simp
  moreover have "round_f64 False 9007199254740993 1 = F64 False 4503599627370496 1"
    by (simp add: round_f64_def f64_exponent_def bl bit_len_1 scale2_def round_half_even_def Let_def)
  ultimately show ?thesis
    unfolding r by (simp add: parse_u64_result_def as_u64_def f64_as_u64_def)
qed

end
