(* ===== verification/Rpc_Http.thy ===== *)
theory Rpc_Http
  imports Rpc_Results "HOL-Library.Sublist"
begin

text \<open>
  The transport of the RPC client: \<open>PumpResult\<close> and \<open>Connection\<close> of \<open>fd_rpc/src/io.rs\<close>
  and \<open>write_request\<close>, \<open>read_response\<close>, \<open>read_chunked_body\<close> and \<open>try_parse_headers\<close> of
  \<open>fd_rpc/src/http.rs\<close>.

  The C side (\<open>fd_rpc_io\<close> with its socket, TLS and ring buffers, and the HTTP parser and
  chunk decoder of picohttpparser) is a parameter, the record \<open>io_lib\<close> over an opaque
  connection type. What the network does is an input: a list of one entry per call of
  \<open>pump\<close>, the event it meets and the clock reading after it. The loops recurse over that
  list; \<open>None\<close> means that the code is still waiting when the list ends.
\<close>

section \<open>The C interface\<close>

type_synonym http_header = "bytes option \<times> bytes"

record ('c, 'e, 'd) io_lib =
  lib_new :: "nat \<Rightarrow> nat \<Rightarrow> 'c option"
  lib_connect :: "u32 \<Rightarrow> u16 \<Rightarrow> bool \<Rightarrow> bytes option \<Rightarrow> 'c \<Rightarrow> int \<times> 'c"
  lib_err :: "'c \<Rightarrow> int"
  lib_pump :: "'e \<Rightarrow> 'c \<Rightarrow> u32 \<times> 'c"
  lib_state :: "'c \<Rightarrow> int"
  lib_rx_used :: "'c \<Rightarrow> nat"
  lib_rx_pop :: "nat \<Rightarrow> 'c \<Rightarrow> bytes \<times> 'c"
  lib_tx_free :: "'c \<Rightarrow> nat"
  lib_tx_push :: "bytes \<Rightarrow> 'c \<Rightarrow> 'c"
  phr_parse_response :: "bytes \<Rightarrow> nat \<Rightarrow> int \<times> int \<times> http_header list"
  phr_chunk_decoder :: 'd
  phr_decode_chunked :: "'d \<Rightarrow> bytes \<Rightarrow> int \<times> 'd \<times> bytes \<times> nat"

text \<open>The flags of \<open>fd_rpc_io.h\<close>.\<close>

definition pump_flag :: "nat \<Rightarrow> u32 \<Rightarrow> bool" where
  "pump_flag k flags \<longleftrightarrow> odd (unat flags div 2 ^ k)"

record pump_result =
  pr_connected :: bool
  pr_rx_data :: bool
  pr_tx_drain :: bool
  pr_error :: bool
  pr_closed :: bool

definition pump_from_flags :: "u32 \<Rightarrow> pump_result" where
  "pump_from_flags flags =
     \<lparr>pr_connected = pump_flag 0 flags, pr_rx_data = pump_flag 1 flags,
      pr_tx_drain = pump_flag 2 flags, pr_error = pump_flag 3 flags,
      pr_closed = pump_flag 4 flags\<rparr>"

section \<open>Connection\<close>

definition conn_with_buf_sz :: "('c, 'e, 'd) io_lib \<Rightarrow> nat \<Rightarrow> nat \<Rightarrow> ('c, 'x) res" where
  "conn_with_buf_sz lib rx_bufsz tx_bufsz =
     (case lib_new lib rx_bufsz tx_bufsz of Some c \<Rightarrow> Ok c | None \<Rightarrow> Panic)"

definition conn_new :: "('c, 'e, 'd) io_lib \<Rightarrow> ('c, 'x) res" where
  "conn_new lib = conn_with_buf_sz lib 65536 65536"

text \<open>\<open>CString::new\<close> refuses a name that contains a zero byte.\<close>

definition conn_connect ::
  "('c, 'e, 'd) io_lib \<Rightarrow> u32 \<Rightarrow> u16 \<Rightarrow> bool \<Rightarrow> bytes option \<Rightarrow> 'c \<Rightarrow> (unit, io_error) res \<times> 'c" where
  "conn_connect lib addr port use_tls hostname c =
     (if (case hostname of Some h \<Rightarrow> 0 \<in> set h | None \<Rightarrow> False) then (Err (ConnectFailed 0), c)
      else let (rc, c') = lib_connect lib addr port use_tls hostname c
           in if rc < 0 then (Err (ConnectFailed (lib_err lib c')), c') else (Ok (), c'))"

definition conn_pump :: "('c, 'e, 'd) io_lib \<Rightarrow> 'e \<Rightarrow> 'c \<Rightarrow> pump_result \<times> 'c" where
  "conn_pump lib e c = (let (flags, c') = lib_pump lib e c in (pump_from_flags flags, c'))"

definition conn_is_ready :: "('c, 'e, 'd) io_lib \<Rightarrow> 'c \<Rightarrow> bool" where
  "conn_is_ready lib c \<longleftrightarrow> lib_state lib c = 3"

definition conn_tx_push :: "('c, 'e, 'd) io_lib \<Rightarrow> bytes \<Rightarrow> 'c \<Rightarrow> 'c" where
  "conn_tx_push lib data c = lib_tx_push lib data c"

text \<open>\<open>rx_pop(&mut buf[at..])\<close>: the number of bytes copied, and the buffer after it.\<close>

definition conn_rx_pop ::
  "('c, 'e, 'd) io_lib \<Rightarrow> bytes \<Rightarrow> nat \<Rightarrow> 'c \<Rightarrow> (nat \<times> bytes \<times> 'c, 'x) res" where
  "conn_rx_pop lib buf at c =
     (if length buf < at then Panic
      else let n = min (lib_rx_used lib c) (length buf - at)
           in if n > 0
              then let (bs, c') = lib_rx_pop lib n c in Ok (n, blit buf at bs, c')
              else Ok (n, buf, c))"

section \<open>Requests\<close>

definition write_request ::
  "('c, 'e, 'd) io_lib \<Rightarrow> bytes \<Rightarrow> bytes \<Rightarrow> bytes \<Rightarrow> bytes \<Rightarrow> bytes \<Rightarrow> 'c
   \<Rightarrow> (unit, http_error) res \<times> 'c" where
  "write_request lib method path host content_type body c =
     (case fmt_request_header (replicate 512 0) method path host content_type
             (word_of_nat (length body)) of
        Ok w \<Rightarrow>
          (let hdr_len = bw_pos w; free = lib_tx_free lib c; tot = hdr_len + length body
           in if tot > free then (Err RequestTooLarge, c)
              else let c1 = conn_tx_push lib (take hdr_len (bw_buf w)) c;
                       c2 = (if body \<noteq> [] then conn_tx_push lib body c1 else c1)
                   in (Ok (), c2))
      | Err _ \<Rightarrow> (Err RequestTooLarge, c)
      | Panic \<Rightarrow> (Panic, c))"

section \<open>Response headers\<close>

record header_info =
  header_len :: nat
  hi_status :: u16
  content_length :: "u64 option"
  is_chunked :: bool

datatype header_result = Complete header_info | Incomplete | Error

definition eq_ignore_ascii_case :: "bytes \<Rightarrow> bytes \<Rightarrow> bool" where
  "eq_ignore_ascii_case a b \<longleftrightarrow> map ascii_lower a = map ascii_lower b"

text \<open>
  \<open>str::trim\<close> removes the characters with the Unicode property \<open>White_Space\<close>; here are
  their encodings.
\<close>

definition unicode_ws :: "bytes list" where
  "unicode_ws = [[9], [10], [11], [12], [13], [32], [0xC2, 0x85], [0xC2, 0xA0], [0xE1, 0x9A, 0x80]] @
     map (\<lambda>k. [0xE2, 0x80, 0x80 + word_of_nat k]) [0..<11] @
     [[0xE2, 0x80, 0xA8], [0xE2, 0x80, 0xA9], [0xE2, 0x80, 0xAF], [0xE2, 0x81, 0x9F],
      [0xE3, 0x80, 0x80]]"

text \<open>The number of bytes of the white space character \<open>s\<close> starts with, 0 if none.\<close>

definition ws_len :: "bytes list \<Rightarrow> bytes \<Rightarrow> nat" where
  "ws_len pats s = (case find (\<lambda>p. take (length p) s = p) pats of Some p \<Rightarrow> length p | None \<Rightarrow> 0)"

function strip :: "bytes list \<Rightarrow> bytes \<Rightarrow> bytes" where
  "strip pats s = (if s = [] \<or> ws_len pats s = 0 then s else strip pats (drop (ws_len pats s) s))"
  by pat_completeness auto
termination by (relation "measure (\<lambda>(pats, s). length s)") auto

declare strip.simps [simp del]

definition str_trim :: "bytes \<Rightarrow> bytes" where
  "str_trim s = rev (strip (map rev unicode_ws) (rev (strip unicode_ws s)))"

text \<open>The loop over the parsed headers: later ones override earlier ones.\<close>

fun scan_headers :: "http_header list \<Rightarrow> u64 option \<Rightarrow> bool \<Rightarrow> u64 option \<times> bool" where
  "scan_headers [] cl ch = (cl, ch)"
| "scan_headers ((name, val) # hs) cl ch =
     (case name of
        None \<Rightarrow> scan_headers hs cl ch
      | Some n \<Rightarrow>
          if eq_ignore_ascii_case n (ascii ''content-length'') then
            (case from_utf8 val of
               Some s \<Rightarrow> scan_headers hs (parse_u64 (str_trim s)) ch
             | None \<Rightarrow> scan_headers hs cl ch)
          else if eq_ignore_ascii_case n (ascii ''transfer-encoding'') then
            (case from_utf8 val of
               Some s \<Rightarrow> scan_headers hs cl (eq_ignore_ascii_case (str_trim s) (ascii ''chunked''))
             | None \<Rightarrow> scan_headers hs cl ch)
          else scan_headers hs cl ch)"

definition try_parse_headers :: "('c, 'e, 'd) io_lib \<Rightarrow> bytes \<Rightarrow> nat \<Rightarrow> nat \<Rightarrow> header_result" where
  "try_parse_headers lib buf filled last_len =
     (let (rc, status, headers) = phr_parse_response lib (take filled buf) last_len
      in if rc = - 2 then Incomplete
         else if rc < 0 then Error
         else let (cl, ch) = scan_headers headers None False
              in Complete \<lparr>header_len = nat rc, hi_status = word_of_int status,
                           content_length = cl, is_chunked = ch\<rparr>)"

section \<open>Responses\<close>

type_synonym ('a, 'c, 'e) reading = "(('a, http_error) res \<times> bytes \<times> 'c \<times> ('e \<times> u64) list \<times> u64) option"

text \<open>\<open>timeout_ns >= 0 && (monotonic_ns() - start) as i64 >= timeout_ns\<close>\<close>

definition timed_out :: "int \<Rightarrow> u64 \<Rightarrow> u64 \<Rightarrow> bool" where
  "timed_out timeout_ns start now \<longleftrightarrow> 0 \<le> timeout_ns \<and> timeout_ns \<le> sint (now - start)"

text \<open>The first loop of \<open>read_response\<close>.\<close>

fun read_headers ::
  "('c, 'e, 'd) io_lib \<Rightarrow> int \<Rightarrow> u64 \<Rightarrow> bytes \<Rightarrow> nat \<Rightarrow> 'c \<Rightarrow> ('e \<times> u64) list
   \<Rightarrow> (header_info \<times> nat, 'c, 'e) reading" where
  "read_headers lib tmo start scratch filled c [] = None"
| "read_headers lib tmo start scratch filled c ((e, t) # tr) =
     (let (r, c1) = conn_pump lib e c
      in if pr_closed r \<or> pr_error r then Some (Err ConnectionClosed, scratch, c1, tr, t)
         else case conn_rx_pop lib scratch filled c1 of
           Ok (n, scratch1, c2) \<Rightarrow>
             if n > 0 then
               (let prev = filled; filled1 = filled + n
                in case try_parse_headers lib scratch1 filled1 prev of
                     Complete info \<Rightarrow> Some (Ok (info, filled1), scratch1, c2, tr, t)
                   | Error \<Rightarrow> Some (Err ResponseMalformed, scratch1, c2, tr, t)
                   | Incomplete \<Rightarrow>
                       if filled1 \<ge> length scratch1
                       then Some (Err ResponseTooLarge, scratch1, c2, tr, t)
                       else read_headers lib tmo start scratch1 filled1 c2 tr)
             else if timed_out tmo start t then Some (Err ResponseIncomplete, scratch1, c2, tr, t)
             else read_headers lib tmo start scratch1 filled c2 tr
         | Err e \<Rightarrow> Some (Err e, scratch, c1, tr, t)
         | Panic \<Rightarrow> Some (Panic, scratch, c1, tr, t))"

text \<open>The loop \<open>while filled < total\<close>.\<close>

fun read_body ::
  "('c, 'e, 'd) io_lib \<Rightarrow> int \<Rightarrow> u64 \<Rightarrow> nat \<Rightarrow> bytes \<Rightarrow> nat \<Rightarrow> 'c \<Rightarrow> u64 \<Rightarrow> ('e \<times> u64) list
   \<Rightarrow> (unit, 'c, 'e) reading" where
  "read_body lib tmo start tot scratch filled c now [] =
     (if filled < tot then None else Some (Ok (), scratch, c, [], now))"
| "read_body lib tmo start tot scratch filled c now ((e, t) # tr) =
     (if \<not> filled < tot then Some (Ok (), scratch, c, (e, t) # tr, now)
      else let (r, c1) = conn_pump lib e c
      in if pr_closed r \<or> pr_error r then Some (Err ConnectionClosed, scratch, c1, tr, t)
         else case conn_rx_pop lib scratch filled c1 of
           Ok (n, scratch1, c2) \<Rightarrow>
             if n > 0 then read_body lib tmo start tot scratch1 (filled + n) c2 t tr
             else if timed_out tmo start t then Some (Err ResponseIncomplete, scratch1, c2, tr, t)
             else read_body lib tmo start tot scratch1 filled c2 t tr
         | Err e \<Rightarrow> Some (Err e, scratch, c1, tr, t)
         | Panic \<Rightarrow> Some (Panic, scratch, c1, tr, t))"

text \<open>\<open>Vec::resize(n, 0)\<close> panics when \<open>n\<close> exceeds \<open>isize::MAX\<close>.\<close>

definition vec_resize :: "bytes \<Rightarrow> nat \<Rightarrow> (bytes, 'x) res" where
  "vec_resize v n = (if n \<ge> 2 ^ 63 then Panic else Ok (take n v @ replicate (n - length v) 0))"

text \<open>One call of \<open>phr_decode_chunked\<close> on \<open>n\<close> bytes at offset \<open>at\<close>.\<close>

definition decode_at ::
  "('c, 'e, 'd) io_lib \<Rightarrow> 'd \<Rightarrow> bytes \<Rightarrow> nat \<Rightarrow> nat \<Rightarrow> int \<times> 'd \<times> bytes \<times> nat" where
  "decode_at lib d scratch at n =
     (let (pret, d', buf, bufsz) = phr_decode_chunked lib d (take n (drop at scratch))
      in (pret, d', blit scratch at buf, bufsz))"

text \<open>The loop of \<open>read_chunked_body\<close>.\<close>

fun read_chunks ::
  "('c, 'e, 'd) io_lib \<Rightarrow> int \<Rightarrow> u64 \<Rightarrow> nat \<Rightarrow> 'd \<Rightarrow> bytes \<Rightarrow> nat \<Rightarrow> 'c \<Rightarrow> ('e \<times> u64) list
   \<Rightarrow> (nat, 'c, 'e) reading" where
  "read_chunks lib tmo start body_start d scratch decoded c [] = None"
| "read_chunks lib tmo start body_start d scratch decoded c ((e, t) # tr) =
     (let (r, c1) = conn_pump lib e c
      in if pr_closed r \<or> pr_error r then Some (Err ConnectionClosed, scratch, c1, tr, t)
         else let write_at = body_start + decoded
         in case (if length scratch < write_at then Panic
                  else if length scratch - write_at < 4096
                  then vec_resize scratch (length scratch * 2) else Ok scratch) of
           Ok scratch0 \<Rightarrow>
             (case conn_rx_pop lib scratch0 write_at c1 of
                Ok (n, scratch1, c2) \<Rightarrow>
                  if n > 0 then
                    (let (pret, d', scratch2, bufsz) = decode_at lib d scratch1 write_at n
                     in if pret \<ge> 0 then Some (Ok (decoded + bufsz), scratch2, c2, tr, t)
                        else if pret = - 1 then Some (Err ResponseMalformed, scratch2, c2, tr, t)
                        else read_chunks lib tmo start body_start d' scratch2 (decoded + bufsz) c2 tr)
                  else if timed_out tmo start t
                  then Some (Err ResponseIncomplete, scratch1, c2, tr, t)
                  else read_chunks lib tmo start body_start d scratch1 decoded c2 tr
              | Err e \<Rightarrow> Some (Err e, scratch0, c1, tr, t)
              | Panic \<Rightarrow> Some (Panic, scratch0, c1, tr, t))
         | Err e \<Rightarrow> Some (Err e, scratch, c1, tr, t)
         | Panic \<Rightarrow> Some (Panic, scratch, c1, tr, t))"

definition reading_map :: "('a \<Rightarrow> 'b) \<Rightarrow> ('a, 'c, 'e) reading \<Rightarrow> ('b, 'c, 'e) reading" where
  "reading_map f m = map_option (\<lambda>(r, rest). (res_bind r (\<lambda>x. Ok (f x)), rest)) m"

definition read_chunked_body ::
  "('c, 'e, 'd) io_lib \<Rightarrow> int \<Rightarrow> u64 \<Rightarrow> header_info \<Rightarrow> bytes \<Rightarrow> nat \<Rightarrow> 'c \<Rightarrow> u64 \<Rightarrow> ('e \<times> u64) list
   \<Rightarrow> (u16 \<times> nat \<times> nat, 'c, 'e) reading" where
  "read_chunked_body lib tmo start info scratch filled c now tr =
     (let body_start = header_len info; initial_raw = filled - body_start;
          d = phr_chunk_decoder lib;
          result = (\<lambda>decoded. (hi_status info, body_start, decoded))
      in if filled < body_start then Some (Panic, scratch, c, tr, now)
         else if initial_raw > 0 then
           (let (pret, d', scratch1, bufsz) = decode_at lib d scratch body_start initial_raw
            in if pret \<ge> 0 then Some (Ok (result bufsz), scratch1, c, tr, now)
               else if pret = - 1 then Some (Err ResponseMalformed, scratch1, c, tr, now)
               else reading_map result (read_chunks lib tmo start body_start d' scratch1 bufsz c tr))
         else reading_map result (read_chunks lib tmo start body_start d scratch 0 c tr))"

text \<open>\<open>header_len + cl\<close> wraps at the width of \<open>usize\<close>.\<close>

definition read_sized_body ::
  "('c, 'e, 'd) io_lib \<Rightarrow> int \<Rightarrow> u64 \<Rightarrow> header_info \<Rightarrow> u64 \<Rightarrow> bytes \<Rightarrow> nat \<Rightarrow> 'c \<Rightarrow> u64
   \<Rightarrow> ('e \<times> u64) list \<Rightarrow> (u16 \<times> nat \<times> nat, 'c, 'e) reading" where
  "read_sized_body lib tmo start info cl scratch filled c now tr =
     (let tot = (header_len info + unat cl) mod 2 ^ 64
      in case (if tot > length scratch then vec_resize scratch tot else Ok scratch) of
           Ok scratch1 \<Rightarrow>
             reading_map (\<lambda>_. (hi_status info, header_len info, unat cl))
               (read_body lib tmo start tot scratch1 filled c now tr)
         | Err e \<Rightarrow> Some (Err e, scratch, c, tr, now)
         | Panic \<Rightarrow> Some (Panic, scratch, c, tr, now))"

definition read_response ::
  "('c, 'e, 'd) io_lib \<Rightarrow> bytes \<Rightarrow> int \<Rightarrow> 'c \<Rightarrow> u64 \<Rightarrow> ('e \<times> u64) list
   \<Rightarrow> (u16 \<times> nat \<times> nat, 'c, 'e) reading" where
  "read_response lib scratch tmo c start tr =
     (case read_headers lib tmo start scratch 0 c tr of
        Some (Ok (info, filled), scratch1, c1, tr1, now) \<Rightarrow>
          (case content_length info of
             Some cl \<Rightarrow> read_sized_body lib tmo start info cl scratch1 filled c1 now tr1
           | None \<Rightarrow>
               if is_chunked info
               then read_chunked_body lib tmo start info scratch1 filled c1 now tr1
               else if filled < header_len info then Some (Panic, scratch1, c1, tr1, now)
               else Some (Ok (hi_status info, header_len info, filled - header_len info),
                          scratch1, c1, tr1, now))
      | Some (Err e, rest) \<Rightarrow> Some (Err e, rest)
      | Some (Panic, rest) \<Rightarrow> Some (Panic, rest)
      | None \<Rightarrow> None)"

end
