(* ===== verification/Rpc_Client.thy ===== *)
theory Rpc_Client
  imports Rpc_Http
begin

text \<open>
  \<open>SolanaRpcClient\<close> of \<open>fd_rpc/src/solana.rs\<close> and \<open>resolve_host\<close> of \<open>utils.rs\<close>: connecting,
  waiting for the connection, sending a request and receiving its response, the retry loop,
  and every method of the client. The URL parser (C) and name resolution (operating system)
  are parameters, like the transport; durations slept are recorded in the world.
\<close>

section \<open>URLs and name resolution\<close>

record url_parsed =
  u_scheme :: bytes
  u_host :: bytes
  u_port :: bytes
  u_tail :: bytes

datatype socket_addr = V4 "bytes" | V6 "bytes"

record os_lib =
  fd_url_parse :: "bytes \<Rightarrow> url_parsed option"
  to_socket_addrs :: "bytes \<Rightarrow> socket_addr list option"

record url_parts =
  up_host :: bytes
  up_host_len :: nat
  up_port :: u16
  up_path :: bytes
  up_path_len :: nat
  up_use_tls :: bool

text \<open>\<open>u32::from_ne_bytes\<close> on a little-endian machine.\<close>

fun from_le_bytes :: "bytes \<Rightarrow> u32" where
  "from_le_bytes [] = 0"
| "from_le_bytes (b # bs) = word_of_nat (unat b) + 256 * from_le_bytes bs"

fun first_v4 :: "socket_addr list \<Rightarrow> u32 option" where
  "first_v4 [] = None"
| "first_v4 (V4 ip # as) = Some (from_le_bytes ip)"
| "first_v4 (V6 ip # as) = first_v4 as"

definition resolve_host :: "os_lib \<Rightarrow> bytes \<Rightarrow> u32 option" where
  "resolve_host os host =
     (case to_socket_addrs os (host @ ascii '':0'') of Some addrs \<Rightarrow> first_v4 addrs | None \<Rightarrow> None)"

definition default_port :: "bool \<Rightarrow> u16" where
  "default_port use_tls = (if use_tls then 443 else 80)"

text \<open>The part of \<open>connect\<close> that fills \<open>UrlParts\<close>: host and path are cut at 255 bytes.\<close>

definition url_parts_of :: "url_parsed \<Rightarrow> url_parts" where
  "url_parts_of u =
     (let scheme = u_scheme u;
          use_tls = (length scheme \<ge> 5 \<and> eq_ignore_ascii_case (take 5 scheme) (ascii ''https''));
          host_len = min (length (u_host u)) 255;
          host = blit (replicate 256 0) 0 (take host_len (u_host u));
          port = (if u_port u \<noteq> []
                  then (case from_utf8 (u_port u) of
                          Some s \<Rightarrow> (case parse_u16 s of Some p \<Rightarrow> p | None \<Rightarrow> default_port use_tls)
                        | None \<Rightarrow> 0)
                  else default_port use_tls);
          path_len = (if u_tail u \<noteq> [] then min (length (u_tail u)) 255 else 1);
          path = (if u_tail u \<noteq> [] then blit (replicate 256 0) 0 (take path_len (u_tail u))
                  else (replicate 256 0)[0 := 47])
      in \<lparr>up_host = host, up_host_len = host_len, up_port = port, up_path = path,
          up_path_len = path_len, up_use_tls = use_tls\<rparr>)"

definition host_bytes :: "url_parts \<Rightarrow> bytes" where
  "host_bytes u = take (up_host_len u) (up_host u)"

section \<open>Client state\<close>

record 'c client =
  cl_conn :: 'c
  cl_next_id :: u64
  cl_url :: url_parts
  cl_addr :: u32
  cl_timeout_ns :: int
  cl_scratch :: bytes

datatype sleep = Micros nat | Millis nat

record 'e world =
  trace :: "('e \<times> u64) list"
  clock :: u64
  slept :: "sleep list"

type_synonym ('a, 'c, 'e) run = "(('a, rpc_error) res \<times> 'c client \<times> 'e world) option"

definition run_bind ::
  "('a, 'c, 'e) run \<Rightarrow> ('a \<Rightarrow> 'c client \<Rightarrow> 'e world \<Rightarrow> ('b, 'c, 'e) run) \<Rightarrow> ('b, 'c, 'e) run" where
  "run_bind m f =
     (case m of
        None \<Rightarrow> None
      | Some (Ok x, cl, w) \<Rightarrow> f x cl w
      | Some (Err e, cl, w) \<Rightarrow> Some (Err e, cl, w)
      | Some (Panic, cl, w) \<Rightarrow> Some (Panic, cl, w))"

section \<open>Connecting\<close>

text \<open>The loop of \<open>wait_ready\<close>.\<close>

fun wait_ready_loop ::
  "('c, 'e, 'd) io_lib \<Rightarrow> int \<Rightarrow> u64 \<Rightarrow> 'c client \<Rightarrow> sleep list \<Rightarrow> ('e \<times> u64) list
   \<Rightarrow> (unit, 'c, 'e) run" where
  "wait_ready_loop lib tmo start cl sl [] = None"
| "wait_ready_loop lib tmo start cl sl ((e, t) # tr) =
     (let (r, c1) = conn_pump lib e (cl_conn cl);
          cl1 = cl\<lparr>cl_conn := c1\<rparr>;
          w = \<lparr>trace = tr, clock = t, slept = sl\<rparr>
      in if conn_is_ready lib c1 then Some (Ok (), cl1, w)
         else if pr_error r \<or> pr_closed r then Some (Err ConnectionNotReady, cl1, w)
         else if tmo \<le> sint (t - start) then Some (Err Timeout, cl1, w)
         else wait_ready_loop lib tmo start cl1 (sl @ [Micros 100]) tr)"

definition wait_ready :: "('c, 'e, 'd) io_lib \<Rightarrow> 'c client \<Rightarrow> 'e world \<Rightarrow> (unit, 'c, 'e) run" where
  "wait_ready lib cl w = wait_ready_loop lib (cl_timeout_ns cl) (clock w) cl (slept w) (trace w)"

definition client_connect ::
  "('c, 'e, 'd) io_lib \<Rightarrow> os_lib \<Rightarrow> bytes \<Rightarrow> 'e world
   \<Rightarrow> (('c client, rpc_error) res \<times> 'e world) option" where
  "client_connect lib os url_str w =
     (case fd_url_parse os url_str of
        None \<Rightarrow> Some (Err (BadResponse ''invalid URL''), w)
      | Some parsed \<Rightarrow>
          (let url = url_parts_of parsed;
               hostname = from_utf8 (host_bytes url)
           in case resolve_host os (case hostname of Some h \<Rightarrow> h | None \<Rightarrow> []) of
                None \<Rightarrow> Some (Err (BadResponse ''DNS resolution failed''), w)
              | Some addr \<Rightarrow>
                  (case conn_new lib of
                     Ok c \<Rightarrow>
                       (case conn_connect lib addr (up_port url) (up_use_tls url) hostname c of
                          (Ok _, c1) \<Rightarrow>
                            (case wait_ready lib \<lparr>cl_conn = c1, cl_next_id = 1, cl_url = url,
                                   cl_addr = addr, cl_timeout_ns = 30000000000,
                                   cl_scratch = replicate 65536 0\<rparr> w of
                               None \<Rightarrow> None
                             | Some (r, cl, w1) \<Rightarrow> Some (res_bind r (\<lambda>_. Ok cl), w1))
                        | (Err e, _) \<Rightarrow> Some (Err (Io e), w)
                        | (Panic, _) \<Rightarrow> Some (Panic, w))
                   | Err e \<Rightarrow> Some (Err e, w)
                   | Panic \<Rightarrow> Some (Panic, w))))"

definition set_timeout_ns :: "int \<Rightarrow> 'c client \<Rightarrow> 'c client" where
  "set_timeout_ns ns cl = cl\<lparr>cl_timeout_ns := ns\<rparr>"

definition reconnect :: "('c, 'e, 'd) io_lib \<Rightarrow> 'c client \<Rightarrow> 'e world \<Rightarrow> (unit, 'c, 'e) run" where
  "reconnect lib cl w =
     (case conn_new lib of
        Ok c \<Rightarrow>
          (let url = cl_url cl; hostname = from_utf8 (host_bytes url)
           in case conn_connect lib (cl_addr cl) (up_port url) (up_use_tls url) hostname c of
                (Ok _, c1) \<Rightarrow> wait_ready lib (cl\<lparr>cl_conn := c1\<rparr>) w
              | (Err e, _) \<Rightarrow> Some (Err (Io e), cl, w)
              | (Panic, _) \<Rightarrow> Some (Panic, cl, w))
      | Err e \<Rightarrow> Some (Err e, cl, w)
      | Panic \<Rightarrow> Some (Panic, cl, w))"

section \<open>Requests\<close>

definition url_path :: "url_parts \<Rightarrow> bytes" where
  "url_path u = (case from_utf8 (take (up_path_len u) (up_path u)) of Some s \<Rightarrow> s | None \<Rightarrow> ascii ''/'')"

definition url_host :: "url_parts \<Rightarrow> bytes" where
  "url_host u = (case from_utf8 (host_bytes u) of Some s \<Rightarrow> s | None \<Rightarrow> ascii ''localhost'')"

text \<open>
  The part \<open>send_and_recv\<close> and \<open>batch\<close> share: the request is written, the response read into
  the scratch buffer, and its status checked.
\<close>

definition exchange :: "('c, 'e, 'd) io_lib \<Rightarrow> bytes \<Rightarrow> 'c client \<Rightarrow> 'e world \<Rightarrow> (nat \<times> nat, 'c, 'e) run" where
  "exchange lib req cl w =
     (case write_request lib (ascii ''POST'') (url_path (cl_url cl)) (url_host (cl_url cl))
             (ascii ''application/json'') req (cl_conn cl) of
        (Ok _, c1) \<Rightarrow>
          (case read_response lib (cl_scratch cl) (cl_timeout_ns cl) c1 (clock w) (trace w) of
             None \<Rightarrow> None
           | Some (r, scratch1, c2, tr, t) \<Rightarrow>
               (let cl1 = cl\<lparr>cl_conn := c2, cl_scratch := scratch1\<rparr>;
                    w1 = w\<lparr>trace := tr, clock := t\<rparr>
                in case r of
                     Ok (status, body_offset, body_len) \<Rightarrow>
                       if status \<noteq> 200 then Some (Err (Http (BadStatus status)), cl1, w1)
                       else Some (Ok (body_offset, body_len), cl1, w1)
                   | Err e \<Rightarrow> Some (Err (Http e), cl1, w1)
                   | Panic \<Rightarrow> Some (Panic, cl1, w1)))
      | (Err e, c1) \<Rightarrow> Some (Err (Http e), cl\<lparr>cl_conn := c1\<rparr>, w)
      | (Panic, c1) \<Rightarrow> Some (Panic, cl\<lparr>cl_conn := c1\<rparr>, w))"

definition send_and_recv ::
  "('c, 'e, 'd) io_lib \<Rightarrow> bytes \<Rightarrow> bytes \<Rightarrow> 'c client \<Rightarrow> 'e world \<Rightarrow> (nat \<times> nat, 'c, 'e) run" where
  "send_and_recv lib method params cl w =
     (let (rid, n') = next_id (cl_next_id cl); cl0 = cl\<lparr>cl_next_id := n'\<rparr>
      in case serialize_request (replicate 4096 0) method params rid of
           Ok b \<Rightarrow> exchange lib (take (bw_pos b) (bw_buf b)) cl0 w
         | Err e \<Rightarrow> Some (Err (JsonRpc e), cl0, w)
         | Panic \<Rightarrow> Some (Panic, cl0, w))"

text \<open>One turn of the loop of \<open>call\<close> before its result is looked at.\<close>

definition call_attempt ::
  "('c, 'e, 'd) io_lib \<Rightarrow> bytes \<Rightarrow> bytes \<Rightarrow> 'c client \<Rightarrow> 'e world \<Rightarrow> (nat \<times> nat, 'c, 'e) run" where
  "call_attempt lib method params cl w =
     (case send_and_recv lib method params cl w of
        Some (Err (Http ConnectionClosed), cl1, w1) \<Rightarrow>
          run_bind (reconnect lib cl1 w1) (\<lambda>_ cl2 w2. send_and_recv lib method params cl2 w2)
      | other \<Rightarrow> other)"

definition backoff_ms :: "nat \<Rightarrow> nat" where
  "backoff_ms attempt = push_bit (min attempt 4) 200"

fun call_loop ::
  "('c, 'e, 'd) io_lib \<Rightarrow> bytes \<Rightarrow> bytes \<Rightarrow> nat list \<Rightarrow> 'c client \<Rightarrow> 'e world \<Rightarrow> (json_scan, 'c, 'e) run" where
  "call_loop lib method params [] cl w = Some (Panic, cl, w)"
| "call_loop lib method params (attempt # attempts) cl w =
     (case call_attempt lib method params cl w of
        None \<Rightarrow> None
      | Some (Ok (offset, len), cl1, w1) \<Rightarrow>
          Some (res_bind (slice (cl_scratch cl1) offset (offset + len))
                  (\<lambda>body. map_err JsonRpc (response_parse body)), cl1, w1)
      | Some (Err e, cl1, w1) \<Rightarrow>
          if e = Http (BadStatus 429) \<and> attempt < 5
          then call_loop lib method params attempts cl1
                 (w1\<lparr>slept := slept w1 @ [Millis (backoff_ms attempt)]\<rparr>)
          else Some (Err e, cl1, w1)
      | Some (Panic, cl1, w1) \<Rightarrow> Some (Panic, cl1, w1))"

definition call ::
  "('c, 'e, 'd) io_lib \<Rightarrow> bytes \<Rightarrow> bytes \<Rightarrow> 'c client \<Rightarrow> 'e world \<Rightarrow> (json_scan, 'c, 'e) run" where
  "call lib method params cl w = call_loop lib method params [0..<6] cl w"

definition call_with ::
  "('c, 'e, 'd) io_lib \<Rightarrow> string \<Rightarrow> bytes \<times> nat \<Rightarrow> (json_scan \<Rightarrow> ('a, rpc_error) res) \<Rightarrow> 'c client
   \<Rightarrow> 'e world \<Rightarrow> ('a, 'c, 'e) run" where
  "call_with lib method p parse cl w =
     run_bind (call lib (ascii method) (take (snd p) (fst p)) cl w) (\<lambda>resp cl1 w1. Some (parse resp, cl1, w1))"

section \<open>Methods\<close>

definition zeros :: "nat \<Rightarrow> bytes" where
  "zeros n = replicate n 0"

definition get_latest_blockhash ::
  "('c, 'e, 'd) io_lib \<Rightarrow> rpc_codecs \<Rightarrow> commitment \<Rightarrow> 'c client \<Rightarrow> 'e world \<Rightarrow> (blockhash_result, 'c, 'e) run" where
  "get_latest_blockhash lib cd cm =
     call_with lib ''getLatestBlockhash'' (fmt_commitment_params (zeros 128) cm) (parse_blockhash_result cd)"

definition get_balance ::
  "('c, 'e, 'd) io_lib \<Rightarrow> (bytes \<Rightarrow> bytes) \<Rightarrow> bytes \<Rightarrow> commitment \<Rightarrow> 'c client \<Rightarrow> 'e world \<Rightarrow> (u64, 'c, 'e) run" where
  "get_balance lib b58 pubkey cm =
     call_with lib ''getBalance'' (fmt_pubkey_commitment_params (zeros 256) (b58 pubkey) cm)
       parse_balance_result"

text \<open>The base64 text is checked to be UTF-8; the signature is 64 bytes in base58.\<close>

definition send_transaction ::
  "('c, 'e, 'd) io_lib \<Rightarrow> (bytes \<Rightarrow> bytes) \<Rightarrow> (bytes \<Rightarrow> bytes option) \<Rightarrow> bytes \<Rightarrow> send_transaction_opts
   \<Rightarrow> 'c client \<Rightarrow> 'e world \<Rightarrow> (bytes, 'c, 'e) run" where
  "send_transaction lib b64 b58_decode_64 tx_bytes opts cl w =
     (case from_utf8 (b64 tx_bytes) of
        None \<Rightarrow> Some (Err (BadResponse ''base64 encode produced invalid utf8''), cl, w)
      | Some encoded_str \<Rightarrow>
          (case fmt_send_tx_params (zeros 2048) encoded_str opts of
             Ok p \<Rightarrow>
               call_with lib ''sendTransaction'' p
                 (\<lambda>resp. res_bind (map_err JsonRpc (result_string resp)) (\<lambda>sig_str.
                    ok_or (b58_decode_64 sig_str) Base58DecodeFailed)) cl w
           | _ \<Rightarrow> Some (Panic, cl, w)))"

definition get_transaction_count ::
  "('c, 'e, 'd) io_lib \<Rightarrow> commitment \<Rightarrow> 'c client \<Rightarrow> 'e world \<Rightarrow> (u64, 'c, 'e) run" where
  "get_transaction_count lib cm =
     call_with lib ''getTransactionCount'' (fmt_commitment_params (zeros 128) cm) parse_u64_result"

definition get_slot ::
  "('c, 'e, 'd) io_lib \<Rightarrow> commitment \<Rightarrow> 'c client \<Rightarrow> 'e world \<Rightarrow> (u64, 'c, 'e) run" where
  "get_slot lib cm =
     call_with lib ''getSlot'' (fmt_commitment_params (zeros 128) cm) parse_u64_result"

definition get_block_height ::
  "('c, 'e, 'd) io_lib \<Rightarrow> commitment \<Rightarrow> 'c client \<Rightarrow> 'e world \<Rightarrow> (u64, 'c, 'e) run" where
  "get_block_height lib cm =
     call_with lib ''getBlockHeight'' (fmt_commitment_params (zeros 128) cm) parse_u64_result"

definition get_health :: "('c, 'e, 'd) io_lib \<Rightarrow> 'c client \<Rightarrow> 'e world \<Rightarrow> (unit, 'c, 'e) run" where
  "get_health lib = call_with lib ''getHealth'' (ascii ''[]'', 2) parse_health_result"

definition get_version :: "('c, 'e, 'd) io_lib \<Rightarrow> 'c client \<Rightarrow> 'e world \<Rightarrow> (version_result, 'c, 'e) run" where
  "get_version lib = call_with lib ''getVersion'' (ascii ''[]'', 2) parse_version_result"

definition get_account_info ::
  "('c, 'e, 'd) io_lib \<Rightarrow> rpc_codecs \<Rightarrow> (bytes \<Rightarrow> bytes) \<Rightarrow> bytes \<Rightarrow> commitment \<Rightarrow> 'c client \<Rightarrow> 'e world
   \<Rightarrow> (account_info option, 'c, 'e) run" where
  "get_account_info lib cd b58 pubkey cm =
     call_with lib ''getAccountInfo'' (fmt_account_info_params (zeros 256) (b58 pubkey) cm)
       (parse_account_info_result cd)"

definition get_multiple_accounts ::
  "('c, 'e, 'd) io_lib \<Rightarrow> rpc_codecs \<Rightarrow> (bytes \<Rightarrow> bytes) \<Rightarrow> bytes list \<Rightarrow> commitment \<Rightarrow> 'c client \<Rightarrow> 'e world
   \<Rightarrow> (account_info option list, 'c, 'e) run" where
  "get_multiple_accounts lib cd b58 pubkeys cm =
     call_with lib ''getMultipleAccounts''
       (fmt_multiple_accounts_params (zeros (128 + length pubkeys * 64)) (map b58 pubkeys) cm)
       (parse_multiple_accounts_result cd)"

definition get_program_accounts ::
  "('c, 'e, 'd) io_lib \<Rightarrow> rpc_codecs \<Rightarrow> (bytes \<Rightarrow> bytes) \<Rightarrow> bytes \<Rightarrow> commitment \<Rightarrow> 'c client \<Rightarrow> 'e world
   \<Rightarrow> ((bytes \<times> account_info) list, 'c, 'e) run" where
  "get_program_accounts lib cd b58 program_id cm =
     call_with lib ''getProgramAccounts'' (fmt_account_info_params (zeros 256) (b58 program_id) cm)
       (parse_program_accounts_result cd)"

definition get_token_account_balance ::
  "('c, 'e, 'd) io_lib \<Rightarrow> (bytes \<Rightarrow> bytes) \<Rightarrow> bytes \<Rightarrow> commitment \<Rightarrow> 'c client \<Rightarrow> 'e world
   \<Rightarrow> (token_balance, 'c, 'e) run" where
  "get_token_account_balance lib b58 pubkey cm =
     call_with lib ''getTokenAccountBalance''
       (fmt_pubkey_commitment_params (zeros 256) (b58 pubkey) cm) parse_token_balance_result"

text \<open>The result of a batch is the body of the response, handed to \<open>BatchResults\<close>.\<close>

definition client_batch ::
  "('c, 'e, 'd) io_lib \<Rightarrow> batch_entry list \<Rightarrow> 'c client \<Rightarrow> 'e world \<Rightarrow> (bytes, 'c, 'e) run" where
  "client_batch lib entries cl w =
     (let (r, n') = serialize_batch (zeros 8192) entries (cl_next_id cl); cl0 = cl\<lparr>cl_next_id := n'\<rparr>
      in case r of
           Ok b \<Rightarrow>
             run_bind (exchange lib (take (bw_pos b) (bw_buf b)) cl0 w) (\<lambda>(offset, len) cl1 w1.
               Some (slice (cl_scratch cl1) offset (offset + len), cl1, w1))
         | Err e \<Rightarrow> Some (Err (JsonRpc e), cl0, w)
         | Panic \<Rightarrow> Some (Panic, cl0, w))"

end
