(* ===== verification/Rpc_Http_Props.thy ===== *)
theory Rpc_Http_Props
  imports Rpc_Http Rpc_Results_Props
begin

text \<open>
  What the transport guarantees over any connection that delivers the server's bytes in
  order: the locale \<open>tcp_conn\<close> states the laws of the C side, its lemmas carry the
  loops of \<open>read_response\<close>, and the theorems are stated for every such connection.
\<close>

section \<open>Responses and deadlines\<close>

text \<open>
  The documented behaviour of the header parser on a response that starts with the header
  block \<open>hdr\<close>: it asks for more until it has all of it (\<open>-2\<close>), and then returns its length,
  whatever follows. \<open>last_len\<close> is the number of bytes of an earlier call that had too few, 0 at first.
\<close>

definition response_head :: "('c, 'e, 'd) io_lib \<Rightarrow> bytes \<Rightarrow> int \<Rightarrow> http_header list \<Rightarrow> bool" where
  "response_head lib hdr status headers \<longleftrightarrow> hdr \<noteq> [] \<and>
     (\<forall>buf last_len. strict_prefix buf hdr \<longrightarrow> last_len < length buf \<longrightarrow>
        fst (phr_parse_response lib buf last_len) = - 2) \<and>
     (\<forall>buf last_len. prefix hdr buf \<longrightarrow> last_len < length hdr \<longrightarrow>
        phr_parse_response lib buf last_len = (int (length hdr), status, headers))"

definition head_info :: "bytes \<Rightarrow> int \<Rightarrow> http_header list \<Rightarrow> header_info" where
  "head_info hdr status headers =
     (let (cl, ch) = scan_headers headers None False
      in \<lparr>header_len = length hdr, hi_status = word_of_int status, content_length = cl,
          is_chunked = ch\<rparr>)"

text \<open>The number of pumps after which the clock is past the deadline.\<close>

definition late :: "int \<Rightarrow> u64 \<Rightarrow> ('e \<times> u64) list \<Rightarrow> nat" where
  "late tmo start tr = length (filter (\<lambda>(e, t). timed_out tmo start t) tr)"

lemma late_simps [simp]:
  "late tmo start [] = 0"
  "late tmo start ((e, t) # tr) = (if timed_out tmo start t then Suc (late tmo start tr) else late tmo start tr)"
  by (auto simp: late_def)

text \<open>
  The documented behaviour of the chunk decoder on the encoding \<open>enc\<close> of \<open>body\<close>, however it is
  cut into pieces: after \<open>k\<close> bytes it is in state \<open>st k\<close> and has put out \<open>dcd k\<close>; it rewrites
  each piece in place and reports the end (a result that is not negative) at the last byte.
\<close>

definition chunk_run ::
  "('c, 'e, 'd) io_lib \<Rightarrow> bytes \<Rightarrow> bytes \<Rightarrow> (nat \<Rightarrow> 'd) \<Rightarrow> (nat \<Rightarrow> bytes) \<Rightarrow> bool" where
  "chunk_run lib enc body st dcd \<longleftrightarrow>
     enc \<noteq> [] \<and> st 0 = phr_chunk_decoder lib \<and> dcd 0 = [] \<and> dcd (length enc) = body \<and>
     (\<forall>i j. i < j \<and> j \<le> length enc \<longrightarrow>
        (\<exists>pret buf k. phr_decode_chunked lib (st i) (take (j - i) (drop i enc)) = (pret, st j, buf, k) \<and>
           length buf = j - i \<and> k \<le> j - i \<and> dcd j = dcd i @ take k buf \<and>
           (if j = length enc then 0 \<le> pret else pret = - 2)))"

lemma chunk_run_step:
  assumes "chunk_run lib enc body st dcd" and "i < j" and "j \<le> length enc"
  obtains pret buf k where
    "phr_decode_chunked lib (st i) (take (j - i) (drop i enc)) = (pret, st j, buf, k)"
    and "length buf = j - i" and "k \<le> j - i" and "dcd j = dcd i @ take k buf"
    and "if j = length enc then 0 \<le> pret else pret = - 2"
  using assms unfolding chunk_run_def by blast

lemma chunk_run_length: "chunk_run lib enc body st dcd \<Longrightarrow> k \<le> length enc \<Longrightarrow> length (dcd k) \<le> k"
proof (cases "k = 0")
  case False
  assume "chunk_run lib enc body st dcd" and k: "k \<le> length enc"
  moreover from this obtain buf m where "length buf = k" and "dcd k = dcd 0 @ take m buf"
    using False chunk_run_step [of lib enc body st dcd 0 k] by (metis diff_zero gr0I)
  ultimately show ?thesis by (simp add: chunk_run_def)
qed (simp add: chunk_run_def)

lemma decode_at_step:
  assumes "chunk_run lib enc body st dcd" and "0 < n" and "k + n \<le> length enc"
    and "bs + length (dcd k) + n \<le> length scratch"
    and "take n (drop (bs + length (dcd k)) scratch) = take n (drop k enc)"
    and "take (length (dcd k)) (drop bs scratch) = dcd k"
  obtains pret scratch' m where
    "decode_at lib (st k) scratch (bs + length (dcd k)) n = (pret, st (k + n), scratch', m)"
    and "length scratch' = length scratch" and "length (dcd k) + m = length (dcd (k + n))"
    and "m \<le> n"
    and "take (length (dcd (k + n))) (drop bs scratch') = dcd (k + n)"
    and "if k + n = length enc then 0 \<le> pret else pret = - 2"
proof -
  let ?at = "bs + length (dcd k)"
  obtain pret buf m where
    d: "phr_decode_chunked lib (st k) (take n (drop k enc)) = (pret, st (k + n), buf, m)"
    and len: "length buf = n" and m: "m \<le> n" and dcd: "dcd (k + n) = dcd k @ take m buf"
    and pret: "if k + n = length enc then 0 \<le> pret else pret = - 2"
    using chunk_run_step [OF assms(1), of k "k + n"] assms(2,3) by auto
  have "drop bs (blit scratch ?at buf) =
      take (length (dcd k)) (drop bs scratch) @ buf @ drop (?at + n) scratch"
    using assms(4) by (simp add: blit_def len drop_take)
  then have "take (length (dcd (k + n))) (drop bs (blit scratch ?at buf)) = dcd (k + n)"
    using m len by (simp add: assms(6) dcd)
  then show thesis
    using that [of pret "blit scratch ?at buf" m] d len m assms(4) pret
    by (simp add: decode_at_def assms(5) dcd)
qed

lemma try_parse_short:
  "response_head lib hdr st hs \<Longrightarrow> strict_prefix (take k buf) hdr \<Longrightarrow> l < k \<Longrightarrow> k \<le> length buf \<Longrightarrow>
   try_parse_headers lib buf k l = Incomplete"
  by (auto simp: response_head_def try_parse_headers_def Let_def split: prod.splits)
    (metis fst_conv length_take min.absorb2)+

lemma try_parse_whole:
  "response_head lib hdr st hs \<Longrightarrow> prefix hdr (take k buf) \<Longrightarrow> l < length hdr \<Longrightarrow>
   try_parse_headers lib buf k l = Complete (head_info hdr st hs)"
  by (auto simp: response_head_def try_parse_headers_def head_info_def Let_def split: prod.splits)

section \<open>How a reading fails\<close>

text \<open>
  The reading consumed the trace up to \<open>tr'\<close>, and its last pump, which ended in \<open>c'\<close>, reported that the connection was closed
  or failed.
\<close>

definition closed_by :: "('c, 'e, 'd) io_lib \<Rightarrow> ('e \<times> u64) list \<Rightarrow> 'c \<Rightarrow> ('e \<times> u64) list \<Rightarrow> bool" where
  "closed_by lib tr c' tr' \<longleftrightarrow>
     (\<exists>used e t c r. tr = used @ (e, t) # tr' \<and> conn_pump lib e c = (r, c') \<and> (pr_closed r \<or> pr_error r))"

lemma closed_by_now: "conn_pump lib e c = (r, c') \<Longrightarrow> pr_closed r \<or> pr_error r \<Longrightarrow> closed_by lib ((e, t) # tr') c' tr'"
  unfolding closed_by_def by (metis append_Nil)

lemma closed_by_later: "closed_by lib tr c' tr' \<Longrightarrow> closed_by lib (ev # tr) c' tr'"
  unfolding closed_by_def by (metis append_Cons)

text \<open>What the two errors of a connection say: the last pump saw it close, or it came after the deadline.\<close>

definition fails_as ::
  "('c, 'e, 'd) io_lib \<Rightarrow> int \<Rightarrow> u64 \<Rightarrow> ('e \<times> u64) list \<Rightarrow> ('a, http_error) res \<times> bytes \<times> 'c \<times> ('e \<times> u64) list \<times> u64 \<Rightarrow> bool" where
  "fails_as lib tmo start tr = (\<lambda>(r, scratch', c', tr', now).
     (r = Err ConnectionClosed \<longrightarrow> closed_by lib tr c' tr') \<and> (r = Err ResponseIncomplete \<longrightarrow> timed_out tmo start now))"

lemma fails_as_simps [simp]:
  "fails_as lib tmo start tr (Ok x, rest)" "fails_as lib tmo start tr (Panic, rest)"
  "fails_as lib tmo start tr (Err e, scratch', c', tr', now) \<longleftrightarrow>
     (e = ConnectionClosed \<longrightarrow> closed_by lib tr c' tr') \<and> (e = ResponseIncomplete \<longrightarrow> timed_out tmo start now)"
  by (auto simp: fails_as_def split: prod.splits)

lemma fails_as_later: "fails_as lib tmo start tr m \<Longrightarrow> fails_as lib tmo start (ev # tr) m"
  by (auto simp: fails_as_def closed_by_later)

lemma conn_rx_pop_not_Err [simp]: "conn_rx_pop lib buf at c \<noteq> Err e"
  by (simp add: conn_rx_pop_def Let_def split: prod.splits)

lemma vec_resize_not_Err [simp]: "vec_resize v n \<noteq> Err e"
  by (simp add: vec_resize_def)

lemma read_headers_fails:
  "read_headers lib tmo start scratch filled c tr = Some m \<Longrightarrow> fails_as lib tmo start tr m"
proof (induction tr arbitrary: scratch filled c)
  case (Cons ev tr)
  obtain e t where ev: "ev = (e, t)" by fastforce
  obtain p c1 where pump: "conn_pump lib e c = (p, c1)" by fastforce
  show ?case
  proof (cases "pr_closed p \<or> pr_error p")
    case True
    then show ?thesis using Cons.prems pump closed_by_now [OF pump] by (auto simp: ev)
  next
    case False
    then show ?thesis
      using Cons.prems pump by (auto simp: ev Let_def dest!: Cons.IH intro: fails_as_later split: res.splits header_result.splits if_splits)
  qed
qed simp

lemma read_body_fails:
  "read_body lib tmo start tot scratch filled c now tr = Some m \<Longrightarrow> fails_as lib tmo start tr m"
proof (induction tr arbitrary: scratch filled c now)
  case (Cons ev tr)
  obtain e t where ev: "ev = (e, t)" by fastforce
  obtain p c1 where pump: "conn_pump lib e c = (p, c1)" by fastforce
  show ?case
  proof (cases "pr_closed p \<or> pr_error p")
    case True
    then show ?thesis using Cons.prems pump closed_by_now [OF pump] by (auto simp: ev split: if_splits)
  next
    case False
    then show ?thesis
      using Cons.prems pump by (auto simp: ev Let_def dest!: Cons.IH intro: fails_as_later split: res.splits if_splits)
  qed
qed (auto split: if_splits)

lemma read_chunks_fails:
  "read_chunks lib tmo start bs d scratch decoded c tr = Some m \<Longrightarrow> fails_as lib tmo start tr m"
proof (induction tr arbitrary: d scratch decoded c)
  case (Cons ev tr)
  obtain e t where ev: "ev = (e, t)" by fastforce
  obtain p c1 where pump: "conn_pump lib e c = (p, c1)" by fastforce
  show ?case
  proof (cases "pr_closed p \<or> pr_error p")
    case True
    then show ?thesis using Cons.prems pump closed_by_now [OF pump] by (auto simp: ev)
  next
    case False
    then show ?thesis
      using Cons.prems pump by (auto simp: ev Let_def dest!: Cons.IH intro: fails_as_later split: res.splits if_splits prod.splits)
  qed
qed simp

lemma reading_map_fails:
  "(\<And>m. x = Some m \<Longrightarrow> fails_as lib tmo start tr m) \<Longrightarrow> reading_map f x = Some m \<Longrightarrow> fails_as lib tmo start tr m"
  by (auto simp: reading_map_def fails_as_def res_simps split: prod.splits res.splits)

lemma read_sized_body_fails:
  "read_sized_body lib tmo start info cl scratch filled c now tr = Some m \<Longrightarrow> fails_as lib tmo start tr m"
  by (auto simp: read_sized_body_def Let_def intro: reading_map_fails read_body_fails split: res.splits if_splits)

lemma read_chunked_body_fails:
  "read_chunked_body lib tmo start info scratch filled c now tr = Some m \<Longrightarrow> fails_as lib tmo start tr m"
  by (auto simp: read_chunked_body_def Let_def intro: reading_map_fails read_chunks_fails split: prod.splits if_splits)

lemma read_headers_suffix:
  "read_headers lib tmo start scratch filled c tr = Some (r, scratch', c', tr', now) \<Longrightarrow> \<exists>used. tr = used @ tr'"
proof (induction tr arbitrary: scratch filled c)
  case (Cons ev tr)
  obtain e t where ev: "ev = (e, t)" by fastforce
  have "tr' = tr \<or> (\<exists>scratch filled c. read_headers lib tmo start scratch filled c tr = Some (r, scratch', c', tr', now))"
    using Cons.prems by (auto simp: ev Let_def split: prod.splits if_splits res.splits header_result.splits)
  then show ?case using Cons.IH by (metis append_Cons append_Nil)
qed simp

lemma fails_as_append: "fails_as lib tmo start tr m \<Longrightarrow> fails_as lib tmo start (used @ tr) m"
  by (induction used) (auto intro: fails_as_later)

lemma read_response_fails:
  assumes "read_response lib scratch tmo c start tr = Some m"
  shows "fails_as lib tmo start tr m"
proof (cases "read_headers lib tmo start scratch 0 c tr")
  case None
  then show ?thesis using assms by (simp add: read_response_def)
next
  case (Some n)
  obtain r scratch1 c1 tr1 now where n: "n = (r, scratch1, c1, tr1, now)" by (cases n)
  note H = read_headers_fails [OF Some, unfolded n]
  show ?thesis
  proof (cases r)
    case (Ok x)
    obtain used where used: "tr = used @ tr1" using read_headers_suffix Some n by metis
    have "fails_as lib tmo start tr1 m"
      using assms by (cases x) (auto simp: read_response_def Some n Ok dest!: read_sized_body_fails read_chunked_body_fails split: option.splits if_splits)
    then show ?thesis unfolding used by (rule fails_as_append)
  qed (use assms H in \<open>auto simp: read_response_def Some n\<close>)
qed

section \<open>Laws of the connection\<close>

text \<open>
  \<open>stream c\<close> is what the server has sent and the client has not yet taken, \<open>rx c\<close> the part
  of it in the receive ring, \<open>out c\<close> everything pushed to the send ring. A pump only moves
  bytes from the socket to the ring, a pop takes bytes off its front.
\<close>

locale tcp_conn =
  fixes lib :: "('c, 'e, 'd) io_lib"
    and rx :: "'c \<Rightarrow> bytes"
    and stream :: "'c \<Rightarrow> bytes"
    and out :: "'c \<Rightarrow> bytes"
  assumes rx_used: "lib_rx_used lib c = length (rx c)"
    and rx_prefix: "prefix (rx c) (stream c)"
    and rx_popped: "n \<le> length (rx c) \<Longrightarrow> lib_rx_pop lib n c = (bs, c') \<Longrightarrow>
      bs = take n (rx c) \<and> rx c' = drop n (rx c) \<and> stream c' = drop n (stream c) \<and> out c' = out c"
    and pumped: "lib_pump lib e c = (fl, c') \<Longrightarrow>
      stream c' = stream c \<and> prefix (rx c) (rx c') \<and> out c' = out c"
    and tx_pushed: "length bs \<le> lib_tx_free lib c \<Longrightarrow> c' = lib_tx_push lib bs c \<Longrightarrow>
      out c' = out c @ bs \<and> stream c' = stream c \<and> rx c' = rx c \<and>
      lib_tx_free lib c' = lib_tx_free lib c - length bs"
begin

lemma conn_pumped:
  "conn_pump lib e c = (r, c') \<Longrightarrow> stream c' = stream c \<and> out c' = out c"
  using pumped by (auto simp: conn_pump_def split: prod.splits)

lemma conn_popped:
  assumes "at \<le> length buf"
  obtains n buf' c' where "conn_rx_pop lib buf at c = Ok (n, buf', c')"
    and "length buf' = length buf" and "at + n \<le> length buf"
    and "take (at + n) buf' @ stream c' = take at buf @ stream c"
    and "take n (drop at buf') = take n (stream c)" and "stream c' = drop n (stream c)"
    and "n \<le> length (stream c)" and "take at buf' = take at buf" and "out c' = out c"
proof -
  let ?n = "min (length (rx c)) (length buf - at)"
  obtain bs c' where pop: "lib_rx_pop lib ?n c = (bs, c')" by fastforce
  have facts: "bs = take ?n (rx c)" "stream c' = drop ?n (stream c)" "out c' = out c"
    using rx_popped [OF _ pop] by simp_all
  obtain ys where ys: "stream c = rx c @ ys" using rx_prefix [of c] by (auto simp: prefix_def)
  have bs: "bs = take ?n (stream c)" using facts(1) ys by simp
  have len: "length bs = ?n" using facts(1) by simp
  have fits: "at + length bs \<le> length buf" using assms len by simp
  show thesis
  proof (cases "?n = 0")
    case True
    then show thesis
      using that [of 0 buf c] assms by (auto simp: conn_rx_pop_def rx_used Let_def)
  next
    case False
    have "take (at + ?n) (blit buf at bs) = take at buf @ bs"
      using fits assms unfolding len [symmetric] by (simp add: blit_def)
    then have whole: "take (at + ?n) (blit buf at bs) @ stream c' = take at buf @ stream c"
      using bs facts(2) by simp
    have "conn_rx_pop lib buf at c = Ok (?n, blit buf at bs, c')"
      using False assms pop by (simp add: conn_rx_pop_def rx_used Let_def)
    moreover have "take ?n (drop at (blit buf at bs)) = take ?n (stream c)"
      using bs len assms by (simp add: blit_def)
    moreover have "take at (blit buf at bs) = take at buf"
      using assms by (simp add: blit_def)
    moreover have "?n \<le> length (stream c)" using ys by simp
    ultimately show thesis
      using that whole fits facts(2,3) assms len by (metis add_leD1 length_blit)
  qed
qed

end

section \<open>Reading the header block\<close>

context tcp_conn
begin

lemma read_headers_stream:
  assumes "response_head lib hdr st hs" and "prefix hdr (take filled scratch @ stream c)"
    and "filled < length hdr" and "length hdr \<le> length scratch"
  shows "case read_headers lib tmo start scratch filled c tr of
      None \<Rightarrow> late tmo start tr + filled < length hdr
    | Some (r, scratch', c', tr', now) \<Rightarrow> out c' = out c \<and> length scratch' = length scratch \<and>
        (r = Err ConnectionClosed \<or> r = Err ResponseIncomplete \<and> 0 < late tmo start tr \<or>
         (\<exists>filled'. r = Ok (head_info hdr st hs, filled') \<and>
            length hdr \<le> filled' \<and> filled' \<le> length scratch \<and>
            take filled' scratch' @ stream c' = take filled scratch @ stream c \<and>
            late tmo start tr' \<le> late tmo start tr \<and>
            late tmo start tr + filled \<le> late tmo start tr' + filled'))"
  using assms
proof (induction tr arbitrary: scratch filled c)
  case Nil
  then show ?case by simp
next
  case (Cons ev tr)
  obtain e t where ev: "ev = (e, t)" by fastforce
  obtain r c1 where pump: "conn_pump lib e c = (r, c1)" by fastforce
  note c1 = conn_pumped [OF pump]
  have "filled \<le> length scratch" using Cons.prems by simp
  then obtain n scratch1 c2 where
    pop: "conn_rx_pop lib scratch filled c1 = (Ok (n, scratch1, c2) :: (_, http_error) res)"
    and len: "length scratch1 = length scratch" and fits: "filled + n \<le> length scratch"
    and whole: "take (filled + n) scratch1 @ stream c2 = take filled scratch @ stream c1"
    and out2: "out c2 = out c1" and "take filled scratch1 = take filled scratch"
    by (rule conn_popped [where c = c1])
  have pre: "prefix hdr (take (filled + n) scratch1 @ stream c2)"
    using Cons.prems(2) whole c1 by simp
  show ?case
  proof (cases "pr_closed r \<or> pr_error r")
    case True
    then show ?thesis using c1 by (auto simp: ev pump)
  next
    case False
    note open_conn = False
    show ?thesis
    proof (cases "length hdr \<le> filled + n")
      case True
      then have "prefix hdr (take (filled + n) scratch1)"
        using pre fits len by (metis append_take_drop_id length_take min.absorb2 prefix_length_prefix prefixI)
      then show ?thesis
        using True Cons.prems(1,3) open_conn whole fits out2 c1 len
        by (auto simp: ev pump pop try_parse_whole [OF Cons.prems(1) _ Cons.prems(3)])
    next
      case False
      then have short: "strict_prefix (take (filled + n) scratch1) hdr"
        using pre fits len
        by (metis length_take min.absorb2 nat_le_linear order_refl prefixI prefix_length_prefix prefix_order.less_le)
      have IH: "case read_headers lib tmo start scratch1 (filled + n) c2 tr of
          None \<Rightarrow> late tmo start tr + (filled + n) < length hdr
        | Some (r, scratch', c', tr', now) \<Rightarrow> out c' = out c2 \<and> length scratch' = length scratch1 \<and>
            (r = Err ConnectionClosed \<or> r = Err ResponseIncomplete \<and> 0 < late tmo start tr \<or>
             (\<exists>filled'. r = Ok (head_info hdr st hs, filled') \<and>
                length hdr \<le> filled' \<and> filled' \<le> length scratch1 \<and>
                take filled' scratch' @ stream c' = take (filled + n) scratch1 @ stream c2 \<and>
                late tmo start tr' \<le> late tmo start tr \<and>
                late tmo start tr + (filled + n) \<le> late tmo start tr' + filled'))"
        by (rule Cons.IH) (use Cons.prems pre False len in auto)
      have "length hdr \<le> length scratch" by (rule Cons.prems)
      then show ?thesis
        using IH open_conn False len out2 c1 whole
        by (auto simp: ev pump pop try_parse_short [OF Cons.prems(1) short] fits split: option.splits)
    qed
  qed
qed

lemma read_body_stream:
  assumes "tot \<le> length scratch" and "filled \<le> length scratch"
  shows "case read_body lib tmo start tot scratch filled c now tr of
      None \<Rightarrow> late tmo start tr + filled < tot
    | Some (r, scratch', c', tr', now') \<Rightarrow> out c' = out c \<and> length scratch' = length scratch \<and>
        (r = Err ConnectionClosed \<or> r = Err ResponseIncomplete \<and> 0 < late tmo start tr \<or>
         r = Ok () \<and> (\<exists>filled'. tot \<le> filled' \<and> filled' \<le> length scratch \<and>
            take filled' scratch' @ stream c' = take filled scratch @ stream c))"
  using assms
proof (induction tr arbitrary: scratch filled c now)
  case Nil
  then show ?case by (auto intro: exI [of _ filled])
next
  case (Cons ev tr)
  obtain e t where ev: "ev = (e, t)" by fastforce
  obtain r c1 where pump: "conn_pump lib e c = (r, c1)" by fastforce
  note c1 = conn_pumped [OF pump]
  obtain n scratch1 c2 where
    pop: "conn_rx_pop lib scratch filled c1 = (Ok (n, scratch1, c2) :: (_, http_error) res)"
    and len: "length scratch1 = length scratch" and fits: "filled + n \<le> length scratch"
    and whole: "take (filled + n) scratch1 @ stream c2 = take filled scratch @ stream c1"
    and out2: "out c2 = out c1" and "take filled scratch1 = take filled scratch"
    by (rule conn_popped [OF Cons.prems(2), where c = c1])
  show ?case
  proof (cases "filled < tot \<and> \<not> (pr_closed r \<or> pr_error r)")
    case False
    then show ?thesis using c1 Cons.prems by (auto simp: ev pump intro: exI [of _ filled])
  next
    case True
    have IH: "case read_body lib tmo start tot scratch1 (filled + n) c2 t tr of
        None \<Rightarrow> late tmo start tr + (filled + n) < tot
      | Some (r, scratch', c', tr', now') \<Rightarrow> out c' = out c2 \<and> length scratch' = length scratch1 \<and>
          (r = Err ConnectionClosed \<or> r = Err ResponseIncomplete \<and> 0 < late tmo start tr \<or>
           r = Ok () \<and> (\<exists>filled'. tot \<le> filled' \<and>
              filled' \<le> length scratch1 \<and>
              take filled' scratch' @ stream c' = take (filled + n) scratch1 @ stream c2))"
      by (rule Cons.IH) (use Cons.prems fits len in auto)
    then show ?thesis
      using True len out2 c1 whole by (auto simp: ev pump pop split: option.splits)
  qed
qed

lemma sized_body_stream:
  assumes "prefix (hdr @ body) (take filled scratch @ stream c)"
    and "length hdr \<le> filled" and "filled \<le> length scratch" and "length hdr + length body < 2 ^ 63"
    and "header_len info = length hdr" and "unat cl = length body"
  shows "case read_sized_body lib tmo start info cl scratch filled c now tr of
      None \<Rightarrow> late tmo start tr + filled < length hdr + length body
    | Some (r, scratch', c', tr', now') \<Rightarrow> out c' = out c \<and>
        (r = Err ConnectionClosed \<or> r = Err ResponseIncomplete \<and> 0 < late tmo start tr \<or>
         r = Ok (hi_status info, length hdr, length body) \<and> prefix (hdr @ body) scratch')"
proof -
  let ?tot = "length hdr + length body"
  let ?scratch = "if ?tot > length scratch then scratch @ replicate (?tot - length scratch) 0 else scratch"
  have tot: "?tot mod 2 ^ 64 = ?tot" using assms by simp
  have body: "case read_body lib tmo start ?tot ?scratch filled c now tr of
      None \<Rightarrow> late tmo start tr + filled < ?tot
    | Some (r, scratch', c', tr', now') \<Rightarrow> out c' = out c \<and> length scratch' = length ?scratch \<and>
        (r = Err ConnectionClosed \<or> r = Err ResponseIncomplete \<and> 0 < late tmo start tr \<or>
         r = Ok () \<and> (\<exists>filled'. ?tot \<le> filled' \<and> filled' \<le> length ?scratch \<and>
            take filled' scratch' @ stream c' = take filled ?scratch @ stream c))"
    by (rule read_body_stream) (use assms in auto)
  have same: "take filled ?scratch = take filled scratch" using assms(3) by simp
  have found: "prefix (hdr @ body) scratch'"
    if "take filled' scratch' @ s = take filled ?scratch @ stream c"
      and "?tot \<le> filled'" "filled' \<le> length scratch'" for filled' scratch' s
  proof -
    have "prefix (hdr @ body) (take filled' scratch' @ s)" using assms(1) that(1) same by simp
    moreover have "prefix (take filled' scratch') (take filled' scratch' @ s)" by simp
    ultimately have "prefix (hdr @ body) (take filled' scratch')"
      by (rule prefix_length_prefix) (use that in simp)
    then show ?thesis using take_is_prefix prefix_order.trans by blast
  qed
  have "(if ?tot > length scratch then vec_resize scratch ?tot else Ok scratch) =
      (Ok ?scratch :: (_, http_error) res)"
    using assms(4) by (auto simp: vec_resize_def)
  then have run: "read_sized_body lib tmo start info cl scratch filled c now tr =
      reading_map (\<lambda>_. (hi_status info, length hdr, length body))
        (read_body lib tmo start ?tot ?scratch filled c now tr)"
    by (simp only: read_sized_body_def Let_def assms(5,6) tot res.case)
  show ?thesis
  proof (cases "read_body lib tmo start ?tot ?scratch filled c now tr")
    case None
    then show ?thesis using body by (simp add: run reading_map_def)
  next
    case (Some m)
    obtain r scratch' c' tr' now' where m: "m = (r, scratch', c', tr', now')" by (cases m)
    show ?thesis
      using body found [of _ scratch' "stream c'"] unfolding run Some m
      by (auto simp: reading_map_def)
  qed
qed

lemma read_chunks_stream:
  assumes "chunk_run lib enc body st dcd" and "k < length enc" and "stream c = drop k enc"
    and "bs + length (dcd k) \<le> length scratch"
    and "take (length (dcd k)) (drop bs scratch) = dcd k" and "bs + length enc + 4096 < 2 ^ 62"
  shows "case read_chunks lib tmo start bs (st k) scratch (length (dcd k)) c tr of
      None \<Rightarrow> late tmo start tr + k < length enc
    | Some (r, scratch', c', tr', now) \<Rightarrow> out c' = out c \<and>
        (r = Err ConnectionClosed \<or> r = Err ResponseIncomplete \<and> 0 < late tmo start tr \<or>
         r = Ok (length body) \<and> take (length body) (drop bs scratch') = body)"
  using assms(2-5)
proof (induction tr arbitrary: scratch k c)
  case Nil
  then show ?case by simp
next
  case (Cons ev tr)
  obtain e t where ev: "ev = (e, t)" by fastforce
  obtain r c1 where pump: "conn_pump lib e c = (r, c1)" by fastforce
  note c1 = conn_pumped [OF pump]
  let ?at = "bs + length (dcd k)"
  let ?scratch = "if length scratch - ?at < 4096 then scratch @ replicate (length scratch) 0 else scratch"
  have "length (dcd k) \<le> k" using chunk_run_length [OF assms(1)] Cons.prems(1) by simp
  then have "length scratch * 2 < 2 ^ 63" if "length scratch - ?at < 4096"
    using that Cons.prems(1) assms(6) by simp
  then have grow: "(if length scratch < ?at then Panic
      else if length scratch - ?at < 4096 then vec_resize scratch (length scratch * 2) else Ok scratch) =
      (Ok ?scratch :: (_, http_error) res)"
    using Cons.prems(3) by (auto simp: vec_resize_def mult_2_right)
  have room: "?at \<le> length ?scratch" using Cons.prems(3) by simp
  have kept: "take (length (dcd k)) (drop bs ?scratch) = dcd k"
    using Cons.prems(3,4) by simp
  obtain n scratch1 c2 where
    pop: "conn_rx_pop lib ?scratch ?at c1 = (Ok (n, scratch1, c2) :: (_, http_error) res)"
    and len: "length scratch1 = length ?scratch" and fits: "?at + n \<le> length ?scratch"
    and "take (?at + n) scratch1 @ stream c2 = take ?at ?scratch @ stream c1"
    and new: "take n (drop ?at scratch1) = take n (stream c1)" and st2: "stream c2 = drop n (stream c1)"
    and n: "n \<le> length (stream c1)" and old: "take ?at scratch1 = take ?at ?scratch"
    and out2: "out c2 = out c1"
    by (rule conn_popped [OF room, where c = c1])
  have kept1: "take (length (dcd k)) (drop bs scratch1) = dcd k"
    using kept old by (metis drop_take add_diff_cancel_left')
  have str2: "stream c2 = drop (k + n) enc" using st2 c1 Cons.prems(2) by (simp add: add.commute)
  have kn: "k + n \<le> length enc" using n c1 Cons.prems(1,2) by simp
  have fits1: "?at + n \<le> length scratch1" using fits len by simp
  show ?case
  proof (cases "pr_closed r \<or> pr_error r")
    case True
    then show ?thesis using c1 by (auto simp: ev pump)
  next
    case False
    note open_conn = False
    show ?thesis
    proof (cases "n = 0")
      case True
      have "case read_chunks lib tmo start bs (st k) scratch1 (length (dcd k)) c2 tr of
          None \<Rightarrow> late tmo start tr + k < length enc
        | Some (r, scratch', c', tr', now) \<Rightarrow> out c' = out c2 \<and>
            (r = Err ConnectionClosed \<or> r = Err ResponseIncomplete \<and> 0 < late tmo start tr \<or>
             r = Ok (length body) \<and> take (length body) (drop bs scratch') = body)"
        by (rule Cons.IH) (use True Cons.prems str2 kept1 fits1 in auto)
      then show ?thesis
        using True open_conn out2 c1
        by (auto simp: ev pump Let_def grow pop simp del: if_split split: option.splits)
    next
      case False
      obtain pret scratch2 m where
        dcd: "decode_at lib (st k) scratch1 ?at n = (pret, st (k + n), scratch2, m)"
        and len2: "length scratch2 = length scratch1"
        and m: "length (dcd k) + m = length (dcd (k + n))" and mn: "m \<le> n"
        and kept2: "take (length (dcd (k + n))) (drop bs scratch2) = dcd (k + n)"
        and pret: "if k + n = length enc then 0 \<le> pret else pret = - 2"
        by (rule decode_at_step [OF assms(1) _ kn fits1 _ kept1])
          (use False new c1 Cons.prems(2) in auto)
      show ?thesis
      proof (cases "k + n = length enc")
        case True
        then have "dcd (k + n) = body" using assms(1) by (simp add: chunk_run_def)
        then show ?thesis
          using True False open_conn pret kept2 m out2 c1
          by (simp add: ev pump Let_def grow pop dcd)
      next
        case more: False
        have room2: "bs + length (dcd (k + n)) \<le> length scratch2"
          using m mn fits1 len2 by linarith
        have "case read_chunks lib tmo start bs (st (k + n)) scratch2 (length (dcd (k + n))) c2 tr of
            None \<Rightarrow> late tmo start tr + (k + n) < length enc
          | Some (r, scratch', c', tr', now) \<Rightarrow> out c' = out c2 \<and>
              (r = Err ConnectionClosed \<or> r = Err ResponseIncomplete \<and> 0 < late tmo start tr \<or>
               r = Ok (length body) \<and> take (length body) (drop bs scratch') = body)"
          by (rule Cons.IH) (use more kn str2 kept2 room2 in auto)
        then show ?thesis
          using False more open_conn pret m out2 c1
          by (auto simp: ev pump Let_def grow pop dcd split: option.splits)
      qed
    qed
  qed
qed

lemma chunked_body_stream:
  assumes run: "chunk_run lib enc body st dcd"
    and whole: "take filled scratch @ stream c = hdr @ enc"
    and "length hdr \<le> filled" and "filled \<le> length scratch"
    and "length hdr + length enc + 4096 < 2 ^ 62" and "header_len info = length hdr"
  shows "case read_chunked_body lib tmo start info scratch filled c now tr of
      None \<Rightarrow> late tmo start tr + filled < length hdr + length enc
    | Some (r, scratch', c', tr', now') \<Rightarrow> out c' = out c \<and>
        (r = Err ConnectionClosed \<or> r = Err ResponseIncomplete \<and> 0 < late tmo start tr \<or>
         r = Ok (hi_status info, length hdr, length body) \<and>
         take (length body) (drop (length hdr) scratch') = body)"
proof -
  let ?bs = "length hdr" and ?n = "filled - length hdr"
  have start: "st 0 = phr_chunk_decoder lib" "dcd 0 = []" "enc \<noteq> []"
    using run by (simp_all add: chunk_run_def)
  have whole2: "take filled scratch = hdr @ take ?n enc" "stream c = drop ?n enc"
    using whole assms(3,4) by (auto simp: append_eq_conv_conj take_add)
  have "length (take filled scratch) = length (hdr @ take ?n enc)" using whole2(1) by simp
  then have n: "?n \<le> length enc" using assms(3,4) by simp
  have raw: "take ?n (drop ?bs scratch) = take ?n enc"
  proof -
    have "take ?n (drop ?bs scratch) = drop ?bs (take filled scratch)" by (simp add: drop_take)
    then show ?thesis by (simp add: whole2)
  qed
  show ?thesis
  proof (cases "?n = 0")
    case True
    have "case read_chunks lib tmo start ?bs (st 0) scratch (length (dcd 0)) c tr of
        None \<Rightarrow> late tmo start tr + 0 < length enc
      | Some (r, scratch', c', tr', now) \<Rightarrow> out c' = out c \<and>
          (r = Err ConnectionClosed \<or> r = Err ResponseIncomplete \<and> 0 < late tmo start tr \<or>
           r = Ok (length body) \<and> take (length body) (drop ?bs scratch') = body)"
      by (rule read_chunks_stream [OF run]) (use start True whole2 assms in auto)
    then show ?thesis
      using True start assms(3,6)
      by (auto simp: read_chunked_body_def reading_map_def split: option.splits)
  next
    case False
    obtain pret scratch' m where
      d: "decode_at lib (st 0) scratch (?bs + length (dcd 0)) ?n = (pret, st (0 + ?n), scratch', m)"
      and len: "length scratch' = length scratch" and m: "length (dcd 0) + m = length (dcd (0 + ?n))"
      and mn: "m \<le> ?n" and kept: "take (length (dcd (0 + ?n))) (drop ?bs scratch') = dcd (0 + ?n)"
      and pret: "if 0 + ?n = length enc then 0 \<le> pret else pret = - 2"
      by (rule decode_at_step [OF run, where k = 0 and n = ?n])
        (use False n assms(3,4) raw start(2) in auto)
    show ?thesis
    proof (cases "?n = length enc")
      case True
      then have "dcd ?n = body" using run by (simp add: chunk_run_def)
      then show ?thesis
        using True False d m kept pret start assms(3,6) by (auto simp: read_chunked_body_def)
    next
      case more: False
      have "case read_chunks lib tmo start ?bs (st ?n) scratch' (length (dcd ?n)) c tr of
          None \<Rightarrow> late tmo start tr + ?n < length enc
        | Some (r, scratch', c', tr', now) \<Rightarrow> out c' = out c \<and>
            (r = Err ConnectionClosed \<or> r = Err ResponseIncomplete \<and> 0 < late tmo start tr \<or>
             r = Ok (length body) \<and> take (length body) (drop ?bs scratch') = body)"
        by (rule read_chunks_stream [OF run])
          (use more n whole2 kept m mn start len assms in auto)
      then show ?thesis
        using more False d m pret start assms(3,6)
        by (auto simp: read_chunked_body_def reading_map_def split: option.splits)
    qed
  qed
qed

lemma read_response_sized:
  assumes head: "response_head lib hdr st hs" and "stream c = hdr @ body @ rest"
    and "length hdr \<le> length scratch" and "length hdr + length body < 2 ^ 63"
    and cl: "scan_headers hs None False = (Some (word_of_nat (length body)), ch)"
  shows "case read_response lib scratch tmo c start tr of
      None \<Rightarrow> late tmo start tr < length hdr + length body
    | Some (r, scratch', c', tr', now) \<Rightarrow> out c' = out c \<and>
        (r = Err ConnectionClosed \<or> r = Err ResponseIncomplete \<and> 0 < late tmo start tr \<or>
         r = Ok (word_of_int st, length hdr, length body) \<and> prefix (hdr @ body) scratch')"
proof -
  note H = read_headers_stream [OF head, of 0 scratch c tmo start tr]
  let ?info = "head_info hdr st hs"
  have info: "content_length ?info = Some (word_of_nat (length body))" "header_len ?info = length hdr"
    "hi_status ?info = word_of_int st"
    by (simp_all add: head_info_def cl)
  have cl': "unat (word_of_nat (length body) :: u64) = length body"
    using assms(4) by (simp add: unat_of_nat take_bit_nat_eq_self)
  show ?thesis
  proof (cases "read_headers lib tmo start scratch 0 c tr")
    case None
    then show ?thesis using H assms head by (auto simp: read_response_def response_head_def)
  next
    case (Some m)
    obtain r scratch1 c1 tr1 now where m: "m = (r, scratch1, c1, tr1, now)" by (cases m)
    show ?thesis
    proof (cases r)
      case (Ok x)
      then obtain filled where x: "x = (?info, filled)" and f: "length hdr \<le> filled" "filled \<le> length scratch"
        and w: "take filled scratch1 @ stream c1 = stream c" and o: "out c1 = out c"
        and l: "length scratch1 = length scratch" "late tmo start tr \<le> late tmo start tr1 + filled"
          "late tmo start tr1 \<le> late tmo start tr"
        using H Some m assms head by (auto simp: response_head_def)
      have "prefix (hdr @ body) (take filled scratch1 @ stream c1)" using w assms(2) by simp
      from sized_body_stream [OF this f(1) _ assms(4) info(2) cl', where tmo = tmo and start = start and now = now and tr = tr1]
      show ?thesis
        using o l f by (auto simp: read_response_def Some m Ok x info split: option.splits)
    qed (use H Some m assms head in \<open>auto simp: read_response_def response_head_def\<close>)
  qed
qed

lemma read_response_chunks:
  assumes head: "response_head lib hdr st hs" and run: "chunk_run lib enc body ds dcd"
    and "stream c = hdr @ enc"
    and "length hdr \<le> length scratch" and "length hdr + length enc + 4096 < 2 ^ 62"
    and ch: "scan_headers hs None False = (None, True)"
  shows "case read_response lib scratch tmo c start tr of
      None \<Rightarrow> late tmo start tr < length hdr + length enc
    | Some (r, scratch', c', tr', now) \<Rightarrow> out c' = out c \<and>
        (r = Err ConnectionClosed \<or> r = Err ResponseIncomplete \<and> 0 < late tmo start tr \<or>
         r = Ok (word_of_int st, length hdr, length body) \<and>
         take (length body) (drop (length hdr) scratch') = body)"
proof -
  note H = read_headers_stream [OF head, of 0 scratch c tmo start tr]
  let ?info = "head_info hdr st hs"
  have info: "content_length ?info = None" "header_len ?info = length hdr" "is_chunked ?info"
    "hi_status ?info = word_of_int st"
    by (simp_all add: head_info_def ch)
  show ?thesis
  proof (cases "read_headers lib tmo start scratch 0 c tr")
    case None
    then show ?thesis using H assms head by (auto simp: read_response_def response_head_def)
  next
    case (Some m)
    obtain r scratch1 c1 tr1 now where m: "m = (r, scratch1, c1, tr1, now)" by (cases m)
    show ?thesis
    proof (cases r)
      case (Ok x)
      then obtain filled where x: "x = (?info, filled)" and f: "length hdr \<le> filled" "filled \<le> length scratch"
        and w: "take filled scratch1 @ stream c1 = stream c" and o: "out c1 = out c"
        and l: "length scratch1 = length scratch" "late tmo start tr \<le> late tmo start tr1 + filled"
          "late tmo start tr1 \<le> late tmo start tr"
        using H Some m assms head by (auto simp: response_head_def)
      have "take filled scratch1 @ stream c1 = hdr @ enc" using w assms(3) by simp
      from chunked_body_stream [OF run this f(1) _ assms(5) info(2), where tmo = tmo and start = start and now = now and tr = tr1]
      show ?thesis
        using o l f by (auto simp: read_response_def Some m Ok x info split: option.splits)
    qed (use H Some m assms head in \<open>auto simp: read_response_def response_head_def\<close>)
  qed
qed

lemma write_request_out:
  assumes "h = header_text method path host ct (length body)" and "length body < 2 ^ 64"
  shows "if length h \<le> 512 \<and> length h + length body \<le> lib_tx_free lib c
    then \<exists>c'. write_request lib method path host ct body c = (Ok (), c') \<and>
      out c' = out c @ h @ body \<and> stream c' = stream c \<and> rx c' = rx c
    else write_request lib method path host ct body c = (Err RequestTooLarge, c)"
proof -
  have n: "unat (word_of_nat (length body) :: u64) = length body"
    using assms(2) by (simp add: unat_of_nat take_bit_nat_eq_self)
  have push: "out (lib_tx_push lib bs d) = out d @ bs \<and> stream (lib_tx_push lib bs d) = stream d \<and>
      rx (lib_tx_push lib bs d) = rx d \<and>
      lib_tx_free lib (lib_tx_push lib bs d) = lib_tx_free lib d - length bs"
    if "length bs \<le> lib_tx_free lib d" for bs d
    using tx_pushed [OF that refl] .
  have two: "length body \<le> lib_tx_free lib (lib_tx_push lib h c)" if "length h + length body \<le> lib_tx_free lib c"
    using push [of h c] that by simp
  note hdr = fmt_request_header_exact [of "replicate 512 0" "method" path host ct "word_of_nat (length body)"]
  have state: "bw_pos (bw_state buf h) = length h" "take (length h) (bw_buf (bw_state buf h)) = h" for buf
    by (simp_all add: bw_state_def buf_state_def)
  show ?thesis
    using push [of h c] push [of body "lib_tx_push lib h c"] two
    by (auto simp: write_request_def hdr n assms(1) [symmetric] Let_def state conn_tx_push_def)
qed

end

section \<open>A connection\<close>

text \<open>
  A connection with a socket and a receive ring of 64 bytes: the events are the arrival of up to
  \<open>n\<close> bytes and the peer hanging up.
\<close>

datatype net_event = Arrive nat | Hangup

record doc_conn =
  dc_socket :: bytes
  dc_ring :: bytes
  dc_sent :: bytes
  dc_tx_used :: nat
  dc_state :: int

fun doc_pump :: "net_event \<Rightarrow> doc_conn \<Rightarrow> u32 \<times> doc_conn" where
  "doc_pump (Arrive n) c =
     (let k = min n (64 - length (dc_ring c))
      in (6, c\<lparr>dc_ring := dc_ring c @ take k (dc_socket c), dc_socket := drop k (dc_socket c),
              dc_tx_used := 0\<rparr>))"
| "doc_pump Hangup c = (16, c)"

definition doc_io ::
  "(bytes \<Rightarrow> nat \<Rightarrow> int \<times> int \<times> http_header list) \<Rightarrow> 'd \<Rightarrow> ('d \<Rightarrow> bytes \<Rightarrow> int \<times> 'd \<times> bytes \<times> nat)
   \<Rightarrow> (doc_conn, net_event, 'd) io_lib" where
  "doc_io parse d0 decode =
     \<lparr>lib_new = (\<lambda>_ _. Some \<lparr>dc_socket = [], dc_ring = [], dc_sent = [], dc_tx_used = 0, dc_state = 0\<rparr>),
      lib_connect = (\<lambda>_ _ _ _ c. (0, c\<lparr>dc_state := 3\<rparr>)),
      lib_err = (\<lambda>_. 0), lib_pump = doc_pump, lib_state = dc_state,
      lib_rx_used = (\<lambda>c. length (dc_ring c)),
      lib_rx_pop = (\<lambda>n c. (take n (dc_ring c), c\<lparr>dc_ring := drop n (dc_ring c)\<rparr>)),
      lib_tx_free = (\<lambda>c. 65536 - dc_tx_used c),
      lib_tx_push = (\<lambda>bs c. c\<lparr>dc_sent := dc_sent c @ bs, dc_tx_used := dc_tx_used c + length bs\<rparr>),
      phr_parse_response = parse, phr_chunk_decoder = d0, phr_decode_chunked = decode\<rparr>"

definition doc_stream :: "doc_conn \<Rightarrow> bytes" where
  "doc_stream c = dc_ring c @ dc_socket c"

interpretation doc: tcp_conn "doc_io parse d0 decode" dc_ring doc_stream dc_sent
  for parse :: "bytes \<Rightarrow> nat \<Rightarrow> int \<times> int \<times> http_header list" and d0 :: 'd
    and decode :: "'d \<Rightarrow> bytes \<Rightarrow> int \<times> 'd \<times> bytes \<times> nat"
proof
  show "lib_pump (doc_io parse d0 decode) e c = (fl, c') \<Longrightarrow>
      doc_stream c' = doc_stream c \<and> prefix (dc_ring c) (dc_ring c') \<and> dc_sent c' = dc_sent c"
    for e c fl c'
    by (cases e) (auto simp: doc_io_def doc_stream_def Let_def)
qed (auto simp: doc_io_def doc_stream_def)

text \<open>A parser that knows one header block.\<close>

definition head_parser ::
  "bytes \<Rightarrow> int \<Rightarrow> http_header list \<Rightarrow> bytes \<Rightarrow> nat \<Rightarrow> int \<times> int \<times> http_header list" where
  "head_parser hdr status hs buf last_len =
     (if prefix hdr buf then (int (length hdr), status, hs)
      else if prefix buf hdr then (- 2, 0, []) else (- 1, 0, []))"

lemma response_head_doc:
  "hdr \<noteq> [] \<Longrightarrow> response_head (doc_io (head_parser hdr status hs) d0 decode) hdr status hs"
  by (auto simp: response_head_def doc_io_def head_parser_def strict_prefix_def
      dest: prefix_order.antisym)

section \<open>Properties\<close>

text \<open>C12: a response with a content length is read completely, however the network cuts
  it. Over any connection that delivers the bytes in order, and for a header block within the
  scratch buffer, \<open>read_response\<close> returns the status, the header length and the body
  length, with the whole response at the front of the scratch buffer (grown when needed). The
  only other results are \<open>ConnectionClosed\<close>, and then the last pump of the reading reported that the connection was closed or
  failed, and \<open>ResponseIncomplete\<close>, and then the last pump came after the
  deadline. It never panics, sends nothing, and cannot wait for as many pumps past the deadline
  as the response has bytes.\<close>

theorem read_response_content_length:
  assumes "tcp_conn lib rx stream out" and "response_head lib hdr status hs"
    and "scan_headers hs None False = (Some (word_of_nat (length body)), ch)"
    and "stream c = hdr @ body @ rest" and "length hdr \<le> length scratch"
    and "length hdr + length body < 2 ^ 63"
  shows "case read_response lib scratch tmo c start tr of
      None \<Rightarrow> late tmo start tr < length hdr + length body
    | Some (r, scratch', c', tr', now) \<Rightarrow> out c' = out c \<and>
        (r = Err ConnectionClosed \<and> closed_by lib tr c' tr' \<or>
         r = Err ResponseIncomplete \<and> timed_out tmo start now \<and> 0 < late tmo start tr \<or>
         r = Ok (word_of_int status, length hdr, length body) \<and> prefix (hdr @ body) scratch')"
  using tcp_conn.read_response_sized [OF assms(1,2,4,5,6,3), of tmo start tr] read_response_fails [of lib scratch tmo c start tr]
  by (cases "read_response lib scratch tmo c start tr") auto

definition sample_head :: bytes where
  "sample_head = ascii ''HTTP/1.1 200 OK'' @ [13, 10, 13, 10]"

definition sample_conn :: "bytes \<Rightarrow> doc_conn" where
  "sample_conn s = \<lparr>dc_socket = s, dc_ring = [], dc_sent = [], dc_tx_used = 0, dc_state = 3\<rparr>"

definition sized_lib :: "(doc_conn, net_event, nat) io_lib" where
  "sized_lib = doc_io (head_parser sample_head 200
     [(Some (ascii ''Content-Length''), ascii '' 3'')]) 0 (\<lambda>d b. (- 1, d, b, 0))"

lemma sample_trims: "str_trim (ascii '' 3'') = ascii ''3''" "str_trim (ascii ''Chunked'') = ascii ''Chunked''"
  by (simp_all add: str_trim_def strip.simps ws_len_def unicode_ws_def ascii_def upt_rec)

lemma sample_names:
  "eq_ignore_ascii_case (ascii ''Content-Length'') (ascii ''content-length'')"
  "\<not> eq_ignore_ascii_case (ascii ''transfer-encoding'') (ascii ''content-length'')"
  "eq_ignore_ascii_case (ascii ''transfer-encoding'') (ascii ''transfer-encoding'')"
  "eq_ignore_ascii_case (ascii ''Chunked'') (ascii ''chunked'')"
  by code_simp+

lemma sample_utf8: "from_utf8 (ascii '' 3'') = Some (ascii '' 3'')"
  "from_utf8 (ascii ''Chunked'') = Some (ascii ''Chunked'')"
  by code_simp+

lemma sample_number: "parse_u64 (ascii ''3'') = Some 3"
  by (simp add: parse_u64_def ascii_def digits_value_def is_ascii_digit_def)

lemma pump_flags_up [simp]: "\<not> pr_closed (pump_from_flags 6)" "\<not> pr_error (pump_from_flags 6)"
  by code_simp+

lemma arrivals_stay_open: "list_all (\<lambda>(e, t). e \<noteq> Hangup) tr \<Longrightarrow> \<not> closed_by (doc_io parse d0 decode) tr c' tr'"
proof
  assume a: "list_all (\<lambda>(e, t). e \<noteq> Hangup) tr" and "closed_by (doc_io parse d0 decode) tr c' tr'"
  then obtain used e t c r where "tr = used @ (e, t) # tr'" "conn_pump (doc_io parse d0 decode) e c = (r, c')" "pr_closed r \<or> pr_error r"
    unfolding closed_by_def by blast
  then show False using a by (cases e) (auto simp: conn_pump_def doc_io_def Let_def)
qed

lemma sample_head_list: "sample_head = [72, 84, 84, 80, 47, 49, 46, 49, 32, 50, 48, 48, 32, 79, 75, 13, 10, 13, 10]"
  by (simp add: sample_head_def ascii_def)

lemma sized_calls:
  "conn_pump sized_lib (Arrive 5) (sample_conn (sample_head @ [1, 2, 3])) =
     (pump_from_flags 6, (sample_conn (drop 5 sample_head @ [1, 2, 3]))\<lparr>dc_ring := take 5 sample_head\<rparr>)"
  "conn_rx_pop sized_lib (replicate 20 0) 0 ((sample_conn (drop 5 sample_head @ [1, 2, 3]))\<lparr>dc_ring := take 5 sample_head\<rparr>) =
     (Ok (5, take 5 sample_head @ replicate 15 0, sample_conn (drop 5 sample_head @ [1, 2, 3])) :: (_, http_error) res)"
  "conn_pump sized_lib (Arrive 50) (sample_conn (drop 5 sample_head @ [1, 2, 3])) =
     (pump_from_flags 6, (sample_conn [])\<lparr>dc_ring := drop 5 sample_head @ [1, 2, 3]\<rparr>)"
  "conn_rx_pop sized_lib (take 5 sample_head @ replicate 15 0) 5 ((sample_conn [])\<lparr>dc_ring := drop 5 sample_head @ [1, 2, 3]\<rparr>) =
     (Ok (15, sample_head @ [1], (sample_conn [])\<lparr>dc_ring := [2, 3]\<rparr>) :: (_, http_error) res)"
  "conn_pump sized_lib (Arrive 0) ((sample_conn [])\<lparr>dc_ring := [2, 3]\<rparr>) = (pump_from_flags 6, (sample_conn [])\<lparr>dc_ring := [2, 3]\<rparr>)"
  "conn_rx_pop sized_lib (sample_head @ 1 # replicate 2 0) 20 ((sample_conn [])\<lparr>dc_ring := [2, 3]\<rparr>) =
     (Ok (2, sample_head @ [1, 2, 3], sample_conn []) :: (_, http_error) res)"
  by (simp_all add: conn_pump_def conn_rx_pop_def sized_lib_def doc_io_def sample_conn_def sample_head_list blit_def Let_def)

text \<open>The response arrives in two pieces; the scratch buffer has to grow for its last two bytes.\<close>

theorem read_response_content_length_witness:
  "\<exists>scratch' c' tr' now. read_response sized_lib (replicate 20 0) 1000 (sample_conn (sample_head @ [1, 2, 3])) 0
      [(Arrive 5, 1), (Arrive 50, 2), (Arrive 0, 3)] = Some (Ok (200, 19, 3), scratch', c', tr', now) \<and>
    dc_sent c' = [] \<and> prefix (sample_head @ [1, 2, 3]) scratch'"
proof -
  have head: "response_head sized_lib sample_head 200 [(Some (ascii ''Content-Length''), ascii '' 3'')]"
    unfolding sized_lib_def by (rule response_head_doc) (simp add: sample_head_def)
  have conn: "tcp_conn sized_lib dc_ring doc_stream dc_sent"
    unfolding sized_lib_def by (rule doc.tcp_conn_axioms)
  have cl: "scan_headers [(Some (ascii ''Content-Length''), ascii '' 3'')] None False =
      (Some (word_of_nat (length [1 :: u8, 2, 3])), False)"
    using sample_trims sample_names by (simp add: sample_utf8 sample_number)
  have n: "length sample_head = 19" by (simp add: sample_head_def ascii_def)
  have s: "doc_stream (sample_conn (sample_head @ [1, 2, 3])) = sample_head @ [1, 2, 3] @ []"
    by (simp add: doc_stream_def sample_conn_def)
  have small: "length sample_head \<le> length (replicate 20 (0 :: u8))"
    "length sample_head + length [1 :: u8, 2, 3] < 2 ^ 63" by (simp_all add: n)
  have eqs: "dc_sent (sample_conn x) = []" "length [1 :: u8, 2, 3] = 3" "(19 :: nat) + 3 = 22"
    "word_of_int 200 = (200 :: u16)" for x
    by (simp_all add: sample_conn_def)
  let ?tr = "[(Arrive 5, 1), (Arrive 50, 2), (Arrive 0, 3)] :: (net_event \<times> u64) list"
  have parsed: "try_parse_headers sized_lib (take 5 sample_head @ replicate 15 0) 5 0 = Incomplete"
    "try_parse_headers sized_lib (sample_head @ [1]) 20 5 =
      Complete \<lparr>header_len = 19, hi_status = 200, content_length = Some 3, is_chunked = False\<rparr>"
    using try_parse_short [OF head, of 5 "take 5 sample_head @ replicate 15 0" 0] try_parse_whole [OF head, of 20 "sample_head @ [1]" 5] n
    by (simp_all add: head_info_def cl sample_head_list strict_prefix_def del: scan_headers.simps)
  have first: "read_headers sized_lib 1000 0 (replicate 20 0) 0 (sample_conn (sample_head @ [1, 2, 3])) ?tr =
      Some (Ok (\<lparr>header_len = 19, hi_status = 200, content_length = Some 3, is_chunked = False\<rparr>, 20), sample_head @ [1],
        (sample_conn [])\<lparr>dc_ring := [2, 3]\<rparr>, [(Arrive 0, 3)], 2)"
    by (simp add: sized_calls(1-4) parsed n)
  have "\<not> closed_by sized_lib ?tr c' tr'" for c' tr' unfolding sized_lib_def by (rule arrivals_stay_open) simp
  moreover have "late 1000 0 ?tr = 0" by (simp add: timed_out_def)
  moreover have "read_response sized_lib (replicate 20 0) 1000 (sample_conn (sample_head @ [1, 2, 3])) 0 ?tr \<noteq> None"
    unfolding read_response_def first by (simp add: n read_sized_body_def vec_resize_def reading_map_def sized_calls(5,6) timed_out_def)
  moreover note read_response_content_length [OF conn head cl s small, of 1000 0 ?tr, unfolded n eqs]
  ultimately show ?thesis by (auto simp del: late_simps split: option.splits)
qed

text \<open>C13: a chunked response is decoded completely, however the network cuts it. The decoder
  is fed in place, piece by piece, behind what it has put out so far; the scratch buffer
  grows while less than 4096 bytes are left. The body that \<open>read_response\<close> returns is the
  decoded body; otherwise the last pump of the reading reported that the connection was closed or failed, or it came after the deadline.\<close>

theorem read_response_chunked:
  assumes "tcp_conn lib rx stream out" and "response_head lib hdr status hs"
    and "scan_headers hs None False = (None, True)" and "chunk_run lib enc body ds dcd"
    and "stream c = hdr @ enc" and "length hdr \<le> length scratch"
    and "length hdr + length enc + 4096 < 2 ^ 62"
  shows "case read_response lib scratch tmo c start tr of
      None \<Rightarrow> late tmo start tr < length hdr + length enc
    | Some (r, scratch', c', tr', now) \<Rightarrow> out c' = out c \<and>
        (r = Err ConnectionClosed \<and> closed_by lib tr c' tr' \<or>
         r = Err ResponseIncomplete \<and> timed_out tmo start now \<and> 0 < late tmo start tr \<or>
         r = Ok (word_of_int status, length hdr, length body) \<and>
         take (length body) (drop (length hdr) scratch') = body)"
  using tcp_conn.read_response_chunks [OF assms(1,2,4,5,6,7,3), of tmo start tr] read_response_fails [of lib scratch tmo c start tr]
  by (cases "read_response lib scratch tmo c start tr") auto

text \<open>The encoding of \<open>abc\<close> in one chunk, and its decoder by position.\<close>

definition sample_chunks :: bytes where
  "sample_chunks = ascii ''3'' @ [13, 10] @ ascii ''abc'' @ [13, 10] @ ascii ''0'' @ [13, 10, 13, 10]"

definition sample_decoded :: "nat \<Rightarrow> bytes" where
  "sample_decoded k = take (k - 3) (ascii ''abc'')"

definition sample_decode :: "nat \<Rightarrow> bytes \<Rightarrow> int \<times> nat \<times> bytes \<times> nat" where
  "sample_decode k b =
     (let j = k + length b; new = drop (k - 3) (sample_decoded j)
      in (if j = 13 then 0 else - 2, j, new @ drop (length new) b, length new))"

definition chunk_lib :: "(doc_conn, net_event, nat) io_lib" where
  "chunk_lib = doc_io (head_parser sample_head 200
     [(Some (ascii ''transfer-encoding''), ascii ''Chunked'')]) 0 sample_decode"

lemma sample_chunk_run: "chunk_run chunk_lib sample_chunks (ascii ''abc'') (\<lambda>k. k) sample_decoded"
proof -
  have len: "length sample_chunks = 13" "length (ascii ''abc'') = 3" "sample_chunks \<noteq> []"
    by (simp_all add: sample_chunks_def ascii_def)
  have "drop (i - 3) (sample_decoded j) = drop (length (sample_decoded i)) (sample_decoded j)"
    and "take (length (sample_decoded i)) (sample_decoded j) = sample_decoded i"
    if "i < j" for i j
    using that by (auto simp: sample_decoded_def len min_def)
  then have app: "sample_decoded j = sample_decoded i @ drop (i - 3) (sample_decoded j)"
    and le: "length (drop (i - 3) (sample_decoded j)) \<le> j - i" if "i < j" for i j
    using that append_take_drop_id [of "length (sample_decoded i)" "sample_decoded j"]
    by (simp_all add: sample_decoded_def)
  have run: "phr_decode_chunked chunk_lib i b = sample_decode i b" for i b
    by (simp add: chunk_lib_def doc_io_def)
  have "\<exists>pret buf k. phr_decode_chunked chunk_lib i (take (j - i) (drop i sample_chunks)) =
        (pret, j, buf, k) \<and> length buf = j - i \<and> k \<le> j - i \<and>
        sample_decoded j = sample_decoded i @ take k buf \<and>
        (if j = length sample_chunks then 0 \<le> pret else pret = - 2)"
    if "i < j" "j \<le> 13" for i j
    using that app [OF that(1)] le [OF that(1)] by (simp add: run sample_decode_def len Let_def)
  moreover have "phr_chunk_decoder chunk_lib = 0" "sample_decoded 0 = []" "sample_decoded 13 = ascii ''abc''"
    by (simp_all add: chunk_lib_def doc_io_def sample_decoded_def len)
  ultimately show ?thesis by (simp add: chunk_run_def len)
qed

text \<open>A run of it: 25 bytes arrive, of which 20 fit the scratch buffer; the rest comes with the second pump.\<close>

definition chunks_mid :: doc_conn where
  "chunks_mid = \<lparr>dc_socket = drop 6 sample_chunks, dc_ring = take 5 (drop 1 sample_chunks), dc_sent = [], dc_tx_used = 0, dc_state = 3\<rparr>"

lemma sample_lists:
  "sample_chunks = [51, 13, 10, 97, 98, 99, 13, 10, 48, 13, 10, 13, 10]" "ascii ''abc'' = [97, 98, 99]"
  by (simp_all add: sample_chunks_def ascii_def)

lemma chunk_calls:
  "conn_pump chunk_lib (Arrive 25) (sample_conn (sample_head @ sample_chunks)) = (pump_from_flags 6, chunks_mid\<lparr>dc_ring := sample_head @ take 6 sample_chunks\<rparr>)"
  "conn_rx_pop chunk_lib (replicate 20 0) 0 (chunks_mid\<lparr>dc_ring := sample_head @ take 6 sample_chunks\<rparr>) =
     (Ok (20, sample_head @ [51], chunks_mid) :: (_, http_error) res)"
  "decode_at chunk_lib (phr_chunk_decoder chunk_lib) (sample_head @ [51]) 19 (Suc 0) = (- 2, 1, sample_head @ [51], 0)"
  "conn_pump chunk_lib (Arrive 50) chunks_mid = (pump_from_flags 6, (sample_conn [])\<lparr>dc_ring := drop 1 sample_chunks\<rparr>)"
  "conn_rx_pop chunk_lib (sample_head @ 51 # replicate 20 0) 19 ((sample_conn [])\<lparr>dc_ring := drop 1 sample_chunks\<rparr>) =
     (Ok (12, sample_head @ drop 1 sample_chunks @ replicate 9 0, sample_conn []) :: (_, http_error) res)"
  "decode_at chunk_lib 1 (sample_head @ drop 1 sample_chunks @ replicate 9 0) 19 12 =
     (0, 13, sample_head @ ascii ''abc'' @ drop 4 sample_chunks @ replicate 9 0, 3)"
  by (simp_all add: conn_pump_def conn_rx_pop_def decode_at_def chunk_lib_def doc_io_def sample_decode_def sample_decoded_def
      sample_conn_def chunks_mid_def sample_lists sample_head_list blit_def Let_def)

theorem read_response_chunked_witness:
  "\<exists>scratch' c' tr' now. read_response chunk_lib (replicate 20 0) (- 1) (sample_conn (sample_head @ sample_chunks)) 0
      [(Arrive 25, 1), (Arrive 50, 2)] = Some (Ok (200, 19, 3), scratch', c', tr', now) \<and>
    dc_sent c' = [] \<and> take 3 (drop 19 scratch') = ascii ''abc''"
proof -
  have head: "response_head chunk_lib sample_head 200 [(Some (ascii ''transfer-encoding''), ascii ''Chunked'')]"
    unfolding chunk_lib_def by (rule response_head_doc) (simp add: sample_head_def)
  have conn: "tcp_conn chunk_lib dc_ring doc_stream dc_sent"
    unfolding chunk_lib_def by (rule doc.tcp_conn_axioms)
  have ch: "scan_headers [(Some (ascii ''transfer-encoding''), ascii ''Chunked'')] None False = (None, True)"
    using sample_trims sample_names by (simp add: sample_utf8)
  have n: "length sample_head = 19" "length sample_chunks = 13" "length (ascii ''abc'') = 3"
    by (simp_all add: sample_head_def sample_chunks_def ascii_def)
  have s: "doc_stream (sample_conn (sample_head @ sample_chunks)) = sample_head @ sample_chunks"
    by (simp add: doc_stream_def sample_conn_def)
  have small: "length sample_head \<le> length (replicate 20 (0 :: u8))"
    "length sample_head + length sample_chunks + 4096 < 2 ^ 62" by (simp_all add: n)
  have eqs: "dc_sent (sample_conn x) = []" "(19 :: nat) + 13 = 32" "word_of_int 200 = (200 :: u16)" for x
    by (simp_all add: sample_conn_def)
  let ?tr = "[(Arrive 25, 1), (Arrive 50, 2)] :: (net_event \<times> u64) list"
  have parsed: "try_parse_headers chunk_lib (sample_head @ [51]) 20 0 =
      Complete \<lparr>header_len = 19, hi_status = 200, content_length = None, is_chunked = True\<rparr>"
    using try_parse_whole [OF head, of 20 "sample_head @ [51]" 0] n(1) by (simp add: head_info_def ch del: scan_headers.simps)
  have first: "read_headers chunk_lib (- 1) 0 (replicate 20 0) 0 (sample_conn (sample_head @ sample_chunks)) ?tr =
      Some (Ok (\<lparr>header_len = 19, hi_status = 200, content_length = None, is_chunked = True\<rparr>, 20), sample_head @ [51], chunks_mid, [(Arrive 50, 2)], 1)"
    by (simp add: chunk_calls(1,2) parsed)
  have "\<not> closed_by chunk_lib ?tr c' tr'" for c' tr' unfolding chunk_lib_def by (rule arrivals_stay_open) simp
  moreover have "late (- 1) 0 ?tr = 0" by (simp add: timed_out_def)
  moreover have "read_response chunk_lib (replicate 20 0) (- 1) (sample_conn (sample_head @ sample_chunks)) 0 ?tr \<noteq> None"
    unfolding read_response_def first
    by (simp add: n read_chunked_body_def reading_map_def chunk_calls(3) chunk_calls(4-6) [unfolded One_nat_def] vec_resize_def)
  moreover note read_response_chunked [OF conn head ch sample_chunk_run s small, of "- 1" 0 ?tr, unfolded n eqs]
  ultimately show ?thesis by (auto simp del: late_simps split: option.splits)
qed

end
