(* ===== verification/Rpc_Client_Props.thy ===== *)
theory Rpc_Client_Props
  imports Rpc_Client Rpc_Http_Props
begin

text \<open>
  Properties of \<open>SolanaRpcClient\<close>: what a call sends and returns over a connection that
  delivers bytes in order, the retry discipline, and what a hostile content length does.
\<close>

section \<open>Connections that stay up\<close>

text \<open>No pump of the trace reports that the connection failed or was closed.\<close>

definition stays_up :: "('c, 'e, 'd) io_lib \<Rightarrow> ('e \<times> u64) list \<Rightarrow> bool" where
  "stays_up lib tr \<longleftrightarrow>
     (\<forall>(e, t) \<in> set tr. \<forall>c. \<not> pr_closed (fst (conn_pump lib e c)) \<and> \<not> pr_error (fst (conn_pump lib e c)))"

lemma stays_up_Cons:
  "stays_up lib ((e, t) # tr) \<longleftrightarrow>
    (\<forall>c. \<not> pr_closed (fst (conn_pump lib e c)) \<and> \<not> pr_error (fst (conn_pump lib e c))) \<and> stays_up lib tr"
  by (simp add: stays_up_def)

lemma read_headers_up:
  "stays_up lib tr \<Longrightarrow> read_headers lib tmo start scratch filled c tr = Some (r, scratch', c', tr', now) \<Longrightarrow>
   r \<noteq> Err ConnectionClosed \<and> stays_up lib tr'"
proof (induction tr arbitrary: scratch filled c)
  case (Cons ev tr)
  obtain e t where ev: "ev = (e, t)" by fastforce
  obtain p c1 where pump: "conn_pump lib e c = (p, c1)" by fastforce
  then have up: "\<not> pr_closed p" "\<not> pr_error p" and tr: "stays_up lib tr"
    using Cons.prems(1) by (auto simp: ev stays_up_Cons) (metis fst_conv)+
  show ?case
    using Cons.prems(2) pump up tr Cons.IH [OF tr]
    by (auto simp: ev Let_def split: res.splits header_result.splits if_splits)
qed simp

lemma read_body_up:
  "stays_up lib tr \<Longrightarrow> read_body lib tmo start tot scratch filled c now tr = Some (r, rest) \<Longrightarrow>
   r \<noteq> Err ConnectionClosed"
proof (induction tr arbitrary: scratch filled c now)
  case (Cons ev tr)
  obtain e t where ev: "ev = (e, t)" by fastforce
  obtain p c1 where pump: "conn_pump lib e c = (p, c1)" by fastforce
  then have up: "\<not> pr_closed p" "\<not> pr_error p" and tr: "stays_up lib tr"
    using Cons.prems(1) by (auto simp: ev stays_up_Cons) (metis fst_conv)+
  show ?case
    using Cons.prems(2) pump up tr Cons.IH [OF tr] by (auto simp: ev Let_def split: res.splits if_splits)
qed (auto split: if_splits)

lemma reading_map_Err: "reading_map f m = Some (Err e, rest) \<longleftrightarrow> m = Some (Err e, rest)"
  by (cases rest) (auto simp: reading_map_def res_simps split: prod.splits)

lemma read_sized_body_up:
  assumes "stays_up lib tr"
  shows "read_sized_body lib tmo start info cl scratch filled c now tr \<noteq> Some (Err ConnectionClosed, rest)"
  using read_body_up [OF assms, where r = "Err ConnectionClosed" and rest = rest]
  by (auto simp: read_sized_body_def Let_def reading_map_Err split: if_splits res.splits)

lemma read_response_up:
  assumes "stays_up lib tr" and "read_response lib scratch tmo c start tr = Some (r, rest)"
    and "response_head lib hdr st hs" and "scan_headers hs None False = (Some n, ch)"
    and "prefix hdr (stream c)" and "tcp_conn lib rx stream out" and "length hdr \<le> length scratch"
  shows "r \<noteq> Err ConnectionClosed"
proof -
  have nz: "0 < length hdr" using assms(3) by (simp add: response_head_def)
  note H = tcp_conn.read_headers_stream [OF assms(6,3), of 0 scratch c tmo start tr]
  show ?thesis
  proof (cases "read_headers lib tmo start scratch 0 c tr")
    case None
    then show ?thesis using assms(2) by (simp add: read_response_def)
  next
    case (Some m)
    obtain r1 scratch1 c1 tr1 now where m: "m = (r1, scratch1, c1, tr1, now)" by (cases m)
    note up = read_headers_up [OF assms(1) Some [unfolded m]]
    show ?thesis
    proof (cases r1)
      case (Ok x)
      then have "fst x = head_info hdr st hs" using H Some m nz assms(5,7) by auto
      then have "content_length (fst x) = Some n" by (simp add: head_info_def assms(4))
      then show ?thesis
        using assms(2) up read_sized_body_up [of lib tr1 _ _ _ _ _ _ _ _ rest]
        by (cases x) (auto simp: read_response_def Some m Ok)
    qed (use assms(2) up in \<open>auto simp: read_response_def Some m\<close>)
  qed
qed

section \<open>One exchange\<close>

text \<open>The request a client puts on the wire.\<close>

definition http_request :: "'c client \<Rightarrow> bytes \<Rightarrow> bytes" where
  "http_request cl req =
     header_text (ascii ''POST'') (url_path (cl_url cl)) (url_host (cl_url cl))
       (ascii ''application/json'') (length req) @ req"

definition request_fits :: "('c, 'e, 'd) io_lib \<Rightarrow> 'c client \<Rightarrow> bytes \<Rightarrow> bool" where
  "request_fits lib cl req \<longleftrightarrow> length req < 2 ^ 64 \<and>
     length (http_request cl req) \<le> 512 + length req \<and>
     length (http_request cl req) \<le> lib_tx_free lib (cl_conn cl)"

abbreviation late_pumps :: "'c client \<Rightarrow> 'e world \<Rightarrow> nat" where
  "late_pumps cl w \<equiv> late (cl_timeout_ns cl) (clock w) (trace w)"

text \<open>What \<open>exchange\<close> makes of a response.\<close>

definition checked :: "'c client \<Rightarrow> 'e world \<Rightarrow> (u16 \<times> nat \<times> nat, 'c, 'e) reading \<Rightarrow> (nat \<times> nat, 'c, 'e) run" where
  "checked cl w m =
     map_option (\<lambda>(r, scratch1, c2, tr, t).
       (case r of
          Ok (status, off, len) \<Rightarrow> if status \<noteq> 200 then Err (Http (BadStatus status)) else Ok (off, len)
        | Err e \<Rightarrow> Err (Http e)
        | Panic \<Rightarrow> Panic,
        cl\<lparr>cl_conn := c2, cl_scratch := scratch1\<rparr>, w\<lparr>trace := tr, clock := t\<rparr>)) m"

context tcp_conn
begin

lemma exchange_unfold:
  assumes "request_fits lib cl req"
  obtains c1 where "out c1 = out (cl_conn cl) @ http_request cl req" and "stream c1 = stream (cl_conn cl)"
    and "exchange lib req cl w =
      checked cl w (read_response lib (cl_scratch cl) (cl_timeout_ns cl) c1 (clock w) (trace w))"
proof -
  let ?h = "header_text (ascii ''POST'') (url_path (cl_url cl)) (url_host (cl_url cl))
      (ascii ''application/json'') (length req)"
  have fits: "length ?h \<le> 512" "length ?h + length req \<le> lib_tx_free lib (cl_conn cl)"
    "length req < 2 ^ 64"
    using assms by (simp_all add: request_fits_def http_request_def)
  obtain c1 where c1: "write_request lib (ascii ''POST'') (url_path (cl_url cl)) (url_host (cl_url cl))
      (ascii ''application/json'') req (cl_conn cl) = (Ok (), c1)"
    "out c1 = out (cl_conn cl) @ ?h @ req" "stream c1 = stream (cl_conn cl)"
    using write_request_out [OF refl fits(3), of "ascii ''POST''" "url_path (cl_url cl)"
        "url_host (cl_url cl)" "ascii ''application/json''" "cl_conn cl"] fits(1,2)
    by auto
  show thesis
    using that [of c1] c1
    by (auto simp: exchange_def checked_def http_request_def Let_def split: option.splits res.splits)
qed

lemma exchange_sized:
  assumes fits: "request_fits lib cl req" and up: "stays_up lib (trace w)"
    and head: "response_head lib hdr 200 hs" and str: "stream (cl_conn cl) = hdr @ body @ rest"
    and len: "length hdr \<le> length (cl_scratch cl)" "length hdr + length body < 2 ^ 63"
    and cl: "scan_headers hs None False = (Some (word_of_nat (length body)), ch)"
  shows "case exchange lib req cl w of
      None \<Rightarrow> late_pumps cl w < length hdr + length body
    | Some (r, cl', w') \<Rightarrow> out (cl_conn cl') = out (cl_conn cl) @ http_request cl req \<and>
        cl_next_id cl' = cl_next_id cl \<and> slept w' = slept w \<and>
        (r = Err (Http ResponseIncomplete) \<and> 0 < late_pumps cl w \<or>
         r = Ok (length hdr, length body) \<and> prefix (hdr @ body) (cl_scratch cl'))"
proof -
  obtain c1 where c1: "out c1 = out (cl_conn cl) @ http_request cl req" "stream c1 = hdr @ body @ rest"
    and ex: "exchange lib req cl w =
      checked cl w (read_response lib (cl_scratch cl) (cl_timeout_ns cl) c1 (clock w) (trace w))"
    by (rule exchange_unfold [OF fits, of w]) (simp add: str)
  note R = read_response_sized [OF head c1(2) len cl, of "cl_timeout_ns cl" "clock w" "trace w"]
  have pre: "prefix hdr (stream c1)" by (simp add: c1(2))
  note U = read_response_up [OF up _ head cl pre tcp_conn_axioms len(1)]
  show ?thesis
  proof (cases "read_response lib (cl_scratch cl) (cl_timeout_ns cl) c1 (clock w) (trace w)")
    case None
    then show ?thesis using R by (simp add: ex checked_def)
  next
    case (Some m)
    obtain r scratch1 c2 tr t where m: "m = (r, scratch1, c2, tr, t)" by (cases m)
    show ?thesis using R U [OF Some [unfolded m]] c1(1) by (auto simp: ex checked_def Some m)
  qed
qed

lemma send_and_recv_exchange:
  assumes "length (render (request_json (cl_next_id cl) method p)) \<le> 4096"
  shows "send_and_recv lib method (render p) cl w =
    exchange lib (render (request_json (cl_next_id cl) method p)) (cl\<lparr>cl_next_id := cl_next_id cl + 1\<rparr>) w"
proof -
  have "serialize_request (replicate 4096 0) method (render p) (cl_next_id cl) =
      Ok (bw_state (replicate 4096 0) (render (request_json (cl_next_id cl) method p)))"
    using assms put_all_exact [of "[]" "replicate 4096 0" SerializeTooLarge
        "request_pieces (cl_next_id cl) method (render p)"]
    by (simp add: serialize_request_put_all request_render)
  then show ?thesis by (simp add: send_and_recv_def next_id_def bw_state_def)
qed

lemma call_sized:
  assumes fits: "request_fits lib cl (render (request_json (cl_next_id cl) method p))"
    and small: "length (render (request_json (cl_next_id cl) method p)) \<le> 4096"
    and up: "stays_up lib (trace w)"
    and head: "response_head lib hdr 200 hs" and str: "stream (cl_conn cl) = hdr @ body @ rest"
    and len: "length hdr \<le> length (cl_scratch cl)" "length hdr + length body < 2 ^ 63"
    and cl: "scan_headers hs None False = (Some (word_of_nat (length body)), ch)"
  shows "case call lib method (render p) cl w of
      None \<Rightarrow> late_pumps cl w < length hdr + length body
    | Some (r, cl', w') \<Rightarrow>
        out (cl_conn cl') = out (cl_conn cl) @ http_request cl (render (request_json (cl_next_id cl) method p)) \<and>
        cl_next_id cl' = cl_next_id cl + 1 \<and> slept w' = slept w \<and>
        (r = Err (Http ResponseIncomplete) \<and> 0 < late_pumps cl w \<or>
         r = map_err JsonRpc (response_parse body))"
proof -
  let ?req = "render (request_json (cl_next_id cl) method p)"
  let ?cl = "cl\<lparr>cl_next_id := cl_next_id cl + 1\<rparr>"
  have same: "http_request ?cl ?req = http_request cl ?req" by (simp add: http_request_def)
  then have fits': "request_fits lib ?cl ?req" using fits by (simp add: request_fits_def)
  note E = exchange_sized [OF fits' up head _ _ len(2) cl, of rest]
  show ?thesis
  proof (cases "exchange lib ?req ?cl w")
    case None
    then show ?thesis
      using E str len
      by (simp add: call_def upt_rec call_attempt_def send_and_recv_exchange [OF small])
  next
    case (Some m)
    obtain r cl' w' where m: "m = (r, cl', w')" by (cases m)
    have facts: "out (cl_conn cl') = out (cl_conn cl) @ http_request cl ?req"
      "cl_next_id cl' = cl_next_id cl + 1" "slept w' = slept w"
      "r = Err (Http ResponseIncomplete) \<and> 0 < late_pumps cl w \<or>
       r = Ok (length hdr, length body) \<and> prefix (hdr @ body) (cl_scratch cl')"
      using E str len Some m same by auto
    have body: "slice (cl_scratch cl') (length hdr) (length hdr + length body) = (Ok body :: (_, rpc_error) res)"
      if "prefix (hdr @ body) (cl_scratch cl')"
      using that by (auto simp: slice_def prefix_def)
    show ?thesis
      using facts body
      by (auto simp: call_def upt_rec call_attempt_def send_and_recv_exchange [OF small] Some m)
  qed
qed

text \<open>A content length that makes \<open>header_len + cl\<close> wrap.\<close>

lemma read_response_wraps:
  assumes head: "response_head lib hdr st hs" and "stream c = hdr @ rest"
    and "length hdr \<le> length scratch" and "2 ^ 64 \<le> length hdr + unat cl"
    and "length hdr < 2 ^ 63" and cl: "scan_headers hs None False = (Some cl, ch)"
  shows "case read_response lib scratch tmo c start tr of
      None \<Rightarrow> late tmo start tr < length hdr
    | Some (r, scratch', c', tr', now) \<Rightarrow> length scratch' = length scratch \<and>
        (r = Err ConnectionClosed \<or> r = Err ResponseIncomplete \<and> 0 < late tmo start tr \<or>
         r = Ok (word_of_int st, length hdr, unat cl))"
proof -
  note H = read_headers_stream [OF head, of 0 scratch c tmo start tr]
  let ?info = "head_info hdr st hs" and ?tot = "(length hdr + unat cl) mod 2 ^ 64"
  have info: "content_length ?info = Some cl" "header_len ?info = length hdr"
    "hi_status ?info = word_of_int st"
    by (simp_all add: head_info_def cl)
  have "?tot = length hdr + unat cl - 2 ^ 64"
    using assms(4,5) unsigned_less [of cl, where 'a = nat] by (simp add: mod_if)
  then have wrap: "?tot < length hdr"
    using assms(4,5) unsigned_less [of cl, where 'a = nat] by simp
  have finished: "read_body lib tmo start ?tot scratch1 filled c1 now tr1 = Some (Ok (), scratch1, c1, tr1, now)"
    if "length hdr \<le> filled" for scratch1 filled c1 now tr1
    using wrap that by (cases tr1) auto
  have sized: "read_sized_body lib tmo start ?info cl scratch1 filled c1 now tr1 =
      Some (Ok (word_of_int st, length hdr, unat cl), scratch1, c1, tr1, now)"
    if "length hdr \<le> filled" "length scratch1 = length scratch" for scratch1 filled c1 now tr1
  proof -
    have "(if ?tot > length scratch1 then vec_resize scratch1 ?tot else Ok scratch1) =
        (Ok scratch1 :: (_, http_error) res)"
      using wrap that(2) assms(3) by simp
    then show ?thesis
      by (simp only: read_sized_body_def info Let_def res.case finished [OF that(1)] reading_map_def
          option.map prod.case res_bind.simps)
  qed
  show ?thesis
  proof (cases "read_headers lib tmo start scratch 0 c tr")
    case None
    then show ?thesis using H assms head by (auto simp: read_response_def response_head_def)
  next
    case (Some m)
    obtain r scratch1 c1 tr1 now where m: "m = (r, scratch1, c1, tr1, now)" by (cases m)
    show ?thesis
      using H assms(2,3) head sized info(1)
      by (cases r) (auto simp: read_response_def Some m response_head_def)
  qed
qed

end

section \<open>Retries\<close>

text \<open>
  \<open>retries lib m p s k s'\<close>: from state \<open>s\<close>, \<open>k\<close> attempts in a row were answered with status 429,
  and the client slept after each of them, twice as long every time up to 3.2 seconds.
\<close>

inductive retries ::
  "('c, 'e, 'd) io_lib \<Rightarrow> bytes \<Rightarrow> bytes \<Rightarrow> 'c client \<times> 'e world \<Rightarrow> nat \<Rightarrow> 'c client \<times> 'e world \<Rightarrow> bool"
  for lib m params s where
  no_retry: "retries lib m params s 0 s"
| one_more: "retries lib m params s k (cl, w) \<Longrightarrow>
    call_attempt lib m params cl w = Some (Err (Http (BadStatus 429)), cl1, w1) \<Longrightarrow>
    retries lib m params s (Suc k) (cl1, w1\<lparr>slept := slept w1 @ [Millis (200 * 2 ^ min k 4)]\<rparr>)"

definition call_result :: "(nat \<times> nat, 'c, 'e) run \<Rightarrow> (json_scan, 'c, 'e) run" where
  "call_result m =
     (case m of
        None \<Rightarrow> None
      | Some (r, cl, w) \<Rightarrow>
          Some (case r of
              Ok (off, len) \<Rightarrow> res_bind (slice (cl_scratch cl) off (off + len))
                (\<lambda>body. map_err JsonRpc (response_parse body))
            | Err e \<Rightarrow> Err e
            | Panic \<Rightarrow> Panic, cl, w))"

definition busy :: "(nat \<times> nat, 'c, 'e) run \<Rightarrow> bool" where
  "busy m \<longleftrightarrow> (case m of Some (Err e, _) \<Rightarrow> e = Http (BadStatus 429) | _ \<Rightarrow> False)"

lemma call_loop_retries:
  assumes "k \<le> 5" and "retries lib method params s k (cl, w)"
  shows "\<exists>k' cl1 w1. k' \<le> 5 \<and> retries lib method params s k' (cl1, w1) \<and>
    (busy (call_attempt lib method params cl1 w1) \<longrightarrow> k' = 5) \<and>
    call_loop lib method params [k..<6] cl w = call_result (call_attempt lib method params cl1 w1)"
  using assms
proof (induction "5 - k" arbitrary: k cl w)
  case 0
  then have "[k..<6] = [5]" "k = 5" by (simp_all add: upt_rec)
  then show ?case
    using "0.prems"(2)
    by (intro exI [of _ 5] exI [of _ cl] exI [of _ w])
      (auto simp: call_result_def split: option.splits res.splits)
next
  case (Suc n)
  then have k: "k < 5" and up: "[k..<6] = k # [Suc k..<6]" by (simp_all add: upt_rec)
  let ?m = "call_attempt lib method params cl w"
  show ?case
  proof (cases "busy ?m")
    case True
    then obtain cl1 w1 where m: "?m = Some (Err (Http (BadStatus 429)), cl1, w1)"
      by (auto simp: busy_def split: option.splits res.splits)
    let ?w = "w1\<lparr>slept := slept w1 @ [Millis (200 * 2 ^ min k 4)]\<rparr>"
    have ms: "backoff_ms k = 200 * 2 ^ min k 4"
      by (simp add: backoff_ms_def push_bit_eq_mult)
    have "retries lib method params s (Suc k) (cl1, ?w)"
      by (rule one_more [OF Suc.prems(2) m])
    then show ?thesis
      using Suc.hyps(1) [of "Suc k" cl1 ?w] Suc.hyps(2) k by (simp add: up m ms)
  next
    case False
    then have "call_loop lib method params [k..<6] cl w = call_result ?m"
      by (auto simp: up call_result_def busy_def split: option.splits res.splits)
    then show ?thesis using Suc.prems False by blast
  qed
qed

section \<open>Properties\<close>

text \<open>C14: the retry discipline of \<open>call\<close>. Every call is at most six attempts, all but the
  last answered with status 429 and followed by a sleep of 200, 400, 800, 1600 and 3200
  milliseconds; the result of the call is that of the last attempt, which is busy only after five
  retries, and the loop never reaches its \<open>unreachable!()\<close>. Only a 429 is retried.\<close>

theorem call_retry_discipline:
  "\<exists>k cl1 w1. k \<le> 5 \<and> retries lib method params (cl, w) k (cl1, w1) \<and>
    (busy (call_attempt lib method params cl1 w1) \<longrightarrow> k = 5) \<and>
    call lib method params cl w = call_result (call_attempt lib method params cl1 w1)"
  unfolding call_def by (rule call_loop_retries) (auto intro: no_retry)

definition sample_url :: url_parts where
  "sample_url = url_parts_of \<lparr>u_scheme = [], u_host = ascii ''h'', u_port = [], u_tail = []\<rparr>"

definition sample_client :: "bytes \<Rightarrow> doc_conn client" where
  "sample_client s =
     \<lparr>cl_conn = sample_conn s, cl_next_id = 1, cl_url = sample_url, cl_addr = 0,
      cl_timeout_ns = 1000, cl_scratch = replicate 64 0\<rparr>"

definition sample_world :: "net_event world" where
  "sample_world = \<lparr>trace = [(Arrive 7, 1), (Arrive 50, 2), (Arrive 9, 3)], clock = 0, slept = []\<rparr>"

theorem call_retry_discipline_witness:
  "\<exists>k cl1 w1. k \<le> 5 \<and>
    retries sized_lib (ascii ''getHealth'') (ascii ''[]'') (sample_client [], sample_world) k (cl1, w1) \<and>
    (busy (call_attempt sized_lib (ascii ''getHealth'') (ascii ''[]'') cl1 w1) \<longrightarrow> k = 5)"
  using call_retry_discipline by blast

text \<open>A server that answers with a given content length.\<close>

definition sample_lib :: "string \<Rightarrow> (doc_conn, net_event, nat) io_lib" where
  "sample_lib n = doc_io (head_parser sample_head 200 [(Some (ascii ''Content-Length''), ascii n)]) 0
     (\<lambda>d b. (- 1, d, b, 0))"

definition sample_request :: bytes where
  "sample_request = render (request_json 1 (ascii ''getHealth'') (JArr0 []))"

definition sample_reply :: json where
  "sample_reply = JObj [] (MLast (ascii ''result'') [] [] (JStr (ascii ''ok'')) [])"

lemma sample_url_text: "url_path sample_url = ascii ''/''" "url_host sample_url = ascii ''h''"
  by code_simp+

lemma sample_lengths: "length sample_request = 57" "length (dec 57) = 2" "length (render sample_reply) = 15"
  by code_simp+

lemma sample_request_length: "length (http_request (sample_client s) sample_request) \<le> 500"
  by (simp add: http_request_def sample_client_def sample_url_text header_text_def sample_lengths ascii_def)

lemma sample_fits: "request_fits (sample_lib n) (sample_client s) sample_request"
  using sample_request_length [of s]
  by (simp add: request_fits_def sample_lengths)
    (simp add: sample_client_def sample_conn_def sample_lib_def doc_io_def)

lemma sample_up: "stays_up (sample_lib n) (trace sample_world)"
  by (simp add: stays_up_def sample_world_def conn_pump_def sample_lib_def doc_io_def Let_def
      pump_from_flags_def pump_flag_def)

lemma sample_lib_conn: "tcp_conn (sample_lib n) dc_ring doc_stream dc_sent"
  unfolding sample_lib_def by (rule doc.tcp_conn_axioms)

lemma sample_lib_head: "response_head (sample_lib n) sample_head 200 [(Some (ascii ''Content-Length''), ascii n)]"
  unfolding sample_lib_def by (rule response_head_doc) (simp add: sample_head_def)

lemma sample_content_lengths:
  "scan_headers [(Some (ascii ''Content-Length''), ascii ''15'')] None False = (Some 15, False)"
  "scan_headers [(Some (ascii ''Content-Length''), ascii ''18446744073709551615'')] None False = (Some (- 1), False)"
proof -
  have trim: "str_trim (ascii ''15'') = ascii ''15''"
    "str_trim (ascii ''18446744073709551615'') = ascii ''18446744073709551615''"
    by (simp_all add: str_trim_def strip.simps ws_len_def unicode_ws_def ascii_def upt_rec)
  have num: "parse_u64 (ascii ''15'') = Some 15" "parse_u64 (ascii ''18446744073709551615'') = Some (- 1)"
    by (simp_all add: parse_u64_def ascii_def digits_value_def is_ascii_digit_def)
  have utf8: "from_utf8 (ascii ''15'') = Some (ascii ''15'')"
    "from_utf8 (ascii ''18446744073709551615'') = Some (ascii ''18446744073709551615'')"
    by code_simp+
  show "scan_headers [(Some (ascii ''Content-Length''), ascii ''15'')] None False = (Some 15, False)"
    by (simp add: sample_names utf8 trim num)
  show "scan_headers [(Some (ascii ''Content-Length''), ascii ''18446744073709551615'')] None False =
      (Some (- 1), False)"
    by (simp add: sample_names utf8 trim num)
qed

lemma sample_head_length: "length sample_head = 19"
  by (simp add: sample_head_def ascii_def)

lemma sample_client_fields:
  "doc_stream (cl_conn (sample_client s)) = s" "cl_next_id (sample_client s) = 1"
  "length (cl_scratch (sample_client s)) = 64" "dc_sent (cl_conn (sample_client s)) = []"
  by (simp_all add: sample_client_def sample_conn_def doc_stream_def)

text \<open>C3: a call end to end. Over any connection that delivers bytes in order and stays up, a
  call puts exactly one HTTP request with the JSON-RPC request on the wire, uses up one id, and,
  for a 200 response with a content length whose body is JSON, returns what the body
  says: its error, a scanner at its result, or the missing-field error. The alternatives are a
  timeout when a pump came after the deadline, and waiting, which ends once there were as
  many pumps past the deadline as the response has bytes. The id in the response plays no role.\<close>

theorem call_end_to_end:
  assumes "tcp_conn lib rx stream out" and "stays_up lib (trace w)"
    and "response_head lib hdr 200 hs"
    and "scan_headers hs None False = (Some (word_of_nat (length body)), ch)"
    and "stream (cl_conn cl) = hdr @ body @ rest" and "body = sp @ render v @ sp'"
    and "wf_json v" and "all_ws sp" and "all_ws sp'"
    and "\<And>e. map_of (obj_members v) (ascii ''error'') = Some e \<Longrightarrow> is_obj e \<Longrightarrow> error_members_ok e"
    and "request_fits lib cl (render (request_json (cl_next_id cl) method p))"
    and "length (render (request_json (cl_next_id cl) method p)) \<le> 4096"
    and "length hdr \<le> length (cl_scratch cl)" and "length hdr + length body < 2 ^ 63"
  shows "case call lib method (render p) cl w of
      None \<Rightarrow> late_pumps cl w < length hdr + length body
    | Some (r, cl', w') \<Rightarrow>
        out (cl_conn cl') = out (cl_conn cl) @ http_request cl (render (request_json (cl_next_id cl) method p)) \<and>
        cl_next_id cl' = cl_next_id cl + 1 \<and> slept w' = slept w \<and>
        (r = Err (Http ResponseIncomplete) \<and> 0 < late_pumps cl w \<or>
         (\<exists>r0. r = map_err JsonRpc r0 \<and> outcome_matches (outcome_of v) r0))"
proof -
  have "points_at (json_new body) v" using json_new_points_at assms(6-9) by auto
  then have "outcome_matches (outcome_of v) (response_parse body)"
    unfolding response_parse_def by (rule response_of_points_at [OF _ assms(7,10)])
  then show ?thesis
    using tcp_conn.call_sized [OF assms(1,11,12,2,3,5,13,14,4)]
    by (fastforce split: option.splits prod.splits)
qed

theorem call_end_to_end_witness:
  "case call (sample_lib ''15'') (ascii ''getHealth'') (render (JArr0 []))
      (sample_client (sample_head @ render sample_reply)) sample_world of
     None \<Rightarrow> late_pumps (sample_client (sample_head @ render sample_reply)) sample_world < 34
   | Some (r, cl', w') \<Rightarrow>
       dc_sent (cl_conn cl') = http_request (sample_client (sample_head @ render sample_reply)) sample_request \<and>
       cl_next_id cl' = 2 \<and> slept w' = slept sample_world \<and>
       (r = Err (Http ResponseIncomplete) \<and>
          0 < late_pumps (sample_client (sample_head @ render sample_reply)) sample_world \<or>
        (\<exists>r0. r = map_err JsonRpc r0 \<and> outcome_matches (outcome_of sample_reply) r0))"
proof -
  let ?cl = "sample_client (sample_head @ render sample_reply)"
  have wf: "wf_json sample_reply" "all_ws []" "all_ws []" by code_simp+
  have str: "doc_stream (cl_conn ?cl) = sample_head @ render sample_reply @ []"
    by (simp add: sample_client_fields)
  have cl: "scan_headers [(Some (ascii ''Content-Length''), ascii ''15'')] None False =
      (Some (word_of_nat (length (render sample_reply))), False)"
    unfolding sample_content_lengths sample_lengths by simp
  have e: "map_of (obj_members sample_reply) (ascii ''error'') = Some e \<Longrightarrow> error_members_ok e" for e
    by (simp add: sample_reply_def ascii_def)
  note T = call_end_to_end [OF sample_lib_conn sample_up sample_lib_head cl str _ wf, of "ascii ''getHealth''" "JArr0 []"]
  show ?thesis
    using T unfolding sample_head_length sample_lengths sample_client_fields sample_request_def [symmetric]
    using sample_fits e sample_lengths(1) by (auto split: option.splits)
qed

text \<open>A hostile content length makes the client panic. When the header length plus the
  announced content length exceeds 64 bits, the sum wraps, the client takes the response for
  complete, and slicing the body out of the scratch buffer panics.\<close>

theorem content_length_overflow_panics:
  assumes "tcp_conn lib rx stream out" and "stays_up lib (trace w)"
    and "response_head lib hdr 200 hs" and "scan_headers hs None False = (Some n, ch)"
    and "2 ^ 64 \<le> length hdr + unat n" and "stream (cl_conn cl) = hdr @ rest"
    and "request_fits lib cl (render (request_json (cl_next_id cl) method p))"
    and "length (render (request_json (cl_next_id cl) method p)) \<le> 4096"
    and "length hdr \<le> length (cl_scratch cl)" and "length (cl_scratch cl) < 2 ^ 63"
  shows "case call lib method (render p) cl w of
      None \<Rightarrow> late_pumps cl w < length hdr
    | Some (r, cl', w') \<Rightarrow> r = Panic \<or> r = Err (Http ResponseIncomplete) \<and> 0 < late_pumps cl w"
proof -
  let ?req = "render (request_json (cl_next_id cl) method p)"
  let ?cl = "cl\<lparr>cl_next_id := cl_next_id cl + 1\<rparr>"
  have "http_request ?cl ?req = http_request cl ?req" by (simp add: http_request_def)
  then have "request_fits lib ?cl ?req" using assms(7) by (simp add: request_fits_def)
  then obtain c1 where c1: "stream c1 = hdr @ rest"
    and ex: "exchange lib ?req ?cl w =
      checked ?cl w (read_response lib (cl_scratch cl) (cl_timeout_ns cl) c1 (clock w) (trace w))"
    using tcp_conn.exchange_unfold [OF assms(1), of ?cl ?req w] assms(6) by auto
  note R = tcp_conn.read_response_wraps [OF assms(1,3) c1 assms(9,5) _ assms(4),
      of "cl_timeout_ns cl" "clock w" "trace w"]
  have pre: "prefix hdr (stream c1)" by (simp add: c1)
  note U = read_response_up [OF assms(2) _ assms(3,4) pre assms(1,9)]
  show ?thesis
  proof (cases "read_response lib (cl_scratch cl) (cl_timeout_ns cl) c1 (clock w) (trace w)")
    case None
    then show ?thesis
      using R assms(9,10)
      by (simp add: call_def upt_rec call_attempt_def
          tcp_conn.send_and_recv_exchange [OF assms(1,8)] ex checked_def)
  next
    case (Some m)
    obtain r scratch1 c2 tr t where m: "m = (r, scratch1, c2, tr, t)" by (cases m)
    have "slice scratch1 (length hdr) (length hdr + unat n) = (Panic :: (_, rpc_error) res)"
      if "length scratch1 = length (cl_scratch cl)"
      using that assms(5,10) by (simp add: slice_def)
    then show ?thesis
      using R U [OF Some [unfolded m]] assms(9,10)
      by (auto simp: call_def upt_rec call_attempt_def
          tcp_conn.send_and_recv_exchange [OF assms(1,8)] ex checked_def Some m)
  qed
qed

theorem content_length_overflow_panics_witness:
  "case call (sample_lib ''18446744073709551615'') (ascii ''getHealth'') (render (JArr0 []))
      (sample_client sample_head) sample_world of
     None \<Rightarrow> late_pumps (sample_client sample_head) sample_world < 19
   | Some (r, cl', w') \<Rightarrow> r = Panic \<or>
       r = Err (Http ResponseIncomplete) \<and> 0 < late_pumps (sample_client sample_head) sample_world"
proof -
  let ?cl = "sample_client sample_head"
  have str: "doc_stream (cl_conn ?cl) = sample_head @ []" by (simp add: sample_client_fields)
  have big: "2 ^ 64 \<le> length sample_head + unat (- 1 :: u64)"
    by (simp add: sample_head_length unsigned_minus_1_eq_mask mask_eq_exp_minus_1)
  note T = content_length_overflow_panics [OF sample_lib_conn sample_up sample_lib_head
      sample_content_lengths(2) big str, of "ascii ''getHealth''" "JArr0 []"]
  show ?thesis
    using T unfolding sample_head_length sample_lengths sample_client_fields sample_request_def [symmetric]
    using sample_fits sample_lengths(1) by simp
qed

end
