(* ===== verification/Rpc_Io.thy ===== *)
theory Rpc_Io
  imports Rpc_Http_Props
begin

text \<open>
  The connection of \<open>fd_rpc_sys/csrc/fd_rpc_io.c\<close> (built with \<open>FD_HAS_OPENSSL\<close>), which provides
  the transport that \<open>Rpc_Http\<close> uses: its state machine, \<open>connect\<close>, the three kinds of \<open>pump\<close> and
  \<open>close\<close>. The ring buffers (\<open>fd_h2_rbuf\<close>) are the parameter \<open>rbuf_lib\<close>. What the system and
  OpenSSL calls return is an input: \<open>connect_outcome\<close> for a connect, \<open>io_event\<close> for a pump. The
  bytes on the wire and the numbers of open sockets, SSL contexts and SSL handles are part of
  the state.
\<close>

unbundle bit_operations_syntax

section \<open>Data\<close>

definition IO_DISCONNECTED :: int where "IO_DISCONNECTED = 0"
definition IO_CONNECTING :: int where "IO_CONNECTING = 1"
definition IO_TLS_HANDSHAKE :: int where "IO_TLS_HANDSHAKE = 2"
definition IO_READY :: int where "IO_READY = 3"
definition IO_ERROR :: int where "IO_ERROR = 4"

lemmas io_state_defs = IO_DISCONNECTED_def IO_CONNECTING_def IO_TLS_HANDSHAKE_def IO_READY_def IO_ERROR_def

definition PUMP_CONNECTED :: u32 where "PUMP_CONNECTED = 1"
definition PUMP_RX_DATA :: u32 where "PUMP_RX_DATA = 2"
definition PUMP_TX_DRAIN :: u32 where "PUMP_TX_DRAIN = 4"
definition PUMP_ERROR :: u32 where "PUMP_ERROR = 8"
definition PUMP_CLOSED :: u32 where "PUMP_CLOSED = 16"

definition EPIPE :: int where "EPIPE = 32"
definition EINPROGRESS :: int where "EINPROGRESS = 115"
definition SSL_ERROR_WANT_READ :: int where "SSL_ERROR_WANT_READ = 2"
definition SSL_ERROR_WANT_WRITE :: int where "SSL_ERROR_WANT_WRITE = 3"

text \<open>\<open>rb_recv k w b\<close> moves up to \<open>k\<close> bytes of the incoming bytes \<open>w\<close> to the ring, \<open>rb_send k w b\<close>
  up to \<open>k\<close> bytes of the ring to the end of the outgoing bytes \<open>w\<close>.\<close>

record 'b rbuf_lib =
  rb_init :: "nat \<Rightarrow> 'b"
  rb_used :: "'b \<Rightarrow> nat"
  rb_free :: "'b \<Rightarrow> nat"
  rb_push :: "bytes \<Rightarrow> 'b \<Rightarrow> 'b"
  rb_pop :: "nat \<Rightarrow> 'b \<Rightarrow> bytes \<times> 'b"
  rb_recv :: "nat \<Rightarrow> bytes \<Rightarrow> 'b \<Rightarrow> 'b \<times> bytes"
  rb_send :: "nat \<Rightarrow> bytes \<Rightarrow> 'b \<Rightarrow> 'b \<times> bytes"

record connect_outcome =
  co_socket :: int
  co_socket_errno :: int
  co_connect :: int
  co_connect_errno :: int
  co_ssl_ctx :: bool
  co_ssl :: bool
  co_incoming :: bytes

record io_event =
  ev_nfds :: int
  ev_poll_err :: bool
  ev_poll_out :: bool
  ev_so_error :: int
  ev_handshake :: int
  ev_ssl_error :: int
  ev_read_err :: int
  ev_read_max :: nat
  ev_write_err :: int
  ev_write_max :: nat

record 'b rpc_io =
  io_sock_fd :: int
  io_state :: int
  io_err :: int
  io_ssl_ctx :: bool
  io_ssl :: bool
  io_hs_done :: bool
  io_rx :: 'b
  io_tx :: 'b
  io_next_connect :: connect_outcome
  io_peer :: "u32 \<times> u16"
  io_ssl_host :: "bytes option"
  io_incoming :: bytes
  io_outgoing :: bytes
  io_fds :: nat
  io_ctxs :: nat
  io_ssls :: nat

section \<open>Operations\<close>

definition fd_rpc_io_new :: "'b rbuf_lib \<Rightarrow> connect_outcome \<Rightarrow> nat \<Rightarrow> nat \<Rightarrow> 'b rpc_io" where
  "fd_rpc_io_new rb co rx_bufsz tx_bufsz =
     \<lparr>io_sock_fd = - 1, io_state = IO_DISCONNECTED, io_err = 0, io_ssl_ctx = False, io_ssl = False,
      io_hs_done = False, io_rx = rb_init rb rx_bufsz, io_tx = rb_init rb tx_bufsz,
      io_next_connect = co, io_peer = (0, 0), io_ssl_host = None, io_incoming = [], io_outgoing = [], io_fds = 0, io_ctxs = 0, io_ssls = 0\<rparr>"

text \<open>The TLS part of \<open>fd_rpc_io_connect\<close>, after the socket was connected. \<open>io_peer\<close> is what the socket
  is connected to, \<open>io_ssl_host\<close> the name the certificate is checked against.\<close>

definition connect_tls :: "connect_outcome \<Rightarrow> bytes option \<Rightarrow> 'b rpc_io \<Rightarrow> int \<times> 'b rpc_io" where
  "connect_tls co hostname io =
     (if \<not> co_ssl_ctx co
      then (- 1, io\<lparr>io_fds := io_fds io - 1, io_sock_fd := - 1, io_state := IO_ERROR\<rparr>)
      else let io1 = io\<lparr>io_ssl_ctx := True, io_ctxs := io_ctxs io + 1\<rparr>
      in if \<not> co_ssl co
         then (- 1, io1\<lparr>io_ctxs := io_ctxs io1 - 1, io_ssl_ctx := False, io_fds := io_fds io1 - 1,
                       io_sock_fd := - 1, io_state := IO_ERROR\<rparr>)
         else (0, io1\<lparr>io_ssl := True, io_ssls := io_ssls io1 + 1, io_ssl_host := hostname, io_hs_done := False,
                     io_state := if co_connect co = 0 then IO_TLS_HANDSHAKE else IO_CONNECTING\<rparr>))"

definition fd_rpc_io_connect ::
  "u32 \<Rightarrow> u16 \<Rightarrow> bool \<Rightarrow> bytes option \<Rightarrow> 'b rpc_io \<Rightarrow> int \<times> 'b rpc_io" where
  "fd_rpc_io_connect addr port use_tls hostname io =
     (let co = io_next_connect io
      in if io_state io \<noteq> IO_DISCONNECTED then (- 1, io)
         else if co_socket co < 0
         then (- 1, io\<lparr>io_err := co_socket_errno co, io_state := IO_ERROR\<rparr>)
         else if co_connect co < 0 \<and> co_connect_errno co \<noteq> EINPROGRESS
         then (- 1, io\<lparr>io_err := co_connect_errno co, io_state := IO_ERROR\<rparr>)
         else let io1 = io\<lparr>io_fds := io_fds io + 1, io_sock_fd := co_socket co, io_peer := (addr, port),
                          io_incoming := co_incoming co, io_outgoing := []\<rparr>
         in if use_tls then connect_tls co hostname io1
            else (0, io1\<lparr>io_state := if co_connect co = 0 then IO_READY else IO_CONNECTING\<rparr>))"

definition fd_rpc_io_pump_connecting :: "io_event \<Rightarrow> 'b rpc_io \<Rightarrow> u32 \<times> 'b rpc_io" where
  "fd_rpc_io_pump_connecting ev io =
     (if ev_nfds ev \<le> 0 then (0, io)
      else if ev_poll_err ev
      then (PUMP_ERROR, io\<lparr>io_err := ev_so_error ev, io_state := IO_ERROR\<rparr>)
      else if ev_poll_out ev
      then (PUMP_CONNECTED, io\<lparr>io_state := if io_ssl io then IO_TLS_HANDSHAKE else IO_READY\<rparr>)
      else (0, io))"

definition fd_rpc_io_pump_tls :: "io_event \<Rightarrow> 'b rpc_io \<Rightarrow> u32 \<times> 'b rpc_io" where
  "fd_rpc_io_pump_tls ev io =
     (if io_hs_done io then (0, io)
      else if ev_handshake ev \<le> 0
      then (if ev_ssl_error ev = SSL_ERROR_WANT_READ \<or> ev_ssl_error ev = SSL_ERROR_WANT_WRITE then (0, io)
            else (PUMP_ERROR, io\<lparr>io_err := ev_ssl_error ev, io_state := IO_ERROR\<rparr>))
      else (PUMP_CONNECTED, io\<lparr>io_hs_done := True, io_state := IO_READY\<rparr>))"

text \<open>Receiving into and sending from the rings.\<close>

definition io_receive :: "'b rbuf_lib \<Rightarrow> nat \<Rightarrow> 'b rpc_io \<Rightarrow> 'b rpc_io" where
  "io_receive rb k io =
     (case rb_recv rb k (io_incoming io) (io_rx io) of (b, w) \<Rightarrow> io\<lparr>io_rx := b, io_incoming := w\<rparr>)"

definition io_transmit :: "'b rbuf_lib \<Rightarrow> nat \<Rightarrow> 'b rpc_io \<Rightarrow> 'b rpc_io" where
  "io_transmit rb k io =
     (case rb_send rb k (io_outgoing io) (io_tx io) of (b, w) \<Rightarrow> io\<lparr>io_tx := b, io_outgoing := w\<rparr>)"

text \<open>\<open>fd_rpc_io_pump_ready\<close> over TLS; a failed \<open>fd_h2_rbuf_ssl_write\<close> writes nothing and is not
  reported.\<close>

definition pump_ready_tls :: "'b rbuf_lib \<Rightarrow> io_event \<Rightarrow> 'b rpc_io \<Rightarrow> u32 \<times> 'b rpc_io" where
  "pump_ready_tls rb ev io =
     (let io1 = io_receive rb (ev_read_max ev) io;
          read_sz = length (io_incoming io) - length (io_incoming io1)
      in if ev_read_err ev \<noteq> 0 \<and> ev_read_err ev \<noteq> SSL_ERROR_WANT_READ
         then (PUMP_ERROR OR PUMP_CLOSED, io1\<lparr>io_err := ev_read_err ev, io_state := IO_ERROR\<rparr>)
         else let io2 = (if ev_write_err ev \<noteq> 0 then io1 else io_transmit rb (ev_write_max ev) io1);
                  write_sz = length (io_outgoing io2) - length (io_outgoing io1)
              in ((if read_sz > 0 then PUMP_RX_DATA else 0) OR (if write_sz > 0 then PUMP_TX_DRAIN else 0), io2))"

definition pump_ready_plain :: "'b rbuf_lib \<Rightarrow> io_event \<Rightarrow> 'b rpc_io \<Rightarrow> u32 \<times> 'b rpc_io" where
  "pump_ready_plain rb ev io =
     (if ev_read_err ev \<noteq> 0
      then (if ev_read_err ev = EPIPE then (PUMP_CLOSED, io\<lparr>io_state := IO_ERROR\<rparr>)
            else (PUMP_ERROR, io\<lparr>io_err := ev_read_err ev, io_state := IO_ERROR\<rparr>))
      else let io1 = io_receive rb (ev_read_max ev) io;
               rx = (if rb_used rb (io_rx io1) \<noteq> 0 then PUMP_RX_DATA else 0)
      in if ev_write_err ev \<noteq> 0
         then (PUMP_ERROR, io1\<lparr>io_err := ev_write_err ev, io_state := IO_ERROR\<rparr>)
         else let io2 = io_transmit rb (ev_write_max ev) io1
              in (rx OR (if rb_free rb (io_tx io2) \<noteq> 0 then PUMP_TX_DRAIN else 0), io2))"

definition fd_rpc_io_pump_ready :: "'b rbuf_lib \<Rightarrow> io_event \<Rightarrow> 'b rpc_io \<Rightarrow> u32 \<times> 'b rpc_io" where
  "fd_rpc_io_pump_ready rb ev io =
     (if io_ssl io then pump_ready_tls rb ev io else pump_ready_plain rb ev io)"

definition fd_rpc_io_pump :: "'b rbuf_lib \<Rightarrow> io_event \<Rightarrow> 'b rpc_io \<Rightarrow> u32 \<times> 'b rpc_io" where
  "fd_rpc_io_pump rb ev io =
     (if io_state io = IO_CONNECTING then fd_rpc_io_pump_connecting ev io
      else if io_state io = IO_READY then fd_rpc_io_pump_ready rb ev io
      else if io_state io = IO_TLS_HANDSHAKE then fd_rpc_io_pump_tls ev io
      else (0, io))"

definition fd_rpc_io_close :: "'b rpc_io \<Rightarrow> 'b rpc_io" where
  "fd_rpc_io_close io =
     (let io1 = (if io_ssl io then io\<lparr>io_ssls := io_ssls io - 1, io_ssl := False\<rparr> else io);
          io2 = (if io_ssl_ctx io1 then io1\<lparr>io_ctxs := io_ctxs io1 - 1, io_ssl_ctx := False\<rparr> else io1);
          io3 = (if io_sock_fd io2 \<ge> 0 then io2\<lparr>io_fds := io_fds io2 - 1, io_sock_fd := - 1\<rparr> else io2)
      in io3\<lparr>io_state := IO_DISCONNECTED\<rparr>)"

text \<open>The transport of the Rust side over this code.\<close>

definition io_push :: "'b rbuf_lib \<Rightarrow> bytes \<Rightarrow> 'b rpc_io \<Rightarrow> 'b rpc_io" where
  "io_push rb bs io = io\<lparr>io_tx := rb_push rb bs (io_tx io)\<rparr>"

definition io_pop :: "'b rbuf_lib \<Rightarrow> nat \<Rightarrow> 'b rpc_io \<Rightarrow> bytes \<times> 'b rpc_io" where
  "io_pop rb n io = (case rb_pop rb n (io_rx io) of (bs, b) \<Rightarrow> (bs, io\<lparr>io_rx := b\<rparr>))"

definition rpc_io_lib ::
  "'b rbuf_lib \<Rightarrow> connect_outcome \<Rightarrow> (bytes \<Rightarrow> nat \<Rightarrow> int \<times> int \<times> http_header list) \<Rightarrow> 'd \<Rightarrow>
   ('d \<Rightarrow> bytes \<Rightarrow> int \<times> 'd \<times> bytes \<times> nat) \<Rightarrow> ('b rpc_io, io_event, 'd) io_lib" where
  "rpc_io_lib rb co parse d0 decode =
     \<lparr>lib_new = (\<lambda>rx tx. Some (fd_rpc_io_new rb co rx tx)),
      lib_connect = fd_rpc_io_connect,
      lib_err = io_err, lib_pump = fd_rpc_io_pump rb, lib_state = io_state,
      lib_rx_used = (\<lambda>io. rb_used rb (io_rx io)), lib_rx_pop = io_pop rb,
      lib_tx_free = (\<lambda>io. rb_free rb (io_tx io)), lib_tx_push = io_push rb,
      phr_parse_response = parse, phr_chunk_decoder = d0, phr_decode_chunked = decode\<rparr>"

end
