(* ===== verification/Rpc_Io_Props.thy ===== *)
theory Rpc_Io_Props
  imports Rpc_Io
begin

text \<open>
  Properties of the connection: over ring buffers that are first-in first-out it provides the
  transport \<open>tcp_conn\<close> that the HTTP layer relies on, it never leaks a socket or an SSL object, and
  over TLS no application byte moves before the handshake is complete.
\<close>

unbundle bit_operations_syntax

section \<open>Ring buffers\<close>

locale rbuf =
  fixes rb :: "'b rbuf_lib"
    and contents :: "'b \<Rightarrow> bytes"
  assumes init: "contents (rb_init rb n) = []"
    and used: "rb_used rb b = length (contents b)"
    and popped: "n \<le> length (contents b) \<Longrightarrow> rb_pop rb n b = (bs, b') \<Longrightarrow>
      bs = take n (contents b) \<and> contents b' = drop n (contents b)"
    and pushed: "length bs \<le> rb_free rb b \<Longrightarrow> contents (rb_push rb bs b) = contents b @ bs"
      "length bs \<le> rb_free rb b \<Longrightarrow> rb_free rb (rb_push rb bs b) = rb_free rb b - length bs"
    and received: "rb_recv rb k w b = (b', w') \<Longrightarrow> \<exists>x. w = x @ w' \<and> contents b' = contents b @ x"
    and sent: "rb_send rb k w b = (b', w') \<Longrightarrow> \<exists>x. contents b = x @ contents b' \<and> w' = w @ x"
begin

text \<open>What the peer has sent and was not yet taken, and everything pushed so far.\<close>

definition rx :: "'b rpc_io \<Rightarrow> bytes" where
  "rx io = contents (io_rx io)"

definition stream :: "'b rpc_io \<Rightarrow> bytes" where
  "stream io = contents (io_rx io) @ io_incoming io"

definition out :: "'b rpc_io \<Rightarrow> bytes" where
  "out io = io_outgoing io @ contents (io_tx io)"

lemma receive_keeps:
  "prefix (rx io) (rx (io_receive rb k io))" "stream (io_receive rb k io) = stream io"
  "out (io_receive rb k io) = out io"
  using received [of k "io_incoming io" "io_rx io"]
  by (auto simp: io_receive_def rx_def stream_def out_def split: prod.splits)

lemma transmit_keeps:
  "rx (io_transmit rb k io) = rx io" "stream (io_transmit rb k io) = stream io"
  "out (io_transmit rb k io) = out io"
  using sent [of k "io_outgoing io" "io_tx io"]
  by (auto simp: io_transmit_def rx_def stream_def out_def split: prod.splits)

lemma field_updates [simp]:
  "rx (io\<lparr>io_err := e\<rparr>) = rx io" "rx (io\<lparr>io_state := st\<rparr>) = rx io" "rx (io\<lparr>io_hs_done := h\<rparr>) = rx io"
  "stream (io\<lparr>io_err := e\<rparr>) = stream io" "stream (io\<lparr>io_state := st\<rparr>) = stream io"
  "stream (io\<lparr>io_hs_done := h\<rparr>) = stream io" "out (io\<lparr>io_err := e\<rparr>) = out io"
  "out (io\<lparr>io_state := st\<rparr>) = out io" "out (io\<lparr>io_hs_done := h\<rparr>) = out io"
  by (simp_all add: rx_def stream_def out_def)

lemma pump_keeps:
  assumes "fd_rpc_io_pump rb ev io = (fl, io')"
  shows "stream io' = stream io \<and> prefix (rx io) (rx io') \<and> out io' = out io"
  using assms receive_keeps transmit_keeps
  by (auto simp: fd_rpc_io_pump_def fd_rpc_io_pump_connecting_def fd_rpc_io_pump_tls_def
      fd_rpc_io_pump_ready_def pump_ready_tls_def pump_ready_plain_def Let_def
      split: if_splits)

end

sublocale rbuf \<subseteq> conn: tcp_conn "rpc_io_lib rb co parse d0 decode" rx stream out
  for co parse d0 decode
proof
  show "lib_rx_pop (rpc_io_lib rb co parse d0 decode) n c = (bs, c') \<Longrightarrow> n \<le> length (rx c) \<Longrightarrow>
      bs = take n (rx c) \<and> rx c' = drop n (rx c) \<and> stream c' = drop n (stream c) \<and> out c' = out c"
    for n c bs c'
    using popped [of n "io_rx c"]
    by (auto simp: rpc_io_lib_def io_pop_def rx_def stream_def out_def split: prod.splits)
  show "lib_pump (rpc_io_lib rb co parse d0 decode) e c = (fl, c') \<Longrightarrow>
      stream c' = stream c \<and> prefix (rx c) (rx c') \<and> out c' = out c" for e c fl c'
    using pump_keeps by (simp add: rpc_io_lib_def)
qed (auto simp: rpc_io_lib_def rx_def stream_def out_def io_push_def used pushed)

text \<open>Bounded queues of bytes are such ring buffers: a capacity and the contents.\<close>

definition queue_rbuf :: "(nat \<times> bytes) rbuf_lib" where
  "queue_rbuf =
     \<lparr>rb_init = (\<lambda>n. (n, [])), rb_used = (\<lambda>b. length (snd b)), rb_free = (\<lambda>b. fst b - length (snd b)),
      rb_push = (\<lambda>bs b. (fst b, snd b @ bs)), rb_pop = (\<lambda>n b. (take n (snd b), fst b, drop n (snd b))),
      rb_recv = (\<lambda>k w b. let n = min k (fst b - length (snd b)) in ((fst b, snd b @ take n w), drop n w)),
      rb_send = (\<lambda>k w b. ((fst b, drop k (snd b)), w @ take k (snd b)))\<rparr>"

interpretation queue: rbuf queue_rbuf snd
proof
  show "rb_recv queue_rbuf k w b = (b', w') \<Longrightarrow> \<exists>x. w = x @ w' \<and> snd b' = snd b @ x" for k w b b' w'
    by (auto simp: queue_rbuf_def Let_def intro!: exI [of _ "take (min k (fst b - length (snd b))) w"])
qed (auto simp: queue_rbuf_def)

section \<open>The state machine\<close>

text \<open>Connections that the operations can produce; \<open>tls\<close> says whether the last successful connect
  asked for TLS.\<close>

inductive io_reach :: "'b rbuf_lib \<Rightarrow> bool \<Rightarrow> 'b rpc_io \<Rightarrow> bool" for rb where
  opened: "io_reach rb False (fd_rpc_io_new rb co rx_bufsz tx_bufsz)"
| system: "io_reach rb tls io \<Longrightarrow> io_reach rb tls (io\<lparr>io_next_connect := co\<rparr>)"
| connected: "io_reach rb tls io \<Longrightarrow> fd_rpc_io_connect addr port use_tls host io = (rc, io') \<Longrightarrow>
    io_reach rb (if rc = 0 then use_tls else tls) io'"
| pumped: "io_reach rb tls io \<Longrightarrow> fd_rpc_io_pump rb ev io = (fl, io') \<Longrightarrow> io_reach rb tls io'"
| closed: "io_reach rb tls io \<Longrightarrow> io_reach rb tls (fd_rpc_io_close io)"
| pushed: "io_reach rb tls io \<Longrightarrow> io_reach rb tls (io_push rb bs io)"
| popped: "io_reach rb tls io \<Longrightarrow> io_pop rb n io = (bs, io') \<Longrightarrow> io_reach rb tls io'"

definition resources_ok :: "'b rpc_io \<Rightarrow> bool" where
  "resources_ok io \<longleftrightarrow>
     io_fds io = of_bool (0 \<le> io_sock_fd io) \<and> io_ctxs io = of_bool (io_ssl_ctx io) \<and>
     io_ssls io = of_bool (io_ssl io)"

definition states_ok :: "bool \<Rightarrow> 'b rpc_io \<Rightarrow> bool" where
  "states_ok tls io \<longleftrightarrow>
     (io_state io = IO_DISCONNECTED \<longrightarrow> io_sock_fd io < 0 \<and> \<not> io_ssl_ctx io \<and> \<not> io_ssl io) \<and>
     (io_state io \<in> {IO_CONNECTING, IO_TLS_HANDSHAKE, IO_READY} \<longrightarrow> 0 \<le> io_sock_fd io \<and> io_ssl io = tls) \<and>
     (io_state io = IO_READY \<and> tls \<longrightarrow> io_hs_done io)"

lemma io_states_distinct [simp]:
  "IO_DISCONNECTED \<noteq> IO_CONNECTING" "IO_DISCONNECTED \<noteq> IO_TLS_HANDSHAKE" "IO_DISCONNECTED \<noteq> IO_READY"
  "IO_DISCONNECTED \<noteq> IO_ERROR" "IO_CONNECTING \<noteq> IO_DISCONNECTED" "IO_CONNECTING \<noteq> IO_TLS_HANDSHAKE"
  "IO_CONNECTING \<noteq> IO_READY" "IO_CONNECTING \<noteq> IO_ERROR" "IO_TLS_HANDSHAKE \<noteq> IO_DISCONNECTED"
  "IO_TLS_HANDSHAKE \<noteq> IO_CONNECTING" "IO_TLS_HANDSHAKE \<noteq> IO_READY" "IO_TLS_HANDSHAKE \<noteq> IO_ERROR"
  "IO_READY \<noteq> IO_DISCONNECTED" "IO_READY \<noteq> IO_CONNECTING" "IO_READY \<noteq> IO_TLS_HANDSHAKE"
  "IO_READY \<noteq> IO_ERROR" "IO_ERROR \<noteq> IO_DISCONNECTED" "IO_ERROR \<noteq> IO_CONNECTING"
  "IO_ERROR \<noteq> IO_TLS_HANDSHAKE" "IO_ERROR \<noteq> IO_READY"
  by (simp_all add: io_state_defs)

text \<open>An error keeps the resources, and no state is promised.\<close>

lemma error_ok:
  "resources_ok io \<Longrightarrow> resources_ok (io\<lparr>io_state := IO_ERROR\<rparr>)" "states_ok tls (io\<lparr>io_state := IO_ERROR\<rparr>)"
  "resources_ok io \<Longrightarrow> resources_ok (io\<lparr>io_err := e, io_state := IO_ERROR\<rparr>)"
  "states_ok tls (io\<lparr>io_err := e, io_state := IO_ERROR\<rparr>)"
  by (simp_all add: resources_ok_def states_ok_def)

lemma move_frame:
  "io_sock_fd (io_receive rb k io) = io_sock_fd io" "io_state (io_receive rb k io) = io_state io"
  "io_ssl_ctx (io_receive rb k io) = io_ssl_ctx io" "io_ssl (io_receive rb k io) = io_ssl io"
  "io_hs_done (io_receive rb k io) = io_hs_done io" "io_fds (io_receive rb k io) = io_fds io"
  "io_ctxs (io_receive rb k io) = io_ctxs io" "io_ssls (io_receive rb k io) = io_ssls io"
  "io_sock_fd (io_transmit rb k io) = io_sock_fd io" "io_state (io_transmit rb k io) = io_state io"
  "io_ssl_ctx (io_transmit rb k io) = io_ssl_ctx io" "io_ssl (io_transmit rb k io) = io_ssl io"
  "io_hs_done (io_transmit rb k io) = io_hs_done io" "io_fds (io_transmit rb k io) = io_fds io"
  "io_ctxs (io_transmit rb k io) = io_ctxs io" "io_ssls (io_transmit rb k io) = io_ssls io"
  by (simp_all add: io_receive_def io_transmit_def split: prod.splits)

lemma move_ok:
  "resources_ok (io_receive rb k io) = resources_ok io" "states_ok tls (io_receive rb k io) = states_ok tls io"
  "resources_ok (io_transmit rb k io) = resources_ok io" "states_ok tls (io_transmit rb k io) = states_ok tls io"
  by (simp_all add: resources_ok_def states_ok_def move_frame)

lemma connect_tls_ok:
  assumes "resources_ok io" "0 \<le> io_sock_fd io" "\<not> io_ssl_ctx io" "\<not> io_ssl io"
    and "connect_tls co host io = (rc, io')"
  shows "resources_ok io' \<and> states_ok (if rc = 0 then True else tls) io'"
proof -
  have "case connect_tls co host io of (rc, io') \<Rightarrow> resources_ok io' \<and> states_ok (if rc = 0 then True else tls) io'"
    using assms(1-4)
    by (cases "co_ssl_ctx co"; cases "co_ssl co")
      (simp_all add: connect_tls_def resources_ok_def states_ok_def Let_def)
  then show ?thesis by (simp add: assms(5))
qed

lemma connect_ok:
  assumes "resources_ok io" "states_ok tls io" and "fd_rpc_io_connect addr port use_tls host io = (rc, io')"
  shows "resources_ok io' \<and> states_ok (if rc = 0 then use_tls else tls) io'"
proof (cases "io_state io = IO_DISCONNECTED \<and> 0 \<le> co_socket (io_next_connect io) \<and>
    \<not> (co_connect (io_next_connect io) < 0 \<and> co_connect_errno (io_next_connect io) \<noteq> EINPROGRESS)")
  case True
  let ?co = "io_next_connect io"
  let ?io = "io\<lparr>io_fds := io_fds io + 1, io_sock_fd := co_socket ?co, io_peer := (addr, port),
    io_incoming := co_incoming ?co, io_outgoing := []\<rparr>"
  have io: "resources_ok ?io" "0 \<le> io_sock_fd ?io" "\<not> io_ssl_ctx ?io" "\<not> io_ssl ?io"
    using assms(1,2) True by (auto simp: resources_ok_def states_ok_def)
  have eq: "(if use_tls then connect_tls ?co host ?io
      else (0, ?io\<lparr>io_state := if co_connect ?co = 0 then IO_READY else IO_CONNECTING\<rparr>)) = (rc, io')"
    using assms(3) True by (auto simp: fd_rpc_io_connect_def Let_def)
  show ?thesis
  proof (cases use_tls)
    case True
    then show ?thesis using connect_tls_ok [OF io, of ?co host rc io' tls] eq by (simp split: if_splits)
  next
    case False
    then show ?thesis
      using eq io by (auto simp: resources_ok_def states_ok_def split: if_splits)
  qed
next
  case False
  then show ?thesis
    using assms error_ok by (auto simp: fd_rpc_io_connect_def Let_def split: if_splits)
qed

lemma pump_ready_ok:
  assumes "resources_ok io" "states_ok tls io" and "fd_rpc_io_pump_ready rb ev io = (fl, io')"
  shows "resources_ok io' \<and> states_ok tls io'"
  using assms
  by (auto simp: fd_rpc_io_pump_ready_def pump_ready_tls_def pump_ready_plain_def Let_def error_ok move_ok
      split: if_splits)

lemma pump_waiting_ok:
  assumes "resources_ok io" "states_ok tls io"
  shows "io_state io = IO_CONNECTING \<Longrightarrow> fd_rpc_io_pump_connecting ev io = (fl, io') \<Longrightarrow>
      resources_ok io' \<and> states_ok tls io'"
    and "io_state io = IO_TLS_HANDSHAKE \<Longrightarrow> fd_rpc_io_pump_tls ev io = (fl, io') \<Longrightarrow>
      resources_ok io' \<and> states_ok tls io'"
proof -
  have "states_ok tls (io\<lparr>io_state := if io_ssl io then IO_TLS_HANDSHAKE else IO_READY\<rparr>)"
    "resources_ok (io\<lparr>io_state := if io_ssl io then IO_TLS_HANDSHAKE else IO_READY\<rparr>)"
    if "io_state io = IO_CONNECTING"
    using assms that by (auto simp: resources_ok_def states_ok_def split: if_splits)
  then show "io_state io = IO_CONNECTING \<Longrightarrow> fd_rpc_io_pump_connecting ev io = (fl, io') \<Longrightarrow>
      resources_ok io' \<and> states_ok tls io'"
    using assms by (auto simp: fd_rpc_io_pump_connecting_def error_ok split: if_splits)
  have "states_ok tls (io\<lparr>io_hs_done := True, io_state := IO_READY\<rparr>)"
    "resources_ok (io\<lparr>io_hs_done := True, io_state := IO_READY\<rparr>)"
    if "io_state io = IO_TLS_HANDSHAKE"
    using assms that by (auto simp: resources_ok_def states_ok_def split: if_splits)
  then show "io_state io = IO_TLS_HANDSHAKE \<Longrightarrow> fd_rpc_io_pump_tls ev io = (fl, io') \<Longrightarrow>
      resources_ok io' \<and> states_ok tls io'"
    using assms by (auto simp: fd_rpc_io_pump_tls_def error_ok split: if_splits)
qed

lemma pump_ok:
  assumes "resources_ok io" "states_ok tls io" and "fd_rpc_io_pump rb ev io = (fl, io')"
  shows "resources_ok io' \<and> states_ok tls io'"
  using assms pump_ready_ok [OF assms(1,2)] pump_waiting_ok [OF assms(1,2)]
  by (auto simp: fd_rpc_io_pump_def split: if_splits)

lemma close_ok:
  assumes "resources_ok io"
  shows "resources_ok (fd_rpc_io_close io)" and "states_ok tls (fd_rpc_io_close io)"
    and "io_fds (fd_rpc_io_close io) = 0" and "io_ctxs (fd_rpc_io_close io) = 0"
    and "io_ssls (fd_rpc_io_close io) = 0"
  using assms by (auto simp: fd_rpc_io_close_def resources_ok_def states_ok_def Let_def)

lemma frame_ok:
  "resources_ok (io\<lparr>io_next_connect := co\<rparr>) = resources_ok io"
  "states_ok tls (io\<lparr>io_next_connect := co\<rparr>) = states_ok tls io"
  "resources_ok (io_push rb bs io) = resources_ok io" "states_ok tls (io_push rb bs io) = states_ok tls io"
  "resources_ok (snd (io_pop rb n io)) = resources_ok io" "states_ok tls (snd (io_pop rb n io)) = states_ok tls io"
  by (simp_all add: io_push_def io_pop_def resources_ok_def states_ok_def split: prod.splits)

lemma new_ok: "resources_ok (fd_rpc_io_new rb co m n) \<and> states_ok False (fd_rpc_io_new rb co m n)"
  by (simp add: fd_rpc_io_new_def resources_ok_def states_ok_def)

lemma reach_ok: "io_reach rb tls io \<Longrightarrow> resources_ok io \<and> states_ok tls io"
proof (induction rule: io_reach.induct)
  case (opened co m n)
  show ?case by (rule new_ok)
next
  case (connected tls io addr port use_tls host rc io')
  then show ?case using connect_ok [of io tls addr port use_tls host rc io'] by simp
next
  case (pumped tls io ev fl io')
  then show ?case using pump_ok [of io tls _ ev fl io'] by blast
next
  case (closed tls io)
  then show ?case using close_ok [of io] by simp
next
  case (popped tls io n bs io')
  then show ?case using frame_ok(5) [of rb n io] frame_ok(6) [of tls rb n io] by simp
qed (simp_all add: frame_ok)

text \<open>Only a pump of a ready connection moves bytes.\<close>

lemma pump_moves:
  assumes "fd_rpc_io_pump rb ev io = (fl, io')"
    and "io_incoming io' \<noteq> io_incoming io \<or> io_outgoing io' \<noteq> io_outgoing io"
  shows "io_state io = IO_READY"
  using assms
  by (auto simp: fd_rpc_io_pump_def fd_rpc_io_pump_connecting_def fd_rpc_io_pump_tls_def split: if_splits)

section \<open>Properties\<close>

text \<open>C7: the connection is safe whatever the system calls return. In every state that the
  operations can produce, a socket, an SSL context and an SSL handle are held exactly when the
  connection refers to them, and closing releases them all. When the last connect asked for
  TLS, a pump moves application bytes to or from the wire only over the SSL handle and after the
  handshake is complete.\<close>

theorem rpc_io_safe:
  assumes "io_reach rb tls io"
  shows "resources_ok io \<and>
    io_fds (fd_rpc_io_close io) = 0 \<and> io_ctxs (fd_rpc_io_close io) = 0 \<and> io_ssls (fd_rpc_io_close io) = 0 \<and>
    (\<forall>ev fl io'. fd_rpc_io_pump rb ev io = (fl, io') \<longrightarrow>
       io_incoming io' \<noteq> io_incoming io \<or> io_outgoing io' \<noteq> io_outgoing io \<longrightarrow>
       io_state io = IO_READY \<and> 0 \<le> io_sock_fd io \<and> io_ssl io = tls \<and> (tls \<longrightarrow> io_hs_done io))"
proof -
  have ok: "resources_ok io" "states_ok tls io" using reach_ok [OF assms] by auto
  then show ?thesis using close_ok(3-5) pump_moves [of rb _ io] by (auto simp: states_ok_def)
qed

definition tls_outcome :: connect_outcome where
  "tls_outcome = \<lparr>co_socket = 5, co_socket_errno = 0, co_connect = 0, co_connect_errno = 0,
     co_ssl_ctx = True, co_ssl = True, co_incoming = [1, 2]\<rparr>"

definition quiet_event :: io_event where
  "quiet_event = \<lparr>ev_nfds = 0, ev_poll_err = False, ev_poll_out = False, ev_so_error = 0,
     ev_handshake = 1, ev_ssl_error = 0, ev_read_err = 0, ev_read_max = 9, ev_write_err = 0, ev_write_max = 9\<rparr>"

definition handshaken :: "(nat \<times> bytes) rpc_io" where
  "handshaken = snd (fd_rpc_io_pump queue_rbuf quiet_event
     (snd (fd_rpc_io_connect 1 443 True None (fd_rpc_io_new queue_rbuf tls_outcome 8 8))))"

text \<open>After the handshake the next pump reads; the connection holds one of each resource.\<close>

theorem rpc_io_safe_witness:
  "io_incoming (snd (fd_rpc_io_pump queue_rbuf quiet_event handshaken)) = [] \<and> io_incoming handshaken = [1, 2] \<and>
   io_hs_done handshaken \<and> resources_ok handshaken \<and> io_fds handshaken = 1"
proof -
  let ?c = "fd_rpc_io_connect 1 443 True None (fd_rpc_io_new queue_rbuf tls_outcome 8 8)"
  have "io_reach queue_rbuf (if fst ?c = 0 then True else False) (snd ?c)"
    by (rule connected [OF opened]) (rule surjective_pairing)
  moreover have "fst ?c = 0" by code_simp
  ultimately have "io_reach queue_rbuf True (snd ?c)" by simp
  then have reach: "io_reach queue_rbuf True handshaken"
    unfolding handshaken_def by (rule pumped) (rule surjective_pairing)
  have moves: "io_incoming (snd (fd_rpc_io_pump queue_rbuf quiet_event handshaken)) = []"
    "io_incoming handshaken = [1, 2]" "io_fds handshaken = 1"
    by code_simp+
  moreover have "io_hs_done handshaken \<and> resources_ok handshaken"
    using rpc_io_safe [OF reach] surjective_pairing [of "fd_rpc_io_pump queue_rbuf quiet_event handshaken"]
      moves(1,2) by (metis list.distinct(1))
  ultimately show ?thesis by simp
qed

end
