(* ===== verification/Xdp.thy ===== *)
theory Xdp
  imports Prelude
begin

text \<open>
  The kernel-bypass sender of \<open>fd_rpc/src/xdp.rs\<close>: configuration, \<open>XdpConnection::new\<close>,
  \<open>send_udp\<close> with its Ethernet, IPv4 and UDP headers, and the transmit ring shared with the
  kernel. Socket set-up (\<open>fd_xsk_init\<close>, \<open>fd_xdp_install\<close>, \<open>fd_xsk_activate\<close>,
  \<open>if_nametoindex\<close>) is the parameter \<open>xsk_lib\<close>. The ring's producer and consumer counters, its
  descriptors and the packet memory are explicit state.
\<close>

unbundle bit_operations_syntax

section \<open>Configuration\<close>

datatype xdp_error = InitFailed | InstallFailed | ActivateFailed | TxFull | FrameTooLarge

record xdp_config =
  if_name :: bytes
  if_queue :: u32
  cfg_src_ip :: u32
  cfg_src_port :: u16
  cfg_src_mac :: bytes
  listen_ports :: "u16 list"
  listen_ports_cnt :: nat
  cfg_frame_sz :: u64
  cfg_ring_depth :: u64

definition xdp_config_default :: xdp_config where
  "xdp_config_default =
     \<lparr>if_name = replicate 16 0, if_queue = 0, cfg_src_ip = 0, cfg_src_port = 0,
      cfg_src_mac = replicate 6 0, listen_ports = replicate 8 0, listen_ports_cnt = 0,
      cfg_frame_sz = 2048, cfg_ring_depth = 1024\<rparr>"

definition set_interface :: "bytes \<Rightarrow> xdp_config \<Rightarrow> (xdp_config, 'x) res" where
  "set_interface name cfg =
     (let len = min (length name) 15
      in res_bind (copy_from_slice (if_name cfg) 0 len (take len name)) (\<lambda>b.
         if len < length b then Ok (cfg\<lparr>if_name := b[len := 0]\<rparr>) else Panic))"

section \<open>Headers\<close>

definition be16 :: "u16 \<Rightarrow> bytes" where
  "be16 w = [word_of_nat (unat w div 256), word_of_nat (unat w)]"

definition be32 :: "u32 \<Rightarrow> bytes" where
  "be32 w = [word_of_nat (unat w div 2 ^ 24), word_of_nat (unat w div 2 ^ 16),
             word_of_nat (unat w div 2 ^ 8), word_of_nat (unat w)]"

definition from_be16 :: "u8 \<Rightarrow> u8 \<Rightarrow> u16" where
  "from_be16 a b = word_of_nat (unat a * 256 + unat b)"

definition build_eth_header :: "bytes \<Rightarrow> bytes \<Rightarrow> bytes \<Rightarrow> (bytes, 'x) res" where
  "build_eth_header buf dst_mac src_mac =
     res_bind (copy_from_slice buf 0 6 dst_mac) (\<lambda>b.
     res_bind (copy_from_slice b 6 12 src_mac) (\<lambda>b.
     copy_from_slice b 12 14 (be16 0x0800)))"

text \<open>\<open>for i in (0..20).step_by(2)\<close>: a \<open>u32\<close> sum of the header's 16-bit words.\<close>

definition ip_sum :: "bytes \<Rightarrow> u32" where
  "ip_sum buf = foldl (\<lambda>s i. s + ucast (from_be16 (buf ! (2 * i)) (buf ! (2 * i + 1)))) 0 [0..<10]"

text \<open>\<open>while checksum > 0xFFFF\<close>: the carries are added back in.\<close>

function ip_fold :: "u32 \<Rightarrow> u32" where
  "ip_fold c =
     (if unat c > 0xFFFF then ip_fold (word_of_nat (unat c mod 65536 + unat c div 65536)) else c)"
  by pat_completeness auto

lemma carry_le: "n mod 65536 + n div 65536 \<le> (n :: nat)"
  using div_mult_mod_eq [of n 65536] by linarith

lemma carry_lt:
  fixes n :: nat
  assumes "65535 < n"
  shows "n mod 65536 + n div 65536 < n"
proof -
  have "1 \<le> n div 65536" using assms div_le_mono [of 65536 n 65536] by simp
  then show ?thesis using div_mult_mod_eq [of n 65536] by linarith
qed

lemma unat_carry:
  "unat (word_of_nat (unat (c :: u32) mod 65536 + unat c div 65536) :: u32) = unat c mod 65536 + unat c div 65536"
proof -
  have "unat c < 2 ^ 32" using unsigned_less [of c, where 'a = nat] by simp
  then have "unat c mod 65536 + unat c div 65536 < 2 ^ 32" using carry_le [of "unat c"] by linarith
  then show ?thesis by (simp add: unat_of_nat take_bit_nat_eq_self del: of_nat_add)
qed

termination ip_fold
  by (relation "measure unat") (auto simp: unat_carry carry_lt simp del: of_nat_add)

declare ip_fold.simps [simp del]

definition build_ip4_header :: "bytes \<Rightarrow> u32 \<Rightarrow> u32 \<Rightarrow> u16 \<Rightarrow> (bytes, 'x) res" where
  "build_ip4_header buf src_ip dst_ip total_len =
     res_bind (copy_from_slice buf 0 1 [0x45]) (\<lambda>b.
     res_bind (copy_from_slice b 1 2 [0]) (\<lambda>b.
     res_bind (copy_from_slice b 2 4 (be16 total_len)) (\<lambda>b.
     res_bind (copy_from_slice b 4 6 [0, 0]) (\<lambda>b.
     res_bind (copy_from_slice b 6 8 [0x40, 0x00]) (\<lambda>b.
     res_bind (copy_from_slice b 8 9 [64]) (\<lambda>b.
     res_bind (copy_from_slice b 9 10 [17]) (\<lambda>b.
     res_bind (copy_from_slice b 10 12 [0, 0]) (\<lambda>b.
     res_bind (copy_from_slice b 12 16 (be32 src_ip)) (\<lambda>b.
     res_bind (copy_from_slice b 16 20 (be32 dst_ip)) (\<lambda>b.
     let checksum = NOT (word_of_nat (unat (ip_fold (ip_sum b))) :: u16)
     in copy_from_slice b 10 12 (be16 checksum)))))))))))"

definition build_udp_header :: "bytes \<Rightarrow> u16 \<Rightarrow> u16 \<Rightarrow> u16 \<Rightarrow> (bytes, 'x) res" where
  "build_udp_header buf src_port dst_port total_len =
     res_bind (copy_from_slice buf 0 2 (be16 src_port)) (\<lambda>b.
     res_bind (copy_from_slice b 2 4 (be16 dst_port)) (\<lambda>b.
     res_bind (copy_from_slice b 4 6 (be16 total_len)) (\<lambda>b.
     copy_from_slice b 6 8 [0, 0])))"

section \<open>Connection\<close>

record xdp_desc =
  d_addr :: u64
  d_len :: u32
  d_options :: u32

record tx_ring =
  r_prod :: u32
  r_cons :: u32
  r_depth :: u32
  r_desc :: "xdp_desc list"

record xdp_conn =
  x_ring :: tx_ring
  x_umem :: bytes
  x_frame_sz :: u64
  x_src_ip :: u32
  x_src_port :: u16
  x_src_mac :: bytes
  x_tx_frame_idx :: u64
  x_tx_frame_cnt :: u64
  x_wakeups :: nat

record xsk_lib =
  if_nametoindex :: "bytes \<Rightarrow> u32"
  xsk_init :: "u64 \<Rightarrow> u64 \<Rightarrow> u64 \<Rightarrow> u32 \<Rightarrow> u32 \<Rightarrow> tx_ring option"
  xdp_install :: "u32 \<Rightarrow> u32 \<Rightarrow> nat \<Rightarrow> u16 list \<Rightarrow> int"
  xsk_activate :: "int \<Rightarrow> tx_ring \<Rightarrow> bool"
  xsk_need_wakeup :: "tx_ring \<Rightarrow> bool"

text \<open>
  \<open>vec_addr\<close> is the address the allocator gives the packet memory; the state keeps the memory
  from the next multiple of 4096 on.
\<close>

definition xdp_new :: "xsk_lib \<Rightarrow> nat \<Rightarrow> xdp_config \<Rightarrow> (xdp_conn, xdp_error) res" where
  "xdp_new lib vec_addr cfg =
     (let frame_sz = (if unat (cfg_frame_sz cfg) > 0 then cfg_frame_sz cfg else 2048);
          ring_depth = (if unat (cfg_ring_depth cfg) > 0 then cfg_ring_depth cfg else 1024);
          total_frames = ring_depth * 4;
          umem_sz = unat (total_frames * frame_sz);
          align_offset = vec_addr mod 4096;
          umem = drop (if align_offset = 0 then 0 else 4096 - align_offset) (replicate (umem_sz + 4096) 0);
          if_idx = if_nametoindex lib (if_name cfg)
      in if if_idx = 0 then Err InitFailed
         else case xsk_init lib ring_depth frame_sz (word_of_nat umem_sz) if_idx (if_queue cfg) of
           None \<Rightarrow> Err InitFailed
         | Some ring \<Rightarrow>
             (let fd = xdp_install lib if_idx (cfg_src_ip cfg) (listen_ports_cnt cfg) (listen_ports cfg)
              in if fd < 0 then Err InstallFailed
                 else if \<not> xsk_activate lib fd ring then Err ActivateFailed
                 else Ok \<lparr>x_ring = ring, x_umem = umem, x_frame_sz = frame_sz,
                          x_src_ip = cfg_src_ip cfg, x_src_port = cfg_src_port cfg,
                          x_src_mac = cfg_src_mac cfg, x_tx_frame_idx = 0,
                          x_tx_frame_cnt = total_frames, x_wakeups = 0\<rparr>))"

text \<open>Filling a frame of \<open>42 + payload\<close> bytes at an offset of the packet memory.\<close>

definition fill_frame ::
  "xdp_conn \<Rightarrow> nat \<Rightarrow> u32 \<Rightarrow> u16 \<Rightarrow> bytes \<Rightarrow> bytes \<Rightarrow> (bytes, 'x) res" where
  "fill_frame x off dst_ip dst_port dst_mac payload =
     (let tot = 42 + length payload in
      res_bind (slice (x_umem x) off (off + tot)) (\<lambda>frame.
      res_bind (build_eth_header (take 14 frame) dst_mac (x_src_mac x)) (\<lambda>eth.
      res_bind (build_ip4_header (take 20 (drop 14 frame)) (x_src_ip x) dst_ip
        (word_of_nat (28 + length payload))) (\<lambda>ip.
      res_bind (build_udp_header (take 8 (drop 34 frame)) (x_src_port x) dst_port
        (word_of_nat (8 + length payload))) (\<lambda>udp.
      res_bind (copy_from_slice frame 42 tot payload) (\<lambda>f.
      Ok (eth @ ip @ udp @ drop 42 f)))))))"

definition send_udp ::
  "xsk_lib \<Rightarrow> u32 \<Rightarrow> u16 \<Rightarrow> bytes \<Rightarrow> bytes \<Rightarrow> xdp_conn \<Rightarrow> (unit, xdp_error) res \<times> xdp_conn" where
  "send_udp lib dst_ip dst_port dst_mac payload x =
     (let tot = 42 + length payload
      in if tot > unat (x_frame_sz x) then (Err FrameTooLarge, x)
         else let frame_offset = x_tx_frame_idx x * x_frame_sz x
         in case fill_frame x (unat frame_offset) dst_ip dst_port dst_mac payload of
           Ok frame \<Rightarrow>
             (let x1 = x\<lparr>x_umem := blit (x_umem x) (unat frame_offset) frame\<rparr>;
                  ring = x_ring x1; prod = r_prod ring; cons = r_cons ring
              in if unat (prod - cons) \<ge> unat (r_depth ring) then (Err TxFull, x1)
                 else let idx = unat (prod AND (r_depth ring - 1))
                 in if idx \<ge> length (r_desc ring) then (Panic, x1)
                 else let desc = \<lparr>d_addr = frame_offset, d_len = word_of_nat tot, d_options = 0\<rparr>;
                          ring1 = ring\<lparr>r_desc := (r_desc ring)[idx := desc], r_prod := prod + 1\<rparr>;
                          x2 = x1\<lparr>x_ring := ring1,
                                  x_tx_frame_idx := word_of_nat
                                    (unat (x_tx_frame_idx x1 + 1) mod unat (x_tx_frame_cnt x1))\<rparr>
                 in (Ok (), if xsk_need_wakeup lib ring1 then x2\<lparr>x_wakeups := x_wakeups x2 + 1\<rparr> else x2))
         | Err e \<Rightarrow> (Err e, x)
         | Panic \<Rightarrow> (Panic, x))"

text \<open>The kernel takes a descriptor off the ring.\<close>

definition kernel_consume :: "xdp_conn \<Rightarrow> xdp_conn" where
  "kernel_consume x = x\<lparr>x_ring := (x_ring x)\<lparr>r_cons := r_cons (x_ring x) + 1\<rparr>\<rparr>"

end
