(* ===== verification/Xdp_Props.thy ===== *)
theory Xdp_Props
  imports Xdp
begin

text \<open>
  Properties of the kernel-bypass sender: the headers it writes are well formed with a valid
  IPv4 checksum, and a frame the kernel has not yet taken is never overwritten.
\<close>

unbundle bit_operations_syntax

section \<open>Headers\<close>

lemma be_length [simp]: "length (be16 w) = 2" "length (be32 v) = 4"
  by (simp_all add: be16_def be32_def)

lemma unat_u8 [simp]: "unat (word_of_nat n :: u8) = n mod 256"
  by (simp add: unat_of_nat take_bit_eq_mod)

lemma unat_u16 [simp]: "unat (word_of_nat n :: u16) = n mod 65536"
  by (simp add: unat_of_nat take_bit_eq_mod)

lemma from_be16_be16: "from_be16 (word_of_nat (unat w div 256)) (word_of_nat (unat w)) = (w :: u16)"
proof -
  have "unat w < 65536" using unsigned_less [of w, where 'a = nat] by simp
  then have eq: "unat w div 256 mod 256 * 256 + unat w mod 256 = unat w"
    using div_mult_mod_eq [of "unat w" 256] by (simp add: less_mult_imp_div_less)
  show ?thesis by (simp only: from_be16_def unat_u8 eq) simp
qed

lemmas from_be16_be16' = from_be16_be16 [simplified]

lemma from_be16_constants: "from_be16 69 0 = 0x4500" "from_be16 64 0 = 0x4000" "from_be16 64 17 = 0x4011"
  "from_be16 0 0 = 0"
  by (simp_all add: from_be16_def)

definition ip4_bytes :: "u16 \<Rightarrow> u16 \<Rightarrow> u32 \<Rightarrow> u32 \<Rightarrow> bytes" where
  "ip4_bytes tlen ck src dst = [0x45, 0] @ be16 tlen @ [0, 0, 0x40, 0, 64, 17] @ be16 ck @ be32 src @ be32 dst"

definition ip4_checksum :: "u16 \<Rightarrow> u32 \<Rightarrow> u32 \<Rightarrow> u16" where
  "ip4_checksum tlen src dst = NOT (word_of_nat (unat (ip_fold (ip_sum (ip4_bytes tlen 0 src dst)))))"

definition eth_bytes :: "bytes \<Rightarrow> bytes \<Rightarrow> bytes" where
  "eth_bytes dst src = dst @ src @ [8, 0]"

definition udp_bytes :: "u16 \<Rightarrow> u16 \<Rightarrow> u16 \<Rightarrow> bytes" where
  "udp_bytes sp dp tlen = be16 sp @ be16 dp @ be16 tlen @ [0, 0]"

lemma build_eth_header_exact:
  assumes "length buf = 14" and "length d = 6" and "length s = 6"
  shows "build_eth_header buf d s = Ok (eth_bytes d s)"
proof -
  have "blit (blit (blit buf 0 d) 6 s) 12 (be16 0x800) = eth_bytes d s"
    using assms by (simp add: blit_def eth_bytes_def be16_def)
  then show ?thesis
    using assms by (simp add: build_eth_header_def copy_from_slice_def)
qed

lemma build_udp_header_exact:
  assumes "length buf = 8"
  shows "build_udp_header buf sp dp tlen = Ok (udp_bytes sp dp tlen)"
  using assms by (simp add: build_udp_header_def copy_from_slice_def blit_def udp_bytes_def)

lemma build_ip4_header_exact:
  assumes "length buf = 20"
  shows "build_ip4_header buf s d tlen = Ok (ip4_bytes tlen (ip4_checksum tlen s d) s d)"
proof -
  have z: "be16 0 = [0, 0]" by (simp add: be16_def)
  show ?thesis
    using assms
    by (simp add: build_ip4_header_def copy_from_slice_def blit_def Let_def ip4_bytes_def
        ip4_checksum_def z)
qed

lemma length_header_bytes [simp]:
  "length (ip4_bytes tlen ck s d) = 20" "length (udp_bytes sp dp tlen) = 8"
  "length a = 6 \<Longrightarrow> length b = 6 \<Longrightarrow> length (eth_bytes a b) = 14"
  by (simp_all add: ip4_bytes_def udp_bytes_def eth_bytes_def)

section \<open>Checksum\<close>

lemma ip_fold_spec:
  "unat (ip_fold c) \<le> 65535 \<and> unat (ip_fold c) mod 65535 = unat c mod 65535 \<and>
   (0 < unat c \<longrightarrow> 0 < unat (ip_fold c))"
proof (induction c rule: ip_fold.induct)
  case (1 c)
  show ?case
  proof (cases "unat c > 65535")
    case True
    let ?n = "unat c mod 65536 + unat c div 65536"
    have "unat c = 65535 * (unat c div 65536) + ?n" using div_mult_mod_eq [of "unat c" 65536] by simp
    then have "unat c mod 65535 = ?n mod 65535" by (metis mod_mult_self4)
    moreover have "0 < ?n" using True div_le_mono [of 65536 "unat c" 65536] by simp
    ultimately show ?thesis
      using 1 True by (simp add: ip_fold.simps [of c] unat_carry del: of_nat_add)
  next
    case False
    then show ?thesis by (simp add: ip_fold.simps [of c])
  qed
qed

text \<open>The sum of the header words, apart from the checksum field.\<close>

definition ip4_total :: "u16 \<Rightarrow> u32 \<Rightarrow> u32 \<Rightarrow> nat" where
  "ip4_total tlen src dst = 0x4500 + unat tlen + 0x4000 + 0x4011 +
     (let b = be32 src @ be32 dst
      in unat (from_be16 (b ! 0) (b ! 1)) + unat (from_be16 (b ! 2) (b ! 3)) +
         unat (from_be16 (b ! 4) (b ! 5)) + unat (from_be16 (b ! 6) (b ! 7)))"

lemma unat_u16_le: "unat (w :: u16) \<le> 65535"
  using unsigned_less [of w, where 'a = nat] by simp

lemma ip4_total_bounds: "0 < ip4_total tlen s d" "ip4_total tlen s d \<le> 1000000"
proof -
  have "a \<le> 65535 \<Longrightarrow> b \<le> 65535 \<Longrightarrow> c \<le> 65535 \<Longrightarrow> e \<le> 65535 \<Longrightarrow> f \<le> 65535 \<Longrightarrow>
      0x4500 + a + 0x4000 + 0x4011 + (b + c + e + f) \<le> (1000000 :: nat)" for a b c e f
    by simp
  then show "ip4_total tlen s d \<le> 1000000" unfolding ip4_total_def Let_def using unat_u16_le by blast
qed (simp add: ip4_total_def)

lemma ip_sum_bytes: "unat (ip_sum (ip4_bytes tlen ck s d)) = ip4_total tlen s d + unat ck"
proof -
  have "ip_sum (ip4_bytes tlen ck s d) = word_of_nat (ip4_total tlen s d + unat ck)"
    by (simp add: ip_sum_def ip4_bytes_def ip4_total_def be16_def be32_def upt_rec Let_def
        from_be16_be16' from_be16_constants)
  moreover have "ip4_total tlen s d + unat ck < 2 ^ 32"
    using ip4_total_bounds(2) [of tlen s d] unat_u16_le [of ck] by simp
  ultimately show ?thesis by (simp add: unat_of_nat take_bit_nat_eq_self del: of_nat_add)
qed

lemma unat_not_u16: "unat (NOT w :: u16) = 65535 - unat w"
proof -
  have "NOT w = 65535 - w" by (simp add: not_eq_complement)
  moreover have "w \<le> 65535" by (simp add: word_le_nat_alt unat_u16_le)
  ultimately show ?thesis by (simp add: unat_sub)
qed

lemma checksum_folds: "ip_fold (ip_sum (ip4_bytes tlen (ip4_checksum tlen s d) s d)) = 0xFFFF"
proof -
  let ?t = "ip4_total tlen s d" and ?f = "unat (ip_fold (ip_sum (ip4_bytes tlen 0 s d)))"
  let ?c = "unat (ip4_checksum tlen s d)"
  have f: "?f \<le> 65535" "?f mod 65535 = ?t mod 65535" "0 < ?f"
    using ip_fold_spec [of "ip_sum (ip4_bytes tlen 0 s d)"] ip_sum_bytes [of tlen 0 s d]
      ip4_total_bounds(1) [of tlen s d] by simp_all
  have c: "?c = 65535 - ?f"
    unfolding ip4_checksum_def unat_not_u16 unat_u16 using f(1) by simp
  have "(?t + ?c) mod 65535 = (?f + ?c) mod 65535" using f(2) by (metis mod_add_left_eq)
  also have "\<dots> = 0" using c f(1) by simp
  finally have zero: "unat (ip_fold (ip_sum (ip4_bytes tlen (ip4_checksum tlen s d) s d))) mod 65535 = 0"
    using ip_fold_spec [of "ip_sum (ip4_bytes tlen (ip4_checksum tlen s d) s d)"]
    by (simp add: ip_sum_bytes)
  let ?g = "ip_fold (ip_sum (ip4_bytes tlen (ip4_checksum tlen s d) s d))"
  have "0 < unat ?g" "unat ?g \<le> 65535"
    using ip_fold_spec [of "ip_sum (ip4_bytes tlen (ip4_checksum tlen s d) s d)"]
      ip4_total_bounds(1) [of tlen s d] by (simp_all add: ip_sum_bytes)
  moreover have "65535 dvd unat ?g" using zero by auto
  ultimately have "unat ?g = 65535" using dvd_imp_le by (metis le_antisym)
  then show ?thesis by (simp add: word_unat_eq_iff)
qed

section \<open>Frames\<close>

definition udp_frame :: "xdp_conn \<Rightarrow> u32 \<Rightarrow> u16 \<Rightarrow> bytes \<Rightarrow> bytes \<Rightarrow> bytes" where
  "udp_frame x dst_ip dst_port dst_mac payload =
     (let tlen = word_of_nat (28 + length payload)
      in eth_bytes dst_mac (x_src_mac x) @
         ip4_bytes tlen (ip4_checksum tlen (x_src_ip x) dst_ip) (x_src_ip x) dst_ip @
         udp_bytes (x_src_port x) dst_port (word_of_nat (8 + length payload)) @ payload)"

lemma udp_frame_length:
  "length m = 6 \<Longrightarrow> length (x_src_mac x) = 6 \<Longrightarrow> length (udp_frame x ip p m payload) = 42 + length payload"
  by (simp add: udp_frame_def Let_def)

lemma fill_frame_exact:
  assumes "off + (42 + length payload) \<le> length (x_umem x)" and "length m = 6" and "length (x_src_mac x) = 6"
  shows "fill_frame x off ip p m payload = Ok (udp_frame x ip p m payload)"
  using assms
  by (simp add: fill_frame_def slice_def build_eth_header_exact build_ip4_header_exact
      build_udp_header_exact copy_from_slice_def blit_def udp_frame_def Let_def)

section \<open>The transmit ring\<close>

definition in_flight :: "xdp_conn \<Rightarrow> nat" where
  "in_flight x = unat (r_prod (x_ring x) - r_cons (x_ring x))"

text \<open>The slot of the descriptor that was produced \<open>j\<close> descriptors ago.\<close>

definition slot :: "xdp_conn \<Rightarrow> nat \<Rightarrow> nat" where
  "slot x j = unat (r_prod (x_ring x) - word_of_nat j) mod unat (r_depth (x_ring x))"

definition desc_ago :: "xdp_conn \<Rightarrow> nat \<Rightarrow> xdp_desc" where
  "desc_ago x j = r_desc (x_ring x) ! slot x j"

text \<open>The bytes a descriptor hands to the kernel.\<close>

definition packet :: "xdp_conn \<Rightarrow> xdp_desc \<Rightarrow> bytes" where
  "packet x d = take (unat (d_len d)) (drop (unat (d_addr d)) (x_umem x))"

definition geometry :: "xdp_conn \<Rightarrow> nat \<Rightarrow> nat \<Rightarrow> bool" where
  "geometry x k f \<longleftrightarrow>
     k < 31 \<and> unat (r_depth (x_ring x)) = 2 ^ k \<and> length (r_desc (x_ring x)) = 2 ^ k \<and>
     unat (x_frame_sz x) = f \<and> f < 2 ^ 32 \<and> unat (x_tx_frame_cnt x) = 4 * 2 ^ k \<and>
     4 * 2 ^ k * f < 2 ^ 63 \<and> 4 * 2 ^ k * f \<le> length (x_umem x) \<and> length (x_src_mac x) = 6"

definition ring_inv :: "xdp_conn \<Rightarrow> nat \<Rightarrow> nat \<Rightarrow> bool" where
  "ring_inv x k f \<longleftrightarrow> geometry x k f \<and> unat (x_tx_frame_idx x) < 4 * 2 ^ k \<and> in_flight x \<le> 2 ^ k \<and>
     (\<forall>j \<in> {1..in_flight x}.
        unat (d_addr (desc_ago x j)) = (unat (x_tx_frame_idx x) + 4 * 2 ^ k - j) mod (4 * 2 ^ k) * f \<and>
        unat (d_len (desc_ago x j)) \<le> f)"

lemma unat_ago:
  fixes p :: u32
  assumes "j \<le> 2 ^ 32"
  shows "unat (p - word_of_nat j) = (unat p + 2 ^ 32 - j) mod 2 ^ 32"
proof -
  have "p - word_of_nat j = word_of_nat (unat p + 2 ^ 32 - j)"
    using assms by (simp add: of_nat_diff)
  then show ?thesis by (simp add: unat_of_nat take_bit_eq_mod)
qed

lemma mod_distinct:
  fixes a :: nat
  assumes "i < j" and "j \<le> a" and "j - i < d"
  shows "(a - i) mod d \<noteq> (a - j) mod d"
proof
  assume "(a - i) mod d = (a - j) mod d"
  then have "d dvd (a - i) - (a - j)" using mod_eq_dvd_iff_nat [of "a - j" "a - i" d] assms by simp
  then have "d dvd j - i" using assms by (simp add: diff_diff_right) 
  then show False using assms by (auto dest: dvd_imp_le)
qed

lemma slots_differ:
  assumes "unat (r_depth (x_ring x)) = 2 ^ k" and "k < 31" and "i < j" and "j - i < 2 ^ k" and "j \<le> 2 ^ k"
  shows "slot x i \<noteq> slot x j"
proof -
  have "(2 :: nat) ^ k \<le> 2 ^ 31" using assms(2) by (intro power_increasing) auto
  then have b: "i \<le> 2 ^ 32" "j \<le> 2 ^ 32" using assms(3,5) by simp_all
  have "(2 :: nat) ^ k dvd 2 ^ 32" using assms(2) by (intro le_imp_power_dvd) simp
  then have s: "slot x l = (unat (r_prod (x_ring x)) + 2 ^ 32 - l) mod 2 ^ k" if "l \<le> 2 ^ 32" for l
    unfolding slot_def unat_ago [OF that] assms(1) by (rule mod_mod_cancel)
  show ?thesis
    unfolding s [OF b(1)] s [OF b(2)] by (rule mod_distinct) (use assms b in simp_all)
qed

lemma frame_offset:
  assumes "ring_inv x k f"
  shows "unat (x_tx_frame_idx x * x_frame_sz x) = unat (x_tx_frame_idx x) * f"
    and "unat (x_tx_frame_idx x) * f + f \<le> length (x_umem x)"
proof -
  have g: "unat (x_frame_sz x) = f" "unat (x_tx_frame_idx x) < 4 * 2 ^ k" "4 * 2 ^ k * f < 2 ^ 63"
    "4 * 2 ^ k * f \<le> length (x_umem x)"
    using assms by (simp_all add: ring_inv_def geometry_def)
  then have "Suc (unat (x_tx_frame_idx x)) * f \<le> 4 * 2 ^ k * f" by (intro mult_le_mono1) simp
  then have le: "unat (x_tx_frame_idx x) * f + f \<le> 4 * 2 ^ k * f" by (simp add: add.commute)
  then show "unat (x_tx_frame_idx x) * f + f \<le> length (x_umem x)" using g(4) by linarith
  have "(2 :: nat) ^ 63 < 2 ^ 64" by simp
  then have "unat (x_tx_frame_idx x) * f < 2 ^ 64" using le g(3) by linarith
  then show "unat (x_tx_frame_idx x * x_frame_sz x) = unat (x_tx_frame_idx x) * f"
    using g(1) by (simp add: unat_word_ariths)
qed

lemma new_slot:
  assumes "geometry x k f"
  shows "unat (r_prod (x_ring x) AND (r_depth (x_ring x) - 1)) = slot x 0"
proof -
  have k: "k < 31" "unat (r_depth (x_ring x)) = 2 ^ k" using assms by (simp_all add: geometry_def)
  have "r_depth (x_ring x) = word_of_nat (2 ^ k)" using k(2) by (metis word_nat_cases unat_of_nat ucast_id of_nat_unat)
  then have "r_depth (x_ring x) = 2 ^ k" by simp
  then have "r_depth (x_ring x) - 1 = mask k" by (simp add: mask_eq_exp_minus_1)
  moreover have "unat (p AND mask k) = unat p mod 2 ^ k" for p :: u32
    by (simp only: take_bit_eq_mask [symmetric] unsigned_take_bit_eq) (simp add: take_bit_eq_mod)
  ultimately show ?thesis by (simp add: slot_def k(2))
qed

definition overwritten :: "xdp_conn \<Rightarrow> u32 \<Rightarrow> u16 \<Rightarrow> bytes \<Rightarrow> bytes \<Rightarrow> xdp_conn" where
  "overwritten x ip p m payload =
     x\<lparr>x_umem := blit (x_umem x) (unat (x_tx_frame_idx x) * unat (x_frame_sz x)) (udp_frame x ip p m payload)\<rparr>"

definition produced :: "xdp_conn \<Rightarrow> nat \<Rightarrow> xdp_conn" where
  "produced x n =
     x\<lparr>x_ring := (x_ring x)\<lparr>r_desc := (r_desc (x_ring x))[slot x 0 :=
          \<lparr>d_addr = x_tx_frame_idx x * x_frame_sz x, d_len = word_of_nat n, d_options = 0\<rparr>],
          r_prod := r_prod (x_ring x) + 1\<rparr>,
       x_tx_frame_idx := word_of_nat (unat (x_tx_frame_idx x + 1) mod unat (x_tx_frame_cnt x))\<rparr>"

lemma slot_umem [simp]: "slot (x\<lparr>x_umem := u\<rparr>) j = slot x j" "in_flight (x\<lparr>x_umem := u\<rparr>) = in_flight x"
  by (simp_all add: slot_def in_flight_def)

lemma send_udp_cases:
  assumes inv: "ring_inv x k f" and m: "length m = 6"
  shows "\<exists>w. send_udp lib ip p m payload x =
    (if f < 42 + length payload then (Err FrameTooLarge, x)
     else if 2 ^ k \<le> in_flight x then (Err TxFull, overwritten x ip p m payload)
     else (Ok (), (produced (overwritten x ip p m payload) (42 + length payload))\<lparr>x_wakeups := w\<rparr>))"
proof -
  have g: "geometry x k f" "unat (x_frame_sz x) = f" "unat (r_depth (x_ring x)) = 2 ^ k"
    "length (r_desc (x_ring x)) = 2 ^ k" "length (x_src_mac x) = 6"
    using inv by (simp_all add: ring_inv_def geometry_def)
  note off = frame_offset [OF inv]
  show ?thesis
  proof (cases "f < 42 + length payload")
    case True
    then show ?thesis by (auto simp: send_udp_def Let_def g(2))
  next
    case False
    have fill: "fill_frame x (unat (x_tx_frame_idx x) * f) ip p m payload = Ok (udp_frame x ip p m payload)"
      by (rule fill_frame_exact) (use False off(2) m g(5) in auto)
    have slot: "slot x 0 < 2 ^ k" by (simp add: slot_def g(3))
    let ?x = "produced (overwritten x ip p m payload) (42 + length payload)"
    let ?w = "x_wakeups x + (if xsk_need_wakeup lib (x_ring ?x) then 1 else 0)"
    have "send_udp lib ip p m payload x =
        (if 2 ^ k \<le> in_flight x then (Err TxFull, overwritten x ip p m payload)
         else (Ok (), ?x\<lparr>x_wakeups := ?w\<rparr>))"
      using False slot
      by (auto simp: send_udp_def Let_def g(2-4) fill new_slot [OF g(1)] off(1) in_flight_def
          overwritten_def produced_def)
    then show ?thesis using False by auto
  qed
qed

text \<open>Two frames of the packet memory do not overlap.\<close>

lemma blit_elsewhere:
  assumes "length b \<le> f" and "n \<le> f" and "a \<noteq> i" and "i * f + length b \<le> length u"
  shows "take n (drop (a * f) (blit u (i * f) b)) = take n (drop (a * f) u)"
proof (cases "a < i")
  case True
  then have "Suc a * f \<le> i * f" by (intro mult_le_mono1) simp
  then have "a * f + n \<le> i * f" using assms(2) by simp
  then show ?thesis using assms(4) by (simp add: take_drop take_blit_before add.commute)
next
  case False
  then have "Suc i * f \<le> a * f" using assms(3) by (intro mult_le_mono1) simp
  then have "i * f + length b \<le> a * f" using assms(1) by simp
  then show ?thesis using assms(4) by (simp add: drop_blit_after)
qed

lemma ago_other: "i < n \<Longrightarrow> 1 \<le> j \<Longrightarrow> j < n \<Longrightarrow> (i + n - j) mod n \<noteq> (i :: nat)"
  by (cases "j \<le> i") (auto simp: mod_if)

lemma packets_kept:
  assumes inv: "ring_inv x k f" and m: "length m = 6" and fit: "42 + length payload \<le> f"
    and j: "1 \<le> j" "j \<le> in_flight x"
  shows "packet (overwritten x ip p m payload) (desc_ago x j) = packet x (desc_ago x j)"
proof -
  let ?i = "unat (x_tx_frame_idx x)"
  have g: "unat (x_frame_sz x) = f" "?i < 4 * 2 ^ k" "in_flight x \<le> 2 ^ k" "length (x_src_mac x) = 6"
    "unat (d_addr (desc_ago x j)) = (?i + 4 * 2 ^ k - j) mod (4 * 2 ^ k) * f"
    "unat (d_len (desc_ago x j)) \<le> f"
    using inv j by (simp_all add: ring_inv_def geometry_def)
  have "(0 :: nat) < 2 ^ k" by simp
  then have other: "(?i + 4 * 2 ^ k - j) mod (4 * 2 ^ k) \<noteq> ?i"
    using ago_other [OF g(2) j(1)] g(3) j(2) by linarith
  have len: "length (udp_frame x ip p m payload) \<le> f"
    "?i * f + length (udp_frame x ip p m payload) \<le> length (x_umem x)"
    using udp_frame_length [OF m g(4)] fit frame_offset(2) [OF inv] by simp_all
  show ?thesis
    using blit_elsewhere [OF len(1) g(6) other len(2)]
    by (simp add: packet_def overwritten_def g(1,5))
qed

lemma in_flight_produced:
  assumes "in_flight x < 2 ^ k" and "k < 31"
  shows "in_flight (produced x n) = Suc (in_flight x)"
proof -
  let ?d = "r_prod (x_ring x) - r_cons (x_ring x)"
  have "(2 :: nat) ^ k \<le> 2 ^ 30" using assms(2) by (intro power_increasing) auto
  then have "Suc (unat ?d) < 2 ^ 32" using assms(1) by (simp add: in_flight_def)
  then have "unat (?d + 1) = Suc (unat ?d)" by (simp add: unat_word_ariths)
  then show ?thesis by (simp add: in_flight_def produced_def algebra_simps)
qed

lemma slot_produced: "slot (produced x n) (Suc j) = slot x j"
  by (simp add: slot_def produced_def)

lemma desc_produced:
  assumes "geometry x k f" and "j < 2 ^ k"
  shows "desc_ago (produced x n) (Suc j) =
    (if j = 0 then \<lparr>d_addr = x_tx_frame_idx x * x_frame_sz x, d_len = word_of_nat n, d_options = 0\<rparr>
     else desc_ago x j)"
proof -
  have g: "unat (r_depth (x_ring x)) = 2 ^ k" "k < 31" "length (r_desc (x_ring x)) = 2 ^ k"
    using assms(1) by (simp_all add: geometry_def)
  then have "slot x 0 < 2 ^ k" by (simp add: slot_def)
  moreover have "j \<noteq> 0 \<Longrightarrow> slot x 0 \<noteq> slot x j"
    using slots_differ [OF g(1,2), of 0 j] assms(2) by simp
  ultimately show ?thesis
    unfolding desc_ago_def slot_produced using g(3) by (simp add: produced_def)
qed

lemma geometry_kept:
  "geometry x k f \<Longrightarrow> geometry (produced x n) k f"
  "ring_inv x k f \<Longrightarrow> length m = 6 \<Longrightarrow> 42 + length payload \<le> f \<Longrightarrow> ring_inv (overwritten x ip p m payload) k f"
proof -
  show "geometry x k f \<Longrightarrow> geometry (produced x n) k f" by (simp add: geometry_def produced_def)
next
  assume inv: "ring_inv x k f" and m: "length m = 6" and fit: "42 + length payload \<le> f"
  have g: "unat (x_frame_sz x) = f" "length (x_src_mac x) = 6"
    using inv by (simp_all add: ring_inv_def geometry_def)
  have "unat (x_tx_frame_idx x) * f + length (udp_frame x ip p m payload) \<le> length (x_umem x)"
    using frame_offset(2) [OF inv] fit by (simp add: udp_frame_length [OF m g(2)])
  then show "ring_inv (overwritten x ip p m payload) k f"
    using inv g(1)
    by (simp add: ring_inv_def geometry_def overwritten_def desc_ago_def)
qed

lemma idx_next:
  assumes "unat (i :: u64) < n" and "n < 2 ^ 63"
  shows "unat (word_of_nat (unat (i + 1) mod n) :: u64) = Suc (unat i) mod n"
proof -
  have "unat (i + 1) = Suc (unat i)" using assms by (simp add: unat_word_ariths)
  moreover have "Suc (unat i) mod n < 2 ^ 64" using assms by (simp add: mod_if)
  ultimately show ?thesis by (simp add: unat_of_nat take_bit_nat_eq_self)
qed

lemma ago_shift: "i < n \<Longrightarrow> j < n \<Longrightarrow> (Suc i mod n + n - Suc j) mod n = (i + n - j) mod (n :: nat)"
  by (cases "Suc i = n") (auto simp: mod_if)

lemma produced_inv:
  assumes inv: "ring_inv x k f" and free: "in_flight x < 2 ^ k" and n: "n \<le> f" "n < 2 ^ 32"
  shows "ring_inv (produced x n) k f"
proof -
  let ?i = "unat (x_tx_frame_idx x)" and ?y = "produced x n" and ?N = "4 * 2 ^ k :: nat"
  have g: "geometry x k f" "?i < ?N" "unat (x_tx_frame_cnt x) = ?N" "k < 31"
    using inv by (simp_all add: ring_inv_def geometry_def)
  have "(2 :: nat) ^ k \<le> 2 ^ 30" using g(4) by (intro power_increasing) auto
  then have N: "?N < 2 ^ 63" by simp
  have idx: "unat (x_tx_frame_idx ?y) = Suc ?i mod ?N"
    using idx_next [OF g(2) N] g(3) by (simp add: produced_def)
  have desc: "unat (d_addr (desc_ago ?y (Suc j))) = (?i + ?N - j) mod ?N * f \<and>
      unat (d_len (desc_ago ?y (Suc j))) \<le> f" if "j \<le> in_flight x" for j
  proof (cases "j = 0")
    case True
    then show ?thesis
      using n frame_offset(1) [OF inv] g(2)
      by (simp add: desc_produced [OF g(1)] unat_of_nat take_bit_nat_eq_self)
  next
    case False
    then show ?thesis
      using that free inv by (simp add: desc_produced [OF g(1)] ring_inv_def)
  qed
  have "unat (d_addr (desc_ago ?y j)) = (unat (x_tx_frame_idx ?y) + ?N - j) mod ?N * f \<and>
      unat (d_len (desc_ago ?y j)) \<le> f" if j: "j \<in> {1..in_flight ?y}" for j
  proof -
    obtain l where l: "j = Suc l" "l \<le> in_flight x"
      using j unfolding in_flight_produced [OF free g(4)] by (cases j) auto
    then have "l < ?N" using free by simp
    then show ?thesis using desc [OF l(2)] by (simp add: l(1) idx ago_shift [OF g(2)])
  qed
  moreover have "unat (x_tx_frame_idx ?y) < ?N" by (simp add: idx)
  ultimately show ?thesis
    using geometry_kept(1) [OF g(1)] free in_flight_produced [OF free g(4)] by (simp add: ring_inv_def)
qed

lemma consume_inv:
  assumes inv: "ring_inv x k f" and more: "0 < in_flight x"
  shows "ring_inv (kernel_consume x) k f \<and> in_flight (kernel_consume x) = in_flight x - 1"
proof -
  let ?d = "r_prod (x_ring x) - r_cons (x_ring x)"
  have "unat (?d - 1) = unat ?d - 1"
    using more unat_sub [of 1 ?d] by (simp add: in_flight_def word_le_nat_alt)
  then have fl: "in_flight (kernel_consume x) = in_flight x - 1"
    by (simp add: in_flight_def kernel_consume_def diff_diff_eq)
  moreover have "desc_ago (kernel_consume x) j = desc_ago x j" for j
    by (simp add: desc_ago_def slot_def kernel_consume_def)
  moreover have "geometry (kernel_consume x) k f = geometry x k f"
    "x_tx_frame_idx (kernel_consume x) = x_tx_frame_idx x"
    by (simp_all add: geometry_def kernel_consume_def)
  ultimately show ?thesis using inv by (auto simp: ring_inv_def)
qed

lemma wakeups_irrelevant [simp]:
  "ring_inv (x\<lparr>x_wakeups := w\<rparr>) k f = ring_inv x k f"
  "packet (x\<lparr>x_wakeups := w\<rparr>) d = packet x d" "in_flight (x\<lparr>x_wakeups := w\<rparr>) = in_flight x"
  "desc_ago (x\<lparr>x_wakeups := w\<rparr>) j = desc_ago x j"
  by (simp_all add: ring_inv_def geometry_def packet_def in_flight_def desc_ago_def slot_def)

section \<open>Reachable states\<close>

text \<open>
  What \<open>fd_xsk_init\<close> promises: it accepts only depths that are powers of two, and gives
  an empty ring of that depth.
\<close>

definition xsk_laws :: "xsk_lib \<Rightarrow> bool" where
  "xsk_laws lib \<longleftrightarrow>
     (\<forall>depth fsz usz ifi q ring. xsk_init lib depth fsz usz ifi q = Some ring \<longrightarrow>
        (\<exists>k < 31. unat depth = 2 ^ k \<and> unat (r_depth ring) = 2 ^ k \<and> length (r_desc ring) = 2 ^ k \<and>
           r_prod ring = r_cons ring))"

definition cfg_size :: "xdp_config \<Rightarrow> nat" where
  "cfg_size cfg = 4 * (if unat (cfg_ring_depth cfg) > 0 then unat (cfg_ring_depth cfg) else 1024) *
     (if unat (cfg_frame_sz cfg) > 0 then unat (cfg_frame_sz cfg) else 2048)"

inductive xdp_reachable :: "xsk_lib \<Rightarrow> xdp_conn \<Rightarrow> bool" for lib where
  opened: "xdp_new lib addr cfg = Ok x \<Longrightarrow> cfg_size cfg < 2 ^ 63 \<Longrightarrow>
    unat (cfg_frame_sz cfg) < 2 ^ 32 \<Longrightarrow> length (cfg_src_mac cfg) = 6 \<Longrightarrow>
    xdp_reachable lib x"
| sent: "xdp_reachable lib x \<Longrightarrow> length dst_mac = 6 \<Longrightarrow>
    xdp_reachable lib (snd (send_udp lib dst_ip dst_port dst_mac payload x))"
| consumed: "xdp_reachable lib x \<Longrightarrow> 0 < in_flight x \<Longrightarrow> xdp_reachable lib (kernel_consume x)"

lemma new_inv:
  assumes "xsk_laws lib" and "xdp_new lib addr cfg = Ok x" and "cfg_size cfg < 2 ^ 63"
    and "length (cfg_src_mac cfg) = 6" and "unat (cfg_frame_sz cfg) < 2 ^ 32"
  shows "\<exists>k f. ring_inv x k f"
proof -
  let ?f = "if unat (cfg_frame_sz cfg) > 0 then cfg_frame_sz cfg else 2048"
  let ?d = "if unat (cfg_ring_depth cfg) > 0 then cfg_ring_depth cfg else 1024"
  have size: "cfg_size cfg = 4 * unat ?d * unat ?f" by (simp add: cfg_size_def)
  obtain ring where ring: "xsk_init lib ?d ?f (word_of_nat (unat (?d * 4 * ?f)))
      (if_nametoindex lib (if_name cfg)) (if_queue cfg) = Some ring"
    and x: "x_ring x = ring" "x_frame_sz x = ?f" "x_src_mac x = cfg_src_mac cfg" "x_tx_frame_idx x = 0"
      "x_tx_frame_cnt x = ?d * 4" "unat (?d * 4 * ?f) \<le> length (x_umem x)"
    using assms(2) by (auto simp: xdp_new_def Let_def split: if_splits option.splits)
  obtain k where k: "k < 31" "unat ?d = 2 ^ k" "unat (r_depth ring) = 2 ^ k" "length (r_desc ring) = 2 ^ k"
    "r_prod ring = r_cons ring"
    using assms(1) ring unfolding xsk_laws_def by blast
  have f: "unat ?f < 2 ^ 32" using assms(5) by simp
  have cnt: "unat (?d * 4) = 4 * 2 ^ k"
  proof -
    have "(2 :: nat) ^ k \<le> 2 ^ 30" using k(1) by (intro power_increasing) auto
    then show ?thesis using k(2) by (simp add: unat_word_ariths)
  qed
  then have "unat (?d * 4 * ?f) = 4 * 2 ^ k * unat ?f"
    using assms(3) k(2) unfolding size by (simp add: unat_word_ariths del: if_split)
  then have "ring_inv x k (unat ?f)"
    using x k cnt assms(3,4) size f
    by (simp add: ring_inv_def geometry_def in_flight_def del: if_split)
  then show ?thesis by blast
qed

lemma send_inv:
  assumes inv: "ring_inv x k f" and m: "length m = 6"
  shows "ring_inv (snd (send_udp lib ip p m payload x)) k f"
proof -
  obtain w where w: "send_udp lib ip p m payload x =
    (if f < 42 + length payload then (Err FrameTooLarge, x)
     else if 2 ^ k \<le> in_flight x then (Err TxFull, overwritten x ip p m payload)
     else (Ok (), (produced (overwritten x ip p m payload) (42 + length payload))\<lparr>x_wakeups := w\<rparr>))"
    using send_udp_cases [OF inv m] by blast
  have "f < 2 ^ 32" using inv by (simp add: ring_inv_def geometry_def)
  then show ?thesis
    using inv geometry_kept(2) [OF inv m, of payload ip p]
      produced_inv [of "overwritten x ip p m payload" k f "42 + length payload"]
    by (simp add: w overwritten_def)
qed

lemma reachable_inv: "xdp_reachable lib x \<Longrightarrow> xsk_laws lib \<Longrightarrow> \<exists>k f. ring_inv x k f"
  by (induction rule: xdp_reachable.induct) (use new_inv send_inv consume_inv in blast)+

section \<open>Properties\<close>

text \<open>The headers are well formed. On buffers of the right sizes the three header builders
  return exactly the Ethernet II, IPv4 and UDP headers, and the one's-complement sum of the
  IPv4 header including its checksum is \<open>0xFFFF\<close>, which is the test a receiver makes.\<close>

theorem xdp_headers_valid:
  assumes "length eth = 14" and "length ip = 20" and "length udp = 8" and "length dst = 6" and "length src = 6"
  shows "build_eth_header eth dst src = Ok (dst @ src @ [0x08, 0x00]) \<and>
    (\<exists>h. build_ip4_header ip src_ip dst_ip len = Ok h \<and> length h = 20 \<and> ip_fold (ip_sum h) = 0xFFFF \<and>
       take 10 h = [0x45, 0] @ be16 len @ [0, 0, 0x40, 0, 64, 17] \<and>
       drop 12 h = be32 src_ip @ be32 dst_ip) \<and>
    build_udp_header udp sp dp ulen = Ok (be16 sp @ be16 dp @ be16 ulen @ [0, 0])"
proof -
  let ?h = "ip4_bytes len (ip4_checksum len src_ip dst_ip) src_ip dst_ip"
  have "take 10 ?h = [0x45, 0] @ be16 len @ [0, 0, 0x40, 0, 64, 17]" "drop 12 ?h = be32 src_ip @ be32 dst_ip"
    by (simp_all add: ip4_bytes_def)
  then show ?thesis
    by (simp add: build_eth_header_exact [OF assms(1,4,5)] build_ip4_header_exact [OF assms(2)]
        build_udp_header_exact [OF assms(3)] checksum_folds eth_bytes_def udp_bytes_def)
qed

theorem xdp_headers_valid_witness:
  "\<exists>h. build_ip4_header (replicate 20 7) 0x0A000001 0x0A000002 40 = Ok h \<and> ip_fold (ip_sum h) = 0xFFFF"
  using xdp_headers_valid [of "replicate 14 0" "replicate 20 7" "replicate 8 0" "replicate 6 0" "replicate 6 0"
      "0x0A000001" "0x0A000002" 40 0 0 0]
  by auto

text \<open>C6: sending never touches a packet the kernel still has to transmit. In every state
  reachable by opening a connection, sending and the kernel taking descriptors, in any
  order, a send either reports a frame that is too large and changes nothing, or a full ring, or
  succeeds; it never leaves the packet memory, and each descriptor in flight stays in the ring
  with its bytes unchanged. After a successful send the newest descriptor hands the kernel exactly the
  UDP frame.\<close>

theorem xdp_send_keeps_packets:
  assumes "xdp_reachable lib x" and "xsk_laws lib" and "length dst_mac = 6"
    and "send_udp lib dst_ip dst_port dst_mac payload x = (r, x')"
  shows "(r = Err FrameTooLarge \<and> x' = x \<or>
      r = Err TxFull \<and> in_flight x' = in_flight x \<and> (\<forall>j \<in> {1..in_flight x}. desc_ago x' j = desc_ago x j) \<or>
      r = Ok () \<and> in_flight x' = Suc (in_flight x) \<and>
        (\<forall>j \<in> {1..in_flight x}. desc_ago x' (Suc j) = desc_ago x j) \<and>
        packet x' (desc_ago x' 1) = udp_frame x dst_ip dst_port dst_mac payload) \<and>
    (\<forall>j \<in> {1..in_flight x}. packet x' (desc_ago x j) = packet x (desc_ago x j))"
proof -
  obtain k f where inv: "ring_inv x k f" using reachable_inv [OF assms(1,2)] by blast
  then have g: "geometry x k f" "k < 31" "f < 2 ^ 32" "unat (x_frame_sz x) = f" "length (x_src_mac x) = 6"
    by (simp_all add: ring_inv_def geometry_def)
  let ?o = "overwritten x dst_ip dst_port dst_mac payload" and ?n = "42 + length payload"
  obtain w where w: "send_udp lib dst_ip dst_port dst_mac payload x =
    (if f < ?n then (Err FrameTooLarge, x) else if 2 ^ k \<le> in_flight x then (Err TxFull, ?o)
     else (Ok (), (produced ?o ?n)\<lparr>x_wakeups := w\<rparr>))"
    using send_udp_cases [OF inv assms(3)] by blast
  show ?thesis
  proof (cases "f < ?n")
    case True
    then show ?thesis using assms(4) by (auto simp: w)
  next
    case False
    then have kept: "\<forall>j \<in> {1..in_flight x}. packet ?o (desc_ago x j) = packet x (desc_ago x j)"
      using packets_kept [OF inv assms(3)] by simp
    have same: "in_flight ?o = in_flight x" "desc_ago ?o j = desc_ago x j" for j
      by (simp_all add: overwritten_def desc_ago_def)
    have pk: "packet (produced ?o ?n) d = packet ?o d" for d by (simp add: packet_def produced_def)
    show ?thesis
    proof (cases "2 ^ k \<le> in_flight x")
      case True
      then show ?thesis using False assms(4) kept same by (auto simp: w)
    next
      case free: False
      have inv': "ring_inv ?o k f" using geometry_kept(2) [OF inv assms(3)] False by simp
      then have g': "geometry ?o k f" by (simp add: ring_inv_def)
      have fl: "in_flight (produced ?o ?n) = Suc (in_flight x)"
        using in_flight_produced [of ?o k ?n] free g(2) same(1) by simp
      have new: "packet ?o \<lparr>d_addr = x_tx_frame_idx x * x_frame_sz x, d_len = word_of_nat ?n, d_options = 0\<rparr> =
          udp_frame x dst_ip dst_port dst_mac payload"
        using frame_offset [OF inv] False g(3,4) udp_frame_length [OF assms(3) g(5)]
        by (simp add: packet_def overwritten_def blit_def unat_of_nat take_bit_nat_eq_self
            del: of_nat_add)
      have fields: "x_tx_frame_idx ?o = x_tx_frame_idx x" "x_frame_sz ?o = x_frame_sz x"
        by (simp_all add: overwritten_def)
      have "desc_ago (produced ?o ?n) 1 =
          \<lparr>d_addr = x_tx_frame_idx x * x_frame_sz x, d_len = word_of_nat ?n, d_options = 0\<rparr>"
        using desc_produced [OF g', of 0 ?n] fields by simp
      moreover have "desc_ago (produced ?o ?n) (Suc j) = desc_ago x j" if "j \<in> {1..in_flight x}" for j
        using desc_produced [OF g', of j ?n] that free same by simp
      ultimately show ?thesis
        using False free assms(4) kept fl new pk by (auto simp: w)
    qed
  qed
qed

definition sample_xsk :: xsk_lib where
  "sample_xsk =
     \<lparr>if_nametoindex = (\<lambda>_. 1),
      xsk_init = (\<lambda>depth _ _ _ _.
        if unat depth = 2
        then Some \<lparr>r_prod = 0, r_cons = 0, r_depth = 2,
                  r_desc = replicate 2 \<lparr>d_addr = 0, d_len = 0, d_options = 0\<rparr>\<rparr>
        else None),
      xdp_install = (\<lambda>_ _ _ _. 3), xsk_activate = (\<lambda>_ _. True), xsk_need_wakeup = (\<lambda>_. True)\<rparr>"

definition sample_cfg :: xdp_config where
  "sample_cfg = xdp_config_default\<lparr>cfg_frame_sz := 64, cfg_ring_depth := 2\<rparr>"

definition sample_xdp :: xdp_conn where
  "sample_xdp =
     \<lparr>x_ring = \<lparr>r_prod = 0, r_cons = 0, r_depth = 2,
                r_desc = replicate 2 \<lparr>d_addr = 0, d_len = 0, d_options = 0\<rparr>\<rparr>,
      x_umem = replicate 4608 0, x_frame_sz = 64, x_src_ip = 0, x_src_port = 0,
      x_src_mac = replicate 6 0, x_tx_frame_idx = 0, x_tx_frame_cnt = 8, x_wakeups = 0\<rparr>"

lemma sample_xdp_new: "xdp_new sample_xsk 4096 sample_cfg = Ok sample_xdp"
  by (simp add: xdp_new_def sample_xsk_def sample_cfg_def sample_xdp_def xdp_config_default_def Let_def)

lemma sample_xsk_laws: "xsk_laws sample_xsk"
  by (auto simp: xsk_laws_def sample_xsk_def intro!: exI [of _ "1 :: nat"])

theorem xdp_send_keeps_packets_witness:
  "case send_udp sample_xsk 1 2 (replicate 6 0) [5] sample_xdp of
     (r, x') \<Rightarrow> r = Err FrameTooLarge \<or> r = Err TxFull \<or>
       in_flight x' = 1 \<and> packet x' (desc_ago x' 1) = udp_frame sample_xdp 1 2 (replicate 6 0) [5]"
proof -
  have reach: "xdp_reachable sample_xsk sample_xdp"
    by (rule opened [OF sample_xdp_new]) (simp_all add: sample_cfg_def cfg_size_def xdp_config_default_def)
  obtain r x' where s: "send_udp sample_xsk 1 2 (replicate 6 0) [5] sample_xdp = (r, x')" by fastforce
  have "in_flight sample_xdp = 0" by (simp add: in_flight_def sample_xdp_def)
  then show ?thesis using xdp_send_keeps_packets [OF reach sample_xsk_laws _ s] by (auto simp: s)
qed

end
