(* ===== verification/Ed25519.thy ===== *)
theory Ed25519
  imports Prelude
begin

text \<open>
  \<open>fd_ed25519/src/lib.rs\<close>: public keys, program derived addresses, signatures, key pairs,
  batch verification, X25519 and the hex and base58 helpers, and the curve test of
  \<open>fd_ed25519_sys/csrc/fd_ed25519_pda.c\<close>. The cryptographic routines of the C library, its
  encoders and its error codes are the parameter \<open>ed_lib\<close>. A \<open>[u8; N]\<close> is a byte list
  of that length, so the \<open>from_bytes\<close>, \<open>as_bytes\<close>, \<open>as_ref\<close> and array conversions are the
  identity.
\<close>

section \<open>The C interface\<close>

record ('s, 'p, 'f) ed_lib =
  sha256_init :: 's
  sha256_append :: "bytes \<Rightarrow> 's \<Rightarrow> 's"
  sha256_fini :: "'s \<Rightarrow> bytes"
  point_frombytes :: "bytes \<Rightarrow> 'p option"
  point_tobytes :: "'p \<Rightarrow> bytes"
  f_frombytes :: "bytes \<Rightarrow> 'f"
  f_sqr :: "'f \<Rightarrow> 'f"
  f_mul :: "'f \<Rightarrow> 'f \<Rightarrow> 'f"
  f_sub :: "'f \<Rightarrow> 'f \<Rightarrow> 'f"
  f_add :: "'f \<Rightarrow> 'f \<Rightarrow> 'f"
  f_d :: 'f
  f_one :: 'f
  f_sqrt_ratio :: "'f \<Rightarrow> 'f \<Rightarrow> int"
  ed_verify :: "bytes \<Rightarrow> bytes \<Rightarrow> bytes \<Rightarrow> int"
  ed_verify_batch :: "bytes \<Rightarrow> bytes \<Rightarrow> bytes \<Rightarrow> u8 \<Rightarrow> int"
  ed_public :: "bytes \<Rightarrow> bytes option"
  ed_sign :: "bytes \<Rightarrow> bytes \<Rightarrow> bytes \<Rightarrow> bytes option"
  x_public :: "bytes \<Rightarrow> bytes"
  x_exchange :: "bytes \<Rightarrow> bytes \<Rightarrow> bytes option"
  c_base58_encode_32 :: "bytes \<Rightarrow> bytes option"
  c_base58_encode_64 :: "bytes \<Rightarrow> bytes option"
  c_base58_decode_32 :: "bytes \<Rightarrow> bytes option"
  c_base58_decode_64 :: "bytes \<Rightarrow> bytes option"
  c_hex_encode :: "bytes \<Rightarrow> bytes \<Rightarrow> bytes option"
  c_hex_decode :: "bytes \<Rightarrow> bytes \<Rightarrow> nat \<Rightarrow> bytes \<times> u64"
  code_success :: int
  code_err_sig :: int
  code_err_pubkey :: int
  code_err_msg :: int

datatype ed25519_error =
    InvalidSignature string
  | InvalidPublicKey string
  | VerificationFailed
  | InvalidInput string
  | CryptoError string
  | DerivationFailed
  | MaxSeedLengthExceeded
  | KeyExchangeFailed

definition convert_ed25519_error :: "('s, 'p, 'f) ed_lib \<Rightarrow> int \<Rightarrow> ed25519_error" where
  "convert_ed25519_error lib code =
     (if code = code_err_sig lib then InvalidSignature ''Invalid signature format''
      else if code = code_err_pubkey lib then InvalidPublicKey ''Invalid public key format''
      else if code = code_err_msg lib then VerificationFailed
      else CryptoError ''Unknown error occurred'')"

section \<open>The two curve tests\<close>

definition bytes_are_curve_point :: "('s, 'p, 'f) ed_lib \<Rightarrow> bytes \<Rightarrow> bool" where
  "bytes_are_curve_point lib b =
     (case point_frombytes lib b of None \<Rightarrow> False | Some point \<Rightarrow> point_tobytes lib point = b)"

text \<open>\<open>fd_ed25519_point_is_on_curve\<close>: is \<open>(y\<^sup>2 - 1) / (d y\<^sup>2 + 1)\<close> a square?\<close>

definition point_is_on_curve :: "('s, 'p, 'f) ed_lib \<Rightarrow> bytes \<Rightarrow> int" where
  "point_is_on_curve lib buf =
     (let y = f_frombytes lib buf;
          u = f_sqr lib y;
          v = f_mul lib u (f_d lib);
          u = f_sub lib u (f_one lib);
          v = f_add lib v (f_one lib)
      in f_sqrt_ratio lib u v)"

section \<open>Hex and base58\<close>

text \<open>\<open>CString::new\<close> refuses a string with a zero byte, otherwise it appends one.\<close>

definition cstring :: "bytes \<Rightarrow> bytes option" where
  "cstring s = (if 0 \<in> set s then None else Some (s @ [0]))"

definition hex_encode :: "('s, 'p, 'f) ed_lib \<Rightarrow> bytes \<Rightarrow> (bytes, ed25519_error) res" where
  "hex_encode lib b =
     (case c_hex_encode lib (replicate (length b * 2 + 1) 0) b of
        None \<Rightarrow> Panic
      | Some out \<Rightarrow> Ok (takeWhile (\<lambda>c. c \<noteq> 0) out))"

definition hex_decode :: "('s, 'p, 'f) ed_lib \<Rightarrow> bytes \<Rightarrow> (bytes, ed25519_error) res" where
  "hex_decode lib s =
     (if length s mod 2 \<noteq> 0 then Err (InvalidInput ''Hex string must have even length'')
      else let expected_len = length s div 2
      in case cstring s of
           None \<Rightarrow> Err (InvalidInput ''Invalid hex string'')
         | Some cs \<Rightarrow>
             (let (out, decoded_len) = c_hex_decode lib (replicate expected_len 0) cs expected_len
              in if decoded_len \<noteq> word_of_nat expected_len
                 then Err (InvalidInput ''Failed to decode hex string'') else Ok out))"

definition base58_encode_32 :: "('s, 'p, 'f) ed_lib \<Rightarrow> bytes \<Rightarrow> (bytes, ed25519_error) res" where
  "base58_encode_32 lib b = (case c_base58_encode_32 lib b of None \<Rightarrow> Panic | Some s \<Rightarrow> Ok s)"

definition base58_encode_64 :: "('s, 'p, 'f) ed_lib \<Rightarrow> bytes \<Rightarrow> (bytes, ed25519_error) res" where
  "base58_encode_64 lib b = (case c_base58_encode_64 lib b of None \<Rightarrow> Panic | Some s \<Rightarrow> Ok s)"

definition base58_decode_32 :: "('s, 'p, 'f) ed_lib \<Rightarrow> bytes \<Rightarrow> (bytes, ed25519_error) res" where
  "base58_decode_32 lib s =
     (case cstring s of
        None \<Rightarrow> Err (InvalidInput ''Invalid base58 string'')
      | Some cs \<Rightarrow> ok_or (c_base58_decode_32 lib cs) (InvalidInput ''Failed to decode base58''))"

definition base58_decode_64 :: "('s, 'p, 'f) ed_lib \<Rightarrow> bytes \<Rightarrow> (bytes, ed25519_error) res" where
  "base58_decode_64 lib s =
     (case cstring s of
        None \<Rightarrow> Err (InvalidInput ''Invalid base58 string'')
      | Some cs \<Rightarrow> ok_or (c_base58_decode_64 lib cs) (InvalidInput ''Failed to decode base58''))"

section \<open>Public keys\<close>

definition pubkey_is_on_curve :: "('s, 'p, 'f) ed_lib \<Rightarrow> bytes \<Rightarrow> bool" where
  "pubkey_is_on_curve lib k = bytes_are_curve_point lib k"

definition pubkey_to_hex :: "('s, 'p, 'f) ed_lib \<Rightarrow> bytes \<Rightarrow> (bytes, ed25519_error) res" where
  "pubkey_to_hex lib k = hex_encode lib k"

definition pubkey_from_hex :: "('s, 'p, 'f) ed_lib \<Rightarrow> bytes \<Rightarrow> (bytes, ed25519_error) res" where
  "pubkey_from_hex lib s =
     res_bind (hex_decode lib s) (\<lambda>b.
     if length b \<noteq> 32 then Err (InvalidInput ''Invalid hex length for public key'')
     else copy_from_slice (replicate 32 0) 0 32 b)"

definition pubkey_to_base58 :: "('s, 'p, 'f) ed_lib \<Rightarrow> bytes \<Rightarrow> (bytes, ed25519_error) res" where
  "pubkey_to_base58 lib k = base58_encode_32 lib k"

definition pubkey_from_base58 :: "('s, 'p, 'f) ed_lib \<Rightarrow> bytes \<Rightarrow> (bytes, ed25519_error) res" where
  "pubkey_from_base58 lib s = base58_decode_32 lib s"

text \<open>\<open>From<&[u8]>\<close> panics unless the slice has 32 bytes.\<close>

definition pubkey_from_slice :: "bytes \<Rightarrow> (bytes, ed25519_error) res" where
  "pubkey_from_slice b = copy_from_slice (replicate 32 0) 0 32 b"

definition pubkey_default :: bytes where
  "pubkey_default = replicate 32 0"

section \<open>Program derived addresses\<close>

definition pda_marker :: bytes where
  "pda_marker = ascii ''ProgramDerivedAddress''"

definition seeds_ok :: "bytes list \<Rightarrow> bool" where
  "seeds_ok seeds \<longleftrightarrow> length seeds \<le> 16 \<and> list_all (\<lambda>seed. length seed \<le> 32) seeds"

text \<open>The loop \<open>for _ in 0..u8::MAX\<close>, with the number of turns left.\<close>

fun find_bump ::
  "('s, 'p, 'f) ed_lib \<Rightarrow> 's \<Rightarrow> bytes \<Rightarrow> nat \<Rightarrow> u8 \<Rightarrow> (bytes \<times> u8, ed25519_error) res" where
  "find_bump lib base_sha program_id 0 bump = Err DerivationFailed"
| "find_bump lib base_sha program_id (Suc n) bump =
     (let sha = sha256_append lib [bump] base_sha;
          sha = sha256_append lib program_id sha;
          sha = sha256_append lib pda_marker sha;
          hash = sha256_fini lib sha
      in if point_is_on_curve lib hash = 0 then Ok (hash, bump)
         else if bump = 0 then Panic
         else find_bump lib base_sha program_id n (bump - 1))"

definition find_program_address ::
  "('s, 'p, 'f) ed_lib \<Rightarrow> bytes list \<Rightarrow> bytes \<Rightarrow> (bytes \<times> u8, ed25519_error) res" where
  "find_program_address lib seeds program_id =
     (if \<not> seeds_ok seeds then Err MaxSeedLengthExceeded
      else let base_sha = foldl (\<lambda>sha seed. sha256_append lib seed sha) (sha256_init lib) seeds
           in find_bump lib base_sha program_id 255 255)"

definition create_program_address_unchecked ::
  "('s, 'p, 'f) ed_lib \<Rightarrow> bytes list \<Rightarrow> bytes \<Rightarrow> (bytes, ed25519_error) res" where
  "create_program_address_unchecked lib seeds program_id =
     (let sha = foldl (\<lambda>sha seed. sha256_append lib seed sha) (sha256_init lib) seeds;
          sha = sha256_append lib program_id sha;
          sha = sha256_append lib pda_marker sha;
          hash = sha256_fini lib sha
      in if bytes_are_curve_point lib hash then Err (InvalidInput ''Provided seeds are invalid'')
         else Ok hash)"

definition create_program_address ::
  "('s, 'p, 'f) ed_lib \<Rightarrow> bytes list \<Rightarrow> bytes \<Rightarrow> (bytes, ed25519_error) res" where
  "create_program_address lib seeds program_id =
     (if \<not> seeds_ok seeds then Err MaxSeedLengthExceeded
      else let sha = foldl (\<lambda>sha seed. sha256_append lib seed sha) (sha256_init lib) seeds;
               sha = sha256_append lib program_id sha;
               sha = sha256_append lib pda_marker sha;
               hash = sha256_fini lib sha
           in if bytes_are_curve_point lib hash then Err (InvalidInput ''Provided seeds are invalid'')
              else Ok hash)"

section \<open>Signatures\<close>

text \<open>The \<open>match\<close> on a result code of a verification.\<close>

definition verify_outcome :: "('s, 'p, 'f) ed_lib \<Rightarrow> int \<Rightarrow> (bool, ed25519_error) res" where
  "verify_outcome lib r =
     (if r = code_success lib then Ok True
      else if r = code_err_msg lib then Ok False
      else Err (convert_ed25519_error lib r))"

definition pubkey_verify :: "('s, 'p, 'f) ed_lib \<Rightarrow> bytes \<Rightarrow> bytes \<Rightarrow> bytes \<Rightarrow> (bool, ed25519_error) res" where
  "pubkey_verify lib k message sig = verify_outcome lib (ed_verify lib message sig k)"

definition signature_to_hex :: "('s, 'p, 'f) ed_lib \<Rightarrow> bytes \<Rightarrow> (bytes, ed25519_error) res" where
  "signature_to_hex lib s = hex_encode lib s"

definition signature_from_hex :: "('s, 'p, 'f) ed_lib \<Rightarrow> bytes \<Rightarrow> (bytes, ed25519_error) res" where
  "signature_from_hex lib s =
     res_bind (hex_decode lib s) (\<lambda>b.
     if length b \<noteq> 64 then Err (InvalidInput ''Invalid hex length for signature'')
     else copy_from_slice (replicate 64 0) 0 64 b)"

definition signature_to_base58 :: "('s, 'p, 'f) ed_lib \<Rightarrow> bytes \<Rightarrow> (bytes, ed25519_error) res" where
  "signature_to_base58 lib s = base58_encode_64 lib s"

definition signature_from_base58 :: "('s, 'p, 'f) ed_lib \<Rightarrow> bytes \<Rightarrow> (bytes, ed25519_error) res" where
  "signature_from_base58 lib s = base58_decode_64 lib s"

definition signature_from_slice :: "bytes \<Rightarrow> (bytes, ed25519_error) res" where
  "signature_from_slice b = copy_from_slice (replicate 64 0) 0 64 b"

section \<open>Key pairs\<close>

record keypair =
  kp_secret :: bytes
  kp_public :: bytes

definition keypair_from_secret_key :: "('s, 'p, 'f) ed_lib \<Rightarrow> bytes \<Rightarrow> (keypair, ed25519_error) res" where
  "keypair_from_secret_key lib sk =
     (case ed_public lib sk of
        None \<Rightarrow> Err (CryptoError ''Failed to derive public key'')
      | Some pk \<Rightarrow> Ok \<lparr>kp_secret = sk, kp_public = pk\<rparr>)"

definition keypair_sign :: "('s, 'p, 'f) ed_lib \<Rightarrow> keypair \<Rightarrow> bytes \<Rightarrow> (bytes, ed25519_error) res" where
  "keypair_sign lib kp message =
     ok_or (ed_sign lib message (kp_public kp) (kp_secret kp)) (CryptoError ''Failed to sign message'')"

text \<open>\<open>From<&[u8]>\<close>: a wrong length and a failed derivation panic.\<close>

definition keypair_from_slice :: "('s, 'p, 'f) ed_lib \<Rightarrow> bytes \<Rightarrow> (keypair, ed25519_error) res" where
  "keypair_from_slice lib b =
     res_bind (copy_from_slice (replicate 32 0) 0 32 b) (\<lambda>buf.
     case keypair_from_secret_key lib buf of Ok kp \<Rightarrow> Ok kp | _ \<Rightarrow> Panic)"

section \<open>Batch verification\<close>

text \<open>\<open>pubkeys.len() as u8\<close> keeps the low eight bits.\<close>

definition batch_verify_single_message ::
  "('s, 'p, 'f) ed_lib \<Rightarrow> bytes \<Rightarrow> bytes list \<Rightarrow> bytes list \<Rightarrow> (bool, ed25519_error) res" where
  "batch_verify_single_message lib message pubkeys signatures =
     (if length pubkeys \<noteq> length signatures
      then Err (InvalidInput ''Number of public keys must match number of signatures'')
      else if pubkeys = [] then Ok True
      else let batch_size = word_of_nat (length pubkeys) :: u8;
               signature_bytes = concat signatures;
               pubkey_bytes = concat pubkeys
           in verify_outcome lib (ed_verify_batch lib message signature_bytes pubkey_bytes batch_size))"

section \<open>X25519\<close>

definition x25519_pubkey :: "('s, 'p, 'f) ed_lib \<Rightarrow> bytes \<Rightarrow> bytes" where
  "x25519_pubkey lib sk = x_public lib sk"

definition x25519_exchange :: "('s, 'p, 'f) ed_lib \<Rightarrow> bytes \<Rightarrow> bytes \<Rightarrow> (bytes, ed25519_error) res" where
  "x25519_exchange lib sk peer = ok_or (x_exchange lib sk peer) KeyExchangeFailed"

text \<open>Dropping a shared secret clears it.\<close>

definition x25519_shared_secret_drop :: "bytes \<Rightarrow> bytes" where
  "x25519_shared_secret_drop s = replicate (length s) 0"

end
