(* ===== verification/Ed25519_Props.thy ===== *)
theory Ed25519_Props
  imports Ed25519
begin

text \<open>
  Properties of the Ed25519 wrapper: which address \<open>find_program_address\<close> returns, that
  \<open>create_program_address\<close> confirms it, what batch verification checks, and the round trips
  of the text forms. The C library enters through the locale \<open>sha256_stream\<close> and named laws.
\<close>

section \<open>Hashing\<close>

text \<open>The hash of a sequence of appended pieces is the hash of their concatenation.\<close>

locale sha256_stream =
  fixes lib :: "('s, 'p, 'f) ed_lib"
    and H :: "bytes \<Rightarrow> bytes"
  assumes streaming:
    "sha256_fini lib (foldl (\<lambda>s b. sha256_append lib b s) (sha256_init lib) bs) = H (concat bs)"
begin

lemma append_hash:
  "sha256_fini lib (sha256_append lib c (sha256_append lib b
     (foldl (\<lambda>s b. sha256_append lib b s) (sha256_init lib) bs))) = H (concat bs @ b @ c)"
  using streaming [of "bs @ [b, c]"] by simp

lemma append_hash3:
  "sha256_fini lib (sha256_append lib d (sha256_append lib c (sha256_append lib b
     (foldl (\<lambda>s b. sha256_append lib b s) (sha256_init lib) bs)))) = H (concat bs @ b @ c @ d)"
  using streaming [of "bs @ [b, c, d]"] by simp

end

definition pda_hash :: "(bytes \<Rightarrow> bytes) \<Rightarrow> bytes list \<Rightarrow> bytes \<Rightarrow> bytes" where
  "pda_hash H seeds program_id = H (concat seeds @ program_id @ pda_marker)"

definition bumped :: "bytes list \<Rightarrow> u8 \<Rightarrow> bytes list" where
  "bumped seeds bump = seeds @ [[bump]]"

context sha256_stream
begin

lemma find_bump_spec:
  assumes "n \<le> unat b"
  shows "find_bump lib (foldl (\<lambda>s b. sha256_append lib b s) (sha256_init lib) seeds) pid n b =
    (case find (\<lambda>c. point_is_on_curve lib (pda_hash H (bumped seeds c) pid) = 0)
        (map (\<lambda>i. b - word_of_nat i) [0..<n]) of
       Some c \<Rightarrow> Ok (pda_hash H (bumped seeds c) pid, c)
     | None \<Rightarrow> Err DerivationFailed)"
  using assms
proof (induction n arbitrary: b)
  case 0
  then show ?case by simp
next
  case (Suc n)
  have h: "H (concat seeds @ b # pid @ pda_marker) = pda_hash H (bumped seeds b) pid" for b
    by (simp add: pda_hash_def bumped_def)
  have nz: "b \<noteq> 0" using Suc.prems by auto
  then have "unat (b - 1) = unat b - 1" using unat_sub [of 1 b] by (simp add: word_le_nat_alt unat_gt_0 Suc_leI)
  then have le: "n \<le> unat (b - 1)" using Suc.prems by simp
  have "map (\<lambda>i. b - word_of_nat i) [0..<Suc n] = b # map (\<lambda>i. (b - 1) - word_of_nat i) [0..<n]"
    by (simp add: upt_conv_Cons map_Suc_upt [symmetric] del: upt_Suc)
  then show ?case
    using Suc.IH [OF le] nz append_hash3 [of pda_marker pid "[b]" seeds]
    by (simp add: h del: upt_Suc)
qed

end

lemma unat_bump: "i < 255 \<Longrightarrow> unat ((255 :: u8) - word_of_nat i) = 255 - i"
  using unat_sub [of "word_of_nat i" "255 :: u8"]
  by (simp add: word_le_nat_alt unat_of_nat take_bit_nat_eq_self)

lemma bump_index: "c \<noteq> 0 \<Longrightarrow> \<exists>i < 255. c = (255 :: u8) - word_of_nat i \<and> unat c = 255 - i"
proof -
  assume c: "c \<noteq> 0"
  have "unat c < 256" using unsigned_less [of c, where 'a = nat] by simp
  moreover have "0 < unat c" using c by (simp add: unat_gt_0)
  moreover have "c = 255 - word_of_nat (255 - unat c)"
    using \<open>unat c < 256\<close> by (simp add: of_nat_diff)
  ultimately show ?thesis by (intro exI [of _ "255 - unat c"]) auto
qed

text \<open>The first bump of the loop that satisfies a test is the largest one.\<close>

lemma first_bump:
  "find P (map (\<lambda>i. (255 :: u8) - word_of_nat i) [0..<255]) = Some c \<Longrightarrow>
    0 < c \<and> P c \<and> (\<forall>b > c. \<not> P b)"
  "find P (map (\<lambda>i. (255 :: u8) - word_of_nat i) [0..<255]) = None \<Longrightarrow> 0 < b \<Longrightarrow> \<not> P b"
proof -
  let ?bs = "map (\<lambda>i. (255 :: u8) - word_of_nat i) [0..<255]"
  assume "find P ?bs = Some c"
  then obtain i where i: "i < 255" "c = 255 - word_of_nat i" "P c"
    and before: "\<And>j. j < i \<Longrightarrow> \<not> P (255 - word_of_nat j)"
    by (auto simp: find_Some_iff simp del: upt_Suc)
  have "\<not> P b" if "c < b" for b
  proof -
    have "b \<noteq> 0" using that by auto
    then obtain j where j: "j < 255" "b = 255 - word_of_nat j" "unat b = 255 - j"
      using bump_index by blast
    then have "j < i" using that i(1,2) unat_bump [of i] by (simp add: word_less_nat_alt)
    then show ?thesis using before j(2) by simp
  qed
  moreover have "0 < c" using i unat_bump [of i] by (simp add: word_less_nat_alt)
  ultimately show "0 < c \<and> P c \<and> (\<forall>b > c. \<not> P b)" using i(3) by blast
next
  let ?bs = "map (\<lambda>i. (255 :: u8) - word_of_nat i) [0..<255]"
  assume none: "find P ?bs = None" and "0 < b"
  then obtain j where "j < 255" "b = 255 - word_of_nat j" using bump_index [of b] by auto
  then have "b \<in> set ?bs" by auto
  then show "\<not> P b" using none unfolding find_None_iff by blast
qed

section \<open>A library\<close>

text \<open>A library whose hash state is the bytes appended so far.\<close>

definition doc_ed ::
  "(bytes \<Rightarrow> bytes) \<Rightarrow> (bytes \<Rightarrow> bool) \<Rightarrow> (bytes \<Rightarrow> bytes \<Rightarrow> bytes \<Rightarrow> int) \<Rightarrow> (bytes, bytes, bytes) ed_lib" where
  "doc_ed h on_curve verify =
     \<lparr>sha256_init = [], sha256_append = (\<lambda>b s. s @ b), sha256_fini = h,
      point_frombytes = (\<lambda>b. if on_curve b then Some b else None), point_tobytes = (\<lambda>p. p),
      f_frombytes = (\<lambda>b. b), f_sqr = (\<lambda>a. a), f_mul = (\<lambda>a b. a), f_sub = (\<lambda>a b. a),
      f_add = (\<lambda>a b. a), f_d = [], f_one = [], f_sqrt_ratio = (\<lambda>u v. if on_curve u then 1 else 0),
      ed_verify = verify,
      ed_verify_batch = (\<lambda>msg sigs pks n.
        if list_all (\<lambda>i. verify msg (take 64 (drop (64 * i) sigs)) (take 32 (drop (32 * i) pks)) = 0)
             [0..<unat n] then 0 else - 3),
      ed_public = (\<lambda>_. None), ed_sign = (\<lambda>_ _ _. None), x_public = (\<lambda>b. b),
      x_exchange = (\<lambda>_ _. None), c_base58_encode_32 = (\<lambda>_. None), c_base58_encode_64 = (\<lambda>_. None),
      c_base58_decode_32 = (\<lambda>_. None), c_base58_decode_64 = (\<lambda>_. None),
      c_hex_encode = (\<lambda>_ _. None), c_hex_decode = (\<lambda>out _ _. (out, 0)),
      code_success = 0, code_err_sig = - 1, code_err_pubkey = - 2, code_err_msg = - 3\<rparr>"

lemma foldl_append: "foldl (\<lambda>s b. s @ b) s bs = s @ concat bs"
  by (induction bs arbitrary: s) simp_all

interpretation doc_sha: sha256_stream "doc_ed h on_curve verify" h for h on_curve verify
  by unfold_locales (simp add: doc_ed_def foldl_append)

lemma find_program_address_run:
  assumes "sha256_stream lib H" and "seeds_ok seeds"
  shows "find_program_address lib seeds pid =
    (case find (\<lambda>c. point_is_on_curve lib (pda_hash H (bumped seeds c) pid) = 0)
        (map (\<lambda>i. 255 - word_of_nat i) [0..<255]) of
       Some c \<Rightarrow> Ok (pda_hash H (bumped seeds c) pid, c)
     | None \<Rightarrow> Err DerivationFailed)"
proof -
  have "255 \<le> unat (255 :: u8)" by simp
  from sha256_stream.find_bump_spec [OF assms(1) this, of seeds pid] show ?thesis
    using assms(2) by (simp only: find_program_address_def Let_def if_False not_not simp_thms)
qed

lemma find_program_address_ok:
  assumes "sha256_stream lib H" and "find_program_address lib seeds pid = Ok (key, bump)"
  shows "seeds_ok seeds \<and> key = pda_hash H (bumped seeds bump) pid \<and> point_is_on_curve lib key = 0"
proof -
  have ok: "seeds_ok seeds" using assms(2) by (auto simp: find_program_address_def split: if_splits)
  then show ?thesis
    using assms(2) find_program_address_run [OF assms(1) ok, of pid] first_bump(1)
    by (auto split: option.splits simp del: upt_rec_numeral)
qed

section \<open>Properties\<close>

text \<open>C30: which address \<open>find_program_address\<close> returns. It never panics; with more than 16 seeds
  or a seed of more than 32 bytes it reports that; otherwise it returns the hash of the
  seeds, the bump, the program id and the marker for the largest bump between 255 and 1 whose hash
  is off the curve, with that bump, and fails exactly when there is none.\<close>

theorem find_program_address_largest_bump:
  assumes "sha256_stream lib H"
  shows "if \<not> seeds_ok seeds then find_program_address lib seeds pid = Err MaxSeedLengthExceeded
    else find_program_address lib seeds pid = Err DerivationFailed \<and>
        (\<forall>b > 0. point_is_on_curve lib (pda_hash H (bumped seeds b) pid) \<noteq> 0) \<or>
      (\<exists>bump > 0. find_program_address lib seeds pid = Ok (pda_hash H (bumped seeds bump) pid, bump) \<and>
        point_is_on_curve lib (pda_hash H (bumped seeds bump) pid) = 0 \<and>
        (\<forall>b > bump. point_is_on_curve lib (pda_hash H (bumped seeds b) pid) \<noteq> 0))"
proof (cases "seeds_ok seeds")
  case True
  let ?P = "\<lambda>c. point_is_on_curve lib (pda_hash H (bumped seeds c) pid) = 0"
  define bs where "bs = map (\<lambda>i. (255 :: u8) - word_of_nat i) [0..<255]"
  note run = find_program_address_run [OF assms True, of pid, folded bs_def]
  show ?thesis
  proof (cases "find ?P bs")
    case None
    then show ?thesis using True first_bump(2) [of ?P, folded bs_def] by (auto simp: run)
  next
    case (Some c)
    then show ?thesis using True first_bump(1) [of ?P c, folded bs_def] by (auto simp: run)
  qed
next
  case False
  then show ?thesis by (simp add: find_program_address_def)
qed

definition even_on_curve :: "(bytes, bytes, bytes) ed_lib" where
  "even_on_curve = doc_ed (\<lambda>b. b) (\<lambda>b. b \<noteq> [] \<and> even (unat (hd b))) (\<lambda>m s k. if s = k @ k then 0 else - 3)"

theorem find_program_address_largest_bump_witness:
  "find_program_address even_on_curve [] [] = Err DerivationFailed \<and>
      (\<forall>b > 0. point_is_on_curve even_on_curve (pda_hash (\<lambda>b. b) (bumped [] b) []) \<noteq> 0) \<or>
    (\<exists>bump > 0. find_program_address even_on_curve [] [] = Ok (pda_hash (\<lambda>b. b) (bumped [] bump) [], bump) \<and>
      point_is_on_curve even_on_curve (pda_hash (\<lambda>b. b) (bumped [] bump) []) = 0 \<and>
      (\<forall>b > bump. point_is_on_curve even_on_curve (pda_hash (\<lambda>b. b) (bumped [] b) []) \<noteq> 0))"
proof -
  have "sha256_stream even_on_curve (\<lambda>b. b)"
    unfolding even_on_curve_def by (rule doc_sha.sha256_stream_axioms)
  moreover have "seeds_ok []" by (simp add: seeds_ok_def)
  ultimately show ?thesis using find_program_address_largest_bump by metis
qed

text \<open>\<open>create_program_address\<close> confirms what \<open>find_program_address\<close> found. When bytes off the
  curve do not decompress to a point, an address found with its bump is the one created from
  the seeds followed by the bump, both by the checked and by the unchecked function, unless there
  were already 16 seeds: then the checked function reports too many seeds.\<close>

theorem create_confirms_find:
  assumes "sha256_stream lib H"
    and "\<And>b. point_is_on_curve lib b = 0 \<Longrightarrow> point_frombytes lib b = None"
    and "find_program_address lib seeds pid = Ok (key, bump)"
  shows "create_program_address_unchecked lib (bumped seeds bump) pid = Ok key \<and>
    create_program_address lib (bumped seeds bump) pid =
      (if length seeds = 16 then Err MaxSeedLengthExceeded else Ok key)"
proof -
  have ok: "seeds_ok seeds" and key: "key = pda_hash H (bumped seeds bump) pid"
    and off: "point_is_on_curve lib key = 0"
    using find_program_address_ok [OF assms(1,3)] by auto
  have "\<not> bytes_are_curve_point lib key"
    using assms(2) [OF off] by (simp add: bytes_are_curve_point_def)
  moreover have "sha256_fini lib (sha256_append lib pda_marker (sha256_append lib pid
      (foldl (\<lambda>s b. sha256_append lib b s) (sha256_init lib) (bumped seeds bump)))) = key"
    unfolding sha256_stream.append_hash [OF assms(1)] key by (simp add: pda_hash_def)
  moreover have "seeds_ok (bumped seeds bump) \<longleftrightarrow> length seeds \<noteq> 16"
    using ok by (auto simp: seeds_ok_def bumped_def)
  ultimately show ?thesis
    by (simp add: create_program_address_def create_program_address_unchecked_def Let_def)
qed

definition odd_off_curve :: "(bytes, bytes, bytes) ed_lib" where
  "odd_off_curve = doc_ed (\<lambda>b. b) (\<lambda>b. False) (\<lambda>m s k. if s = k @ k then 0 else - 3)"

lemma odd_off_curve_find: "find_program_address odd_off_curve [] [] = Ok (255 # pda_marker, 255)"
proof -
  have n: "(255 :: nat) = Suc 254" by simp
  show ?thesis
    unfolding find_program_address_def n find_bump.simps
    by (simp add: seeds_ok_def odd_off_curve_def doc_ed_def point_is_on_curve_def)
qed

theorem create_confirms_find_witness:
  "create_program_address odd_off_curve (bumped [] 255) [] = Ok (255 # pda_marker)"
proof -
  have "sha256_stream odd_off_curve (\<lambda>b. b)"
    unfolding odd_off_curve_def by (rule doc_sha.sha256_stream_axioms)
  moreover have "point_frombytes odd_off_curve b = None" for b by (simp add: odd_off_curve_def doc_ed_def)
  ultimately show ?thesis using create_confirms_find [OF _ _ odd_off_curve_find] by simp
qed

text \<open>
  What \<open>fd_ed25519_verify_batch_single_msg\<close> promises: success for a batch of \<open>n\<close> means success for
  each of the first \<open>n\<close> signatures.
\<close>

definition batch_law :: "('s, 'p, 'f) ed_lib \<Rightarrow> bool" where
  "batch_law lib \<longleftrightarrow>
     (\<forall>msg sigs pks n. list_all (\<lambda>s. length s = 64) sigs \<longrightarrow> list_all (\<lambda>k. length k = 32) pks \<longrightarrow>
        length sigs = length pks \<longrightarrow> 0 < unat n \<longrightarrow> unat n \<le> length pks \<longrightarrow>
        (ed_verify_batch lib msg (concat sigs) (concat pks) n = code_success lib \<longleftrightarrow>
         (\<forall>i < unat n. ed_verify lib msg (sigs ! i) (pks ! i) = code_success lib)))"

lemma verify_outcome_True [simp]: "verify_outcome lib r = Ok True \<longleftrightarrow> r = code_success lib"
  by (simp add: verify_outcome_def)

text \<open>What batch verification checks. On as many keys as signatures the batch is
  accepted exactly when the first \<open>n mod 256\<close> signatures verify, where \<open>n\<close> is their number: for
  up to 255 signatures that is all of them, but of 257 signatures only the first is looked at.
  Different numbers of keys and signatures are an error, and the empty batch is accepted.\<close>

theorem batch_verify_checks_low_byte:
  assumes "batch_law lib" and "list_all (\<lambda>s. length s = 64) sigs" and "list_all (\<lambda>k. length k = 32) pks"
  shows "if length pks \<noteq> length sigs
    then batch_verify_single_message lib msg pks sigs =
      Err (InvalidInput ''Number of public keys must match number of signatures'')
    else if pks = [] then batch_verify_single_message lib msg pks sigs = Ok True
    else if length pks mod 256 = 0 then True
    else batch_verify_single_message lib msg pks sigs = Ok True \<longleftrightarrow>
      (\<forall>i < length pks mod 256. pubkey_verify lib (pks ! i) msg (sigs ! i) = Ok True)"
proof -
  have n: "unat (word_of_nat (length pks) :: u8) = length pks mod 256"
    by (simp add: unat_of_nat take_bit_eq_mod)
  have "ed_verify_batch lib msg (concat sigs) (concat pks) (word_of_nat (length pks)) = code_success lib \<longleftrightarrow>
      (\<forall>i < length pks mod 256. ed_verify lib msg (sigs ! i) (pks ! i) = code_success lib)"
    if "length pks = length sigs" "length pks mod 256 \<noteq> 0"
    using assms that n unfolding batch_law_def by simp
  then show ?thesis by (auto simp: batch_verify_single_message_def Let_def pubkey_verify_def)
qed

lemma doc_batch_law: "batch_law (doc_ed h on_curve verify)"
  by (auto simp: batch_law_def doc_ed_def list_all_iff nth_concat_fixed [unfolded list_all_iff])

text \<open>257 signatures, of which only the first is valid.\<close>

definition bad_batch :: "bytes list \<times> bytes list" where
  "bad_batch = (replicate 257 (replicate 32 1), replicate 64 1 # replicate 256 (replicate 64 2))"

theorem batch_verify_checks_low_byte_witness:
  "batch_verify_single_message odd_off_curve [] (fst bad_batch) (snd bad_batch) = Ok True \<and>
   pubkey_verify odd_off_curve (fst bad_batch ! 1) [] (snd bad_batch ! 1) = Ok False"
proof -
  have law: "batch_law odd_off_curve" unfolding odd_off_curve_def by (rule doc_batch_law)
  have sizes: "list_all (\<lambda>s. length s = 64) (snd bad_batch)" "list_all (\<lambda>k. length k = 32) (fst bad_batch)"
    "length (fst bad_batch) = 257" "length (snd bad_batch) = 257" "fst bad_batch \<noteq> []"
    by (simp_all add: bad_batch_def list_all_iff)
  have one: "257 mod 256 = (1 :: nat)" by simp
  have double: "replicate 64 (c :: u8) = replicate 32 c @ replicate 32 c" for c
    by (simp add: replicate_add [symmetric])
  have first: "pubkey_verify odd_off_curve (fst bad_batch ! 0) [] (snd bad_batch ! 0) = Ok True"
    by (simp add: bad_batch_def pubkey_verify_def odd_off_curve_def doc_ed_def verify_outcome_def double)
  have second: "pubkey_verify odd_off_curve (fst bad_batch ! 1) [] (snd bad_batch ! 1) = Ok False"
    by (simp add: bad_batch_def pubkey_verify_def odd_off_curve_def doc_ed_def verify_outcome_def double)
  show ?thesis
    using batch_verify_checks_low_byte [OF law sizes(1,2), of "[]"] sizes(3-5) first second
    unfolding one by (auto simp: less_Suc_eq_0_disj)
qed

end
