(* ===== verification/Json_Value.thy ===== *)
theory Json_Value
  imports Json_Access
begin

text \<open>
  \<open>fd_json/src/lib.rs\<close>: JSON values, their accessors and conversions, parsing and printing over
  the cJSON library, and the construction macros. cJSON is the parameter \<open>cjson_lib\<close>: nodes are
  values of an opaque type \<open>'j\<close>, and every call that allocates or frees threads the state
  \<open>'s\<close> of its heap. A C string is the bytes before its terminator.
  A \<open>HashMap\<close> is the list of its entries in iteration order, with distinct keys. Where \<open>insert\<close>
  puts a new key is unspecified in Rust; here it is the end.
\<close>

section \<open>Values\<close>

datatype json_error =
    ParseError bytes
  | InvalidStructure bytes
  | MemoryError
  | InvalidUtf8
  | KeyNotFound bytes
  | IndexOutOfBounds nat
  | TypeMismatch bytes
  | InvalidInput bytes
  | GenerationError bytes

text \<open>A double that may also be a NaN.\<close>

datatype num64 = Num f64 | NaN

datatype json_value =
    VNull
  | VBool bool
  | VNumber num64
  | VString bytes
  | VArray "json_value list"
  | VObject "(bytes \<times> json_value) list"

type_synonym json_object = "(bytes \<times> json_value) list"

text \<open>\<open>HashMap::insert\<close>, \<open>HashMap::get\<close>.\<close>

fun hm_insert :: "'k \<Rightarrow> 'v \<Rightarrow> ('k \<times> 'v) list \<Rightarrow> ('k \<times> 'v) list" where
  "hm_insert k v [] = [(k, v)]"
| "hm_insert k v ((k', v') # m) = (if k' = k then (k', v) # m else (k', v') # hm_insert k v m)"

fun jv_is_null :: "json_value \<Rightarrow> bool" where
  "jv_is_null VNull = True" | "jv_is_null _ = False"

fun jv_is_bool :: "json_value \<Rightarrow> bool" where
  "jv_is_bool (VBool _) = True" | "jv_is_bool _ = False"

fun jv_is_number :: "json_value \<Rightarrow> bool" where
  "jv_is_number (VNumber _) = True" | "jv_is_number _ = False"

fun jv_is_string :: "json_value \<Rightarrow> bool" where
  "jv_is_string (VString _) = True" | "jv_is_string _ = False"

fun jv_is_array :: "json_value \<Rightarrow> bool" where
  "jv_is_array (VArray _) = True" | "jv_is_array _ = False"

fun jv_is_object :: "json_value \<Rightarrow> bool" where
  "jv_is_object (VObject _) = True" | "jv_is_object _ = False"

fun jv_as_bool :: "json_value \<Rightarrow> bool option" where
  "jv_as_bool (VBool b) = Some b" | "jv_as_bool _ = None"

fun jv_as_f64 :: "json_value \<Rightarrow> num64 option" where
  "jv_as_f64 (VNumber n) = Some n" | "jv_as_f64 _ = None"

text \<open>\<open>n as i64\<close>: towards zero, saturating, a NaN is 0.\<close>

fun num64_as_i64 :: "num64 \<Rightarrow> int" where
  "num64_as_i64 NaN = 0"
| "num64_as_i64 (Num (F64_Inf neg)) = (if neg then - (2 ^ 63) else 2 ^ 63 - 1)"
| "num64_as_i64 (Num (F64 neg m e)) =
     (let n = int (if 0 \<le> e then m * 2 ^ nat e else m div 2 ^ nat (- e))
      in if neg then max (- (2 ^ 63)) (- n) else min (2 ^ 63 - 1) n)"

fun jv_as_i64 :: "json_value \<Rightarrow> int option" where
  "jv_as_i64 (VNumber n) = Some (num64_as_i64 n)" | "jv_as_i64 _ = None"

fun jv_as_str :: "json_value \<Rightarrow> bytes option" where
  "jv_as_str (VString s) = Some s" | "jv_as_str _ = None"

fun jv_as_array :: "json_value \<Rightarrow> json_value list option" where
  "jv_as_array (VArray vs) = Some vs" | "jv_as_array _ = None"

fun jv_as_object :: "json_value \<Rightarrow> json_object option" where
  "jv_as_object (VObject kvs) = Some kvs" | "jv_as_object _ = None"

text \<open>A mutable reference is used to replace what it points at: the \<open>_mut\<close> accessors take the
  update and return the changed value, \<open>None\<close> when there is no reference.\<close>

fun jv_as_array_mut :: "(json_value list \<Rightarrow> json_value list) \<Rightarrow> json_value \<Rightarrow> json_value option" where
  "jv_as_array_mut f (VArray vs) = Some (VArray (f vs))" | "jv_as_array_mut f _ = None"

fun jv_as_object_mut :: "(json_object \<Rightarrow> json_object) \<Rightarrow> json_value \<Rightarrow> json_value option" where
  "jv_as_object_mut f (VObject kvs) = Some (VObject (f kvs))" | "jv_as_object_mut f _ = None"

definition jv_get :: "json_value \<Rightarrow> bytes \<Rightarrow> json_value option" where
  "jv_get v key = Option.bind (jv_as_object v) (\<lambda>kvs. map_of kvs key)"

definition jv_get_index :: "json_value \<Rightarrow> nat \<Rightarrow> json_value option" where
  "jv_get_index v i =
     Option.bind (jv_as_array v) (\<lambda>vs. if i < length vs then Some (vs ! i) else None)"

definition jv_get_mut :: "(json_value \<Rightarrow> json_value) \<Rightarrow> json_value \<Rightarrow> bytes \<Rightarrow> json_value option" where
  "jv_get_mut f v key =
     Option.bind (jv_as_object v) (\<lambda>kvs. Option.bind (map_of kvs key) (\<lambda>x.
       jv_as_object_mut (hm_insert key (f x)) v))"

definition jv_get_index_mut :: "(json_value \<Rightarrow> json_value) \<Rightarrow> json_value \<Rightarrow> nat \<Rightarrow> json_value option" where
  "jv_get_index_mut f v i =
     Option.bind (jv_get_index v i) (\<lambda>x. jv_as_array_mut (\<lambda>vs. vs[i := f x]) v)"

section \<open>The C interface\<close>

record ('j, 's) cjson_lib =
  c_is_null :: "'j \<Rightarrow> bool"
  c_is_bool :: "'j \<Rightarrow> bool"
  c_is_true :: "'j \<Rightarrow> bool"
  c_is_number :: "'j \<Rightarrow> bool"
  c_is_string :: "'j \<Rightarrow> bool"
  c_is_array :: "'j \<Rightarrow> bool"
  c_is_object :: "'j \<Rightarrow> bool"
  c_number_value :: "'j \<Rightarrow> num64"
  c_string_value :: "'j \<Rightarrow> bytes option"
  c_array_size :: "'j \<Rightarrow> nat"
  c_array_item :: "'j \<Rightarrow> nat \<Rightarrow> 'j option"
  c_child :: "'j \<Rightarrow> 'j option"
  c_next :: "'j \<Rightarrow> 'j option"
  c_key :: "'j \<Rightarrow> bytes option"
  c_create_null :: "'s \<Rightarrow> 'j option \<times> 's"
  c_create_bool :: "bool \<Rightarrow> 's \<Rightarrow> 'j option \<times> 's"
  c_create_number :: "num64 \<Rightarrow> 's \<Rightarrow> 'j option \<times> 's"
  c_create_string :: "bytes \<Rightarrow> 's \<Rightarrow> 'j option \<times> 's"
  c_create_array :: "'s \<Rightarrow> 'j option \<times> 's"
  c_create_object :: "'s \<Rightarrow> 'j option \<times> 's"
  c_add_to_array :: "'j \<Rightarrow> 'j \<Rightarrow> 's \<Rightarrow> 'j option \<times> 's"
  c_add_to_object :: "'j \<Rightarrow> bytes \<Rightarrow> 'j \<Rightarrow> 's \<Rightarrow> 'j option \<times> 's"
  c_delete :: "'j \<Rightarrow> 's \<Rightarrow> 's"
  c_parse :: "bytes \<Rightarrow> 's \<Rightarrow> 'j option \<times> 's"
  c_error_offset :: "bytes \<Rightarrow> 's \<Rightarrow> nat option"
  c_print :: "'j \<Rightarrow> 's \<Rightarrow> bytes option \<times> 's"
  c_print_unformatted :: "'j \<Rightarrow> 's \<Rightarrow> bytes option \<times> 's"
  c_free :: "bytes \<Rightarrow> 's \<Rightarrow> 's"

text \<open>\<open>CStr::to_str\<close> and \<open>CString::new\<close>.\<close>

definition c_to_str :: "bytes \<Rightarrow> (bytes, json_error) res" where
  "c_to_str s = ok_or (from_utf8 s) InvalidUtf8"

definition c_string :: "bytes \<Rightarrow> bytes option" where
  "c_string s = (if 0 \<in> set s then None else Some s)"

section \<open>From cJSON\<close>

text \<open>
  The recursion and its two loops, with the number of nested steps as fuel; \<open>None\<close> when it runs
  out. \<open>read_items\<close> is \<open>for i in 0..size\<close> and \<open>read_members\<close> is \<open>while !item.is_null()\<close>.
\<close>

fun cjson_to_json_value ::
      "('j, 's) cjson_lib \<Rightarrow> nat \<Rightarrow> 'j option \<Rightarrow> (json_value, json_error) res option"
  and read_items ::
      "('j, 's) cjson_lib \<Rightarrow> nat \<Rightarrow> 'j \<Rightarrow> nat \<Rightarrow> nat \<Rightarrow> json_value list \<Rightarrow>
       (json_value list, json_error) res option"
  and read_members ::
      "('j, 's) cjson_lib \<Rightarrow> nat \<Rightarrow> 'j option \<Rightarrow> json_object \<Rightarrow> (json_object, json_error) res option" where
  "cjson_to_json_value lib 0 cjson = None"
| "cjson_to_json_value lib (Suc n) cjson =
     (case cjson of
        None \<Rightarrow> Some (Ok VNull)
      | Some c \<Rightarrow>
          if c_is_null lib c then Some (Ok VNull)
          else if c_is_bool lib c then Some (Ok (VBool (c_is_true lib c)))
          else if c_is_number lib c then Some (Ok (VNumber (c_number_value lib c)))
          else if c_is_string lib c then
            (case c_string_value lib c of
               None \<Rightarrow> Some (Err (InvalidStructure (ascii ''String value is null'')))
             | Some s \<Rightarrow> Some (res_bind (c_to_str s) (\<lambda>s. Ok (VString s))))
          else if c_is_array lib c then
            map_option (\<lambda>r. res_bind r (\<lambda>vs. Ok (VArray vs))) (read_items lib n c 0 (c_array_size lib c) [])
          else if c_is_object lib c then
            map_option (\<lambda>r. res_bind r (\<lambda>kvs. Ok (VObject kvs))) (read_members lib n (c_child lib c) [])
          else Some (Err (InvalidStructure (ascii ''Unknown JSON type''))))"
| "read_items lib 0 c i sz vs = None"
| "read_items lib (Suc n) c i sz vs =
     (if i < sz then
        (case cjson_to_json_value lib n (c_array_item lib c i) of
           None \<Rightarrow> None
         | Some (Ok v) \<Rightarrow> read_items lib n c (i + 1) sz (vs @ [v])
         | Some (Err e) \<Rightarrow> Some (Err e)
         | Some Panic \<Rightarrow> Some Panic)
      else Some (Ok vs))"
| "read_members lib 0 item kvs = None"
| "read_members lib (Suc n) item kvs =
     (case item of
        None \<Rightarrow> Some (Ok kvs)
      | Some c \<Rightarrow>
          (case c_key lib c of
             None \<Rightarrow> Some (Err (InvalidStructure (ascii ''Object key is null'')))
           | Some k \<Rightarrow>
               (case c_to_str k of
                  Ok key \<Rightarrow>
                    (case cjson_to_json_value lib n (Some c) of
                       None \<Rightarrow> None
                     | Some (Ok v) \<Rightarrow> read_members lib n (c_next lib c) (hm_insert key v kvs)
                     | Some (Err e) \<Rightarrow> Some (Err e)
                     | Some Panic \<Rightarrow> Some Panic)
                | Err e \<Rightarrow> Some (Err e)
                | Panic \<Rightarrow> Some Panic)))"

section \<open>To cJSON\<close>

text \<open>\<open>if cjson.is_null() { Err(MemoryError) } else { Ok(cjson) }\<close>\<close>

definition or_memory_error :: "'j option \<times> 's \<Rightarrow> ('j, json_error) res \<times> 's" where
  "or_memory_error r = (ok_or (fst r) MemoryError, snd r)"

text \<open>Appending a converted item or member, releasing both nodes when cJSON refuses.\<close>

definition add_item_or_delete ::
  "('j, 's) cjson_lib \<Rightarrow> 'j \<Rightarrow> 'j \<Rightarrow> 's \<Rightarrow> ('j, json_error) res \<times> 's" where
  "add_item_or_delete lib c item s =
     (case c_add_to_array lib c item s of
        (None, s) \<Rightarrow> (Err MemoryError, c_delete lib c (c_delete lib item s))
      | (Some c', s) \<Rightarrow> (Ok c', s))"

definition add_member_or_delete ::
  "('j, 's) cjson_lib \<Rightarrow> 'j \<Rightarrow> bytes \<Rightarrow> 'j \<Rightarrow> 's \<Rightarrow> ('j, json_error) res \<times> 's" where
  "add_member_or_delete lib c key item s =
     (case c_add_to_object lib c key item s of
        (None, s) \<Rightarrow> (Err MemoryError, c_delete lib c (c_delete lib item s))
      | (Some c', s) \<Rightarrow> (Ok c', s))"

fun json_value_to_cjson ::
      "('j, 's) cjson_lib \<Rightarrow> json_value \<Rightarrow> 's \<Rightarrow> ('j, json_error) res \<times> 's"
  and add_items :: "('j, 's) cjson_lib \<Rightarrow> json_value list \<Rightarrow> 'j \<Rightarrow> 's \<Rightarrow> ('j, json_error) res \<times> 's"
  and add_members :: "('j, 's) cjson_lib \<Rightarrow> json_object \<Rightarrow> 'j \<Rightarrow> 's \<Rightarrow> ('j, json_error) res \<times> 's" where
  "json_value_to_cjson lib VNull s = or_memory_error (c_create_null lib s)"
| "json_value_to_cjson lib (VBool b) s = or_memory_error (c_create_bool lib b s)"
| "json_value_to_cjson lib (VNumber n) s = or_memory_error (c_create_number lib n s)"
| "json_value_to_cjson lib (VString t) s =
     (case c_string t of
        None \<Rightarrow> (Err (InvalidInput (ascii ''String contains null byte'')), s)
      | Some cs \<Rightarrow> or_memory_error (c_create_string lib cs s))"
| "json_value_to_cjson lib (VArray vs) s =
     (case c_create_array lib s of
        (None, s) \<Rightarrow> (Err MemoryError, s)
      | (Some c, s) \<Rightarrow> add_items lib vs c s)"
| "json_value_to_cjson lib (VObject kvs) s =
     (case c_create_object lib s of
        (None, s) \<Rightarrow> (Err MemoryError, s)
      | (Some c, s) \<Rightarrow> add_members lib kvs c s)"
| "add_items lib [] c s = (Ok c, s)"
| "add_items lib (v # vs) c s =
     (case json_value_to_cjson lib v s of
        (Ok item, s) \<Rightarrow>
          (case add_item_or_delete lib c item s of
             (Ok c, s) \<Rightarrow> add_items lib vs c s
           | (Err e, s) \<Rightarrow> (Err e, s)
           | (Panic, s) \<Rightarrow> (Panic, s))
      | (Err e, s) \<Rightarrow> (Err e, s)
      | (Panic, s) \<Rightarrow> (Panic, s))"
| "add_members lib [] c s = (Ok c, s)"
| "add_members lib ((k, v) # kvs) c s =
     (case c_string k of
        None \<Rightarrow> (Err (InvalidInput (ascii ''Key contains null byte'')), s)
      | Some ck \<Rightarrow>
          (case json_value_to_cjson lib v s of
             (Ok item, s) \<Rightarrow>
               (case add_member_or_delete lib c ck item s of
                  (Ok c, s) \<Rightarrow> add_members lib kvs c s
                | (Err e, s) \<Rightarrow> (Err e, s)
                | (Panic, s) \<Rightarrow> (Panic, s))
           | (Err e, s) \<Rightarrow> (Err e, s)
           | (Panic, s) \<Rightarrow> (Panic, s)))"

section \<open>Parsing and printing\<close>

text \<open>Decimal text of a number, as \<open>Display\<close> prints it.\<close>

fun nat_text :: "nat \<Rightarrow> bytes" where
  "nat_text n =
     (if n < 10 then [word_of_nat (48 + n)] else nat_text (n div 10) @ [word_of_nat (48 + n mod 10)])"

declare nat_text.simps [simp del]

definition int_text :: "int \<Rightarrow> bytes" where
  "int_text i = (if i < 0 then 45 # nat_text (nat (- i)) else nat_text (nat i))"

fun json_error_display :: "json_error \<Rightarrow> bytes" where
  "json_error_display (ParseError msg) = ascii ''JSON parse error: '' @ msg"
| "json_error_display (InvalidStructure msg) = ascii ''Invalid JSON structure: '' @ msg"
| "json_error_display MemoryError = ascii ''Memory allocation failed''"
| "json_error_display InvalidUtf8 = ascii ''Invalid UTF-8 sequence''"
| "json_error_display (KeyNotFound key) = ascii ''Key '' @ [39] @ key @ [39] @ ascii '' not found''"
| "json_error_display (IndexOutOfBounds i) = ascii ''Index '' @ nat_text i @ ascii '' out of bounds''"
| "json_error_display (TypeMismatch msg) = ascii ''Type mismatch: '' @ msg"
| "json_error_display (InvalidInput msg) = ascii ''Invalid input: '' @ msg"
| "json_error_display (GenerationError msg) = ascii ''JSON generation error: '' @ msg"

definition json_parse ::
  "('j, 's) cjson_lib \<Rightarrow> nat \<Rightarrow> bytes \<Rightarrow> 's \<Rightarrow> ((json_value, json_error) res \<times> 's) option" where
  "json_parse lib fuel text s =
     (case c_string text of
        None \<Rightarrow> Some (Err (InvalidInput (ascii ''JSON string contains null byte'')), s)
      | Some cs \<Rightarrow>
          (case c_parse lib cs s of
             (None, s) \<Rightarrow>
               Some (Err (ParseError (case c_error_offset lib cs s of
                  None \<Rightarrow> ascii ''Unknown parse error''
                | Some off \<Rightarrow> ascii ''Parse error at position '' @ nat_text off)), s)
           | (Some c, s) \<Rightarrow>
               map_option (\<lambda>r. (r, c_delete lib c s)) (cjson_to_json_value lib fuel (Some c))))"

text \<open>What \<open>to_string\<close> and \<open>to_string_compact\<close> share: only the C printer differs.\<close>

definition print_with ::
  "('j \<Rightarrow> 's \<Rightarrow> bytes option \<times> 's) \<Rightarrow> ('j, 's) cjson_lib \<Rightarrow> json_value \<Rightarrow> 's \<Rightarrow>
   (bytes, json_error) res \<times> 's" where
  "print_with printer lib v s =
     (case json_value_to_cjson lib v s of
        (Ok c, s) \<Rightarrow>
          (let (text, s) = printer c s; s = c_delete lib c s
           in case text of
                None \<Rightarrow> (Err (GenerationError (ascii ''Failed to generate JSON string'')), s)
              | Some cs \<Rightarrow>
                  (case c_to_str cs of
                     Ok t \<Rightarrow> (Ok t, c_free lib cs s)
                   | Err e \<Rightarrow> (Err e, s)
                   | Panic \<Rightarrow> (Panic, s)))
      | (Err e, s) \<Rightarrow> (Err e, s)
      | (Panic, s) \<Rightarrow> (Panic, s))"

definition json_to_string ::
  "('j, 's) cjson_lib \<Rightarrow> json_value \<Rightarrow> 's \<Rightarrow> (bytes, json_error) res \<times> 's" where
  "json_to_string lib = print_with (c_print lib) lib"

definition json_to_string_compact ::
  "('j, 's) cjson_lib \<Rightarrow> json_value \<Rightarrow> 's \<Rightarrow> (bytes, json_error) res \<times> 's" where
  "json_to_string_compact lib = print_with (c_print_unformatted lib) lib"

definition json_validate :: "('j, 's) cjson_lib \<Rightarrow> nat \<Rightarrow> bytes \<Rightarrow> 's \<Rightarrow> (bool \<times> 's) option" where
  "json_validate lib fuel text s =
     map_option (\<lambda>(r, s). (case r of Ok _ \<Rightarrow> True | _ \<Rightarrow> False, s)) (json_parse lib fuel text s)"

text \<open>\<open>parse\<close> followed by one of the printers.\<close>

definition reprint ::
  "(json_value \<Rightarrow> 's \<Rightarrow> (bytes, json_error) res \<times> 's) \<Rightarrow> (json_value, json_error) res \<times> 's \<Rightarrow>
   (bytes, json_error) res \<times> 's" where
  "reprint printer r =
     (case r of (Ok v, s) \<Rightarrow> printer v s | (Err e, s) \<Rightarrow> (Err e, s) | (Panic, s) \<Rightarrow> (Panic, s))"

definition json_minify ::
  "('j, 's) cjson_lib \<Rightarrow> nat \<Rightarrow> bytes \<Rightarrow> 's \<Rightarrow> ((bytes, json_error) res \<times> 's) option" where
  "json_minify lib fuel text s =
     map_option (reprint (json_to_string_compact lib)) (json_parse lib fuel text s)"

definition json_pretty_print ::
  "('j, 's) cjson_lib \<Rightarrow> nat \<Rightarrow> bytes \<Rightarrow> 's \<Rightarrow> ((bytes, json_error) res \<times> 's) option" where
  "json_pretty_print lib fuel text s =
     map_option (reprint (json_to_string lib)) (json_parse lib fuel text s)"

section \<open>Constructors and conversions\<close>

text \<open>\<open>n as f64\<close> for an integer: nearest, ties to even.\<close>

definition int_f64 :: "int \<Rightarrow> num64" where
  "int_f64 i = Num (round_f64 (i < 0) (nat \<bar>i\<bar>) 1)"

text \<open>A single: \<open>F32 neg m e\<close> is \<open>(-1)^neg * m * 2^e\<close>; widening it is exact.\<close>

datatype f32 = F32 bool nat int | F32_Inf bool | F32_NaN

fun f32_as_f64 :: "f32 \<Rightarrow> num64" where
  "f32_as_f64 (F32 neg m e) =
     Num (if 0 \<le> e then round_f64 neg (m * 2 ^ nat e) 1 else round_f64 neg m (2 ^ nat (- e)))"
| "f32_as_f64 (F32_Inf neg) = Num (F64_Inf neg)"
| "f32_as_f64 F32_NaN = NaN"

definition jv_null :: json_value where "jv_null = VNull"
definition jv_bool :: "bool \<Rightarrow> json_value" where "jv_bool b = VBool b"
definition jv_number :: "num64 \<Rightarrow> json_value" where "jv_number x = VNumber x"
definition jv_number_i64 :: "64 word \<Rightarrow> json_value" where "jv_number_i64 n = VNumber (int_f64 (sint n))"
definition jv_string :: "bytes \<Rightarrow> json_value" where "jv_string s = VString s"
definition jv_array :: json_value where "jv_array = VArray []"
definition jv_array_from_vec :: "json_value list \<Rightarrow> json_value" where "jv_array_from_vec vs = VArray vs"
definition jv_object :: json_value where "jv_object = VObject []"
definition jv_object_from_map :: "json_object \<Rightarrow> json_value" where "jv_object_from_map kvs = VObject kvs"

definition jv_from_bool :: "bool \<Rightarrow> json_value" where "jv_from_bool b = VBool b"
definition jv_from_i8 :: "8 word \<Rightarrow> json_value" where "jv_from_i8 n = VNumber (int_f64 (sint n))"
definition jv_from_i16 :: "16 word \<Rightarrow> json_value" where "jv_from_i16 n = VNumber (int_f64 (sint n))"
definition jv_from_i32 :: "32 word \<Rightarrow> json_value" where "jv_from_i32 n = VNumber (int_f64 (sint n))"
definition jv_from_i64 :: "64 word \<Rightarrow> json_value" where "jv_from_i64 n = VNumber (int_f64 (sint n))"
definition jv_from_u8 :: "8 word \<Rightarrow> json_value" where "jv_from_u8 n = VNumber (int_f64 (uint n))"
definition jv_from_u16 :: "16 word \<Rightarrow> json_value" where "jv_from_u16 n = VNumber (int_f64 (uint n))"
definition jv_from_u32 :: "32 word \<Rightarrow> json_value" where "jv_from_u32 n = VNumber (int_f64 (uint n))"
definition jv_from_u64 :: "64 word \<Rightarrow> json_value" where "jv_from_u64 n = VNumber (int_f64 (uint n))"
definition jv_from_f32 :: "f32 \<Rightarrow> json_value" where "jv_from_f32 x = VNumber (f32_as_f64 x)"
definition jv_from_f64 :: "num64 \<Rightarrow> json_value" where "jv_from_f64 x = VNumber x"
definition jv_from_str :: "bytes \<Rightarrow> json_value" where "jv_from_str s = VString s"
definition jv_from_string :: "bytes \<Rightarrow> json_value" where "jv_from_string s = VString s"
definition jv_from_vec :: "json_value list \<Rightarrow> json_value" where "jv_from_vec vs = VArray vs"
definition jv_from_map :: "json_object \<Rightarrow> json_value" where "jv_from_map kvs = VObject kvs"

definition jv_from_option :: "('a \<Rightarrow> json_value) \<Rightarrow> 'a option \<Rightarrow> json_value" where
  "jv_from_option into x = (case x of Some v \<Rightarrow> into v | None \<Rightarrow> VNull)"

section \<open>Equality\<close>

text \<open>\<open>derive(PartialEq)\<close>: doubles compare by value, with two zeros and a NaN that differs from
  itself; maps compare as maps.\<close>

fun f64_eq :: "f64 \<Rightarrow> f64 \<Rightarrow> bool" where
  "f64_eq (F64 n m e) (F64 n' m' e') \<longleftrightarrow>
     m = 0 \<and> m' = 0 \<or>
     n = n' \<and> m * 2 ^ nat (e - min e e') = m' * 2 ^ nat (e' - min e e')"
| "f64_eq (F64_Inf n) (F64_Inf n') \<longleftrightarrow> n = n'"
| "f64_eq _ _ \<longleftrightarrow> False"

fun num64_eq :: "num64 \<Rightarrow> num64 \<Rightarrow> bool" where
  "num64_eq (Num x) (Num y) \<longleftrightarrow> f64_eq x y"
| "num64_eq _ _ \<longleftrightarrow> False"

fun json_eq :: "json_value \<Rightarrow> json_value \<Rightarrow> bool"
  and items_eq :: "json_value list \<Rightarrow> json_value list \<Rightarrow> bool"
  and members_eq :: "json_object \<Rightarrow> json_object \<Rightarrow> bool" where
  "json_eq VNull w \<longleftrightarrow> w = VNull"
| "json_eq (VBool b) w \<longleftrightarrow> w = VBool b"
| "json_eq (VNumber x) w \<longleftrightarrow> (case w of VNumber y \<Rightarrow> num64_eq x y | _ \<Rightarrow> False)"
| "json_eq (VString t) w \<longleftrightarrow> w = VString t"
| "json_eq (VArray vs) w \<longleftrightarrow> (case w of VArray ws \<Rightarrow> items_eq vs ws | _ \<Rightarrow> False)"
| "json_eq (VObject kvs) w \<longleftrightarrow>
     (case w of VObject kws \<Rightarrow> length kvs = length kws \<and> members_eq kvs kws | _ \<Rightarrow> False)"
| "items_eq [] ws \<longleftrightarrow> ws = []"
| "items_eq (v # vs) ws \<longleftrightarrow> (case ws of w # ws \<Rightarrow> json_eq v w \<and> items_eq vs ws | [] \<Rightarrow> False)"
| "members_eq [] kws \<longleftrightarrow> True"
| "members_eq ((k, v) # kvs) kws \<longleftrightarrow>
     (case map_of kws k of Some w \<Rightarrow> json_eq v w | None \<Rightarrow> False) \<and> members_eq kvs kws"

section \<open>Macros\<close>

text \<open>
  A macro argument as the rules of \<open>json!\<close> see it. A literal is a string, an integer, or a float
  or character given by the text \<open>Display\<close> prints; an expression is given by the value
  \<open>__json_convert\<close> makes of it, as a key by the text \<open>to_string\<close> makes of it.
\<close>

datatype json_literal = LitStr bytes | LitInt int | LitText bytes

datatype json_key = KeyLiteral json_literal | KeyExpr bytes

datatype json_tokens =
    TObject "(json_key \<times> json_tokens) list"
  | TArray "json_tokens list"
  | TNull
  | TBool bool
  | TLiteral json_literal
  | TExpr json_value

fun literal_text :: "json_literal \<Rightarrow> bytes" where
  "literal_text (LitStr s) = s"
| "literal_text (LitInt i) = int_text i"
| "literal_text (LitText s) = s"

fun macro_key :: "json_key \<Rightarrow> bytes" where
  "macro_key (KeyLiteral l) = literal_text l"
| "macro_key (KeyExpr t) = t"

fun json_macro :: "json_tokens \<Rightarrow> json_value"
  and macro_members :: "(json_key \<times> json_tokens) list \<Rightarrow> json_object \<Rightarrow> json_object"
  and macro_items :: "json_tokens list \<Rightarrow> json_value list \<Rightarrow> json_value list" where
  "json_macro (TObject kts) = VObject (macro_members kts [])"
| "json_macro (TArray ts) = VArray (macro_items ts [])"
| "json_macro TNull = VNull"
| "json_macro (TBool b) = VBool b"
| "json_macro (TLiteral l) = VString (literal_text l)"
| "json_macro (TExpr v) = v"
| "macro_members [] obj = obj"
| "macro_members ((k, t) # kts) obj = macro_members kts (hm_insert (macro_key k) (json_macro t) obj)"
| "macro_items [] arr = arr"
| "macro_items (t # ts) arr = macro_items ts (arr @ [json_macro t])"

text \<open>\<open>.expect(...)\<close> panics on an error.\<close>

definition expect :: "('a, 'e) res \<times> 's \<Rightarrow> ('a, 'e) res \<times> 's" where
  "expect r = (case r of (Ok x, s) \<Rightarrow> (Ok x, s) | (_, s) \<Rightarrow> (Panic, s))"

definition json_parse_macro ::
  "('j, 's) cjson_lib \<Rightarrow> nat \<Rightarrow> bytes \<Rightarrow> 's \<Rightarrow> ((json_value, json_error) res \<times> 's) option" where
  "json_parse_macro lib fuel text s = map_option expect (json_parse lib fuel text s)"

definition json_parse_str_macro ::
  "('j, 's) cjson_lib \<Rightarrow> nat \<Rightarrow> bytes \<Rightarrow> 's \<Rightarrow> ((json_value, json_error) res \<times> 's) option" where
  "json_parse_str_macro lib fuel text s = map_option expect (json_parse lib fuel text s)"

definition json_stringify_macro ::
  "('j, 's) cjson_lib \<Rightarrow> json_value \<Rightarrow> 's \<Rightarrow> (bytes, json_error) res \<times> 's" where
  "json_stringify_macro lib v s = expect (json_to_string_compact lib v s)"

fun json_get_macro :: "json_value \<Rightarrow> bytes \<Rightarrow> bytes list \<Rightarrow> json_value option" where
  "json_get_macro v key [] = jv_get v key"
| "json_get_macro v key (k # ks) = Option.bind (jv_get v key) (\<lambda>w. json_get_macro w k ks)"

fun json_get_index_macro :: "json_value \<Rightarrow> bytes list \<Rightarrow> nat \<Rightarrow> json_value option" where
  "json_get_index_macro v [] i = jv_get_index v i"
| "json_get_index_macro v (k # ks) i = Option.bind (jv_get v k) (\<lambda>w. json_get_index_macro w ks i)"

definition json_assert_macro :: "json_value \<Rightarrow> json_tokens \<Rightarrow> (unit, 'x) res" where
  "json_assert_macro actual expected = (if json_eq actual (json_macro expected) then Ok () else Panic)"

definition json_array_macro :: "json_value list \<Rightarrow> json_value" where
  "json_array_macro vs = VArray vs"

definition json_object_macro :: "(bytes \<times> json_value) list \<Rightarrow> json_value" where
  "json_object_macro kvs = VObject (foldl (\<lambda>obj (k, v). hm_insert k v obj) [] kvs)"

definition json_update_macro :: "json_value \<Rightarrow> (json_key \<times> json_tokens) list \<Rightarrow> json_value" where
  "json_update_macro v kts =
     (case jv_as_object_mut (macro_members kts) v of Some v' \<Rightarrow> v' | None \<Rightarrow> v)"

definition json_merge_macro :: "json_value \<Rightarrow> json_value \<Rightarrow> json_value" where
  "json_merge_macro target source =
     (case jv_as_object source of
        None \<Rightarrow> target
      | Some src \<Rightarrow>
          (case jv_as_object_mut (\<lambda>obj. foldl (\<lambda>obj (k, v). hm_insert k v obj) obj src) target of
             Some t \<Rightarrow> t | None \<Rightarrow> target))"

text \<open>The line \<open>json_debug!\<close> prints, without and with a label.\<close>

definition json_debug_macro ::
  "('j, 's) cjson_lib \<Rightarrow> json_value \<Rightarrow> bytes option \<Rightarrow> 's \<Rightarrow> bytes \<times> 's" where
  "json_debug_macro lib v label s =
     (case json_to_string lib v s of
        (Ok t, s) \<Rightarrow> (case label of None \<Rightarrow> t | Some l \<Rightarrow> l @ ascii '': '' @ t, s)
      | (Err e, s) \<Rightarrow>
          (case label of None \<Rightarrow> ascii ''JSON debug error: '' @ json_error_display e
           | Some l \<Rightarrow> l @ ascii '' - JSON debug error: '' @ json_error_display e, s)
      | (Panic, s) \<Rightarrow> ([], s))"

end
