(* ===== verification/Json_Value_Props.thy ===== *)
theory Json_Value_Props
  imports Json_Value
begin

text \<open>
  Properties of \<open>fd_json\<close>. The locale \<open>cjson\<close> states what the code relies on of the cJSON library:
  what a node stands for, how it is read, built, printed and parsed, and how many nodes and
  buffers are allocated. It is interpreted on an executable library with its own text format.
\<close>

section \<open>Values\<close>

text \<open>The type of a Rust \<open>JsonValue\<close>: strings are UTF-8, the keys of a map are distinct.\<close>

fun valid :: "json_value \<Rightarrow> bool"
  and valid_items :: "json_value list \<Rightarrow> bool"
  and valid_members :: "json_object \<Rightarrow> bool" where
  "valid (VString t) \<longleftrightarrow> utf8_valid t"
| "valid (VArray vs) \<longleftrightarrow> valid_items vs"
| "valid (VObject kvs) \<longleftrightarrow> distinct (map fst kvs) \<and> valid_members kvs"
| "valid VNull \<longleftrightarrow> True"
| "valid (VBool b) \<longleftrightarrow> True"
| "valid (VNumber x) \<longleftrightarrow> True"
| "valid_items [] \<longleftrightarrow> True"
| "valid_items (v # vs) \<longleftrightarrow> valid v \<and> valid_items vs"
| "valid_members [] \<longleftrightarrow> True"
| "valid_members ((k, v) # kvs) \<longleftrightarrow> utf8_valid k \<and> valid v \<and> valid_members kvs"

text \<open>No string and no key contains a zero byte.\<close>

fun clean :: "json_value \<Rightarrow> bool"
  and clean_items :: "json_value list \<Rightarrow> bool"
  and clean_members :: "json_object \<Rightarrow> bool" where
  "clean (VString t) \<longleftrightarrow> 0 \<notin> set t"
| "clean (VArray vs) \<longleftrightarrow> clean_items vs"
| "clean (VObject kvs) \<longleftrightarrow> clean_members kvs"
| "clean VNull \<longleftrightarrow> True"
| "clean (VBool b) \<longleftrightarrow> True"
| "clean (VNumber x) \<longleftrightarrow> True"
| "clean_items [] \<longleftrightarrow> True"
| "clean_items (v # vs) \<longleftrightarrow> clean v \<and> clean_items vs"
| "clean_members [] \<longleftrightarrow> True"
| "clean_members ((k, v) # kvs) \<longleftrightarrow> 0 \<notin> set k \<and> clean v \<and> clean_members kvs"

fun nodes :: "json_value \<Rightarrow> nat"
  and nodes_items :: "json_value list \<Rightarrow> nat"
  and nodes_members :: "json_object \<Rightarrow> nat" where
  "nodes (VArray vs) = Suc (nodes_items vs)"
| "nodes (VObject kvs) = Suc (nodes_members kvs)"
| "nodes VNull = 1"
| "nodes (VBool b) = 1"
| "nodes (VNumber x) = 1"
| "nodes (VString t) = 1"
| "nodes_items [] = 0"
| "nodes_items (v # vs) = nodes v + nodes_items vs"
| "nodes_members [] = 0"
| "nodes_members ((k, v) # kvs) = nodes v + nodes_members kvs"

fun depth :: "json_value \<Rightarrow> nat"
  and depth_items :: "json_value list \<Rightarrow> nat"
  and depth_members :: "json_object \<Rightarrow> nat" where
  "depth (VArray vs) = Suc (depth_items vs)"
| "depth (VObject kvs) = Suc (depth_members kvs)"
| "depth VNull = 0"
| "depth (VBool b) = 0"
| "depth (VNumber x) = 0"
| "depth (VString t) = 0"
| "depth_items [] = 0"
| "depth_items (v # vs) = max (depth v) (depth_items vs)"
| "depth_members [] = 0"
| "depth_members ((k, v) # kvs) = max (depth v) (depth_members kvs)"

text \<open>The value with every number replaced by what printing and parsing make of it: another
  number, or null.\<close>

fun reread :: "(num64 \<Rightarrow> num64 option) \<Rightarrow> json_value \<Rightarrow> json_value"
  and reread_items :: "(num64 \<Rightarrow> num64 option) \<Rightarrow> json_value list \<Rightarrow> json_value list"
  and reread_members :: "(num64 \<Rightarrow> num64 option) \<Rightarrow> json_object \<Rightarrow> json_object" where
  "reread f (VNumber x) = (case f x of Some y \<Rightarrow> VNumber y | None \<Rightarrow> VNull)"
| "reread f (VArray vs) = VArray (reread_items f vs)"
| "reread f (VObject kvs) = VObject (reread_members f kvs)"
| "reread f VNull = VNull"
| "reread f (VBool b) = VBool b"
| "reread f (VString t) = VString t"
| "reread_items f [] = []"
| "reread_items f (v # vs) = reread f v # reread_items f vs"
| "reread_members f [] = []"
| "reread_members f ((k, v) # kvs) = (k, reread f v) # reread_members f kvs"

lemma reread_keys [simp]: "map fst (reread_members f kvs) = map fst kvs"
  by (induction kvs) auto

lemma reread_valid:
  "valid v \<Longrightarrow> valid (reread f v)"
  "valid_items vs \<Longrightarrow> valid_items (reread_items f vs)"
  "valid_members kvs \<Longrightarrow> valid_members (reread_members f kvs)"
  by (induction v and vs and kvs rule: valid_valid_items_valid_members.induct)
    (auto split: option.split)

text \<open>Steps that reading a value takes.\<close>

fun steps :: "json_value \<Rightarrow> nat"
  and steps_items :: "json_value list \<Rightarrow> nat"
  and steps_members :: "json_object \<Rightarrow> nat" where
  "steps (VArray vs) = Suc (steps_items vs)"
| "steps (VObject kvs) = Suc (steps_members kvs)"
| "steps VNull = 1"
| "steps (VBool b) = 1"
| "steps (VNumber x) = 1"
| "steps (VString t) = 1"
| "steps_items [] = 1"
| "steps_items (v # vs) = Suc (steps v + steps_items vs)"
| "steps_members [] = 1"
| "steps_members ((k, v) # kvs) = Suc (steps v + steps_members kvs)"

text \<open>Nodes that a conversion which meets a zero byte leaves behind.\<close>

fun leaked :: "json_value \<Rightarrow> nat"
  and leaked_items :: "json_value list \<Rightarrow> nat"
  and leaked_members :: "json_object \<Rightarrow> nat" where
  "leaked (VArray vs) = Suc (leaked_items vs)"
| "leaked (VObject kvs) = Suc (leaked_members kvs)"
| "leaked VNull = 0"
| "leaked (VBool b) = 0"
| "leaked (VNumber x) = 0"
| "leaked (VString t) = 0"
| "leaked_items [] = 0"
| "leaked_items (v # vs) = (if clean v then nodes v + leaked_items vs else leaked v)"
| "leaked_members [] = 0"
| "leaked_members ((k, v) # kvs) =
     (if 0 \<in> set k then 0 else if clean v then nodes v + leaked_members kvs else leaked v)"

section \<open>What parsing returns\<close>

lemma hm_insert_keys: "fst ` set (hm_insert k v m) = insert k (fst ` set m)"
  by (induction k v m rule: hm_insert.induct) (simp_all add: insert_commute)

lemma hm_insert_distinct: "distinct (map fst m) \<Longrightarrow> distinct (map fst (hm_insert k v m))"
  by (induction m) (auto simp: hm_insert_keys)

lemma hm_insert_new: "k \<notin> fst ` set m \<Longrightarrow> hm_insert k v m = m @ [(k, v)]"
  by (induction m) auto

lemma map_of_hm_insert: "map_of (hm_insert k v m) = (map_of m)(k \<mapsto> v)"
  by (induction m) auto

lemma valid_snoc [simp]: "valid_items (vs @ [v]) \<longleftrightarrow> valid_items vs \<and> valid v"
  by (induction vs) auto

lemma hm_insert_valid:
  "valid_members m \<Longrightarrow> utf8_valid k \<Longrightarrow> valid v \<Longrightarrow> valid_members (hm_insert k v m)"
  by (induction m) auto

lemma c_to_str_Ok [simp]: "c_to_str s = Ok t \<longleftrightarrow> utf8_valid s \<and> t = s"
  by (auto simp: c_to_str_def from_utf8_def)

lemma c_to_str_valid [simp]: "utf8_valid s \<Longrightarrow> c_to_str s = Ok s"
  by simp

lemma c_to_str_no_panic [simp]: "c_to_str s \<noteq> Panic"
  by (auto simp: c_to_str_def)

lemma reading_valid:
  "cjson_to_json_value lib n c = Some r \<Longrightarrow> r \<noteq> Panic \<and> (\<forall>v. r = Ok v \<longrightarrow> valid v)"
  "read_items lib n d i sz vs = Some q \<Longrightarrow> valid_items vs \<Longrightarrow>
     q \<noteq> Panic \<and> (\<forall>ws. q = Ok ws \<longrightarrow> valid_items ws)"
  "read_members lib n c kvs = Some p \<Longrightarrow> valid_members kvs \<and> distinct (map fst kvs) \<Longrightarrow>
     p \<noteq> Panic \<and> (\<forall>kws. p = Ok kws \<longrightarrow> valid_members kws \<and> distinct (map fst kws))"
proof (induction lib n c and lib n d i sz vs and lib n c kvs arbitrary: r and q and p
    rule: cjson_to_json_value_read_items_read_members.induct)
  case (2 lib n cjson)
  then show ?case
    by (auto simp: res_simps split: option.splits if_splits)
next
  case (4 lib n c i sz vs)
  then show ?case by (auto split: option.splits if_splits res.splits)
next
  case (6 lib n item kvs)
  then show ?case
    by (auto simp: hm_insert_distinct hm_insert_valid split: option.splits if_splits res.splits)
qed simp_all

section \<open>The cJSON library\<close>

text \<open>A list of sibling nodes, linked by \<open>next\<close>, with their keys.\<close>

fun chain :: "('j, 's) cjson_lib \<Rightarrow> ('j \<Rightarrow> json_value) \<Rightarrow> 'j option \<Rightarrow> json_object \<Rightarrow> bool" where
  "chain lib view item [] \<longleftrightarrow> item = None"
| "chain lib view item ((k, v) # kvs) \<longleftrightarrow>
     (\<exists>c. item = Some c \<and> c_key lib c = Some k \<and> view c = v \<and> chain lib view (c_next lib c) kvs)"

text \<open>A call returned a node that stands for \<open>v\<close>, leaving \<open>n\<close> live allocations and room for more.\<close>

definition makes ::
  "('j \<Rightarrow> json_value) \<Rightarrow> ('s \<Rightarrow> nat) \<Rightarrow> ('s \<Rightarrow> bool) \<Rightarrow> 'j option \<times> 's \<Rightarrow> json_value \<Rightarrow> nat \<Rightarrow> bool" where
  "makes view live room r v n \<longleftrightarrow>
     (\<exists>j s. r = (Some j, s) \<and> view j = v \<and> live s = n \<and> room s)"

text \<open>A printer allocates one buffer with a text that \<open>cJSON_Parse\<close> reads back.\<close>

definition prints ::
  "('j, 's) cjson_lib \<Rightarrow> ('j \<Rightarrow> json_value) \<Rightarrow> ('s \<Rightarrow> nat) \<Rightarrow> ('s \<Rightarrow> bool) \<Rightarrow>
   (num64 \<Rightarrow> num64 option) \<Rightarrow> bytes option \<times> 's \<Rightarrow> json_value \<Rightarrow> nat \<Rightarrow> bool" where
  "prints lib view live room renum r v n \<longleftrightarrow>
     (\<exists>t s. r = (Some t, s) \<and> live s = n \<and> room s \<and> utf8_valid t \<and> 0 \<notin> set t \<and>
       (\<forall>s2. room s2 \<longrightarrow>
         makes view live room (c_parse lib t s2) (reread renum v) (live s2 + nodes (reread renum v))))"

text \<open>A conversion either built a node that stands for the value, or was stopped by a zero byte;
  \<open>n\<close> and \<open>m\<close> are the live allocations then.\<close>

definition converted ::
  "('j \<Rightarrow> json_value) \<Rightarrow> ('s \<Rightarrow> nat) \<Rightarrow> ('s \<Rightarrow> bool) \<Rightarrow> ('j, json_error) res \<times> 's \<Rightarrow> bool \<Rightarrow>
   json_value \<Rightarrow> nat \<Rightarrow> nat \<Rightarrow> bool" where
  "converted view live room r ok v n m \<longleftrightarrow>
     (if ok then \<exists>j s. r = (Ok j, s) \<and> view j = v \<and> live s = n \<and> room s
      else \<exists>msg s. r = (Err (InvalidInput msg), s) \<and> live s = m \<and> room s)"

text \<open>
  The laws: \<open>view\<close> says what a node stands for, \<open>live\<close> counts the nodes and buffers that are
  allocated, \<open>room\<close> holds of a heap with enough memory for what follows, and \<open>renum\<close> is what
  printing a number and reading it again gives, \<open>None\<close> when cJSON prints \<open>null\<close> for it. cJSON parses
  at most 1000 nested arrays and objects.
\<close>

locale cjson =
  fixes lib :: "('j, 's) cjson_lib"
    and view :: "'j \<Rightarrow> json_value"
    and live :: "'s \<Rightarrow> nat"
    and room :: "'s \<Rightarrow> bool"
    and renum :: "num64 \<Rightarrow> num64 option"
  assumes kinds:
      "c_is_null lib j = jv_is_null (view j)" "c_is_bool lib j = jv_is_bool (view j)"
      "c_is_number lib j = jv_is_number (view j)" "c_is_string lib j = jv_is_string (view j)"
      "c_is_array lib j = jv_is_array (view j)" "c_is_object lib j = jv_is_object (view j)"
    and scalars:
      "view j = VBool b \<Longrightarrow> c_is_true lib j = b"
      "view j = VNumber x \<Longrightarrow> c_number_value lib j = x"
      "view j = VString t \<Longrightarrow> c_string_value lib j = Some t"
    and item_count: "view j = VArray vs \<Longrightarrow> c_array_size lib j = length vs"
    and items: "view j = VArray vs \<Longrightarrow> i < length vs \<Longrightarrow> \<exists>c. c_array_item lib j i = Some c \<and> view c = vs ! i"
    and members: "view j = VObject kvs \<Longrightarrow> chain lib view (c_child lib j) kvs"
    and creates:
      "room s \<Longrightarrow> makes view live room (c_create_null lib s) VNull (Suc (live s))"
      "room s \<Longrightarrow> makes view live room (c_create_bool lib b s) (VBool b) (Suc (live s))"
      "room s \<Longrightarrow> makes view live room (c_create_number lib x s) (VNumber x) (Suc (live s))"
      "room s \<Longrightarrow> makes view live room (c_create_string lib t s) (VString t) (Suc (live s))"
      "room s \<Longrightarrow> makes view live room (c_create_array lib s) (VArray []) (Suc (live s))"
      "room s \<Longrightarrow> makes view live room (c_create_object lib s) (VObject []) (Suc (live s))"
    and adds:
      "room s \<Longrightarrow> view c = VArray vs \<Longrightarrow>
         makes view live room (c_add_to_array lib c item s) (VArray (vs @ [view item])) (live s)"
      "room s \<Longrightarrow> view c = VObject kvs \<Longrightarrow>
         makes view live room (c_add_to_object lib c k item s) (VObject (kvs @ [(k, view item)])) (live s)"
    and deletes: "room s \<Longrightarrow> room (c_delete lib j s)"
      "room s \<Longrightarrow> live (c_delete lib j s) = live s - nodes (view j)"
    and frees: "room s \<Longrightarrow> room (c_free lib t s)" "room s \<Longrightarrow> live (c_free lib t s) = live s - 1"
    and printing:
      "room s \<Longrightarrow> valid (view j) \<Longrightarrow> clean (view j) \<Longrightarrow> depth (view j) \<le> 1000 \<Longrightarrow>
         prints lib view live room renum (c_print lib j s) (view j) (Suc (live s))"
      "room s \<Longrightarrow> valid (view j) \<Longrightarrow> clean (view j) \<Longrightarrow> depth (view j) \<le> 1000 \<Longrightarrow>
         prints lib view live room renum (c_print_unformatted lib j s) (view j) (Suc (live s))"
begin

text \<open>Reading a node gives the value it stands for, with any amount of fuel from \<open>steps\<close> on.\<close>

lemma read_node:
  shows "view j = v \<Longrightarrow> valid v \<Longrightarrow> steps v \<le> n \<Longrightarrow> cjson_to_json_value lib n (Some j) = Some (Ok v)"
    and "view j = VArray (us @ vs) \<Longrightarrow> valid_items vs \<Longrightarrow> steps_items vs \<le> n \<Longrightarrow>
         read_items lib n j (length us) (length us + length vs) us = Some (Ok (us @ vs))"
    and "chain lib view item kvs \<Longrightarrow> valid_members kvs \<Longrightarrow> steps_members kvs \<le> n \<Longrightarrow>
         distinct (map fst (kus @ kvs)) \<Longrightarrow> read_members lib n item kus = Some (Ok (kus @ kvs))"
proof (induction v and vs and kvs arbitrary: j n and j us n and item kus n
    rule: steps_steps_items_steps_members.induct)
  case (1 vs)
  then obtain m where "n = Suc m" "steps_items vs \<le> m" by (cases n) auto
  then show ?case using 1(1) [of j "[]" m] 1(2,3) by (simp add: kinds item_count)
next
  case (2 kvs)
  then obtain m where "n = Suc m" "steps_members kvs \<le> m" by (cases n) auto
  then show ?case using 2(1) [OF members, of j m "[]"] 2(2,3) by (simp add: kinds)
next
  case (8 v vs)
  then obtain m where m: "n = Suc m" "steps v \<le> m" "steps_items vs \<le> m" by (cases n) auto
  obtain c where c: "c_array_item lib j (length us) = Some c" "view c = v"
    using items [OF 8(3), of "length us"] by auto
  have "read_items lib m j (Suc (length us)) (Suc (length us) + length vs) (us @ [v]) = Some (Ok (us @ v # vs))"
    using 8(2) [of j "us @ [v]" m] 8(3,4) m by simp
  then show ?case using 8(1) [OF c(2)] 8(4) m c by simp
next
  case (10 k v kvs)
  then obtain m where m: "n = Suc m" "steps v \<le> m" "steps_members kvs \<le> m" by (cases n) auto
  obtain c where c: "item = Some c" "c_key lib c = Some k" "view c = v" "chain lib view (c_next lib c) kvs"
    using 10(3) by auto
  have new: "hm_insert k v kus = kus @ [(k, v)]" using 10(6) by (intro hm_insert_new) auto
  have "read_members lib m (c_next lib c) (kus @ [(k, v)]) = Some (Ok (kus @ (k, v) # kvs))"
    using 10(2) [OF c(4), of m "kus @ [(k, v)]"] 10(4,6) m by simp
  then show ?case using 10(1) [OF c(3)] 10(4) m c new by simp
qed (auto simp: kinds scalars Suc_le_eq gr0_conv_Suc c_to_str_def from_utf8_def)

lemma or_memory_error_makes:
  "makes view live room r v n \<Longrightarrow> converted view live room (or_memory_error r) True v n m"
  by (auto simp: makes_def or_memory_error_def converted_def)

lemma add_item_makes:
  assumes "room s" and "view c = VArray vs"
  obtains c' s' where "add_item_or_delete lib c item s = (Ok c', s')"
    "view c' = VArray (vs @ [view item])" "live s' = live s" "room s'"
  using adds(1) [OF assms, of item] by (auto simp: makes_def add_item_or_delete_def)

lemma add_member_makes:
  assumes "room s" and "view c = VObject kvs"
  obtains c' s' where "add_member_or_delete lib c k item s = (Ok c', s')"
    "view c' = VObject (kvs @ [(k, view item)])" "live s' = live s" "room s'"
  using adds(2) [OF assms, of k item] by (auto simp: makes_def add_member_or_delete_def)

text \<open>Converting a value builds a node for it, unless a zero byte stops it; then the nodes built
  so far stay allocated.\<close>

lemma convert_value:
  shows "room s \<Longrightarrow> converted view live room (json_value_to_cjson lib v s) (clean v) v
           (live s + nodes v) (live s + leaked v)"
    and "room s \<Longrightarrow> view c = VArray us \<Longrightarrow>
         converted view live room (add_items lib vs c s) (clean_items vs) (VArray (us @ vs))
           (live s + nodes_items vs) (live s + leaked_items vs)"
    and "room s \<Longrightarrow> view c = VObject kus \<Longrightarrow>
         converted view live room (add_members lib kvs c s) (clean_members kvs) (VObject (kus @ kvs))
           (live s + nodes_members kvs) (live s + leaked_members kvs)"
proof (induction v and vs and kvs arbitrary: s and s c us and s c kus
    rule: nodes_nodes_items_nodes_members.induct)
  case (1 vs)
  obtain c s' where c: "c_create_array lib s = (Some c, s')" "view c = VArray []" "live s' = Suc (live s)" "room s'"
    using creates(5) [OF 1(2)] by (auto simp: makes_def)
  then show ?case using 1(1) [OF c(4,2)] by simp
next
  case (2 kvs)
  obtain c s' where c: "c_create_object lib s = (Some c, s')" "view c = VObject []" "live s' = Suc (live s)" "room s'"
    using creates(6) [OF 2(2)] by (auto simp: makes_def)
  then show ?case using 2(1) [OF c(4,2)] by simp
next
  case (6 t)
  then show ?case
    using or_memory_error_makes [OF creates(4)] by (auto simp: c_string_def converted_def)
next
  case (8 v vs)
  show ?case
  proof (cases "clean v")
    case True
    then obtain item s' where v: "json_value_to_cjson lib v s = (Ok item, s')" "view item = v"
      "live s' = live s + nodes v" "room s'"
      using 8(1) [OF 8(3)] by (auto simp: converted_def)
    obtain c' s'' where c: "add_item_or_delete lib c item s' = (Ok c', s'')" "view c' = VArray (us @ [v])"
      "live s'' = live s'" "room s''"
      using add_item_makes [OF v(4) 8(4), of item] v(2) by auto
    show ?thesis using 8(2) [OF c(4,2)] True v c by (simp add: add.assoc)
  next
    case False
    then show ?thesis using 8(1) [OF 8(3)] by (auto simp: converted_def)
  qed
next
  case (10 k v kvs)
  show ?case
  proof (cases "0 \<in> set k \<or> \<not> clean v")
    case True
    then show ?thesis using 10(1) [OF 10(3)] 10(3) by (auto simp: converted_def c_string_def)
  next
    case False
    then obtain item s' where v: "json_value_to_cjson lib v s = (Ok item, s')" "view item = v"
      "live s' = live s + nodes v" "room s'"
      using 10(1) [OF 10(3)] by (auto simp: converted_def)
    obtain c' s'' where c: "add_member_or_delete lib c k item s' = (Ok c', s'')"
      "view c' = VObject (kus @ [(k, v)])" "live s'' = live s'" "room s''"
      using add_member_makes [OF v(4) 10(4), of k item] v(2) by auto
    show ?thesis using 10(2) [OF c(4,2)] False v c by (simp add: add.assoc c_string_def)
  qed
qed (auto simp: or_memory_error_makes creates converted_def [where v = "VArray _"] converted_def [where v = "VObject _"])

text \<open>Either printer, given its law.\<close>

lemma print_value:
  assumes printer: "\<And>j s. room s \<Longrightarrow> valid (view j) \<Longrightarrow> clean (view j) \<Longrightarrow> depth (view j) \<le> 1000 \<Longrightarrow>
      prints lib view live room renum (p j s) (view j) (Suc (live s))"
    and "room s" and "valid v" and "clean v" and "depth v \<le> 1000"
  shows "\<exists>t s'. print_with p lib v s = (Ok t, s') \<and> live s' = live s \<and> room s' \<and>
    (\<forall>s2 fuel. room s2 \<longrightarrow> steps (reread renum v) \<le> fuel \<longrightarrow>
      (\<exists>s3. json_parse lib fuel t s2 = Some (Ok (reread renum v), s3) \<and> live s3 = live s2 \<and> room s3))"
proof -
  obtain j s1 where j: "json_value_to_cjson lib v s = (Ok j, s1)" "view j = v" "live s1 = live s + nodes v" "room s1"
    using convert_value(1) [OF assms(2), of v] assms(4) by (auto simp: converted_def)
  obtain t s' where t: "p j s1 = (Some t, s')" "live s' = Suc (live s1)" "room s'" "utf8_valid t" "0 \<notin> set t"
    and reparse: "\<And>s2. room s2 \<Longrightarrow>
      makes view live room (c_parse lib t s2) (reread renum v) (live s2 + nodes (reread renum v))"
    using printer [OF j(4), of j] assms(3-5) j(2) by (auto simp: prints_def)
  have parse: "\<exists>s3. json_parse lib fuel t s2 = Some (Ok (reread renum v), s3) \<and> live s3 = live s2 \<and> room s3"
    if r: "room s2" and fuel: "steps (reread renum v) \<le> fuel" for s2 fuel
  proof -
    obtain c s3 where c: "c_parse lib t s2 = (Some c, s3)" "view c = reread renum v"
      "live s3 = live s2 + nodes (reread renum v)" "room s3"
      using reparse [OF r] by (auto simp: makes_def)
    show ?thesis
      using read_node(1) [OF c(2) reread_valid(1) [OF assms(3)] fuel] t(5) c
      by (simp add: json_parse_def c_string_def deletes)
  qed
  show ?thesis using j t parse by (auto simp: print_with_def deletes frees)
qed

end

section \<open>An executable library\<close>

text \<open>
  A library with the laws: numbers that are not finite print as null, a string is its length in
  unary and its bytes, containers are bracketed with a comma before every element.
\<close>

definition doc_renum :: "num64 \<Rightarrow> num64 option" where
  "doc_renum x = (case x of Num (F64 neg m e) \<Rightarrow> Some x | _ \<Rightarrow> None)"

definition put_nat :: "nat \<Rightarrow> bytes" where
  "put_nat n = replicate n 97 @ [59]"

fun get_nat :: "bytes \<Rightarrow> (nat \<times> bytes) option" where
  "get_nat [] = None"
| "get_nat (c # r) =
     (if c = 97 then map_option (\<lambda>(n, r). (Suc n, r)) (get_nat r)
      else if c = 59 then Some (0, r) else None)"

definition put_bit :: "bool \<Rightarrow> bytes" where
  "put_bit b = put_nat (if b then 1 else 0)"

fun put_num :: "num64 \<Rightarrow> bytes" where
  "put_num (Num (F64 neg m e)) = 35 # put_bit neg @ put_nat m @ put_bit (e < 0) @ put_nat (nat \<bar>e\<bar>)"
| "put_num _ = [110]"

definition get_num :: "bytes \<Rightarrow> (json_value \<times> bytes) option" where
  "get_num r =
     (case get_nat r of None \<Rightarrow> None | Some (a, r) \<Rightarrow>
     (case get_nat r of None \<Rightarrow> None | Some (m, r) \<Rightarrow>
     (case get_nat r of None \<Rightarrow> None | Some (b, r) \<Rightarrow>
     (case get_nat r of None \<Rightarrow> None | Some (e, r) \<Rightarrow>
        Some (VNumber (Num (F64 (a = 1) m (if b = 1 then - int e else int e))), r)))))"

definition put_str :: "bytes \<Rightarrow> bytes" where
  "put_str s = put_nat (length s) @ s"

definition get_str :: "bytes \<Rightarrow> (bytes \<times> bytes) option" where
  "get_str r = map_option (\<lambda>(n, r). (take n r, drop n r)) (get_nat r)"

fun put_value :: "json_value \<Rightarrow> bytes"
  and put_items :: "json_value list \<Rightarrow> bytes"
  and put_members :: "json_object \<Rightarrow> bytes" where
  "put_value VNull = [110]"
| "put_value (VBool b) = [if b then 116 else 102]"
| "put_value (VNumber x) = put_num x"
| "put_value (VString t) = 34 # put_str t"
| "put_value (VArray vs) = 91 # put_items vs"
| "put_value (VObject kvs) = 123 # put_members kvs"
| "put_items [] = [93]"
| "put_items (v # vs) = 44 # put_value v @ put_items vs"
| "put_members [] = [125]"
| "put_members ((k, v) # kvs) = 44 # put_str k @ put_value v @ put_members kvs"

fun get_value :: "nat \<Rightarrow> bytes \<Rightarrow> (json_value \<times> bytes) option"
  and get_items :: "nat \<Rightarrow> bytes \<Rightarrow> (json_value list \<times> bytes) option"
  and get_members :: "nat \<Rightarrow> bytes \<Rightarrow> (json_object \<times> bytes) option" where
  "get_value 0 r = None"
| "get_value (Suc n) r =
     (case r of [] \<Rightarrow> None | c # r \<Rightarrow>
        if c = 110 then Some (VNull, r)
        else if c = 116 then Some (VBool True, r)
        else if c = 102 then Some (VBool False, r)
        else if c = 35 then get_num r
        else if c = 34 then map_option (\<lambda>(t, r). (VString t, r)) (get_str r)
        else if c = 91 then map_option (\<lambda>(vs, r). (VArray vs, r)) (get_items n r)
        else if c = 123 then map_option (\<lambda>(kvs, r). (VObject kvs, r)) (get_members n r)
        else None)"
| "get_items 0 r = None"
| "get_items (Suc n) r =
     (case r of [] \<Rightarrow> None | c # r \<Rightarrow>
        if c = 93 then Some ([], r)
        else if c = 44 then
          (case get_value n r of None \<Rightarrow> None
           | Some (v, r) \<Rightarrow> map_option (\<lambda>(vs, r). (v # vs, r)) (get_items n r))
        else None)"
| "get_members 0 r = None"
| "get_members (Suc n) r =
     (case r of [] \<Rightarrow> None | c # r \<Rightarrow>
        if c = 125 then Some ([], r)
        else if c = 44 then
          (case get_str r of None \<Rightarrow> None
           | Some (k, r) \<Rightarrow>
               (case get_value n r of None \<Rightarrow> None
                | Some (v, r) \<Rightarrow> map_option (\<lambda>(kvs, r). ((k, v) # kvs, r)) (get_members n r)))
        else None)"

lemma get_put_nat [simp]: "get_nat (put_nat n @ r) = Some (n, r)"
  by (induction n) (simp_all add: put_nat_def)

lemma get_put_str [simp]: "get_str (put_str s @ r) = Some (s, r)"
  by (simp add: get_str_def put_str_def)

lemma get_put_num:
  "get_value (Suc n) (put_num x @ r) =
     Some (case doc_renum x of Some y \<Rightarrow> VNumber y | None \<Rightarrow> VNull, r)"
  by (cases x rule: put_num.cases) (auto simp: doc_renum_def get_num_def put_bit_def)

lemma put_value_length: "0 < length (put_value v)"
proof (cases v)
  case (VNumber x)
  then show ?thesis by (cases x rule: put_num.cases) auto
qed auto

lemma get_put:
  "length (put_value v) \<le> n \<Longrightarrow> get_value n (put_value v @ r) = Some (reread doc_renum v, r)"
  "length (put_items vs) \<le> n \<Longrightarrow> get_items n (put_items vs @ r) = Some (reread_items doc_renum vs, r)"
  "length (put_members kvs) \<le> n \<Longrightarrow> get_members n (put_members kvs @ r) = Some (reread_members doc_renum kvs, r)"
proof (induction v and vs and kvs arbitrary: n r and n r and n r
    rule: put_value_put_items_put_members.induct)
  case (3 x)
  then obtain m where "n = Suc m" using put_value_length [of "VNumber x"] by (cases n) auto
  then show ?case using get_put_num [of m x r] by simp
next
  case (4 t)
  then show ?case by (cases n) auto
next
  case (5 vs)
  then show ?case by (cases n) auto
next
  case (6 kvs)
  then show ?case by (cases n) auto
next
  case (8 v vs)
  then show ?case by (cases n) auto
next
  case (10 k v kvs)
  then show ?case by (cases n) auto
qed (auto simp: Suc_le_eq gr0_conv_Suc)

text \<open>The texts are UTF-8 without zero bytes.\<close>

lemma utf8_valid_append: "utf8_valid a \<Longrightarrow> utf8_valid b \<Longrightarrow> utf8_valid (a @ b)"
proof (induction a rule: utf8_valid.induct)
  case (2 x s)
  then show ?case
    by (auto simp: Let_def utf8_valid.simps(2) [of x] simp del: utf8_valid.simps(2)
        split: list.splits if_splits)
qed simp

lemma put_nat_text: "utf8_valid (put_nat n)" "0 \<notin> set (put_nat n)"
  by (induction n) (auto simp: put_nat_def)

lemma put_str_text:
  "utf8_valid s \<Longrightarrow> utf8_valid (put_str s)" "0 \<notin> set s \<Longrightarrow> 0 \<notin> set (put_str s)"
  by (auto simp: put_str_def put_nat_text utf8_valid_append)

lemma put_num_text: "utf8_valid (put_num x)" "0 \<notin> set (put_num x)"
  by (cases x rule: put_num.cases; simp add: put_bit_def put_nat_text utf8_valid_append)+

lemma put_value_text:
  "valid v \<Longrightarrow> clean v \<Longrightarrow> utf8_valid (put_value v) \<and> 0 \<notin> set (put_value v)"
  "valid_items vs \<Longrightarrow> clean_items vs \<Longrightarrow> utf8_valid (put_items vs) \<and> 0 \<notin> set (put_items vs)"
  "valid_members kvs \<Longrightarrow> clean_members kvs \<Longrightarrow> utf8_valid (put_members kvs) \<and> 0 \<notin> set (put_members kvs)"
  by (induction v and vs and kvs rule: put_value_put_items_put_members.induct)
    (simp_all add: put_num_text put_str_text utf8_valid_append)

text \<open>A node is its key, its value and the siblings after it; the heap is the number of live
  allocations.\<close>

type_synonym doc_node = "bytes option \<times> json_value \<times> json_object"

fun doc_siblings :: "json_object \<Rightarrow> doc_node option" where
  "doc_siblings [] = None"
| "doc_siblings ((k, v) # kvs) = Some (Some k, v, kvs)"

definition doc_new :: "json_value \<Rightarrow> nat \<Rightarrow> doc_node option \<times> nat" where
  "doc_new v n = (Some (None, v, []), n + nodes v)"

definition doc_view :: "doc_node \<Rightarrow> json_value" where
  "doc_view j = fst (snd j)"

definition doc_cjson :: "(doc_node, nat) cjson_lib" where
  "doc_cjson =
     \<lparr>c_is_null = (\<lambda>j. jv_is_null (doc_view j)), c_is_bool = (\<lambda>j. jv_is_bool (doc_view j)),
      c_is_true = (\<lambda>j. jv_as_bool (doc_view j) = Some True),
      c_is_number = (\<lambda>j. jv_is_number (doc_view j)), c_is_string = (\<lambda>j. jv_is_string (doc_view j)),
      c_is_array = (\<lambda>j. jv_is_array (doc_view j)), c_is_object = (\<lambda>j. jv_is_object (doc_view j)),
      c_number_value = (\<lambda>j. case jv_as_f64 (doc_view j) of Some x \<Rightarrow> x | None \<Rightarrow> NaN),
      c_string_value = (\<lambda>j. jv_as_str (doc_view j)),
      c_array_size = (\<lambda>j. case jv_as_array (doc_view j) of Some vs \<Rightarrow> length vs | None \<Rightarrow> 0),
      c_array_item = (\<lambda>j i. map_option (\<lambda>v. (None, v, [])) (jv_get_index (doc_view j) i)),
      c_child = (\<lambda>j. Option.bind (jv_as_object (doc_view j)) doc_siblings),
      c_next = (\<lambda>j. doc_siblings (snd (snd j))), c_key = fst,
      c_create_null = doc_new VNull, c_create_bool = (\<lambda>b. doc_new (VBool b)),
      c_create_number = (\<lambda>x. doc_new (VNumber x)), c_create_string = (\<lambda>t. doc_new (VString t)),
      c_create_array = doc_new (VArray []), c_create_object = doc_new (VObject []),
      c_add_to_array = (\<lambda>c item n. (map_option (\<lambda>v. (None, v, []))
        (jv_as_array_mut (\<lambda>vs. vs @ [doc_view item]) (doc_view c)), n)),
      c_add_to_object = (\<lambda>c k item n. (map_option (\<lambda>v. (None, v, []))
        (jv_as_object_mut (\<lambda>kvs. kvs @ [(k, doc_view item)]) (doc_view c)), n)),
      c_delete = (\<lambda>j n. n - nodes (doc_view j)),
      c_parse = (\<lambda>t n. case get_value (length t) t of Some (v, []) \<Rightarrow> doc_new v n | _ \<Rightarrow> (None, n)),
      c_error_offset = (\<lambda>t n. None),
      c_print = (\<lambda>j n. (Some (put_value (doc_view j)), Suc n)),
      c_print_unformatted = (\<lambda>j n. (Some (put_value (doc_view j)), Suc n)),
      c_free = (\<lambda>t n. n - 1)\<rparr>"

lemma doc_chain: "chain doc_cjson doc_view (doc_siblings kvs) kvs"
  by (induction kvs) (auto simp: doc_cjson_def doc_view_def)

lemma doc_prints:
  assumes "valid v" and "clean v"
  shows "prints doc_cjson doc_view (\<lambda>n. n) (\<lambda>n. True) doc_renum (Some (put_value v), Suc n) v (Suc n)"
proof -
  have "get_value (length (put_value v)) (put_value v) = Some (reread doc_renum v, [])"
    using get_put(1) [of v "length (put_value v)" "[]"] by simp
  then show ?thesis
    using put_value_text(1) [OF assms]
    by (simp add: prints_def makes_def doc_cjson_def doc_new_def doc_view_def)
qed

interpretation doc_cj: cjson doc_cjson doc_view "\<lambda>n. n" "\<lambda>n. True" doc_renum
proof
  show "chain doc_cjson doc_view (c_child doc_cjson j) kvs" if "doc_view j = VObject kvs" for j kvs
    using doc_chain [of kvs] that by (simp add: doc_cjson_def)
  show "prints doc_cjson doc_view (\<lambda>n. n) (\<lambda>n. True) doc_renum (c_print doc_cjson j s) (doc_view j) (Suc s)"
    if "valid (doc_view j)" "clean (doc_view j)" for j s
    using doc_prints [OF that, of s] by (simp add: doc_cjson_def)
  show "prints doc_cjson doc_view (\<lambda>n. n) (\<lambda>n. True) doc_renum (c_print_unformatted doc_cjson j s)
      (doc_view j) (Suc s)"
    if "valid (doc_view j)" "clean (doc_view j)" for j s
    using doc_prints [OF that, of s] by (simp add: doc_cjson_def)
qed (auto simp: doc_cjson_def makes_def doc_new_def doc_view_def jv_get_index_def)

section \<open>Properties\<close>

text \<open>C28: a printed value parses back. A value without zero bytes in its strings and keys, nested
  at most 1000 deep, prints without error, both formatted and compact, and parsing the text
  gives the value again, with each number replaced by what cJSON's number format makes of it. Every
  node and buffer is released on both ways.\<close>

theorem json_round_trip:
  assumes "cjson lib view live room renum" and "room s" and "valid v" and "clean v" and "depth v \<le> 1000"
    and "pr = json_to_string lib \<or> pr = json_to_string_compact lib"
  shows "\<exists>t s'. pr v s = (Ok t, s') \<and> live s' = live s \<and> room s' \<and>
    (\<forall>s2 fuel. room s2 \<longrightarrow> steps (reread renum v) \<le> fuel \<longrightarrow>
      (\<exists>s3. json_parse lib fuel t s2 = Some (Ok (reread renum v), s3) \<and> live s3 = live s2 \<and> room s3))"
  using assms(6) cjson.print_value [OF assms(1) cjson.printing(1) [OF assms(1)] assms(2-5)]
    cjson.print_value [OF assms(1) cjson.printing(2) [OF assms(1)] assms(2-5)]
  by (auto simp: json_to_string_def json_to_string_compact_def)

definition sample_json :: json_value where
  "sample_json = VObject [([97], VArray [VNumber (Num (F64 False 3 2)), VNull]), ([98], VString [104, 105])]"

theorem json_round_trip_witness:
  "\<exists>t. json_to_string doc_cjson sample_json 7 = (Ok t, 7) \<and>
     json_parse doc_cjson 20 t 0 = Some (Ok sample_json, 0)"
proof -
  have "reread doc_renum sample_json = sample_json" "steps sample_json \<le> 20"
    "valid sample_json" "clean sample_json" "depth sample_json \<le> 1000"
    by (simp_all add: sample_json_def doc_renum_def)
  then show ?thesis
    using json_round_trip [OF doc_cj.cjson_axioms,
        where s = 7 and v = sample_json and pr = "json_to_string doc_cjson"] by auto
qed

text \<open>When printing fails. With memory to spare, printing a value of up to 1000 levels fails exactly
  when a string or a key contains a zero byte. The error is then \<open>InvalidInput\<close>, and when the value is
  an array or an object the nodes converted before that string stay allocated: the containers
  are not deleted on the early return.\<close>

theorem json_to_string_errors:
  assumes "cjson lib view live room renum" and "room s" and "valid v" and "depth v \<le> 1000"
  shows "case json_to_string lib v s of (r, s') \<Rightarrow>
    ((\<exists>t. r = Ok t) \<longleftrightarrow> clean v) \<and>
    (clean v \<longrightarrow> live s' = live s) \<and>
    (\<not> clean v \<longrightarrow> (\<exists>msg. r = Err (InvalidInput msg)) \<and> live s' = live s + leaked v \<and>
      (live s < live s' \<longleftrightarrow> jv_is_array v \<or> jv_is_object v))"
proof (cases "clean v")
  case True
  then show ?thesis
    using cjson.print_value [OF assms(1) cjson.printing(1) [OF assms(1)] assms(2,3) _ assms(4)]
    by (auto simp: json_to_string_def)
next
  case False
  then obtain msg s' where "json_value_to_cjson lib v s = (Err (InvalidInput msg), s')"
    "live s' = live s + leaked v"
    using cjson.convert_value(1) [OF assms(1,2), of v] by (auto simp: converted_def)
  then show ?thesis
    using False by (cases v) (auto simp: json_to_string_def print_with_def)
qed

theorem json_to_string_errors_witness:
  "\<exists>msg. json_to_string doc_cjson (VArray [VNull, VString [0]]) 0 = (Err (InvalidInput msg), 2)"
proof -
  obtain r s' where r: "json_to_string doc_cjson (VArray [VNull, VString [0]]) 0 = (r, s')" by fastforce
  show ?thesis
    using json_to_string_errors [OF doc_cj.cjson_axioms,
        where s = 0 and v = "VArray [VNull, VString [0]]"]
    by (simp add: r)
qed

text \<open>Macro arguments: what is interpolated is a proper value and proper text.\<close>

fun literal_valid :: "json_literal \<Rightarrow> bool" where
  "literal_valid (LitStr t) \<longleftrightarrow> utf8_valid t"
| "literal_valid (LitText t) \<longleftrightarrow> utf8_valid t"
| "literal_valid (LitInt i) \<longleftrightarrow> True"

fun key_valid :: "json_key \<Rightarrow> bool" where
  "key_valid (KeyLiteral l) \<longleftrightarrow> literal_valid l"
| "key_valid (KeyExpr t) \<longleftrightarrow> utf8_valid t"

fun tokens_valid :: "json_tokens \<Rightarrow> bool"
  and member_tokens_valid :: "(json_key \<times> json_tokens) list \<Rightarrow> bool"
  and item_tokens_valid :: "json_tokens list \<Rightarrow> bool" where
  "tokens_valid (TObject kts) \<longleftrightarrow> member_tokens_valid kts"
| "tokens_valid (TArray ts) \<longleftrightarrow> item_tokens_valid ts"
| "tokens_valid (TLiteral l) \<longleftrightarrow> literal_valid l"
| "tokens_valid (TExpr v) \<longleftrightarrow> valid v"
| "tokens_valid TNull \<longleftrightarrow> True"
| "tokens_valid (TBool b) \<longleftrightarrow> True"
| "member_tokens_valid [] \<longleftrightarrow> True"
| "member_tokens_valid ((k, t) # kts) \<longleftrightarrow> key_valid k \<and> tokens_valid t \<and> member_tokens_valid kts"
| "item_tokens_valid [] \<longleftrightarrow> True"
| "item_tokens_valid (t # ts) \<longleftrightarrow> tokens_valid t \<and> item_tokens_valid ts"

lemma utf8_valid_ascii: "list_all (\<lambda>c. unat c < 128) s \<Longrightarrow> utf8_valid s"
  by (induction s) (auto simp: Let_def)

lemma nat_text_ascii: "list_all (\<lambda>c. unat c < 128) (nat_text n)"
proof (induction n rule: nat_text.induct)
  case (1 n)
  have "unat (word_of_nat (48 + k) :: u8) < 128" if "k < 10" for k
    using that by (simp add: unat_of_nat take_bit_nat_eq_self del: of_nat_add)
  then show ?case using 1 by (simp add: nat_text.simps [of n] del: of_nat_add)
qed

lemma macro_text_valid:
  "literal_valid l \<Longrightarrow> utf8_valid (literal_text l)" "key_valid k \<Longrightarrow> utf8_valid (macro_key k)"
proof -
  have "utf8_valid (int_text i)" for i
    using nat_text_ascii by (auto simp: int_text_def intro!: utf8_valid_ascii)
  then show lit: "literal_valid l \<Longrightarrow> utf8_valid (literal_text l)" for l by (cases l) auto
  show "key_valid k \<Longrightarrow> utf8_valid (macro_key k)" by (cases k) (auto simp: lit)
qed

lemma macro_valid:
  "tokens_valid t \<Longrightarrow> valid (json_macro t)"
  "member_tokens_valid kts \<Longrightarrow> valid (VObject obj) \<Longrightarrow> valid (VObject (macro_members kts obj))"
  "item_tokens_valid ts \<Longrightarrow> valid_items arr \<Longrightarrow> valid_items (macro_items ts arr)"
  by (induction t and kts obj and ts arr rule: json_macro_macro_members_macro_items.induct)
    (auto simp: macro_text_valid hm_insert_valid hm_insert_distinct)

lemma insert_all_valid:
  "valid_members kvs \<Longrightarrow> valid (VObject obj) \<Longrightarrow>
   valid (VObject (foldl (\<lambda>obj (k, v). hm_insert k v obj) obj kvs))"
  by (induction kvs arbitrary: obj) (auto simp: hm_insert_valid hm_insert_distinct)

lemma merge_valid: "valid a \<Longrightarrow> valid b \<Longrightarrow> valid (json_merge_macro a b)"
  using insert_all_valid by (cases a; cases b) (auto simp: json_merge_macro_def)

lemma update_valid: "valid a \<Longrightarrow> member_tokens_valid kts \<Longrightarrow> valid (json_update_macro a kts)"
  using macro_valid(2) by (cases a) (auto simp: json_update_macro_def)

lemma parse_valid:
  "json_parse lib fuel text s = Some (r, s') \<Longrightarrow> r \<noteq> Panic \<and> (\<forall>v. r = Ok v \<longrightarrow> valid v)"
  using reading_valid(1) [of lib fuel] by (fastforce simp: json_parse_def split: option.splits prod.splits)

text \<open>Macro arguments without interpolated expressions, and values without numbers.\<close>

fun expr_free :: "json_tokens \<Rightarrow> bool"
  and members_expr_free :: "(json_key \<times> json_tokens) list \<Rightarrow> bool"
  and items_expr_free :: "json_tokens list \<Rightarrow> bool" where
  "expr_free (TObject kts) \<longleftrightarrow> members_expr_free kts"
| "expr_free (TArray ts) \<longleftrightarrow> items_expr_free ts"
| "expr_free (TExpr v) \<longleftrightarrow> False"
| "expr_free (TLiteral l) \<longleftrightarrow> True"
| "expr_free TNull \<longleftrightarrow> True"
| "expr_free (TBool b) \<longleftrightarrow> True"
| "members_expr_free [] \<longleftrightarrow> True"
| "members_expr_free ((k, t) # kts) \<longleftrightarrow> expr_free t \<and> members_expr_free kts"
| "items_expr_free [] \<longleftrightarrow> True"
| "items_expr_free (t # ts) \<longleftrightarrow> expr_free t \<and> items_expr_free ts"

fun number_free :: "json_value \<Rightarrow> bool"
  and items_number_free :: "json_value list \<Rightarrow> bool"
  and members_number_free :: "json_object \<Rightarrow> bool" where
  "number_free (VNumber x) \<longleftrightarrow> False"
| "number_free (VArray vs) \<longleftrightarrow> items_number_free vs"
| "number_free (VObject kvs) \<longleftrightarrow> members_number_free kvs"
| "number_free VNull \<longleftrightarrow> True"
| "number_free (VBool b) \<longleftrightarrow> True"
| "number_free (VString t) \<longleftrightarrow> True"
| "items_number_free [] \<longleftrightarrow> True"
| "items_number_free (v # vs) \<longleftrightarrow> number_free v \<and> items_number_free vs"
| "members_number_free [] \<longleftrightarrow> True"
| "members_number_free ((k, v) # kvs) \<longleftrightarrow> number_free v \<and> members_number_free kvs"

lemma number_free_snoc: "items_number_free (vs @ [v]) \<longleftrightarrow> items_number_free vs \<and> number_free v"
  by (induction vs) auto

lemma number_free_insert:
  "members_number_free m \<Longrightarrow> number_free v \<Longrightarrow> members_number_free (hm_insert k v m)"
  by (induction m) auto

lemma macro_number_free:
  "expr_free t \<Longrightarrow> number_free (json_macro t)"
  "members_expr_free kts \<Longrightarrow> members_number_free obj \<Longrightarrow> members_number_free (macro_members kts obj)"
  "items_expr_free ts \<Longrightarrow> items_number_free arr \<Longrightarrow> items_number_free (macro_items ts arr)"
  by (induction t and kts obj and ts arr rule: json_macro_macro_members_macro_items.induct)
    (auto simp: number_free_snoc number_free_insert)

text \<open>\<open>json!\<close> never makes a number of a literal. A number literal is matched by the rule for
  string literals and becomes the string of its digits, so \<open>as_f64\<close> finds nothing, and a document
  written without interpolated expressions contains no number at all.\<close>

theorem json_macro_number_literals:
  "json_macro (TLiteral (LitInt i)) = VString (int_text i) \<and>
   jv_as_f64 (json_macro (TLiteral (LitInt i))) = None \<and>
   (expr_free t \<longrightarrow> number_free (json_macro t))"
  using macro_number_free(1) by simp

text \<open>\<open>json!({"age": 30}).get("age")\<close>, whose \<open>as_f64\<close> the tests expect to be 30.\<close>

theorem json_macro_number_literals_witness:
  "number_free (json_macro (TObject [(KeyLiteral (LitStr (ascii ''age'')), TLiteral (LitInt 30))])) \<and>
   Option.bind (jv_get (json_macro (TObject [(KeyLiteral (LitStr (ascii ''age'')), TLiteral (LitInt 30))]))
     (ascii ''age'')) jv_as_str = Some (ascii ''30'')"
proof -
  have "int_text 30 = ascii ''30''" by (simp add: int_text_def nat_text.simps ascii_def)
  then show ?thesis
    using json_macro_number_literals [of 30
        "TObject [(KeyLiteral (LitStr (ascii ''age'')), TLiteral (LitInt 30))]"]
    by (simp add: jv_get_def)
qed

end
