(* ===== verification/Ownership.thy ===== *)
theory Ownership
  imports Prelude
begin

text \<open>
  Memory that Rust code hands to C and has to take back: allocations of the global allocator
  with explicit addresses, and tables of objects that own allocations. Address 0 is the null
  pointer. Releasing a pointer that is not allocated (a double free, or a pointer that never came
  from the allocator) is \<open>Panic\<close>. The locale \<open>owner\<close> states what an object promises about the
  allocations it owns; from it follow, once, that inserting into, removing from and dropping a
  map of such objects never frees twice, never frees what another entry owns, and leaks nothing.
\<close>

section \<open>The allocator\<close>

record 'b heap =
  cells :: "nat \<Rightarrow> 'b option"
  fresh :: nat

definition heap_empty :: "'b heap" where
  "heap_empty = \<lparr>cells = \<lambda>_. None, fresh = 1\<rparr>"

definition heap_ok :: "'b heap \<Rightarrow> bool" where
  "heap_ok h \<longleftrightarrow> 0 < fresh h \<and> cells h 0 = None \<and> (\<forall>p \<ge> fresh h. cells h p = None)"

abbreviation live :: "'b heap \<Rightarrow> nat set" where
  "live h \<equiv> dom (cells h)"

text \<open>\<open>Box::into_raw(Box::new(b))\<close>: a new address.\<close>

definition h_alloc :: "'b \<Rightarrow> 'b heap \<Rightarrow> nat \<times> 'b heap" where
  "h_alloc b h = (fresh h, h\<lparr>cells := (cells h)(fresh h \<mapsto> b), fresh := Suc (fresh h)\<rparr>)"

text \<open>\<open>drop(Box::from_raw(p))\<close>\<close>

definition h_free :: "nat \<Rightarrow> 'b heap \<Rightarrow> ('b heap, 'e) res" where
  "h_free p h =
     (if cells h p = None then Panic else Ok (h\<lparr>cells := (cells h)(p := None)\<rparr>))"

definition release :: "nat set \<Rightarrow> 'b heap \<Rightarrow> 'b heap" where
  "release P h = h\<lparr>cells := (cells h) |` (- P)\<rparr>"

named_theorems heap_simps \<open>allocation and release\<close>

lemma heap_empty_ok [simp]: "heap_ok heap_empty" "live heap_empty = {}"
  by (auto simp: heap_ok_def heap_empty_def)

lemma heap_ok_fresh: "heap_ok h \<Longrightarrow> fresh h \<notin> live h" "heap_ok h \<Longrightarrow> 0 \<notin> live h"
  "heap_ok h \<Longrightarrow> 0 < fresh h"
  by (auto simp: heap_ok_def domIff)

lemma h_alloc_ok:
  assumes "heap_ok h" and "h_alloc b h = (p, h')"
  shows "heap_ok h'" "live h' = insert p (live h)" "p \<notin> live h" "0 < p" "cells h' p = Some b"
    "\<And>q. q \<noteq> p \<Longrightarrow> cells h' q = cells h q"
  using assms by (auto simp: h_alloc_def heap_ok_def)

lemma h_allocE:
  assumes "heap_ok h"
  obtains p h' where "h_alloc b h = (p, h')" "heap_ok h'" "live h' = insert p (live h)" "p \<notin> live h" "0 < p" "cells h' = (cells h)(p \<mapsto> b)"
proof -
  obtain p h' where a: "h_alloc b h = (p, h')" by fastforce
  have "cells h' = (cells h)(p \<mapsto> b)" using a by (auto simp: h_alloc_def)
  then show thesis using that [OF a] h_alloc_ok [OF assms a] by simp
qed

lemma release_cells [heap_simps]:
  "cells (release P h) p = (if p \<in> P then None else cells h p)"
  by (simp add: release_def restrict_map_def)

lemma live_release [heap_simps]: "live (release P h) = live h - P"
  by (auto simp: release_def)

lemma release_ok [heap_simps]: "heap_ok h \<Longrightarrow> heap_ok (release P h)"
  by (auto simp: heap_ok_def release_def restrict_map_def)

lemma release_empty [simp]: "release {} h = h"
  by (simp add: release_def restrict_map_def)

lemma release_release [heap_simps]: "release P (release Q h) = release (Q \<union> P) h"
  by (simp add: release_def restrict_map_def fun_eq_iff)

lemma h_free_live: "p \<in> live h \<Longrightarrow> h_free p h = Ok (release {p} h)"
  by (auto simp: h_free_def release_def restrict_map_def fun_eq_iff)

section \<open>Layouts and calls into C\<close>

text \<open>\<open>usize::is_power_of_two\<close>\<close>

definition is_power_of_two :: "nat \<Rightarrow> bool" where
  "is_power_of_two n \<longleftrightarrow> n \<in> set (map (\<lambda>k. 2 ^ k) [0..<64])"

text \<open>\<open>Layout::from_size_align\<close>: the size rounded up to the alignment must not exceed \<open>isize::MAX\<close>.\<close>

definition layout_ok :: "nat \<Rightarrow> nat \<Rightarrow> bool" where
  "layout_ok sz align \<longleftrightarrow> is_power_of_two align \<and> sz + align \<le> 2 ^ 63"

text \<open>
  A C function that changes the state of its library; \<open>None\<close> is a call outside its contract, which is
  undefined behaviour and ends the model's run with \<open>Panic\<close>.
\<close>

definition ffi :: "('x \<times> 's) option \<Rightarrow> ('x \<Rightarrow> 's \<Rightarrow> ('a, 'e) res \<times> 's) \<Rightarrow> 's \<Rightarrow> ('a, 'e) res \<times> 's" where
  "ffi call k s = (case call of Some (x, s') \<Rightarrow> k x s' | None \<Rightarrow> (Panic, s))"

lemma ffi_simps [simp]: "ffi (Some (x, s')) k s = k x s'" "ffi None k s = (Panic, s)"
  by (simp_all add: ffi_def)

section \<open>Maps of owning objects\<close>

text \<open>
  \<open>BTreeMap<K, V>\<close> as an association list with one entry per key (the order of the entries is
  not observable here); a value that an insertion replaces and the values of a dropped map run
  their destructor.
\<close>

definition table_put ::
  "('v \<Rightarrow> 'b heap \<Rightarrow> ('b heap, 'e) res) \<Rightarrow> 'k \<Rightarrow> 'v \<Rightarrow> ('k \<times> 'v) list \<Rightarrow> 'b heap \<Rightarrow>
   (('k \<times> 'v) list \<times> 'b heap, 'e) res" where
  "table_put dispose k v t h =
     (let t' = (k, v) # filter (\<lambda>e. fst e \<noteq> k) t
      in case map_of t k of
           None \<Rightarrow> Ok (t', h)
         | Some old \<Rightarrow> res_bind (dispose old h) (\<lambda>h. Ok (t', h)))"

definition table_remove ::
  "('v \<Rightarrow> 'b heap \<Rightarrow> ('b heap, 'e) res) \<Rightarrow> 'k \<Rightarrow> ('k \<times> 'v) list \<Rightarrow> 'b heap \<Rightarrow>
   (('k \<times> 'v) list \<times> 'b heap, 'e) res" where
  "table_remove dispose k t h =
     (case map_of t k of
        None \<Rightarrow> Ok (t, h)
      | Some old \<Rightarrow> res_bind (dispose old h) (\<lambda>h. Ok (filter (\<lambda>e. fst e \<noteq> k) t, h)))"

fun table_drop ::
  "('v \<Rightarrow> 'b heap \<Rightarrow> ('b heap, 'e) res) \<Rightarrow> ('k \<times> 'v) list \<Rightarrow> 'b heap \<Rightarrow> ('b heap, 'e) res" where
  "table_drop dispose [] h = Ok h"
| "table_drop dispose ((k, v) # t) h = res_bind (dispose v h) (table_drop dispose t)"

lemma map_of_filter_key: "map_of (filter (\<lambda>e. fst e \<noteq> k) t) j = (if j = k then None else map_of t j)"
  by (induction t) auto

lemma distinct_fst_filter: "distinct (map fst t) \<Longrightarrow> distinct (map fst (filter P t))"
  by (induction t) auto

text \<open>All allocations owned by the entries of a table, and the part one key accounts for.\<close>

definition owned :: "('v \<Rightarrow> nat list) \<Rightarrow> ('k \<times> 'v) list \<Rightarrow> nat list" where
  "owned ptrs t = concat (map (ptrs \<circ> snd) t)"

lemma owned_Nil [simp]: "owned ptrs [] = []"
  and owned_Cons [simp]: "owned ptrs (e # t) = ptrs (snd e) @ owned ptrs t"
  by (simp_all add: owned_def)

lemma owned_member: "(k, v) \<in> set t \<Longrightarrow> set (ptrs v) \<subseteq> set (owned ptrs t)"
  by (force simp: owned_def)

lemma owned_filter: "set (owned ptrs (filter P t)) \<subseteq> set (owned ptrs t)"
  by (auto simp: owned_def)

lemma distinct_owned_filter: "distinct (owned ptrs t) \<Longrightarrow> distinct (owned ptrs (filter P t))"
proof (induction t)
  case (Cons e t)
  then show ?case using owned_filter [of ptrs P t] by auto
qed simp

lemma filter_key_absent: "k \<notin> fst ` set t \<Longrightarrow> filter (\<lambda>e. fst e \<noteq> k) t = t"
  by (auto simp: filter_id_conv image_iff)

lemma owned_without:
  assumes "distinct (map fst t)" and "distinct (owned ptrs t)" and "map_of t k = Some v"
  shows "set (owned ptrs (filter (\<lambda>e. fst e \<noteq> k) t)) = set (owned ptrs t) - set (ptrs v)"
  using assms
proof (induction t)
  case (Cons e t)
  show ?case
  proof (cases "fst e = k")
    case True
    then have "k \<notin> fst ` set t" using Cons.prems(1) by (cases e) auto
    then show ?thesis using True Cons.prems by (cases e) (auto simp: filter_key_absent)
  next
    case False
    then have k: "map_of t k = Some v" using Cons.prems(3) by (cases e) auto
    then have "(k, v) \<in> set t" by (rule map_of_SomeD)
    then have "set (ptrs (snd e)) \<inter> set (ptrs v) = {}"
      using Cons.prems(2) owned_member [of k v t ptrs] by auto
    then show ?thesis using False Cons.IH Cons.prems k by auto
  qed
qed simp

locale owner =
  fixes ptrs :: "'o \<Rightarrow> nat list"
    and good :: "'o \<Rightarrow> 'b heap \<Rightarrow> bool"
    and dispose :: "'o \<Rightarrow> 'b heap \<Rightarrow> ('b heap, 'e) res"
  assumes good_distinct: "good v h \<Longrightarrow> distinct (ptrs v)"
    and good_live: "good v h \<Longrightarrow> set (ptrs v) \<subseteq> live h"
    and good_frame: "good v h \<Longrightarrow> (\<And>p. p \<in> set (ptrs v) \<Longrightarrow> cells h' p = cells h p) \<Longrightarrow> good v h'"
    and dispose_good: "good v h \<Longrightarrow> dispose v h = Ok (release (set (ptrs v)) h)"
begin

text \<open>
  Every entry is intact, no two share an allocation, and the table accounts for everything that
  is allocated outside \<open>F\<close>.
\<close>

definition table_ok :: "nat set \<Rightarrow> ('k \<times> 'o) list \<Rightarrow> 'b heap \<Rightarrow> bool" where
  "table_ok F t h \<longleftrightarrow> distinct (map fst t) \<and> (\<forall>e \<in> set t. good (snd e) h) \<and>
     distinct (owned ptrs t) \<and> F \<inter> set (owned ptrs t) = {} \<and> live h = F \<union> set (owned ptrs t)"

lemma table_ok_empty: "live h = F \<Longrightarrow> table_ok F [] h"
  by (simp add: table_ok_def)

lemma table_ok_entry: "table_ok F t h \<Longrightarrow> map_of t k = Some v \<Longrightarrow> good v h"
  unfolding table_ok_def by (metis map_of_SomeD snd_conv)

lemma table_ok_without:
  assumes ok: "table_ok F t h" and k: "map_of t k = Some v"
  shows "dispose v h = Ok (release (set (ptrs v)) h)"
    and "table_ok F (filter (\<lambda>e. fst e \<noteq> k) t) (release (set (ptrs v)) h)"
    and "\<And>p. p \<notin> set (ptrs v) \<Longrightarrow> cells (release (set (ptrs v)) h) p = cells h p"
proof -
  let ?t = "filter (\<lambda>e. fst e \<noteq> k) t"
  note t = ok [unfolded table_ok_def]
  have o: "set (owned ptrs ?t) = set (owned ptrs t) - set (ptrs v)"
    using t k by (simp add: owned_without)
  have vs: "set (ptrs v) \<subseteq> set (owned ptrs t)" using k by (meson map_of_SomeD owned_member)
  have "good (snd e) (release (set (ptrs v)) h)" if e: "e \<in> set ?t" for e
  proof (rule good_frame)
    show "good (snd e) h" using e t by auto
    fix p assume "p \<in> set (ptrs (snd e))"
    then have "p \<in> set (owned ptrs ?t)" using e owned_member [of "fst e" "snd e" ?t ptrs] by auto
    then show "cells (release (set (ptrs v)) h) p = cells h p" by (simp add: o heap_simps)
  qed
  then show "table_ok F ?t (release (set (ptrs v)) h)"
    using t o vs
    by (auto simp: table_ok_def heap_simps distinct_fst_filter distinct_owned_filter simp del: dom_def)
  show "dispose v h = Ok (release (set (ptrs v)) h)"
    by (rule dispose_good) (rule table_ok_entry [OF ok k])
qed (simp add: heap_simps)

text \<open>A new object whose allocations are not yet in the table.\<close>

lemma table_ok_extend:
  assumes ok: "table_ok F t h" and g: "good v h'"
    and new: "live h' = live h \<union> set (ptrs v)" "live h \<inter> set (ptrs v) = {}"
    and same: "\<And>p. p \<in> live h \<Longrightarrow> cells h' p = cells h p" and k: "k \<notin> fst ` set t"
  shows "table_ok F ((k, v) # t) h'"
proof -
  note t = ok [unfolded table_ok_def]
  have "good (snd e) h'" if "e \<in> set t" for e
  proof (rule good_frame)
    show "good (snd e) h" using that t by auto
    fix p assume "p \<in> set (ptrs (snd e))"
    then have "p \<in> live h" using good_live that t by blast
    then show "cells h' p = cells h p" by (rule same)
  qed
  moreover have "F \<inter> set (ptrs v) = {}" "set (ptrs v) \<inter> set (owned ptrs t) = {}"
    using t new by blast+
  ultimately show ?thesis
    using t g k good_distinct [OF g] new by (auto simp: table_ok_def simp del: dom_def)
qed

theorem table_put_ok:
  assumes ok: "table_ok F t h" and g: "good v h'"
    and new: "live h' = live h \<union> set (ptrs v)" "live h \<inter> set (ptrs v) = {}"
    and same: "\<And>p. p \<in> live h \<Longrightarrow> cells h' p = cells h p"
  shows "\<exists>h''. table_put dispose k v t h' = Ok ((k, v) # filter (\<lambda>e. fst e \<noteq> k) t, h'') \<and>
      table_ok F ((k, v) # filter (\<lambda>e. fst e \<noteq> k) t) h'' \<and> (heap_ok h' \<longrightarrow> heap_ok h'') \<and>
      (\<forall>w. \<forall>p \<in> set (ptrs w). (w = v \<or> (\<exists>j. j \<noteq> k \<and> map_of t j = Some w)) \<longrightarrow> cells h'' p = cells h' p)"
proof (cases "map_of t k")
  case None
  then have "k \<notin> fst ` set t" by (simp add: map_of_eq_None_iff)
  then show ?thesis
    using table_ok_extend [OF ok g new same] None
    by (intro exI [of _ h']) (simp add: table_put_def filter_key_absent)
next
  case (Some old)
  let ?h = "release (set (ptrs old)) h'"
  note t = ok [unfolded table_ok_def]
  have old: "good old h" by (rule table_ok_entry [OF ok Some])
  have "good old h'"
    by (rule good_frame [OF old]) (use good_live [OF old] same in blast)
  then have d: "dispose old h' = Ok ?h" by (rule dispose_good)
  have ol: "set (ptrs old) \<subseteq> live h" by (rule good_live [OF old])
  have "table_ok F ((k, v) # filter (\<lambda>e. fst e \<noteq> k) t) ?h"
  proof (rule table_ok_extend [OF table_ok_without(2) [OF ok Some]])
    show "good v ?h"
      by (rule good_frame [OF g]) (use ol new(2) in \<open>auto simp: heap_simps\<close>)
    show "live ?h = live (release (set (ptrs old)) h) \<union> set (ptrs v)"
      using ol new by (auto simp: heap_simps simp del: dom_def)
    show "live (release (set (ptrs old)) h) \<inter> set (ptrs v) = {}"
      using new(2) by (auto simp: heap_simps simp del: dom_def)
    fix p assume "p \<in> live (release (set (ptrs old)) h)"
    then have "p \<in> live h" "p \<notin> set (ptrs old)" by (auto simp: heap_simps simp del: dom_def)
    then show "cells ?h p = cells (release (set (ptrs old)) h) p" by (simp add: heap_simps same)
  qed auto
  moreover have "cells ?h p = cells h' p"
    if pw: "p \<in> set (ptrs w)" and w: "w = v \<or> (\<exists>j. j \<noteq> k \<and> map_of t j = Some w)" for w p
  proof -
    have "p \<notin> set (ptrs old)"
    proof (cases "w = v")
      case True
      then show ?thesis using pw ol new(2) by auto
    next
      case False
      then obtain j where "j \<noteq> k" "map_of t j = Some w" using w by auto
      then have "(j, w) \<in> set (filter (\<lambda>e. fst e \<noteq> k) t)" by (auto dest: map_of_SomeD)
      then have "p \<in> set (owned ptrs (filter (\<lambda>e. fst e \<noteq> k) t))"
        using pw by (meson owned_member subset_iff)
      moreover have "set (owned ptrs (filter (\<lambda>e. fst e \<noteq> k) t)) = set (owned ptrs t) - set (ptrs old)"
        by (rule owned_without) (use t Some in auto)
      ultimately show ?thesis by auto
    qed
    then show ?thesis by (simp add: heap_simps)
  qed
  ultimately show ?thesis
    using d Some by (intro exI [of _ ?h]) (auto simp: table_put_def release_ok)
qed

theorem table_remove_ok:
  assumes ok: "table_ok F t h"
  shows "\<exists>h'. table_remove dispose k t h = Ok (filter (\<lambda>e. fst e \<noteq> k) t, h') \<and>
      table_ok F (filter (\<lambda>e. fst e \<noteq> k) t) h' \<and> (heap_ok h \<longrightarrow> heap_ok h') \<and>
      (\<forall>j v. \<forall>p \<in> set (ptrs v). j \<noteq> k \<and> map_of t j = Some v \<longrightarrow> cells h' p = cells h p)"
proof (cases "map_of t k")
  case None
  then have "k \<notin> fst ` set t" by (simp add: map_of_eq_None_iff)
  then show ?thesis using ok None
    by (intro exI [of _ h]) (simp add: table_remove_def filter_key_absent)
next
  case (Some old)
  let ?h = "release (set (ptrs old)) h"
  note w = table_ok_without [OF ok Some] and t = ok [unfolded table_ok_def]
  have "cells ?h p = cells h p" if "p \<in> set (ptrs v)" "j \<noteq> k" "map_of t j = Some v" for j v p
  proof -
    have "(j, v) \<in> set (filter (\<lambda>e. fst e \<noteq> k) t)" using that by (auto dest: map_of_SomeD)
    then have "p \<in> set (owned ptrs (filter (\<lambda>e. fst e \<noteq> k) t))"
      using that(1) by (meson owned_member subset_iff)
    moreover have "set (owned ptrs (filter (\<lambda>e. fst e \<noteq> k) t)) = set (owned ptrs t) - set (ptrs old)"
      by (rule owned_without) (use t Some in auto)
    ultimately show ?thesis by (simp add: heap_simps)
  qed
  then show ?thesis using w(1,2) Some by (intro exI [of _ ?h]) (auto simp: table_remove_def release_ok)
qed

theorem table_drop_ok:
  "table_ok F t h \<Longrightarrow> \<exists>h'. table_drop dispose t h = Ok h' \<and> live h' = F"
proof (induction t arbitrary: h)
  case Nil
  then show ?case by (simp add: table_ok_def)
next
  case (Cons e t)
  obtain k v where e: "e = (k, v)" by (cases e)
  then have k: "map_of (e # t) k = Some v" by simp
  have "k \<notin> fst ` set t" using Cons.prems e by (auto simp: table_ok_def)
  then have "filter (\<lambda>e. fst e \<noteq> k) (e # t) = t" using e by (simp add: filter_key_absent)
  then have "table_ok F t (release (set (ptrs v)) h)"
    using table_ok_without(2) [OF Cons.prems k] by simp
  from Cons.IH [OF this] show ?case
    using table_ok_without(1) [OF Cons.prems k] e by auto
qed

end

end
