(* ===== verification/Rust_Std.thy ===== *)
theory Rust_Std
  imports Json_Access
begin

text \<open>
  What several crates use of Rust's standard library beside the \<open>str\<close> functions of
  \<open>Json_Access\<close>: lossy UTF-8 decoding, C strings, ASCII case, and the idiom that rounds an address up
  to a power of two.
\<close>

unbundle bit_operations_syntax

section \<open>Text\<close>

text \<open>
  \<open>String::from_utf8_lossy\<close>: every maximal prefix of a well-formed sequence that is not continued, and
  every byte that starts none, becomes U+FFFD.
\<close>

definition replacement :: bytes where
  "replacement = [0xEF, 0xBF, 0xBD]"

definition utf8_second :: "nat \<Rightarrow> u8 \<Rightarrow> bool" where
  "utf8_second n b \<longleftrightarrow> utf8_cont b \<and> (n = 0xE0 \<longrightarrow> 0xA0 \<le> unat b) \<and> (n = 0xED \<longrightarrow> unat b \<le> 0x9F) \<and>
     (n = 0xF0 \<longrightarrow> 0x90 \<le> unat b) \<and> (n = 0xF4 \<longrightarrow> unat b \<le> 0x8F)"

fun from_utf8_lossy :: "bytes \<Rightarrow> bytes" where
  "from_utf8_lossy [] = []"
| "from_utf8_lossy (a # s) =
     (let n = unat a
      in if n < 0x80 then a # from_utf8_lossy s
         else if 0xC2 \<le> n \<and> n \<le> 0xDF then
           (case s of b # t \<Rightarrow> if utf8_cont b then a # b # from_utf8_lossy t
                             else replacement @ from_utf8_lossy s
            | [] \<Rightarrow> replacement)
         else if 0xE0 \<le> n \<and> n \<le> 0xEF then
           (case s of b # t \<Rightarrow>
              if \<not> utf8_second n b then replacement @ from_utf8_lossy s
              else (case t of c # u \<Rightarrow>
                  if utf8_cont c then a # b # c # from_utf8_lossy u
                  else replacement @ from_utf8_lossy t
                | [] \<Rightarrow> replacement)
            | [] \<Rightarrow> replacement)
         else if 0xF0 \<le> n \<and> n \<le> 0xF4 then
           (case s of b # t \<Rightarrow>
              if \<not> utf8_second n b then replacement @ from_utf8_lossy s
              else (case t of c # u \<Rightarrow>
                  if \<not> utf8_cont c then replacement @ from_utf8_lossy t
                  else (case u of d # v \<Rightarrow>
                      if utf8_cont d then a # b # c # d # from_utf8_lossy v
                      else replacement @ from_utf8_lossy u
                    | [] \<Rightarrow> replacement)
                | [] \<Rightarrow> replacement)
            | [] \<Rightarrow> replacement)
         else replacement @ from_utf8_lossy s)"

lemma from_utf8_lossy_valid: "utf8_valid s \<Longrightarrow> from_utf8_lossy s = s"
proof (induction s rule: utf8_valid.induct)
  case (2 a s)
  show ?case using "2.prems" unfolding from_utf8_lossy.simps(2) utf8_valid.simps(2)
    by (auto simp: Let_def utf8_second_def "2.IH"
        simp del: from_utf8_lossy.simps utf8_valid.simps split: if_splits list.splits)
qed simp

lemma utf8_valid_7bit: "(\<And>c. c \<in> set s \<Longrightarrow> unat c < 128) \<Longrightarrow> utf8_valid s"
  by (induction s) auto

text \<open>\<open>CString::new\<close> refuses a zero byte; \<open>CStr::from_ptr\<close> reads up to the first one.\<close>

definition cstring_new :: "bytes \<Rightarrow> bytes option" where
  "cstring_new s = (if 0 \<in> set s then None else Some (s @ [0]))"

definition cstr_bytes :: "bytes \<Rightarrow> bytes" where
  "cstr_bytes b = takeWhile (\<lambda>c. c \<noteq> 0) b"

lemma cstr_bytes_terminated [simp]: "0 \<notin> set s \<Longrightarrow> cstr_bytes (s @ 0 # r) = s"
  unfolding cstr_bytes_def by (subst takeWhile_append2) auto

lemma cstr_bytes_zero [simp]: "cstr_bytes (0 # r) = []"
  by (simp add: cstr_bytes_def)

lemma cstring_new_Some: "cstring_new s = Some b \<longleftrightarrow> 0 \<notin> set s \<and> b = s @ [0]"
  by (auto simp: cstring_new_def)

section \<open>Alignment\<close>

text \<open>\<open>(ptr + align - 1) & !(align - 1)\<close> at the width of \<open>usize\<close>\<close>

definition align_up :: "u64 \<Rightarrow> u64 \<Rightarrow> u64" where
  "align_up p a = (p + a - 1) AND NOT (a - 1)"

lemma unat_exp:
  assumes "k < LENGTH('a)"
  shows "unat (2 ^ k :: 'a::len word) = 2 ^ k"
proof -
  have "take_bit LENGTH('a) ((2::nat) ^ k) = 2 ^ k" using assms by (intro take_bit_nat_eq_self) simp
  then have "unat (word_of_nat (2 ^ k) :: 'a word) = 2 ^ k" by (simp only: unsigned_of_nat of_nat_id)
  then show ?thesis by simp
qed

lemma unat_clear_low:
  fixes x :: u64
  assumes "k < 64"
  shows "unat (x AND NOT (2 ^ k - 1)) = 2 ^ k * (unat x div 2 ^ k)"
proof -
  have "x AND NOT (2 ^ k - 1) = push_bit k (drop_bit k x)"
    by (rule bit_eqI) (auto simp: bit_simps mask_eq_exp_minus_1 [symmetric])
  moreover have "push_bit k (drop_bit k x) = x - take_bit k x"
    using bits_ident [of k x] by (metis add_diff_cancel_right')
  moreover have "unat (take_bit k x) = unat x mod 2 ^ k"
    by (subst unsigned_take_bit_eq) (simp add: take_bit_eq_mod)
  moreover have "unat (x - take_bit k x) = unat x - unat (take_bit k x)"
    by (rule unat_sub) (simp add: word_le_nat_alt calculation)
  ultimately show ?thesis by (simp add: minus_mod_eq_mult_div)
qed

lemma align_up_bounds:
  assumes a: "a = 2 ^ k" "k < 64" and nw: "unat p + unat a \<le> 2 ^ 64"
  shows "unat a dvd unat (align_up p a)" "unat p \<le> unat (align_up p a)"
    "unat (align_up p a) < unat p + unat a"
proof -
  let ?a = "2 ^ k :: nat"
  have ua: "unat a = ?a" using a by (simp add: unat_exp)
  have "unat (p + a - 1) = unat p + ?a - 1"
  proof -
    have "unat (a - 1) = ?a - 1" using ua a by (subst unat_sub) (simp_all add: word_le_nat_alt)
    moreover have "unat p + unat (a - 1) < 2 ^ 64" using calculation nw ua by (simp add: less_eq_Suc_le)
    ultimately have "unat (p + (a - 1)) = unat p + (?a - 1)"
      by (subst unat_add_lem [THEN iffD1]) simp_all
    then show ?thesis by (simp add: add_diff_eq)
  qed
  then have r: "unat (align_up p a) = ?a * ((unat p + ?a - 1) div ?a)"
    unfolding align_up_def a(1) by (simp add: unat_clear_low [OF a(2)])
  then show "unat a dvd unat (align_up p a)" by (simp add: ua)
  have "unat p + ?a - 1 = ?a * ((unat p + ?a - 1) div ?a) + (unat p + ?a - 1) mod ?a" by simp
  moreover have "(unat p + ?a - 1) mod ?a < ?a" by simp
  moreover have "1 \<le> ?a" by simp
  ultimately show "unat p \<le> unat (align_up p a)" "unat (align_up p a) < unat p + unat a"
    unfolding r ua by linarith+
qed

end
