(* ===== verification/Http_Server.thy ===== *)
theory Http_Server
  imports Ownership Rust_Std
begin

text \<open>
  The HTTP server of \<open>waltz/http/fd_http/src/lib.rs\<close>: methods and close reasons, responses, the
  server parameters, the functions the C server calls back, the hand-over of a Rust response to C
  memory with its later release, and the life of \<open>Server\<close>. The C server is a parameter: its
  constants and entry points are the record \<open>http_lib\<close>, and what it does between the callbacks is
  the environment of the step relation in \<open>Http_Server_Props\<close>.
\<close>

section \<open>Errors, methods and close reasons\<close>

datatype server_error = InvalidParameter bytes | AllocationFailed | SocketError bytes |
  AlreadyListening | NotListening | ParseError bytes | WebSocketError bytes | BufferOverflow |
  ConnectionLimitExceeded | InvalidMethod | InvalidUrl | Unknown bytes

datatype http_method = Get | Post | Put | Delete | Head | Options | Patch

datatype close_reason = ReasonOk | ReasonPeerClose | ReasonError | ReasonTimeout

record server_params =
  max_connection_cnt :: u64
  max_ws_connection_cnt :: u64
  max_request_len :: u64
  max_ws_recv_frame_len :: u64
  max_ws_send_frame_cnt :: u64
  outgoing_buffer_sz :: u64

text \<open>
  The generated bindings and the C server. Addresses are 64-bit words, 0 is the null pointer;
  \<open>c_listen\<close> tells whether a non-null pointer came back.
\<close>

record http_lib =
  METHOD_GET :: u8
  METHOD_POST :: u8
  METHOD_PUT :: u8
  METHOD_OPTIONS :: u8
  CLOSE_OK :: int
  CLOSE_PEER_RESET :: int
  CLOSE_TOO_SLOW :: int
  CLOSE_BAD_REQUEST :: int
  c_method_str :: "u8 \<Rightarrow> bytes option"
  c_close_reason_str :: "int \<Rightarrow> bytes option"
  c_align :: u64
  c_footprint :: "server_params \<Rightarrow> u64"
  c_new :: "u64 \<Rightarrow> server_params \<Rightarrow> u64"
  c_join :: "u64 \<Rightarrow> u64"
  c_listen :: "u64 \<Rightarrow> u32 \<Rightarrow> u16 \<Rightarrow> bool"

definition method_from_raw :: "http_lib \<Rightarrow> u8 \<Rightarrow> http_method option" where
  "method_from_raw lib x =
     (if x = METHOD_GET lib then Some Get
      else if x = METHOD_POST lib then Some Post
      else if x = METHOD_PUT lib then Some Put
      else if x = METHOD_OPTIONS lib then Some Options
      else None)"

fun method_to_raw :: "http_lib \<Rightarrow> http_method \<Rightarrow> u8" where
  "method_to_raw lib Get = METHOD_GET lib"
| "method_to_raw lib Post = METHOD_POST lib"
| "method_to_raw lib Put = METHOD_PUT lib"
| "method_to_raw lib Options = METHOD_OPTIONS lib"
| "method_to_raw lib Delete = 255"
| "method_to_raw lib Head = 255"
| "method_to_raw lib Patch = 255"

text \<open>\<open>if ptr.is_null() { "UNKNOWN" } else { CStr::from_ptr(ptr).to_str().unwrap_or("UNKNOWN") }\<close>\<close>

definition c_name_or_unknown :: "bytes option \<Rightarrow> bytes" where
  "c_name_or_unknown p =
     (case p of
        None \<Rightarrow> ascii ''UNKNOWN''
      | Some s \<Rightarrow> (case from_utf8 s of Some t \<Rightarrow> t | None \<Rightarrow> ascii ''UNKNOWN''))"

definition method_as_str :: "http_lib \<Rightarrow> http_method \<Rightarrow> bytes" where
  "method_as_str lib m = c_name_or_unknown (c_method_str lib (method_to_raw lib m))"

definition reason_from_raw :: "http_lib \<Rightarrow> int \<Rightarrow> close_reason option" where
  "reason_from_raw lib reason =
     (if reason = CLOSE_OK lib then Some ReasonOk
      else if reason = CLOSE_PEER_RESET lib then Some ReasonPeerClose
      else if reason = CLOSE_TOO_SLOW lib then Some ReasonTimeout
      else if reason < 0 then Some ReasonError
      else None)"

fun reason_to_raw :: "http_lib \<Rightarrow> close_reason \<Rightarrow> int" where
  "reason_to_raw lib ReasonOk = CLOSE_OK lib"
| "reason_to_raw lib ReasonPeerClose = CLOSE_PEER_RESET lib"
| "reason_to_raw lib ReasonError = CLOSE_BAD_REQUEST lib"
| "reason_to_raw lib ReasonTimeout = CLOSE_TOO_SLOW lib"

definition reason_as_str :: "http_lib \<Rightarrow> close_reason \<Rightarrow> bytes" where
  "reason_as_str lib r = c_name_or_unknown (c_close_reason_str lib (reason_to_raw lib r))"

section \<open>Requests and responses\<close>

record request =
  rq_method :: http_method
  rq_path :: bytes
  rq_headers :: "(bytes \<times> bytes) list"
  rq_body :: bytes

record response =
  rs_status :: u16
  rs_headers :: "(bytes \<times> bytes) list"
  rs_body :: bytes

definition response_new :: "u16 \<Rightarrow> response" where
  "response_new status = \<lparr>rs_status = status, rs_headers = [], rs_body = []\<rparr>"

definition response_header :: "response \<Rightarrow> bytes \<Rightarrow> bytes \<Rightarrow> response" where
  "response_header r key val = r\<lparr>rs_headers := rs_headers r @ [(key, val)]\<rparr>"

definition response_body :: "response \<Rightarrow> bytes \<Rightarrow> response" where
  "response_body r b = r\<lparr>rs_body := b\<rparr>"

definition response_text :: "response \<Rightarrow> bytes \<Rightarrow> response" where
  "response_text r t = r\<lparr>rs_body := t\<rparr>"

definition response_ok :: response where
  "response_ok = response_new 200"

definition response_not_found :: response where
  "response_not_found = response_text (response_new 404) (ascii ''Not Found'')"

definition response_internal_error :: response where
  "response_internal_error = response_text (response_new 500) (ascii ''Internal Server Error'')"

text \<open>
  The trait \<open>ServerCallbacks\<close>: functions over the state of the implementing type. The default
  bodies of the trait leave the state alone; \<open>DefaultCallbacks\<close> answers 404.
\<close>

record 'c server_callbacks =
  on_request :: "'c \<Rightarrow> u64 \<Rightarrow> request \<Rightarrow> response \<times> 'c"
  on_ws_connect :: "'c \<Rightarrow> u64 \<Rightarrow> bytes \<Rightarrow> bool \<times> 'c"
  on_ws_message :: "'c \<Rightarrow> u64 \<Rightarrow> bytes \<Rightarrow> 'c"
  on_ws_close :: "'c \<Rightarrow> u64 \<Rightarrow> close_reason \<Rightarrow> 'c"
  on_connection_close :: "'c \<Rightarrow> u64 \<Rightarrow> close_reason \<Rightarrow> 'c"

definition trait_defaults :: "('c \<Rightarrow> u64 \<Rightarrow> request \<Rightarrow> response \<times> 'c) \<Rightarrow> 'c server_callbacks" where
  "trait_defaults f = \<lparr>on_request = f, on_ws_connect = \<lambda>c _ _. (False, c),
     on_ws_message = \<lambda>c _ _. c, on_ws_close = \<lambda>c _ _. c, on_connection_close = \<lambda>c _ _. c\<rparr>"

definition default_callbacks :: "unit server_callbacks" where
  "default_callbacks = trait_defaults (\<lambda>c _ _. (response_not_found, c))"

section \<open>Server parameters\<close>

text \<open>\<open>ServerParamsBuilder\<close> has the same fields; \<open>build\<close> and \<open>to_raw\<close> copy them one by one.\<close>

definition params_builder_new :: server_params where
  "params_builder_new = \<lparr>max_connection_cnt = 1024, max_ws_connection_cnt = 512, max_request_len = 8192,
     max_ws_recv_frame_len = 8192, max_ws_send_frame_cnt = 256, outgoing_buffer_sz = 65536\<rparr>"

definition set_max_connection_cnt :: "server_params \<Rightarrow> u64 \<Rightarrow> server_params" where
  "set_max_connection_cnt b n = b\<lparr>max_connection_cnt := n\<rparr>"

definition set_max_ws_connection_cnt :: "server_params \<Rightarrow> u64 \<Rightarrow> server_params" where
  "set_max_ws_connection_cnt b n = b\<lparr>max_ws_connection_cnt := n\<rparr>"

definition set_max_request_len :: "server_params \<Rightarrow> u64 \<Rightarrow> server_params" where
  "set_max_request_len b n = b\<lparr>max_request_len := n\<rparr>"

definition set_max_ws_recv_frame_len :: "server_params \<Rightarrow> u64 \<Rightarrow> server_params" where
  "set_max_ws_recv_frame_len b n = b\<lparr>max_ws_recv_frame_len := n\<rparr>"

definition set_max_ws_send_frame_cnt :: "server_params \<Rightarrow> u64 \<Rightarrow> server_params" where
  "set_max_ws_send_frame_cnt b n = b\<lparr>max_ws_send_frame_cnt := n\<rparr>"

definition set_outgoing_buffer_sz :: "server_params \<Rightarrow> u64 \<Rightarrow> server_params" where
  "set_outgoing_buffer_sz b n = b\<lparr>outgoing_buffer_sz := n\<rparr>"

definition params_build :: "server_params \<Rightarrow> server_params" where
  "params_build b = \<lparr>max_connection_cnt = max_connection_cnt b,
     max_ws_connection_cnt = max_ws_connection_cnt b, max_request_len = max_request_len b,
     max_ws_recv_frame_len = max_ws_recv_frame_len b,
     max_ws_send_frame_cnt = max_ws_send_frame_cnt b, outgoing_buffer_sz = outgoing_buffer_sz b\<rparr>"

definition params_to_raw :: "server_params \<Rightarrow> server_params" where
  "params_to_raw p = \<lparr>max_connection_cnt = max_connection_cnt p,
     max_ws_connection_cnt = max_ws_connection_cnt p, max_request_len = max_request_len p,
     max_ws_recv_frame_len = max_ws_recv_frame_len p,
     max_ws_send_frame_cnt = max_ws_send_frame_cnt p, outgoing_buffer_sz = outgoing_buffer_sz p\<rparr>"

section \<open>Handing a response to C\<close>

text \<open>\<open>fd_http_server_response_t\<close>: pointers are heap addresses.\<close>

record c_response =
  c_status :: u64
  c_upgrade_websocket :: bool
  c_content_type :: nat
  c_cache_control :: nat
  c_content_encoding :: nat
  c_allow_origin :: nat
  c_allow_methods :: nat
  c_allow_headers :: nat
  c_max_age :: u64
  c_static_body :: nat
  c_static_body_len :: u64
  c_body_off :: u64
  c_body_len :: u64

record response_cleanup =
  cl_body_ptr :: nat
  cl_body_len :: nat
  cl_header_ptrs :: "nat list"

text \<open>
  \<open>Drop for ResponseCleanup\<close>. Rebuilding the boxed slice needs the length it was allocated with,
  rebuilding a \<open>CString\<close> measures the string again: a mismatch is an invalid deallocation.
\<close>

definition free_body :: "nat \<Rightarrow> nat \<Rightarrow> bytes heap \<Rightarrow> (bytes heap, server_error) res" where
  "free_body p n h =
     (if p \<noteq> 0 \<and> 0 < n then
        (case cells h p of
           Some b \<Rightarrow> if length b = n then h_free p h else Panic
         | None \<Rightarrow> Panic)
      else Ok h)"

fun free_headers :: "nat list \<Rightarrow> bytes heap \<Rightarrow> (bytes heap, server_error) res" where
  "free_headers [] h = Ok h"
| "free_headers (p # ps) h =
     (if p \<noteq> 0 then
        (case cells h p of
           Some b \<Rightarrow>
             if b = cstr_bytes b @ [0] then res_bind (h_free p h) (free_headers ps) else Panic
         | None \<Rightarrow> Panic)
      else free_headers ps h)"

definition cleanup_drop :: "response_cleanup \<Rightarrow> bytes heap \<Rightarrow> (bytes heap, server_error) res" where
  "cleanup_drop cl h =
     res_bind (free_body (cl_body_ptr cl) (cl_body_len cl) h) (free_headers (cl_header_ptrs cl))"

record 'c callback_context =
  cx_callbacks :: 'c
  cx_connection_count :: u64
  cx_is_listening :: bool
  cx_pending_cleanups :: "(u64 \<times> response_cleanup) list"

definition default_error_response :: c_response where
  "default_error_response = \<lparr>c_status = 500, c_upgrade_websocket = False, c_content_type = 0,
     c_cache_control = 0, c_content_encoding = 0, c_allow_origin = 0, c_allow_methods = 0,
     c_allow_headers = 0, c_max_age = 0, c_static_body = 0, c_static_body_len = 0,
     c_body_off = 0, c_body_len = 0\<rparr>"

text \<open>
  \<open>key.to_lowercase() == header_name\<close>. The names compared with are ASCII and contain no \<open>k\<close>, and
  U+212A (which lowercases to \<open>k\<close>) is the only character outside ASCII whose lowercase form is an
  ASCII string, so comparing the ASCII lowercase form decides the same.
\<close>

definition find_header :: "(bytes \<times> bytes) list \<Rightarrow> bytes \<Rightarrow> bytes option" where
  "find_header hs name = map_option snd (find (\<lambda>e. map ascii_lower (fst e) = name) hs)"

text \<open>\<open>CString::new(value.as_str()).unwrap_or_default()\<close>\<close>

definition cstring_or_empty :: "bytes \<Rightarrow> bytes" where
  "cstring_or_empty v = (case cstring_new v of Some b \<Rightarrow> b | None \<Rightarrow> [0])"

text \<open>The closure \<open>header_to_c_str\<close>, with the pointers it has pushed so far.\<close>

definition header_to_c_str ::
  "response \<Rightarrow> bytes \<Rightarrow> nat list \<times> bytes heap \<Rightarrow> nat \<times> nat list \<times> bytes heap" where
  "header_to_c_str r name st =
     (case find_header (rs_headers r) name of
        None \<Rightarrow> (0, st)
      | Some v \<Rightarrow>
          (case h_alloc (cstring_or_empty v) (snd st) of (p, h) \<Rightarrow> (p, fst st @ [p], h)))"

definition max_age_of :: "response \<Rightarrow> u64" where
  "max_age_of r =
     (case find_header (rs_headers r) (ascii ''access-control-max-age'') of
        None \<Rightarrow> 0
      | Some v \<Rightarrow> (case parse_u64 v of Some n \<Rightarrow> n | None \<Rightarrow> 0))"

definition body_to_c :: "bytes \<Rightarrow> bytes heap \<Rightarrow> nat \<times> nat \<times> bytes heap" where
  "body_to_c b h =
     (if b \<noteq> [] then (case h_alloc b h of (p, h) \<Rightarrow> (p, length b, h)) else (0, 0, h))"

definition convert_response_to_c ::
  "response \<Rightarrow> u64 \<Rightarrow> 'c callback_context \<Rightarrow> bytes heap \<Rightarrow>
   (c_response \<times> 'c callback_context \<times> bytes heap, server_error) res" where
  "convert_response_to_c r connection_id cx h =
     (case body_to_c (rs_body r) h of (body_ptr, body_len, h) \<Rightarrow>
      case header_to_c_str r (ascii ''content-type'') ([], h) of (p1, st) \<Rightarrow>
      case header_to_c_str r (ascii ''cache-control'') st of (p2, st) \<Rightarrow>
      case header_to_c_str r (ascii ''content-encoding'') st of (p3, st) \<Rightarrow>
      case header_to_c_str r (ascii ''access-control-allow-origin'') st of (p4, st) \<Rightarrow>
      case header_to_c_str r (ascii ''access-control-allow-methods'') st of (p5, st) \<Rightarrow>
      case header_to_c_str r (ascii ''access-control-allow-headers'') st of (p6, header_ptrs, h) \<Rightarrow>
      let cleanup = \<lparr>cl_body_ptr = body_ptr, cl_body_len = body_len, cl_header_ptrs = header_ptrs\<rparr>
      in res_bind (table_put cleanup_drop connection_id cleanup (cx_pending_cleanups cx) h) (\<lambda>(t, h).
         Ok (\<lparr>c_status = ucast (rs_status r), c_upgrade_websocket = False, c_content_type = p1,
               c_cache_control = p2, c_content_encoding = p3, c_allow_origin = p4,
               c_allow_methods = p5, c_allow_headers = p6, c_max_age = max_age_of r,
               c_static_body = body_ptr, c_static_body_len = word_of_nat body_len,
               c_body_off = 0, c_body_len = 0\<rparr>,
             cx\<lparr>cx_pending_cleanups := t\<rparr>, h)))"

section \<open>Callbacks from C\<close>

text \<open>
  \<open>fd_http_server_request_t\<close> as the trampoline reads it: a C string or body pointer is \<open>None\<close> when
  null; \<open>rr_ctx\<close> tells whether the context pointer is set.
\<close>

record raw_request =
  rr_connection_id :: u64
  rr_method :: u8
  rr_path :: "bytes option"
  rr_content_type :: "bytes option"
  rr_accept_encoding :: "bytes option"
  rr_post_body :: "bytes option"
  rr_ctx :: bool

definition cstr_or :: "bytes option \<Rightarrow> bytes \<Rightarrow> bytes" where
  "cstr_or p d = (case p of None \<Rightarrow> d | Some s \<Rightarrow> (case from_utf8 s of Some t \<Rightarrow> t | None \<Rightarrow> d))"

definition request_of_raw :: "http_lib \<Rightarrow> raw_request \<Rightarrow> request" where
  "request_of_raw lib req =
     \<lparr>rq_method = (case method_from_raw lib (rr_method req) of Some m \<Rightarrow> m | None \<Rightarrow> Get),
      rq_path = cstr_or (rr_path req) (ascii ''/''),
      rq_headers =
        (if rr_content_type req \<noteq> None
         then [(ascii ''content-type'', cstr_or (rr_content_type req) [])] else []) @
        (if rr_accept_encoding req \<noteq> None
         then [(ascii ''accept-encoding'', cstr_or (rr_accept_encoding req) [])] else []),
      rq_body = (case rr_post_body req of Some b \<Rightarrow> b | None \<Rightarrow> [])\<rparr>"

definition request_trampoline ::
  "http_lib \<Rightarrow> 'c server_callbacks \<Rightarrow> raw_request option \<Rightarrow> 'c callback_context \<Rightarrow> bytes heap \<Rightarrow>
   (c_response \<times> 'c callback_context \<times> bytes heap, server_error) res" where
  "request_trampoline lib cb request cx h =
     (case request of
        None \<Rightarrow> Ok (default_error_response, cx, h)
      | Some req \<Rightarrow>
          if \<not> rr_ctx req then Ok (default_error_response, cx, h)
          else (case on_request cb (cx_callbacks cx) (rr_connection_id req) (request_of_raw lib req) of
                  (r, c) \<Rightarrow>
                    convert_response_to_c r (rr_connection_id req) (cx\<lparr>cx_callbacks := c\<rparr>) h))"

text \<open>
  The context pointer of the remaining callbacks is the one \<open>Server::new\<close> registered, never null
  (with a null pointer they would do nothing). The counter is an \<open>AtomicU64\<close>: both updates wrap.
\<close>

definition open_trampoline :: "'c callback_context \<Rightarrow> 'c callback_context" where
  "open_trampoline cx = cx\<lparr>cx_connection_count := cx_connection_count cx + 1\<rparr>"

definition close_trampoline ::
  "http_lib \<Rightarrow> 'c server_callbacks \<Rightarrow> u64 \<Rightarrow> int \<Rightarrow> 'c callback_context \<Rightarrow> bytes heap \<Rightarrow>
   ('c callback_context \<times> bytes heap, server_error) res" where
  "close_trampoline lib cb conn_id reason cx h =
     (let cx = cx\<lparr>cx_connection_count := cx_connection_count cx - 1\<rparr>
      in res_bind (table_remove cleanup_drop conn_id (cx_pending_cleanups cx) h) (\<lambda>(t, h).
         let cx = cx\<lparr>cx_pending_cleanups := t\<rparr>
         in Ok (case reason_from_raw lib reason of
                  Some r \<Rightarrow> cx\<lparr>cx_callbacks := on_connection_close cb (cx_callbacks cx) conn_id r\<rparr>
                | None \<Rightarrow> cx, h)))"

definition ws_open_trampoline ::
  "'c server_callbacks \<Rightarrow> u64 \<Rightarrow> 'c callback_context \<Rightarrow> 'c callback_context" where
  "ws_open_trampoline cb ws_conn_id cx =
     cx\<lparr>cx_callbacks := snd (on_ws_connect cb (cx_callbacks cx) ws_conn_id (ascii ''/''))\<rparr>"

definition ws_message_trampoline ::
  "'c server_callbacks \<Rightarrow> u64 \<Rightarrow> bytes option \<Rightarrow> 'c callback_context \<Rightarrow> 'c callback_context" where
  "ws_message_trampoline cb ws_conn_id data cx =
     (case data of
        None \<Rightarrow> cx
      | Some message \<Rightarrow> cx\<lparr>cx_callbacks := on_ws_message cb (cx_callbacks cx) ws_conn_id message\<rparr>)"

definition ws_close_trampoline ::
  "http_lib \<Rightarrow> 'c server_callbacks \<Rightarrow> u64 \<Rightarrow> int \<Rightarrow> 'c callback_context \<Rightarrow> 'c callback_context" where
  "ws_close_trampoline lib cb ws_conn_id reason cx =
     (case reason_from_raw lib reason of
        Some r \<Rightarrow> cx\<lparr>cx_callbacks := on_ws_close cb (cx_callbacks cx) ws_conn_id r\<rparr>
      | None \<Rightarrow> cx)"

section \<open>The server\<close>

record 'c server =
  sv_server_ptr :: u64
  sv_memory :: "u64 \<times> nat"
  sv_ctx :: "'c callback_context"

text \<open>
  \<open>Server::new\<close>. \<open>place n\<close> is the address at which the allocator puts \<open>n\<close> bytes. The size is
  computed at the width of \<open>usize\<close>. Each failure after the context is boxed drops it again; the
  memory of the vector is released on every error.
\<close>

definition server_total_size :: "http_lib \<Rightarrow> server_params \<Rightarrow> u64 \<Rightarrow> u64" where
  "server_total_size lib params buffer_size =
     c_footprint lib (params_to_raw params) + c_align lib + buffer_size"

definition server_new ::
  "http_lib \<Rightarrow> (u64 \<Rightarrow> u64) \<Rightarrow> server_params \<Rightarrow> 'c \<Rightarrow> u64 \<Rightarrow> ('c server, server_error) res" where
  "server_new lib place params callbacks buffer_size =
     (let raw = params_to_raw params;
          footprint = c_footprint lib raw
      in if footprint = 0 then Err (InvalidParameter (ascii ''Invalid server parameters''))
         else
           let total = server_total_size lib params buffer_size;
               memory = place total;
               aligned = align_up memory (c_align lib);
               shhttp = c_new lib aligned raw
           in if shhttp = 0 then Err AllocationFailed
              else
                let server_ptr = c_join lib shhttp
                in if server_ptr = 0 then Err AllocationFailed
                   else Ok \<lparr>sv_server_ptr = server_ptr, sv_memory = (memory, unat total),
                     sv_ctx = \<lparr>cx_callbacks = callbacks, cx_connection_count = 0,
                       cx_is_listening = False, cx_pending_cleanups = []\<rparr>\<rparr>)"

definition server_listen ::
  "http_lib \<Rightarrow> 'c server \<Rightarrow> u32 \<Rightarrow> u16 \<Rightarrow> (unit, server_error) res \<times> 'c server" where
  "server_listen lib sv addr port =
     (if \<not> c_listen lib (sv_server_ptr sv) addr port
      then (Err (SocketError (ascii ''Failed to start listening'')), sv)
      else (Ok (), sv\<lparr>sv_ctx := (sv_ctx sv)\<lparr>cx_is_listening := True\<rparr>\<rparr>))"

definition connection_count :: "'c server \<Rightarrow> u64" where
  "connection_count sv = cx_connection_count (sv_ctx sv)"

definition is_listening :: "'c server \<Rightarrow> bool" where
  "is_listening sv = cx_is_listening (sv_ctx sv)"

text \<open>\<open>Drop for Server\<close>: the context is dropped, and with it the map of pending clean-ups.\<close>

definition server_drop :: "'c server \<Rightarrow> bytes heap \<Rightarrow> (bytes heap, server_error) res" where
  "server_drop sv h = table_drop cleanup_drop (cx_pending_cleanups (sv_ctx sv)) h"

end
