(* ===== verification/Http_Server_Props.thy ===== *)
theory Http_Server_Props
  imports Http_Server
begin

text \<open>
  Correctness of the HTTP server wrapper. The clean-up records are shown to be owners of their
  allocations (interpretation \<open>resp\<close>), so the map of pending clean-ups neither frees twice nor
  leaks. The step relation \<open>http_reach\<close> lets the C server call back in any order its protocol
  allows; in every reachable state the responses that C has not finished sending are readable
  and are what the application answered.
\<close>

section \<open>Clean-ups own their memory\<close>

definition cleanup_ptrs :: "response_cleanup \<Rightarrow> nat list" where
  "cleanup_ptrs cl =
     (if cl_body_ptr cl \<noteq> 0 \<and> 0 < cl_body_len cl then [cl_body_ptr cl] else []) @
     filter (\<lambda>p. p \<noteq> 0) (cl_header_ptrs cl)"

definition is_cstring :: "bytes \<Rightarrow> bool" where
  "is_cstring b \<longleftrightarrow> (\<exists>s. 0 \<notin> set s \<and> b = s @ [0])"

definition cleanup_good :: "response_cleanup \<Rightarrow> bytes heap \<Rightarrow> bool" where
  "cleanup_good cl h \<longleftrightarrow> distinct (cleanup_ptrs cl) \<and>
     (cl_body_ptr cl \<noteq> 0 \<and> 0 < cl_body_len cl \<longrightarrow>
        (\<exists>b. cells h (cl_body_ptr cl) = Some b \<and> length b = cl_body_len cl)) \<and>
     (\<forall>p \<in> set (cl_header_ptrs cl). p \<noteq> 0 \<longrightarrow> (\<exists>b. cells h p = Some b \<and> is_cstring b))"

lemma is_cstring_measured: "is_cstring b \<Longrightarrow> b = cstr_bytes b @ [0]"
  by (auto simp: is_cstring_def)

lemma free_headers_good:
  "distinct (filter (\<lambda>p. p \<noteq> 0) ps) \<Longrightarrow>
   (\<And>p. p \<in> set ps \<Longrightarrow> p \<noteq> 0 \<Longrightarrow> \<exists>b. cells h p = Some b \<and> is_cstring b) \<Longrightarrow>
   free_headers ps h = Ok (release (set (filter (\<lambda>p. p \<noteq> 0) ps)) h)"
proof (induction ps arbitrary: h)
  case (Cons p ps)
  show ?case
  proof (cases "p = 0")
    case False
    then obtain b where b: "cells h p = Some b" "is_cstring b" using Cons.prems(2) by auto
    have "free_headers ps (release {p} h) = Ok (release (set (filter (\<lambda>p. p \<noteq> 0) ps)) (release {p} h))"
    proof (rule Cons.IH)
      show "distinct (filter (\<lambda>p. p \<noteq> 0) ps)" using Cons.prems(1) False by simp
      fix q assume q: "q \<in> set ps" "q \<noteq> 0"
      then have "q \<noteq> p" using Cons.prems(1) False by auto
      then show "\<exists>b. cells (release {p} h) q = Some b \<and> is_cstring b"
        using Cons.prems(2) [of q] q by (simp add: heap_simps)
    qed
    then show ?thesis
      using False b is_cstring_measured [OF b(2)] by (simp add: h_free_live domI heap_simps)
  qed (use Cons in simp)
qed simp

interpretation resp: owner cleanup_ptrs cleanup_good cleanup_drop
proof
  fix v h h' assume g: "cleanup_good v h"
  then show "distinct (cleanup_ptrs v)" by (simp add: cleanup_good_def)
  show "set (cleanup_ptrs v) \<subseteq> live h"
    using g by (fastforce simp: cleanup_good_def cleanup_ptrs_def)
  show "cleanup_good v h'" if "\<And>p. p \<in> set (cleanup_ptrs v) \<Longrightarrow> cells h' p = cells h p"
    using g that unfolding cleanup_good_def cleanup_ptrs_def by (auto split: if_splits)
  show "cleanup_drop v h = Ok (release (set (cleanup_ptrs v)) h)"
  proof (cases "cl_body_ptr v \<noteq> 0 \<and> 0 < cl_body_len v")
    case True
    let ?h = "release {cl_body_ptr v} h"
    have d: "distinct (filter (\<lambda>p. p \<noteq> 0) (cl_header_ptrs v))" "cl_body_ptr v \<notin> set (cl_header_ptrs v)"
      using g True by (auto simp: cleanup_good_def cleanup_ptrs_def)
    obtain b where b: "cells h (cl_body_ptr v) = Some b" "length b = cl_body_len v"
      using g True by (auto simp: cleanup_good_def)
    then have "free_body (cl_body_ptr v) (cl_body_len v) h = Ok ?h"
      using True by (simp add: free_body_def h_free_live domI)
    moreover have "free_headers (cl_header_ptrs v) ?h =
        Ok (release (set (filter (\<lambda>p. p \<noteq> 0) (cl_header_ptrs v))) ?h)"
      using g d by (intro free_headers_good) (auto simp: cleanup_good_def heap_simps)
    ultimately show ?thesis using True by (simp add: cleanup_drop_def cleanup_ptrs_def heap_simps)
  next
    case False
    then have "free_headers (cl_header_ptrs v) h =
        Ok (release (set (filter (\<lambda>p. p \<noteq> 0) (cl_header_ptrs v))) h)"
      using g by (intro free_headers_good) (auto simp: cleanup_good_def cleanup_ptrs_def)
    then show ?thesis using False by (auto simp: cleanup_drop_def cleanup_ptrs_def free_body_def)
  qed
qed

section \<open>The C response represents the Rust response\<close>

text \<open>What C reads through a header pointer: nothing (null), or the value of the first header of that
  name, empty when the value has a zero byte and so is no C string.\<close>

definition header_shown :: "bytes heap \<Rightarrow> nat \<Rightarrow> response \<Rightarrow> string \<Rightarrow> bool" where
  "header_shown h p r name \<longleftrightarrow>
     (case find_header (rs_headers r) (ascii name) of
        None \<Rightarrow> p = 0
      | Some v \<Rightarrow> p \<noteq> 0 \<and> (\<exists>b. cells h p = Some b \<and> is_cstring b \<and>
          cstr_bytes b = (if 0 \<in> set v then [] else v)))"

definition body_shown :: "bytes heap \<Rightarrow> nat \<Rightarrow> u64 \<Rightarrow> bytes \<Rightarrow> bool" where
  "body_shown h p n b \<longleftrightarrow> n = word_of_nat (length b) \<and>
     (if b = [] then p = 0 else p \<noteq> 0 \<and> cells h p = Some b)"

definition represents :: "response \<Rightarrow> c_response \<Rightarrow> bytes heap \<Rightarrow> bool" where
  "represents r c h \<longleftrightarrow> c_status c = ucast (rs_status r) \<and> \<not> c_upgrade_websocket c \<and>
     header_shown h (c_content_type c) r ''content-type'' \<and>
     header_shown h (c_cache_control c) r ''cache-control'' \<and>
     header_shown h (c_content_encoding c) r ''content-encoding'' \<and>
     header_shown h (c_allow_origin c) r ''access-control-allow-origin'' \<and>
     header_shown h (c_allow_methods c) r ''access-control-allow-methods'' \<and>
     header_shown h (c_allow_headers c) r ''access-control-allow-headers'' \<and>
     c_max_age c = max_age_of r \<and>
     body_shown h (c_static_body c) (c_static_body_len c) (rs_body r)"

text \<open>The pointers inside a C response.\<close>

definition c_ptrs :: "c_response \<Rightarrow> nat set" where
  "c_ptrs c = {c_content_type c, c_cache_control c, c_content_encoding c, c_allow_origin c,
     c_allow_methods c, c_allow_headers c, c_static_body c} - {0}"

lemma header_shown_frame:
  "header_shown h p r n \<Longrightarrow> (p \<noteq> 0 \<Longrightarrow> cells h' p = cells h p) \<Longrightarrow> header_shown h' p r n"
  by (auto simp: header_shown_def split: option.splits)

lemma represents_frame:
  assumes "represents r c h" and "\<And>p. p \<in> c_ptrs c \<Longrightarrow> cells h' p = cells h p"
  shows "represents r c h'"
  using assms unfolding represents_def c_ptrs_def body_shown_def
  by (auto intro!: header_shown_frame [of h] split: if_splits)

text \<open>The pointers collected so far: fresh since \<open>h0\<close>, pairwise different, C strings.\<close>

definition collected :: "bytes heap \<Rightarrow> nat set \<Rightarrow> nat list \<times> bytes heap \<Rightarrow> bool" where
  "collected h0 B st \<longleftrightarrow> heap_ok (snd st) \<and> distinct (fst st) \<and> 0 \<notin> set (fst st) \<and>
     B \<inter> set (fst st) = {} \<and> live (snd st) = live h0 \<union> B \<union> set (fst st) \<and>
     live h0 \<inter> (B \<union> set (fst st)) = {} \<and>
     (\<forall>p \<in> live h0. cells (snd st) p = cells h0 p) \<and>
     (\<forall>p \<in> set (fst st). \<exists>b. cells (snd st) p = Some b \<and> is_cstring b)"

lemma collected_live: "collected h0 B st \<Longrightarrow> live (snd st) = live h0 \<union> B \<union> set (fst st)"
  by (simp add: collected_def)

lemma cstring_or_empty_is: "is_cstring (cstring_or_empty v)"
  "cstr_bytes (cstring_or_empty v) = (if 0 \<in> set v then [] else v)"
  by (auto simp: cstring_or_empty_def cstring_new_def is_cstring_def)

lemma header_to_c_str_collected:
  assumes st: "collected h0 B st" and e: "header_to_c_str r (ascii name) st = (p, st')"
  shows "collected h0 B st'" "header_shown (snd st') p r name" "p = 0 \<or> p \<in> set (fst st')"
    "set (fst st) \<subseteq> set (fst st')"
    "\<And>q. q \<in> live (snd st) \<Longrightarrow> cells (snd st') q = cells (snd st) q"
proof -
  obtain ps h where ph: "st = (ps, h)" by (cases st)
  have "collected h0 B st' \<and> header_shown (snd st') p r name \<and> (p = 0 \<or> p \<in> set (fst st')) \<and>
    set (fst st) \<subseteq> set (fst st') \<and> (\<forall>q \<in> live (snd st). cells (snd st') q = cells (snd st) q)"
  proof (cases "find_header (rs_headers r) (ascii name)")
    case None
    then show ?thesis using st e by (auto simp: header_to_c_str_def header_shown_def)
  next
    case (Some v)
    obtain q h' where a: "h_alloc (cstring_or_empty v) h = (q, h')" by fastforce
    then have pst: "p = q" "st' = (ps @ [q], h')" using e Some ph by (auto simp: header_to_c_str_def)
    note st = st [unfolded collected_def ph fst_conv snd_conv]
    note al = h_alloc_ok [OF _ a]
    have hk: "heap_ok h" using st by simp
    have keep: "cells h' x = cells h x" if "x \<in> live h" for x
      using al(6) [OF hk, of x] al(3) [OF hk] that by auto
    have new: "q \<notin> live h" by (rule al(3) [OF hk])
    have "collected h0 B (ps @ [q], h')"
      unfolding collected_def fst_conv snd_conv
    proof (intro conjI ballI)
      show "heap_ok h'" by (rule al(1) [OF hk])
      show "distinct (ps @ [q])" "0 \<notin> set (ps @ [q])" "B \<inter> set (ps @ [q]) = {}"
        "live h0 \<inter> (B \<union> set (ps @ [q])) = {}"
        using st new al(4) [OF hk] by (auto simp del: dom_def)
      show "live h' = live h0 \<union> B \<union> set (ps @ [q])" using al(2) [OF hk] st by auto
      show "cells h' x = cells h0 x" if "x \<in> live h0" for x using that st keep by auto
      fix x assume "x \<in> set (ps @ [q])"
      then consider "x \<in> set ps" | "x = q" by auto
      then show "\<exists>b. cells h' x = Some b \<and> is_cstring b"
      proof cases
        case 1
        then show ?thesis using st keep [of x] by auto
      next
        case 2
        then show ?thesis using al(5) [OF hk] cstring_or_empty_is(1) by auto
      qed
    qed
    then show ?thesis
      using pst ph Some al(4,5) [OF hk] cstring_or_empty_is keep by (auto simp: header_shown_def)
  qed
  then show "collected h0 B st'" "header_shown (snd st') p r name" "p = 0 \<or> p \<in> set (fst st')"
    "set (fst st) \<subseteq> set (fst st')" "\<And>q. q \<in> live (snd st) \<Longrightarrow> cells (snd st') q = cells (snd st) q"
    by auto
qed

lemma header_shown_later:
  assumes "header_shown h p r n" and "p = 0 \<or> p \<in> live h" and "\<And>q. q \<in> live h \<Longrightarrow> cells h' q = cells h q"
  shows "header_shown h' p r n"
  using assms by (intro header_shown_frame [of h p r n h']) auto

lemma body_to_c_collected:
  assumes "heap_ok h" and "body_to_c b h = (p, n, h1)"
  shows "n = length b" "collected h (if b = [] then {} else {p}) ([], h1)"
    "body_shown h1 p (word_of_nat n) b" "b \<noteq> [] \<Longrightarrow> 0 < n"
proof -
  have "n = length b \<and> collected h (if b = [] then {} else {p}) ([], h1) \<and>
    body_shown h1 p (word_of_nat n) b"
  proof (cases "b = []")
    case True
    then show ?thesis using assms by (auto simp: body_to_c_def collected_def body_shown_def)
  next
    case False
    obtain q h' where a: "h_alloc b h = (q, h')" by fastforce
    note al = h_alloc_ok [OF assms(1) a]
    have "cells h' x = cells h x" if "x \<in> live h" for x using al(3,6) that by metis
    then show ?thesis using False a assms(2) al(1-5)
      by (auto simp: body_to_c_def collected_def body_shown_def simp del: dom_def)
  qed
  then show "n = length b" "collected h (if b = [] then {} else {p}) ([], h1)"
    "body_shown h1 p (word_of_nat n) b" "b \<noteq> [] \<Longrightarrow> 0 < n" by auto
qed

text \<open>What a finished collection gives the clean-up that is stored for it.\<close>

lemma collected_cleanup:
  assumes c: "collected h (if b = [] then {} else {p}) (ps, h')" and b: "body_shown h' p m b"
  defines "cl \<equiv> \<lparr>cl_body_ptr = p, cl_body_len = length b, cl_header_ptrs = ps\<rparr>"
  shows "cleanup_good cl h'" "live h' = live h \<union> set (cleanup_ptrs cl)"
    "live h \<inter> set (cleanup_ptrs cl) = {}" "\<And>q. q \<in> live h \<Longrightarrow> cells h' q = cells h q" "heap_ok h'"
    "set (cleanup_ptrs cl) = (if b = [] then {} else {p}) \<union> set ps"
proof -
  note c = c [unfolded collected_def fst_conv snd_conv]
  have ps: "filter (\<lambda>p. p \<noteq> 0) ps = ps" using c by (auto simp: filter_id_conv)
  have pt: "cleanup_ptrs cl = (if b = [] then [] else [p]) @ ps"
    using b by (auto simp: cleanup_ptrs_def cl_def ps body_shown_def simp del: neq0_conv split: if_splits)
  then show s: "set (cleanup_ptrs cl) = (if b = [] then {} else {p}) \<union> set ps" by auto
  have "distinct (cleanup_ptrs cl)" using c unfolding pt by auto
  then show "cleanup_good cl h'"
    using c b by (auto simp: cleanup_good_def cl_def body_shown_def split: if_splits)
  show "live h' = live h \<union> set (cleanup_ptrs cl)" "live h \<inter> set (cleanup_ptrs cl) = {}"
    using c unfolding s by blast+
  show "\<And>q. q \<in> live h \<Longrightarrow> cells h' q = cells h q" "heap_ok h'" using c by auto
qed

text \<open>The conversion up to the store into the table.\<close>

definition c_response_of :: "response \<Rightarrow> nat \<Rightarrow> nat \<Rightarrow> nat \<Rightarrow> nat \<Rightarrow> nat \<Rightarrow> nat \<Rightarrow> nat \<Rightarrow> nat \<Rightarrow> c_response" where
  "c_response_of r p1 p2 p3 p4 p5 p6 bp bn =
     \<lparr>c_status = ucast (rs_status r), c_upgrade_websocket = False, c_content_type = p1,
      c_cache_control = p2, c_content_encoding = p3, c_allow_origin = p4, c_allow_methods = p5,
      c_allow_headers = p6, c_max_age = max_age_of r, c_static_body = bp,
      c_static_body_len = word_of_nat bn, c_body_off = 0, c_body_len = 0\<rparr>"

text \<open>The six header look-ups in a row.\<close>

fun headers_to_c :: "response \<Rightarrow> string list \<Rightarrow> nat list \<times> bytes heap \<Rightarrow> nat list \<times> nat list \<times> bytes heap" where
  "headers_to_c r [] st = ([], st)"
| "headers_to_c r (n # ns) st =
     (case header_to_c_str r (ascii n) st of (p, st) \<Rightarrow>
      case headers_to_c r ns st of (qs, st) \<Rightarrow> (p # qs, st))"

lemma headers_to_c_collected:
  "collected h0 B st \<Longrightarrow> headers_to_c r ns st = (qs, st') \<Longrightarrow>
   collected h0 B st' \<and> set (fst st) \<subseteq> set (fst st') \<and>
   (\<forall>q \<in> live (snd st). cells (snd st') q = cells (snd st) q) \<and>
   list_all2 (\<lambda>n p. header_shown (snd st') p r n \<and> (p = 0 \<or> p \<in> set (fst st'))) ns qs"
proof (induction ns arbitrary: st qs)
  case (Cons n ns)
  obtain p st1 where e: "header_to_c_str r (ascii n) st = (p, st1)" by (metis surj_pair)
  obtain qs' where r: "headers_to_c r ns st1 = (qs', st')" and qs: "qs = p # qs'"
    using Cons.prems(2) e by (auto split: prod.splits)
  note c = header_to_c_str_collected [OF Cons.prems(1) e]
  note IH = Cons.IH [OF c(1) r]
  have up: "q \<in> live (snd st1)" if "q \<in> live (snd st)" for q
    using that c(4) collected_live [OF c(1)] collected_live [OF Cons.prems(1)] by blast
  have "p = 0 \<or> p \<in> live (snd st1)" using c(3) collected_live [OF c(1)] by blast
  then have "header_shown (snd st') p r n" using IH by (intro header_shown_later [OF c(2)]) auto
  then show ?case using IH c(3,4,5) up qs by (auto simp del: dom_def)
qed simp

abbreviation header_names :: "string list" where
  "header_names \<equiv> [''content-type'', ''cache-control'', ''content-encoding'',
     ''access-control-allow-origin'', ''access-control-allow-methods'', ''access-control-allow-headers'']"

lemma convert_by_headers:
  assumes "body_to_c (rs_body r) h = (bp, bn, h0)"
    and "headers_to_c r header_names ([], h0) = ([p1, p2, p3, p4, p5, p6], ps, h')"
  shows "convert_response_to_c r k cx h =
    res_bind (table_put cleanup_drop k \<lparr>cl_body_ptr = bp, cl_body_len = bn, cl_header_ptrs = ps\<rparr>
        (cx_pending_cleanups cx) h')
      (\<lambda>(t, h). Ok (c_response_of r p1 p2 p3 p4 p5 p6 bp bn, cx\<lparr>cx_pending_cleanups := t\<rparr>, h))"
proof -
  from assms(2) obtain s1 s2 s3 s4 s5
    where "header_to_c_str r (ascii ''content-type'') ([], h0) = (p1, s1)"
      "header_to_c_str r (ascii ''cache-control'') s1 = (p2, s2)"
      "header_to_c_str r (ascii ''content-encoding'') s2 = (p3, s3)"
      "header_to_c_str r (ascii ''access-control-allow-origin'') s3 = (p4, s4)"
      "header_to_c_str r (ascii ''access-control-allow-methods'') s4 = (p5, s5)"
      "header_to_c_str r (ascii ''access-control-allow-headers'') s5 = (p6, ps, h')"
    by (simp split: prod.split_asm)
  with assms(1) show ?thesis by (simp add: convert_response_to_c_def c_response_of_def Let_def)
qed

lemma convert_allocates:
  assumes hk: "heap_ok h"
  obtains c cl h' where "convert_response_to_c r k cx h =
      res_bind (table_put cleanup_drop k cl (cx_pending_cleanups cx) h')
        (\<lambda>(t, h). Ok (c, cx\<lparr>cx_pending_cleanups := t\<rparr>, h))"
    and "represents r c h'" and "c_ptrs c \<subseteq> set (cleanup_ptrs cl)"
    and "cleanup_good cl h'" and "live h' = live h \<union> set (cleanup_ptrs cl)"
    and "live h \<inter> set (cleanup_ptrs cl) = {}" and "\<And>q. q \<in> live h \<Longrightarrow> cells h' q = cells h q"
    and "heap_ok h'"
proof -
  obtain bp bn h0 where b: "body_to_c (rs_body r) h = (bp, bn, h0)" by (metis prod_cases3)
  obtain qs ps h' where e: "headers_to_c r header_names ([], h0) = (qs, ps, h')" by (metis prod_cases3)
  note B = body_to_c_collected [OF hk b]
  note H = headers_to_c_collected [OF B(2) e, unfolded fst_conv snd_conv]
  have "length qs = 6" using H by (auto dest: list_all2_lengthD)
  then obtain p1 p2 p3 p4 p5 p6 where qs: "qs = [p1, p2, p3, p4, p5, p6]"
    by (auto simp: length_Suc_conv numeral_eq_Suc)
  have bl: "rs_body r \<noteq> [] \<Longrightarrow> bp \<in> live h0" using B(2) by (auto simp: collected_def)
  then have bs: "body_shown h' bp (word_of_nat bn) (rs_body r)"
    using B(3) H by (auto simp: body_shown_def split: if_splits)
  let ?cl = "\<lparr>cl_body_ptr = bp, cl_body_len = bn, cl_header_ptrs = ps\<rparr>"
  let ?c = "c_response_of r p1 p2 p3 p4 p5 p6 bp bn"
  note cc = collected_cleanup [OF H [THEN conjunct1] bs, folded B(1)]
  show thesis
  proof (rule that)
    show "convert_response_to_c r k cx h =
      res_bind (table_put cleanup_drop k ?cl (cx_pending_cleanups cx) h')
        (\<lambda>(t, h). Ok (?c, cx\<lparr>cx_pending_cleanups := t\<rparr>, h))"
      by (rule convert_by_headers) (use b e qs in auto)
    show "represents r ?c h'" using H qs bs by (simp add: represents_def c_response_of_def)
    show "c_ptrs ?c \<subseteq> set (cleanup_ptrs ?cl)"
      using H bs unfolding qs cc(6) by (auto simp: c_ptrs_def c_response_of_def body_shown_def
          simp del: dom_def neq0_conv split: if_splits)
  qed (fact cc)+
qed

section \<open>The C server calling back\<close>

text \<open>
  The state of the server between two calls: the context, the heap, the open connections, and for each
  connection whose response C is still sending, what the application answered and what C was given.
\<close>

record 'c http_world =
  hw_ctx :: "'c callback_context"
  hw_heap :: "bytes heap"
  hw_open :: "u64 set"
  hw_sending :: "u64 \<Rightarrow> (response \<times> c_response) option"

datatype http_event = EvOpen u64 | EvRequest raw_request | EvSent u64 | EvClose u64 int |
  EvWsOpen u64 | EvWsMessage u64 "bytes option" | EvWsClose u64 int

text \<open>
  The protocol of the C server: a connection is opened once, requests arrive on open connections with
  the registered context, the next one only when the response to the previous one has been sent.
\<close>

fun admissible :: "http_event \<Rightarrow> 'c http_world \<Rightarrow> bool" where
  "admissible (EvOpen k) w \<longleftrightarrow> k \<notin> hw_open w"
| "admissible (EvRequest req) w \<longleftrightarrow> rr_ctx req \<and> rr_connection_id req \<in> hw_open w \<and>
     hw_sending w (rr_connection_id req) = None"
| "admissible (EvSent k) w \<longleftrightarrow> hw_sending w k \<noteq> None"
| "admissible (EvClose k reason) w \<longleftrightarrow> k \<in> hw_open w"
| "admissible ev w \<longleftrightarrow> True"

fun http_handle :: "http_lib \<Rightarrow> 'c server_callbacks \<Rightarrow> http_event \<Rightarrow> 'c http_world \<Rightarrow>
    ('c http_world, server_error) res" where
  "http_handle lib cb (EvOpen k) w =
     Ok (w\<lparr>hw_ctx := open_trampoline (hw_ctx w), hw_open := insert k (hw_open w)\<rparr>)"
| "http_handle lib cb (EvRequest req) w =
     res_bind (request_trampoline lib cb (Some req) (hw_ctx w) (hw_heap w)) (\<lambda>(c, cx, h).
       let r = fst (on_request cb (cx_callbacks (hw_ctx w)) (rr_connection_id req) (request_of_raw lib req))
       in Ok (w\<lparr>hw_ctx := cx, hw_heap := h,
               hw_sending := (hw_sending w)(rr_connection_id req \<mapsto> (r, c))\<rparr>))"
| "http_handle lib cb (EvSent k) w = Ok (w\<lparr>hw_sending := (hw_sending w)(k := None)\<rparr>)"
| "http_handle lib cb (EvClose k reason) w =
     res_bind (close_trampoline lib cb k reason (hw_ctx w) (hw_heap w)) (\<lambda>(cx, h).
       Ok (w\<lparr>hw_ctx := cx, hw_heap := h, hw_open := hw_open w - {k},
            hw_sending := (hw_sending w)(k := None)\<rparr>))"
| "http_handle lib cb (EvWsOpen k) w = Ok (w\<lparr>hw_ctx := ws_open_trampoline cb k (hw_ctx w)\<rparr>)"
| "http_handle lib cb (EvWsMessage k d) w = Ok (w\<lparr>hw_ctx := ws_message_trampoline cb k d (hw_ctx w)\<rparr>)"
| "http_handle lib cb (EvWsClose k reason) w =
     Ok (w\<lparr>hw_ctx := ws_close_trampoline lib cb k reason (hw_ctx w)\<rparr>)"

definition http_start :: "'c callback_context \<Rightarrow> bytes heap \<Rightarrow> 'c http_world" where
  "http_start cx h = \<lparr>hw_ctx = cx, hw_heap = h, hw_open = {}, hw_sending = \<lambda>_. None\<rparr>"

inductive http_reach :: "http_lib \<Rightarrow> 'c server_callbacks \<Rightarrow> 'c http_world \<Rightarrow> 'c http_world \<Rightarrow> bool"
  for lib cb w0 where
  start: "http_reach lib cb w0 w0"
| event: "http_reach lib cb w0 w \<Longrightarrow> admissible ev w \<Longrightarrow> http_handle lib cb ev w = Ok w' \<Longrightarrow>
    http_reach lib cb w0 w'"

section \<open>Invariant\<close>

definition sending_ok :: "'c http_world \<Rightarrow> bool" where
  "sending_ok w \<longleftrightarrow> (\<forall>k r c. hw_sending w k = Some (r, c) \<longrightarrow> k \<in> hw_open w \<and>
     represents r c (hw_heap w) \<and>
     (\<exists>cl. map_of (cx_pending_cleanups (hw_ctx w)) k = Some cl \<and> c_ptrs c \<subseteq> set (cleanup_ptrs cl)))"

definition http_inv :: "nat set \<Rightarrow> 'c http_world \<Rightarrow> bool" where
  "http_inv F w \<longleftrightarrow> heap_ok (hw_heap w) \<and>
     resp.table_ok F (cx_pending_cleanups (hw_ctx w)) (hw_heap w) \<and>
     finite (hw_open w) \<and> cx_connection_count (hw_ctx w) = word_of_nat (card (hw_open w)) \<and>
     sending_ok w"

lemma sending_entry:
  assumes "http_inv F w" and "hw_sending w k = Some (r, c)"
  obtains v where "k \<in> hw_open w" "represents r c (hw_heap w)"
    "map_of (cx_pending_cleanups (hw_ctx w)) k = Some v" "c_ptrs c \<subseteq> set (cleanup_ptrs v)"
  using assms unfolding http_inv_def sending_ok_def by blast

lemma ws_trampolines_pure [simp]:
  "cx_pending_cleanups (ws_open_trampoline cb k cx) = cx_pending_cleanups cx"
  "cx_connection_count (ws_open_trampoline cb k cx) = cx_connection_count cx"
  "cx_pending_cleanups (ws_message_trampoline cb k d cx) = cx_pending_cleanups cx"
  "cx_connection_count (ws_message_trampoline cb k d cx) = cx_connection_count cx"
  "cx_pending_cleanups (ws_close_trampoline lib cb k n cx) = cx_pending_cleanups cx"
  "cx_connection_count (ws_close_trampoline lib cb k n cx) = cx_connection_count cx"
  by (simp_all add: ws_open_trampoline_def ws_message_trampoline_def ws_close_trampoline_def
      split: option.splits)

text \<open>Entries that stay in the table keep what the sending responses point to.\<close>

lemma sending_frame:
  assumes "represents r c h" and "c_ptrs c \<subseteq> set (cleanup_ptrs cl)"
    and "\<And>p. p \<in> set (cleanup_ptrs cl) \<Longrightarrow> cells h' p = cells h p"
  shows "represents r c h'"
  using assms by (intro represents_frame [OF assms(1)]) auto

lemma request_keeps_inv:
  assumes inv: "http_inv F w" and k: "rr_ctx req" "rr_connection_id req \<in> hw_open w"
  shows "\<exists>w'. http_handle lib cb (EvRequest req) w = Ok w' \<and> http_inv F w'"
proof -
  let ?k = "rr_connection_id req" and ?cx = "hw_ctx w" and ?t = "cx_pending_cleanups (hw_ctx w)"
  note I = inv [unfolded http_inv_def]
  obtain r st where r: "on_request cb (cx_callbacks ?cx) ?k (request_of_raw lib req) = (r, st)"
    by fastforce
  let ?cx' = "?cx\<lparr>cx_callbacks := st\<rparr>"
  have hk: "heap_ok (hw_heap w)" and tk: "resp.table_ok F ?t (hw_heap w)" using I by simp_all
  obtain c cl h' where cv: "convert_response_to_c r ?k ?cx' (hw_heap w) =
      res_bind (table_put cleanup_drop ?k cl (cx_pending_cleanups ?cx') h')
        (\<lambda>(t, h). Ok (c, ?cx'\<lparr>cx_pending_cleanups := t\<rparr>, h))"
    and c: "represents r c h'" "c_ptrs c \<subseteq> set (cleanup_ptrs cl)" "cleanup_good cl h'"
      "live h' = live (hw_heap w) \<union> set (cleanup_ptrs cl)"
      "live (hw_heap w) \<inter> set (cleanup_ptrs cl) = {}"
      "\<And>q. q \<in> live (hw_heap w) \<Longrightarrow> cells h' q = cells (hw_heap w) q" "heap_ok h'"
    by (rule convert_allocates [OF hk, of r ?k ?cx']) (rule that)
  let ?t' = "(?k, cl) # filter (\<lambda>e. fst e \<noteq> ?k) ?t"
  obtain h'' where p: "table_put cleanup_drop ?k cl ?t h' = Ok (?t', h'')"
    "resp.table_ok F ?t' h''" "heap_ok h''"
    and kp: "\<And>v p. p \<in> set (cleanup_ptrs v) \<Longrightarrow> v = cl \<or> (\<exists>j. j \<noteq> ?k \<and> map_of ?t j = Some v) \<Longrightarrow>
        cells h'' p = cells h' p"
    using resp.table_put_ok [OF _ c(3-6), of F ?t ?k] I c(7) by blast
  let ?w = "w\<lparr>hw_ctx := ?cx\<lparr>cx_callbacks := st, cx_pending_cleanups := ?t'\<rparr>, hw_heap := h'',
    hw_sending := (hw_sending w)(?k \<mapsto> (r, c))\<rparr>"
  have "http_handle lib cb (EvRequest req) w = Ok ?w"
    using k r cv p(1) by (simp add: request_trampoline_def Let_def)
  moreover have "sending_ok ?w"
    unfolding sending_ok_def
  proof (intro allI impI)
    fix j r' c' assume s: "hw_sending ?w j = Some (r', c')"
    show "j \<in> hw_open ?w \<and> represents r' c' (hw_heap ?w) \<and>
      (\<exists>cl. map_of (cx_pending_cleanups (hw_ctx ?w)) j = Some cl \<and> c_ptrs c' \<subseteq> set (cleanup_ptrs cl))"
    proof (cases "j = ?k")
      case True
      then show ?thesis using s c(1,2) k kp sending_frame [OF c(1,2), of h''] by auto
    next
      case False
      then have "hw_sending w j = Some (r', c')" using s by simp
      then obtain v where v: "j \<in> hw_open w" "represents r' c' (hw_heap w)"
        "map_of ?t j = Some v" "c_ptrs c' \<subseteq> set (cleanup_ptrs v)"
        by (rule sending_entry [OF inv])
      have "set (cleanup_ptrs v) \<subseteq> live (hw_heap w)"
        by (rule resp.good_live [OF resp.table_ok_entry [OF tk v(3)]])
      then have "cells h'' p = cells (hw_heap w) p" if "p \<in> set (cleanup_ptrs v)" for p
        using subsetD [OF _ that, THEN c(6)] kp [OF that] v(3) False by auto
      then show ?thesis using v False sending_frame [OF v(2,4), of h'']
        by (auto simp: map_of_filter_key)
    qed
  qed
  ultimately show ?thesis using I p(2,3) by (intro exI [of _ ?w]) (simp add: http_inv_def)
qed

lemma close_keeps_inv:
  assumes inv: "http_inv F w" and k: "k \<in> hw_open w"
  shows "\<exists>w'. http_handle lib cb (EvClose k reason) w = Ok w' \<and> http_inv F w'"
proof -
  let ?cx = "hw_ctx w" and ?t = "cx_pending_cleanups (hw_ctx w)"
  let ?t' = "filter (\<lambda>e. fst e \<noteq> k) ?t"
  note I = inv [unfolded http_inv_def]
  obtain h' where p: "table_remove cleanup_drop k ?t (hw_heap w) = Ok (?t', h')"
    "resp.table_ok F ?t' h'" "heap_ok h'"
    and kp: "\<And>j v p. p \<in> set (cleanup_ptrs v) \<Longrightarrow> j \<noteq> k \<Longrightarrow> map_of ?t j = Some v \<Longrightarrow>
        cells h' p = cells (hw_heap w) p"
    using resp.table_remove_ok [of F ?t "hw_heap w" k] I by blast
  obtain cx' where cx': "close_trampoline lib cb k reason ?cx (hw_heap w) = Ok (cx', h')"
    "cx_pending_cleanups cx' = ?t'" "cx_connection_count cx' = cx_connection_count ?cx - 1"
    using p(1) by (auto simp: close_trampoline_def Let_def split: option.splits)
  let ?w = "w\<lparr>hw_ctx := cx', hw_heap := h', hw_open := hw_open w - {k},
    hw_sending := (hw_sending w)(k := None)\<rparr>"
  have "card (hw_open w) = Suc (card (hw_open w - {k}))" using k I card_Suc_Diff1 [of "hw_open w" k] by simp
  then have "cx_connection_count cx' = word_of_nat (card (hw_open w - {k}))"
    using cx'(3) I by simp
  moreover have "sending_ok ?w"
    unfolding sending_ok_def
  proof (intro allI impI)
    fix j r c assume "hw_sending ?w j = Some (r, c)"
    then have j: "j \<noteq> k" "hw_sending w j = Some (r, c)" by (auto split: if_splits)
    then obtain v where v: "j \<in> hw_open w" "represents r c (hw_heap w)"
      "map_of ?t j = Some v" "c_ptrs c \<subseteq> set (cleanup_ptrs v)"
      using sending_entry [OF inv j(2)] by blast
    then show "j \<in> hw_open ?w \<and> represents r c (hw_heap ?w) \<and>
      (\<exists>cl. map_of (cx_pending_cleanups (hw_ctx ?w)) j = Some cl \<and> c_ptrs c \<subseteq> set (cleanup_ptrs cl))"
      using j(1) cx'(2) sending_frame [OF v(2,4), of h'] kp [OF _ j(1) v(3)]
      by (auto simp: map_of_filter_key)
  qed
  ultimately show ?thesis using I p(2,3) cx' by (intro exI [of _ ?w]) (simp add: http_inv_def)
qed

lemma handle_keeps_inv:
  assumes "http_inv F w" and "admissible ev w"
  shows "\<exists>w'. http_handle lib cb ev w = Ok w' \<and> http_inv F w'"
proof (cases ev)
  case (EvRequest req)
  then show ?thesis using assms request_keeps_inv by auto
next
  case (EvClose k reason)
  then show ?thesis using assms close_keeps_inv by auto
qed (use assms in \<open>auto simp: http_inv_def sending_ok_def open_trampoline_def\<close>)

lemma reach_keeps_inv: "http_reach lib cb w0 w \<Longrightarrow> http_inv F w0 \<Longrightarrow> http_inv F w"
proof (induction rule: http_reach.induct)
  case (event w ev w')
  then show ?case using handle_keeps_inv [of F w ev lib cb] by auto
qed

lemma server_new_ctx:
  "server_new lib place params c n = Ok sv \<Longrightarrow>
   cx_pending_cleanups (sv_ctx sv) = [] \<and> cx_connection_count (sv_ctx sv) = 0"
  by (auto simp: server_new_def Let_def split: if_splits)

lemma start_inv:
  "heap_ok h \<Longrightarrow> cx_pending_cleanups cx = [] \<Longrightarrow> cx_connection_count cx = 0 \<Longrightarrow>
   http_inv (live h) (http_start cx h)"
  by (simp add: http_inv_def http_start_def sending_ok_def resp.table_ok_empty)

section \<open>Properties\<close>

text \<open>C5: memory safety of the HTTP server. Whatever sequence of callbacks the C server makes from a new
  server on, every response it is still sending can be read through its pointers and is the status,
  headers and body the application answered; no callback fails or releases memory twice; the
  connection counter is the number of open connections; and dropping the server releases exactly what
  the server had allocated.\<close>

theorem http_responses_stay_valid:
  assumes "server_new lib place params c n = Ok sv0" and "heap_ok h0"
    and "http_reach lib cb (http_start (sv_ctx sv0) h0) w"
  shows "(\<forall>k r c. hw_sending w k = Some (r, c) \<longrightarrow> represents r c (hw_heap w)) \<and>
    (\<forall>ev. admissible ev w \<longrightarrow> (\<exists>w'. http_handle lib cb ev w = Ok w')) \<and>
    connection_count (sv0\<lparr>sv_ctx := hw_ctx w\<rparr>) = word_of_nat (card (hw_open w)) \<and>
    (\<exists>h'. server_drop (sv0\<lparr>sv_ctx := hw_ctx w\<rparr>) (hw_heap w) = Ok h' \<and> live h' = live h0)"
proof -
  have "http_inv (live h0) (http_start (sv_ctx sv0) h0)"
    by (intro start_inv assms(2)) (use server_new_ctx [OF assms(1)] in auto)
  from reach_keeps_inv [OF assms(3) this] have inv: "http_inv (live h0) w" .
  show ?thesis
  proof (intro conjI allI impI)
    show "represents r c (hw_heap w)" if "hw_sending w k = Some (r, c)" for k r c
      by (rule sending_entry [OF inv that])
    show "\<exists>w'. http_handle lib cb ev w = Ok w'" if "admissible ev w" for ev
      using handle_keeps_inv [OF inv that] by blast
    show "connection_count (sv0\<lparr>sv_ctx := hw_ctx w\<rparr>) = word_of_nat (card (hw_open w))"
      using inv by (simp add: http_inv_def connection_count_def)
    have "resp.table_ok (live h0) (cx_pending_cleanups (hw_ctx w)) (hw_heap w)"
      using inv by (simp add: http_inv_def)
    from resp.table_drop_ok [OF this]
    show "\<exists>h'. server_drop (sv0\<lparr>sv_ctx := hw_ctx w\<rparr>) (hw_heap w) = Ok h' \<and> live h' = live h0"
      by (simp add: server_drop_def)
  qed
qed

text \<open>A concrete library for the witnesses: the constants of the bindings, a server of 256 bytes.\<close>

definition sample_http_lib :: http_lib where
  "sample_http_lib = \<lparr>METHOD_GET = 0, METHOD_POST = 1, METHOD_PUT = 2, METHOD_OPTIONS = 3,
     CLOSE_OK = -1, CLOSE_PEER_RESET = -2, CLOSE_TOO_SLOW = -3, CLOSE_BAD_REQUEST = -4,
     c_method_str = \<lambda>m. if m = 0 then Some (ascii ''GET'') else None, c_close_reason_str = \<lambda>_. None,
     c_align = 128, c_footprint = \<lambda>_. 256, c_new = \<lambda>a _. a, c_join = \<lambda>a. a,
     c_listen = \<lambda>_ _ _. True\<rparr>"

definition sample_raw :: raw_request where
  "sample_raw = \<lparr>rr_connection_id = 7, rr_method = 0, rr_path = Some (ascii ''/x''),
     rr_content_type = None, rr_accept_encoding = None, rr_post_body = None, rr_ctx = True\<rparr>"

definition sample_cb :: "unit server_callbacks" where
  "sample_cb = trait_defaults (\<lambda>c _ q. (response_header (response_body response_ok (rq_path q))
     (ascii ''Content-Type'') (ascii ''text/plain''), c))"

definition sample_c_response :: c_response where
  "sample_c_response = default_error_response\<lparr>c_status := 200, c_static_body := 1,
     c_static_body_len := 2, c_content_type := 2\<rparr>"

lemma sample_http_new:
  "\<exists>sv. server_new sample_http_lib (\<lambda>_. 4100) params_builder_new () 1024 = Ok sv"
  by (simp add: server_new_def Let_def sample_http_lib_def align_up_def)

definition sample_answer :: response where
  "sample_answer = response_header (response_body response_ok (ascii ''/x''))
     (ascii ''Content-Type'') (ascii ''text/plain'')"

lemma sample_answer_fields:
  "rs_status sample_answer = 200" "rs_body sample_answer = [47, 120]" "rs_body sample_answer \<noteq> []"
  "rs_headers sample_answer = [(ascii ''Content-Type'', ascii ''text/plain'')]"
  by (code_simp+)

lemma sample_answer_headers:
  "find_header (rs_headers sample_answer) (ascii ''content-type'') = Some (ascii ''text/plain'')"
  "find_header (rs_headers sample_answer) (ascii ''cache-control'') = None"
  "find_header (rs_headers sample_answer) (ascii ''content-encoding'') = None"
  "find_header (rs_headers sample_answer) (ascii ''access-control-allow-origin'') = None"
  "find_header (rs_headers sample_answer) (ascii ''access-control-allow-methods'') = None"
  "find_header (rs_headers sample_answer) (ascii ''access-control-allow-headers'') = None"
  "max_age_of sample_answer = 0"
  by (code_simp+)

lemma sample_raw_sel: "rr_connection_id sample_raw = 7" "rr_ctx sample_raw"
  by (simp_all add: sample_raw_def)

lemma sample_path: "rq_path (request_of_raw sample_http_lib sample_raw) = ascii ''/x''"
  by code_simp

lemma sample_http_run:
  assumes "server_new sample_http_lib (\<lambda>_. 4100) params_builder_new () 1024 = Ok sv"
  shows "\<exists>w. http_reach sample_http_lib sample_cb (http_start (sv_ctx sv) heap_empty) w \<and>
    hw_open w = {7} \<and>
    hw_sending w 7 = Some (sample_answer, sample_c_response)"
proof -
  let ?w0 = "http_start (sv_ctx sv) heap_empty"
  obtain w1 where w1: "http_handle sample_http_lib sample_cb (EvOpen 7) ?w0 = Ok w1" by simp
  then have s1: "hw_open w1 = {7}" "hw_sending w1 = (\<lambda>_. None)" "hw_heap w1 = heap_empty"
    "cx_pending_cleanups (hw_ctx w1) = []"
    using server_new_ctx [OF assms] by (auto simp: http_start_def open_trampoline_def)
  have r1: "http_reach sample_http_lib sample_cb ?w0 w1"
    by (rule http_reach.event [OF http_reach.start _ w1]) (simp add: http_start_def)
  obtain w2 where w2: "http_handle sample_http_lib sample_cb (EvRequest sample_raw) w1 = Ok w2"
    "hw_open w2 = {7}" "hw_sending w2 7 = Some (sample_answer, sample_c_response)"
    using s1 by (simp add: request_trampoline_def sample_cb_def trait_defaults_def sample_path
        sample_answer_def [symmetric] sample_answer_fields(1,2) sample_answer_headers sample_raw_sel
        convert_response_to_c_def body_to_c_def header_to_c_str_def h_alloc_def heap_empty_def
        table_put_def sample_c_response_def default_error_response_def Let_def)
  then show ?thesis
    using http_reach.event [OF r1, of "EvRequest sample_raw" w2] s1 by (auto simp: sample_raw_def)
qed

theorem http_responses_stay_valid_witness:
  "\<exists>(w :: unit http_world) r. hw_sending w 7 = Some (r, sample_c_response) \<and> rs_body r = ascii ''/x'' \<and>
     represents r sample_c_response (hw_heap w)"
proof -
  obtain sv where sv: "server_new sample_http_lib (\<lambda>_. 4100) params_builder_new () 1024 = Ok sv"
    using sample_http_new by auto
  from sample_http_run [OF sv] obtain w where
    w: "http_reach sample_http_lib sample_cb (http_start (sv_ctx sv) heap_empty) w"
    "hw_sending w 7 = Some (sample_answer, sample_c_response)" by auto
  from http_responses_stay_valid [OF sv heap_empty_ok(1) w(1)] w(2) show ?thesis
    by (intro exI [of _ w] exI [of _ sample_answer]) (auto simp: sample_answer_fields ascii_def)
qed

text \<open>The memory of a new server is big enough. The address that \<open>Server::new\<close> gives to
  \<open>fd_http_server_new\<close> has the alignment the C library asks for, and the footprint it asks for and the
  extra buffer lie inside the allocated vector, when the sum of the three sizes does not exceed 64 bits and
  the vector does not wrap around the address space.\<close>

theorem server_new_region:
  assumes "c_align lib = 2 ^ k" and "k < 64"
    and "unat (c_footprint lib (params_to_raw params)) + unat (c_align lib) + unat n < 2 ^ 64"
    and "unat (place (server_total_size lib params n)) + unat (server_total_size lib params n) \<le> 2 ^ 64"
    and "server_new lib place params c n = Ok sv"
  shows "\<exists>a. c_new lib a (params_to_raw params) \<noteq> 0 \<and>
      sv_server_ptr sv = c_join lib (c_new lib a (params_to_raw params)) \<and>
      unat (c_align lib) dvd unat a \<and> unat (fst (sv_memory sv)) \<le> unat a \<and>
      unat a + unat (c_footprint lib (params_to_raw params)) + unat n
        \<le> unat (fst (sv_memory sv)) + snd (sv_memory sv)"
proof -
  let ?f = "c_footprint lib (params_to_raw params)" and ?t = "server_total_size lib params n"
  let ?a = "align_up (place ?t) (c_align lib)"
  have t: "unat ?t = unat ?f + unat (c_align lib) + unat n"
    using assms(3) unfolding server_total_size_def
    by (simp add: unat_word_ariths)
  have nw: "unat (place ?t) + unat (c_align lib) \<le> 2 ^ 64" using assms(4) t by simp
  note al = align_up_bounds [OF assms(1,2) nw]
  have "c_new lib ?a (params_to_raw params) \<noteq> 0"
    "sv_server_ptr sv = c_join lib (c_new lib ?a (params_to_raw params))"
    "sv_memory sv = (place ?t, unat ?t)"
    using assms(5) by (auto simp: server_new_def Let_def split: if_splits)
  then show ?thesis using al t by (intro exI [of _ ?a]) auto
qed

theorem server_new_region_witness:
  "\<exists>sv. server_new sample_http_lib (\<lambda>_. 4100) params_builder_new () 1024 = Ok sv \<and>
     (\<exists>a :: u64. unat (c_align sample_http_lib) dvd unat a \<and> unat (fst (sv_memory sv)) \<le> unat a \<and>
       unat a + 1280 \<le> unat (fst (sv_memory sv)) + snd (sv_memory sv))"
proof -
  obtain sv where sv: "server_new sample_http_lib (\<lambda>_. 4100) params_builder_new () 1024 = Ok sv"
    using sample_http_new by auto
  have "c_align sample_http_lib = 2 ^ 7" by (simp add: sample_http_lib_def)
  from server_new_region [OF this _ _ _ sv] sv show ?thesis
    by (intro exI [of _ sv] conjI exI [of _ "sv_server_ptr sv"])
      (auto simp: sample_http_lib_def server_total_size_def)
qed

text \<open>Without that bound a caller can make the vector smaller than the server: the sum of the sizes wraps.\<close>

theorem server_total_size_wraps:
  "\<exists>n. unat (server_total_size lib params n) < unat (c_footprint lib (params_to_raw params))"
  if "c_footprint lib (params_to_raw params) \<noteq> 0"
proof -
  have "server_total_size lib params (- (c_footprint lib (params_to_raw params) + c_align lib)) = 0"
    by (simp add: server_total_size_def)
  then show ?thesis using that
    by (intro exI [of _ "- (c_footprint lib (params_to_raw params) + c_align lib)"]) (simp add: unat_gt_0)
qed

text \<open>Codes of the C library: decoding what was encoded gives the method or reason back, except for the
  three methods the library does not know.\<close>

theorem http_codes_round_trip:
  assumes "distinct [METHOD_GET lib, METHOD_POST lib, METHOD_PUT lib, METHOD_OPTIONS lib, 255]"
    and "distinct [CLOSE_OK lib, CLOSE_PEER_RESET lib, CLOSE_TOO_SLOW lib, CLOSE_BAD_REQUEST lib]"
    and "CLOSE_BAD_REQUEST lib < 0"
  shows "method_from_raw lib (method_to_raw lib m) =
      (if m \<in> {Delete, Head, Patch} then None else Some m) \<and>
    reason_from_raw lib (reason_to_raw lib r) = Some r"
  using assms by (cases m; cases r) (auto simp: method_from_raw_def reason_from_raw_def)

end
