(* ===== verification/Http_Url.thy ===== *)
theory Http_Url
  imports Rust_Std "HOL-Library.Sublist"
begin

text \<open>
  The module \<open>url\<close> of \<open>waltz/http/fd_http/src/lib.rs\<close>: the components of a URL. The C functions
  \<open>fd_url_parse_cstr\<close> and \<open>fd_url_unescape\<close> are parameters; the split of what follows the host into
  path, query and fragment is Rust code and is compared with the split of RFC 3986.
\<close>

section \<open>Model\<close>

text \<open>\<open>fd_url_t\<close>: a slice is \<open>None\<close> when its pointer is null.\<close>

record fd_url =
  fu_scheme :: "bytes option"
  fu_host :: "bytes option"
  fu_port :: "bytes option"
  fu_tail :: "bytes option"

record url_lib =
  c_url_parse :: "bytes \<Rightarrow> fd_url option"
  c_url_unescape :: "bytes \<Rightarrow> bytes \<times> nat"

record url_components =
  uc_scheme :: bytes
  uc_host :: bytes
  uc_port :: "u16 option"
  uc_path :: bytes
  uc_query :: "bytes option"
  uc_fragment :: "bytes option"

record url =
  url_original :: bytes
  url_parts :: "url_components option"

definition slice_text :: "bytes option \<Rightarrow> bytes" where
  "slice_text p = (case p of Some s \<Rightarrow> if 0 < length s then from_utf8_lossy s else [] | None \<Rightarrow> [])"

definition slice_port :: "bytes option \<Rightarrow> u16 option" where
  "slice_port p =
     (case p of Some s \<Rightarrow> if 0 < length s then parse_u16 (from_utf8_lossy s) else None | None \<Rightarrow> None)"

abbreviation b_question :: u8 where "b_question \<equiv> 63"
abbreviation b_hash :: u8 where "b_hash \<equiv> 35"

text \<open>\<open>str::find\<close> of an ASCII character: the index of its first byte.\<close>

definition str_find :: "u8 \<Rightarrow> bytes \<Rightarrow> nat option" where
  "str_find c s = (if c \<in> set s then Some (position c s) else None)"

definition split_query :: "bytes \<Rightarrow> bytes \<times> bytes option" where
  "split_query tail =
     (case str_find b_question tail of
        Some query_start \<Rightarrow>
          (take query_start tail,
           if query_start + 1 < length tail then Some (drop (query_start + 1) tail) else None)
      | None \<Rightarrow> (tail, None))"

definition split_fragment :: "bytes option \<Rightarrow> bytes option \<times> bytes option" where
  "split_fragment query =
     (case query of
        Some q \<Rightarrow>
          (case str_find b_hash q of
             Some fragment_start \<Rightarrow>
               (if 0 < fragment_start then Some (take fragment_start q) else None,
                if fragment_start + 1 < length q then Some (drop (fragment_start + 1) q) else None)
           | None \<Rightarrow> (query, None))
      | None \<Rightarrow> (query, None))"

definition components_of :: "fd_url \<Rightarrow> url_components" where
  "components_of u =
     (case split_query (slice_text (fu_tail u)) of (path, query) \<Rightarrow>
      case split_fragment query of (query, fragment) \<Rightarrow>
        \<lparr>uc_scheme = slice_text (fu_scheme u), uc_host = slice_text (fu_host u),
         uc_port = slice_port (fu_port u), uc_path = path, uc_query = query, uc_fragment = fragment\<rparr>)"

definition url_parse :: "url_lib \<Rightarrow> bytes \<Rightarrow> url" where
  "url_parse lib s =
     \<lparr>url_original = s, url_parts = map_option components_of (c_url_parse lib s)\<rparr>"

text \<open>\<open>unescape\<close> rewrites the string in place and returns the new length; the string keeps its old one.\<close>

definition url_unescape :: "url_lib \<Rightarrow> bytes \<Rightarrow> nat \<times> bytes" where
  "url_unescape lib s = (case c_url_unescape lib s of (buf, n) \<Rightarrow> (n, buf))"

section \<open>Reference\<close>

text \<open>
  RFC 3986, section 3: the fragment starts at the first \<open>#\<close>, the query at the first \<open>?\<close> before it.
  Empty queries and fragments are reported as absent.
\<close>

fun cut :: "u8 \<Rightarrow> bytes \<Rightarrow> bytes \<times> bytes" where
  "cut c [] = ([], [])"
| "cut c (x # s) = (if x = c then ([], s) else (x # fst (cut c s), snd (cut c s)))"

definition present :: "bytes \<Rightarrow> bytes option" where
  "present s = (if s = [] then None else Some s)"

definition rfc_split :: "bytes \<Rightarrow> bytes \<times> bytes option \<times> bytes option" where
  "rfc_split s =
     (case cut b_hash s of (rest, fragment) \<Rightarrow>
      case cut b_question rest of (path, query) \<Rightarrow> (path, present query, present fragment))"

lemma cut_position:
  "c \<in> set s \<Longrightarrow> take (position c s) s = fst (cut c s) \<and> drop (Suc (position c s)) s = snd (cut c s)"
  by (induction s) auto

lemma cut_absent: "c \<notin> set s \<Longrightarrow> cut c s = (s, [])"
  by (induction s) auto

lemma set_cut: "set (snd (cut c s)) \<subseteq> set s"
  by (induction s) auto

lemma str_find_cut:
  assumes "str_find c s = Some i"
  shows "take i s = fst (cut c s)" "drop (i + 1) s = snd (cut c s)" "i < length s"
  using assms cut_position [of c s] position_nth [of c s] by (auto simp: str_find_def split: if_splits)

lemma str_find_none: "str_find c s = None \<Longrightarrow> cut c s = (s, [])"
  by (auto simp: str_find_def cut_absent split: if_splits)

lemma split_query_cut: "split_query s = (fst (cut b_question s), present (snd (cut b_question s)))"
  using str_find_cut [of b_question s] str_find_none [of b_question s]
  by (auto simp: split_query_def present_def split: option.splits)

lemma split_fragment_cut:
  "split_fragment (present s) = (present (fst (cut b_hash s)), present (snd (cut b_hash s)))"
proof (cases "s = []")
  case True
  then show ?thesis by (simp add: split_fragment_def present_def)
next
  case False
  show ?thesis
  proof (cases "str_find b_hash s")
    case None
    then show ?thesis using False by (simp add: split_fragment_def present_def str_find_none)
  next
    case (Some i)
    note c = str_find_cut [OF Some]
    have "fst (cut b_hash s) = [] \<longleftrightarrow> i = 0" using c(1,3) by (metis take_eq_Nil less_zeroE list.size(3))
    moreover have "snd (cut b_hash s) = [] \<longleftrightarrow> length s \<le> i + 1" using c(2) by (metis drop_eq_Nil)
    ultimately show ?thesis using False Some c(1,2) by (auto simp: split_fragment_def present_def)
  qed
qed

lemma code_split:
  "components_of u = \<lparr>uc_scheme = slice_text (fu_scheme u), uc_host = slice_text (fu_host u),
     uc_port = slice_port (fu_port u), uc_path = fst (cut b_question (slice_text (fu_tail u))),
     uc_query = present (fst (cut b_hash (snd (cut b_question (slice_text (fu_tail u)))))),
     uc_fragment = present (snd (cut b_hash (snd (cut b_question (slice_text (fu_tail u))))))\<rparr>"
  by (simp add: components_of_def split_query_cut split_fragment_cut)

text \<open>When the question mark comes first, cutting at it first makes no difference.\<close>

lemma cuts_commute:
  "b_hash \<in> set t \<longrightarrow> b_question \<in> set (fst (cut b_hash t)) \<Longrightarrow>
   fst (cut b_question t) = fst (cut b_question (fst (cut b_hash t))) \<and>
   fst (cut b_hash (snd (cut b_question t))) = snd (cut b_question (fst (cut b_hash t))) \<and>
   snd (cut b_hash (snd (cut b_question t))) = snd (cut b_hash t)"
proof (cases "b_hash \<in> set t")
  case False
  then have "b_hash \<notin> set (snd (cut b_question t))" using set_cut by blast
  then show ?thesis using False by (simp add: cut_absent)
next
  case True
  assume "b_hash \<in> set t \<longrightarrow> b_question \<in> set (fst (cut b_hash t))"
  then show ?thesis using True by (induction t) (auto split: if_splits)
qed

lemma cuts_differ:
  "b_hash \<in> set t \<Longrightarrow> b_question \<notin> set (fst (cut b_hash t)) \<Longrightarrow> b_hash \<in> set (fst (cut b_question t))"
  by (induction t) (auto split: if_splits)

lemma hash_not_in_rfc_path: "b_hash \<notin> set (fst (cut b_question (fst (cut b_hash t))))"
proof -
  have "set (fst (cut c s)) \<subseteq> set s" for c s by (induction s) auto
  moreover have "b_hash \<notin> set (fst (cut b_hash t))" by (induction t) auto
  ultimately show ?thesis by blast
qed

section \<open>Properties\<close>

text \<open>C24: the split of a URL into path, query and fragment agrees with RFC 3986 (empty parts reported as
  absent) exactly on the texts in which a fragment, if there is one, is preceded by a query; scheme, host
  and port are what the C parser found.\<close>

theorem url_parse_matches_rfc:
  assumes "c_url_parse lib s = Some u"
  shows "\<exists>c. url_parts (url_parse lib s) = Some c \<and> uc_scheme c = slice_text (fu_scheme u) \<and>
    uc_host c = slice_text (fu_host u) \<and> uc_port c = slice_port (fu_port u) \<and>
    ((uc_path c, uc_query c, uc_fragment c) = rfc_split (slice_text (fu_tail u)) \<longleftrightarrow>
     (b_hash \<in> set (slice_text (fu_tail u)) \<longrightarrow>
      b_question \<in> set (fst (cut b_hash (slice_text (fu_tail u))))))"
proof -
  let ?t = "slice_text (fu_tail u)" and ?c = "components_of u"
  have "(uc_path ?c, uc_query ?c, uc_fragment ?c) = rfc_split ?t \<longleftrightarrow>
     (b_hash \<in> set ?t \<longrightarrow> b_question \<in> set (fst (cut b_hash ?t)))"
    (is "?eq \<longleftrightarrow> ?ok")
  proof
    show ?eq if ?ok
      using cuts_commute [OF that] by (simp add: code_split rfc_split_def split_beta)
    assume ?eq
    then have "fst (cut b_question ?t) = fst (cut b_question (fst (cut b_hash ?t)))"
      by (simp add: code_split rfc_split_def split_beta)
    then show ?ok using cuts_differ [of ?t] hash_not_in_rfc_path [of ?t] by auto
  qed
  then show ?thesis using assms
    by (intro exI [of _ ?c]) (simp add: url_parse_def code_split)
qed

definition sample_url_lib :: url_lib where
  "sample_url_lib = \<lparr>c_url_parse = \<lambda>s. Some \<lparr>fu_scheme = Some (ascii ''http''), fu_host = Some (ascii ''h''),
     fu_port = None, fu_tail = Some (drop 8 s)\<rparr>, c_url_unescape = \<lambda>s. (s, length s)\<rparr>"

theorem url_parse_matches_rfc_witness:
  "\<exists>c. url_parts (url_parse sample_url_lib (ascii ''http://h/p?q#f'')) = Some c \<and>
     (uc_path c, uc_query c, uc_fragment c) = rfc_split (ascii ''/p?q#f'')"
proof -
  let ?s = "ascii ''http://h/p?q#f''"
  let ?u = "\<lparr>fu_scheme = Some (ascii ''http''), fu_host = Some (ascii ''h''), fu_port = None,
     fu_tail = Some (ascii ''/p?q#f'')\<rparr>"
  have "c_url_parse sample_url_lib ?s = Some ?u" by (simp add: sample_url_lib_def ascii_def)
  moreover have "slice_text (fu_tail ?u) = ascii ''/p?q#f''" by code_simp
  moreover have "b_question \<in> set (fst (cut b_hash (ascii ''/p?q#f'')))" by code_simp
  ultimately show ?thesis using url_parse_matches_rfc [of sample_url_lib ?s ?u] by metis
qed

text \<open>A fragment without a query ends up in the path.\<close>

theorem fragment_stays_in_path:
  "b_question \<notin> set p \<Longrightarrow> b_question \<notin> set f \<Longrightarrow>
   slice_text (fu_tail u) = p @ b_hash # f \<Longrightarrow>
   uc_path (components_of u) = p @ b_hash # f \<and> uc_fragment (components_of u) = None"
  by (simp add: code_split cut_absent present_def)

end
