(* ===== verification/Clock_Shmem.thy ===== *)
theory Clock_Shmem
  imports Ownership Rust_Std
begin

text \<open>
  Handles to shared clocks, \<open>util/clock/fd_clock/src/lib.rs\<close>: the constructors and the destructor of
  \<open>ClockShmem\<close> (owner and observer of POSIX shared memory or of caller memory), the joins with their
  process-local memory, and the error codes. The system calls and the C clock are parameters (record
  \<open>posix\<close>), with a system state that every call threads; \<open>f64\<close> values are passed through to C
  untouched and are of an opaque type. The reading and calibration of a joined clock
  (\<open>now\<close>, \<open>recal\<close>, \<open>step\<close>, \<open>ClockEpoch\<close> and the accessors) are single C calls.
\<close>

section \<open>Model\<close>

datatype clock_error = XClockMisbehaved | YClockMisbehaved | InvalidParams string | InitFailed |
  JoinFailed | ShmemOpen int | ShmemTruncate int | ShmemMmap int

record 'f clock_config =
  recal_avg :: int
  recal_jit :: int
  recal_hist :: 'f
  recal_frac :: 'f

text \<open>
  A file descriptor is negative on failure, \<open>mmap\<close> gives \<open>None\<close> for \<open>MAP_FAILED\<close>, a null pointer
  is 0. Names are what C reads from the buffer, up to the first zero byte.
\<close>

record ('s, 'f) posix =
  f64_zero :: 'f
  CLOCK_FOOTPRINT :: nat
  CLOCK_SUCCESS :: int
  CLOCK_ERR_X :: int
  CLOCK_ERR_Y :: int
  shm_open :: "bytes \<Rightarrow> bool \<Rightarrow> 's \<Rightarrow> int \<times> 's"
  ftruncate :: "int \<Rightarrow> nat \<Rightarrow> 's \<Rightarrow> bool \<times> 's"
  mmap :: "nat \<Rightarrow> int \<Rightarrow> 's \<Rightarrow> nat option \<times> 's"
  munmap :: "nat \<Rightarrow> nat \<Rightarrow> 's \<Rightarrow> 's"
  close_fd :: "int \<Rightarrow> 's \<Rightarrow> 's"
  shm_unlink :: "bytes \<Rightarrow> 's \<Rightarrow> 's"
  last_errno :: "'s \<Rightarrow> int option"
  clock_new :: "nat \<Rightarrow> 'f clock_config \<Rightarrow> int \<Rightarrow> int \<Rightarrow> 'f \<Rightarrow> 's \<Rightarrow> nat \<times> 's"
  clock_delete :: "nat \<Rightarrow> 's \<Rightarrow> 's"
  clock_join :: "nat \<Rightarrow> nat \<Rightarrow> 's \<Rightarrow> nat \<times> 's"
  clock_leave :: "nat \<Rightarrow> 's \<Rightarrow> 's"
  clock_joint_read :: "'s \<Rightarrow> int \<times> int \<times> int \<times> int"

definition clock_error_from_ffi :: "('s, 'f) posix \<Rightarrow> int \<Rightarrow> clock_error" where
  "clock_error_from_ffi os code =
     (if code = CLOCK_ERR_X os then XClockMisbehaved
      else if code = CLOCK_ERR_Y os then YClockMisbehaved
      else XClockMisbehaved)"

definition clock_config_new :: "('s, 'f) posix \<Rightarrow> int \<Rightarrow> 'f clock_config" where
  "clock_config_new os avg =
     \<lparr>recal_avg = avg, recal_jit = 0, recal_hist = f64_zero os, recal_frac = f64_zero os\<rparr>"

definition with_jitter :: "'f clock_config \<Rightarrow> int \<Rightarrow> 'f clock_config" where
  "with_jitter c jit = c\<lparr>recal_jit := jit\<rparr>"

definition with_history :: "'f clock_config \<Rightarrow> 'f \<Rightarrow> 'f clock_config" where
  "with_history c h = c\<lparr>recal_hist := h\<rparr>"

definition with_frac :: "'f clock_config \<Rightarrow> 'f \<Rightarrow> 'f clock_config" where
  "with_frac c f = c\<lparr>recal_frac := f\<rparr>"

text \<open>\<open>JointReadResult { x, y, dx }\<close>; the C function returns its code and the three values.\<close>

definition joint_read :: "('s, 'f) posix \<Rightarrow> 's \<Rightarrow> (int \<times> int \<times> int, clock_error) res" where
  "joint_read os s =
     (case clock_joint_read os s of (err, x, y, dx) \<Rightarrow>
        if err \<noteq> CLOCK_SUCCESS os then Err (clock_error_from_ffi os err) else Ok (x, y, dx))"

datatype shmem_backing = OwnedPtr | BorrowedPtr | OwnedPosixShm int nat nat bytes |
  BorrowedPosixShm int nat nat

record clock_shmem =
  cs_shclock :: nat
  cs_backing :: shmem_backing

text \<open>\<open>name.len() >= 255\<close> is refused; the buffer of 256 bytes ends in zeros.\<close>

definition validate_shm_name :: "bytes \<Rightarrow> (bytes, clock_error) res" where
  "validate_shm_name name =
     (if name = [] \<or> 255 \<le> length name then Err (InvalidParams ''shm name too long or empty'')
      else copy_from_slice (replicate 256 0) 0 (length name) name)"

definition last_os_errno :: "('s, 'f) posix \<Rightarrow> 's \<Rightarrow> int" where
  "last_os_errno os s = (case last_errno os s of Some e \<Rightarrow> e | None \<Rightarrow> -1)"

definition posix_shm_mmap ::
  "('s, 'f) posix \<Rightarrow> bytes \<Rightarrow> bool \<Rightarrow> nat \<Rightarrow> 's \<Rightarrow> (int \<times> nat, clock_error) res \<times> 's" where
  "posix_shm_mmap os name_buf creat len s =
     (case shm_open os (cstr_bytes name_buf) creat s of (fd, s) \<Rightarrow>
      if fd < 0 then (Err (ShmemOpen (last_os_errno os s)), s)
      else
        (case (if creat then ftruncate os fd len s else (True, s)) of (done, s) \<Rightarrow>
         if \<not> done then (Err (ShmemTruncate (last_os_errno os s)), close_fd os fd s)
         else
           (case mmap os len fd s of
              (None, s) \<Rightarrow> (Err (ShmemMmap (last_os_errno os s)), close_fd os fd s)
            | (Some p, s) \<Rightarrow> (Ok (fd, p), s))))"

definition clock_init ::
  "('s, 'f) posix \<Rightarrow> bytes \<Rightarrow> 'f clock_config \<Rightarrow> int \<Rightarrow> int \<Rightarrow> 'f \<Rightarrow> 's \<Rightarrow>
   (clock_shmem, clock_error) res \<times> 's" where
  "clock_init os name config x0 y0 w s =
     (case validate_shm_name name of
        Err e \<Rightarrow> (Err e, s)
      | Panic \<Rightarrow> (Panic, s)
      | Ok name_buf \<Rightarrow>
          (case posix_shm_mmap os name_buf True (CLOCK_FOOTPRINT os) s of
             (Err e, s) \<Rightarrow> (Err e, s)
           | (Panic, s) \<Rightarrow> (Panic, s)
           | (Ok (fd, map_ptr), s) \<Rightarrow>
               (case clock_new os map_ptr config x0 y0 w s of (result, s) \<Rightarrow>
                if result \<noteq> 0 then
                  (Ok \<lparr>cs_shclock = result,
                       cs_backing = OwnedPosixShm fd map_ptr (CLOCK_FOOTPRINT os) name_buf\<rparr>, s)
                else
                  (Err InitFailed,
                   shm_unlink os (cstr_bytes name_buf)
                     (close_fd os fd (munmap os map_ptr (CLOCK_FOOTPRINT os) s))))))"

definition clock_open :: "('s, 'f) posix \<Rightarrow> bytes \<Rightarrow> 's \<Rightarrow> (clock_shmem, clock_error) res \<times> 's" where
  "clock_open os name s =
     (case validate_shm_name name of
        Err e \<Rightarrow> (Err e, s)
      | Panic \<Rightarrow> (Panic, s)
      | Ok name_buf \<Rightarrow>
          (case posix_shm_mmap os name_buf False (CLOCK_FOOTPRINT os) s of
             (Err e, s) \<Rightarrow> (Err e, s)
           | (Panic, s) \<Rightarrow> (Panic, s)
           | (Ok (fd, map_ptr), s) \<Rightarrow>
               if map_ptr = 0 then
                 (Err InitFailed, close_fd os fd (munmap os map_ptr (CLOCK_FOOTPRINT os) s))
               else
                 (Ok \<lparr>cs_shclock = map_ptr,
                      cs_backing = BorrowedPosixShm fd map_ptr (CLOCK_FOOTPRINT os)\<rparr>, s)))"

definition clock_init_from_ptr ::
  "('s, 'f) posix \<Rightarrow> nat \<Rightarrow> 'f clock_config \<Rightarrow> int \<Rightarrow> int \<Rightarrow> 'f \<Rightarrow> 's \<Rightarrow>
   (clock_shmem, clock_error) res \<times> 's" where
  "clock_init_from_ptr os shmem config x0 y0 w s =
     (case clock_new os shmem config x0 y0 w s of (result, s) \<Rightarrow>
        if result = 0 then (Err InitFailed, s)
        else (Ok \<lparr>cs_shclock = result, cs_backing = OwnedPtr\<rparr>, s))"

definition clock_from_ptr :: "nat \<Rightarrow> (clock_shmem, clock_error) res" where
  "clock_from_ptr shclock =
     (if shclock = 0 then Err (InvalidParams ''null pointer'')
      else Ok \<lparr>cs_shclock = shclock, cs_backing = BorrowedPtr\<rparr>)"

definition clock_shmem_drop :: "('s, 'f) posix \<Rightarrow> clock_shmem \<Rightarrow> 's \<Rightarrow> 's" where
  "clock_shmem_drop os cs s =
     (case cs_backing cs of
        OwnedPtr \<Rightarrow> clock_delete os (cs_shclock cs) s
      | BorrowedPtr \<Rightarrow> s
      | OwnedPosixShm fd map_ptr map_len name \<Rightarrow>
          shm_unlink os (cstr_bytes name)
            (close_fd os fd (munmap os map_ptr map_len (clock_delete os (cs_shclock cs) s)))
      | BorrowedPosixShm fd map_ptr map_len \<Rightarrow> close_fd os fd (munmap os map_ptr map_len s))"

text \<open>
  \<open>ClockJoin\<close>: \<open>oom\<close> tells whether the allocator returns null. The layout of the local memory is a
  constant of the bindings and always valid.
\<close>

record clock_join_handle =
  cj_lmem :: nat

definition clock_join_new ::
  "('s, 'f) posix \<Rightarrow> bool \<Rightarrow> clock_shmem \<Rightarrow> 's \<times> unit heap \<Rightarrow>
   (clock_join_handle, clock_error) res \<times> 's \<times> unit heap" where
  "clock_join_new os oom shmem st =
     (if oom then (Err JoinFailed, st)
      else
        (case h_alloc () (snd st) of (lmem, h) \<Rightarrow>
         case clock_join os lmem (cs_shclock shmem) (fst st) of (handle, s) \<Rightarrow>
           if handle = 0 then
             (case h_free lmem h of
                Ok h \<Rightarrow> (Err JoinFailed, s, h)
              | Err e \<Rightarrow> (Err e, s, h)
              | Panic \<Rightarrow> (Panic, s, h))
           else (Ok \<lparr>cj_lmem = lmem\<rparr>, s, h)))"

definition clock_join_drop ::
  "('s, 'f) posix \<Rightarrow> clock_join_handle \<Rightarrow> 's \<times> unit heap \<Rightarrow> (('s \<times> unit heap), clock_error) res" where
  "clock_join_drop os j st =
     res_bind (h_free (cj_lmem j) (snd st)) (\<lambda>h. Ok (clock_leave os (cj_lmem j) (fst st), h))"

section \<open>Laws of the system\<close>

text \<open>
  What the code relies on of POSIX and of the clock library, over the resources of the process: open
  descriptors, mappings, names of shared memory objects, and the addresses at which a clock has been
  created and not deleted.
\<close>

locale posix_shm =
  fixes os :: "('s, 'f) posix"
    and fds :: "'s \<Rightarrow> int set"
    and maps :: "'s \<Rightarrow> (nat \<times> nat) set"
    and names :: "'s \<Rightarrow> bytes set"
    and clocks :: "'s \<Rightarrow> nat set"
  assumes shm_open_ok: "shm_open os n c s = (fd, s') \<Longrightarrow> 0 \<le> fd \<Longrightarrow>
      fd \<notin> fds s \<and> fds s' = insert fd (fds s) \<and> (\<not> c \<longrightarrow> n \<in> names s) \<and>
      names s' = insert n (names s) \<and> maps s' = maps s \<and> clocks s' = clocks s"
    and shm_open_fail: "shm_open os n c s = (fd, s') \<Longrightarrow> fd < 0 \<Longrightarrow>
      fds s' = fds s \<and> names s' = names s \<and> maps s' = maps s \<and> clocks s' = clocks s"
    and ftruncate_keeps: "ftruncate os fd len s = (b, s') \<Longrightarrow>
      fds s' = fds s \<and> names s' = names s \<and> maps s' = maps s \<and> clocks s' = clocks s"
    and mmap_ok: "mmap os len fd s = (Some p, s') \<Longrightarrow>
      p \<notin> fst ` maps s \<and> p \<notin> clocks s \<and> maps s' = insert (p, len) (maps s) \<and>
      fds s' = fds s \<and> names s' = names s \<and> clocks s' = clocks s"
    and mmap_fail: "mmap os len fd s = (None, s') \<Longrightarrow>
      fds s' = fds s \<and> names s' = names s \<and> maps s' = maps s \<and> clocks s' = clocks s"
    and munmap_law: "maps (munmap os p len s) = maps s - {(p, len)}" "fds (munmap os p len s) = fds s"
      "names (munmap os p len s) = names s" "clocks (munmap os p len s) = clocks s"
    and close_law: "fds (close_fd os fd s) = fds s - {fd}" "maps (close_fd os fd s) = maps s"
      "names (close_fd os fd s) = names s" "clocks (close_fd os fd s) = clocks s"
    and unlink_law: "names (shm_unlink os n s) = names s - {n}" "fds (shm_unlink os n s) = fds s"
      "maps (shm_unlink os n s) = maps s" "clocks (shm_unlink os n s) = clocks s"
    and clock_new_ok: "clock_new os p cfg x y w s = (q, s') \<Longrightarrow> q \<noteq> 0 \<Longrightarrow>
      q = p \<and> clocks s' = insert p (clocks s) \<and> fds s' = fds s \<and> names s' = names s \<and> maps s' = maps s"
    and clock_new_fail: "clock_new os p cfg x y w s = (0, s') \<Longrightarrow>
      clocks s' = clocks s \<and> fds s' = fds s \<and> names s' = names s \<and> maps s' = maps s"
    and clock_delete_law: "clocks (clock_delete os p s) = clocks s - {p}"
      "fds (clock_delete os p s) = fds s" "names (clock_delete os p s) = names s"
      "maps (clock_delete os p s) = maps s"
begin

lemmas laws = munmap_law close_law unlink_law clock_delete_law

text \<open>What the pair of open and map leaves behind, on each of its exits.\<close>

lemma posix_shm_mmap_outcome:
  assumes "posix_shm_mmap os buf c len s = (r, s')"
  shows "clocks s' = clocks s \<and>
    (case r of
       Ok (fd, p) \<Rightarrow> fd \<notin> fds s \<and> fds s' = insert fd (fds s) \<and> p \<notin> fst ` maps s \<and> p \<notin> clocks s \<and>
         maps s' = insert (p, len) (maps s) \<and> names s' = insert (cstr_bytes buf) (names s) \<and>
         (\<not> c \<longrightarrow> cstr_bytes buf \<in> names s)
     | Err (ShmemOpen _) \<Rightarrow> fds s' = fds s \<and> maps s' = maps s \<and> names s' = names s
     | Err (ShmemTruncate _) \<Rightarrow> c \<and> fds s' = fds s \<and> maps s' = maps s \<and>
         names s' = insert (cstr_bytes buf) (names s)
     | Err (ShmemMmap _) \<Rightarrow> fds s' = fds s \<and> maps s' = maps s \<and>
         names s' = insert (cstr_bytes buf) (names s) \<and> (\<not> c \<longrightarrow> cstr_bytes buf \<in> names s)
     | _ \<Rightarrow> False)"
proof -
  obtain fd s1 where o: "shm_open os (cstr_bytes buf) c s = (fd, s1)" by fastforce
  show ?thesis
  proof (cases "fd < 0")
    case True
    then show ?thesis using assms shm_open_fail [OF o] by (auto simp: posix_shm_mmap_def o)
  next
    case False
    then have o': "fd \<notin> fds s" "fds s1 = insert fd (fds s)" "\<not> c \<Longrightarrow> cstr_bytes buf \<in> names s"
      "names s1 = insert (cstr_bytes buf) (names s)" "maps s1 = maps s" "clocks s1 = clocks s"
      using shm_open_ok [OF o] by auto
    obtain d s2 where t: "(if c then ftruncate os fd len s1 else (True, s1)) = (d, s2)" by fastforce
    then have t': "fds s2 = fds s1" "maps s2 = maps s1" "names s2 = names s1" "clocks s2 = clocks s1"
      "\<not> d \<Longrightarrow> c"
      using ftruncate_keeps [of fd len s1 d s2] by (auto split: if_splits)
    obtain q s3 where m: "mmap os len fd s2 = (q, s3)" by fastforce
    have e: "(r, s') =
      (if \<not> d then (Err (ShmemTruncate (last_os_errno os s2)), close_fd os fd s2)
       else (case q of None \<Rightarrow> (Err (ShmemMmap (last_os_errno os s3)), close_fd os fd s3)
             | Some p \<Rightarrow> (Ok (fd, p), s3)))"
      using False assms unfolding posix_shm_mmap_def o prod.case t m by (cases q) auto
    show ?thesis
    proof (cases q)
      case None
      then show ?thesis using e o' t' mmap_fail [of len fd s2 s3] m by (cases d) (auto simp: laws)
    next
      case (Some p)
      then show ?thesis using e o' t' mmap_ok [of len fd s2 p s3] m by (cases d) (auto simp: laws)
    qed
  qed
qed

end

section \<open>Names\<close>

lemma validate_shm_name_ok:
  "validate_shm_name name = Ok buf \<longleftrightarrow>
   name \<noteq> [] \<and> length name < 255 \<and> buf = name @ replicate (256 - length name) 0"
  by (auto simp: validate_shm_name_def copy_from_slice_def blit_def)

lemma validate_shm_name_not_panic: "validate_shm_name name \<noteq> Panic"
  by (auto simp: validate_shm_name_def copy_from_slice_def)

lemma validate_shm_name_cstr:
  assumes "validate_shm_name name = Ok buf"
  shows "length buf = 256" "cstr_bytes buf = cstr_bytes name"
proof -
  have n: "length name < 255" "buf = name @ replicate (256 - length name) 0"
    using assms by (simp_all add: validate_shm_name_ok)
  then show "length buf = 256" by simp
  obtain k where "256 - length name = Suc k" using n(1) by (cases "256 - length name") auto
  then have "buf = name @ 0 # replicate k 0" using n(2) by simp
  then show "cstr_bytes buf = cstr_bytes name"
    by (cases "0 \<in> set name")
      (auto simp: cstr_bytes_def takeWhile_append takeWhile_eq_all_conv [THEN iffD2])
qed

section \<open>Lifecycles\<close>

context posix_shm
begin

abbreviation same_but_names :: "'s \<Rightarrow> 's \<Rightarrow> bool" where
  "same_but_names s s' \<equiv> fds s' = fds s \<and> maps s' = maps s \<and> clocks s' = clocks s"

lemma owner_lifecycle:
  "case clock_init os name cfg x0 y0 w s of
     (Ok cs, s') \<Rightarrow> cs_shclock cs \<in> clocks s' \<and> cs_shclock cs \<in> fst ` maps s' \<and>
       cstr_bytes name \<in> names s' \<and> same_but_names s (clock_shmem_drop os cs s') \<and>
       names (clock_shmem_drop os cs s') = names s - {cstr_bytes name}
   | (Err e, s') \<Rightarrow> same_but_names s s' \<and>
       names s' = (case e of ShmemTruncate _ \<Rightarrow> insert (cstr_bytes name) (names s)
         | ShmemMmap _ \<Rightarrow> insert (cstr_bytes name) (names s)
         | InitFailed \<Rightarrow> names s - {cstr_bytes name}
         | _ \<Rightarrow> names s)
   | (Panic, s') \<Rightarrow> False"
proof (cases "validate_shm_name name")
  case (Ok buf)
  obtain r s1 where m: "posix_shm_mmap os buf True (CLOCK_FOOTPRINT os) s = (r, s1)" by fastforce
  note M = posix_shm_mmap_outcome [OF m] and cs = validate_shm_name_cstr(2) [OF Ok]
  show ?thesis
  proof (cases r)
    case r: (Ok fp)
    obtain fd p where fp: "fp = (fd, p)" by fastforce
    obtain q s2 where n: "clock_new os p cfg x0 y0 w s1 = (q, s2)" by fastforce
    show ?thesis
    proof (cases "q = 0")
      case True
      then show ?thesis using clock_new_fail [of p cfg x0 y0 w s1 s2] n M r fp Ok m cs
        by (auto simp: clock_init_def laws image_iff)
    next
      case False
      then show ?thesis using clock_new_ok [OF n] n M r fp Ok m cs
        by (auto simp: clock_init_def clock_shmem_drop_def laws image_iff)
    qed
  next
    case (Err e)
    then show ?thesis using M Ok m cs by (cases e) (auto simp: clock_init_def)
  qed (use M in simp)
next
  case (Err e)
  then show ?thesis
    by (auto simp: clock_init_def validate_shm_name_def copy_from_slice_def split: if_splits)
qed (simp add: validate_shm_name_not_panic)

lemma observer_lifecycle:
  "case clock_open os name s of
     (Ok cs, s') \<Rightarrow> cstr_bytes name \<in> names s \<and> cs_shclock cs \<in> fst ` maps s' \<and> clocks s' = clocks s \<and>
       same_but_names s (clock_shmem_drop os cs s') \<and> names (clock_shmem_drop os cs s') = names s
   | (Err e, s') \<Rightarrow> same_but_names s s' \<and> names s' = names s
   | (Panic, s') \<Rightarrow> False"
proof (cases "validate_shm_name name")
  case (Ok buf)
  obtain r s1 where m: "posix_shm_mmap os buf False (CLOCK_FOOTPRINT os) s = (r, s1)" by fastforce
  note M = posix_shm_mmap_outcome [OF m] and cs = validate_shm_name_cstr(2) [OF Ok]
  show ?thesis
  proof (cases r)
    case r: (Ok fp)
    obtain fd p where fp: "fp = (fd, p)" by fastforce
    then show ?thesis using M r Ok m cs
      by (auto simp: clock_open_def clock_shmem_drop_def laws image_iff)
  next
    case (Err e)
    then show ?thesis using M Ok m cs by (cases e) (auto simp: clock_open_def)
  qed (use M in simp)
next
  case (Err e)
  then show ?thesis by (auto simp: clock_open_def)
qed (simp add: validate_shm_name_not_panic)

end

section \<open>A system that satisfies the laws\<close>

text \<open>
  A reference system with explicit tables. \<open>ref_budget\<close> is the number of system calls that may still
  succeed, so that every error path can be taken.
\<close>

record ref_sys =
  ref_fds :: "nat list"
  ref_maps :: "(nat \<times> nat) list"
  ref_names :: "bytes list"
  ref_clocks :: "nat list"
  ref_budget :: nat

definition fresh_nat :: "nat list \<Rightarrow> nat" where
  "fresh_nat xs = Suc (foldr max xs 0)"

lemma fresh_nat: "fresh_nat xs \<notin> set xs" "0 < fresh_nat xs"
proof -
  have "x \<in> set xs \<Longrightarrow> x \<le> foldr max xs 0" for x by (induction xs) auto
  then show "fresh_nat xs \<notin> set xs" by (fastforce simp: fresh_nat_def)
qed (simp add: fresh_nat_def)

definition ref_posix :: "(ref_sys, unit) posix" where
  "ref_posix = \<lparr>f64_zero = (), CLOCK_FOOTPRINT = 640, CLOCK_SUCCESS = 0, CLOCK_ERR_X = -1, CLOCK_ERR_Y = -2,
     shm_open = \<lambda>n c s. if ref_budget s = 0 \<or> \<not> c \<and> n \<notin> set (ref_names s) then (-1, s)
       else (int (fresh_nat (ref_fds s)), s\<lparr>ref_fds := fresh_nat (ref_fds s) # ref_fds s,
         ref_names := n # ref_names s, ref_budget := ref_budget s - 1\<rparr>),
     ftruncate = \<lambda>fd len s. if ref_budget s = 0 then (False, s)
       else (True, s\<lparr>ref_budget := ref_budget s - 1\<rparr>),
     mmap = \<lambda>len fd s. if ref_budget s = 0 then (None, s)
       else let p = fresh_nat (map fst (ref_maps s) @ ref_clocks s)
            in (Some p, s\<lparr>ref_maps := (p, len) # ref_maps s, ref_budget := ref_budget s - 1\<rparr>),
     munmap = \<lambda>p len s. s\<lparr>ref_maps := filter (\<lambda>e. e \<noteq> (p, len)) (ref_maps s)\<rparr>,
     close_fd = \<lambda>fd s. s\<lparr>ref_fds := filter (\<lambda>f. int f \<noteq> fd) (ref_fds s)\<rparr>,
     shm_unlink = \<lambda>n s. s\<lparr>ref_names := filter (\<lambda>m. m \<noteq> n) (ref_names s)\<rparr>,
     last_errno = \<lambda>_. Some 12,
     clock_new = \<lambda>p cfg x y w s. if p = 0 \<or> ref_budget s = 0 then (0, s)
       else (p, s\<lparr>ref_clocks := p # ref_clocks s, ref_budget := ref_budget s - 1\<rparr>),
     clock_delete = \<lambda>p s. s\<lparr>ref_clocks := filter (\<lambda>q. q \<noteq> p) (ref_clocks s)\<rparr>,
     clock_join = \<lambda>l p s. (l, s), clock_leave = \<lambda>l s. s, clock_joint_read = \<lambda>s. (0, 5, 6, 1)\<rparr>"

abbreviation ref_fd_set :: "ref_sys \<Rightarrow> int set" where
  "ref_fd_set s \<equiv> int ` set (ref_fds s)"

interpretation ref_sys: posix_shm ref_posix ref_fd_set "\<lambda>s. set (ref_maps s)"
  "\<lambda>s. set (ref_names s)" "\<lambda>s. set (ref_clocks s)"
proof unfold_locales
  fix len fd s p s' assume "mmap ref_posix len fd s = (Some p, s')"
  then show "p \<notin> fst ` set (ref_maps s) \<and> p \<notin> set (ref_clocks s) \<and>
      set (ref_maps s') = insert (p, len) (set (ref_maps s)) \<and> ref_fd_set s' = ref_fd_set s \<and>
      set (ref_names s') = set (ref_names s) \<and> set (ref_clocks s') = set (ref_clocks s)"
    using fresh_nat(1) [of "map fst (ref_maps s) @ ref_clocks s"]
    by (auto simp: ref_posix_def Let_def image_iff split: if_splits)
next
  fix n c s fd s' assume "shm_open ref_posix n c s = (fd, s')" "0 \<le> fd"
  then show "fd \<notin> ref_fd_set s \<and> ref_fd_set s' = insert fd (ref_fd_set s) \<and>
      (\<not> c \<longrightarrow> n \<in> set (ref_names s)) \<and> set (ref_names s') = insert n (set (ref_names s)) \<and>
      set (ref_maps s') = set (ref_maps s) \<and> set (ref_clocks s') = set (ref_clocks s)"
    using fresh_nat(1) [of "ref_fds s"] by (auto simp: ref_posix_def split: if_splits)
qed (auto simp: ref_posix_def Let_def split: if_splits)

section \<open>Properties\<close>

text \<open>C15: the life of a clock owner. A successful \<open>ClockShmem::init\<close> leaves a clock created in a mapping of
  the named object, and dropping the handle releases the descriptor, the mapping and the clock it acquired,
  nothing else, and unlinks the name. A failing \<open>init\<close> keeps no descriptor, mapping or clock; the name it
  may have created stays behind after a failed truncation or mapping, and is unlinked when the clock cannot be
  initialised.\<close>

theorem clock_owner_lifecycle:
  assumes "posix_shm os fds maps names clocks"
  shows "case clock_init os name cfg x0 y0 w s of
     (Ok cs, s') \<Rightarrow> cs_shclock cs \<in> clocks s' \<and> cs_shclock cs \<in> fst ` maps s' \<and>
       cstr_bytes name \<in> names s' \<and> fds (clock_shmem_drop os cs s') = fds s \<and>
       maps (clock_shmem_drop os cs s') = maps s \<and> clocks (clock_shmem_drop os cs s') = clocks s \<and>
       names (clock_shmem_drop os cs s') = names s - {cstr_bytes name}
   | (Err e, s') \<Rightarrow> fds s' = fds s \<and> maps s' = maps s \<and> clocks s' = clocks s \<and>
       names s' = (case e of ShmemTruncate _ \<Rightarrow> insert (cstr_bytes name) (names s)
         | ShmemMmap _ \<Rightarrow> insert (cstr_bytes name) (names s)
         | InitFailed \<Rightarrow> names s - {cstr_bytes name}
         | _ \<Rightarrow> names s)
   | (Panic, s') \<Rightarrow> False"
  using posix_shm.owner_lifecycle [OF assms, where name = name and cfg = cfg and ?x0.0 = x0 and ?y0.0 = y0 and w = w and s = s]
  by (auto split: prod.splits res.splits)

definition ref_start :: ref_sys where
  "ref_start = \<lparr>ref_fds = [3], ref_maps = [(8, 4096)], ref_names = [ascii ''/a''], ref_clocks = [],
     ref_budget = 9\<rparr>"

theorem clock_owner_lifecycle_witness:
  "\<exists>cs s'. clock_init ref_posix (ascii ''/c'') (clock_config_new ref_posix 1000) 0 0 () ref_start = (Ok cs, s') \<and>
     set (ref_maps (clock_shmem_drop ref_posix cs s')) = {(8, 4096)}"
proof -
  have ok: "fst (clock_init ref_posix (ascii ''/c'') (clock_config_new ref_posix 1000) 0 0 () ref_start) =
     Ok \<lparr>cs_shclock = 9, cs_backing = OwnedPosixShm 4 9 640 (ascii ''/c'' @ replicate 254 0)\<rparr>"
    by code_simp
  then show ?thesis
    using clock_owner_lifecycle [OF ref_sys.posix_shm_axioms, where name = "ascii ''/c''"
        and cfg = "clock_config_new ref_posix 1000" and ?x0.0 = 0 and ?y0.0 = 0 and w = "()" and s = ref_start]
    by (cases "clock_init ref_posix (ascii ''/c'') (clock_config_new ref_posix 1000) 0 0 () ref_start")
      (auto simp: ref_start_def)
qed

text \<open>Observers leave no trace. \<open>ClockShmem::open\<close> succeeds only on an existing name, and after the
  handle is dropped, and also when opening fails, descriptors, mappings, names and clocks are as before.\<close>

theorem clock_observer_lifecycle:
  assumes "posix_shm os fds maps names clocks"
  shows "case clock_open os name s of
     (Ok cs, s') \<Rightarrow> cstr_bytes name \<in> names s \<and> cs_shclock cs \<in> fst ` maps s' \<and>
       fds (clock_shmem_drop os cs s') = fds s \<and> maps (clock_shmem_drop os cs s') = maps s \<and>
       names (clock_shmem_drop os cs s') = names s \<and> clocks (clock_shmem_drop os cs s') = clocks s
   | (Err e, s') \<Rightarrow> fds s' = fds s \<and> maps s' = maps s \<and> names s' = names s \<and> clocks s' = clocks s
   | (Panic, s') \<Rightarrow> False"
  using posix_shm.observer_lifecycle [OF assms, where name = name and s = s] by (auto split: prod.splits res.splits)

theorem clock_observer_lifecycle_witness:
  "\<exists>cs s'. clock_open ref_posix (ascii ''/a'') ref_start = (Ok cs, s') \<and>
     ref_fd_set (clock_shmem_drop ref_posix cs s') = {3}"
proof -
  have ok: "fst (clock_open ref_posix (ascii ''/a'') ref_start) =
     Ok \<lparr>cs_shclock = 9, cs_backing = BorrowedPosixShm 4 9 640\<rparr>"
    by code_simp
  then show ?thesis
    using clock_observer_lifecycle [OF ref_sys.posix_shm_axioms, where name = "ascii ''/a''" and s = ref_start]
    by (cases "clock_open ref_posix (ascii ''/a'') ref_start") (auto simp: ref_start_def)
qed

text \<open>A join frees its local memory on failure, and exactly once when it is dropped.\<close>

theorem clock_join_memory:
  assumes "heap_ok h"
  shows "case clock_join_new os oom cs (s, h) of
     (Ok j, s', h') \<Rightarrow> cj_lmem j \<notin> live h \<and> live h' = insert (cj_lmem j) (live h) \<and>
       (\<exists>s'' h''. clock_join_drop os j (s', h') = Ok (s'', h'') \<and> live h'' = live h)
   | (Err e, s', h') \<Rightarrow> e = JoinFailed \<and> live h' = live h
   | (Panic, s', h') \<Rightarrow> False"
proof (cases oom)
  case False
  obtain p h1 where a: "h_alloc () h = (p, h1)" by fastforce
  obtain q s1 where j: "clock_join os p (cs_shclock cs) s = (q, s1)" by fastforce
  note al = h_alloc_ok [OF assms a]
  have f: "h_free p h1 = (Ok (release {p} h1) :: (unit heap, clock_error) res)" by (rule h_free_live) (simp add: al(2))
  have l: "live (release {p} h1) = live h" using al(2,3) by (auto simp: heap_simps simp del: dom_def)
  show ?thesis
    using False a j al(2,3) f l
    by (auto simp: clock_join_new_def clock_join_drop_def h_free_live simp del: dom_def)
qed (simp add: clock_join_new_def)

text \<open>The name check lets a zero byte through: C then works on a shorter name than the caller gave.\<close>

theorem shm_name_truncated:
  "a \<noteq> [] \<Longrightarrow> 0 \<notin> set a \<Longrightarrow> length a + length b < 254 \<Longrightarrow>
   \<exists>buf. validate_shm_name (a @ 0 # b) = Ok buf \<and> cstr_bytes buf = a"
  using validate_shm_name_cstr(2) [of "a @ 0 # b"] by (auto simp: validate_shm_name_ok)

end
