(* ===== verification/Base64.thy ===== *)
theory Base64
  imports Rust_Std
begin

text \<open>
  \<open>ballet/base64/fd_base64\<close> with the size functions of \<open>fd_base64_sys\<close>: encoding and decoding into
  new, growing and fixed buffers. The C codec is the parameter \<open>base64_lib\<close>; it writes through a raw
  pointer, so a write that leaves the buffer is \<open>Panic\<close>.
\<close>

section \<open>Model\<close>

datatype base64_error = InvalidCharacter | InvalidLength | InvalidPadding | BufferTooSmall | InvalidInput

text \<open>
  \<open>fd_base64_encode\<close> writes and returns the length of the text; \<open>fd_base64_decode\<close> gives what it wrote and its
  result, negative on failure (bytes may have been written then, too).
\<close>

record base64_lib =
  c_encode :: "bytes \<Rightarrow> bytes"
  c_decode :: "bytes \<Rightarrow> bytes \<times> int"

definition FD_BASE64_ENC_SZ :: "u64 \<Rightarrow> u64" where
  "FD_BASE64_ENC_SZ sz = ((sz + 2) div 3) * 4"

definition FD_BASE64_DEC_SZ :: "u64 \<Rightarrow> u64" where
  "FD_BASE64_DEC_SZ sz = ((sz + 3) div 4) * 3"

definition encoded_size :: "nat \<Rightarrow> nat" where
  "encoded_size input_len = unat (FD_BASE64_ENC_SZ (word_of_nat input_len))"

definition decoded_size :: "nat \<Rightarrow> nat" where
  "decoded_size encoded_len = unat (FD_BASE64_DEC_SZ (word_of_nat encoded_len))"

text \<open>C writing \<open>w\<close> at \<open>output.as_mut_ptr().add(off)\<close>.\<close>

definition c_write :: "bytes \<Rightarrow> nat \<Rightarrow> bytes \<Rightarrow> (bytes, base64_error) res" where
  "c_write buf off w = (if off + length w \<le> length buf then Ok (blit buf off w) else Panic)"

definition b64_encode :: "base64_lib \<Rightarrow> bytes \<Rightarrow> (bytes, base64_error) res" where
  "b64_encode lib input =
     (if input = [] then Ok []
      else
        let output = replicate (encoded_size (length input)) 0;
            written = c_encode lib input
        in res_bind (c_write output 0 written) (\<lambda>output. Ok (take (length written) output)))"

text \<open>The functions that write into a caller's vector return its new contents.\<close>

definition encode_to_vec :: "base64_lib \<Rightarrow> bytes \<Rightarrow> bytes \<Rightarrow> (bytes, base64_error) res" where
  "encode_to_vec lib input output =
     (if input = [] then Ok output
      else
        let start_len = length output;
            output = output @ replicate (encoded_size (length input)) 0;
            written = c_encode lib input
        in res_bind (c_write output start_len written)
             (\<lambda>output. Ok (take (start_len + length written) output)))"

text \<open>\<open>String::from_utf8_unchecked\<close> on bytes that are not UTF-8 is undefined behaviour.\<close>

definition encode_string :: "base64_lib \<Rightarrow> bytes \<Rightarrow> (bytes, base64_error) res" where
  "encode_string lib input =
     res_bind (b64_encode lib input) (\<lambda>b. if utf8_valid b then Ok b else Panic)"

definition is_base64_byte :: "u8 \<Rightarrow> bool" where
  "is_base64_byte c \<longleftrightarrow> (let n = unat c in
     65 \<le> n \<and> n \<le> 90 \<or> 97 \<le> n \<and> n \<le> 122 \<or> 48 \<le> n \<and> n \<le> 57 \<or> n = 43 \<or> n = 47 \<or> n = 61)"

text \<open>The loop over the input returns at the first byte outside the alphabet.\<close>

fun bad_byte_loop :: "bytes \<Rightarrow> bool" where
  "bad_byte_loop [] = False"
| "bad_byte_loop (c # s) = (if is_base64_byte c then bad_byte_loop s else True)"

definition decode_failure :: "bytes \<Rightarrow> base64_error" where
  "decode_failure input =
     (if length input mod 4 \<noteq> 0 then InvalidLength
      else if bad_byte_loop input then InvalidCharacter
      else InvalidPadding)"

definition b64_decode :: "base64_lib \<Rightarrow> bytes \<Rightarrow> (bytes, base64_error) res" where
  "b64_decode lib input =
     (if input = [] then Ok []
      else
        let output = replicate (decoded_size (length input)) 0
        in case c_decode lib input of (written, decoded_len) \<Rightarrow>
             res_bind (c_write output 0 written) (\<lambda>output.
               if decoded_len < 0 then Err (decode_failure input)
               else Ok (take (nat decoded_len) output)))"

definition decode_to_vec ::
  "base64_lib \<Rightarrow> bytes \<Rightarrow> bytes \<Rightarrow> (unit, base64_error) res \<times> bytes" where
  "decode_to_vec lib input output =
     (if input = [] then (Ok (), output)
      else
        let start_len = length output;
            buf = output @ replicate (decoded_size (length input)) 0
        in case c_decode lib input of (written, decoded_len) \<Rightarrow>
             (case c_write buf start_len written of
                Ok buf \<Rightarrow>
                  if decoded_len < 0 then (Err (decode_failure input), take start_len buf)
                  else (Ok (), take (start_len + nat decoded_len) buf)
              | Err e \<Rightarrow> (Err e, buf)
              | Panic \<Rightarrow> (Panic, buf)))"

definition decode_string :: "base64_lib \<Rightarrow> bytes \<Rightarrow> (bytes, base64_error) res" where
  "decode_string lib input =
     res_bind (b64_decode lib input) (\<lambda>b. ok_or (from_utf8 b) InvalidInput)"

text \<open>Module \<open>inplace\<close>: the number of bytes, and the caller's slice afterwards.\<close>

definition inplace_encode ::
  "base64_lib \<Rightarrow> bytes \<Rightarrow> bytes \<Rightarrow> (nat, base64_error) res \<times> bytes" where
  "inplace_encode lib input output =
     (if input = [] then (Ok 0, output)
      else if length output < encoded_size (length input) then (Err BufferTooSmall, output)
      else
        let written = c_encode lib input
        in case c_write output 0 written of
             Ok output \<Rightarrow> (Ok (length written), output)
           | Err e \<Rightarrow> (Err e, output)
           | Panic \<Rightarrow> (Panic, output))"

definition inplace_decode ::
  "base64_lib \<Rightarrow> bytes \<Rightarrow> bytes \<Rightarrow> (nat, base64_error) res \<times> bytes" where
  "inplace_decode lib input output =
     (if input = [] then (Ok 0, output)
      else if length output < decoded_size (length input) then (Err BufferTooSmall, output)
      else
        case c_decode lib input of (written, decoded_len) \<Rightarrow>
          (case c_write output 0 written of
             Ok output \<Rightarrow>
               (if decoded_len < 0 then Err (decode_failure input) else Ok (nat decoded_len), output)
           | Err e \<Rightarrow> (Err e, output)
           | Panic \<Rightarrow> (Panic, output)))"

section \<open>Sizes\<close>

text \<open>A slice has at most \<open>isize::MAX\<close> bytes, and for those the size functions do not wrap.\<close>

lemma encoded_size: "n < 2 ^ 63 \<Longrightarrow> encoded_size n = (n + 2) div 3 * 4"
  by (simp add: encoded_size_def FD_BASE64_ENC_SZ_def unat_word_ariths unat_div unat_of_nat)

lemma decoded_size: "n < 2 ^ 63 \<Longrightarrow> decoded_size n = (n + 3) div 4 * 3"
  by (simp add: decoded_size_def FD_BASE64_DEC_SZ_def unat_word_ariths unat_div unat_of_nat)

lemma bad_byte_loop_iff: "bad_byte_loop s \<longleftrightarrow> (\<exists>c \<in> set s. \<not> is_base64_byte c)"
  by (induction s) auto

lemma c_write_Ok: "off + length w \<le> length buf \<Longrightarrow> c_write buf off w = Ok (blit buf off w)"
  by (simp add: c_write_def)

section \<open>Laws of the codec\<close>

locale base64_codec =
  fixes lib :: base64_lib
  assumes enc_len: "x \<noteq> [] \<Longrightarrow> length (c_encode lib x) = (length x + 2) div 3 * 4"
    and enc_text: "c \<in> set (c_encode lib x) \<Longrightarrow> is_base64_byte c"
    and dec_enc: "x \<noteq> [] \<Longrightarrow> c_decode lib (c_encode lib x) = (x, int (length x))"
    and dec_len: "c_decode lib t = (w, n) \<Longrightarrow> length w \<le> (length t + 3) div 4 * 3 \<and> (0 \<le> n \<longrightarrow> n = int (length w))"
begin

lemma encode_eq: "length x < 2 ^ 63 \<Longrightarrow> b64_encode lib x = Ok (if x = [] then [] else c_encode lib x)"
  by (simp add: b64_encode_def encoded_size enc_len c_write_Ok blit_def)

lemma decode_eq:
  assumes "length t < 2 ^ 63" and "t \<noteq> []" and "c_decode lib t = (w, n)"
  shows "b64_decode lib t = (if n < 0 then Err (decode_failure t) else Ok w)"
  using assms dec_len [OF assms(3)]
  by (cases "n < 0") (simp_all add: b64_decode_def decoded_size c_write_Ok blit_def)

lemma encode_to_vec_eq:
  assumes "length x < 2 ^ 63"
  shows "encode_to_vec lib x out = res_bind (b64_encode lib x) (\<lambda>b. Ok (out @ b))"
  using assms by (simp add: encode_to_vec_def encode_eq encoded_size enc_len c_write_Ok blit_def)

lemma decode_to_vec_eq:
  assumes "length t < 2 ^ 63"
  shows "decode_to_vec lib t out =
    (case b64_decode lib t of Ok b \<Rightarrow> (Ok (), out @ b) | Err e \<Rightarrow> (Err e, out) | Panic \<Rightarrow> (Panic, out))"
proof (cases "t = []")
  case False
  obtain w n where d: "c_decode lib t = (w, n)" by fastforce
  show ?thesis
    using False assms d dec_len [OF d]
    by (cases "n < 0") (simp_all add: decode_to_vec_def decode_eq [OF assms False d] decoded_size c_write_Ok blit_def)
qed (simp add: decode_to_vec_def b64_decode_def)

lemma inplace_encode_eq:
  assumes "length x < 2 ^ 63"
  shows "inplace_encode lib x out =
    (if length out < (length x + 2) div 3 * 4 then (Err BufferTooSmall, out)
     else case b64_encode lib x of Ok b \<Rightarrow> (Ok (length b), b @ drop (length b) out)
       | Err e \<Rightarrow> (Err e, out) | Panic \<Rightarrow> (Panic, out))"
  using assms by (simp add: inplace_encode_def encode_eq encoded_size enc_len c_write_Ok blit_def)

lemma inplace_decode_eq:
  assumes "length t < 2 ^ 63"
  shows "\<exists>junk. inplace_decode lib t out =
    (if length out < (length t + 3) div 4 * 3 then (Err BufferTooSmall, out)
     else case b64_decode lib t of Ok b \<Rightarrow> (Ok (length b), b @ drop (length b) out)
       | Err e \<Rightarrow> (Err e, junk @ drop (length junk) out) | Panic \<Rightarrow> (Panic, out))"
proof (cases "t = []")
  case False
  obtain w n where d: "c_decode lib t = (w, n)" by fastforce
  show ?thesis
    using False assms d dec_len [OF d]
    by (intro exI [of _ w], cases "n < 0")
      (simp_all add: inplace_decode_def decode_eq [OF assms False d] decoded_size c_write_Ok blit_def)
qed (simp add: inplace_decode_def b64_decode_def)

lemma encode_string_eq:
  assumes "length x < 2 ^ 63"
  shows "encode_string lib x = b64_encode lib x"
proof -
  have "unat c < 128" if "c \<in> set (c_encode lib x)" for c
    using enc_text [OF that] by (auto simp: is_base64_byte_def Let_def)
  then have "utf8_valid (c_encode lib x)" by (rule utf8_valid_7bit)
  then show ?thesis using assms by (simp add: encode_string_def encode_eq)
qed

lemma decode_encode: "length (c_encode lib x) < 2 ^ 63 \<Longrightarrow> length x < 2 ^ 63 \<Longrightarrow>
    res_bind (b64_encode lib x) (b64_decode lib) = Ok x"
proof (cases "x = []")
  case False
  assume l: "length (c_encode lib x) < 2 ^ 63" "length x < 2 ^ 63"
  have "c_encode lib x \<noteq> []" using enc_len [OF False] False by (cases x) auto
  then show ?thesis using decode_eq [OF l(1) _ dec_enc [OF False]] False l(2) by (simp add: encode_eq)
qed (simp add: b64_encode_def b64_decode_def)

end

section \<open>RFC 4648 as the codec\<close>

text \<open>
  The encoding the C library implements: groups of three bytes as four digits of six bits, padded
  with \<open>=\<close>. The decoder takes whole groups, with padding in the last group only, and stops with a
  failure at the first group it cannot read.
\<close>

definition alphabet :: bytes where
  "alphabet = map word_of_nat ([65..<91] @ [97..<123] @ [48..<58] @ [43, 47])"

definition digit :: "nat \<Rightarrow> u8" where
  "digit i = alphabet ! i"

definition undigit :: "u8 \<Rightarrow> nat option" where
  "undigit c = (if c \<in> set alphabet then Some (position c alphabet) else None)"

fun rfc_encode :: "bytes \<Rightarrow> bytes" where
  "rfc_encode [] = []"
| "rfc_encode [a] = (let v = unat a * 16 in [digit (v div 64), digit (v mod 64), 61, 61])"
| "rfc_encode [a, b] =
     (let v = (unat a * 256 + unat b) * 4
      in [digit (v div 4096), digit (v div 64 mod 64), digit (v mod 64), 61])"
| "rfc_encode (a # b # c # s) =
     (let v = unat a * 65536 + unat b * 256 + unat c
      in [digit (v div 262144), digit (v div 4096 mod 64), digit (v div 64 mod 64), digit (v mod 64)]
         @ rfc_encode s)"

text \<open>The last group; a digit before the padding has zero bits where no byte is left.\<close>

definition last_group :: "u8 \<Rightarrow> u8 \<Rightarrow> u8 \<Rightarrow> u8 \<Rightarrow> bytes option" where
  "last_group p q r t =
     (case (undigit p, undigit q) of
        (Some i, Some j) \<Rightarrow>
          if r = 61 \<and> t = 61 then (if j mod 16 = 0 then Some [word_of_nat ((i * 64 + j) div 16)] else None)
          else (case undigit r of
              Some k \<Rightarrow>
                if t = 61 then
                  (let v = i * 4096 + j * 64 + k
                   in if k mod 4 = 0 then Some [word_of_nat (v div 1024), word_of_nat (v div 4 mod 256)] else None)
                else (case undigit t of
                    Some l \<Rightarrow> let v = i * 262144 + j * 4096 + k * 64 + l
                      in Some [word_of_nat (v div 65536), word_of_nat (v div 256 mod 256), word_of_nat (v mod 256)]
                  | None \<Rightarrow> None)
            | None \<Rightarrow> None)
      | _ \<Rightarrow> None)"

fun rfc_decode :: "bytes \<Rightarrow> bytes \<times> bool" where
  "rfc_decode [] = ([], True)"
| "rfc_decode [p, q, r, t] = (case last_group p q r t of Some w \<Rightarrow> (w, True) | None \<Rightarrow> ([], False))"
| "rfc_decode (p # q # r # t # s) =
     (case last_group p q r t of
        Some w \<Rightarrow> if length w = 3 then (case rfc_decode s of (ws, ok) \<Rightarrow> (w @ ws, ok)) else ([], False)
      | None \<Rightarrow> ([], False))"
| "rfc_decode _ = ([], False)"

definition rfc_lib :: base64_lib where
  "rfc_lib = \<lparr>c_encode = rfc_encode,
     c_decode = \<lambda>t. case rfc_decode t of (w, ok) \<Rightarrow> (w, if ok then int (length w) else -1)\<rparr>"

lemma alphabet_facts: "distinct alphabet" "length alphabet = 64" "\<forall>c \<in> set alphabet. is_base64_byte c"
  "(61 :: u8) \<notin> set alphabet"
  by (code_simp+)

lemma undigit_digit: "i < 64 \<Longrightarrow> undigit (digit i) = Some i"
  using alphabet_facts(1,2) by (simp add: undigit_def digit_def position_eqI)

lemma digit_neq_pad: "i < 64 \<Longrightarrow> digit i \<noteq> 61"
  using alphabet_facts(2,4) by (metis digit_def nth_mem)

lemma digit_text: "i < 64 \<Longrightarrow> is_base64_byte (digit i)"
  using alphabet_facts(2,3) by (simp add: digit_def)

lemma unat_byte: "unat (a :: u8) < 256"
  using unsigned_less [of a] by simp

lemma digits_sum:
  fixes v :: nat
  shows "v div 4096 * 4096 + v div 64 mod 64 * 64 + v mod 64 = v"
    "v div 262144 * 262144 + v div 4096 mod 64 * 4096 + v div 64 mod 64 * 64 + v mod 64 = v"
proof -
  have m: "v mod 4096 = v div 64 mod 64 * 64 + v mod 64" using mod_mult2_eq [of v 64 64] by simp
  then show "v div 4096 * 4096 + v div 64 mod 64 * 64 + v mod 64 = v"
    using div_mult_mod_eq [of v 4096] by linarith
  have "v mod 262144 = v div 4096 mod 64 * 4096 + v mod 4096" using mod_mult2_eq [of v 4096 64] by simp
  then show "v div 262144 * 262144 + v div 4096 mod 64 * 4096 + v div 64 mod 64 * 64 + v mod 64 = v"
    using div_mult_mod_eq [of v 262144] m by linarith
qed

lemma rfc_group1:
  assumes v: "v = unat a * 16"
  shows "last_group (digit (v div 64)) (digit (v mod 64)) 61 61 = Some [a]"
proof -
  have "v div 64 < 64" "v div 16 = unat a" using unat_byte [of a] v by simp_all
  moreover have "v mod 64 mod 16 = 0" using v by (simp add: mod_mod_cancel)
  moreover have "v div 64 * 64 + v mod 64 = v" "v mod 64 < 64" by simp_all
  ultimately show ?thesis by (simp add: last_group_def undigit_digit)
qed

lemma rfc_group2:
  assumes v: "v = (unat a * 256 + unat b) * 4"
  shows "last_group (digit (v div 4096)) (digit (v div 64 mod 64)) (digit (v mod 64)) 61 = Some [a, b]"
proof -
  have "v div 4096 < 64" "v div 1024 = unat a" using unat_byte [of a] unat_byte [of b] v by simp_all
  moreover have "v div 4 mod 256 = unat b" using unat_byte [of b] v by simp
  moreover have "v mod 64 mod 4 = 0" using v by (simp add: mod_mod_cancel)
  moreover have "v div 64 mod 64 < 64" "v mod 64 < 64" by simp_all
  ultimately show ?thesis using digits_sum(1) [of v]
    by (simp add: last_group_def undigit_digit digit_neq_pad)
qed

lemma rfc_group3:
  assumes v: "v = unat a * 65536 + unat b * 256 + unat c"
  shows "last_group (digit (v div 262144)) (digit (v div 4096 mod 64)) (digit (v div 64 mod 64))
      (digit (v mod 64)) = Some [a, b, c]"
proof -
  note lt = unat_byte [of a] unat_byte [of b] unat_byte [of c]
  have "v div 262144 < 64" "v div 65536 = unat a" using lt v by simp_all
  moreover obtain k where k: "k = unat a * 256 + unat b" by simp
  then have vk: "v = unat c + 256 * k" using v by simp
  have "v div 256 = k" "v mod 256 = unat c" unfolding vk using lt(3) by simp_all
  then have "v div 256 = unat a * 256 + unat b" "v mod 256 = unat c" using k by simp_all
  moreover have "(unat a * 256 + unat b) mod 256 = unat b" using lt by simp
  moreover have "v div 4096 mod 64 < 64" "v div 64 mod 64 < 64" "v mod 64 < 64" by simp_all
  ultimately show ?thesis using digits_sum(2) [of v]
    by (simp add: last_group_def undigit_digit digit_neq_pad)
qed

lemma rfc_decode_encode: "rfc_decode (rfc_encode x) = (x, True)"
proof (induction x rule: rfc_encode.induct)
  case (2 a)
  then show ?case using rfc_group1 [OF refl, of a] by (simp add: Let_def)
next
  case (3 a b)
  then show ?case by (simp add: Let_def rfc_group2)
next
  case (4 a b c s)
  show ?case
  proof (cases "rfc_encode s")
    case Nil
    then show ?thesis using "4.IH" by (simp add: Let_def rfc_group3)
  next
    case (Cons d t)
    then show ?thesis using "4.IH" by (simp add: Let_def rfc_group3)
  qed
qed simp

lemma last_group_length: "last_group p q r t = Some w \<Longrightarrow> length w \<le> 3"
  by (auto simp: last_group_def Let_def split: option.splits if_splits)

lemma rfc_decode_length: "rfc_decode t = (w, ok) \<Longrightarrow> length w \<le> (length t + 3) div 4 * 3"
proof (induction t arbitrary: w ok rule: rfc_decode.induct)
  case (3 p q r t d s)
  then consider "w = []" | w1 ws where "length w1 = 3" "rfc_decode (d # s) = (ws, ok)" "w = w1 @ ws"
      "last_group p q r t = Some w1"
    by (auto split: option.splits if_splits prod.splits)
  then show ?case
  proof cases
    case (2 w1 ws)
    moreover have "(8 + length s) div 4 = (4 + length s) div 4 + 1" by presburger
    ultimately show ?thesis using "3.IH" [OF 2(4) 2(1) 2(2)] by simp
  qed simp
qed (auto dest: last_group_length split: option.splits)

lemma digit_div_text: "is_base64_byte (digit (n mod 64))" "n < 64 \<Longrightarrow> is_base64_byte (digit n)"
  by (simp_all add: digit_text)

lemma rfc_encode_text: "c \<in> set (rfc_encode x) \<Longrightarrow> is_base64_byte c"
proof (induction x rule: rfc_encode.induct)
  case (2 a)
  have "is_base64_byte 61" by code_simp
  then show ?case using 2 unat_byte [of a] by (auto simp: Let_def digit_div_text)
next
  case (3 a b)
  have "(unat a * 256 + unat b) * 4 div 4096 < 64" using unat_byte [of a] unat_byte [of b] by simp
  moreover have "is_base64_byte 61" by code_simp
  ultimately show ?case using 3 by (auto simp: Let_def digit_div_text)
next
  case (4 a b d s)
  have "(unat a * 65536 + unat b * 256 + unat d) div 262144 < 64"
    using unat_byte [of a] unat_byte [of b] unat_byte [of d] by simp
  then show ?case using 4 by (auto simp: Let_def digit_div_text)
qed simp

lemma rfc_encode_length: "length (rfc_encode x) = (length x + 2) div 3 * 4"
proof (induction x rule: rfc_encode.induct)
  case (4 a b c s)
  have "(5 + length s) div 3 = Suc (Suc (Suc (length s)) div 3)" by presburger
  then show ?case using 4 by (simp add: Let_def)
qed (simp_all add: Let_def)

interpretation rfc: base64_codec rfc_lib
proof
  fix t w n assume "c_decode rfc_lib t = (w, n)"
  then show "length w \<le> (length t + 3) div 4 * 3 \<and> (0 \<le> n \<longrightarrow> n = int (length w))"
    using rfc_decode_length [of t] by (auto simp: rfc_lib_def split: prod.splits if_splits)
qed (simp_all add: rfc_lib_def rfc_encode_length rfc_encode_text rfc_decode_encode)

section \<open>Properties\<close>

text \<open>C23: decoding an encoded text gives the input back, for every way the crate offers: into a new vector, at the
  end of a vector, through strings and into a caller's slice that is big enough. No call writes outside its
  buffer.\<close>

theorem base64_round_trip:
  assumes "base64_codec lib" and "length x < 2 ^ 61"
  shows "\<exists>t. b64_encode lib x = Ok t \<and> length t = (length x + 2) div 3 * 4 \<and> b64_decode lib t = Ok x \<and>
    encode_string lib x = Ok t \<and> (utf8_valid x \<longrightarrow> decode_string lib t = Ok x) \<and>
    encode_to_vec lib x out = Ok (out @ t) \<and> decode_to_vec lib t out = (Ok (), out @ x) \<and>
    (length t \<le> length buf \<longrightarrow> inplace_encode lib x buf = (Ok (length t), t @ drop (length t) buf)) \<and>
    (decoded_size (length t) \<le> length buf \<longrightarrow>
       inplace_decode lib t buf = (Ok (length x), x @ drop (length x) buf))"
proof -
  note L = base64_codec.encode_eq [OF assms(1)] base64_codec.encode_to_vec_eq [OF assms(1)]
    base64_codec.encode_string_eq [OF assms(1)] base64_codec.inplace_encode_eq [OF assms(1)]
    base64_codec.decode_to_vec_eq [OF assms(1)]
  let ?t = "if x = [] then [] else c_encode lib x"
  have lt: "length ?t = (length x + 2) div 3 * 4"
    using base64_codec.enc_len [OF assms(1), of x] by simp
  then have s: "length x < 2 ^ 63" "length ?t < 2 ^ 63" using assms(2) by auto
  have e: "b64_encode lib x = Ok ?t" by (rule L(1) [OF s(1)])
  have d: "b64_decode lib ?t = Ok x"
    using base64_codec.decode_encode [OF assms(1), of x] s e
    by (cases "x = []") (simp_all add: b64_decode_def)
  obtain junk where "inplace_decode lib ?t buf =
    (if length buf < (length ?t + 3) div 4 * 3 then (Err BufferTooSmall, buf)
     else case b64_decode lib ?t of Ok b \<Rightarrow> (Ok (length b), b @ drop (length b) buf)
       | Err e \<Rightarrow> (Err e, junk @ drop (length junk) buf) | Panic \<Rightarrow> (Panic, buf))"
    using base64_codec.inplace_decode_eq [OF assms(1) s(2)] by blast
  then have "decoded_size (length ?t) \<le> length buf \<longrightarrow>
      inplace_decode lib ?t buf = (Ok (length x), x @ drop (length x) buf)"
    using d decoded_size [OF s(2)] by simp
  moreover have "length ?t \<le> length buf \<longrightarrow> inplace_encode lib x buf = (Ok (length ?t), ?t @ drop (length ?t) buf)"
    using L(4) [OF s(1), of buf] e lt by simp
  moreover have "utf8_valid x \<longrightarrow> decode_string lib ?t = Ok x"
    using d by (simp add: decode_string_def from_utf8_def)
  ultimately show ?thesis
    using e d lt L(2) [OF s(1)] L(3) [OF s(1)] L(5) [OF s(2)] by (intro exI [of _ ?t]) simp
qed

theorem base64_round_trip_witness:
  "\<exists>t. b64_encode rfc_lib (ascii ''Man is'') = Ok t \<and> b64_decode rfc_lib t = Ok (ascii ''Man is'') \<and>
     decode_to_vec rfc_lib t (ascii ''> '') = (Ok (), ascii ''> Man is'')"
proof -
  have "length (ascii ''Man is'') < 2 ^ 61" by (simp add: ascii_def)
  from base64_round_trip [OF rfc.base64_codec_axioms this, of "ascii ''> ''" "[]"]
  show ?thesis by (auto simp: ascii_def)
qed

text \<open>When the C decoder rejects a text, the error says why in a fixed order of checks: a length that is not a
  multiple of four, then a byte outside the alphabet, then the padding. The caller's vector is unchanged, and
  a slice that is too small is refused before C is called.\<close>

theorem base64_decode_errors:
  assumes "base64_codec lib" and "length t < 2 ^ 63" and "t \<noteq> []" and "snd (c_decode lib t) < 0"
  shows "b64_decode lib t = Err (decode_failure t) \<and>
    decode_to_vec lib t out = (Err (decode_failure t), out) \<and>
    (inplace_decode lib t buf = (Err BufferTooSmall, buf) \<longleftrightarrow> length buf < (length t + 3) div 4 * 3) \<and>
    ((length t + 3) div 4 * 3 \<le> length buf \<longrightarrow> fst (inplace_decode lib t buf) = Err (decode_failure t)) \<and>
    (decode_failure t = InvalidLength \<longleftrightarrow> \<not> 4 dvd length t) \<and>
    (decode_failure t = InvalidCharacter \<longleftrightarrow> 4 dvd length t \<and> (\<exists>c \<in> set t. \<not> is_base64_byte c)) \<and>
    (decode_failure t = InvalidPadding \<longleftrightarrow> 4 dvd length t \<and> (\<forall>c \<in> set t. is_base64_byte c))"
proof -
  obtain w n where wn: "c_decode lib t = (w, n)" by fastforce
  have d: "b64_decode lib t = Err (decode_failure t)"
    using base64_codec.decode_eq [OF assms(1,2,3) wn] assms(4) wn by simp
  obtain junk where i: "inplace_decode lib t buf =
    (if length buf < (length t + 3) div 4 * 3 then (Err BufferTooSmall, buf)
     else case b64_decode lib t of Ok b \<Rightarrow> (Ok (length b), b @ drop (length b) buf)
       | Err e \<Rightarrow> (Err e, junk @ drop (length junk) buf) | Panic \<Rightarrow> (Panic, buf))"
    using base64_codec.inplace_decode_eq [OF assms(1,2)] by blast
  have f: "decode_failure t \<noteq> BufferTooSmall" by (simp add: decode_failure_def)
  show ?thesis
    using d f by (simp add: base64_codec.decode_to_vec_eq [OF assms(1,2)] i)
      (auto simp: decode_failure_def bad_byte_loop_iff dvd_eq_mod_eq_0)
qed

theorem base64_decode_errors_witness:
  "b64_decode rfc_lib (ascii ''ab=c'') = Err InvalidPadding \<and>
   decode_to_vec rfc_lib (ascii ''ab=c'') (ascii ''x'') = (Err InvalidPadding, ascii ''x'')"
proof -
  have h: "length (ascii ''ab=c'') < 2 ^ 63" "ascii ''ab=c'' \<noteq> []" by (simp_all add: ascii_def)
  have n: "snd (c_decode rfc_lib (ascii ''ab=c'')) < 0" by code_simp
  have "decode_failure (ascii ''ab=c'') = InvalidPadding" by code_simp
  then show ?thesis
    using base64_decode_errors [OF rfc.base64_codec_axioms h n, of "ascii ''x''" "[]"] by simp
qed

end
