(* ===== verification/Scratch.thy ===== *)
theory Scratch
  imports Ownership
begin

text \<open>
  The scratch allocator of \<open>util/scratch/fd_scratch/src/lib.rs\<close>: construction and destruction with their
  two allocations, frames that pop themselves, allocations, allocations of a size that is known later, and
  trimming. The C scratch pad is thread-local; it is the parameter \<open>scratch_lib\<close> over an opaque thread
  state. A C function called outside its contract gives \<open>None\<close>, which the wrapper turns into \<open>Panic\<close>.
  The locale \<open>scratch_pad\<close> states the documented behaviour of the pad: a region with a top, and a stack
  of marks.
\<close>

section \<open>Model\<close>

datatype scratch_error = AllocationFailed | InvalidAlignment | InvalidSize | NoFrame | TooManyFrames |
  NoFramesToPop | InsufficientSpace | InvalidState | PrepareMismatch

record 's scratch_lib =
  smem_align :: nat
  fmem_align :: nat
  smem_footprint :: "nat \<Rightarrow> nat"
  fmem_footprint :: "nat \<Rightarrow> nat"
  attach_is_safe :: "'s \<Rightarrow> bool"
  attach :: "nat \<Rightarrow> nat \<Rightarrow> nat \<Rightarrow> nat \<Rightarrow> 's \<Rightarrow> 's option"
  detach_is_safe :: "'s \<Rightarrow> bool"
  detach :: "'s \<Rightarrow> 's option"
  push_is_safe :: "'s \<Rightarrow> bool"
  push :: "'s \<Rightarrow> 's option"
  pop_is_safe :: "'s \<Rightarrow> bool"
  pop :: "'s \<Rightarrow> 's option"
  alloc_is_safe :: "nat \<Rightarrow> nat \<Rightarrow> 's \<Rightarrow> bool"
  c_alloc :: "nat \<Rightarrow> nat \<Rightarrow> 's \<Rightarrow> (nat \<times> 's) option"
  prepare_is_safe :: "nat \<Rightarrow> 's \<Rightarrow> bool"
  prepare :: "nat \<Rightarrow> 's \<Rightarrow> (nat \<times> 's) option"
  publish_is_safe :: "nat \<Rightarrow> 's \<Rightarrow> bool"
  publish :: "nat \<Rightarrow> 's \<Rightarrow> 's option"
  cancel :: "'s \<Rightarrow> 's option"
  trim_is_safe :: "nat \<Rightarrow> 's \<Rightarrow> bool"
  trim :: "nat \<Rightarrow> 's \<Rightarrow> 's option"
  scratch_free :: "'s \<Rightarrow> nat"

record scratch_allocation =
  sa_ptr :: nat
  sa_size :: nat

record dynamic_allocation =
  da_start_ptr :: nat
  da_current_size :: nat
  da_max_available :: nat

text \<open>The two allocations of an allocator, in a heap of layouts; \<open>oom\<close> decides when \<open>alloc\<close> returns null.\<close>

record scratch_allocator =
  al_smem :: nat
  al_fmem :: nat

fun opt_step :: "'s option \<Rightarrow> ('a \<times> 's) \<Rightarrow> ('a, scratch_error) res \<times> 's" where
  "opt_step (Some s') (x, s) = (Ok x, s')"
| "opt_step None (x, s) = (Panic, s)"

definition scratch_attach ::
  "'s scratch_lib \<Rightarrow> scratch_allocator \<Rightarrow> nat \<Rightarrow> nat \<Rightarrow> 's \<Rightarrow> (unit, scratch_error) res \<times> 's" where
  "scratch_attach lib a memory_size max_frames s =
     (if \<not> attach_is_safe lib s then (Err InvalidState, s)
      else opt_step (attach lib (al_smem a) (al_fmem a) memory_size max_frames s) ((), s))"

definition scratch_drop ::
  "'s scratch_lib \<Rightarrow> scratch_allocator \<Rightarrow> 's \<times> (nat \<times> nat) heap \<Rightarrow> ('s \<times> (nat \<times> nat) heap, scratch_error) res" where
  "scratch_drop lib a st =
     (case (if detach_is_safe lib (fst st) then opt_step (detach lib (fst st)) ((), fst st) else (Ok (), fst st)) of
        (Ok _, s) \<Rightarrow>
          res_bind (h_free (al_smem a) (snd st)) (\<lambda>h.
          res_bind (h_free (al_fmem a) h) (\<lambda>h. Ok (s, h)))
      | (Err e, s) \<Rightarrow> Err e
      | (Panic, s) \<Rightarrow> Panic)"

definition scratch_new ::
  "'s scratch_lib \<Rightarrow> ((nat \<times> nat) heap \<Rightarrow> bool) \<Rightarrow> nat \<Rightarrow> nat \<Rightarrow> 's \<times> (nat \<times> nat) heap \<Rightarrow>
   (scratch_allocator, scratch_error) res \<times> 's \<times> (nat \<times> nat) heap" where
  "scratch_new lib oom memory_size max_frames st =
     (if memory_size = 0 \<or> max_frames = 0 then (Err InvalidSize, st)
      else
        let ssz = smem_footprint lib memory_size; fsz = fmem_footprint lib max_frames
        in if \<not> layout_ok ssz (smem_align lib) then (Err InvalidAlignment, st)
           else if oom (snd st) then (Err AllocationFailed, st)
           else
             (case h_alloc (ssz, smem_align lib) (snd st) of (smem, h) \<Rightarrow>
              if \<not> layout_ok fsz (fmem_align lib) then (Err InvalidAlignment, fst st, h)
              else if oom h then (Err AllocationFailed, fst st, h)
              else
                (case h_alloc (fsz, fmem_align lib) h of (fmem, h) \<Rightarrow>
                 let a = \<lparr>al_smem = smem, al_fmem = fmem\<rparr>
                 in case scratch_attach lib a memory_size max_frames (fst st) of
                      (Ok _, s) \<Rightarrow> (Ok a, s, h)
                    | (Err e, s) \<Rightarrow>
                        (case scratch_drop lib a (s, h) of
                           Ok (s, h) \<Rightarrow> (Err e, s, h)
                         | Err e' \<Rightarrow> (Err e', s, h)
                         | Panic \<Rightarrow> (Panic, s, h))
                    | (Panic, s) \<Rightarrow> (Panic, s, h))))"

text \<open>\<open>push_frame\<close> returns a \<open>ScratchFrame\<close>, which carries no data; its destructor is \<open>frame_drop\<close>.\<close>

definition push_frame :: "'s scratch_lib \<Rightarrow> 's \<Rightarrow> (unit, scratch_error) res \<times> 's" where
  "push_frame lib s =
     (if \<not> push_is_safe lib s then (Err TooManyFrames, s) else opt_step (push lib s) ((), s))"

definition frame_drop :: "'s scratch_lib \<Rightarrow> 's \<Rightarrow> (unit, scratch_error) res \<times> 's" where
  "frame_drop lib s = (if pop_is_safe lib s then opt_step (pop lib s) ((), s) else (Ok (), s))"

definition pop_frame :: "'s scratch_lib \<Rightarrow> 's \<Rightarrow> (unit, scratch_error) res \<times> 's" where
  "pop_frame lib s =
     (if \<not> pop_is_safe lib s then (Err NoFramesToPop, s) else opt_step (pop lib s) ((), s))"

definition allocate ::
  "'s scratch_lib \<Rightarrow> nat \<Rightarrow> nat \<Rightarrow> 's \<Rightarrow> (scratch_allocation, scratch_error) res \<times> 's" where
  "allocate lib sz alignment s =
     (if sz = 0 then (Err InvalidSize, s)
      else if \<not> is_power_of_two alignment then (Err InvalidAlignment, s)
      else if \<not> alloc_is_safe lib alignment sz s then (Err InsufficientSpace, s)
      else
        (case c_alloc lib alignment sz s of
           None \<Rightarrow> (Panic, s)
         | Some (p, s) \<Rightarrow>
             if p = 0 then (Err AllocationFailed, s) else (Ok \<lparr>sa_ptr = p, sa_size = sz\<rparr>, s)))"

definition prepare_alloc ::
  "'s scratch_lib \<Rightarrow> nat \<Rightarrow> 's \<Rightarrow> (dynamic_allocation, scratch_error) res \<times> 's" where
  "prepare_alloc lib alignment s =
     (if \<not> is_power_of_two alignment then (Err InvalidAlignment, s)
      else if \<not> prepare_is_safe lib alignment s then (Err InsufficientSpace, s)
      else
        (case prepare lib alignment s of
           None \<Rightarrow> (Panic, s)
         | Some (p, s) \<Rightarrow>
             if p = 0 then (Err AllocationFailed, s)
             else (Ok \<lparr>da_start_ptr = p, da_current_size = 0, da_max_available = scratch_free lib s\<rparr>, s)))"

definition publish_alloc ::
  "'s scratch_lib \<Rightarrow> dynamic_allocation \<Rightarrow> nat \<Rightarrow> 's \<Rightarrow> (scratch_allocation, scratch_error) res \<times> 's" where
  "publish_alloc lib d final_size s =
     (if final_size > da_max_available d then (Err InvalidSize, s)
      else
        let end_ptr = da_start_ptr d + final_size
        in if \<not> publish_is_safe lib end_ptr s then (Err PrepareMismatch, s)
           else opt_step (publish lib end_ptr s) (\<lparr>sa_ptr = da_start_ptr d, sa_size = final_size\<rparr>, s))"

definition cancel_alloc :: "'s scratch_lib \<Rightarrow> 's \<Rightarrow> (unit, scratch_error) res \<times> 's" where
  "cancel_alloc lib s = opt_step (cancel lib s) ((), s)"

definition alloc_trim ::
  "'s scratch_lib \<Rightarrow> scratch_allocation \<Rightarrow> nat \<Rightarrow> 's \<Rightarrow> (scratch_allocation, scratch_error) res \<times> 's" where
  "alloc_trim lib a new_size s =
     (if new_size > sa_size a then (Err InvalidSize, s)
      else
        let end_ptr = sa_ptr a + new_size
        in if \<not> trim_is_safe lib end_ptr s then (Err InvalidState, s)
           else opt_step (trim lib end_ptr s) (a\<lparr>sa_size := new_size\<rparr>, s))"

text \<open>\<open>scratch_scope!\<close>: the frame is dropped when the block is left, on every path; \<open>unwrap\<close> panics.\<close>

definition with_frame ::
  "'s scratch_lib \<Rightarrow> ('s \<Rightarrow> ('a, scratch_error) res \<times> 's) \<Rightarrow> 's \<Rightarrow> ('a, scratch_error) res \<times> 's" where
  "with_frame lib block s =
     (case block s of (r, s) \<Rightarrow>
      case frame_drop lib s of (Ok _, s) \<Rightarrow> (r, s) | (Err e, s) \<Rightarrow> (Err e, s) | (Panic, s) \<Rightarrow> (Panic, s))"

definition scratch_scope ::
  "'s scratch_lib \<Rightarrow> ('s \<Rightarrow> ('a, scratch_error) res \<times> 's) \<Rightarrow> 's \<Rightarrow> ('a, scratch_error) res \<times> 's" where
  "scratch_scope lib block s =
     (case push_frame lib s of
        (Ok _, s) \<Rightarrow> with_frame lib block s
      | (Err e, s) \<Rightarrow> (Panic, s)
      | (Panic, s) \<Rightarrow> (Panic, s))"

section \<open>Laws of the scratch pad\<close>

text \<open>An attached pad: its region, the first free byte, the marks of the open frames, newest first.\<close>

record pad =
  pd_start :: nat
  pd_top :: nat
  pd_stop :: nat
  pd_marks :: "nat list"

text \<open>Marks lie below the top, in order, inside the region.\<close>

fun marks_ok :: "nat \<Rightarrow> nat list \<Rightarrow> nat \<Rightarrow> bool" where
  "marks_ok start [] t \<longleftrightarrow> start \<le> t"
| "marks_ok start (m # ms) t \<longleftrightarrow> m \<le> t \<and> marks_ok start ms m"

locale scratch_pad =
  fixes lib :: "'s scratch_lib" and view :: "'s \<Rightarrow> pad option"
  assumes attach_safe: "attach_is_safe lib s \<longleftrightarrow> view s = None"
    and attach_law: "view s = None \<Longrightarrow> 0 < n \<Longrightarrow> 0 < d \<Longrightarrow> \<exists>s'. attach lib sm fm n d s = Some s' \<and>
      view s' = Some \<lparr>pd_start = sm, pd_top = sm, pd_stop = sm + n, pd_marks = []\<rparr>"
    and detach_safe: "detach_is_safe lib s \<longleftrightarrow> view s \<noteq> None"
    and detach_law: "view s = Some a \<Longrightarrow> \<exists>s'. detach lib s = Some s' \<and> view s' = None"
    and pop_safe: "view s = Some a \<Longrightarrow> pop_is_safe lib s \<longleftrightarrow> pd_marks a \<noteq> []"
    and pop_law: "view s = Some a \<Longrightarrow> pd_marks a = m # ms \<Longrightarrow>
      \<exists>s'. pop lib s = Some s' \<and> view s' = Some (a\<lparr>pd_top := m, pd_marks := ms\<rparr>)"
    and push_law: "view s = Some a \<Longrightarrow> push_is_safe lib s \<Longrightarrow>
      \<exists>s'. push lib s = Some s' \<and> view s' = Some (a\<lparr>pd_marks := pd_top a # pd_marks a\<rparr>)"
    and alloc_law: "view s = Some a \<Longrightarrow> is_power_of_two al \<Longrightarrow> alloc_is_safe lib al n s \<Longrightarrow>
      \<exists>p s'. c_alloc lib al n s = Some (p, s') \<and> pd_top a \<le> p \<and> al dvd p \<and> p + n \<le> pd_stop a \<and>
        view s' = Some (a\<lparr>pd_top := p + n\<rparr>)"
    and prepare_law: "view s = Some a \<Longrightarrow> is_power_of_two al \<Longrightarrow> prepare_is_safe lib al s \<Longrightarrow>
      \<exists>p s'. prepare lib al s = Some (p, s') \<and> pd_top a \<le> p \<and> al dvd p \<and> p \<le> pd_stop a \<and>
        view s' = Some (a\<lparr>pd_top := p\<rparr>)"
    and free_law: "view s = Some a \<Longrightarrow> scratch_free lib s = pd_stop a - pd_top a"
    and publish_law: "view s = Some a \<Longrightarrow> publish_is_safe lib e s \<Longrightarrow>
      pd_top a \<le> e \<and> e \<le> pd_stop a \<and> (\<exists>s'. publish lib e s = Some s' \<and> view s' = Some (a\<lparr>pd_top := e\<rparr>))"
begin

lemma push_frame_view:
  assumes "view s = Some a" and "push_frame lib s = (r, s')"
  shows "r = Err TooManyFrames \<and> s' = s \<or>
    r = Ok () \<and> view s' = Some (a\<lparr>pd_marks := pd_top a # pd_marks a\<rparr>)"
  using assms push_law [OF assms(1)] by (auto simp: push_frame_def split: if_splits)

lemma frame_drop_view:
  assumes "view s = Some a" and "pd_marks a = m # ms"
  shows "\<exists>s'. frame_drop lib s = (Ok (), s') \<and> view s' = Some (a\<lparr>pd_top := m, pd_marks := ms\<rparr>)"
  using pop_law [OF assms] pop_safe [OF assms(1)] assms(2) by (auto simp: frame_drop_def)

lemma allocate_view:
  assumes "view s = Some a" and "allocate lib n al s = (r, s')" and "pd_top a \<le> pd_stop a"
  shows "\<exists>t. view s' = Some (a\<lparr>pd_top := t\<rparr>) \<and> pd_top a \<le> t \<and> t \<le> pd_stop a \<and>
    (case r of Ok x \<Rightarrow> pd_top a \<le> sa_ptr x \<and> sa_ptr x \<noteq> 0 \<and> al dvd sa_ptr x \<and> sa_size x = n \<and> 0 < n \<and> t = sa_ptr x + n
     | Err e \<Rightarrow> True | Panic \<Rightarrow> False)"
proof (cases "n \<noteq> 0 \<and> is_power_of_two al \<and> alloc_is_safe lib al n s")
  case True
  then obtain p s1 where p: "c_alloc lib al n s = Some (p, s1)" "pd_top a \<le> p" "al dvd p"
      "p + n \<le> pd_stop a" "view s1 = Some (a\<lparr>pd_top := p + n\<rparr>)"
    using alloc_law [OF assms(1)] by blast
  then show ?thesis using True assms(2)
    by (intro exI [of _ "p + n"]) (auto simp: allocate_def split: if_splits)
next
  case False
  then show ?thesis using assms
    by (intro exI [of _ "pd_top a"]) (auto simp: allocate_def split: if_splits)
qed

text \<open>An allocation whose size is fixed after it has been filled.\<close>

lemma dynamic_view:
  assumes "view s = Some a" and "pd_top a \<le> pd_stop a" and "prepare_alloc lib al s = (r, s1)"
  shows "\<exists>t. view s1 = Some (a\<lparr>pd_top := t\<rparr>) \<and> pd_top a \<le> t \<and> t \<le> pd_stop a \<and>
    (case r of
       Ok d \<Rightarrow> t = da_start_ptr d \<and> da_start_ptr d \<noteq> 0 \<and> al dvd da_start_ptr d \<and> da_max_available d = pd_stop a - t \<and>
         (\<exists>t' s2 q. publish_alloc lib d n s1 = (q, s2) \<and> view s2 = Some (a\<lparr>pd_top := t'\<rparr>) \<and> t \<le> t' \<and>
           t' \<le> pd_stop a \<and> (case q of Ok x \<Rightarrow> sa_ptr x = t \<and> sa_size x = n \<and> t' = t + n
             | Err e \<Rightarrow> True | Panic \<Rightarrow> False))
     | Err e \<Rightarrow> True | Panic \<Rightarrow> False)"
proof (cases "is_power_of_two al \<and> prepare_is_safe lib al s")
  case True
  then obtain p s' where p: "prepare lib al s = Some (p, s')" "pd_top a \<le> p" "al dvd p"
      "p \<le> pd_stop a" "view s' = Some (a\<lparr>pd_top := p\<rparr>)"
    using prepare_law [OF assms(1)] by blast
  have s1: "s1 = s'" using assms(3) True p by (auto simp: prepare_alloc_def split: if_splits)
  let ?d = "\<lparr>da_start_ptr = p, da_current_size = 0, da_max_available = pd_stop a - p\<rparr>"
  have "\<exists>t' s2 q. publish_alloc lib ?d n s' = (q, s2) \<and> view s2 = Some (a\<lparr>pd_top := t'\<rparr>) \<and> p \<le> t' \<and>
      t' \<le> pd_stop a \<and> (case q of Ok x \<Rightarrow> sa_ptr x = p \<and> sa_size x = n \<and> t' = p + n
        | Err e \<Rightarrow> True | Panic \<Rightarrow> False)"
  proof (cases "n \<le> pd_stop a - p \<and> publish_is_safe lib (p + n) s'")
    case True
    then obtain s2 where "publish lib (p + n) s' = Some s2" "view s2 = Some (a\<lparr>pd_top := p + n\<rparr>)"
        "p + n \<le> pd_stop a"
      using publish_law [OF p(5), of "p + n"] by auto
    then show ?thesis using True
      by (intro exI [of _ "p + n"] exI [of _ s2]) (auto simp: publish_alloc_def Let_def)
  next
    case False
    then show ?thesis using p
      by (intro exI [of _ p] exI [of _ s']) (auto simp: publish_alloc_def Let_def)
  qed
  then show ?thesis using True p assms(3) s1
    by (intro exI [of _ p]) (auto simp: prepare_alloc_def free_law [OF p(5)] split: if_splits)
next
  case False
  then show ?thesis using assms
    by (intro exI [of _ "pd_top a"]) (auto simp: prepare_alloc_def split: if_splits)
qed

end

section \<open>Programs with nested frames\<close>

text \<open>
  What safe code can do with frames held in block scopes: allocate, allocate with a size fixed later, and
  open a block with its own frame. An error leaves the enclosing blocks, whose frames are dropped. The result
  of a program are its allocations that are still usable; those of a closed block are not.
\<close>

datatype sprog = SAlloc nat nat | SDynamic nat nat | SScope "sprog list"

fun run_op :: "'s scratch_lib \<Rightarrow> sprog \<Rightarrow> 's \<Rightarrow> (scratch_allocation list, scratch_error) res \<times> 's"
  and run_ops :: "'s scratch_lib \<Rightarrow> sprog list \<Rightarrow> 's \<Rightarrow> (scratch_allocation list, scratch_error) res \<times> 's" where
  "run_op lib (SAlloc n al) s =
     (case allocate lib n al s of (r, s) \<Rightarrow> (res_bind r (\<lambda>x. Ok [x]), s))"
| "run_op lib (SDynamic al n) s =
     (case prepare_alloc lib al s of
        (Ok d, s) \<Rightarrow> (case publish_alloc lib d n s of (r, s) \<Rightarrow> (res_bind r (\<lambda>x. Ok [x]), s))
      | (Err e, s) \<Rightarrow> (Err e, s)
      | (Panic, s) \<Rightarrow> (Panic, s))"
| "run_op lib (SScope ps) s =
     (case push_frame lib s of
        (Ok _, s) \<Rightarrow>
          with_frame lib (\<lambda>s. case run_ops lib ps s of (r, s) \<Rightarrow> (res_bind r (\<lambda>_. Ok []), s)) s
      | (Err e, s) \<Rightarrow> (Err e, s)
      | (Panic, s) \<Rightarrow> (Panic, s))"
| "run_ops lib [] s = (Ok [], s)"
| "run_ops lib (p # ps) s =
     (case run_op lib p s of
        (Ok xs, s) \<Rightarrow> (case run_ops lib ps s of (r, s) \<Rightarrow> (res_bind r (\<lambda>ys. Ok (xs @ ys)), s))
      | (Err e, s) \<Rightarrow> (Err e, s)
      | (Panic, s) \<Rightarrow> (Panic, s))"

text \<open>Allocations one behind the other between two addresses: inside the region and pairwise disjoint.\<close>

fun laid_out :: "nat \<Rightarrow> scratch_allocation list \<Rightarrow> nat \<Rightarrow> bool" where
  "laid_out lo [] hi \<longleftrightarrow> lo \<le> hi"
| "laid_out lo (x # xs) hi \<longleftrightarrow> lo \<le> sa_ptr x \<and> laid_out (sa_ptr x + sa_size x) xs hi"

lemma laid_out_le: "laid_out lo xs hi \<Longrightarrow> lo \<le> hi"
  by (induction xs arbitrary: lo) fastforce+

lemma laid_out_append: "laid_out lo xs mid \<Longrightarrow> laid_out mid ys hi \<Longrightarrow> laid_out lo (xs @ ys) hi"
proof (induction xs arbitrary: lo)
  case Nil
  then show ?case by (cases ys) auto
qed auto

lemma laid_out_first: "laid_out b ys hi \<Longrightarrow> k < length ys \<Longrightarrow> b \<le> sa_ptr (ys ! k)"
proof (induction ys arbitrary: b k)
  case (Cons y ys)
  then have "laid_out (sa_ptr y + sa_size y) ys hi" "b \<le> sa_ptr y" by simp_all
  then show ?case using Cons.IH [of "sa_ptr y + sa_size y" "k - 1"] Cons.prems(2) by (cases k) auto
qed simp

lemma laid_out_last: "laid_out b ys hi \<Longrightarrow> k < length ys \<Longrightarrow> sa_ptr (ys ! k) + sa_size (ys ! k) \<le> hi"
proof (induction ys arbitrary: b k)
  case (Cons y ys)
  then show ?case using laid_out_le [of "sa_ptr y + sa_size y" ys hi] by (cases k) auto
qed simp

lemma laid_out_disjoint:
  "laid_out lo xs hi \<Longrightarrow> i < j \<Longrightarrow> j < length xs \<Longrightarrow> sa_ptr (xs ! i) + sa_size (xs ! i) \<le> sa_ptr (xs ! j)"
proof (induction xs arbitrary: lo i j)
  case (Cons x xs)
  obtain j' where j: "j = Suc j'" using Cons.prems(2) by (cases j) auto
  show ?case
  proof (cases i)
    case 0
    then show ?thesis using laid_out_first [of "sa_ptr x + sa_size x" xs hi j'] Cons.prems j by simp
  next
    case (Suc i')
    then show ?thesis using Cons.IH [of "sa_ptr x + sa_size x" i' j'] Cons.prems j by simp
  qed
qed simp

definition ran :: "pad \<Rightarrow> (scratch_allocation list, scratch_error) res \<Rightarrow> pad option \<Rightarrow> bool" where
  "ran a r v \<longleftrightarrow> (\<exists>t. v = Some (a\<lparr>pd_top := t\<rparr>) \<and> pd_top a \<le> t \<and> t \<le> pd_stop a \<and>
     (case r of Ok xs \<Rightarrow> laid_out (pd_top a) xs t | Err e \<Rightarrow> True | Panic \<Rightarrow> False))"

context scratch_pad
begin

lemma scope_restores:
  assumes a: "view s = Some a" "pd_top a \<le> pd_stop a"
    and body: "\<And>s1 a1 r1 s2. view s1 = Some a1 \<Longrightarrow> pd_top a1 \<le> pd_stop a1 \<Longrightarrow> run_ops lib ps s1 = (r1, s2) \<Longrightarrow>
      ran a1 r1 (view s2)"
    and r: "run_op lib (SScope ps) s = (r, s')"
  shows "view s' = Some a \<and> r \<noteq> Panic \<and> (\<forall>xs. r = Ok xs \<longrightarrow> xs = [])"
proof -
  obtain q s1 where q: "push_frame lib s = (q, s1)" by fastforce
  show ?thesis
  proof (cases "q = Ok ()")
    case True
    let ?a = "a\<lparr>pd_marks := pd_top a # pd_marks a\<rparr>"
    have v1: "view s1 = Some ?a" using push_frame_view [OF a(1) q] True by auto
    obtain r1 s2 where r1: "run_ops lib ps s1 = (r1, s2)" by fastforce
    have "ran ?a r1 (view s2)" by (rule body [OF v1 _ r1]) (simp add: a(2))
    then obtain t where t: "view s2 = Some (?a\<lparr>pd_top := t\<rparr>)" "r1 \<noteq> Panic"
      unfolding ran_def by fastforce
    obtain s3 where s3: "frame_drop lib s2 = (Ok (), s3)" "view s3 = Some a"
      using frame_drop_view [OF t(1), of "pd_top a" "pd_marks a"] by auto
    show ?thesis using r True q r1 s3 t(2) by (cases r1) (auto simp: with_frame_def)
  next
    case False
    then show ?thesis using push_frame_view [OF a(1) q] q r a(1) by auto
  qed
qed

text \<open>What a step does to the pad it starts on.\<close>

definition keeps :: "('s \<Rightarrow> (scratch_allocation list, scratch_error) res \<times> 's) \<Rightarrow> bool" where
  "keeps f \<longleftrightarrow> (\<forall>s a r s'. view s = Some a \<longrightarrow> pd_top a \<le> pd_stop a \<longrightarrow> f s = (r, s') \<longrightarrow> ran a r (view s'))"

lemma keepsD: "keeps f \<Longrightarrow> view s = Some a \<Longrightarrow> pd_top a \<le> pd_stop a \<Longrightarrow> f s = (r, s') \<Longrightarrow> ran a r (view s')"
  unfolding keeps_def by blast

lemma keeps_ops:
  assumes "\<And>p. p \<in> set ps \<Longrightarrow> keeps (run_op lib p)"
  shows "keeps (run_ops lib ps)"
  using assms
proof (induction ps)
  case Nil
  have "ran a (Ok []) (Some a)" if "pd_top a \<le> pd_stop a" for a
    unfolding ran_def by (rule exI [of _ "pd_top a"]) (simp add: that)
  then show ?case by (auto simp: keeps_def)
next
  case (Cons p ps)
  have "ran a r (view s')" if a: "view s = Some a" "pd_top a \<le> pd_stop a"
    and r: "run_ops lib (p # ps) s = (r, s')" for s a r s'
  proof -
    obtain r1 s1 where r1: "run_op lib p s = (r1, s1)" by fastforce
    have p: "ran a r1 (view s1)" by (rule keepsD [OF Cons.prems a r1]) simp
    show ?thesis
    proof (cases r1)
      case (Ok xs)
      obtain r2 s2 where r2: "run_ops lib ps s1 = (r2, s2)" by fastforce
      obtain t where t: "view s1 = Some (a\<lparr>pd_top := t\<rparr>)" "pd_top a \<le> t" "t \<le> pd_stop a"
          "laid_out (pd_top a) xs t" using p Ok by (auto simp: ran_def)
      have "ran (a\<lparr>pd_top := t\<rparr>) r2 (view s2)"
        by (rule keepsD [OF Cons.IH t(1) _ r2]) (use Cons.prems t in auto)
      then obtain u where "view s2 = Some (a\<lparr>pd_top := u\<rparr>)" "t \<le> u" "u \<le> pd_stop a"
          "case r2 of Ok ys \<Rightarrow> laid_out t ys u | Err e \<Rightarrow> True | Panic \<Rightarrow> False"
        unfolding ran_def by (cases r2) fastforce+
      then show ?thesis unfolding ran_def using r r1 r2 Ok t
        by (intro exI [of _ u]) (cases r2, auto intro: laid_out_append)
    qed (use p r r1 in \<open>auto simp: ran_def\<close>)
  qed
  then show ?case by (auto simp: keeps_def)
qed

lemma keeps_op: "keeps (run_op lib p)"
proof (induction p)
  case (SAlloc n al)
  show ?case unfolding keeps_def
  proof (intro allI impI)
    fix s a r s' assume a: "view s = Some a" "pd_top a \<le> pd_stop a" and r: "run_op lib (SAlloc n al) s = (r, s')"
    obtain q s1 where q: "allocate lib n al s = (q, s1)" by fastforce
    then show "ran a r (view s')" using allocate_view [OF a(1) q a(2)] r
      by (cases q) (auto simp: ran_def)
  qed
next
  case (SDynamic al n)
  show ?case unfolding keeps_def
  proof (intro allI impI)
    fix s a r s' assume a: "view s = Some a" "pd_top a \<le> pd_stop a" and r: "run_op lib (SDynamic al n) s = (r, s')"
    obtain q s1 where q: "prepare_alloc lib al s = (q, s1)" by fastforce
    show "ran a r (view s')"
    proof (cases q)
      case (Ok d)
      obtain x s2 where x: "publish_alloc lib d n s1 = (x, s2)" by fastforce
      then show ?thesis using dynamic_view [OF a q, of n] r q Ok
        by (cases x) (auto simp: ran_def)
    qed (use dynamic_view [OF a q, of n] r q in \<open>auto simp: ran_def\<close>)
  qed
next
  case (SScope ps)
  show ?case unfolding keeps_def
  proof (intro allI impI)
    fix s a r s' assume a: "view s = Some a" "pd_top a \<le> pd_stop a" and r: "run_op lib (SScope ps) s = (r, s')"
    have "keeps (run_ops lib ps)" by (rule keeps_ops) (rule SScope.IH)
    then have "view s' = Some a \<and> r \<noteq> Panic \<and> (\<forall>xs. r = Ok xs \<longrightarrow> xs = [])"
      by (intro scope_restores [OF a _ r] keepsD)
    then show "ran a r (view s')" unfolding ran_def using a(2)
      by (intro exI [of _ "pd_top a"]) (cases r, auto)
  qed
qed

text \<open>Construction on a thread without a pad, and destruction.\<close>

lemma scratch_drop_view:
  assumes "al_smem al \<in> live h" and "al_fmem al \<in> live h" and "al_smem al \<noteq> al_fmem al"
  shows "\<exists>s'. scratch_drop lib al (s, h) = Ok (s', release {al_smem al, al_fmem al} h) \<and> view s' = None"
proof -
  have "al_fmem al \<in> live (release {al_smem al} h)" using assms by (simp add: live_release)
  then have free: "res_bind (h_free (al_smem al) h) (\<lambda>h. res_bind (h_free (al_fmem al) h) (\<lambda>h. Ok (s', h))) =
      (Ok (s', release {al_smem al, al_fmem al} h) :: (_, scratch_error) res)" for s' :: 's
    using assms by (simp add: h_free_live release_release insert_commute)
  show ?thesis
  proof (cases "view s")
    case None
    then show ?thesis using free [of s] by (simp add: scratch_drop_def detach_safe)
  next
    case (Some a)
    then obtain s' where "detach lib s = Some s'" "view s' = None" using detach_law by blast
    then show ?thesis using Some free [of s'] by (simp add: scratch_drop_def detach_safe)
  qed
qed

lemma scratch_new_view:
  assumes "view s = None" and "heap_ok h" and "scratch_new lib oom n d (s, h) = (Ok al, s', h')"
  shows "view s' = Some \<lparr>pd_start = al_smem al, pd_top = al_smem al, pd_stop = al_smem al + n, pd_marks = []\<rparr>"
    and "al_smem al \<noteq> al_fmem al" and "live h' = insert (al_smem al) (insert (al_fmem al) (live h))"
    and "al_smem al \<notin> live h" and "al_fmem al \<notin> live h" and "cells (release {al_smem al, al_fmem al} h') = cells h"
proof -
  have pos: "0 < n" "0 < d" using assms(3) by (auto simp: scratch_new_def split: if_splits)
  obtain s1 where "attach lib (fresh h) (Suc (fresh h)) n d s = Some s1"
      "view s1 = Some \<lparr>pd_start = fresh h, pd_top = fresh h, pd_stop = fresh h + n, pd_marks = []\<rparr>"
    using attach_law [OF assms(1), of n d "fresh h" "Suc (fresh h)"] pos by blast
  note at = this
  have al: "al = \<lparr>al_smem = fresh h, al_fmem = Suc (fresh h)\<rparr>" "s' = s1"
      "cells h' = (cells h)(fresh h \<mapsto> (smem_footprint lib n, smem_align lib),
         Suc (fresh h) \<mapsto> (fmem_footprint lib d, fmem_align lib))"
    using assms(3) at attach_safe [of s] assms(1)
    by (auto simp: scratch_new_def scratch_attach_def Let_def h_alloc_def split: if_splits)
  have free: "cells h (fresh h) = None" "cells h (Suc (fresh h)) = None"
    using assms(2) by (simp_all add: heap_ok_def)
  show "view s' = Some \<lparr>pd_start = al_smem al, pd_top = al_smem al, pd_stop = al_smem al + n, pd_marks = []\<rparr>"
    using al at by simp
  show "al_smem al \<noteq> al_fmem al" "live h' = insert (al_smem al) (insert (al_fmem al) (live h))"
    "al_smem al \<notin> live h" "al_fmem al \<notin> live h" "cells (release {al_smem al, al_fmem al} h') = cells h"
    using al free by (auto simp: release_cells fun_eq_iff)
qed

lemma scratch_new_attached:
  assumes "view s = Some a" and "heap_ok h" and "scratch_new lib oom n d (s, h) = (r, s', h')"
  shows "\<exists>e. r = Err e \<and> (e = InvalidState \<longrightarrow> view s' = None \<and> live h' = live h)"
proof -
  let ?al = "\<lparr>al_smem = fresh h, al_fmem = Suc (fresh h)\<rparr>"
  let ?h = "snd (h_alloc (fmem_footprint lib d, fmem_align lib) (snd (h_alloc (smem_footprint lib n, smem_align lib) h)))"
  have live: "live ?h = insert (Suc (fresh h)) (insert (fresh h) (live h))" by (auto simp: h_alloc_def)
  then obtain s1 where s1: "scratch_drop lib ?al (s, ?h) = Ok (s1, release {fresh h, Suc (fresh h)} ?h)" "view s1 = None"
    using scratch_drop_view [of ?al ?h s] by auto
  have "live (release {fresh h, Suc (fresh h)} ?h) = live h"
    using assms(2) unfolding live_release live by (auto simp: heap_ok_def domIff)
  then show ?thesis using assms(3) s1 attach_safe [of s] assms(1)
    by (auto simp: scratch_new_def scratch_attach_def Let_def h_alloc_def split: if_splits)
qed

end

section \<open>A scratch pad that keeps the laws\<close>

text \<open>The pad of a thread with the number of frames it can hold.\<close>

definition ref_align :: "nat \<Rightarrow> nat \<Rightarrow> nat" where
  "ref_align al p = al * ((p + al - 1) div al)"

lemma ref_align_ok: "0 < al \<Longrightarrow> p \<le> ref_align al p \<and> al dvd ref_align al p"
proof -
  assume "0 < al"
  moreover have "p + al - 1 = ref_align al p + (p + al - 1) mod al" by (simp add: ref_align_def)
  moreover have "(p + al - 1) mod al < al" using calculation by simp
  moreover have "al dvd ref_align al p" by (simp add: ref_align_def)
  ultimately show ?thesis by linarith
qed

definition ref_move :: "(pad \<Rightarrow> bool) \<Rightarrow> (pad \<Rightarrow> nat) \<Rightarrow> (pad \<times> nat) option \<Rightarrow> (nat \<times> (pad \<times> nat) option) option" where
  "ref_move ok f s = (case s of Some (a, d) \<Rightarrow> if ok a then Some (f a, Some (a\<lparr>pd_top := f a\<rparr>, d)) else None | None \<Rightarrow> None)"

definition ref_ok :: "(pad \<Rightarrow> bool) \<Rightarrow> (pad \<times> nat) option \<Rightarrow> bool" where
  "ref_ok ok s = (case s of Some (a, d) \<Rightarrow> pd_marks a \<noteq> [] \<and> ok a | None \<Rightarrow> False)"

abbreviation in_frame :: "nat \<Rightarrow> pad \<Rightarrow> bool" where
  "in_frame e a \<equiv> hd (pd_marks a) \<le> e \<and> e \<le> pd_top a"

definition ref_lib :: "(pad \<times> nat) option scratch_lib" where
  "ref_lib = \<lparr>smem_align = 128, fmem_align = 8, smem_footprint = ref_align 128, fmem_footprint = (\<lambda>d. 8 * d),
     attach_is_safe = (\<lambda>s. s = None),
     attach = (\<lambda>sm fm n d s. if s = None
       then Some (Some (\<lparr>pd_start = sm, pd_top = sm, pd_stop = sm + n, pd_marks = []\<rparr>, d)) else None),
     detach_is_safe = (\<lambda>s. s \<noteq> None),
     detach = (\<lambda>s. if s = None then None else Some None),
     push_is_safe = (\<lambda>s. case s of Some (a, d) \<Rightarrow> length (pd_marks a) < d | None \<Rightarrow> False),
     push = map_option (\<lambda>(a, d). Some (a\<lparr>pd_marks := pd_top a # pd_marks a\<rparr>, d)),
     pop_is_safe = ref_ok (\<lambda>_. True),
     pop = (\<lambda>s. case s of
       Some (a, d) \<Rightarrow> (case pd_marks a of m # ms \<Rightarrow> Some (Some (a\<lparr>pd_top := m, pd_marks := ms\<rparr>, d)) | [] \<Rightarrow> None)
     | None \<Rightarrow> None),
     alloc_is_safe = (\<lambda>al n. ref_ok (\<lambda>a. 0 < al \<and> ref_align al (pd_top a) + n \<le> pd_stop a)),
     c_alloc = (\<lambda>al n s. map_option (\<lambda>(e, s). (e - n, s)) (ref_move (\<lambda>_. True) (\<lambda>a. ref_align al (pd_top a) + n) s)),
     prepare_is_safe = (\<lambda>al. ref_ok (\<lambda>a. 0 < al \<and> ref_align al (pd_top a) \<le> pd_stop a)),
     prepare = (\<lambda>al. ref_move (\<lambda>_. True) (\<lambda>a. ref_align al (pd_top a))),
     publish_is_safe = (\<lambda>e. ref_ok (\<lambda>a. pd_top a \<le> e \<and> e \<le> pd_stop a)),
     publish = (\<lambda>e s. map_option snd (ref_move (\<lambda>_. True) (\<lambda>_. e) s)),
     cancel = Some,
     trim_is_safe = (\<lambda>e. ref_ok (in_frame e)),
     trim = (\<lambda>e s. map_option snd (ref_move (in_frame e) (\<lambda>_. e) s)),
     scratch_free = (\<lambda>s. case s of Some (a, d) \<Rightarrow> pd_stop a - pd_top a | None \<Rightarrow> 0)\<rparr>"

interpretation ref_pad: scratch_pad ref_lib "map_option fst"
  by unfold_locales (auto simp: ref_lib_def ref_ok_def ref_move_def ref_align_ok split: option.splits list.splits)

section \<open>Frames, blocks and the life of an allocator\<close>

text \<open>C18: Take a scratch pad that behaves as documented and any block of safe code on it (allocations,
  allocations of a size fixed later, nested blocks with their own frame), with arbitrary sizes and
  alignments. The block does not panic and never calls the pad outside its contract; the pad keeps its
  region and its open frames, and its top only grows, within the region. When the block succeeds, the
  allocations it holds lie inside the part of the region it has taken, start at addresses behind one
  another, and are pairwise disjoint. Run inside its own frame, the block leaves the pad exactly as it found it,
  whether it succeeds or fails.\<close>

theorem scratch_blocks_disjoint:
  assumes "scratch_pad lib view" and a: "view s = Some a" "pd_top a \<le> pd_stop a"
    and r: "run_ops lib ps s = (r, s')"
  shows "(\<exists>t. view s' = Some (a\<lparr>pd_top := t\<rparr>) \<and> pd_top a \<le> t \<and> t \<le> pd_stop a \<and> r \<noteq> Panic \<and>
      (\<forall>xs. r = Ok xs \<longrightarrow>
         (\<forall>i < length xs. pd_top a \<le> sa_ptr (xs ! i) \<and> sa_ptr (xs ! i) + sa_size (xs ! i) \<le> t) \<and>
         (\<forall>j < length xs. \<forall>i < j. sa_ptr (xs ! i) + sa_size (xs ! i) \<le> sa_ptr (xs ! j)))) \<and>
    view (snd (run_op lib (SScope ps) s)) = Some a"
proof (intro conjI)
  note keeps = scratch_pad.keeps_ops [OF assms(1) scratch_pad.keeps_op [OF assms(1)]]
  have "ran a r (view s')" by (rule scratch_pad.keepsD [OF assms(1) keeps a r])
  then obtain t where t: "view s' = Some (a\<lparr>pd_top := t\<rparr>)" "pd_top a \<le> t" "t \<le> pd_stop a" "r \<noteq> Panic"
      "\<And>xs. r = Ok xs \<Longrightarrow> laid_out (pd_top a) xs t"
    unfolding ran_def by (cases r) auto
  then show "\<exists>t. view s' = Some (a\<lparr>pd_top := t\<rparr>) \<and> pd_top a \<le> t \<and> t \<le> pd_stop a \<and> r \<noteq> Panic \<and>
      (\<forall>xs. r = Ok xs \<longrightarrow>
         (\<forall>i < length xs. pd_top a \<le> sa_ptr (xs ! i) \<and> sa_ptr (xs ! i) + sa_size (xs ! i) \<le> t) \<and>
         (\<forall>j < length xs. \<forall>i < j. sa_ptr (xs ! i) + sa_size (xs ! i) \<le> sa_ptr (xs ! j)))"
    by (intro exI [of _ t]) (auto intro: laid_out_first laid_out_last laid_out_disjoint)
  obtain q s2 where q: "run_op lib (SScope ps) s = (q, s2)" by fastforce
  show "view (snd (run_op lib (SScope ps) s)) = Some a"
    using scratch_pad.scope_restores [OF assms(1) a scratch_pad.keepsD [OF assms(1) keeps] q] q by simp
qed

text \<open>Two allocations around a block that takes more and gives it back.\<close>

definition small_pad :: "(pad \<times> nat) option" where
  "small_pad = Some (\<lparr>pd_start = 100, pd_top = 130, pd_stop = 300, pd_marks = [100]\<rparr>, 2)"

definition small_block :: "sprog list" where
  "small_block = [SAlloc 10 8, SScope [SAlloc 20 16, SDynamic 32 6], SAlloc 5 1]"

lemma power_of_two_simps: "is_power_of_two (Suc 0)" "is_power_of_two 8" "is_power_of_two 16" "is_power_of_two 32"
    "is_power_of_two 128"
  by (simp_all add: is_power_of_two_def upt_rec)

lemma small_block_run:
  "run_ops ref_lib small_block small_pad =
     (Ok [\<lparr>sa_ptr = 136, sa_size = 10\<rparr>, \<lparr>sa_ptr = 146, sa_size = 5\<rparr>],
      Some (\<lparr>pd_start = 100, pd_top = 151, pd_stop = 300, pd_marks = [100]\<rparr>, 2))"
  by (simp add: small_block_def small_pad_def allocate_def prepare_alloc_def publish_alloc_def push_frame_def
      frame_drop_def with_frame_def ref_lib_def ref_ok_def ref_move_def ref_align_def power_of_two_simps Let_def)

theorem scratch_blocks_disjoint_witness:
  "run_ops ref_lib small_block small_pad =
     (Ok [\<lparr>sa_ptr = 136, sa_size = 10\<rparr>, \<lparr>sa_ptr = 146, sa_size = 5\<rparr>],
      Some (\<lparr>pd_start = 100, pd_top = 151, pd_stop = 300, pd_marks = [100]\<rparr>, 2)) \<and>
   map_option fst (snd (run_op ref_lib (SScope small_block) small_pad)) =
     Some \<lparr>pd_start = 100, pd_top = 130, pd_stop = 300, pd_marks = [100]\<rparr>"
  using scratch_blocks_disjoint [OF ref_pad.scratch_pad_axioms _ _ small_block_run,
      of "\<lparr>pd_start = 100, pd_top = 130, pd_stop = 300, pd_marks = [100]\<rparr>"] small_block_run
  by (simp add: small_pad_def)

text \<open>An allocator constructed on a thread that has no scratch pad owns two new allocations and attaches
  a pad that covers its memory, with nothing in use and no frame. After any block has run in a frame of
  its own, dropping the allocator releases exactly these two allocations, each once, and leaves the thread
  without a pad.\<close>

theorem scratch_lifecycle:
  assumes "scratch_pad lib view" and s: "view s = None" "heap_ok h"
    and new: "scratch_new lib oom n d (s, h) = (Ok al, s1, h1)"
    and run: "run_op lib (SScope ps) s1 = (r, s2)"
  shows "view s1 = Some \<lparr>pd_start = al_smem al, pd_top = al_smem al, pd_stop = al_smem al + n, pd_marks = []\<rparr> \<and>
    al_smem al \<noteq> al_fmem al \<and> live h1 - live h = {al_smem al, al_fmem al} \<and> r \<noteq> Panic \<and> view s2 = view s1 \<and>
    (\<exists>s3 h2. scratch_drop lib al (s2, h1) = Ok (s3, h2) \<and> view s3 = None \<and> cells h2 = cells h)"
proof -
  note new = scratch_pad.scratch_new_view [OF assms(1) s new]
  note keeps = scratch_pad.keeps_ops [OF assms(1) scratch_pad.keeps_op [OF assms(1)]]
  have "view s2 = view s1 \<and> r \<noteq> Panic"
    using scratch_pad.scope_restores [OF assms(1) new(1) _ scratch_pad.keepsD [OF assms(1) keeps] run] new(1) by simp
  moreover obtain s3 where "scratch_drop lib al (s2, h1) = Ok (s3, release {al_smem al, al_fmem al} h1)" "view s3 = None"
    using scratch_pad.scratch_drop_view [OF assms(1), of al h1 s2] new(2,3) by auto
  ultimately show ?thesis using new by auto
qed

definition demo_allocator :: scratch_allocator where
  "demo_allocator = \<lparr>al_smem = 1, al_fmem = Suc 1\<rparr>"

lemma demo_new:
  "scratch_new ref_lib (\<lambda>_. False) 8192 16 (None, heap_empty) =
     (Ok demo_allocator, Some (\<lparr>pd_start = 1, pd_top = 1, pd_stop = 8193, pd_marks = []\<rparr>, 16),
      \<lparr>cells = (\<lambda>_. None)(1 \<mapsto> (8192, 128), Suc 1 \<mapsto> (128, 8)), fresh = Suc (Suc 1)\<rparr>)"
  by (simp add: scratch_new_def scratch_attach_def ref_lib_def layout_ok_def power_of_two_simps Let_def
      h_alloc_def heap_empty_def ref_align_def demo_allocator_def)

theorem scratch_lifecycle_witness:
  "\<exists>s1 h1 s2. scratch_new ref_lib (\<lambda>_. False) 8192 16 (None, heap_empty) = (Ok demo_allocator, s1, h1) \<and>
     run_op ref_lib (SScope small_block) s1 = (Ok [], s2) \<and>
     (\<exists>s3 h2. scratch_drop ref_lib demo_allocator (s2, h1) = Ok (s3, h2) \<and> s3 = None \<and> cells h2 = (\<lambda>_. None))"
proof -
  let ?s = "Some (\<lparr>pd_start = 1, pd_top = 1, pd_stop = 8193, pd_marks = []\<rparr>, 16)"
  have run: "run_op ref_lib (SScope small_block) ?s = (Ok [], ?s)"
    by (simp add: small_block_def allocate_def prepare_alloc_def publish_alloc_def push_frame_def
      frame_drop_def with_frame_def ref_lib_def ref_ok_def ref_move_def ref_align_def power_of_two_simps Let_def)
  have "map_option fst None = (None :: pad option)" "heap_ok heap_empty" by simp_all
  note life = scratch_lifecycle [OF ref_pad.scratch_pad_axioms this demo_new run]
  have "\<exists>s3 h2. scratch_drop ref_lib demo_allocator
      (?s, \<lparr>cells = (\<lambda>_. None)(1 \<mapsto> (8192, 128), Suc 1 \<mapsto> (128, 8)), fresh = Suc (Suc 1)\<rparr>) = Ok (s3, h2) \<and>
      s3 = None \<and> cells h2 = (\<lambda>_. None)"
    using life unfolding heap_empty_def heap.simps option.map_disc_iff by (elim conjE)
  then show ?thesis using demo_new run by blast
qed

text \<open>
  A second allocator on the same thread is refused, and its destructor, which runs inside \<open>new\<close>, detaches
  the pad of the first one, whose later allocations then fail.
\<close>

theorem second_allocator_detaches:
  assumes "scratch_pad lib view" and "view s = Some a" and "heap_ok h"
    and "scratch_new lib oom n d (s, h) = (r, s', h')" and "r = Err InvalidState"
  shows "view s' = None \<and> live h' = live h"
  using scratch_pad.scratch_new_attached [OF assms(1-4)] assms(5) by auto

end
