(* ===== verification/Tmpl.thy ===== *)
theory Tmpl
  imports Ownership Rust_Std
begin

text \<open>
  The containers of \<open>util/tmpl/fd_tmpl/src/lib.rs\<close>: eight wrappers around containers that C templates
  generate. Every constructor asks C for a footprint and an alignment, allocates, formats and joins; every
  destructor leaves, deletes and deallocates. Each C template and the memory it manages is a
  parameter (\<open>map_lib\<close>, \<open>stack_lib\<close>, ...) over an opaque state; a C function called outside its contract gives \<open>None\<close>.
\<close>

section \<open>The C library\<close>

datatype tmpl_error = AllocationFailed | InvalidInput string | ContainerFull | KeyNotFound | ContainerEmpty |
  OperationFailed string | InvalidAlignment

text \<open>
  The functions every template has; \<open>c_new\<close> and \<open>c_footprint\<close> of the templates of a fixed size ignore
  their number of elements. Pointers are addresses, 0 is null.
\<close>

record 's c_template =
  c_footprint :: "u64 \<Rightarrow> u64"
  c_align :: u64
  c_new :: "nat \<Rightarrow> u64 \<Rightarrow> 's \<Rightarrow> nat \<times> 's"
  c_join :: "nat \<Rightarrow> 's \<Rightarrow> nat \<times> 's"
  c_leave :: "nat \<Rightarrow> 's \<Rightarrow> nat \<times> 's"
  c_delete :: "nat \<Rightarrow> 's \<Rightarrow> nat \<times> 's"

record 's map_lib =
  map_t :: "'s c_template"
  map_insert :: "nat \<Rightarrow> u64 \<Rightarrow> 's \<Rightarrow> (nat \<times> 's) option"
  map_query :: "nat \<Rightarrow> u64 \<Rightarrow> 's \<Rightarrow> nat"
  map_value :: "nat \<Rightarrow> 's \<Rightarrow> u64"
  map_remove :: "nat \<Rightarrow> nat \<Rightarrow> 's \<Rightarrow> (unit \<times> 's) option"

record 's stack_lib =
  stack_t :: "'s c_template"
  STACK_MAX :: u64
  stack_push :: "nat \<Rightarrow> u64 \<Rightarrow> 's \<Rightarrow> (nat \<times> 's) option"
  stack_pop :: "nat \<Rightarrow> 's \<Rightarrow> (u64 \<times> 's) option"
  stack_cnt :: "nat \<Rightarrow> 's \<Rightarrow> u64"
  stack_empty :: "nat \<Rightarrow> 's \<Rightarrow> bool"
  stack_full :: "nat \<Rightarrow> 's \<Rightarrow> bool"
  stack_read :: "nat \<Rightarrow> 's \<Rightarrow> u64 option"

record 's queue_lib =
  queue_t :: "'s c_template"
  queue_push :: "nat \<Rightarrow> u64 \<Rightarrow> 's \<Rightarrow> (nat \<times> 's) option"
  queue_pop :: "nat \<Rightarrow> 's \<Rightarrow> (u64 \<times> 's) option"
  queue_cnt :: "nat \<Rightarrow> 's \<Rightarrow> u64"
  queue_empty :: "nat \<Rightarrow> 's \<Rightarrow> bool"
  queue_full :: "nat \<Rightarrow> 's \<Rightarrow> bool"
  queue_read :: "nat \<Rightarrow> 's \<Rightarrow> u64 option"

record 's set_lib =
  set_t :: "'s c_template"
  set_insert :: "nat \<Rightarrow> u64 \<Rightarrow> 's \<Rightarrow> (nat \<times> 's) option"
  set_null :: "nat \<Rightarrow> 's \<Rightarrow> (nat \<times> 's) option"
  set_test :: "nat \<Rightarrow> u64 \<Rightarrow> 's \<Rightarrow> bool"
  set_remove :: "nat \<Rightarrow> u64 \<Rightarrow> 's \<Rightarrow> (unit \<times> 's) option"
  set_cnt :: "nat \<Rightarrow> 's \<Rightarrow> u64"

record 's deque_lib =
  deque_t :: "'s c_template"
  deque_push_head :: "nat \<Rightarrow> nat \<Rightarrow> 's \<Rightarrow> (nat \<times> 's) option"
  deque_push_tail :: "nat \<Rightarrow> nat \<Rightarrow> 's \<Rightarrow> (nat \<times> 's) option"
  deque_pop_head :: "nat \<Rightarrow> 's \<Rightarrow> (nat \<times> 's) option"
  deque_pop_tail :: "nat \<Rightarrow> 's \<Rightarrow> (nat \<times> 's) option"
  deque_cnt :: "nat \<Rightarrow> 's \<Rightarrow> u64"
  deque_empty :: "nat \<Rightarrow> 's \<Rightarrow> bool"
  deque_full :: "nat \<Rightarrow> 's \<Rightarrow> bool"

record 's heap_lib =
  heap_t :: "'s c_template"
  heap_idx_insert :: "nat \<Rightarrow> u64 \<Rightarrow> nat \<Rightarrow> u64 \<times> u64 \<times> u64 \<Rightarrow> 's \<Rightarrow> (nat \<times> 's) option"
  heap_ele_cnt :: "nat \<Rightarrow> 's \<Rightarrow> u64"

record 's pool_lib =
  pool_t :: "'s c_template"
  pool_idx_acquire :: "nat \<Rightarrow> 's \<Rightarrow> (u64 \<times> 's) option"
  pool_idx_null :: "nat \<Rightarrow> 's \<Rightarrow> u64"
  pool_idx_release :: "nat \<Rightarrow> u64 \<Rightarrow> 's \<Rightarrow> (unit \<times> 's) option"
  pool_free :: "nat \<Rightarrow> 's \<Rightarrow> u64"
  pool_used :: "nat \<Rightarrow> 's \<Rightarrow> u64"

record 's vec_lib =
  vec_t :: "'s c_template"
  vec_expand :: "nat \<Rightarrow> u64 \<Rightarrow> 's \<Rightarrow> (nat \<times> 's) option"
  vec_remove_idx :: "nat \<Rightarrow> u64 \<Rightarrow> 's \<Rightarrow> (nat \<times> 's) option"
  vec_cnt :: "nat \<Rightarrow> 's \<Rightarrow> u64"
  vec_is_empty :: "nat \<Rightarrow> 's \<Rightarrow> bool"
  vec_is_full :: "nat \<Rightarrow> 's \<Rightarrow> bool"
  vec_read :: "nat \<Rightarrow> 's \<Rightarrow> u64 option"
  vec_write :: "nat \<Rightarrow> u64 \<Rightarrow> 's \<Rightarrow> (unit \<times> 's) option"

section \<open>Construction and destruction\<close>

text \<open>The fields of every wrapper; those of a fixed size have no \<open>max_elements\<close>.\<close>

record container =
  ct_handle :: nat
  ct_mem :: nat
  ct_layout :: "nat \<times> nat"
  max_elements :: u64

type_synonym layouts = "(nat \<times> nat) heap"

definition container_new ::
  "'s c_template \<Rightarrow> (layouts \<Rightarrow> bool) \<Rightarrow> u64 \<Rightarrow> 's \<times> layouts \<Rightarrow> (container, tmpl_error) res \<times> 's \<times> layouts" where
  "container_new t oom max_ele st =
     (let footprint = c_footprint t max_ele; align = c_align t; layout = (unat footprint, unat align)
      in if footprint = 0 \<or> align = 0 \<or> \<not> is_power_of_two (unat align) then (Err InvalidAlignment, st)
         else if \<not> layout_ok (unat footprint) (unat align) then (Err InvalidAlignment, st)
         else if oom (snd st) then (Err AllocationFailed, st)
         else
           (case h_alloc layout (snd st) of (mem, h) \<Rightarrow>
            case c_new t mem max_ele (fst st) of (shmem, s) \<Rightarrow>
            case c_join t shmem s of (handle, s) \<Rightarrow>
            if handle = 0 then
              (case h_free mem h of
                 Ok h \<Rightarrow> (Err AllocationFailed, s, h) | Err e \<Rightarrow> (Err e, s, h) | Panic \<Rightarrow> (Panic, s, h))
            else
              (Ok \<lparr>ct_handle = handle, ct_mem = mem, ct_layout = layout, max_elements = max_ele\<rparr>, s, h)))"

definition container_drop ::
  "'s c_template \<Rightarrow> container \<Rightarrow> 's \<times> layouts \<Rightarrow> ('s \<times> layouts, tmpl_error) res" where
  "container_drop t c st =
     (case c_leave t (ct_handle c) (fst st) of (shmem, s) \<Rightarrow>
      case c_delete t shmem s of (_, s) \<Rightarrow>
      res_bind (h_free (ct_mem c) (snd st)) (\<lambda>h. Ok (s, h)))"

definition FdMap_new where "FdMap_new lib oom = container_new (map_t lib) oom 0"

definition FdMap_drop where "FdMap_drop lib = container_drop (map_t lib)"

definition FdStack_new where "FdStack_new lib oom = container_new (stack_t lib) oom (STACK_MAX lib)"

definition FdStack_drop where "FdStack_drop lib = container_drop (stack_t lib)"

definition FdQueue_new where "FdQueue_new lib oom = container_new (queue_t lib) oom 0"

definition FdQueue_drop where "FdQueue_drop lib = container_drop (queue_t lib)"

definition FdSet_new where "FdSet_new lib oom = container_new (set_t lib) oom 0"

definition FdSet_drop where "FdSet_drop lib = container_drop (set_t lib)"

definition CStrDeque_new where "CStrDeque_new lib oom = container_new (deque_t lib) oom 0"

definition CStrDeque_drop where "CStrDeque_drop lib = container_drop (deque_t lib)"

definition FdHeap_new where "FdHeap_new lib oom n = container_new (heap_t lib) oom n"

definition FdHeap_drop where "FdHeap_drop lib = container_drop (heap_t lib)"

definition FdPool_new where "FdPool_new lib oom n = container_new (pool_t lib) oom n"

definition FdPool_drop where "FdPool_drop lib = container_drop (pool_t lib)"

definition FdVec_new where "FdVec_new lib oom n = container_new (vec_t lib) oom n"

definition FdVec_drop where "FdVec_drop lib = container_drop (vec_t lib)"

section \<open>Map\<close>

type_synonym ('a, 's) tmpl_call = "('a, tmpl_error) res \<times> 's"

text \<open>Only the key of the element that \<open>insert\<close> builds reaches C.\<close>

definition FdMap_insert :: "'s map_lib \<Rightarrow> container \<Rightarrow> u64 \<Rightarrow> u64 \<Rightarrow> 's \<Rightarrow> (unit, 's) tmpl_call" where
  "FdMap_insert lib c key value s =
     ffi (map_insert lib (ct_handle c) key s) (\<lambda>r s. (if r = 0 then Err ContainerFull else Ok (), s)) s"

definition FdMap_get :: "'s map_lib \<Rightarrow> container \<Rightarrow> u64 \<Rightarrow> 's \<Rightarrow> u64 option" where
  "FdMap_get lib c key s =
     (let r = map_query lib (ct_handle c) key s in if r = 0 then None else Some (map_value lib r s))"

text \<open>\<open>remove\<close> passes C the address \<open>q\<close> of an element on its own stack.\<close>

definition FdMap_remove :: "'s map_lib \<Rightarrow> container \<Rightarrow> nat \<Rightarrow> u64 \<Rightarrow> 's \<Rightarrow> (unit option, 's) tmpl_call" where
  "FdMap_remove lib c q key s = ffi (map_remove lib (ct_handle c) q s) (\<lambda>_ s. (Ok (Some ()), s)) s"

definition FdMap_contains_key :: "'s map_lib \<Rightarrow> container \<Rightarrow> u64 \<Rightarrow> 's \<Rightarrow> bool" where
  "FdMap_contains_key lib c key s \<longleftrightarrow> FdMap_get lib c key s \<noteq> None"

definition FdMap_len :: "'s map_lib \<Rightarrow> nat" where
  "FdMap_len lib = unat (c_footprint (map_t lib) 0)"

definition FdMap_is_empty :: "'s map_lib \<Rightarrow> bool" where
  "FdMap_is_empty lib \<longleftrightarrow> FdMap_len lib = 0"

definition FdMap_clear :: "'s map_lib \<Rightarrow> container \<Rightarrow> 's \<Rightarrow> (container, 's) tmpl_call" where
  "FdMap_clear lib c s =
     (case c_leave (map_t lib) (ct_handle c) s of (shmem, s) \<Rightarrow>
      case c_delete (map_t lib) shmem s of (_, s) \<Rightarrow>
      case c_new (map_t lib) (ct_mem c) 0 s of (shmem, s) \<Rightarrow>
      case c_join (map_t lib) shmem s of (handle, s) \<Rightarrow>
      (if handle = 0 then Panic else Ok (c\<lparr>ct_handle := handle\<rparr>), s))"

section \<open>Stack and queue\<close>

definition FdStack_push :: "'s stack_lib \<Rightarrow> container \<Rightarrow> u64 \<Rightarrow> 's \<Rightarrow> (unit, 's) tmpl_call" where
  "FdStack_push lib c value s =
     ffi (stack_push lib (ct_handle c) value s) (\<lambda>r s. (if r = 0 then Err ContainerFull else Ok (), s)) s"

definition FdStack_pop :: "'s stack_lib \<Rightarrow> container \<Rightarrow> 's \<Rightarrow> (u64 option, 's) tmpl_call" where
  "FdStack_pop lib c s =
     (if stack_empty lib (ct_handle c) s then (Ok None, s)
      else ffi (stack_pop lib (ct_handle c) s) (\<lambda>v s. (Ok (Some v), s)) s)"

text \<open>Element \<open>i\<close> of the array behind a handle; \<open>cnt - 1\<close> is checked arithmetic.\<close>

abbreviation ulong_at :: "nat \<Rightarrow> nat \<Rightarrow> nat" where
  "ulong_at handle i \<equiv> handle + 8 * i"

definition read_at :: "(nat \<Rightarrow> 's \<Rightarrow> u64 option) \<Rightarrow> nat \<Rightarrow> nat \<Rightarrow> 's \<Rightarrow> (u64 option, tmpl_error) res" where
  "read_at read handle i s =
     (case read (ulong_at handle i) s of Some v \<Rightarrow> Ok (Some v) | None \<Rightarrow> Panic)"

definition FdStack_peek :: "'s stack_lib \<Rightarrow> container \<Rightarrow> 's \<Rightarrow> (u64 option, tmpl_error) res" where
  "FdStack_peek lib c s =
     (if stack_empty lib (ct_handle c) s then Ok None
      else if stack_cnt lib (ct_handle c) s = 0 then Panic
      else let top_idx = stack_cnt lib (ct_handle c) s - 1
           in read_at (stack_read lib) (ct_handle c) (unat top_idx) s)"

definition FdStack_len :: "'s stack_lib \<Rightarrow> container \<Rightarrow> 's \<Rightarrow> nat" where
  "FdStack_len lib c s = unat (stack_cnt lib (ct_handle c) s)"

definition FdStack_is_empty :: "'s stack_lib \<Rightarrow> container \<Rightarrow> 's \<Rightarrow> bool" where
  "FdStack_is_empty lib c s = stack_empty lib (ct_handle c) s"

definition FdStack_is_full :: "'s stack_lib \<Rightarrow> container \<Rightarrow> 's \<Rightarrow> bool" where
  "FdStack_is_full lib c s = stack_full lib (ct_handle c) s"

definition FdQueue_push :: "'s queue_lib \<Rightarrow> container \<Rightarrow> u64 \<Rightarrow> 's \<Rightarrow> (unit, 's) tmpl_call" where
  "FdQueue_push lib c value s =
     ffi (queue_push lib (ct_handle c) value s) (\<lambda>r s. (if r = 0 then Err ContainerFull else Ok (), s)) s"

definition FdQueue_pop :: "'s queue_lib \<Rightarrow> container \<Rightarrow> 's \<Rightarrow> (u64 option, 's) tmpl_call" where
  "FdQueue_pop lib c s =
     (if queue_empty lib (ct_handle c) s then (Ok None, s)
      else ffi (queue_pop lib (ct_handle c) s) (\<lambda>v s. (Ok (Some v), s)) s)"

definition FdQueue_peek :: "'s queue_lib \<Rightarrow> container \<Rightarrow> 's \<Rightarrow> (u64 option, tmpl_error) res" where
  "FdQueue_peek lib c s =
     (if queue_empty lib (ct_handle c) s then Ok None
      else if queue_cnt lib (ct_handle c) s > 0 then read_at (queue_read lib) (ct_handle c) 0 s
      else Ok None)"

definition FdQueue_len :: "'s queue_lib \<Rightarrow> container \<Rightarrow> 's \<Rightarrow> nat" where
  "FdQueue_len lib c s = unat (queue_cnt lib (ct_handle c) s)"

definition FdQueue_is_empty :: "'s queue_lib \<Rightarrow> container \<Rightarrow> 's \<Rightarrow> bool" where
  "FdQueue_is_empty lib c s = queue_empty lib (ct_handle c) s"

definition FdQueue_is_full :: "'s queue_lib \<Rightarrow> container \<Rightarrow> 's \<Rightarrow> bool" where
  "FdQueue_is_full lib c s = queue_full lib (ct_handle c) s"

section \<open>Set\<close>

definition FdSet_insert :: "'s set_lib \<Rightarrow> container \<Rightarrow> u64 \<Rightarrow> 's \<Rightarrow> (bool, 's) tmpl_call" where
  "FdSet_insert lib c key s =
     ffi (set_insert lib (ct_handle c) key s) (\<lambda>idx s.
     ffi (set_null lib idx s) (\<lambda>n s. (Ok (idx \<noteq> n), s)) s) s"

definition FdSet_contains :: "'s set_lib \<Rightarrow> container \<Rightarrow> u64 \<Rightarrow> 's \<Rightarrow> bool" where
  "FdSet_contains lib c key s = set_test lib (ct_handle c) key s"

definition FdSet_remove :: "'s set_lib \<Rightarrow> container \<Rightarrow> u64 \<Rightarrow> 's \<Rightarrow> (bool, 's) tmpl_call" where
  "FdSet_remove lib c key s = ffi (set_remove lib (ct_handle c) key s) (\<lambda>_ s. (Ok True, s)) s"

definition FdSet_len :: "'s set_lib \<Rightarrow> container \<Rightarrow> 's \<Rightarrow> nat" where
  "FdSet_len lib c s = unat (set_cnt lib (ct_handle c) s)"

definition FdSet_is_empty :: "'s set_lib \<Rightarrow> container \<Rightarrow> 's \<Rightarrow> bool" where
  "FdSet_is_empty lib c s \<longleftrightarrow> FdSet_len lib c s = 0"

section \<open>Deque of strings\<close>

text \<open>The strings are allocations of Rust; a pushed string is given up with \<open>mem::forget\<close>.\<close>

type_synonym strings = "bytes heap"

definition push_string ::
  "(nat \<Rightarrow> nat \<Rightarrow> 's \<Rightarrow> (nat \<times> 's) option) \<Rightarrow> container \<Rightarrow> bytes \<Rightarrow> 's \<times> strings \<Rightarrow> (unit, 's \<times> strings) tmpl_call" where
  "push_string c_push c value st =
     (case cstring_new value of
        None \<Rightarrow> (Err (InvalidInput ''String contains null byte''), st)
      | Some b \<Rightarrow>
          (case h_alloc b (snd st) of (c_str, h) \<Rightarrow>
           case c_push (ct_handle c) c_str (fst st) of
             None \<Rightarrow> (Panic, st)
           | Some (result, s) \<Rightarrow>
               if result = 0 then
                 (case h_free c_str h of
                    Ok h \<Rightarrow> (Err ContainerFull, s, h) | Err e \<Rightarrow> (Err e, s, h) | Panic \<Rightarrow> (Panic, s, h))
               else (Ok (), s, h)))"

definition pop_string ::
  "'s deque_lib \<Rightarrow> (nat \<Rightarrow> 's \<Rightarrow> (nat \<times> 's) option) \<Rightarrow> container \<Rightarrow> 's \<times> strings \<Rightarrow> (bytes option, 's \<times> strings) tmpl_call" where
  "pop_string lib c_pop c st =
     (if deque_empty lib (ct_handle c) (fst st) then (Ok None, st)
      else case c_pop (ct_handle c) (fst st) of
             None \<Rightarrow> (Panic, st)
           | Some (c_str, s) \<Rightarrow>
               if c_str = 0 then (Ok None, s, snd st)
               else (case cells (snd st) c_str of
                       None \<Rightarrow> (Panic, s, snd st)
                     | Some b \<Rightarrow> (Ok (Some (from_utf8_lossy (cstr_bytes b))), s, snd st)))"

definition CStrDeque_push_head where "CStrDeque_push_head lib = push_string (deque_push_head lib)"

definition CStrDeque_push_tail where "CStrDeque_push_tail lib = push_string (deque_push_tail lib)"

definition CStrDeque_pop_head where "CStrDeque_pop_head lib = pop_string lib (deque_pop_head lib)"

definition CStrDeque_pop_tail where "CStrDeque_pop_tail lib = pop_string lib (deque_pop_tail lib)"

definition CStrDeque_len :: "'s deque_lib \<Rightarrow> container \<Rightarrow> 's \<Rightarrow> nat" where
  "CStrDeque_len lib c s = unat (deque_cnt lib (ct_handle c) s)"

definition CStrDeque_is_empty :: "'s deque_lib \<Rightarrow> container \<Rightarrow> 's \<Rightarrow> bool" where
  "CStrDeque_is_empty lib c s = deque_empty lib (ct_handle c) s"

definition CStrDeque_is_full :: "'s deque_lib \<Rightarrow> container \<Rightarrow> 's \<Rightarrow> bool" where
  "CStrDeque_is_full lib c s = deque_full lib (ct_handle c) s"

section \<open>Heap, pool and vector\<close>

text \<open>\<open>FdHeap::insert\<close> passes C index 0 of a pool that is its local element \<open>left\<close>, \<open>right\<close>, \<open>value\<close>
  at address \<open>ele\<close>.\<close>

definition FdHeap_insert :: "'s heap_lib \<Rightarrow> container \<Rightarrow> nat \<Rightarrow> u64 \<Rightarrow> 's \<Rightarrow> (unit, 's) tmpl_call" where
  "FdHeap_insert lib c ele value s =
     ffi (heap_idx_insert lib (ct_handle c) 0 ele (0, 0, value) s) (\<lambda>r s. (if r = 0 then Err ContainerFull else Ok (), s)) s"

definition FdHeap_len :: "'s heap_lib \<Rightarrow> container \<Rightarrow> 's \<Rightarrow> nat" where
  "FdHeap_len lib c s = unat (heap_ele_cnt lib (ct_handle c) s)"

definition FdPool_acquire :: "'s pool_lib \<Rightarrow> container \<Rightarrow> 's \<Rightarrow> (u64 option, 's) tmpl_call" where
  "FdPool_acquire lib c s =
     ffi (pool_idx_acquire lib (ct_handle c) s) (\<lambda>idx s.
       (Ok (if idx = pool_idx_null lib (ct_handle c) s then None else Some idx), s)) s"

definition FdPool_release :: "'s pool_lib \<Rightarrow> container \<Rightarrow> u64 \<Rightarrow> 's \<Rightarrow> (unit, 's) tmpl_call" where
  "FdPool_release lib c idx s = ffi (pool_idx_release lib (ct_handle c) idx s) (\<lambda>_ s. (Ok (), s)) s"

definition FdPool_available :: "'s pool_lib \<Rightarrow> container \<Rightarrow> 's \<Rightarrow> nat" where
  "FdPool_available lib c s = unat (pool_free lib (ct_handle c) s)"

definition FdPool_used :: "'s pool_lib \<Rightarrow> container \<Rightarrow> 's \<Rightarrow> nat" where
  "FdPool_used lib c s = unat (pool_used lib (ct_handle c) s)"

definition FdPool_is_empty :: "'s pool_lib \<Rightarrow> container \<Rightarrow> 's \<Rightarrow> bool" where
  "FdPool_is_empty lib c s \<longleftrightarrow> FdPool_available lib c s = 0"

definition FdVec_push :: "'s vec_lib \<Rightarrow> container \<Rightarrow> u64 \<Rightarrow> 's \<Rightarrow> (unit, 's) tmpl_call" where
  "FdVec_push lib c value s =
     ffi (vec_expand lib (ct_handle c) 1 s) (\<lambda>r s. (if r = 0 then Err ContainerFull else Ok (), s)) s"

definition FdVec_len :: "'s vec_lib \<Rightarrow> container \<Rightarrow> 's \<Rightarrow> nat" where
  "FdVec_len lib c s = unat (vec_cnt lib (ct_handle c) s)"

text \<open>The pointer that \<open>pop\<close> returns is the one C returns; \<open>len() - 1\<close> is checked arithmetic.\<close>

definition FdVec_pop :: "'s vec_lib \<Rightarrow> container \<Rightarrow> 's \<Rightarrow> (nat option, 's) tmpl_call" where
  "FdVec_pop lib c s =
     (if vec_is_empty lib (ct_handle c) s then (Ok None, s)
      else if FdVec_len lib c s = 0 then (Panic, s)
      else ffi (vec_remove_idx lib (ct_handle c) (word_of_nat (FdVec_len lib c s - 1)) s) (\<lambda>p s. (Ok (Some p), s)) s)"

definition FdVec_get :: "'s vec_lib \<Rightarrow> container \<Rightarrow> nat \<Rightarrow> 's \<Rightarrow> (u64 option, tmpl_error) res" where
  "FdVec_get lib c i s =
     (if i \<ge> unat (vec_cnt lib (ct_handle c) s) then Ok None else read_at (vec_read lib) (ct_handle c) i s)"

definition FdVec_set :: "'s vec_lib \<Rightarrow> container \<Rightarrow> nat \<Rightarrow> u64 \<Rightarrow> 's \<Rightarrow> (unit, 's) tmpl_call" where
  "FdVec_set lib c i value s =
     (if i \<ge> unat (vec_cnt lib (ct_handle c) s) then (Err (InvalidInput ''Index out of bounds''), s)
      else ffi (vec_write lib (ulong_at (ct_handle c) i) value s) (\<lambda>_ s. (Ok (), s)) s)"

definition FdVec_is_empty :: "'s vec_lib \<Rightarrow> container \<Rightarrow> 's \<Rightarrow> bool" where
  "FdVec_is_empty lib c s = vec_is_empty lib (ct_handle c) s"

definition FdVec_is_full :: "'s vec_lib \<Rightarrow> container \<Rightarrow> 's \<Rightarrow> bool" where
  "FdVec_is_full lib c s = vec_is_full lib (ct_handle c) s"

end
