(* ===== verification/Tmpl_Props.thy ===== *)
theory Tmpl_Props
  imports Tmpl
begin

text \<open>
  What the containers of \<open>Tmpl\<close> promise. The locale \<open>template\<close> states the life of a C container
  (formatted, joined, left, deleted), \<open>c_stack\<close>, \<open>c_queue\<close> and \<open>c_deque\<close> the documented behaviour of three of
  them below their capacity. \<open>bounded_seq\<close> is the interface of the Rust wrappers: whoever provides it, any
  program that stays within the capacity observes what it would observe on a list.
\<close>

section \<open>Life of a container\<close>

text \<open>Injective finite maps: one binding more, one binding less.\<close>

lemma inj_map_upd: "inj_on m (dom m) \<Longrightarrow> p \<notin> ran m \<Longrightarrow> inj_on (m(h \<mapsto> p)) (insert h (dom m))"
  unfolding inj_on_def ran_def by (simp add: domIff) metis

lemma inj_map_del:
  assumes "inj_on m (dom m)" and "m h = Some p"
  shows "inj_on (m(h := None)) (dom m - {h})" and "p \<notin> ran (m(h := None))" and "ran (m(h := None)) \<subseteq> ran m"
proof -
  show "inj_on (m(h := None)) (dom m - {h})" using assms(1) by (auto simp: inj_on_def)
  show "p \<notin> ran (m(h := None))"
  proof
    assume "p \<in> ran (m(h := None))"
    then obtain k where "k \<noteq> h" "m k = Some p" by (auto simp: ran_def split: if_splits)
    then show False using inj_onD [OF assms(1), of k h] assms(2) by (simp add: domI)
  qed
  show "ran (m(h := None)) \<subseteq> ran m" by (auto simp: ran_def split: if_splits)
qed

text \<open>The three ways a constructor ends.\<close>

lemma container_new_run:
  assumes "heap_ok h" and p: "c_new t (fresh h) n s = (p, s1)" and hnd: "c_join t p s1 = (hnd, s2)"
    and r: "container_new t oom n (s, h) = (r, s', h')"
    and al: "h_alloc (unat (c_footprint t n), unat (c_align t)) h = (fresh h, ha)"
  obtains (skip) e where "r = Err e" "s' = s" "h' = h"
    | (null) "hnd = 0" "r = Err AllocationFailed" "s' = s2" "cells h' = cells h"
    | (good) "hnd \<noteq> 0" "s' = s2" "h' = ha" "r = Ok \<lparr>ct_handle = hnd, ct_mem = fresh h,
        ct_layout = (unat (c_footprint t n), unat (c_align t)), max_elements = n\<rparr>"
proof (cases "c_footprint t n = 0 \<or> c_align t = 0 \<or> \<not> is_power_of_two (unat (c_align t)) \<or>
    \<not> layout_ok (unat (c_footprint t n)) (unat (c_align t)) \<or> oom h")
  case True
  then have "\<exists>e. r = Err e \<and> s' = s \<and> h' = h" using r p hnd al by (auto simp: container_new_def Let_def split: if_splits)
  then show ?thesis using skip by blast
next
  case False
  have live: "fresh h \<in> live ha" "fresh h \<notin> live h" and c: "\<And>q. q \<noteq> fresh h \<Longrightarrow> cells ha q = cells h q"
    using h_alloc_ok [OF assms(1) al] heap_ok_fresh [OF assms(1)] by auto
  have none: "cells h (fresh h) = None" using assms(1) by (simp add: heap_ok_def)
  have r': "(if hnd = 0 then (Err AllocationFailed, s2, release {fresh h} ha)
      else (Ok \<lparr>ct_handle = hnd, ct_mem = fresh h,
        ct_layout = (unat (c_footprint t n), unat (c_align t)), max_elements = n\<rparr>, s2, ha)) = (r, s', h')"
    using r False p hnd al by (cases "hnd = 0") (simp_all add: container_new_def h_free_live [OF live(1)])
  show ?thesis
  proof (cases "hnd = 0")
    case True
    then show ?thesis using r' c none by (intro null) (auto simp: release_cells fun_eq_iff)
  next
    case False
    then show ?thesis using r' by (intro good) auto
  qed
qed

locale template =
  fixes t :: "'s c_template" and fmt :: "'s \<Rightarrow> nat set" and joined :: "'s \<Rightarrow> nat \<Rightarrow> nat option"
  assumes new_law: "0 < m \<Longrightarrow> m \<notin> fmt s \<Longrightarrow> c_new t m n s = (p, s') \<Longrightarrow>
      p = m \<and> fmt s' = insert m (fmt s) \<and> joined s' = joined s \<or> p = 0 \<and> fmt s' = fmt s \<and> joined s' = joined s"
    and join_law: "p \<in> fmt s \<Longrightarrow> p \<notin> ran (joined s) \<Longrightarrow> c_join t p s = (h, s') \<Longrightarrow>
      0 < h \<and> joined s h = None \<and> fmt s' = fmt s \<and> joined s' = (joined s)(h \<mapsto> p)"
    and join_null: "c_join t 0 s = (0, s)"
    and leave_law: "joined s h = Some p \<Longrightarrow> c_leave t h s = (q, s') \<Longrightarrow>
      q = p \<and> fmt s' = fmt s \<and> joined s' = (joined s)(h := None)"
    and delete_law: "p \<in> fmt s \<Longrightarrow> p \<notin> ran (joined s) \<Longrightarrow> c_delete t p s = (q, s') \<Longrightarrow>
      fmt s' = fmt s - {p} \<and> joined s' = joined s"
begin

text \<open>No two handles share their memory, and joined memory is formatted and allocated.\<close>

definition sound :: "'s \<Rightarrow> layouts \<Rightarrow> bool" where
  "sound s h \<longleftrightarrow> heap_ok h \<and> fmt s \<subseteq> live h \<and> ran (joined s) \<subseteq> fmt s \<and> inj_on (joined s) (dom (joined s))"

lemma container_new_cases:
  assumes "sound s h" and "container_new t oom n (s, h) = (r, s', h')"
  shows "case r of
      Ok c \<Rightarrow> sound s' h' \<and> ct_mem c \<notin> live h \<and> live h' = insert (ct_mem c) (live h) \<and> max_elements c = n \<and>
        joined s (ct_handle c) = None \<and> joined s' = (joined s)(ct_handle c \<mapsto> ct_mem c) \<and>
        fmt s' = insert (ct_mem c) (fmt s)
    | Err e \<Rightarrow> cells h' = cells h \<and> fmt s' = fmt s \<and> joined s' = joined s
    | Panic \<Rightarrow> False"
proof -
  obtain ha where al: "h_alloc (unat (c_footprint t n), unat (c_align t)) h = (fresh h, ha)"
    by (simp add: h_alloc_def)
  have hp: "heap_ok h" "fresh h \<notin> live h" "0 < fresh h" using assms(1) heap_ok_fresh by (auto simp: sound_def)
  then have fresh: "fresh h \<notin> fmt s" "fresh h \<notin> ran (joined s)" using assms(1) by (auto simp: sound_def)
  obtain p s1 where p: "c_new t (fresh h) n s = (p, s1)" by fastforce
  obtain hnd s2 where hnd: "c_join t p s1 = (hnd, s2)" by fastforce
  have made: "p = fresh h \<and> fmt s1 = insert (fresh h) (fmt s) \<and> joined s1 = joined s \<or>
      p = 0 \<and> fmt s1 = fmt s \<and> joined s1 = joined s"
    by (rule new_law [OF hp(3) fresh(1) p])
  have joins: "0 < hnd \<and> joined s hnd = None \<and> fmt s2 = fmt s1 \<and> joined s2 = (joined s)(hnd \<mapsto> fresh h)"
    if "p = fresh h" "fmt s1 = insert (fresh h) (fmt s)" "joined s1 = joined s"
    using join_law [of p s1 hnd s2, OF _ _ hnd] fresh(2) unfolding that by simp
  have nulls: "hnd = 0 \<and> s2 = s1" if "p = 0" using hnd join_null [of s1] unfolding that by simp
  show ?thesis
  proof (cases rule: container_new_run [OF hp(1) p hnd assms(2) al])
    case (1 e)
    then show ?thesis by simp
  next
    case 2
    then have "p = 0" "fmt s1 = fmt s" "joined s1 = joined s" using made joins by blast+
    then show ?thesis using 2 nulls by simp
  next
    case 3
    have n: "p = fresh h" "fmt s1 = insert (fresh h) (fmt s)" "joined s1 = joined s"
      using made nulls 3(1) by blast+
    note j = joins [OF n]
    note A = h_alloc_ok [OF hp(1) al]
    have "sound s2 ha" using A(1,2) assms(1) n j inj_map_upd [OF _ fresh(2), of hnd]
      unfolding sound_def by (simp add: ran_map_upd) blast
    then show ?thesis using 3 n j A(2,3) by simp
  qed
qed

lemma container_drop_ok:
  assumes "sound s h" and "joined s (ct_handle c) = Some (ct_mem c)"
  shows "\<exists>s'. container_drop t c (s, h) = Ok (s', release {ct_mem c} h) \<and> fmt s' = fmt s - {ct_mem c} \<and>
    joined s' = (joined s)(ct_handle c := None) \<and> sound s' (release {ct_mem c} h)"
proof -
  obtain p s1 where p: "c_leave t (ct_handle c) s = (p, s1)" by fastforce
  obtain q s2 where q: "c_delete t p s1 = (q, s2)" by fastforce
  have l: "p = ct_mem c" "fmt s1 = fmt s" "joined s1 = (joined s)(ct_handle c := None)"
    using leave_law [OF assms(2) p] by auto
  have m: "ct_mem c \<in> fmt s" "ct_mem c \<in> live h" using assms by (auto simp: sound_def ran_def)
  have inj: "inj_on (joined s) (dom (joined s))" using assms(1) by (simp add: sound_def)
  have nr: "ct_mem c \<notin> ran (joined s1)" using inj_map_del(2) [OF inj assms(2)] l(3) by simp
  have d: "fmt s2 = fmt s - {ct_mem c}" "joined s2 = (joined s)(ct_handle c := None)"
    using delete_law [of p s1 q s2] m(1) nr l q by auto
  have "sound s2 (release {ct_mem c} h)" unfolding sound_def d live_release
    using assms(1) inj_map_del [OF inj assms(2)] by (auto simp: sound_def release_ok)
  then show ?thesis using p q m d by (auto simp: container_drop_def h_free_live)
qed

end

section \<open>Sequences of bounded length\<close>

text \<open>What a program does with a stack or a queue, and what it observes.\<close>

datatype seq_op = Push u64 | Pop | Len | Is_empty

datatype seq_obs = Pushed | Popped "u64 option" | Length nat | Empty bool

record 's seq_ops =
  so_push :: "container \<Rightarrow> u64 \<Rightarrow> 's \<Rightarrow> (unit, 's) tmpl_call"
  so_pop :: "container \<Rightarrow> 's \<Rightarrow> (u64 option, 's) tmpl_call"
  so_len :: "container \<Rightarrow> 's \<Rightarrow> nat"
  so_is_empty :: "container \<Rightarrow> 's \<Rightarrow> bool"

fun seq_step :: "'s seq_ops \<Rightarrow> container \<Rightarrow> seq_op \<Rightarrow> 's \<Rightarrow> (seq_obs, 's) tmpl_call" where
  "seq_step ops c (Push v) s = (case so_push ops c v s of (r, s) \<Rightarrow> (res_bind r (\<lambda>_. Ok Pushed), s))"
| "seq_step ops c Pop s = (case so_pop ops c s of (r, s) \<Rightarrow> (res_bind r (\<lambda>v. Ok (Popped v)), s))"
| "seq_step ops c Len s = (Ok (Length (so_len ops c s)), s)"
| "seq_step ops c Is_empty s = (Ok (Empty (so_is_empty ops c s)), s)"

fun seq_run :: "'s seq_ops \<Rightarrow> container \<Rightarrow> seq_op list \<Rightarrow> 's \<Rightarrow> (seq_obs list, 's) tmpl_call" where
  "seq_run ops c [] s = (Ok [], s)"
| "seq_run ops c (p # ps) s =
     (case seq_step ops c p s of
        (Ok x, s) \<Rightarrow> (case seq_run ops c ps s of (r, s) \<Rightarrow> (res_bind r (\<lambda>xs. Ok (x # xs)), s))
      | (Err e, s) \<Rightarrow> (Err e, s)
      | (Panic, s) \<Rightarrow> (Panic, s))"

text \<open>
  The specification: a list to whose end elements are added; \<open>rm\<close> gives the element to remove and the
  rest. A program fits when no push meets \<open>n\<close> elements.
\<close>

type_synonym removal = "u64 list \<Rightarrow> u64 \<times> u64 list"

fun spec_step :: "removal \<Rightarrow> seq_op \<Rightarrow> u64 list \<Rightarrow> seq_obs \<times> u64 list" where
  "spec_step rm (Push v) xs = (Pushed, xs @ [v])"
| "spec_step rm Pop xs = (if xs = [] then (Popped None, []) else (Popped (Some (fst (rm xs))), snd (rm xs)))"
| "spec_step rm Len xs = (Length (length xs), xs)"
| "spec_step rm Is_empty xs = (Empty (xs = []), xs)"

fun spec_run :: "removal \<Rightarrow> seq_op list \<Rightarrow> u64 list \<Rightarrow> seq_obs list \<times> u64 list" where
  "spec_run rm [] xs = ([], xs)"
| "spec_run rm (p # ps) xs =
     (case spec_step rm p xs of (x, ys) \<Rightarrow> case spec_run rm ps ys of (os, zs) \<Rightarrow> (x # os, zs))"

fun fits :: "removal \<Rightarrow> nat \<Rightarrow> seq_op list \<Rightarrow> u64 list \<Rightarrow> bool" where
  "fits rm n [] xs \<longleftrightarrow> True"
| "fits rm n (p # ps) xs \<longleftrightarrow> (\<forall>v. p = Push v \<longrightarrow> length xs < n) \<and> fits rm n ps (snd (spec_step rm p xs))"

definition lifo :: removal where
  "lifo xs = (last xs, butlast xs)"

definition fifo :: removal where
  "fifo xs = (hd xs, tl xs)"

locale bounded_seq =
  fixes ops :: "'s seq_ops" and rm :: removal and n :: nat and view :: "nat \<Rightarrow> 's \<Rightarrow> u64 list option"
  assumes push_ok: "view (ct_handle c) s = Some xs \<Longrightarrow> length xs < n \<Longrightarrow>
      \<exists>s'. so_push ops c v s = (Ok (), s') \<and> view (ct_handle c) s' = Some (xs @ [v]) \<and>
        (\<forall>h. h \<noteq> ct_handle c \<longrightarrow> view h s' = view h s)"
    and pop_ok: "view (ct_handle c) s = Some xs \<Longrightarrow> xs \<noteq> [] \<Longrightarrow>
      \<exists>s'. so_pop ops c s = (Ok (Some (fst (rm xs))), s') \<and> view (ct_handle c) s' = Some (snd (rm xs)) \<and>
        (\<forall>h. h \<noteq> ct_handle c \<longrightarrow> view h s' = view h s)"
    and pop_empty: "view (ct_handle c) s = Some [] \<Longrightarrow> so_pop ops c s = (Ok None, s)"
    and len_ok: "view (ct_handle c) s = Some xs \<Longrightarrow> so_len ops c s = length xs"
    and is_empty_ok: "view (ct_handle c) s = Some xs \<Longrightarrow> so_is_empty ops c s \<longleftrightarrow> xs = []"
begin

lemma step_refines:
  assumes "view (ct_handle c) s = Some xs" and "\<forall>v. p = Push v \<longrightarrow> length xs < n"
  shows "\<exists>s'. seq_step ops c p s = (Ok (fst (spec_step rm p xs)), s') \<and>
    view (ct_handle c) s' = Some (snd (spec_step rm p xs)) \<and> (\<forall>h. h \<noteq> ct_handle c \<longrightarrow> view h s' = view h s)"
proof (cases p)
  case (Push v)
  then show ?thesis using push_ok [OF assms(1), of v] assms(2) by auto
next
  case Pop
  then show ?thesis using pop_ok [OF assms(1)] pop_empty [of c s] assms(1) by (cases "xs = []") auto
qed (use len_ok [OF assms(1)] is_empty_ok [OF assms(1)] assms(1) in auto)

lemma run_refines:
  assumes "view (ct_handle c) s = Some xs" and "fits rm n ps xs"
  shows "\<exists>s'. seq_run ops c ps s = (Ok (fst (spec_run rm ps xs)), s') \<and>
    view (ct_handle c) s' = Some (snd (spec_run rm ps xs)) \<and> (\<forall>h. h \<noteq> ct_handle c \<longrightarrow> view h s' = view h s)"
  using assms
proof (induction ps arbitrary: s xs)
  case (Cons p ps)
  obtain x ys where xy: "spec_step rm p xs = (x, ys)" by fastforce
  obtain s1 where s1: "seq_step ops c p s = (Ok x, s1)" "view (ct_handle c) s1 = Some ys"
      "\<And>h. h \<noteq> ct_handle c \<Longrightarrow> view h s1 = view h s"
    using step_refines [OF Cons.prems(1), of p] Cons.prems(2) xy by auto
  obtain s2 where "seq_run ops c ps s1 = (Ok (fst (spec_run rm ps ys)), s2)"
      "view (ct_handle c) s2 = Some (snd (spec_run rm ps ys))"
      "\<And>h. h \<noteq> ct_handle c \<Longrightarrow> view h s2 = view h s1"
    using Cons.IH [OF s1(2)] Cons.prems(2) xy by auto
  then show ?case using s1 xy by (auto split: prod.splits)
qed auto

end

section \<open>Stack and queue\<close>

text \<open>
  The documented behaviour of the C stack: \<open>push\<close> is defined below the capacity only and returns the stack;
  element \<open>i\<close> is the \<open>i\<close>-th word behind the handle.
\<close>

locale c_stack =
  fixes lib :: "'s stack_lib" and view :: "nat \<Rightarrow> 's \<Rightarrow> u64 list option"
  assumes s_push: "view h s = Some xs \<Longrightarrow> length xs < unat (STACK_MAX lib) \<Longrightarrow>
      \<exists>s'. stack_push lib h v s = Some (h, s') \<and> view h s' = Some (xs @ [v]) \<and> (\<forall>g. g \<noteq> h \<longrightarrow> view g s' = view g s)"
    and s_pop: "view h s = Some xs \<Longrightarrow> xs \<noteq> [] \<Longrightarrow>
      \<exists>s'. stack_pop lib h s = Some (last xs, s') \<and> view h s' = Some (butlast xs) \<and> (\<forall>g. g \<noteq> h \<longrightarrow> view g s' = view g s)"
    and s_cnt: "view h s = Some xs \<Longrightarrow> unat (stack_cnt lib h s) = length xs"
    and s_empty: "view h s = Some xs \<Longrightarrow> stack_empty lib h s \<longleftrightarrow> xs = []"
    and s_slot: "view h s = Some xs \<Longrightarrow> i < length xs \<Longrightarrow> stack_read lib (ulong_at h i) s = Some (xs ! i)"
    and s_handle: "view h s = Some xs \<Longrightarrow> h \<noteq> 0"

locale c_queue =
  fixes lib :: "'s queue_lib" and n :: nat and view :: "nat \<Rightarrow> 's \<Rightarrow> u64 list option"
  assumes q_push: "view h s = Some xs \<Longrightarrow> length xs < n \<Longrightarrow>
      \<exists>s'. queue_push lib h v s = Some (h, s') \<and> view h s' = Some (xs @ [v]) \<and> (\<forall>g. g \<noteq> h \<longrightarrow> view g s' = view g s)"
    and q_pop: "view h s = Some xs \<Longrightarrow> xs \<noteq> [] \<Longrightarrow>
      \<exists>s'. queue_pop lib h s = Some (hd xs, s') \<and> view h s' = Some (tl xs) \<and> (\<forall>g. g \<noteq> h \<longrightarrow> view g s' = view g s)"
    and q_cnt: "view h s = Some xs \<Longrightarrow> unat (queue_cnt lib h s) = length xs"
    and q_empty: "view h s = Some xs \<Longrightarrow> queue_empty lib h s \<longleftrightarrow> xs = []"
    and q_handle: "view h s = Some xs \<Longrightarrow> h \<noteq> 0"

definition stack_ops :: "'s stack_lib \<Rightarrow> 's seq_ops" where
  "stack_ops lib = \<lparr>so_push = FdStack_push lib, so_pop = FdStack_pop lib, so_len = FdStack_len lib,
     so_is_empty = FdStack_is_empty lib\<rparr>"

definition queue_ops :: "'s queue_lib \<Rightarrow> 's seq_ops" where
  "queue_ops lib = \<lparr>so_push = FdQueue_push lib, so_pop = FdQueue_pop lib, so_len = FdQueue_len lib,
     so_is_empty = FdQueue_is_empty lib\<rparr>"

sublocale c_stack \<subseteq> stack_seq: bounded_seq "stack_ops lib" lifo "unat (STACK_MAX lib)" view
proof
  fix c :: container and s xs assume v: "view (ct_handle c) s = Some xs"
  note simps = stack_ops_def FdStack_push_def FdStack_pop_def FdStack_len_def FdStack_is_empty_def lifo_def s_empty [OF v] s_cnt [OF v]
  show "length xs < unat (STACK_MAX lib) \<Longrightarrow> \<exists>s'. so_push (stack_ops lib) c v s = (Ok (), s') \<and>
      view (ct_handle c) s' = Some (xs @ [v]) \<and> (\<forall>h. h \<noteq> ct_handle c \<longrightarrow> view h s' = view h s)" for v
    using s_push [OF v, of v] s_handle [OF v] by (auto simp: simps)
  show "xs \<noteq> [] \<Longrightarrow> \<exists>s'. so_pop (stack_ops lib) c s = (Ok (Some (fst (lifo xs))), s') \<and>
      view (ct_handle c) s' = Some (snd (lifo xs)) \<and> (\<forall>h. h \<noteq> ct_handle c \<longrightarrow> view h s' = view h s)"
    using s_pop [OF v] by (auto simp: simps)
  show "so_len (stack_ops lib) c s = length xs" "so_is_empty (stack_ops lib) c s \<longleftrightarrow> xs = []"
    by (simp_all add: simps)
qed (simp add: stack_ops_def FdStack_pop_def s_empty)

sublocale c_queue \<subseteq> queue_seq: bounded_seq "queue_ops lib" fifo n view
proof
  fix c :: container and s xs assume v: "view (ct_handle c) s = Some xs"
  note simps = queue_ops_def FdQueue_push_def FdQueue_pop_def FdQueue_len_def FdQueue_is_empty_def fifo_def q_empty [OF v] q_cnt [OF v]
  show "length xs < n \<Longrightarrow> \<exists>s'. so_push (queue_ops lib) c v s = (Ok (), s') \<and>
      view (ct_handle c) s' = Some (xs @ [v]) \<and> (\<forall>h. h \<noteq> ct_handle c \<longrightarrow> view h s' = view h s)" for v
    using q_push [OF v, of v] q_handle [OF v] by (auto simp: simps)
  show "xs \<noteq> [] \<Longrightarrow> \<exists>s'. so_pop (queue_ops lib) c s = (Ok (Some (fst (fifo xs))), s') \<and>
      view (ct_handle c) s' = Some (snd (fifo xs)) \<and> (\<forall>h. h \<noteq> ct_handle c \<longrightarrow> view h s' = view h s)"
    using q_pop [OF v] by (auto simp: simps)
  show "so_len (queue_ops lib) c s = length xs" "so_is_empty (queue_ops lib) c s \<longleftrightarrow> xs = []"
    by (simp_all add: simps)
qed (simp add: queue_ops_def FdQueue_pop_def q_empty)

context c_queue
begin

lemmas seq_refines = queue_seq.run_refines

end

context c_stack
begin

lemmas seq_refines = stack_seq.run_refines

lemma peek_ok:
  assumes "view (ct_handle c) s = Some xs"
  shows "FdStack_peek lib c s = Ok (if xs = [] then None else Some (last xs))"
proof (cases "xs = []")
  case False
  have n: "unat (stack_cnt lib (ct_handle c) s) = length xs" by (rule s_cnt [OF assms])
  then have "stack_cnt lib (ct_handle c) s \<noteq> 0" using False by auto
  moreover from this have "unat (stack_cnt lib (ct_handle c) s - 1) = length xs - 1" using n
    by (simp add: unat_minus_one)
  ultimately show ?thesis using False s_slot [OF assms, of "length xs - 1"] s_empty [OF assms]
    by (simp add: FdStack_peek_def read_at_def last_conv_nth)
qed (simp add: FdStack_peek_def s_empty [OF assms])

end

section \<open>Deque of strings\<close>

locale c_deque =
  fixes lib :: "'s deque_lib" and n :: nat and view :: "nat \<Rightarrow> 's \<Rightarrow> nat list option"
  assumes d_push_head: "view h s = Some ps \<Longrightarrow> length ps < n \<Longrightarrow>
      \<exists>s'. deque_push_head lib h p s = Some (h, s') \<and> view h s' = Some (p # ps)"
    and d_push_tail: "view h s = Some ps \<Longrightarrow> length ps < n \<Longrightarrow>
      \<exists>s'. deque_push_tail lib h p s = Some (h, s') \<and> view h s' = Some (ps @ [p])"
    and d_pop_head: "view h s = Some ps \<Longrightarrow> ps \<noteq> [] \<Longrightarrow>
      \<exists>s'. deque_pop_head lib h s = Some (hd ps, s') \<and> view h s' = Some (tl ps)"
    and d_pop_tail: "view h s = Some ps \<Longrightarrow> ps \<noteq> [] \<Longrightarrow>
      \<exists>s'. deque_pop_tail lib h s = Some (last ps, s') \<and> view h s' = Some (butlast ps)"
    and d_empty: "view h s = Some ps \<Longrightarrow> deque_empty lib h s \<longleftrightarrow> ps = []"
    and d_handle: "view h s = Some ps \<Longrightarrow> h \<noteq> 0"

datatype deque_op = Push_head bytes | Push_tail bytes | Pop_head | Pop_tail

datatype deque_obs = DPush "(unit, tmpl_error) res" | DPop "(bytes option, tmpl_error) res"

fun deque_step :: "'s deque_lib \<Rightarrow> container \<Rightarrow> deque_op \<Rightarrow> 's \<times> strings \<Rightarrow> deque_obs \<times> 's \<times> strings" where
  "deque_step lib c (Push_head v) st = apfst DPush (CStrDeque_push_head lib c v st)"
| "deque_step lib c (Push_tail v) st = apfst DPush (CStrDeque_push_tail lib c v st)"
| "deque_step lib c Pop_head st = apfst DPop (CStrDeque_pop_head lib c st)"
| "deque_step lib c Pop_tail st = apfst DPop (CStrDeque_pop_tail lib c st)"

fun deque_run :: "'s deque_lib \<Rightarrow> container \<Rightarrow> deque_op list \<Rightarrow> 's \<times> strings \<Rightarrow> deque_obs list \<times> 's \<times> strings" where
  "deque_run lib c [] st = ([], st)"
| "deque_run lib c (p # ps) st =
     (case deque_step lib c p st of (x, st) \<Rightarrow> case deque_run lib c ps st of (xs, st) \<Rightarrow> (x # xs, st))"

text \<open>The specification: a list of strings, of which strings with a zero byte are refused.\<close>

definition refused :: deque_obs where
  "refused = DPush (Err (InvalidInput ''String contains null byte''))"

fun deque_spec :: "deque_op \<Rightarrow> bytes list \<Rightarrow> deque_obs \<times> bytes list" where
  "deque_spec (Push_head v) xs = (if 0 \<in> set v then (refused, xs) else (DPush (Ok ()), v # xs))"
| "deque_spec (Push_tail v) xs = (if 0 \<in> set v then (refused, xs) else (DPush (Ok ()), xs @ [v]))"
| "deque_spec Pop_head xs = (if xs = [] then (DPop (Ok None), []) else (DPop (Ok (Some (hd xs))), tl xs))"
| "deque_spec Pop_tail xs = (if xs = [] then (DPop (Ok None), []) else (DPop (Ok (Some (last xs))), butlast xs))"

fun deque_spec_run :: "deque_op list \<Rightarrow> bytes list \<Rightarrow> deque_obs list \<times> bytes list" where
  "deque_spec_run [] xs = ([], xs)"
| "deque_spec_run (p # ps) xs =
     (case deque_spec p xs of (x, ys) \<Rightarrow> case deque_spec_run ps ys of (os, zs) \<Rightarrow> (x # os, zs))"

fun pushed_string :: "deque_op \<Rightarrow> bytes option" where
  "pushed_string (Push_head v) = Some v"
| "pushed_string (Push_tail v) = Some v"
| "pushed_string _ = None"

fun deque_fits :: "nat \<Rightarrow> deque_op list \<Rightarrow> bytes list \<Rightarrow> bool" where
  "deque_fits n [] xs \<longleftrightarrow> True"
| "deque_fits n (p # ps) xs \<longleftrightarrow>
     (case pushed_string p of None \<Rightarrow> True | Some v \<Rightarrow> utf8_valid v \<and> length xs < n) \<and>
     deque_fits n ps (snd (deque_spec p xs))"

text \<open>Strings accepted by a program; each is an allocation of its own.\<close>

definition accepted :: "deque_op \<Rightarrow> bool" where
  "accepted p = (case pushed_string p of None \<Rightarrow> False | Some v \<Rightarrow> 0 \<notin> set v)"

context c_deque
begin

definition holds :: "container \<Rightarrow> 's \<times> strings \<Rightarrow> bytes list \<Rightarrow> bool" where
  "holds c st xs \<longleftrightarrow> heap_ok (snd st) \<and> (\<forall>x \<in> set xs. utf8_valid x \<and> 0 \<notin> set x) \<and>
     (\<exists>ps. view (ct_handle c) (fst st) = Some ps \<and> 0 \<notin> set ps \<and> map (cells (snd st)) ps = map (\<lambda>x. Some (x @ [0])) xs)"

text \<open>A step observes what the specification says; an accepted string stays allocated whatever follows.\<close>

lemma push_string_ok:
  assumes "view (ct_handle c) s = Some ps" and "heap_ok hs"
    and push: "\<And>p. \<exists>s'. c_push (ct_handle c) p s = Some (ct_handle c, s') \<and> view (ct_handle c) s' = Some (place p ps)"
  shows "\<exists>s'. push_string c_push c v (s, hs) =
      (if 0 \<in> set v then (Err (InvalidInput ''String contains null byte''), s, hs)
       else (Ok (), s', snd (h_alloc (v @ [0]) hs))) \<and> (0 \<notin> set v \<longrightarrow> view (ct_handle c) s' = Some (place (fresh hs) ps))"
  using push [of "fresh hs"] d_handle [OF assms(1)]
  by (auto simp: push_string_def cstring_new_def h_alloc_def split: option.splits)

lemma pop_string_ok:
  assumes "holds c (s, hs) xs" and v: "view (ct_handle c) s = Some ps" and i: "i < length ps"
    and pop: "c_pop (ct_handle c) s = Some (ps ! i, s')"
  shows "pop_string lib c_pop c (s, hs) = (Ok (Some (xs ! i)), s', hs)"
proof -
  have m: "map (cells hs) ps = map (\<lambda>x. Some (x @ [0])) xs" "0 \<notin> set ps"
    "\<forall>x \<in> set xs. utf8_valid x \<and> 0 \<notin> set x"
    using assms(1) v by (auto simp: holds_def)
  have len: "length ps = length xs" using arg_cong [OF m(1), of length] by simp
  have "cells hs (ps ! i) = Some (xs ! i @ [0])" using arg_cong [OF m(1), of "\<lambda>l. l ! i"] i len by simp
  moreover have "ps ! i \<noteq> 0" using m(2) i nth_mem [of i ps] by metis
  moreover have "utf8_valid (xs ! i)" "0 \<notin> set (xs ! i)" using m(3) i len by simp_all
  moreover have "ps \<noteq> []" using i by auto
  ultimately show ?thesis using pop d_empty [OF v] by (simp add: pop_string_def from_utf8_lossy_valid)
qed

text \<open>\<open>k\<close> more strings are allocated and none has been released.\<close>

definition grown :: "strings \<Rightarrow> strings \<Rightarrow> nat \<Rightarrow> bool" where
  "grown hs hs' k \<longleftrightarrow> fresh hs' = fresh hs + k \<and> live hs' = live hs \<union> {fresh hs..<fresh hs + k} \<and>
     (\<forall>q \<in> live hs. cells hs' q = cells hs q)"

lemma grown_refl: "grown hs hs 0"
  by (simp add: grown_def)

lemma grown_trans: "grown a b k \<Longrightarrow> grown b c l \<Longrightarrow> grown a c (k + l)"
  unfolding grown_def by (auto simp: ivl_disj_un_two(3) [symmetric])

lemma grown_alloc: "heap_ok hs \<Longrightarrow> grown hs (snd (h_alloc b hs)) 1"
  using heap_ok_fresh(1) [of hs] by (auto simp: grown_def h_alloc_def)

lemma holds_push:
  assumes "heap_ok hs" and "\<forall>x \<in> set xs. utf8_valid x \<and> 0 \<notin> set x" and "0 \<notin> set ps"
    and m: "map (cells hs) ps = map (\<lambda>x. Some (x @ [0])) xs"
    and v: "utf8_valid v" "0 \<notin> set v"
  shows "view (ct_handle c) s' = Some (fresh hs # ps) \<Longrightarrow> holds c (s', snd (h_alloc (v @ [0]) hs)) (v # xs)"
    and "view (ct_handle c) s' = Some (ps @ [fresh hs]) \<Longrightarrow> holds c (s', snd (h_alloc (v @ [0]) hs)) (xs @ [v])"
proof -
  let ?h = "snd (h_alloc (v @ [0]) hs)"
  note A = h_alloc_ok [OF assms(1), of "v @ [0]" "fresh hs" ?h]
  have al: "h_alloc (v @ [0]) hs = (fresh hs, ?h)" by (simp add: h_alloc_def)
  have "cells hs p \<noteq> None" if "p \<in> set ps" for p
  proof -
    have "cells hs p \<in> set (map (cells hs) ps)" using that by simp
    then show ?thesis unfolding m by auto
  qed
  then have "fresh hs \<notin> set ps" using heap_ok_fresh(1) [OF assms(1)] by (metis domIff)
  then have "map (cells ?h) ps = map (\<lambda>x. Some (x @ [0])) xs"
    using A(6) [OF al] unfolding m [symmetric] by (intro map_cong) metis+
  then show "view (ct_handle c) s' = Some (fresh hs # ps) \<Longrightarrow> holds c (s', ?h) (v # xs)"
    and "view (ct_handle c) s' = Some (ps @ [fresh hs]) \<Longrightarrow> holds c (s', ?h) (xs @ [v])"
    using A(1,4,5) [OF al] assms(2,3) v by (auto simp: holds_def)
qed

lemma deque_step_ok:
  assumes "holds c st xs" and fit: "case pushed_string p of None \<Rightarrow> True | Some v \<Rightarrow> utf8_valid v \<and> length xs < n"
  shows "\<exists>st'. deque_step lib c p st = (fst (deque_spec p xs), st') \<and> holds c st' (snd (deque_spec p xs)) \<and>
    grown (snd st) (snd st') (of_bool (accepted p))"
proof -
  obtain s hs where st: "st = (s, hs)" by fastforce
  obtain ps where ps: "view (ct_handle c) s = Some ps" "0 \<notin> set ps" "map (cells hs) ps = map (\<lambda>x. Some (x @ [0])) xs"
      and hp: "heap_ok hs" and xs: "\<forall>x \<in> set xs. utf8_valid x \<and> 0 \<notin> set x"
    using assms(1) by (auto simp: holds_def st)
  have len: "length ps = length xs" using arg_cong [OF ps(3), of length] by simp
  show ?thesis
  proof (cases p)
    case (Push_head v)
    obtain s' where "push_string (deque_push_head lib) c v (s, hs) =
        (if 0 \<in> set v then (Err (InvalidInput ''String contains null byte''), s, hs)
         else (Ok (), s', snd (h_alloc (v @ [0]) hs)))" "0 \<notin> set v \<longrightarrow> view (ct_handle c) s' = Some (fresh hs # ps)"
      using push_string_ok [OF ps(1) hp, of "deque_push_head lib" "\<lambda>p ps. p # ps" v]
        d_push_head [OF ps(1)] len fit Push_head by auto
    then show ?thesis using Push_head fit holds_push(1) [OF hp xs ps(2,3)] grown_alloc [OF hp] assms(1) grown_refl st
      by (auto simp: CStrDeque_push_head_def refused_def accepted_def)
  next
    case (Push_tail v)
    obtain s' where "push_string (deque_push_tail lib) c v (s, hs) =
        (if 0 \<in> set v then (Err (InvalidInput ''String contains null byte''), s, hs)
         else (Ok (), s', snd (h_alloc (v @ [0]) hs)))" "0 \<notin> set v \<longrightarrow> view (ct_handle c) s' = Some (ps @ [fresh hs])"
      using push_string_ok [OF ps(1) hp, of "deque_push_tail lib" "\<lambda>p ps. ps @ [p]" v]
        d_push_tail [OF ps(1)] len fit Push_tail by auto
    then show ?thesis using Push_tail fit holds_push(2) [OF hp xs ps(2,3)] grown_alloc [OF hp] assms(1) grown_refl st
      by (auto simp: CStrDeque_push_tail_def refused_def accepted_def)
  next
    case Pop_head
    show ?thesis
    proof (cases "xs = []")
      case False
      then have ne: "ps \<noteq> []" "0 < length ps" using len by auto
      obtain s' where s': "deque_pop_head lib (ct_handle c) s = Some (ps ! 0, s')" "view (ct_handle c) s' = Some (tl ps)"
        using d_pop_head [OF ps(1) ne(1)] ne by (auto simp: hd_conv_nth)
      have "holds c (s', hs) (tl xs)" using hp xs ps(2,3) s'(2) ne False
        by (auto simp: holds_def map_tl dest: list.set_sel(2))
      then show ?thesis using pop_string_ok [where c_pop = "deque_pop_head lib", OF assms(1) [unfolded st] ps(1) ne(2) s'(1)] Pop_head False st grown_refl
        by (simp add: CStrDeque_pop_head_def accepted_def hd_conv_nth)
    qed (use Pop_head st assms(1) d_empty [OF ps(1)] len grown_refl in
        \<open>simp add: CStrDeque_pop_head_def pop_string_def accepted_def\<close>)
  next
    case Pop_tail
    show ?thesis
    proof (cases "xs = []")
      case False
      then have ne: "ps \<noteq> []" "length ps - 1 < length ps" using len by auto
      obtain s' where s': "deque_pop_tail lib (ct_handle c) s = Some (ps ! (length ps - 1), s')"
          "view (ct_handle c) s' = Some (butlast ps)"
        using d_pop_tail [OF ps(1) ne(1)] ne by (auto simp: last_conv_nth)
      have "holds c (s', hs) (butlast xs)" using hp xs ps(2,3) s'(2) ne False
        by (auto simp: holds_def map_butlast dest: in_set_butlastD)
      then show ?thesis using pop_string_ok [where c_pop = "deque_pop_tail lib", OF assms(1) [unfolded st] ps(1) ne(2) s'(1)] Pop_tail False st grown_refl len
        by (simp add: CStrDeque_pop_tail_def accepted_def last_conv_nth)
    qed (use Pop_tail st assms(1) d_empty [OF ps(1)] len grown_refl in
        \<open>simp add: CStrDeque_pop_tail_def pop_string_def accepted_def\<close>)
  qed
qed

lemma deque_run_ok:
  assumes "holds c st xs" and "deque_fits n ps xs"
  shows "\<exists>st'. deque_run lib c ps st = (fst (deque_spec_run ps xs), st') \<and> holds c st' (snd (deque_spec_run ps xs)) \<and>
    grown (snd st) (snd st') (length (filter accepted ps))"
  using assms
proof (induction ps arbitrary: st xs)
  case Nil
  then show ?case by (simp add: grown_refl)
next
  case (Cons p ps)
  obtain x ys where xy: "deque_spec p xs = (x, ys)" by fastforce
  obtain st1 where s1: "deque_step lib c p st = (x, st1)" "holds c st1 ys" "grown (snd st) (snd st1) (of_bool (accepted p))"
    using deque_step_ok [OF Cons.prems(1), of p] Cons.prems(2) xy by auto
  obtain st2 where s2: "deque_run lib c ps st1 = (fst (deque_spec_run ps ys), st2)"
      "holds c st2 (snd (deque_spec_run ps ys))" "grown (snd st1) (snd st2) (length (filter accepted ps))"
    using Cons.IH [OF s1(2)] Cons.prems(2) xy by auto
  have "grown (snd st) (snd st2) (length (filter accepted (p # ps)))"
    using grown_trans [OF s1(3) s2(3)] by (cases "accepted p") simp_all
  then show ?case using s1 s2 xy by (auto split: prod.splits)
qed

end

section \<open>Reference libraries\<close>

text \<open>
  A C library that keeps the laws: containers live at their memory address, a handle is that address. A
  stack or queue holds at most 64 words; a push beyond that is undefined.
\<close>

record life =
  lf_fmt :: "nat set"
  lf_joined :: "nat set"

definition ref_template :: "life c_template" where
  "ref_template = \<lparr>c_footprint = (\<lambda>n. 640), c_align = 128,
     c_new = (\<lambda>m n s. (m, s\<lparr>lf_fmt := insert m (lf_fmt s)\<rparr>)),
     c_join = (\<lambda>p s. if p = 0 then (0, s) else (p, s\<lparr>lf_joined := insert p (lf_joined s)\<rparr>)),
     c_leave = (\<lambda>h s. (h, s\<lparr>lf_joined := lf_joined s - {h}\<rparr>)),
     c_delete = (\<lambda>p s. (p, s\<lparr>lf_fmt := lf_fmt s - {p}\<rparr>))\<rparr>"

definition ref_joined :: "life \<Rightarrow> nat \<Rightarrow> nat option" where
  "ref_joined s h = (if h \<in> lf_joined s then Some h else None)"

lemma ref_joined_ran: "p \<in> ran (ref_joined s) \<longleftrightarrow> p \<in> lf_joined s"
  by (auto simp: ran_def ref_joined_def)

interpretation ref_life: template ref_template "\<lambda>s. lf_fmt s - {0}" ref_joined
  by unfold_locales (auto simp: ref_template_def ref_joined_ran ref_joined_def fun_eq_iff split: if_splits)

type_synonym words = "nat \<Rightarrow> u64 list"

definition ref_push :: "nat \<Rightarrow> u64 \<Rightarrow> words \<Rightarrow> (nat \<times> words) option" where
  "ref_push h v s = (if length (s h) < 64 then Some (h, s(h := s h @ [v])) else None)"

definition ref_view :: "nat \<Rightarrow> words \<Rightarrow> u64 list option" where
  "ref_view h s = (if 0 < h \<and> 512 dvd h \<and> length (s h) \<le> 64 then Some (s h) else None)"

definition ref_stack :: "words stack_lib" where
  "ref_stack = \<lparr>stack_t = \<lparr>c_footprint = (\<lambda>n. 640), c_align = 128, c_new = (\<lambda>m n s. (m, s)),
       c_join = (\<lambda>p s. (p, s(p := []))), c_leave = Pair, c_delete = Pair\<rparr>,
     STACK_MAX = 64, stack_push = ref_push,
     stack_pop = (\<lambda>h s. if s h = [] then None else Some (last (s h), s(h := butlast (s h)))),
     stack_cnt = (\<lambda>h s. word_of_nat (length (s h))), stack_empty = (\<lambda>h s. s h = []),
     stack_full = (\<lambda>h s. length (s h) = 64),
     stack_read = (\<lambda>a s. let h = a div 512 * 512; i = (a - h) div 8 in if i < length (s h) then Some (s h ! i) else None)\<rparr>"

definition ref_queue :: "words queue_lib" where
  "ref_queue = \<lparr>queue_t = stack_t ref_stack, queue_push = ref_push,
     queue_pop = (\<lambda>h s. if s h = [] then None else Some (hd (s h), s(h := tl (s h)))),
     queue_cnt = (\<lambda>h s. word_of_nat (length (s h))), queue_empty = (\<lambda>h s. s h = []),
     queue_full = (\<lambda>h s. length (s h) = 64), queue_read = (\<lambda>a s. None)\<rparr>"

lemma unat_length_64: "length xs \<le> 64 \<Longrightarrow> unat (word_of_nat (length xs) :: u64) = length xs"
  by (simp add: unat_of_nat)

lemma slot_of_handle:
  fixes h :: nat
  assumes "512 dvd h" and "i < 64"
  shows "(h + 8 * i) div 512 * 512 = h"
proof -
  obtain k where "h = 512 * k" using assms(1) by (auto elim: dvdE)
  then show ?thesis using assms(2) by simp
qed

interpretation ref_stack: c_stack ref_stack ref_view
proof
  show "ref_view h s = Some xs \<Longrightarrow> i < length xs \<Longrightarrow> stack_read ref_stack (ulong_at h i) s = Some (xs ! i)" for h s xs i
    by (auto simp: ref_stack_def ref_view_def slot_of_handle Let_def split: if_splits)
qed (auto simp: ref_stack_def ref_view_def ref_push_def unat_length_64 split: if_splits)

interpretation ref_queue: c_queue ref_queue 64 ref_view
  by unfold_locales (auto simp: ref_queue_def ref_view_def ref_push_def unat_length_64 split: if_splits)

definition ref_deque :: "(nat \<Rightarrow> nat list) deque_lib" where
  "ref_deque = \<lparr>deque_t = \<lparr>c_footprint = (\<lambda>n. 640), c_align = 128, c_new = (\<lambda>m n s. (m, s)),
       c_join = (\<lambda>p s. (p, s(p := []))), c_leave = Pair, c_delete = Pair\<rparr>,
     deque_push_head = (\<lambda>h p s. if length (s h) < 64 then Some (h, s(h := p # s h)) else None),
     deque_push_tail = (\<lambda>h p s. if length (s h) < 64 then Some (h, s(h := s h @ [p])) else None),
     deque_pop_head = (\<lambda>h s. if s h = [] then None else Some (hd (s h), s(h := tl (s h)))),
     deque_pop_tail = (\<lambda>h s. if s h = [] then None else Some (last (s h), s(h := butlast (s h)))),
     deque_cnt = (\<lambda>h s. word_of_nat (length (s h))), deque_empty = (\<lambda>h s. s h = []),
     deque_full = (\<lambda>h s. length (s h) = 64)\<rparr>"

interpretation ref_deque: c_deque ref_deque 64 "\<lambda>h s. if h = 0 then None else Some (s h)"
  by unfold_locales (auto simp: ref_deque_def split: if_splits)

section \<open>Properties\<close>

text \<open>C17: Every container of the crate is built by the same steps, so take any of the eight C templates that
  behaves as documented. A successful constructor owns one new allocation, which holds a formatted container
  that the new handle joins; a failing one leaves allocations, containers and handles as they were.
  Dropping the wrapper at any later time ends exactly its own join, its own container and its own
  allocation; those of the other wrappers stay.\<close>

theorem container_lifecycle:
  assumes t: "template t fmt joined" and s: "template.sound fmt joined s h"
    and new: "container_new t oom n (s, h) = (r, s1, h1)"
  shows "case r of
      Ok c \<Rightarrow> live h1 - live h = {ct_mem c} \<and> fmt s1 = insert (ct_mem c) (fmt s) \<and>
        joined s1 = (joined s)(ct_handle c \<mapsto> ct_mem c) \<and> template.sound fmt joined s1 h1 \<and>
        (\<forall>s2 h2. template.sound fmt joined s2 h2 \<and> joined s2 (ct_handle c) = Some (ct_mem c) \<longrightarrow>
          (\<exists>s3 h3. container_drop t c (s2, h2) = Ok (s3, h3) \<and> live h3 = live h2 - {ct_mem c} \<and>
            fmt s3 = fmt s2 - {ct_mem c} \<and> joined s3 = (joined s2)(ct_handle c := None)))
    | Err e \<Rightarrow> cells h1 = cells h \<and> fmt s1 = fmt s \<and> joined s1 = joined s
    | Panic \<Rightarrow> False"
proof -
  note N = template.container_new_cases [OF t s new]
  show ?thesis
  proof (cases r)
    case (Ok c)
    have "\<exists>s3 h3. container_drop t c (s2, h2) = Ok (s3, h3) \<and> live h3 = live h2 - {ct_mem c} \<and>
        fmt s3 = fmt s2 - {ct_mem c} \<and> joined s3 = (joined s2)(ct_handle c := None)"
      if "template.sound fmt joined s2 h2" "joined s2 (ct_handle c) = Some (ct_mem c)" for s2 h2
      using template.container_drop_ok [OF t that] live_release [of "{ct_mem c}" h2] by blast
    then show ?thesis using N Ok by auto
  qed (use N in auto)
qed

lemma sound_start: "template.sound (\<lambda>s. lf_fmt s - {0}) ref_joined \<lparr>lf_fmt = {}, lf_joined = {}\<rparr> heap_empty"
  by (auto simp: ref_life.sound_def ref_joined_def ran_def inj_on_def domIff)

lemma ref_container_new:
  "container_new ref_template (\<lambda>_. False) 0 (\<lparr>lf_fmt = {}, lf_joined = {}\<rparr>, heap_empty) =
     (Ok \<lparr>ct_handle = 1, ct_mem = 1, ct_layout = (640, 128), max_elements = 0\<rparr>,
      \<lparr>lf_fmt = {1}, lf_joined = {1}\<rparr>, \<lparr>cells = (\<lambda>_. None)(1 \<mapsto> (640, 128)), fresh = 2\<rparr>)"
  by (simp add: container_new_def ref_template_def h_alloc_def heap_empty_def Let_def layout_ok_def
      is_power_of_two_def upt_rec)

theorem container_lifecycle_witness:
  "\<exists>c s1 h1. container_new ref_template (\<lambda>_. False) 0 (\<lparr>lf_fmt = {}, lf_joined = {}\<rparr>, heap_empty) = (Ok c, s1, h1) \<and>
     (\<exists>s3 h3. container_drop ref_template c (s1, h1) = Ok (s3, h3) \<and> live h3 = {} \<and> lf_fmt s3 - {0} = {})"
proof -
  let ?c = "\<lparr>ct_handle = 1, ct_mem = 1, ct_layout = (640, 128), max_elements = 0\<rparr> :: container"
  let ?s = "\<lparr>lf_fmt = {1}, lf_joined = {1}\<rparr>" and ?h = "\<lparr>cells = (\<lambda>_. None)(1 \<mapsto> (640, 128)), fresh = 2\<rparr> :: layouts"
  have j: "ref_joined ?s (ct_handle ?c) = Some (ct_mem ?c)" by (simp add: ref_joined_def)
  note L = container_lifecycle [OF ref_life.template_axioms sound_start ref_container_new, unfolded res.case,
      THEN conjunct2, THEN conjunct2, THEN conjunct2]
  note D = L [THEN conjunct2, THEN spec, THEN spec, THEN mp, OF conjI [OF L [THEN conjunct1] j]]
  then obtain s3 h3 where "container_drop ref_template ?c (?s, ?h) = Ok (s3, h3)" "live h3 = {}" "lf_fmt s3 - {0} = {}"
    by auto
  then show ?thesis using ref_container_new by blast
qed

text \<open>C16: \<open>FdStack\<close> refines a stack and \<open>FdQueue\<close> a queue of machine words: take any sequence of pushes, pops and
  questions for the length and emptiness that never pushes onto a full container. On a C library
  that behaves as documented, the wrapper answers every operation as a list does from which elements leave at the end
  (stack) or at the front (queue), never with an error, does not touch any other container, and its
  contents afterwards are those of the list. A peek at the stack gives the top of the list.\<close>

theorem stack_queue_refine:
  "(c_stack slib sview \<and> sview (ct_handle c) s = Some xs \<and> fits lifo (unat (STACK_MAX slib)) ps xs \<longrightarrow>
      FdStack_peek slib c s = Ok (if xs = [] then None else Some (last xs)) \<and>
      (\<exists>s'. seq_run (stack_ops slib) c ps s = (Ok (fst (spec_run lifo ps xs)), s') \<and>
        sview (ct_handle c) s' = Some (snd (spec_run lifo ps xs)) \<and>
        (\<forall>h. h \<noteq> ct_handle c \<longrightarrow> sview h s' = sview h s))) \<and>
   (c_queue qlib n qview \<and> qview (ct_handle d) q = Some ys \<and> fits fifo n ps ys \<longrightarrow>
      (\<exists>q'. seq_run (queue_ops qlib) d ps q = (Ok (fst (spec_run fifo ps ys)), q') \<and>
        qview (ct_handle d) q' = Some (snd (spec_run fifo ps ys)) \<and>
        (\<forall>h. h \<noteq> ct_handle d \<longrightarrow> qview h q' = qview h q)))"
  by (intro conjI impI; elim conjE)
    (rule c_stack.peek_ok c_stack.seq_refines c_queue.seq_refines; assumption)+

definition demo :: container where
  "demo = \<lparr>ct_handle = 512, ct_mem = 512, ct_layout = (640, 128), max_elements = 64\<rparr>"

theorem stack_queue_refine_witness:
  "fst (seq_run (stack_ops ref_stack) demo [Push 1, Push 2, Pop, Len, Pop, Pop] (\<lambda>_. [])) =
     Ok [Pushed, Pushed, Popped (Some 2), Length 1, Popped (Some 1), Popped None] \<and>
   fst (seq_run (queue_ops ref_queue) demo [Push 1, Push 2, Pop, Len, Pop, Pop] (\<lambda>_. [])) =
     Ok [Pushed, Pushed, Popped (Some 1), Length 1, Popped (Some 2), Popped None]"
  using stack_queue_refine [of ref_stack ref_view demo "\<lambda>_. []" "[]" "[Push 1, Push 2, Pop, Len, Pop, Pop]"
      ref_queue 64 ref_view demo "\<lambda>_. []" "[]"] ref_stack.c_stack_axioms ref_queue.c_queue_axioms
  by (auto simp: ref_view_def demo_def lifo_def fifo_def ref_stack_def)

text \<open>\<open>CStrDeque\<close> keeps the strings it is given: any sequence of pushes and pops at both ends that
  never pushes onto a full deque is answered as by a list of strings, a string with a zero byte being refused
  without a change. The wrapper never reads a string that has been released, and never panics. But
  no string is ever released: every accepted string is still allocated at the end, also after it has been popped.\<close>

theorem deque_strings_leak:
  assumes "c_deque lib n view" and "view (ct_handle c) s = Some []" and "heap_ok h" and "deque_fits n ps []"
  shows "\<exists>s' h'. deque_run lib c ps (s, h) = (fst (deque_spec_run ps []), s', h') \<and>
    live h' = live h \<union> {fresh h..<fresh h + length (filter accepted ps)}"
proof -
  have "c_deque.holds view c (s, h) []" using assms by (simp add: c_deque.holds_def [OF assms(1)])
  from c_deque.deque_run_ok [OF assms(1) this assms(4)] show ?thesis
    by (auto simp: c_deque.grown_def [OF assms(1)])
qed

theorem deque_strings_leak_witness:
  "\<exists>s' h'. deque_run ref_deque demo [Push_head [102], Push_tail [97], Push_head [0], Pop_tail, Pop_head, Pop_head]
      (\<lambda>_. [], heap_empty) =
     ([DPush (Ok ()), DPush (Ok ()), refused, DPop (Ok (Some [97])), DPop (Ok (Some [102])), DPop (Ok None)], s', h') \<and>
     live h' = {1, 2}"
proof -
  have "live (heap_empty :: strings) \<union> {fresh (heap_empty :: strings)..<fresh (heap_empty :: strings) + 2} = {1, 2}"
    by (auto simp: heap_empty_def)
  then show ?thesis
    using deque_strings_leak [OF ref_deque.c_deque_axioms, of demo "\<lambda>_. []" heap_empty
        "[Push_head [102], Push_tail [97], Push_head [0], Pop_tail, Pop_head, Pop_head]"]
    by (simp add: demo_def accepted_def)
qed

section \<open>Deviations\<close>

text \<open>
  The value given to \<open>FdMap::insert\<close> and \<open>FdVec::push\<close> has no effect on the result or on the container, and
  the length of a map does not depend on its contents.
\<close>

lemma map_insert_ignores_value: "FdMap_insert lib c key v s = FdMap_insert lib c key w s"
  by (simp add: FdMap_insert_def)

lemma vec_push_ignores_value: "FdVec_push lib c v s = FdVec_push lib c w s"
  by (simp add: FdVec_push_def)

text \<open>
  \<open>FdSet::insert\<close> calls \<open>set_null\<close> on the pointer that C's insert returns. Where C's insert returns the set
  and \<open>set_null\<close> empties its argument and returns it, the set is empty afterwards and the answer is \<open>false\<close>.
\<close>

lemma set_insert_empties:
  assumes "\<And>k s. \<exists>s'. set_insert lib h k s = Some (h, s')"
    and "\<And>s. \<exists>s'. set_null lib h s = Some (h, s') \<and> (\<forall>k. \<not> set_test lib h k s')"
    and "ct_handle c = h"
  shows "\<exists>s'. FdSet_insert lib c key s = (Ok False, s') \<and> (\<forall>k. \<not> FdSet_contains lib c k s')"
proof -
  obtain s1 where "set_insert lib h key s = Some (h, s1)" using assms(1) by blast
  moreover obtain s2 where "set_null lib h s1 = Some (h, s2)" "\<forall>k. \<not> set_test lib h k s2" using assms(2) by blast
  ultimately show ?thesis using assms(3) by (simp add: FdSet_insert_def FdSet_contains_def)
qed

text \<open>A push onto a full stack reaches the C function, whose contract excludes it.\<close>

lemma stack_push_full: "length (s (ct_handle c)) = 64 \<Longrightarrow> FdStack_push ref_stack c v s = (Panic, s)"
  by (simp add: FdStack_push_def ref_stack_def ref_push_def)

end
