(* ===== verification/Bits_Net.thy ===== *)
theory Bits_Net
  imports Rust_Std
begin

text \<open>
  \<open>util/bits/fd_bits/src/lib.rs\<close> and \<open>util/net/fd_net/src/lib.rs\<close>: bit positions, byte order, population
  counts, integer roots, MAC and IPv4 addresses. The methods of Rust's integers are modelled for every width;
  the C root functions and the C address parsers are parameters.
\<close>

section \<open>Methods of Rust's integers\<close>

definition leading_zeros :: "'a::len word \<Rightarrow> nat" where
  "leading_zeros x = length (takeWhile (\<lambda>i. \<not> bit x i) (rev [0..<LENGTH('a)]))"

definition trailing_zeros :: "'a::len word \<Rightarrow> nat" where
  "trailing_zeros x = length (takeWhile (\<lambda>i. \<not> bit x i) [0..<LENGTH('a)])"

definition count_ones :: "'a::len word \<Rightarrow> nat" where
  "count_ones x = length (filter (bit x) [0..<LENGTH('a)])"

text \<open>The bytes of a number, least significant first, and back.\<close>

fun le_digits :: "nat \<Rightarrow> nat \<Rightarrow> nat list" where
  "le_digits 0 k = []"
| "le_digits (Suc n) k = (k mod 256) # le_digits n (k div 256)"

fun of_digits :: "nat list \<Rightarrow> nat" where
  "of_digits [] = 0"
| "of_digits (d # ds) = d + 256 * of_digits ds"

definition swap_bytes :: "'a::len word \<Rightarrow> 'a word" where
  "swap_bytes x = word_of_nat (of_digits (rev (le_digits (LENGTH('a) div 8) (unat x))))"

text \<open>\<open>to_be\<close> and \<open>from_be\<close> swap on a little-endian target only.\<close>

definition to_be :: "bool \<Rightarrow> 'a::len word \<Rightarrow> 'a word" where
  "to_be little x = (if little then swap_bytes x else x)"

definition from_be :: "bool \<Rightarrow> 'a::len word \<Rightarrow> 'a word" where
  "from_be little x = (if little then swap_bytes x else x)"

subsection \<open>Positions of bits\<close>

lemma take_while_position:
  assumes "x \<in> set xs" and "P x"
  shows "length (takeWhile (\<lambda>i. \<not> P i) xs) < length xs \<and> P (xs ! length (takeWhile (\<lambda>i. \<not> P i) xs)) \<and>
    (\<forall>j < length (takeWhile (\<lambda>i. \<not> P i) xs). \<not> P (xs ! j))"
proof -
  let ?n = "length (takeWhile (\<lambda>i. \<not> P i) xs)"
  have n: "?n < length xs"
  proof (rule ccontr)
    assume "\<not> ?n < length xs"
    then have "length (takeWhile (\<lambda>i. \<not> P i) xs) = length xs" using length_takeWhile_le [of "\<lambda>i. \<not> P i" xs] by simp
    then have "takeWhile (\<lambda>i. \<not> P i) xs = xs" by (metis takeWhile_eq_take take_all order_refl)
    then show False using assms takeWhile_eq_all_conv by metis
  qed
  then have "P (xs ! ?n)" using nth_length_takeWhile [of "\<lambda>i. \<not> P i" xs] by simp
  moreover have "\<not> P (xs ! j)" if "j < ?n" for j
    using that nth_mem [of j "takeWhile (\<lambda>i. \<not> P i) xs"] by (metis set_takeWhileD takeWhile_nth)
  ultimately show ?thesis using n by blast
qed

lemma nonzero_bit: "x \<noteq> 0 \<Longrightarrow> \<exists>i < LENGTH('a). bit (x :: 'a::len word) i"
  by (metis bit_0_eq bit_imp_le_length bit_word_eqI bot_apply bot_bool_def)

lemma trailing_zeros_bit:
  assumes "x \<noteq> (0 :: 'a::len word)"
  shows "trailing_zeros x < LENGTH('a) \<and> bit x (trailing_zeros x) \<and> (\<forall>j < trailing_zeros x. \<not> bit x j)"
proof -
  obtain i where "i < LENGTH('a)" "bit x i" using nonzero_bit [OF assms] by blast
  then show ?thesis using take_while_position [of i "[0..<LENGTH('a)]" "bit x"]
    by (auto simp: trailing_zeros_def)
qed

lemma leading_zeros_bit:
  assumes "x \<noteq> (0 :: 'a::len word)"
  shows "leading_zeros x < LENGTH('a) \<and> bit x (LENGTH('a) - 1 - leading_zeros x) \<and>
    (\<forall>j. LENGTH('a) - 1 - leading_zeros x < j \<longrightarrow> \<not> bit x j)"
proof -
  let ?n = "leading_zeros x"
  obtain i where "i < LENGTH('a)" "bit x i" using nonzero_bit [OF assms] by blast
  then have n: "?n < LENGTH('a)" "bit x (rev [0..<LENGTH('a)] ! ?n)"
      "\<And>j. j < ?n \<Longrightarrow> \<not> bit x (rev [0..<LENGTH('a)] ! j)"
    using take_while_position [of i "rev [0..<LENGTH('a)]" "bit x"] by (auto simp: leading_zeros_def)
  have rev: "rev [0..<LENGTH('a)] ! j = LENGTH('a) - 1 - j" if "j < LENGTH('a)" for j
    using that by (simp add: rev_nth)
  have "\<not> bit x j" if "LENGTH('a) - 1 - ?n < j" for j
  proof (cases "j < LENGTH('a)")
    case True
    then have "LENGTH('a) - 1 - j < ?n" using that by linarith
    from n(3) [OF this] show ?thesis using True rev [of "LENGTH('a) - 1 - j"] by simp
  qed (auto dest: bit_imp_le_length)
  then show ?thesis using n rev [OF n(1)] by simp
qed

text \<open>In terms of the number: the highest bit is its logarithm, the lowest the power of two that divides it.\<close>

lemma leading_zeros_log:
  assumes "x \<noteq> (0 :: 'a::len word)"
  shows "2 ^ (LENGTH('a) - 1 - leading_zeros x) \<le> unat x" "unat x < 2 ^ Suc (LENGTH('a) - 1 - leading_zeros x)"
proof -
  let ?k = "LENGTH('a) - 1 - leading_zeros x"
  note b = leading_zeros_bit [OF assms]
  have bit: "bit (unat x) j \<longleftrightarrow> bit x j" for j by (simp add: bit_unsigned_iff)
  have "take_bit (Suc ?k) (unat x) = unat x"
    using b bit by (intro bit_eqI) (auto simp: bit_take_bit_iff not_less_eq)
  then show "unat x < 2 ^ Suc ?k" by (simp add: take_bit_nat_eq_self_iff)
  show "2 ^ ?k \<le> unat x"
  proof (rule ccontr)
    assume "\<not> 2 ^ ?k \<le> unat x"
    then have "take_bit ?k (unat x) = unat x" by (simp add: take_bit_nat_eq_self_iff)
    then have "\<not> bit (unat x) ?k" by (metis bit_take_bit_iff less_irrefl)
    then show False using b bit by blast
  qed
qed

lemma trailing_zeros_dvd:
  assumes "x \<noteq> (0 :: 'a::len word)"
  shows "2 ^ trailing_zeros x dvd unat x" "\<not> 2 ^ Suc (trailing_zeros x) dvd unat x"
proof -
  let ?k = "trailing_zeros x"
  note b = trailing_zeros_bit [OF assms]
  have bit: "bit (unat x) j \<longleftrightarrow> bit x j" for j by (simp add: bit_unsigned_iff)
  have "take_bit ?k (unat x) = 0" using b bit by (intro bit_eqI) (auto simp: bit_take_bit_iff)
  then show "2 ^ ?k dvd unat x" by (simp add: take_bit_eq_0_iff)
  show "\<not> 2 ^ Suc ?k dvd unat x"
  proof
    assume "2 ^ Suc ?k dvd unat x"
    then have "take_bit (Suc ?k) (unat x) = 0" by (simp add: take_bit_eq_0_iff)
    then have "\<not> bit (unat x) ?k" by (metis bit_take_bit_iff bit_0_eq bot_apply bot_bool_def lessI)
    then show False using b bit by blast
  qed
qed

lemma count_ones_card: "count_ones (x :: 'a::len word) = card {i. bit x i}"
proof -
  have "{i. bit x i} = {i \<in> {0..<LENGTH('a)}. bit x i}" by (auto dest: bit_imp_le_length)
  also have "card \<dots> = length (filter (bit x) [0..<LENGTH('a)])"
    using distinct_card [of "filter (bit x) [0..<LENGTH('a)]"] by simp
  finally show ?thesis by (simp add: count_ones_def)
qed

subsection \<open>Byte order\<close>

lemma length_le_digits [simp]: "length (le_digits n k) = n"
  by (induction n arbitrary: k) auto

lemma le_digits_bound: "d \<in> set (le_digits n k) \<Longrightarrow> d < 256"
  by (induction n arbitrary: k) auto

lemma of_digits_le: "k < 256 ^ n \<Longrightarrow> of_digits (le_digits n k) = k"
proof (induction n arbitrary: k)
  case (Suc n)
  then have "k div 256 < 256 ^ n" by (simp add: less_mult_imp_div_less mult.commute)
  then show ?case using Suc.IH by simp
qed simp

lemma le_digits_of: "(\<And>d. d \<in> set ds \<Longrightarrow> d < 256) \<Longrightarrow> le_digits (length ds) (of_digits ds) = ds"
  by (induction ds) auto

lemma of_digits_bound: "(\<And>d. d \<in> set ds \<Longrightarrow> d < 256) \<Longrightarrow> of_digits ds < 256 ^ length ds"
proof (induction ds)
  case (Cons d ds)
  then have "of_digits ds < 256 ^ length ds" "d < 256" by simp_all
  then show ?case by simp
qed simp

text \<open>At a width that is a whole number of bytes.\<close>

lemma pow_bytes: "8 dvd w \<Longrightarrow> (256 :: nat) ^ (w div 8) = 2 ^ w"
proof -
  assume "8 dvd w"
  have "(256 :: nat) ^ (w div 8) = (2 ^ 8) ^ (w div 8)" by simp
  also have "\<dots> = 2 ^ (8 * (w div 8))" by (simp only: power_mult)
  finally show ?thesis using \<open>8 dvd w\<close> by simp
qed

lemma swap_bytes_digits:
  assumes "8 dvd LENGTH('a::len)"
  shows "le_digits (LENGTH('a) div 8) (unat (swap_bytes (x :: 'a word))) = rev (le_digits (LENGTH('a) div 8) (unat x))"
proof -
  let ?ds = "rev (le_digits (LENGTH('a) div 8) (unat x))"
  have ds: "\<And>d. d \<in> set ?ds \<Longrightarrow> d < 256" using le_digits_bound by auto
  have "of_digits ?ds < 2 ^ LENGTH('a)" using of_digits_bound [of ?ds] ds pow_bytes [OF assms] by simp
  then have "unat (swap_bytes x) = of_digits ?ds" by (simp add: swap_bytes_def unat_of_nat)
  then show ?thesis using le_digits_of [of ?ds] ds by simp
qed

lemma swap_bytes_twice:
  assumes "8 dvd LENGTH('a::len)"
  shows "swap_bytes (swap_bytes x) = (x :: 'a word)"
proof -
  have "unat x < 256 ^ (LENGTH('a) div 8)" unfolding pow_bytes [OF assms] by (rule unsigned_less)
  then show ?thesis using swap_bytes_digits [OF assms, of x]
    by (simp add: swap_bytes_def [of "swap_bytes x"] of_digits_le)
qed

section \<open>fd_bits\<close>

record bits_lib =
  floor_sqrt :: "u64 \<Rightarrow> u64"
  ceil_sqrt :: "u64 \<Rightarrow> u64"
  round_sqrt :: "u64 \<Rightarrow> u64"
  approx_sqrt :: "u64 \<Rightarrow> u64"
  floor_cbrt :: "u64 \<Rightarrow> u64"
  ceil_cbrt :: "u64 \<Rightarrow> u64"
  round_cbrt :: "u64 \<Rightarrow> u64"
  approx_cbrt :: "u64 \<Rightarrow> u64"

definition sqrt_floor_u64 :: "bits_lib \<Rightarrow> u64 \<Rightarrow> u64" where "sqrt_floor_u64 lib x = floor_sqrt lib x"

definition sqrt_ceil_u64 :: "bits_lib \<Rightarrow> u64 \<Rightarrow> u64" where "sqrt_ceil_u64 lib x = ceil_sqrt lib x"

definition sqrt_round_u64 :: "bits_lib \<Rightarrow> u64 \<Rightarrow> u64" where "sqrt_round_u64 lib x = round_sqrt lib x"

definition sqrt_approx_u64 :: "bits_lib \<Rightarrow> u64 \<Rightarrow> u64" where "sqrt_approx_u64 lib x = approx_sqrt lib x"

definition sqrt_floor_u32 :: "bits_lib \<Rightarrow> u32 \<Rightarrow> u32" where "sqrt_floor_u32 lib x = ucast (sqrt_floor_u64 lib (ucast x))"

definition sqrt_ceil_u32 :: "bits_lib \<Rightarrow> u32 \<Rightarrow> u32" where "sqrt_ceil_u32 lib x = ucast (sqrt_ceil_u64 lib (ucast x))"

definition sqrt_round_u32 :: "bits_lib \<Rightarrow> u32 \<Rightarrow> u32" where "sqrt_round_u32 lib x = ucast (sqrt_round_u64 lib (ucast x))"

definition cbrt_floor_u64 :: "bits_lib \<Rightarrow> u64 \<Rightarrow> u64" where "cbrt_floor_u64 lib x = floor_cbrt lib x"

definition cbrt_ceil_u64 :: "bits_lib \<Rightarrow> u64 \<Rightarrow> u64" where "cbrt_ceil_u64 lib x = ceil_cbrt lib x"

definition cbrt_round_u64 :: "bits_lib \<Rightarrow> u64 \<Rightarrow> u64" where "cbrt_round_u64 lib x = round_cbrt lib x"

definition cbrt_approx_u64 :: "bits_lib \<Rightarrow> u64 \<Rightarrow> u64" where "cbrt_approx_u64 lib x = approx_cbrt lib x"

definition cbrt_floor_u32 :: "bits_lib \<Rightarrow> u32 \<Rightarrow> u32" where "cbrt_floor_u32 lib x = ucast (cbrt_floor_u64 lib (ucast x))"

definition cbrt_ceil_u32 :: "bits_lib \<Rightarrow> u32 \<Rightarrow> u32" where "cbrt_ceil_u32 lib x = ucast (cbrt_ceil_u64 lib (ucast x))"

definition cbrt_round_u32 :: "bits_lib \<Rightarrow> u32 \<Rightarrow> u32" where "cbrt_round_u32 lib x = ucast (cbrt_round_u64 lib (ucast x))"

definition msb_u64 :: "u64 \<Rightarrow> u32 option" where
  "msb_u64 value = (if value = 0 then None else Some (63 - word_of_nat (leading_zeros value)))"

definition msb_u32 :: "u32 \<Rightarrow> u32 option" where
  "msb_u32 value = (if value = 0 then None else Some (31 - word_of_nat (leading_zeros value)))"

definition msb_u16 :: "u16 \<Rightarrow> u32 option" where
  "msb_u16 value = (if value = 0 then None else Some (15 - word_of_nat (leading_zeros value)))"

definition msb_u8 :: "u8 \<Rightarrow> u32 option" where
  "msb_u8 value = (if value = 0 then None else Some (7 - word_of_nat (leading_zeros value)))"

definition lsb_u64 :: "u64 \<Rightarrow> u32 option" where
  "lsb_u64 value = (if value = 0 then None else Some (word_of_nat (trailing_zeros value)))"

definition lsb_u32 :: "u32 \<Rightarrow> u32 option" where
  "lsb_u32 value = (if value = 0 then None else Some (word_of_nat (trailing_zeros value)))"

definition lsb_u16 :: "u16 \<Rightarrow> u32 option" where
  "lsb_u16 value = (if value = 0 then None else Some (word_of_nat (trailing_zeros value)))"

definition lsb_u8 :: "u8 \<Rightarrow> u32 option" where
  "lsb_u8 value = (if value = 0 then None else Some (word_of_nat (trailing_zeros value)))"

definition bswap_u16 :: "u16 \<Rightarrow> u16" where "bswap_u16 value = swap_bytes value"

definition bswap_u32 :: "u32 \<Rightarrow> u32" where "bswap_u32 value = swap_bytes value"

definition bswap_u64 :: "u64 \<Rightarrow> u64" where "bswap_u64 value = swap_bytes value"

definition hton_u16 :: "bool \<Rightarrow> u16 \<Rightarrow> u16" where "hton_u16 little value = to_be little value"

definition hton_u32 :: "bool \<Rightarrow> u32 \<Rightarrow> u32" where "hton_u32 little value = to_be little value"

definition hton_u64 :: "bool \<Rightarrow> u64 \<Rightarrow> u64" where "hton_u64 little value = to_be little value"

definition ntoh_u16 :: "bool \<Rightarrow> u16 \<Rightarrow> u16" where "ntoh_u16 little value = from_be little value"

definition ntoh_u32 :: "bool \<Rightarrow> u32 \<Rightarrow> u32" where "ntoh_u32 little value = from_be little value"

definition ntoh_u64 :: "bool \<Rightarrow> u64 \<Rightarrow> u64" where "ntoh_u64 little value = from_be little value"

definition popcount_u64 :: "u64 \<Rightarrow> u32" where "popcount_u64 value = word_of_nat (count_ones value)"

definition popcount_u32 :: "u32 \<Rightarrow> u32" where "popcount_u32 value = word_of_nat (count_ones value)"

definition popcount_u16 :: "u16 \<Rightarrow> u32" where "popcount_u16 value = word_of_nat (count_ones value)"

definition popcount_u8 :: "u8 \<Rightarrow> u32" where "popcount_u8 value = word_of_nat (count_ones value)"

section \<open>fd_net\<close>

datatype net_error = InvalidFormat | InvalidLength

text \<open>
  The C parsers read a zero-terminated string. The one for MAC addresses gives the six bytes, the one for
  IPv4 addresses the four bytes it stores in the caller's word, in the order of memory.
\<close>

record net_lib =
  cstr_to_mac_addr :: "bytes \<Rightarrow> bytes option"
  cstr_to_ip4_addr :: "bytes \<Rightarrow> bytes option"
  eth_fcs_append :: "u32 \<Rightarrow> bytes \<Rightarrow> u32"
  FCS_APPEND_SEED :: u32

datatype mac_address = MacAddress bytes

definition mac_from_str :: "net_lib \<Rightarrow> bytes \<Rightarrow> (mac_address, net_error) res" where
  "mac_from_str lib s =
     (case cstring_new s of
        None \<Rightarrow> Err InvalidFormat
      | Some c_str \<Rightarrow>
          (case cstr_to_mac_addr lib c_str of None \<Rightarrow> Err InvalidFormat | Some m \<Rightarrow> Ok (MacAddress m)))"

definition hex_digit :: "nat \<Rightarrow> u8" where
  "hex_digit n = word_of_nat (if n < 10 then 48 + n else 87 + n)"

definition hex_byte :: "u8 \<Rightarrow> bytes" where
  "hex_byte b = [hex_digit (unat b div 16), hex_digit (unat b mod 16)]"

text \<open>\<open>{:02x}\<close> six times, separated by colons\<close>

fun mac_display :: "mac_address \<Rightarrow> bytes" where
  "mac_display (MacAddress m) =
     hex_byte (m ! 0) @ [58] @ hex_byte (m ! 1) @ [58] @ hex_byte (m ! 2) @ [58] @
     hex_byte (m ! 3) @ [58] @ hex_byte (m ! 4) @ [58] @ hex_byte (m ! 5)"

definition calculate_fcs :: "net_lib \<Rightarrow> bytes \<Rightarrow> u32" where
  "calculate_fcs lib data = eth_fcs_append lib (FCS_APPEND_SEED lib) data"

text \<open>\<open>Ipv4Addr\<close> by its octets; \<open>Ipv4Addr::from\<close> takes the most significant byte first.\<close>

type_synonym ipv4 = "nat list"

definition ipv4_from_u32 :: "u32 \<Rightarrow> ipv4" where
  "ipv4_from_u32 x = rev (le_digits 4 (unat x))"

text \<open>A word whose bytes lie in memory in the given order.\<close>

definition word_in_memory :: "bool \<Rightarrow> bytes \<Rightarrow> u32" where
  "word_in_memory little bs = word_of_nat (of_digits (map unat (if little then bs else rev bs)))"

definition parse_ipv4_addr :: "net_lib \<Rightarrow> bool \<Rightarrow> bytes \<Rightarrow> (ipv4, net_error) res" where
  "parse_ipv4_addr lib little s =
     (case cstring_new s of
        None \<Rightarrow> Err InvalidFormat
      | Some c_str \<Rightarrow>
          (case cstr_to_ip4_addr lib c_str of
             None \<Rightarrow> Err InvalidFormat
           | Some ip \<Rightarrow> Ok (ipv4_from_u32 (to_be little (word_in_memory little ip)))))"

definition is_private_addr :: "ipv4 \<Rightarrow> bool" where
  "is_private_addr octets \<longleftrightarrow>
     octets ! 0 = 10 \<or>
     octets ! 0 = 172 \<and> octets ! 1 \<ge> 16 \<and> octets ! 1 \<le> 31 \<or>
     octets ! 0 = 192 \<and> octets ! 1 = 168"

definition is_loopback_addr :: "ipv4 \<Rightarrow> bool" where
  "is_loopback_addr octets \<longleftrightarrow> octets ! 0 = 127"

text \<open>The module \<open>bits\<close> of \<open>fd_net\<close> repeats some of these.\<close>

definition find_msb_u64 :: "u64 \<Rightarrow> u32 option" where
  "find_msb_u64 value = (if value = 0 then None else Some (63 - word_of_nat (leading_zeros value)))"

definition find_lsb_u64 :: "u64 \<Rightarrow> u32 option" where
  "find_lsb_u64 value = (if value = 0 then None else Some (word_of_nat (trailing_zeros value)))"

definition net_bswap_u16 :: "u16 \<Rightarrow> u16" where "net_bswap_u16 value = swap_bytes value"

definition net_bswap_u32 :: "u32 \<Rightarrow> u32" where "net_bswap_u32 value = swap_bytes value"

definition net_bswap_u64 :: "u64 \<Rightarrow> u64" where "net_bswap_u64 value = swap_bytes value"

section \<open>Properties\<close>

text \<open>The answers of a search for the highest and the lowest set bit.\<close>

definition positions_ok :: "'a::len word \<Rightarrow> u32 option \<Rightarrow> u32 option \<Rightarrow> bool" where
  "positions_ok x hi lo \<longleftrightarrow>
     (if x = 0 then hi = None \<and> lo = None
      else \<exists>k l. hi = Some k \<and> 2 ^ unat k \<le> unat x \<and> unat x < 2 ^ Suc (unat k) \<and>
        lo = Some l \<and> 2 ^ unat l dvd unat x \<and> \<not> 2 ^ Suc (unat l) dvd unat x)"

lemma positions_okI:
  assumes w: "LENGTH('a::len) < 2 ^ 32" and c: "c = word_of_nat (LENGTH('a) - 1)"
  shows "positions_ok (x :: 'a word)
    (if x = 0 then None else Some (c - word_of_nat (leading_zeros x)))
    (if x = 0 then None else Some (word_of_nat (trailing_zeros x)))"
proof (cases "x = 0")
  case False
  have lz: "leading_zeros x \<le> LENGTH('a) - 1" using leading_zeros_bit [OF False] by simp
  have small: "unat (word_of_nat n :: u32) = n" if "n < LENGTH('a)" for n
    using that w by (simp add: unat_of_nat)
  have "c - word_of_nat (leading_zeros x) = word_of_nat (LENGTH('a) - 1 - leading_zeros x)"
    unfolding c using lz by (simp only: of_nat_diff)
  moreover have "unat (word_of_nat (LENGTH('a) - 1 - leading_zeros x) :: u32) = LENGTH('a) - 1 - leading_zeros x"
    by (rule small) (simp add: less_imp_diff_less)
  moreover have "unat (word_of_nat (trailing_zeros x) :: u32) = trailing_zeros x"
    using small trailing_zeros_bit [OF False] by blast
  ultimately show ?thesis using False leading_zeros_log [OF False] trailing_zeros_dvd [OF False]
    by (simp add: positions_ok_def)
qed (simp add: positions_ok_def)

text \<open>At each of the four widths, the position functions answer \<open>None\<close> for zero; for any other
  value \<open>x\<close> the answer \<open>k\<close> of the search for the highest bit is the integer logarithm,
  \<open>2^k \<le> x < 2^(k+1)\<close>, and the answer \<open>l\<close> of the search for the lowest bit the exponent of the largest power of
  two that divides it. The subtraction of \<open>u32\<close> in the former never wraps. A population count is the number of
  set bits.\<close>

theorem bit_positions_exact:
  "positions_ok a (msb_u64 a) (lsb_u64 a) \<and> positions_ok b (msb_u32 b) (lsb_u32 b) \<and>
   positions_ok c (msb_u16 c) (lsb_u16 c) \<and> positions_ok d (msb_u8 d) (lsb_u8 d) \<and>
   positions_ok a (find_msb_u64 a) (find_lsb_u64 a) \<and>
   unat (popcount_u64 a) = card {i. bit a i} \<and> unat (popcount_u32 b) = card {i. bit b i} \<and>
   unat (popcount_u16 c) = card {i. bit c i} \<and> unat (popcount_u8 d) = card {i. bit d i}"
proof -
  have pop: "unat (word_of_nat (count_ones x) :: u32) = card {i. bit x i}"
    if "LENGTH('a) \<le> 64" for x :: "'a::len word"
  proof -
    have "count_ones x \<le> LENGTH('a)" unfolding count_ones_def
      by (rule order_trans [OF length_filter_le]) simp
    then have "count_ones x \<le> 64" using that by simp
    then show ?thesis by (simp add: unat_of_nat count_ones_card)
  qed
  show ?thesis
    unfolding msb_u64_def msb_u32_def msb_u16_def msb_u8_def lsb_u64_def lsb_u32_def lsb_u16_def lsb_u8_def
      find_msb_u64_def find_lsb_u64_def popcount_u64_def popcount_u32_def popcount_u16_def popcount_u8_def
    by (intro conjI positions_okI pop) simp_all
qed

text \<open>The bytes of a word in memory.\<close>

definition memory_bytes :: "bool \<Rightarrow> 'a::len word \<Rightarrow> nat list" where
  "memory_bytes little x =
     (let ds = le_digits (LENGTH('a) div 8) (unat x) in if little then ds else rev ds)"

lemma network_bytes:
  assumes "8 dvd LENGTH('a::len)"
  shows "memory_bytes little (to_be little (x :: 'a word)) = rev (le_digits (LENGTH('a) div 8) (unat x))"
  by (simp add: memory_bytes_def to_be_def swap_bytes_digits [OF assms])

text \<open>On targets of either byte order, a value converted to network order lies in memory with its most
  significant byte first, converting back gives the value, and swapping the bytes twice does.\<close>

theorem network_byte_order:
  "memory_bytes little (hton_u16 little a) = rev (le_digits 2 (unat a)) \<and>
   memory_bytes little (hton_u32 little b) = rev (le_digits 4 (unat b)) \<and>
   memory_bytes little (hton_u64 little c) = rev (le_digits 8 (unat c)) \<and>
   ntoh_u16 little (hton_u16 little a) = a \<and> ntoh_u32 little (hton_u32 little b) = b \<and>
   ntoh_u64 little (hton_u64 little c) = c \<and>
   bswap_u16 (bswap_u16 a) = a \<and> bswap_u32 (bswap_u32 b) = b \<and> bswap_u64 (bswap_u64 c) = c \<and>
   net_bswap_u16 a = bswap_u16 a \<and> net_bswap_u32 b = bswap_u32 b \<and> net_bswap_u64 c = bswap_u64 c"
  using network_bytes [of little a] network_bytes [of little b] network_bytes [of little c]
  by (simp add: hton_u16_def hton_u32_def hton_u64_def ntoh_u16_def ntoh_u32_def ntoh_u64_def to_be_def from_be_def
      bswap_u16_def bswap_u32_def bswap_u64_def net_bswap_u16_def net_bswap_u32_def net_bswap_u64_def swap_bytes_twice)

subsection \<open>Roots\<close>

text \<open>The integer root of degree \<open>k\<close> rounded down, up and to the nearest.\<close>

definition floor_root :: "nat \<Rightarrow> nat \<Rightarrow> nat \<Rightarrow> bool" where
  "floor_root k n r \<longleftrightarrow> r ^ k \<le> n \<and> n < (r + 1) ^ k"

definition ceil_root :: "nat \<Rightarrow> nat \<Rightarrow> nat \<Rightarrow> bool" where
  "ceil_root k n r \<longleftrightarrow> n \<le> r ^ k \<and> (0 < r \<longrightarrow> (r - 1) ^ k < n)"

definition round_root :: "nat \<Rightarrow> nat \<Rightarrow> nat \<Rightarrow> bool" where
  "round_root k n r \<longleftrightarrow> 2 ^ k * n < (2 * r + 1) ^ k \<and> (0 < r \<longrightarrow> (2 * r - 1) ^ k \<le> 2 ^ k * n)"

text \<open>Roots of numbers below \<open>2^w\<close> fit the width of the number.\<close>

lemma floor_root_fits: "floor_root k n r \<Longrightarrow> 0 < k \<Longrightarrow> n < b \<Longrightarrow> r < b"
  unfolding floor_root_def using self_le_power [of r k] by (cases "r = 0") auto

lemma ceil_root_fits: "ceil_root k n r \<Longrightarrow> 0 < k \<Longrightarrow> n < b \<Longrightarrow> r < b"
proof -
  assume a: "ceil_root k n r" "0 < k" "n < b"
  show "r < b"
  proof (cases "r \<le> 1")
    case True
    show ?thesis
    proof (cases "r = 1 \<and> n = 0")
      case True
      then show ?thesis using a by (simp add: ceil_root_def)
    next
      case False
      then show ?thesis using True a(3) by (cases "r = 0") auto
    qed
  next
    case False
    then have "r - 1 \<le> (r - 1) ^ k" using self_le_power [of "r - 1" k] a(2) by simp
    moreover have "(r - 1) ^ k < n" using a(1) False by (simp add: ceil_root_def)
    ultimately show ?thesis using a(3) False by linarith
  qed
qed

lemma round_root_fits:
  assumes r: "round_root k n r" and k: "2 \<le> k" and n: "n < 2 ^ (2 * w)" and w: "0 < w"
  shows "r \<le> 2 ^ w"
proof (rule ccontr)
  assume "\<not> r \<le> 2 ^ w"
  then have r1: "0 < r" "2 * 2 ^ w \<le> 2 * r - 1" by auto
  have "2 ^ k * (2 ^ w) ^ 2 \<le> 2 ^ k * (2 ^ w :: nat) ^ k"
    using power_increasing [OF k, of "2 ^ w :: nat"] by simp
  also have "\<dots> = (2 * 2 ^ w) ^ k" by (simp add: power_mult_distrib)
  also have "\<dots> \<le> (2 * r - 1) ^ k" by (rule power_mono [OF r1(2)]) simp
  also have "\<dots> \<le> 2 ^ k * n" using r r1(1) by (simp add: round_root_def)
  finally have "(2 ^ w) ^ 2 \<le> n" by simp
  then show False using n by (simp add: power_mult [symmetric] mult.commute)
qed

locale root_functions =
  fixes lib :: bits_lib
  assumes floor_law: "floor_root 2 (unat x) (unat (floor_sqrt lib x))" "floor_root 3 (unat x) (unat (floor_cbrt lib x))"
    and ceil_law: "ceil_root 2 (unat x) (unat (ceil_sqrt lib x))" "ceil_root 3 (unat x) (unat (ceil_cbrt lib x))"
    and round_law: "round_root 2 (unat x) (unat (round_sqrt lib x))" "round_root 3 (unat x) (unat (round_cbrt lib x))"
begin

lemma widen: "unat (ucast (x :: u32) :: u64) = unat x"
proof -
  have "unat x < 2 ^ 32" using unsigned_less [of x] by simp
  then show ?thesis by (simp add: unsigned_ucast_eq take_bit_nat_eq_self_iff)
qed

lemma narrow: "unat (y :: u64) < 2 ^ 32 \<Longrightarrow> unat (ucast y :: u32) = unat y"
  by (simp add: unsigned_ucast_eq take_bit_nat_eq_self_iff)

lemma u32_below: "unat (x :: u32) < 2 ^ 32" "unat (x :: u32) < 2 ^ (2 * 16)"
  using unsigned_less [of x] by simp_all

lemma floor_u32:
  "floor_root 2 (unat x) (unat (sqrt_floor_u32 lib x))" "floor_root 3 (unat x) (unat (cbrt_floor_u32 lib x))"
  using floor_law [of "ucast x"] floor_root_fits [of 2 "unat x" _ "2 ^ 32"] floor_root_fits [of 3 "unat x" _ "2 ^ 32"]
    u32_below [of x]
  by (simp_all add: sqrt_floor_u32_def sqrt_floor_u64_def cbrt_floor_u32_def cbrt_floor_u64_def widen narrow)

lemma ceil_u32:
  "ceil_root 2 (unat x) (unat (sqrt_ceil_u32 lib x))" "ceil_root 3 (unat x) (unat (cbrt_ceil_u32 lib x))"
  using ceil_law [of "ucast x"] ceil_root_fits [of 2 "unat x" _ "2 ^ 32"] ceil_root_fits [of 3 "unat x" _ "2 ^ 32"]
    u32_below [of x]
  by (simp_all add: sqrt_ceil_u32_def sqrt_ceil_u64_def cbrt_ceil_u32_def cbrt_ceil_u64_def widen narrow)

lemma round_u32:
  "round_root 2 (unat x) (unat (sqrt_round_u32 lib x))" "round_root 3 (unat x) (unat (cbrt_round_u32 lib x))"
proof -
  have fits: "r < 2 ^ 32" if "round_root k (unat x) r" "2 \<le> k" for k r
    using round_root_fits [OF that u32_below(2)] by simp
  show "round_root 2 (unat x) (unat (sqrt_round_u32 lib x))" "round_root 3 (unat x) (unat (cbrt_round_u32 lib x))"
    using round_law [of "ucast x"] fits
    by (simp_all add: sqrt_round_u32_def sqrt_round_u64_def cbrt_round_u32_def cbrt_round_u64_def widen narrow)
qed

end

text \<open>Reference root functions: the largest number whose power does not exceed the argument.\<close>

definition nroot :: "nat \<Rightarrow> nat \<Rightarrow> nat" where
  "nroot k n = length (takeWhile (\<lambda>r. \<not> n < (r + 1) ^ k) [0..<Suc n])"

lemma nroot_ok: "0 < k \<Longrightarrow> floor_root k n (nroot k n)"
proof -
  assume k: "0 < k"
  have "n < (n + 1) ^ k" using self_le_power [of "n + 1" k] k by linarith
  then have p: "nroot k n < Suc n" "n < (nroot k n + 1) ^ k" "\<And>j. j < nroot k n \<Longrightarrow> \<not> n < (j + 1) ^ k"
    using take_while_position [of n "[0..<Suc n]" "\<lambda>r. n < (r + 1) ^ k"] unfolding nroot_def
    by (auto simp del: upt_Suc)
  show ?thesis
  proof (cases "nroot k n")
    case 0
    then show ?thesis using p(2) k by (simp add: floor_root_def)
  next
    case (Suc m)
    then show ?thesis using p(2) p(3) [of m] by (simp add: floor_root_def)
  qed
qed

definition nroot_up :: "nat \<Rightarrow> nat \<Rightarrow> nat" where
  "nroot_up k n = (let r = nroot k n in if r ^ k = n then r else r + 1)"

definition nroot_near :: "nat \<Rightarrow> nat \<Rightarrow> nat" where
  "nroot_near k n = (let r = nroot k n in if 2 ^ k * n < (2 * r + 1) ^ k then r else r + 1)"

lemma nroot_up_ok: "0 < k \<Longrightarrow> ceil_root k n (nroot_up k n)"
proof -
  assume k: "0 < k"
  have f: "nroot k n ^ k \<le> n" "n < (nroot k n + 1) ^ k" using nroot_ok [OF k] by (auto simp: floor_root_def)
  have "0 < nroot k n \<Longrightarrow> (nroot k n - 1) ^ k < nroot k n ^ k" using k by (intro power_strict_mono) auto
  then show ?thesis using f by (auto simp: nroot_up_def ceil_root_def Let_def)
qed

lemma nroot_near_ok:
  assumes "0 < k"
  shows "round_root k n (nroot_near k n)"
proof -
  have f: "nroot k n ^ k \<le> n" "n < (nroot k n + 1) ^ k" using nroot_ok [OF assms] by (auto simp: floor_root_def)
  let ?r = "nroot k n"
  show ?thesis
  proof (cases "2 ^ k * n < (2 * ?r + 1) ^ k")
    case True
    have "(2 * ?r - 1) ^ k \<le> (2 * ?r) ^ k" by (rule power_mono) simp_all
    also have "\<dots> \<le> 2 ^ k * n" using f(1) by (simp add: power_mult_distrib)
    finally show ?thesis using True by (simp add: nroot_near_def round_root_def)
  next
    case False
    have "2 ^ k * n < 2 ^ k * (?r + 1) ^ k" using f(2) by simp
    also have "\<dots> = (2 * (?r + 1)) ^ k" by (simp only: power_mult_distrib)
    also have "\<dots> \<le> (2 * (?r + 1) + 1) ^ k" by (rule power_mono) simp_all
    finally show ?thesis using False by (simp add: nroot_near_def round_root_def)
  qed
qed

definition ref_roots :: bits_lib where
  "ref_roots = \<lparr>floor_sqrt = \<lambda>x. word_of_nat (nroot 2 (unat x)), ceil_sqrt = \<lambda>x. word_of_nat (nroot_up 2 (unat x)),
     round_sqrt = \<lambda>x. word_of_nat (nroot_near 2 (unat x)), approx_sqrt = \<lambda>x. word_of_nat (nroot 2 (unat x)),
     floor_cbrt = \<lambda>x. word_of_nat (nroot 3 (unat x)), ceil_cbrt = \<lambda>x. word_of_nat (nroot_up 3 (unat x)),
     round_cbrt = \<lambda>x. word_of_nat (nroot_near 3 (unat x)), approx_cbrt = \<lambda>x. word_of_nat (nroot 3 (unat x))\<rparr>"

lemma unat_root:
  fixes x :: u64
  assumes "2 \<le> k"
  shows "unat (word_of_nat (nroot k (unat x)) :: u64) = nroot k (unat x)"
    "unat (word_of_nat (nroot_up k (unat x)) :: u64) = nroot_up k (unat x)"
    "unat (word_of_nat (nroot_near k (unat x)) :: u64) = nroot_near k (unat x)"
proof -
  have k: "0 < k" and x: "unat x < 2 ^ 64" "unat x < 2 ^ (2 * 32)" using assms unsigned_less [of x] by simp_all
  show "unat (word_of_nat (nroot k (unat x)) :: u64) = nroot k (unat x)"
    "unat (word_of_nat (nroot_up k (unat x)) :: u64) = nroot_up k (unat x)"
    using floor_root_fits [OF nroot_ok [OF k] k x(1)] ceil_root_fits [OF nroot_up_ok [OF k] k x(1)]
    by (simp_all add: unat_of_nat)
  show "unat (word_of_nat (nroot_near k (unat x)) :: u64) = nroot_near k (unat x)"
    using round_root_fits [OF nroot_near_ok [OF k] assms x(2)] by (simp add: unat_of_nat)
qed

interpretation ref_roots: root_functions ref_roots
  by unfold_locales (simp_all add: ref_roots_def unat_root nroot_ok nroot_up_ok nroot_near_ok)

text \<open>With C functions that compute the roots of 64-bit numbers, the 32-bit square and cube
  roots, which widen their argument and cut the result to 32 bits, are exact for every argument: rounded down, up and
  to the nearest; the cut never loses a bit, also where rounding up leaves 16 bits.\<close>

theorem roots_u32_exact:
  assumes "root_functions lib"
  shows "floor_root 2 (unat x) (unat (sqrt_floor_u32 lib x)) \<and> ceil_root 2 (unat x) (unat (sqrt_ceil_u32 lib x)) \<and>
    round_root 2 (unat x) (unat (sqrt_round_u32 lib x)) \<and>
    floor_root 3 (unat x) (unat (cbrt_floor_u32 lib x)) \<and> ceil_root 3 (unat x) (unat (cbrt_ceil_u32 lib x)) \<and>
    round_root 3 (unat x) (unat (cbrt_round_u32 lib x))"
  using root_functions.floor_u32 [OF assms] root_functions.ceil_u32 [OF assms] root_functions.round_u32 [OF assms]
  by blast

theorem roots_u32_exact_witness: "ceil_root 2 99 (unat (sqrt_ceil_u32 ref_roots 99))"
  using roots_u32_exact [OF ref_roots.root_functions_axioms, of 99] by simp

subsection \<open>Addresses\<close>

lemma le_digits_4: "le_digits 4 n = [n mod 256, n div 256 mod 256, n div 65536 mod 256, n div 16777216 mod 256]"
proof -
  have "le_digits (Suc (Suc (Suc (Suc 0)))) n = [n mod 256, n div 256 mod 256, n div 65536 mod 256, n div 16777216 mod 256]"
    by (simp add: div_mult2_eq [symmetric])
  moreover have "(4 :: nat) = Suc (Suc (Suc (Suc 0)))" by simp
  ultimately show ?thesis by (simp only:)
qed

lemma word_in_memory_digits:
  assumes "length bs = 4"
  shows "le_digits 4 (unat (word_in_memory little bs)) = map unat (if little then bs else rev bs)"
proof -
  let ?ds = "map unat (if little then bs else rev bs)"
  have ds: "\<And>d. d \<in> set ?ds \<Longrightarrow> d < 256"
  proof -
    fix d assume "d \<in> set ?ds"
    then obtain b :: u8 where "d = unat b" by auto
    then show "d < 256" using unsigned_less [of b] by simp
  qed
  have "of_digits ?ds < 2 ^ 32" using of_digits_bound [of ?ds] ds assms by (cases little) simp_all
  then have "unat (word_in_memory little bs) = of_digits ?ds" by (simp add: word_in_memory_def unat_of_nat)
  then show ?thesis using le_digits_of [of ?ds] ds assms by (cases little) simp_all
qed

text \<open>\<open>parse_ipv4_addr\<close> gives, on targets of either byte order, the address whose octets are the four
  bytes that the C parser stores, in their order; text with a zero byte or refused by the parser is
  \<open>InvalidFormat\<close>. On addresses as numbers, \<open>is_private_addr\<close> holds exactly for the three blocks of RFC 1918 and
  \<open>is_loopback_addr\<close> exactly for \<open>127.0.0.0/8\<close>.\<close>

theorem ipv4_addresses:
  assumes four: "\<And>c bs. cstr_to_ip4_addr lib c = Some bs \<Longrightarrow> length bs = 4"
  shows "parse_ipv4_addr lib little s =
      (if 0 \<in> set s then Err InvalidFormat
       else case cstr_to_ip4_addr lib (s @ [0]) of None \<Rightarrow> Err InvalidFormat | Some bs \<Rightarrow> Ok (map unat bs)) \<and>
    (is_private_addr (ipv4_from_u32 x) \<longleftrightarrow>
      0x0A000000 \<le> unat x \<and> unat x \<le> 0x0AFFFFFF \<or> 0xAC100000 \<le> unat x \<and> unat x \<le> 0xAC1FFFFF \<or>
      0xC0A80000 \<le> unat x \<and> unat x \<le> 0xC0A8FFFF) \<and>
    (is_loopback_addr (ipv4_from_u32 x) \<longleftrightarrow> 0x7F000000 \<le> unat x \<and> unat x \<le> 0x7FFFFFFF)"
proof (intro conjI)
  have oct: "ipv4_from_u32 (to_be little (word_in_memory little bs)) = map unat bs" if "length bs = 4" for bs
    using word_in_memory_digits [OF that, of little] swap_bytes_digits [of "word_in_memory little bs"]
    by (cases little) (simp_all add: ipv4_from_u32_def to_be_def rev_map [symmetric])
  show "parse_ipv4_addr lib little s =
      (if 0 \<in> set s then Err InvalidFormat
       else case cstr_to_ip4_addr lib (s @ [0]) of None \<Rightarrow> Err InvalidFormat | Some bs \<Rightarrow> Ok (map unat bs))"
    using four oct by (auto simp: parse_ipv4_addr_def cstring_new_def split: option.splits)
  have x: "unat x < 2 ^ 32" using unsigned_less [of x] by simp
  have o: "ipv4_from_u32 x ! 0 = unat x div 16777216" "ipv4_from_u32 x ! 1 = unat x div 65536 mod 256"
    using x by (simp_all add: ipv4_from_u32_def le_digits_4)
  define h where "h = unat x div 65536"
  have "unat x div 16777216 = h div 256" unfolding h_def by (simp add: div_mult2_eq [symmetric])
  moreover have e: "h = 256 * (h div 256) + h mod 256" "h mod 256 < 256" by simp_all
  have "(h div 256 = 10) = (2560 \<le> h \<and> h \<le> 2815)" by auto
  moreover have "(h div 256 = 172 \<and> 16 \<le> h mod 256 \<and> h mod 256 \<le> 31) = (44048 \<le> h \<and> h \<le> 44063)"
  proof (cases "h div 256 = 172")
    case True
    then show ?thesis using e by linarith
  qed auto
  moreover have "(h div 256 = 192 \<and> h mod 256 = 168) = (h = 49320)"
  proof (cases "h div 256 = 192")
    case True
    then show ?thesis using e by linarith
  qed auto
  moreover have "(2560 \<le> h \<and> h \<le> 2815) = (0x0A000000 \<le> unat x \<and> unat x \<le> 0x0AFFFFFF)"
    "(44048 \<le> h \<and> h \<le> 44063) = (0xAC100000 \<le> unat x \<and> unat x \<le> 0xAC1FFFFF)"
    "(h = 49320) = (0xC0A80000 \<le> unat x \<and> unat x \<le> 0xC0A8FFFF)" unfolding h_def by auto
  ultimately show "is_private_addr (ipv4_from_u32 x) \<longleftrightarrow>
      0x0A000000 \<le> unat x \<and> unat x \<le> 0x0AFFFFFF \<or> 0xAC100000 \<le> unat x \<and> unat x \<le> 0xAC1FFFFF \<or>
      0xC0A80000 \<le> unat x \<and> unat x \<le> 0xC0A8FFFF"
    unfolding is_private_addr_def o h_def [symmetric] by simp
  show "is_loopback_addr (ipv4_from_u32 x) \<longleftrightarrow> 0x7F000000 \<le> unat x \<and> unat x \<le> 0x7FFFFFFF"
    unfolding is_loopback_addr_def o by auto
qed

text \<open>The value of a hexadecimal digit, and the format the C parser of MAC addresses documents.\<close>

definition hex_val :: "u8 \<Rightarrow> nat option" where
  "hex_val c = (let n = unat c in
     if 48 \<le> n \<and> n \<le> 57 then Some (n - 48) else if 97 \<le> n \<and> n \<le> 102 then Some (n - 87)
     else if 65 \<le> n \<and> n \<le> 70 then Some (n - 55) else None)"

fun pairs_value :: "bytes \<Rightarrow> bytes option" where
  "pairs_value [a, b] =
     (case (hex_val a, hex_val b) of (Some x, Some y) \<Rightarrow> Some [word_of_nat (16 * x + y)] | _ \<Rightarrow> None)"
| "pairs_value (a # b # sep # s) =
     (case (hex_val a, hex_val b) of
        (Some x, Some y) \<Rightarrow> if sep = 58 then map_option (\<lambda>m. word_of_nat (16 * x + y) # m) (pairs_value s) else None
      | _ \<Rightarrow> None)"
| "pairs_value _ = None"

locale mac_parser =
  fixes lib :: net_lib
  assumes mac_law: "length s = 17 \<Longrightarrow> pairs_value s = Some m \<Longrightarrow> cstr_to_mac_addr lib (s @ [0]) = Some m"

lemma hex_digit_val: "n < 16 \<Longrightarrow> hex_val (hex_digit n) = Some n"
  by (auto simp: hex_val_def hex_digit_def unat_of_nat Let_def)

lemma hex_byte_val: "hex_val (hex_digit (unat (b :: u8) div 16)) = Some (unat b div 16)"
    "hex_val (hex_digit (unat b mod 16)) = Some (unat b mod 16)"
proof -
  have "unat b < 16 * 16" using unsigned_less [of b] by simp
  then have "unat b div 16 < 16" by (rule less_mult_imp_div_less)
  then show "hex_val (hex_digit (unat b div 16)) = Some (unat b div 16)"
    "hex_val (hex_digit (unat b mod 16)) = Some (unat b mod 16)" by (simp_all add: hex_digit_val)
qed

text \<open>Printing a MAC address and parsing the text gives the address back, with any C parser that reads
  six pairs of hexadecimal digits separated by colons.\<close>

theorem mac_round_trip:
  assumes "mac_parser lib" and "length m = 6"
  shows "mac_from_str lib (mac_display (MacAddress m)) = Ok (MacAddress m)"
proof -
  obtain a b c d e f where m: "m = [a, b, c, d, e, f]"
    using assms(2) by (auto simp: numeral_eq_Suc length_Suc_conv)
  have pv: "pairs_value (mac_display (MacAddress m)) = Some m" "length (mac_display (MacAddress m)) = 17"
    by (simp_all add: m hex_byte_def hex_byte_val)
  have "0 \<noteq> hex_digit (unat x div 16) \<and> 0 \<noteq> hex_digit (unat x mod 16)" for x :: u8
    using hex_byte_val [of x] by (auto simp: hex_val_def Let_def)
  then have "0 \<notin> set (mac_display (MacAddress m))" by (simp add: m hex_byte_def)
  then show ?thesis using mac_parser.mac_law [OF assms(1) pv(2,1)] by (simp add: mac_from_str_def cstring_new_def)
qed

definition ref_net :: net_lib where
  "ref_net = \<lparr>cstr_to_mac_addr = \<lambda>s. pairs_value (butlast s),
     cstr_to_ip4_addr = \<lambda>s. if s = ascii ''10.0.0.1'' @ [0] then Some [10, 0, 0, 1] else None,
     eth_fcs_append = \<lambda>c _. c, FCS_APPEND_SEED = 0\<rparr>"

theorem ipv4_addresses_witness:
  "parse_ipv4_addr ref_net True (ascii ''10.0.0.1'') = Ok [10, 0, 0, 1] \<and>
   is_private_addr (ipv4_from_u32 0x0A000001)"
proof -
  have "\<And>c bs. cstr_to_ip4_addr ref_net c = Some bs \<Longrightarrow> length bs = 4" by (auto simp: ref_net_def split: if_splits)
  then have A: "parse_ipv4_addr ref_net True (ascii ''10.0.0.1'') =
      (if 0 \<in> set (ascii ''10.0.0.1'') then Err InvalidFormat
       else case cstr_to_ip4_addr ref_net (ascii ''10.0.0.1'' @ [0]) of
              None \<Rightarrow> Err InvalidFormat | Some bs \<Rightarrow> Ok (map unat bs))"
    "is_private_addr (ipv4_from_u32 0x0A000001)"
    using ipv4_addresses [where lib = ref_net and little = True and s = "ascii ''10.0.0.1''" and x = "0x0A000001"] by simp_all
  have "0 \<notin> set (ascii ''10.0.0.1'')" by (simp add: ascii_def)
  then show ?thesis using A by (simp add: ref_net_def)
qed

interpretation ref_net: mac_parser ref_net
  by unfold_locales (simp add: ref_net_def)

theorem mac_round_trip_witness:
  "mac_from_str ref_net (mac_display (MacAddress [0xAA, 0xBB, 0xCC, 0, 1, 0xFF])) = Ok (MacAddress [0xAA, 0xBB, 0xCC, 0, 1, 0xFF])"
  by (rule mac_round_trip [OF ref_net.mac_parser_axioms]) simp

end
