(* ===== verification/Toml.thy ===== *)
theory Toml
  imports Rust_Std
begin

text \<open>
  \<open>ballet/toml/fd_toml/src/lib.rs\<close>: parsing a TOML document into a pod in the parser's own memory, and the
  typed queries. The C parser and the C pod are the parameter \<open>toml_lib\<close> over an opaque type of pods; the
  locale \<open>pod_store\<close> states the documented behaviour of the pod queries: the value at a path when it has the
  type asked for, the caller's default otherwise.
\<close>

section \<open>Model\<close>

type_synonym i32 = "32 word"
type_synonym i64 = "64 word"

datatype toml_error = PodFull | ScratchFull | KeyTooLong | DuplicateKey | Overflow | ParseFailure u64

text \<open>
  \<open>fd_toml_parse\<close> gets no data (a null pointer) for an empty document. Signed integers are words, a float is
  its 32 bits.
\<close>

record 'p toml_lib =
  FD_POD_FOOTPRINT_MIN :: nat
  FD_TOML_SUCCESS :: i32
  FD_TOML_ERR_POD :: i32
  FD_TOML_ERR_SCRATCH :: i32
  FD_TOML_ERR_KEY :: i32
  FD_TOML_ERR_DUP :: i32
  FD_TOML_ERR_RANGE :: i32
  FD_POD_SUCCESS :: i32
  pod_new :: "nat \<Rightarrow> 'p option"
  pod_join :: "'p \<Rightarrow> 'p option"
  toml_parse :: "bytes option \<Rightarrow> 'p \<Rightarrow> nat \<Rightarrow> i32 \<times> u64 \<times> 'p"
  pod_cnt :: "'p \<Rightarrow> u64"
  pod_query_cstr :: "'p \<Rightarrow> bytes \<Rightarrow> bytes option"
  pod_query_long :: "'p \<Rightarrow> bytes \<Rightarrow> i64 \<Rightarrow> i64"
  pod_query_ulong :: "'p \<Rightarrow> bytes \<Rightarrow> u64 \<Rightarrow> u64"
  pod_query_float :: "'p \<Rightarrow> bytes \<Rightarrow> u32 \<Rightarrow> u32"
  pod_query_int :: "'p \<Rightarrow> bytes \<Rightarrow> i32 \<Rightarrow> i32"
  pod_query_subpod :: "'p \<Rightarrow> bytes \<Rightarrow> bool"
  pod_query :: "'p \<Rightarrow> bytes \<Rightarrow> i32"

definition translate_error :: "'p toml_lib \<Rightarrow> i32 \<Rightarrow> u64 \<Rightarrow> toml_error" where
  "translate_error lib code line =
     (if code = FD_TOML_ERR_POD lib then PodFull
      else if code = FD_TOML_ERR_SCRATCH lib then ScratchFull
      else if code = FD_TOML_ERR_KEY lib then KeyTooLong
      else if code = FD_TOML_ERR_DUP lib then DuplicateKey
      else if code = FD_TOML_ERR_RANGE lib then Overflow
      else ParseFailure line)"

text \<open>The parser: the pod its memory holds, if any, and the sizes of its two buffers.\<close>

record 'p toml_parser =
  pod_mem :: "'p option"
  POD_SZ :: nat
  SCRATCH_SZ :: nat

definition parser_new :: "'p toml_lib \<Rightarrow> nat \<Rightarrow> nat \<Rightarrow> ('p toml_parser, toml_error) res" where
  "parser_new lib pod_sz scratch_sz =
     (if pod_sz \<ge> FD_POD_FOOTPRINT_MIN lib
      then Ok \<lparr>pod_mem = None, POD_SZ = pod_sz, SCRATCH_SZ = scratch_sz\<rparr>
      else Panic)"

text \<open>A \<open>TomlPod\<close> is the pod in the memory of its parser, which it borrows.\<close>

definition parser_parse :: "'p toml_lib \<Rightarrow> bytes \<Rightarrow> 'p toml_parser \<Rightarrow> ('p, toml_error) res \<times> 'p toml_parser" where
  "parser_parse lib toml self =
     (let self = self\<lparr>pod_mem := None\<rparr>
      in case pod_new lib (POD_SZ self) of
           None \<Rightarrow> (Err PodFull, self)
         | Some raw \<Rightarrow>
             (case pod_join lib raw of
                None \<Rightarrow> (Err PodFull, self\<lparr>pod_mem := Some raw\<rparr>)
              | Some pod \<Rightarrow>
                  let data = (if toml = [] then None else Some toml)
                  in case toml_parse lib data pod (SCRATCH_SZ self) of (result, line, pod) \<Rightarrow>
                     if result \<noteq> FD_TOML_SUCCESS lib then (Err (translate_error lib result line), self\<lparr>pod_mem := None\<rparr>)
                     else (Ok pod, self\<lparr>pod_mem := Some pod\<rparr>)))"

definition pod_drop :: "'p toml_parser \<Rightarrow> 'p toml_parser" where
  "pod_drop self = self\<lparr>pod_mem := None\<rparr>"

definition pod_len :: "'p toml_lib \<Rightarrow> 'p \<Rightarrow> nat" where
  "pod_len lib pod = unat (pod_cnt lib pod)"

definition pod_is_empty :: "'p toml_lib \<Rightarrow> 'p \<Rightarrow> bool" where
  "pod_is_empty lib pod \<longleftrightarrow> pod_len lib pod = 0"

text \<open>The path in a buffer of 513 bytes, zero behind its end.\<close>

definition make_cstr_on_stack :: "bytes \<Rightarrow> bytes option" where
  "make_cstr_on_stack path =
     (if length path \<ge> 513 then None else Some (blit (replicate 513 0) 0 path))"

definition path_exists :: "'p toml_lib \<Rightarrow> 'p \<Rightarrow> bytes \<Rightarrow> bool" where
  "path_exists lib pod path =
     (case make_cstr_on_stack path of
        None \<Rightarrow> False
      | Some c_path \<Rightarrow> pod_query lib pod c_path = FD_POD_SUCCESS lib)"

definition query_cstr :: "'p toml_lib \<Rightarrow> 'p \<Rightarrow> bytes \<Rightarrow> bytes option" where
  "query_cstr lib pod path =
     (case make_cstr_on_stack path of
        None \<Rightarrow> None
      | Some c_path \<Rightarrow>
          (case pod_query_cstr lib pod c_path of
             None \<Rightarrow> None
           | Some s \<Rightarrow> if utf8_valid (cstr_bytes s) then Some (cstr_bytes s) else None))"

definition query_long :: "'p toml_lib \<Rightarrow> 'p \<Rightarrow> bytes \<Rightarrow> i64 option" where
  "query_long lib pod path =
     (case make_cstr_on_stack path of
        None \<Rightarrow> None
      | Some c_path \<Rightarrow>
          let sentinel = 0x8000000000000000; val = pod_query_long lib pod c_path sentinel
          in if val = sentinel then (if path_exists lib pod path then Some val else None) else Some val)"

definition query_ulong :: "'p toml_lib \<Rightarrow> 'p \<Rightarrow> bytes \<Rightarrow> u64 option" where
  "query_ulong lib pod path =
     (case make_cstr_on_stack path of
        None \<Rightarrow> None
      | Some c_path \<Rightarrow>
          let sentinel = 0xFFFFFFFFFFFFFFFF; val = pod_query_ulong lib pod c_path sentinel
          in if val = sentinel then (if path_exists lib pod path then Some val else None) else Some val)"

text \<open>\<open>f32::is_nan\<close> and \<open>f32::NAN\<close>, on the bits of a float\<close>

definition is_nan :: "u32 \<Rightarrow> bool" where
  "is_nan v \<longleftrightarrow> unat v mod 2 ^ 31 > 0x7F800000"

definition f32_NAN :: u32 where
  "f32_NAN = 0x7FC00000"

definition query_float :: "'p toml_lib \<Rightarrow> 'p \<Rightarrow> bytes \<Rightarrow> u32 option" where
  "query_float lib pod path =
     (case make_cstr_on_stack path of
        None \<Rightarrow> None
      | Some c_path \<Rightarrow>
          let sentinel = f32_NAN; val = pod_query_float lib pod c_path sentinel
          in if is_nan val then (if path_exists lib pod path then Some val else None) else Some val)"

definition query_int :: "'p toml_lib \<Rightarrow> 'p \<Rightarrow> bytes \<Rightarrow> i32 option" where
  "query_int lib pod path =
     (case make_cstr_on_stack path of
        None \<Rightarrow> None
      | Some c_path \<Rightarrow>
          let sentinel = 0x80000000; val = pod_query_int lib pod c_path sentinel
          in if val = sentinel then (if path_exists lib pod path then Some val else None) else Some val)"

definition query_bool :: "'p toml_lib \<Rightarrow> 'p \<Rightarrow> bytes \<Rightarrow> bool option" where
  "query_bool lib pod path = map_option (\<lambda>v. v \<noteq> 0) (query_int lib pod path)"

definition query_subpod :: "'p toml_lib \<Rightarrow> 'p \<Rightarrow> bytes \<Rightarrow> bool" where
  "query_subpod lib pod path =
     (case make_cstr_on_stack path of None \<Rightarrow> False | Some c_path \<Rightarrow> pod_query_subpod lib pod c_path)"

section \<open>Laws of the pod\<close>

datatype pod_value = Cstr bytes | Long i64 | Ulong u64 | Float u32 | VInt i32 | Subpod

locale pod_store =
  fixes lib :: "'p toml_lib" and lookup :: "'p \<Rightarrow> bytes \<Rightarrow> pod_value option"
  assumes cstr_law: "pod_query_cstr lib p c =
      (case lookup p (cstr_bytes c) of Some (Cstr s) \<Rightarrow> Some (s @ [0]) | _ \<Rightarrow> None)"
    and cstr_terminated: "lookup p q = Some (Cstr s) \<Longrightarrow> 0 \<notin> set s"
    and long_law: "pod_query_long lib p c d = (case lookup p (cstr_bytes c) of Some (Long v) \<Rightarrow> v | _ \<Rightarrow> d)"
    and ulong_law: "pod_query_ulong lib p c e = (case lookup p (cstr_bytes c) of Some (Ulong v) \<Rightarrow> v | _ \<Rightarrow> e)"
    and float_law: "pod_query_float lib p c f = (case lookup p (cstr_bytes c) of Some (Float v) \<Rightarrow> v | _ \<Rightarrow> f)"
    and int_law: "pod_query_int lib p c g = (case lookup p (cstr_bytes c) of Some (VInt v) \<Rightarrow> v | _ \<Rightarrow> g)"
    and subpod_law: "pod_query_subpod lib p c \<longleftrightarrow> lookup p (cstr_bytes c) = Some Subpod"
    and query_law: "pod_query lib p c = FD_POD_SUCCESS lib \<longleftrightarrow> lookup p (cstr_bytes c) \<noteq> None"

text \<open>The stack buffer reads back as the path up to its first zero byte.\<close>

lemma stack_path:
  "make_cstr_on_stack path = (if length path \<ge> 513 then None else Some (path @ replicate (513 - length path) 0))"
  by (simp add: make_cstr_on_stack_def blit_def)

lemma cstr_bytes_append_zero: "0 < n \<Longrightarrow> cstr_bytes (path @ replicate n 0) = cstr_bytes path"
proof -
  assume "0 < n"
  then obtain m where n: "replicate n 0 = (0 :: u8) # replicate m 0" by (cases n) auto
  have "takeWhile (\<lambda>c. c \<noteq> 0) (path @ replicate n 0) = takeWhile (\<lambda>c. c \<noteq> 0) path"
    unfolding n by (induction path) auto
  then show ?thesis by (simp add: cstr_bytes_def)
qed

text \<open>The value a query is about.\<close>

definition value_at :: "('p \<Rightarrow> bytes \<Rightarrow> pod_value option) \<Rightarrow> 'p \<Rightarrow> bytes \<Rightarrow> pod_value option" where
  "value_at lookup p path = (if length path \<ge> 513 then None else lookup p (cstr_bytes path))"

text \<open>What a query for a type answers on a path with a value of another type.\<close>

fun typed :: "(pod_value \<Rightarrow> 'a option) \<Rightarrow> 'a \<Rightarrow> pod_value option \<Rightarrow> 'a option" where
  "typed get mismatch None = None"
| "typed get mismatch (Some v) = (case get v of Some x \<Rightarrow> Some x | None \<Rightarrow> Some mismatch)"

fun get_long where "get_long (Long v) = Some v" | "get_long _ = None"
fun get_ulong where "get_ulong (Ulong v) = Some v" | "get_ulong _ = None"
fun get_float where "get_float (Float v) = Some v" | "get_float _ = None"
fun get_int where "get_int (VInt v) = Some v" | "get_int _ = None"
fun get_bool where "get_bool (VInt v) = Some (v \<noteq> 0)" | "get_bool _ = None"

fun get_text :: "pod_value option \<Rightarrow> bytes option" where
  "get_text (Some (Cstr s)) = (if utf8_valid s then Some s else None)"
| "get_text _ = None"

text \<open>Take a pod that answers queries as documented and a path of at most 512 bytes; \<open>v\<close> is
  the value the pod has under the path up to its first zero byte. Every query answers \<open>None\<close> (or
  false) when there is none. On a value of the type asked for it answers that value, also where the value equals the
  sentinel the query uses. \<open>query_cstr\<close> and \<open>query_subpod\<close> answer \<open>None\<close> and false on
  every other type, but the numeric queries answer their sentinel, so that \<open>query_bool\<close> answers \<open>Some(true)\<close> on
  a string or a table. A longer path finds nothing.\<close>

theorem toml_queries:
  assumes "pod_store lib lookup"
  shows "(path_exists lib p path \<longleftrightarrow> value_at lookup p path \<noteq> None) \<and>
    query_cstr lib p path = get_text (value_at lookup p path) \<and>
    (query_subpod lib p path \<longleftrightarrow> value_at lookup p path = Some Subpod) \<and>
    query_long lib p path = typed get_long 0x8000000000000000 (value_at lookup p path) \<and>
    query_ulong lib p path = typed get_ulong 0xFFFFFFFFFFFFFFFF (value_at lookup p path) \<and>
    query_float lib p path = typed get_float f32_NAN (value_at lookup p path) \<and>
    query_int lib p path = typed get_int 0x80000000 (value_at lookup p path) \<and>
    query_bool lib p path = typed get_bool True (value_at lookup p path)"
proof (cases "length path \<ge> 513")
  case True
  then show ?thesis
    by (simp add: value_at_def stack_path path_exists_def query_cstr_def query_subpod_def query_long_def
        query_ulong_def query_float_def query_int_def query_bool_def)
next
  case False
  let ?l = "lookup p (cstr_bytes path)"
  have c: "make_cstr_on_stack path = Some (path @ replicate (513 - length path) 0)"
      "cstr_bytes (path @ replicate (513 - length path) 0) = cstr_bytes path"
    using False by (simp_all add: stack_path cstr_bytes_append_zero)
  have v: "value_at lookup p path = ?l" using False by (simp add: value_at_def)
  have e: "path_exists lib p path \<longleftrightarrow> ?l \<noteq> None"
    by (simp add: path_exists_def c pod_store.query_law [OF assms])
  have i: "query_int lib p path = typed get_int 0x80000000 ?l"
    by (cases ?l; (cases "the ?l")?) (simp_all add: query_int_def e c pod_store.int_law [OF assms] Let_def)
  have "query_cstr lib p path = get_text ?l"
    using pod_store.cstr_terminated [OF assms, of p "cstr_bytes path"]
    by (cases ?l; (cases "the ?l")?) (simp_all add: query_cstr_def c pod_store.cstr_law [OF assms])
  moreover have "query_subpod lib p path \<longleftrightarrow> ?l = Some Subpod"
    by (simp add: query_subpod_def c pod_store.subpod_law [OF assms])
  moreover have "query_long lib p path = typed get_long 0x8000000000000000 ?l"
    by (cases ?l; (cases "the ?l")?) (simp_all add: query_long_def e c pod_store.long_law [OF assms] Let_def)
  moreover have "query_ulong lib p path = typed get_ulong 0xFFFFFFFFFFFFFFFF ?l"
    by (cases ?l; (cases "the ?l")?) (simp_all add: query_ulong_def e c pod_store.ulong_law [OF assms] Let_def)
  moreover have "query_float lib p path = typed get_float f32_NAN ?l"
    by (cases ?l; (cases "the ?l")?) (simp_all add: query_float_def e c pod_store.float_law [OF assms] Let_def is_nan_def f32_NAN_def)
  moreover have "query_bool lib p path = typed get_bool True ?l"
    unfolding query_bool_def i by (cases ?l; (cases "the ?l")?) simp_all
  ultimately show ?thesis unfolding v using e i by blast
qed

text \<open>A pod as a map from paths, and a C library over it that parses nothing.\<close>

type_synonym ref_pod = "bytes \<Rightarrow> pod_value option"

definition ref_toml :: "ref_pod toml_lib" where
  "ref_toml = \<lparr>FD_POD_FOOTPRINT_MIN = 1, FD_TOML_SUCCESS = 0, FD_TOML_ERR_POD = - 1, FD_TOML_ERR_SCRATCH = - 2,
     FD_TOML_ERR_KEY = - 3, FD_TOML_ERR_DUP = - 4, FD_TOML_ERR_RANGE = - 5, FD_POD_SUCCESS = 0,
     pod_new = (\<lambda>n. if 0 < n then Some (\<lambda>_. None) else None), pod_join = Some,
     toml_parse = (\<lambda>d p n. case d of None \<Rightarrow> (0, 0, p) | Some _ \<Rightarrow> (- 6, 1, p)),
     pod_cnt = (\<lambda>_. 0),
     pod_query_cstr = (\<lambda>p c. case p (cstr_bytes c) of Some (Cstr s) \<Rightarrow> if 0 \<in> set s then None else Some (s @ [0]) | _ \<Rightarrow> None),
     pod_query_long = (\<lambda>p c d. case p (cstr_bytes c) of Some (Long v) \<Rightarrow> v | _ \<Rightarrow> d),
     pod_query_ulong = (\<lambda>p c d. case p (cstr_bytes c) of Some (Ulong v) \<Rightarrow> v | _ \<Rightarrow> d),
     pod_query_float = (\<lambda>p c d. case p (cstr_bytes c) of Some (Float v) \<Rightarrow> v | _ \<Rightarrow> d),
     pod_query_int = (\<lambda>p c d. case p (cstr_bytes c) of Some (VInt v) \<Rightarrow> v | _ \<Rightarrow> d),
     pod_query_subpod = (\<lambda>p c. p (cstr_bytes c) = Some Subpod),
     pod_query = (\<lambda>p c. case p (cstr_bytes c) of
       Some (Cstr s) \<Rightarrow> if 0 \<in> set s then - 1 else 0 | Some _ \<Rightarrow> 0 | None \<Rightarrow> - 1)\<rparr>"

definition ref_lookup :: "ref_pod \<Rightarrow> bytes \<Rightarrow> pod_value option" where
  "ref_lookup p c = (case p c of Some (Cstr s) \<Rightarrow> if 0 \<in> set s then None else Some (Cstr s) | v \<Rightarrow> v)"

interpretation ref_pods: pod_store ref_toml ref_lookup
  by unfold_locales
    (auto simp: ref_toml_def ref_lookup_def split: option.splits pod_value.splits if_splits)

theorem toml_queries_witness:
  "query_long ref_toml (Map.empty (ascii ''port'' \<mapsto> Long 8080)) (ascii ''port'') = Some 8080 \<and>
   query_bool ref_toml (Map.empty (ascii ''port'' \<mapsto> Long 8080)) (ascii ''port'') = Some True"
  using toml_queries [OF ref_pods.pod_store_axioms, of "Map.empty (ascii ''port'' \<mapsto> Long 8080)" "ascii ''port''"]
  by (simp add: value_at_def ref_lookup_def ascii_def cstr_bytes_def)

text \<open>After a parse the parser's memory holds the pod it returned and nothing else; after an error of the C parser,
  no pod. Earlier contents play no role.\<close>

lemma parser_parse_memory:
  assumes "parser_parse lib toml self = (r, self')" and "\<And>raw. pod_join lib raw \<noteq> None"
  shows "pod_mem self' = (case r of Ok pod \<Rightarrow> Some pod | _ \<Rightarrow> None) \<and> r \<noteq> Panic \<and>
    parser_parse lib toml (self\<lparr>pod_mem := m\<rparr>) = (r, self')"
  using assms(1) by (auto simp: parser_parse_def Let_def assms(2) split: option.splits prod.splits if_splits)

end
