(* ===== verification/Shred.thy ===== *)
theory Shred
  imports Prelude
begin

text \<open>
  \<open>ballet/shred/fd_shred/src/lib.rs\<close>: shred types and the accessors of a parsed shred. The C parser and its
  size functions are the parameter \<open>shred_lib\<close>; pointers into the shred are offsets into its bytes, and reading
  outside of them is \<open>Panic\<close>. The locale \<open>shred_layout\<close> states what a successful C parse guarantees about the
  regions of a shred.
\<close>

unbundle bit_operations_syntax

section \<open>Types of shreds\<close>

datatype shred_type = LegacyData | LegacyCode | MerkleData | MerkleCode | MerkleDataChained | MerkleCodeChained |
  MerkleDataChainedResigned | MerkleCodeChainedResigned

definition is_data :: "shred_type \<Rightarrow> bool" where
  "is_data t \<longleftrightarrow> t \<in> {LegacyData, MerkleData, MerkleDataChained, MerkleDataChainedResigned}"

definition is_code :: "shred_type \<Rightarrow> bool" where
  "is_code t \<longleftrightarrow> t \<in> {LegacyCode, MerkleCode, MerkleCodeChained, MerkleCodeChainedResigned}"

definition is_legacy :: "shred_type \<Rightarrow> bool" where
  "is_legacy t \<longleftrightarrow> t \<in> {LegacyData, LegacyCode}"

definition is_merkle :: "shred_type \<Rightarrow> bool" where
  "is_merkle t \<longleftrightarrow> \<not> is_legacy t"

definition is_chained :: "shred_type \<Rightarrow> bool" where
  "is_chained t \<longleftrightarrow>
     t \<in> {MerkleDataChained, MerkleCodeChained, MerkleDataChainedResigned, MerkleCodeChainedResigned}"

definition is_resigned :: "shred_type \<Rightarrow> bool" where
  "is_resigned t \<longleftrightarrow> t \<in> {MerkleDataChainedResigned, MerkleCodeChainedResigned}"

text \<open>The constants of \<open>fd_shred_sys\<close>.\<close>

fun to_raw :: "shred_type \<Rightarrow> u8" where
  "to_raw LegacyData = 0xA0"
| "to_raw LegacyCode = 0x50"
| "to_raw MerkleData = 0x80"
| "to_raw MerkleCode = 0x40"
| "to_raw MerkleDataChained = 0x90"
| "to_raw MerkleCodeChained = 0x60"
| "to_raw MerkleDataChainedResigned = 0xB0"
| "to_raw MerkleCodeChainedResigned = 0x70"

definition from_raw :: "u8 \<Rightarrow> shred_type option" where
  "from_raw raw =
     (if raw = 0xA0 then Some LegacyData
      else if raw = 0x50 then Some LegacyCode
      else if raw = 0x80 then Some MerkleData
      else if raw = 0x40 then Some MerkleCode
      else if raw = 0x90 then Some MerkleDataChained
      else if raw = 0x60 then Some MerkleCodeChained
      else if raw = 0xB0 then Some MerkleDataChainedResigned
      else if raw = 0x70 then Some MerkleCodeChainedResigned
      else None)"

section \<open>A parsed shred\<close>

datatype shred_error = TooSmall | Invalid | BufferTooSmall | InvalidType | UnsupportedOperation

text \<open>The C struct: the common header and the two views of the union behind it.\<close>

record raw_shred =
  rs_signature :: bytes
  rs_variant :: u8
  rs_slot :: u64
  rs_idx :: u32
  rs_version :: u16
  rs_fec_set_idx :: u32
  rs_parent_off :: u16
  rs_flags :: u8
  rs_size :: u16
  rs_data_cnt :: u16
  rs_code_cnt :: u16
  rs_code_idx :: u16

text \<open>Pointers are offsets from the start of the shred; \<open>None\<close> is null.\<close>

record shred_lib =
  MIN_SHRED_SIZE :: nat
  MERKLE_NODE_SIZE :: nat
  shred_parse :: "bytes \<Rightarrow> raw_shred option"
  fd_shred_type :: "u8 \<Rightarrow> u8"
  shred_sz :: "raw_shred \<Rightarrow> u64"
  shred_payload_sz :: "raw_shred \<Rightarrow> u64"
  shred_header_sz :: "u8 \<Rightarrow> u64"
  shred_merkle_cnt :: "u8 \<Rightarrow> u32"
  shred_merkle_sz :: "u8 \<Rightarrow> u64"
  shred_data_payload :: "raw_shred \<Rightarrow> nat option"
  shred_code_payload :: "raw_shred \<Rightarrow> nat option"
  shred_merkle_nodes :: "raw_shred \<Rightarrow> nat option"

record shred =
  sh_raw :: raw_shred
  sh_data :: bytes

definition parse_shred :: "shred_lib \<Rightarrow> bytes \<Rightarrow> (shred, shred_error) res" where
  "parse_shred lib data =
     (if length data < MIN_SHRED_SIZE lib then Err TooSmall
      else case shred_parse lib data of
             None \<Rightarrow> Err Invalid
           | Some raw \<Rightarrow> Ok \<lparr>sh_raw = raw, sh_data = data\<rparr>)"

definition slot :: "shred \<Rightarrow> u64" where "slot s = rs_slot (sh_raw s)"

definition shred_index :: "shred \<Rightarrow> u32" where "shred_index s = rs_idx (sh_raw s)"

definition version :: "shred \<Rightarrow> u16" where "version s = rs_version (sh_raw s)"

definition fec_set_index :: "shred \<Rightarrow> u32" where "fec_set_index s = rs_fec_set_idx (sh_raw s)"

definition shred_type_of :: "shred_lib \<Rightarrow> shred \<Rightarrow> shred_type" where
  "shred_type_of lib s =
     (case from_raw (fd_shred_type lib (rs_variant (sh_raw s))) of Some t \<Rightarrow> t | None \<Rightarrow> LegacyData)"

definition variant :: "shred \<Rightarrow> u8" where "variant s = rs_variant (sh_raw s)"

definition signature :: "shred \<Rightarrow> bytes" where "signature s = rs_signature (sh_raw s)"

definition shred_size :: "shred_lib \<Rightarrow> shred \<Rightarrow> nat" where
  "shred_size lib s = unat (shred_sz lib (sh_raw s))"

definition payload_size :: "shred_lib \<Rightarrow> shred \<Rightarrow> nat" where
  "payload_size lib s = unat (shred_payload_sz lib (sh_raw s))"

definition header_size :: "shred_lib \<Rightarrow> shred \<Rightarrow> nat" where
  "header_size lib s = unat (shred_header_sz lib (rs_variant (sh_raw s)))"

definition merkle_node_count :: "shred_lib \<Rightarrow> shred \<Rightarrow> u32" where
  "merkle_node_count lib s = shred_merkle_cnt lib (rs_variant (sh_raw s))"

definition merkle_proof_size :: "shred_lib \<Rightarrow> shred \<Rightarrow> nat" where
  "merkle_proof_size lib s = unat (shred_merkle_sz lib (rs_variant (sh_raw s)))"

text \<open>\<open>slice::from_raw_parts\<close> on a pointer into the shred\<close>

definition raw_slice :: "bytes \<Rightarrow> nat \<Rightarrow> nat \<Rightarrow> (bytes option, shred_error) res" where
  "raw_slice data off n = res_bind (slice data off (off + n)) (\<lambda>b. Ok (Some b))"

definition data_payload :: "shred_lib \<Rightarrow> shred \<Rightarrow> (bytes option, shred_error) res" where
  "data_payload lib s =
     (if \<not> is_data (shred_type_of lib s) then Ok None
      else let payload_sz = payload_size lib s
           in case shred_data_payload lib (sh_raw s) of
                None \<Rightarrow> Ok None
              | Some p \<Rightarrow> if payload_sz = 0 then Ok None else raw_slice (sh_data s) p payload_sz)"

definition code_payload :: "shred_lib \<Rightarrow> shred \<Rightarrow> (bytes option, shred_error) res" where
  "code_payload lib s =
     (if \<not> is_code (shred_type_of lib s) then Ok None
      else let payload_sz = payload_size lib s
           in case shred_code_payload lib (sh_raw s) of
                None \<Rightarrow> Ok None
              | Some p \<Rightarrow> if payload_sz = 0 then Ok None else raw_slice (sh_data s) p payload_sz)"

record data_header =
  parent_offset :: u16
  dh_flags :: u8
  dh_size :: u16

record code_header =
  data_count :: u16
  code_count :: u16
  ch_index :: u16

definition data_header_of :: "shred_lib \<Rightarrow> shred \<Rightarrow> data_header option" where
  "data_header_of lib s =
     (if \<not> is_data (shred_type_of lib s) then None
      else Some \<lparr>parent_offset = rs_parent_off (sh_raw s), dh_flags = rs_flags (sh_raw s), dh_size = rs_size (sh_raw s)\<rparr>)"

definition code_header_of :: "shred_lib \<Rightarrow> shred \<Rightarrow> code_header option" where
  "code_header_of lib s =
     (if \<not> is_code (shred_type_of lib s) then None
      else Some \<lparr>data_count = rs_data_cnt (sh_raw s), code_count = rs_code_cnt (sh_raw s), ch_index = rs_code_idx (sh_raw s)\<rparr>)"

definition merkle_nodes :: "shred_lib \<Rightarrow> shred \<Rightarrow> (bytes option, shred_error) res" where
  "merkle_nodes lib s =
     (if is_legacy (shred_type_of lib s) then Ok None
      else let node_count = merkle_node_count lib s
           in if node_count = 0 then Ok None
              else case shred_merkle_nodes lib (sh_raw s) of
                     None \<Rightarrow> Ok None
                   | Some p \<Rightarrow> raw_slice (sh_data s) p (unat node_count * MERKLE_NODE_SIZE lib))"

definition is_slot_complete :: "shred_lib \<Rightarrow> shred \<Rightarrow> bool" where
  "is_slot_complete lib s = (case data_header_of lib s of Some h \<Rightarrow> dh_flags h AND 0x80 \<noteq> 0 | None \<Rightarrow> False)"

definition is_data_complete :: "shred_lib \<Rightarrow> shred \<Rightarrow> bool" where
  "is_data_complete lib s = (case data_header_of lib s of Some h \<Rightarrow> dh_flags h AND 0x40 \<noteq> 0 | None \<Rightarrow> False)"

definition reference_tick :: "shred_lib \<Rightarrow> shred \<Rightarrow> u8 option" where
  "reference_tick lib s = (case data_header_of lib s of Some h \<Rightarrow> Some (dh_flags h AND 0x3F) | None \<Rightarrow> None)"

section \<open>What the C parser guarantees\<close>

text \<open>
  A shred the C parser accepts has one of the eight types, its payload follows its header, its proof nodes fill
  the proof region, and header, payload and proof lie one behind the other inside its bytes.
\<close>

locale shred_layout =
  fixes lib :: shred_lib
  assumes type_known: "shred_parse lib d = Some r \<Longrightarrow> \<exists>t. fd_shred_type lib (rs_variant r) = to_raw t"
    and data_law: "shred_parse lib d = Some r \<Longrightarrow> shred_data_payload lib r = Some p \<Longrightarrow> p = unat (shred_header_sz lib (rs_variant r))"
    and code_law: "shred_parse lib d = Some r \<Longrightarrow> shred_code_payload lib r = Some p \<Longrightarrow> p = unat (shred_header_sz lib (rs_variant r))"
    and nodes_law: "shred_parse lib d = Some r \<Longrightarrow> shred_merkle_nodes lib r = Some p \<Longrightarrow>
      unat (shred_header_sz lib (rs_variant r)) + unat (shred_payload_sz lib r) \<le> p \<and>
      p + unat (shred_merkle_sz lib (rs_variant r)) \<le> length d"
    and merkle_sz_law: "unat (shred_merkle_sz lib v) = unat (shred_merkle_cnt lib v) * MERKLE_NODE_SIZE lib"
    and payload_law: "shred_parse lib d = Some r \<Longrightarrow>
      unat (shred_header_sz lib (rs_variant r)) + unat (shred_payload_sz lib r) \<le> length d"

lemma raw_round_trip: "from_raw (to_raw t) = Some t" "from_raw b = Some t \<Longrightarrow> to_raw t = b"
  by (cases t; simp add: from_raw_def) (auto simp: from_raw_def split: if_splits)

lemma data_or_code: "is_data t \<noteq> is_code t"
  by (cases t) (auto simp: is_data_def is_code_def)

text \<open>The part of the bytes that a region describes.\<close>

definition region :: "bytes \<Rightarrow> nat \<Rightarrow> nat \<Rightarrow> bytes" where
  "region d off n = take n (drop off d)"

lemma raw_slice_region: "off + n \<le> length d \<Longrightarrow> raw_slice d off n = Ok (Some (region d off n))"
  by (simp add: raw_slice_def slice_def region_def)

lemma flag_bits:
  fixes f :: u8
  shows "(f AND 0x80 \<noteq> 0) = bit f 7" "(f AND 0x40 \<noteq> 0) = bit f 6" "unat (f AND 0x3F) = unat f mod 64"
proof -
  show "(f AND 0x80 \<noteq> 0) = bit f 7" "(f AND 0x40 \<noteq> 0) = bit f 6"
    using and_exp_eq_0_iff_not_bit [of f 7] and_exp_eq_0_iff_not_bit [of f 6] by simp_all
  have "(0x3F :: u8) = mask 6" by (simp add: mask_eq_exp_minus_1)
  then have "unat (f AND 0x3F) = unat (take_bit 6 f)" by (simp only: take_bit_eq_mask)
  also have "\<dots> = take_bit 6 (unat f)" by (simp only: unsigned_take_bit_eq)
  also have "\<dots> = unat f mod 64" by (simp add: take_bit_eq_mod)
  finally show "unat (f AND 0x3F) = unat f mod 64" .
qed

text \<open>C34: A shred that \<open>Shred::parse\<close> returns, with a C parser that keeps its layout promises, has at least the minimal
  size and one of the eight types, and the fall-back of \<open>shred_type\<close> is never taken. No accessor reads outside the
  shred: the data payload of a data shred and the code payload of a coding shred are the bytes behind the
  header, of the payload's size; the proof nodes are whole nodes behind the payload. Exactly one of the two
  specific headers exists. The completion flags are the two top bits of the flags byte of a data shred and the
  reference tick its value modulo 64.\<close>

theorem shred_accessors_in_bounds:
  assumes "shred_layout lib" and p: "parse_shred lib d = Ok s"
  shows "MIN_SHRED_SIZE lib \<le> length d \<and>
    to_raw (shred_type_of lib s) = fd_shred_type lib (variant s) \<and>
    header_size lib s + payload_size lib s \<le> length d \<and>
    data_payload lib s \<in> {Ok None} \<union> (if is_data (shred_type_of lib s)
      then {Ok (Some (region d (header_size lib s) (payload_size lib s)))} else {}) \<and>
    code_payload lib s \<in> {Ok None} \<union> (if is_code (shred_type_of lib s)
      then {Ok (Some (region d (header_size lib s) (payload_size lib s)))} else {}) \<and>
    (\<exists>off. merkle_nodes lib s \<in> {Ok None, Ok (Some (region d off (merkle_proof_size lib s)))} \<and>
      header_size lib s + payload_size lib s \<le> off \<and> (merkle_nodes lib s \<noteq> Ok None \<longrightarrow> off + merkle_proof_size lib s \<le> length d)) \<and>
    (data_header_of lib s = None) \<noteq> (code_header_of lib s = None) \<and>
    (is_slot_complete lib s \<longleftrightarrow> is_data (shred_type_of lib s) \<and> bit (rs_flags (sh_raw s)) 7) \<and>
    (is_data_complete lib s \<longleftrightarrow> is_data (shred_type_of lib s) \<and> bit (rs_flags (sh_raw s)) 6) \<and>
    map_option unat (reference_tick lib s) =
      (if is_data (shred_type_of lib s) then Some (unat (rs_flags (sh_raw s)) mod 64) else None)"
proof -
  have r: "shred_parse lib d = Some (sh_raw s)" "sh_data s = d" "MIN_SHRED_SIZE lib \<le> length d"
    using p by (auto simp: parse_shred_def split: if_splits option.splits)
  obtain t where t: "fd_shred_type lib (rs_variant (sh_raw s)) = to_raw t"
    using shred_layout.type_known [OF assms(1) r(1)] by blast
  have ty: "shred_type_of lib s = t" by (simp add: shred_type_of_def t raw_round_trip)
  have pl: "header_size lib s + payload_size lib s \<le> length d"
    using shred_layout.payload_law [OF assms(1) r(1)] by (simp add: header_size_def payload_size_def)
  note sl = raw_slice_region [OF pl]
  have dp: "p = header_size lib s" if "shred_data_payload lib (sh_raw s) = Some p" for p
    using shred_layout.data_law [OF assms(1) r(1) that] by (simp add: header_size_def)
  have cp: "p = header_size lib s" if "shred_code_payload lib (sh_raw s) = Some p" for p
    using shred_layout.code_law [OF assms(1) r(1) that] by (simp add: header_size_def)
  have n: "unat (merkle_node_count lib s) * MERKLE_NODE_SIZE lib = merkle_proof_size lib s"
    using shred_layout.merkle_sz_law [OF assms(1)] by (simp add: merkle_node_count_def merkle_proof_size_def)
  have "\<exists>off. merkle_nodes lib s \<in> {Ok None, Ok (Some (region d off (merkle_proof_size lib s)))} \<and>
      header_size lib s + payload_size lib s \<le> off \<and> (merkle_nodes lib s \<noteq> Ok None \<longrightarrow> off + merkle_proof_size lib s \<le> length d)"
  proof (cases "shred_merkle_nodes lib (sh_raw s)")
    case None
    then show ?thesis
      by (intro exI [of _ "header_size lib s + payload_size lib s"]) (simp add: merkle_nodes_def Let_def)
  next
    case (Some off)
    have o: "header_size lib s + payload_size lib s \<le> off" "off + merkle_proof_size lib s \<le> length d"
      using shred_layout.nodes_law [OF assms(1) r(1) Some]
      by (simp_all add: header_size_def payload_size_def merkle_proof_size_def)
    then show ?thesis using Some raw_slice_region [OF o(2)]
      by (intro exI [of _ off]) (simp add: merkle_nodes_def Let_def n r(2))
  qed
  moreover have "data_payload lib s \<in> {Ok None} \<union> (if is_data t
      then {Ok (Some (region d (header_size lib s) (payload_size lib s)))} else {})"
    using dp sl by (auto simp: data_payload_def Let_def ty r(2) split: option.splits)
  moreover have "code_payload lib s \<in> {Ok None} \<union> (if is_code t
      then {Ok (Some (region d (header_size lib s) (payload_size lib s)))} else {})"
    using cp sl by (auto simp: code_payload_def Let_def ty r(2) split: option.splits)
  moreover have "(data_header_of lib s = None) \<noteq> (code_header_of lib s = None)"
    using data_or_code [of t] by (simp add: data_header_of_def code_header_of_def ty)
  moreover have "is_slot_complete lib s \<longleftrightarrow> is_data t \<and> bit (rs_flags (sh_raw s)) 7"
      "is_data_complete lib s \<longleftrightarrow> is_data t \<and> bit (rs_flags (sh_raw s)) 6"
      "map_option unat (reference_tick lib s) = (if is_data t then Some (unat (rs_flags (sh_raw s)) mod 64) else None)"
    by (simp_all add: is_slot_complete_def is_data_complete_def reference_tick_def data_header_of_def ty flag_bits)
  ultimately show ?thesis unfolding ty variant_def t using r(3) pl by blast
qed

text \<open>A parser of data shreds with an 88-byte header and no proof.\<close>

definition demo_raw :: raw_shred where
  "demo_raw = \<lparr>rs_signature = replicate 64 0, rs_variant = 0xA5, rs_slot = 7, rs_idx = 1, rs_version = 1, rs_fec_set_idx = 0,
     rs_parent_off = 1, rs_flags = 0xC5, rs_size = 100, rs_data_cnt = 1, rs_code_cnt = 0, rs_code_idx = 0\<rparr>"

definition ref_shreds :: shred_lib where
  "ref_shreds = \<lparr>MIN_SHRED_SIZE = 100, MERKLE_NODE_SIZE = 20,
     shred_parse = (\<lambda>d. if length d = 100 then Some demo_raw else None), fd_shred_type = (\<lambda>v. v AND 0xF0),
     shred_sz = (\<lambda>_. 100), shred_payload_sz = (\<lambda>_. 12), shred_header_sz = (\<lambda>_. 88), shred_merkle_cnt = (\<lambda>_. 0),
     shred_merkle_sz = (\<lambda>_. 0), shred_data_payload = (\<lambda>_. Some 88), shred_code_payload = (\<lambda>_. None),
     shred_merkle_nodes = (\<lambda>_. None)\<rparr>"

interpretation ref_shreds: shred_layout ref_shreds
proof
  show "\<exists>t. fd_shred_type ref_shreds (rs_variant r) = to_raw t" if "shred_parse ref_shreds d = Some r" for d r
    using that by (intro exI [of _ LegacyData]) (auto simp: ref_shreds_def demo_raw_def split: if_splits)
qed (auto simp: ref_shreds_def split: if_splits)

theorem shred_accessors_in_bounds_witness:
  "\<exists>s. parse_shred ref_shreds (replicate 100 0) = Ok s \<and> to_raw (shred_type_of ref_shreds s) = 0xA0 \<and>
     is_slot_complete ref_shreds s = (is_data (shred_type_of ref_shreds s) \<and> bit (0xC5 :: u8) 7)"
proof -
  have "parse_shred ref_shreds (replicate 100 0) = Ok \<lparr>sh_raw = demo_raw, sh_data = replicate 100 0\<rparr>"
    by (simp add: parse_shred_def ref_shreds_def)
  note this shred_accessors_in_bounds [OF ref_shreds.shred_layout_axioms this]
  then show ?thesis by (simp add: variant_def demo_raw_def ref_shreds_def)
qed

end
