(* ===== verification/Spad.thy ===== *)
theory Spad
  imports Scratch
begin

text \<open>
  The shared scratch pad of \<open>util/spad/fd_spad/src/lib.rs\<close>. The C pad is the parameter \<open>spad_lib\<close> over an
  opaque state of all shared memory; a handle is the address of a pad, so allocators that join the same memory
  share it. A C function called outside its contract gives \<open>None\<close>. The locale \<open>shared_pad\<close> states the documented
  behaviour of the C functions.
\<close>

section \<open>Model\<close>

datatype spad_error = AllocationFailed | InvalidAlignment | InvalidSize | NoFrame | TooManyFrames | NoFramesToPop |
  InsufficientSpace | InvalidState | PrepareMismatch | InvalidShmem | CreationFailed | JoinFailed

record 's spad_lib =
  c_align :: nat
  c_footprint :: "nat \<Rightarrow> nat"
  c_mem_max_max :: "nat \<Rightarrow> nat"
  c_new :: "nat \<Rightarrow> nat \<Rightarrow> 's \<Rightarrow> nat \<times> 's"
  c_join :: "nat \<Rightarrow> 's \<Rightarrow> nat \<times> 's"
  c_leave :: "nat \<Rightarrow> 's \<Rightarrow> nat \<times> 's"
  c_delete :: "nat \<Rightarrow> 's \<Rightarrow> nat \<times> 's"
  c_frame_free :: "nat \<Rightarrow> 's \<Rightarrow> nat"
  c_in_frame :: "nat \<Rightarrow> 's \<Rightarrow> bool"
  c_push :: "nat \<Rightarrow> 's \<Rightarrow> (unit \<times> 's) option"
  c_pop :: "nat \<Rightarrow> 's \<Rightarrow> (unit \<times> 's) option"
  c_alloc_max :: "nat \<Rightarrow> nat \<Rightarrow> 's \<Rightarrow> nat"
  c_spad_alloc :: "nat \<Rightarrow> nat \<Rightarrow> nat \<Rightarrow> 's \<Rightarrow> (nat \<times> 's) option"
  c_prepare :: "nat \<Rightarrow> nat \<Rightarrow> nat \<Rightarrow> 's \<Rightarrow> (nat \<times> 's) option"
  c_publish :: "nat \<Rightarrow> nat \<Rightarrow> 's \<Rightarrow> (unit \<times> 's) option"
  c_cancel :: "nat \<Rightarrow> 's \<Rightarrow> (unit \<times> 's) option"
  c_frame_lo :: "nat \<Rightarrow> 's \<Rightarrow> nat"
  c_frame_hi :: "nat \<Rightarrow> 's \<Rightarrow> nat"
  c_trim :: "nat \<Rightarrow> nat \<Rightarrow> 's \<Rightarrow> (unit \<times> 's) option"
  c_reset :: "nat \<Rightarrow> 's \<Rightarrow> (unit \<times> 's) option"
  c_frame_max :: "nat \<Rightarrow> 's \<Rightarrow> nat"
  c_frame_used :: "nat \<Rightarrow> 's \<Rightarrow> nat"
  c_mem_max :: "nat \<Rightarrow> 's \<Rightarrow> nat"
  c_mem_used :: "nat \<Rightarrow> 's \<Rightarrow> nat"
  c_mem_free :: "nat \<Rightarrow> 's \<Rightarrow> nat"

type_synonym ('a, 's) spad_call = "('a, spad_error) res \<times> 's"

text \<open>A \<open>SpadAllocation\<close> is a pointer and a size, as a scratch allocation is.\<close>

type_synonym spad_allocation = scratch_allocation

record spad_dynamic =
  sd_start_ptr :: nat
  sd_max_size :: nat

record spad_allocator =
  sp_spad :: nat

definition spad_footprint :: "'s spad_lib \<Rightarrow> nat \<Rightarrow> (nat, spad_error) res" where
  "spad_footprint lib mem_max =
     (let footprint = c_footprint lib mem_max in if footprint = 0 then Err InvalidSize else Ok footprint)"

definition spad_new :: "'s spad_lib \<Rightarrow> nat \<Rightarrow> nat \<Rightarrow> 's \<Rightarrow> (spad_allocator, 's) spad_call" where
  "spad_new lib shmem mem_max s =
     (if shmem = 0 then (Err InvalidShmem, s)
      else if mem_max = 0 then (Err InvalidSize, s)
      else case c_new lib shmem mem_max s of (p, s) \<Rightarrow>
           if p = 0 then (Err CreationFailed, s)
           else case c_join lib p s of (spad, s) \<Rightarrow>
                if spad = 0 then (Err JoinFailed, s) else (Ok \<lparr>sp_spad = spad\<rparr>, s))"

definition spad_join :: "'s spad_lib \<Rightarrow> nat \<Rightarrow> 's \<Rightarrow> (spad_allocator, 's) spad_call" where
  "spad_join lib shmem s =
     (if shmem = 0 then (Err InvalidShmem, s)
      else case c_join lib shmem s of (spad, s) \<Rightarrow>
           if spad = 0 then (Err JoinFailed, s) else (Ok \<lparr>sp_spad = spad\<rparr>, s))"

definition spad_push_frame :: "'s spad_lib \<Rightarrow> spad_allocator \<Rightarrow> 's \<Rightarrow> (unit, 's) spad_call" where
  "spad_push_frame lib al s =
     (if c_frame_free lib (sp_spad al) s = 0 then (Err TooManyFrames, s)
      else ffi (c_push lib (sp_spad al) s) (\<lambda>_ s. (Ok (), s)) s)"

text \<open>The destructors of \<open>SpadFrame\<close> and \<open>ManagedSpadFrame\<close> are empty.\<close>

definition spad_frame_drop :: "'s \<Rightarrow> 's" where
  "spad_frame_drop s = s"

definition managed_frame_new :: "'s spad_lib \<Rightarrow> spad_allocator \<Rightarrow> 's \<Rightarrow> (unit, 's) spad_call" where
  "managed_frame_new lib al s =
     (case spad_push_frame lib al s of
        (Ok _, s) \<Rightarrow> (Ok (), spad_frame_drop s) | (Err e, s) \<Rightarrow> (Err e, s) | (Panic, s) \<Rightarrow> (Panic, s))"

definition managed_frame_drop :: "'s \<Rightarrow> 's" where
  "managed_frame_drop s = s"

definition spad_pop_frame :: "'s spad_lib \<Rightarrow> spad_allocator \<Rightarrow> 's \<Rightarrow> (unit, 's) spad_call" where
  "spad_pop_frame lib al s =
     (if \<not> c_in_frame lib (sp_spad al) s then (Err NoFramesToPop, s)
      else ffi (c_pop lib (sp_spad al) s) (\<lambda>_ s. (Ok (), s)) s)"

definition spad_allocate ::
  "'s spad_lib \<Rightarrow> spad_allocator \<Rightarrow> nat \<Rightarrow> nat \<Rightarrow> 's \<Rightarrow> (spad_allocation, 's) spad_call" where
  "spad_allocate lib al sz alignment s =
     (if sz = 0 then (Err InvalidSize, s)
      else if alignment > 0 \<and> \<not> is_power_of_two alignment then (Err InvalidAlignment, s)
      else if \<not> c_in_frame lib (sp_spad al) s then (Err NoFrame, s)
      else if c_alloc_max lib (sp_spad al) alignment s < sz then (Err InsufficientSpace, s)
      else ffi (c_spad_alloc lib (sp_spad al) alignment sz s)
             (\<lambda>p s. (if p = 0 then Err AllocationFailed else Ok \<lparr>sa_ptr = p, sa_size = sz\<rparr>, s)) s)"

definition spad_prepare_alloc ::
  "'s spad_lib \<Rightarrow> spad_allocator \<Rightarrow> nat \<Rightarrow> nat \<Rightarrow> 's \<Rightarrow> (spad_dynamic, 's) spad_call" where
  "spad_prepare_alloc lib al alignment max_size s =
     (if max_size = 0 then (Err InvalidSize, s)
      else if alignment > 0 \<and> \<not> is_power_of_two alignment then (Err InvalidAlignment, s)
      else if \<not> c_in_frame lib (sp_spad al) s then (Err NoFrame, s)
      else if c_alloc_max lib (sp_spad al) alignment s < max_size then (Err InsufficientSpace, s)
      else ffi (c_prepare lib (sp_spad al) alignment max_size s)
             (\<lambda>p s. (if p = 0 then Err AllocationFailed else Ok \<lparr>sd_start_ptr = p, sd_max_size = max_size\<rparr>, s)) s)"

definition spad_publish_alloc :: "'s spad_lib \<Rightarrow> spad_allocator \<Rightarrow> nat \<Rightarrow> 's \<Rightarrow> (unit, 's) spad_call" where
  "spad_publish_alloc lib al actual_size s = ffi (c_publish lib (sp_spad al) actual_size s) (\<lambda>_ s. (Ok (), s)) s"

definition spad_cancel_alloc :: "'s spad_lib \<Rightarrow> spad_allocator \<Rightarrow> 's \<Rightarrow> (unit, 's) spad_call" where
  "spad_cancel_alloc lib al s = ffi (c_cancel lib (sp_spad al) s) (\<lambda>_ s. (Ok (), s)) s"

definition spad_trim :: "'s spad_lib \<Rightarrow> spad_allocator \<Rightarrow> nat \<Rightarrow> 's \<Rightarrow> (unit, 's) spad_call" where
  "spad_trim lib al end_ptr s =
     (if \<not> c_in_frame lib (sp_spad al) s then (Err NoFrame, s)
      else let frame_lo = c_frame_lo lib (sp_spad al) s; frame_hi = c_frame_hi lib (sp_spad al) s
           in if end_ptr < frame_lo \<or> end_ptr > frame_hi then (Err InvalidState, s)
              else ffi (c_trim lib (sp_spad al) end_ptr s) (\<lambda>_ s. (Ok (), s)) s)"

definition spad_reset :: "'s spad_lib \<Rightarrow> spad_allocator \<Rightarrow> 's \<Rightarrow> (unit, 's) spad_call" where
  "spad_reset lib al s = ffi (c_reset lib (sp_spad al) s) (\<lambda>_ s. (Ok (), s)) s"

definition spad_frame_bounds :: "'s spad_lib \<Rightarrow> spad_allocator \<Rightarrow> 's \<Rightarrow> (nat \<times> nat) option" where
  "spad_frame_bounds lib al s =
     (if \<not> c_in_frame lib (sp_spad al) s then None
      else Some (c_frame_lo lib (sp_spad al) s, c_frame_hi lib (sp_spad al) s))"

definition spad_leave :: "'s spad_lib \<Rightarrow> spad_allocator \<Rightarrow> 's \<Rightarrow> nat \<times> 's" where
  "spad_leave lib al s = c_leave lib (sp_spad al) s"

definition spad_delete :: "'s spad_lib \<Rightarrow> spad_allocator \<Rightarrow> 's \<Rightarrow> nat \<times> 's" where
  "spad_delete lib al s = (case c_leave lib (sp_spad al) s of (shmem, s) \<Rightarrow> c_delete lib shmem s)"

definition spad_drop :: "'s spad_lib \<Rightarrow> spad_allocator \<Rightarrow> 's \<Rightarrow> 's" where
  "spad_drop lib al s = snd (c_leave lib (sp_spad al) s)"

text \<open>
  \<open>spad_scope!\<close>: the block's value is kept and the frame popped behind it; a \<open>?\<close> in the block that
  returns from the enclosing function skips the pop. \<open>block\<close> gives \<open>Inl\<close> for such a return.
\<close>

definition spad_scope ::
  "'s spad_lib \<Rightarrow> spad_allocator \<Rightarrow> ('s \<Rightarrow> (spad_error + 'a, 's) spad_call) \<Rightarrow> 's \<Rightarrow> (spad_error + 'a, 's) spad_call" where
  "spad_scope lib al block s =
     (case spad_push_frame lib al s of
        (Err e, s) \<Rightarrow> (Ok (Inl e), s)
      | (Panic, s) \<Rightarrow> (Panic, s)
      | (Ok _, s) \<Rightarrow>
          (case spad_frame_drop s of s \<Rightarrow>
           case block s of
             (Ok (Inr x), s) \<Rightarrow>
               (case spad_pop_frame lib al s of
                  (Panic, s) \<Rightarrow> (Panic, s) | (_, s) \<Rightarrow> (Ok (Inr x), s))
           | (r, s) \<Rightarrow> (r, s)))"

section \<open>Laws of the shared pad\<close>

text \<open>A pad, and the size up to which a prepared allocation may be published.\<close>

record spad_view = pad +
  sv_prepared :: "nat option"

locale shared_pad =
  fixes lib :: "'s spad_lib" and view :: "nat \<Rightarrow> 's \<Rightarrow> spad_view option"
  assumes in_frame_law: "view h s = Some a \<Longrightarrow> c_in_frame lib h s \<longleftrightarrow> pd_marks a \<noteq> []"
    and push_law: "view h s = Some a \<Longrightarrow> c_frame_free lib h s \<noteq> 0 \<Longrightarrow>
      \<exists>s'. c_push lib h s = Some ((), s') \<and>
        view h s' = Some (a\<lparr>pd_marks := pd_top a # pd_marks a, sv_prepared := None\<rparr>) \<and> (\<forall>g. g \<noteq> h \<longrightarrow> view g s' = view g s)"
    and pop_law: "view h s = Some a \<Longrightarrow> pd_marks a = m # ms \<Longrightarrow>
      \<exists>s'. c_pop lib h s = Some ((), s') \<and>
        view h s' = Some (a\<lparr>pd_top := m, pd_marks := ms, sv_prepared := None\<rparr>) \<and> (\<forall>g. g \<noteq> h \<longrightarrow> view g s' = view g s)"
    and alloc_law: "view h s = Some a \<Longrightarrow> pd_marks a \<noteq> [] \<Longrightarrow> 0 < n \<Longrightarrow> n \<le> c_alloc_max lib h al s \<Longrightarrow> al = 0 \<or> is_power_of_two al \<Longrightarrow>
      \<exists>p s'. c_spad_alloc lib h al n s = Some (p, s') \<and> pd_top a \<le> p \<and> p + n \<le> pd_stop a \<and> (0 < al \<longrightarrow> al dvd p) \<and> p \<noteq> 0 \<and>
        view h s' = Some (a\<lparr>pd_top := p + n, sv_prepared := None\<rparr>) \<and> (\<forall>g. g \<noteq> h \<longrightarrow> view g s' = view g s)"
    and prepare_law: "view h s = Some a \<Longrightarrow> pd_marks a \<noteq> [] \<Longrightarrow> 0 < n \<Longrightarrow> n \<le> c_alloc_max lib h al s \<Longrightarrow> al = 0 \<or> is_power_of_two al \<Longrightarrow>
      \<exists>p s'. c_prepare lib h al n s = Some (p, s') \<and> pd_top a \<le> p \<and> p + n \<le> pd_stop a \<and> (0 < al \<longrightarrow> al dvd p) \<and> p \<noteq> 0 \<and>
        view h s' = Some (a\<lparr>pd_top := p, sv_prepared := Some n\<rparr>) \<and> (\<forall>g. g \<noteq> h \<longrightarrow> view g s' = view g s)"
    and publish_law: "view h s = Some a \<Longrightarrow> sv_prepared a = Some m \<Longrightarrow> n \<le> m \<Longrightarrow>
      \<exists>s'. c_publish lib h n s = Some ((), s') \<and>
        view h s' = Some (a\<lparr>pd_top := pd_top a + n, sv_prepared := None\<rparr>) \<and> (\<forall>g. g \<noteq> h \<longrightarrow> view g s' = view g s)"
    and reset_law: "view h s = Some a \<Longrightarrow>
      \<exists>s'. c_reset lib h s = Some ((), s') \<and>
        view h s' = Some (a\<lparr>pd_top := pd_start a, pd_marks := [], sv_prepared := None\<rparr>) \<and> (\<forall>g. g \<noteq> h \<longrightarrow> view g s' = view g s)"

section \<open>Sequences of operations\<close>

text \<open>
  Calls in any order, with the allocations of each open frame recorded beside the state, newest frame first. A
  dynamic allocation is a \<open>prepare_alloc\<close> and, when it succeeds, a \<open>publish_alloc\<close>.
\<close>

datatype spad_op = OpPush | OpPop | OpAlloc nat nat | OpDynamic nat nat nat | OpReset

type_synonym 's spad_trace = "spad_allocation list list \<times> 's"

fun note_alloc :: "spad_allocation \<Rightarrow> spad_allocation list list \<Rightarrow> spad_allocation list list" where
  "note_alloc x (xs # fs) = (xs @ [x]) # fs"
| "note_alloc x [] = []"

fun spad_step :: "'s spad_lib \<Rightarrow> spad_allocator \<Rightarrow> spad_op \<Rightarrow> 's spad_trace \<Rightarrow> (unit, 's spad_trace) spad_call" where
  "spad_step lib al OpPush (fs, s) =
     (case spad_push_frame lib al s of (r, s) \<Rightarrow> (r, if r = Ok () then [] # fs else fs, s))"
| "spad_step lib al OpPop (fs, s) =
     (case spad_pop_frame lib al s of (r, s) \<Rightarrow> (r, if r = Ok () then tl fs else fs, s))"
| "spad_step lib al (OpAlloc n k) (fs, s) =
     (case spad_allocate lib al n k s of
        (Ok x, s) \<Rightarrow> (Ok (), note_alloc x fs, s) | (Err e, s) \<Rightarrow> (Err e, fs, s) | (Panic, s) \<Rightarrow> (Panic, fs, s))"
| "spad_step lib al (OpDynamic k m n) (fs, s) =
     (case spad_prepare_alloc lib al k m s of
        (Ok d, s) \<Rightarrow>
          (case spad_publish_alloc lib al n s of
             (r, s) \<Rightarrow> (r, if r = Ok () then note_alloc \<lparr>sa_ptr = sd_start_ptr d, sa_size = n\<rparr> fs else fs, s))
      | (Err e, s) \<Rightarrow> (Err e, fs, s) | (Panic, s) \<Rightarrow> (Panic, fs, s))"
| "spad_step lib al OpReset (fs, s) =
     (case spad_reset lib al s of (r, s) \<Rightarrow> (r, if r = Ok () then [] else fs, s))"

text \<open>An error is an answer, after which the caller goes on; \<open>Panic\<close> ends the run.\<close>

fun spad_run :: "'s spad_lib \<Rightarrow> spad_allocator \<Rightarrow> spad_op list \<Rightarrow> 's spad_trace \<Rightarrow> 's spad_trace option" where
  "spad_run lib al [] st = Some st"
| "spad_run lib al (p # ps) st =
     (case spad_step lib al p st of (Panic, st) \<Rightarrow> None | (_, st) \<Rightarrow> spad_run lib al ps st)"

text \<open>The only duty of the caller: not to publish more than was prepared.\<close>

fun op_ok :: "spad_op \<Rightarrow> bool" where
  "op_ok (OpDynamic k m n) \<longleftrightarrow> n \<le> m"
| "op_ok _ \<longleftrightarrow> True"

text \<open>Allocations of a frame lie between its mark and the next frame's, those of the newest below the top.\<close>

fun frames_ok :: "nat \<Rightarrow> nat list \<Rightarrow> spad_allocation list list \<Rightarrow> nat \<Rightarrow> bool" where
  "frames_ok start [] [] t \<longleftrightarrow> start \<le> t"
| "frames_ok start (m # ms) (xs # fs) t \<longleftrightarrow> laid_out m xs t \<and> frames_ok start ms fs m"
| "frames_ok start _ _ t \<longleftrightarrow> False"

lemma frames_ok_laid_out: "frames_ok start ms fs t \<Longrightarrow> laid_out start (concat (rev fs)) t"
  by (induction start ms fs t rule: frames_ok.induct) (auto intro: laid_out_append)

lemma frames_ok_length: "frames_ok start ms fs t \<Longrightarrow> length ms = length fs"
  by (induction start ms fs t rule: frames_ok.induct) auto

lemma frames_ok_Nil_iff: "frames_ok start ms fs t \<Longrightarrow> ms = [] \<longleftrightarrow> fs = []"
  by (induction start ms fs t rule: frames_ok.induct) auto

lemma laid_out_snoc: "laid_out lo xs hi \<Longrightarrow> hi \<le> sa_ptr x \<Longrightarrow> laid_out lo (xs @ [x]) (sa_ptr x + sa_size x)"
  by (rule laid_out_append) auto

lemma frames_ok_note:
  assumes "frames_ok start ms fs t" and "ms \<noteq> []" and "t \<le> sa_ptr x"
  shows "frames_ok start ms (note_alloc x fs) (sa_ptr x + sa_size x)"
  using assms by (cases "(start, ms, fs, t)" rule: frames_ok.cases) (auto intro: laid_out_snoc)

lemma frames_ok_start: "frames_ok start ms fs t \<Longrightarrow> start \<le> t"
  using frames_ok_laid_out laid_out_le by blast

context shared_pad
begin

text \<open>The pad agrees with the recorded allocations.\<close>

definition agrees :: "nat \<Rightarrow> nat \<Rightarrow> nat \<Rightarrow> 's spad_trace \<Rightarrow> bool" where
  "agrees h start stop st \<longleftrightarrow> (\<exists>a. view h (snd st) = Some a \<and> pd_start a = start \<and> pd_stop a = stop \<and>
     pd_top a \<le> stop \<and> frames_ok start (pd_marks a) (fst st) (pd_top a))"

lemma step_agrees:
  assumes "agrees (sp_spad al) start stop st" and "op_ok p" and "spad_step lib al p st = (r, st')"
  shows "r \<noteq> Panic \<and> agrees (sp_spad al) start stop st' \<and> (\<forall>g. g \<noteq> sp_spad al \<longrightarrow> view g (snd st') = view g (snd st))"
proof -
  obtain fs s where st: "st = (fs, s)" by fastforce
  obtain a where a: "view (sp_spad al) s = Some a" "pd_start a = start" "pd_stop a = stop" "pd_top a \<le> stop"
      "frames_ok start (pd_marks a) fs (pd_top a)"
    using assms(1) by (auto simp: agrees_def st)
  show ?thesis
  proof (cases p)
    case OpPush
    then show ?thesis using assms push_law [OF a(1)] a st
      by (cases "c_frame_free lib (sp_spad al) s = 0") (auto simp: spad_push_frame_def agrees_def)
  next
    case OpPop
    show ?thesis
    proof (cases "pd_marks a")
      case Nil
      then show ?thesis using OpPop assms a st in_frame_law [OF a(1)] by (auto simp: spad_pop_frame_def)
    next
      case (Cons m ms)
      then obtain xs gs where fs: "fs = xs # gs" using a(5) by (cases fs) auto
      have "m \<le> pd_top a" using a(5) Cons fs laid_out_le by auto
      then show ?thesis using OpPop assms a st Cons fs pop_law [OF a(1) Cons] in_frame_law [OF a(1)]
        by (auto simp: spad_pop_frame_def agrees_def)
    qed
  next
    case (OpAlloc n k)
    show ?thesis
    proof (cases "n \<noteq> 0 \<and> (k = 0 \<or> is_power_of_two k) \<and> pd_marks a \<noteq> [] \<and> n \<le> c_alloc_max lib (sp_spad al) k s")
      case True
      then obtain q s' where q: "c_spad_alloc lib (sp_spad al) k n s = Some (q, s')" "pd_top a \<le> q" "q + n \<le> pd_stop a" "q \<noteq> 0"
          "view (sp_spad al) s' = Some (a\<lparr>pd_top := q + n, sv_prepared := None\<rparr>)"
          "\<forall>g. g \<noteq> sp_spad al \<longrightarrow> view g s' = view g s"
        using alloc_law [OF a(1), of n k] by blast
      have "frames_ok start (pd_marks a) (note_alloc \<lparr>sa_ptr = q, sa_size = n\<rparr> fs) (q + n)"
        using frames_ok_note [OF a(5), of "\<lparr>sa_ptr = q, sa_size = n\<rparr>"] True q(2) by simp
      then show ?thesis using assms OpAlloc True q a st in_frame_law [OF a(1)]
        by (auto simp: spad_allocate_def agrees_def)
    next
      case False
      then have "\<exists>e. spad_allocate lib al n k s = (Err e, s)" using in_frame_law [OF a(1)] by (auto simp: spad_allocate_def)
      then show ?thesis using assms OpAlloc st by auto
    qed
  next
    case (OpDynamic k m n)
    show ?thesis
    proof (cases "m \<noteq> 0 \<and> (k = 0 \<or> is_power_of_two k) \<and> pd_marks a \<noteq> [] \<and> m \<le> c_alloc_max lib (sp_spad al) k s")
      case True
      then obtain q s' where q: "c_prepare lib (sp_spad al) k m s = Some (q, s')" "pd_top a \<le> q" "q + m \<le> pd_stop a" "q \<noteq> 0"
          "view (sp_spad al) s' = Some (a\<lparr>pd_top := q, sv_prepared := Some m\<rparr>)"
          "\<forall>g. g \<noteq> sp_spad al \<longrightarrow> view g s' = view g s"
        using prepare_law [OF a(1), of m k] by blast
      obtain s'' where p: "c_publish lib (sp_spad al) n s' = Some ((), s'')"
          "view (sp_spad al) s'' = Some (a\<lparr>pd_top := q + n, sv_prepared := None\<rparr>)"
          "\<forall>g. g \<noteq> sp_spad al \<longrightarrow> view g s'' = view g s'"
        using publish_law [OF q(5), of m n] assms(2) OpDynamic by auto
      have "frames_ok start (pd_marks a) (note_alloc \<lparr>sa_ptr = q, sa_size = n\<rparr> fs) (q + n)"
        using frames_ok_note [OF a(5), of "\<lparr>sa_ptr = q, sa_size = n\<rparr>"] True q(2) by simp
      then show ?thesis using assms OpDynamic True q p a st in_frame_law [OF a(1)]
        by (auto simp: spad_prepare_alloc_def spad_publish_alloc_def agrees_def)
    next
      case False
      then have "\<exists>e. spad_prepare_alloc lib al k m s = (Err e, s)" using in_frame_law [OF a(1)] by (auto simp: spad_prepare_alloc_def)
      then show ?thesis using assms OpDynamic st by auto
    qed
  next
    case OpReset
    have "start \<le> stop" using frames_ok_start [OF a(5)] a(4) by simp
    then show ?thesis using OpReset assms reset_law [OF a(1)] a st by (auto simp: spad_reset_def agrees_def)
  qed
qed

lemma run_agrees:
  assumes "agrees (sp_spad al) start stop st" and "\<And>p. p \<in> set ps \<Longrightarrow> op_ok p"
  shows "\<exists>st'. spad_run lib al ps st = Some st' \<and> agrees (sp_spad al) start stop st' \<and>
    (\<forall>g. g \<noteq> sp_spad al \<longrightarrow> view g (snd st') = view g (snd st))"
  using assms
proof (induction ps arbitrary: st)
  case (Cons p ps)
  obtain r st1 where r: "spad_step lib al p st = (r, st1)" by (cases "spad_step lib al p st") auto
  have s: "r \<noteq> Panic" "agrees (sp_spad al) start stop st1" "\<forall>g. g \<noteq> sp_spad al \<longrightarrow> view g (snd st1) = view g (snd st)"
    using step_agrees [OF Cons.prems(1) _ r] Cons.prems(2) [of p] by auto
  obtain st2 where "spad_run lib al ps st1 = Some st2" "agrees (sp_spad al) start stop st2"
      "\<forall>g. g \<noteq> sp_spad al \<longrightarrow> view g (snd st2) = view g (snd st1)"
    using Cons.IH [OF s(2)] Cons.prems(2) by auto
  then show ?case using r s by (cases r) auto
qed simp

text \<open>The guard of a frame does not close it.\<close>

lemma guard_keeps_frame:
  assumes "view (sp_spad al) s = Some a" and "spad_push_frame lib al s = (Ok (), s')"
  shows "\<exists>b. view (sp_spad al) (spad_frame_drop s') = Some b \<and> length (pd_marks b) = Suc (length (pd_marks a))"
  using assms push_law [OF assms(1)] by (auto simp: spad_push_frame_def spad_frame_drop_def split: if_splits)

end

section \<open>A shared pad that keeps the laws\<close>

type_synonym pads = "nat \<Rightarrow> spad_view option"

definition ref_upd :: "nat \<Rightarrow> (spad_view \<Rightarrow> 'x \<times> spad_view) \<Rightarrow> (spad_view \<Rightarrow> bool) \<Rightarrow> pads \<Rightarrow> ('x \<times> pads) option" where
  "ref_upd h f ok s =
     (case s h of Some a \<Rightarrow> if ok a then Some (fst (f a), s(h \<mapsto> snd (f a))) else None | None \<Rightarrow> None)"

definition ref_get :: "nat \<Rightarrow> (spad_view \<Rightarrow> 'x) \<Rightarrow> 'x \<Rightarrow> pads \<Rightarrow> 'x" where
  "ref_get h f d s = (case s h of Some a \<Rightarrow> f a | None \<Rightarrow> d)"

definition unit_align :: "nat \<Rightarrow> nat" where
  "unit_align al = (if al = 0 then 8 else al)"

definition room :: "nat \<Rightarrow> spad_view \<Rightarrow> nat" where
  "room al a = pd_stop a - ref_align (unit_align al) (pd_top a)"

text \<open>Every address is at least 1, so that no allocation is null; 128 frames.\<close>

definition ref_spad :: "pads spad_lib" where
  "ref_spad = \<lparr>c_align = 128, c_footprint = (\<lambda>n. n + 1152), c_mem_max_max = (\<lambda>f. f - 1152),
     c_new = (\<lambda>p n s. (p, s(p \<mapsto> \<lparr>pd_start = p + 1, pd_top = p + 1, pd_stop = p + 1 + n, pd_marks = [], sv_prepared = None\<rparr>))),
     c_join = (\<lambda>p s. (if s p = None then 0 else p, s)), c_leave = Pair, c_delete = (\<lambda>p s. (p, s(p := None))),
     c_frame_free = (\<lambda>h. ref_get h (\<lambda>a. 128 - length (pd_marks a)) 0),
     c_in_frame = (\<lambda>h. ref_get h (\<lambda>a. pd_marks a \<noteq> []) False),
     c_push = (\<lambda>h. ref_upd h (\<lambda>a. ((), a\<lparr>pd_marks := pd_top a # pd_marks a, sv_prepared := None\<rparr>)) (\<lambda>_. True)),
     c_pop = (\<lambda>h. ref_upd h (\<lambda>a. ((), a\<lparr>pd_top := hd (pd_marks a), pd_marks := tl (pd_marks a), sv_prepared := None\<rparr>)) (\<lambda>a. pd_marks a \<noteq> [])),
     c_alloc_max = (\<lambda>h al. ref_get h (room al) 0),
     c_spad_alloc = (\<lambda>h al n. ref_upd h (\<lambda>a. let p = ref_align (unit_align al) (pd_top a) in (p, a\<lparr>pd_top := p + n, sv_prepared := None\<rparr>))
       (\<lambda>a. ref_align (unit_align al) (pd_top a) + n \<le> pd_stop a)),
     c_prepare = (\<lambda>h al n. ref_upd h (\<lambda>a. let p = ref_align (unit_align al) (pd_top a) in (p, a\<lparr>pd_top := p, sv_prepared := Some n\<rparr>))
       (\<lambda>a. ref_align (unit_align al) (pd_top a) + n \<le> pd_stop a)),
     c_publish = (\<lambda>h n. ref_upd h (\<lambda>a. ((), a\<lparr>pd_top := pd_top a + n, sv_prepared := None\<rparr>))
       (\<lambda>a. case sv_prepared a of Some m \<Rightarrow> n \<le> m | None \<Rightarrow> False)),
     c_cancel = (\<lambda>h. ref_upd h (\<lambda>a. ((), a\<lparr>sv_prepared := None\<rparr>)) (\<lambda>_. True)),
     c_frame_lo = (\<lambda>h. ref_get h (\<lambda>a. hd (pd_marks a)) 0), c_frame_hi = (\<lambda>h. ref_get h pd_top 0),
     c_trim = (\<lambda>h e. ref_upd h (\<lambda>a. ((), a\<lparr>pd_top := e, sv_prepared := None\<rparr>)) (\<lambda>_. True)),
     c_reset = (\<lambda>h. ref_upd h (\<lambda>a. ((), a\<lparr>pd_top := pd_start a, pd_marks := [], sv_prepared := None\<rparr>)) (\<lambda>_. True)),
     c_frame_max = (\<lambda>_ _. 128), c_frame_used = (\<lambda>h. ref_get h (\<lambda>a. length (pd_marks a)) 0),
     c_mem_max = (\<lambda>h. ref_get h (\<lambda>a. pd_stop a - pd_start a) 0), c_mem_used = (\<lambda>h. ref_get h (\<lambda>a. pd_top a - pd_start a) 0),
     c_mem_free = (\<lambda>h. ref_get h (\<lambda>a. pd_stop a - pd_top a) 0)\<rparr>"

text \<open>A pad is seen when its top is above address 0 and inside its region.\<close>

definition ref_spad_view :: "nat \<Rightarrow> pads \<Rightarrow> spad_view option" where
  "ref_spad_view h s = (case s h of
     Some a \<Rightarrow> if 0 < pd_start a \<and> pd_start a \<le> pd_top a \<and> pd_top a \<le> pd_stop a \<and> marks_ok (pd_start a) (pd_marks a) (pd_top a) \<and>
         (\<forall>m. sv_prepared a = Some m \<longrightarrow> pd_top a + m \<le> pd_stop a) then Some a else None
   | None \<Rightarrow> None)"

lemma marks_ok_mono: "marks_ok start ms t \<Longrightarrow> t \<le> u \<Longrightarrow> marks_ok start ms u"
  by (cases ms) auto

lemma marks_ok_start: "marks_ok start ms t \<Longrightarrow> start \<le> t"
  by (induction ms arbitrary: t) fastforce+

lemma ref_spad_viewD:
  "ref_spad_view h s = Some a \<Longrightarrow> s h = Some a \<and> 0 < pd_start a \<and> pd_start a \<le> pd_top a \<and> pd_top a \<le> pd_stop a \<and>
    marks_ok (pd_start a) (pd_marks a) (pd_top a) \<and> (\<forall>m. sv_prepared a = Some m \<longrightarrow> pd_top a + m \<le> pd_stop a)"
  by (auto simp: ref_spad_view_def split: option.splits if_splits)

lemma ref_spad_viewI:
  "s h = Some a \<Longrightarrow> 0 < pd_start a \<Longrightarrow> marks_ok (pd_start a) (pd_marks a) (pd_top a) \<Longrightarrow> pd_top a \<le> pd_stop a \<Longrightarrow>
    (\<And>m. sv_prepared a = Some m \<Longrightarrow> pd_top a + m \<le> pd_stop a) \<Longrightarrow> ref_spad_view h s = Some a"
  using marks_ok_start [of "pd_start a" "pd_marks a" "pd_top a"] by (simp add: ref_spad_view_def)

lemma ref_spad_view_other: "g \<noteq> h \<Longrightarrow> ref_spad_view g (s(h := x)) = ref_spad_view g s"
  by (simp add: ref_spad_view_def)

lemma unit_align_pos: "is_power_of_two al \<or> al = 0 \<Longrightarrow> 0 < unit_align al"
  by (auto simp: unit_align_def is_power_of_two_def)

interpretation ref_spads: shared_pad ref_spad ref_spad_view
proof
  fix h s a assume v: "ref_spad_view h s = Some a"
  note V = ref_spad_viewD [OF v]
  show "c_in_frame ref_spad h s \<longleftrightarrow> pd_marks a \<noteq> []" using V by (simp add: ref_spad_def ref_get_def)
  show "\<exists>s'. c_push ref_spad h s = Some ((), s') \<and>
      ref_spad_view h s' = Some (a\<lparr>pd_marks := pd_top a # pd_marks a, sv_prepared := None\<rparr>) \<and>
      (\<forall>g. g \<noteq> h \<longrightarrow> ref_spad_view g s' = ref_spad_view g s)"
    using V by (auto simp: ref_spad_def ref_upd_def ref_spad_view_other intro!: ref_spad_viewI)
  show "\<exists>s'. c_pop ref_spad h s = Some ((), s') \<and>
      ref_spad_view h s' = Some (a\<lparr>pd_top := m, pd_marks := ms, sv_prepared := None\<rparr>) \<and>
      (\<forall>g. g \<noteq> h \<longrightarrow> ref_spad_view g s' = ref_spad_view g s)" if "pd_marks a = m # ms" for m ms
    using V that by (auto simp: ref_spad_def ref_upd_def ref_spad_view_other intro!: ref_spad_viewI)
  show "\<exists>p s'. c_spad_alloc ref_spad h al n s = Some (p, s') \<and> pd_top a \<le> p \<and> p + n \<le> pd_stop a \<and> (0 < al \<longrightarrow> al dvd p) \<and> p \<noteq> 0 \<and>
      ref_spad_view h s' = Some (a\<lparr>pd_top := p + n, sv_prepared := None\<rparr>) \<and> (\<forall>g. g \<noteq> h \<longrightarrow> ref_spad_view g s' = ref_spad_view g s)"
    if n: "0 < n" "n \<le> c_alloc_max ref_spad h al s" and al: "al = 0 \<or> is_power_of_two al" for n al
  proof -
    let ?p = "ref_align (unit_align al) (pd_top a)"
    have p: "pd_top a \<le> ?p" "unit_align al dvd ?p" using ref_align_ok [OF unit_align_pos] al by blast+
    have "?p + n \<le> pd_stop a" using n V by (simp add: ref_spad_def ref_get_def room_def)
    then show ?thesis using V p marks_ok_mono [of _ _ "pd_top a" "?p + n"]
      by (auto simp: ref_spad_def ref_upd_def ref_spad_view_other Let_def unit_align_def intro!: ref_spad_viewI)
  qed
  show "\<exists>p s'. c_prepare ref_spad h al n s = Some (p, s') \<and> pd_top a \<le> p \<and> p + n \<le> pd_stop a \<and> (0 < al \<longrightarrow> al dvd p) \<and> p \<noteq> 0 \<and>
      ref_spad_view h s' = Some (a\<lparr>pd_top := p, sv_prepared := Some n\<rparr>) \<and> (\<forall>g. g \<noteq> h \<longrightarrow> ref_spad_view g s' = ref_spad_view g s)"
    if n: "0 < n" "n \<le> c_alloc_max ref_spad h al s" and al: "al = 0 \<or> is_power_of_two al" for n al
  proof -
    let ?p = "ref_align (unit_align al) (pd_top a)"
    have p: "pd_top a \<le> ?p" "unit_align al dvd ?p" using ref_align_ok [OF unit_align_pos] al by blast+
    have "?p + n \<le> pd_stop a" using n V by (simp add: ref_spad_def ref_get_def room_def)
    then show ?thesis using V p marks_ok_mono [of _ _ "pd_top a" ?p]
      by (auto simp: ref_spad_def ref_upd_def ref_spad_view_other Let_def unit_align_def intro!: ref_spad_viewI)
  qed
  show "\<exists>s'. c_publish ref_spad h n s = Some ((), s') \<and>
      ref_spad_view h s' = Some (a\<lparr>pd_top := pd_top a + n, sv_prepared := None\<rparr>) \<and> (\<forall>g. g \<noteq> h \<longrightarrow> ref_spad_view g s' = ref_spad_view g s)"
    if "sv_prepared a = Some m" "n \<le> m" for m n
    using V that marks_ok_mono [of _ _ "pd_top a" "pd_top a + n"]
    by (auto simp: ref_spad_def ref_upd_def ref_spad_view_other intro!: ref_spad_viewI)
  show "\<exists>s'. c_reset ref_spad h s = Some ((), s') \<and>
      ref_spad_view h s' = Some (a\<lparr>pd_top := pd_start a, pd_marks := [], sv_prepared := None\<rparr>) \<and>
      (\<forall>g. g \<noteq> h \<longrightarrow> ref_spad_view g s' = ref_spad_view g s)"
    using V by (auto simp: ref_spad_def ref_upd_def ref_spad_view_other intro!: ref_spad_viewI)
qed

section \<open>Properties\<close>

text \<open>C19: Take a shared pad that behaves as documented and any sequence of pushes, pops, allocations, prepared and
  published allocations and resets, in any order and with any sizes, by any of the allocators that
  joined it, where a caller never publishes more than it prepared. No call panics or leaves the contract of
  the pad, whatever errors are returned on the way. At every time the allocations of the frames that are still
  open lie inside the region and are pairwise disjoint, and other pads are not touched.\<close>

theorem spad_live_disjoint:
  assumes "shared_pad lib view" and "view (sp_spad al) s = Some a" and "pd_marks a = []" and "pd_start a \<le> pd_top a"
    and "pd_top a \<le> pd_stop a" and "\<forall>p \<in> set ps. op_ok p"
  shows "\<exists>fs s'. spad_run lib al ps ([], s) = Some (fs, s') \<and>
    (let xs = concat (rev fs) in
      (\<forall>i < length xs. pd_start a \<le> sa_ptr (xs ! i) \<and> sa_ptr (xs ! i) + sa_size (xs ! i) \<le> pd_stop a) \<and>
      (\<forall>j < length xs. \<forall>i < j. sa_ptr (xs ! i) + sa_size (xs ! i) \<le> sa_ptr (xs ! j))) \<and>
    (\<exists>b. view (sp_spad al) s' = Some b \<and> length (pd_marks b) = length fs) \<and>
    (\<forall>g. g \<noteq> sp_spad al \<longrightarrow> view g s' = view g s)"
proof -
  have "shared_pad.agrees view (sp_spad al) (pd_start a) (pd_stop a) ([], s)"
    using assms by (simp add: shared_pad.agrees_def [OF assms(1)])
  from shared_pad.run_agrees [OF assms(1) this, of ps] assms(6) obtain fs s' b where
    r: "spad_run lib al ps ([], s) = Some (fs, s')" "view (sp_spad al) s' = Some b" "pd_start b = pd_start a"
      "pd_stop b = pd_stop a" "pd_top b \<le> pd_stop a" "frames_ok (pd_start a) (pd_marks b) fs (pd_top b)"
      "\<forall>g. g \<noteq> sp_spad al \<longrightarrow> view g s' = view g s"
    by (auto simp: shared_pad.agrees_def [OF assms(1)])
  note L = frames_ok_laid_out [OF r(6)]
  have "length (pd_marks b) = length fs" using frames_ok_length [OF r(6)] .
  then show ?thesis using r(1,2,5,7) laid_out_first [OF L] laid_out_last [OF L] laid_out_disjoint [OF L]
    by (auto simp: Let_def intro: order_trans)
qed

definition ref_pads :: pads where
  "ref_pads = (\<lambda>_. None)(512 \<mapsto> \<lparr>pd_start = 513, pd_top = 513, pd_stop = 1537, pd_marks = [], sv_prepared = None\<rparr>)"

lemma ref_pads_view:
  "ref_spad_view 512 ref_pads = Some \<lparr>pd_start = 513, pd_top = 513, pd_stop = 1537, pd_marks = [], sv_prepared = None\<rparr>"
  by (simp add: ref_spad_view_def ref_pads_def)

text \<open>A run on which an allocation fails for want of space and one is published shorter than it was prepared.\<close>

theorem spad_live_disjoint_witness:
  "\<exists>fs s'. spad_run ref_spad \<lparr>sp_spad = 512\<rparr>
      [OpPush, OpAlloc 100 8, OpPush, OpAlloc 5000 0, OpDynamic 16 64 10, OpPop, OpAlloc 30 3, OpAlloc 30 4] ([], ref_pads) = Some (fs, s') \<and>
    (let xs = concat (rev fs) in
      (\<forall>i < length xs. 513 \<le> sa_ptr (xs ! i) \<and> sa_ptr (xs ! i) + sa_size (xs ! i) \<le> 1537) \<and>
      (\<forall>j < length xs. \<forall>i < j. sa_ptr (xs ! i) + sa_size (xs ! i) \<le> sa_ptr (xs ! j)))"
  using spad_live_disjoint [OF ref_spads.shared_pad_axioms, of "\<lparr>sp_spad = 512\<rparr>" ref_pads _
      "[OpPush, OpAlloc 100 8, OpPush, OpAlloc 5000 0, OpDynamic 16 64 10, OpPop, OpAlloc 30 3, OpAlloc 30 4]"] ref_pads_view
  by fastforce

text \<open>The frame of \<open>spad_scope!\<close> stays open when the block returns early.\<close>

lemma spad_scope_early_return:
  "spad_scope ref_spad \<lparr>sp_spad = 512\<rparr> (\<lambda>s. (Ok (Inl NoFrame :: spad_error + nat), s)) ref_pads =
     (Ok (Inl NoFrame), ref_pads(512 \<mapsto> \<lparr>pd_start = 513, pd_top = 513, pd_stop = 1537, pd_marks = [513], sv_prepared = None\<rparr>))"
  by (simp add: spad_scope_def spad_push_frame_def spad_frame_drop_def ref_spad_def ref_get_def ref_upd_def ref_pads_def)

text \<open>A frame guard that is dropped leaves its frame open.\<close>

lemma managed_frame_stays_open:
  "(case managed_frame_new ref_spad \<lparr>sp_spad = 512\<rparr> ref_pads of (r, s) \<Rightarrow> (r, managed_frame_drop s)) =
     (Ok (), ref_pads(512 \<mapsto> \<lparr>pd_start = 513, pd_top = 513, pd_stop = 1537, pd_marks = [513], sv_prepared = None\<rparr>))"
  by (simp add: managed_frame_new_def managed_frame_drop_def spad_push_frame_def spad_frame_drop_def ref_spad_def ref_get_def ref_upd_def ref_pads_def)

end
