(* ===== verification/Wksp.thy ===== *)
theory Wksp
  imports Scratch Rust_Std
begin

text \<open>
  Workspaces of \<open>util/wksp/fd_wksp/src/lib.rs\<close>: attaching and creating, allocations that free
  themselves, addresses, tags, checkpoints, and the builder. The C workspace is the parameter \<open>wksp_lib\<close>
  over an opaque state of all shared memory. The locale \<open>workspace\<close> states the documented behaviour of the
  allocator: partitions of a data region with a tag each, of which \<open>fd_wksp_free\<close> releases the one that holds
  an address.
\<close>

section \<open>Model\<close>

datatype wksp_error = InvalidInput string | SystemFailure string | MemoryCorruption string | AllocationFailed |
  InvalidAlignment | InvalidSize | InsufficientSpace | InvalidWorkspace | InvalidGlobalAddress | InvalidLocalAddress |
  CreationFailed | JoinFailed | OperationFailed | InvalidTag | CheckpointFailed | RestoreFailed

record alloc_info =
  ai_gaddr_lo :: nat
  ai_gaddr_hi :: nat
  ai_tag :: nat

record wksp_usage =
  us_total_max :: nat
  us_total_cnt :: nat
  us_total_sz :: nat
  us_free_cnt :: nat
  us_free_sz :: nat
  us_used_cnt :: nat
  us_used_sz :: nat

text \<open>
  \<open>c_new_named\<close> and \<open>c_new_anon\<close> take the two arrays with \<open>sub_cnt\<close>. The tag query gives the count and the
  entries it writes, of which there are none when the room is 0. \<open>None\<close> for a tag list is the null pointer.
\<close>

record 's wksp_lib =
  c_attach :: "bytes \<Rightarrow> 's \<Rightarrow> nat \<times> 's"
  c_detach :: "nat \<Rightarrow> 's \<Rightarrow> 's"
  c_new_anon :: "bytes \<Rightarrow> nat \<Rightarrow> nat \<Rightarrow> nat list \<Rightarrow> nat list \<Rightarrow> u32 \<Rightarrow> nat \<Rightarrow> 's \<Rightarrow> nat \<times> 's"
  c_delete_anon :: "nat \<Rightarrow> 's \<Rightarrow> 's"
  c_new_named :: "bytes \<Rightarrow> nat \<Rightarrow> nat \<Rightarrow> nat list \<Rightarrow> nat list \<Rightarrow> nat \<Rightarrow> u32 \<Rightarrow> nat \<Rightarrow> 's \<Rightarrow> int \<times> 's"
  c_wksp_name :: "nat \<Rightarrow> 's \<Rightarrow> bytes"
  c_alloc :: "nat \<Rightarrow> nat \<Rightarrow> nat \<Rightarrow> nat \<Rightarrow> 's \<Rightarrow> nat \<times> 's"
  c_alloc_at_least :: "nat \<Rightarrow> nat \<Rightarrow> nat \<Rightarrow> nat \<Rightarrow> 's \<Rightarrow> (nat \<times> nat \<times> nat) \<times> 's"
  c_free :: "nat \<Rightarrow> nat \<Rightarrow> 's \<Rightarrow> 's"
  c_laddr :: "nat \<Rightarrow> nat \<Rightarrow> 's \<Rightarrow> nat"
  c_gaddr :: "nat \<Rightarrow> nat \<Rightarrow> 's \<Rightarrow> nat"
  c_tag :: "nat \<Rightarrow> nat \<Rightarrow> 's \<Rightarrow> nat"
  c_tag_query :: "nat \<Rightarrow> nat list \<Rightarrow> nat \<Rightarrow> 's \<Rightarrow> nat \<times> alloc_info list"
  c_tag_free :: "nat \<Rightarrow> nat list \<Rightarrow> 's \<Rightarrow> 's"
  c_memset :: "nat \<Rightarrow> nat \<Rightarrow> int \<Rightarrow> 's \<Rightarrow> 's"
  c_wksp_reset :: "nat \<Rightarrow> u32 \<Rightarrow> 's \<Rightarrow> 's"
  c_usage :: "nat \<Rightarrow> nat list option \<Rightarrow> 's \<Rightarrow> wksp_usage"
  c_verify :: "nat \<Rightarrow> 's \<Rightarrow> int"
  c_rebuild :: "nat \<Rightarrow> u32 \<Rightarrow> 's \<Rightarrow> int \<times> 's"
  c_checkpt :: "nat \<Rightarrow> bytes \<Rightarrow> nat \<Rightarrow> int \<Rightarrow> bytes option \<Rightarrow> 's \<Rightarrow> int \<times> 's"
  c_restore :: "nat \<Rightarrow> bytes \<Rightarrow> u32 \<Rightarrow> 's \<Rightarrow> int \<times> 's"

type_synonym ('a, 's) wksp_call = "('a, wksp_error) res \<times> 's"

text \<open>\<open>unreachable!\<close> for the code of success.\<close>

definition convert_error :: "int \<Rightarrow> (wksp_error, wksp_error) res" where
  "convert_error code =
     (if code = 0 then Panic
      else if code = -1 then Ok (InvalidInput ''Invalid parameters'')
      else if code = -2 then Ok (SystemFailure ''System limitation'')
      else if code = -3 then Ok (MemoryCorruption ''Corruption detected'')
      else Ok OperationFailed)"

definition err_of :: "(wksp_error, wksp_error) res \<Rightarrow> ('a, wksp_error) res" where
  "err_of r = (case r of Ok e \<Rightarrow> Err e | Err e \<Rightarrow> Err e | Panic \<Rightarrow> Panic)"

record wksp_allocation =
  wa_wksp :: nat
  wa_gaddr :: nat
  wa_size :: nat
  wa_laddr :: nat

definition allocation_new :: "'s wksp_lib \<Rightarrow> nat \<Rightarrow> nat \<Rightarrow> nat \<Rightarrow> 's \<Rightarrow> (wksp_allocation, 's) wksp_call" where
  "allocation_new lib wksp gaddr sz s =
     (let laddr = c_laddr lib wksp gaddr s
      in if laddr = 0 then (Err InvalidGlobalAddress, s)
         else (Ok \<lparr>wa_wksp = wksp, wa_gaddr = gaddr, wa_size = sz, wa_laddr = laddr\<rparr>, s))"

definition allocation_clear :: "'s wksp_lib \<Rightarrow> wksp_allocation \<Rightarrow> 's \<Rightarrow> 's" where
  "allocation_clear lib x = c_memset lib (wa_wksp x) (wa_gaddr x) 0"

definition allocation_fill :: "'s wksp_lib \<Rightarrow> wksp_allocation \<Rightarrow> u8 \<Rightarrow> 's \<Rightarrow> 's" where
  "allocation_fill lib x v = c_memset lib (wa_wksp x) (wa_gaddr x) (uint v)"

definition allocation_tag :: "'s wksp_lib \<Rightarrow> wksp_allocation \<Rightarrow> 's \<Rightarrow> nat" where
  "allocation_tag lib x = c_tag lib (wa_wksp x) (wa_gaddr x)"

definition allocation_into_raw :: "wksp_allocation \<Rightarrow> nat" where
  "allocation_into_raw x = wa_gaddr x"

definition allocation_drop :: "'s wksp_lib \<Rightarrow> wksp_allocation \<Rightarrow> 's \<Rightarrow> 's" where
  "allocation_drop lib x = c_free lib (wa_wksp x) (wa_gaddr x)"

record wksp =
  ws_handle :: nat
  ws_is_anonymous :: bool

definition wksp_attach :: "'s wksp_lib \<Rightarrow> bytes \<Rightarrow> 's \<Rightarrow> (wksp, 's) wksp_call" where
  "wksp_attach lib name s =
     (case cstring_new name of
        None \<Rightarrow> (Err (InvalidInput ''Invalid name''), s)
      | Some c_name \<Rightarrow>
          (case c_attach lib c_name s of (handle, s) \<Rightarrow>
             if handle = 0 then (Err JoinFailed, s) else (Ok \<lparr>ws_handle = handle, ws_is_anonymous = False\<rparr>, s)))"

definition wksp_new_anonymous ::
  "'s wksp_lib \<Rightarrow> bytes \<Rightarrow> nat \<Rightarrow> nat \<Rightarrow> nat list \<Rightarrow> nat list \<Rightarrow> u32 \<Rightarrow> nat \<Rightarrow> 's \<Rightarrow> (wksp, 's) wksp_call" where
  "wksp_new_anonymous lib name page_sz sub_cnt sub_page_cnt sub_cpu_idx seed opt_part_max s =
     (if length sub_page_cnt \<noteq> sub_cnt \<or> length sub_cpu_idx \<noteq> sub_cnt then
        (Err (InvalidInput ''Mismatched array lengths''), s)
      else case cstring_new name of
             None \<Rightarrow> (Err (InvalidInput ''Invalid name''), s)
           | Some c_name \<Rightarrow>
               (case c_new_anon lib c_name page_sz sub_cnt sub_page_cnt sub_cpu_idx seed opt_part_max s of (handle, s) \<Rightarrow>
                  if handle = 0 then (Err CreationFailed, s)
                  else (Ok \<lparr>ws_handle = handle, ws_is_anonymous = True\<rparr>, s)))"

definition wksp_name :: "'s wksp_lib \<Rightarrow> wksp \<Rightarrow> 's \<Rightarrow> bytes" where
  "wksp_name lib w s = (case from_utf8 (c_wksp_name lib (ws_handle w) s) of Some t \<Rightarrow> t | None \<Rightarrow> ascii ''<invalid>'')"

definition wksp_allocate :: "'s wksp_lib \<Rightarrow> wksp \<Rightarrow> nat \<Rightarrow> nat \<Rightarrow> nat \<Rightarrow> 's \<Rightarrow> (wksp_allocation, 's) wksp_call" where
  "wksp_allocate lib w sz align tag s =
     (if sz = 0 then (Err InvalidSize, s)
      else if tag = 0 then (Err InvalidTag, s)
      else if align > 0 \<and> \<not> is_power_of_two align then (Err InvalidAlignment, s)
      else case c_alloc lib (ws_handle w) align sz tag s of (gaddr, s) \<Rightarrow>
             if gaddr = 0 then (Err AllocationFailed, s) else allocation_new lib (ws_handle w) gaddr sz s)"

definition wksp_allocate_at_least ::
  "'s wksp_lib \<Rightarrow> wksp \<Rightarrow> nat \<Rightarrow> nat \<Rightarrow> nat \<Rightarrow> 's \<Rightarrow> (wksp_allocation \<times> nat \<times> nat, 's) wksp_call" where
  "wksp_allocate_at_least lib w sz align tag s =
     (if sz = 0 then (Err InvalidSize, s)
      else if tag = 0 then (Err InvalidTag, s)
      else if align > 0 \<and> \<not> is_power_of_two align then (Err InvalidAlignment, s)
      else case c_alloc_at_least lib (ws_handle w) align sz tag s of ((gaddr, lo, hi), s) \<Rightarrow>
             if gaddr = 0 then (Err AllocationFailed, s)
             else case allocation_new lib (ws_handle w) gaddr sz s of
                    (Ok x, s) \<Rightarrow> (Ok (x, lo, hi), s) | (Err e, s) \<Rightarrow> (Err e, s) | (Panic, s) \<Rightarrow> (Panic, s))"

definition wksp_free_gaddr :: "'s wksp_lib \<Rightarrow> wksp \<Rightarrow> nat \<Rightarrow> 's \<Rightarrow> 's" where
  "wksp_free_gaddr lib w gaddr = c_free lib (ws_handle w) gaddr"

definition wksp_free :: "'s wksp_lib \<Rightarrow> wksp \<Rightarrow> wksp_allocation \<Rightarrow> 's \<Rightarrow> (unit, 's) wksp_call" where
  "wksp_free lib w x s = (Ok (), wksp_free_gaddr lib w (allocation_into_raw x) s)"

definition gaddr_to_laddr :: "'s wksp_lib \<Rightarrow> wksp \<Rightarrow> nat \<Rightarrow> 's \<Rightarrow> (nat, wksp_error) res" where
  "gaddr_to_laddr lib w gaddr s =
     (let laddr = c_laddr lib (ws_handle w) gaddr s in if laddr = 0 then Err InvalidGlobalAddress else Ok laddr)"

definition laddr_to_gaddr :: "'s wksp_lib \<Rightarrow> wksp \<Rightarrow> nat \<Rightarrow> 's \<Rightarrow> (nat, wksp_error) res" where
  "laddr_to_gaddr lib w laddr s =
     (let gaddr = c_gaddr lib (ws_handle w) laddr s in if gaddr = 0 then Err InvalidLocalAddress else Ok gaddr)"

definition get_tag :: "'s wksp_lib \<Rightarrow> wksp \<Rightarrow> nat \<Rightarrow> 's \<Rightarrow> nat" where
  "get_tag lib w gaddr = c_tag lib (ws_handle w) gaddr"

text \<open>
  Counted first, then filled into a buffer of that many entries, cut to the second count. Entries beyond
  the buffer would be written behind it.
\<close>

definition query_by_tag :: "'s wksp_lib \<Rightarrow> wksp \<Rightarrow> nat list \<Rightarrow> 's \<Rightarrow> (alloc_info list, wksp_error) res" where
  "query_by_tag lib w tags s =
     (if tags = [] then Ok []
      else let count = fst (c_tag_query lib (ws_handle w) tags 0 s)
           in if count = 0 then Ok []
              else let buf = replicate count \<lparr>ai_gaddr_lo = 0, ai_gaddr_hi = 0, ai_tag = 0\<rparr>
                   in case c_tag_query lib (ws_handle w) tags count s of (actual_count, entries) \<Rightarrow>
                        if length entries > count then Panic
                        else Ok (take actual_count (entries @ drop (length entries) buf)))"

definition free_by_tag :: "'s wksp_lib \<Rightarrow> wksp \<Rightarrow> nat list \<Rightarrow> 's \<Rightarrow> 's" where
  "free_by_tag lib w tags s = (if tags \<noteq> [] then c_tag_free lib (ws_handle w) tags s else s)"

definition clear_allocation :: "'s wksp_lib \<Rightarrow> wksp \<Rightarrow> nat \<Rightarrow> 's \<Rightarrow> 's" where
  "clear_allocation lib w gaddr = c_memset lib (ws_handle w) gaddr 0"

definition wksp_reset :: "'s wksp_lib \<Rightarrow> wksp \<Rightarrow> u32 \<Rightarrow> 's \<Rightarrow> 's" where
  "wksp_reset lib w seed = c_wksp_reset lib (ws_handle w) seed"

definition wksp_usage_of :: "'s wksp_lib \<Rightarrow> wksp \<Rightarrow> nat list \<Rightarrow> 's \<Rightarrow> wksp_usage" where
  "wksp_usage_of lib w tags = c_usage lib (ws_handle w) (if tags = [] then None else Some tags)"

definition wksp_verify :: "'s wksp_lib \<Rightarrow> wksp \<Rightarrow> 's \<Rightarrow> (unit, wksp_error) res" where
  "wksp_verify lib w s =
     (let result = c_verify lib (ws_handle w) s in if result \<noteq> 0 then err_of (convert_error result) else Ok ())"

definition wksp_rebuild :: "'s wksp_lib \<Rightarrow> wksp \<Rightarrow> u32 \<Rightarrow> 's \<Rightarrow> (unit, 's) wksp_call" where
  "wksp_rebuild lib w seed s =
     (case c_rebuild lib (ws_handle w) seed s of (result, s) \<Rightarrow>
        (if result \<noteq> 0 then err_of (convert_error result) else Ok (), s))"

definition wksp_checkpoint ::
  "'s wksp_lib \<Rightarrow> wksp \<Rightarrow> bytes \<Rightarrow> nat \<Rightarrow> int \<Rightarrow> bytes option \<Rightarrow> 's \<Rightarrow> (unit, 's) wksp_call" where
  "wksp_checkpoint lib w path mode style user_info s =
     (case cstring_new path of
        None \<Rightarrow> (Err (InvalidInput ''Invalid path''), s)
      | Some c_path \<Rightarrow>
          (let c_info = (case user_info of Some u \<Rightarrow> cstring_new u | None \<Rightarrow> None)
           in case c_checkpt lib (ws_handle w) c_path mode style c_info s of (result, s) \<Rightarrow>
                (if result \<noteq> 0 then Err CheckpointFailed else Ok (), s)))"

definition wksp_restore :: "'s wksp_lib \<Rightarrow> wksp \<Rightarrow> bytes \<Rightarrow> u32 \<Rightarrow> 's \<Rightarrow> (unit, 's) wksp_call" where
  "wksp_restore lib w path seed s =
     (case cstring_new path of
        None \<Rightarrow> (Err (InvalidInput ''Invalid path''), s)
      | Some c_path \<Rightarrow>
          (case c_restore lib (ws_handle w) c_path seed s of (result, s) \<Rightarrow>
             (if result \<noteq> 0 then Err RestoreFailed else Ok (), s)))"

definition wksp_drop :: "'s wksp_lib \<Rightarrow> wksp \<Rightarrow> 's \<Rightarrow> 's" where
  "wksp_drop lib w s = (if ws_is_anonymous w then c_delete_anon lib (ws_handle w) s else c_detach lib (ws_handle w) s)"

section \<open>Builder\<close>

record wksp_builder =
  wb_name :: "bytes option"
  wb_page_size :: nat
  wb_page_counts :: "nat list"
  wb_cpu_indices :: "nat list"
  wb_seed :: u32
  wb_opt_part_max :: nat

definition wksp_builder_new :: wksp_builder where
  "wksp_builder_new = \<lparr>wb_name = None, wb_page_size = 4096, wb_page_counts = [64], wb_cpu_indices = [0], wb_seed = 0,
     wb_opt_part_max = 0\<rparr>"

definition builder_name :: "bytes \<Rightarrow> wksp_builder \<Rightarrow> wksp_builder" where
  "builder_name name b = b\<lparr>wb_name := Some name\<rparr>"

definition builder_page_size :: "nat \<Rightarrow> wksp_builder \<Rightarrow> wksp_builder" where
  "builder_page_size n b = b\<lparr>wb_page_size := n\<rparr>"

definition builder_page_count :: "nat \<Rightarrow> wksp_builder \<Rightarrow> wksp_builder" where
  "builder_page_count count b = b\<lparr>wb_page_counts := [count], wb_cpu_indices := [0]\<rparr>"

definition builder_multi_numa :: "nat list \<Rightarrow> nat list \<Rightarrow> wksp_builder \<Rightarrow> wksp_builder" where
  "builder_multi_numa page_counts cpu_indices b = b\<lparr>wb_page_counts := page_counts, wb_cpu_indices := cpu_indices\<rparr>"

definition builder_cpu_index :: "nat \<Rightarrow> wksp_builder \<Rightarrow> wksp_builder" where
  "builder_cpu_index cpu_idx b =
     (if length (wb_cpu_indices b) = 1 then b\<lparr>wb_cpu_indices := (wb_cpu_indices b)[0 := cpu_idx]\<rparr> else b)"

definition builder_seed :: "u32 \<Rightarrow> wksp_builder \<Rightarrow> wksp_builder" where
  "builder_seed seed b = b\<lparr>wb_seed := seed\<rparr>"

definition builder_part_max :: "nat \<Rightarrow> wksp_builder \<Rightarrow> wksp_builder" where
  "builder_part_max n b = b\<lparr>wb_opt_part_max := n\<rparr>"

definition build_anonymous :: "'s wksp_lib \<Rightarrow> wksp_builder \<Rightarrow> 's \<Rightarrow> (wksp, 's) wksp_call" where
  "build_anonymous lib b s =
     (let name = (case wb_name b of Some n \<Rightarrow> n | None \<Rightarrow> ascii ''anonymous'')
      in wksp_new_anonymous lib name (wb_page_size b) (length (wb_page_counts b)) (wb_page_counts b) (wb_cpu_indices b)
           (wb_seed b) (wb_opt_part_max b) s)"

text \<open>
  The C function reads as many processor indices as there are page counts; \<open>Panic\<close> stands for a read behind the
  vector. The mode is \<open>0o666\<close>.
\<close>

definition build_named :: "'s wksp_lib \<Rightarrow> wksp_builder \<Rightarrow> 's \<Rightarrow> (wksp, 's) wksp_call" where
  "build_named lib b s =
     (case wb_name b of
        None \<Rightarrow> (Err (InvalidInput ''Name required for named workspace''), s)
      | Some name \<Rightarrow>
          (case cstring_new name of
             None \<Rightarrow> (Err (InvalidInput ''Invalid name''), s)
           | Some c_name \<Rightarrow>
               (let sub_cnt = length (wb_page_counts b)
                in if length (wb_cpu_indices b) < sub_cnt then (Panic, s)
                   else case c_new_named lib c_name (wb_page_size b) sub_cnt (wb_page_counts b) (wb_cpu_indices b) 438
                               (wb_seed b) (wb_opt_part_max b) s of (result, s) \<Rightarrow>
                          if result \<noteq> 0 then (err_of (convert_error result), s) else wksp_attach lib name s)))"

section \<open>Laws of a workspace\<close>

text \<open>
  A partition in use is the range and the tag the query reports. A workspace is a data region, the local
  address of its global address 0, the partitions in use and the bytes.
\<close>

record wksp_view =
  wv_lo :: nat
  wv_hi :: nat
  wv_base :: nat
  wv_parts :: "alloc_info set"
  wv_mem :: "nat \<Rightarrow> u8"

definition apart :: "alloc_info \<Rightarrow> alloc_info \<Rightarrow> bool" where
  "apart p q \<longleftrightarrow> ai_gaddr_hi p \<le> ai_gaddr_lo q \<or> ai_gaddr_hi q \<le> ai_gaddr_lo p"

definition in_part :: "nat \<Rightarrow> alloc_info \<Rightarrow> bool" where
  "in_part g p \<longleftrightarrow> ai_gaddr_lo p \<le> g \<and> g < ai_gaddr_hi p"

definition placed :: "wksp_view \<Rightarrow> nat \<Rightarrow> nat \<Rightarrow> nat \<Rightarrow> nat \<Rightarrow> alloc_info \<Rightarrow> bool" where
  "placed a al n tag g p \<longleftrightarrow> ai_gaddr_lo p \<le> g \<and> g + n \<le> ai_gaddr_hi p \<and> wv_lo a \<le> ai_gaddr_lo p \<and>
     ai_gaddr_hi p \<le> wv_hi a \<and> (0 < al \<longrightarrow> al dvd g) \<and> ai_tag p = tag \<and> (\<forall>q \<in> wv_parts a. apart p q)"

lemma apart_sym: "apart p q \<longleftrightarrow> apart q p"
  by (auto simp: apart_def)

lemma apart_in_part: "apart p q \<Longrightarrow> in_part g p \<Longrightarrow> \<not> in_part g q"
  by (auto simp: apart_def in_part_def)

locale workspace =
  fixes lib :: "'s wksp_lib" and view :: "nat \<Rightarrow> 's \<Rightarrow> wksp_view option"
  assumes view_ok: "view h s = Some a \<Longrightarrow> 0 < wv_lo a \<and> finite (wv_parts a) \<and>
      (\<forall>p \<in> wv_parts a. wv_lo a \<le> ai_gaddr_lo p \<and> ai_gaddr_lo p < ai_gaddr_hi p \<and> ai_gaddr_hi p \<le> wv_hi a \<and> 0 < ai_tag p) \<and>
      (\<forall>p \<in> wv_parts a. \<forall>q \<in> wv_parts a. p \<noteq> q \<longrightarrow> apart p q)"
    and alloc_law: "view h s = Some a \<Longrightarrow> 0 < n \<Longrightarrow> 0 < tag \<Longrightarrow> al = 0 \<or> is_power_of_two al \<Longrightarrow>
      c_alloc lib h al n tag s = (g, s') \<Longrightarrow> (\<forall>k. k \<noteq> h \<longrightarrow> view k s' = view k s) \<and>
        (if g = 0 then view h s' = Some a
         else \<exists>p. placed a al n tag g p \<and> view h s' = Some (a\<lparr>wv_parts := insert p (wv_parts a)\<rparr>))"
    and alloc_at_least_law: "view h s = Some a \<Longrightarrow> 0 < n \<Longrightarrow> 0 < tag \<Longrightarrow> al = 0 \<or> is_power_of_two al \<Longrightarrow>
      c_alloc_at_least lib h al n tag s = ((g, lo, hi), s') \<Longrightarrow> (\<forall>k. k \<noteq> h \<longrightarrow> view k s' = view k s) \<and>
        (if g = 0 then view h s' = Some a
         else \<exists>p. placed a al n tag g p \<and> lo = ai_gaddr_lo p \<and> hi = ai_gaddr_hi p \<and>
           view h s' = Some (a\<lparr>wv_parts := insert p (wv_parts a)\<rparr>))"
    and free_law: "view h s = Some a \<Longrightarrow> view h (c_free lib h g s) = Some (a\<lparr>wv_parts := {p \<in> wv_parts a. \<not> in_part g p}\<rparr>)"
    and free_frame: "view h s = Some a \<Longrightarrow> k \<noteq> h \<Longrightarrow> view k (c_free lib h g s) = view k s"
    and memset_law: "view h s = Some a \<Longrightarrow> p \<in> wv_parts a \<Longrightarrow> in_part g p \<Longrightarrow>
      view h (c_memset lib h g c s) = Some (a\<lparr>wv_mem := \<lambda>i. if in_part i p then word_of_int c else wv_mem a i\<rparr>)"
    and memset_frame: "view h s = Some a \<Longrightarrow> k \<noteq> h \<Longrightarrow> view k (c_memset lib h g c s) = view k s"
    and laddr_law: "view h s = Some a \<Longrightarrow> wv_lo a \<le> g \<Longrightarrow> g < wv_hi a \<Longrightarrow> c_laddr lib h g s = wv_base a + g"
    and gaddr_law: "view h s = Some a \<Longrightarrow> wv_lo a \<le> g \<Longrightarrow> g < wv_hi a \<Longrightarrow> c_gaddr lib h (wv_base a + g) s = g"
    and tag_law: "view h s = Some a \<Longrightarrow> p \<in> wv_parts a \<Longrightarrow> in_part g p \<Longrightarrow> c_tag lib h g s = ai_tag p"
    and count_law: "view h s = Some a \<Longrightarrow> fst (c_tag_query lib h tags 0 s) = card {p \<in> wv_parts a. ai_tag p \<in> set tags}"
    and query_law: "view h s = Some a \<Longrightarrow> 0 < m \<Longrightarrow> c_tag_query lib h tags m s = (n, ps) \<Longrightarrow> n = length ps \<and> distinct ps \<and>
      set ps \<subseteq> {p \<in> wv_parts a. ai_tag p \<in> set tags} \<and> n = min m (card {p \<in> wv_parts a. ai_tag p \<in> set tags})"
    and tag_free_law: "view h s = Some a \<Longrightarrow> view h (c_tag_free lib h tags s) = Some (a\<lparr>wv_parts := {p \<in> wv_parts a. ai_tag p \<notin> set tags}\<rparr>)"
    and reset_law: "view h s = Some a \<Longrightarrow> view h (c_wksp_reset lib h seed s) = Some (a\<lparr>wv_parts := {}\<rparr>)"

section \<open>Allocations and their owners\<close>

text \<open>
  Calls in any order by the holder of a workspace. What it owns is a list of allocations, with \<open>True\<close> for those that
  it turned into a raw address. The operations name an entry of the list; \<open>WFreeRaw\<close> passes the raw address to
  \<open>free_gaddr\<close>.
\<close>

datatype wksp_op = WAlloc nat nat nat | WAllocAtLeast nat nat nat | WDrop nat | WFree nat | WIntoRaw nat | WFreeRaw nat |
  WFill nat u8 | WClear nat

type_synonym owned = "bool \<times> wksp_allocation"

definition remove_at :: "nat \<Rightarrow> 'a list \<Rightarrow> 'a list" where
  "remove_at i xs = take i xs @ drop (Suc i) xs"

definition guard_at :: "nat \<Rightarrow> owned list \<Rightarrow> wksp_allocation option" where
  "guard_at i xs = (if i < length xs \<and> \<not> fst (xs ! i) then Some (snd (xs ! i)) else None)"

definition raw_at :: "nat \<Rightarrow> owned list \<Rightarrow> nat option" where
  "raw_at i xs = (if i < length xs \<and> fst (xs ! i) then Some (allocation_into_raw (snd (xs ! i))) else None)"

fun wksp_step :: "'s wksp_lib \<Rightarrow> wksp \<Rightarrow> wksp_op \<Rightarrow> owned list \<times> 's \<Rightarrow> owned list \<times> 's" where
  "wksp_step lib w (WAlloc n al tag) (xs, s) =
     (case wksp_allocate lib w n al tag s of (Ok x, s) \<Rightarrow> (xs @ [(False, x)], s) | (_, s) \<Rightarrow> (xs, s))"
| "wksp_step lib w (WAllocAtLeast n al tag) (xs, s) =
     (case wksp_allocate_at_least lib w n al tag s of (Ok (x, lo, hi), s) \<Rightarrow> (xs @ [(False, x)], s) | (_, s) \<Rightarrow> (xs, s))"
| "wksp_step lib w (WDrop i) (xs, s) =
     (case guard_at i xs of Some x \<Rightarrow> (remove_at i xs, allocation_drop lib x s) | None \<Rightarrow> (xs, s))"
| "wksp_step lib w (WFree i) (xs, s) =
     (case guard_at i xs of Some x \<Rightarrow> (remove_at i xs, snd (wksp_free lib w x s)) | None \<Rightarrow> (xs, s))"
| "wksp_step lib w (WIntoRaw i) (xs, s) =
     (case guard_at i xs of Some x \<Rightarrow> (xs[i := (True, x)], s) | None \<Rightarrow> (xs, s))"
| "wksp_step lib w (WFreeRaw i) (xs, s) =
     (case raw_at i xs of Some g \<Rightarrow> (remove_at i xs, wksp_free_gaddr lib w g s) | None \<Rightarrow> (xs, s))"
| "wksp_step lib w (WFill i v) (xs, s) =
     (case guard_at i xs of Some x \<Rightarrow> (xs, allocation_fill lib x v s) | None \<Rightarrow> (xs, s))"
| "wksp_step lib w (WClear i) (xs, s) =
     (case guard_at i xs of Some x \<Rightarrow> (xs, allocation_clear lib x s) | None \<Rightarrow> (xs, s))"

definition wksp_run :: "'s wksp_lib \<Rightarrow> wksp \<Rightarrow> wksp_op list \<Rightarrow> owned list \<times> 's \<Rightarrow> owned list \<times> 's" where
  "wksp_run lib w = fold (wksp_step lib w)"

lemma remove_at_split: "i < length xs \<Longrightarrow> xs = take i xs @ xs ! i # drop (Suc i) xs"
  by (rule id_take_nth_drop)

lemma list_all2_remove_at: "list_all2 P xs ys \<Longrightarrow> list_all2 P (remove_at i xs) (remove_at i ys)"
  by (simp add: remove_at_def list_all2_appendI list_all2_takeI list_all2_dropI)

lemma map_remove_at: "map f (remove_at i xs) = remove_at i (map f xs)"
  by (simp add: remove_at_def take_map drop_map)

text \<open>Removing one of several partitions that are apart, by an address in it.\<close>

lemma free_one:
  assumes "sorted_wrt apart ps" and "i < length ps" and "in_part g (ps ! i)" and "\<forall>p \<in> set ps. \<forall>q \<in> Q. apart p q"
  shows "{p \<in> Q \<union> set ps. \<not> in_part g p} = Q \<union> set (remove_at i ps)" and "sorted_wrt apart (remove_at i ps)"
    and "set (remove_at i ps) \<subseteq> set ps"
proof -
  let ?a = "take i ps" and ?b = "drop (Suc i) ps"
  have s: "ps = ?a @ ps ! i # ?b" using assms(2) by (rule id_take_nth_drop)
  have w: "sorted_wrt apart (?a @ ps ! i # ?b)" using assms(1) s by simp
  have o: "\<not> in_part g p" if "p \<in> set ?a \<union> set ?b" for p
    using w that apart_in_part [OF _ assms(3)] apart_sym by (auto simp: sorted_wrt_append)
  have q: "\<not> in_part g q" if "q \<in> Q" for q using assms(2,4) that apart_in_part [OF _ assms(3)] by simp
  have e: "set ps = set ?a \<union> set ?b \<union> {ps ! i}" by (subst s) auto
  show "{p \<in> Q \<union> set ps. \<not> in_part g p} = Q \<union> set (remove_at i ps)"
    using o q assms(3) e by (auto simp: remove_at_def)
  show "sorted_wrt apart (remove_at i ps)" using w by (auto simp: remove_at_def sorted_wrt_append)
  show "set (remove_at i ps) \<subseteq> set ps" using e by (auto simp: remove_at_def)
qed

definition holds :: "nat \<Rightarrow> nat \<Rightarrow> wksp_allocation \<Rightarrow> alloc_info \<Rightarrow> bool" where
  "holds h base x p \<longleftrightarrow> wa_wksp x = h \<and> ai_gaddr_lo p \<le> wa_gaddr x \<and> 0 < wa_size x \<and> wa_gaddr x + wa_size x \<le> ai_gaddr_hi p \<and>
     wa_laddr x = base + wa_gaddr x"

lemma holds_in_part: "holds h base x p \<Longrightarrow> in_part (wa_gaddr x) p"
  by (auto simp: holds_def in_part_def)

context workspace
begin

text \<open>The partitions in use are those there were at the start and one for each allocation owned.\<close>

definition owns :: "nat \<Rightarrow> wksp_view \<Rightarrow> owned list \<times> 's \<Rightarrow> bool" where
  "owns h a st \<longleftrightarrow> (\<exists>b ps. view h (snd st) = Some b \<and> wv_lo b = wv_lo a \<and> wv_hi b = wv_hi a \<and> wv_base b = wv_base a \<and>
     wv_parts b = wv_parts a \<union> set ps \<and> list_all2 (holds h (wv_base a)) (map snd (fst st)) ps \<and> sorted_wrt apart ps \<and>
     (\<forall>p \<in> set ps. \<forall>q \<in> wv_parts a. apart p q) \<and> (\<forall>q \<in> wv_parts a. \<forall>i. in_part i q \<longrightarrow> wv_mem b i = wv_mem a i))"

lemma ownsE:
  assumes "owns h a (xs, s)"
  obtains b ps where "view h s = Some b" and "wv_lo b = wv_lo a" and "wv_hi b = wv_hi a" and "wv_base b = wv_base a"
    and "wv_parts b = wv_parts a \<union> set ps" and "list_all2 (holds h (wv_base a)) (map snd xs) ps" and "sorted_wrt apart ps"
    and "\<forall>p \<in> set ps. \<forall>q \<in> wv_parts a. apart p q" and "\<forall>q \<in> wv_parts a. \<forall>i. in_part i q \<longrightarrow> wv_mem b i = wv_mem a i"
  using assms by (auto simp: owns_def)

lemma owns_alloc:
  assumes "owns h a (xs, s)" and "view h s = Some b" and "0 < n" and "placed b al n tag g p" and "g \<noteq> 0"
    and "view h s' = Some (b\<lparr>wv_parts := insert p (wv_parts b)\<rparr>)"
  shows "\<exists>x. allocation_new lib h g n s' = (Ok x, s') \<and> owns h a (xs @ [(False, x)], s')"
proof -
  let ?x = "\<lparr>wa_wksp = h, wa_gaddr = g, wa_size = n, wa_laddr = wv_base a + g\<rparr>"
  obtain ps where o: "wv_lo b = wv_lo a" "wv_hi b = wv_hi a" "wv_base b = wv_base a"
      "wv_parts b = wv_parts a \<union> set ps" "list_all2 (holds h (wv_base a)) (map snd xs) ps" "sorted_wrt apart ps"
      "\<forall>p \<in> set ps. \<forall>q \<in> wv_parts a. apart p q" "\<forall>q \<in> wv_parts a. \<forall>i. in_part i q \<longrightarrow> wv_mem b i = wv_mem a i"
    using assms(2) by (auto intro: ownsE [OF assms(1)])
  have "c_laddr lib h g s' = wv_base a + g"
    using laddr_law [OF assms(6), of g] assms(3,4) o(1-3) by (auto simp: placed_def)
  then have 1: "allocation_new lib h g n s' = (Ok ?x, s')" using assms(5) by (simp add: allocation_new_def)
  have "holds h (wv_base a) ?x p" using assms(3,4) by (simp add: holds_def placed_def)
  moreover have "\<forall>q \<in> wv_parts b. apart p q" "\<forall>q \<in> wv_parts b. apart q p" using assms(4) by (auto simp: placed_def apart_sym)
  ultimately have "owns h a (xs @ [(False, ?x)], s')"
    unfolding owns_def using assms(6) o
    by (intro exI [of _ "b\<lparr>wv_parts := insert p (wv_parts b)\<rparr>"] exI [of _ "ps @ [p]"])
      (auto simp: sorted_wrt_append list_all2_appendI)
  then show ?thesis using 1 by blast
qed

lemma owns_free:
  assumes "owns h a (xs, s)" and "i < length xs"
  shows "owns h a (remove_at i xs, c_free lib h (wa_gaddr (snd (xs ! i))) s)"
    and "k \<noteq> h \<Longrightarrow> view k (c_free lib h g s) = view k s"
proof -
  from assms(1) show "owns h a (remove_at i xs, c_free lib h (wa_gaddr (snd (xs ! i))) s)"
  proof (elim ownsE)
    fix b ps assume o: "view h s = Some b" "wv_lo b = wv_lo a" "wv_hi b = wv_hi a" "wv_base b = wv_base a"
      "wv_parts b = wv_parts a \<union> set ps" "list_all2 (holds h (wv_base a)) (map snd xs) ps" "sorted_wrt apart ps"
      "\<forall>p \<in> set ps. \<forall>q \<in> wv_parts a. apart p q" "\<forall>q \<in> wv_parts a. \<forall>i. in_part i q \<longrightarrow> wv_mem b i = wv_mem a i"
    have i: "i < length ps" using o(6) assms(2) by (auto dest: list_all2_lengthD)
    have g: "in_part (wa_gaddr (snd (xs ! i))) (ps ! i)"
      using list_all2_nthD [OF o(6), of i] assms(2) holds_in_part by auto
    note F = free_one [OF o(7) i g o(8)]
    note v = free_law [OF o(1), of "wa_gaddr (snd (xs ! i))"]
    then show ?thesis unfolding owns_def using o(2-4,8,9) F list_all2_remove_at [OF o(6), of i]
      by (intro exI [of _ "b\<lparr>wv_parts := {p \<in> wv_parts b. \<not> in_part (wa_gaddr (snd (xs ! i))) p}\<rparr>"] exI [of _ "remove_at i ps"])
        (auto simp: o(5) map_remove_at)
  qed
  show "view k (c_free lib h g s) = view k s" if "k \<noteq> h"
    using that assms(1) free_frame by (elim ownsE) blast
qed

lemma owns_memset:
  assumes "owns h a (xs, s)" and "i < length xs"
  shows "owns h a (xs, c_memset lib h (wa_gaddr (snd (xs ! i))) c s)"
    and "k \<noteq> h \<Longrightarrow> view k (c_memset lib h g c s) = view k s"
proof -
  from assms(1) show "owns h a (xs, c_memset lib h (wa_gaddr (snd (xs ! i))) c s)"
  proof (elim ownsE)
    fix b ps assume o: "view h s = Some b" "wv_lo b = wv_lo a" "wv_hi b = wv_hi a" "wv_base b = wv_base a"
      "wv_parts b = wv_parts a \<union> set ps" "list_all2 (holds h (wv_base a)) (map snd xs) ps" "sorted_wrt apart ps"
      "\<forall>p \<in> set ps. \<forall>q \<in> wv_parts a. apart p q" "\<forall>q \<in> wv_parts a. \<forall>i. in_part i q \<longrightarrow> wv_mem b i = wv_mem a i"
    have i: "i < length ps" using o(6) assms(2) by (auto dest: list_all2_lengthD)
    have g: "in_part (wa_gaddr (snd (xs ! i))) (ps ! i)"
      using list_all2_nthD [OF o(6), of i] assms(2) holds_in_part by auto
    have p: "ps ! i \<in> wv_parts b" using o(5) i by simp
    have m: "\<not> in_part j (ps ! i)" if "q \<in> wv_parts a" "in_part j q" for q j
      using o(8) i that apart_in_part [of "ps ! i" q j] by auto
    show ?thesis unfolding owns_def using o m memset_law [OF o(1) p g, of c]
      by (intro exI [of _ "b\<lparr>wv_mem := \<lambda>j. if in_part j (ps ! i) then word_of_int c else wv_mem b j\<rparr>"] exI [of _ ps]) auto
  qed
  show "view k (c_memset lib h g c s) = view k s" if "k \<noteq> h"
    using that assms(1) memset_frame by (elim ownsE) blast
qed

lemma owns_handle: "owns h a (xs, s) \<Longrightarrow> i < length xs \<Longrightarrow> wa_wksp (snd (xs ! i)) = h"
  by (elim ownsE) (auto simp: holds_def list_all2_conv_all_nth)

lemma owns_update: "owns h a (xs, s) \<Longrightarrow> i < length xs \<Longrightarrow> owns h a (xs[i := (r, snd (xs ! i))], s)"
  using list_update_id [of "map snd xs" i] by (simp add: owns_def map_update)

text \<open>Every call keeps the invariant and leaves the other workspaces alone.\<close>

definition kept :: "nat \<Rightarrow> wksp_view \<Rightarrow> 's \<Rightarrow> owned list \<times> 's \<Rightarrow> bool" where
  "kept h a s st \<longleftrightarrow> owns h a st \<and> (\<forall>k. k \<noteq> h \<longrightarrow> view k (snd st) = view k s)"

lemma kept_id: "owns h a (xs, s) \<Longrightarrow> kept h a s (xs, s)"
  by (simp add: kept_def)

lemma owns_same: "owns h a (xs, s) \<Longrightarrow> view h s = Some b \<Longrightarrow> view h s' = Some b \<Longrightarrow> owns h a (xs, s')"
  by (simp add: owns_def)

lemma step_alloc:
  assumes "owns (ws_handle w) a (xs, s)"
  shows "kept (ws_handle w) a s (wksp_step lib w (WAlloc n al tag) (xs, s))"
proof (cases "n \<noteq> 0 \<and> tag \<noteq> 0 \<and> (al = 0 \<or> is_power_of_two al)")
  case True
  obtain b where b: "view (ws_handle w) s = Some b" using assms by (auto elim: ownsE)
  obtain g s' where c: "c_alloc lib (ws_handle w) al n tag s = (g, s')" by fastforce
  have L: "\<forall>k. k \<noteq> ws_handle w \<longrightarrow> view k s' = view k s"
      "if g = 0 then view (ws_handle w) s' = Some b
       else \<exists>p. placed b al n tag g p \<and> view (ws_handle w) s' = Some (b\<lparr>wv_parts := insert p (wv_parts b)\<rparr>)"
    using alloc_law [OF b _ _ _ c] True by simp_all
  show ?thesis
  proof (cases "g = 0")
    case g: True
    then show ?thesis using True L c owns_same [OF assms b] by (auto simp: wksp_allocate_def kept_def)
  next
    case g: False
    then obtain p where "placed b al n tag g p" "view (ws_handle w) s' = Some (b\<lparr>wv_parts := insert p (wv_parts b)\<rparr>)"
      using L(2) by auto
    then show ?thesis using True g c L(1) owns_alloc [OF assms b, of n al tag g p s'] by (auto simp: wksp_allocate_def kept_def)
  qed
next
  case False
  then have "\<exists>e. wksp_allocate lib w n al tag s = (Err e, s)" by (auto simp: wksp_allocate_def)
  then show ?thesis using kept_id [OF assms] by auto
qed

lemma step_alloc_at_least:
  assumes "owns (ws_handle w) a (xs, s)"
  shows "kept (ws_handle w) a s (wksp_step lib w (WAllocAtLeast n al tag) (xs, s))"
proof (cases "n \<noteq> 0 \<and> tag \<noteq> 0 \<and> (al = 0 \<or> is_power_of_two al)")
  case True
  obtain b where b: "view (ws_handle w) s = Some b" using assms by (auto elim: ownsE)
  obtain g lo hi s' where c: "c_alloc_at_least lib (ws_handle w) al n tag s = ((g, lo, hi), s')"
    by (cases "c_alloc_at_least lib (ws_handle w) al n tag s") auto
  have L: "\<forall>k. k \<noteq> ws_handle w \<longrightarrow> view k s' = view k s"
      "if g = 0 then view (ws_handle w) s' = Some b
       else \<exists>p. placed b al n tag g p \<and> lo = ai_gaddr_lo p \<and> hi = ai_gaddr_hi p \<and>
         view (ws_handle w) s' = Some (b\<lparr>wv_parts := insert p (wv_parts b)\<rparr>)"
    using alloc_at_least_law [OF b _ _ _ c] True by simp_all
  show ?thesis
  proof (cases "g = 0")
    case g: True
    then show ?thesis using True L c owns_same [OF assms b] by (auto simp: wksp_allocate_at_least_def kept_def)
  next
    case g: False
    then obtain p where "placed b al n tag g p" "view (ws_handle w) s' = Some (b\<lparr>wv_parts := insert p (wv_parts b)\<rparr>)"
      using L(2) by auto
    then show ?thesis using True g c L(1) owns_alloc [OF assms b, of n al tag g p s']
      by (auto simp: wksp_allocate_at_least_def kept_def)
  qed
next
  case False
  then have "\<exists>e. wksp_allocate_at_least lib w n al tag s = (Err e, s)" by (auto simp: wksp_allocate_at_least_def)
  then show ?thesis using kept_id [OF assms] by auto
qed

lemmas owned_defs = kept_def guard_at_def raw_at_def allocation_drop_def wksp_free_def wksp_free_gaddr_def
  allocation_into_raw_def allocation_fill_def allocation_clear_def

lemma step_owns:
  assumes "owns (ws_handle w) a (xs, s)"
  shows "kept (ws_handle w) a s (wksp_step lib w p (xs, s))"
proof (cases p)
  case (WAlloc n al tag)
  then show ?thesis using step_alloc [OF assms] by (simp only: WAlloc)
next
  case (WAllocAtLeast n al tag)
  then show ?thesis using step_alloc_at_least [OF assms] by (simp only: WAllocAtLeast)
next
  case (WDrop i)
  then show ?thesis using assms owns_free [OF assms, of i] owns_handle [OF assms, of i] by (simp add: owned_defs)
next
  case (WFree i)
  then show ?thesis using assms owns_free [OF assms, of i] by (simp add: owned_defs)
next
  case (WIntoRaw i)
  then show ?thesis using assms owns_update [OF assms, of i] by (simp add: owned_defs)
next
  case (WFreeRaw i)
  then show ?thesis using assms owns_free [OF assms, of i] by (simp add: owned_defs)
next
  case (WFill i v)
  then show ?thesis using assms owns_memset [OF assms, of i] owns_handle [OF assms, of i] by (simp add: owned_defs)
next
  case (WClear i)
  then show ?thesis using assms owns_memset [OF assms, of i] owns_handle [OF assms, of i] by (simp add: owned_defs)
qed

lemma run_owns:
  assumes "owns (ws_handle w) a (xs, s)"
  shows "kept (ws_handle w) a s (wksp_run lib w ops (xs, s))"
  using assms
proof (induction ops arbitrary: xs s)
  case (Cons p ops)
  obtain ys t where y: "wksp_step lib w p (xs, s) = (ys, t)" by fastforce
  then have "kept (ws_handle w) a s (ys, t)" using step_owns [OF Cons.prems, of p] by simp
  then show ?case using Cons.IH [of ys t] y by (simp add: wksp_run_def kept_def)
qed (simp add: wksp_run_def kept_def)

text \<open>A query gives every partition of its tags, once.\<close>

lemma query_exact:
  assumes "view (ws_handle w) s = Some a"
  shows "\<exists>ps. query_by_tag lib w tags s = Ok ps \<and> distinct ps \<and> set ps = {p \<in> wv_parts a. ai_tag p \<in> set tags}"
proof -
  let ?P = "{p \<in> wv_parts a. ai_tag p \<in> set tags}"
  obtain n ps where q: "c_tag_query lib (ws_handle w) tags (card ?P) s = (n, ps)" by fastforce
  have f: "finite ?P" using view_ok [OF assms] by simp
  show ?thesis
  proof (cases "tags = [] \<or> card ?P = 0")
    case True
    then have "?P = {}" using f by auto
    then show ?thesis using True count_law [OF assms, of tags] by (auto simp: query_by_tag_def)
  next
    case False
    then have L: "n = length ps" "distinct ps" "set ps \<subseteq> ?P" "n = card ?P" using query_law [OF assms _ q] by auto
    then have "set ps = ?P" using card_subset_eq [OF f L(3)] distinct_card [OF L(2)] L(1,4) by simp
    then show ?thesis using False L q count_law [OF assms, of tags] by (auto simp: query_by_tag_def)
  qed
qed

end

section \<open>A workspace that keeps the laws\<close>

record ref_wksp =
  rw_lo :: nat
  rw_hi :: nat
  rw_base :: nat
  rw_parts :: "alloc_info list"
  rw_mem :: "nat \<Rightarrow> u8"

type_synonym ref_wksps = "nat \<Rightarrow> ref_wksp option"

definition ref_top :: "ref_wksp \<Rightarrow> nat" where
  "ref_top r = foldr (\<lambda>p. max (ai_gaddr_hi p)) (rw_parts r) (rw_lo r)"

definition ref_fit :: "nat \<Rightarrow> nat \<Rightarrow> ref_wksp \<Rightarrow> nat option" where
  "ref_fit al n r = (let g = ref_align (if al = 0 then 4096 else al) (ref_top r) in if g + n \<le> rw_hi r then Some g else None)"

definition ref_place :: "nat \<Rightarrow> nat \<Rightarrow> nat \<Rightarrow> nat \<Rightarrow> ref_wksps \<Rightarrow> (nat \<times> nat \<times> nat) \<times> ref_wksps" where
  "ref_place h al n tag s =
     (case s h of None \<Rightarrow> ((0, 0, 0), s)
      | Some r \<Rightarrow> (case ref_fit al n r of None \<Rightarrow> ((0, 0, 0), s)
          | Some g \<Rightarrow> ((g, g, g + n),
              s(h \<mapsto> r\<lparr>rw_parts := \<lparr>ai_gaddr_lo = g, ai_gaddr_hi = g + n, ai_tag = tag\<rparr> # rw_parts r\<rparr>))))"

definition ref_change :: "nat \<Rightarrow> (ref_wksp \<Rightarrow> ref_wksp) \<Rightarrow> ref_wksps \<Rightarrow> ref_wksps" where
  "ref_change h f s = (case s h of None \<Rightarrow> s | Some r \<Rightarrow> s(h \<mapsto> f r))"

definition ref_look :: "nat \<Rightarrow> (ref_wksp \<Rightarrow> 'a) \<Rightarrow> 'a \<Rightarrow> ref_wksps \<Rightarrow> 'a" where
  "ref_look h f d s = (case s h of None \<Rightarrow> d | Some r \<Rightarrow> f r)"

definition ref_tagged :: "nat list \<Rightarrow> ref_wksp \<Rightarrow> alloc_info list" where
  "ref_tagged tags r = filter (\<lambda>p. ai_tag p \<in> set tags) (rw_parts r)"

definition ref_wksp_lib :: "ref_wksps wksp_lib" where
  "ref_wksp_lib = \<lparr>c_attach = (\<lambda>_ s. (if s 4096 = None then 0 else 4096, s)), c_detach = (\<lambda>_ s. s),
     c_new_anon = (\<lambda>_ page_sz _ pages _ _ _ s. (4096, s(4096 \<mapsto> \<lparr>rw_lo = 512, rw_hi = 512 + page_sz * sum_list pages, rw_base = 4096, rw_parts = [], rw_mem = (\<lambda>_. 0)\<rparr>))),
     c_delete_anon = (\<lambda>h s. s(h := None)),
     c_new_named = (\<lambda>_ page_sz _ pages _ _ _ _ s. (0, s(4096 \<mapsto> \<lparr>rw_lo = 512, rw_hi = 512 + page_sz * sum_list pages, rw_base = 4096, rw_parts = [], rw_mem = (\<lambda>_. 0)\<rparr>))),
     c_wksp_name = (\<lambda>_ _. ascii ''test''),
     c_alloc = (\<lambda>h al n tag s. case ref_place h al n tag s of ((g, _), s) \<Rightarrow> (g, s)),
     c_alloc_at_least = ref_place,
     c_free = (\<lambda>h g. ref_change h (\<lambda>r. r\<lparr>rw_parts := filter (\<lambda>p. \<not> in_part g p) (rw_parts r)\<rparr>)),
     c_laddr = (\<lambda>h g. ref_look h (\<lambda>r. if rw_lo r \<le> g \<and> g < rw_hi r then rw_base r + g else 0) 0),
     c_gaddr = (\<lambda>h l. ref_look h (\<lambda>r. if rw_base r + rw_lo r \<le> l \<and> l < rw_base r + rw_hi r then l - rw_base r else 0) 0),
     c_tag = (\<lambda>h g. ref_look h (\<lambda>r. case find (in_part g) (rw_parts r) of Some p \<Rightarrow> ai_tag p | None \<Rightarrow> 0) 0),
     c_tag_query = (\<lambda>h tags m. ref_look h (\<lambda>r. let ps = ref_tagged tags r in
       if m = 0 then (length ps, []) else (length (take m ps), take m ps)) (0, [])),
     c_tag_free = (\<lambda>h tags. ref_change h (\<lambda>r. r\<lparr>rw_parts := filter (\<lambda>p. ai_tag p \<notin> set tags) (rw_parts r)\<rparr>)),
     c_memset = (\<lambda>h g c. ref_change h (\<lambda>r. case find (in_part g) (rw_parts r) of None \<Rightarrow> r
       | Some p \<Rightarrow> r\<lparr>rw_mem := \<lambda>i. if in_part i p then word_of_int c else rw_mem r i\<rparr>)),
     c_wksp_reset = (\<lambda>h _. ref_change h (\<lambda>r. r\<lparr>rw_parts := []\<rparr>)),
     c_usage = (\<lambda>h _. ref_look h (\<lambda>r. \<lparr>us_total_max = 16, us_total_cnt = 16, us_total_sz = rw_hi r - rw_lo r, us_free_cnt = 0,
       us_free_sz = 0, us_used_cnt = length (rw_parts r), us_used_sz = 0\<rparr>)
       \<lparr>us_total_max = 0, us_total_cnt = 0, us_total_sz = 0, us_free_cnt = 0, us_free_sz = 0, us_used_cnt = 0, us_used_sz = 0\<rparr>),
     c_verify = (\<lambda>_ _. 0), c_rebuild = (\<lambda>_ _ s. (0, s)), c_checkpt = (\<lambda>_ _ _ _ _ s. (0, s)), c_restore = (\<lambda>_ _ _ s. (0, s))\<rparr>"

definition ref_wksp_ok :: "ref_wksp \<Rightarrow> bool" where
  "ref_wksp_ok r \<longleftrightarrow> 0 < rw_lo r \<and> sorted_wrt apart (rw_parts r) \<and>
     (\<forall>p \<in> set (rw_parts r). rw_lo r \<le> ai_gaddr_lo p \<and> ai_gaddr_lo p < ai_gaddr_hi p \<and> ai_gaddr_hi p \<le> rw_hi r \<and> 0 < ai_tag p)"

definition ref_abs :: "ref_wksp \<Rightarrow> wksp_view" where
  "ref_abs r = \<lparr>wv_lo = rw_lo r, wv_hi = rw_hi r, wv_base = rw_base r, wv_parts = set (rw_parts r), wv_mem = rw_mem r\<rparr>"

definition ref_wksp_view :: "nat \<Rightarrow> ref_wksps \<Rightarrow> wksp_view option" where
  "ref_wksp_view h s = (case s h of Some r \<Rightarrow> if ref_wksp_ok r then Some (ref_abs r) else None | None \<Rightarrow> None)"

lemma ref_wksp_viewE:
  assumes "ref_wksp_view h s = Some a" obtains r where "s h = Some r" "ref_wksp_ok r" "a = ref_abs r"
  using assms by (auto simp: ref_wksp_view_def split: option.splits if_splits)

lemma ref_top_bounds: "rw_lo r \<le> ref_top r \<and> (\<forall>p \<in> set (rw_parts r). ai_gaddr_hi p \<le> ref_top r)"
proof -
  have "lo \<le> foldr (\<lambda>p. max (ai_gaddr_hi p)) ps lo \<and> (\<forall>p \<in> set ps. ai_gaddr_hi p \<le> foldr (\<lambda>p. max (ai_gaddr_hi p)) ps lo)" for ps lo
    by (induction ps) auto
  then show ?thesis by (simp add: ref_top_def)
qed

lemma ref_fit_placed:
  assumes "ref_fit al n r = Some g" and "al = 0 \<or> is_power_of_two al" and "ref_wksp_ok r" and "0 < n" and "0 < tag"
  shows "placed (ref_abs r) al n tag g \<lparr>ai_gaddr_lo = g, ai_gaddr_hi = g + n, ai_tag = tag\<rparr>" and "0 < g"
    and "ref_wksp_ok (r\<lparr>rw_parts := \<lparr>ai_gaddr_lo = g, ai_gaddr_hi = g + n, ai_tag = tag\<rparr> # rw_parts r\<rparr>)"
proof -
  let ?al = "if al = 0 then 4096 else al"
  have "0 < ?al" using assms(2) by (auto simp: is_power_of_two_def)
  note A = ref_align_ok [OF this, of "ref_top r"]
  have g: "g = ref_align ?al (ref_top r)" "g + n \<le> rw_hi r" using assms(1) by (auto simp: ref_fit_def Let_def split: if_splits)
  have d: "0 < al \<longrightarrow> al dvd g" using A g(1) by (cases "al = 0") simp_all
  have t: "rw_lo r \<le> g" "\<forall>p \<in> set (rw_parts r). ai_gaddr_hi p \<le> g" using A g(1) ref_top_bounds [of r] by (auto intro: order_trans)
  show "placed (ref_abs r) al n tag g \<lparr>ai_gaddr_lo = g, ai_gaddr_hi = g + n, ai_tag = tag\<rparr>"
    using d t g(2) by (simp add: placed_def ref_abs_def apart_def)
  show "0 < g" using t(1) assms(3) by (simp add: ref_wksp_ok_def)
  show "ref_wksp_ok (r\<lparr>rw_parts := \<lparr>ai_gaddr_lo = g, ai_gaddr_hi = g + n, ai_tag = tag\<rparr> # rw_parts r\<rparr>)"
    using t g(2) assms(3,4,5) by (auto simp: ref_wksp_ok_def apart_def)
qed

lemma ref_place_law:
  assumes "ref_wksp_view h s = Some a" and "0 < n" and "0 < tag" and "al = 0 \<or> is_power_of_two al"
    and "ref_place h al n tag s = ((g, lo, hi), s')"
  shows "(\<forall>k. k \<noteq> h \<longrightarrow> ref_wksp_view k s' = ref_wksp_view k s) \<and>
    (if g = 0 then ref_wksp_view h s' = Some a
     else \<exists>p. placed a al n tag g p \<and> lo = ai_gaddr_lo p \<and> hi = ai_gaddr_hi p \<and>
       ref_wksp_view h s' = Some (a\<lparr>wv_parts := insert p (wv_parts a)\<rparr>))"
proof -
  obtain r where r: "s h = Some r" "ref_wksp_ok r" "a = ref_abs r" using assms(1) by (rule ref_wksp_viewE)
  show ?thesis
  proof (cases "ref_fit al n r")
    case None
    then show ?thesis using assms(1,5) r by (auto simp: ref_place_def)
  next
    case (Some g')
    note F = ref_fit_placed [OF Some assms(4) r(2) assms(2,3)]
    have e: "g' = g" "lo = g" "hi = g + n"
        "s' = s(h \<mapsto> r\<lparr>rw_parts := \<lparr>ai_gaddr_lo = g, ai_gaddr_hi = g + n, ai_tag = tag\<rparr> # rw_parts r\<rparr>)"
      using assms(5) r Some by (auto simp: ref_place_def)
    have "ref_wksp_view h s' = Some (a\<lparr>wv_parts := insert \<lparr>ai_gaddr_lo = g, ai_gaddr_hi = g + n, ai_tag = tag\<rparr> (wv_parts a)\<rparr>)"
      using F(3) e r(3) by (simp add: ref_wksp_view_def ref_abs_def)
    then show ?thesis using F(1,2) e r(3) by (auto simp: ref_wksp_view_def)
  qed
qed

lemma ref_change_view:
  "ref_wksp_view h s = Some a \<Longrightarrow> s h = Some r \<Longrightarrow> ref_wksp_ok (f r) \<Longrightarrow> ref_wksp_view h (ref_change h f s) = Some (ref_abs (f r))"
  by (simp add: ref_change_def ref_wksp_view_def)

lemma ref_change_frame: "k \<noteq> h \<Longrightarrow> ref_wksp_view k (ref_change h f s) = ref_wksp_view k s"
  by (cases "s h") (simp_all add: ref_change_def ref_wksp_view_def)

lemma ref_wksp_ok_filter: "ref_wksp_ok r \<Longrightarrow> ref_wksp_ok (r\<lparr>rw_parts := filter P (rw_parts r)\<rparr>)"
  by (auto simp: ref_wksp_ok_def sorted_wrt_filter)

lemma find_in_part:
  assumes "sorted_wrt apart ps" and "p \<in> set ps" and "in_part g p"
  shows "find (in_part g) ps = Some p"
  using assms by (induction ps) (auto dest: apart_in_part)

lemma ref_parts_distinct: "ref_wksp_ok r \<Longrightarrow> distinct (rw_parts r)"
proof -
  have "sorted_wrt apart ps \<Longrightarrow> \<forall>p \<in> set ps. ai_gaddr_lo p < ai_gaddr_hi p \<Longrightarrow> distinct ps" for ps
    by (induction ps) (fastforce simp: apart_def)+
  then show "ref_wksp_ok r \<Longrightarrow> distinct (rw_parts r)" by (simp add: ref_wksp_ok_def)
qed

lemma ref_tagged_abs:
  "ref_wksp_ok r \<Longrightarrow> distinct (ref_tagged tags r) \<and> set (ref_tagged tags r) = {p \<in> wv_parts (ref_abs r). ai_tag p \<in> set tags}"
  using ref_parts_distinct [of r] by (auto simp: ref_tagged_def ref_abs_def)

lemma ref_tagged_card: "ref_wksp_ok r \<Longrightarrow> card {p \<in> wv_parts (ref_abs r). ai_tag p \<in> set tags} = length (ref_tagged tags r)"
  using ref_tagged_abs [of r tags] distinct_card by metis

interpretation ref_wkspace: workspace ref_wksp_lib ref_wksp_view
proof
  fix h s a assume v: "ref_wksp_view h s = Some a"
  obtain r where r: "s h = Some r" "ref_wksp_ok r" "a = ref_abs r" using v by (rule ref_wksp_viewE)
  have sym: "\<forall>p \<in> set ps. \<forall>q \<in> set ps. p \<noteq> q \<longrightarrow> apart p q" if "sorted_wrt apart ps" for ps
    using that by (induction ps) (auto simp: apart_sym)
  show "0 < wv_lo a \<and> finite (wv_parts a) \<and>
      (\<forall>p \<in> wv_parts a. wv_lo a \<le> ai_gaddr_lo p \<and> ai_gaddr_lo p < ai_gaddr_hi p \<and> ai_gaddr_hi p \<le> wv_hi a \<and> 0 < ai_tag p) \<and>
      (\<forall>p \<in> wv_parts a. \<forall>q \<in> wv_parts a. p \<noteq> q \<longrightarrow> apart p q)"
    using r(2,3) sym [of "rw_parts r"] by (simp add: ref_abs_def ref_wksp_ok_def)
  show "(\<forall>k. k \<noteq> h \<longrightarrow> ref_wksp_view k s' = ref_wksp_view k s) \<and>
      (if g = 0 then ref_wksp_view h s' = Some a
       else \<exists>p. placed a al n tag g p \<and> ref_wksp_view h s' = Some (a\<lparr>wv_parts := insert p (wv_parts a)\<rparr>))"
    if t: "0 < n" "0 < tag" "al = 0 \<or> is_power_of_two al" "c_alloc ref_wksp_lib h al n tag s = (g, s')" for n tag al g s'
  proof -
    obtain lo hi where "ref_place h al n tag s = ((g, lo, hi), s')"
      using t(4) by (cases "ref_place h al n tag s") (auto simp: ref_wksp_lib_def)
    then show ?thesis using ref_place_law [OF v t(1-3)] by (auto split: if_splits)
  qed
  show "(\<forall>k. k \<noteq> h \<longrightarrow> ref_wksp_view k s' = ref_wksp_view k s) \<and>
      (if g = 0 then ref_wksp_view h s' = Some a
       else \<exists>p. placed a al n tag g p \<and> lo = ai_gaddr_lo p \<and> hi = ai_gaddr_hi p \<and>
         ref_wksp_view h s' = Some (a\<lparr>wv_parts := insert p (wv_parts a)\<rparr>))"
    if "0 < n" "0 < tag" "al = 0 \<or> is_power_of_two al" "c_alloc_at_least ref_wksp_lib h al n tag s = ((g, lo, hi), s')"
    for n tag al g lo hi s'
    using ref_place_law [OF v that(1-3)] that(4) by (simp add: ref_wksp_lib_def)
  show "ref_wksp_view h (c_free ref_wksp_lib h g s) = Some (a\<lparr>wv_parts := {p \<in> wv_parts a. \<not> in_part g p}\<rparr>)" for g
    using ref_change_view [OF v r(1)] ref_wksp_ok_filter [OF r(2)] r(3) by (simp add: ref_wksp_lib_def ref_abs_def)
  show "ref_wksp_view k (c_free ref_wksp_lib h g s) = ref_wksp_view k s" if "k \<noteq> h" for k g
    using that by (simp add: ref_wksp_lib_def ref_change_frame)
  show "ref_wksp_view h (c_memset ref_wksp_lib h g c s) = Some (a\<lparr>wv_mem := \<lambda>i. if in_part i p then word_of_int c else wv_mem a i\<rparr>)"
    if "p \<in> wv_parts a" "in_part g p" for p g c
  proof -
    have "find (in_part g) (rw_parts r) = Some p"
      using that r(2,3) by (intro find_in_part) (simp_all add: ref_abs_def ref_wksp_ok_def)
    then show ?thesis using r(1,2) unfolding r(3)
      by (simp add: ref_wksp_lib_def ref_change_def ref_wksp_view_def ref_abs_def ref_wksp_ok_def cong: if_cong)
  qed
  show "ref_wksp_view k (c_memset ref_wksp_lib h g c s) = ref_wksp_view k s" if "k \<noteq> h" for k g c
    using that by (simp add: ref_wksp_lib_def ref_change_frame)
  show "c_laddr ref_wksp_lib h g s = wv_base a + g" if "wv_lo a \<le> g" "g < wv_hi a" for g
    using that r by (simp add: ref_wksp_lib_def ref_look_def ref_abs_def)
  show "c_gaddr ref_wksp_lib h (wv_base a + g) s = g" if "wv_lo a \<le> g" "g < wv_hi a" for g
    using that r by (simp add: ref_wksp_lib_def ref_look_def ref_abs_def)
  show "c_tag ref_wksp_lib h g s = ai_tag p" if "p \<in> wv_parts a" "in_part g p" for p g
  proof -
    have "find (in_part g) (rw_parts r) = Some p"
      using that r(2,3) by (intro find_in_part) (simp_all add: ref_abs_def ref_wksp_ok_def)
    then show ?thesis using r by (simp add: ref_wksp_lib_def ref_look_def)
  qed
  show "fst (c_tag_query ref_wksp_lib h tags 0 s) = card {p \<in> wv_parts a. ai_tag p \<in> set tags}" for tags
    using r ref_tagged_card [OF r(2)] by (simp add: ref_wksp_lib_def ref_look_def)
  show "n = length ps \<and> distinct ps \<and> set ps \<subseteq> {p \<in> wv_parts a. ai_tag p \<in> set tags} \<and>
      n = min m (card {p \<in> wv_parts a. ai_tag p \<in> set tags})"
    if "0 < m" "c_tag_query ref_wksp_lib h tags m s = (n, ps)" for m tags n ps
  proof -
    have "n = length ps" "ps = take m (ref_tagged tags r)"
      using that r(1) by (auto simp: ref_wksp_lib_def ref_look_def Let_def)
    then show ?thesis using r(3) ref_tagged_abs [OF r(2), of tags] ref_tagged_card [OF r(2), of tags]
      by (auto dest: in_set_takeD)
  qed
  show "ref_wksp_view h (c_tag_free ref_wksp_lib h tags s) = Some (a\<lparr>wv_parts := {p \<in> wv_parts a. ai_tag p \<notin> set tags}\<rparr>)" for tags
    using ref_change_view [OF v r(1)] ref_wksp_ok_filter [OF r(2)] r(3) by (simp add: ref_wksp_lib_def ref_abs_def)
  show "ref_wksp_view h (c_wksp_reset ref_wksp_lib h seed s) = Some (a\<lparr>wv_parts := {}\<rparr>)" for seed
    using r by (simp add: ref_wksp_lib_def ref_change_def ref_wksp_view_def ref_abs_def ref_wksp_ok_def)
qed

section \<open>Properties\<close>

text \<open>C20: Take a workspace that behaves as documented, with whatever it already holds, and any sequence of
  \<open>allocate\<close>, \<open>allocate_at_least\<close>, drops, \<open>free\<close>, \<open>into_raw\<close>, \<open>free_gaddr\<close> on raw addresses, \<open>fill\<close> and
  \<open>clear\<close>. At the end every allocation still owned lies inside the data region, at the local address that belongs
  to its global one, apart from the other allocations owned and from everything that was there before, which
  keeps its partitions and bytes. When nothing is owned any more, the partitions in use are those of the start: each
  destructor and each \<open>free\<close> released exactly its own. Other workspaces are not touched.\<close>

theorem wksp_allocations_owned:
  assumes "workspace lib view" and "view (ws_handle w) s = Some a"
  shows "\<exists>xs s' b. wksp_run lib w ops ([], s) = (xs, s') \<and> view (ws_handle w) s' = Some b \<and>
    (\<forall>i < length xs. let x = snd (xs ! i) in
       wv_lo a \<le> wa_gaddr x \<and> wa_gaddr x + wa_size x \<le> wv_hi a \<and> wa_laddr x = wv_base a + wa_gaddr x \<and>
       (\<forall>q \<in> wv_parts a. wa_gaddr x + wa_size x \<le> ai_gaddr_lo q \<or> ai_gaddr_hi q \<le> wa_gaddr x) \<and>
       (\<forall>j < length xs. j \<noteq> i \<longrightarrow> wa_gaddr x + wa_size x \<le> wa_gaddr (snd (xs ! j)) \<or>
          wa_gaddr (snd (xs ! j)) + wa_size (snd (xs ! j)) \<le> wa_gaddr x)) \<and>
    wv_parts a \<subseteq> wv_parts b \<and> (\<forall>q \<in> wv_parts a. \<forall>i. in_part i q \<longrightarrow> wv_mem b i = wv_mem a i) \<and>
    (xs = [] \<longrightarrow> wv_parts b = wv_parts a) \<and> (\<forall>k. k \<noteq> ws_handle w \<longrightarrow> view k s' = view k s)"
proof -
  have "workspace.owns view (ws_handle w) a ([], s)" using assms(2) by (simp add: workspace.owns_def [OF assms(1)])
  from workspace.run_owns [OF assms(1) this, of ops]
  obtain xs s' where run: "wksp_run lib w ops ([], s) = (xs, s')" "workspace.owns view (ws_handle w) a (xs, s')"
      "\<forall>k. k \<noteq> ws_handle w \<longrightarrow> view k s' = view k s"
    by (cases "wksp_run lib w ops ([], s)") (auto simp: workspace.kept_def [OF assms(1)])
  from workspace.ownsE [OF assms(1) run(2)] obtain b ps where o: "view (ws_handle w) s' = Some b" "wv_lo b = wv_lo a"
      "wv_hi b = wv_hi a" "wv_parts b = wv_parts a \<union> set ps" "list_all2 (holds (ws_handle w) (wv_base a)) (map snd xs) ps"
      "sorted_wrt apart ps" "\<forall>p \<in> set ps. \<forall>q \<in> wv_parts a. apart p q"
      "\<forall>q \<in> wv_parts a. \<forall>i. in_part i q \<longrightarrow> wv_mem b i = wv_mem a i"
    by metis
  have l: "length ps = length xs" using o(5) by (auto dest: list_all2_lengthD)
  have h: "holds (ws_handle w) (wv_base a) (snd (xs ! i)) (ps ! i)" if "i < length xs" for i
    using list_all2_nthD [OF o(5), of i] that by simp
  have in_b: "wv_lo a \<le> ai_gaddr_lo (ps ! i)" "ai_gaddr_hi (ps ! i) \<le> wv_hi a" if "i < length xs" for i
    using workspace.view_ok [OF assms(1) o(1)] o(2-4) l that by auto
  have d: "apart (ps ! i) (ps ! j)" if "i < length xs" "j < length xs" "j \<noteq> i" for i j
    using l that sorted_wrt_nth_less [OF o(6), of i j] sorted_wrt_nth_less [OF o(6), of j i] apart_sym [of "ps ! i" "ps ! j"]
    by (cases "i < j") auto
  have q: "apart (ps ! i) q" if "i < length xs" "q \<in> wv_parts a" for i q using o(7) l that by simp
  have "let x = snd (xs ! i) in
       wv_lo a \<le> wa_gaddr x \<and> wa_gaddr x + wa_size x \<le> wv_hi a \<and> wa_laddr x = wv_base a + wa_gaddr x \<and>
       (\<forall>q \<in> wv_parts a. wa_gaddr x + wa_size x \<le> ai_gaddr_lo q \<or> ai_gaddr_hi q \<le> wa_gaddr x) \<and>
       (\<forall>j < length xs. j \<noteq> i \<longrightarrow> wa_gaddr x + wa_size x \<le> wa_gaddr (snd (xs ! j)) \<or>
          wa_gaddr (snd (xs ! j)) + wa_size (snd (xs ! j)) \<le> wa_gaddr x)" if i: "i < length xs" for i
    using h [OF i] in_b [OF i] q [OF i] d [OF i] h
    by (fastforce simp: Let_def holds_def apart_def)
  moreover have "xs = [] \<longrightarrow> wv_parts b = wv_parts a" using o(4) l by auto
  ultimately show ?thesis using run(1,3) o(1,4,8) by auto
qed

definition ref_wksps1 :: ref_wksps where
  "ref_wksps1 = (\<lambda>_. None)(4096 \<mapsto> \<lparr>rw_lo = 512, rw_hi = 66048, rw_base = 4096, rw_parts = [], rw_mem = (\<lambda>_. 0)\<rparr>)"

abbreviation "demo_wksp \<equiv> \<lparr>ws_handle = 4096, ws_is_anonymous = True\<rparr>"

abbreviation "demo_view \<equiv> \<lparr>wv_lo = 512, wv_hi = 66048, wv_base = 4096, wv_parts = {}, wv_mem = \<lambda>_. 0\<rparr>"

lemma ref_wksps1_view: "ref_wksp_view (ws_handle demo_wksp) ref_wksps1 = Some demo_view"
  by (simp add: ref_wksp_view_def ref_wksps1_def ref_wksp_ok_def ref_abs_def)

text \<open>Three allocations, one of them made raw, and one that does not fit; all are released again but the last.\<close>

abbreviation "demo_ops \<equiv> [WAlloc 1024 64 1, WAllocAtLeast 100 0 2, WFill 0 7, WAlloc 100000 8 1, WIntoRaw 1, WDrop 0, WFreeRaw 0, WAlloc 8 8 3]"

theorem wksp_allocations_owned_witness:
  "\<exists>xs s' b. wksp_run ref_wksp_lib demo_wksp demo_ops ([], ref_wksps1) = (xs, s') \<and> ref_wksp_view 4096 s' = Some b \<and>
    (\<forall>i < length xs. 512 \<le> wa_gaddr (snd (xs ! i)) \<and> wa_laddr (snd (xs ! i)) = 4096 + wa_gaddr (snd (xs ! i)))"
  using wksp_allocations_owned [OF ref_wkspace.workspace_axioms, of demo_wksp ref_wksps1 demo_view demo_ops, OF ref_wksps1_view]
  by (auto simp: Let_def)

text \<open>On a workspace that behaves as documented, \<open>query_by_tag\<close> answers for every list of tags, without writing
  behind its buffer, with each partition in use whose tag is in the list, exactly once, and with nothing else; for
  every global address inside the data region the local address exists and leads back to it, and the tag of an address in
  a partition is that partition's.\<close>

theorem wksp_queries_exact:
  assumes "workspace lib view" and "view (ws_handle w) s = Some a"
  shows "(\<exists>ps. query_by_tag lib w tags s = Ok ps \<and> distinct ps \<and> set ps = {p \<in> wv_parts a. ai_tag p \<in> set tags}) \<and>
    (\<forall>g. wv_lo a \<le> g \<and> g < wv_hi a \<longrightarrow>
       (\<exists>l. gaddr_to_laddr lib w g s = Ok l \<and> laddr_to_gaddr lib w l s = Ok g)) \<and>
    (\<forall>p \<in> wv_parts a. \<forall>g. in_part g p \<longrightarrow> get_tag lib w g s = ai_tag p)"
  using workspace.query_exact [OF assms, of tags] workspace.view_ok [OF assms] workspace.laddr_law [OF assms]
    workspace.gaddr_law [OF assms] workspace.tag_law [OF assms]
  by (auto simp: gaddr_to_laddr_def laddr_to_gaddr_def get_tag_def)

definition ref_wksps2 :: ref_wksps where
  "ref_wksps2 = (\<lambda>_. None)(4096 \<mapsto> \<lparr>rw_lo = 512, rw_hi = 66048, rw_base = 4096,
     rw_parts = [\<lparr>ai_gaddr_lo = 1600, ai_gaddr_hi = 1700, ai_tag = 2\<rparr>, \<lparr>ai_gaddr_lo = 512, ai_gaddr_hi = 1536, ai_tag = 1\<rparr>], rw_mem = (\<lambda>_. 0)\<rparr>)"

lemma ref_wksps2_view: "\<exists>a. ref_wksp_view (ws_handle demo_wksp) ref_wksps2 = Some a \<and> wv_lo a = 512 \<and> wv_hi a = 66048 \<and>
   wv_parts a = {\<lparr>ai_gaddr_lo = 1600, ai_gaddr_hi = 1700, ai_tag = 2\<rparr>, \<lparr>ai_gaddr_lo = 512, ai_gaddr_hi = 1536, ai_tag = 1\<rparr>}"
  by (simp add: ref_wksp_view_def ref_wksps2_def ref_wksp_ok_def ref_abs_def apart_def)

theorem wksp_queries_exact_witness:
  "(\<exists>ps. query_by_tag ref_wksp_lib demo_wksp [1] ref_wksps2 = Ok ps \<and> set ps = {\<lparr>ai_gaddr_lo = 512, ai_gaddr_hi = 1536, ai_tag = 1\<rparr>}) \<and>
   (\<exists>l. gaddr_to_laddr ref_wksp_lib demo_wksp 600 ref_wksps2 = Ok l \<and> laddr_to_gaddr ref_wksp_lib demo_wksp l ref_wksps2 = Ok 600) \<and>
   get_tag ref_wksp_lib demo_wksp 1699 ref_wksps2 = 2"
proof -
  obtain a where a: "ref_wksp_view (ws_handle demo_wksp) ref_wksps2 = Some a" "wv_lo a = 512" "wv_hi a = 66048"
      "wv_parts a = {\<lparr>ai_gaddr_lo = 1600, ai_gaddr_hi = 1700, ai_tag = 2\<rparr>, \<lparr>ai_gaddr_lo = 512, ai_gaddr_hi = 1536, ai_tag = 1\<rparr>}"
    using ref_wksps2_view by blast
  have e: "{p \<in> wv_parts a. ai_tag p \<in> set [1]} = {\<lparr>ai_gaddr_lo = 512, ai_gaddr_hi = 1536, ai_tag = 1\<rparr>}"
    by (auto simp: a(4))
  note P = wksp_queries_exact [OF ref_wkspace.workspace_axioms, of demo_wksp ref_wksps2 a "[1]", OF a(1)]
  have "get_tag ref_wksp_lib demo_wksp 1699 ref_wksps2 = 2" using P by (auto simp: a(4) in_part_def)
  moreover have "\<exists>l. gaddr_to_laddr ref_wksp_lib demo_wksp 600 ref_wksps2 = Ok l \<and> laddr_to_gaddr ref_wksp_lib demo_wksp l ref_wksps2 = Ok 600"
    using P a(2,3) by auto
  ultimately show ?thesis using P e by blast
qed

text \<open>
  \<open>reset\<close>, \<open>free_by_tag\<close> and \<open>free_gaddr\<close> borrow the workspace like the allocations do, so they can be called while
  these live. Behind a \<open>reset\<close> a second allocation gets the address of the first; the destructor of the first then
  releases the second, whose bytes its owner still uses.
\<close>

lemma stale_allocation_frees_other:
  "(case wksp_allocate ref_wksp_lib demo_wksp 1024 64 1 ref_wksps1 of (Ok x, s) \<Rightarrow>
      (case wksp_allocate ref_wksp_lib demo_wksp 512 64 2 (wksp_reset ref_wksp_lib demo_wksp 0 s) of (Ok y, s) \<Rightarrow>
         (allocation_tag ref_wksp_lib y s, allocation_tag ref_wksp_lib y (allocation_drop ref_wksp_lib x s)))) = (2, 0)"
  by (simp add: wksp_allocate_def ref_wksp_lib_def ref_place_def ref_fit_def ref_top_def ref_align_def ref_wksps1_def is_power_of_two_def
      upt_rec allocation_new_def ref_look_def wksp_reset_def ref_change_def allocation_tag_def allocation_drop_def in_part_def)

text \<open>
  \<open>free\<close> takes the workspace it is called on, not the one of the allocation: given the allocation of another
  workspace it leaves that one in use and releases whatever has the same global address in its own.
\<close>

lemma free_on_other_workspace:
  assumes "workspace lib view" and "view (ws_handle w) s = Some a" and "view (wa_wksp x) s = Some b" and "wa_wksp x \<noteq> ws_handle w"
    and "p \<in> wv_parts a" and "in_part (wa_gaddr x) p"
  shows "\<exists>a'. view (ws_handle w) (snd (wksp_free lib w x s)) = Some a' \<and> p \<notin> wv_parts a'"
    and "view (wa_wksp x) (snd (wksp_free lib w x s)) = Some b"
  using assms workspace.free_law [OF assms(1,2)] workspace.free_frame [OF assms(1,2)]
  by (auto simp: wksp_free_def wksp_free_gaddr_def allocation_into_raw_def)

text \<open>\<open>build_named\<close> does not compare the lengths of its two vectors, as \<open>build_anonymous\<close> does.\<close>

lemma build_named_short_cpu_indices:
  "build_named lib (builder_name (ascii ''w'') (builder_multi_numa [1, 1] [0] wksp_builder_new)) s = (Panic, s)"
  "build_anonymous lib (builder_name (ascii ''w'') (builder_multi_numa [1, 1] [0] wksp_builder_new)) s =
     (Err (InvalidInput ''Mismatched array lengths''), s)"
  by (simp_all add: build_named_def build_anonymous_def wksp_new_anonymous_def builder_name_def builder_multi_numa_def wksp_builder_new_def
      cstring_new_def ascii_def of_char_def)

text \<open>A code of success never reaches \<open>convert_error\<close>, so that no operation panics in it.\<close>

lemma convert_error_reached: "wksp_verify lib w s \<noteq> Panic \<and> fst (wksp_rebuild lib w seed s) \<noteq> Panic"
  by (auto simp: wksp_verify_def wksp_rebuild_def err_of_def convert_error_def Let_def split: prod.splits)

end
