(* ===== verification/Grpc.thy ===== *)
theory Grpc
  imports Rust_Std Ownership
begin

text \<open>
  The gRPC client of \<open>waltz/grpc/fd_grpc/src/lib.rs\<close>: construction with its two allocations, requests, deadlines,
  the trampolines through which the C client calls back, response headers, status codes and destruction. The
  C client is the parameter \<open>grpc_lib\<close> over an opaque state; \<open>None\<close> is a call outside its contract. The methods of a
  \<open>ClientCallbacks\<close> are functions on the callback state \<open>'c\<close>. The locale \<open>grpc_client\<close> states the documented
  behaviour of the C functions.
\<close>

section \<open>Data\<close>

datatype grpc_error = BufferTooSmall | InvalidData string | NotConnected | RequestBlocked | InvalidField string |
  ConnectionError string | StreamError string | Timeout | EResourceExhausted | InternalError string | NullPointer |
  EInvalidArgument string

datatype status_code = SOk | Cancelled | Unknown | InvalidArgument | DeadlineExceeded | NotFound | AlreadyExists |
  PermissionDenied | ResourceExhausted | FailedPrecondition | Aborted | OutOfRange | Unimplemented | Internal |
  Unavailable | DataLoss | Unauthenticated

text \<open>The numbers of the codes are constants of the bindings: the parameter \<open>raw\<close>.\<close>

definition status_codes :: "status_code list" where
  "status_codes = [SOk, Cancelled, Unknown, InvalidArgument, DeadlineExceeded, NotFound, AlreadyExists, PermissionDenied,
     ResourceExhausted, FailedPrecondition, Aborted, OutOfRange, Unimplemented, Internal, Unavailable, DataLoss, Unauthenticated]"

definition status_from_raw :: "(status_code \<Rightarrow> u32) \<Rightarrow> u32 \<Rightarrow> status_code option" where
  "status_from_raw raw status = find (\<lambda>c. status = raw c) status_codes"

fun status_as_str :: "status_code \<Rightarrow> string" where
  "status_as_str SOk = ''OK''"
| "status_as_str Cancelled = ''CANCELLED''"
| "status_as_str Unknown = ''UNKNOWN''"
| "status_as_str InvalidArgument = ''INVALID_ARGUMENT''"
| "status_as_str DeadlineExceeded = ''DEADLINE_EXCEEDED''"
| "status_as_str NotFound = ''NOT_FOUND''"
| "status_as_str AlreadyExists = ''ALREADY_EXISTS''"
| "status_as_str PermissionDenied = ''PERMISSION_DENIED''"
| "status_as_str ResourceExhausted = ''RESOURCE_EXHAUSTED''"
| "status_as_str FailedPrecondition = ''FAILED_PRECONDITION''"
| "status_as_str Aborted = ''ABORTED''"
| "status_as_str OutOfRange = ''OUT_OF_RANGE''"
| "status_as_str Unimplemented = ''UNIMPLEMENTED''"
| "status_as_str Internal = ''INTERNAL''"
| "status_as_str Unavailable = ''UNAVAILABLE''"
| "status_as_str DataLoss = ''DATA_LOSS''"
| "status_as_str Unauthenticated = ''UNAUTHENTICATED''"

datatype deadline_kind = Header | ResponseEnd

text \<open>The C struct of response headers: the message is an array with a separate length.\<close>

record raw_headers =
  rh_h2_status :: u32
  rh_is_grpc_proto :: u8
  rh_grpc_status :: u32
  rh_grpc_msg :: bytes
  rh_grpc_msg_len :: nat

record response_headers =
  hd_http_status :: u32
  hd_is_grpc_proto :: bool
  hd_grpc_status :: "status_code option"
  hd_grpc_message :: "bytes option"

text \<open>A length beyond the array reads behind it.\<close>

definition headers_from_raw :: "(status_code \<Rightarrow> u32) \<Rightarrow> raw_headers \<Rightarrow> (response_headers, grpc_error) res" where
  "headers_from_raw raw r =
     (if length (rh_grpc_msg r) < rh_grpc_msg_len r then Panic
      else Ok \<lparr>hd_http_status = rh_h2_status r, hd_is_grpc_proto = (rh_is_grpc_proto r \<noteq> 0),
        hd_grpc_status = (if rh_grpc_status r \<noteq> 0 then status_from_raw raw (rh_grpc_status r) else None),
        hd_grpc_message =
          (if rh_grpc_msg_len r > 0 then Some (from_utf8_lossy (take (rh_grpc_msg_len r) (rh_grpc_msg r))) else None)\<rparr>)"

text \<open>The counters, in the C struct and in \<open>ClientMetrics\<close>.\<close>

record grpc_metrics =
  wakeup_count :: u64
  stream_error_count :: u64
  connection_error_count :: u64
  stream_chunks_tx_count :: u64
  stream_chunks_tx_bytes :: u64
  stream_chunks_rx_count :: u64
  stream_chunks_rx_bytes :: u64
  requests_sent :: u64
  streams_active :: "64 word"
  rx_wait_ticks_cumulative :: "64 word"
  tx_wait_ticks_cumulative :: "64 word"

definition zero_metrics :: grpc_metrics where
  "zero_metrics = \<lparr>wakeup_count = 0, stream_error_count = 0, connection_error_count = 0, stream_chunks_tx_count = 0,
     stream_chunks_tx_bytes = 0, stream_chunks_rx_count = 0, stream_chunks_rx_bytes = 0, requests_sent = 0,
     streams_active = 0, rx_wait_ticks_cumulative = 0, tx_wait_ticks_cumulative = 0\<rparr>"

record 'c grpc_callbacks =
  on_connection_established :: "'c \<Rightarrow> 'c"
  on_connection_dead :: "u32 \<Rightarrow> int \<Rightarrow> 'c \<Rightarrow> 'c"
  on_tx_complete :: "u64 \<Rightarrow> 'c \<Rightarrow> 'c"
  on_rx_start :: "u64 \<Rightarrow> 'c \<Rightarrow> 'c"
  on_rx_message :: "u64 \<Rightarrow> bytes \<Rightarrow> 'c \<Rightarrow> 'c"
  on_rx_end :: "u64 \<Rightarrow> response_headers \<Rightarrow> 'c \<Rightarrow> 'c"
  on_rx_timeout :: "u64 \<Rightarrow> deadline_kind \<Rightarrow> 'c \<Rightarrow> 'c"
  on_ping_ack :: "'c \<Rightarrow> 'c"

text \<open>The methods a trait implementation leaves out do nothing.\<close>

definition grpc_default_callbacks :: "'c grpc_callbacks" where
  "grpc_default_callbacks = \<lparr>on_connection_established = id, on_connection_dead = (\<lambda>_ _. id), on_tx_complete = (\<lambda>_. id),
     on_rx_start = (\<lambda>_. id), on_rx_message = (\<lambda>_ _. id), on_rx_end = (\<lambda>_ _. id), on_rx_timeout = (\<lambda>_ _. id), on_ping_ack = id\<rparr>"

section \<open>Client\<close>

text \<open>What the client allocates: the buffer of the C client, of some size, and the boxed callbacks.\<close>

datatype 'c block = Buffer nat | Context 'c

record 's grpc_lib =
  c_client_align :: u64
  c_client_footprint :: "nat \<Rightarrow> u64"
  c_client_new :: "u64 \<Rightarrow> nat \<Rightarrow> nat \<Rightarrow> nat \<Rightarrow> 's \<Rightarrow> (nat \<times> 's) option"
  c_client_delete :: "nat \<Rightarrow> 's \<Rightarrow> (unit \<times> 's) option"
  c_set_authority :: "nat \<Rightarrow> bytes \<Rightarrow> nat \<Rightarrow> 's \<Rightarrow> (unit \<times> 's) option"
  c_set_version :: "nat \<Rightarrow> bytes \<Rightarrow> 's \<Rightarrow> (unit \<times> 's) option"
  c_is_connected :: "nat \<Rightarrow> 's \<Rightarrow> bool"
  c_request_is_blocked :: "nat \<Rightarrow> 's \<Rightarrow> bool"
  c_request_start :: "nat \<Rightarrow> bytes \<Rightarrow> u64 \<Rightarrow> nat \<Rightarrow> nat \<Rightarrow> bytes option \<Rightarrow> 's \<Rightarrow> (nat \<times> 's) option"
  c_deadline_set :: "nat \<Rightarrow> int \<Rightarrow> int \<Rightarrow> 's \<Rightarrow> (unit \<times> 's) option"
  c_client_reset :: "nat \<Rightarrow> 's \<Rightarrow> (unit \<times> 's) option"
  c_status_raw :: "status_code \<Rightarrow> u32"
  c_status_cstr :: "u32 \<Rightarrow> bytes option"
  c_deadline_header :: int
  c_deadline_rx_end :: int
  c_version_len_max :: nat

record grpc_client =
  gc_client :: nat
  gc_callback_ctx :: nat
  gc_metrics :: grpc_metrics
  gc_memory :: nat

text \<open>The C client and the allocator.\<close>

type_synonym ('c, 's) grpc_state = "'s \<times> 'c block heap"
type_synonym ('a, 'c, 's) grpc_call = "('a, grpc_error) res \<times> ('c, 's) grpc_state"

definition on_c :: "('s \<Rightarrow> ('x \<times> 's) option) \<Rightarrow> ('x \<Rightarrow> ('a, grpc_error) res) \<Rightarrow> ('c, 's) grpc_state \<Rightarrow> ('a, 'c, 's) grpc_call" where
  "on_c f k st = (case f (fst st) of Some (x, s) \<Rightarrow> (k x, s, snd st) | None \<Rightarrow> (Panic, st))"

text \<open>
  \<open>base\<close> gives the address of an allocation, \<open>slot\<close> that of the local variable \<open>metrics\<close>, which the C client keeps
  and from which the value is moved into the result. A vector of more than \<open>isize::MAX\<close> bytes panics.
\<close>

definition grpc_new ::
  "'s grpc_lib \<Rightarrow> (nat \<Rightarrow> u64) \<Rightarrow> nat \<Rightarrow> 'c \<Rightarrow> nat \<Rightarrow> ('c, 's) grpc_state \<Rightarrow> (grpc_client, 'c, 's) grpc_call" where
  "grpc_new lib base slot callbacks buffer_max st =
     (if buffer_max = 0 then (Err (EInvalidArgument ''buffer_max must be > 0''), st)
      else
        let align = c_client_align lib; footprint = c_client_footprint lib buffer_max
        in if footprint = 0 then (Err (InternalError ''Invalid footprint''), st)
           else if unat footprint + unat align \<ge> 2 ^ 63 then (Panic, st)
           else
             (case h_alloc (Buffer (unat footprint + unat align)) (snd st) of (memory, h) \<Rightarrow>
              case h_alloc (Context callbacks) h of (callback_ctx, h) \<Rightarrow>
              case c_client_new lib (align_up (base memory) align) slot callback_ctx buffer_max (fst st) of
                None \<Rightarrow> (Panic, fst st, h)
              | Some (client, s) \<Rightarrow>
                  if client = 0 then
                    (case res_bind (h_free callback_ctx h) (h_free memory) of
                       Ok h \<Rightarrow> (Err (InternalError ''Failed to create gRPC client''), s, h)
                     | Err e \<Rightarrow> (Err e, s, h) | Panic \<Rightarrow> (Panic, s, h))
                  else (Ok \<lparr>gc_client = client, gc_callback_ctx = callback_ctx, gc_metrics = zero_metrics, gc_memory = memory\<rparr>, s, h)))"

definition grpc_set_authority :: "'s grpc_lib \<Rightarrow> grpc_client \<Rightarrow> bytes \<Rightarrow> nat \<Rightarrow> ('c, 's) grpc_state \<Rightarrow> (unit, 'c, 's) grpc_call" where
  "grpc_set_authority lib g host port st =
     (if length host > 255 then (Err (EInvalidArgument ''Host name too long''), st)
      else on_c (c_set_authority lib (gc_client g) host port) Ok st)"

definition grpc_set_version :: "'s grpc_lib \<Rightarrow> grpc_client \<Rightarrow> bytes \<Rightarrow> ('c, 's) grpc_state \<Rightarrow> (unit, 'c, 's) grpc_call" where
  "grpc_set_version lib g version st =
     (if length version > c_version_len_max lib then (Err (EInvalidArgument ''Version string too long''), st)
      else on_c (c_set_version lib (gc_client g) version) Ok st)"

text \<open>A \<open>StreamHandle\<close> is a pointer that is not null.\<close>

definition stream_handle_new :: "nat \<Rightarrow> nat option" where
  "stream_handle_new stream = (if stream = 0 then None else Some stream)"

text \<open>The descriptor and the message are raw pointers.\<close>

definition grpc_request_start ::
  "'s grpc_lib \<Rightarrow> grpc_client \<Rightarrow> bytes \<Rightarrow> u64 \<Rightarrow> nat \<Rightarrow> nat \<Rightarrow> bytes option \<Rightarrow> ('c, 's) grpc_state \<Rightarrow> (nat, 'c, 's) grpc_call" where
  "grpc_request_start lib g path ctx descr msg auth st =
     (if length path \<ge> 128 then (Err (EInvalidArgument ''Path too long''), st)
      else on_c (c_request_start lib (gc_client g) path ctx descr msg auth)
             (\<lambda>stream. ok_or (stream_handle_new stream) RequestBlocked) st)"

definition deadline_kind_raw :: "'s grpc_lib \<Rightarrow> deadline_kind \<Rightarrow> int" where
  "deadline_kind_raw lib k = (case k of Header \<Rightarrow> c_deadline_header lib | ResponseEnd \<Rightarrow> c_deadline_rx_end lib)"

definition grpc_set_deadline ::
  "'s grpc_lib \<Rightarrow> nat \<Rightarrow> deadline_kind \<Rightarrow> int \<Rightarrow> ('c, 's) grpc_state \<Rightarrow> (unit, 'c, 's) grpc_call" where
  "grpc_set_deadline lib stream kind deadline_nanos st =
     on_c (c_deadline_set lib stream (deadline_kind_raw lib kind) deadline_nanos) Ok st"

definition grpc_set_header_deadline :: "'s grpc_lib \<Rightarrow> nat \<Rightarrow> int \<Rightarrow> ('c, 's) grpc_state \<Rightarrow> (unit, 'c, 's) grpc_call" where
  "grpc_set_header_deadline lib stream deadline_nanos = grpc_set_deadline lib stream Header deadline_nanos"

definition grpc_set_response_deadline :: "'s grpc_lib \<Rightarrow> nat \<Rightarrow> int \<Rightarrow> ('c, 's) grpc_state \<Rightarrow> (unit, 'c, 's) grpc_call" where
  "grpc_set_response_deadline lib stream deadline_nanos = grpc_set_deadline lib stream ResponseEnd deadline_nanos"

definition grpc_reset :: "'s grpc_lib \<Rightarrow> grpc_client \<Rightarrow> ('c, 's) grpc_state \<Rightarrow> (unit, 'c, 's) grpc_call" where
  "grpc_reset lib g = on_c (c_client_reset lib (gc_client g)) Ok"

definition metrics_from_raw :: "grpc_metrics \<Rightarrow> grpc_metrics" where
  "metrics_from_raw m = \<lparr>wakeup_count = wakeup_count m, stream_error_count = stream_error_count m,
     connection_error_count = connection_error_count m, stream_chunks_tx_count = stream_chunks_tx_count m,
     stream_chunks_tx_bytes = stream_chunks_tx_bytes m, stream_chunks_rx_count = stream_chunks_rx_count m,
     stream_chunks_rx_bytes = stream_chunks_rx_bytes m, requests_sent = requests_sent m, streams_active = streams_active m,
     rx_wait_ticks_cumulative = rx_wait_ticks_cumulative m, tx_wait_ticks_cumulative = tx_wait_ticks_cumulative m\<rparr>"

definition grpc_metrics_of :: "grpc_client \<Rightarrow> grpc_metrics" where
  "grpc_metrics_of g = metrics_from_raw (gc_metrics g)"

text \<open>The fields are dropped behind the destructor, which frees the buffer.\<close>

definition grpc_drop :: "'s grpc_lib \<Rightarrow> grpc_client \<Rightarrow> ('c, 's) grpc_state \<Rightarrow> (unit, 'c, 's) grpc_call" where
  "grpc_drop lib g st =
     (case (if gc_client g \<noteq> 0 then on_c (c_client_delete lib (gc_client g)) Ok st else (Ok (), st)) of
        (Ok _, s, h) \<Rightarrow>
          (case res_bind (if gc_callback_ctx g \<noteq> 0 then h_free (gc_callback_ctx g) h else Ok h) (h_free (gc_memory g)) of
             Ok h \<Rightarrow> (Ok (), s, h) | Err e \<Rightarrow> (Err e, s, h) | Panic \<Rightarrow> (Panic, s, h))
      | r \<Rightarrow> r)"

section \<open>Trampolines\<close>

text \<open>The context is borrowed from its box; a box that was freed, or another block, is a use after free.\<close>

definition with_ctx :: "nat \<Rightarrow> ('c \<Rightarrow> 'c) \<Rightarrow> 'c block heap \<Rightarrow> ('c block heap, grpc_error) res" where
  "with_ctx app_ctx f h =
     (case cells h app_ctx of
        Some (Context c) \<Rightarrow> Ok (h\<lparr>cells := (cells h)(app_ctx \<mapsto> Context (f c))\<rparr>)
      | _ \<Rightarrow> Panic)"

type_synonym 'c trampoline = "'c block heap \<Rightarrow> ('c block heap, grpc_error) res"

definition conn_established_trampoline :: "'c grpc_callbacks \<Rightarrow> nat \<Rightarrow> 'c trampoline" where
  "conn_established_trampoline cb app_ctx h =
     (if app_ctx = 0 then Ok h else with_ctx app_ctx (on_connection_established cb) h)"

definition conn_dead_trampoline :: "'c grpc_callbacks \<Rightarrow> nat \<Rightarrow> u32 \<Rightarrow> int \<Rightarrow> 'c trampoline" where
  "conn_dead_trampoline cb app_ctx h2_err closed_by h =
     (if app_ctx = 0 then Ok h else with_ctx app_ctx (on_connection_dead cb h2_err closed_by) h)"

definition tx_complete_trampoline :: "'c grpc_callbacks \<Rightarrow> nat \<Rightarrow> u64 \<Rightarrow> 'c trampoline" where
  "tx_complete_trampoline cb app_ctx request_ctx h =
     (if app_ctx = 0 then Ok h else with_ctx app_ctx (on_tx_complete cb request_ctx) h)"

definition rx_start_trampoline :: "'c grpc_callbacks \<Rightarrow> nat \<Rightarrow> u64 \<Rightarrow> 'c trampoline" where
  "rx_start_trampoline cb app_ctx request_ctx h =
     (if app_ctx = 0 then Ok h else with_ctx app_ctx (on_rx_start cb request_ctx) h)"

text \<open>\<open>None\<close> is the null pointer.\<close>

definition rx_msg_trampoline :: "'c grpc_callbacks \<Rightarrow> nat \<Rightarrow> bytes option \<Rightarrow> u64 \<Rightarrow> 'c trampoline" where
  "rx_msg_trampoline cb app_ctx protobuf request_ctx h =
     (if app_ctx = 0 then Ok h
      else case protobuf of None \<Rightarrow> Ok h | Some data \<Rightarrow> with_ctx app_ctx (on_rx_message cb request_ctx data) h)"

definition rx_end_trampoline ::
  "(status_code \<Rightarrow> u32) \<Rightarrow> 'c grpc_callbacks \<Rightarrow> nat \<Rightarrow> u64 \<Rightarrow> raw_headers option \<Rightarrow> 'c trampoline" where
  "rx_end_trampoline raw cb app_ctx request_ctx resp h =
     (if app_ctx = 0 then Ok h
      else case resp of
             None \<Rightarrow> Ok h
           | Some r \<Rightarrow> res_bind (headers_from_raw raw r) (\<lambda>headers. with_ctx app_ctx (on_rx_end cb request_ctx headers) h))"

definition rx_timeout_trampoline :: "'s grpc_lib \<Rightarrow> 'c grpc_callbacks \<Rightarrow> nat \<Rightarrow> u64 \<Rightarrow> int \<Rightarrow> 'c trampoline" where
  "rx_timeout_trampoline lib cb app_ctx request_ctx kind h =
     (if app_ctx = 0 then Ok h
      else if kind = c_deadline_header lib then with_ctx app_ctx (on_rx_timeout cb request_ctx Header) h
      else if kind = c_deadline_rx_end lib then with_ctx app_ctx (on_rx_timeout cb request_ctx ResponseEnd) h
      else Ok h)"

definition ping_ack_trampoline :: "'c grpc_callbacks \<Rightarrow> nat \<Rightarrow> 'c trampoline" where
  "ping_ack_trampoline cb app_ctx h = (if app_ctx = 0 then Ok h else with_ctx app_ctx (on_ping_ack cb) h)"

section \<open>Status text and deadlines\<close>

definition status_code_str :: "'s grpc_lib \<Rightarrow> u32 \<Rightarrow> bytes" where
  "status_code_str lib status =
     (case c_status_cstr lib status of
        None \<Rightarrow> ascii ''UNKNOWN''
      | Some s \<Rightarrow> (case from_utf8 s of Some t \<Rightarrow> t | None \<Rightarrow> ascii ''INVALID''))"

text \<open>A \<open>Duration\<close>: seconds and nanoseconds below \<open>10 ^ 9\<close>.\<close>

record duration =
  du_secs :: nat
  du_nanos :: nat

definition as_nanos :: "duration \<Rightarrow> nat" where
  "as_nanos d = du_secs d * 10 ^ 9 + du_nanos d"

text \<open>\<open>n as i64\<close> keeps the low 64 bits; \<open>clock_gettime\<close> gives seconds and nanoseconds or an error.\<close>

definition as_i64_low :: "nat \<Rightarrow> int" where
  "as_i64_low n = (let m = int (n mod 2 ^ 64) in if m < 2 ^ 63 then m else m - 2 ^ 64)"

definition saturating_add_i64 :: "int \<Rightarrow> int \<Rightarrow> int" where
  "saturating_add_i64 a b = (let c = a + b in if c < - (2 ^ 63) then - (2 ^ 63) else if c \<ge> 2 ^ 63 then 2 ^ 63 - 1 else c)"

definition current_time_nanos :: "(int \<times> int) option \<Rightarrow> (int, grpc_error) res" where
  "current_time_nanos clock =
     (case clock of
        Some (tv_sec, tv_nsec) \<Rightarrow>
          (let t = tv_sec * 1000000000 in
           if t < - (2 ^ 63) \<or> t \<ge> 2 ^ 63 \<or> t + tv_nsec < - (2 ^ 63) \<or> t + tv_nsec \<ge> 2 ^ 63 then Panic else Ok (t + tv_nsec))
      | None \<Rightarrow> Ok 0)"

definition duration_to_deadline_nanos :: "(int \<times> int) option \<Rightarrow> duration \<Rightarrow> (int, grpc_error) res" where
  "duration_to_deadline_nanos clock d =
     res_bind (current_time_nanos clock) (\<lambda>now_nanos. Ok (saturating_add_i64 now_nanos (as_i64_low (as_nanos d))))"

section \<open>Laws of the C client\<close>

record client_view =
  cw_ctx :: nat
  cw_pool :: "nat set"

locale grpc_laws =
  fixes lib :: "'s grpc_lib" and view :: "nat \<Rightarrow> 's \<Rightarrow> client_view option"
  assumes align_law: "\<exists>k < 63. c_client_align lib = 2 ^ k"
    and raw_law: "inj (c_status_raw lib)" "c_status_raw lib SOk = 0"
    and kind_law: "c_deadline_header lib \<noteq> c_deadline_rx_end lib"
    and new_law: "0 < n \<Longrightarrow> c_client_footprint lib n \<noteq> 0 \<Longrightarrow> unat (c_client_align lib) dvd unat mem \<Longrightarrow>
      \<exists>p s'. c_client_new lib mem slot ctx n s = Some (p, s') \<and> (\<forall>q. q \<noteq> p \<longrightarrow> view q s' = view q s) \<and>
        (p \<noteq> 0 \<longrightarrow> (\<exists>a. view p s' = Some a \<and> cw_ctx a = ctx \<and> 0 \<notin> cw_pool a))"
    and delete_law: "view p s = Some a \<Longrightarrow>
      \<exists>s'. c_client_delete lib p s = Some ((), s') \<and> view p s' = None \<and> (\<forall>q. q \<noteq> p \<longrightarrow> view q s' = view q s)"
    and authority_law: "view p s = Some a \<Longrightarrow> length host \<le> 255 \<Longrightarrow>
      \<exists>s'. c_set_authority lib p host port s = Some ((), s') \<and> (\<forall>q. view q s' = view q s)"
    and version_law: "view p s = Some a \<Longrightarrow> length ver \<le> c_version_len_max lib \<Longrightarrow>
      \<exists>s'. c_set_version lib p ver s = Some ((), s') \<and> (\<forall>q. view q s' = view q s)"
    and request_law: "view p s = Some a \<Longrightarrow> length path < 128 \<Longrightarrow>
      \<exists>x s'. c_request_start lib p path rq d m auth s = Some (x, s') \<and> (x = 0 \<or> x \<in> cw_pool a) \<and> (\<forall>q. view q s' = view q s)"
    and deadline_law: "view p s = Some a \<Longrightarrow> x \<in> cw_pool a \<Longrightarrow> k = c_deadline_header lib \<or> k = c_deadline_rx_end lib \<Longrightarrow>
      \<exists>s'. c_deadline_set lib x k t s = Some ((), s') \<and> (\<forall>q. view q s' = view q s)"
    and reset_law: "view p s = Some a \<Longrightarrow> \<exists>s'. c_client_reset lib p s = Some ((), s') \<and> (\<forall>q. view q s' = view q s)"

section \<open>Life of a client\<close>

text \<open>What the C client reports, with the context it was given, and what the application calls.\<close>

datatype grpc_event = EvEstablished | EvDead u32 int | EvTxComplete u64 | EvRxStart u64 | EvRxMsg "bytes option" u64 |
  EvRxEnd u64 "raw_headers option" | EvTimeout u64 int | EvPing

datatype grpc_op = GAuthority bytes nat | GVersion bytes | GRequest bytes u64 nat nat "bytes option" |
  GHeaderDeadline nat int | GResponseDeadline nat int | GReset | GEvent grpc_event

fun grpc_dispatch :: "'s grpc_lib \<Rightarrow> 'c grpc_callbacks \<Rightarrow> nat \<Rightarrow> grpc_event \<Rightarrow> 'c trampoline" where
  "grpc_dispatch lib cb p EvEstablished = conn_established_trampoline cb p"
| "grpc_dispatch lib cb p (EvDead e b) = conn_dead_trampoline cb p e b"
| "grpc_dispatch lib cb p (EvTxComplete r) = tx_complete_trampoline cb p r"
| "grpc_dispatch lib cb p (EvRxStart r) = rx_start_trampoline cb p r"
| "grpc_dispatch lib cb p (EvRxMsg d r) = rx_msg_trampoline cb p d r"
| "grpc_dispatch lib cb p (EvRxEnd r x) = rx_end_trampoline (c_status_raw lib) cb p r x"
| "grpc_dispatch lib cb p (EvTimeout r k) = rx_timeout_trampoline lib cb p r k"
| "grpc_dispatch lib cb p EvPing = ping_ack_trampoline cb p"

text \<open>The length of a message is within its array.\<close>

fun event_ok :: "grpc_event \<Rightarrow> bool" where
  "event_ok (EvRxEnd _ (Some r)) \<longleftrightarrow> rh_grpc_msg_len r \<le> length (rh_grpc_msg r)"
| "event_ok _ \<longleftrightarrow> True"

text \<open>What an event means to the callbacks.\<close>

fun observe :: "'s grpc_lib \<Rightarrow> 'c grpc_callbacks \<Rightarrow> grpc_event \<Rightarrow> 'c \<Rightarrow> 'c" where
  "observe lib cb EvEstablished c = on_connection_established cb c"
| "observe lib cb (EvDead e b) c = on_connection_dead cb e b c"
| "observe lib cb (EvTxComplete r) c = on_tx_complete cb r c"
| "observe lib cb (EvRxStart r) c = on_rx_start cb r c"
| "observe lib cb (EvRxMsg None r) c = c"
| "observe lib cb (EvRxMsg (Some d) r) c = on_rx_message cb r d c"
| "observe lib cb (EvRxEnd r None) c = c"
| "observe lib cb (EvRxEnd r (Some x)) c =
     (case headers_from_raw (c_status_raw lib) x of Ok y \<Rightarrow> on_rx_end cb r y c | _ \<Rightarrow> c)"
| "observe lib cb (EvTimeout r k) c =
     (if k = c_deadline_header lib then on_rx_timeout cb r Header c
      else if k = c_deadline_rx_end lib then on_rx_timeout cb r ResponseEnd c else c)"
| "observe lib cb EvPing c = on_ping_ack cb c"

text \<open>The handles of the requests that started are kept; a deadline names one of them.\<close>

fun grpc_step ::
  "'s grpc_lib \<Rightarrow> 'c grpc_callbacks \<Rightarrow> grpc_client \<Rightarrow> grpc_op \<Rightarrow> nat list \<times> ('c, 's) grpc_state \<Rightarrow>
   (unit, grpc_error) res \<times> nat list \<times> ('c, 's) grpc_state" where
  "grpc_step lib cb g (GAuthority host port) (xs, st) =
     (case grpc_set_authority lib g host port st of (r, st) \<Rightarrow> (r, xs, st))"
| "grpc_step lib cb g (GVersion v) (xs, st) = (case grpc_set_version lib g v st of (r, st) \<Rightarrow> (r, xs, st))"
| "grpc_step lib cb g (GRequest path ctx d m auth) (xs, st) =
     (case grpc_request_start lib g path ctx d m auth st of
        (Ok x, st) \<Rightarrow> (Ok (), xs @ [x], st) | (Err e, st) \<Rightarrow> (Err e, xs, st) | (Panic, st) \<Rightarrow> (Panic, xs, st))"
| "grpc_step lib cb g (GHeaderDeadline i t) (xs, st) =
     (if i < length xs then (case grpc_set_header_deadline lib (xs ! i) t st of (r, st) \<Rightarrow> (r, xs, st)) else (Ok (), xs, st))"
| "grpc_step lib cb g (GResponseDeadline i t) (xs, st) =
     (if i < length xs then (case grpc_set_response_deadline lib (xs ! i) t st of (r, st) \<Rightarrow> (r, xs, st)) else (Ok (), xs, st))"
| "grpc_step lib cb g GReset (xs, st) = (case grpc_reset lib g st of (r, st) \<Rightarrow> (r, xs, st))"
| "grpc_step lib cb g (GEvent e) (xs, s, h) =
     (case grpc_dispatch lib cb (gc_callback_ctx g) e h of
        Ok h \<Rightarrow> (Ok (), xs, s, h) | Err er \<Rightarrow> (Err er, xs, s, h) | Panic \<Rightarrow> (Panic, xs, s, h))"

fun grpc_run ::
  "'s grpc_lib \<Rightarrow> 'c grpc_callbacks \<Rightarrow> grpc_client \<Rightarrow> grpc_op list \<Rightarrow> nat list \<times> ('c, 's) grpc_state \<Rightarrow>
   (nat list \<times> ('c, 's) grpc_state) option" where
  "grpc_run lib cb g [] st = Some st"
| "grpc_run lib cb g (p # ps) st =
     (case grpc_step lib cb g p st of (Panic, st) \<Rightarrow> None | (_, st) \<Rightarrow> grpc_run lib cb g ps st)"

fun events_of :: "grpc_op list \<Rightarrow> grpc_event list" where
  "events_of [] = []"
| "events_of (GEvent e # ps) = e # events_of ps"
| "events_of (_ # ps) = events_of ps"

lemma events_of_Cons: "events_of (p # ps) = (case p of GEvent e \<Rightarrow> [e] | _ \<Rightarrow> []) @ events_of ps"
  by (cases p) auto

lemma dispatch_observe:
  assumes "cells h p = Some (Context c)" and "p \<noteq> 0" and "event_ok e"
  shows "\<exists>h'. grpc_dispatch lib cb p e h = Ok h' \<and> cells h' = (cells h)(p \<mapsto> Context (observe lib cb e c))"
proof -
  have id: "(cells h)(p \<mapsto> Context c) = cells h" using assms(1) by auto
  have w: "with_ctx p f h = Ok (h\<lparr>cells := (cells h)(p \<mapsto> Context (f c))\<rparr>)" for f using assms(1) by (simp add: with_ctx_def)
  show ?thesis using assms(2,3)
  proof (cases e)
    case (EvRxMsg d r)
    then show ?thesis using assms(2) w id by (cases d) (auto simp: rx_msg_trampoline_def)
  next
    case (EvRxEnd r x)
    show ?thesis
    proof (cases x)
      case None
      then show ?thesis using EvRxEnd assms(2) id by (auto simp: rx_end_trampoline_def)
    next
      case (Some y)
      then have "headers_from_raw (c_status_raw lib) y \<noteq> Panic" "\<And>e. headers_from_raw (c_status_raw lib) y \<noteq> Err e"
        using EvRxEnd assms(3) by (auto simp: headers_from_raw_def)
      then show ?thesis using EvRxEnd Some assms(2) w
        by (cases "headers_from_raw (c_status_raw lib) y") (auto simp: rx_end_trampoline_def)
    qed
  qed (auto simp: w id conn_established_trampoline_def conn_dead_trampoline_def tx_complete_trampoline_def rx_start_trampoline_def
      rx_timeout_trampoline_def ping_ack_trampoline_def)
qed

context grpc_laws
begin

text \<open>The client lives, its handles are streams of it, and its box holds \<open>c\<close> while the other blocks are \<open>h0\<close>'s.\<close>

definition client_ok ::
  "grpc_client \<Rightarrow> (nat \<Rightarrow> client_view option) \<Rightarrow> (nat \<Rightarrow> 'c block option) \<Rightarrow> 'c \<Rightarrow> nat list \<times> ('c, 's) grpc_state \<Rightarrow> bool" where
  "client_ok g v m c st \<longleftrightarrow> gc_callback_ctx g \<noteq> 0 \<and> (\<forall>p. view p (fst (snd st)) = v p) \<and>
     (\<exists>a. v (gc_client g) = Some a \<and> cw_ctx a = gc_callback_ctx g \<and> 0 \<notin> cw_pool a \<and> set (fst st) \<subseteq> cw_pool a) \<and>
     cells (snd (snd st)) = m(gc_callback_ctx g \<mapsto> Context c)"

lemma client_okD:
  assumes "client_ok g v m c (xs, s, h)"
  shows "gc_callback_ctx g \<noteq> 0" and "\<And>p. view p s = v p" and "cells h = m(gc_callback_ctx g \<mapsto> Context c)"
    and "\<exists>a. view (gc_client g) s = Some a \<and> v (gc_client g) = Some a \<and> cw_ctx a = gc_callback_ctx g \<and> 0 \<notin> cw_pool a \<and> set xs \<subseteq> cw_pool a"
  using assms by (auto simp: client_ok_def)

lemma client_ok_same:
  "client_ok g v m c (xs, s, h) \<Longrightarrow> (\<forall>q. view q s' = view q s) \<Longrightarrow> client_ok g v m c (xs, s', h)"
  by (simp add: client_ok_def)

text \<open>The effect of a call on what the callbacks saw.\<close>

definition after :: "'c grpc_callbacks \<Rightarrow> grpc_op \<Rightarrow> 'c \<Rightarrow> 'c" where
  "after cb p c = fold (observe lib cb) (events_of [p]) c"

lemma after_simps [simp]:
  "after cb (GAuthority host port) c = c" "after cb (GVersion ver) c = c" "after cb (GRequest path rq d mg auth) c = c"
  "after cb (GHeaderDeadline i t) c = c" "after cb (GResponseDeadline i t) c = c" "after cb GReset c = c"
  "after cb (GEvent e) c = observe lib cb e c"
  by (simp_all add: after_def)

lemma deadline_ok:
  assumes "client_ok g v m c (xs, s, h)" and "i < length xs"
  shows "\<exists>s'. grpc_set_deadline lib (xs ! i) k t (s, h) = (Ok (), s', h) \<and> client_ok g v m c (xs, s', h)"
proof -
  obtain a where a: "view (gc_client g) s = Some a" "set xs \<subseteq> cw_pool a" using client_okD(4) [OF assms(1)] by auto
  have x: "xs ! i \<in> cw_pool a" using a(2) assms(2) nth_mem by blast
  have "deadline_kind_raw lib k = c_deadline_header lib \<or> deadline_kind_raw lib k = c_deadline_rx_end lib"
    by (simp add: deadline_kind_raw_def split: deadline_kind.split)
  from deadline_law [OF a(1) x this, of t] obtain s' where
    "c_deadline_set lib (xs ! i) (deadline_kind_raw lib k) t s = Some ((), s')" "\<forall>q. view q s' = view q s" by blast
  then show ?thesis using client_ok_same [OF assms(1)] by (simp add: grpc_set_deadline_def on_c_def)
qed

lemma step_ok:
  assumes ok: "client_ok g v m c (xs, s, h)" and e: "\<And>e. p = GEvent e \<Longrightarrow> event_ok e"
    and r: "grpc_step lib cb g p (xs, s, h) = (r, st')"
  shows "r \<noteq> Panic \<and> client_ok g v m (after cb p c) st'"
proof -
  obtain a where a: "view (gc_client g) s = Some a" "v (gc_client g) = Some a" "cw_ctx a = gc_callback_ctx g" "0 \<notin> cw_pool a"
      "set xs \<subseteq> cw_pool a"
    using client_okD(4) [OF ok] by auto
  note same = client_ok_same [OF ok]
  show ?thesis
  proof (cases p)
    case (GAuthority host port)
    show ?thesis
    proof (cases "length host \<le> 255")
      case True
      then show ?thesis using authority_law [OF a(1) True, of port] r same GAuthority
        by (auto simp: grpc_set_authority_def on_c_def)
    qed (use r ok GAuthority in \<open>auto simp: grpc_set_authority_def\<close>)
  next
    case (GVersion ver)
    show ?thesis
    proof (cases "length ver \<le> c_version_len_max lib")
      case True
      then show ?thesis using version_law [OF a(1) True] r same GVersion
        by (auto simp: grpc_set_version_def on_c_def)
    qed (use r ok GVersion in \<open>auto simp: grpc_set_version_def\<close>)
  next
    case (GRequest path rq d mg auth)
    show ?thesis
    proof (cases "length path < 128")
      case True
      then obtain x s' where x: "c_request_start lib (gc_client g) path rq d mg auth s = Some (x, s')" "x = 0 \<or> x \<in> cw_pool a"
          "\<forall>q. view q s' = view q s"
        using request_law [OF a(1) True] by metis
      have "client_ok g v m c (xs, s', h)" by (rule same [OF x(3)])
      then show ?thesis using True x(1,2) r GRequest a(2,5)
        by (cases "x = 0") (auto simp: grpc_request_start_def on_c_def stream_handle_new_def client_ok_def)
    qed (use r ok GRequest in \<open>auto simp: grpc_request_start_def\<close>)
  next
    case (GHeaderDeadline i t)
    then show ?thesis using deadline_ok [OF ok, of i Header t] r ok
      by (cases "i < length xs") (auto simp: grpc_set_header_deadline_def)
  next
    case (GResponseDeadline i t)
    then show ?thesis using deadline_ok [OF ok, of i ResponseEnd t] r ok
      by (cases "i < length xs") (auto simp: grpc_set_response_deadline_def)
  next
    case GReset
    then show ?thesis using reset_law [OF a(1)] r same by (auto simp: grpc_reset_def on_c_def)
  next
    case (GEvent e')
    have "cells h (gc_callback_ctx g) = Some (Context c)" using client_okD(3) [OF ok] by simp
    from dispatch_observe [OF this client_okD(1) [OF ok] e [OF GEvent], of lib cb] obtain h' where
      h': "grpc_dispatch lib cb (gc_callback_ctx g) e' h = Ok h'"
        "cells h' = (cells h)(gc_callback_ctx g \<mapsto> Context (observe lib cb e' c))" by blast
    then have "cells h' = m(gc_callback_ctx g \<mapsto> Context (observe lib cb e' c))" using client_okD(3) [OF ok] by simp
    then have "client_ok g v m (observe lib cb e' c) (xs, s, h')" using ok by (simp add: client_ok_def)
    then show ?thesis using r h'(1) GEvent by auto
  qed
qed

lemma run_ok:
  assumes "client_ok g v m c (xs, s, h)" and "\<forall>e. GEvent e \<in> set ps \<longrightarrow> event_ok e"
  shows "\<exists>st'. grpc_run lib cb g ps (xs, s, h) = Some st' \<and> client_ok g v m (fold (observe lib cb) (events_of ps) c) st'"
  using assms
proof (induction ps arbitrary: c xs s h)
  case (Cons p ps)
  obtain r ys s' h' where r: "grpc_step lib cb g p (xs, s, h) = (r, ys, s', h')"
    by (cases "grpc_step lib cb g p (xs, s, h)") auto
  have s: "r \<noteq> Panic" "client_ok g v m (after cb p c) (ys, s', h')"
    using step_ok [OF Cons.prems(1) _ r] Cons.prems(2) by auto
  have "fold (observe lib cb) (events_of (p # ps)) c = fold (observe lib cb) (events_of ps) (after cb p c)"
    by (subst events_of_Cons) (cases p, simp_all)
  then show ?case using Cons.IH [OF s(2)] Cons.prems(2) r s(1) by (cases r) auto
qed auto

end

section \<open>A C client that keeps the laws\<close>

type_synonym ref_clients = "nat \<Rightarrow> client_view option"

fun ref_raw :: "status_code \<Rightarrow> u32" where
  "ref_raw SOk = 0"
| "ref_raw Cancelled = 1"
| "ref_raw Unknown = 2"
| "ref_raw InvalidArgument = 3"
| "ref_raw DeadlineExceeded = 4"
| "ref_raw NotFound = 5"
| "ref_raw AlreadyExists = 6"
| "ref_raw PermissionDenied = 7"
| "ref_raw ResourceExhausted = 8"
| "ref_raw FailedPrecondition = 9"
| "ref_raw Aborted = 10"
| "ref_raw OutOfRange = 11"
| "ref_raw Unimplemented = 12"
| "ref_raw Internal = 13"
| "ref_raw Unavailable = 14"
| "ref_raw DataLoss = 15"
| "ref_raw Unauthenticated = 16"

lemma ref_raw_inj: "inj ref_raw"
proof (rule injI)
  fix a b assume "ref_raw a = ref_raw b" then show "a = b" by (cases a; cases b; simp)
qed

definition ref_call :: "bool \<Rightarrow> 'a \<Rightarrow> ref_clients \<Rightarrow> ('a \<times> ref_clients) option" where
  "ref_call ok x s = (if ok then Some (x, s) else None)"

definition ref_grpc :: "ref_clients grpc_lib" where
  "ref_grpc = \<lparr>c_client_align = 128, c_client_footprint = (\<lambda>n. if n < 1048576 then of_nat (n + 4096) else 0),
     c_client_new = (\<lambda>mem slot ctx n s. if s 4096 = None
       then Some (4096, s(4096 \<mapsto> \<lparr>cw_ctx = ctx, cw_pool = {1, 2, 3}\<rparr>)) else Some (0, s)),
     c_client_delete = (\<lambda>p s. if s p = None then None else Some ((), s(p := None))),
     c_set_authority = (\<lambda>p host _ s. ref_call (s p \<noteq> None \<and> length host \<le> 255) () s),
     c_set_version = (\<lambda>p ver s. ref_call (s p \<noteq> None \<and> length ver \<le> 63) () s),
     c_is_connected = (\<lambda>p s. s p \<noteq> None), c_request_is_blocked = (\<lambda>p s. s p = None),
     c_request_start = (\<lambda>p path _ _ _ _ s. ref_call (s p \<noteq> None \<and> length path < 128) 1 s),
     c_deadline_set = (\<lambda>x k _ s. ref_call (s 4096 \<noteq> None \<and> x \<in> {1, 2, 3}) () s),
     c_client_reset = (\<lambda>p s. ref_call (s p \<noteq> None) () s), c_status_raw = ref_raw,
     c_status_cstr = (\<lambda>_. None), c_deadline_header = 1, c_deadline_rx_end = 2, c_version_len_max = 63\<rparr>"

text \<open>The one address at which it creates clients.\<close>

definition ref_client_view :: "nat \<Rightarrow> ref_clients \<Rightarrow> client_view option" where
  "ref_client_view p s = (if p = 4096 then (case s p of Some a \<Rightarrow> if cw_pool a = {1, 2, 3} then Some a else None | None \<Rightarrow> None) else None)"

lemma ref_client_viewE:
  assumes "ref_client_view p s = Some a" obtains "p = 4096" "s 4096 = Some a" "cw_pool a = {1, 2, 3}"
  using assms by (auto simp: ref_client_view_def split: if_splits option.splits)

interpretation ref_grpcs: grpc_laws ref_grpc ref_client_view
proof
  show "\<exists>k < 63. c_client_align ref_grpc = 2 ^ k" by (rule exI [of _ 7]) (simp add: ref_grpc_def)
  show "inj (c_status_raw ref_grpc)" "c_status_raw ref_grpc SOk = 0" using ref_raw_inj by (simp_all add: ref_grpc_def)
  show "c_deadline_header ref_grpc \<noteq> c_deadline_rx_end ref_grpc" by (simp add: ref_grpc_def)
  show "\<exists>p s'. c_client_new ref_grpc mem slot ctx n s = Some (p, s') \<and>
      (\<forall>q. q \<noteq> p \<longrightarrow> ref_client_view q s' = ref_client_view q s) \<and>
      (p \<noteq> 0 \<longrightarrow> (\<exists>a. ref_client_view p s' = Some a \<and> cw_ctx a = ctx \<and> 0 \<notin> cw_pool a))" for mem slot ctx n s
    by (auto simp: ref_grpc_def ref_client_view_def)
next
  fix p s a assume "ref_client_view p s = Some a"
  then have v: "p = 4096" "s 4096 = Some a" "cw_pool a = {1, 2, 3}" by (auto elim: ref_client_viewE)
  show "\<exists>s'. c_client_delete ref_grpc p s = Some ((), s') \<and> ref_client_view p s' = None \<and>
      (\<forall>q. q \<noteq> p \<longrightarrow> ref_client_view q s' = ref_client_view q s)"
    using v by (simp add: ref_grpc_def ref_client_view_def)
  show "\<exists>s'. c_set_authority ref_grpc p host port s = Some ((), s') \<and> (\<forall>q. ref_client_view q s' = ref_client_view q s)"
    if "length host \<le> 255" for host port using v that by (simp add: ref_grpc_def ref_call_def)
  show "\<exists>s'. c_set_version ref_grpc p ver s = Some ((), s') \<and> (\<forall>q. ref_client_view q s' = ref_client_view q s)"
    if "length ver \<le> c_version_len_max ref_grpc" for ver using v that by (simp add: ref_grpc_def ref_call_def)
  show "\<exists>x s'. c_request_start ref_grpc p path rq d m auth s = Some (x, s') \<and> (x = 0 \<or> x \<in> cw_pool a) \<and>
      (\<forall>q. ref_client_view q s' = ref_client_view q s)"
    if "length path < 128" for path rq d m auth using v that by (simp add: ref_grpc_def ref_call_def)
  show "\<exists>s'. c_deadline_set ref_grpc x k t s = Some ((), s') \<and> (\<forall>q. ref_client_view q s' = ref_client_view q s)"
    if "x \<in> cw_pool a" "k = c_deadline_header ref_grpc \<or> k = c_deadline_rx_end ref_grpc" for x k t
    using v that by (auto simp: ref_grpc_def ref_call_def)
  show "\<exists>s'. c_client_reset ref_grpc p s = Some ((), s') \<and> (\<forall>q. ref_client_view q s' = ref_client_view q s)"
    using v by (simp add: ref_grpc_def ref_call_def)
qed

section \<open>Properties\<close>

text \<open>Take a C client that behaves as documented, any callbacks, and a memory in which addresses do not wrap.
  \<open>Client::new\<close> gives the C client a region that is aligned and inside the buffer allocated for it, or fails and has
  released everything again. A client that was created goes through any sequence of calls and of
  events from the C client, in any order and with any arguments, without leaving the contract of a C function and
  without a use after free; its callbacks have then seen exactly the events, in their order and with their arguments.
  Dropping it deletes the C client and releases the box and the buffer, each once, and nothing else.\<close>

theorem grpc_client_lifecycle:
  assumes "grpc_laws lib view" and "heap_ok h" and "\<forall>e. GEvent e \<in> set ps \<longrightarrow> event_ok e"
    and "\<forall>m. unat (base m) + unat (c_client_footprint lib n) + unat (c_client_align lib) \<le> 2 ^ 64"
    and "0 < n" and "unat (c_client_footprint lib n) + unat (c_client_align lib) < 2 ^ 63"
  shows "case grpc_new lib base slot c n (s, h) of
      (Panic, _) \<Rightarrow> False
    | (Err _, s1, h1) \<Rightarrow> cells h1 = cells h
    | (Ok g, s1, h1) \<Rightarrow>
        (let size = unat (c_client_footprint lib n) + unat (c_client_align lib);
             mem = unat (align_up (base (gc_memory g)) (c_client_align lib))
         in cells h1 (gc_memory g) = Some (Buffer size) \<and> unat (c_client_align lib) dvd mem \<and>
            unat (base (gc_memory g)) \<le> mem \<and> mem + unat (c_client_footprint lib n) < unat (base (gc_memory g)) + size) \<and>
        (\<exists>xs s2 h2 s3 h3. grpc_run lib cb g ps ([], s1, h1) = Some (xs, s2, h2) \<and>
           cells h2 (gc_callback_ctx g) = Some (Context (fold (observe lib cb) (events_of ps) c)) \<and>
           grpc_drop lib g (s2, h2) = (Ok (), s3, h3) \<and> cells h3 = cells h \<and> view (gc_client g) s3 = None)"
proof (cases "c_client_footprint lib n = 0")
  case True
  then show ?thesis using assms(5) by (simp add: grpc_new_def)
next
  case False
  let ?al = "c_client_align lib" and ?f = "unat (c_client_footprint lib n)"
  obtain m h1 where m: "h_alloc (Buffer (?f + unat ?al)) h = (m, h1)" "heap_ok h1" "live h1 = insert m (live h)" "m \<notin> live h" "0 < m"
      "cells h1 = (cells h)(m \<mapsto> Buffer (?f + unat ?al))"
    using h_allocE [OF assms(2)] by metis
  obtain p h2 where p: "h_alloc (Context c) h1 = (p, h2)" "p \<notin> live h1" "0 < p" "cells h2 = (cells h1)(p \<mapsto> Context c)"
    using h_allocE [OF m(2)] by metis
  have d: "p \<noteq> m" "cells h m = None" "cells h p = None" using m(3,4) p(2) by auto
  obtain k where k: "?al = 2 ^ k" "k < 64" using grpc_laws.align_law [OF assms(1)] by auto
  have "unat (base m) + unat ?al \<le> 2 ^ 64" using assms(4) [rule_format, of m] by simp
  note A = align_up_bounds [OF k this]
  obtain x s1 where x: "c_client_new lib (align_up (base m) ?al) slot p n s = Some (x, s1)"
      "x \<noteq> 0 \<longrightarrow> (\<exists>a. view x s1 = Some a \<and> cw_ctx a = p \<and> 0 \<notin> cw_pool a)"
    using grpc_laws.new_law [OF assms(1,5) False A(1)] by metis
  show ?thesis
  proof (cases "x = 0")
    case True
    have "cells h2 p = Some (Context c)" "(cells h2)(p := None, m := None) = cells h" using m(6) p(4) d by auto
    then have "grpc_new lib base slot c n (s, h) =
        (Err (InternalError ''Failed to create gRPC client''), s1, h2\<lparr>cells := cells h\<rparr>)"
      using assms(5,6) False True m(1,6) p(1,4) x(1) d by (simp add: grpc_new_def Let_def h_free_def)
    then show ?thesis by simp
  next
    case x0: False
    let ?g = "\<lparr>gc_client = x, gc_callback_ctx = p, gc_metrics = zero_metrics, gc_memory = m\<rparr>"
    have new: "grpc_new lib base slot c n (s, h) = (Ok ?g, s1, h2)"
      using assms(5,6) False x0 m(1) p(1) x(1) by (simp add: grpc_new_def Let_def)
    have ok: "grpc_laws.client_ok view ?g (\<lambda>q. view q s1) (cells h1) c ([], s1, h2)"
      using x(2) x0 p(3,4) by (simp add: grpc_laws.client_ok_def [OF assms(1)])
    obtain xs s2 h3 where r: "grpc_run lib cb ?g ps ([], s1, h2) = Some (xs, s2, h3)"
        "grpc_laws.client_ok view ?g (\<lambda>q. view q s1) (cells h1) (fold (observe lib cb) (events_of ps) c) (xs, s2, h3)"
      using grpc_laws.run_ok [OF assms(1) ok assms(3), of cb] by auto
    note D = grpc_laws.client_okD [OF assms(1) r(2)]
    have h3: "cells h3 = (cells h1)(p \<mapsto> Context (fold (observe lib cb) (events_of ps) c))" using D(3) by simp
    obtain a where "view x s2 = Some a" using D(4) by auto
    then obtain s3 where s3: "c_client_delete lib x s2 = Some ((), s3)" "view x s3 = None"
      using grpc_laws.delete_law [OF assms(1)] by blast
    have e: "(cells h3)(p := None, m := None) = cells h" using h3 m(6) d by auto
    have "grpc_drop lib ?g (s2, h3) = (Ok (), s3, h3\<lparr>cells := cells h\<rparr>)"
      using s3(1) x0 p(3) e h3 m(6) d by (simp add: grpc_drop_def on_c_def h_free_def)
    then have "\<exists>xs s2 h2' s3 h3. grpc_run lib cb ?g ps ([], s1, h2) = Some (xs, s2, h2') \<and>
           cells h2' (gc_callback_ctx ?g) = Some (Context (fold (observe lib cb) (events_of ps) c)) \<and>
           grpc_drop lib ?g (s2, h2') = (Ok (), s3, h3) \<and> cells h3 = cells h \<and> view (gc_client ?g) s3 = None"
      using r(1) h3 s3(2) by auto
    moreover have "cells h2 m = Some (Buffer (?f + unat ?al))" using m(6) p(4) d by simp
    ultimately show ?thesis using new A by (simp add: Let_def)
  qed
qed

text \<open>Callbacks that count messages and remember the last headers.\<close>

definition demo_callbacks :: "(nat \<times> response_headers option) grpc_callbacks" where
  "demo_callbacks = grpc_default_callbacks\<lparr>on_rx_message := \<lambda>_ _ c. (fst c + 1, snd c), on_rx_end := \<lambda>_ hs c. (fst c, Some hs)\<rparr>"

definition demo_headers :: raw_headers where
  "demo_headers = \<lparr>rh_h2_status = 200, rh_is_grpc_proto = 1, rh_grpc_status = 0, rh_grpc_msg = [104, 105, 0, 0], rh_grpc_msg_len = 2\<rparr>"

abbreviation "demo_run \<equiv> [GAuthority [104] 443, GEvent EvEstablished, GRequest [47] 7 1 1 None, GHeaderDeadline 0 5,
   GEvent (EvRxMsg (Some [1]) 7), GEvent (EvRxMsg None 7), GEvent (EvRxMsg (Some []) 7), GReset, GEvent (EvRxEnd 7 (Some demo_headers))]"

theorem grpc_client_lifecycle_witness:
  "case grpc_new ref_grpc (\<lambda>_. 1000) 8 (0, None) 4096 (\<lambda>_. None, heap_empty) of
      (Ok g, s1, h1) \<Rightarrow> (\<exists>xs s2 h2 s3 h3. grpc_run ref_grpc demo_callbacks g demo_run ([], s1, h1) = Some (xs, s2, h2) \<and>
         cells h2 (gc_callback_ctx g) = Some (Context (2, Some \<lparr>hd_http_status = 200, hd_is_grpc_proto = True,
           hd_grpc_status = None, hd_grpc_message = Some [104, 105]\<rparr>)) \<and>
         grpc_drop ref_grpc g (s2, h2) = (Ok (), s3, h3) \<and> cells h3 = cells heap_empty)
    | _ \<Rightarrow> False"
proof -
  let ?h = "heap_empty :: (nat \<times> response_headers option) block heap"
  have o: "fold (observe ref_grpc demo_callbacks) (events_of demo_run) (0, None) = (2, Some \<lparr>hd_http_status = 200,
      hd_is_grpc_proto = True, hd_grpc_status = None, hd_grpc_message = Some [104, 105]\<rparr>)"
    by (simp add: demo_callbacks_def grpc_default_callbacks_def demo_headers_def headers_from_raw_def)
  have n: "\<exists>g s1 h1. grpc_new ref_grpc (\<lambda>_. 1000) 8 (0, None) 4096 (\<lambda>_. None, ?h) = (Ok g, s1, h1)"
    by (simp add: grpc_new_def ref_grpc_def Let_def h_alloc_def)
  show ?thesis
    using grpc_client_lifecycle [OF ref_grpcs.grpc_laws_axioms, where h = ?h and ps = demo_run and base = "\<lambda>_. 1000" and n = 4096
        and slot = 8 and c = "(0, None)" and s = "\<lambda>_. None" and cb = demo_callbacks]
      n o by (auto simp: ref_grpc_def demo_headers_def)
qed

text \<open>The value that \<open>metrics\<close> reads is the one moved out of \<open>new\<close>; the C client counts in a local variable of \<open>new\<close>.\<close>

lemma metrics_stay_zero: "grpc_new lib base slot c n st = (Ok g, st') \<Longrightarrow> grpc_metrics_of g = zero_metrics"
  by (auto simp: grpc_new_def Let_def grpc_metrics_of_def metrics_from_raw_def zero_metrics_def split: if_splits prod.splits option.splits res.splits)

text \<open>With status numbers that are distinct and 0 for success, headers decode as follows whenever the length of the
  message is within its array: the HTTP status and the protocol flag are taken over, the message is its bytes as text when it is
  not empty, and the status is reported exactly for the codes of failure; success is reported as no status. Reading a
  number that belongs to a code gives that code.\<close>

theorem grpc_headers_decoded:
  assumes "inj raw" and "raw SOk = 0" and "rh_grpc_msg_len r \<le> length (rh_grpc_msg r)"
  shows "(\<exists>y. headers_from_raw raw r = Ok y \<and> hd_http_status y = rh_h2_status r \<and>
      (hd_is_grpc_proto y \<longleftrightarrow> rh_is_grpc_proto r \<noteq> 0) \<and>
      (\<forall>x. hd_grpc_status y = Some x \<longleftrightarrow> rh_grpc_status r = raw x \<and> x \<noteq> SOk) \<and>
      (rh_grpc_msg_len r = 0 \<longrightarrow> hd_grpc_message y = None) \<and>
      (0 < rh_grpc_msg_len r \<and> utf8_valid (take (rh_grpc_msg_len r) (rh_grpc_msg r)) \<longrightarrow>
         hd_grpc_message y = Some (take (rh_grpc_msg_len r) (rh_grpc_msg r)))) \<and>
    (\<forall>x n. status_from_raw raw n = Some x \<longleftrightarrow> n = raw x)"
proof -
  have mem: "x \<in> set status_codes" for x by (cases x) (simp_all add: status_codes_def)
  have s: "status_from_raw raw n = Some x \<longleftrightarrow> n = raw x" for x n
  proof -
    have "n = raw x" if "status_from_raw raw n = Some x" for x
      using that by (auto simp: status_from_raw_def find_Some_iff)
    moreover have "\<exists>y. status_from_raw raw (raw x) = Some y"
      using mem [of x] by (cases "status_from_raw raw (raw x)") (auto simp: status_from_raw_def find_None_iff)
    ultimately show ?thesis using assms(1) by (metis injD)
  qed
  have z: "x = SOk" if "raw x = 0" for x using assms(1,2) that by (metis injD)
  have "\<forall>x. (if rh_grpc_status r \<noteq> 0 then status_from_raw raw (rh_grpc_status r) else None) = Some x \<longleftrightarrow>
      rh_grpc_status r = raw x \<and> x \<noteq> SOk"
    using s z assms(2) by auto
  then show ?thesis using assms(3) s by (auto simp: headers_from_raw_def from_utf8_lossy_valid)
qed

theorem grpc_headers_decoded_witness:
  "\<exists>y. headers_from_raw ref_raw (demo_headers\<lparr>rh_grpc_status := 14\<rparr>) = Ok y \<and> hd_grpc_status y = Some Unavailable \<and>
     hd_grpc_message y = Some [104, 105]"
  using grpc_headers_decoded [OF ref_raw_inj, of "demo_headers\<lparr>rh_grpc_status := 14\<rparr>"]
  by (auto simp: demo_headers_def)

text \<open>C21: When the clock answers and its time fits 64 bits, the deadline is never an error: for a duration of less
  than \<open>2 ^ 63\<close> nanoseconds (292 years) it is the time plus the duration, held at the largest value, so never before the
  present.\<close>

theorem deadline_saturates:
  assumes "- (2 ^ 63) \<le> sec * 1000000000" and "0 \<le> nsec" and "sec * 1000000000 + nsec < 2 ^ 63" and "as_nanos d < 2 ^ 63"
  shows "\<exists>t. duration_to_deadline_nanos (Some (sec, nsec)) d = Ok t \<and> sec * 1000000000 + nsec \<le> t \<and>
    t = min (sec * 1000000000 + nsec + int (as_nanos d)) (2 ^ 63 - 1)"
proof -
  have "as_i64_low (as_nanos d) = int (as_nanos d)" using assms(4) by (simp add: as_i64_low_def Let_def)
  then show ?thesis using assms
    by (auto simp: duration_to_deadline_nanos_def current_time_nanos_def saturating_add_i64_def Let_def)
qed

theorem deadline_saturates_witness:
  "\<exists>t. duration_to_deadline_nanos (Some (1000, 5)) \<lparr>du_secs = 30, du_nanos = 7\<rparr> = Ok t \<and> t = 1030000000012"
  using deadline_saturates [of 1000 5 "\<lparr>du_secs = 30, du_nanos = 7\<rparr>"] by (simp add: as_nanos_def)

text \<open>The longest duration wraps to minus one nanosecond: the deadline has passed when it is set.\<close>

lemma longest_duration_is_past:
  "duration_to_deadline_nanos (Some (1000, 5)) \<lparr>du_secs = 2 ^ 64 - 1, du_nanos = 999999999\<rparr> = Ok 1000000000004"
  by (simp add: duration_to_deadline_nanos_def current_time_nanos_def saturating_add_i64_def as_i64_low_def as_nanos_def Let_def)

text \<open>A handle carries no lifetime: setting a deadline behind the drop of the client is outside the contract.\<close>

lemma deadline_after_drop:
  "grpc_set_header_deadline ref_grpc 1 5 (\<lambda>_. None, heap_empty) = (Panic, \<lambda>_. None, heap_empty)"
  by (simp add: grpc_set_header_deadline_def grpc_set_deadline_def on_c_def ref_grpc_def ref_call_def)

end
