(* ===== verification/Quic.thy ===== *)
theory Quic
  imports Rust_Std Ownership
begin

text \<open>
  The QUIC endpoints of \<open>waltz/quic/fd_quic/src/lib.rs\<close>: configuration, the memory of the C endpoint and its life,
  new connections and how a server hands them out, streams, and the order in which an endpoint is destroyed.
  The C library and the sockets of the system are the parameter \<open>quic_lib\<close> over an opaque state; \<open>None\<close> is a call
  outside its contract. A C call on a pointer whose memory was released is \<open>Panic\<close>. Mutexes are never poisoned,
  since nothing panics while it holds one. The target is little-endian Linux.
\<close>

section \<open>Configuration\<close>

datatype quic_error = ConnectionFailed bytes | StreamError bytes | TlsError bytes | ConfigError bytes | Io bytes | Timeout |
  InvalidState bytes | AllocationFailed | Internal bytes

record quic_limits =
  conn_cnt :: nat
  handshake_cnt :: nat
  log_depth :: nat
  conn_id_cnt :: nat
  stream_id_cnt :: nat
  inflight_frame_cnt :: nat
  min_inflight_frame_cnt_conn :: nat
  tx_buf_sz :: nat
  stream_pool_cnt :: nat

definition limits_default :: quic_limits where
  "limits_default = \<lparr>conn_cnt = 16, handshake_cnt = 8, log_depth = 1024, conn_id_cnt = 4, stream_id_cnt = 64,
     inflight_frame_cnt = 256, min_inflight_frame_cnt_conn = 16, tx_buf_sz = 65536, stream_pool_cnt = 128\<rparr>"

datatype quic_role = Client | Server

text \<open>\<open>tick_per_us\<close> is a double, here by its bits; 1000.0 is the default.\<close>

record quic_config =
  qc_role :: quic_role
  qc_retry :: bool
  qc_tick_per_us :: u64
  qc_idle_timeout :: nat
  qc_keep_alive :: bool
  qc_ack_delay :: nat
  qc_ack_threshold :: nat
  qc_retry_ttl :: nat
  qc_tls_hs_ttl :: nat
  qc_initial_rx_max_stream_data :: nat
  qc_dscp :: u8
  qc_identity_public_key :: bytes
  qc_keylog_file :: "bytes option"

definition quic_config_default :: quic_config where
  "quic_config_default = \<lparr>qc_role = Client, qc_retry = False, qc_tick_per_us = 0x408F400000000000, qc_idle_timeout = 1000000000,
     qc_keep_alive = False, qc_ack_delay = 50000000, qc_ack_threshold = 65536, qc_retry_ttl = 1000000000,
     qc_tls_hs_ttl = 3000000000, qc_initial_rx_max_stream_data = 65536, qc_dscp = 0,
     qc_identity_public_key = map (\<lambda>i. of_nat (i + 1)) [0..<32], qc_keylog_file = None\<rparr>"

record quic_client_config =
  cc_server_name :: "bytes option"
  cc_limits :: quic_limits
  cc_config :: quic_config

definition client_config_new :: quic_client_config where
  "client_config_new = \<lparr>cc_server_name = None, cc_limits = limits_default, cc_config = quic_config_default\<lparr>qc_role := Client\<rparr>\<rparr>"

definition client_with_server_name :: "bytes \<Rightarrow> quic_client_config \<Rightarrow> quic_client_config" where
  "client_with_server_name n c = c\<lparr>cc_server_name := Some n\<rparr>"

definition client_with_limits :: "quic_limits \<Rightarrow> quic_client_config \<Rightarrow> quic_client_config" where
  "client_with_limits l c = c\<lparr>cc_limits := l\<rparr>"

definition client_with_idle_timeout :: "nat \<Rightarrow> quic_client_config \<Rightarrow> quic_client_config" where
  "client_with_idle_timeout t c = c\<lparr>cc_config := (cc_config c)\<lparr>qc_idle_timeout := t\<rparr>\<rparr>"

definition client_with_keep_alive :: "bool \<Rightarrow> quic_client_config \<Rightarrow> quic_client_config" where
  "client_with_keep_alive k c = c\<lparr>cc_config := (cc_config c)\<lparr>qc_keep_alive := k\<rparr>\<rparr>"

definition client_with_identity_key :: "bytes \<Rightarrow> quic_client_config \<Rightarrow> quic_client_config" where
  "client_with_identity_key k c = c\<lparr>cc_config := (cc_config c)\<lparr>qc_identity_public_key := k\<rparr>\<rparr>"

definition client_with_keylog_file :: "bytes \<Rightarrow> quic_client_config \<Rightarrow> quic_client_config" where
  "client_with_keylog_file p c = c\<lparr>cc_config := (cc_config c)\<lparr>qc_keylog_file := Some p\<rparr>\<rparr>"

record quic_server_config =
  sc_certificate_chain :: "bytes option"
  sc_private_key :: "bytes option"
  sc_limits :: quic_limits
  sc_config :: quic_config

definition server_config_new :: quic_server_config where
  "server_config_new = \<lparr>sc_certificate_chain = None, sc_private_key = None, sc_limits = limits_default,
     sc_config = quic_config_default\<lparr>qc_role := Server, qc_retry := True\<rparr>\<rparr>"

text \<open>A path that is not UTF-8 has no \<open>str\<close>.\<close>

definition server_with_certificate_chain :: "bytes \<Rightarrow> quic_server_config \<Rightarrow> (quic_server_config, quic_error) res" where
  "server_with_certificate_chain p c =
     (case from_utf8 p of None \<Rightarrow> Err (ConfigError (ascii ''invalid certificate path''))
      | Some t \<Rightarrow> Ok (c\<lparr>sc_certificate_chain := Some t\<rparr>))"

definition server_with_private_key :: "bytes \<Rightarrow> quic_server_config \<Rightarrow> (quic_server_config, quic_error) res" where
  "server_with_private_key p c =
     (case from_utf8 p of None \<Rightarrow> Err (ConfigError (ascii ''invalid private key path''))
      | Some t \<Rightarrow> Ok (c\<lparr>sc_private_key := Some t\<rparr>))"

definition server_with_limits :: "quic_limits \<Rightarrow> quic_server_config \<Rightarrow> quic_server_config" where
  "server_with_limits l c = c\<lparr>sc_limits := l\<rparr>"

definition server_with_retry :: "bool \<Rightarrow> quic_server_config \<Rightarrow> quic_server_config" where
  "server_with_retry r c = c\<lparr>sc_config := (sc_config c)\<lparr>qc_retry := r\<rparr>\<rparr>"

definition server_with_identity_key :: "bytes \<Rightarrow> quic_server_config \<Rightarrow> quic_server_config" where
  "server_with_identity_key k c = c\<lparr>sc_config := (sc_config c)\<lparr>qc_identity_public_key := k\<rparr>\<rparr>"

definition server_with_keylog_file :: "bytes \<Rightarrow> quic_server_config \<Rightarrow> quic_server_config" where
  "server_with_keylog_file p c = c\<lparr>sc_config := (sc_config c)\<lparr>qc_keylog_file := Some p\<rparr>\<rparr>"

section \<open>The C endpoint and its memory\<close>

datatype network_backend = Xdp int int bytes "nat list" | Udp nat | Stub

text \<open>
  What is allocated: the memory of an endpoint, network contexts, the leaked transmit interface with its context
  pointer, the leaked callback context with its tracker, and trackers with the connections they hold.
\<close>

datatype qblock = QuicMem | NetCtx network_backend | Aio nat | ServerCtx nat | Tracker "nat list"

text \<open>The fields of the C configuration that \<open>init\<close> writes; \<open>retry\<close> and \<open>keep_alive\<close> are 0 or 1.\<close>

record raw_config =
  rc_role :: int
  rc_retry :: int
  rc_tick_per_us :: u64
  rc_idle_timeout :: nat
  rc_keep_alive :: int
  rc_ack_delay :: nat
  rc_ack_threshold :: nat
  rc_retry_ttl :: nat
  rc_tls_hs_ttl :: nat
  rc_initial_rx_max_stream_data :: nat
  rc_dscp :: u8
  rc_identity_public_key :: bytes
  rc_keylog_file :: bytes
  rc_keep_timed_out :: int

text \<open>
  \<open>c_service\<close> and \<open>c_process_packet\<close> also give the calls of \<open>conn_new\<close> they made, connection and context, in order.
  The sockets of the system: binding gives a socket or the text of an error.
\<close>

type_synonym ipv4 = "u8 \<times> u8 \<times> u8 \<times> u8"

record 's quic_lib =
  c_quic_align :: nat
  c_quic_footprint :: "quic_limits \<Rightarrow> nat"
  c_quic_new :: "nat \<Rightarrow> quic_limits \<Rightarrow> 's \<Rightarrow> (nat \<times> 's) option"
  c_quic_join :: "nat \<Rightarrow> 's \<Rightarrow> (nat \<times> 's) option"
  c_quic_leave :: "nat \<Rightarrow> 's \<Rightarrow> (nat \<times> 's) option"
  c_quic_delete :: "nat \<Rightarrow> 's \<Rightarrow> (nat \<times> 's) option"
  c_quic_init :: "nat \<Rightarrow> raw_config \<Rightarrow> nat \<Rightarrow> nat \<Rightarrow> 's \<Rightarrow> (nat \<times> 's) option"
  c_quic_fini :: "nat \<Rightarrow> 's \<Rightarrow> (nat \<times> 's) option"
  c_quic_connect :: "nat \<Rightarrow> u32 \<Rightarrow> nat \<Rightarrow> u32 \<Rightarrow> nat \<Rightarrow> 's \<Rightarrow> (nat \<times> 's) option"
  c_service :: "nat \<Rightarrow> 's \<Rightarrow> ((nat \<times> (nat \<times> nat) list) \<times> 's) option"
  c_process_packet :: "nat \<Rightarrow> bytes \<Rightarrow> 's \<Rightarrow> ((nat \<times> nat) list \<times> 's) option"
  c_conn_close :: "nat \<Rightarrow> u32 \<Rightarrow> 's \<Rightarrow> (unit \<times> 's) option"
  c_conn_let_die :: "nat \<Rightarrow> nat \<Rightarrow> 's \<Rightarrow> (unit \<times> 's) option"
  c_conn_new_stream :: "nat \<Rightarrow> 's \<Rightarrow> (nat \<times> 's) option"
  c_conn_state :: "nat \<Rightarrow> 's \<Rightarrow> nat"
  c_stream_send :: "nat \<Rightarrow> bytes \<Rightarrow> int \<Rightarrow> 's \<Rightarrow> (int \<times> 's) option"
  c_stream_fin :: "nat \<Rightarrow> 's \<Rightarrow> (unit \<times> 's) option"
  c_role_client :: int
  c_role_server :: int
  c_keylog_len :: nat
  c_xdp_install :: "nat \<Rightarrow> u32 \<Rightarrow> nat list \<Rightarrow> bytes \<Rightarrow> 's \<Rightarrow> ((int \<times> int) \<times> 's) option"
  os_if_nametoindex :: "bytes \<Rightarrow> nat"
  os_udp_bind :: "ipv4 \<Rightarrow> nat \<Rightarrow> (nat, bytes) res"
  os_set_nonblocking :: "nat \<Rightarrow> bytes option"
  os_nul_error :: bytes
  os_send :: "nat \<Rightarrow> bytes \<Rightarrow> bool"

type_synonym 's quic_state = "'s \<times> qblock heap"
type_synonym ('a, 's) quic_call = "('a, quic_error) res \<times> 's quic_state"

text \<open>A C call on an endpoint: a pointer into released memory is a use after free; null is up to the C function.\<close>

definition on_quic :: "nat \<Rightarrow> ('s \<Rightarrow> ('x \<times> 's) option) \<Rightarrow> ('x \<Rightarrow> 's quic_state \<Rightarrow> ('a, 's) quic_call) \<Rightarrow> 's quic_state \<Rightarrow> ('a, 's) quic_call" where
  "on_quic q f k st =
     (if q \<noteq> 0 \<and> cells (snd st) q = None then (Panic, st)
      else case f (fst st) of None \<Rightarrow> (Panic, st) | Some (x, s) \<Rightarrow> k x (s, snd st))"

definition andthen :: "('a, 's) quic_call \<Rightarrow> ('a \<Rightarrow> 's quic_state \<Rightarrow> ('b, 's) quic_call) \<Rightarrow> ('b, 's) quic_call" where
  "andthen r k = (case r of (Ok x, st) \<Rightarrow> k x st | (Err e, st) \<Rightarrow> (Err e, st) | (Panic, st) \<Rightarrow> (Panic, st))"

lemma andthen_simps [simp]:
  "andthen (Ok x, st) k = k x st" "andthen (Err e, st) k = (Err e, st)" "andthen (Panic, st) k = (Panic, st)"
  by (simp_all add: andthen_def)

definition release_block :: "nat \<Rightarrow> 's quic_state \<Rightarrow> (unit, 's) quic_call" where
  "release_block p st = (case h_free p (snd st) of Ok h \<Rightarrow> (Ok (), fst st, h) | Err e \<Rightarrow> (Err e, st) | Panic \<Rightarrow> (Panic, st))"

record quic =
  qu_quic :: nat
  qu_mem :: nat

text \<open>\<open>oom\<close> says whether the allocation fails.\<close>

definition quic_new :: "'s quic_lib \<Rightarrow> bool \<Rightarrow> quic_limits \<Rightarrow> 's quic_state \<Rightarrow> (quic, 's) quic_call" where
  "quic_new lib oom limits st =
     (let align = c_quic_align lib; footprint = c_quic_footprint lib limits
      in if footprint = 0 then (Err (ConfigError (ascii ''invalid limits'')), st)
         else if \<not> layout_ok footprint align then (Err AllocationFailed, st)
         else if oom then (Err AllocationFailed, st)
         else case h_alloc QuicMem (snd st) of (mem, h) \<Rightarrow>
              (case c_quic_new lib mem limits (fst st) of
                 None \<Rightarrow> (Panic, fst st, h)
               | Some (q, s) \<Rightarrow>
                   if q = 0 then andthen (release_block mem (s, h)) (\<lambda>_ st. (Err (Internal (ascii ''QUIC initialization failed'')), st))
                   else (Ok \<lparr>qu_quic = q, qu_mem = mem\<rparr>, s, h)))"

text \<open>A handle is the pointer that \<open>fd_quic_join\<close> returns.\<close>

definition quic_join :: "'s quic_lib \<Rightarrow> quic \<Rightarrow> 's quic_state \<Rightarrow> (nat, 's) quic_call" where
  "quic_join lib u = on_quic (qu_quic u) (c_quic_join lib (qu_quic u))
     (\<lambda>q st. (if q = 0 then Err (Internal (ascii ''failed to join QUIC instance'')) else Ok q, st))"

definition quic_drop :: "'s quic_lib \<Rightarrow> quic \<Rightarrow> 's quic_state \<Rightarrow> (unit, 's) quic_call" where
  "quic_drop lib u = on_quic (qu_quic u) (c_quic_delete lib (qu_quic u)) (\<lambda>_. release_block (qu_mem u))"

definition handle_drop :: "'s quic_lib \<Rightarrow> nat \<Rightarrow> 's quic_state \<Rightarrow> (unit, 's) quic_call" where
  "handle_drop lib q = on_quic q (c_quic_leave lib q) (\<lambda>_ st. (Ok (), st))"

record active_quic =
  aq_quic :: nat
  aq_tracker :: "nat option"

definition role_raw :: "'s quic_lib \<Rightarrow> quic_role \<Rightarrow> int" where
  "role_raw lib r = (case r of Client \<Rightarrow> c_role_client lib | Server \<Rightarrow> c_role_server lib)"

text \<open>
  The key log path: zeros, then as many bytes of the path as leave room for a terminator. An empty array makes the
  subtraction underflow.
\<close>

definition keylog_field :: "nat \<Rightarrow> bytes option \<Rightarrow> (bytes, quic_error) res" where
  "keylog_field n path =
     (let buf = replicate n 0
      in case path of
           None \<Rightarrow> Ok buf
         | Some p \<Rightarrow> if n = 0 then Panic
                     else let copy_len = min (length p) (n - 1) in Ok (take copy_len p @ drop copy_len buf))"

definition raw_config_of :: "'s quic_lib \<Rightarrow> quic_config \<Rightarrow> (raw_config, quic_error) res" where
  "raw_config_of lib c =
     res_bind (keylog_field (c_keylog_len lib) (qc_keylog_file c)) (\<lambda>keylog.
     Ok \<lparr>rc_role = role_raw lib (qc_role c), rc_retry = (if qc_retry c then 1 else 0), rc_tick_per_us = qc_tick_per_us c,
       rc_idle_timeout = qc_idle_timeout c, rc_keep_alive = (if qc_keep_alive c then 1 else 0), rc_ack_delay = qc_ack_delay c,
       rc_ack_threshold = qc_ack_threshold c, rc_retry_ttl = qc_retry_ttl c, rc_tls_hs_ttl = qc_tls_hs_ttl c,
       rc_initial_rx_max_stream_data = qc_initial_rx_max_stream_data c, rc_dscp = qc_dscp c,
       rc_identity_public_key = qc_identity_public_key c, rc_keylog_file = keylog, rc_keep_timed_out = 0\<rparr>)"

text \<open>
  The transmit interface and, for a server, the callback context are leaked. The handle is dropped on every path,
  behind the call.
\<close>

definition handle_init ::
  "'s quic_lib \<Rightarrow> nat \<Rightarrow> quic_config \<Rightarrow> nat option \<Rightarrow> 's quic_state \<Rightarrow> (active_quic, 's) quic_call" where
  "handle_init lib q config network_context st =
     (if cells (snd st) q = None then (Panic, st)
      else case raw_config_of lib config of
        Err e \<Rightarrow> (Err e, st)
      | Panic \<Rightarrow> (Panic, st)
      | Ok raw \<Rightarrow>
          (case h_alloc (Aio (case network_context of Some p \<Rightarrow> p | None \<Rightarrow> 0)) (snd st) of (aio_tx, h) \<Rightarrow>
           case (if qc_role config = Server
                 then case h_alloc (Tracker []) h of (tracker, h) \<Rightarrow>
                      case h_alloc (ServerCtx tracker) h of (ctx, h) \<Rightarrow> (ctx, Some tracker, h)
                 else (0, None, h)) of (quic_ctx, tracker, h) \<Rightarrow>
           case on_quic q (c_quic_init lib q raw aio_tx quic_ctx)
                  (\<lambda>p st. (if p = 0 then Err (Internal (ascii ''QUIC init failed'')) else Ok \<lparr>aq_quic = p, aq_tracker = tracker\<rparr>, st))
                  (fst st, h) of
             (Panic, st) \<Rightarrow> (Panic, st)
           | (r, st) \<Rightarrow> andthen (handle_drop lib q st) (\<lambda>_ st. (r, st))))"

text \<open>
  The send function of the transmit interface: with sockets it counts what was sent, without them it claims the whole
  batch. \<open>None\<close> is a null pointer, for the batch and for a buffer.
\<close>

definition send_via_aio_be :: "'s quic_lib \<Rightarrow> nat \<Rightarrow> bytes option list option \<Rightarrow> qblock heap \<Rightarrow> (int, quic_error) res" where
  "send_via_aio_be lib ctx batch h =
     (if ctx = 0 then Ok 0
      else case batch of
        None \<Rightarrow> Ok 0
      | Some pkts \<Rightarrow>
          (let all = sint (of_nat (length pkts) :: 32 word)
           in case cells h ctx of
                Some (NetCtx (Xdp _ _ _ _)) \<Rightarrow> Ok all
              | Some (NetCtx (Udp socket)) \<Rightarrow>
                  Ok (int (length (filter (\<lambda>p. case p of None \<Rightarrow> False | Some d \<Rightarrow> d \<noteq> [] \<and> os_send lib socket d) pkts)))
              | Some (NetCtx Stub) \<Rightarrow> Ok all
              | _ \<Rightarrow> Panic))"

section \<open>New connections\<close>

definition conn_new_cb :: "nat \<Rightarrow> nat \<Rightarrow> qblock heap \<Rightarrow> (qblock heap, quic_error) res" where
  "conn_new_cb conn quic_ctx h =
     (if quic_ctx = 0 then Ok h
      else case cells h quic_ctx of
             Some (ServerCtx t) \<Rightarrow>
               (case cells h t of
                  Some (Tracker cs) \<Rightarrow> Ok (h\<lparr>cells := (cells h)(t \<mapsto> Tracker (cs @ [conn]))\<rparr>)
                | _ \<Rightarrow> Panic)
           | _ \<Rightarrow> Panic)"

fun report :: "(nat \<times> nat) list \<Rightarrow> qblock heap \<Rightarrow> (qblock heap, quic_error) res" where
  "report [] h = Ok h"
| "report ((conn, ctx) # cs) h = res_bind (conn_new_cb conn ctx h) (report cs)"

definition reporting :: "(nat \<times> nat) list \<Rightarrow> 'a \<Rightarrow> 's quic_state \<Rightarrow> ('a, 's) quic_call" where
  "reporting cs x st = (case report cs (snd st) of Ok h \<Rightarrow> (Ok x, fst st, h) | Err e \<Rightarrow> (Err e, st) | Panic \<Rightarrow> (Panic, st))"

definition active_service :: "'s quic_lib \<Rightarrow> active_quic \<Rightarrow> 's quic_state \<Rightarrow> (nat, 's) quic_call" where
  "active_service lib a = on_quic (aq_quic a) (c_service lib (aq_quic a)) (\<lambda>(n, cs). reporting cs n)"

definition active_process_packet :: "'s quic_lib \<Rightarrow> active_quic \<Rightarrow> bytes \<Rightarrow> 's quic_state \<Rightarrow> (unit, 's) quic_call" where
  "active_process_packet lib a data = on_quic (aq_quic a) (c_process_packet lib (aq_quic a) data) (\<lambda>cs. reporting cs ())"

definition active_get_new_connections :: "active_quic \<Rightarrow> 's quic_state \<Rightarrow> (nat list, 's) quic_call" where
  "active_get_new_connections a st =
     (case aq_tracker a of
        None \<Rightarrow> (Ok [], st)
      | Some t \<Rightarrow>
          (case cells (snd st) t of
             Some (Tracker cs) \<Rightarrow> (Ok cs, fst st, (snd st)\<lparr>cells := (cells (snd st))(t \<mapsto> Tracker [])\<rparr>)
           | _ \<Rightarrow> (Panic, st)))"

definition active_drop :: "'s quic_lib \<Rightarrow> active_quic \<Rightarrow> 's quic_state \<Rightarrow> (unit, 's) quic_call" where
  "active_drop lib a = on_quic (aq_quic a) (c_quic_fini lib (aq_quic a)) (\<lambda>_ st. (Ok (), st))"

text \<open>\<open>u32::from(ip).to_be()\<close>: the octets, the first of them lowest; \<open>u32::from_be_bytes\<close>: the first highest.\<close>

fun ip_to_be :: "ipv4 \<Rightarrow> u32" where
  "ip_to_be (a, b, c, d) = of_nat (unat a + 256 * (unat b + 256 * (unat c + 256 * unat d)))"

fun ip_from_be_bytes :: "ipv4 \<Rightarrow> u32" where
  "ip_from_be_bytes (a, b, c, d) = of_nat (unat d + 256 * (unat c + 256 * (unat b + 256 * unat a)))"

definition active_connect ::
  "'s quic_lib \<Rightarrow> active_quic \<Rightarrow> ipv4 \<times> nat \<Rightarrow> ipv4 \<times> nat \<Rightarrow> 's quic_state \<Rightarrow> (nat, 's) quic_call" where
  "active_connect lib a dst src =
     on_quic (aq_quic a) (c_quic_connect lib (aq_quic a) (ip_to_be (fst dst)) (snd dst) (ip_to_be (fst src)) (snd src))
       (\<lambda>conn st. (if conn = 0 then Err (ConnectionFailed (ascii ''failed to create connection'')) else Ok conn, st))"

section \<open>Connections and streams\<close>

definition c_only :: "('s \<Rightarrow> ('x \<times> 's) option) \<Rightarrow> ('x \<Rightarrow> ('a, quic_error) res) \<Rightarrow> 's quic_state \<Rightarrow> ('a, 's) quic_call" where
  "c_only f k st = (case f (fst st) of None \<Rightarrow> (Panic, st) | Some (x, s) \<Rightarrow> (k x, s, snd st))"

definition conn_close :: "'s quic_lib \<Rightarrow> nat \<Rightarrow> u32 \<Rightarrow> 's quic_state \<Rightarrow> (unit, 's) quic_call" where
  "conn_close lib conn reason = c_only (c_conn_close lib conn reason) Ok"

definition conn_let_die :: "'s quic_lib \<Rightarrow> nat \<Rightarrow> nat \<Rightarrow> 's quic_state \<Rightarrow> (unit, 's) quic_call" where
  "conn_let_die lib conn ticks = c_only (c_conn_let_die lib conn ticks) Ok"

definition conn_new_stream :: "'s quic_lib \<Rightarrow> nat \<Rightarrow> 's quic_state \<Rightarrow> (nat, 's) quic_call" where
  "conn_new_stream lib conn =
     c_only (c_conn_new_stream lib conn) (\<lambda>x. if x = 0 then Err (StreamError (ascii ''failed to create stream'')) else Ok x)"

definition conn_is_active :: "'s quic_lib \<Rightarrow> nat \<Rightarrow> 's quic_state \<Rightarrow> bool" where
  "conn_is_active lib conn st \<longleftrightarrow> c_conn_state lib conn (fst st) = 3"

definition stream_send :: "'s quic_lib \<Rightarrow> nat \<Rightarrow> bytes \<Rightarrow> bool \<Rightarrow> 's quic_state \<Rightarrow> (unit, 's) quic_call" where
  "stream_send lib stream data fin =
     c_only (c_stream_send lib stream data (if fin then 1 else 0))
       (\<lambda>result. if result = 0 then Ok ()
         else if result = -1 then Err (StreamError (ascii ''invalid stream''))
         else if result = -2 then Err (StreamError (ascii ''invalid connection''))
         else if result = -3 then Err (StreamError (ascii ''try again''))
         else Err (StreamError (ascii ''unknown error'')))"

definition stream_fin :: "'s quic_lib \<Rightarrow> nat \<Rightarrow> 's quic_state \<Rightarrow> (unit, 's) quic_call" where
  "stream_fin lib stream = c_only (c_stream_fin lib stream) Ok"

record quic_connection =
  qn_connection :: nat
  qn_active_quic :: active_quic

definition qc_open_stream :: "'s quic_lib \<Rightarrow> quic_connection \<Rightarrow> 's quic_state \<Rightarrow> (nat, 's) quic_call" where
  "qc_open_stream lib c = conn_new_stream lib (qn_connection c)"

definition qc_is_active :: "'s quic_lib \<Rightarrow> quic_connection \<Rightarrow> 's quic_state \<Rightarrow> bool" where
  "qc_is_active lib c = conn_is_active lib (qn_connection c)"

definition qc_close :: "'s quic_lib \<Rightarrow> quic_connection \<Rightarrow> u32 \<Rightarrow> 's quic_state \<Rightarrow> (unit, 's) quic_call" where
  "qc_close lib c reason = conn_close lib (qn_connection c) reason"

definition qc_service :: "'s quic_lib \<Rightarrow> quic_connection \<Rightarrow> 's quic_state \<Rightarrow> (nat, 's) quic_call" where
  "qc_service lib c = active_service lib (qn_active_quic c)"

definition qc_process_packet :: "'s quic_lib \<Rightarrow> quic_connection \<Rightarrow> bytes \<Rightarrow> 's quic_state \<Rightarrow> (unit, 's) quic_call" where
  "qc_process_packet lib c data = active_process_packet lib (qn_active_quic c) data"

definition qs_write :: "'s quic_lib \<Rightarrow> nat \<Rightarrow> bytes \<Rightarrow> 's quic_state \<Rightarrow> (unit, 's) quic_call" where
  "qs_write lib stream data = stream_send lib stream data False"

definition qs_write_all :: "'s quic_lib \<Rightarrow> nat \<Rightarrow> bytes \<Rightarrow> 's quic_state \<Rightarrow> (unit, 's) quic_call" where
  "qs_write_all lib stream data = stream_send lib stream data False"

definition qs_finish :: "'s quic_lib \<Rightarrow> nat \<Rightarrow> 's quic_state \<Rightarrow> (unit, 's) quic_call" where
  "qs_finish lib stream = stream_fin lib stream"

definition qs_send_with_fin :: "'s quic_lib \<Rightarrow> nat \<Rightarrow> bytes \<Rightarrow> 's quic_state \<Rightarrow> (unit, 's) quic_call" where
  "qs_send_with_fin lib stream data = stream_send lib stream data True"

section \<open>Client\<close>

record quic_client =
  ql_quic :: quic
  ql_config :: quic_client_config

definition client_new :: "'s quic_lib \<Rightarrow> bool \<Rightarrow> quic_client_config \<Rightarrow> 's quic_state \<Rightarrow> (quic_client, 's) quic_call" where
  "client_new lib oom config st =
     andthen (quic_new lib oom (cc_limits config) st) (\<lambda>q st. (Ok \<lparr>ql_quic = q, ql_config = config\<rparr>, st))"

text \<open>An endpoint whose connection fails is dropped.\<close>

definition quic_client_connect ::
  "'s quic_lib \<Rightarrow> quic_client \<Rightarrow> ipv4 \<times> nat \<Rightarrow> ipv4 \<times> nat \<Rightarrow> 's quic_state \<Rightarrow> (quic_connection, 's) quic_call" where
  "quic_client_connect lib c server_addr local_addr st =
     andthen (quic_join lib (ql_quic c) st) (\<lambda>handle st.
     andthen (handle_init lib handle (cc_config (ql_config c)) None st) (\<lambda>active st.
       case active_connect lib active server_addr local_addr st of
         (Ok conn, st) \<Rightarrow> (Ok \<lparr>qn_connection = conn, qn_active_quic = active\<rparr>, st)
       | (Err e, st) \<Rightarrow> andthen (active_drop lib active st) (\<lambda>_ st. (Err e, st))
       | (Panic, st) \<Rightarrow> (Panic, st)))"

definition client_drop :: "'s quic_lib \<Rightarrow> quic_client \<Rightarrow> 's quic_state \<Rightarrow> (unit, 's) quic_call" where
  "client_drop lib c = quic_drop lib (ql_quic c)"

text \<open>A \<open>Connection\<close> has no destructor; the endpoint beside it has.\<close>

definition connection_drop :: "'s quic_lib \<Rightarrow> quic_connection \<Rightarrow> 's quic_state \<Rightarrow> (unit, 's) quic_call" where
  "connection_drop lib c = active_drop lib (qn_active_quic c)"

section \<open>Server\<close>

record quic_server =
  sv_quic :: quic
  sv_config :: quic_server_config
  sv_bind_addr :: "(ipv4 \<times> nat) option"
  sv_network_context :: "nat option"
  sv_interface_name :: "bytes option"
  sv_active_quic :: "active_quic option"

definition quic_server_new :: "'s quic_lib \<Rightarrow> bool \<Rightarrow> quic_server_config \<Rightarrow> 's quic_state \<Rightarrow> (quic_server, 's) quic_call" where
  "quic_server_new lib oom config st =
     andthen (quic_new lib oom (sc_limits config) st) (\<lambda>q st.
       (Ok \<lparr>sv_quic = q, sv_config = config, sv_bind_addr = None, sv_network_context = None, sv_interface_name = None,
          sv_active_quic = None\<rparr>, st))"

definition server_with_interface :: "bytes \<Rightarrow> quic_server \<Rightarrow> quic_server" where
  "server_with_interface interface v = v\<lparr>sv_interface_name := Some interface\<rparr>"

definition try_setup_xdp :: "'s quic_lib \<Rightarrow> quic_server \<Rightarrow> ipv4 \<times> nat \<Rightarrow> 's quic_state \<Rightarrow> (nat, 's) quic_call" where
  "try_setup_xdp lib v addr st =
     (case sv_interface_name v of
        None \<Rightarrow> (Err (Internal (ascii ''Interface name required for XDP setup'')), st)
      | Some name \<Rightarrow>
          (case cstring_new name of
             None \<Rightarrow> (Err (Internal (ascii ''Invalid interface name: '' @ os_nul_error lib)), st)
           | Some c_name \<Rightarrow>
               (let if_idx = os_if_nametoindex lib c_name; ports = [snd addr]; listen_ip = ip_from_be_bytes (fst addr)
                in if if_idx = 0 then (Err (Internal (ascii ''Interface '' @ name @ ascii '' not found'')), st)
                   else case c_xdp_install lib if_idx listen_ip ports (ascii ''skb'') (fst st) of
                          None \<Rightarrow> (Panic, st)
                        | Some ((xsk_map_fd, prog_link_fd), s) \<Rightarrow>
                            (case h_alloc (NetCtx (Xdp xsk_map_fd prog_link_fd name ports)) (snd st) of
                               (ctx, h) \<Rightarrow> (Ok ctx, s, h)))))"

definition setup_udp :: "'s quic_lib \<Rightarrow> ipv4 \<times> nat \<Rightarrow> 's quic_state \<Rightarrow> (nat, 's) quic_call" where
  "setup_udp lib addr st =
     (case os_udp_bind lib (fst addr) (snd addr) of
        Err e \<Rightarrow> (Err (Internal (ascii ''Failed to bind UDP socket: '' @ e)), st)
      | Panic \<Rightarrow> (Panic, st)
      | Ok socket \<Rightarrow>
          (case os_set_nonblocking lib socket of
             Some e \<Rightarrow> (Err (Internal (ascii ''Failed to set socket non-blocking: '' @ e)), st)
           | None \<Rightarrow> (case h_alloc (NetCtx (Udp socket)) (snd st) of (ctx, h) \<Rightarrow> (Ok ctx, fst st, h))))"

text \<open>
  A failure behind the setup drops the network context. What the server held before is dropped when it is
  replaced: first the context, then the endpoint, which finishes the one memory that the new one uses too.
\<close>

definition drop_opt :: "('x \<Rightarrow> 's quic_state \<Rightarrow> (unit, 's) quic_call) \<Rightarrow> 'x option \<Rightarrow> 's quic_state \<Rightarrow> (unit, 's) quic_call" where
  "drop_opt f x st = (case x of None \<Rightarrow> (Ok (), st) | Some y \<Rightarrow> f y st)"

definition on_error :: "('s quic_state \<Rightarrow> (unit, 's) quic_call) \<Rightarrow> ('a, 's) quic_call \<Rightarrow> ('a, 's) quic_call" where
  "on_error f r = (case r of (Err e, st) \<Rightarrow> andthen (f st) (\<lambda>_ st. (Err e, st)) | _ \<Rightarrow> r)"

definition server_bind ::
  "'s quic_lib \<Rightarrow> quic_server \<Rightarrow> ipv4 \<times> nat \<Rightarrow> 's quic_state \<Rightarrow> (unit, quic_error) res \<times> quic_server \<times> 's quic_state" where
  "server_bind lib v addr st =
     (let v = v\<lparr>sv_bind_addr := Some addr\<rparr>;
          ctx = (case try_setup_xdp lib v addr st of (Err e, st) \<Rightarrow> setup_udp lib addr st | r \<Rightarrow> r)
      in case andthen ctx (\<lambda>network_context st.
           on_error (release_block network_context)
             (andthen (quic_join lib (sv_quic v) st) (\<lambda>handle st.
              andthen (handle_init lib handle (sc_config (sv_config v)) (Some network_context) st) (\<lambda>active st.
                (Ok (network_context, active), st)))))
         of
           (Ok (network_context, active), st) \<Rightarrow>
             (case andthen (drop_opt release_block (sv_network_context v) st) (\<lambda>_. drop_opt (active_drop lib) (sv_active_quic v)) of
                (r, st) \<Rightarrow> (r, v\<lparr>sv_network_context := Some network_context, sv_active_quic := Some active\<rparr>, st))
         | (Err e, st) \<Rightarrow> (Err e, v, st)
         | (Panic, st) \<Rightarrow> (Panic, v, st))"

text \<open>What the socket gives; the buffer has 1500 bytes, a longer datagram is cut.\<close>

datatype recv_result = Received bytes | WouldBlock | RecvError bytes

definition server_accept ::
  "'s quic_lib \<Rightarrow> quic_server \<Rightarrow> recv_result \<Rightarrow> 's quic_state \<Rightarrow> (quic_connection option, 's) quic_call" where
  "server_accept lib v recv st =
     (case sv_network_context v of
        None \<Rightarrow> (Err (InvalidState (ascii ''Server not bound'')), st)
      | Some ctx \<Rightarrow>
          (case sv_active_quic v of
             None \<Rightarrow> (Err (InvalidState (ascii ''Server not initialized'')), st)
           | Some active \<Rightarrow>
               (case cells (snd st) ctx of
                  Some (NetCtx (Udp socket)) \<Rightarrow>
                    (case recv of
                       Received d \<Rightarrow>
                         andthen (active_process_packet lib active (take 1500 d) st) (\<lambda>_ st.
                         andthen (active_service lib active st) (\<lambda>processed st.
                         andthen (active_get_new_connections active st) (\<lambda>new_connections st.
                           (Ok (case new_connections of
                                  [] \<Rightarrow> None
                                | conn # _ \<Rightarrow> Some \<lparr>qn_connection = conn, qn_active_quic = \<lparr>aq_quic = 0, aq_tracker = None\<rparr>\<rparr>), st))))
                     | WouldBlock \<Rightarrow> (Ok None, st)
                     | RecvError e \<Rightarrow> (Err (Io e), st))
                | Some (NetCtx (Xdp _ _ _ _)) \<Rightarrow> andthen (active_service lib active st) (\<lambda>processed st. (Ok None, st))
                | Some (NetCtx Stub) \<Rightarrow> (Ok None, st)
                | _ \<Rightarrow> (Panic, st))))"

text \<open>The fields are dropped in the order of their declaration.\<close>

definition server_drop :: "'s quic_lib \<Rightarrow> quic_server \<Rightarrow> 's quic_state \<Rightarrow> (unit, 's) quic_call" where
  "server_drop lib v st =
     andthen (quic_drop lib (sv_quic v) st) (\<lambda>_ st.
     andthen (drop_opt release_block (sv_network_context v) st) (\<lambda>_.
       drop_opt (active_drop lib) (sv_active_quic v)))"

section \<open>Laws of the C endpoint\<close>

text \<open>
  An endpoint is formatted memory, joined, or ready with the context it passes to \<open>conn_new\<close>. Leaving ends the join of an endpoint: a
  joined one is formatted memory again, of a ready one that was left (\<open>Left\<close>) the laws promise nothing at all.
\<close>

datatype quic_phase = Formatted | Joined | Ready nat | Left nat

locale quic_laws =
  fixes lib :: "'s quic_lib" and view :: "nat \<Rightarrow> 's \<Rightarrow> quic_phase option"
  assumes new_law: "0 < mem \<Longrightarrow> c_quic_footprint lib l \<noteq> 0 \<Longrightarrow> \<exists>q s'. c_quic_new lib mem l s = Some (q, s') \<and>
      (q = 0 \<or> q = mem \<and> view mem s' = Some Formatted)"
    and join_law: "view q s = Some Formatted \<Longrightarrow> \<exists>r s'. c_quic_join lib q s = Some (r, s') \<and>
      (r = 0 \<and> view q s' = Some Formatted \<or> r = q \<and> view q s' = Some Joined)"
    and leave_law: "view q s = Some Joined \<Longrightarrow> \<exists>r s'. c_quic_leave lib q s = Some (r, s') \<and> view q s' = Some Formatted"
    and leave_ready_law: "view q s = Some (Ready c) \<Longrightarrow> \<exists>r s'. c_quic_leave lib q s = Some (r, s') \<and> view q s' = Some (Left c)"
    and init_law: "view q s = Some Joined \<Longrightarrow> \<exists>r s'. c_quic_init lib q raw aio ctx s = Some (r, s') \<and>
      (r = 0 \<and> view q s' = Some Joined \<or> r = q \<and> view q s' = Some (Ready ctx))"
    and delete_law: "view q s = Some Formatted \<Longrightarrow> \<exists>r s'. c_quic_delete lib q s = Some (r, s') \<and> view q s' = None"

text \<open>
  The code drops its handle, and so leaves the endpoint, as soon as it is initialised, and goes on using the pointer: it connects, serves and
  finishes an endpoint whose join has ended. That this works is not documented; it is an assumption of its own, which everything below about
  connections and servers needs and \<open>connect_after_leave\<close> does without.
\<close>

locale quic_left = quic_laws lib view for lib :: "'s quic_lib" and view :: "nat \<Rightarrow> 's \<Rightarrow> quic_phase option" +
  assumes fini_law: "view q s = Some (Left c) \<Longrightarrow> \<exists>r s'. c_quic_fini lib q s = Some (r, s') \<and> view q s' = Some Formatted"
    and connect_law: "view q s = Some (Left c) \<Longrightarrow> \<exists>r s'. c_quic_connect lib q da dp sa sp s = Some (r, s') \<and> view q s' = Some (Left c)"
    and service_law: "view q s = Some (Left c) \<Longrightarrow> \<exists>n cs s'. c_service lib q s = Some ((n, cs), s') \<and>
      (\<forall>x \<in> set cs. snd x = c) \<and> view q s' = Some (Left c)"
    and packet_law: "view q s = Some (Left c) \<Longrightarrow> \<exists>cs s'. c_process_packet lib q d s = Some (cs, s') \<and>
      (\<forall>x \<in> set cs. snd x = c) \<and> view q s' = Some (Left c)"

section \<open>Life of a client\<close>

text \<open>One connection at a time: connect, work on it, drop it.\<close>

datatype conn_op = CService | CPacket bytes

fun conn_step :: "'s quic_lib \<Rightarrow> quic_connection \<Rightarrow> conn_op \<Rightarrow> 's quic_state \<Rightarrow> (unit, 's) quic_call" where
  "conn_step lib c CService st = andthen (qc_service lib c st) (\<lambda>_ st. (Ok (), st))"
| "conn_step lib c (CPacket d) st = qc_process_packet lib c d st"

fun conn_steps :: "'s quic_lib \<Rightarrow> quic_connection \<Rightarrow> conn_op list \<Rightarrow> 's quic_state \<Rightarrow> (unit, 's) quic_call" where
  "conn_steps lib c [] st = (Ok (), st)"
| "conn_steps lib c (p # ps) st = andthen (conn_step lib c p st) (\<lambda>_. conn_steps lib c ps)"

text \<open>A connection that could not be made is skipped.\<close>

type_synonym session = "(ipv4 \<times> nat) \<times> (ipv4 \<times> nat) \<times> conn_op list"

fun client_sessions :: "'s quic_lib \<Rightarrow> quic_client \<Rightarrow> session list \<Rightarrow> 's quic_state \<Rightarrow> (unit, 's) quic_call" where
  "client_sessions lib c [] st = (Ok (), st)"
| "client_sessions lib c ((dst, src, ops) # xs) st =
     (case quic_client_connect lib c dst src st of
        (Ok k, st) \<Rightarrow> andthen (conn_steps lib k ops st) (\<lambda>_ st. andthen (connection_drop lib k st) (\<lambda>_. client_sessions lib c xs))
      | (Err e, st) \<Rightarrow> client_sessions lib c xs st
      | (Panic, st) \<Rightarrow> (Panic, st))"

lemma keylog_field_ok: "0 < n \<Longrightarrow> \<exists>b. keylog_field n p = Ok b"
  by (cases p) (simp_all add: keylog_field_def Let_def)

text \<open>The heap grows by leaked transmit interfaces only.\<close>

definition leaks :: "qblock heap \<Rightarrow> qblock heap \<Rightarrow> bool" where
  "leaks h h' \<longleftrightarrow> heap_ok h' \<and> (\<forall>p \<in> live h. cells h' p = cells h p) \<and> (\<forall>p \<in> live h' - live h. cells h' p = Some (Aio 0))"

lemma leaks_refl: "heap_ok h \<Longrightarrow> leaks h h"
  by (simp add: leaks_def)

lemma leaks_trans:
  assumes "leaks h h1" and "leaks h1 h2" shows "leaks h h2"
proof -
  have a: "heap_ok h2" "\<And>p. p \<in> live h \<Longrightarrow> cells h1 p = cells h p" "\<And>p. p \<in> live h1 \<Longrightarrow> cells h2 p = cells h1 p"
      "\<And>p. p \<in> live h1 \<Longrightarrow> p \<notin> live h \<Longrightarrow> cells h1 p = Some (Aio 0)"
      "\<And>p. p \<in> live h2 \<Longrightarrow> p \<notin> live h1 \<Longrightarrow> cells h2 p = Some (Aio 0)"
    using assms by (auto simp: leaks_def simp del: dom_def)
  have "p \<in> live h1" if "p \<in> live h" for p using a(2) [OF that] that by (simp add: domIff)
  then show ?thesis unfolding leaks_def using a by (metis DiffE)
qed

lemma leaks_alloc:
  assumes "heap_ok h" and "h_alloc (Aio 0) h = (p, h')" shows "leaks h h'"
proof -
  obtain q h2 where a: "h_alloc (Aio 0) h = (q, h2)" "heap_ok h2" "q \<notin> live h" "cells h2 = (cells h)(q \<mapsto> Aio 0)"
    using h_allocE [OF assms(1)] by metis
  then show ?thesis using assms(2) by (auto simp: leaks_def)
qed

lemma leaks_drop:
  assumes "m \<notin> live h" and "cells h1 = (cells h)(m \<mapsto> QuicMem)" and "leaks h1 h2" and c: "cells h3 = (cells h2)(m := None)"
  shows "(\<forall>p \<in> live h. cells h3 p = cells h p) \<and> (\<forall>p \<in> live h3 - live h. cells h3 p = Some (Aio 0))"
proof (intro conjI ballI)
  fix p assume p: "p \<in> live h"
  then have "p \<in> live h1" "p \<noteq> m" "cells h1 p = cells h p" using assms(1,2) by auto
  then show "cells h3 p = cells h p" using assms(3) c by (simp add: leaks_def)
next
  fix p assume p: "p \<in> live h3 - live h"
  then have "p \<noteq> m" "p \<in> live h2" using c by (auto simp: domIff)
  moreover have "p \<notin> live h1" using p calculation(1) assms(2) by (simp add: domIff)
  ultimately show "cells h3 p = Some (Aio 0)" using assms(3) c by (simp add: leaks_def)
qed

context quic_laws
begin

definition phase :: "nat \<Rightarrow> quic_phase \<Rightarrow> 's quic_state \<Rightarrow> bool" where
  "phase q ph st \<longleftrightarrow> 0 < q \<and> view q (fst st) = Some ph \<and> cells (snd st) q = Some QuicMem \<and> heap_ok (snd st)"

lemma phase_on_quic:
  "phase q ph st \<Longrightarrow> on_quic q f k st = (case f (fst st) of None \<Rightarrow> (Panic, st) | Some (x, s) \<Rightarrow> k x (s, snd st))"
  by (simp add: phase_def on_quic_def)

lemma report_client: "\<forall>x \<in> set cs. snd x = 0 \<Longrightarrow> report cs h = Ok h"
  by (induction cs) (auto simp: conn_new_cb_def)

lemma leave_ok:
  assumes "phase q ph st" and "ph = Joined \<and> ph' = Formatted \<or> ph = Ready c \<and> ph' = Left c"
  shows "\<exists>st'. handle_drop lib q st = (Ok (), st') \<and> phase q ph' st' \<and> snd st' = snd st"
proof -
  have v: "view q (fst st) = Some ph" using assms by (simp add: phase_def)
  obtain r s' where s: "c_quic_leave lib q (fst st) = Some (r, s')" "view q s' = Some ph'"
    using assms(2) leave_law [of q "fst st"] leave_ready_law [of q "fst st"] v by blast
  then show ?thesis using assms(1) by (simp add: handle_drop_def phase_on_quic [OF assms(1)] s(1)) (simp add: phase_def)
qed

lemma raw_config_ok: "0 < c_keylog_len lib \<Longrightarrow> \<exists>raw. raw_config_of lib cfg = Ok raw"
  using keylog_field_ok [of "c_keylog_len lib" "qc_keylog_file cfg"] by (auto simp: raw_config_of_def)

text \<open>The call of the C function and the drop of the handle behind it.\<close>

lemma init_call:
  assumes "phase q Joined st"
  shows "\<exists>r st'. on_quic q (c_quic_init lib q raw aio ctx)
        (\<lambda>p st. (if p = 0 then Err (Internal (ascii ''QUIC init failed'')) else Ok \<lparr>aq_quic = p, aq_tracker = tr\<rparr>, st)) st = (r, st') \<and>
      (\<exists>st''. handle_drop lib q st' = (Ok (), st'') \<and> snd st'' = snd st \<and>
        (r = Err (Internal (ascii ''QUIC init failed'')) \<and> phase q Formatted st'' \<or>
         r = Ok \<lparr>aq_quic = q, aq_tracker = tr\<rparr> \<and> phase q (Left ctx) st''))"
proof -
  have v: "view q (fst st) = Some Joined" using assms by (simp add: phase_def)
  obtain r s' where i: "c_quic_init lib q raw aio ctx (fst st) = Some (r, s')"
      "r = 0 \<and> view q s' = Some Joined \<or> r = q \<and> view q s' = Some (Ready ctx)"
    using init_law [OF v] by blast
  have q: "0 < q" using assms by (simp add: phase_def)
  show ?thesis
  proof (cases "r = 0")
    case True
    then have f: "phase q Joined (s', snd st)" using i(2) assms q by (auto simp: phase_def)
    then show ?thesis using leave_ok [OF f] True i(1) by (auto simp: phase_on_quic [OF assms] simp del: split_paired_Ex)
  next
    case False
    then have "phase q (Ready ctx) (s', snd st)" "r = q" using i(2) assms by (auto simp: phase_def)
    then show ?thesis using leave_ok [of q "Ready ctx" "(s', snd st)" "Left ctx" ctx] q i(1)
      by (auto simp: phase_on_quic [OF assms] simp del: split_paired_Ex)
  qed
qed

lemma phase_heap:
  "phase q ph (s, h) \<Longrightarrow> heap_ok h' \<Longrightarrow> (\<And>p. p \<in> live h \<Longrightarrow> cells h' p = cells h p) \<Longrightarrow> phase q ph (s, h')"
  by (auto simp: phase_def domIff)

lemma join_ok:
  assumes p: "phase q Formatted st" and "qu_quic u = q"
  shows "\<exists>r s'. quic_join lib u st = (r, s', snd st) \<and>
    (r = Err (Internal (ascii ''failed to join QUIC instance'')) \<and> phase q Formatted (s', snd st) \<or> r = Ok q \<and> phase q Joined (s', snd st))"
proof -
  have v: "view q (fst st) = Some Formatted" "0 < q" using p by (simp_all add: phase_def)
  obtain r s' where j: "c_quic_join lib q (fst st) = Some (r, s')" "r = 0 \<and> view q s' = Some Formatted \<or> r = q \<and> view q s' = Some Joined"
    using join_law [OF v(1)] by blast
  then show ?thesis using p v(2) assms(2) by (cases "r = 0") (auto simp: quic_join_def phase_on_quic [OF p] phase_def)
qed

lemma init_client:
  assumes p: "phase q Joined st" and "qc_role cfg = Client" and "0 < c_keylog_len lib"
  shows "\<exists>r st'. handle_init lib q cfg None st = (r, st') \<and> leaks (snd st) (snd st') \<and>
    ((\<exists>e. r = Err e) \<and> phase q Formatted st' \<or> (\<exists>a. r = Ok a \<and> aq_quic a = q) \<and> phase q (Left 0) st')"
proof -
  obtain raw where raw: "raw_config_of lib cfg = Ok raw" using raw_config_ok [OF assms(3)] by blast
  have ok: "heap_ok (snd st)" using p by (simp add: phase_def)
  obtain aio h where a: "h_alloc (Aio 0) (snd st) = (aio, h)" "heap_ok h" "aio \<notin> live (snd st)" "cells h = (cells (snd st))(aio \<mapsto> Aio 0)"
    using h_allocE [OF ok] by metis
  have l: "leaks (snd st) h" by (rule leaks_alloc [OF ok a(1)])
  have "phase q Joined (fst st, h)"
    by (rule phase_heap [of _ _ _ "snd st"]) (use p a in \<open>auto simp: phase_def domIff\<close>)
  from init_call [OF this, of raw aio 0 None] obtain r st1 st2 where c:
    "on_quic q (c_quic_init lib q raw aio 0)
        (\<lambda>p st. (if p = 0 then Err (Internal (ascii ''QUIC init failed'')) else Ok \<lparr>aq_quic = p, aq_tracker = None\<rparr>, st)) (fst st, h) = (r, st1)"
    "handle_drop lib q st1 = (Ok (), st2)" "snd st2 = h"
    "r = Err (Internal (ascii ''QUIC init failed'')) \<and> phase q Formatted st2 \<or> r = Ok \<lparr>aq_quic = q, aq_tracker = None\<rparr> \<and> phase q (Left 0) st2"
    by auto
  moreover have "cells (snd st) q \<noteq> None" using p by (simp add: phase_def)
  ultimately have "handle_init lib q cfg None st = (r, st2)" using raw a(1) assms(2) by (auto simp: handle_init_def)
  then show ?thesis using c(3,4) l by (intro exI [of _ r] exI [of _ st2]) (auto simp del: split_paired_Ex)
qed

lemma new_quic:
  assumes "heap_ok h" and "quic_new lib oom l (s, h) = (r, st')"
  shows "(\<exists>e. r = Err e) \<and> cells (snd st') = cells h \<or>
    (\<exists>m. r = Ok \<lparr>qu_quic = m, qu_mem = m\<rparr> \<and> phase m Formatted st' \<and> m \<notin> live h \<and> cells (snd st') = (cells h)(m \<mapsto> QuicMem))"
proof (cases "c_quic_footprint lib l = 0 \<or> \<not> layout_ok (c_quic_footprint lib l) (c_quic_align lib) \<or> oom")
  case True
  then show ?thesis using assms(2) by (auto simp: quic_new_def Let_def split: if_splits)
next
  case False
  obtain m h1 where m: "h_alloc QuicMem h = (m, h1)" "heap_ok h1" "m \<notin> live h" "0 < m" "cells h1 = (cells h)(m \<mapsto> QuicMem)"
    using h_allocE [OF assms(1)] by metis
  obtain q s' where q: "c_quic_new lib m l s = Some (q, s')" "q = 0 \<or> q = m \<and> view m s' = Some Formatted"
    using new_law [OF m(4)] False by blast
  show ?thesis
  proof (cases "q = 0")
    case True
    have "(cells h1)(m := None) = cells h" using m(3,5) by auto
    then show ?thesis using True False m(1,5) q(1) assms(2) by (auto simp: quic_new_def Let_def release_block_def h_free_def)
  next
    case q0: False
    then have "phase m Formatted (s', h1)" using m(2,4,5) q(2) by (simp add: phase_def)
    then show ?thesis using q0 False m q assms(2) by (auto simp: quic_new_def Let_def)
  qed
qed

lemma init_server:
  assumes p: "phase q Joined st" and "qc_role cfg = Server" and "0 < c_keylog_len lib"
  shows "\<exists>r st'. handle_init lib q cfg (Some n) st = (r, st') \<and> (\<forall>p \<in> live (snd st). cells (snd st') p = cells (snd st) p) \<and>
    ((\<exists>e. r = Err e) \<or> (\<exists>t ctx. r = Ok \<lparr>aq_quic = q, aq_tracker = Some t\<rparr> \<and> phase q (Left ctx) st' \<and> ctx \<noteq> 0 \<and>
       cells (snd st') ctx = Some (ServerCtx t) \<and> cells (snd st') t = Some (Tracker [])))"
proof -
  obtain raw where raw: "raw_config_of lib cfg = Ok raw" using raw_config_ok [OF assms(3)] by blast
  have ok: "heap_ok (snd st)" using p by (simp add: phase_def)
  obtain aio h1 where a: "h_alloc (Aio n) (snd st) = (aio, h1)" "heap_ok h1" "live h1 = insert aio (live (snd st))"
      "aio \<notin> live (snd st)" "cells h1 = (cells (snd st))(aio \<mapsto> Aio n)"
    using h_allocE [OF ok] by metis
  obtain t h2 where t: "h_alloc (Tracker []) h1 = (t, h2)" "heap_ok h2" "live h2 = insert t (live h1)" "t \<notin> live h1"
      "cells h2 = (cells h1)(t \<mapsto> Tracker [])"
    using h_allocE [OF a(2)] by metis
  obtain ctx h3 where c: "h_alloc (ServerCtx t) h2 = (ctx, h3)" "heap_ok h3" "ctx \<notin> live h2" "0 < ctx"
      "cells h3 = (cells h2)(ctx \<mapsto> ServerCtx t)"
    using h_allocE [OF t(2)] by metis
  have old: "\<forall>p \<in> live (snd st). cells h3 p = cells (snd st) p" using a(3-5) t(3-5) c(3,5) by auto
  have new: "cells h3 ctx = Some (ServerCtx t)" "cells h3 t = Some (Tracker [])" using t(3,5) c(3,5) by auto
  have "phase q Joined (fst st, h3)" by (rule phase_heap [of _ _ _ "snd st"]) (use p old c(2) in auto)
  from init_call [OF this, of raw aio ctx "Some t"] obtain r st1 st2 where r:
    "on_quic q (c_quic_init lib q raw aio ctx)
        (\<lambda>p st. (if p = 0 then Err (Internal (ascii ''QUIC init failed'')) else Ok \<lparr>aq_quic = p, aq_tracker = Some t\<rparr>, st)) (fst st, h3) = (r, st1)"
    "handle_drop lib q st1 = (Ok (), st2)" "snd st2 = h3"
    "r = Err (Internal (ascii ''QUIC init failed'')) \<and> phase q Formatted st2 \<or>
     r = Ok \<lparr>aq_quic = q, aq_tracker = Some t\<rparr> \<and> phase q (Left ctx) st2"
    by auto
  have "cells (snd st) q \<noteq> None" using p by (simp add: phase_def)
  then have "handle_init lib q cfg (Some n) st = (r, st2)" using r(1,2,4) raw a(1) t(1) c(1) assms(2) by (auto simp: handle_init_def)
  then show ?thesis using r(3,4) old new c(4)
    by (intro exI [of _ r] exI [of _ st2]) (auto simp del: split_paired_Ex)
qed

end

context quic_left
begin

lemma step_client:
  assumes "phase q (Left 0) st" and "aq_quic (qn_active_quic c) = q"
  shows "\<exists>st'. conn_step lib c p st = (Ok (), st') \<and> phase q (Left 0) st' \<and> snd st' = snd st"
proof (cases p)
  case CService
  have v: "view q (fst st) = Some (Left 0)" using assms(1) by (simp add: phase_def)
  obtain n cs s' where s: "c_service lib q (fst st) = Some ((n, cs), s')" "\<forall>x \<in> set cs. snd x = 0" "view q s' = Some (Left 0)"
    using service_law [OF v] by blast
  then show ?thesis using CService assms
    by (simp add: qc_service_def active_service_def phase_on_quic [OF assms(1)] s(1) reporting_def report_client) (simp add: phase_def)
next
  case (CPacket d)
  have v: "view q (fst st) = Some (Left 0)" using assms(1) by (simp add: phase_def)
  obtain cs s' where s: "c_process_packet lib q d (fst st) = Some (cs, s')" "\<forall>x \<in> set cs. snd x = 0" "view q s' = Some (Left 0)"
    using packet_law [OF v] by blast
  then show ?thesis using CPacket assms
    by (simp add: qc_process_packet_def active_process_packet_def phase_on_quic [OF assms(1)] s(1) reporting_def report_client)
      (simp add: phase_def)
qed

lemma steps_client:
  assumes "phase q (Left 0) st" and "aq_quic (qn_active_quic c) = q"
  shows "\<exists>st'. conn_steps lib c ps st = (Ok (), st') \<and> phase q (Left 0) st' \<and> snd st' = snd st"
  using assms(1)
proof (induction ps arbitrary: st)
  case (Cons p ps)
  obtain st1 where s1: "conn_step lib c p st = (Ok (), st1)" "phase q (Left 0) st1" "snd st1 = snd st"
    using step_client [OF Cons.prems assms(2)] by blast
  then show ?case using Cons.IH [OF s1(2)] by auto
qed simp

lemma drop_client:
  assumes "phase q (Left c) st" and "aq_quic a = q"
  shows "\<exists>st'. active_drop lib a st = (Ok (), st') \<and> phase q Formatted st' \<and> snd st' = snd st"
proof -
  have v: "view q (fst st) = Some (Left c)" using assms(1) by (simp add: phase_def)
  obtain r s' where s: "c_quic_fini lib q (fst st) = Some (r, s')" "view q s' = Some Formatted" using fini_law [OF v] by blast
  then show ?thesis using assms by (simp add: active_drop_def phase_on_quic [OF assms(1)] s(1)) (simp add: phase_def)
qed

lemma connect_client:
  assumes p: "phase q Formatted st" and "qu_quic (ql_quic c) = q" and "qc_role (cc_config (ql_config c)) = Client" and "0 < c_keylog_len lib"
  shows "\<exists>r st'. quic_client_connect lib c dst src st = (r, st') \<and> leaks (snd st) (snd st') \<and>
    ((\<exists>e. r = Err e) \<and> phase q Formatted st' \<or> (\<exists>k. r = Ok k \<and> aq_quic (qn_active_quic k) = q) \<and> phase q (Left 0) st')"
proof -
  have ok: "heap_ok (snd st)" using p by (simp add: phase_def)
  obtain r s1 where j: "quic_join lib (ql_quic c) st = (r, s1, snd st)"
      "r = Err (Internal (ascii ''failed to join QUIC instance'')) \<and> phase q Formatted (s1, snd st) \<or> r = Ok q \<and> phase q Joined (s1, snd st)"
    using join_ok [OF p assms(2)] by blast
  show ?thesis
  proof (cases "\<exists>e. r = Err e")
    case True
    then show ?thesis using j leaks_refl [OF ok] by (auto simp: quic_client_connect_def)
  next
    case False
    then have join: "quic_join lib (ql_quic c) st = (Ok q, s1, snd st)" and p1: "phase q Joined (s1, snd st)"
      using j by auto
    obtain r1 st1 where i: "handle_init lib q (cc_config (ql_config c)) None (s1, snd st) = (r1, st1)" "leaks (snd st) (snd st1)"
        "(\<exists>e. r1 = Err e) \<and> phase q Formatted st1 \<or> (\<exists>a. r1 = Ok a \<and> aq_quic a = q) \<and> phase q (Left 0) st1"
      using init_client [OF p1 assms(3,4)] by auto
    show ?thesis
    proof (cases "\<exists>e. r1 = Err e")
      case True
      then show ?thesis using i join by (auto simp: quic_client_connect_def simp del: split_paired_Ex)
    next
      case False
      then obtain a where a: "r1 = Ok a" "aq_quic a = q" and p2: "phase q (Left 0) st1" using i(3) by auto
      have v2: "view q (fst st1) = Some (Left 0)" using p2 by (simp add: phase_def)
      obtain k s2 where c: "c_quic_connect lib q (ip_to_be (fst dst)) (snd dst) (ip_to_be (fst src)) (snd src) (fst st1) = Some (k, s2)"
          "view q s2 = Some (Left 0)"
        using connect_law [OF v2] by blast
      have p3: "phase q (Left 0) (s2, snd st1)" using p2 c(2) by (simp add: phase_def)
      obtain st3 where d: "active_drop lib a (s2, snd st1) = (Ok (), st3)" "phase q Formatted st3" "snd st3 = snd st1"
        using drop_client [OF p3 a(2)] by auto
      have "active_connect lib a dst src st1 =
          (if k = 0 then Err (ConnectionFailed (ascii ''failed to create connection'')) else Ok k, s2, snd st1)"
        using a(2) c(1) by (simp add: active_connect_def phase_on_quic [OF p2])
      then show ?thesis using join i(1,2) a p3 d by (cases "k = 0") (auto simp: quic_client_connect_def simp del: split_paired_Ex)
    qed
  qed
qed

lemma sessions_ok:
  assumes "phase q Formatted st" and "qu_quic (ql_quic c) = q" and "qc_role (cc_config (ql_config c)) = Client" and "0 < c_keylog_len lib"
  shows "\<exists>st'. client_sessions lib c xs st = (Ok (), st') \<and> leaks (snd st) (snd st') \<and> phase q Formatted st'"
  using assms(1)
proof (induction xs arbitrary: st)
  case Nil
  then show ?case using leaks_refl [of "snd st"] by (simp add: phase_def)
next
  case (Cons x xs)
  obtain dst src ops where x: "x = (dst, src, ops)" by (cases x) auto
  obtain r st1 where r: "quic_client_connect lib c dst src st = (r, st1)" "leaks (snd st) (snd st1)"
      "(\<exists>e. r = Err e) \<and> phase q Formatted st1 \<or> (\<exists>k. r = Ok k \<and> aq_quic (qn_active_quic k) = q) \<and> phase q (Left 0) st1"
    using connect_client [OF Cons.prems assms(2-4), of dst src] by (elim exE conjE) (rule that)
  show ?case
  proof (cases "\<exists>e. r = Err e")
    case True
    then obtain e where e: "r = Err e" "phase q Formatted st1" using r(3) by auto
    obtain st2 where "client_sessions lib c xs st1 = (Ok (), st2)" "leaks (snd st1) (snd st2)" "phase q Formatted st2"
      using Cons.IH [OF e(2)] by blast
    moreover from this have "client_sessions lib c (x # xs) st = (Ok (), st2)" using x r(1) e(1) by simp
    ultimately show ?thesis using leaks_trans [OF r(2)] by blast
  next
    case False
    then obtain k where k: "r = Ok k" "aq_quic (qn_active_quic k) = q" and p1: "phase q (Left 0) st1" using r(3) by auto
    obtain st2 where s2: "conn_steps lib k ops st1 = (Ok (), st2)" "phase q (Left 0) st2" "snd st2 = snd st1"
      using steps_client [OF p1 k(2)] by blast
    obtain st3 where s3: "connection_drop lib k st2 = (Ok (), st3)" "phase q Formatted st3" "snd st3 = snd st2"
      using drop_client [OF s2(2) k(2)] by (auto simp: connection_drop_def)
    obtain st4 where s4: "client_sessions lib c xs st3 = (Ok (), st4)" "leaks (snd st3) (snd st4)" "phase q Formatted st4"
      using Cons.IH [OF s3(2)] by blast
    have "client_sessions lib c (x # xs) st = (Ok (), st4)" using x r(1) k(1) s2(1) s3(1) s4(1) by simp
    moreover have "leaks (snd st) (snd st4)" using leaks_trans [OF r(2)] s2(3) s3(3) s4(2) by simp
    ultimately show ?thesis using s4(3) by blast
  qed
qed

end

section \<open>Life of a server\<close>

fun server_run :: "'s quic_lib \<Rightarrow> quic_server \<Rightarrow> recv_result list \<Rightarrow> 's quic_state \<Rightarrow>
   (quic_connection option, quic_error) res list \<times> 's quic_state" where
  "server_run lib v [] st = ([], st)"
| "server_run lib v (r # rs) st =
     (case server_accept lib v r st of (x, st) \<Rightarrow> case server_run lib v rs st of (xs, st) \<Rightarrow> (x # xs, st))"

text \<open>
  What the C endpoint reports for each datagram, by its own state alone, and the connection that stands for a report.
\<close>

definition reports_of :: "'s quic_lib \<Rightarrow> nat \<Rightarrow> bytes \<Rightarrow> 's \<Rightarrow> nat list \<times> 's" where
  "reports_of lib q d s =
     (case c_process_packet lib q d s of
        None \<Rightarrow> ([], s)
      | Some (cs, s) \<Rightarrow>
          (case c_service lib q s of None \<Rightarrow> (map fst cs, s) | Some ((n, cs'), s) \<Rightarrow> (map fst (cs @ cs'), s)))"

fun spec_reports :: "'s quic_lib \<Rightarrow> nat \<Rightarrow> recv_result list \<Rightarrow> 's \<Rightarrow> (nat list, quic_error) res list" where
  "spec_reports lib q [] s = []"
| "spec_reports lib q (Received d # rs) s =
     (case reports_of lib q (take 1500 d) s of (cs, s) \<Rightarrow> Ok cs # spec_reports lib q rs s)"
| "spec_reports lib q (WouldBlock # rs) s = Ok [] # spec_reports lib q rs s"
| "spec_reports lib q (RecvError e # rs) s = Err (Io e) # spec_reports lib q rs s"

definition first_connection :: "nat list \<Rightarrow> quic_connection option" where
  "first_connection cs = (case cs of [] \<Rightarrow> None
     | c # _ \<Rightarrow> Some \<lparr>qn_connection = c, qn_active_quic = \<lparr>aq_quic = 0, aq_tracker = None\<rparr>\<rparr>)"

lemma report_server:
  assumes "cells h ctx = Some (ServerCtx t)" and "cells h t = Some (Tracker ds)" and "ctx \<noteq> 0" and "\<forall>x \<in> set cs. snd x = ctx"
  shows "report cs h = Ok (h\<lparr>cells := (cells h)(t \<mapsto> Tracker (ds @ map fst cs))\<rparr>)"
  using assms
proof (induction cs arbitrary: h ds)
  case Nil
  then have e: "h\<lparr>cells := (cells h)(t \<mapsto> Tracker ds)\<rparr> = h" by (simp add: fun_upd_idem)
  show ?case unfolding report.simps list.map append_Nil2 e ..
next
  case (Cons x cs)
  obtain c where x: "x = (c, ctx)" using Cons.prems(4) by (cases x) auto
  let ?h = "h\<lparr>cells := (cells h)(t \<mapsto> Tracker (ds @ [c]))\<rparr>"
  have "ctx \<noteq> t" using Cons.prems(1,2) by auto
  then have i: "report cs ?h = Ok (?h\<lparr>cells := (cells ?h)(t \<mapsto> Tracker ((ds @ [c]) @ map fst cs))\<rparr>)"
    using Cons.prems by (intro Cons.IH) auto
  have "(cells h)(t \<mapsto> Tracker (ds @ [c]), t \<mapsto> Tracker (ds @ c # map fst cs)) = (cells h)(t \<mapsto> Tracker (ds @ c # map fst cs))"
    by (rule fun_upd_upd)
  then have e: "?h\<lparr>cells := (cells ?h)(t \<mapsto> Tracker ((ds @ [c]) @ map fst cs))\<rparr> =
      h\<lparr>cells := (cells h)(t \<mapsto> Tracker (ds @ map fst (x # cs)))\<rparr>"
    using x by simp
  have "report (x # cs) h = report cs ?h" using x Cons.prems(1-3) by (simp add: conn_new_cb_def)
  then show ?case unfolding i e .
qed

context quic_left
begin

text \<open>Bound to a socket, with an empty tracker.\<close>

definition server_ok :: "quic_server \<Rightarrow> 's quic_state \<Rightarrow> bool" where
  "server_ok v st \<longleftrightarrow> (\<exists>n sock t ctx. sv_network_context v = Some n \<and> cells (snd st) n = Some (NetCtx (Udp sock)) \<and>
     sv_active_quic v = Some \<lparr>aq_quic = qu_quic (sv_quic v), aq_tracker = Some t\<rparr> \<and> qu_mem (sv_quic v) = qu_quic (sv_quic v) \<and>
     phase (qu_quic (sv_quic v)) (Left ctx) st \<and> ctx \<noteq> 0 \<and> cells (snd st) ctx = Some (ServerCtx t) \<and>
     cells (snd st) t = Some (Tracker []))"

lemma accept_received:
  assumes "server_ok v st"
  shows "\<exists>st'. server_accept lib v (Received d) st =
      (Ok (first_connection (fst (reports_of lib (qu_quic (sv_quic v)) (take 1500 d) (fst st)))), st') \<and> server_ok v st' \<and>
    fst st' = snd (reports_of lib (qu_quic (sv_quic v)) (take 1500 d) (fst st))"
proof -
  let ?q = "qu_quic (sv_quic v)"
  from assms obtain n sock t ctx where o: "sv_network_context v = Some n" "cells (snd st) n = Some (NetCtx (Udp sock))"
      "sv_active_quic v = Some \<lparr>aq_quic = ?q, aq_tracker = Some t\<rparr>" "qu_mem (sv_quic v) = ?q"
      "phase ?q (Left ctx) st" "ctx \<noteq> 0" "cells (snd st) ctx = Some (ServerCtx t)" "cells (snd st) t = Some (Tracker [])"
    by (auto simp: server_ok_def)
  have d: "t \<noteq> n" "t \<noteq> ?q" "t \<noteq> ctx" using o(2,5,7,8) by (auto simp: phase_def)
  have v1: "view ?q (fst st) = Some (Left ctx)" using o(5) by (simp add: phase_def)
  obtain cs s1 where p: "c_process_packet lib ?q (take 1500 d) (fst st) = Some (cs, s1)" "\<forall>x \<in> set cs. snd x = ctx" "view ?q s1 = Some (Left ctx)"
    using packet_law [OF v1] by blast
  let ?h1 = "(snd st)\<lparr>cells := (cells (snd st))(t \<mapsto> Tracker (map fst cs))\<rparr>"
  have r1: "report cs (snd st) = Ok ?h1" using report_server [OF o(7,8,6) p(2)] by simp
  have "0 < t" using o(5,8) by (cases t) (auto simp: phase_def heap_ok_def)
  then have live1: "heap_ok ?h1" using o(5,8) by (auto simp: phase_def heap_ok_def)
  then have p1: "phase ?q (Left ctx) (s1, ?h1)" using o(5) p(3) d(2) by (auto simp: phase_def)
  obtain m cs' s2 where s: "c_service lib ?q s1 = Some ((m, cs'), s2)" "\<forall>x \<in> set cs'. snd x = ctx" "view ?q s2 = Some (Left ctx)"
    using service_law [OF p(3)] by blast
  let ?h2 = "(snd st)\<lparr>cells := (cells (snd st))(t \<mapsto> Tracker (map fst (cs @ cs')))\<rparr>"
  have r2: "report cs' ?h1 = Ok ?h2" using report_server [of ?h1 ctx t "map fst cs" cs'] o(6,7) s(2) d(3) by simp
  let ?h3 = "(snd st)\<lparr>cells := (cells (snd st))(t \<mapsto> Tracker [])\<rparr>"
  have a1: "active_process_packet lib \<lparr>aq_quic = ?q, aq_tracker = Some t\<rparr> (take 1500 d) st = (Ok (), s1, ?h1)"
    using p(1) r1 by (simp add: active_process_packet_def phase_on_quic [OF o(5)] reporting_def)
  have a2: "active_service lib \<lparr>aq_quic = ?q, aq_tracker = Some t\<rparr> (s1, ?h1) = (Ok m, s2, ?h2)"
    using s(1) r2 by (simp add: active_service_def phase_on_quic [OF p1] reporting_def)
  have a3: "active_get_new_connections \<lparr>aq_quic = ?q, aq_tracker = Some t\<rparr> (s2, ?h2) = (Ok (map fst (cs @ cs')), s2, ?h3)"
    by (simp add: active_get_new_connections_def)
  have "server_accept lib v (Received d) st = (Ok (first_connection (map fst (cs @ cs'))), s2, ?h3)"
    using o(1,2,3) a1 a2 a3 by (simp add: server_accept_def first_connection_def)
  moreover have "?h3 = snd st" using o(8) by (simp add: fun_upd_idem)
  moreover have "server_ok v (s2, snd st)" using o s(3) by (auto simp: server_ok_def phase_def)
  moreover have "reports_of lib ?q (take 1500 d) (fst st) = (map fst (cs @ cs'), s2)" using p(1) s(1) by (simp add: reports_of_def)
  ultimately show ?thesis by simp
qed

lemma accept_other:
  assumes "server_ok v st"
  shows "server_accept lib v WouldBlock st = (Ok None, st)" and "server_accept lib v (RecvError e) st = (Err (Io e), st)"
  using assms by (auto simp: server_ok_def server_accept_def)

lemma run_reports:
  assumes "server_ok v st"
  shows "fst (server_run lib v rs st) = map (map_res first_connection id) (spec_reports lib (qu_quic (sv_quic v)) rs (fst st))"
  using assms
proof (induction rs arbitrary: st)
  case (Cons r rs)
  show ?case
  proof (cases r)
    case (Received d)
    obtain st' where a: "server_accept lib v (Received d) st =
        (Ok (first_connection (fst (reports_of lib (qu_quic (sv_quic v)) (take 1500 d) (fst st)))), st')" "server_ok v st'"
        "fst st' = snd (reports_of lib (qu_quic (sv_quic v)) (take 1500 d) (fst st))"
      using accept_received [OF Cons.prems] by blast
    then show ?thesis using Cons.IH [OF a(2)] Received by (simp add: split_beta)
  qed (use Cons.IH [OF Cons.prems] accept_other [OF Cons.prems] in \<open>auto simp: split_beta first_connection_def\<close>)
qed simp

text \<open>Binding a server that was just created, without an interface.\<close>

lemma bind_ok:
  assumes p: "phase q Formatted st" and v: "sv_quic v = \<lparr>qu_quic = q, qu_mem = q\<rparr>" "sv_network_context v = None" "sv_active_quic v = None"
      "sv_interface_name v = None" "qc_role (sc_config (sv_config v)) = Server" and k: "0 < c_keylog_len lib"
    and b: "server_bind lib v addr st = (Ok (), v', st')"
  shows "server_ok v' st' \<and> sv_quic v' = sv_quic v"
proof -
  let ?v = "v\<lparr>sv_bind_addr := Some addr\<rparr>"
  have ok: "heap_ok (snd st)" and f: "view q (fst st) = Some Formatted" using p by (simp_all add: phase_def)
  have "\<exists>sock. os_udp_bind lib (fst addr) (snd addr) = Ok sock \<and> os_set_nonblocking lib sock = None"
    using b v(4) by (cases "os_udp_bind lib (fst addr) (snd addr)")
      (auto simp: server_bind_def try_setup_xdp_def setup_udp_def Let_def split: option.splits)
  then obtain sock where sock: "os_udp_bind lib (fst addr) (snd addr) = Ok sock" "os_set_nonblocking lib sock = None" by blast
  obtain n h1 where n: "h_alloc (NetCtx (Udp sock)) (snd st) = (n, h1)" "heap_ok h1" "live h1 = insert n (live (snd st))" "n \<notin> live (snd st)"
      "cells h1 = (cells (snd st))(n \<mapsto> NetCtx (Udp sock))"
    using h_allocE [OF ok] by metis
  have p1: "phase q Formatted (fst st, h1)" by (rule phase_heap [of _ _ _ "snd st"]) (use p n in auto)
  obtain r s2 where join: "quic_join lib (sv_quic v) (fst st, h1) = (r, s2, h1)"
      "r = Err (Internal (ascii ''failed to join QUIC instance'')) \<and> phase q Formatted (s2, h1) \<or> r = Ok q \<and> phase q Joined (s2, h1)"
    using join_ok [OF p1, of "sv_quic v"] v(1) by auto
  have ctx: "(case try_setup_xdp lib ?v addr st of (Err e, st) \<Rightarrow> setup_udp lib addr st | r \<Rightarrow> r) = (Ok n, fst st, h1)"
    using v(4) sock n(1) by (simp add: try_setup_xdp_def setup_udp_def)
  have fail: "fst (on_error (release_block n) (Err e, st)) \<noteq> Ok x" for e st and x :: "nat \<times> active_quic"
    by (cases "release_block n st") (auto simp: on_error_def andthen_def split: res.splits)
  have "\<nexists>e. r = Err e"
  proof
    assume "\<exists>e. r = Err e"
    then obtain e where e: "r = Err e" ..
    have "fst (on_error (release_block n) (Err e :: (nat \<times> active_quic, quic_error) res, s2, h1)) \<noteq> Ok x" for x by (rule fail)
    then show False using b ctx join(1) e
      by (cases "on_error (release_block n) (Err e :: (nat \<times> active_quic, quic_error) res, s2, h1)")
        (auto simp: server_bind_def Let_def split: res.splits prod.splits)
  qed
  then have r: "r = Ok q" and p2: "phase q Joined (s2, h1)" using join(2) by auto
  obtain r2 st3 where i: "handle_init lib q (sc_config (sv_config v)) (Some n) (s2, h1) = (r2, st3)"
      "\<forall>p \<in> live h1. cells (snd st3) p = cells h1 p"
      "(\<exists>e. r2 = Err e) \<or> (\<exists>t ctx. r2 = Ok \<lparr>aq_quic = q, aq_tracker = Some t\<rparr> \<and> phase q (Left ctx) st3 \<and> ctx \<noteq> 0 \<and>
       cells (snd st3) ctx = Some (ServerCtx t) \<and> cells (snd st3) t = Some (Tracker []))"
    using init_server [OF p2 v(5) k, of n] by (elim exE conjE) (rule that, auto)
  have "\<nexists>e. r2 = Err e"
  proof
    assume "\<exists>e. r2 = Err e"
    then obtain e where e: "r2 = Err e" ..
    have "fst (on_error (release_block n) (Err e :: (nat \<times> active_quic, quic_error) res, st3)) \<noteq> Ok x" for x by (rule fail)
    then show False using b ctx join(1) r i(1) e v(1)
      by (cases "on_error (release_block n) (Err e :: (nat \<times> active_quic, quic_error) res, st3)")
        (auto simp: server_bind_def Let_def split: res.splits prod.splits)
  qed
  then obtain t c where t: "r2 = Ok \<lparr>aq_quic = q, aq_tracker = Some t\<rparr>" "phase q (Left c) st3" "c \<noteq> 0"
      "cells (snd st3) c = Some (ServerCtx t)" "cells (snd st3) t = Some (Tracker [])"
    using i(3) by blast
  have net: "cells (snd st3) n = Some (NetCtx (Udp sock))" using i(2) n(3,5) by auto
  have e: "v' = ?v\<lparr>sv_network_context := Some n, sv_active_quic := Some \<lparr>aq_quic = q, aq_tracker = Some t\<rparr>\<rparr>" "st' = st3"
    using b ctx join(1) r i(1) t(1) v(1-3) by (auto simp: server_bind_def Let_def on_error_def drop_opt_def)
  show ?thesis using e t(2-5) net v(1) by (simp add: server_ok_def) blast
qed

text \<open>Whatever the C functions do: dropping a bound server finishes an endpoint whose memory is gone.\<close>

lemma drop_bound:
  assumes "server_ok v st"
  shows "fst (server_drop lib v st) = Panic"
proof -
  let ?q = "qu_quic (sv_quic v)"
  from assms obtain n sock t ctx where o: "sv_network_context v = Some n" "cells (snd st) n = Some (NetCtx (Udp sock))"
      "sv_active_quic v = Some \<lparr>aq_quic = ?q, aq_tracker = Some t\<rparr>" "qu_mem (sv_quic v) = ?q" "phase ?q (Left ctx) st"
    by (auto simp: server_ok_def)
  have d: "n \<noteq> ?q" "0 < ?q" "cells (snd st) ?q = Some QuicMem" using o(2,5) by (auto simp: phase_def)
  show ?thesis
  proof (cases "c_quic_delete lib ?q (fst st)")
    case None
    then show ?thesis using d by (simp add: server_drop_def quic_drop_def on_quic_def)
  next
    case (Some rs)
    then show ?thesis using o(1-4) d
      by (cases rs) (simp add: server_drop_def quic_drop_def on_quic_def release_block_def h_free_def drop_opt_def active_drop_def)
  qed
qed

end

section \<open>A C endpoint that keeps the laws\<close>

text \<open>
  Per address the phase; the state also holds, for every datagram to come, the connections that it opens when the endpoint
  is serviced.
\<close>

type_synonym ref_quics = "(nat \<Rightarrow> quic_phase option) \<times> nat list list"

definition ref_phase :: "nat \<Rightarrow> (quic_phase \<Rightarrow> quic_phase option) \<Rightarrow> ref_quics \<Rightarrow> (nat \<times> ref_quics) option" where
  "ref_phase q f s = (case fst s q of None \<Rightarrow> None
     | Some ph \<Rightarrow> (case f ph of None \<Rightarrow> None | Some ph' \<Rightarrow> Some (q, (fst s)(q \<mapsto> ph'), snd s)))"

definition ref_join :: "quic_phase \<Rightarrow> quic_phase option" where
  "ref_join ph = (case ph of Formatted \<Rightarrow> Some Joined | _ \<Rightarrow> None)"

definition ref_leave :: "quic_phase \<Rightarrow> quic_phase option" where
  "ref_leave ph = (case ph of Joined \<Rightarrow> Some Formatted | Ready c \<Rightarrow> Some (Left c) | _ \<Rightarrow> None)"

definition ref_init :: "nat \<Rightarrow> quic_phase \<Rightarrow> quic_phase option" where
  "ref_init ctx ph = (case ph of Joined \<Rightarrow> Some (Ready ctx) | _ \<Rightarrow> None)"

definition ref_serve :: "nat \<Rightarrow> ref_quics \<Rightarrow> ((nat \<times> (nat \<times> nat) list) \<times> ref_quics) option" where
  "ref_serve q s = (case fst s q of
     Some (Left c) \<Rightarrow> (case snd s of [] \<Rightarrow> Some ((0, []), s) | cs # css \<Rightarrow> Some ((1, map (\<lambda>x. (x, c)) cs), fst s, css))
   | _ \<Rightarrow> None)"

definition ref_quic :: "ref_quics quic_lib" where
  "ref_quic = \<lparr>c_quic_align = 128, c_quic_footprint = (\<lambda>l. 4096 * conn_cnt l),
     c_quic_new = (\<lambda>m _ s. Some (m, (fst s)(m \<mapsto> Formatted), snd s)),
     c_quic_join = (\<lambda>q. ref_phase q ref_join), c_quic_leave = (\<lambda>q. ref_phase q ref_leave),
     c_quic_delete = (\<lambda>q s. if fst s q = Some Formatted then Some (q, (fst s)(q := None), snd s) else None),
     c_quic_init = (\<lambda>q _ _ ctx. ref_phase q (ref_init ctx)),
     c_quic_fini = (\<lambda>q. ref_phase q (\<lambda>ph. case ph of Left _ \<Rightarrow> Some Formatted | _ \<Rightarrow> None)),
     c_quic_connect = (\<lambda>q _ _ _ _ s. map_option (\<lambda>_. (9, s)) (ref_serve q s)),
     c_service = ref_serve, c_process_packet = (\<lambda>q _ s. map_option (\<lambda>_. ([], s)) (ref_serve q s)),
     c_conn_close = (\<lambda>_ _ s. Some ((), s)), c_conn_let_die = (\<lambda>_ _ s. Some ((), s)), c_conn_new_stream = (\<lambda>_ s. Some (5, s)),
     c_conn_state = (\<lambda>_ _. 3), c_stream_send = (\<lambda>_ _ _ s. Some (0, s)), c_stream_fin = (\<lambda>_ s. Some ((), s)),
     c_role_client = 1, c_role_server = 2, c_keylog_len = 4096,
     c_xdp_install = (\<lambda>_ _ _ _ s. Some ((3, 4), s)), os_if_nametoindex = (\<lambda>_. 0), os_udp_bind = (\<lambda>_ _. Ok 7),
     os_set_nonblocking = (\<lambda>_. None), os_nul_error = [], os_send = (\<lambda>_ _. False)\<rparr>"

interpretation ref_quics: quic_left ref_quic "\<lambda>q s. fst s q"
proof
  show "\<exists>q s'. c_quic_new ref_quic mem l s = Some (q, s') \<and> (q = 0 \<or> q = mem \<and> fst s' mem = Some Formatted)" for mem l s
    by (simp add: ref_quic_def)
next
  fix q and s :: ref_quics assume v: "fst s q = Some Formatted"
  show "\<exists>r s'. c_quic_join ref_quic q s = Some (r, s') \<and> (r = 0 \<and> fst s' q = Some Formatted \<or> r = q \<and> fst s' q = Some Joined)"
    "\<exists>r s'. c_quic_delete ref_quic q s = Some (r, s') \<and> fst s' q = None"
    using v by (simp_all add: ref_quic_def ref_phase_def ref_join_def)
next
  fix q raw aio ctx and s :: ref_quics assume v: "fst s q = Some Joined"
  show "\<exists>r s'. c_quic_leave ref_quic q s = Some (r, s') \<and> fst s' q = Some Formatted"
    "\<exists>r s'. c_quic_init ref_quic q raw aio ctx s = Some (r, s') \<and>
      (r = 0 \<and> fst s' q = Some Joined \<or> r = q \<and> fst s' q = Some (Ready ctx))"
    using v by (simp_all add: ref_quic_def ref_phase_def ref_leave_def ref_init_def)
next
  fix q c and s :: ref_quics assume v: "fst s q = Some (Ready c)"
  show "\<exists>r s'. c_quic_leave ref_quic q s = Some (r, s') \<and> fst s' q = Some (Left c)"
    using v by (simp add: ref_quic_def ref_phase_def ref_leave_def)
next
  fix q c and s :: ref_quics assume v: "fst s q = Some (Left c)"
  have r: "\<exists>n cs s'. ref_serve q s = Some ((n, cs), s') \<and> (\<forall>x \<in> set cs. snd x = c) \<and> fst s' q = Some (Left c)"
    using v by (cases "snd s") (auto simp: ref_serve_def)
  show "\<exists>r s'. c_quic_fini ref_quic q s = Some (r, s') \<and> fst s' q = Some Formatted"
    using v by (simp add: ref_quic_def ref_phase_def)
  show "\<exists>r s'. c_quic_connect ref_quic q da dp sa sp s = Some (r, s') \<and> fst s' q = Some (Left c)" for da dp sa sp
    using r v by (auto simp: ref_quic_def)
  show "\<exists>n cs s'. c_service ref_quic q s = Some ((n, cs), s') \<and> (\<forall>x \<in> set cs. snd x = c) \<and> fst s' q = Some (Left c)"
    using r by (simp add: ref_quic_def)
  show "\<exists>cs s'. c_process_packet ref_quic q d s = Some (cs, s') \<and> (\<forall>x \<in> set cs. snd x = c) \<and> fst s' q = Some (Left c)" for d
    using r v by (auto simp: ref_quic_def)
qed

text \<open>One that refuses what the documentation does not promise: to connect an endpoint that was left.\<close>

definition strict_quic :: "ref_quics quic_lib" where
  "strict_quic = ref_quic\<lparr>c_quic_connect := (\<lambda>q _ _ _ _ s. case fst s q of Some (Ready c) \<Rightarrow> Some (9, s) | _ \<Rightarrow> None)\<rparr>"

interpretation strict_quics: quic_laws strict_quic "\<lambda>q s. fst s q"
  by unfold_locales
    (simp_all add: strict_quic_def ref_quic_def ref_phase_def ref_join_def ref_leave_def ref_init_def)

section \<open>Properties\<close>

text \<open>Take a C endpoint that behaves as documented and can also be used after it was left, which the code relies on and nothing
  documents (\<open>connect_after_leave\<close>). A client that is created, makes any number of
  connections one after the other, to any addresses and with any calls and packets on each, and is dropped at the end, never uses memory that was
  released and never leaves the contract of the C endpoint, whichever step fails. Of its memory nothing stays behind but one transmit
  interface for each time an endpoint was initialised.\<close>

theorem quic_client_lifecycle:
  assumes "quic_left lib view" and "heap_ok h" and "0 < c_keylog_len lib" and "qc_role (cc_config cfg) = Client"
  shows "case client_new lib oom cfg (s, h) of
      (Panic, _) \<Rightarrow> False
    | (Err _, _, h1) \<Rightarrow> cells h1 = cells h
    | (Ok c, st1) \<Rightarrow> (\<exists>st2 s3 h3. client_sessions lib c xs st1 = (Ok (), st2) \<and> client_drop lib c st2 = (Ok (), s3, h3) \<and>
        (\<forall>p \<in> live h. cells h3 p = cells h p) \<and> (\<forall>p \<in> live h3 - live h. cells h3 p = Some (Aio 0)))"
proof -
  note base = quic_left.axioms(1) [OF assms(1)]
  obtain r s1 h1 where n: "quic_new lib oom (cc_limits cfg) (s, h) = (r, s1, h1)"
    by (cases "quic_new lib oom (cc_limits cfg) (s, h)") auto
  from quic_laws.new_quic [OF base assms(2) n] consider
    e where "r = Err e" "cells h1 = cells h"
  | m where "r = Ok \<lparr>qu_quic = m, qu_mem = m\<rparr>" "quic_laws.phase view m Formatted (s1, h1)" "m \<notin> live h" "cells h1 = (cells h)(m \<mapsto> QuicMem)"
    by auto
  then show ?thesis
  proof cases
    case 1
    then show ?thesis using n by (simp add: client_new_def)
  next
    case (2 m)
    let ?c = "\<lparr>ql_quic = \<lparr>qu_quic = m, qu_mem = m\<rparr>, ql_config = cfg\<rparr>"
    have "\<exists>st'. client_sessions lib ?c xs (s1, h1) = (Ok (), st') \<and> leaks (snd (s1, h1)) (snd st') \<and> quic_laws.phase view m Formatted st'"
      by (rule quic_left.sessions_ok [OF assms(1) 2(2)]) (use assms(3,4) in simp_all)
    then obtain s2 h2 where r2: "client_sessions lib ?c xs (s1, h1) = (Ok (), s2, h2)" "leaks h1 h2" "quic_laws.phase view m Formatted (s2, h2)"
      by (elim exE conjE) (metis prod.collapse snd_conv)
    have v: "view m s2 = Some Formatted" "0 < m" using r2(3) by (simp_all add: quic_laws.phase_def [OF base])
    obtain x s3 where d: "c_quic_delete lib m s2 = Some (x, s3)" using quic_laws.delete_law [OF base v(1)] by blast
    have hm: "cells h2 m = Some QuicMem" using r2(3) by (simp add: quic_laws.phase_def [OF base])
    have drop: "client_drop lib ?c (s2, h2) = (Ok (), s3, h2\<lparr>cells := (cells h2)(m := None)\<rparr>)"
      using d v(2) hm by (simp add: client_drop_def quic_drop_def on_quic_def release_block_def h_free_def)
    have "(\<forall>p \<in> live h. cells (h2\<lparr>cells := (cells h2)(m := None)\<rparr>) p = cells h p) \<and>
        (\<forall>p \<in> live (h2\<lparr>cells := (cells h2)(m := None)\<rparr>) - live h. cells (h2\<lparr>cells := (cells h2)(m := None)\<rparr>) p = Some (Aio 0))"
      by (rule leaks_drop [OF 2(3,4) r2(2)]) simp
    then have "\<exists>st2 s3 h3. client_sessions lib ?c xs (s1, h1) = (Ok (), st2) \<and> client_drop lib ?c st2 = (Ok (), s3, h3) \<and>
        (\<forall>p \<in> live h. cells h3 p = cells h p) \<and> (\<forall>p \<in> live h3 - live h. cells h3 p = Some (Aio 0))"
      using r2(1) drop by blast
    then show ?thesis using n 2(1) by (simp add: client_new_def)
  qed
qed

theorem quic_client_lifecycle_witness:
  "case client_new ref_quic False client_config_new ((\<lambda>_. None, []), heap_empty) of
      (Ok c, st1) \<Rightarrow> (\<exists>st2 s3 h3. client_sessions ref_quic c
         [(((1, 2, 3, 4), 80), ((0, 0, 0, 0), 0), [CService, CPacket [1]]), (((1, 2, 3, 4), 81), ((0, 0, 0, 0), 0), [])] st1 = (Ok (), st2) \<and>
        client_drop ref_quic c st2 = (Ok (), s3, h3) \<and> (\<forall>p \<in> live h3. cells h3 p = Some (Aio 0)))
    | _ \<Rightarrow> False"
proof -
  have "\<exists>c st1. client_new ref_quic False client_config_new ((\<lambda>_. None, []), heap_empty) = (Ok c, st1)"
    by (simp add: client_new_def quic_new_def client_config_new_def limits_default_def ref_quic_def Let_def layout_ok_def is_power_of_two_def
        upt_rec h_alloc_def heap_empty_def)
  then show ?thesis
    using quic_client_lifecycle [OF ref_quics.quic_left_axioms, where h = heap_empty and cfg = client_config_new and oom = False and
        s = "(\<lambda>_. None, [])" and xs = "[(((1, 2, 3, 4), 80), ((0, 0, 0, 0), 0), [CService, CPacket [1]]), (((1, 2, 3, 4), 81), ((0, 0, 0, 0), 0), [])]"]
    by (auto simp: ref_quic_def client_config_new_def quic_config_default_def)
qed

text \<open>Take a C endpoint that behaves as documented and can be used after it was left, and a server that was created and bound to a socket. Over any
  sequence of datagrams, empty reads and socket errors \<open>accept\<close> answers each as follows: a datagram gives the first of the
  connections that the endpoint reports for it, and none when it reports none; an empty read gives none, an error of the socket is passed
  on. The second and later connections of one datagram are never given out.\<close>

theorem quic_server_accepts:
  assumes "quic_left lib view" and "heap_ok h" and "0 < c_keylog_len lib" and "qc_role (sc_config cfg) = Server"
    and "quic_server_new lib oom cfg (s, h) = (Ok v, st1)" and "server_bind lib v addr st1 = (Ok (), v2, st2)"
  shows "fst (server_run lib v2 rs st2) =
    map (map_res first_connection id) (spec_reports lib (qu_quic (sv_quic v)) rs (fst st2))"
proof -
  note base = quic_left.axioms(1) [OF assms(1)]
  obtain r s1 h1 where n: "quic_new lib oom (sc_limits cfg) (s, h) = (r, s1, h1)"
    by (cases "quic_new lib oom (sc_limits cfg) (s, h)") auto
  then obtain m where m: "r = Ok \<lparr>qu_quic = m, qu_mem = m\<rparr>" "quic_laws.phase view m Formatted (s1, h1)"
    using quic_laws.new_quic [OF base assms(2) n] assms(5) by (auto simp: quic_server_new_def)
  have v: "v = \<lparr>sv_quic = \<lparr>qu_quic = m, qu_mem = m\<rparr>, sv_config = cfg, sv_bind_addr = None, sv_network_context = None,
      sv_interface_name = None, sv_active_quic = None\<rparr>" "st1 = (s1, h1)"
    using n m(1) assms(5) by (simp_all add: quic_server_new_def)
  have "quic_left.server_ok view v2 st2 \<and> sv_quic v2 = sv_quic v"
    using quic_left.bind_ok [OF assms(1) m(2), of v addr v2 st2] assms(3,4,6) v by simp
  then show ?thesis using quic_left.run_reports [OF assms(1)] by metis
qed

text \<open>Two datagrams: the first opens connection 11, the second 12 and 13.\<close>

definition demo_quics :: "ref_quics quic_state" where
  "demo_quics = ((\<lambda>_. None, [[11], [12, 13]]), heap_empty)"

lemma demo_bound:
  "\<exists>v st1 v2 st2 c. quic_server_new ref_quic False server_config_new demo_quics = (Ok v, st1) \<and>
     server_bind ref_quic v ((127, 0, 0, 1), 4433) st1 = (Ok (), v2, st2) \<and> qu_quic (sv_quic v) = 1 \<and>
     fst (fst st2) 1 = Some (Left c) \<and> snd (fst st2) = [[11], [12, 13]]"
proof -
  have n: "quic_server_new ref_quic False server_config_new demo_quics =
      (Ok \<lparr>sv_quic = \<lparr>qu_quic = 1, qu_mem = 1\<rparr>, sv_config = server_config_new, sv_bind_addr = None, sv_network_context = None,
         sv_interface_name = None, sv_active_quic = None\<rparr>, ((\<lambda>_. None)(1 \<mapsto> Formatted), [[11], [12, 13]]), snd (h_alloc QuicMem heap_empty))"
    by (simp add: quic_server_new_def quic_new_def server_config_new_def limits_default_def ref_quic_def Let_def layout_ok_def
        is_power_of_two_def upt_rec h_alloc_def heap_empty_def demo_quics_def)
  have l: "length (c # cs) = Suc (length cs)" for c and cs :: bytes by simp
  show ?thesis unfolding n
    by (simp add: server_bind_def try_setup_xdp_def setup_udp_def quic_join_def handle_init_def handle_drop_def on_quic_def on_error_def
        andthen_def drop_opt_def raw_config_of_def keylog_field_def server_config_new_def quic_config_default_def ref_quic_def
        ref_phase_def ref_join_def ref_leave_def ref_init_def h_alloc_def heap_empty_def Let_def)
qed

abbreviation "accepted c \<equiv> Ok (Some \<lparr>qn_connection = c, qn_active_quic = \<lparr>aq_quic = 0, aq_tracker = None\<rparr>\<rparr>)"

theorem quic_server_accepts_witness:
  "\<exists>v st1 v2 st2. quic_server_new ref_quic False server_config_new demo_quics = (Ok v, st1) \<and>
     server_bind ref_quic v ((127, 0, 0, 1), 4433) st1 = (Ok (), v2, st2) \<and>
     fst (server_run ref_quic v2 [Received [1], WouldBlock, Received [2], RecvError [3], Received [4]] st2) =
       [accepted 11, Ok None, accepted 12, Err (Io [3]), Ok None]"
proof -
  obtain v st1 v2 st2 c where d: "quic_server_new ref_quic False server_config_new demo_quics = (Ok v, st1)"
      "server_bind ref_quic v ((127, 0, 0, 1), 4433) st1 = (Ok (), v2, st2)" "qu_quic (sv_quic v) = 1"
      "fst (fst st2) 1 = Some (Left c)" "snd (fst st2) = [[11], [12, 13]]"
    using demo_bound by blast
  have k: "0 < c_keylog_len ref_quic" "qc_role (sc_config server_config_new) = Server"
    by (simp_all add: ref_quic_def server_config_new_def)
  have "fst (server_run ref_quic v2 [Received [1], WouldBlock, Received [2], RecvError [3], Received [4]] st2) =
      map (map_res first_connection id) (spec_reports ref_quic 1 [Received [1], WouldBlock, Received [2], RecvError [3], Received [4]] (fst st2))"
    unfolding quic_server_accepts [OF ref_quics.quic_left_axioms heap_empty_ok(1) k(1,2) d(1) [unfolded demo_quics_def] d(2)] d(3) ..
  also have "\<dots> = [accepted 11, Ok None, accepted 12, Err (Io [3]), Ok None]"
    using d(4,5) by (simp add: reports_of_def ref_quic_def ref_serve_def first_connection_def)
  finally show ?thesis using d(1,2) by blast
qed

text \<open>
  The fields of a server are dropped in order, the memory of the endpoint first; the endpoint that \<open>bind\<close> stored is
  finished behind it, in released memory.
\<close>

theorem server_drop_uses_freed_memory:
  assumes "quic_left lib view" and "heap_ok h" and "0 < c_keylog_len lib" and "qc_role (sc_config cfg) = Server"
    and "quic_server_new lib oom cfg (s, h) = (Ok v, st1)" and "server_bind lib v addr st1 = (Ok (), v2, st2)"
  shows "fst (server_drop lib v2 st2) = Panic"
proof -
  note base = quic_left.axioms(1) [OF assms(1)]
  obtain r s1 h1 where n: "quic_new lib oom (sc_limits cfg) (s, h) = (r, s1, h1)"
    by (cases "quic_new lib oom (sc_limits cfg) (s, h)") auto
  then obtain m where m: "r = Ok \<lparr>qu_quic = m, qu_mem = m\<rparr>" "quic_laws.phase view m Formatted (s1, h1)"
    using quic_laws.new_quic [OF base assms(2) n] assms(5) by (auto simp: quic_server_new_def)
  have v: "v = \<lparr>sv_quic = \<lparr>qu_quic = m, qu_mem = m\<rparr>, sv_config = cfg, sv_bind_addr = None, sv_network_context = None,
      sv_interface_name = None, sv_active_quic = None\<rparr>" "st1 = (s1, h1)"
    using n m(1) assms(5) by (simp_all add: quic_server_new_def)
  have "quic_left.server_ok view v2 st2"
    using quic_left.bind_ok [OF assms(1) m(2), of v addr v2 st2] assms(3,4,6) v by simp
  then show ?thesis by (rule quic_left.drop_bound [OF assms(1)])
qed

text \<open>A connection does not borrow its client: dropping the client first deletes an endpoint that is still in use.\<close>

lemma client_drop_before_connection:
  "(case client_new ref_quic False client_config_new demo_quics of (Ok c, st) \<Rightarrow>
      (case quic_client_connect ref_quic c ((1, 2, 3, 4), 80) ((0, 0, 0, 0), 0) st of (Ok k, st) \<Rightarrow> fst (client_drop ref_quic c st))) = Panic"
  by (simp add: client_new_def quic_new_def client_config_new_def limits_default_def ref_quic_def Let_def layout_ok_def
      is_power_of_two_def upt_rec h_alloc_def heap_empty_def demo_quics_def quic_client_connect_def quic_join_def handle_init_def handle_drop_def
      on_quic_def andthen_def raw_config_of_def keylog_field_def quic_config_default_def ref_phase_def ref_join_def ref_leave_def ref_init_def
      active_connect_def ref_serve_def client_drop_def quic_drop_def)

text \<open>
  What the documentation alone gives. The handle is dropped when the endpoint is initialised, and with it ends the join. On an endpoint that
  refuses to connect once it was left, as it may, no client ever gets a connection: every call of \<open>connect\<close> leaves the contract of the C
  endpoint, unless joining or initialising fails.
\<close>

theorem connect_after_leave:
  assumes "quic_laws lib view" and "\<And>q c da dp sa sp s. view q s = Some (Left c) \<Longrightarrow> c_quic_connect lib q da dp sa sp s = None"
    and "heap_ok h" and "0 < c_keylog_len lib" and "qc_role (cc_config cfg) = Client"
    and "client_new lib oom cfg (s, h) = (Ok c, st1)" and "quic_client_connect lib c dst src st1 = (r, st2)"
  shows "r = Panic \<or> (\<exists>e. r = Err e) \<and> view (qu_quic (ql_quic c)) (fst st2) = Some Formatted"
proof -
  obtain x s1 h1 where n: "quic_new lib oom (cc_limits cfg) (s, h) = (x, s1, h1)"
    by (cases "quic_new lib oom (cc_limits cfg) (s, h)") auto
  then obtain m where m: "x = Ok \<lparr>qu_quic = m, qu_mem = m\<rparr>" "quic_laws.phase view m Formatted (s1, h1)"
    using quic_laws.new_quic [OF assms(1,3) n] assms(6) by (auto simp: client_new_def)
  have c: "c = \<lparr>ql_quic = \<lparr>qu_quic = m, qu_mem = m\<rparr>, ql_config = cfg\<rparr>" "st1 = (s1, h1)"
    using n m(1) assms(6) by (simp_all add: client_new_def)
  obtain y s2 where j: "quic_join lib (ql_quic c) st1 = (y, s2, h1)"
      "(\<exists>e. y = Err e) \<and> quic_laws.phase view m Formatted (s2, h1) \<or> y = Ok m \<and> quic_laws.phase view m Joined (s2, h1)"
    using quic_laws.join_ok [OF assms(1) m(2), of "ql_quic c"] c by auto
  note ph = quic_laws.phase_def [OF assms(1)]
  show ?thesis
  proof (cases "\<exists>e. y = Err e")
    case True
    then show ?thesis using j assms(7) c by (auto simp: quic_client_connect_def ph)
  next
    case False
    then have y: "y = Ok m" "quic_laws.phase view m Joined (s2, h1)" using j(2) by auto
    obtain z st3 where z: "handle_init lib m (cc_config (ql_config c)) None (s2, h1) = (z, st3)"
        "(\<exists>e. z = Err e) \<and> quic_laws.phase view m Formatted st3 \<or> (\<exists>a. z = Ok a \<and> aq_quic a = m) \<and> quic_laws.phase view m (Left 0) st3"
      using quic_laws.init_client [OF assms(1) y(2), of "cc_config (ql_config c)"] assms(4,5) c by auto
    show ?thesis
    proof (cases "\<exists>e. z = Err e")
      case True
      then show ?thesis using j(1) y(1) z assms(7) c by (auto simp: quic_client_connect_def ph)
    next
      case False
      then obtain a where a: "z = Ok a" "aq_quic a = m" "quic_laws.phase view m (Left 0) st3" using z(2) by auto
      have "active_connect lib a dst src st3 = (Panic, st3)"
        using a(2,3) assms(2) [of m "fst st3" 0] by (simp add: active_connect_def quic_laws.phase_on_quic [OF assms(1) a(3)] ph)
      then show ?thesis using j(1) y(1) z(1) a(1) assms(7) by (simp add: quic_client_connect_def)
    qed
  qed
qed

theorem connect_after_leave_witness:
  "case client_new strict_quic False client_config_new ((\<lambda>_. None, []), heap_empty) of
      (Ok c, st1) \<Rightarrow> fst (quic_client_connect strict_quic c ((1, 2, 3, 4), 80) ((0, 0, 0, 0), 0) st1) = Panic
    | _ \<Rightarrow> False"
proof -
  obtain c st1 where n: "client_new strict_quic False client_config_new ((\<lambda>_. None, []), heap_empty) = (Ok c, st1)"
    by (simp add: client_new_def quic_new_def client_config_new_def limits_default_def strict_quic_def ref_quic_def Let_def layout_ok_def
        is_power_of_two_def upt_rec h_alloc_def heap_empty_def)
  have p: "\<not> (\<exists>e. fst (quic_client_connect strict_quic c ((1, 2, 3, 4), 80) ((0, 0, 0, 0), 0) st1) = Err e)"
    using n by (auto simp: client_new_def quic_new_def client_config_new_def limits_default_def strict_quic_def ref_quic_def Let_def layout_ok_def
        is_power_of_two_def upt_rec h_alloc_def heap_empty_def quic_client_connect_def quic_join_def handle_init_def handle_drop_def
        on_quic_def andthen_def raw_config_of_def keylog_field_def quic_config_default_def ref_phase_def ref_join_def ref_leave_def ref_init_def
        active_connect_def)
  have k: "0 < c_keylog_len strict_quic" "qc_role (cc_config client_config_new) = Client"
    by (simp_all add: strict_quic_def ref_quic_def client_config_new_def quic_config_default_def)
  obtain r st2 where c: "quic_client_connect strict_quic c ((1, 2, 3, 4), 80) ((0, 0, 0, 0), 0) st1 = (r, st2)" by (metis surj_pair)
  have "r = Panic \<or> (\<exists>e. r = Err e) \<and> fst (fst st2) (qu_quic (ql_quic c)) = Some Formatted"
    by (rule connect_after_leave [OF strict_quics.quic_laws_axioms _ heap_empty_ok(1) k n c]) (simp add: strict_quic_def)
  then show ?thesis using n c p by auto
qed

text \<open>The path of the key log is cut so that a terminator remains.\<close>

lemma keylog_field_terminated:
  assumes "0 < n"
  shows "\<exists>b. keylog_field n (Some p) = Ok b \<and> length b = n \<and> last b = 0 \<and> (\<forall>i < min (length p) (n - 1). b ! i = p ! i)"
  using assms by (auto simp: keylog_field_def Let_def last_append nth_append)

end
