(* ===== verification/Zstd.thy ===== *)
theory Zstd
  imports Ownership "HOL-Library.Sublist"
begin

text \<open>
  Streaming decompression of \<open>ballet/zstd/fd_zstd/src/lib.rs\<close>: frame headers, a stream with its memory, and the loop
  of \<open>decompress_all\<close>. The C decoder is the parameter \<open>zstd_lib\<close> over an opaque state of all streams. The locale
  \<open>zstd_decoder\<close> states the documented behaviour: a decoder works through the compressed bytes of a frame and
  writes its content, in pieces of its choice.
\<close>

section \<open>Model\<close>

datatype zstd_error = InvalidInput | InsufficientBuffer | AllocationFailed | ProtocolError | WindowSizeTooLarge |
  UnexpectedEof | InternalError u64

text \<open>A content size of \<open>u64::MAX\<close> stands for an unknown one.\<close>

record raw_peek =
  rp_window_sz :: u64
  rp_frame_content_sz :: u64
  rp_frame_is_skippable :: int

record frame_peek =
  fp_window_size :: u64
  fp_frame_content_size :: "u64 option"
  fp_is_skippable :: bool

text \<open>
  \<open>c_dstream_read\<close> takes the input and the room for output; it gives the number of bytes consumed, the bytes
  written, the result and the error code.
\<close>

record 's zstd_lib =
  c_peek :: "bytes \<Rightarrow> raw_peek option"
  c_dstream_align :: nat
  c_dstream_footprint :: "u64 \<Rightarrow> nat"
  c_dstream_new :: "nat \<Rightarrow> u64 \<Rightarrow> 's \<Rightarrow> (nat \<times> 's) option"
  c_dstream_delete :: "nat \<Rightarrow> 's \<Rightarrow> (nat \<times> 's) option"
  c_dstream_reset :: "nat \<Rightarrow> 's \<Rightarrow> (unit \<times> 's) option"
  c_dstream_read :: "nat \<Rightarrow> bytes \<Rightarrow> nat \<Rightarrow> 's \<Rightarrow> ((nat \<times> bytes \<times> int \<times> u64) \<times> 's) option"

definition peek_new :: "'s zstd_lib \<Rightarrow> bytes \<Rightarrow> (frame_peek, zstd_error) res" where
  "peek_new lib header_bytes =
     (if header_bytes = [] then Err UnexpectedEof
      else case c_peek lib header_bytes of
             None \<Rightarrow> Err InvalidInput
           | Some p \<Rightarrow> Ok \<lparr>fp_window_size = rp_window_sz p,
               fp_frame_content_size = (if rp_frame_content_sz p = - 1 then None else Some (rp_frame_content_sz p)),
               fp_is_skippable = (rp_frame_is_skippable p \<noteq> 0)\<rparr>)"

record read_result =
  rr_bytes_consumed :: nat
  rr_bytes_written :: nat
  rr_frame_complete :: bool

definition is_frame_complete :: "read_result \<Rightarrow> bool" where
  "is_frame_complete r = rr_frame_complete r"

record dstream =
  ds_dstream :: nat
  ds_memory :: nat

type_synonym 's zstd_state = "'s \<times> unit heap"
type_synonym ('a, 's) zstd_call = "('a, zstd_error) res \<times> 's zstd_state"

definition zstd_free :: "nat \<Rightarrow> 's zstd_state \<Rightarrow> (unit, 's) zstd_call" where
  "zstd_free p st = (case h_free p (snd st) of Ok h \<Rightarrow> (Ok (), fst st, h) | Err e \<Rightarrow> (Err e, st) | Panic \<Rightarrow> (Panic, st))"

definition dstream_new :: "'s zstd_lib \<Rightarrow> bool \<Rightarrow> u64 \<Rightarrow> 's zstd_state \<Rightarrow> (dstream, 's) zstd_call" where
  "dstream_new lib oom max_window_size st =
     (let align = c_dstream_align lib; footprint = c_dstream_footprint lib max_window_size
      in if \<not> layout_ok footprint align then (Err InvalidInput, st)
         else if oom then (Err AllocationFailed, st)
         else case h_alloc () (snd st) of (memory, h) \<Rightarrow>
              (case c_dstream_new lib memory max_window_size (fst st) of
                 None \<Rightarrow> (Panic, fst st, h)
               | Some (d, s) \<Rightarrow>
                   if d = 0 then (case zstd_free memory (s, h) of (Ok _, st) \<Rightarrow> (Err (InternalError 0), st) | (_, st) \<Rightarrow> (Panic, st))
                   else (Ok \<lparr>ds_dstream = d, ds_memory = memory\<rparr>, s, h)))"

definition dstream_reset :: "'s zstd_lib \<Rightarrow> dstream \<Rightarrow> 's \<Rightarrow> (unit, zstd_error) res \<times> 's" where
  "dstream_reset lib d s = ffi (c_dstream_reset lib (ds_dstream d) s) (\<lambda>_ s. (Ok (), s)) s"

text \<open>
  The rest of the input and what was written come back with the outcome; the input moves on also when the outcome is an
  error. Consuming more than the input, or writing more than the room, is outside the slices.
\<close>

definition dstream_read ::
  "'s zstd_lib \<Rightarrow> dstream \<Rightarrow> bytes \<Rightarrow> nat \<Rightarrow> 's \<Rightarrow> (read_result, zstd_error) res \<times> bytes \<times> bytes \<times> 's" where
  "dstream_read lib d input room s =
     (case c_dstream_read lib (ds_dstream d) input room s of
        None \<Rightarrow> (Panic, input, [], s)
      | Some ((consumed, written, result, error_code), s) \<Rightarrow>
          if consumed > length input \<or> length written > room then (Panic, input, written, s)
          else
            (if result = 0 then Ok \<lparr>rr_bytes_consumed = consumed, rr_bytes_written = length written, rr_frame_complete = False\<rparr>
             else if result = -1 then Ok \<lparr>rr_bytes_consumed = consumed, rr_bytes_written = length written, rr_frame_complete = True\<rparr>
             else if result = 71 then Err ProtocolError
             else Err (InternalError error_code), drop consumed input, written, s))"

text \<open>The memory that the C function returns is compared in debug builds.\<close>

definition dstream_drop :: "'s zstd_lib \<Rightarrow> dstream \<Rightarrow> 's zstd_state \<Rightarrow> (unit, 's) zstd_call" where
  "dstream_drop lib d st =
     (case c_dstream_delete lib (ds_dstream d) (fst st) of
        None \<Rightarrow> (Panic, st)
      | Some (returned_mem, s) \<Rightarrow>
          if returned_mem \<noteq> ds_memory d then (Panic, s, snd st) else zstd_free (ds_memory d) (s, snd st))"

text \<open>The loop; it makes progress in every round, or ends.\<close>

function decompress_loop ::
  "'s zstd_lib \<Rightarrow> dstream \<Rightarrow> nat \<Rightarrow> bytes \<Rightarrow> bytes \<Rightarrow> 's \<Rightarrow> (bytes, zstd_error) res \<times> 's" where
  "decompress_loop lib d max_output_size input out s =
     (if input = [] then (Ok out, s)
      else case dstream_read lib d input 65536 s of
        (Err e, input', written, s) \<Rightarrow> (Err e, s)
      | (Panic, input', written, s) \<Rightarrow> (Panic, s)
      | (Ok r, input', written, s) \<Rightarrow>
          if rr_bytes_written r > 0 \<and> length out + rr_bytes_written r > max_output_size then (Err InsufficientBuffer, s)
          else
            let out = out @ written
            in if is_frame_complete r \<and> input' = [] then (Ok out, s)
               else case (if is_frame_complete r then dstream_reset lib d s else (Ok (), s)) of
                      (Ok _, s) \<Rightarrow>
                        if rr_bytes_consumed r = 0 \<and> rr_bytes_written r = 0 then (Err (InternalError 0), s)
                        else decompress_loop lib d max_output_size input' out s
                    | (Err e, s) \<Rightarrow> (Err e, s)
                    | (Panic, s) \<Rightarrow> (Panic, s))"
  by pat_completeness auto

lemma dstream_read_sizes:
  "dstream_read lib d input room s = (Ok r, input', written, s') \<Longrightarrow>
    rr_bytes_written r = length written \<and> rr_bytes_consumed r \<le> length input \<and> input' = drop (rr_bytes_consumed r) input \<and>
    length written \<le> room"
  by (auto simp: dstream_read_def split: option.splits if_splits)

termination decompress_loop
  apply (relation "measure (\<lambda>(lib, d, m, input, out, s). length input + (m - length out))")
   apply simp
  apply (auto dest!: dstream_read_sizes [OF sym] simp: not_less simp flip: length_greater_0_conv)
  done

declare decompress_loop.simps [simp del]

definition decompress_all ::
  "'s zstd_lib \<Rightarrow> bool \<Rightarrow> bytes \<Rightarrow> nat \<Rightarrow> 's zstd_state \<Rightarrow> (bytes, 's) zstd_call" where
  "decompress_all lib oom compressed_data max_output_size st =
     (if length compressed_data < 4 then (Err UnexpectedEof, st)
      else case peek_new lib (take (min (length compressed_data) 18) compressed_data) of
        Err e \<Rightarrow> (Err e, st)
      | Panic \<Rightarrow> (Panic, st)
      | Ok peek \<Rightarrow>
          (case dstream_new lib oom (fp_window_size peek) st of
             (Err e, st) \<Rightarrow> (Err e, st)
           | (Panic, st) \<Rightarrow> (Panic, st)
           | (Ok d, st) \<Rightarrow>
               (case decompress_loop lib d max_output_size compressed_data [] (fst st) of
                  (Panic, s) \<Rightarrow> (Panic, s, snd st)
                | (r, s) \<Rightarrow>
                    (case dstream_drop lib d (s, snd st) of
                       (Ok _, st) \<Rightarrow> (r, st) | (Err e, st) \<Rightarrow> (Err e, st) | (Panic, st) \<Rightarrow> (Panic, st)))))"

section \<open>Laws of the decoder\<close>

text \<open>
  \<open>frame w c x\<close>: the bytes \<open>c\<close> are a frame with content \<open>x\<close> that needs the window \<open>w\<close>. A stream has a window; it
  expects a frame (\<open>None\<close>), or has the compressed bytes and the content that remain of one.
\<close>

type_synonym zstd_view = "u64 \<times> (bytes \<times> bytes) option"

definition current :: "(u64 \<Rightarrow> bytes \<Rightarrow> bytes \<Rightarrow> bool) \<Rightarrow> zstd_view \<Rightarrow> bytes \<Rightarrow> bytes \<Rightarrow> bool" where
  "current frame v c x \<longleftrightarrow> (case snd v of
     None \<Rightarrow> \<exists>w. frame w c x \<and> w \<le> fst v | Some (c', x') \<Rightarrow> c' = c \<and> x' = x \<and> (c \<noteq> [] \<or> x \<noteq> []))"

text \<open>One read: a complete frame, or progress and a rest.\<close>

definition read_ok :: "bytes \<Rightarrow> bytes \<Rightarrow> nat \<Rightarrow> nat \<Rightarrow> bytes \<Rightarrow> int \<Rightarrow> (bytes \<times> bytes) option \<Rightarrow> bool" where
  "read_ok c x room k out res rest \<longleftrightarrow> k \<le> length c \<and> length out \<le> room \<and> out = take (length out) x \<and>
     (res = -1 \<and> k = length c \<and> out = x \<or>
      res = 0 \<and> (0 < k \<or> out \<noteq> []) \<and> (k < length c \<or> length out < length x) \<and> rest = Some (drop k c, drop (length out) x))"

locale zstd_decoder =
  fixes lib :: "'s zstd_lib" and frame :: "u64 \<Rightarrow> bytes \<Rightarrow> bytes \<Rightarrow> bool" and view :: "nat \<Rightarrow> 's \<Rightarrow> zstd_view option"
  assumes frame_law: "frame w c x \<Longrightarrow> 4 \<le> length c \<and> layout_ok (c_dstream_footprint lib w) (c_dstream_align lib)"
    and peek_law: "frame w c x \<Longrightarrow> \<exists>p. c_peek lib (take (min (length (c @ rest)) 18) (c @ rest)) = Some p \<and> rp_window_sz p = w"
    and new_law: "frame w c x \<Longrightarrow> 0 < m \<Longrightarrow> \<exists>s'. c_dstream_new lib m w s = Some (m, s') \<and> view m s' = Some (w, None)"
    and read_law: "view d s = Some v \<Longrightarrow> current frame v c x \<Longrightarrow> 0 < room \<Longrightarrow>
      \<exists>k out res e s' rest'. c_dstream_read lib d (c @ rest) room s = Some ((k, out, res, e), s') \<and>
        read_ok c x room k out res rest' \<and> view d s' = Some (fst v, rest')"
    and reset_law: "view d s = Some v \<Longrightarrow> \<exists>s'. c_dstream_reset lib d s = Some ((), s') \<and> view d s' = Some (fst v, None)"
    and delete_law: "view d s = Some v \<Longrightarrow> \<exists>s'. c_dstream_delete lib d s = Some (d, s')"

text \<open>
  A decoder that completes a frame in one read when the frame is there as a whole and the room is enough for its
  content.
\<close>

definition single_pass :: "'s zstd_lib \<Rightarrow> (u64 \<Rightarrow> bytes \<Rightarrow> bytes \<Rightarrow> bool) \<Rightarrow> (nat \<Rightarrow> 's \<Rightarrow> zstd_view option) \<Rightarrow> bool" where
  "single_pass lib frame view \<longleftrightarrow> (\<forall>d s W w c x rest room k out res e s'.
     view d s = Some (W, None) \<longrightarrow> frame w c x \<longrightarrow> w \<le> W \<longrightarrow> length x \<le> room \<longrightarrow>
     c_dstream_read lib d (c @ rest) room s = Some ((k, out, res, e), s') \<longrightarrow> res = -1)"

context zstd_decoder
begin

lemma current_nonempty: "current frame v c x \<Longrightarrow> c \<noteq> [] \<or> x \<noteq> []"
  using frame_law by (fastforce simp: current_def split: option.splits prod.splits)

lemma loop_prefix:
  assumes "view (ds_dstream d) s = Some v" and "current frame v c x" and "\<forall>(c, x) \<in> set fs. \<exists>w. frame w c x \<and> w \<le> fst v"
    and "length out + length x + length (concat (map snd fs)) \<le> m"
  shows "\<exists>y s' v'. decompress_loop lib d m (c @ concat (map fst fs)) out s = (Ok y, s') \<and> view (ds_dstream d) s' = Some v' \<and>
    prefix y (out @ x @ concat (map snd fs)) \<and> prefix (out @ concat (butlast (x # map snd fs))) y"
  using assms
proof (induction "length c + length x + length (concat (map fst fs)) + length (concat (map snd fs))" arbitrary: c x fs out s v rule: less_induct)
  case less
  let ?in = "c @ concat (map fst fs)"
  have nonempty: "fst f \<noteq> []" if "f \<in> set fs" for f using less.prems(3) that frame_law by (cases f) fastforce
  show ?case
  proof (cases "?in = []")
    case True
    then have "fs = []" using nonempty by (cases fs) auto
    then show ?thesis using True less.prems(1) by (subst decompress_loop.simps) auto
  next
    case in_ne: False
    obtain k out' res e s1 rest' where r: "c_dstream_read lib (ds_dstream d) ?in 65536 s = Some ((k, out', res, e), s1)"
        "read_ok c x 65536 k out' res rest'" "view (ds_dstream d) s1 = Some (fst v, rest')"
      using read_law [OF less.prems(1,2), of 65536 "concat (map fst fs)"] by auto
    have k: "k \<le> length c" "length out' \<le> 65536" "out' = take (length out') x" using r(2) by (auto simp: read_ok_def)
    have le: "length out' \<le> length x" using k(3) by (metis length_take min.bounded_iff nat_le_linear take_all)
    have fits: "\<not> (length out + length out' > m)" using le less.prems(4) by simp
    from r(2) consider "res = -1" "k = length c" "out' = x"
      | "res = 0" "0 < k \<or> out' \<noteq> []" "k < length c \<or> length out' < length x" "rest' = Some (drop k c, drop (length out') x)"
      by (auto simp: read_ok_def)
    then show ?thesis
    proof cases
      case 1
      have read: "dstream_read lib d ?in 65536 s =
          (Ok \<lparr>rr_bytes_consumed = length c, rr_bytes_written = length x, rr_frame_complete = True\<rparr>, concat (map fst fs), x, s1)"
        using r(1) 1 k(2) by (simp add: dstream_read_def)
      show ?thesis
      proof (cases fs)
        case Nil
        have read': "dstream_read lib d c 65536 s =
            (Ok \<lparr>rr_bytes_consumed = length c, rr_bytes_written = length x, rr_frame_complete = True\<rparr>, [], x, s1)"
          using read Nil by simp
        have "decompress_loop lib d m ?in out s = (Ok (out @ x), s1)"
          using Nil in_ne fits 1(3) by (subst decompress_loop.simps) (simp add: read' is_frame_complete_def)
        then show ?thesis using Nil r(3) by auto
      next
        case (Cons f fs')
        obtain c2 x2 where f: "f = (c2, x2)" by (cases f) auto
        obtain s2 where s2: "c_dstream_reset lib (ds_dstream d) s1 = Some ((), s2)" "view (ds_dstream d) s2 = Some (fst v, None)"
          using reset_law [OF r(3)] by auto
        have c2: "c2 \<noteq> []" using nonempty [of f] Cons f by simp
        have read': "dstream_read lib d (c @ c2 @ concat (map fst fs')) 65536 s =
            (Ok \<lparr>rr_bytes_consumed = length c, rr_bytes_written = length x, rr_frame_complete = True\<rparr>, c2 @ concat (map fst fs'), x, s1)"
          using read Cons f by simp
        have step: "decompress_loop lib d m ?in out s = decompress_loop lib d m (c2 @ concat (map fst fs')) (out @ x) s2"
          using in_ne fits 1(3) c2 Cons f s2(1) current_nonempty [OF less.prems(2)]
          by (subst decompress_loop.simps) (auto simp: read' is_frame_complete_def dstream_reset_def)
        have cur: "current frame (fst v, None) c2 x2" using less.prems(3) Cons f by (auto simp: current_def)
        have "\<exists>y s' v'. decompress_loop lib d m (c2 @ concat (map fst fs')) (out @ x) s2 = (Ok y, s') \<and> view (ds_dstream d) s' = Some v' \<and>
          prefix y ((out @ x) @ x2 @ concat (map snd fs')) \<and> prefix ((out @ x) @ concat (butlast (x2 # map snd fs'))) y"
          using less.prems(3,4) Cons f current_nonempty [OF less.prems(2)]
          by (intro less.hyps [OF _ s2(2) cur]) auto
        then show ?thesis using step Cons f by auto
      qed
    next
      case 2
      have read: "dstream_read lib d ?in 65536 s =
          (Ok \<lparr>rr_bytes_consumed = k, rr_bytes_written = length out', rr_frame_complete = False\<rparr>, drop k c @ concat (map fst fs), out', s1)"
        using r(1) 2(1) k(1,2) by (simp add: dstream_read_def)
      have step: "decompress_loop lib d m ?in out s = decompress_loop lib d m (drop k c @ concat (map fst fs)) (out @ out') s1"
        using in_ne fits 2(2) by (subst decompress_loop.simps) (auto simp: read is_frame_complete_def)
      have cur: "current frame (fst v, rest') (drop k c) (drop (length out') x)" using 2(3,4) by (auto simp: current_def)
      have x: "out' @ drop (length out') x = x" using k(3) append_take_drop_id by metis
      have "\<exists>y s' v'. decompress_loop lib d m (drop k c @ concat (map fst fs)) (out @ out') s1 = (Ok y, s') \<and> view (ds_dstream d) s' = Some v' \<and>
          prefix y ((out @ out') @ drop (length out') x @ concat (map snd fs)) \<and>
          prefix ((out @ out') @ concat (butlast (drop (length out') x # map snd fs))) y"
        using less.prems(3,4) 2(2) k(1) le by (intro less.hyps [OF _ r(3) cur]) (auto simp flip: length_greater_0_conv)
      then obtain y s' v' where y: "decompress_loop lib d m (drop k c @ concat (map fst fs)) (out @ out') s1 = (Ok y, s')"
          "view (ds_dstream d) s' = Some v'" "prefix y ((out @ out') @ drop (length out') x @ concat (map snd fs))"
          "prefix ((out @ out') @ concat (butlast (drop (length out') x # map snd fs))) y"
        by blast
      have "prefix y (out @ x @ concat (map snd fs))" using y(3) x by (metis append.assoc)
      moreover have "prefix (out @ concat (butlast (x # map snd fs))) y"
      proof (cases fs)
        case Nil
        then show ?thesis using y(4) by (auto intro: append_prefixD)
      next
        case (Cons f fs')
        then have "(out @ out') @ concat (butlast (drop (length out') x # map snd fs)) = out @ concat (butlast (x # map snd fs))"
          using x by simp
        then show ?thesis using y(4) by simp
      qed
      ultimately show ?thesis using step y(1,2) by auto
    qed
  qed
qed

text \<open>When every content fits the buffer and the decoder takes whole frames at once, nothing is missing.\<close>

lemma loop_single_pass:
  assumes sp: "single_pass lib frame view"
    and "view (ds_dstream d) s = Some (W, None)" and "\<forall>(c, x) \<in> set fs. (\<exists>w. frame w c x \<and> w \<le> W) \<and> length x \<le> 65536"
    and "length out + length (concat (map snd fs)) \<le> m"
  shows "\<exists>s' v'. decompress_loop lib d m (concat (map fst fs)) out s = (Ok (out @ concat (map snd fs)), s')"
  using assms(2-4)
proof (induction fs arbitrary: out s)
  case Nil
  then show ?case by (subst decompress_loop.simps) simp
next
  case (Cons f fs)
  obtain c x where f: "f = (c, x)" by (cases f) auto
  obtain w where w: "frame w c x" "w \<le> W" "length x \<le> 65536" using Cons.prems(2) f by auto
  have cur: "current frame (W, None) c x" using w by (auto simp: current_def)
  obtain k out' res e s1 rest' where r: "c_dstream_read lib (ds_dstream d) (c @ concat (map fst fs)) 65536 s = Some ((k, out', res, e), s1)"
      "read_ok c x 65536 k out' res rest'" "view (ds_dstream d) s1 = Some (W, rest')"
    using read_law [OF Cons.prems(1) cur, of 65536 "concat (map fst fs)"] by auto
  have "res = -1" using sp Cons.prems(1) w r(1) unfolding single_pass_def by blast
  then have e: "k = length c" "out' = x" using r(2) by (auto simp: read_ok_def)
  have read: "dstream_read lib d (c @ concat (map fst fs)) 65536 s =
      (Ok \<lparr>rr_bytes_consumed = length c, rr_bytes_written = length x, rr_frame_complete = True\<rparr>, concat (map fst fs), x, s1)"
    using r(1) e \<open>res = -1\<close> w(3) by (simp add: dstream_read_def)
  have c: "c \<noteq> []" using frame_law [OF w(1)] by auto
  have fits: "\<not> length out + length x > m" using Cons.prems(3) f by simp
  show ?case
  proof (cases "concat (map fst fs) = []")
    case True
    have n: "fs = []" using True Cons.prems(2) frame_law by (cases fs) fastforce+
    have read': "dstream_read lib d c 65536 s =
        (Ok \<lparr>rr_bytes_consumed = length c, rr_bytes_written = length x, rr_frame_complete = True\<rparr>, [], x, s1)"
      using read n by simp
    show ?thesis using n f c fits by (subst decompress_loop.simps) (simp add: read' is_frame_complete_def)
  next
    case False
    obtain s2 where s2: "c_dstream_reset lib (ds_dstream d) s1 = Some ((), s2)" "view (ds_dstream d) s2 = Some (W, None)"
      using reset_law [OF r(3)] by auto
    have "decompress_loop lib d m (c @ concat (map fst fs)) out s = decompress_loop lib d m (concat (map fst fs)) (out @ x) s2"
      using c fits False s2(1)
      by (subst decompress_loop.simps) (simp add: read is_frame_complete_def dstream_reset_def del: concat_eq_Nil_conv)
    then show ?thesis using Cons.IH [OF s2(2), of "out @ x"] Cons.prems(2,3) f by auto
  qed
qed

end

section \<open>A decoder that keeps the laws\<close>

text \<open>
  Frames of a toy format: a magic of four bytes, a count \<open>n\<close> and a byte: \<open>n\<close> copies of the byte, at most \<open>chunk\<close> of them
  with one read. The compressed bytes are consumed with the first read, as a decoder may do whose room is full.
\<close>

definition toy_frame :: "u64 \<Rightarrow> bytes \<Rightarrow> bytes \<Rightarrow> bool" where
  "toy_frame w c x \<longleftrightarrow> w = 1 \<and> (\<exists>n b. c = [1, 2, 3, 4, n, b] \<and> x = replicate (unat n) b)"

type_synonym toy_streams = "nat \<Rightarrow> zstd_view option"

fun toy_parse :: "bytes \<Rightarrow> (bytes \<times> bytes) option" where
  "toy_parse (m1 # m2 # m3 # m4 # n # b # rest) =
     (if [m1, m2, m3, m4] = [1, 2, 3, 4] then Some ([1, 2, 3, 4, n, b], replicate (unat n) b) else None)"
| "toy_parse _ = None"

definition toy_step :: "nat \<Rightarrow> u64 \<Rightarrow> nat \<Rightarrow> bytes \<Rightarrow> bytes \<Rightarrow> nat \<Rightarrow> toy_streams \<Rightarrow> ((nat \<times> bytes \<times> int \<times> u64) \<times> toy_streams) option" where
  "toy_step chunk w d c x room s =
     (let out = take (min room chunk) x; rest = drop (min room chunk) x
      in Some ((length c, out, if rest = [] then -1 else 0, 0), s(d \<mapsto> (w, Some ([], rest)))))"

definition toy :: "nat \<Rightarrow> toy_streams zstd_lib" where
  "toy chunk = \<lparr>c_peek = (\<lambda>h. if take 4 h = [1, 2, 3, 4]
       then Some \<lparr>rp_window_sz = 1, rp_frame_content_sz = - 1, rp_frame_is_skippable = 0\<rparr> else None),
     c_dstream_align = 32, c_dstream_footprint = (\<lambda>w. 4096), c_dstream_new = (\<lambda>m w s. Some (m, s(m \<mapsto> (w, None)))),
     c_dstream_delete = (\<lambda>d s. if s d = None then None else Some (d, s(d := None))),
     c_dstream_reset = (\<lambda>d s. case s d of None \<Rightarrow> None | Some v \<Rightarrow> Some ((), s(d \<mapsto> (fst v, None)))),
     c_dstream_read = (\<lambda>d input room s. case s d of
         None \<Rightarrow> None
       | Some (w, None) \<Rightarrow> (case toy_parse input of None \<Rightarrow> Some ((0, [], 71, 0), s) | Some (c, x) \<Rightarrow> toy_step chunk w d c x room s)
       | Some (w, Some (c, x)) \<Rightarrow> toy_step chunk w d c x room s)\<rparr>"

lemma toy_parse_frame: "toy_frame w c x \<Longrightarrow> toy_parse (c @ rest) = Some (c, x)"
  by (auto simp: toy_frame_def)

lemma toy_step_ok:
  assumes "0 < chunk" and "0 < room" and "c \<noteq> [] \<or> x \<noteq> []"
  shows "\<exists>k out res e s' rest'. toy_step chunk w d c x room s = Some ((k, out, res, e), s') \<and>
    read_ok c x room k out res rest' \<and> s' d = Some (w, rest')"
proof -
  have "take (min room chunk) x \<noteq> [] \<or> 0 < length c" using assms by (cases x) auto
  then show ?thesis
    by (auto simp: toy_step_def Let_def read_ok_def min_def take_all_iff drop_eq_Nil)
qed

interpretation toy_decoder: zstd_decoder "toy (Suc n)" toy_frame "\<lambda>d s. s d"
proof
  show "4 \<le> length c \<and> layout_ok (c_dstream_footprint (toy (Suc n)) w) (c_dstream_align (toy (Suc n)))" if "toy_frame w c x" for w c x
    using that by (auto simp: toy_frame_def toy_def layout_ok_def is_power_of_two_def upt_rec)
  show "\<exists>p. c_peek (toy (Suc n)) (take (min (length (c @ rest)) 18) (c @ rest)) = Some p \<and> rp_window_sz p = w"
    if "toy_frame w c x" for w c x rest
    using that by (auto simp: toy_frame_def toy_def)
  show "\<exists>s'. c_dstream_new (toy (Suc n)) m w s = Some (m, s') \<and> s' m = Some (w, None)" if "toy_frame w c x" "0 < m" for w c x m s
    by (simp add: toy_def)
  show "\<exists>k out res e s' rest'. c_dstream_read (toy (Suc n)) d (c @ rest) room s = Some ((k, out, res, e), s') \<and>
      read_ok c x room k out res rest' \<and> s' d = Some (fst v, rest')"
    if v: "s d = Some v" and c: "current toy_frame v c x" and r: "0 < room" for d s v c x room rest
  proof (cases v)
    case (Pair w ph)
    show ?thesis
    proof (cases ph)
      case None
      then obtain w' where f: "toy_frame w' c x" using c Pair by (auto simp: current_def)
      then have "c \<noteq> [] \<or> x \<noteq> []" by (auto simp: toy_frame_def)
      then show ?thesis using toy_step_ok [of "Suc n" room c x w d s] v Pair None toy_parse_frame [OF f] r by (simp add: toy_def)
    next
      case (Some cx)
      then have "cx = (c, x)" "c \<noteq> [] \<or> x \<noteq> []" using c Pair by (cases cx; auto simp: current_def)+
      then show ?thesis using toy_step_ok [of "Suc n" room c x w d s] v Pair Some r by (simp add: toy_def)
    qed
  qed
  show "\<exists>s'. c_dstream_reset (toy (Suc n)) d s = Some ((), s') \<and> s' d = Some (fst v, None)" if "s d = Some v" for d s v
    using that by (simp add: toy_def)
  show "\<exists>s'. c_dstream_delete (toy (Suc n)) d s = Some (d, s')" if "s d = Some v" for d s v using that by (simp add: toy_def)
qed

section \<open>Properties\<close>

text \<open>C35: Take a decoder that behaves as documented and data that is a sequence of frames, none of which needs a larger window than
  the first, with at most \<open>max_output_size\<close> bytes of content. \<open>decompress_all\<close> returns, releases the memory of its stream, and
  answers with a beginning of the content that holds everything but possibly the end of the last frame; when
  each content fits the buffer of 64 KiB and the decoder completes such a frame in one read, it is the whole content.\<close>

theorem decompress_all_content:
  assumes "zstd_decoder lib frame view" and "heap_ok h" and "fs \<noteq> []"
    and "\<forall>(c, x) \<in> set fs. \<exists>w'. frame w' c x \<and> w' \<le> w" and "frame w (fst (hd fs)) (snd (hd fs))"
    and "length (concat (map snd fs)) \<le> m"
  shows "\<exists>y s' h'. decompress_all lib False (concat (map fst fs)) m (s, h) = (Ok y, s', h') \<and> cells h' = cells h \<and>
    prefix y (concat (map snd fs)) \<and> prefix (concat (butlast (map snd fs))) y \<and>
    (single_pass lib frame view \<and> (\<forall>(c, x) \<in> set fs. length x \<le> 65536) \<longrightarrow> y = concat (map snd fs))"
proof -
  obtain c x gs where fs: "fs = (c, x) # gs" using assms(3) by (cases fs) auto
  let ?in = "concat (map fst fs)"
  have f: "frame w c x" using assms(5) fs by simp
  note F = zstd_decoder.frame_law [OF assms(1) f]
  obtain p where p: "c_peek lib (take (min (length ?in) 18) ?in) = Some p" "rp_window_sz p = w"
    using zstd_decoder.peek_law [OF assms(1) f, of "concat (map fst gs)"] fs by auto
  have peek: "\<exists>fp. peek_new lib (take (min (length ?in) 18) ?in) = Ok fp \<and> fp_window_size fp = w"
    using p F fs by (auto simp: peek_new_def)
  obtain mem h1 where a: "h_alloc () h = (mem, h1)" "0 < mem" "mem \<notin> live h" "cells h1 = (cells h)(mem \<mapsto> ())"
    using h_allocE [OF assms(2)] by metis
  obtain s1 where n: "c_dstream_new lib mem w s = Some (mem, s1)" "view mem s1 = Some (w, None)"
    using zstd_decoder.new_law [OF assms(1) f a(2)] by blast
  let ?d = "\<lparr>ds_dstream = mem, ds_memory = mem\<rparr>"
  have new: "dstream_new lib False w (s, h) = (Ok ?d, s1, h1)" using F a(1,2) n(1) by (simp add: dstream_new_def Let_def)
  have cur: "current frame (w, None) c x" using f by (auto simp: current_def)
  have "\<exists>y s' v'. decompress_loop lib ?d m (c @ concat (map fst gs)) [] s1 = (Ok y, s') \<and> view (ds_dstream ?d) s' = Some v' \<and>
      prefix y ([] @ x @ concat (map snd gs)) \<and> prefix ([] @ concat (butlast (x # map snd gs))) y"
    using assms(4,6) fs n(2) cur by (intro zstd_decoder.loop_prefix [OF assms(1)]) auto
  then obtain y s2 v where y: "decompress_loop lib ?d m ?in [] s1 = (Ok y, s2)" "view mem s2 = Some v"
      "prefix y (concat (map snd fs))" "prefix (concat (butlast (map snd fs))) y"
    using fs by auto
  obtain s3 where "c_dstream_delete lib mem s2 = Some (mem, s3)" using zstd_decoder.delete_law [OF assms(1) y(2)] by blast
  then have "dstream_drop lib ?d (s2, h1) = (Ok (), s3, h1\<lparr>cells := (cells h1)(mem := None)\<rparr>)"
    using a(4) by (simp add: dstream_drop_def zstd_free_def h_free_def)
  moreover have "(cells h1)(mem := None) = cells h" using a(3,4) by auto
  moreover have "4 \<le> length ?in" using F fs by simp
  ultimately have r: "decompress_all lib False ?in m (s, h) = (Ok y, s3, h1\<lparr>cells := cells h\<rparr>)"
    using peek new y(1) by (auto simp: decompress_all_def)
  have "y = concat (map snd fs)" if sp: "single_pass lib frame view" and "\<forall>(c, x) \<in> set fs. length x \<le> 65536"
  proof -
    have "\<forall>(c, x) \<in> set fs. (\<exists>w'. frame w' c x \<and> w' \<le> w) \<and> length x \<le> 65536" using assms(4) that(2) by auto
    from zstd_decoder.loop_single_pass [OF assms(1) sp, of ?d s1 w fs "[]" m, OF _ this] show ?thesis using n(2) assms(6) y(1) by simp
  qed
  then show ?thesis using r y(3,4) by auto
qed

lemma toy_contents: "replicate 3 b = [b, b, b]" "replicate 2 b = [b, b]"
  by (simp_all add: eval_nat_numeral)

theorem decompress_all_content_witness:
  "\<exists>s' h'. decompress_all (toy 300) False ([1, 2, 3, 4, 3, 9] @ [1, 2, 3, 4, 0, 8] @ [1, 2, 3, 4, 2, 7]) 5 (\<lambda>_. None, heap_empty) =
     (Ok [9, 9, 9, 7, 7], s', h') \<and> cells h' = cells heap_empty"
proof -
  let ?fs = "[([1, 2, 3, 4, 3, 9], [9, 9, 9]), ([1, 2, 3, 4, 0, 8], []), ([1, 2, 3, 4, 2, 7], [7, 7])] :: (bytes \<times> bytes) list"
  have sp: "single_pass (toy 300) toy_frame (\<lambda>d s. s d)"
  proof -
    have "length x < 300" if t: "toy_frame w c x" for w c x
    proof -
      obtain n :: u8 and b where "x = replicate (unat n) b" using t by (auto simp: toy_frame_def)
      then show ?thesis using unsigned_less [of n, where ?'a = nat] by simp
    qed
    then show ?thesis unfolding single_pass_def
      by (fastforce simp: toy_def toy_parse_frame toy_step_def Let_def split: if_splits)
  qed
  have f: "\<forall>(c, x) \<in> set ?fs. \<exists>w'. toy_frame w' c x \<and> w' \<le> 1" "toy_frame 1 (fst (hd ?fs)) (snd (hd ?fs))"
    by (auto simp: toy_frame_def toy_contents)
  have d: "zstd_decoder (toy 300) toy_frame (\<lambda>d s. s d)" using toy_decoder.zstd_decoder_axioms [of 299] by simp
  show ?thesis
    using decompress_all_content [OF d heap_empty_ok(1) _ f, of 5 "\<lambda>_. None"] sp by auto
qed

text \<open>
  The loop ends with the input, not with the content: when the decoder has taken all bytes of the last frame and its room was
  full, the rest of the content is lost, and the answer is \<open>Ok\<close>. Here the decoder writes two bytes with one read.
\<close>

lemma decompress_all_loses_content:
  "fst (decompress_all (toy 2) False [1, 2, 3, 4, 3, 9] 100 (\<lambda>_. None, heap_empty)) = Ok [9, 9]"
  "toy_frame 1 [1, 2, 3, 4, 3, 9] [9, 9, 9]"
proof -
  let ?d = "\<lparr>ds_dstream = 1, ds_memory = 1\<rparr>"
  have e: "decompress_loop (toy 2) ?d 100 [] out s = (Ok out, s)" for out s by (subst decompress_loop.simps) simp
  have p: "toy_parse [1, 2, 3, 4, 3, 9] = Some ([1, 2, 3, 4, 3, 9], [9, 9, 9])" by (simp add: toy_contents)
  have r: "dstream_read (toy 2) ?d [1, 2, 3, 4, 3, 9] 65536 ((\<lambda>_. None)(1 \<mapsto> (1, None))) =
      (Ok \<lparr>rr_bytes_consumed = 6, rr_bytes_written = 2, rr_frame_complete = False\<rparr>, [], [9, 9],
       (\<lambda>_. None)(1 \<mapsto> (1, Some ([], [9]))))"
    by (simp add: dstream_read_def toy_def p toy_step_def del: toy_parse.simps)
  have "decompress_loop (toy 2) ?d 100 [1, 2, 3, 4, 3, 9] [] ((\<lambda>_. None)(1 \<mapsto> (1, None))) =
      (Ok [9, 9], (\<lambda>_. None)(1 \<mapsto> (1, Some ([], [9]))))"
    by (subst decompress_loop.simps) (simp add: r e is_frame_complete_def del: One_nat_def)
  moreover have "c_peek (toy 2) [1, 2, 3, 4, 3, 9] = Some \<lparr>rp_window_sz = 1, rp_frame_content_sz = - 1, rp_frame_is_skippable = 0\<rparr>"
    "c_dstream_new (toy 2) m w s = Some (m, s(m \<mapsto> (w, None)))" "layout_ok (c_dstream_footprint (toy 2) w) (c_dstream_align (toy 2))"
    "c_dstream_delete (toy 2) d s = (if s d = None then None else Some (d, s(d := None)))" for m w d s
    by (simp_all add: toy_def layout_ok_def is_power_of_two_def upt_rec)
  ultimately show "fst (decompress_all (toy 2) False [1, 2, 3, 4, 3, 9] 100 (\<lambda>_. None, heap_empty)) = Ok [9, 9]"
    by (simp add: decompress_all_def peek_new_def dstream_new_def dstream_drop_def zstd_free_def h_alloc_def h_free_def heap_empty_def
        del: One_nat_def)
  show "toy_frame 1 [1, 2, 3, 4, 3, 9] [9, 9, 9]" by (simp add: toy_frame_def toy_contents)
qed

end
