(* ===== verification/Checkpt.thy ===== *)
theory Checkpt
  imports Rust_Std Ownership
begin

text \<open>
  Checkpoints of \<open>util/checkpt/fd_checkpt/src/lib.rs\<close>: a writer and a reader of frames, over a file or over a buffer in
  memory. The C library is the parameter \<open>checkpt_lib\<close> over the world (its own state, the memory and the open
  descriptors). The locale \<open>frame_format\<close> states its documented behaviour for buffers in memory.
\<close>

section \<open>Model\<close>

datatype checkpt_error = InvalidArgs bytes | Unsupported bytes | IoError bytes | CompressionError bytes | Unknown bytes

datatype frame_style = Raw | Lz4

text \<open>
  The cells of the memory: the boxed C struct of a writer or reader, with the fields that the Rust code reads, and byte
  vectors. A vector of no bytes has a cell too.
\<close>

datatype cell = Private (priv_fd: int) (priv_frame_style: int) (priv_sz: u64) | Buffer bytes

record 's world =
  c_state :: 's
  mem :: "cell heap"
  fds :: "int set"

type_synonym ('a, 's) io = "'s world \<Rightarrow> ('a, checkpt_error) res \<times> 's world"

text \<open>Calls that write an offset or a buffer return what they wrote.\<close>

record 's checkpt_lib =
  STYLE_RAW :: int
  STYLE_LZ4 :: int
  ERR_INVAL :: int
  ERR_UNSUP :: int
  ERR_IO :: int
  ERR_COMP :: int
  CHECKPT_WBUF_MIN :: nat
  RESTORE_RBUF_MIN :: nat
  CHECKPT_META_MAX :: nat
  RESTORE_META_MAX :: nat
  c_strerror :: "int \<Rightarrow> bytes"
  c_style_is_supported :: "int \<Rightarrow> int"
  c_checkpt_init_stream :: "nat \<Rightarrow> int \<Rightarrow> nat \<Rightarrow> nat \<Rightarrow> 's world \<Rightarrow> (nat \<times> 's world) option"
  c_checkpt_init_mmio :: "nat \<Rightarrow> nat \<Rightarrow> nat \<Rightarrow> 's world \<Rightarrow> (nat \<times> 's world) option"
  c_checkpt_open :: "nat \<Rightarrow> int \<Rightarrow> 's world \<Rightarrow> ((int \<times> u64) \<times> 's world) option"
  c_checkpt_close :: "nat \<Rightarrow> 's world \<Rightarrow> ((int \<times> u64) \<times> 's world) option"
  c_checkpt_meta :: "nat \<Rightarrow> bytes \<Rightarrow> 's world \<Rightarrow> (int \<times> 's world) option"
  c_checkpt_data :: "nat \<Rightarrow> bytes \<Rightarrow> 's world \<Rightarrow> (int \<times> 's world) option"
  c_checkpt_fini :: "nat \<Rightarrow> 's world \<Rightarrow> (nat \<times> 's world) option"
  c_restore_init_stream :: "nat \<Rightarrow> int \<Rightarrow> nat \<Rightarrow> nat \<Rightarrow> 's world \<Rightarrow> (nat \<times> 's world) option"
  c_restore_init_mmio :: "nat \<Rightarrow> nat \<Rightarrow> nat \<Rightarrow> 's world \<Rightarrow> (nat \<times> 's world) option"
  c_restore_seek :: "nat \<Rightarrow> u64 \<Rightarrow> 's world \<Rightarrow> (int \<times> 's world) option"
  c_restore_open :: "nat \<Rightarrow> int \<Rightarrow> 's world \<Rightarrow> ((int \<times> u64) \<times> 's world) option"
  c_restore_close :: "nat \<Rightarrow> 's world \<Rightarrow> ((int \<times> u64) \<times> 's world) option"
  c_restore_meta :: "nat \<Rightarrow> bytes \<Rightarrow> 's world \<Rightarrow> ((int \<times> bytes) \<times> 's world) option"
  c_restore_data :: "nat \<Rightarrow> bytes \<Rightarrow> 's world \<Rightarrow> ((int \<times> bytes) \<times> 's world) option"
  c_restore_fini :: "nat \<Rightarrow> 's world \<Rightarrow> (nat \<times> 's world) option"

text \<open>\<open>CheckptError::from\<close>; the message of the C library has to be UTF-8. The first match counts.\<close>

definition checkpt_error_from :: "'s checkpt_lib \<Rightarrow> int \<Rightarrow> (checkpt_error, 'e) res" where
  "checkpt_error_from lib err_code =
     (case from_utf8 (c_strerror lib err_code) of
        None \<Rightarrow> Panic
      | Some msg \<Rightarrow>
          Ok (if err_code = ERR_INVAL lib then InvalidArgs msg
              else if err_code = ERR_UNSUP lib then Unsupported msg
              else if err_code = ERR_IO lib then IoError msg
              else if err_code = ERR_COMP lib then CompressionError msg
              else Unknown msg))"

text \<open>\<open>if result == 0 { Ok(x) } else { Err(CheckptError::from(result)) }\<close>\<close>

definition of_code :: "'s checkpt_lib \<Rightarrow> int \<Rightarrow> 'a \<Rightarrow> ('a, checkpt_error) res" where
  "of_code lib result x =
     (if result = 0 then Ok x
      else case checkpt_error_from lib result of Ok e \<Rightarrow> Err e | Err e \<Rightarrow> Err e | Panic \<Rightarrow> Panic)"

fun style_code :: "'s checkpt_lib \<Rightarrow> frame_style \<Rightarrow> int" where
  "style_code lib Raw = STYLE_RAW lib"
| "style_code lib Lz4 = STYLE_LZ4 lib"

definition is_supported :: "'s checkpt_lib \<Rightarrow> frame_style \<Rightarrow> bool" where
  "is_supported lib style \<longleftrightarrow> c_style_is_supported lib (style_code lib style) \<noteq> 0"

definition frame_style_default :: frame_style where
  "frame_style_default = Raw"

record checkpt =
  ck_inner :: nat
  ck_write_buffer :: "nat option"
  ck_mmio_buffer :: "nat option"

record restore =
  rs_inner :: nat
  rs_read_buffer :: "nat option"
  rs_mmio_buffer :: "nat option"

subsection \<open>Memory and descriptors\<close>

definition new_cell :: "cell \<Rightarrow> 's world \<Rightarrow> nat \<times> 's world" where
  "new_cell c w = (case h_alloc c (mem w) of (p, h) \<Rightarrow> (p, w\<lparr>mem := h\<rparr>))"

fun free_cells :: "nat list \<Rightarrow> (unit, 's) io" where
  "free_cells [] w = (Ok (), w)"
| "free_cells (p # ps) w = (case h_free p (mem w) of Ok h \<Rightarrow> free_cells ps (w\<lparr>mem := h\<rparr>) | Err e \<Rightarrow> (Err e, w) | Panic \<Rightarrow> (Panic, w))"

text \<open>\<open>libc::close(fd)\<close>, also the drop of a \<open>File\<close>\<close>

definition close_fd :: "int \<Rightarrow> 's world \<Rightarrow> 's world" where
  "close_fd fd w = w\<lparr>fds := fds w - {fd}\<rparr>"

text \<open>An early return drops the locals that own memory.\<close>

definition fail_with :: "checkpt_error \<Rightarrow> nat list \<Rightarrow> ('a, 's) io" where
  "fail_with e ps w = (case free_cells ps w of (Ok _, w) \<Rightarrow> (Err e, w) | (Err e, w) \<Rightarrow> (Err e, w) | (Panic, w) \<Rightarrow> (Panic, w))"

subsection \<open>The writer\<close>

definition checkpt_new_stream :: "'s checkpt_lib \<Rightarrow> int \<Rightarrow> nat option \<Rightarrow> (checkpt, 's) io" where
  "checkpt_new_stream lib fd write_buffer_size w =
     (let wbuf_sz = (case write_buffer_size of None \<Rightarrow> CHECKPT_WBUF_MIN lib | Some n \<Rightarrow> n)
      in if wbuf_sz < CHECKPT_WBUF_MIN lib
         then (Err (InvalidArgs (ascii ''Write buffer size is less than minimum'')), close_fd fd w)
         else case new_cell (Buffer (replicate wbuf_sz 0)) w of (write_buffer, w) \<Rightarrow>
              (case new_cell (Private 0 0 0) w of (checkpt_mem, w) \<Rightarrow>
               (case c_checkpt_init_stream lib checkpt_mem fd write_buffer wbuf_sz w of
                  None \<Rightarrow> (Panic, w)
                | Some (p, w) \<Rightarrow>
                    if p = 0 then fail_with (InvalidArgs (ascii ''Failed to initialize checkpoint'')) [checkpt_mem, write_buffer] (close_fd fd w)
                    else (Ok \<lparr>ck_inner = checkpt_mem, ck_write_buffer = Some write_buffer, ck_mmio_buffer = None\<rparr>, w))))"

definition checkpt_new_mmio :: "'s checkpt_lib \<Rightarrow> nat \<Rightarrow> (checkpt, 's) io" where
  "checkpt_new_mmio lib buffer_size w =
     (case new_cell (Buffer (replicate buffer_size 0)) w of (mmio_buffer, w) \<Rightarrow>
      (case new_cell (Private 0 0 0) w of (checkpt_mem, w) \<Rightarrow>
       (case c_checkpt_init_mmio lib checkpt_mem mmio_buffer buffer_size w of
          None \<Rightarrow> (Panic, w)
        | Some (p, w) \<Rightarrow>
            if p = 0 then fail_with (InvalidArgs (ascii ''Failed to initialize checkpoint'')) [checkpt_mem, mmio_buffer] w
            else (Ok \<lparr>ck_inner = checkpt_mem, ck_write_buffer = None, ck_mmio_buffer = Some mmio_buffer\<rparr>, w))))"

text \<open>The fields of the C struct; an address that holds none is outside the box.\<close>

definition private_at :: "nat \<Rightarrow> 's world \<Rightarrow> (int \<times> int \<times> u64, checkpt_error) res" where
  "private_at p w = (case cells (mem w) p of Some (Private fd st sz) \<Rightarrow> Ok (fd, st, sz) | _ \<Rightarrow> Panic)"

definition checkpt_is_mmio :: "checkpt \<Rightarrow> 's world \<Rightarrow> (bool, checkpt_error) res" where
  "checkpt_is_mmio c w = res_bind (private_at (ck_inner c) w) (\<lambda>(fd, st, sz). Ok (fd < 0))"

definition checkpt_can_open_frame :: "checkpt \<Rightarrow> 's world \<Rightarrow> (bool, checkpt_error) res" where
  "checkpt_can_open_frame c w = res_bind (private_at (ck_inner c) w) (\<lambda>(fd, st, sz). Ok (st = 0))"

definition checkpt_in_frame :: "checkpt \<Rightarrow> 's world \<Rightarrow> (bool, checkpt_error) res" where
  "checkpt_in_frame c w = res_bind (private_at (ck_inner c) w) (\<lambda>(fd, st, sz). Ok (0 < st))"

definition checkpt_open_frame :: "'s checkpt_lib \<Rightarrow> checkpt \<Rightarrow> frame_style \<Rightarrow> (u64, 's) io" where
  "checkpt_open_frame lib c style w =
     (if \<not> is_supported lib style then (Err (Unsupported (ascii ''Frame style is not supported'')), w)
      else ffi (c_checkpt_open lib (ck_inner c) (style_code lib style) w) (\<lambda>(result, offset) w. (of_code lib result offset, w)) w)"

definition checkpt_close_frame :: "'s checkpt_lib \<Rightarrow> checkpt \<Rightarrow> (u64, 's) io" where
  "checkpt_close_frame lib c w =
     ffi (c_checkpt_close lib (ck_inner c) w) (\<lambda>(result, offset) w. (of_code lib result offset, w)) w"

definition checkpoint_meta :: "'s checkpt_lib \<Rightarrow> checkpt \<Rightarrow> bytes \<Rightarrow> (unit, 's) io" where
  "checkpoint_meta lib c data w =
     (if length data > CHECKPT_META_MAX lib then (Err (InvalidArgs (ascii ''Metadata size exceeds maximum'')), w)
      else ffi (c_checkpt_meta lib (ck_inner c) data w) (\<lambda>result w. (of_code lib result (), w)) w)"

definition checkpoint_data :: "'s checkpt_lib \<Rightarrow> checkpt \<Rightarrow> bytes \<Rightarrow> (unit, 's) io" where
  "checkpoint_data lib c data w =
     ffi (c_checkpt_data lib (ck_inner c) data w) (\<lambda>result w. (of_code lib result (), w)) w"

definition checkpt_mmio_buffer :: "checkpt \<Rightarrow> 's world \<Rightarrow> (bytes option, checkpt_error) res" where
  "checkpt_mmio_buffer c w =
     (case ck_mmio_buffer c of
        None \<Rightarrow> Ok None
      | Some p \<Rightarrow> (case cells (mem w) p of Some (Buffer b) \<Rightarrow> Ok (Some b) | _ \<Rightarrow> Panic))"

text \<open>The C library finishes first, whatever it answers; then the box and the buffers go.\<close>

definition checkpt_drop :: "'s checkpt_lib \<Rightarrow> checkpt \<Rightarrow> (unit, 's) io" where
  "checkpt_drop lib c w =
     ffi (c_checkpt_fini lib (ck_inner c) w)
       (\<lambda>_ w. free_cells (ck_inner c # (case ck_write_buffer c of None \<Rightarrow> [] | Some p \<Rightarrow> [p]) @
                                       (case ck_mmio_buffer c of None \<Rightarrow> [] | Some p \<Rightarrow> [p])) w) w"

subsection \<open>The reader\<close>

definition restore_new_stream :: "'s checkpt_lib \<Rightarrow> int \<Rightarrow> nat option \<Rightarrow> (restore, 's) io" where
  "restore_new_stream lib fd read_buffer_size w =
     (let rbuf_sz = (case read_buffer_size of None \<Rightarrow> RESTORE_RBUF_MIN lib | Some n \<Rightarrow> n)
      in if rbuf_sz < RESTORE_RBUF_MIN lib
         then (Err (InvalidArgs (ascii ''Read buffer size is less than minimum'')), close_fd fd w)
         else case new_cell (Buffer (replicate rbuf_sz 0)) w of (read_buffer, w) \<Rightarrow>
              (case new_cell (Private 0 0 0) w of (restore_mem, w) \<Rightarrow>
               (case c_restore_init_stream lib restore_mem fd read_buffer rbuf_sz w of
                  None \<Rightarrow> (Panic, w)
                | Some (p, w) \<Rightarrow>
                    if p = 0 then fail_with (InvalidArgs (ascii ''Failed to initialize restore'')) [restore_mem, read_buffer] (close_fd fd w)
                    else (Ok \<lparr>rs_inner = restore_mem, rs_read_buffer = Some read_buffer, rs_mmio_buffer = None\<rparr>, w))))"

text \<open>The vector is the caller's; its cell is made here.\<close>

definition restore_new_mmio :: "'s checkpt_lib \<Rightarrow> bytes \<Rightarrow> (restore, 's) io" where
  "restore_new_mmio lib data w =
     (case new_cell (Buffer data) w of (data_mem, w) \<Rightarrow>
      (case new_cell (Private 0 0 0) w of (restore_mem, w) \<Rightarrow>
       (case c_restore_init_mmio lib restore_mem data_mem (length data) w of
          None \<Rightarrow> (Panic, w)
        | Some (p, w) \<Rightarrow>
            if p = 0 then fail_with (InvalidArgs (ascii ''Failed to initialize restore'')) [restore_mem, data_mem] w
            else (Ok \<lparr>rs_inner = restore_mem, rs_read_buffer = None, rs_mmio_buffer = Some data_mem\<rparr>, w))))"

definition restore_is_mmio :: "restore \<Rightarrow> 's world \<Rightarrow> (bool, checkpt_error) res" where
  "restore_is_mmio r w = res_bind (private_at (rs_inner r) w) (\<lambda>(fd, st, sz). Ok (fd < 0))"

definition restore_can_open_frame :: "restore \<Rightarrow> 's world \<Rightarrow> (bool, checkpt_error) res" where
  "restore_can_open_frame r w = res_bind (private_at (rs_inner r) w) (\<lambda>(fd, st, sz). Ok (st = 0))"

definition restore_in_frame :: "restore \<Rightarrow> 's world \<Rightarrow> (bool, checkpt_error) res" where
  "restore_in_frame r w = res_bind (private_at (rs_inner r) w) (\<lambda>(fd, st, sz). Ok (0 < st))"

definition restore_size :: "restore \<Rightarrow> 's world \<Rightarrow> (u64, checkpt_error) res" where
  "restore_size r w = res_bind (private_at (rs_inner r) w) (\<lambda>(fd, st, sz). Ok sz)"

definition restore_seek :: "'s checkpt_lib \<Rightarrow> restore \<Rightarrow> u64 \<Rightarrow> (unit, 's) io" where
  "restore_seek lib r offset w = ffi (c_restore_seek lib (rs_inner r) offset w) (\<lambda>result w. (of_code lib result (), w)) w"

definition restore_open_frame :: "'s checkpt_lib \<Rightarrow> restore \<Rightarrow> frame_style \<Rightarrow> (u64, 's) io" where
  "restore_open_frame lib r style w =
     ffi (c_restore_open lib (rs_inner r) (style_code lib style) w) (\<lambda>(result, offset) w. (of_code lib result offset, w)) w"

definition restore_close_frame :: "'s checkpt_lib \<Rightarrow> restore \<Rightarrow> (u64, 's) io" where
  "restore_close_frame lib r w =
     ffi (c_restore_close lib (rs_inner r) w) (\<lambda>(result, offset) w. (of_code lib result offset, w)) w"

text \<open>The buffer comes back with the outcome; C writes inside it.\<close>

definition into_buffer :: "'s checkpt_lib \<Rightarrow> bytes \<Rightarrow> ((int \<times> bytes) \<times> 's world) option \<Rightarrow> 's world \<Rightarrow> (unit, checkpt_error) res \<times> bytes \<times> 's world" where
  "into_buffer lib buf call w =
     (case call of
        None \<Rightarrow> (Panic, buf, w)
      | Some ((result, b), w) \<Rightarrow> if length b \<noteq> length buf then (Panic, buf, w) else (of_code lib result (), b, w))"

definition restore_meta :: "'s checkpt_lib \<Rightarrow> restore \<Rightarrow> bytes \<Rightarrow> 's world \<Rightarrow> (unit, checkpt_error) res \<times> bytes \<times> 's world" where
  "restore_meta lib r buf w =
     (if length buf > RESTORE_META_MAX lib then (Err (InvalidArgs (ascii ''Metadata buffer size exceeds maximum'')), buf, w)
      else into_buffer lib buf (c_restore_meta lib (rs_inner r) buf w) w)"

definition restore_data :: "'s checkpt_lib \<Rightarrow> restore \<Rightarrow> bytes \<Rightarrow> 's world \<Rightarrow> (unit, checkpt_error) res \<times> bytes \<times> 's world" where
  "restore_data lib r buf w = into_buffer lib buf (c_restore_data lib (rs_inner r) buf w) w"

definition restore_drop :: "'s checkpt_lib \<Rightarrow> restore \<Rightarrow> (unit, 's) io" where
  "restore_drop lib r w =
     ffi (c_restore_fini lib (rs_inner r) w)
       (\<lambda>_ w. free_cells (rs_inner r # (case rs_read_buffer r of None \<Rightarrow> [] | Some p \<Rightarrow> [p]) @
                                       (case rs_mmio_buffer r of None \<Rightarrow> [] | Some p \<Rightarrow> [p])) w) w"

section \<open>A program of checkpoints\<close>

text \<open>Frames of metadata and data, as a client writes them, and the sizes a client has to know to read them.\<close>

datatype item = Meta bytes | Data bytes

type_synonym frame = "frame_style \<times> item list"

datatype slot = MetaOf nat | DataOf nat

fun slot_of :: "item \<Rightarrow> slot" where
  "slot_of (Meta b) = MetaOf (length b)"
| "slot_of (Data b) = DataOf (length b)"

definition and_then :: "('a, 's) io \<Rightarrow> ('a \<Rightarrow> ('b, 's) io) \<Rightarrow> ('b, 's) io" where
  "and_then m k w = (case m w of (Ok x, w) \<Rightarrow> k x w | (Err e, w) \<Rightarrow> (Err e, w) | (Panic, w) \<Rightarrow> (Panic, w))"

lemma and_then_Ok: "m w = (Ok x, w') \<Longrightarrow> and_then m k w = k x w'"
  by (simp add: and_then_def)

fun write_items :: "'s checkpt_lib \<Rightarrow> checkpt \<Rightarrow> item list \<Rightarrow> (unit, 's) io" where
  "write_items lib c [] w = (Ok (), w)"
| "write_items lib c (i # is) w =
     and_then (case i of Meta b \<Rightarrow> checkpoint_meta lib c b | Data b \<Rightarrow> checkpoint_data lib c b) (\<lambda>_. write_items lib c is) w"

fun write_frames :: "'s checkpt_lib \<Rightarrow> checkpt \<Rightarrow> frame list \<Rightarrow> ((u64 \<times> u64) list, 's) io" where
  "write_frames lib c [] w = (Ok [], w)"
| "write_frames lib c ((st, is) # fs) w =
     and_then (checkpt_open_frame lib c st) (\<lambda>a. and_then (write_items lib c is) (\<lambda>_.
       and_then (checkpt_close_frame lib c) (\<lambda>e. and_then (write_frames lib c fs) (\<lambda>os w. (Ok ((a, e) # os), w))))) w"

definition image_of :: "checkpt \<Rightarrow> u64 \<Rightarrow> (bytes, 's) io" where
  "image_of c e w =
     (case checkpt_mmio_buffer c w of
        Ok (Some b) \<Rightarrow> (slice b 0 (unat e), w) | Ok None \<Rightarrow> (Panic, w) | Err e \<Rightarrow> (Err e, w) | Panic \<Rightarrow> (Panic, w))"

definition backup :: "'s checkpt_lib \<Rightarrow> nat \<Rightarrow> frame list \<Rightarrow> (bytes \<times> (u64 \<times> u64) list, 's) io" where
  "backup lib buffer_size fs =
     and_then (checkpt_new_mmio lib buffer_size) (\<lambda>c. and_then (write_frames lib c fs) (\<lambda>os.
       and_then (image_of c (snd (last os))) (\<lambda>img. and_then (checkpt_drop lib c) (\<lambda>_ w. (Ok (img, os), w)))))"

fun read_items :: "'s checkpt_lib \<Rightarrow> restore \<Rightarrow> slot list \<Rightarrow> (item list, 's) io" where
  "read_items lib r [] w = (Ok [], w)"
| "read_items lib r (i # is) w =
     and_then (\<lambda>w. case i of
         MetaOf n \<Rightarrow> (case restore_meta lib r (replicate n 0) w of (x, b, w) \<Rightarrow> (res_bind x (\<lambda>_. Ok (Meta b)), w))
       | DataOf n \<Rightarrow> (case restore_data lib r (replicate n 0) w of (x, b, w) \<Rightarrow> (res_bind x (\<lambda>_. Ok (Data b)), w)))
       (\<lambda>j. and_then (read_items lib r is) (\<lambda>js w. (Ok (j # js), w))) w"

fun read_frames :: "'s checkpt_lib \<Rightarrow> restore \<Rightarrow> (frame_style \<times> slot list) list \<Rightarrow> (((u64 \<times> u64) \<times> frame) list, 's) io" where
  "read_frames lib r [] w = (Ok [], w)"
| "read_frames lib r ((st, is) # fs) w =
     and_then (restore_open_frame lib r st) (\<lambda>a. and_then (read_items lib r is) (\<lambda>js.
       and_then (restore_close_frame lib r) (\<lambda>e. and_then (read_frames lib r fs) (\<lambda>gs w. (Ok (((a, e), (st, js)) # gs), w))))) w"

definition recover :: "'s checkpt_lib \<Rightarrow> bytes \<Rightarrow> (frame_style \<times> slot list) list \<Rightarrow> (((u64 \<times> u64) \<times> frame) list, 's) io" where
  "recover lib img fs =
     and_then (restore_new_mmio lib img) (\<lambda>r. and_then (read_frames lib r fs) (\<lambda>gs. and_then (restore_drop lib r) (\<lambda>_ w. (Ok gs, w))))"

section \<open>Laws of the library\<close>

text \<open>
  \<open>touches P w w'\<close>: a call changes no cell but those of \<open>P\<close>, allocates and releases nothing and keeps the descriptors.
\<close>

definition touches :: "nat set \<Rightarrow> 's world \<Rightarrow> 's world \<Rightarrow> bool" where
  "touches P w w' \<longleftrightarrow> heap_ok (mem w') \<and> live (mem w') = live (mem w) \<and> fds w' = fds w \<and>
     (\<forall>q. q \<notin> P \<longrightarrow> cells (mem w') q = cells (mem w) q)"

lemma touches_trans [trans]: "touches P w w' \<Longrightarrow> touches P w' w'' \<Longrightarrow> touches P w w''"
  by (simp add: touches_def)

lemma touches_refl: "heap_ok (mem w) \<Longrightarrow> touches P w w"
  by (simp add: touches_def)

text \<open>
  What may go into a frame: metadata within the limits, and data of any size, with or without compression. The library reads the data of a
  compressed frame, and the buffers it was restored into, until the frame is closed; the programs above keep all of them to
  their end (the borrow of \<open>checkpoint_data\<close> alone does not ask for it).
\<close>

fun item_ok :: "'s checkpt_lib \<Rightarrow> frame_style \<Rightarrow> item \<Rightarrow> bool" where
  "item_ok lib st (Meta b) \<longleftrightarrow> length b \<le> CHECKPT_META_MAX lib \<and> length b \<le> RESTORE_META_MAX lib"
| "item_ok lib st (Data b) \<longleftrightarrow> True"

text \<open>
  \<open>frame_bytes\<close> is what a closed frame takes in the buffer, \<open>need\<close> the room that suffices while it is written. \<open>writer k b n
  done ph w\<close>: the writer with struct \<open>k\<close> and buffer \<open>b\<close> of \<open>n\<close> bytes has closed the frames with the bytes \<open>done\<close> and
  has the frame \<open>ph\<close> open. \<open>reader k b input pos ph w\<close>: the reader is at position \<open>pos\<close> of the input; in a frame, it has the items that
  are still to come and the position of its end.
\<close>

locale frame_format =
  fixes lib :: "'s checkpt_lib" and frame_bytes :: "frame_style \<Rightarrow> item list \<Rightarrow> bytes" and need :: "frame_style \<Rightarrow> item list \<Rightarrow> nat"
    and writer :: "nat \<Rightarrow> nat \<Rightarrow> nat \<Rightarrow> bytes \<Rightarrow> (frame_style \<times> item list) option \<Rightarrow> 's world \<Rightarrow> bool"
    and reader :: "nat \<Rightarrow> nat \<Rightarrow> bytes \<Rightarrow> nat \<Rightarrow> (frame_style \<times> item list \<times> nat) option \<Rightarrow> 's world \<Rightarrow> bool"
  assumes need_law: "length (frame_bytes st is) \<le> need st is" "need st is \<le> need st (is @ [i])"
    and w_init: "heap_ok (mem w) \<Longrightarrow> cells (mem w) k = Some (Private 0 0 0) \<Longrightarrow> cells (mem w) b = Some (Buffer (replicate n 0)) \<Longrightarrow>
      0 < n \<Longrightarrow> n < 2 ^ 64 \<Longrightarrow> \<exists>w'. c_checkpt_init_mmio lib k b n w = Some (k, w') \<and> writer k b n [] None w' \<and> touches {k, b} w w'"
    and w_view: "writer k b n cl ph w \<Longrightarrow> (\<exists>B. cells (mem w) b = Some (Buffer B) \<and> length B = n \<and> take (length cl) B = cl) \<and>
      (\<exists>fd st sz. cells (mem w) k = Some (Private fd st sz) \<and> fd < 0 \<and> (if ph = None then st = 0 else 0 < st))"
    and w_open: "writer k b n cl None w \<Longrightarrow> is_supported lib st \<Longrightarrow> length cl + need st [] \<le> n \<Longrightarrow>
      \<exists>w'. c_checkpt_open lib k (style_code lib st) w = Some ((0, of_nat (length cl)), w') \<and> writer k b n cl (Some (st, [])) w' \<and> touches {k, b} w w'"
    and w_meta: "writer k b n cl (Some (st, is)) w \<Longrightarrow> item_ok lib st (Meta x) \<Longrightarrow> length cl + need st (is @ [Meta x]) \<le> n \<Longrightarrow>
      \<exists>w'. c_checkpt_meta lib k x w = Some (0, w') \<and> writer k b n cl (Some (st, is @ [Meta x])) w' \<and> touches {k, b} w w'"
    and w_data: "writer k b n cl (Some (st, is)) w \<Longrightarrow> item_ok lib st (Data x) \<Longrightarrow> length cl + need st (is @ [Data x]) \<le> n \<Longrightarrow>
      \<exists>w'. c_checkpt_data lib k x w = Some (0, w') \<and> writer k b n cl (Some (st, is @ [Data x])) w' \<and> touches {k, b} w w'"
    and w_close: "writer k b n cl (Some (st, is)) w \<Longrightarrow> length cl + need st is \<le> n \<Longrightarrow>
      \<exists>w'. c_checkpt_close lib k w = Some ((0, of_nat (length cl + length (frame_bytes st is))), w') \<and>
        writer k b n (cl @ frame_bytes st is) None w' \<and> touches {k, b} w w'"
    and w_fini: "writer k b n cl None w \<Longrightarrow> \<exists>p w'. c_checkpt_fini lib k w = Some (p, w') \<and> touches {k, b} w w'"
    and r_init: "heap_ok (mem w) \<Longrightarrow> cells (mem w) k = Some (Private 0 0 0) \<Longrightarrow> cells (mem w) b = Some (Buffer bs) \<Longrightarrow> bs \<noteq> [] \<Longrightarrow>
      length bs < 2 ^ 64 \<Longrightarrow>
      \<exists>w'. c_restore_init_mmio lib k b (length bs) w = Some (k, w') \<and> reader k b bs 0 None w' \<and> touches {k, b} w w'"
    and r_open: "reader k b bs pos None w \<Longrightarrow> is_supported lib st \<Longrightarrow> drop pos bs = frame_bytes st is @ rest \<Longrightarrow>
      \<forall>i \<in> set is. item_ok lib st i \<Longrightarrow>
      \<exists>w'. c_restore_open lib k (style_code lib st) w = Some ((0, of_nat pos), w') \<and>
        reader k b bs pos (Some (st, is, pos + length (frame_bytes st is))) w' \<and> touches {k, b} w w'"
    and r_meta: "reader k b bs pos (Some (st, Meta x # is, e)) w \<Longrightarrow> length buf = length x \<Longrightarrow>
      \<exists>w'. c_restore_meta lib k buf w = Some ((0, x), w') \<and> reader k b bs pos (Some (st, is, e)) w' \<and> touches {k, b} w w'"
    and r_data: "reader k b bs pos (Some (st, Data x # is, e)) w \<Longrightarrow> length buf = length x \<Longrightarrow>
      \<exists>w'. c_restore_data lib k buf w = Some ((0, x), w') \<and> reader k b bs pos (Some (st, is, e)) w' \<and> touches {k, b} w w'"
    and r_close: "reader k b bs pos (Some (st, [], e)) w \<Longrightarrow>
      \<exists>w'. c_restore_close lib k w = Some ((0, of_nat e), w') \<and> reader k b bs e None w' \<and> touches {k, b} w w'"
    and r_fini: "reader k b bs pos None w \<Longrightarrow> \<exists>p w'. c_restore_fini lib k w = Some (p, w') \<and> touches {k, b} w w'"

text \<open>The frames fit a buffer of \<open>n\<close> bytes, from \<open>pos\<close> on.\<close>

fun frames_fit :: "(frame_style \<Rightarrow> item list \<Rightarrow> bytes) \<Rightarrow> (frame_style \<Rightarrow> item list \<Rightarrow> nat) \<Rightarrow> nat \<Rightarrow> nat \<Rightarrow> frame list \<Rightarrow> bool" where
  "frames_fit fb need n pos [] \<longleftrightarrow> True"
| "frames_fit fb need n pos ((st, is) # fs) \<longleftrightarrow> pos + need st is \<le> n \<and> frames_fit fb need n (pos + length (fb st is)) fs"

definition frame_ok :: "'s checkpt_lib \<Rightarrow> frame \<Rightarrow> bool" where
  "frame_ok lib f \<longleftrightarrow> is_supported lib (fst f) \<and> (\<forall>i \<in> set (snd f). item_ok lib (fst f) i)"

text \<open>Where the frames begin and end.\<close>

fun offsets :: "(frame_style \<Rightarrow> item list \<Rightarrow> bytes) \<Rightarrow> nat \<Rightarrow> frame list \<Rightarrow> (u64 \<times> u64) list" where
  "offsets fb pos [] = []"
| "offsets fb pos ((st, is) # fs) =
     (of_nat pos, of_nat (pos + length (fb st is))) # offsets fb (pos + length (fb st is)) fs"

definition shape :: "frame list \<Rightarrow> (frame_style \<times> slot list) list" where
  "shape fs = map (\<lambda>(st, is). (st, map slot_of is)) fs"

definition all_bytes :: "(frame_style \<Rightarrow> item list \<Rightarrow> bytes) \<Rightarrow> frame list \<Rightarrow> bytes" where
  "all_bytes fb fs = concat (map (\<lambda>(st, is). fb st is) fs)"

lemma of_code_0 [simp]: "of_code lib 0 x = Ok x"
  by (simp add: of_code_def)

lemma last_offset: "fs \<noteq> [] \<Longrightarrow> snd (last (offsets fb pos fs)) = of_nat (pos + length (all_bytes fb fs))"
proof (induction fb pos fs rule: offsets.induct)
  case (2 fb pos st "is" fs)
  have "offsets fb p fs \<noteq> [] \<longleftrightarrow> fs \<noteq> []" for p by (cases fs) auto
  then show ?case using "2.IH" by (cases "fs = []") (simp_all add: all_bytes_def)
qed simp

context frame_format
begin

lemma frames_fit_length: "frames_fit frame_bytes need n pos fs \<Longrightarrow> pos \<le> n \<Longrightarrow> pos + length (all_bytes frame_bytes fs) \<le> n"
proof (induction fs arbitrary: pos)
  case (Cons f fs)
  obtain st "is" where f: "f = (st, is)" by (cases f)
  have "pos + length (frame_bytes st is) \<le> n" using Cons.prems f need_law(1) [of st "is"] by auto
  then show ?case using Cons.IH [of "pos + length (frame_bytes st is)"] Cons.prems f by (auto simp: all_bytes_def)
qed (simp add: all_bytes_def)

lemma need_append: "need st is \<le> need st (is @ js)"
proof (induction js rule: rev_induct)
  case (snoc j js)
  then show ?case using need_law(2) [of st "is @ js" j] by simp
qed simp

lemma write_items_ok:
  "writer (ck_inner c) b n cl (Some (st, done)) w \<Longrightarrow> \<forall>i \<in> set is. item_ok lib st i \<Longrightarrow> length cl + need st (done @ is) \<le> n \<Longrightarrow>
    heap_ok (mem w) \<Longrightarrow>
    \<exists>w'. write_items lib c is w = (Ok (), w') \<and> writer (ck_inner c) b n cl (Some (st, done @ is)) w' \<and> touches {ck_inner c, b} w w'"
proof (induction "is" arbitrary: "done" w)
  case (Cons i js)
  have room: "length cl + need st (done @ [i]) \<le> n" using Cons.prems(3) need_append [of st "done @ [i]" js] by simp
  have "\<exists>w1. (case i of Meta b \<Rightarrow> checkpoint_meta lib c b | Data b \<Rightarrow> checkpoint_data lib c b) w = (Ok (), w1) \<and>
      writer (ck_inner c) b n cl (Some (st, done @ [i])) w1 \<and> touches {ck_inner c, b} w w1"
  proof (cases i)
    case (Meta x)
    then show ?thesis using w_meta [OF Cons.prems(1), of x] Cons.prems(2) room by (auto simp: checkpoint_meta_def)
  next
    case (Data x)
    then show ?thesis using w_data [OF Cons.prems(1), of x] Cons.prems(2) room by (auto simp: checkpoint_data_def)
  qed
  then obtain w1 where w1: "(case i of Meta b \<Rightarrow> checkpoint_meta lib c b | Data b \<Rightarrow> checkpoint_data lib c b) w = (Ok (), w1)"
    "writer (ck_inner c) b n cl (Some (st, done @ [i])) w1" "touches {ck_inner c, b} w w1" by blast
  have "\<exists>w'. write_items lib c js w1 = (Ok (), w') \<and> writer (ck_inner c) b n cl (Some (st, (done @ [i]) @ js)) w' \<and> touches {ck_inner c, b} w1 w'"
    using Cons.prems(2,3) w1(3) by (intro Cons.IH [OF w1(2)]) (auto simp: touches_def)
  then show ?case using w1 by (auto simp: and_then_Ok intro: touches_trans)
qed (simp add: touches_refl)

lemma write_frames_ok:
  "writer (ck_inner c) b n cl None w \<Longrightarrow> \<forall>f \<in> set fs. frame_ok lib f \<Longrightarrow> frames_fit frame_bytes need n (length cl) fs \<Longrightarrow> heap_ok (mem w) \<Longrightarrow>
    \<exists>w'. write_frames lib c fs w = (Ok (offsets frame_bytes (length cl) fs), w') \<and>
      writer (ck_inner c) b n (cl @ all_bytes frame_bytes fs) None w' \<and> touches {ck_inner c, b} w w'"
proof (induction fs arbitrary: cl w)
  case (Cons f fs)
  obtain st "is" where f: "f = (st, is)" by (cases f)
  have ok: "is_supported lib st" "\<forall>i \<in> set is. item_ok lib st i" using Cons.prems(2) f by (auto simp: frame_ok_def)
  have room: "length cl + need st is \<le> n" "length cl + need st [] \<le> n" using Cons.prems(3) f need_append [of st "[]" "is"] by auto
  obtain w1 where w1: "checkpt_open_frame lib c st w = (Ok (of_nat (length cl)), w1)" "writer (ck_inner c) b n cl (Some (st, [])) w1"
      "touches {ck_inner c, b} w w1"
    using w_open [OF Cons.prems(1) ok(1) room(2)] ok(1) by (auto simp: checkpt_open_frame_def)
  obtain w2 where w2: "write_items lib c is w1 = (Ok (), w2)" "writer (ck_inner c) b n cl (Some (st, is)) w2" "touches {ck_inner c, b} w1 w2"
    using write_items_ok [OF w1(2) ok(2)] room(1) w1(3) by (auto simp: touches_def)
  obtain w3 where w3: "checkpt_close_frame lib c w2 = (Ok (of_nat (length (cl @ frame_bytes st is))), w3)"
      "writer (ck_inner c) b n (cl @ frame_bytes st is) None w3" "touches {ck_inner c, b} w2 w3"
    using w_close [OF w2(2) room(1)] by (auto simp: checkpt_close_frame_def)
  have "\<exists>w'. write_frames lib c fs w3 = (Ok (offsets frame_bytes (length (cl @ frame_bytes st is)) fs), w') \<and>
      writer (ck_inner c) b n ((cl @ frame_bytes st is) @ all_bytes frame_bytes fs) None w' \<and> touches {ck_inner c, b} w3 w'"
    using Cons.prems(2,3) f w3(3) by (intro Cons.IH [OF w3(2)]) (auto simp: touches_def)
  then obtain w4 where w4: "write_frames lib c fs w3 = (Ok (offsets frame_bytes (length (cl @ frame_bytes st is)) fs), w4)"
      "writer (ck_inner c) b n ((cl @ frame_bytes st is) @ all_bytes frame_bytes fs) None w4" "touches {ck_inner c, b} w3 w4" by blast
  have "touches {ck_inner c, b} w w4" using w1(3) w2(3) w3(3) w4(3) by (blast intro: touches_trans)
  then show ?case using f w1(1) w2(1) w3(1) w4 by (simp add: and_then_def all_bytes_def)
qed (simp add: all_bytes_def touches_refl)

lemma read_items_ok:
  "reader (rs_inner r) b bs pos (Some (st, is, e)) w \<Longrightarrow> \<forall>i \<in> set is. item_ok lib st i \<Longrightarrow> heap_ok (mem w) \<Longrightarrow>
    \<exists>w'. read_items lib r (map slot_of is) w = (Ok is, w') \<and> reader (rs_inner r) b bs pos (Some (st, [], e)) w' \<and> touches {rs_inner r, b} w w'"
proof (induction "is" arbitrary: w)
  case (Cons i js)
  obtain w1 where w1: "reader (rs_inner r) b bs pos (Some (st, js, e)) w1" "touches {rs_inner r, b} w w1"
      "read_items lib r (map slot_of (i # js)) w = and_then (read_items lib r (map slot_of js)) (\<lambda>js w. (Ok (i # js), w)) w1"
  proof (cases i)
    case (Meta x)
    obtain w1 where "c_restore_meta lib (rs_inner r) (replicate (length x) 0) w = Some ((0, x), w1)"
        "reader (rs_inner r) b bs pos (Some (st, js, e)) w1" "touches {rs_inner r, b} w w1"
      using r_meta [of "rs_inner r" b bs pos st x js e w "replicate (length x) 0"] Cons.prems(1) Meta by auto
    then show thesis using that Meta Cons.prems(2) by (auto simp: restore_meta_def into_buffer_def and_then_def)
  next
    case (Data x)
    obtain w1 where "c_restore_data lib (rs_inner r) (replicate (length x) 0) w = Some ((0, x), w1)"
        "reader (rs_inner r) b bs pos (Some (st, js, e)) w1" "touches {rs_inner r, b} w w1"
      using r_data [of "rs_inner r" b bs pos st x js e w "replicate (length x) 0"] Cons.prems(1) Data by auto
    then show thesis using that Data by (auto simp: restore_data_def into_buffer_def and_then_def)
  qed
  have "\<exists>w'. read_items lib r (map slot_of js) w1 = (Ok js, w') \<and> reader (rs_inner r) b bs pos (Some (st, [], e)) w' \<and> touches {rs_inner r, b} w1 w'"
    using Cons.prems(2) w1(2) by (intro Cons.IH [OF w1(1)]) (auto simp: touches_def)
  then show ?case using w1(2,3) by (auto simp: and_then_Ok intro: touches_trans)
qed (simp add: touches_refl)

lemma read_frames_ok:
  "reader (rs_inner r) b bs pos None w \<Longrightarrow> \<forall>f \<in> set fs. frame_ok lib f \<Longrightarrow> drop pos bs = all_bytes frame_bytes fs @ rest \<Longrightarrow> heap_ok (mem w) \<Longrightarrow>
    \<exists>w' pos'. read_frames lib r (shape fs) w = (Ok (zip (offsets frame_bytes pos fs) fs), w') \<and> reader (rs_inner r) b bs pos' None w' \<and>
      touches {rs_inner r, b} w w'"
proof (induction fs arbitrary: pos w)
  case Nil
  then show ?case by (auto simp: shape_def intro: touches_refl)
next
  case (Cons f fs)
  obtain st "is" where f: "f = (st, is)" by (cases f)
  let ?pos = "pos + length (frame_bytes st is)"
  have ok: "is_supported lib st" "\<forall>i \<in> set is. item_ok lib st i" using Cons.prems(2) f by (auto simp: frame_ok_def)
  have d: "drop pos bs = frame_bytes st is @ all_bytes frame_bytes fs @ rest" using Cons.prems(3) f by (simp add: all_bytes_def)
  obtain w1 where w1: "restore_open_frame lib r st w = (Ok (of_nat pos), w1)" "reader (rs_inner r) b bs pos (Some (st, is, ?pos)) w1"
      "touches {rs_inner r, b} w w1"
    using r_open [OF Cons.prems(1) ok(1) d ok(2)] by (auto simp: restore_open_frame_def)
  obtain w2 where w2: "read_items lib r (map slot_of is) w1 = (Ok is, w2)" "reader (rs_inner r) b bs pos (Some (st, [], ?pos)) w2"
      "touches {rs_inner r, b} w1 w2"
    using read_items_ok [OF w1(2) ok(2)] w1(3) by (auto simp: touches_def)
  obtain w3 where w3: "restore_close_frame lib r w2 = (Ok (of_nat ?pos), w3)" "reader (rs_inner r) b bs ?pos None w3" "touches {rs_inner r, b} w2 w3"
    using r_close [OF w2(2)] by (auto simp: restore_close_frame_def)
  have "drop ?pos bs = all_bytes frame_bytes fs @ rest" using arg_cong [OF d, of "drop (length (frame_bytes st is))"] by (simp add: add.commute)
  then have "\<exists>w' pos'. read_frames lib r (shape fs) w3 = (Ok (zip (offsets frame_bytes ?pos fs) fs), w') \<and> reader (rs_inner r) b bs pos' None w' \<and>
      touches {rs_inner r, b} w3 w'"
    using Cons.prems(2) w3(3) by (intro Cons.IH [OF w3(2)]) (auto simp: touches_def)
  then obtain w4 pos' where w4: "read_frames lib r (shape fs) w3 = (Ok (zip (offsets frame_bytes ?pos fs) fs), w4)"
      "reader (rs_inner r) b bs pos' None w4" "touches {rs_inner r, b} w3 w4" by blast
  have "touches {rs_inner r, b} w w4" using w1(3) w2(3) w3(3) w4(3) by (blast intro: touches_trans)
  then show ?case using f w1(1) w2(1) w3(1) w4(1,2) by (auto simp: and_then_def shape_def)
qed


text \<open>The queries follow the phase.\<close>

lemma writer_phase:
  assumes "writer (ck_inner c) b n cl ph w"
  shows "checkpt_is_mmio c w = Ok True" "checkpt_can_open_frame c w = Ok (ph = None)" "checkpt_in_frame c w = Ok (ph \<noteq> None)"
  using w_view [OF assms]
  by (cases ph; auto simp: checkpt_is_mmio_def checkpt_can_open_frame_def checkpt_in_frame_def private_at_def split: if_splits)+

end

section \<open>Making and releasing\<close>

lemma two_cells:
  assumes "heap_ok (mem w)"
  obtains b w1 k w2 where "new_cell c w = (b, w1)" "new_cell d w1 = (k, w2)" "heap_ok (mem w2)" "0 < k" "0 < b" "b \<noteq> k"
    "cells (mem w) b = None" "cells (mem w) k = None" "cells (mem w2) = (cells (mem w))(b \<mapsto> c, k \<mapsto> d)" "fds w2 = fds w" "c_state w2 = c_state w"
proof -
  obtain b h1 where a: "h_alloc c (mem w) = (b, h1)" "heap_ok h1" "live h1 = insert b (live (mem w))" "b \<notin> live (mem w)" "0 < b"
      "cells h1 = (cells (mem w))(b \<mapsto> c)"
    using h_allocE [OF assms, where b = c] .
  obtain k h2 where e: "h_alloc d h1 = (k, h2)" "heap_ok h2" "live h2 = insert k (live h1)" "k \<notin> live h1" "0 < k" "cells h2 = (cells h1)(k \<mapsto> d)"
    using h_allocE [OF a(2), where b = d] .
  show thesis
    by (rule that [of b "w\<lparr>mem := h1\<rparr>" k "w\<lparr>mem := h2\<rparr>"]) (use a e in \<open>auto simp: new_cell_def domIff\<close>)
qed

lemma release_two:
  assumes "touches {k, b} w2 w3" and "cells (mem w2) = (cells (mem w))(b \<mapsto> c, k \<mapsto> d)" and "b \<noteq> k"
    and "cells (mem w) b = None" and "cells (mem w) k = None" and "fds w2 = fds w"
  shows "\<exists>w4. free_cells [k, b] w3 = (Ok (), w4) \<and> cells (mem w4) = cells (mem w) \<and> heap_ok (mem w4) \<and> fds w4 = fds w"
proof -
  have l: "k \<in> live (mem w3)" "b \<in> live (mem w3)" using assms by (auto simp: touches_def)
  have f: "free_cells [k, b] w3 = (Ok (), w3\<lparr>mem := release {b} (release {k} (mem w3))\<rparr>)"
    using l assms(3) by (simp add: h_free_live live_release)
  have "cells (release {b} (release {k} (mem w3))) q = cells (mem w) q" for q
    using assms by (cases "q = k \<or> q = b") (auto simp: release_cells touches_def)
  moreover have "heap_ok (release {b} (release {k} (mem w3)))" using assms(1) by (simp add: release_ok touches_def)
  ultimately show ?thesis using f assms(1,6) by (auto simp: touches_def)
qed

context frame_format
begin

lemma backup_ok:
  assumes "heap_ok (mem w)" and "n < 2 ^ 64" and "fs \<noteq> []" and "\<forall>f \<in> set fs. frame_ok lib f" and "frames_fit frame_bytes need n 0 fs" and "0 < n"
  shows "\<exists>w'. backup lib n fs w = (Ok (all_bytes frame_bytes fs, offsets frame_bytes 0 fs), w') \<and>
    cells (mem w') = cells (mem w) \<and> heap_ok (mem w') \<and> fds w' = fds w"
proof -
  let ?all = "all_bytes frame_bytes fs"
  obtain b w1 k w2 where n: "new_cell (Buffer (replicate n 0)) w = (b, w1)" "new_cell (Private 0 0 0) w1 = (k, w2)" "heap_ok (mem w2)" "0 < k"
    "b \<noteq> k" "cells (mem w) b = None" "cells (mem w) k = None"
    "cells (mem w2) = (cells (mem w))(b \<mapsto> Buffer (replicate n 0), k \<mapsto> Private 0 0 0)" "fds w2 = fds w"
    using two_cells [OF assms(1)] by metis
  let ?c = "\<lparr>ck_inner = k, ck_write_buffer = None, ck_mmio_buffer = Some b\<rparr>"
  obtain w3 where w3: "c_checkpt_init_mmio lib k b n w2 = Some (k, w3)" "writer k b n [] None w3" "touches {k, b} w2 w3"
    using w_init [OF n(3), of k b n] n(5,8) assms(2,6) by auto
  have new: "checkpt_new_mmio lib n w = (Ok ?c, w3)" using n(1,2,4) w3(1) by (simp add: checkpt_new_mmio_def)
  obtain w4 where w4: "write_frames lib ?c fs w3 = (Ok (offsets frame_bytes 0 fs), w4)" "writer k b n ?all None w4" "touches {k, b} w3 w4"
    using write_frames_ok [of ?c b n "[]" w3 fs] w3(2,3) assms(4,5) by (auto simp: touches_def)
  obtain B where B: "cells (mem w4) b = Some (Buffer B)" "length B = n" "take (length ?all) B = ?all" using w_view [OF w4(2)] by auto
  have len: "length ?all \<le> n" using frames_fit_length [OF assms(5)] by simp
  have "unat (snd (last (offsets frame_bytes 0 fs))) = length ?all"
    using last_offset [OF assms(3), of frame_bytes 0] len assms(2)
    by (simp add: unat_of_nat take_bit_nat_eq_self del: of_nat_add)
  then have img: "image_of ?c (snd (last (offsets frame_bytes 0 fs))) w4 = (Ok ?all, w4)"
    using B len by (simp add: image_of_def checkpt_mmio_buffer_def slice_def)
  obtain p w5 where w5: "c_checkpt_fini lib k w4 = Some (p, w5)" "touches {k, b} w4 w5" using w_fini [OF w4(2)] by blast
  have t: "touches {k, b} w2 w5" using w3(3) w4(3) w5(2) by (blast intro: touches_trans)
  obtain w6 where w6: "free_cells [k, b] w5 = (Ok (), w6)" "cells (mem w6) = cells (mem w)" "heap_ok (mem w6)" "fds w6 = fds w"
    using release_two [OF t n(8) n(5,6,7,9)] by blast
  have "checkpt_drop lib ?c w4 = (Ok (), w6)" using w5(1) w6(1) by (simp add: checkpt_drop_def)
  then show ?thesis using new w4(1) img w6(2-4) by (simp add: backup_def and_then_def)
qed

lemma recover_ok:
  assumes "heap_ok (mem w)" and "all_bytes frame_bytes fs \<noteq> []" and "length (all_bytes frame_bytes fs) < 2 ^ 64" and "\<forall>f \<in> set fs. frame_ok lib f"
  shows "\<exists>w'. recover lib (all_bytes frame_bytes fs) (shape fs) w = (Ok (zip (offsets frame_bytes 0 fs) fs), w') \<and>
    cells (mem w') = cells (mem w) \<and> heap_ok (mem w') \<and> fds w' = fds w"
proof -
  let ?all = "all_bytes frame_bytes fs"
  obtain b w1 k w2 where n: "new_cell (Buffer ?all) w = (b, w1)" "new_cell (Private 0 0 0) w1 = (k, w2)" "heap_ok (mem w2)" "0 < k"
    "b \<noteq> k" "cells (mem w) b = None" "cells (mem w) k = None"
    "cells (mem w2) = (cells (mem w))(b \<mapsto> Buffer ?all, k \<mapsto> Private 0 0 0)" "fds w2 = fds w"
    using two_cells [OF assms(1)] by metis
  let ?r = "\<lparr>rs_inner = k, rs_read_buffer = None, rs_mmio_buffer = Some b\<rparr>"
  obtain w3 where w3: "c_restore_init_mmio lib k b (length ?all) w2 = Some (k, w3)" "reader k b ?all 0 None w3" "touches {k, b} w2 w3"
    using r_init [OF n(3), of k b ?all] n(5,8) assms(2,3) by auto
  have new: "restore_new_mmio lib ?all w = (Ok ?r, w3)" using n(1,2,4) w3(1) by (simp add: restore_new_mmio_def)
  obtain w4 pos where w4: "read_frames lib ?r (shape fs) w3 = (Ok (zip (offsets frame_bytes 0 fs) fs), w4)" "reader k b ?all pos None w4"
      "touches {k, b} w3 w4"
    using read_frames_ok [of ?r b ?all 0 w3 fs "[]"] w3(2,3) assms(4) by (auto simp: touches_def)
  obtain p w5 where w5: "c_restore_fini lib k w4 = Some (p, w5)" "touches {k, b} w4 w5" using r_fini [OF w4(2)] by blast
  have t: "touches {k, b} w2 w5" using w3(3) w4(3) w5(2) by (blast intro: touches_trans)
  obtain w6 where w6: "free_cells [k, b] w5 = (Ok (), w6)" "cells (mem w6) = cells (mem w)" "heap_ok (mem w6)" "fds w6 = fds w"
    using release_two [OF t n(8) n(5,6,7,9)] by blast
  have "restore_drop lib ?r w4 = (Ok (), w6)" using w5(1) w6(1) by (simp add: restore_drop_def)
  then show ?thesis using new w4(1) w6(2-4) by (simp add: recover_def and_then_def)
qed

end

section \<open>A library that keeps the laws\<close>

text \<open>
  Both styles store the items as they are. The state gives each struct its buffer and its position; a struct in a file
  writes to its buffer only.
\<close>

fun item_bytes :: "item \<Rightarrow> bytes" where
  "item_bytes (Meta b) = b"
| "item_bytes (Data b) = b"

definition plain_bytes :: "frame_style \<Rightarrow> item list \<Rightarrow> bytes" where
  "plain_bytes st is = concat (map item_bytes is)"

definition plain_need :: "frame_style \<Rightarrow> item list \<Rightarrow> nat" where
  "plain_need st is = length (plain_bytes st is)"

type_synonym plain_state = "nat \<Rightarrow> (nat \<times> nat) option"

definition set_struct :: "nat \<Rightarrow> int \<Rightarrow> int \<Rightarrow> nat \<Rightarrow> nat \<Rightarrow> plain_state world \<Rightarrow> plain_state world" where
  "set_struct k fd style b pos w = w\<lparr>c_state := (c_state w)(k \<mapsto> (b, pos)),
     mem := (mem w)\<lparr>cells := (cells (mem w))(k \<mapsto> Private fd style 0)\<rparr>\<rparr>"

definition struct_of :: "nat \<Rightarrow> plain_state world \<Rightarrow> (int \<times> int \<times> nat \<times> nat \<times> bytes) option" where
  "struct_of k w = (case (c_state w k, cells (mem w) k) of
     (Some (b, pos), Some (Private fd st sz)) \<Rightarrow>
       (case cells (mem w) b of Some (Buffer B) \<Rightarrow> Some (fd, st, b, pos, B) | _ \<Rightarrow> None)
   | _ \<Rightarrow> None)"

definition plain_init :: "nat \<Rightarrow> int \<Rightarrow> nat \<Rightarrow> nat \<Rightarrow> plain_state world \<Rightarrow> (nat \<times> plain_state world) option" where
  "plain_init k fd b n w = (if cells (mem w) k = None then None else Some (if n = 0 then (0, w) else (k, set_struct k fd 0 b 0 w)))"

definition plain_open :: "nat \<Rightarrow> int \<Rightarrow> plain_state world \<Rightarrow> ((int \<times> u64) \<times> plain_state world) option" where
  "plain_open k code w = (case struct_of k w of None \<Rightarrow> None | Some (fd, st, b, pos, B) \<Rightarrow>
     Some (if st = 0 then ((0, of_nat pos), set_struct k fd code b pos w) else ((-1, 0), w)))"

definition plain_close :: "nat \<Rightarrow> plain_state world \<Rightarrow> ((int \<times> u64) \<times> plain_state world) option" where
  "plain_close k w = (case struct_of k w of None \<Rightarrow> None | Some (fd, st, b, pos, B) \<Rightarrow>
     Some (if st = 0 then ((-1, 0), w) else ((0, of_nat pos), set_struct k fd 0 b pos w)))"

definition plain_write :: "nat \<Rightarrow> bytes \<Rightarrow> plain_state world \<Rightarrow> (int \<times> plain_state world) option" where
  "plain_write k x w = (case struct_of k w of None \<Rightarrow> None | Some (fd, st, b, pos, B) \<Rightarrow>
     Some (if st = 0 then (-1, w) else if pos + length x > length B then (-3, w)
           else (0, (set_struct k fd st b (pos + length x) w)\<lparr>mem :=
             (mem w)\<lparr>cells := (cells (mem w))(b \<mapsto> Buffer (take pos B @ x @ drop (pos + length x) B))\<rparr>\<rparr>)))"

definition plain_read :: "nat \<Rightarrow> bytes \<Rightarrow> plain_state world \<Rightarrow> ((int \<times> bytes) \<times> plain_state world) option" where
  "plain_read k buf w = (case struct_of k w of None \<Rightarrow> None | Some (fd, st, b, pos, B) \<Rightarrow>
     Some (if st = 0 then ((-1, buf), w) else if pos + length buf > length B then ((-3, buf), w)
           else ((0, take (length buf) (drop pos B)), set_struct k fd st b (pos + length buf) w)))"

definition plain_seek :: "nat \<Rightarrow> u64 \<Rightarrow> plain_state world \<Rightarrow> (int \<times> plain_state world) option" where
  "plain_seek k off w = (case struct_of k w of None \<Rightarrow> None | Some (fd, st, b, pos, B) \<Rightarrow>
     Some (if st = 0 \<and> unat off \<le> length B then (0, set_struct k fd st b (unat off) w) else (-1, w)))"

definition plain_fini :: "nat \<Rightarrow> plain_state world \<Rightarrow> (nat \<times> plain_state world) option" where
  "plain_fini k w = (case struct_of k w of None \<Rightarrow> None | Some (fd, st, b, pos, B) \<Rightarrow>
     Some (if st = 0 then k else 0, w\<lparr>c_state := (c_state w)(k := None)\<rparr>))"

definition plain :: "plain_state checkpt_lib" where
  "plain = \<lparr>STYLE_RAW = 1, STYLE_LZ4 = 2, ERR_INVAL = -1, ERR_UNSUP = -2, ERR_IO = -3, ERR_COMP = -4, CHECKPT_WBUF_MIN = 4,
     RESTORE_RBUF_MIN = 4, CHECKPT_META_MAX = 8, RESTORE_META_MAX = 8, c_strerror = (\<lambda>e. ascii ''failed''),
     c_style_is_supported = (\<lambda>c. if c \<in> {1, 2} then 1 else 0),
     c_checkpt_init_stream = plain_init, c_checkpt_init_mmio = (\<lambda>k. plain_init k (-1)), c_checkpt_open = plain_open,
     c_checkpt_close = plain_close, c_checkpt_meta = plain_write, c_checkpt_data = plain_write, c_checkpt_fini = plain_fini,
     c_restore_init_stream = plain_init, c_restore_init_mmio = (\<lambda>k. plain_init k (-1)), c_restore_seek = plain_seek,
     c_restore_open = plain_open, c_restore_close = plain_close, c_restore_meta = plain_read, c_restore_data = plain_read,
     c_restore_fini = plain_fini\<rparr>"

definition at_struct :: "nat \<Rightarrow> nat \<Rightarrow> int \<Rightarrow> nat \<Rightarrow> bytes \<Rightarrow> plain_state world \<Rightarrow> bool" where
  "at_struct k b style pos B w \<longleftrightarrow> k \<noteq> b \<and> 0 < k \<and> heap_ok (mem w) \<and> c_state w k = Some (b, pos) \<and> cells (mem w) k = Some (Private (-1) style 0) \<and>
     cells (mem w) b = Some (Buffer B)"

lemma at_struct_of: "at_struct k b style pos B w \<Longrightarrow> struct_of k w = Some (-1, style, b, pos, B)"
  by (simp add: at_struct_def struct_of_def)

lemma heap_ok_upd: "heap_ok h \<Longrightarrow> cells h k \<noteq> None \<Longrightarrow> heap_ok (h\<lparr>cells := (cells h)(k \<mapsto> c)\<rparr>)"
  by (cases k) (auto simp: heap_ok_def)

lemma set_struct_at:
  assumes "at_struct k b style pos B w"
  shows "at_struct k b style' pos' B (set_struct k (-1) style' b pos' w)" "touches {k, b} w (set_struct k (-1) style' b pos' w)"
  using assms heap_ok_upd [of "mem w" k] by (auto simp: at_struct_def touches_def set_struct_def)

definition plain_writer :: "nat \<Rightarrow> nat \<Rightarrow> nat \<Rightarrow> bytes \<Rightarrow> (frame_style \<times> item list) option \<Rightarrow> plain_state world \<Rightarrow> bool" where
  "plain_writer k b n cl ph w \<longleftrightarrow> (\<exists>B. let out = cl @ (case ph of None \<Rightarrow> [] | Some (st, is) \<Rightarrow> plain_bytes st is)
     in at_struct k b (case ph of None \<Rightarrow> 0 | Some (st, is) \<Rightarrow> style_code plain st) (length out) B w \<and>
        length B = n \<and> take (length out) B = out)"

definition plain_reader :: "nat \<Rightarrow> nat \<Rightarrow> bytes \<Rightarrow> nat \<Rightarrow> (frame_style \<times> item list \<times> nat) option \<Rightarrow> plain_state world \<Rightarrow> bool" where
  "plain_reader k b bs pos ph w \<longleftrightarrow> (case ph of
       None \<Rightarrow> pos \<le> length bs \<and> at_struct k b 0 pos bs w
     | Some (st, is, e) \<Rightarrow> \<exists>cur rest. cur \<le> length bs \<and> at_struct k b (style_code plain st) cur bs w \<and> drop cur bs = plain_bytes st is @ rest \<and>
         e = cur + length (plain_bytes st is))"

lemma style_code_plain [simp]: "style_code plain st = (if st = Raw then 1 else 2)"
  by (cases st) (simp_all add: plain_def)

lemma plain_init_ok:
  assumes "heap_ok (mem w)" and "cells (mem w) k = Some (Private 0 0 0)" and "cells (mem w) b = Some (Buffer B)" and "0 < n"
  shows "\<exists>w'. plain_init k (-1) b n w = Some (k, w') \<and> at_struct k b 0 0 B w' \<and> touches {k, b} w w'"
proof -
  have "k \<noteq> b" "0 < k" using assms heap_ok_fresh(2) [OF assms(1)] by (auto simp: domIff intro: gr0I)
  then show ?thesis using assms heap_ok_upd [OF assms(1), of k]
    by (auto simp: plain_init_def at_struct_def touches_def set_struct_def)
qed

lemma plain_open_ok:
  "at_struct k b 0 pos B w \<Longrightarrow> \<exists>w'. plain_open k code w = Some ((0, of_nat pos), w') \<and> at_struct k b code pos B w' \<and> touches {k, b} w w'"
  using set_struct_at [of k b 0 pos B w code pos] by (auto simp: plain_open_def at_struct_of)

lemma plain_close_ok:
  "at_struct k b style pos B w \<Longrightarrow> style \<noteq> 0 \<Longrightarrow>
    \<exists>w'. plain_close k w = Some ((0, of_nat pos), w') \<and> at_struct k b 0 pos B w' \<and> touches {k, b} w w'"
  using set_struct_at [of k b style pos B w 0 pos] by (auto simp: plain_close_def at_struct_of)

lemma plain_write_ok:
  assumes "at_struct k b style pos B w" and "style \<noteq> 0" and "pos + length x \<le> length B"
  shows "\<exists>w'. plain_write k x w = Some (0, w') \<and> at_struct k b style (pos + length x) (take pos B @ x @ drop (pos + length x) B) w' \<and>
    touches {k, b} w w'"
  using assms heap_ok_upd [of "mem w" b]
  by (auto simp: plain_write_def at_struct_of) (auto simp: at_struct_def touches_def set_struct_def)

lemma plain_read_ok:
  assumes "at_struct k b style pos B w" and "style \<noteq> 0" and "drop pos B = x @ rest" and "length buf = length x" and "pos \<le> length B"
  shows "\<exists>w'. plain_read k buf w = Some ((0, x), w') \<and> at_struct k b style (pos + length x) B w' \<and> touches {k, b} w w'"
proof -
  have l: "pos + length buf \<le> length B" using arg_cong [OF assms(3), of length] assms(4,5) by simp
  have "take (length buf) (drop pos B) = x" using assms(3,4) by simp
  then show ?thesis using set_struct_at [OF assms(1), of style "pos + length buf"] assms(2,4) l
    by (auto simp: plain_read_def at_struct_of [OF assms(1)])
qed

lemma plain_fini_ok:
  "at_struct k b 0 pos B w \<Longrightarrow> \<exists>p w'. plain_fini k w = Some (p, w') \<and> touches {k, b} w w'"
  by (auto simp: plain_fini_def at_struct_of) (auto simp: at_struct_def touches_def)

interpretation plain_format: frame_format plain plain_bytes plain_need plain_writer plain_reader
proof
  show "length (plain_bytes st is) \<le> plain_need st is" "plain_need st is \<le> plain_need st (is @ [i])" for st "is" i
    by (simp_all add: plain_need_def plain_bytes_def)
  show "\<exists>w'. c_checkpt_init_mmio plain k b n w = Some (k, w') \<and> plain_writer k b n [] None w' \<and> touches {k, b} w w'"
    if "heap_ok (mem w)" "cells (mem w) k = Some (Private 0 0 0)" "cells (mem w) b = Some (Buffer (replicate n 0))" "0 < n" "n < 2 ^ 64" for w k b n
    using plain_init_ok [OF that(1-4)] by (force simp: plain_def plain_writer_def)
  show "(\<exists>B. cells (mem w) b = Some (Buffer B) \<and> length B = n \<and> take (length cl) B = cl) \<and>
      (\<exists>fd st sz. cells (mem w) k = Some (Private fd st sz) \<and> fd < 0 \<and> (if ph = None then st = 0 else 0 < st))"
    if W: "plain_writer k b n cl ph w" for k b n cl ph w
  proof -
    let ?ys = "case ph of None \<Rightarrow> [] | Some (st, is) \<Rightarrow> plain_bytes st is"
    obtain B where "at_struct k b (case ph of None \<Rightarrow> 0 | Some (st, is) \<Rightarrow> style_code plain st) (length (cl @ ?ys)) B w" "length B = n"
        "take (length (cl @ ?ys)) B = cl @ ?ys"
      using W unfolding plain_writer_def Let_def by (elim exE conjE)
    moreover have "take (length cl) B = cl" using arg_cong [OF calculation(3), of "take (length cl)"] by simp
    ultimately show ?thesis by (auto simp: at_struct_def split: option.splits)
  qed
  show "\<exists>w'. c_checkpt_open plain k (style_code plain st) w = Some ((0, of_nat (length cl)), w') \<and> plain_writer k b n cl (Some (st, [])) w' \<and> touches {k, b} w w'"
    if "plain_writer k b n cl None w" "is_supported plain st" "length cl + plain_need st [] \<le> n" for k b n cl w st
    using that(1) plain_open_ok [of k b "length cl" _ w "style_code plain st"]
    by (fastforce simp: plain_def plain_writer_def plain_bytes_def)
  have style_nz: "style_code plain st \<noteq> 0" for st by simp
  have wrt: "\<exists>w'. plain_write k x w = Some (0, w') \<and> plain_writer k b n cl (Some (st, is @ [i])) w' \<and> touches {k, b} w w'"
    if w: "plain_writer k b n cl (Some (st, is)) w" and i: "item_bytes i = x" and fit: "length cl + plain_need st (is @ [i]) \<le> n" for k b n cl st "is" w x i
  proof -
    let ?out = "cl @ plain_bytes st is"
    obtain B where B: "at_struct k b (style_code plain st) (length ?out) B w" "length B = n" "take (length ?out) B = ?out"
      using w by (auto simp: plain_writer_def Let_def)
    have x: "plain_bytes st (is @ [i]) = plain_bytes st is @ x" using i by (simp add: plain_bytes_def)
    have l: "length ?out + length x \<le> length B" using fit B(2) x by (simp add: plain_need_def)
    obtain w' where w': "plain_write k x w = Some (0, w')" "touches {k, b} w w'"
        "at_struct k b (style_code plain st) (length ?out + length x) (take (length ?out) B @ x @ drop (length ?out + length x) B) w'"
      using plain_write_ok [OF B(1) _ l] style_nz by blast
    then have "plain_writer k b n cl (Some (st, is @ [i])) w'"
      using l B(2,3) x unfolding plain_writer_def Let_def
      by (intro exI [of _ "take (length ?out) B @ x @ drop (length ?out + length x) B"]) (simp add: add.assoc)
    then show ?thesis using w' by blast
  qed
  show "\<exists>w'. c_checkpt_meta plain k x w = Some (0, w') \<and> plain_writer k b n cl (Some (st, is @ [Meta x])) w' \<and> touches {k, b} w w'"
    if "plain_writer k b n cl (Some (st, is)) w" "item_ok plain st (Meta x)" "length cl + plain_need st (is @ [Meta x]) \<le> n" for k b n cl st "is" w x
    using wrt [OF that(1), of "Meta x" x] that(3) by (simp add: plain_def)
  show "\<exists>w'. c_checkpt_data plain k x w = Some (0, w') \<and> plain_writer k b n cl (Some (st, is @ [Data x])) w' \<and> touches {k, b} w w'"
    if "plain_writer k b n cl (Some (st, is)) w" "item_ok plain st (Data x)" "length cl + plain_need st (is @ [Data x]) \<le> n" for k b n cl st "is" w x
    using wrt [OF that(1), of "Data x" x] that(3) by (simp add: plain_def)
  show "\<exists>w'. c_checkpt_close plain k w = Some ((0, of_nat (length cl + length (plain_bytes st is))), w') \<and>
      plain_writer k b n (cl @ plain_bytes st is) None w' \<and> touches {k, b} w w'"
    if W: "plain_writer k b n cl (Some (st, is)) w" and "length cl + plain_need st is \<le> n" for k b n cl st "is" w
  proof -
    let ?out = "cl @ plain_bytes st is"
    obtain B where B: "at_struct k b (style_code plain st) (length ?out) B w" "length B = n" "take (length ?out) B = ?out"
      using W by (auto simp: plain_writer_def Let_def)
    obtain w' where w': "plain_close k w = Some ((0, of_nat (length ?out)), w')" "at_struct k b 0 (length ?out) B w'" "touches {k, b} w w'"
      using plain_close_ok [OF B(1) style_nz] by blast
    have "plain_writer k b n ?out None w'" using w'(2) B(2,3) by (auto simp: plain_writer_def Let_def)
    then show ?thesis using w'(1,3) by (simp add: plain_def)
  qed
  show "\<exists>p w'. c_checkpt_fini plain k w = Some (p, w') \<and> touches {k, b} w w'" if "plain_writer k b n cl None w" for k b n cl w
    using that plain_fini_ok by (fastforce simp: plain_def plain_writer_def)
  show "\<exists>w'. c_restore_init_mmio plain k b (length bs) w = Some (k, w') \<and> plain_reader k b bs 0 None w' \<and> touches {k, b} w w'"
    if "heap_ok (mem w)" "cells (mem w) k = Some (Private 0 0 0)" "cells (mem w) b = Some (Buffer bs)" "bs \<noteq> []" "length bs < 2 ^ 64" for w k b bs
    using plain_init_ok [OF that(1-3), of "length bs"] that(4) by (auto simp: plain_def plain_reader_def)
  show "\<exists>w'. c_restore_open plain k (style_code plain st) w = Some ((0, of_nat pos), w') \<and>
      plain_reader k b bs pos (Some (st, is, pos + length (plain_bytes st is))) w' \<and> touches {k, b} w w'"
    if "plain_reader k b bs pos None w" "is_supported plain st" "drop pos bs = plain_bytes st is @ rest" "\<forall>i \<in> set is. item_ok plain st i"
    for k b bs pos w st "is" rest
    using that(1,3) plain_open_ok [of k b pos bs w "style_code plain st"] by (fastforce simp: plain_def plain_reader_def)
  have rd: "\<exists>w'. plain_read k buf w = Some ((0, x), w') \<and> plain_reader k b bs pos (Some (st, is, e)) w' \<and> touches {k, b} w w'"
    if r: "plain_reader k b bs pos (Some (st, i # is, e)) w" and i: "item_bytes i = x" and buf: "length buf = length x" for k b bs pos st i "is" e w x buf
  proof -
    obtain cur rest where c: "at_struct k b (style_code plain st) cur bs w" "drop cur bs = x @ plain_bytes st is @ rest" "cur \<le> length bs"
        "e = cur + length x + length (plain_bytes st is)"
      using r i by (auto simp: plain_reader_def plain_bytes_def)
    obtain w' where w': "plain_read k buf w = Some ((0, x), w')" "at_struct k b (style_code plain st) (cur + length x) bs w'" "touches {k, b} w w'"
      using plain_read_ok [OF c(1) style_nz c(2) buf c(3)] by blast
    have "drop (cur + length x) bs = plain_bytes st is @ rest" using arg_cong [OF c(2), of "drop (length x)"] by (simp add: add.commute)
    moreover have "cur + length x \<le> length bs" using arg_cong [OF c(2), of length] c(3) by simp
    ultimately show ?thesis using w' c(4) by (auto simp: plain_reader_def)
  qed
  show "\<exists>w'. c_restore_meta plain k buf w = Some ((0, x), w') \<and> plain_reader k b bs pos (Some (st, is, e)) w' \<and> touches {k, b} w w'"
    if "plain_reader k b bs pos (Some (st, Meta x # is, e)) w" "length buf = length x" for k b bs pos st x "is" e w buf
    using rd [OF that(1), of x buf] that(2) by (simp add: plain_def)
  show "\<exists>w'. c_restore_data plain k buf w = Some ((0, x), w') \<and> plain_reader k b bs pos (Some (st, is, e)) w' \<and> touches {k, b} w w'"
    if "plain_reader k b bs pos (Some (st, Data x # is, e)) w" "length buf = length x" for k b bs pos st x "is" e w buf
    using rd [OF that(1), of x buf] that(2) by (simp add: plain_def)
  show "\<exists>w'. c_restore_close plain k w = Some ((0, of_nat e), w') \<and> plain_reader k b bs e None w' \<and> touches {k, b} w w'"
    if R: "plain_reader k b bs pos (Some (st, [], e)) w" for k b bs pos st e w
  proof -
    have B: "at_struct k b (style_code plain st) e bs w" "e \<le> length bs" using R by (auto simp: plain_reader_def plain_bytes_def)
    then show ?thesis using plain_close_ok [OF B(1) style_nz] by (simp add: plain_def plain_reader_def)
  qed
  show "\<exists>p w'. c_restore_fini plain k w = Some (p, w') \<and> touches {k, b} w w'" if "plain_reader k b bs pos None w" for k b bs pos w
    using that plain_fini_ok by (fastforce simp: plain_def plain_reader_def)
qed

section \<open>Properties\<close>

text \<open>C36: Take a library that behaves as documented, frames of supported styles with metadata within the limits and data of any
  size, raw or compressed, which the client keeps unchanged, and a buffer that has room for them. Writing them with \<open>Checkpt\<close> over a buffer and cutting the buffer at
  the end of the last frame gives an image from which \<open>Restore\<close> reads the same frames, item by item, at the offsets that the writer reported;
  both release their memory and keep the open descriptors.\<close>

theorem checkpt_round_trip:
  assumes "frame_format lib fb need writer reader" and "heap_ok (mem w)" and "n < 2 ^ 64"
    and "\<forall>f \<in> set fs. frame_ok lib f" and "frames_fit fb need n 0 fs" and "all_bytes fb fs \<noteq> []"
  shows "\<exists>img os w1 w2. backup lib n fs w = (Ok (img, os), w1) \<and> recover lib img (shape fs) w1 = (Ok (zip os fs), w2) \<and> length os = length fs \<and>
    cells (mem w1) = cells (mem w) \<and> fds w1 = fds w \<and> cells (mem w2) = cells (mem w) \<and> fds w2 = fds w"
proof -
  have l: "length (all_bytes fb fs) \<le> n" using frame_format.frames_fit_length [OF assms(1,5)] by simp
  have ne: "fs \<noteq> []" "0 < n" using assms(6) l by (cases fs; cases "all_bytes fb fs"; simp add: all_bytes_def)+
  obtain w1 where w1: "backup lib n fs w = (Ok (all_bytes fb fs, offsets fb 0 fs), w1)" "cells (mem w1) = cells (mem w)" "heap_ok (mem w1)" "fds w1 = fds w"
    using frame_format.backup_ok [OF assms(1,2,3) ne(1) assms(4,5) ne(2)] by blast
  obtain w2 where "recover lib (all_bytes fb fs) (shape fs) w1 = (Ok (zip (offsets fb 0 fs) fs), w2)" "cells (mem w2) = cells (mem w1)" "fds w2 = fds w1"
    using frame_format.recover_ok [OF assms(1) w1(3) assms(6) _ assms(4)] l assms(3) by auto
  moreover have "length (offsets fb p fs) = length fs" for p by (induction fb p fs rule: offsets.induct) auto
  ultimately show ?thesis using w1 by auto
qed

definition start_world :: "plain_state world" where
  "start_world = \<lparr>c_state = \<lambda>_. None, mem = heap_empty, fds = {5}\<rparr>"

theorem checkpt_round_trip_witness:
  "\<exists>img os w1 w2. backup plain 12 [(Raw, [Meta [1, 2], Data [3]]), (Lz4, [Meta [4], Data [5, 6]])] start_world = (Ok (img, os), w1) \<and>
     recover plain img [(Raw, [MetaOf 2, DataOf 1]), (Lz4, [MetaOf 1, DataOf 2])] w1 =
       (Ok (zip os [(Raw, [Meta [1, 2], Data [3]]), (Lz4, [Meta [4], Data [5, 6]])]), w2) \<and> length os = 2"
proof -
  let ?fs = "[(Raw, [Meta [1, 2], Data [3]]), (Lz4, [Meta [4], Data [5, 6]])]"
  have "\<forall>f \<in> set ?fs. frame_ok plain f" by (auto simp: frame_ok_def is_supported_def plain_def)
  moreover have "frames_fit plain_bytes plain_need 12 0 ?fs" "all_bytes plain_bytes ?fs \<noteq> []"
    by (simp_all add: plain_need_def plain_bytes_def all_bytes_def)
  moreover have "shape ?fs = [(Raw, [MetaOf 2, DataOf 1]), (Lz4, [MetaOf 1, DataOf 2])]" by (simp add: shape_def)
  moreover have "heap_ok (mem start_world)" by (simp add: start_world_def)
  ultimately show ?thesis
    using checkpt_round_trip [OF plain_format.frame_format_axioms, of start_world 12 ?fs] by auto
qed

text \<open>
  A stream takes the descriptor of the file. A constructor that fails closes it and releases its memory; one
  that succeeds keeps it open, and dropping the writer releases the memory but leaves the descriptor open when the library does not close
  it (which the failing path, that closes it itself, takes for granted).
\<close>

definition quiet_stream :: "'s checkpt_lib \<Rightarrow> bool" where
  "quiet_stream lib \<longleftrightarrow>
     (\<forall>k fd b n w p w'. heap_ok (mem w) \<longrightarrow> c_checkpt_init_stream lib k fd b n w = Some (p, w') \<longrightarrow> touches {k, b} w w') \<and>
     (\<forall>k w p w'. heap_ok (mem w) \<longrightarrow> c_checkpt_fini lib k w = Some (p, w') \<longrightarrow> heap_ok (mem w') \<and> live (mem w') = live (mem w) \<and> fds w' = fds w)"

theorem checkpt_stream_outcome:
  assumes "quiet_stream lib" and "heap_ok (mem w)" and "checkpt_new_stream lib fd sz w = (r, w')"
  shows "(\<forall>e. r = Err e \<longrightarrow> cells (mem w') = cells (mem w) \<and> fds w' = fds w - {fd}) \<and>
    (\<forall>c. r = Ok c \<longrightarrow> fds w' = fds w \<and>
      (\<forall>w''. checkpt_drop lib c w' = (Ok (), w'') \<longrightarrow> live (mem w'') = live (mem w) \<and> fds w'' = fds w))"
proof (cases "(case sz of None \<Rightarrow> CHECKPT_WBUF_MIN lib | Some n \<Rightarrow> n) < CHECKPT_WBUF_MIN lib")
  case True
  then show ?thesis using assms(3) by (auto simp: checkpt_new_stream_def close_fd_def)
next
  case False
  define n where "n = (case sz of None \<Rightarrow> CHECKPT_WBUF_MIN lib | Some n \<Rightarrow> n)"
  obtain b w1 k w2 where m: "new_cell (Buffer (replicate n 0)) w = (b, w1)" "new_cell (Private 0 0 0) w1 = (k, w2)" "heap_ok (mem w2)" "b \<noteq> k"
    "cells (mem w) b = None" "cells (mem w) k = None"
    "cells (mem w2) = (cells (mem w))(b \<mapsto> Buffer (replicate n 0), k \<mapsto> Private 0 0 0)" "fds w2 = fds w"
    using two_cells [OF assms(2)] by metis
  show ?thesis
  proof (cases "c_checkpt_init_stream lib k fd b n w2")
    case None
    then show ?thesis using assms(3) False m(1,2) by (auto simp: checkpt_new_stream_def Let_def n_def)
  next
    case (Some pw)
    obtain p w3 where w3: "c_checkpt_init_stream lib k fd b n w2 = Some (p, w3)" using Some by (cases pw) auto
    then have t: "touches {k, b} w2 w3" using assms(1) m(3) by (auto simp: quiet_stream_def)
    show ?thesis
    proof (cases "p = 0")
      case True
      have "touches {k, b} (close_fd fd w2) (close_fd fd w3)" using t by (simp add: touches_def close_fd_def)
      from release_two [OF this, where w = "close_fd fd w" and c = "Buffer (replicate n 0)" and d = "Private 0 0 0"]
      obtain w4 where "free_cells [k, b] (close_fd fd w3) = (Ok (), w4)" "cells (mem w4) = cells (mem w)" "fds w4 = fds w - {fd}"
        using m(4-8) by (auto simp: close_fd_def)
      then show ?thesis using assms(3) False m(1,2) w3 True by (auto simp: checkpt_new_stream_def Let_def n_def fail_with_def)
    next
      case p: False
      have r: "r = Ok \<lparr>ck_inner = k, ck_write_buffer = Some b, ck_mmio_buffer = None\<rparr>" "w' = w3"
        using assms(3) False m(1,2) w3 p by (auto simp: checkpt_new_stream_def Let_def n_def)
      have "live (mem w'') = live (mem w) \<and> fds w'' = fds w"
        if D: "checkpt_drop lib \<lparr>ck_inner = k, ck_write_buffer = Some b, ck_mmio_buffer = None\<rparr> w3 = (Ok (), w'')" for w''
      proof -
        obtain q w4 where w4: "c_checkpt_fini lib k w3 = Some (q, w4)" "free_cells [k, b] w4 = (Ok (), w'')"
          using D by (cases "c_checkpt_fini lib k w3") (auto simp add: checkpt_drop_def simp del: free_cells.simps)
        have "heap_ok (mem w3)" using t by (simp add: touches_def)
        then have "live (mem w4) = live (mem w3)" "fds w4 = fds w3"
          using conjunct2 [OF assms(1) [unfolded quiet_stream_def]] w4(1) by blast+
        moreover have "live (mem w3) = insert k (insert b (live (mem w)))" "fds w3 = fds w" using t m(7,8) by (auto simp: touches_def)
        moreover have "w'' = w4\<lparr>mem := release {b} (release {k} (mem w4))\<rparr>"
          using w4(2) calculation m(4) by (simp add: h_free_live live_release)
        ultimately show ?thesis using m(4-6) by (auto simp: live_release domIff)
      qed
      then show ?thesis using r t m(8) by (auto simp: touches_def)
    qed
  qed
qed

lemma plain_quiet: "quiet_stream plain"
proof -
  have "touches {k, b} w w'" if "heap_ok (mem w)" "plain_init k fd b n w = Some (p, w')" for k fd b n p and w w'
    using that heap_ok_upd [OF that(1), of k] by (auto simp: plain_init_def touches_def set_struct_def split: if_splits)
  moreover have "heap_ok (mem w') \<and> live (mem w') = live (mem w) \<and> fds w' = fds w" if "heap_ok (mem w)" "plain_fini k w = Some (p, w')" for k w p w'
    using that by (auto simp: plain_fini_def split: option.splits)
  ultimately show ?thesis by (simp add: quiet_stream_def plain_def)
qed

theorem checkpt_stream_outcome_witness:
  "\<exists>c w' w''. checkpt_new_stream plain 5 None start_world = (Ok c, w') \<and> checkpt_drop plain c w' = (Ok (), w'') \<and>
     live (mem w'') = {} \<and> 5 \<in> fds w''"
proof -
  have h: "heap_ok (mem start_world)" by (simp add: start_world_def)
  obtain c w' where n: "checkpt_new_stream plain 5 None start_world = (Ok c, w')" "c = \<lparr>ck_inner = 2, ck_write_buffer = Some 1, ck_mmio_buffer = None\<rparr>"
    by (simp add: checkpt_new_stream_def plain_def plain_init_def new_cell_def h_alloc_def start_world_def heap_empty_def Let_def)
  have "\<exists>w''. checkpt_drop plain c w' = (Ok (), w'')"
    using n by (auto simp: checkpt_new_stream_def checkpt_drop_def plain_def plain_init_def plain_fini_def struct_of_def set_struct_def new_cell_def
        h_alloc_def h_free_def start_world_def heap_empty_def Let_def)
  then show ?thesis using checkpt_stream_outcome [OF plain_quiet h n(1)] n(1) by (auto simp: start_world_def)
qed

end
