(* ===== verification/Svm.thy ===== *)
theory Svm
  imports Ownership Prelude
begin

text \<open>
  The virtual machine of \<open>flamenco/svm/fd_svm/src/lib.rs\<close>: its memory, configuration with limits, execution with the
  conversion of error codes, and the safe runtime calls of the module \<open>syscalls\<close>. The C machine is the parameter
  \<open>svm_lib\<close>, the runtime functions the parameter \<open>sol_lib\<close>. The locale \<open>machine\<close> states what a machine promises: it executes
  only what it was configured with, after a setup and a validation that succeeded, while all it was given is allocated.
\<close>

section \<open>Model\<close>

datatype svm_error = InvalidInput string | AllocationFailed | InitializationFailed | ValidationFailed int | ExecutionFailed int |
  InvalidOpcode | InvalidRegister | JumpOutOfBounds | StackOverflow | IllegalInstruction | MemoryViolation | UnalignedAccess |
  ComputeBudgetExceeded | DivisionByZero

definition COMPUTE_UNIT_LIMIT :: u64 where "COMPUTE_UNIT_LIMIT = 1400000"

definition HEAP_MAX :: u64 where "HEAP_MAX = 256 * 1024"

datatype sbpf_version = V0 | V1 | V2

fun version_code :: "sbpf_version \<Rightarrow> u64" where
  "version_code V0 = 0"
| "version_code V1 = 1"
| "version_code V2 = 2"

record tracing_config =
  enable_instruction_tracing :: bool
  enable_memory_tracing :: bool
  max_trace_entries :: nat

record vm_config =
  heap_max :: u64
  entry_cu :: u64
  cfg_sbpf_version :: sbpf_version
  enable_direct_mapping :: bool
  dump_syscall_to_pb :: bool
  tracing :: "tracing_config option"

record memory_region =
  vaddr_offset :: u64
  haddr :: u64
  region_size :: u32
  is_writable :: bool
  is_account_data :: bool

record account_region_meta =
  region_idx :: u32
  has_data_region :: bool
  has_resizing_region :: bool
  metadata_region_offset :: u64
  original_data_len :: u64

record execution_result =
  er_pc :: u64
  instruction_count :: u64
  compute_units_remaining :: u64
  frame_count :: u64

text \<open>The C structs; a flag is 0 or 1.\<close>

record c_input_region =
  ir_vaddr_offset :: u64
  ir_haddr :: u64
  ir_region_sz :: u32
  ir_is_writable :: u8
  ir_is_acct_data :: u8

record c_acc_region =
  ar_region_idx :: u32
  ar_has_data_region :: u8
  ar_has_resizing_region :: u8
  ar_metadata_region_offset :: u64
  ar_original_data_len :: u64

text \<open>Memory: that of a machine, the buffers behind the slices of a caller, and the vectors of C structs. A slice is the address and the
  number of its elements.\<close>

datatype vm_cell = Vm_Memory | Bytes_Buf bytes | Words_Buf "u64 list" | Input_Regions "c_input_region list" | Acc_Regions "c_acc_region list"

type_synonym slice_ref = "nat \<times> nat"

text \<open>The arguments of \<open>fd_vm_init\<close> that are not constant. The machine gets addresses, and no number of words for \<open>calldests\<close>; 0 is the null
  pointer.\<close>

record vm_init_args =
  ia_heap_max :: u64
  ia_entry_cu :: u64
  ia_rodata :: nat
  ia_rodata_sz :: u64
  ia_text :: nat
  ia_text_cnt :: u64
  ia_text_off :: u64
  ia_text_sz :: u64
  ia_entry_pc :: u64
  ia_calldests :: nat
  ia_sbpf_version :: u64
  ia_mem_regions :: nat
  ia_mem_regions_cnt :: u32
  ia_acc_regions :: nat
  ia_direct_mapping :: int
  ia_dump_syscall :: int

text \<open>The fields of \<open>fd_vm_t\<close> that the Rust code reads\<close>

record vm_fields =
  vf_pc :: u64
  vf_ic :: u64
  vf_cu :: u64
  vf_frame_cnt :: u64
  vf_heap_sz :: u64
  vf_heap_max :: u64
  vf_direct_mapping :: int
  vf_sbpf_version :: u64

type_synonym 's vm_state = "'s \<times> vm_cell heap"

text \<open>C sees the memory, since a machine follows the addresses it was given.\<close>

record 's svm_lib =
  VM_SUCCESS :: int
  VM_ERR_INVAL :: int
  VM_ERR_INVALID_OPCODE :: int
  VM_ERR_INVALID_SRC_REG :: int
  VM_ERR_INVALID_DST_REG :: int
  VM_ERR_JMP_OUT_OF_BOUNDS :: int
  VM_ERR_SIGFPE :: int
  c_vm_align :: nat
  c_vm_footprint :: nat
  c_vm_new :: "nat \<Rightarrow> 's \<Rightarrow> (nat \<times> 's) option"
  c_vm_join :: "nat \<Rightarrow> 's \<Rightarrow> (nat \<times> 's) option"
  c_vm_leave :: "nat \<Rightarrow> 's \<Rightarrow> (nat \<times> 's) option"
  c_vm_delete :: "nat \<Rightarrow> 's \<Rightarrow> (nat \<times> 's) option"
  c_vm_init :: "nat \<Rightarrow> vm_init_args \<Rightarrow> 's vm_state \<Rightarrow> (nat \<times> 's) option"
  c_vm_setup :: "nat \<Rightarrow> 's vm_state \<Rightarrow> (int \<times> 's) option"
  c_vm_validate :: "nat \<Rightarrow> 's vm_state \<Rightarrow> (int \<times> 's) option"
  c_vm_exec :: "nat \<Rightarrow> 's vm_state \<Rightarrow> (int \<times> 's) option"
  c_vm_exec_trace :: "nat \<Rightarrow> 's vm_state \<Rightarrow> (int \<times> 's) option"
  c_vm_exec_notrace :: "nat \<Rightarrow> 's vm_state \<Rightarrow> (int \<times> 's) option"
  c_vm_fields :: "nat \<Rightarrow> 's \<Rightarrow> vm_fields option"

definition convert_vm_error :: "'s svm_lib \<Rightarrow> int \<Rightarrow> svm_error" where
  "convert_vm_error lib code =
     (if code = VM_ERR_INVAL lib then InvalidInput ''Invalid parameter''
      else if code = VM_ERR_INVALID_OPCODE lib then InvalidOpcode
      else if code = VM_ERR_INVALID_SRC_REG lib then InvalidRegister
      else if code = VM_ERR_INVALID_DST_REG lib then InvalidRegister
      else if code = VM_ERR_JMP_OUT_OF_BOUNDS lib then JumpOutOfBounds
      else if code = VM_ERR_SIGFPE lib then DivisionByZero
      else ExecutionFailed code)"

record vm =
  vm_ptr :: nat
  vm_memory :: nat

type_synonym ('a, 's) vm_call = "('a, svm_error) res \<times> 's vm_state"

definition dealloc :: "nat \<Rightarrow> 's vm_state \<Rightarrow> (unit, 's) vm_call" where
  "dealloc p st = (case h_free p (snd st) of Ok h \<Rightarrow> (Ok (), fst st, h) | Err e \<Rightarrow> (Err e, st) | Panic \<Rightarrow> (Panic, st))"

definition fail_after :: "svm_error \<Rightarrow> (unit, 's) vm_call \<Rightarrow> ('a, 's) vm_call" where
  "fail_after e c = (case c of (Ok _, st) \<Rightarrow> (Err e, st) | (_, st) \<Rightarrow> (Panic, st))"

definition vm_new :: "'s svm_lib \<Rightarrow> bool \<Rightarrow> 's vm_state \<Rightarrow> (vm, 's) vm_call" where
  "vm_new lib oom st =
     (if \<not> layout_ok (c_vm_footprint lib) (c_vm_align lib) then (Err (InvalidInput ''Invalid alignment or size''), st)
      else if oom then (Err AllocationFailed, st)
      else case h_alloc Vm_Memory (snd st) of (memory, h) \<Rightarrow>
        (case c_vm_new lib memory (fst st) of
           None \<Rightarrow> (Panic, fst st, h)
         | Some (vm_mem, s) \<Rightarrow>
             if vm_mem = 0 then fail_after InitializationFailed (dealloc memory (s, h))
             else case c_vm_join lib vm_mem s of
                    None \<Rightarrow> (Panic, s, h)
                  | Some (p, s) \<Rightarrow>
                      if p = 0 then
                        (case c_vm_delete lib vm_mem s of
                           None \<Rightarrow> (Panic, s, h)
                         | Some (_, s) \<Rightarrow> fail_after InitializationFailed (dealloc memory (s, h)))
                      else (Ok \<lparr>vm_ptr = p, vm_memory = memory\<rparr>, s, h)))"

definition flag :: "bool \<Rightarrow> 'a::{zero, one}" where
  "flag b = (if b then 1 else 0)"

definition c_region :: "memory_region \<Rightarrow> c_input_region" where
  "c_region r = \<lparr>ir_vaddr_offset = vaddr_offset r, ir_haddr = haddr r, ir_region_sz = region_size r,
     ir_is_writable = flag (is_writable r), ir_is_acct_data = flag (is_account_data r)\<rparr>"

definition c_acc :: "account_region_meta \<Rightarrow> c_acc_region" where
  "c_acc a = \<lparr>ar_region_idx = region_idx a, ar_has_data_region = flag (has_data_region a),
     ar_has_resizing_region = flag (has_resizing_region a), ar_metadata_region_offset = metadata_region_offset a,
     ar_original_data_len = original_data_len a\<rparr>"

text \<open>A vector that is collected: an empty one allocates nothing; its address, or null.\<close>

definition collect_vec :: "('a list \<Rightarrow> vm_cell) \<Rightarrow> 'a list \<Rightarrow> vm_cell heap \<Rightarrow> nat \<times> vm_cell heap" where
  "collect_vec c xs h = (if xs = [] then (0, h) else h_alloc (c xs) h)"

definition drop_vec :: "nat \<Rightarrow> 's vm_state \<Rightarrow> (unit, 's) vm_call" where
  "drop_vec p st = (if p = 0 then (Ok (), st) else dealloc p st)"

definition init_args :: "vm_config \<Rightarrow> slice_ref \<Rightarrow> slice_ref \<Rightarrow> u64 \<Rightarrow> u64 \<Rightarrow> slice_ref \<Rightarrow> nat \<Rightarrow> nat \<Rightarrow> nat \<Rightarrow> vm_init_args" where
  "init_args config rodata code text_off entry_pc calldests mem_regions mem_regions_cnt acc_regions =
     \<lparr>ia_heap_max = heap_max config, ia_entry_cu = entry_cu config, ia_rodata = fst rodata,
      ia_rodata_sz = of_nat (snd rodata), ia_text = fst code, ia_text_cnt = of_nat (snd code), ia_text_off = text_off,
      ia_text_sz = of_nat (snd code) * 8, ia_entry_pc = entry_pc, ia_calldests = fst calldests, ia_sbpf_version = version_code (cfg_sbpf_version config),
      ia_mem_regions = mem_regions, ia_mem_regions_cnt = of_nat mem_regions_cnt, ia_acc_regions = acc_regions,
      ia_direct_mapping = flag (enable_direct_mapping config), ia_dump_syscall = flag (dump_syscall_to_pb config)\<rparr>"

definition vm_init_with_config ::
  "'s svm_lib \<Rightarrow> vm \<Rightarrow> vm_config \<Rightarrow> slice_ref \<Rightarrow> slice_ref \<Rightarrow> u64 \<Rightarrow> u64 \<Rightarrow> slice_ref \<Rightarrow> memory_region list \<Rightarrow>
   account_region_meta list \<Rightarrow> 's vm_state \<Rightarrow> (unit, 's) vm_call" where
  "vm_init_with_config lib v config rodata code text_off entry_pc calldests memory_regions account_regions st =
     (if heap_max config > HEAP_MAX then (Err (InvalidInput ''Heap size too large''), st)
      else if entry_cu config > COMPUTE_UNIT_LIMIT then (Err (InvalidInput ''Compute units too large''), st)
      else
        case collect_vec Input_Regions (map c_region memory_regions) (snd st) of (c_mem_regions, h) \<Rightarrow>
        (case collect_vec Acc_Regions (map c_acc account_regions) h of (c_acc_regions, h) \<Rightarrow>
          (case c_vm_init lib (vm_ptr v) (init_args config rodata code text_off entry_pc calldests c_mem_regions (length memory_regions) c_acc_regions)
                  (fst st, h) of
             None \<Rightarrow> (Panic, fst st, h)
           | Some (result, s) \<Rightarrow>
               (case drop_vec c_acc_regions (s, h) of
                  (Ok _, st) \<Rightarrow>
                    (case drop_vec c_mem_regions st of
                       (Ok _, st) \<Rightarrow> (if result = 0 then Err InitializationFailed else Ok (), st)
                     | (_, st) \<Rightarrow> (Panic, st))
                | (_, st) \<Rightarrow> (Panic, st)))))"

definition vm_init ::
  "'s svm_lib \<Rightarrow> vm \<Rightarrow> u64 \<Rightarrow> u64 \<Rightarrow> slice_ref \<Rightarrow> slice_ref \<Rightarrow> u64 \<Rightarrow> u64 \<Rightarrow> slice_ref \<Rightarrow> u64 \<Rightarrow> 's vm_state \<Rightarrow> (unit, 's) vm_call" where
  "vm_init lib v heap entry rodata code text_off entry_pc calldests version st =
     (let go = (\<lambda>ver. vm_init_with_config lib v
          \<lparr>heap_max = heap, entry_cu = entry, cfg_sbpf_version = ver, enable_direct_mapping = False, dump_syscall_to_pb = False, tracing = None\<rparr>
          rodata code text_off entry_pc calldests [] [] st)
      in if version = 0 then go V0 else if version = 1 then go V1 else if version = 2 then go V2
         else (Err (InvalidInput ''Invalid SBPF version''), st))"

text \<open>A call that answers with a code; the memory stays as it is.\<close>

definition code_call :: "(int \<times> 's) option \<Rightarrow> (int \<Rightarrow> ('a, svm_error) res) \<Rightarrow> 's vm_state \<Rightarrow> ('a, 's) vm_call" where
  "code_call c k st = (case c of None \<Rightarrow> (Panic, st) | Some (result, s) \<Rightarrow> (k result, s, snd st))"

definition setup_for_execution :: "'s svm_lib \<Rightarrow> vm \<Rightarrow> 's vm_state \<Rightarrow> (unit, 's) vm_call" where
  "setup_for_execution lib v st =
     code_call (c_vm_setup lib (vm_ptr v) st) (\<lambda>result. if result \<noteq> 0 then Err InitializationFailed else Ok ()) st"

definition vm_validate :: "'s svm_lib \<Rightarrow> vm \<Rightarrow> 's vm_state \<Rightarrow> (unit, 's) vm_call" where
  "vm_validate lib v st =
     code_call (c_vm_validate lib (vm_ptr v) st) (\<lambda>result. if result \<noteq> VM_SUCCESS lib then Err (ValidationFailed result) else Ok ()) st"

definition execute :: "'s svm_lib \<Rightarrow> vm \<Rightarrow> 's vm_state \<Rightarrow> (unit, 's) vm_call" where
  "execute lib v st =
     code_call (c_vm_exec lib (vm_ptr v) st) (\<lambda>result. if result \<noteq> VM_SUCCESS lib then Err (convert_vm_error lib result) else Ok ()) st"

definition execute_trace :: "'s svm_lib \<Rightarrow> vm \<Rightarrow> 's vm_state \<Rightarrow> (unit, 's) vm_call" where
  "execute_trace lib v st =
     code_call (c_vm_exec_trace lib (vm_ptr v) st) (\<lambda>result. if result \<noteq> VM_SUCCESS lib then Err (convert_vm_error lib result) else Ok ()) st"

definition execute_notrace :: "'s svm_lib \<Rightarrow> vm \<Rightarrow> 's vm_state \<Rightarrow> (unit, 's) vm_call" where
  "execute_notrace lib v st =
     code_call (c_vm_exec_notrace lib (vm_ptr v) st) (\<lambda>result. if result \<noteq> VM_SUCCESS lib then Err (convert_vm_error lib result) else Ok ()) st"

definition with_fields :: "'s svm_lib \<Rightarrow> vm \<Rightarrow> (vm_fields \<Rightarrow> 'a) \<Rightarrow> 's \<Rightarrow> ('a, svm_error) res" where
  "with_fields lib v f s = (case c_vm_fields lib (vm_ptr v) s of None \<Rightarrow> Panic | Some x \<Rightarrow> Ok (f x))"

definition get_execution_state :: "'s svm_lib \<Rightarrow> vm \<Rightarrow> 's \<Rightarrow> (execution_result, svm_error) res" where
  "get_execution_state lib v = with_fields lib v (\<lambda>x. \<lparr>er_pc = vf_pc x, instruction_count = vf_ic x, compute_units_remaining = vf_cu x,
     frame_count = vf_frame_cnt x\<rparr>)"

definition get_heap_size :: "'s svm_lib \<Rightarrow> vm \<Rightarrow> 's \<Rightarrow> (u64, svm_error) res" where
  "get_heap_size lib v = with_fields lib v vf_heap_sz"

definition get_heap_max :: "'s svm_lib \<Rightarrow> vm \<Rightarrow> 's \<Rightarrow> (u64, svm_error) res" where
  "get_heap_max lib v = with_fields lib v vf_heap_max"

definition is_direct_mapping_enabled :: "'s svm_lib \<Rightarrow> vm \<Rightarrow> 's \<Rightarrow> (bool, svm_error) res" where
  "is_direct_mapping_enabled lib v = with_fields lib v (\<lambda>x. vf_direct_mapping x \<noteq> 0)"

text \<open>An unknown version counts as \<open>V0\<close>.\<close>

definition get_sbpf_version :: "'s svm_lib \<Rightarrow> vm \<Rightarrow> 's \<Rightarrow> (sbpf_version, svm_error) res" where
  "get_sbpf_version lib v = with_fields lib v (\<lambda>x.
     if vf_sbpf_version x = 0 then V0 else if vf_sbpf_version x = 1 then V1 else if vf_sbpf_version x = 2 then V2 else V0)"

definition vm_drop :: "'s svm_lib \<Rightarrow> vm \<Rightarrow> 's vm_state \<Rightarrow> (unit, 's) vm_call" where
  "vm_drop lib v st =
     (case c_vm_leave lib (vm_ptr v) (fst st) of
        None \<Rightarrow> (Panic, st)
      | Some (vm_mem, s) \<Rightarrow>
          if vm_mem \<noteq> 0 then
            (case c_vm_delete lib vm_mem s of None \<Rightarrow> (Panic, s, snd st) | Some (_, s) \<Rightarrow> dealloc (vm_memory v) (s, snd st))
          else dealloc (vm_memory v) (s, snd st))"

subsection \<open>Runtime calls\<close>

text \<open>
  The functions \<open>fd_sol_*\<close>. A function that writes through a pointer gives the new contents of the slice; \<open>None\<close> is an access outside of
  it. Codes are \<open>u64\<close> and reported as \<open>i32\<close>, truncated.
\<close>

record sol_lib =
  c_sol_sha256 :: "bytes \<Rightarrow> u64 \<times> bytes"
  c_sol_keccak256 :: "bytes \<Rightarrow> u64 \<times> bytes"
  c_sol_blake3 :: "bytes \<Rightarrow> u64 \<times> bytes"
  c_sol_secp256k1_recover :: "bytes \<Rightarrow> u64 \<Rightarrow> bytes \<Rightarrow> u64 \<times> bytes"
  c_sol_create_program_address :: "bytes \<Rightarrow> bytes \<Rightarrow> u64 \<times> bytes"
  c_sol_try_find_program_address :: "bytes \<Rightarrow> bytes \<Rightarrow> u64 \<times> bytes \<times> u8"
  c_sol_memcpy :: "bytes \<Rightarrow> bytes \<Rightarrow> nat \<Rightarrow> bytes option"
  c_sol_memmove :: "bytes \<Rightarrow> bytes \<Rightarrow> nat \<Rightarrow> bytes option"
  c_sol_memcmp :: "bytes \<Rightarrow> bytes \<Rightarrow> nat \<Rightarrow> int option"
  c_sol_memset :: "bytes \<Rightarrow> int \<Rightarrow> nat \<Rightarrow> bytes option"

definition as_i32 :: "u64 \<Rightarrow> int" where
  "as_i32 x = sint (ucast x :: 32 word)"

definition code_result :: "u64 \<times> 'a \<Rightarrow> ('a, svm_error) res" where
  "code_result r = (if fst r \<noteq> 0 then Err (ExecutionFailed (as_i32 (fst r))) else Ok (snd r))"

definition sol_sha256 :: "sol_lib \<Rightarrow> bytes \<Rightarrow> (bytes, svm_error) res" where
  "sol_sha256 lib dat = code_result (c_sol_sha256 lib dat)"

definition sol_keccak256 :: "sol_lib \<Rightarrow> bytes \<Rightarrow> (bytes, svm_error) res" where
  "sol_keccak256 lib dat = code_result (c_sol_keccak256 lib dat)"

definition sol_blake3 :: "sol_lib \<Rightarrow> bytes \<Rightarrow> (bytes, svm_error) res" where
  "sol_blake3 lib dat = code_result (c_sol_blake3 lib dat)"

definition secp256k1_recover :: "sol_lib \<Rightarrow> bytes \<Rightarrow> u64 \<Rightarrow> bytes \<Rightarrow> (bytes, svm_error) res" where
  "secp256k1_recover lib hash recovery_id signature = code_result (c_sol_secp256k1_recover lib hash recovery_id signature)"

fun le_bytes :: "nat \<Rightarrow> nat \<Rightarrow> bytes" where
  "le_bytes 0 x = []"
| "le_bytes (Suc n) x = word_of_nat x # le_bytes n (x div 256)"

text \<open>Each seed with its length before it, eight bytes, little-endian\<close>

fun serialize_seeds :: "bytes list \<Rightarrow> bytes" where
  "serialize_seeds [] = []"
| "serialize_seeds (seed # seeds) = le_bytes 8 (length seed) @ seed @ serialize_seeds seeds"

definition sol_create_program_address :: "sol_lib \<Rightarrow> bytes list \<Rightarrow> bytes \<Rightarrow> (bytes, svm_error) res" where
  "sol_create_program_address lib seeds program_id = code_result (c_sol_create_program_address lib (serialize_seeds seeds) program_id)"

definition sol_try_find_program_address :: "sol_lib \<Rightarrow> bytes list \<Rightarrow> bytes \<Rightarrow> (bytes \<times> u8, svm_error) res" where
  "sol_try_find_program_address lib seeds program_id =
     code_result (c_sol_try_find_program_address lib (serialize_seeds seeds) program_id)"

text \<open>The destination comes back with the outcome.\<close>

definition sol_memcpy :: "sol_lib \<Rightarrow> bytes \<Rightarrow> bytes \<Rightarrow> (unit, svm_error) res \<times> bytes" where
  "sol_memcpy lib dst src =
     (if length dst < length src then (Err (InvalidInput ''Destination buffer too small''), dst)
      else case c_sol_memcpy lib dst src (length src) of None \<Rightarrow> (Panic, dst) | Some dst \<Rightarrow> (Ok (), dst))"

definition sol_memmove :: "sol_lib \<Rightarrow> bytes \<Rightarrow> bytes \<Rightarrow> (unit, svm_error) res \<times> bytes" where
  "sol_memmove lib dst src =
     (if length dst < length src then (Err (InvalidInput ''Destination buffer too small''), dst)
      else case c_sol_memmove lib dst src (length src) of None \<Rightarrow> (Panic, dst) | Some dst \<Rightarrow> (Ok (), dst))"

definition sol_memcmp :: "sol_lib \<Rightarrow> bytes \<Rightarrow> bytes \<Rightarrow> (int, svm_error) res" where
  "sol_memcmp lib s1 s2 = (case c_sol_memcmp lib s1 s2 (min (length s1) (length s2)) of None \<Rightarrow> Panic | Some r \<Rightarrow> Ok r)"

definition sol_memset :: "sol_lib \<Rightarrow> bytes \<Rightarrow> u8 \<Rightarrow> (bytes, svm_error) res" where
  "sol_memset lib buffer val =
     (case c_sol_memset lib buffer (uint val) (length buffer) of None \<Rightarrow> Panic | Some b \<Rightarrow> Ok b)"

section \<open>Laws of a machine\<close>

text \<open>
  What a machine reads while it executes, by the arguments it was configured with: the read-only data, the text, a bit of \<open>calldests\<close> for
  every word of the text, and the region tables. All of it is by address, so it must be allocated then.
\<close>

definition bytes_at :: "(nat \<Rightarrow> vm_cell option) \<Rightarrow> nat \<Rightarrow> nat \<Rightarrow> bool" where
  "bytes_at cs p n \<longleftrightarrow> n = 0 \<or> (case cs p of Some (Bytes_Buf b) \<Rightarrow> n \<le> length b | _ \<Rightarrow> False)"

definition words_at :: "(nat \<Rightarrow> vm_cell option) \<Rightarrow> nat \<Rightarrow> nat \<Rightarrow> bool" where
  "words_at cs p n \<longleftrightarrow> n = 0 \<or> (case cs p of Some (Words_Buf w) \<Rightarrow> n \<le> length w | _ \<Rightarrow> False)"

definition readable :: "(nat \<Rightarrow> vm_cell option) \<Rightarrow> vm_init_args \<Rightarrow> bool" where
  "readable cs x \<longleftrightarrow> bytes_at cs (ia_rodata x) (unat (ia_rodata_sz x)) \<and> words_at cs (ia_text x) (unat (ia_text_cnt x)) \<and>
     words_at cs (ia_calldests x) ((unat (ia_text_cnt x) + 63) div 64) \<and>
     (ia_mem_regions x = 0 \<or> cs (ia_mem_regions x) \<noteq> None) \<and> (ia_acc_regions x = 0 \<or> cs (ia_acc_regions x) \<noteq> None)"

text \<open>
  The phase of a joined machine: not configured, or configured with the given arguments, and then whether it was set up for the next
  execution and whether its text was validated.
\<close>

datatype vm_phase = Unconfigured | Configured vm_init_args bool bool

definition exec_law :: "(nat \<Rightarrow> 's vm_state \<Rightarrow> (int \<times> 's) option) \<Rightarrow> (nat \<Rightarrow> 's \<Rightarrow> vm_phase option) \<Rightarrow> bool" where
  "exec_law c view \<longleftrightarrow> (\<forall>p s h x. view p s = Some (Configured x True True) \<longrightarrow> readable (cells h) x \<longrightarrow>
     (\<exists>r s'. c p (s, h) = Some (r, s') \<and> view p s' = Some (Configured x False True)))"

text \<open>
  \<open>view p s\<close> is the phase of the machine \<open>p\<close> that was joined; \<open>formatted m s\<close>: the memory \<open>m\<close> holds a machine that nobody has joined. A
  configuration that fails leaves a machine that is not configured. Nothing is promised for a machine that is not configured but its
  configuration and its end, and nothing for an execution without a setup and a validation that succeeded, or with a buffer freed.
\<close>

locale machine =
  fixes lib :: "'s svm_lib" and formatted :: "nat \<Rightarrow> 's \<Rightarrow> bool" and view :: "nat \<Rightarrow> 's \<Rightarrow> vm_phase option"
  assumes new_law: "0 < m \<Longrightarrow> \<exists>p s'. c_vm_new lib m s = Some (p, s') \<and> (p \<noteq> 0 \<longrightarrow> p = m \<and> formatted m s')"
    and join_law: "formatted m s \<Longrightarrow>
      \<exists>p s'. c_vm_join lib m s = Some (p, s') \<and> (if p = 0 then formatted m s' else view p s' = Some Unconfigured)"
    and delete_law: "formatted m s \<Longrightarrow> \<exists>p s'. c_vm_delete lib m s = Some (p, s')"
    and leave_law: "view p s \<noteq> None \<Longrightarrow> \<exists>m s'. c_vm_leave lib p s = Some (m, s') \<and> (m \<noteq> 0 \<longrightarrow> formatted m s')"
    and init_law: "view p s \<noteq> None \<Longrightarrow> readable (cells h) x \<Longrightarrow>
      \<exists>r s'. c_vm_init lib p x (s, h) = Some (r, s') \<and>
        (if r = 0 then view p s' = Some Unconfigured
         else view p s' = Some (Configured x False False) \<and>
           (\<exists>f. c_vm_fields lib p s' = Some f \<and> vf_heap_max f = ia_heap_max x \<and> vf_sbpf_version f = ia_sbpf_version x \<and>
             vf_direct_mapping f = ia_direct_mapping x))"
    and setup_law: "view p s = Some (Configured x su va) \<Longrightarrow> readable (cells h) x \<Longrightarrow>
      \<exists>r s'. c_vm_setup lib p (s, h) = Some (r, s') \<and> view p s' = Some (Configured x (r = 0) va)"
    and validate_law: "view p s = Some (Configured x su va) \<Longrightarrow> readable (cells h) x \<Longrightarrow>
      \<exists>r s'. c_vm_validate lib p (s, h) = Some (r, s') \<and> view p s' = Some (Configured x su (r = VM_SUCCESS lib))"
    and exec_laws: "exec_law (c_vm_exec lib) view" "exec_law (c_vm_exec_trace lib) view" "exec_law (c_vm_exec_notrace lib) view"

text \<open>What a client does with a machine between its creation and its end.\<close>

datatype vm_op =
    Init vm_config slice_ref slice_ref u64 u64 slice_ref "memory_region list" "account_region_meta list"
  | Setup | Validate | Execute | Execute_Trace | Execute_Notrace

fun vm_op_call :: "'s svm_lib \<Rightarrow> vm \<Rightarrow> vm_op \<Rightarrow> 's vm_state \<Rightarrow> (unit, 's) vm_call" where
  "vm_op_call lib v (Init c ro code off pc dests ms acs) = vm_init_with_config lib v c ro code off pc dests ms acs"
| "vm_op_call lib v Setup = setup_for_execution lib v"
| "vm_op_call lib v Validate = vm_validate lib v"
| "vm_op_call lib v Execute = execute lib v"
| "vm_op_call lib v Execute_Trace = execute_trace lib v"
| "vm_op_call lib v Execute_Notrace = execute_notrace lib v"

text \<open>
  A client that minds the results: it remembers whether the last configuration succeeded, and since then the last setup and the last
  validation, and leaves out the calls that need one that did not. Errors are values, and it goes on. The calls themselves check nothing.
\<close>

record vm_known =
  k_init :: bool
  k_setup :: bool
  k_valid :: bool

fun may_call :: "vm_op \<Rightarrow> vm_known \<Rightarrow> bool" where
  "may_call (Init c ro code off pc dests ms acs) k \<longleftrightarrow> True"
| "may_call Setup k \<longleftrightarrow> k_init k"
| "may_call Validate k \<longleftrightarrow> k_init k"
| "may_call _ k \<longleftrightarrow> k_init k \<and> k_setup k \<and> k_valid k"

fun learn :: "vm_op \<Rightarrow> bool \<Rightarrow> vm_known \<Rightarrow> vm_known" where
  "learn (Init c ro code off pc dests ms acs) ok k = \<lparr>k_init = ok, k_setup = False, k_valid = False\<rparr>"
| "learn Setup ok k = k\<lparr>k_setup := ok\<rparr>"
| "learn Validate ok k = k\<lparr>k_valid := ok\<rparr>"
| "learn _ ok k = k\<lparr>k_setup := False\<rparr>"

fun vm_run :: "'s svm_lib \<Rightarrow> vm \<Rightarrow> vm_known \<Rightarrow> vm_op list \<Rightarrow> 's vm_state \<Rightarrow> (unit, 's) vm_call" where
  "vm_run lib v k [] st = (Ok (), st)"
| "vm_run lib v k (x # xs) st =
     (if may_call x k then
        (case vm_op_call lib v x st of (Panic, st) \<Rightarrow> (Panic, st) | (r, st) \<Rightarrow> vm_run lib v (learn x (r = Ok ()) k) xs st)
      else vm_run lib v k xs st)"

text \<open>Slices of buffers that are allocated, no longer than Rust allows, with a bit of \<open>calldests\<close> for every word of the text\<close>

definition slices_ok :: "(nat \<Rightarrow> vm_cell option) \<Rightarrow> slice_ref \<Rightarrow> slice_ref \<Rightarrow> slice_ref \<Rightarrow> bool" where
  "slices_ok cs ro code dests \<longleftrightarrow> snd ro < 2 ^ 63 \<and> bytes_at cs (fst ro) (snd ro) \<and> snd code < 2 ^ 60 \<and> words_at cs (fst code) (snd code) \<and>
     words_at cs (fst dests) (snd dests) \<and> (snd code + 63) div 64 \<le> snd dests"

fun keeps_buffers :: "(nat \<Rightarrow> vm_cell option) \<Rightarrow> vm_op \<Rightarrow> bool" where
  "keeps_buffers cs (Init c ro code off pc dests ms acs) \<longleftrightarrow> slices_ok cs ro code dests \<and> ms = [] \<and> acs = []"
| "keeps_buffers cs _ \<longleftrightarrow> True"

lemma words_at_le: "words_at cs p n \<Longrightarrow> m \<le> n \<Longrightarrow> words_at cs p m"
  by (auto simp: words_at_def split: option.splits vm_cell.splits)

lemma at_mono:
  assumes "cs \<subseteq>\<^sub>m ds"
  shows "bytes_at cs p n \<Longrightarrow> bytes_at ds p n" and "words_at cs p n \<Longrightarrow> words_at ds p n"
  using assms by (auto simp: bytes_at_def words_at_def map_le_def dom_def split: option.splits vm_cell.splits)

lemma readable_args:
  assumes "slices_ok cs ro code dests" and "cs \<subseteq>\<^sub>m ds" and "m = 0 \<or> ds m \<noteq> None" and "a = 0 \<or> ds a \<noteq> None"
  shows "readable ds (init_args c ro code off pc dests m n a)"
proof -
  have "unat (of_nat (snd ro) :: u64) = snd ro" "unat (of_nat (snd code) :: u64) = snd code"
    using assms(1) by (simp_all add: slices_ok_def unat_of_nat take_bit_nat_eq_self)
  then show ?thesis using assms at_mono [OF assms(2)] words_at_le
    by (auto simp: readable_def init_args_def slices_ok_def)
qed

lemma collect_tables:
  assumes "heap_ok h" and "collect_vec c xs h = (p, h')"
  shows "heap_ok h'" "p = 0 \<or> p \<in> live h'" "live h \<subseteq> live h'" "p = 0 \<and> h' = h \<or> p \<notin> live h \<and> cells h' = (cells h)(p \<mapsto> c xs)"
    "p = 0 \<longleftrightarrow> xs = []"
proof -
  obtain q h1 where a: "h_alloc (c xs) h = (q, h1)" "heap_ok h1" "live h1 = insert q (live h)" "q \<notin> live h" "0 < q" "cells h1 = (cells h)(q \<mapsto> c xs)"
    using h_allocE [OF assms(1)] by metis
  show "heap_ok h'" "p = 0 \<or> p \<in> live h'" "live h \<subseteq> live h'" "p = 0 \<and> h' = h \<or> p \<notin> live h \<and> cells h' = (cells h)(p \<mapsto> c xs)"
    "p = 0 \<longleftrightarrow> xs = []"
    using a assms by (auto simp: collect_vec_def split: if_splits)
qed

lemma drop_collected:
  assumes "heap_ok h" and "collect_vec c xs h = (p, h1)" and "heap_ok h2" and "cells h2 = cells h1"
  shows "\<exists>h3. drop_vec p (s, h2) = (Ok (), s, h3) \<and> cells h3 = cells h \<and> heap_ok h3"
proof (cases "p = 0")
  case True
  then show ?thesis using collect_tables(4) [OF assms(1,2)] heap_ok_fresh(2) [OF assms(1)] collect_tables(1) [OF assms(1,2)] assms(3,4)
      heap_ok_fresh(2) [OF assms(3)]
    by (auto simp: drop_vec_def domIff)
next
  case False
  then have "cells h2 = (cells h)(p \<mapsto> c xs)" "cells h p = None" using collect_tables(4) [OF assms(1,2)] assms(4) by (auto simp: domIff)
  moreover then have "(h_free p h2 :: (_, svm_error) res) = Ok (release {p} h2)" by (intro h_free_live) auto
  ultimately show ?thesis using False release_ok [OF assms(3)] by (auto simp: drop_vec_def dealloc_def release_cells fun_eq_iff)
qed

text \<open>What the client remembers is so, and what the machine was configured with can still be read.\<close>

definition knows :: "(nat \<Rightarrow> 's \<Rightarrow> vm_phase option) \<Rightarrow> vm_known \<Rightarrow> nat \<Rightarrow> 's vm_state \<Rightarrow> bool" where
  "knows view k p st \<longleftrightarrow> (case view p (fst st) of None \<Rightarrow> False | Some Unconfigured \<Rightarrow> \<not> k_init k
     | Some (Configured x su va) \<Rightarrow> k_init k \<longrightarrow> readable (cells (snd st)) x \<and> (k_setup k \<longrightarrow> su) \<and> (k_valid k \<longrightarrow> va))"

lemma knows_joined: "knows view k p (s, h) \<Longrightarrow> view p s \<noteq> None"
  by (auto simp: knows_def split: option.splits)

lemma knowsE:
  assumes "knows view k p (s, h)" and "k_init k"
  obtains x su va where "view p s = Some (Configured x su va)" and "readable (cells h) x" and "k_setup k \<Longrightarrow> su" and "k_valid k \<Longrightarrow> va"
  using assms by (auto simp: knows_def split: option.splits vm_phase.splits)


context machine
begin

lemma vm_init_ok:
  assumes view: "view (vm_ptr v) s \<noteq> None" and h: "heap_ok h" and "heap_max c \<le> HEAP_MAX" and "entry_cu c \<le> COMPUTE_UNIT_LIMIT"
    and slices: "slices_ok (cells h) ro code dests"
  shows "\<exists>r s' h' m a. vm_init_with_config lib v c ro code off pc dests ms acs (s, h) = (r, s', h') \<and> heap_ok h' \<and> cells h' = cells h \<and>
    (m = 0 \<longleftrightarrow> ms = []) \<and> (a = 0 \<longleftrightarrow> acs = []) \<and>
    (r = Err InitializationFailed \<and> view (vm_ptr v) s' = Some Unconfigured \<or>
     r = Ok () \<and> view (vm_ptr v) s' = Some (Configured (init_args c ro code off pc dests m (length ms) a) False False) \<and>
       (\<exists>f. c_vm_fields lib (vm_ptr v) s' = Some f \<and> vf_heap_max f = heap_max c \<and> vf_sbpf_version f = version_code (cfg_sbpf_version c) \<and>
         vf_direct_mapping f = flag (enable_direct_mapping c)))"
proof -
  obtain m h1 where m: "collect_vec Input_Regions (map c_region ms) h = (m, h1)" by fastforce
  note M = collect_tables [OF h m]
  obtain a h2 where a: "collect_vec Acc_Regions (map c_acc acs) h1 = (a, h2)" by fastforce
  note A = collect_tables [OF M(1) a]
  define x where "x = init_args c ro code off pc dests m (length ms) a"
  have "cells h \<subseteq>\<^sub>m cells h1" "cells h1 \<subseteq>\<^sub>m cells h2" using M(4) A(4) by (auto simp: map_le_def domIff)
  then have "cells h \<subseteq>\<^sub>m cells h2" by (rule map_le_trans)
  then have t: "readable (cells h2) x"
    using readable_args [OF slices, of "cells h2" m a] M(2) A(2,3) by (auto simp: x_def)
  obtain r s' where r: "c_vm_init lib (vm_ptr v) x (s, h2) = Some (r, s')"
      "if r = 0 then view (vm_ptr v) s' = Some Unconfigured
         else view (vm_ptr v) s' = Some (Configured x False False) \<and>
           (\<exists>f. c_vm_fields lib (vm_ptr v) s' = Some f \<and> vf_heap_max f = ia_heap_max x \<and> vf_sbpf_version f = ia_sbpf_version x \<and>
             vf_direct_mapping f = ia_direct_mapping x)"
    using init_law [OF view t] by (elim exE conjE)
  obtain h3 where h3: "drop_vec a (s', h2) = (Ok (), s', h3)" "cells h3 = cells h1" "heap_ok h3"
    using drop_collected [OF M(1) a A(1) refl, of s'] by (elim exE conjE)
  obtain h4 where h4: "drop_vec m (s', h3) = (Ok (), s', h4)" "cells h4 = cells h" "heap_ok h4"
    using drop_collected [OF h m h3(3,2), of s'] by (elim exE conjE)
  have "vm_init_with_config lib v c ro code off pc dests ms acs (s, h) = (if r = 0 then Err InitializationFailed else Ok (), s', h4)"
    using assms(3,4) m a r(1) h3(1) h4(1) by (simp add: vm_init_with_config_def x_def not_less)
  moreover have "m = 0 \<longleftrightarrow> ms = []" "a = 0 \<longleftrightarrow> acs = []" using M(5) A(5) by auto
  moreover have "if r = 0 then view (vm_ptr v) s' = Some Unconfigured
      else view (vm_ptr v) s' = Some (Configured x False False) \<and>
        (\<exists>f. c_vm_fields lib (vm_ptr v) s' = Some f \<and> vf_heap_max f = heap_max c \<and> vf_sbpf_version f = version_code (cfg_sbpf_version c) \<and>
          vf_direct_mapping f = flag (enable_direct_mapping c))"
    using r(2) by (cases "r = 0") (auto simp: x_def init_args_def)
  ultimately show ?thesis using h4(2,3) unfolding x_def
    by (intro exI [of _ "if r = 0 then Err InitializationFailed else Ok ()"] exI [of _ s'] exI [of _ h4] exI [of _ m] exI [of _ a])
      (cases "r = 0", auto)
qed

lemma exec_op_ok:
  assumes "exec_law c view" and "knows view k p (s, h)" and "k_init k \<and> k_setup k \<and> k_valid k"
  shows "\<exists>r s'. code_call (c p (s, h)) (\<lambda>result. if result \<noteq> VM_SUCCESS lib then Err (convert_vm_error lib result) else Ok ()) (s, h) = (r, s', h) \<and>
    r \<noteq> Panic \<and> knows view (k\<lparr>k_setup := False\<rparr>) p (s', h)"
proof -
  obtain x where x: "view p s = Some (Configured x True True)" "readable (cells h) x"
    using assms(2,3) by (auto elim: knowsE)
  then obtain r s' where "c p (s, h) = Some (r, s')" "view p s' = Some (Configured x False True)"
    using assms(1) unfolding exec_law_def by blast
  then show ?thesis using x(2) by (auto simp: code_call_def knows_def)
qed

lemma vm_op_ok:
  assumes k: "knows view k (vm_ptr v) (s, h)" and may: "may_call x k" and buf: "keeps_buffers (cells h) x" and h: "heap_ok h"
  shows "\<exists>r s' h'. vm_op_call lib v x (s, h) = (r, s', h') \<and> r \<noteq> Panic \<and> knows view (learn x (r = Ok ()) k) (vm_ptr v) (s', h') \<and>
    cells h' = cells h \<and> heap_ok h'"
proof (cases x)
  case (Init c ro code off pc dests ms acs)
  have view: "view (vm_ptr v) s \<noteq> None" using k by (rule knows_joined)
  have b: "slices_ok (cells h) ro code dests" "ms = []" "acs = []" using buf Init by auto
  show ?thesis
  proof (cases "heap_max c \<le> HEAP_MAX \<and> entry_cu c \<le> COMPUTE_UNIT_LIMIT")
    case True
    have "readable (cells h) (init_args c ro code off pc dests 0 0 0)" using readable_args [OF b(1)] by simp
    then show ?thesis using vm_init_ok [OF view h _ _ b(1), of c off pc "[]" "[]"] True Init b(2,3)
      by (auto simp: knows_def)
  next
    case False
    then have "vm_op_call lib v x (s, h) = (Err (InvalidInput ''Heap size too large''), s, h) \<or>
        vm_op_call lib v x (s, h) = (Err (InvalidInput ''Compute units too large''), s, h)"
      using Init by (auto simp: vm_init_with_config_def not_le)
    moreover have "knows view (learn x False k) (vm_ptr v) (s, h)"
      using Init view by (auto simp: knows_def split: option.splits vm_phase.splits)
    ultimately show ?thesis using h by auto
  qed
next
  case Setup
  then obtain y su va where y: "view (vm_ptr v) s = Some (Configured y su va)" "readable (cells h) y" "k_valid k \<Longrightarrow> va"
    using knowsE [OF k] may by (metis may_call.simps(2))
  obtain r s' where "c_vm_setup lib (vm_ptr v) (s, h) = Some (r, s')" "view (vm_ptr v) s' = Some (Configured y (r = 0) va)"
    using setup_law [OF y(1,2)] by blast
  then show ?thesis using Setup y(2,3) h by (auto simp: setup_for_execution_def code_call_def knows_def)
next
  case Validate
  then obtain y su va where y: "view (vm_ptr v) s = Some (Configured y su va)" "readable (cells h) y" "k_setup k \<Longrightarrow> su"
    using knowsE [OF k] may by (metis may_call.simps(3))
  obtain r s' where "c_vm_validate lib (vm_ptr v) (s, h) = Some (r, s')"
      "view (vm_ptr v) s' = Some (Configured y su (r = VM_SUCCESS lib))"
    using validate_law [OF y(1,2)] by blast
  then show ?thesis using Validate y(2,3) h by (auto simp: vm_validate_def code_call_def knows_def)
next
  case Execute
  then show ?thesis
    using exec_op_ok [OF exec_laws(1) k] may h
    by (auto simp: execute_def)
next
  case Execute_Trace
  then show ?thesis
    using exec_op_ok [OF exec_laws(2) k] may h
    by (auto simp: execute_trace_def)
next
  case Execute_Notrace
  then show ?thesis
    using exec_op_ok [OF exec_laws(3) k] may h
    by (auto simp: execute_notrace_def)
qed

lemma vm_run_ok:
  "knows view k (vm_ptr v) (s, h) \<Longrightarrow> list_all (keeps_buffers (cells h)) xs \<Longrightarrow> heap_ok h \<Longrightarrow>
    \<exists>s' h'. vm_run lib v k xs (s, h) = (Ok (), s', h') \<and> view (vm_ptr v) s' \<noteq> None \<and> cells h' = cells h \<and> heap_ok h'"
proof (induction xs arbitrary: s h k)
  case Nil
  then show ?case using knows_joined by auto
next
  case (Cons x xs)
  show ?case
  proof (cases "may_call x k")
    case True
    obtain r s' h' where "vm_op_call lib v x (s, h) = (r, s', h')" "r \<noteq> Panic" "knows view (learn x (r = Ok ()) k) (vm_ptr v) (s', h')"
        "cells h' = cells h" "heap_ok h'"
      using vm_op_ok [OF Cons.prems(1) True _ Cons.prems(3)] Cons.prems(2) by auto
    then show ?thesis using Cons.IH [of "learn x (r = Ok ()) k" s' h'] Cons.prems(2) True by (cases r) auto
  next
    case False
    then show ?thesis using Cons by simp
  qed
qed

lemma vm_new_ok:
  assumes "heap_ok h"
  shows "\<exists>r s' h'. vm_new lib oom (s, h) = (r, s', h') \<and> r \<noteq> Panic \<and> (\<forall>e. r = Err e \<longrightarrow> cells h' = cells h) \<and>
    (\<forall>v. r = Ok v \<longrightarrow> heap_ok h' \<and> view (vm_ptr v) s' = Some Unconfigured \<and> vm_memory v \<notin> live h \<and> cells h' = (cells h)(vm_memory v \<mapsto> Vm_Memory))"
proof -
  obtain m h1 where a: "h_alloc Vm_Memory h = (m, h1)" "0 < m" "m \<notin> live h" "cells h1 = (cells h)(m \<mapsto> Vm_Memory)" "heap_ok h1"
    using h_allocE [OF assms] by metis
  have f: "fail_after e (dealloc m (s', h1)) = ((Err e :: (vm, svm_error) res), s', h1\<lparr>cells := cells h\<rparr>)" for e and s' :: 's
    using a(3,4) by (auto simp: fail_after_def dealloc_def h_free_def domIff fun_upd_idem)
  obtain p s1 where n: "c_vm_new lib m s = Some (p, s1)" "p \<noteq> 0 \<longrightarrow> p = m \<and> formatted m s1" using new_law [OF a(2)] by blast
  show ?thesis
  proof (cases "p = 0")
    case True
    then show ?thesis using a(1) n(1) f by (simp add: vm_new_def)
  next
    case False
    then have p: "p = m" "formatted m s1" using n(2) by auto
    obtain q s2 where j: "c_vm_join lib m s1 = Some (q, s2)" "if q = 0 then formatted m s2 else view q s2 = Some Unconfigured"
      using join_law [OF p(2)] by blast
    show ?thesis
    proof (cases "q = 0")
      case True
      then obtain d s3 where "c_vm_delete lib m s2 = Some (d, s3)" using delete_law j(2) by fastforce
      then show ?thesis using a(1,2) n(1) p j True f by (simp add: vm_new_def)
    next
      case False
      then show ?thesis using a n(1) p j by (simp add: vm_new_def)
    qed
  qed
qed

lemma vm_drop_ok:
  assumes "view (vm_ptr v) s \<noteq> None" and "vm_memory v \<notin> live h" and "cells h' = (cells h)(vm_memory v \<mapsto> c)"
  shows "\<exists>s'' h''. vm_drop lib v (s, h') = (Ok (), s'', h'') \<and> cells h'' = cells h"
proof -
  obtain m s1 where l: "c_vm_leave lib (vm_ptr v) s = Some (m, s1)" "m \<noteq> 0 \<longrightarrow> formatted m s1" using leave_law [OF assms(1)] by blast
  have f: "dealloc (vm_memory v) (s', h') = (Ok (), s', h'\<lparr>cells := cells h\<rparr>)" for s' :: 's
    using assms(2,3) by (auto simp: dealloc_def h_free_def domIff fun_upd_idem)
  show ?thesis
  proof (cases "m = 0")
    case True
    then show ?thesis using l f by (simp add: vm_drop_def)
  next
    case False
    then obtain d s2 where "c_vm_delete lib m s1 = Some (d, s2)" using l(2) delete_law by blast
    then show ?thesis using l f False by (simp add: vm_drop_def)
  qed
qed

end

section \<open>A machine that keeps the laws\<close>

text \<open>
  It keeps the arguments of its configuration, reads the text when it is validated and all they name when it is executed, and refuses to run without a
  setup and a validation. A text is valid if the entry point is one of its words. A machine needs one instruction, and it counts one unit for each
  of them.
\<close>

datatype simple_vm = Formatted | Joined vm_fields vm_phase

type_synonym simple_state = "nat \<Rightarrow> simple_vm option"

definition zero_fields :: vm_fields where
  "zero_fields = \<lparr>vf_pc = 0, vf_ic = 0, vf_cu = 0, vf_frame_cnt = 0, vf_heap_sz = 0, vf_heap_max = 0, vf_direct_mapping = 0, vf_sbpf_version = 0\<rparr>"

definition simple_setup :: "nat \<Rightarrow> simple_state vm_state \<Rightarrow> (int \<times> simple_state) option" where
  "simple_setup p st = (case fst st p of
       Some (Joined f (Configured x su va)) \<Rightarrow> Some (0, (fst st)(p \<mapsto> Joined f (Configured x True va)))
     | _ \<Rightarrow> None)"

definition simple_validate :: "nat \<Rightarrow> simple_state vm_state \<Rightarrow> (int \<times> simple_state) option" where
  "simple_validate p st = (case fst st p of
       Some (Joined f (Configured x su va)) \<Rightarrow>
         if words_at (cells (snd st)) (ia_text x) (unat (ia_text_cnt x))
         then let r = (if ia_entry_pc x < ia_text_cnt x then 0 else -29) in Some (r, (fst st)(p \<mapsto> Joined f (Configured x su (r = 0)))) else None
     | _ \<Rightarrow> None)"

definition simple_exec :: "nat \<Rightarrow> simple_state vm_state \<Rightarrow> (int \<times> simple_state) option" where
  "simple_exec p st = (case fst st p of
       Some (Joined f (Configured x True True)) \<Rightarrow>
         if readable (cells (snd st)) x
         then Some (if vf_cu f = 0 then (-16, (fst st)(p \<mapsto> Joined f (Configured x False True)))
                    else (0, (fst st)(p \<mapsto> Joined (f\<lparr>vf_pc := vf_pc f + 1, vf_ic := vf_ic f + 1, vf_cu := vf_cu f - 1\<rparr>) (Configured x False True))))
         else None
     | _ \<Rightarrow> None)"

definition simple_lib :: "simple_state svm_lib" where
  "simple_lib = \<lparr>VM_SUCCESS = 0, VM_ERR_INVAL = -1, VM_ERR_INVALID_OPCODE = -25, VM_ERR_INVALID_SRC_REG = -26, VM_ERR_INVALID_DST_REG = -27,
     VM_ERR_JMP_OUT_OF_BOUNDS = -29, VM_ERR_SIGFPE = -18, c_vm_align = 8, c_vm_footprint = 64,
     c_vm_new = (\<lambda>m s. Some (m, s(m \<mapsto> Formatted))),
     c_vm_join = (\<lambda>m s. if s m = Some Formatted then Some (m, s(m \<mapsto> Joined zero_fields Unconfigured)) else None),
     c_vm_leave = (\<lambda>p s. case s p of Some (Joined f ph) \<Rightarrow> Some (p, s(p \<mapsto> Formatted)) | _ \<Rightarrow> None),
     c_vm_delete = (\<lambda>m s. if s m = Some Formatted then Some (m, s(m := None)) else None),
     c_vm_init = (\<lambda>p x st. case fst st p of
         Some (Joined f ph) \<Rightarrow>
           if \<not> readable (cells (snd st)) x then None
           else if ia_text_cnt x = 0 then Some (0, (fst st)(p \<mapsto> Joined f Unconfigured))
           else Some (p, (fst st)(p \<mapsto> Joined (zero_fields\<lparr>vf_pc := ia_entry_pc x, vf_cu := ia_entry_cu x, vf_heap_max := ia_heap_max x,
                   vf_direct_mapping := ia_direct_mapping x, vf_sbpf_version := ia_sbpf_version x\<rparr>) (Configured x False False)))
       | _ \<Rightarrow> None),
     c_vm_setup = simple_setup, c_vm_validate = simple_validate, c_vm_exec = simple_exec, c_vm_exec_trace = simple_exec,
     c_vm_exec_notrace = simple_exec,
     c_vm_fields = (\<lambda>p s. case s p of Some (Joined f ph) \<Rightarrow> Some f | _ \<Rightarrow> None)\<rparr>"




section \<open>Properties\<close>


definition one_region :: memory_region where
  "one_region = \<lparr>vaddr_offset = 0, haddr = 4096, region_size = 16, is_writable = True, is_account_data = False\<rparr>"

definition small_config :: "u64 \<Rightarrow> vm_config" where
  "small_config heap = \<lparr>heap_max = heap, entry_cu = 5, cfg_sbpf_version = V2, enable_direct_mapping = True, dump_syscall_to_pb = False, tracing = None\<rparr>"




text \<open>What \<open>init_with_config\<close> does: it refuses more than 256 KiB of heap or 1400000 units without calling C; otherwise it succeeds or fails with
  \<open>InitializationFailed\<close>, leaves the memory as it was, and a machine it configured has the heap, the version and the mapping mode
  of the configuration.\<close>

theorem svm_init_configures:
  assumes "machine lib formatted view" and "heap_ok h" and "view (vm_ptr v) s \<noteq> None" and "slices_ok (cells h) ro code dests"
    and "vm_init_with_config lib v c ro code off pc dests ms acs (s, h) = (r, s', h')"
  shows "cells h' = cells h \<and>
    (if heap_max c > HEAP_MAX then r = Err (InvalidInput ''Heap size too large'') \<and> s' = s
     else if entry_cu c > COMPUTE_UNIT_LIMIT then r = Err (InvalidInput ''Compute units too large'') \<and> s' = s
     else r = Err InitializationFailed \<or>
       r = Ok () \<and> get_heap_max lib v s' = Ok (heap_max c) \<and> get_sbpf_version lib v s' = Ok (cfg_sbpf_version c) \<and>
       is_direct_mapping_enabled lib v s' = Ok (enable_direct_mapping c))"
proof (cases "heap_max c > HEAP_MAX \<or> entry_cu c > COMPUTE_UNIT_LIMIT")
  case True
  then show ?thesis using assms(5) by (auto simp: vm_init_with_config_def)
next
  case False
  then have le: "heap_max c \<le> HEAP_MAX" "entry_cu c \<le> COMPUTE_UNIT_LIMIT" by auto
  have "cells h' = cells h" and
    "r = Err InitializationFailed \<or> r = Ok () \<and> (\<exists>f. c_vm_fields lib (vm_ptr v) s' = Some f \<and> vf_heap_max f = heap_max c \<and>
       vf_sbpf_version f = version_code (cfg_sbpf_version c) \<and> vf_direct_mapping f = flag (enable_direct_mapping c))"
    using machine.vm_init_ok [OF assms(1,3,2) le assms(4), of off pc ms acs] assms(5) by auto
  moreover have "cfg_sbpf_version c = (if version_code (cfg_sbpf_version c) = 0 then V0 else if version_code (cfg_sbpf_version c) = 1 then V1 else V2)"
    by (cases "cfg_sbpf_version c") auto
  ultimately show ?thesis using False
    by (cases "cfg_sbpf_version c") (auto simp: get_heap_max_def get_sbpf_version_def is_direct_mapping_enabled_def with_fields_def flag_def)
qed

text \<open>
  What the client above does not do, the safe functions allow. The region tables are vectors that \<open>init_with_config\<close> frees before it
  returns, while the machine keeps their addresses: after a configuration with a region, a setup and a validation, which all succeed, the
  execution reads freed memory. The borrows of the slices end with the call as well: a client may free the text of a machine that is ready
  and then execute it. And a machine may be executed that was never configured.
\<close>

theorem regions_dangle:
  assumes "heap_ok h" and "s p = Some (Joined f ph)" and "0 < p" and "slices_ok (cells h) ro code dests" and "0 < snd code"
    and "v = \<lparr>vm_ptr = p, vm_memory = q\<rparr>"
  shows "\<exists>st1 st2 st3. vm_init_with_config simple_lib v (small_config 1024) ro code 0 0 dests [one_region] [] (s, h) = (Ok (), st1) \<and>
    setup_for_execution simple_lib v st1 = (Ok (), st2) \<and> vm_validate simple_lib v st2 = (Ok (), st3) \<and>
    fst (execute simple_lib v st3) = Panic"
proof -
  obtain m h1 where a: "h_alloc (Input_Regions [c_region one_region]) h = (m, h1)" "m \<notin> live h" "0 < m"
      "cells h1 = (cells h)(m \<mapsto> Input_Regions [c_region one_region])"
    using h_allocE [OF assms(1)] by metis
  let ?x = "init_args (small_config 1024) ro code 0 0 dests m 1 0"
  have l: "\<not> HEAP_MAX < heap_max (small_config 1024)" "\<not> COMPUTE_UNIT_LIMIT < entry_cu (small_config 1024)"
    by (simp_all add: HEAP_MAX_def COMPUTE_UNIT_LIMIT_def small_config_def)
  have "cells h \<subseteq>\<^sub>m cells h1" using a(2,4) by (auto simp: map_le_def)
  then have r: "readable (cells h1) ?x" using readable_args [OF assms(4)] a(4) by simp
  have n: "unat (of_nat (snd code) :: u64) = snd code"
    using assms(4) by (simp add: slices_ok_def unat_of_nat take_bit_nat_eq_self)
  then have t: "ia_text_cnt ?x \<noteq> 0" "ia_entry_pc ?x < ia_text_cnt ?x" "ia_mem_regions ?x = m" 
      "words_at (cells h) (ia_text ?x) (unat (ia_text_cnt ?x))"
    using assms(4,5) by (auto simp: init_args_def slices_ok_def word_gt_0 simp flip: unat_eq_zero)
  have free: "(h_free m h1 :: (_, svm_error) res) = Ok (h1\<lparr>cells := cells h\<rparr>)"
    using a(2,4) by (simp add: h_free_def domIff fun_upd_idem)
  have gone: "\<not> readable (cells h) ?x" using a(2,3) t(3) by (auto simp: readable_def domIff)
  show ?thesis
    using a l r t free gone assms(2,3,6)
    by (simp add: vm_init_with_config_def collect_vec_def drop_vec_def dealloc_def simple_lib_def setup_for_execution_def code_call_def
        simple_setup_def vm_validate_def simple_validate_def execute_def simple_exec_def Let_def)
qed

theorem buffers_dangle:
  assumes "heap_ok h" and "s p = Some (Joined f ph)" and "0 < p" and "slices_ok (cells h) ro code dests" and "0 < snd code"
    and "v = \<lparr>vm_ptr = p, vm_memory = q\<rparr>"
  shows "\<exists>st1 st2 s3 h3 h4. vm_init_with_config simple_lib v (small_config 1024) ro code 0 0 dests [] [] (s, h) = (Ok (), st1) \<and>
    setup_for_execution simple_lib v st1 = (Ok (), st2) \<and> vm_validate simple_lib v st2 = (Ok (), s3, h3) \<and>
    (h_free (fst code) h3 :: (_, svm_error) res) = Ok h4 \<and>
    fst (execute simple_lib v (s3, h3)) = Ok () \<and> fst (execute simple_lib v (s3, h4)) = Panic"
proof -
  let ?x = "init_args (small_config 1024) ro code 0 0 dests 0 0 0"
  have l: "\<not> HEAP_MAX < heap_max (small_config 1024)" "\<not> COMPUTE_UNIT_LIMIT < entry_cu (small_config 1024)"
    by (simp_all add: HEAP_MAX_def COMPUTE_UNIT_LIMIT_def small_config_def)
  have r: "readable (cells h) ?x" using readable_args [OF assms(4)] by simp
  have n: "unat (of_nat (snd code) :: u64) = snd code"
    using assms(4) by (simp add: slices_ok_def unat_of_nat take_bit_nat_eq_self)
  then have t: "ia_text_cnt ?x \<noteq> 0" "ia_entry_pc ?x < ia_text_cnt ?x" "ia_text ?x = fst code" "unat (ia_text_cnt ?x) = snd code"
      "ia_entry_cu ?x = 5" "words_at (cells h) (fst code) (snd code)"
    using assms(4,5) by (auto simp: init_args_def slices_ok_def word_gt_0 small_config_def simp flip: unat_eq_zero)
  then obtain w where w: "cells h (fst code) = Some (Words_Buf w)"
    using assms(5) by (auto simp: words_at_def split: option.splits vm_cell.splits)
  let ?h = "h\<lparr>cells := (cells h)(fst code := None)\<rparr>"
  have free: "(h_free (fst code) h :: (_, svm_error) res) = Ok ?h" using w by (simp add: h_free_def)
  have "\<not> words_at (cells ?h) (fst code) (snd code)" using assms(5) by (simp add: words_at_def)
  then have gone: "\<not> readable (cells ?h) ?x" using t(3,4) by (simp add: readable_def)
  show ?thesis
    using l r t free gone assms(2,3,6)
    by (simp add: vm_init_with_config_def collect_vec_def drop_vec_def simple_lib_def setup_for_execution_def code_call_def
        simple_setup_def vm_validate_def simple_validate_def execute_def simple_exec_def zero_fields_def Let_def)
qed

subsection \<open>The runtime calls\<close>

lemma le_bytes_length [simp]: "length (le_bytes n x) = n"
  by (induction n arbitrary: x) auto

lemma le_bytes_inj: "le_bytes n x = le_bytes n y \<Longrightarrow> x < 256 ^ n \<Longrightarrow> y < 256 ^ n \<Longrightarrow> x = y"
proof (induction n arbitrary: x y)
  case (Suc n)
  have "(of_nat x :: u8) = of_nat y" using Suc.prems(1) by simp
  from arg_cong [OF this, of unat] have "x mod 256 = y mod 256" by (simp add: unat_of_nat take_bit_eq_mod)
  moreover have "x div 256 < 256 ^ n" "y div 256 < 256 ^ n" using Suc.prems(2,3) by (simp_all add: div_less_iff_less_mult mult.commute)
  then have "x div 256 = y div 256" using Suc.prems(1) Suc.IH [of "x div 256" "y div 256"] by simp
  ultimately show ?case by (metis div_mult_mod_eq)
qed simp

text \<open>The seeds reach the runtime without ambiguity: different lists of seeds have different serialisations.\<close>

theorem serialize_seeds_inj:
  assumes "serialize_seeds ss = serialize_seeds ts" and "\<forall>x \<in> set ss \<union> set ts. length x < 2 ^ 64"
  shows "ss = ts"
  using assms
proof (induction ss arbitrary: ts)
  case Nil
  then have "length (serialize_seeds ts) = 0" by simp
  then show ?case by (cases ts) auto
next
  case (Cons x ss)
  have "ts \<noteq> []" using arg_cong [OF Cons.prems(1), of length] by (intro notI) simp
  then obtain y us where ts: "ts = y # us" by (cases ts) auto
  have e: "le_bytes 8 (length x) @ x @ serialize_seeds ss = le_bytes 8 (length y) @ y @ serialize_seeds us" using Cons.prems(1) ts by simp
  then have "le_bytes 8 (length x) = le_bytes 8 (length y)" and t: "x @ serialize_seeds ss = y @ serialize_seeds us"
    by (simp_all add: append_eq_append_conv)
  then have "length x = length y" using Cons.prems(2) ts by (intro le_bytes_inj [of 8]) auto
  then show ?case using t Cons.IH [of us] Cons.prems(2) ts by (auto simp: append_eq_append_conv)
qed

definition sol_memory :: "sol_lib \<Rightarrow> bool" where
  "sol_memory lib \<longleftrightarrow> (\<forall>dst src n. n \<le> length dst \<longrightarrow> n \<le> length src \<longrightarrow>
     c_sol_memcpy lib dst src n = Some (take n src @ drop n dst) \<and> c_sol_memmove lib dst src n = Some (take n src @ drop n dst) \<and>
     (\<exists>r. c_sol_memcmp lib dst src n = Some r \<and> (r = 0 \<longleftrightarrow> take n dst = take n src))) \<and>
   (\<forall>b c. c_sol_memset lib b c (length b) = Some (replicate (length b) (word_of_int c)))"

text \<open>
  The memory calls with a runtime that copies, compares and fills: a copy changes the beginning of the destination to the
  source, or refuses it unchanged when it is too short. \<open>memcmp\<close> compares the common length only, so that 0 means that one slice is a
  beginning of the other.
\<close>

theorem sol_memory_calls:
  assumes "sol_memory lib"
  shows "sol_memcpy lib dst src = (if length dst < length src then (Err (InvalidInput ''Destination buffer too small''), dst)
      else (Ok (), src @ drop (length src) dst))"
    and "sol_memmove lib dst src = sol_memcpy lib dst src"
    and "\<exists>r. sol_memcmp lib dst src = Ok r \<and> (r = 0 \<longleftrightarrow> (\<exists>t. dst = src @ t \<or> src = dst @ t))"
    and "sol_memset lib dst b = Ok (replicate (length dst) b)"
proof -
  show cp: "sol_memcpy lib dst src = (if length dst < length src then (Err (InvalidInput ''Destination buffer too small''), dst)
      else (Ok (), src @ drop (length src) dst))"
    using assms by (simp add: sol_memory_def sol_memcpy_def)
  show "sol_memmove lib dst src = sol_memcpy lib dst src"
    using assms by (simp add: sol_memory_def sol_memmove_def sol_memcpy_def)
  let ?n = "min (length dst) (length src)"
  obtain r where r: "c_sol_memcmp lib dst src ?n = Some r" "r = 0 \<longleftrightarrow> take ?n dst = take ?n src"
    using assms unfolding sol_memory_def by (metis min.cobounded1 min.cobounded2)
  have "take ?n dst = take ?n src \<longleftrightarrow> (\<exists>t. dst = src @ t \<or> src = dst @ t)"
  proof (cases "length dst \<le> length src")
    case True
    then show ?thesis using append_take_drop_id [of "length dst" src] by (auto simp: min_def append_eq_append_conv2) (metis append_take_drop_id)+
  next
    case False
    then show ?thesis using append_take_drop_id [of "length src" dst] by (auto simp: min_def) (metis append_take_drop_id)+
  qed
  then show "\<exists>r. sol_memcmp lib dst src = Ok r \<and> (r = 0 \<longleftrightarrow> (\<exists>t. dst = src @ t \<or> src = dst @ t))"
    using r by (simp add: sol_memcmp_def)
  show "sol_memset lib dst b = Ok (replicate (length dst) b)" using assms by (simp add: sol_memory_def sol_memset_def)
qed

end
