(* ===== verification/Nanopb.thy ===== *)
theory Nanopb
  imports Rust_Std "HOL-Library.Sublist"
begin

text \<open>
  Protocol buffers of \<open>ballet/nanopb/fd_nanopb/src/lib.rs\<close>: output and input streams over byte slices, field iterators and
  whole messages. The C library is the parameter \<open>pb_lib\<close>; the locale \<open>wire_format\<close> states the documented encoding, base-128
  varints and what is built from them.
\<close>

section \<open>Model\<close>

datatype pb_error = BufferTooSmall | InvalidData bytes | UnexpectedEof | InvalidField bytes | InvalidString | InvalidVarint |
  MessageTooLarge | InternalError bytes | NullPointer

datatype wire_type = Varint | Fixed64 | LengthDelimited | Fixed32

text \<open>The constants of the bindings: 0, 1, 2 and 5.\<close>

fun wire_code :: "wire_type \<Rightarrow> u32" where
  "wire_code Varint = 0"
| "wire_code Fixed64 = 1"
| "wire_code LengthDelimited = 2"
| "wire_code Fixed32 = 5"

definition wire_type_from_raw :: "u32 \<Rightarrow> wire_type option" where
  "wire_type_from_raw raw =
     (if raw = 0 then Some Varint else if raw = 1 then Some Fixed64 else if raw = 2 then Some LengthDelimited
      else if raw = 5 then Some Fixed32 else None)"

text \<open>
  A C output stream with the slice it writes to, an input stream with the bytes it has not read (\<open>bytes_left\<close> is their
  number). \<open>errmsg\<close> is the null pointer or a C string.
\<close>

record ostream =
  os_buf :: bytes
  os_max_size :: nat
  os_bytes_written :: nat
  os_errmsg :: "bytes option"

record istream =
  is_rest :: bytes
  is_errmsg :: "bytes option"

definition bytes_left :: "istream \<Rightarrow> nat" where
  "bytes_left s = length (is_rest s)"

record msgdesc =
  md_field_count :: nat
  md_required_field_count :: nat
  md_largest_tag :: u32

record field_iter =
  it_tag :: u16
  it_data_size :: u16
  it_array_size :: u16
  it_type :: u8
  it_pos :: nat

text \<open>Every call of C on a stream gives the success, what it wrote through pointers, and the new stream.\<close>

record 'm pb_lib =
  c_ostream_from_buffer :: "bytes \<Rightarrow> ostream"
  c_write :: "bytes \<Rightarrow> ostream \<Rightarrow> bool \<times> ostream"
  c_encode_varint :: "u64 \<Rightarrow> ostream \<Rightarrow> bool \<times> ostream"
  c_encode_svarint :: "u64 \<Rightarrow> ostream \<Rightarrow> bool \<times> ostream"
  c_encode_string :: "bytes \<Rightarrow> ostream \<Rightarrow> bool \<times> ostream"
  c_encode_fixed32 :: "bytes \<Rightarrow> ostream \<Rightarrow> bool \<times> ostream"
  c_encode_fixed64 :: "bytes \<Rightarrow> ostream \<Rightarrow> bool \<times> ostream"
  c_encode_tag :: "u32 \<Rightarrow> u32 \<Rightarrow> ostream \<Rightarrow> bool \<times> ostream"
  c_istream_from_buffer :: "bytes \<Rightarrow> istream"
  c_read :: "nat \<Rightarrow> istream \<Rightarrow> bool \<times> bytes \<times> istream"
  c_decode_varint :: "istream \<Rightarrow> bool \<times> u64 \<times> istream"
  c_decode_varint32 :: "istream \<Rightarrow> bool \<times> u32 \<times> istream"
  c_decode_svarint :: "istream \<Rightarrow> bool \<times> u64 \<times> istream"
  c_decode_bool :: "istream \<Rightarrow> bool \<times> bool \<times> istream"
  c_decode_fixed32 :: "istream \<Rightarrow> bool \<times> bytes \<times> istream"
  c_decode_fixed64 :: "istream \<Rightarrow> bool \<times> bytes \<times> istream"
  c_decode_tag :: "istream \<Rightarrow> bool \<times> (u32 \<times> u32 \<times> bool) \<times> istream"
  c_skip_field :: "u32 \<Rightarrow> istream \<Rightarrow> bool \<times> istream"
  c_make_string_substream :: "istream \<Rightarrow> bool \<times> istream \<times> istream"
  c_close_string_substream :: "istream \<Rightarrow> istream \<Rightarrow> bool \<times> istream"
  c_msgdesc :: "nat \<Rightarrow> msgdesc"
  c_field_iter_begin :: "nat \<Rightarrow> 'm \<Rightarrow> bool \<times> field_iter"
  c_field_iter_next :: "field_iter \<Rightarrow> bool \<times> field_iter"
  c_field_iter_find :: "u32 \<Rightarrow> field_iter \<Rightarrow> bool \<times> field_iter"
  c_get_encoded_size :: "nat \<Rightarrow> 'm \<Rightarrow> bool \<times> nat"
  c_encode :: "nat \<Rightarrow> 'm \<Rightarrow> ostream \<Rightarrow> bool \<times> ostream"
  c_decode :: "nat \<Rightarrow> 'm \<Rightarrow> istream \<Rightarrow> bool \<times> 'm \<times> istream"

definition get_error :: "bytes option \<Rightarrow> pb_error" where
  "get_error errmsg = InternalError (case errmsg of None \<Rightarrow> ascii ''Unknown error''
     | Some m \<Rightarrow> (case from_utf8 m of None \<Rightarrow> ascii ''Invalid error message'' | Some m \<Rightarrow> m))"

subsection \<open>Output\<close>

definition output_from_buffer :: "'m pb_lib \<Rightarrow> bytes \<Rightarrow> (ostream, pb_error) res" where
  "output_from_buffer lib buffer = (if buffer = [] then Err BufferTooSmall else Ok (c_ostream_from_buffer lib buffer))"

definition bytes_written :: "ostream \<Rightarrow> nat" where
  "bytes_written s = os_bytes_written s"

definition max_size :: "ostream \<Rightarrow> nat" where
  "max_size s = os_max_size s"

definition output_bytes_remaining :: "ostream \<Rightarrow> nat" where
  "output_bytes_remaining s = os_max_size s - os_bytes_written s"

definition write_result :: "bool \<times> ostream \<Rightarrow> (unit, pb_error) res \<times> ostream" where
  "write_result r = (if fst r then Ok () else Err (get_error (os_errmsg (snd r))), snd r)"

definition pb_write :: "'m pb_lib \<Rightarrow> bytes \<Rightarrow> ostream \<Rightarrow> (unit, pb_error) res \<times> ostream" where
  "pb_write lib dat s = write_result (c_write lib dat s)"

definition write_varint :: "'m pb_lib \<Rightarrow> u64 \<Rightarrow> ostream \<Rightarrow> (unit, pb_error) res \<times> ostream" where
  "write_varint lib v s = write_result (c_encode_varint lib v s)"

definition write_svarint :: "'m pb_lib \<Rightarrow> u64 \<Rightarrow> ostream \<Rightarrow> (unit, pb_error) res \<times> ostream" where
  "write_svarint lib v s = write_result (c_encode_svarint lib v s)"

definition write_string :: "'m pb_lib \<Rightarrow> bytes \<Rightarrow> ostream \<Rightarrow> (unit, pb_error) res \<times> ostream" where
  "write_string lib dat s = write_result (c_encode_string lib dat s)"

definition write_fixed32 :: "'m pb_lib \<Rightarrow> bytes \<Rightarrow> ostream \<Rightarrow> (unit, pb_error) res \<times> ostream" where
  "write_fixed32 lib v s = write_result (c_encode_fixed32 lib v s)"

definition write_fixed64 :: "'m pb_lib \<Rightarrow> bytes \<Rightarrow> ostream \<Rightarrow> (unit, pb_error) res \<times> ostream" where
  "write_fixed64 lib v s = write_result (c_encode_fixed64 lib v s)"

definition write_tag :: "'m pb_lib \<Rightarrow> wire_type \<Rightarrow> u32 \<Rightarrow> ostream \<Rightarrow> (unit, pb_error) res \<times> ostream" where
  "write_tag lib wire field_number s = write_result (c_encode_tag lib (wire_code wire) field_number s)"

definition encoded_data :: "ostream \<Rightarrow> (bytes, pb_error) res" where
  "encoded_data s = slice (os_buf s) 0 (bytes_written s)"

subsection \<open>Input\<close>

definition input_from_buffer :: "'m pb_lib \<Rightarrow> bytes \<Rightarrow> (istream, pb_error) res" where
  "input_from_buffer lib dat = (if dat = [] then Err BufferTooSmall else Ok (c_istream_from_buffer lib dat))"

definition input_bytes_remaining :: "istream \<Rightarrow> nat" where
  "input_bytes_remaining s = bytes_left s"

definition is_eof :: "istream \<Rightarrow> bool" where
  "is_eof s \<longleftrightarrow> bytes_left s = 0"

definition read_result :: "bool \<times> 'a \<times> istream \<Rightarrow> ('a, pb_error) res \<times> istream" where
  "read_result r = (case r of (success, v, s) \<Rightarrow> (if success then Ok v else Err (get_error (is_errmsg s)), s))"

text \<open>The buffer comes back with the outcome; C writes inside it.\<close>

definition pb_read :: "'m pb_lib \<Rightarrow> bytes \<Rightarrow> istream \<Rightarrow> (unit, pb_error) res \<times> bytes \<times> istream" where
  "pb_read lib buffer s =
     (case c_read lib (length buffer) s of
        (success, b, s) \<Rightarrow>
          if length b > length buffer then (Panic, buffer, s)
          else (if success then Ok () else Err (get_error (is_errmsg s)), b @ drop (length b) buffer, s))"

definition read_varint :: "'m pb_lib \<Rightarrow> istream \<Rightarrow> (u64, pb_error) res \<times> istream" where
  "read_varint lib s = read_result (c_decode_varint lib s)"

definition read_varint32 :: "'m pb_lib \<Rightarrow> istream \<Rightarrow> (u32, pb_error) res \<times> istream" where
  "read_varint32 lib s = read_result (c_decode_varint32 lib s)"

definition read_svarint :: "'m pb_lib \<Rightarrow> istream \<Rightarrow> (u64, pb_error) res \<times> istream" where
  "read_svarint lib s = read_result (c_decode_svarint lib s)"

definition read_bool :: "'m pb_lib \<Rightarrow> istream \<Rightarrow> (bool, pb_error) res \<times> istream" where
  "read_bool lib s = read_result (c_decode_bool lib s)"

definition read_fixed32 :: "'m pb_lib \<Rightarrow> istream \<Rightarrow> (bytes, pb_error) res \<times> istream" where
  "read_fixed32 lib s = read_result (c_decode_fixed32 lib s)"

definition read_fixed64 :: "'m pb_lib \<Rightarrow> istream \<Rightarrow> (bytes, pb_error) res \<times> istream" where
  "read_fixed64 lib s = read_result (c_decode_fixed64 lib s)"

text \<open>Decimal digits, for the message with an unknown wire type\<close>

fun dec_text :: "nat \<Rightarrow> nat \<Rightarrow> bytes" where
  "dec_text 0 n = []"
| "dec_text (Suc k) n = (if n < 10 then [word_of_nat (48 + n)] else dec_text k (n div 10) @ [word_of_nat (48 + n mod 10)])"

definition read_tag :: "'m pb_lib \<Rightarrow> istream \<Rightarrow> ((wire_type \<times> u32) option, pb_error) res \<times> istream" where
  "read_tag lib s =
     (case c_decode_tag lib s of
        (success, (wire, tag, eof), s) \<Rightarrow>
          (if success then
             if eof then Ok None
             else case wire_type_from_raw wire of
                    None \<Rightarrow> Err (InvalidField (ascii ''Invalid wire type: '' @ dec_text 10 (unat wire)))
                  | Some wt \<Rightarrow> Ok (Some (wt, tag))
           else Err (get_error (is_errmsg s)), s))"

definition skip_field :: "'m pb_lib \<Rightarrow> wire_type \<Rightarrow> istream \<Rightarrow> (unit, pb_error) res \<times> istream" where
  "skip_field lib wire s = (case c_skip_field lib (wire_code wire) s of (success, s) \<Rightarrow> read_result (success, (), s))"

definition make_string_substream :: "'m pb_lib \<Rightarrow> istream \<Rightarrow> (istream, pb_error) res \<times> istream" where
  "make_string_substream lib s = read_result (c_make_string_substream lib s)"

definition close_string_substream :: "'m pb_lib \<Rightarrow> istream \<Rightarrow> istream \<Rightarrow> (unit, pb_error) res \<times> istream" where
  "close_string_substream lib substream s =
     (case c_close_string_substream lib substream s of (success, s) \<Rightarrow> read_result (success, (), s))"

subsection \<open>Descriptors, iterators and messages\<close>

definition descriptor_from_raw :: "nat \<Rightarrow> (nat, pb_error) res" where
  "descriptor_from_raw d = (if d = 0 then Err NullPointer else Ok d)"

definition field_count :: "'m pb_lib \<Rightarrow> nat \<Rightarrow> nat" where
  "field_count lib d = md_field_count (c_msgdesc lib d)"

definition required_field_count :: "'m pb_lib \<Rightarrow> nat \<Rightarrow> nat" where
  "required_field_count lib d = md_required_field_count (c_msgdesc lib d)"

definition largest_tag :: "'m pb_lib \<Rightarrow> nat \<Rightarrow> u32" where
  "largest_tag lib d = md_largest_tag (c_msgdesc lib d)"

definition field_iter_begin :: "'m pb_lib \<Rightarrow> nat \<Rightarrow> 'm \<Rightarrow> (field_iter, pb_error) res" where
  "field_iter_begin lib d message =
     (case c_field_iter_begin lib d message of
        (success, it) \<Rightarrow> if success then Ok it else Err (InvalidData (ascii ''Failed to initialize field iterator'')))"

definition field_iter_next :: "'m pb_lib \<Rightarrow> field_iter \<Rightarrow> bool \<times> field_iter" where
  "field_iter_next lib it = c_field_iter_next lib it"

definition field_iter_find :: "'m pb_lib \<Rightarrow> u32 \<Rightarrow> field_iter \<Rightarrow> bool \<times> field_iter" where
  "field_iter_find lib tag it = c_field_iter_find lib tag it"

definition get_encoded_size :: "'m pb_lib \<Rightarrow> nat \<Rightarrow> 'm \<Rightarrow> (nat, pb_error) res" where
  "get_encoded_size lib d message =
     (case c_get_encoded_size lib d message of
        (success, n) \<Rightarrow> if success then Ok n else Err (InternalError (ascii ''Failed to calculate encoded size'')))"

text \<open>The buffer comes back with what was written to it.\<close>

definition encode_message :: "'m pb_lib \<Rightarrow> bytes \<Rightarrow> nat \<Rightarrow> 'm \<Rightarrow> (nat, pb_error) res \<times> bytes" where
  "encode_message lib buffer d message =
     (case output_from_buffer lib buffer of
        Err e \<Rightarrow> (Err e, buffer)
      | Panic \<Rightarrow> (Panic, buffer)
      | Ok s \<Rightarrow>
          (case c_encode lib d message s of
             (success, s) \<Rightarrow> (if success then Ok (bytes_written s) else Err (get_error (os_errmsg s)), os_buf s)))"

definition decode_message :: "'m pb_lib \<Rightarrow> bytes \<Rightarrow> nat \<Rightarrow> 'm \<Rightarrow> (unit, pb_error) res \<times> 'm" where
  "decode_message lib dat d message =
     (case input_from_buffer lib dat of
        Err e \<Rightarrow> (Err e, message)
      | Panic \<Rightarrow> (Panic, message)
      | Ok s \<Rightarrow>
          (case c_decode lib d message s of
             (success, message, s) \<Rightarrow> (if success then Ok () else Err (get_error (is_errmsg s)), message)))"

section \<open>The encoding\<close>

fun varint :: "nat \<Rightarrow> bytes" where
  "varint n = (if n < 128 then [word_of_nat n] else word_of_nat (128 + n mod 128) # varint (n div 128))"

declare varint.simps [simp del]

text \<open>Signed numbers alternate around zero.\<close>

definition zigzag :: "u64 \<Rightarrow> nat" where
  "zigzag v = nat (if sint v < 0 then - 2 * sint v - 1 else 2 * sint v)"

definition tag_number :: "wire_type \<Rightarrow> u32 \<Rightarrow> nat" where
  "tag_number wire fld = unat fld * 8 + unat (wire_code wire)"

definition os_ok :: "ostream \<Rightarrow> bool" where
  "os_ok s \<longleftrightarrow> os_max_size s = length (os_buf s) \<and> os_bytes_written s \<le> os_max_size s"

text \<open>
  \<open>puts f bs\<close>: the call writes the bytes \<open>bs\<close> when there is room for them; otherwise it fails with a message, and what it
  has written is a beginning of them. \<open>gets f bs v\<close>: the call reads the bytes \<open>bs\<close> as the value \<open>v\<close>.
\<close>

definition written :: "ostream \<Rightarrow> bytes" where
  "written s = take (os_bytes_written s) (os_buf s)"

definition puts :: "(ostream \<Rightarrow> bool \<times> ostream) \<Rightarrow> bytes \<Rightarrow> bool" where
  "puts f bs \<longleftrightarrow> (\<forall>s. os_ok s \<longrightarrow> (\<exists>b s'. f s = (b, s') \<and> os_ok s' \<and> os_max_size s' = os_max_size s \<and>
     (if os_bytes_written s + length bs \<le> os_max_size s then b \<and> written s' = written s @ bs
      else \<not> b \<and> os_errmsg s' \<noteq> None \<and> prefix (written s) (written s') \<and> prefix (written s') (written s @ bs))))"

definition gets :: "(istream \<Rightarrow> bool \<times> 'a \<times> istream) \<Rightarrow> bytes \<Rightarrow> 'a \<Rightarrow> bool" where
  "gets f bs v \<longleftrightarrow> (\<forall>s rest. is_rest s = bs @ rest \<longrightarrow> (\<exists>s'. f s = (True, v, s') \<and> is_rest s' = rest))"

locale wire_format =
  fixes lib :: "'m pb_lib"
  assumes from_buffers: "os_ok (c_ostream_from_buffer lib buf)" "os_max_size (c_ostream_from_buffer lib buf) = length buf"
      "os_bytes_written (c_ostream_from_buffer lib buf) = 0" "is_rest (c_istream_from_buffer lib buf) = buf"
    and encoders: "puts (c_write lib bs) bs" "puts (c_encode_varint lib v) (varint (unat v))" "puts (c_encode_svarint lib v) (varint (zigzag v))"
      "puts (c_encode_string lib bs) (varint (length bs) @ bs)" "length w = 4 \<Longrightarrow> puts (c_encode_fixed32 lib w) w"
      "length x = 8 \<Longrightarrow> puts (c_encode_fixed64 lib x) x" "puts (c_encode_tag lib (wire_code wire) fld) (varint (tag_number wire fld))"
    and decoders: "gets (c_read lib (length bs)) bs bs" "gets (c_decode_varint lib) (varint (unat v)) v"
      "gets (c_decode_svarint lib) (varint (zigzag v)) v" "length w = 4 \<Longrightarrow> gets (c_decode_fixed32 lib) w w"
      "length x = 8 \<Longrightarrow> gets (c_decode_fixed64 lib) x x"
      "unat fld < 2 ^ 29 \<Longrightarrow> gets (c_decode_tag lib) (varint (tag_number wire fld)) (wire_code wire, fld, False)"
    and tag_at_end: "is_rest s = [] \<Longrightarrow> \<exists>v s'. c_decode_tag lib s = (False, v, s')"

text \<open>A client that writes and reads a sequence of values.\<close>

datatype pb_item = Tag wire_type u32 | Num u64 | Signed u64 | Str bytes | Four bytes | Eight bytes | Plain bytes

fun item_wire :: "pb_item \<Rightarrow> bytes" where
  "item_wire (Tag wire fld) = varint (tag_number wire fld)"
| "item_wire (Num v) = varint (unat v)"
| "item_wire (Signed v) = varint (zigzag v)"
| "item_wire (Str b) = varint (length b) @ b"
| "item_wire (Four b) = b"
| "item_wire (Eight b) = b"
| "item_wire (Plain b) = b"

fun item_ok :: "pb_item \<Rightarrow> bool" where
  "item_ok (Tag wire fld) \<longleftrightarrow> unat fld < 2 ^ 29"
| "item_ok (Four b) \<longleftrightarrow> length b = 4"
| "item_ok (Eight b) \<longleftrightarrow> length b = 8"
| "item_ok (Str b) \<longleftrightarrow> length b < 2 ^ 64"
| "item_ok _ \<longleftrightarrow> True"

fun write_item :: "'m pb_lib \<Rightarrow> pb_item \<Rightarrow> ostream \<Rightarrow> (unit, pb_error) res \<times> ostream" where
  "write_item lib (Tag wire fld) = write_tag lib wire fld"
| "write_item lib (Num v) = write_varint lib v"
| "write_item lib (Signed v) = write_svarint lib v"
| "write_item lib (Str b) = write_string lib b"
| "write_item lib (Four b) = write_fixed32 lib b"
| "write_item lib (Eight b) = write_fixed64 lib b"
| "write_item lib (Plain b) = pb_write lib b"

fun write_items :: "'m pb_lib \<Rightarrow> pb_item list \<Rightarrow> ostream \<Rightarrow> (unit, pb_error) res \<times> ostream" where
  "write_items lib [] s = (Ok (), s)"
| "write_items lib (i # is) s = (case write_item lib i s of (Ok _, s) \<Rightarrow> write_items lib is s | (Err e, s) \<Rightarrow> (Err e, s) | (Panic, s) \<Rightarrow> (Panic, s))"

text \<open>What the reader expects next; it learns the length of a string from the stream.\<close>

datatype pb_shape = A_Tag | A_Num | A_Signed | A_Str | A_Four | A_Eight | A_Plain nat

fun shape_of :: "pb_item \<Rightarrow> pb_shape" where
  "shape_of (Tag wire fld) = A_Tag"
| "shape_of (Num v) = A_Num"
| "shape_of (Signed v) = A_Signed"
| "shape_of (Str b) = A_Str"
| "shape_of (Four b) = A_Four"
| "shape_of (Eight b) = A_Eight"
| "shape_of (Plain b) = A_Plain (length b)"

definition read_plain :: "'m pb_lib \<Rightarrow> nat \<Rightarrow> istream \<Rightarrow> (bytes, pb_error) res \<times> istream" where
  "read_plain lib n s = (case pb_read lib (replicate n 0) s of (r, b, s) \<Rightarrow> (res_bind r (\<lambda>_. Ok b), s))"

definition with_result :: "('a \<Rightarrow> 'b) \<Rightarrow> ('a, pb_error) res \<times> istream \<Rightarrow> ('b, pb_error) res \<times> istream" where
  "with_result f r = (res_bind (fst r) (\<lambda>x. Ok (f x)), snd r)"

fun read_item :: "'m pb_lib \<Rightarrow> pb_shape \<Rightarrow> istream \<Rightarrow> (pb_item, pb_error) res \<times> istream" where
  "read_item lib A_Tag s = (case read_tag lib s of (r, s) \<Rightarrow> (res_bind r (\<lambda>t. case t of None \<Rightarrow> Err UnexpectedEof | Some (wt, n) \<Rightarrow> Ok (Tag wt n)), s))"
| "read_item lib A_Num s = with_result Num (read_varint lib s)"
| "read_item lib A_Signed s = with_result Signed (read_svarint lib s)"
| "read_item lib A_Str s = (case read_varint lib s of
      (Ok n, s) \<Rightarrow> with_result Str (read_plain lib (unat n) s) | (Err e, s) \<Rightarrow> (Err e, s) | (Panic, s) \<Rightarrow> (Panic, s))"
| "read_item lib A_Four s = with_result Four (read_fixed32 lib s)"
| "read_item lib A_Eight s = with_result Eight (read_fixed64 lib s)"
| "read_item lib (A_Plain n) s = with_result Plain (read_plain lib n s)"

fun read_items :: "'m pb_lib \<Rightarrow> pb_shape list \<Rightarrow> istream \<Rightarrow> (pb_item list, pb_error) res \<times> istream" where
  "read_items lib [] s = (Ok [], s)"
| "read_items lib (p # ps) s = (case read_item lib p s of
      (Ok i, s) \<Rightarrow> (case read_items lib ps s of (r, s) \<Rightarrow> (res_bind r (\<lambda>is. Ok (i # is)), s))
    | (Err e, s) \<Rightarrow> (Err e, s) | (Panic, s) \<Rightarrow> (Panic, s))"

definition wire :: "pb_item list \<Rightarrow> bytes" where
  "wire is = concat (map item_wire is)"

lemma putsE:
  assumes "puts f bs" and "os_ok s"
  obtains b s' where "f s = (b, s')" "os_ok s'" "os_max_size s' = os_max_size s"
    "if os_bytes_written s + length bs \<le> os_max_size s then b \<and> written s' = written s @ bs
      else \<not> b \<and> os_errmsg s' \<noteq> None \<and> prefix (written s) (written s') \<and> prefix (written s') (written s @ bs)"
  using assms unfolding puts_def by blast

lemma getsE:
  assumes "gets f bs v" and "is_rest s = bs @ rest"
  obtains s' where "f s = (True, v, s')" "is_rest s' = rest"
  using assms unfolding gets_def by blast

lemma os_ok_written: "os_ok s \<Longrightarrow> length (written s) = os_bytes_written s"
  by (simp add: os_ok_def written_def)

lemma wire_type_round: "wire_type_from_raw (wire_code wt) = Some wt"
  by (cases wt) (simp_all add: wire_type_from_raw_def)

context wire_format
begin

lemma write_item_puts:
  assumes "item_ok i" and "os_ok s"
  obtains r s' where "write_item lib i s = (r, s')" "os_ok s'" "os_max_size s' = os_max_size s"
    "if os_bytes_written s + length (item_wire i) \<le> os_max_size s then r = Ok () \<and> written s' = written s @ item_wire i
     else (\<exists>m. r = Err (InternalError m)) \<and> prefix (written s') (written s @ item_wire i)"
proof -
  have "\<exists>f. write_item lib i s = write_result (f s) \<and> puts f (item_wire i)"
    using assms(1) encoders
    by (cases i) (auto simp: write_tag_def write_varint_def write_svarint_def write_string_def write_fixed32_def write_fixed64_def pb_write_def)
  then obtain f where f: "write_item lib i s = write_result (f s)" "puts f (item_wire i)" by blast
  obtain b s' where "f s = (b, s')" "os_ok s'" "os_max_size s' = os_max_size s"
    "if os_bytes_written s + length (item_wire i) \<le> os_max_size s then b \<and> written s' = written s @ item_wire i
      else \<not> b \<and> os_errmsg s' \<noteq> None \<and> prefix (written s) (written s') \<and> prefix (written s') (written s @ item_wire i)"
    using putsE [OF f(2) assms(2)] .
  then show thesis using that f(1) by (auto simp: write_result_def get_error_def split: if_splits)
qed

lemma write_items_puts:
  "list_all item_ok is \<Longrightarrow> os_ok s \<Longrightarrow>
    \<exists>r s'. write_items lib is s = (r, s') \<and> os_ok s' \<and>
      (if os_bytes_written s + length (wire is) \<le> os_max_size s then r = Ok () \<and> written s' = written s @ wire is
       else (\<exists>m. r = Err (InternalError m)) \<and> prefix (written s') (written s @ wire is))"
proof (induction "is" arbitrary: s)
  case (Cons i js)
  obtain r s1 where w: "write_item lib i s = (r, s1)" "os_ok s1" "os_max_size s1 = os_max_size s"
    "if os_bytes_written s + length (item_wire i) \<le> os_max_size s then r = Ok () \<and> written s1 = written s @ item_wire i
     else (\<exists>m. r = Err (InternalError m)) \<and> prefix (written s1) (written s @ item_wire i)"
    using write_item_puts [of i s] Cons.prems by auto
  show ?case
  proof (cases "os_bytes_written s + length (item_wire i) \<le> os_max_size s")
    case True
    then have r: "r = Ok ()" "written s1 = written s @ item_wire i" using w(4) by auto
    have "os_bytes_written s1 = os_bytes_written s + length (item_wire i)"
      using os_ok_written [OF w(2)] os_ok_written [OF Cons.prems(2)] r(2) by simp
    then show ?thesis using Cons.IH [OF _ w(2)] Cons.prems(1) w(1,3) r by (auto simp: wire_def add.assoc split: if_splits)
  next
    case False
    then obtain m where "r = Err (InternalError m)" "prefix (written s1) (written s @ item_wire i)" using w(4) by auto
    then show ?thesis using False w(1,2) by (auto simp: wire_def intro: prefix_order.trans)
  qed
qed (simp add: wire_def os_ok_def)

lemma read_plain_gets:
  assumes "is_rest s = b @ rest"
  obtains s' where "read_plain lib (length b) s = (Ok b, s')" "is_rest s' = rest"
proof -
  obtain s' where "c_read lib (length b) s = (True, b, s')" "is_rest s' = rest" using getsE [OF decoders(1) assms] .
  then show thesis using that by (simp add: read_plain_def pb_read_def)
qed

lemma read_item_gets:
  assumes "item_ok i" and "is_rest s = item_wire i @ rest"
  obtains s' where "read_item lib (shape_of i) s = (Ok i, s')" "is_rest s' = rest"
proof (cases i)
  case (Tag wt n)
  then obtain s' where "c_decode_tag lib s = (True, (wire_code wt, n, False), s')" "is_rest s' = rest"
    using getsE [OF decoders(6) [of n wt], of s rest] assms by auto
  then show thesis using that Tag by (simp add: read_tag_def wire_type_round)
next
  case (Num v)
  then obtain s' where "c_decode_varint lib s = (True, v, s')" "is_rest s' = rest" using getsE [OF decoders(2) [of v], of s rest] assms by auto
  then show thesis using that Num by (simp add: read_varint_def read_result_def with_result_def)
next
  case (Signed v)
  then obtain s' where "c_decode_svarint lib s = (True, v, s')" "is_rest s' = rest" using getsE [OF decoders(3) [of v], of s rest] assms by auto
  then show thesis using that Signed by (simp add: read_svarint_def read_result_def with_result_def)
next
  case (Str b)
  have n: "unat (of_nat (length b) :: u64) = length b" using assms(1) Str by (simp add: unat_of_nat take_bit_nat_eq_self)
  then have "is_rest s = varint (unat (of_nat (length b) :: u64)) @ b @ rest" using assms(2) Str by simp
  then obtain s1 where s1: "c_decode_varint lib s = (True, of_nat (length b), s1)" "is_rest s1 = b @ rest" using getsE [OF decoders(2)] by blast
  obtain s2 where "read_plain lib (length b) s1 = (Ok b, s2)" "is_rest s2 = rest" using read_plain_gets [OF s1(2)] .
  then show thesis using that Str s1(1) n by (simp add: read_varint_def read_result_def with_result_def)
next
  case (Four b)
  then obtain s' where "c_decode_fixed32 lib s = (True, b, s')" "is_rest s' = rest" using getsE [OF decoders(4) [of b], of s rest] assms by auto
  then show thesis using that Four by (simp add: read_fixed32_def read_result_def with_result_def)
next
  case (Eight b)
  then obtain s' where "c_decode_fixed64 lib s = (True, b, s')" "is_rest s' = rest" using getsE [OF decoders(5) [of b], of s rest] assms by auto
  then show thesis using that Eight by (simp add: read_fixed64_def read_result_def with_result_def)
next
  case (Plain b)
  then obtain s' where "read_plain lib (length b) s = (Ok b, s')" "is_rest s' = rest" using read_plain_gets [of s b rest] assms by auto
  then show thesis using that Plain by (simp add: with_result_def)
qed

lemma read_items_gets:
  "list_all item_ok is \<Longrightarrow> is_rest s = wire is @ rest \<Longrightarrow> \<exists>s'. read_items lib (map shape_of is) s = (Ok is, s') \<and> is_rest s' = rest"
proof (induction "is" arbitrary: s)
  case (Cons i js)
  obtain s1 where s1: "read_item lib (shape_of i) s = (Ok i, s1)" "is_rest s1 = wire js @ rest"
    using read_item_gets [of i s "wire js @ rest"] Cons.prems by (auto simp: wire_def)
  obtain s2 where "read_items lib (map shape_of js) s1 = (Ok js, s2)" "is_rest s2 = rest" using Cons.IH [OF _ s1(2)] Cons.prems(1) by auto
  then show ?case using s1(1) by simp
qed (simp add: wire_def)

end

section \<open>A library that keeps the laws\<close>

definition ref_put :: "bytes \<Rightarrow> ostream \<Rightarrow> bool \<times> ostream" where
  "ref_put bs s =
     (if os_bytes_written s + length bs \<le> os_max_size s
      then (True, s\<lparr>os_buf := blit (os_buf s) (os_bytes_written s) bs, os_bytes_written := os_bytes_written s + length bs\<rparr>)
      else (False, s\<lparr>os_errmsg := Some (ascii ''stream full'')\<rparr>))"

definition ref_fail :: "'a \<Rightarrow> istream \<Rightarrow> bool \<times> 'a \<times> istream" where
  "ref_fail v s = (False, v, s\<lparr>is_errmsg := Some (ascii ''end-of-stream'')\<rparr>)"

fun ref_uvarint :: "bytes \<Rightarrow> (nat \<times> bytes) option" where
  "ref_uvarint [] = None"
| "ref_uvarint (b # r) = (if unat b < 128 then Some (unat b, r)
     else case ref_uvarint r of None \<Rightarrow> None | Some (n, r') \<Rightarrow> Some (unat b - 128 + 128 * n, r'))"

definition ref_number :: "(nat \<Rightarrow> 'a) \<Rightarrow> istream \<Rightarrow> bool \<times> 'a \<times> istream" where
  "ref_number f s = (case ref_uvarint (is_rest s) of None \<Rightarrow> ref_fail (f 0) s | Some (n, r) \<Rightarrow> (True, f n, s\<lparr>is_rest := r\<rparr>))"

definition ref_take :: "nat \<Rightarrow> istream \<Rightarrow> bool \<times> bytes \<times> istream" where
  "ref_take n s = (if length (is_rest s) < n then ref_fail [] s else (True, take n (is_rest s), s\<lparr>is_rest := drop n (is_rest s)\<rparr>))"

definition unzigzag :: "nat \<Rightarrow> u64" where
  "unzigzag n = (if even n then of_nat (n div 2) else of_int (- int (n div 2) - 1))"

definition ref_string :: "istream \<Rightarrow> bool \<times> bytes \<times> istream" where
  "ref_string s = (case ref_number id s of (b, n, s) \<Rightarrow> if b then ref_take n s else ref_fail [] s)"

definition ref_skip :: "u32 \<Rightarrow> istream \<Rightarrow> bool \<times> bytes \<times> istream" where
  "ref_skip w s =
     (if w = 0 then ref_number (\<lambda>n. []) s else if w = 1 then ref_take 8 s else if w = 2 then ref_string s
      else if w = 5 then ref_take 4 s else ref_fail [] s)"

definition ref_pb :: "pb_item list pb_lib" where
  "ref_pb = \<lparr>c_ostream_from_buffer = (\<lambda>b. \<lparr>os_buf = b, os_max_size = length b, os_bytes_written = 0, os_errmsg = None\<rparr>),
     c_write = ref_put, c_encode_varint = (\<lambda>v. ref_put (varint (unat v))), c_encode_svarint = (\<lambda>v. ref_put (varint (zigzag v))),
     c_encode_string = (\<lambda>b. ref_put (varint (length b) @ b)), c_encode_fixed32 = ref_put, c_encode_fixed64 = ref_put,
     c_encode_tag = (\<lambda>w f. ref_put (varint (unat f * 8 + unat w))),
     c_istream_from_buffer = (\<lambda>b. \<lparr>is_rest = b, is_errmsg = None\<rparr>),
     c_read = ref_take, c_decode_varint = ref_number of_nat, c_decode_varint32 = ref_number of_nat, c_decode_svarint = ref_number unzigzag,
     c_decode_bool = ref_number (\<lambda>n. n \<noteq> 0), c_decode_fixed32 = ref_take 4, c_decode_fixed64 = ref_take 8,
     c_decode_tag = (\<lambda>s. if is_rest s = [] then (False, (0, 0, True), s) else ref_number (\<lambda>n. (of_nat (n mod 8), of_nat (n div 8), False)) s),
     c_skip_field = (\<lambda>w s. case ref_skip w s of (b, v, s) \<Rightarrow> (b, s)),
     c_make_string_substream = (\<lambda>s. case ref_string s of (b, v, s) \<Rightarrow> (b, \<lparr>is_rest = v, is_errmsg = None\<rparr>, s)),
     c_close_string_substream = (\<lambda>sub s. (True, s)), c_msgdesc = (\<lambda>d. \<lparr>md_field_count = 0, md_required_field_count = 0, md_largest_tag = 0\<rparr>),
     c_field_iter_begin = (\<lambda>d m. (False, \<lparr>it_tag = 0, it_data_size = 0, it_array_size = 0, it_type = 0, it_pos = 0\<rparr>)),
     c_field_iter_next = (\<lambda>it. (False, it)), c_field_iter_find = (\<lambda>t it. (False, it)), c_get_encoded_size = (\<lambda>d m. (True, length (wire m))),
     c_encode = (\<lambda>d m. ref_put (wire m)), c_decode = (\<lambda>d m s. (False, m, s))\<rparr>"

lemma ref_put_puts: "puts (ref_put bs) bs"
  by (auto simp: puts_def ref_put_def os_ok_def written_def blit_def)

lemma ref_uvarint_varint: "ref_uvarint (varint n @ rest) = Some (n, rest)"
proof (induction n rule: varint.induct)
  case (1 n)
  show ?case
  proof (cases "n < 128")
    case True
    then show ?thesis by (subst varint.simps) (simp add: unat_of_nat take_bit_nat_eq_self)
  next
    case False
    have "unat (word_of_nat m :: u8) = m" if "m < 256" for m using that by (simp add: unat_of_nat take_bit_nat_eq_self)
    then have u: "unat (word_of_nat (128 + n mod 128) :: u8) = 128 + n mod 128" by this simp
    show ?thesis using False 1 u by (subst varint.simps) simp
  qed
qed

lemma ref_number_gets: "v = f n \<Longrightarrow> gets (ref_number f) (varint n) v"
  by (auto simp: gets_def ref_number_def ref_uvarint_varint)

lemma ref_take_gets: "length w = n \<Longrightarrow> gets (ref_take n) w w"
  by (auto simp: gets_def ref_take_def)

lemma unzigzag_zigzag: "unzigzag (zigzag v) = v"
proof (cases "sint v < 0")
  case True
  then have n: "int (zigzag v) = 2 * (- sint v - 1) + 1" by (simp add: zigzag_def)
  then have "odd (int (zigzag v))" "int (zigzag v) div 2 = - sint v - 1" by presburger+
  then have "odd (zigzag v)" "int (zigzag v div 2) = - sint v - 1" by (simp_all add: zdiv_int)
  then show ?thesis by (simp add: unzigzag_def)
next
  case False
  then have n: "int (zigzag v) = 2 * sint v" by (simp add: zigzag_def)
  then have "even (int (zigzag v))" "int (zigzag v) div 2 = sint v" by presburger+
  then have e: "even (zigzag v)" "int (zigzag v div 2) = sint v" by (simp_all add: zdiv_int)
  have "(of_nat (zigzag v div 2) :: u64) = of_int (int (zigzag v div 2))" by simp
  then show ?thesis using e by (simp add: unzigzag_def)
qed

lemma wire_code_small: "unat (wire_code w) < 8"
  by (cases w) simp_all

lemma varint_nonempty: "varint n \<noteq> []"
  by (subst varint.simps) simp

interpretation ref_wire: wire_format ref_pb
proof
  show "os_ok (c_ostream_from_buffer ref_pb buf)" "os_max_size (c_ostream_from_buffer ref_pb buf) = length buf"
      "os_bytes_written (c_ostream_from_buffer ref_pb buf) = 0" "is_rest (c_istream_from_buffer ref_pb buf) = buf" for buf
    by (simp_all add: ref_pb_def os_ok_def)
  show "puts (c_write ref_pb bs) bs" "puts (c_encode_varint ref_pb v) (varint (unat v))" "puts (c_encode_svarint ref_pb v) (varint (zigzag v))"
      "puts (c_encode_string ref_pb bs) (varint (length bs) @ bs)" "puts (c_encode_fixed32 ref_pb bs) bs"
      "puts (c_encode_fixed64 ref_pb bs) bs" "puts (c_encode_tag ref_pb (wire_code w) fld) (varint (tag_number w fld))" for bs v w fld
    by (simp_all add: ref_pb_def ref_put_puts tag_number_def)
  show "gets (c_read ref_pb (length bs)) bs bs" "gets (c_decode_varint ref_pb) (varint (unat v)) v"
      "gets (c_decode_svarint ref_pb) (varint (zigzag v)) v" for bs v
    by (simp_all add: ref_pb_def ref_take_gets ref_number_gets unzigzag_zigzag)
  show "gets (c_decode_fixed32 ref_pb) w w" if "length w = 4" for w using that by (simp add: ref_pb_def ref_take_gets)
  show "gets (c_decode_fixed64 ref_pb) w w" if "length w = 8" for w using that by (simp add: ref_pb_def ref_take_gets)
  show "gets (c_decode_tag ref_pb) (varint (tag_number w fld)) (wire_code w, fld, False)" if "unat fld < 2 ^ 29" for w fld
  proof -
    have n: "tag_number w fld mod 8 = unat (wire_code w)" "tag_number w fld div 8 = unat fld"
      using wire_code_small [of w] by (simp_all add: tag_number_def)
    have "gets (ref_number (\<lambda>n. (of_nat (n mod 8), of_nat (n div 8), False))) (varint (tag_number w fld)) (wire_code w, fld, False)"
      using n by (intro ref_number_gets) simp
    then show ?thesis by (auto simp: gets_def ref_pb_def varint_nonempty)
  qed
  show "\<exists>v s'. c_decode_tag ref_pb s = (False, v, s')" if "is_rest s = []" for s using that by (auto simp: ref_pb_def)
qed

section \<open>Properties\<close>

text \<open>C38: Take a library that encodes as documented. A sequence of tags, numbers, signed numbers, strings, fixed and plain values written to a
  buffer: when it fits, every write succeeds, the encoded data is the wire format, and reading it gives the values back and ends at
  the end of the stream; when it does not fit, a write fails with a message, and the encoded data is a beginning of the wire
  format.\<close>

theorem nanopb_round_trip:
  assumes "wire_format lib" and "list_all item_ok is" and "buf \<noteq> []" and "wire is \<noteq> []"
  shows "\<exists>s r s'. output_from_buffer lib buf = Ok s \<and> write_items lib is s = (r, s') \<and>
    (if length (wire is) \<le> length buf
     then r = Ok () \<and> encoded_data s' = Ok (wire is) \<and>
       (\<exists>t t'. input_from_buffer lib (wire is) = Ok t \<and> read_items lib (map shape_of is) t = (Ok is, t') \<and> is_eof t')
     else (\<exists>m d. r = Err (InternalError m) \<and> encoded_data s' = Ok d \<and> prefix d (wire is)))"
proof -
  let ?s = "c_ostream_from_buffer lib buf" and ?t = "c_istream_from_buffer lib (wire is)"
  note B = wire_format.from_buffers [OF assms(1)]
  have w0: "written ?s = []" by (simp add: written_def B(3))
  obtain r s' where w: "write_items lib is ?s = (r, s')" "os_ok s'"
      "if length (wire is) \<le> length buf then r = Ok () \<and> written s' = wire is
       else (\<exists>m. r = Err (InternalError m)) \<and> prefix (written s') (wire is)"
    using wire_format.write_items_puts [OF assms(1,2) B(1), of buf] unfolding B(2,3) w0 append_Nil add_0 by (elim exE conjE)
  have e: "encoded_data s' = Ok (written s')" using w(2) by (auto simp: encoded_data_def bytes_written_def os_ok_def written_def slice_def)
  obtain t' where "read_items lib (map shape_of is) ?t = (Ok is, t')" "is_rest t' = []"
    using wire_format.read_items_gets [OF assms(1,2), of ?t "[]"] B(4) by auto
  then show ?thesis using w e assms(3,4) by (auto simp: output_from_buffer_def input_from_buffer_def is_eof_def bytes_left_def)
qed

theorem nanopb_round_trip_witness:
  "\<exists>s s' t t'. output_from_buffer ref_pb (replicate 12 0) = Ok s \<and>
     write_items ref_pb [Tag LengthDelimited 3, Str [7, 8], Num 300, Signed (- 2), Four [1, 2, 3, 4]] s = (Ok (), s') \<and>
     encoded_data s' = Ok [26, 2, 7, 8, 172, 2, 3, 1, 2, 3, 4] \<and> input_from_buffer ref_pb [26, 2, 7, 8, 172, 2, 3, 1, 2, 3, 4] = Ok t \<and>
     read_items ref_pb [A_Tag, A_Str, A_Num, A_Signed, A_Four] t = (Ok [Tag LengthDelimited 3, Str [7, 8], Num 300, Signed (- 2), Four [1, 2, 3, 4]], t')"
proof -
  let ?is = "[Tag LengthDelimited 3, Str [7, 8], Num 300, Signed (- 2), Four [1, 2, 3, 4]]"
  have w: "wire ?is = [26, 2, 7, 8, 172, 2, 3, 1, 2, 3, 4]"
    by (simp add: wire_def tag_number_def zigzag_def varint.simps)
  show ?thesis using nanopb_round_trip [OF ref_wire.wire_format_axioms, of ?is "replicate 12 0"] unfolding w by auto
qed

text \<open>
  At the end of a message \<open>read_tag\<close> answers with an error and never with \<open>None\<close>: the library reports the end of the stream together
  with a failure, and the flag is only looked at after a success.
\<close>

theorem read_tag_at_end:
  assumes "wire_format lib" and "is_rest s = []"
  shows "\<exists>m. fst (read_tag lib s) = Err (InternalError m)"
proof -
  obtain v s' where "c_decode_tag lib s = (False, v, s')" using wire_format.tag_at_end [OF assms] by blast
  then show ?thesis by (cases v) (auto simp: read_tag_def get_error_def)
qed

end
