(* ===== verification/Sbpf.thy ===== *)
theory Sbpf
  imports Rust_Std
begin

text \<open>
  Programs of \<open>ballet/sbpf/fd_sbpf/src/lib.rs\<close>: ELF headers, the buffers a program is loaded into, instructions. The C loader is the
  parameter \<open>sbpf_lib\<close>; it works on the memory that the Rust code owns, a set of address intervals. The locale
  \<open>sbpf_loader\<close> states its contract.
\<close>

section \<open>Model\<close>

datatype sbpf_error = InvalidElf | ElfParserError int | UnsupportedSbpfVersion | AllocationFailed | InvalidConfig |
  LoadFailed bytes | NullPointer | InvalidBuffer

record loader_config =
  elf_deploy_checks :: bool
  sbpf_min_version :: u32
  sbpf_max_version :: u32
  enable_symbol_and_section_labels :: bool

record c_loader_config =
  lc_elf_deploy_checks :: int
  lc_sbpf_min_version :: u32
  lc_sbpf_max_version :: u32
  lc_enable_labels :: int

record elf_info =
  ei_rodata_sz :: u32
  ei_rodata_footprint :: u32
  ei_text_off :: u32
  ei_text_cnt :: u32
  ei_entry_pc :: u32
  ei_sbpf_version :: u64

text \<open>The C struct of a program; \<open>text\<close> is an address.\<close>

record c_program =
  cp_entry_pc :: u64
  cp_text :: nat
  cp_text_sz :: u64
  cp_text_cnt :: u64
  cp_rodata_sz :: u64

record c_instr =
  opcode_raw :: u8
  dst_reg :: u8
  src_reg :: u8
  instr_offset :: u16
  instr_imm :: u32

type_synonym interval = "nat \<times> nat"

text \<open>The state of the loader and the intervals (address and size) that may be accessed.\<close>

record 's sbpf_sys =
  sb_state :: 's
  sb_owned :: "interval set"

record 's sbpf_lib =
  SBPF_V0 :: u32
  SBPF_V3 :: u32
  PARSER_ERR_FIRST :: int
  PARSER_ERR_LAST :: int
  ERR_UNSUPPORTED_VERSION :: int
  PROG_RODATA_ALIGN :: nat
  c_elf_peek :: "bytes \<Rightarrow> c_loader_config \<Rightarrow> int \<times> elf_info"
  c_program_footprint :: "elf_info \<Rightarrow> nat"
  c_program_align :: nat
  c_program_new :: "nat \<Rightarrow> elf_info \<Rightarrow> nat \<Rightarrow> 's sbpf_sys \<Rightarrow> (nat \<times> 's) option"
  c_program_load :: "nat \<Rightarrow> bytes \<Rightarrow> c_loader_config \<Rightarrow> 's sbpf_sys \<Rightarrow> (int \<times> 's) option"
  c_program_delete :: "nat \<Rightarrow> 's sbpf_sys \<Rightarrow> (nat \<times> 's) option"
  c_program_at :: "nat \<Rightarrow> 's \<Rightarrow> c_program option"
  c_words_at :: "nat \<Rightarrow> nat \<Rightarrow> 's sbpf_sys \<Rightarrow> u64 list option"
  c_sbpf_strerror :: "'s \<Rightarrow> bytes"
  c_instr_of :: "u64 \<Rightarrow> c_instr"
  c_ulong_of :: "c_instr \<Rightarrow> u64"
  c_is_function_start :: "c_instr \<Rightarrow> int"
  c_is_function_end :: "c_instr \<Rightarrow> int"

definition loader_config_default :: "'s sbpf_lib \<Rightarrow> loader_config" where
  "loader_config_default lib = \<lparr>elf_deploy_checks = True, sbpf_min_version = SBPF_V0 lib, sbpf_max_version = SBPF_V3 lib,
     enable_symbol_and_section_labels = True\<rparr>"

definition config_sys :: "loader_config \<Rightarrow> c_loader_config" where
  "config_sys c = \<lparr>lc_elf_deploy_checks = (if elf_deploy_checks c then 1 else 0), lc_sbpf_min_version = sbpf_min_version c,
     lc_sbpf_max_version = sbpf_max_version c, lc_enable_labels = (if enable_symbol_and_section_labels c then 1 else 0)\<rparr>"

definition elf_parse :: "'s sbpf_lib \<Rightarrow> bytes \<Rightarrow> loader_config \<Rightarrow> (elf_info, sbpf_error) res" where
  "elf_parse lib elf_data config =
     (case c_elf_peek lib elf_data (config_sys config) of
        (result, info) \<Rightarrow>
          if result = 0 then Ok info
          else if PARSER_ERR_FIRST lib \<le> result \<and> result \<le> PARSER_ERR_LAST lib then Err (ElfParserError result)
          else if result = ERR_UNSUPPORTED_VERSION lib then Err UnsupportedSbpfVersion
          else Err InvalidElf)"

definition elf_program_footprint :: "'s sbpf_lib \<Rightarrow> elf_info \<Rightarrow> nat" where
  "elf_program_footprint lib info = c_program_footprint lib info"

definition elf_rodata_size :: "elf_info \<Rightarrow> u32" where "elf_rodata_size info = ei_rodata_sz info"

definition elf_rodata_footprint :: "elf_info \<Rightarrow> u32" where "elf_rodata_footprint info = ei_rodata_footprint info"

definition elf_text_offset :: "elf_info \<Rightarrow> u32" where "elf_text_offset info = ei_text_off info"

definition elf_text_count :: "elf_info \<Rightarrow> u32" where "elf_text_count info = ei_text_cnt info"

definition elf_entry_pc :: "elf_info \<Rightarrow> u32" where "elf_entry_pc info = ei_entry_pc info"

definition elf_sbpf_version :: "elf_info \<Rightarrow> u64" where "elf_sbpf_version info = ei_sbpf_version info"

text \<open>A loaded program with the intervals of its two vectors; an empty vector has none.\<close>

record sbpf_program =
  sp_program :: nat
  sp_program_mem :: interval
  sp_rodata :: "interval option"

definition program_align :: "'s sbpf_lib \<Rightarrow> nat" where "program_align lib = c_program_align lib"

definition rodata_align :: "'s sbpf_lib \<Rightarrow> nat" where "rodata_align lib = PROG_RODATA_ALIGN lib"

text \<open>\<open>ptr.add(ptr.align_offset(align))\<close>: the first multiple of the alignment that is not below the address.\<close>

definition aligned_from :: "nat \<Rightarrow> nat \<Rightarrow> nat" where
  "aligned_from p align = (p + align - 1) div align * align"

type_synonym ('a, 's) sbpf_call = "'s sbpf_sys \<Rightarrow> ('a, sbpf_error) res \<times> 's sbpf_sys"

definition own :: "interval \<Rightarrow> 's sbpf_sys \<Rightarrow> 's sbpf_sys" where
  "own i w = w\<lparr>sb_owned := insert i (sb_owned w)\<rparr>"

text \<open>The vectors of a program are freed when it goes, in the order of its fields.\<close>

definition disown :: "interval set \<Rightarrow> 's sbpf_sys \<Rightarrow> 's sbpf_sys" where
  "disown is w = w\<lparr>sb_owned := sb_owned w - is\<rparr>"

definition program_intervals :: "sbpf_program \<Rightarrow> interval set" where
  "program_intervals p = insert (sp_program_mem p) (set_option (sp_rodata p))"

definition program_drop :: "'s sbpf_lib \<Rightarrow> sbpf_program \<Rightarrow> (unit, 's) sbpf_call" where
  "program_drop lib p w =
     (case c_program_delete lib (sp_program p) w of
        None \<Rightarrow> (Panic, w)
      | Some (_, s) \<Rightarrow> (Ok (), disown (program_intervals p) (w\<lparr>sb_state := s\<rparr>)))"

text \<open>
  The allocator of \<open>program_load\<close> is the function \<open>at\<close>: the address of a new vector of the size given, outside the intervals that are owned.
\<close>

text \<open>What follows once the vectors are there: the program is created at the aligned addresses in them, and loaded.\<close>

definition load_into :: "'s sbpf_lib \<Rightarrow> bytes \<Rightarrow> loader_config \<Rightarrow> elf_info \<Rightarrow> interval \<Rightarrow> interval option \<Rightarrow> (sbpf_program, 's) sbpf_call" where
  "load_into lib elf_data config info program_mem rodata w =
     (let aligned_ptr = aligned_from (fst program_mem) (program_align lib);
          rodata_ptr = (case rodata of None \<Rightarrow> 0 | Some (r, n) \<Rightarrow> aligned_from r (rodata_align lib))
      in case c_program_new lib aligned_ptr info rodata_ptr w of
           None \<Rightarrow> (Panic, w)
         | Some (program, s) \<Rightarrow>
             if program = 0 then (Err NullPointer, disown (insert program_mem (set_option rodata)) (w\<lparr>sb_state := s\<rparr>))
             else
               let result = \<lparr>sp_program = program, sp_program_mem = program_mem, sp_rodata = rodata\<rparr>
               in case c_program_load lib program elf_data (config_sys config) (w\<lparr>sb_state := s\<rparr>) of
                    None \<Rightarrow> (Panic, w\<lparr>sb_state := s\<rparr>)
                  | Some (load_result, s) \<Rightarrow>
                      if load_result \<noteq> 0 then
                        (case program_drop lib result (w\<lparr>sb_state := s\<rparr>) of
                           (Ok _, w) \<Rightarrow> (Err (LoadFailed (from_utf8_lossy (c_sbpf_strerror lib s))), w)
                         | (Err e, w) \<Rightarrow> (Err e, w)
                         | (Panic, w) \<Rightarrow> (Panic, w))
                      else (Ok result, w\<lparr>sb_state := s\<rparr>))"

definition program_load :: "'s sbpf_lib \<Rightarrow> (interval set \<Rightarrow> nat \<Rightarrow> nat) \<Rightarrow> bytes \<Rightarrow> loader_config \<Rightarrow> (sbpf_program, 's) sbpf_call" where
  "program_load lib at elf_data config w =
     (case elf_parse lib elf_data config of
        Err e \<Rightarrow> (Err e, w)
      | Panic \<Rightarrow> (Panic, w)
      | Ok info \<Rightarrow>
          let footprint = elf_program_footprint lib info; align = program_align lib
          in if footprint = 0 then (Err InvalidBuffer, w)
             else
               let program_mem = (at (sb_owned w) (footprint + align), footprint + align);
                   w = own program_mem w;
                   rodata_footprint = unat (elf_rodata_footprint info);
                   rodata = (if rodata_footprint > 0
                     then Some (at (sb_owned w) (rodata_footprint + rodata_align lib), rodata_footprint + rodata_align lib) else None);
                   w = (case rodata of None \<Rightarrow> w | Some i \<Rightarrow> own i w)
               in load_into lib elf_data config info program_mem rodata w)"

definition program_field :: "'s sbpf_lib \<Rightarrow> sbpf_program \<Rightarrow> (c_program \<Rightarrow> 'a) \<Rightarrow> 's sbpf_sys \<Rightarrow> ('a, sbpf_error) res" where
  "program_field lib p f w = (case c_program_at lib (sp_program p) (sb_state w) of None \<Rightarrow> Panic | Some c \<Rightarrow> Ok (f c))"

definition entry_pc :: "'s sbpf_lib \<Rightarrow> sbpf_program \<Rightarrow> 's sbpf_sys \<Rightarrow> (u64, sbpf_error) res" where
  "entry_pc lib p = program_field lib p cp_entry_pc"

definition text_size :: "'s sbpf_lib \<Rightarrow> sbpf_program \<Rightarrow> 's sbpf_sys \<Rightarrow> (u64, sbpf_error) res" where
  "text_size lib p = program_field lib p cp_text_sz"

definition text_count :: "'s sbpf_lib \<Rightarrow> sbpf_program \<Rightarrow> 's sbpf_sys \<Rightarrow> (u64, sbpf_error) res" where
  "text_count lib p = program_field lib p cp_text_cnt"

definition rodata_size :: "'s sbpf_lib \<Rightarrow> sbpf_program \<Rightarrow> 's sbpf_sys \<Rightarrow> (u64, sbpf_error) res" where
  "rodata_size lib p = program_field lib p cp_rodata_sz"

text \<open>A slice of words needs an aligned address and owned memory behind it.\<close>

definition text_instructions :: "'s sbpf_lib \<Rightarrow> sbpf_program \<Rightarrow> 's sbpf_sys \<Rightarrow> (u64 list, sbpf_error) res" where
  "text_instructions lib p w =
     res_bind (program_field lib p (\<lambda>c. (cp_text c, cp_text_cnt c)) w) (\<lambda>(text_ptr, text_cnt).
       if text_ptr = 0 \<or> text_cnt = 0 then Ok []
       else if text_ptr mod 8 \<noteq> 0 then Panic
       else case c_words_at lib text_ptr (unat text_cnt) w of None \<Rightarrow> Panic | Some ws \<Rightarrow> Ok ws)"

subsection \<open>Instructions\<close>

definition ixn_from_raw :: "'s sbpf_lib \<Rightarrow> u64 \<Rightarrow> c_instr" where "ixn_from_raw lib raw = c_instr_of lib raw"

definition ixn_to_raw :: "'s sbpf_lib \<Rightarrow> c_instr \<Rightarrow> u64" where "ixn_to_raw lib i = c_ulong_of lib i"

definition is_function_start :: "'s sbpf_lib \<Rightarrow> c_instr \<Rightarrow> bool" where
  "is_function_start lib i \<longleftrightarrow> c_is_function_start lib i \<noteq> 0"

definition is_function_end :: "'s sbpf_lib \<Rightarrow> c_instr \<Rightarrow> bool" where
  "is_function_end lib i \<longleftrightarrow> c_is_function_end lib i \<noteq> 0"

definition ixn_opcode :: "c_instr \<Rightarrow> u8" where "ixn_opcode i = opcode_raw i"

definition ixn_dst :: "c_instr \<Rightarrow> u8" where "ixn_dst i = dst_reg i"

definition ixn_src :: "c_instr \<Rightarrow> u8" where "ixn_src i = src_reg i"

definition ixn_off :: "c_instr \<Rightarrow> u16" where "ixn_off i = instr_offset i"

definition ixn_imm :: "c_instr \<Rightarrow> u32" where "ixn_imm i = instr_imm i"

text \<open>Equality of instructions is that of their raw words.\<close>

definition ixn_eq :: "'s sbpf_lib \<Rightarrow> c_instr \<Rightarrow> c_instr \<Rightarrow> bool" where
  "ixn_eq lib a b \<longleftrightarrow> ixn_to_raw lib a = ixn_to_raw lib b"

section \<open>Laws of the loader\<close>

text \<open>\<open>inside p n w\<close>: the \<open>n\<close> bytes from \<open>p\<close> lie in one owned interval.\<close>

definition inside :: "nat \<Rightarrow> nat \<Rightarrow> interval set \<Rightarrow> bool" where
  "inside p n owned \<longleftrightarrow> (\<exists>(a, k) \<in> owned. a \<le> p \<and> p + n \<le> a + k)"

text \<open>
  \<open>prog p r info w\<close>: the program \<open>p\<close> over the read-only data at \<open>r\<close>. It is created in aligned memory of its footprint with read-only memory
  of the footprint of the header, and used as long as both are owned. Its text is null, or lies in the read-only data at a multiple of
  eight bytes.
\<close>

locale sbpf_loader =
  fixes lib :: "'s sbpf_lib" and prog :: "nat \<Rightarrow> nat \<Rightarrow> elf_info \<Rightarrow> 's \<Rightarrow> bool"
  assumes aligns: "0 < c_program_align lib" "0 < PROG_RODATA_ALIGN lib" "8 dvd PROG_RODATA_ALIGN lib"
    and new_law: "m mod c_program_align lib = 0 \<Longrightarrow> inside m (c_program_footprint lib info) (sb_owned w) \<Longrightarrow>
      (r = 0 \<and> ei_rodata_footprint info = 0 \<or> r mod PROG_RODATA_ALIGN lib = 0 \<and> inside r (unat (ei_rodata_footprint info)) (sb_owned w)) \<Longrightarrow>
      \<exists>p s. c_program_new lib m info r w = Some (p, s) \<and> (p \<noteq> 0 \<longrightarrow> p = m \<and> prog m r info s)"
    and load_law: "prog m r info (sb_state w) \<Longrightarrow> inside m (c_program_footprint lib info) (sb_owned w) \<Longrightarrow>
      (r = 0 \<or> inside r (unat (ei_rodata_footprint info)) (sb_owned w)) \<Longrightarrow> c_elf_peek lib dat cfg = (0, info) \<Longrightarrow>
      \<exists>c s. c_program_load lib m dat cfg w = Some (c, s) \<and> prog m r info s"
    and delete_law: "prog m r info (sb_state w) \<Longrightarrow> inside m (c_program_footprint lib info) (sb_owned w) \<Longrightarrow>
      \<exists>p s. c_program_delete lib m w = Some (p, s)"
    and text_law: "prog m r info s \<Longrightarrow> \<exists>c. c_program_at lib m s = Some c \<and>
      (cp_text c = 0 \<or> cp_text_cnt c = 0 \<or> r \<noteq> 0 \<and> (\<exists>off. cp_text c = r + 8 * off \<and> 8 * off + 8 * unat (cp_text_cnt c) \<le> unat (ei_rodata_footprint info)))"
    and words_law: "inside p (8 * n) (sb_owned w) \<Longrightarrow> \<exists>ws. c_words_at lib p n w = Some ws \<and> length ws = n"

lemma aligned_from_bounds:
  assumes "0 < align"
  shows "p \<le> aligned_from p align" "aligned_from p align < p + align" "aligned_from p align mod align = 0"
proof -
  have "(p + align - 1) div align * align + (p + align - 1) mod align = p + align - 1" by (rule div_mult_mod_eq)
  moreover have "(p + align - 1) mod align < align" using assms by simp
  ultimately show "p \<le> aligned_from p align" "aligned_from p align < p + align"
    using assms unfolding aligned_from_def by linarith+
  show "aligned_from p align mod align = 0" by (simp add: aligned_from_def)
qed

lemma inside_aligned: "0 < align \<Longrightarrow> (a, n + align) \<in> owned \<Longrightarrow> inside (aligned_from a align) n owned"
  using aligned_from_bounds(1,2) [of align a] by (force simp: inside_def)

lemma inside_mono: "inside p n owned \<Longrightarrow> owned \<subseteq> owned' \<Longrightarrow> inside p n owned'"
  by (auto simp: inside_def)

lemma inside_part:
  assumes "inside p n owned" and "p \<le> q" and "q + k \<le> p + n"
  shows "inside q k owned"
proof -
  obtain a m where "(a, m) \<in> owned" "a \<le> p" "p + n \<le> a + m" using assms(1) by (auto simp: inside_def)
  then show ?thesis using assms(2,3) unfolding inside_def by (intro bexI [of _ "(a, m)"]) auto
qed

text \<open>An allocator that gives new memory.\<close>

definition allocator :: "(interval set \<Rightarrow> nat \<Rightarrow> nat) \<Rightarrow> bool" where
  "allocator at \<longleftrightarrow> (\<forall>owned n. finite owned \<longrightarrow> 0 < at owned n \<and> (\<forall>k. (at owned n, k) \<notin> owned))"

text \<open>What a loaded program relies on.\<close>

definition program_ok :: "'s sbpf_lib \<Rightarrow> (nat \<Rightarrow> nat \<Rightarrow> elf_info \<Rightarrow> 's \<Rightarrow> bool) \<Rightarrow> sbpf_program \<Rightarrow> 's sbpf_sys \<Rightarrow> bool" where
  "program_ok lib prog p w \<longleftrightarrow> (\<exists>r info. prog (sp_program p) r info (sb_state w) \<and>
     inside (sp_program p) (c_program_footprint lib info) (sb_owned w) \<and>
     (r = 0 \<or> r mod PROG_RODATA_ALIGN lib = 0 \<and> inside r (unat (ei_rodata_footprint info)) (sb_owned w)))"

context sbpf_loader
begin

lemma drop_program_ok: "program_ok lib prog p w \<Longrightarrow> \<exists>s. program_drop lib p w = (Ok (), disown (program_intervals p) (w\<lparr>sb_state := s\<rparr>))"
  using delete_law by (fastforce simp: program_ok_def program_drop_def)

lemma text_ok:
  assumes "program_ok lib prog p w"
  shows "\<exists>c ws. c_program_at lib (sp_program p) (sb_state w) = Some c \<and> text_instructions lib p w = Ok ws \<and>
    (if cp_text c = 0 then ws = [] else length ws = unat (cp_text_cnt c))"
proof -
  obtain r info where p: "prog (sp_program p) r info (sb_state w)"
      "r = 0 \<or> r mod PROG_RODATA_ALIGN lib = 0 \<and> inside r (unat (ei_rodata_footprint info)) (sb_owned w)"
    using assms by (auto simp: program_ok_def)
  obtain c where c: "c_program_at lib (sp_program p) (sb_state w) = Some c"
      "cp_text c = 0 \<or> cp_text_cnt c = 0 \<or> r \<noteq> 0 \<and> (\<exists>off. cp_text c = r + 8 * off \<and> 8 * off + 8 * unat (cp_text_cnt c) \<le> unat (ei_rodata_footprint info))"
    using text_law [OF p(1)] by blast
  have f: "program_field lib p f w = Ok (f c)" for f :: "c_program \<Rightarrow> nat \<times> u64" using c(1) by (simp add: program_field_def)
  show ?thesis
  proof (cases "cp_text c = 0 \<or> cp_text_cnt c = 0")
    case True
    then show ?thesis using c(1) by (auto simp: text_instructions_def f)
  next
    case False
    then obtain off where off: "cp_text c = r + 8 * off" "8 * off + 8 * unat (cp_text_cnt c) \<le> unat (ei_rodata_footprint info)" "r \<noteq> 0"
      using c(2) by auto
    have r: "r mod PROG_RODATA_ALIGN lib = 0" "inside r (unat (ei_rodata_footprint info)) (sb_owned w)" using p(2) off(3) by auto
    have "r mod 8 = 0" using r(1) aligns(3) by (meson dvd_trans mod_eq_0_iff_dvd)
    then have m: "cp_text c mod 8 = 0" using off(1) by presburger
    have "inside (cp_text c) (8 * unat (cp_text_cnt c)) (sb_owned w)" using off by (intro inside_part [OF r(2)]) auto
    then obtain ws where "c_words_at lib (cp_text c) (unat (cp_text_cnt c)) w = Some ws" "length ws = unat (cp_text_cnt c)"
      using words_law by blast
    then show ?thesis using c(1) False m by (auto simp: text_instructions_def f)
  qed
qed

lemma load_ok:
  assumes at: "allocator at" and fin: "finite (sb_owned w)" and load: "program_load lib at dat cfg w = (r, w')"
  shows "r \<noteq> Panic \<and> (\<forall>e. r = Err e \<longrightarrow> sb_owned w' = sb_owned w) \<and>
    (\<forall>p. r = Ok p \<longrightarrow> program_ok lib prog p w' \<and> sb_owned w' = sb_owned w \<union> program_intervals p \<and> sb_owned w \<inter> program_intervals p = {})"
proof (cases "elf_parse lib dat cfg")
  case (Ok info)
  have peek: "c_elf_peek lib dat (config_sys cfg) = (0, info)" using Ok by (auto simp: elf_parse_def split: prod.splits if_splits)
  let ?fp = "c_program_footprint lib info" and ?al = "c_program_align lib" and ?rf = "unat (ei_rodata_footprint info)" and ?ra = "PROG_RODATA_ALIGN lib"
  show ?thesis
  proof (cases "?fp = 0")
    case True
    then show ?thesis using load Ok by (auto simp: program_load_def elf_program_footprint_def Let_def)
  next
    case fp: False
    define pm where "pm = (at (sb_owned w) (?fp + ?al), ?fp + ?al)"
    define m where "m = aligned_from (fst pm) ?al"
    define w1 where "w1 = own pm w"
    define ro where "ro = (if ?rf > 0 then Some (at (sb_owned w1) (?rf + ?ra), ?rf + ?ra) else None)"
    define rp where "rp = (case ro of None \<Rightarrow> 0 | Some (x, n) \<Rightarrow> aligned_from x ?ra)"
    define w2 where "w2 = (case ro of None \<Rightarrow> w1 | Some i \<Rightarrow> own i w1)"
    note defs = pm_def m_def w1_def ro_def rp_def w2_def
    have o2: "sb_owned w2 = sb_owned w \<union> insert pm (set_option ro)" by (cases ro) (auto simp: w2_def w1_def own_def)
    have new: "sb_owned w \<inter> insert pm (set_option ro) = {}"
      using at fin by (auto simp: allocator_def pm_def ro_def w1_def own_def split: if_splits)
    have gone: "sb_owned w2 - insert pm (set_option ro) = sb_owned w" using o2 new by blast
    have minside: "inside m ?fp (sb_owned w2)" unfolding m_def
      by (rule inside_aligned) (use aligns(1) in \<open>auto simp: o2 pm_def\<close>)
    have rin: "rp = 0 \<and> ei_rodata_footprint info = 0 \<or> rp mod ?ra = 0 \<and> inside rp ?rf (sb_owned w2)"
    proof (cases "?rf > 0")
      case True
      then have ro': "ro = Some (at (sb_owned w1) (?rf + ?ra), ?rf + ?ra)" by (simp add: ro_def)
      then have "inside rp ?rf (sb_owned w2)" using aligns(2) by (auto simp: rp_def o2 intro: inside_aligned)
      then show ?thesis using ro' aligned_from_bounds(3) [OF aligns(2)] by (simp add: rp_def)
    next
      case False
      then show ?thesis by (simp add: rp_def ro_def unat_eq_zero)
    qed
    have al: "m mod ?al = 0" using aligned_from_bounds(3) [OF aligns(1)] by (simp add: m_def)
    obtain p s where n: "c_program_new lib m info rp w2 = Some (p, s)" "p \<noteq> 0 \<longrightarrow> p = m \<and> prog m rp info s"
      using new_law [OF al minside rin] by (elim exE conjE)
    have "program_load lib at dat cfg w = load_into lib dat cfg info pm ro w2"
      using Ok fp by (simp add: program_load_def elf_program_footprint_def program_align_def elf_rodata_footprint_def rodata_align_def Let_def ro_def w2_def
        flip: pm_def w1_def)
    then have step: "load_into lib dat cfg info pm ro w2 = (r, w')" using load by simp
    have n': "c_program_new lib (aligned_from (fst pm) (program_align lib)) info
        (case ro of None \<Rightarrow> 0 | Some (r, n) \<Rightarrow> aligned_from r (rodata_align lib)) w2 = Some (p, s)"
      using n(1) unfolding m_def rp_def program_align_def rodata_align_def .
    show ?thesis
    proof (cases "p = 0")
      case True
      then have "r = Err NullPointer" "w' = disown (insert pm (set_option ro)) (w2\<lparr>sb_state := s\<rparr>)"
        using step unfolding load_into_def Let_def n' by simp_all
      then show ?thesis using gone by (simp add: disown_def)
    next
      case False
      then have p: "p = m" "prog m rp info s" using n(2) by auto
      let ?P = "\<lparr>sp_program = p, sp_program_mem = pm, sp_rodata = ro\<rparr>"
      have rin': "rp = 0 \<or> inside rp ?rf (sb_owned w2)" using rin by auto
      obtain c s2 where l: "c_program_load lib m dat (config_sys cfg) (w2\<lparr>sb_state := s\<rparr>) = Some (c, s2)" "prog m rp info s2"
        using load_law [of m rp info "w2\<lparr>sb_state := s\<rparr>" dat "config_sys cfg"] p(2) minside rin' peek by auto
      have ok: "program_ok lib prog ?P (w2\<lparr>sb_state := s2\<rparr>)" using l(2) p(1) minside rin
        unfolding program_ok_def by (intro exI [of _ rp] exI [of _ info]) auto
      obtain s3 where d: "program_drop lib ?P (w2\<lparr>sb_state := s2\<rparr>) = (Ok (), disown (program_intervals ?P) (w2\<lparr>sb_state := s2\<rparr>\<lparr>sb_state := s3\<rparr>))"
        using drop_program_ok [OF ok] by blast
      have i: "program_intervals ?P = insert pm (set_option ro)" by (simp add: program_intervals_def)
      show ?thesis
      proof (cases "c = 0")
        case True
        then have "r = Ok ?P" "w' = w2\<lparr>sb_state := s2\<rparr>" using step False l(1) p(1) unfolding load_into_def Let_def n' by simp_all
        then show ?thesis using ok i o2 new by auto
      next
        case c: False
        then have "(\<exists>m. r = Err (LoadFailed m))" "w' = disown (program_intervals ?P) (w2\<lparr>sb_state := s3\<rparr>)"
          using step False c l(1) p(1) d unfolding load_into_def Let_def n' by auto
        then show ?thesis using i gone by (auto simp: disown_def)
      qed
    qed
  qed
next
  case (Err e)
  then show ?thesis using load by (auto simp: program_load_def)
next
  case Panic
  then show ?thesis by (auto simp: elf_parse_def split: prod.splits if_splits)
qed

end

section \<open>A loader that keeps the laws\<close>

text \<open>
  It takes any data that is not empty for a program that is text from its beginning; the state maps a program to its read-only data. Of
  the memory only the extent matters.
\<close>

type_synonym flat_state = "nat \<Rightarrow> (nat \<times> elf_info) option"

definition flat_info :: "bytes \<Rightarrow> elf_info" where
  "flat_info dat = \<lparr>ei_rodata_sz = of_nat (length dat), ei_rodata_footprint = of_nat (length dat), ei_text_off = 0,
     ei_text_cnt = of_nat (length dat div 8), ei_entry_pc = 0, ei_sbpf_version = 0\<rparr>"

definition flat_lib :: "flat_state sbpf_lib" where
  "flat_lib = \<lparr>SBPF_V0 = 0, SBPF_V3 = 3, PARSER_ERR_FIRST = 1, PARSER_ERR_LAST = 20, ERR_UNSUPPORTED_VERSION = 35, PROG_RODATA_ALIGN = 8,
     c_elf_peek = (\<lambda>dat cfg. (if dat = [] then 1 else 0, flat_info dat)), c_program_footprint = (\<lambda>info. 64), c_program_align = 32,
     c_program_new = (\<lambda>m info r w. if inside m 64 (sb_owned w) then Some (m, (sb_state w)(m \<mapsto> (r, info))) else None),
     c_program_load = (\<lambda>m dat cfg w. if sb_state w m = None then None else Some (if lc_elf_deploy_checks cfg = 1 \<and> length dat mod 8 \<noteq> 0 then -1 else 0, sb_state w)),
     c_program_delete = (\<lambda>m w. if sb_state w m = None then None else Some (m, (sb_state w)(m := None))),
     c_program_at = (\<lambda>m s. case s m of None \<Rightarrow> None | Some (r, info) \<Rightarrow>
        Some \<lparr>cp_entry_pc = ucast (ei_entry_pc info), cp_text = r, cp_text_sz = of_nat (8 * (unat (ei_rodata_footprint info) div 8)),
              cp_text_cnt = (if r = 0 then 0 else of_nat (unat (ei_rodata_footprint info) div 8)), cp_rodata_sz = ucast (ei_rodata_sz info)\<rparr>),
     c_words_at = (\<lambda>p n w. if inside p (8 * n) (sb_owned w) then Some (replicate n 0) else None),
     c_sbpf_strerror = (\<lambda>s. ascii ''bad program''),
     c_instr_of = (\<lambda>x. \<lparr>opcode_raw = ucast x, dst_reg = of_nat (unat x div 2 ^ 8 mod 16), src_reg = of_nat (unat x div 2 ^ 12 mod 16),
        instr_offset = of_nat (unat x div 2 ^ 16), instr_imm = of_nat (unat x div 2 ^ 32)\<rparr>),
     c_ulong_of = (\<lambda>i. ucast (opcode_raw i) + ucast (dst_reg i) * 2 ^ 8 + ucast (src_reg i) * 2 ^ 12 + ucast (instr_offset i) * 2 ^ 16 + ucast (instr_imm i) * 2 ^ 32),
     c_is_function_start = (\<lambda>i. if opcode_raw i = 7 \<and> dst_reg i = 10 then 1 else 0),
     c_is_function_end = (\<lambda>i. if opcode_raw i = 5 \<or> opcode_raw i = 0x9d then 1 else 0)\<rparr>"

definition flat_prog :: "nat \<Rightarrow> nat \<Rightarrow> elf_info \<Rightarrow> flat_state \<Rightarrow> bool" where
  "flat_prog m r info s \<longleftrightarrow> s m = Some (r, info)"

interpretation flat_loader: sbpf_loader flat_lib flat_prog
proof
  show "0 < c_program_align flat_lib" "0 < PROG_RODATA_ALIGN flat_lib" "8 dvd PROG_RODATA_ALIGN flat_lib" by (simp_all add: flat_lib_def)
  show "\<exists>p s. c_program_new flat_lib m info r w = Some (p, s) \<and> (p \<noteq> 0 \<longrightarrow> p = m \<and> flat_prog m r info s)"
    if "inside m (c_program_footprint flat_lib info) (sb_owned w)" for m info r and w :: "flat_state sbpf_sys"
    using that by (simp add: flat_lib_def flat_prog_def)
  show "\<exists>c s. c_program_load flat_lib m dat cfg w = Some (c, s) \<and> flat_prog m r info s" if "flat_prog m r info (sb_state w)" for m r info dat cfg w
    using that by (simp add: flat_lib_def flat_prog_def)
  show "\<exists>p s. c_program_delete flat_lib m w = Some (p, s)" if "flat_prog m r info (sb_state w)" for m r info w
    using that by (simp add: flat_lib_def flat_prog_def)
  show "\<exists>ws. c_words_at flat_lib p n w = Some ws \<and> length ws = n" if "inside p (8 * n) (sb_owned w)" for p n w
    using that by (simp add: flat_lib_def)
  show "\<exists>c. c_program_at flat_lib m s = Some c \<and>
      (cp_text c = 0 \<or> cp_text_cnt c = 0 \<or> r \<noteq> 0 \<and> (\<exists>off. cp_text c = r + 8 * off \<and> 8 * off + 8 * unat (cp_text_cnt c) \<le> unat (ei_rodata_footprint info)))"
    if "flat_prog m r info s" for m r info s
  proof -
    have "unat (ei_rodata_footprint info) < 2 ^ 32" by (rule order.strict_trans2 [OF unsigned_less]) simp
    then have "unat (of_nat (unat (ei_rodata_footprint info) div 8) :: u64) = unat (ei_rodata_footprint info) div 8"
      by (simp add: unat_of_nat take_bit_nat_eq_self)
    then show ?thesis using that by (auto simp: flat_lib_def flat_prog_def intro!: exI [of _ 0])
  qed
qed

section \<open>Properties\<close>

text \<open>C39: Take a loader that behaves as documented and an allocator that gives new memory. Loading a program stays within the contract of C: the
  memory it is created in is aligned, and together with the read-only memory inside the two vectors that the
  code owns. It ends with a program or with an error after which nothing more is owned than before. The instructions of a loaded program
  are an aligned slice inside owned memory, as long as the program says, and dropping it gives back exactly its
  two vectors.\<close>

theorem sbpf_load_safe:
  assumes "sbpf_loader lib prog" and "allocator at" and "finite (sb_owned w)" and "program_load lib at dat cfg w = (r, w')"
  shows "r \<noteq> Panic \<and> (\<forall>e. r = Err e \<longrightarrow> sb_owned w' = sb_owned w) \<and>
    (\<forall>p. r = Ok p \<longrightarrow>
      (\<exists>ws. text_instructions lib p w' = Ok ws \<and> (ws \<noteq> [] \<longrightarrow> text_count lib p w' = Ok (of_nat (length ws)))) \<and>
      (\<exists>w''. program_drop lib p w' = (Ok (), w'') \<and> sb_owned w'' = sb_owned w))"
proof -
  note L = sbpf_loader.load_ok [OF assms]
  have "(\<exists>ws. text_instructions lib p w' = Ok ws \<and> (ws \<noteq> [] \<longrightarrow> text_count lib p w' = Ok (of_nat (length ws)))) \<and>
      (\<exists>w''. program_drop lib p w' = (Ok (), w'') \<and> sb_owned w'' = sb_owned w)" if "r = Ok p" for p
  proof -
    have p: "program_ok lib prog p w'" "sb_owned w' = sb_owned w \<union> program_intervals p" "sb_owned w \<inter> program_intervals p = {}"
      using L that by auto
    obtain c ws where "c_program_at lib (sp_program p) (sb_state w') = Some c" "text_instructions lib p w' = Ok ws"
        "if cp_text c = 0 then ws = [] else length ws = unat (cp_text_cnt c)"
      using sbpf_loader.text_ok [OF assms(1) p(1)] by blast
    moreover obtain s where "program_drop lib p w' = (Ok (), disown (program_intervals p) (w'\<lparr>sb_state := s\<rparr>))"
      using sbpf_loader.drop_program_ok [OF assms(1) p(1)] by blast
    moreover have "sb_owned w' - program_intervals p = sb_owned w" using p(2,3) by blast
    ultimately show ?thesis by (auto simp: text_count_def program_field_def disown_def split: if_splits)
  qed
  then show ?thesis using L by blast
qed

text \<open>The memory behind all that is owned.\<close>

definition bump_at :: "interval set \<Rightarrow> nat \<Rightarrow> nat" where
  "bump_at owned n = Suc (Max (insert 0 ((\<lambda>(a, k). a + k) ` owned)))"

lemma bump_allocator: "allocator bump_at"
proof -
  have "(bump_at owned n, k) \<notin> owned" if "finite owned" for owned n k
  proof
    assume "(bump_at owned n, k) \<in> owned"
    then have "bump_at owned n + k \<in> insert 0 ((\<lambda>(a, k). a + k) ` owned)" by force
    then have "bump_at owned n + k \<le> Max (insert 0 ((\<lambda>(a, k). a + k) ` owned))" using that by (intro Max_ge) auto
    then show False by (simp add: bump_at_def)
  qed
  then show ?thesis by (simp add: allocator_def bump_at_def)
qed

theorem sbpf_load_safe_witness:
  "\<exists>p w' ws w''. program_load flat_lib bump_at [1, 2, 3, 4, 5, 6, 7, 8] (loader_config_default flat_lib)
       \<lparr>sb_state = (\<lambda>_. None), sb_owned = {}\<rparr> = (Ok p, w') \<and>
     text_instructions flat_lib p w' = Ok ws \<and> program_drop flat_lib p w' = (Ok (), w'') \<and> sb_owned w'' = {}"
proof -
  let ?w = "\<lparr>sb_state = (\<lambda>_. None), sb_owned = {}\<rparr> :: flat_state sbpf_sys"
  let ?load = "program_load flat_lib bump_at [1, 2, 3, 4, 5, 6, 7, 8] (loader_config_default flat_lib) ?w"
  obtain r w' where l: "?load = (r, w')" by fastforce
  have a: "aligned_from 1 32 = 32" "inside 32 64 {(1, 96)}" "inside 32 64 {(98, 16), (1, 96)}"
    by (simp_all add: aligned_from_def inside_def)
  have "\<exists>p. r = Ok p"
    using l a by (auto simp: program_load_def load_into_def flat_lib_def elf_parse_def config_sys_def loader_config_default_def elf_program_footprint_def program_align_def
        flat_info_def elf_rodata_footprint_def rodata_align_def bump_at_def own_def Let_def split: if_splits)
  then obtain p where p: "r = Ok p" by blast
  have f: "finite (sb_owned ?w)" by simp
  show ?thesis using sbpf_load_safe [OF flat_loader.sbpf_loader_axioms bump_allocator f l] l p by auto
qed

end
