(* ===== verification/Tpool.thy ===== *)
theory Tpool
  imports Ownership
begin

text \<open>
  Thread pools of \<open>util/tpool/fd_tpool/src/lib.rs\<close>: the memory of a pool and its options, tasks, and the partition of a
  range of work among workers and lanes. The C pool is the parameter \<open>tpool_lib\<close> with the laws \<open>thread_pool\<close>.
\<close>

section \<open>Model\<close>

type_synonym tpool_error = string

record pool_options =
  opt_sleep :: bool

definition options_default :: pool_options where
  "options_default = \<lparr>opt_sleep = False\<rparr>"

record tpool_struct =
  tp_worker_cnt :: u64
  tp_opt :: u64

record 's tpool_lib =
  OPT_SLEEP :: u64
  c_tpool_align :: nat
  c_tpool_footprint :: "nat \<Rightarrow> nat"
  c_tpool_init :: "nat \<Rightarrow> nat \<Rightarrow> u64 \<Rightarrow> 's \<Rightarrow> (nat \<times> 's) option"
  c_tpool_fini :: "nat \<Rightarrow> 's \<Rightarrow> (nat \<times> 's) option"
  c_tpool_at :: "nat \<Rightarrow> 's \<Rightarrow> tpool_struct option"

definition options_bits :: "'s tpool_lib \<Rightarrow> pool_options \<Rightarrow> u64" where
  "options_bits lib opts = (let flags = 0 in if opt_sleep opts then or flags (OPT_SLEEP lib) else flags)"

record thread_pool =
  th_tpool :: nat
  th_mem :: nat
  th_worker_max :: nat

type_synonym 's tpool_state = "'s \<times> unit heap"

definition pool_new :: "'s tpool_lib \<Rightarrow> bool \<Rightarrow> nat \<Rightarrow> pool_options \<Rightarrow> 's tpool_state \<Rightarrow> (thread_pool, tpool_error) res \<times> 's tpool_state" where
  "pool_new lib oom worker_max options st =
     (if worker_max = 0 then (Err ''worker_max must be at least 1'', st)
      else
        let align = c_tpool_align lib; footprint = c_tpool_footprint lib worker_max
        in if footprint = 0 then (Err ''invalid worker_max'', st)
           else if \<not> layout_ok footprint align then (Err ''invalid layout'', st)
           else if oom then (Err ''memory allocation failed'', st)
           else case h_alloc () (snd st) of (m, h) \<Rightarrow>
             (case c_tpool_init lib m worker_max (options_bits lib options) (fst st) of
                None \<Rightarrow> (Panic, fst st, h)
              | Some (tpool, s) \<Rightarrow>
                  if tpool = 0 then
                    (case h_free m h of
                       Ok h \<Rightarrow> (Err ''thread pool initialization failed'', s, h)
                     | Err e \<Rightarrow> (Err e, s, h)
                     | Panic \<Rightarrow> (Panic, s, h))
                  else (Ok \<lparr>th_tpool = tpool, th_mem = m, th_worker_max = worker_max\<rparr>, s, h)))"

definition pool_worker_count :: "'s tpool_lib \<Rightarrow> thread_pool \<Rightarrow> 's \<Rightarrow> (u64, tpool_error) res" where
  "pool_worker_count lib p s = (case c_tpool_at lib (th_tpool p) s of None \<Rightarrow> Panic | Some t \<Rightarrow> Ok (tp_worker_cnt t))"

definition pool_worker_max :: "thread_pool \<Rightarrow> nat" where
  "pool_worker_max p = th_worker_max p"

definition pool_options_of :: "'s tpool_lib \<Rightarrow> thread_pool \<Rightarrow> 's \<Rightarrow> (pool_options, tpool_error) res" where
  "pool_options_of lib p s =
     (case c_tpool_at lib (th_tpool p) s of None \<Rightarrow> Panic | Some t \<Rightarrow> Ok \<lparr>opt_sleep = (and (tp_opt t) (OPT_SLEEP lib) \<noteq> 0)\<rparr>)"

text \<open>An unexpected pointer is only reported on the standard error.\<close>

definition pool_drop :: "'s tpool_lib \<Rightarrow> thread_pool \<Rightarrow> 's tpool_state \<Rightarrow> (unit, tpool_error) res \<times> 's tpool_state" where
  "pool_drop lib p st =
     (case c_tpool_fini lib (th_tpool p) (fst st) of
        None \<Rightarrow> (Panic, st)
      | Some (returned_mem, s) \<Rightarrow>
          (case h_free (th_mem p) (snd st) of Ok h \<Rightarrow> (Ok (), s, h) | Err e \<Rightarrow> (Err e, s, snd st) | Panic \<Rightarrow> (Panic, s, snd st)))"

text \<open>Tasks: a closure, and the execution on all workers, which is \<open>todo!()\<close>.\<close>

definition closure_execute :: "(nat \<Rightarrow> nat \<Rightarrow> 'w \<Rightarrow> 'w) \<Rightarrow> nat \<Rightarrow> nat \<Rightarrow> 'w \<Rightarrow> 'w" where
  "closure_execute closure worker_idx worker_count = closure worker_idx worker_count"

definition execute_all :: "'s tpool_lib \<Rightarrow> thread_pool \<Rightarrow> (nat \<Rightarrow> nat \<Rightarrow> 'w \<Rightarrow> 'w) \<Rightarrow> 's \<Rightarrow> 'w \<Rightarrow> (unit, tpool_error) res \<times> 'w" where
  "execute_all lib p task s w = (case pool_worker_count lib p s of Ok n \<Rightarrow> (Panic, w) | Err e \<Rightarrow> (Err e, w) | Panic \<Rightarrow> (Panic, w))"

text \<open>
  The part of a range for one worker. No intermediate result is larger than \<open>task_end\<close>, as the properties show, so that the
  arithmetic of \<open>usize\<close> is that of natural numbers.
\<close>

definition partition_range :: "nat \<Rightarrow> nat \<Rightarrow> nat \<Rightarrow> nat \<Rightarrow> nat \<Rightarrow> nat \<times> nat" where
  "partition_range task_start task_end lane_count worker_idx worker_count =
     (if worker_idx \<ge> worker_count \<or> task_start \<ge> task_end \<or> lane_count = 0 then (task_start, task_start)
      else
        let task_count = task_end - task_start;
            block_count = task_count div lane_count;
            block_remainder = task_count mod lane_count;
            worker_block_min = block_count div worker_count;
            worker_extra_count = block_count mod worker_count;
            extra_blocks = (if worker_idx < worker_extra_count then 1 else 0);
            worker_blocks = worker_block_min + extra_blocks;
            worker_start = task_start + lane_count * (worker_block_min * worker_idx + min worker_idx worker_extra_count);
            worker_end = worker_start + lane_count * worker_blocks;
            worker_end = (if worker_idx = worker_count - 1 then worker_end + block_remainder else worker_end)
        in (worker_start, min worker_end task_end))"

section \<open>The partition\<close>

text \<open>Where the blocks of worker \<open>i\<close> begin, with \<open>bc\<close> blocks for \<open>n\<close> workers.\<close>

definition block_start :: "nat \<Rightarrow> nat \<Rightarrow> nat \<Rightarrow> nat" where
  "block_start bc n i = bc div n * i + min i (bc mod n)"

lemma block_start_0 [simp]: "block_start bc n 0 = 0"
  by (simp add: block_start_def)

lemma block_start_Suc: "block_start bc n (Suc i) = block_start bc n i + (bc div n + (if i < bc mod n then 1 else 0))"
  by (auto simp: block_start_def)

lemma block_start_last: "0 < n \<Longrightarrow> block_start bc n n = bc"
  using mod_less_divisor [of n bc] by (simp add: block_start_def)

lemma block_start_mono: "i \<le> j \<Longrightarrow> block_start bc n i \<le> block_start bc n j"
  by (simp add: block_start_def add_mono min.coboundedI1 min_le_iff_disj)

text \<open>The range of a worker, in closed form.\<close>

lemma partition_range_blocks:
  assumes "i < n" and "a < b" and "0 < lanes"
  defines "bc \<equiv> (b - a) div lanes"
  shows "partition_range a b lanes i n =
    (a + lanes * block_start bc n i, if i = n - 1 then b else a + lanes * block_start bc n (Suc i))"
proof -
  have total: "lanes * bc + (b - a) mod lanes = b - a" by (simp add: bc_def)
  have le: "block_start bc n (Suc i) \<le> bc" using block_start_mono [of "Suc i" n bc n] block_start_last [of n bc] assms(1) by simp
  define E where "E = a + lanes * block_start bc n (Suc i)"
  have e: "a + lanes * block_start bc n i + lanes * (bc div n + (if i < bc mod n then 1 else 0)) = E"
    by (simp only: E_def block_start_Suc distrib_left add.assoc)
  have b: "bc div n * i + min i (bc mod n) = block_start bc n i" by (simp add: block_start_def)
  have part: "partition_range a b lanes i n = (a + lanes * block_start bc n i, min (if i = n - 1 then E + (b - a) mod lanes else E) b)"
    using assms(1-3) unfolding partition_range_def Let_def bc_def [symmetric] b e by simp
  have "E \<le> b" using mult_le_mono2 [OF le, of lanes] total assms(2) unfolding E_def by linarith
  moreover have "E + (b - a) mod lanes = b" if "i = n - 1"
    using that assms(1,2) block_start_last [of n bc] total by (simp add: E_def)
  ultimately show ?thesis using part by (cases "i = n - 1") (simp_all add: E_def)
qed

lemma concat_upt:
  "(\<And>i. i < n \<Longrightarrow> f i \<le> f (Suc i)) \<Longrightarrow> f 0 \<le> f n \<and> concat (map (\<lambda>i. [f i..<f (Suc i)]) [0..<n]) = [f 0..<f n]"
proof (induction n)
  case (Suc n)
  then have IH: "f 0 \<le> f n" "concat (map (\<lambda>i. [f i..<f (Suc i)]) [0..<n]) = [f 0..<f n]" and s: "f n \<le> f (Suc n)" by auto
  have "[f 0..<f (Suc n)] = [f 0..<f n] @ [f n..<f (Suc n)]"
    using upt_add_eq_append [OF IH(1), of "f (Suc n) - f n"] s by simp
  then show ?case using IH s by simp
qed simp

section \<open>The memory of a pool\<close>

text \<open>\<open>view p s\<close>: the number of workers and the options of the pool at \<open>p\<close>.\<close>

locale c_pool =
  fixes lib :: "'s tpool_lib" and view :: "nat \<Rightarrow> 's \<Rightarrow> tpool_struct option"
  assumes sleep_bit: "OPT_SLEEP lib \<noteq> 0"
    and init_law: "0 < m \<Longrightarrow> 0 < n \<Longrightarrow> \<exists>p s'. c_tpool_init lib m n opts s = Some (p, s') \<and>
      (p \<noteq> 0 \<longrightarrow> p = m \<and> view p s' = Some \<lparr>tp_worker_cnt = 1, tp_opt = opts\<rparr>)"
    and at_law: "view p s = Some t \<Longrightarrow> c_tpool_at lib p s = Some t"
    and fini_law: "view p s \<noteq> None \<Longrightarrow> \<exists>m s'. c_tpool_fini lib p s = Some (m, s')"

context c_pool
begin

lemma pool_new_ok:
  assumes "heap_ok h"
  shows "\<exists>r s' h'. pool_new lib oom n opts (s, h) = (r, s', h') \<and> r \<noteq> Panic \<and> (\<forall>e. r = Err e \<longrightarrow> cells h' = cells h) \<and>
    (\<forall>p. r = Ok p \<longrightarrow> view (th_tpool p) s' = Some \<lparr>tp_worker_cnt = 1, tp_opt = options_bits lib opts\<rparr> \<and> th_worker_max p = n \<and>
      th_mem p \<notin> live h \<and> cells h' = (cells h)(th_mem p \<mapsto> ()))"
proof (cases "n = 0 \<or> c_tpool_footprint lib n = 0 \<or> \<not> layout_ok (c_tpool_footprint lib n) (c_tpool_align lib) \<or> oom")
  case True
  then show ?thesis by (auto simp: pool_new_def Let_def)
next
  case False
  obtain m h1 where a: "h_alloc () h = (m, h1)" "0 < m" "m \<notin> live h" "cells h1 = (cells h)(m \<mapsto> ())"
    using h_allocE [OF assms] by metis
  have f: "(h_free m h1 :: (_, tpool_error) res) = Ok (h1\<lparr>cells := cells h\<rparr>)"
    using a(3,4) by (auto simp: h_free_def domIff fun_upd_idem)
  obtain p s' where i: "c_tpool_init lib m n (options_bits lib opts) s = Some (p, s')"
      "p \<noteq> 0 \<longrightarrow> p = m \<and> view p s' = Some \<lparr>tp_worker_cnt = 1, tp_opt = options_bits lib opts\<rparr>"
    using init_law [OF a(2), of n] False by blast
  show ?thesis using False a(1,3,4) f i by (cases "p = 0") (auto simp: pool_new_def Let_def)
qed

end

section \<open>A pool that keeps the laws\<close>

definition plain_pool :: "(nat \<Rightarrow> tpool_struct option) tpool_lib" where
  "plain_pool = \<lparr>OPT_SLEEP = 1, c_tpool_align = 128, c_tpool_footprint = (\<lambda>n. if n > 1024 then 0 else 128 * n),
     c_tpool_init = (\<lambda>m n opts s. Some (m, s(m \<mapsto> \<lparr>tp_worker_cnt = 1, tp_opt = opts\<rparr>))),
     c_tpool_fini = (\<lambda>p s. if s p = None then None else Some (p, s(p := None))), c_tpool_at = (\<lambda>p s. s p)\<rparr>"

interpretation plain_pools: c_pool plain_pool "\<lambda>p s. s p"
  by unfold_locales (auto simp: plain_pool_def)

section \<open>Properties\<close>

text \<open>The ranges of a positive number of workers, with a positive number of lanes, make up the range of work.\<close>

lemma partition_range_covers:
  assumes "0 < worker_count" and "0 < lanes"
  shows "concat (map (\<lambda>i. case partition_range task_start task_end lanes i worker_count of (a, b) \<Rightarrow> [a..<b]) [0..<worker_count]) =
    [task_start..<task_end]"
proof (cases "task_start < task_end")
  case True
  define bc where "bc = (task_end - task_start) div lanes"
  define f where "f i = (if i < worker_count then task_start + lanes * block_start bc worker_count i else task_end)" for i
  have part: "partition_range task_start task_end lanes i worker_count = (f i, f (Suc i))" if "i < worker_count" for i
    using partition_range_blocks [OF that True assms(2)] that by (auto simp: f_def bc_def)
  have "f i \<le> f (Suc i)" if "i < worker_count" for i
  proof (cases "Suc i < worker_count")
    case True
    then show ?thesis using that by (simp add: f_def block_start_mono)
  next
    case False
    have "lanes * block_start bc worker_count i \<le> lanes * bc"
      using block_start_mono [of i worker_count bc worker_count] block_start_last [OF assms(1), of bc] that by simp
    also have "\<dots> \<le> task_end - task_start" by (simp add: bc_def)
    finally show ?thesis using that False True by (simp add: f_def)
  qed
  from concat_upt [of worker_count f, OF this] have "concat (map (\<lambda>i. [f i..<f (Suc i)]) [0..<worker_count]) = [f 0..<f worker_count]" by blast
  moreover have "map (\<lambda>i. case partition_range task_start task_end lanes i worker_count of (a, b) \<Rightarrow> [a..<b]) [0..<worker_count] =
      map (\<lambda>i. [f i..<f (Suc i)]) [0..<worker_count]"
    using part by simp
  ultimately have "concat (map (\<lambda>i. case partition_range task_start task_end lanes i worker_count of (a, b) \<Rightarrow> [a..<b]) [0..<worker_count]) = [f 0..<f worker_count]"
    by (simp only:)
  then show ?thesis using assms(1) by (simp add: f_def)
next
  case False
  then show ?thesis by (simp add: partition_range_def concat_eq_Nil_conv)
qed

text \<open>C40: The ranges that \<open>partition_range\<close> gives to the workers of a pool make up the range of work: one after the other, in the order of
  the workers, they are exactly its tasks, for every number of workers and of lanes but 0; without workers or lanes no task is given to
  anybody.\<close>

theorem partition_range_exact:
  "concat (map (\<lambda>i. case partition_range task_start task_end lanes i worker_count of (a, b) \<Rightarrow> [a..<b]) [0..<worker_count]) =
    (if worker_count = 0 \<or> lanes = 0 then [] else [task_start..<task_end])"
proof (cases "lanes = 0")
  case True
  then show ?thesis by (simp add: partition_range_def concat_eq_Nil_conv)
next
  case False
  then show ?thesis using partition_range_covers [of worker_count lanes task_start task_end] by (cases "worker_count = 0") simp_all
qed

text \<open>The block that is left when the blocks do not divide evenly goes to the first worker, not to the last.\<close>

theorem partition_range_first_takes_more:
  "partition_range 0 101 1 0 4 = (0, 26) \<and> partition_range 0 101 1 3 4 = (76, 101)"
  by (simp add: partition_range_def)

text \<open>The work is even: every worker but the last gets whole blocks of \<open>lanes\<close> tasks, and the numbers of blocks of two workers differ by at
  most one; the last worker has in addition the tasks that do not fill a block.\<close>

theorem partition_range_even:
  assumes "i < n" and "a < b" and "0 < lanes"
  shows "\<exists>blocks. blocks \<in> {(b - a) div lanes div n, (b - a) div lanes div n + 1} \<and>
    snd (partition_range a b lanes i n) - fst (partition_range a b lanes i n) =
      lanes * blocks + (if i = n - 1 then (b - a) mod lanes else 0)"
proof -
  let ?bc = "(b - a) div lanes"
  let ?k = "?bc div n + (if i < ?bc mod n then 1 else 0)"
  have s: "block_start ?bc n (Suc i) = block_start ?bc n i + ?k" by (rule block_start_Suc)
  have "snd (partition_range a b lanes i n) - fst (partition_range a b lanes i n) = lanes * ?k + (if i = n - 1 then (b - a) mod lanes else 0)"
  proof (cases "i = n - 1")
    case True
    have "lanes * ?bc + (b - a) mod lanes = b - a" by simp
    moreover have "block_start ?bc n i + ?k = ?bc" using s True assms(1) block_start_last [of n ?bc] by simp
    then have "lanes * block_start ?bc n i + lanes * ?k = lanes * ?bc" by (metis distrib_left)
    moreover have "partition_range a b lanes i n = (a + lanes * block_start ?bc n i, b)" using partition_range_blocks [OF assms] True by simp
    ultimately have "snd (partition_range a b lanes i n) - fst (partition_range a b lanes i n) = lanes * ?k + (b - a) mod lanes"
      using assms(2) by (simp only: fst_conv snd_conv) linarith
    then show ?thesis by (simp only: True if_P refl)
  next
    case False
    then show ?thesis by (simp add: partition_range_blocks [OF assms] s distrib_left)
  qed
  moreover have "?k \<in> {?bc div n, ?bc div n + 1}" by simp
  ultimately show ?thesis by blast
qed

text \<open>Creating a pool ends with a pool or an error that gives the memory back; the pool has the limit and the options it was
  made with, and dropping it releases exactly its memory.\<close>

theorem pool_lifecycle:
  assumes "c_pool lib view" and "heap_ok h" and "pool_new lib oom n opts (s, h) = (r, s1, h1)"
  shows "r \<noteq> Panic \<and> (\<forall>e. r = Err e \<longrightarrow> cells h1 = cells h) \<and>
    (\<forall>p. r = Ok p \<longrightarrow> pool_worker_max p = n \<and> pool_options_of lib p s1 = Ok opts \<and>
      (\<exists>s2 h2. pool_drop lib p (s1, h1) = (Ok (), s2, h2) \<and> cells h2 = cells h))"
proof -
  have N: "r \<noteq> Panic \<and> (\<forall>e. r = Err e \<longrightarrow> cells h1 = cells h) \<and>
    (\<forall>p. r = Ok p \<longrightarrow> view (th_tpool p) s1 = Some \<lparr>tp_worker_cnt = 1, tp_opt = options_bits lib opts\<rparr> \<and> th_worker_max p = n \<and>
      th_mem p \<notin> live h \<and> cells h1 = (cells h)(th_mem p \<mapsto> ()))"
    using c_pool.pool_new_ok [OF assms(1,2), of oom n opts s] assms(3) by simp
  have "pool_worker_max p = n \<and> pool_options_of lib p s1 = Ok opts \<and> (\<exists>s2 h2. pool_drop lib p (s1, h1) = (Ok (), s2, h2) \<and> cells h2 = cells h)"
    if "r = Ok p" for p
  proof -
    have p: "view (th_tpool p) s1 = Some \<lparr>tp_worker_cnt = 1, tp_opt = options_bits lib opts\<rparr>" "th_worker_max p = n"
        "th_mem p \<notin> live h" "cells h1 = (cells h)(th_mem p \<mapsto> ())"
      using N that by auto
    have "pool_options_of lib p s1 = Ok opts"
      using c_pool.at_law [OF assms(1) p(1)] c_pool.sleep_bit [OF assms(1)]
      by (simp add: pool_options_of_def options_bits_def Let_def)
    moreover obtain m s2 where "c_tpool_fini lib (th_tpool p) s1 = Some (m, s2)" using c_pool.fini_law [OF assms(1), of "th_tpool p" s1] p(1) by auto
    then have "pool_drop lib p (s1, h1) = (Ok (), s2, h1\<lparr>cells := cells h\<rparr>)"
      using p(3,4) by (auto simp: pool_drop_def h_free_def domIff fun_upd_idem)
    ultimately show ?thesis using p(2) by (simp add: pool_worker_max_def)
  qed
  then show ?thesis using N by blast
qed

text \<open>Executing a task on all workers is not implemented: it runs nothing and panics.\<close>

theorem execute_all_panics: "pool_worker_count lib p s = Ok n \<Longrightarrow> execute_all lib p task s w = (Panic, w)"
  by (simp add: execute_all_def)

end
