(* ===== verification/Shmem.thy ===== *)
theory Shmem
  imports Rust_Std Ownership
begin

text \<open>
  Shared memory regions of \<open>util/shmem/fd_shmem/src/lib.rs\<close>: page sizes, creation and removal of regions, joins with their
  reference counts, private pages and the iterator over what is joined. The C library is the parameter \<open>shmem_lib\<close>; the locale
  \<open>region_table\<close> states what it promises about joins.
\<close>

section \<open>Model\<close>

datatype shmem_error = InvalidArgs bytes | NotFound bytes | PermissionDenied bytes | AlreadyExists bytes | IoError bytes |
  MemoryError bytes | SystemError bytes int | Unknown bytes

datatype page_size = Normal | Huge | Gigantic

datatype join_mode = ReadOnly | ReadWrite

record join_info =
  ref_count :: int
  address :: nat
  ji_page_size :: page_size
  ji_page_count :: u64
  ji_mode :: join_mode
  ji_name :: bytes

record shmem_info =
  si_page_size :: page_size
  si_page_count :: u64

text \<open>The C structs\<close>

record c_join_info =
  cj_ref_cnt :: int
  cj_shmem :: nat
  cj_page_sz :: u64
  cj_page_cnt :: u64
  cj_mode :: int
  cj_name :: bytes

record c_shmem_info =
  cs_page_sz :: u64
  cs_page_cnt :: u64

text \<open>
  \<open>c_bytes_at\<close> gives the bytes of mapped memory; the iterator of C is an address, 0 at the end.
\<close>

record 's shmem_lib =
  EINVAL :: int
  ENOENT :: int
  EACCES :: int
  EEXIST :: int
  EIO :: int
  ENOMEM :: int
  MODE_READ_ONLY :: int
  MODE_READ_WRITE :: int
  c_page_sz_to_cstr :: "u64 \<Rightarrow> bytes"
  c_cstr_to_page_sz :: "bytes \<Rightarrow> u64"
  c_numa_cnt :: u64
  c_cpu_cnt :: u64
  c_numa_idx :: "u64 \<Rightarrow> u64"
  c_cpu_idx :: "u64 \<Rightarrow> u64"
  c_numa_validate :: "nat \<Rightarrow> u64 \<Rightarrow> u64 \<Rightarrow> u64 \<Rightarrow> 's \<Rightarrow> int"
  c_join :: "bytes \<Rightarrow> int \<Rightarrow> int \<Rightarrow> 's \<Rightarrow> ((nat \<times> c_join_info) \<times> 's) option"
  c_leave :: "nat \<Rightarrow> 's \<Rightarrow> (int \<times> 's) option"
  c_query_by_name :: "bytes \<Rightarrow> 's \<Rightarrow> int \<times> c_join_info"
  c_create_multi :: "bytes \<Rightarrow> u64 \<Rightarrow> u64 \<Rightarrow> u64 list \<Rightarrow> u64 list \<Rightarrow> u64 \<Rightarrow> 's \<Rightarrow> int \<times> 's"
  c_unlink :: "bytes \<Rightarrow> u64 \<Rightarrow> 's \<Rightarrow> int \<times> 's"
  c_info :: "bytes \<Rightarrow> u64 \<Rightarrow> 's \<Rightarrow> int \<times> c_shmem_info"
  c_acquire_multi :: "u64 \<Rightarrow> u64 list \<Rightarrow> u64 list \<Rightarrow> 's \<Rightarrow> nat \<times> 's"
  c_release :: "nat \<Rightarrow> u64 \<Rightarrow> u64 \<Rightarrow> 's \<Rightarrow> (int \<times> 's) option"
  c_name_len :: "bytes \<Rightarrow> u64"
  c_iter_begin :: "'s \<Rightarrow> nat"
  c_iter_next :: "nat \<Rightarrow> 's \<Rightarrow> nat"
  c_iter_at :: "nat \<Rightarrow> 's \<Rightarrow> c_join_info option"
  c_bytes_at :: "nat \<Rightarrow> nat \<Rightarrow> 's \<Rightarrow> bytes option"

definition shmem_error_from :: "'s shmem_lib \<Rightarrow> int \<Rightarrow> shmem_error" where
  "shmem_error_from lib errno =
     (if errno = EINVAL lib then InvalidArgs (ascii ''Invalid arguments'')
      else if errno = ENOENT lib then NotFound (ascii ''Region not found'')
      else if errno = EACCES lib then PermissionDenied (ascii ''Permission denied'')
      else if errno = EEXIST lib then AlreadyExists (ascii ''Region already exists'')
      else if errno = EIO lib then IoError (ascii ''I/O error'')
      else if errno = ENOMEM lib then MemoryError (ascii ''Out of memory'')
      else SystemError (ascii ''System error'') errno)"

subsection \<open>Page sizes\<close>

fun size_bytes :: "page_size \<Rightarrow> nat" where
  "size_bytes Normal = 4096"
| "size_bytes Huge = 2097152"
| "size_bytes Gigantic = 1073741824"

fun log2_size :: "page_size \<Rightarrow> int" where
  "log2_size Normal = 12"
| "log2_size Huge = 21"
| "log2_size Gigantic = 30"

definition page_size_from_raw :: "u64 \<Rightarrow> page_size option" where
  "page_size_from_raw page_sz =
     (if page_sz = 4096 then Some Normal else if page_sz = 2097152 then Some Huge
      else if page_sz = 1073741824 then Some Gigantic else None)"

definition raw_size :: "page_size \<Rightarrow> u64" where
  "raw_size p = of_nat (size_bytes p)"

definition page_size_as_str :: "'s shmem_lib \<Rightarrow> page_size \<Rightarrow> bytes" where
  "page_size_as_str lib p = (case from_utf8 (c_page_sz_to_cstr lib (raw_size p)) of None \<Rightarrow> ascii ''unknown'' | Some s \<Rightarrow> s)"

definition page_size_from_str :: "'s shmem_lib \<Rightarrow> bytes \<Rightarrow> page_size option" where
  "page_size_from_str lib s =
     (case cstring_new s of None \<Rightarrow> None | Some c_str \<Rightarrow> page_size_from_raw (c_cstr_to_page_sz lib c_str))"

definition page_size_default :: page_size where "page_size_default = Normal"

fun mode_code :: "'s shmem_lib \<Rightarrow> join_mode \<Rightarrow> int" where
  "mode_code lib ReadOnly = MODE_READ_ONLY lib"
| "mode_code lib ReadWrite = MODE_READ_WRITE lib"

definition join_mode_default :: join_mode where "join_mode_default = ReadWrite"

text \<open>The product wraps around in release builds.\<close>

definition info_total_size :: "shmem_info \<Rightarrow> u64" where
  "info_total_size i = raw_size (si_page_size i) * si_page_count i"

definition join_total_size :: "join_info \<Rightarrow> u64" where
  "join_total_size i = raw_size (ji_page_size i) * ji_page_count i"

definition join_slice :: "'s shmem_lib \<Rightarrow> join_info \<Rightarrow> 's \<Rightarrow> (bytes, shmem_error) res" where
  "join_slice lib i s = (case c_bytes_at lib (address i) (unat (join_total_size i)) s of None \<Rightarrow> Panic | Some b \<Rightarrow> Ok b)"

text \<open>A mutable slice is the memory it gives access to: the address and the number of bytes.\<close>

definition join_mut_slice :: "join_info \<Rightarrow> (nat \<times> nat, shmem_error) res" where
  "join_mut_slice i = (if ji_mode i = ReadOnly then Panic else Ok (address i, unat (join_total_size i)))"

subsection \<open>Joins\<close>

record shmem_join =
  join_handle :: nat
  sj_info :: join_info

definition shmem_as_slice :: "'s shmem_lib \<Rightarrow> shmem_join \<Rightarrow> 's \<Rightarrow> (bytes, shmem_error) res" where
  "shmem_as_slice lib j s = join_slice lib (sj_info j) s"

definition shmem_as_mut_slice :: "shmem_join \<Rightarrow> (nat \<times> nat, shmem_error) res" where
  "shmem_as_mut_slice j =
     (if ji_mode (sj_info j) = ReadOnly then Err (PermissionDenied (ascii ''Cannot get mutable access to read-only region''))
      else join_mut_slice (sj_info j))"

definition shmem_as_ptr :: "shmem_join \<Rightarrow> nat" where
  "shmem_as_ptr j = address (sj_info j)"

definition shmem_as_mut_ptr :: "shmem_join \<Rightarrow> (nat, shmem_error) res" where
  "shmem_as_mut_ptr j =
     (if ji_mode (sj_info j) = ReadOnly then Err (PermissionDenied (ascii ''Cannot get mutable access to read-only region''))
      else Ok (address (sj_info j)))"

text \<open>A failure to leave is only reported on the standard error.\<close>

definition shmem_join_drop :: "'s shmem_lib \<Rightarrow> shmem_join \<Rightarrow> 's \<Rightarrow> (unit, shmem_error) res \<times> 's" where
  "shmem_join_drop lib j s = ffi (c_leave lib (join_handle j) s) (\<lambda>result s. (Ok (), s)) s"

definition c_name :: "bytes \<Rightarrow> (bytes, shmem_error) res" where
  "c_name name = ok_or (cstring_new name) (InvalidArgs (ascii ''Invalid name: contains null bytes''))"

text \<open>What \<open>join\<close>, \<open>query_by_name\<close> and the iterator make of a C struct.\<close>

definition mode_from_raw :: "'s shmem_lib \<Rightarrow> int \<Rightarrow> join_mode option" where
  "mode_from_raw lib m = (if m = MODE_READ_ONLY lib then Some ReadOnly else if m = MODE_READ_WRITE lib then Some ReadWrite else None)"

definition info_of :: "c_join_info \<Rightarrow> page_size \<Rightarrow> join_mode \<Rightarrow> join_info" where
  "info_of c p m = \<lparr>ref_count = cj_ref_cnt c, address = cj_shmem c, ji_page_size = p, ji_page_count = cj_page_cnt c, ji_mode = m,
     ji_name = from_utf8_lossy (cstr_bytes (cj_name c))\<rparr>"

definition join_info_from :: "'s shmem_lib \<Rightarrow> c_join_info \<Rightarrow> (join_info, shmem_error) res" where
  "join_info_from lib c =
     (case page_size_from_raw (cj_page_sz c) of
        None \<Rightarrow> Err (InvalidArgs (ascii ''Invalid page size''))
      | Some p \<Rightarrow>
          (case mode_from_raw lib (cj_mode c) of
             None \<Rightarrow> Err (InvalidArgs (ascii ''Invalid join mode''))
           | Some m \<Rightarrow> Ok (info_of c p m)))"

definition fdshmem_join :: "'s shmem_lib \<Rightarrow> bytes \<Rightarrow> join_mode \<Rightarrow> bool \<Rightarrow> 's \<Rightarrow> (shmem_join, shmem_error) res \<times> 's" where
  "fdshmem_join lib name mode lock_pages s =
     (case c_name name of
        Err e \<Rightarrow> (Err e, s)
      | Panic \<Rightarrow> (Panic, s)
      | Ok n \<Rightarrow>
          ffi (c_join lib n (mode_code lib mode) (if lock_pages then 1 else 0) s) (\<lambda>(handle, info) s.
            if handle = 0 then (Err (Unknown (ascii ''Failed to join shared memory region'')), s)
            else (res_bind (join_info_from lib info) (\<lambda>i. Ok \<lparr>join_handle = handle, sj_info = i\<rparr>), s)) s)"

definition query_by_name :: "'s shmem_lib \<Rightarrow> bytes \<Rightarrow> 's \<Rightarrow> (join_info, shmem_error) res" where
  "query_by_name lib name s =
     res_bind (c_name name) (\<lambda>n.
       case c_query_by_name lib n s of
         (result, info) \<Rightarrow> if result \<noteq> 0 then Err (shmem_error_from lib result) else join_info_from lib info)"

subsection \<open>Regions, pages and the machine\<close>

definition numa_idx_for_cpu :: "'s shmem_lib \<Rightarrow> u64 \<Rightarrow> u64 option" where
  "numa_idx_for_cpu lib cpu_idx = (let numa_idx = c_numa_idx lib cpu_idx in if numa_idx = - 1 then None else Some numa_idx)"

definition cpu_idx_for_numa :: "'s shmem_lib \<Rightarrow> u64 \<Rightarrow> u64 option" where
  "cpu_idx_for_numa lib numa_idx = (let cpu_idx = c_cpu_idx lib numa_idx in if cpu_idx = - 1 then None else Some cpu_idx)"

definition shmem_result :: "'s shmem_lib \<Rightarrow> int \<Rightarrow> (unit, shmem_error) res" where
  "shmem_result lib result = (if result = 0 then Ok () else Err (shmem_error_from lib result))"

definition page_count_for :: "nat \<Rightarrow> page_size \<Rightarrow> nat" where
  "page_count_for len p = (len + size_bytes p - 1) div size_bytes p"

definition validate_numa_placement :: "'s shmem_lib \<Rightarrow> nat \<times> nat \<Rightarrow> page_size \<Rightarrow> u64 \<Rightarrow> 's \<Rightarrow> (unit, shmem_error) res" where
  "validate_numa_placement lib memory p cpu_idx s =
     shmem_result lib (c_numa_validate lib (fst memory) (raw_size p) (of_nat (page_count_for (snd memory) p)) cpu_idx s)"

definition shmem_create_multi :: "'s shmem_lib \<Rightarrow> bytes \<Rightarrow> page_size \<Rightarrow> (u64 \<times> u64) list \<Rightarrow> u64 \<Rightarrow> 's \<Rightarrow> (unit, shmem_error) res \<times> 's" where
  "shmem_create_multi lib name p sub_regions mode s =
     (case c_name name of
        Err e \<Rightarrow> (Err e, s)
      | Panic \<Rightarrow> (Panic, s)
      | Ok n \<Rightarrow>
          (case c_create_multi lib n (raw_size p) (of_nat (length sub_regions)) (map fst sub_regions) (map snd sub_regions) mode s of
             (result, s) \<Rightarrow> (shmem_result lib result, s)))"

definition shmem_create :: "'s shmem_lib \<Rightarrow> bytes \<Rightarrow> page_size \<Rightarrow> u64 \<Rightarrow> u64 \<Rightarrow> u64 \<Rightarrow> 's \<Rightarrow> (unit, shmem_error) res \<times> 's" where
  "shmem_create lib name p page_count cpu_idx mode s = shmem_create_multi lib name p [(page_count, cpu_idx)] mode s"

definition shmem_unlink :: "'s shmem_lib \<Rightarrow> bytes \<Rightarrow> page_size \<Rightarrow> 's \<Rightarrow> (unit, shmem_error) res \<times> 's" where
  "shmem_unlink lib name p s =
     (case c_name name of
        Err e \<Rightarrow> (Err e, s)
      | Panic \<Rightarrow> (Panic, s)
      | Ok n \<Rightarrow> (case c_unlink lib n (raw_size p) s of (result, s) \<Rightarrow> (shmem_result lib result, s)))"

definition shmem_info_of :: "'s shmem_lib \<Rightarrow> bytes \<Rightarrow> page_size option \<Rightarrow> 's \<Rightarrow> (shmem_info, shmem_error) res" where
  "shmem_info_of lib name p s =
     res_bind (c_name name) (\<lambda>n.
       case c_info lib n (case p of None \<Rightarrow> 0 | Some p \<Rightarrow> raw_size p) s of
         (result, info) \<Rightarrow>
           if result \<noteq> 0 then Err (shmem_error_from lib result)
           else case page_size_from_raw (cs_page_sz info) of
                  None \<Rightarrow> Err (InvalidArgs (ascii ''Invalid page size''))
                | Some p \<Rightarrow> Ok \<lparr>si_page_size = p, si_page_count = cs_page_cnt info\<rparr>)"

definition shmem_acquire :: "'s shmem_lib \<Rightarrow> page_size \<Rightarrow> u64 \<Rightarrow> u64 \<Rightarrow> 's \<Rightarrow> (nat, shmem_error) res \<times> 's" where
  "shmem_acquire lib p page_count cpu_idx s =
     (case c_acquire_multi lib (raw_size p) [page_count] [cpu_idx] s of
        (ptr, s) \<Rightarrow> (if ptr = 0 then Err (MemoryError (ascii ''Failed to acquire memory pages'')) else Ok ptr, s))"

definition shmem_release :: "'s shmem_lib \<Rightarrow> nat \<Rightarrow> page_size \<Rightarrow> u64 \<Rightarrow> 's \<Rightarrow> (unit, shmem_error) res \<times> 's" where
  "shmem_release lib ptr p page_count s =
     ffi (c_release lib ptr (raw_size p) page_count s) (\<lambda>result s.
       (if result = 0 then Ok () else Err (SystemError (ascii ''Failed to release memory pages'') result), s)) s"

definition validate_name :: "'s shmem_lib \<Rightarrow> bytes \<Rightarrow> bool" where
  "validate_name lib name \<longleftrightarrow> (case cstring_new name of None \<Rightarrow> False | Some n \<Rightarrow> 0 < c_name_len lib n)"

definition iterator_new :: "'s shmem_lib \<Rightarrow> 's \<Rightarrow> nat" where
  "iterator_new lib s = c_iter_begin lib s"

text \<open>An entry with an unknown page size or mode ends the iteration, and does not move the iterator.\<close>

definition iterator_next :: "'s shmem_lib \<Rightarrow> nat \<Rightarrow> 's \<Rightarrow> (join_info option, shmem_error) res \<times> nat" where
  "iterator_next lib current s =
     (if current = 0 then (Ok None, current)
      else case c_iter_at lib current s of
             None \<Rightarrow> (Panic, current)
           | Some c \<Rightarrow>
               (case page_size_from_raw (cj_page_sz c) of
                  None \<Rightarrow> (Ok None, current)
                | Some p \<Rightarrow>
                    (case mode_from_raw lib (cj_mode c) of
                       None \<Rightarrow> (Ok None, current)
                     | Some m \<Rightarrow> (Ok (Some (info_of c p m)), c_iter_next lib current s))))"

section \<open>Laws of joins\<close>

text \<open>
  \<open>view s h\<close>: the region joined with the handle \<open>h\<close> and its references. The default join maps a region once: another
  join of the same name answers with the same handle and counts; leaving counts down and unmaps at the last.
\<close>

record region =
  rg_name :: bytes
  rg_info :: c_join_info
  rg_refs :: nat

locale region_table =
  fixes lib :: "'s shmem_lib" and view :: "'s \<Rightarrow> nat \<Rightarrow> region option"
  assumes join_law: "0 \<notin> set n \<Longrightarrow> \<exists>h i s'. c_join lib (n @ [0]) m l s = Some ((h, i), s') \<and>
      (if h = 0 then view s' = view s
       else (case view s h of
          None \<Rightarrow> view s' = (view s)(h \<mapsto> \<lparr>rg_name = n, rg_info = i, rg_refs = 1\<rparr>) \<and> (\<forall>k r. view s k = Some r \<longrightarrow> rg_name r \<noteq> n)
        | Some r \<Rightarrow> rg_name r = n \<and> cj_shmem i = cj_shmem (rg_info r) \<and> cj_page_sz i = cj_page_sz (rg_info r) \<and>
            cj_page_cnt i = cj_page_cnt (rg_info r) \<and> cj_mode i = cj_mode (rg_info r) \<and> view s' = (view s)(h \<mapsto> r\<lparr>rg_refs := Suc (rg_refs r)\<rparr>)) \<and>
         page_size_from_raw (cj_page_sz i) \<noteq> None \<and> mode_from_raw lib (cj_mode i) \<noteq> None)"
    and leave_law: "view s h = Some r \<Longrightarrow> \<exists>c s'. c_leave lib h s = Some (c, s') \<and>
      view s' = (view s)(h := if rg_refs r = 1 then None else Some (r\<lparr>rg_refs := rg_refs r - 1\<rparr>))"
    and bytes_law: "view s h = Some r \<Longrightarrow> \<exists>b. length b = unat (cj_page_sz (rg_info r) * cj_page_cnt (rg_info r)) \<and>
      c_bytes_at lib (cj_shmem (rg_info r)) (unat (cj_page_sz (rg_info r) * cj_page_cnt (rg_info r))) s = Some b"

text \<open>A client: it joins names, and drops the joins it holds in any order.\<close>

datatype client_op = Join bytes join_mode bool | Drop nat

text \<open>A drop names a position in the list of joins that are held; one out of range does nothing.\<close>

fun client_step :: "'s shmem_lib \<Rightarrow> client_op \<Rightarrow> shmem_join list \<times> 's \<Rightarrow> (unit, shmem_error) res \<times> shmem_join list \<times> 's" where
  "client_step lib (Join n m l) (js, s) =
     (case fdshmem_join lib n m l s of (Ok j, s) \<Rightarrow> (Ok (), js @ [j], s) | (Err e, s) \<Rightarrow> (Ok (), js, s) | (Panic, s) \<Rightarrow> (Panic, js, s))"
| "client_step lib (Drop i) (js, s) =
     (if i < length js then (case shmem_join_drop lib (js ! i) s of (r, s) \<Rightarrow> (r, take i js @ drop (Suc i) js, s)) else (Ok (), js, s))"

fun client_run :: "'s shmem_lib \<Rightarrow> client_op list \<Rightarrow> shmem_join list \<times> 's \<Rightarrow> (unit, shmem_error) res \<times> shmem_join list \<times> 's" where
  "client_run lib [] st = (Ok (), st)"
| "client_run lib (x # xs) st = (case client_step lib x st of (Ok _, st) \<Rightarrow> client_run lib xs st | (Err e, st) \<Rightarrow> (Err e, st) | (Panic, st) \<Rightarrow> (Panic, st))"

text \<open>
  The invariant: the references of a region are the joins held with its handle, and each join tells where its region is.
\<close>

definition handles :: "shmem_join list \<Rightarrow> nat list" where
  "handles js = map join_handle js"

definition joins_ok :: "(nat \<Rightarrow> region option) \<Rightarrow> shmem_join list \<Rightarrow> bool" where
  "joins_ok v js \<longleftrightarrow> (\<forall>h. count_list (handles js) h = (case v h of None \<Rightarrow> 0 | Some r \<Rightarrow> rg_refs r)) \<and>
     (\<forall>h r. v h = Some r \<longrightarrow> 0 < rg_refs r) \<and>
     (\<forall>j \<in> set js. \<exists>r. v (join_handle j) = Some r \<and> address (sj_info j) = cj_shmem (rg_info r) \<and>
       raw_size (ji_page_size (sj_info j)) = cj_page_sz (rg_info r) \<and> ji_page_count (sj_info j) = cj_page_cnt (rg_info r))"

lemma page_size_raw: "page_size_from_raw x = Some p \<Longrightarrow> raw_size p = x"
  by (auto simp: page_size_from_raw_def raw_size_def split: if_splits)

lemma count_drop: "i < length js \<Longrightarrow> count_list (handles js) h = count_list (handles (take i js @ drop (Suc i) js)) h + (if join_handle (js ! i) = h then 1 else 0)"
proof -
  assume "i < length js"
  from id_take_nth_drop [OF this] have "handles js = handles (take i js) @ join_handle (js ! i) # handles (drop (Suc i) js)"
    unfolding handles_def by (metis list.simps(9) map_append)
  then show ?thesis by (simp add: handles_def)
qed

context region_table
begin

lemma join_step:
  assumes "joins_ok (view s) js"
  shows "\<exists>js' s'. client_step lib (Join n m l) (js, s) = (Ok (), js', s') \<and> joins_ok (view s') js'"
proof (cases "0 \<in> set n")
  case True
  then show ?thesis using assms by (simp add: fdshmem_join_def c_name_def cstring_new_def)
next
  case n: False
  obtain h i s' where j: "c_join lib (n @ [0]) (mode_code lib m) (if l then 1 else 0) s = Some ((h, i), s')"
      "if h = 0 then view s' = view s
       else (case view s h of
          None \<Rightarrow> view s' = (view s)(h \<mapsto> \<lparr>rg_name = n, rg_info = i, rg_refs = 1\<rparr>) \<and> (\<forall>k r. view s k = Some r \<longrightarrow> rg_name r \<noteq> n)
        | Some r \<Rightarrow> rg_name r = n \<and> cj_shmem i = cj_shmem (rg_info r) \<and> cj_page_sz i = cj_page_sz (rg_info r) \<and>
            cj_page_cnt i = cj_page_cnt (rg_info r) \<and> cj_mode i = cj_mode (rg_info r) \<and> view s' = (view s)(h \<mapsto> r\<lparr>rg_refs := Suc (rg_refs r)\<rparr>)) \<and>
         page_size_from_raw (cj_page_sz i) \<noteq> None \<and> mode_from_raw lib (cj_mode i) \<noteq> None"
    using join_law [OF n, of "mode_code lib m" "if l then 1 else 0" s] by blast
  show ?thesis
  proof (cases "h = 0")
    case True
    then show ?thesis using assms n j by (auto simp: fdshmem_join_def c_name_def cstring_new_def)
  next
    case False
    then obtain p md where pm: "page_size_from_raw (cj_page_sz i) = Some p" "mode_from_raw lib (cj_mode i) = Some md" using j(2) by auto
    let ?j = "\<lparr>join_handle = h, sj_info = info_of i p md\<rparr>"
    have step: "client_step lib (Join n m l) (js, s) = (Ok (), js @ [?j], s')"
      using n j(1) False pm by (simp add: fdshmem_join_def c_name_def cstring_new_def join_info_from_def)
    have "joins_ok (view s') (js @ [?j])"
    proof (cases "view s h")
      case None
      then have v: "view s' = (view s)(h \<mapsto> \<lparr>rg_name = n, rg_info = i, rg_refs = 1\<rparr>)" using j(2) False by simp
      have "\<forall>j \<in> set js. join_handle j \<noteq> h" using assms None by (fastforce simp: joins_ok_def)
      moreover have "count_list (handles js) h = 0" using assms None by (simp add: joins_ok_def)
      ultimately show ?thesis using assms v page_size_raw [OF pm(1)] unfolding joins_ok_def by (auto simp: handles_def info_of_def)
    next
      case (Some r)
      then have v: "view s' = (view s)(h \<mapsto> r\<lparr>rg_refs := Suc (rg_refs r)\<rparr>)" and i: "cj_shmem i = cj_shmem (rg_info r)"
          "cj_page_sz i = cj_page_sz (rg_info r)" "cj_page_cnt i = cj_page_cnt (rg_info r)" using j(2) False by simp_all
      have "count_list (handles js) h = rg_refs r" using assms Some by (simp add: joins_ok_def)
      then show ?thesis using assms v i Some page_size_raw [OF pm(1)] unfolding joins_ok_def by (auto simp: handles_def info_of_def)
    qed
    then show ?thesis using step by blast
  qed
qed

lemma drop_step:
  assumes ok: "joins_ok (view s) js"
  shows "\<exists>js' s'. client_step lib (Drop i) (js, s) = (Ok (), js', s') \<and> joins_ok (view s') js' \<and> js' = take i js @ drop (Suc i) js"
proof (cases "i < length js")
  case True
  let ?h = "join_handle (js ! i)" and ?js = "take i js @ drop (Suc i) js"
  obtain r where r: "view s ?h = Some r" using ok True unfolding joins_ok_def by (meson nth_mem)
  obtain c s' where l: "c_leave lib ?h s = Some (c, s')" "view s' = (view s)(?h := if rg_refs r = 1 then None else Some (r\<lparr>rg_refs := rg_refs r - 1\<rparr>))"
    using leave_law [OF r] by blast
  have cnt: "count_list (handles ?js) h = (case view s' h of None \<Rightarrow> 0 | Some r \<Rightarrow> rg_refs r)" for h
  proof -
    have "count_list (handles js) h = (case view s h of None \<Rightarrow> 0 | Some r \<Rightarrow> rg_refs r)" using ok by (simp add: joins_ok_def)
    then show ?thesis using count_drop [OF True, of h] l(2) r by (auto split: if_splits)
  qed
  have pos: "\<forall>h r. view s h = Some r \<longrightarrow> 0 < rg_refs r" using ok by (simp add: joins_ok_def)
  have "\<exists>r. view s' (join_handle j) = Some r \<and> address (sj_info j) = cj_shmem (rg_info r) \<and>
       raw_size (ji_page_size (sj_info j)) = cj_page_sz (rg_info r) \<and> ji_page_count (sj_info j) = cj_page_cnt (rg_info r)" if j: "j \<in> set ?js" for j
  proof -
    have "j \<in> set js" using j by (auto dest: in_set_takeD in_set_dropD)
    then obtain r' where r': "view s (join_handle j) = Some r'" "address (sj_info j) = cj_shmem (rg_info r')"
       "raw_size (ji_page_size (sj_info j)) = cj_page_sz (rg_info r')" "ji_page_count (sj_info j) = cj_page_cnt (rg_info r')"
      using ok unfolding joins_ok_def by blast
    have "0 < count_list (handles ?js) (join_handle j)" using j by (auto simp: handles_def count_list_0_iff intro!: gr0I)
    then have "view s' (join_handle j) \<noteq> None" unfolding cnt by (auto split: option.splits)
    then show ?thesis using r' l(2) r by (auto split: if_splits)
  qed
  moreover have "\<forall>h r. view s' h = Some r \<longrightarrow> 0 < rg_refs r" using pos l(2) r by (auto split: if_splits) (metis Suc_lessI Suc_pred)+
  ultimately have "joins_ok (view s') ?js" using cnt unfolding joins_ok_def by blast
  then show ?thesis using True l(1) by (simp add: shmem_join_drop_def)
next
  case False
  then show ?thesis using ok by simp
qed

lemma client_ok: "joins_ok (view s) js \<Longrightarrow> \<exists>js' s'. client_run lib xs (js, s) = (Ok (), js', s') \<and> joins_ok (view s') js'"
proof (induction xs arbitrary: js s)
  case (Cons x xs)
  have "\<exists>js1 s1. client_step lib x (js, s) = (Ok (), js1, s1) \<and> joins_ok (view s1) js1"
  proof (cases x)
    case (Join n m l)
    then show ?thesis unfolding Join using join_step [OF Cons.prems, of n m l] by blast
  next
    case (Drop i)
    then show ?thesis unfolding Drop using drop_step [OF Cons.prems, of i] by blast
  qed
  then obtain js1 s1 where "client_step lib x (js, s) = (Ok (), js1, s1)" "joins_ok (view s1) js1" by blast
  then show ?case using Cons.IH [of s1 js1] by (simp del: client_step.simps)
qed simp

lemma drop_all: "joins_ok (view s) js \<Longrightarrow> \<exists>s'. client_run lib (replicate (length js) (Drop 0)) (js, s) = (Ok (), [], s') \<and> view s' = Map.empty"
proof (induction js arbitrary: s)
  case Nil
  have "view s h = None" for h
  proof (cases "view s h")
    case (Some r)
    have "count_list (handles []) h = rg_refs r" "0 < rg_refs r" using Nil Some by (simp_all add: joins_ok_def)
    then show ?thesis by (simp add: handles_def)
  qed simp
  then show ?case by auto
next
  case (Cons j js)
  obtain s' where "client_step lib (Drop 0) (j # js, s) = (Ok (), js, s')" "joins_ok (view s') js" using drop_step [OF Cons.prems, of 0] by auto
  then show ?case using Cons.IH [of s'] by (simp del: client_step.simps)
qed

lemma slice_ok:
  assumes "joins_ok (view s) js" and "j \<in> set js"
  shows "\<exists>b. shmem_as_slice lib j s = Ok b \<and> length b = unat (join_total_size (sj_info j))"
proof -
  obtain r where r: "view s (join_handle j) = Some r" "address (sj_info j) = cj_shmem (rg_info r)"
       "raw_size (ji_page_size (sj_info j)) = cj_page_sz (rg_info r)" "ji_page_count (sj_info j) = cj_page_cnt (rg_info r)"
    using assms unfolding joins_ok_def by blast
  show ?thesis using bytes_law [OF r(1)] r(2-4) by (auto simp: shmem_as_slice_def join_slice_def join_total_size_def)
qed

end

section \<open>A table that keeps the laws\<close>

text \<open>Regions of one page at address 4096 times the length of the name, one for each length; the state maps addresses to regions.\<close>

type_synonym table = "nat \<Rightarrow> region option"

definition table_join :: "bytes \<Rightarrow> int \<Rightarrow> table \<Rightarrow> (nat \<times> c_join_info) \<times> table" where
  "table_join n m s =
     (let h = 4096 * length n;
          i = (case s h of None \<Rightarrow> \<lparr>cj_ref_cnt = 1, cj_shmem = h, cj_page_sz = 4096, cj_page_cnt = 1, cj_mode = (if m = 0 then 0 else 1), cj_name = n @ [0]\<rparr>
               | Some r \<Rightarrow> (rg_info r)\<lparr>cj_ref_cnt := int (Suc (rg_refs r))\<rparr>)
      in case s h of
           None \<Rightarrow> ((h, i), if h = 0 then s else s(h \<mapsto> \<lparr>rg_name = n, rg_info = i, rg_refs = 1\<rparr>))
         | Some r \<Rightarrow> if rg_name r = n then ((h, i), s(h \<mapsto> r\<lparr>rg_refs := Suc (rg_refs r)\<rparr>)) else ((0, i), s))"

text \<open>Only regions that a join can make count.\<close>

definition proper :: "nat \<Rightarrow> region \<Rightarrow> bool" where
  "proper h r \<longleftrightarrow> 0 < h \<and> h = 4096 * length (rg_name r) \<and> cj_shmem (rg_info r) = h \<and> cj_page_sz (rg_info r) = 4096 \<and> cj_page_cnt (rg_info r) = 1 \<and>
     cj_mode (rg_info r) \<in> {0, 1} \<and> 0 < rg_refs r"

definition table_view :: "table \<Rightarrow> nat \<Rightarrow> region option" where
  "table_view s h = (case s h of None \<Rightarrow> None | Some r \<Rightarrow> if proper h r then Some r else None)"

definition clean :: "table \<Rightarrow> table" where
  "clean s = (\<lambda>h. table_view s h)"

definition table_lib :: "table shmem_lib" where
  "table_lib = \<lparr>EINVAL = 22, ENOENT = 2, EACCES = 13, EEXIST = 17, EIO = 5, ENOMEM = 12, MODE_READ_ONLY = 0, MODE_READ_WRITE = 1,
     c_page_sz_to_cstr = (\<lambda>x. if x = 4096 then ascii ''normal'' else if x = 2097152 then ascii ''huge'' else if x = 1073741824 then ascii ''gigantic'' else ascii ''unknown''),
     c_cstr_to_page_sz = (\<lambda>c. if c = ascii ''normal'' @ [0] then 4096 else if c = ascii ''huge'' @ [0] then 2097152
        else if c = ascii ''gigantic'' @ [0] then 1073741824 else 0),
     c_numa_cnt = 1, c_cpu_cnt = 4, c_numa_idx = (\<lambda>c. if c < 4 then 0 else - 1), c_cpu_idx = (\<lambda>n. if n = 0 then 0 else - 1),
     c_numa_validate = (\<lambda>p sz cnt cpu s. 0),
     c_join = (\<lambda>n m l s. Some (table_join (butlast n) m (clean s))),
     c_leave = (\<lambda>h s. case clean s h of None \<Rightarrow> None
        | Some r \<Rightarrow> Some (0, (clean s)(h := if rg_refs r = 1 then None else Some (r\<lparr>rg_refs := rg_refs r - 1\<rparr>)))),
     c_query_by_name = (\<lambda>n s. case clean s (4096 * (length n - 1)) of None \<Rightarrow> (2, \<lparr>cj_ref_cnt = 0, cj_shmem = 0, cj_page_sz = 0, cj_page_cnt = 0, cj_mode = 0, cj_name = []\<rparr>)
        | Some r \<Rightarrow> (0, rg_info r)),
     c_create_multi = (\<lambda>n sz k cnts cpus mode s. (0, s)), c_unlink = (\<lambda>n sz s. (0, s)),
     c_info = (\<lambda>n sz s. (0, \<lparr>cs_page_sz = 4096, cs_page_cnt = 1\<rparr>)), c_acquire_multi = (\<lambda>sz cnts cpus s. (0, s)),
     c_release = (\<lambda>p sz cnt s. None), c_name_len = (\<lambda>n. of_nat (length n - 1)),
     c_iter_begin = (\<lambda>s. 0), c_iter_next = (\<lambda>p s. 0), c_iter_at = (\<lambda>p s. None),
     c_bytes_at = (\<lambda>p n s. case clean s p of None \<Rightarrow> None | Some r \<Rightarrow> if n = 4096 then Some (replicate 4096 0) else None)\<rparr>"

lemma table_view_upd: "proper h r \<Longrightarrow> table_view (s(h \<mapsto> r)) = (table_view s)(h \<mapsto> r)" "table_view (s(h := None)) = (table_view s)(h := None)"
  by (auto simp: table_view_def fun_eq_iff)

lemma table_view_clean [simp]: "table_view (clean s) = table_view s"
  by (auto simp: table_view_def clean_def fun_eq_iff split: option.splits)

lemma clean_proper: "clean s h = Some r \<Longrightarrow> proper h r"
  by (auto simp: clean_def table_view_def split: option.splits if_splits)

lemma proper_name: "proper h r \<Longrightarrow> rg_name r \<noteq> []"
  by (auto simp: proper_def)

lemma view_clean: "table_view s h = clean s h"
  by (simp add: clean_def)

interpretation tables: region_table table_lib table_view
proof
  show "\<exists>h i s'. c_join table_lib (n @ [0]) m l s = Some ((h, i), s') \<and>
      (if h = 0 then table_view s' = table_view s
       else (case table_view s h of
          None \<Rightarrow> table_view s' = (table_view s)(h \<mapsto> \<lparr>rg_name = n, rg_info = i, rg_refs = 1\<rparr>) \<and> (\<forall>k r. table_view s k = Some r \<longrightarrow> rg_name r \<noteq> n)
        | Some r \<Rightarrow> rg_name r = n \<and> cj_shmem i = cj_shmem (rg_info r) \<and> cj_page_sz i = cj_page_sz (rg_info r) \<and>
            cj_page_cnt i = cj_page_cnt (rg_info r) \<and> cj_mode i = cj_mode (rg_info r) \<and> table_view s' = (table_view s)(h \<mapsto> r\<lparr>rg_refs := Suc (rg_refs r)\<rparr>)) \<and>
         page_size_from_raw (cj_page_sz i) \<noteq> None \<and> mode_from_raw table_lib (cj_mode i) \<noteq> None)"
    if "0 \<notin> set n" for n m l s
  proof (cases "clean s (4096 * length n)")
    case None
    have "\<forall>k r. clean s k = Some r \<longrightarrow> rg_name r \<noteq> n" using None clean_proper by (auto simp: proper_def)
    then show ?thesis using None
      by (auto simp: table_lib_def table_join_def view_clean Let_def table_view_upd proper_def page_size_from_raw_def mode_from_raw_def)
  next
    case (Some r)
    have p: "proper (4096 * length n) r" using clean_proper [OF Some] .
    have ne: "rg_name r \<noteq> []" by (rule proper_name [OF p])
    have "proper (4096 * length n) (r\<lparr>rg_refs := Suc (rg_refs r)\<rparr>)" using p ne by (simp add: proper_def)
    then have v: "table_view ((clean s)(4096 * length n \<mapsto> r\<lparr>rg_refs := Suc (rg_refs r)\<rparr>)) = (table_view s)(4096 * length n \<mapsto> r\<lparr>rg_refs := Suc (rg_refs r)\<rparr>)"
      by (simp only: table_view_upd table_view_clean)
    have tv: "table_view s (4096 * length n) = Some r" using Some by (simp add: view_clean)
    have raw: "page_size_from_raw (cj_page_sz (rg_info r)) \<noteq> None" "mode_from_raw table_lib (cj_mode (rg_info r)) \<noteq> None"
      using p by (auto simp: proper_def page_size_from_raw_def mode_from_raw_def table_lib_def)
    have j: "c_join table_lib (n @ [0]) m l s = Some (if rg_name r = n
        then ((4096 * length n, (rg_info r)\<lparr>cj_ref_cnt := int (Suc (rg_refs r))\<rparr>), (clean s)(4096 * length n \<mapsto> r\<lparr>rg_refs := Suc (rg_refs r)\<rparr>))
        else ((0, (rg_info r)\<lparr>cj_ref_cnt := int (Suc (rg_refs r))\<rparr>), clean s))"
      using Some by (simp add: table_lib_def table_join_def Let_def)
    show ?thesis
    proof (cases "rg_name r = n")
      case True
      then show ?thesis unfolding j using tv raw v ne by simp
    next
      case False
      then show ?thesis unfolding j using table_view_clean [of s] by simp
    qed
  qed
  show "\<exists>c s'. c_leave table_lib h s = Some (c, s') \<and>
      table_view s' = (table_view s)(h := if rg_refs r = 1 then None else Some (r\<lparr>rg_refs := rg_refs r - 1\<rparr>))"
    if "table_view s h = Some r" for s h r
  proof -
    have r: "clean s h = Some r" using that by (simp add: view_clean)
    have "proper h (r\<lparr>rg_refs := rg_refs r - 1\<rparr>)" if "rg_refs r \<noteq> 1" using clean_proper [OF r] that by (auto simp: proper_def)
    then show ?thesis using r by (auto simp: table_lib_def table_view_upd)
  qed
  show "\<exists>b. length b = unat (cj_page_sz (rg_info r) * cj_page_cnt (rg_info r)) \<and>
      c_bytes_at table_lib (cj_shmem (rg_info r)) (unat (cj_page_sz (rg_info r) * cj_page_cnt (rg_info r))) s = Some b"
    if "table_view s h = Some r" for s h r
    using that clean_proper [of s h r] by (auto simp: table_lib_def view_clean proper_def)
qed

section \<open>Properties\<close>

text \<open>Take a library that counts joins as documented and a client that joins names and drops its joins in any order. It never leaves the
  contract of C; at every moment the references of each region are the number of joins held on it, and every join held can be
  read over its whole size; when all joins are dropped, nothing stays joined.\<close>

theorem shmem_joins_counted:
  assumes "region_table lib view" and "view s = Map.empty"
  shows "\<exists>js s' s''. client_run lib xs ([], s) = (Ok (), js, s') \<and>
    (\<forall>h. count_list (map join_handle js) h = (case view s' h of None \<Rightarrow> 0 | Some r \<Rightarrow> rg_refs r)) \<and>
    (\<forall>j \<in> set js. \<exists>b. shmem_as_slice lib j s' = Ok b \<and> length b = unat (join_total_size (sj_info j))) \<and>
    client_run lib (replicate (length js) (Drop 0)) (js, s') = (Ok (), [], s'') \<and> view s'' = Map.empty"
proof -
  have "joins_ok (view s) []" using assms(2) by (simp add: joins_ok_def handles_def)
  then obtain js s' where run: "client_run lib xs ([], s) = (Ok (), js, s')" "joins_ok (view s') js"
    using region_table.client_ok [OF assms(1)] by blast
  moreover have "\<forall>h. count_list (map join_handle js) h = (case view s' h of None \<Rightarrow> 0 | Some r \<Rightarrow> rg_refs r)"
    using run(2) by (simp add: joins_ok_def handles_def)
  ultimately show ?thesis
    using region_table.drop_all [OF assms(1) run(2)] region_table.slice_ok [OF assms(1) run(2)] by blast
qed

theorem shmem_joins_counted_witness:
  "\<exists>js s'. client_run table_lib [Join [97] ReadWrite False, Join [97] ReadWrite False, Join [98, 99] ReadOnly True, Drop 1] ([], Map.empty) = (Ok (), js, s') \<and>
     (\<forall>h. count_list (map join_handle js) h = (case table_view s' h of None \<Rightarrow> 0 | Some r \<Rightarrow> rg_refs r))"
proof -
  have "table_view Map.empty = Map.empty" by (simp add: table_view_def fun_eq_iff)
  from shmem_joins_counted [where lib = table_lib and view = table_view and s = Map.empty, OF tables.region_table_axioms this] show ?thesis by blast
qed

text \<open>
  Two joins of one region give mutable access to the same memory at the same time: a safe program holds two exclusive
  slices that are one.
\<close>

theorem joins_alias:
  assumes "region_table lib view" and "view s = Map.empty"
    and "client_run lib [Join n ReadWrite l, Join n ReadWrite l] ([], s) = (Ok (), [a, b], s')" and "join_handle a = join_handle b"
    and "ji_mode (sj_info a) = ReadWrite" and "ji_mode (sj_info b) = ReadWrite"
  shows "shmem_as_mut_slice a = shmem_as_mut_slice b \<and> (\<exists>m. shmem_as_mut_slice a = Ok m)"
proof -
  have "joins_ok (view s) []" using assms(2) by (simp add: joins_ok_def handles_def)
  then have "joins_ok (view s') [a, b]" using region_table.client_ok [OF assms(1), of s "[]" "[Join n ReadWrite l, Join n ReadWrite l]"] assms(3) by auto
  then obtain r where "view s' (join_handle b) = Some r" "address (sj_info a) = address (sj_info b)"
      "raw_size (ji_page_size (sj_info a)) = raw_size (ji_page_size (sj_info b))" "ji_page_count (sj_info a) = ji_page_count (sj_info b)"
    using assms(4) unfolding joins_ok_def by auto
  then show ?thesis using assms(5,6) by (simp add: shmem_as_mut_slice_def join_mut_slice_def join_total_size_def)
qed

text \<open>Page sizes: the raw value determines the size, which is the power of two that \<open>log2_size\<close> says; the pages counted for a slice of
  memory cover it, and one page less does not.\<close>

theorem page_sizes:
  "page_size_from_raw (raw_size p) = Some p" "size_bytes p = 2 ^ nat (log2_size p)"
  "len \<le> page_count_for len p * size_bytes p" "0 < len \<Longrightarrow> (page_count_for len p - 1) * size_bytes p < len"
proof -
  show "page_size_from_raw (raw_size p) = Some p" "size_bytes p = 2 ^ nat (log2_size p)"
    by (cases p; simp add: page_size_from_raw_def raw_size_def)+
  have s: "0 < size_bytes p" by (cases p) simp_all
  have d: "page_count_for len p * size_bytes p + (len + size_bytes p - 1) mod size_bytes p = len + size_bytes p - 1"
    unfolding page_count_for_def by (rule div_mult_mod_eq)
  have m: "(len + size_bytes p - 1) mod size_bytes p < size_bytes p" using s by simp
  show "len \<le> page_count_for len p * size_bytes p" using d m by linarith
  show "(page_count_for len p - 1) * size_bytes p < len" if "0 < len"
    using d s that unfolding diff_mult_distrib by linarith
qed

text \<open>
  At an entry of unknown page size or mode the iterator answers that there is no more and stays where it is: however often it is asked, the
  entries after it never come.
\<close>

theorem iterator_stuck:
  assumes "c_iter_at lib p s = Some c" and "page_size_from_raw (cj_page_sz c) = None \<or> mode_from_raw lib (cj_mode c) = None"
  shows "iterator_next lib p s = (Ok None, p)"
  using assms by (auto simp: iterator_next_def split: option.splits)

text \<open>On an entry that it knows the iterator gives what \<open>query_by_name\<close> gives for the same C struct, and moves on.\<close>

theorem iterator_agrees_with_query:
  assumes "c_iter_at lib p s = Some c" and "p \<noteq> 0" and "c_query_by_name lib (n @ [0]) s = (0, c)" and "0 \<notin> set n"
    and "query_by_name lib n s = Ok i"
  shows "iterator_next lib p s = (Ok (Some i), c_iter_next lib p s)"
proof -
  have "join_info_from lib c = Ok i" using assms(3-5) by (simp add: query_by_name_def c_name_def cstring_new_def)
  then show ?thesis using assms(1,2) by (simp add: join_info_from_def iterator_next_def split: option.splits)
qed

end
