(* ===== verification/Spec2Isabelle.thy ===== *)
theory Spec2Isabelle
  imports Txn_Parse_Props Json_Properties Rpc_Findings Rpc_Client_Props Rpc_Io_Props Xdp_Props Ed25519_Props
    Json_Value_Props Http_Server_Props Http_Url Clock_Shmem Base64 Scratch Tmpl_Props Bits_Net Toml Shred Spad Wksp Grpc Quic Zstd Checkpt Svm Nanopb Sbpf Tpool Shmem
begin

text \<open>
  Verification of \<open>firedancer-rs\<close>, Rust crates over the Firedancer C libraries (paths below are under
  \<open>src/crates/\<close>). The development covers the crates that carry logic of their own.

  \<^bold>\<open>Parts and theories.\<close>

  \<^item> Transactions, \<open>ballet/txn/fd_txn\<close>. \<open>Txn_Builder\<close>: the state of \<open>TransactionBuilder\<close> (\<open>builder.rs\<close>) as
    a record with its fixed arrays, every public method, the well-formedness invariant.
    \<open>Txn_Refine\<close>: the abstract transaction (accounts with privileges, instructions) and the
    refinement of every call. \<open>Txn_Build\<close>: \<open>build\<close> with its sort, remapping, header counts and bounded
    writes, and \<open>UnsignedTransaction\<close>; \<open>Emit\<close> is the locale of bounded serialisers it and the
    request formatter share. \<open>Compact_U16\<close>: the compact-u16 wrappers (\<open>lib.rs\<close>, \<open>fd_txn_sys/src/lib.rs\<close>).
    \<open>Txn_Parse\<close>: \<open>Transaction::parse\<close>, accessors and iterators (\<open>lib.rs\<close>). \<open>Txn_Properties\<close> shows that
    \<open>build\<close> returns the wire format of what the calls describe, its exact errors, and that it succeeds on
    what fits; \<open>Txn_Parse_Props\<close> that a built transaction reads back as
    described and that the bytes of its message give every key the privileges the calls asked for.
  \<^item> The JSON-RPC client, \<open>waltz/rpc/fd_rpc\<close>. \<open>Json_Scan\<close> and \<open>Json_Access\<close>: the scanner of
    \<open>json_scan.rs\<close> with UTF-8, integer and double parsing; \<open>Json_Grammar\<close> (documents and their
    texts), \<open>Json_Lookup\<close> and \<open>Json_Properties\<close> show that it never panics and finds exactly the
    members, elements and values of a document. \<open>Rpc_Format\<close>: request and parameter formatting
    (\<open>utils.rs\<close>, \<open>jsonrpc.rs\<close>, \<open>solana.rs\<close>, \<open>http.rs\<close>); \<open>Rpc_Format_Props\<close>: its output is well-formed JSON of the
    intended content. \<open>Rpc_Results\<close>, \<open>Rpc_Results_Props\<close>: response and result parsing.
    \<open>Rpc_Http\<close>, \<open>Rpc_Http_Props\<close>: HTTP over the connection (\<open>http.rs\<close>, \<open>io.rs\<close>), correct however the network
    cuts the response. \<open>Rpc_Io\<close>, \<open>Rpc_Io_Props\<close>: the connection itself
    (\<open>fd_rpc_sys/csrc/fd_rpc_io.c\<close>), which is shown to provide the contract \<open>tcp_conn\<close> that the HTTP layer
    relies on. \<open>Rpc_Client\<close>, \<open>Rpc_Client_Props\<close>: \<open>SolanaRpcClient\<close> with its retry loop, end to end.
    \<open>Rpc_Findings\<close>: two defects. \<open>Xdp\<close>, \<open>Xdp_Props\<close>: the kernel-bypass sender (\<open>xdp.rs\<close>) with the
    ring it shares with the kernel.
  \<^item> Keys, \<open>ballet/ed25519/fd_ed25519\<close>. \<open>Ed25519\<close>, \<open>Ed25519_Props\<close>: program derived addresses, signatures,
    batches, encodings.
  \<^item> JSON values, \<open>ballet/json/fd_json\<close>. \<open>Json_Value\<close>, \<open>Json_Value_Props\<close>: values, conversion from and to
    cJSON trees with allocation, printing, parsing and the macros.
  \<^item> The HTTP server, \<open>waltz/http/fd_http\<close>. \<open>Http_Server\<close>: the memory of the server, the response that is handed to C
    with its body and header strings, the callbacks and the tables that keep what C still reads;
    \<open>Http_Server_Props\<close>: every response C may still read is allocated, nothing is freed twice. \<open>Http_Url\<close>: URL
    splitting against RFC 3986.
  \<^item> The clock, \<open>util/clock/fd_clock\<close>. \<open>Clock_Shmem\<close>: creation, opening, joining and release of a clock in POSIX
    shared memory, on every error path.
  \<^item> Base64, \<open>ballet/base64/fd_base64\<close>. \<open>Base64\<close>: buffer sizes, round trips and errors of every function.
  \<^item> Scratch memory, \<open>util/scratch/fd_scratch\<close>. \<open>Scratch\<close>: frames, allocations and the allocator's life; blocks
    with nested frames hold disjoint allocations and give back all they took.
  \<^item> Containers, \<open>util/tmpl/fd_tmpl\<close>. \<open>Tmpl\<close>: the eight wrappers of C templates; \<open>Tmpl_Props\<close>: their life, and the
    refinement of stack, queue and string deque to lists.
  \<^item> Integers and addresses, \<open>util/bits/fd_bits\<close>, \<open>util/net/fd_net\<close>. \<open>Bits_Net\<close>: bit positions, byte order, roots,
    MAC and IPv4 addresses.
  \<^item> TOML, \<open>ballet/toml/fd_toml\<close>. \<open>Toml\<close>: parsing into the parser's memory and the typed queries with their sentinels.
  \<^item> Shreds, \<open>ballet/shred/fd_shred\<close>. \<open>Shred\<close>: types, parsing and every accessor, whose reads stay inside the shred.
  \<^item> Shared pads, \<open>util/spad/fd_spad\<close>. \<open>Spad\<close>: frames and allocations of a pad that several allocators share; what is
    live in the open frames is disjoint, in any order of calls.
  \<^item> Workspaces, \<open>util/wksp/fd_wksp\<close>. \<open>Wksp\<close>: allocations that free themselves, raw addresses, tags, checkpoints, the
    builder; what is owned is apart, and what is released is exactly what was owned.
  \<^item> The gRPC client, \<open>waltz/grpc/fd_grpc\<close>. \<open>Grpc\<close>: its two allocations, calls, trampolines, headers and deadlines; the
    callbacks see the events in order, and nothing is used after it was released.
  \<^item> QUIC, \<open>waltz/quic/fd_quic\<close>. \<open>Quic\<close>: configuration, the memory and phases of an endpoint, clients, servers and the
    order of their destruction; what \<open>accept\<close> hands out. The code uses an endpoint whose handle it has dropped, which nothing
    documents; that this works is the separate assumption \<open>quic_left\<close>, and \<open>connect_after_leave\<close> shows what happens without it.
  \<^item> Zstandard, \<open>ballet/zstd/fd_zstd\<close>. \<open>Zstd\<close>: frame headers, streams and the loop of \<open>decompress_all\<close>, which always
    ends and loses at most the end of the last frame.
  \<^item> Checkpoints, \<open>util/checkpt/fd_checkpt\<close>. \<open>Checkpt\<close>: writers and readers of frames with their memory and descriptors; what
    is written to a buffer reads back.
  \<^item> The virtual machine, \<open>flamenco/svm/fd_svm\<close>. \<open>Svm\<close>: memory, configuration and limits, execution, and the runtime calls.
    A machine keeps the addresses it was configured with; it is in contract for a client that keeps those buffers and minds the results, and
    not beyond.
  \<^item> Protocol buffers, \<open>ballet/nanopb/fd_nanopb\<close>. \<open>Nanopb\<close>: streams, iterators and messages; what is written reads back.
  \<^item> Programs, \<open>ballet/sbpf/fd_sbpf\<close>. \<open>Sbpf\<close>: ELF headers, loading into aligned buffers, instructions; all memory that C uses is owned.
  \<^item> Thread pools, \<open>util/tpool/fd_tpool\<close>. \<open>Tpool\<close>: memory and options of a pool; the partition of work is exact and even.
  \<^item> Shared memory, \<open>util/shmem/fd_shmem\<close>. \<open>Shmem\<close>: page sizes, regions, joins with their reference counts, the iterator.
  \<^item> \<open>Ownership\<close>: allocations with explicit addresses and maps of objects that own them, the
    setting of the server, the scratch pad, the containers, the gRPC client and the QUIC endpoints. \<open>Rust_Std\<close>: lossy UTF-8, C strings, alignment.
  \<^item> \<open>Prelude\<close>: machine integers, byte strings, outcomes (\<open>Ok\<close>, \<open>Err\<close>, \<open>Panic\<close>), slices, generic facts.

  \<^bold>\<open>How code becomes definitions.\<close> A function that may fail returns \<open>res\<close>, with \<open>Panic\<close> for an index out of range, a
  failed assertion or an access outside a buffer. A method on \<open>&mut self\<close> returns its outcome and the new
  state, on error paths too. Integers whose wrap-around or truncation matters are words; lengths of and offsets
  into in-memory buffers are natural numbers.

  \<^bold>\<open>Parameters.\<close> Code that is not in the repository (the Firedancer C libraries and their generated bindings,
  cJSON, picohttpparser, OpenSSL and the system) is a record of functions passed to the definitions: \<open>txn_sys\<close>,
  \<open>txn_lib\<close>, \<open>io_lib\<close> (for the parts of \<open>fd_rpc_io\<close> an instance is defined from the modelled C code), \<open>rbuf_lib\<close>,
  \<open>xsk_lib\<close>, \<open>ed_lib\<close>, \<open>cjson_lib\<close>, \<open>http_lib\<close>, \<open>url_lib\<close>, \<open>posix\<close>, \<open>base64_lib\<close>, \<open>scratch_lib\<close>, one per container
  template, \<open>bits_lib\<close>, \<open>net_lib\<close>, \<open>toml_lib\<close>, \<open>shred_lib\<close>, \<open>spad_lib\<close>, \<open>wksp_lib\<close>, \<open>grpc_lib\<close>, \<open>quic_lib\<close>,
  \<open>zstd_lib\<close>, \<open>checkpt_lib\<close>, \<open>svm_lib\<close>, \<open>sol_lib\<close>, \<open>pb_lib\<close>, \<open>sbpf_lib\<close>, \<open>tpool_lib\<close>, \<open>shmem_lib\<close>. What the code relies on of them are locales and named predicates
  (\<open>cu16_laws\<close>, \<open>txn_parser\<close>, \<open>tcp_conn\<close>, \<open>response_head\<close>, \<open>chunk_run\<close>, \<open>rbuf\<close>, \<open>xsk_laws\<close>, \<open>sha256_stream\<close>,
  \<open>batch_law\<close>, \<open>cjson\<close>, \<open>posix_shm\<close>, \<open>base64_codec\<close>, \<open>scratch_pad\<close>, \<open>template\<close>, \<open>c_stack\<close>, \<open>c_queue\<close>, \<open>c_deque\<close>,
  \<open>root_functions\<close>, \<open>mac_parser\<close>, \<open>pod_store\<close>, \<open>shred_layout\<close>, \<open>shared_pad\<close>, \<open>workspace\<close>, \<open>grpc_laws\<close>, \<open>quic_laws\<close>, \<open>quic_left\<close>,
  \<open>zstd_decoder\<close>, \<open>frame_format\<close>, \<open>machine\<close>, \<open>wire_format\<close>, \<open>sbpf_loader\<close>, \<open>c_pool\<close>, \<open>region_table\<close>), each shown to hold of an executable implementation.

  \<^bold>\<open>Loops and fuel.\<close> Scanner loops recurse on the remaining length. Network loops recurse over the list of events
  and clock readings, one per pump; \<open>None\<close> means that the list ended while the code was still waiting, and the
  theorems bound how many events are needed. The retry loop has its six attempts. Conversion of a cJSON tree
  takes fuel for its nested steps; \<open>steps\<close> of the value is shown to be enough.

  \<^bold>\<open>Not modelled.\<close> \<open>Display\<close> and \<open>Debug\<close> impls except that of \<open>JsonError\<close>, \<open>serde\<close> impls, \<open>Drop\<close> impls that only
  release memory or descriptors (the close of a connection is modelled), build scripts and bindings. The remaining
  crates are thin wrappers whose behaviour is that of the C library they call (\<open>tile\<close>, \<open>valloc\<close>, \<open>log\<close>, the hashes and the caches), or output only
  (\<open>tracing\<close>). Of a C container, pad, workspace, clock, server or endpoint only its documented behaviour is assumed
  (but for \<open>quic_left\<close>), never its layout.
\<close>

end
